(* ===== verification/Prelude.thy ===== *)
theory Prelude
  imports Main "HOL-Library.AList"
begin

text \<open>
  Shared vocabulary of the development. A Rust \<open>String\<close> or \<open>&str\<close> is an Isabelle
  \<open>string\<close> read as its UTF-8 bytes, so \<open>length\<close> is \<open>str::len\<close>; \<open>utf8_chars\<close> gives the
  code points \<open>str::chars\<close> iterates over. Fallible functions return \<open>'e + 'a\<close> with the
  error on the left. An \<open>Instant\<close> and a \<open>Duration\<close> are \<open>nat\<close> nanoseconds: truncated
  subtraction on \<open>nat\<close> is exactly \<open>Instant::duration_since\<close>, which saturates at zero.
  The locale \<open>invariant_system\<close> is the interface every state machine below provides:
  a step function together with an invariant that each step keeps.
\<close>

named_theorems run_simps \<open>unfolding rules for runs of a component\<close>

section \<open>Strings\<close>

type_synonym instant = nat
type_synonym duration = nat

abbreviation secs :: "nat \<Rightarrow> duration" where
  "secs n \<equiv> n * 1000000000"

abbreviation millis :: "nat \<Rightarrow> duration" where
  "millis n \<equiv> n * 1000000"

abbreviation u64_max :: nat where
  "u64_max \<equiv> 18446744073709551615"

definition saturating_add_u64 :: "nat \<Rightarrow> nat \<Rightarrow> nat" where
  "saturating_add_u64 a b = min (a + b) u64_max"

definition is_ascii_digit :: "char \<Rightarrow> bool" where
  "is_ascii_digit c \<longleftrightarrow> 48 \<le> (of_char c :: nat) \<and> (of_char c :: nat) \<le> 57"

definition is_ascii_lower :: "char \<Rightarrow> bool" where
  "is_ascii_lower c \<longleftrightarrow> 97 \<le> (of_char c :: nat) \<and> (of_char c :: nat) \<le> 122"

definition is_ascii_upper :: "char \<Rightarrow> bool" where
  "is_ascii_upper c \<longleftrightarrow> 65 \<le> (of_char c :: nat) \<and> (of_char c :: nat) \<le> 90"

definition is_ascii_alnum :: "char \<Rightarrow> bool" where
  "is_ascii_alnum c \<longleftrightarrow> is_ascii_digit c \<or> is_ascii_lower c \<or> is_ascii_upper c"

definition is_ascii_hex :: "char \<Rightarrow> bool" where
  "is_ascii_hex c \<longleftrightarrow> is_ascii_digit c
     \<or> (97 \<le> (of_char c :: nat) \<and> (of_char c :: nat) \<le> 102)
     \<or> (65 \<le> (of_char c :: nat) \<and> (of_char c :: nat) \<le> 70)"

definition is_ascii_char :: "char \<Rightarrow> bool" where
  "is_ascii_char c \<longleftrightarrow> (of_char c :: nat) < 128"

definition is_ascii_control :: "char \<Rightarrow> bool" where
  "is_ascii_control c \<longleftrightarrow> (of_char c :: nat) < 32 \<or> (of_char c :: nat) = 127"

text \<open>\<open>char::is_control\<close>: the Unicode category Cc.\<close>

definition is_control :: "nat \<Rightarrow> bool" where
  "is_control c \<longleftrightarrow> c < 32 \<or> (127 \<le> c \<and> c \<le> 159)"

definition to_ascii_lower :: "char \<Rightarrow> char" where
  "to_ascii_lower c = (if is_ascii_upper c
     then (case c of Char b0 b1 b2 b3 b4 b5 b6 b7 \<Rightarrow> Char b0 b1 b2 b3 b4 True b6 b7) else c)"

lemma of_char_to_ascii_lower:
  "of_char (to_ascii_lower c) = (if is_ascii_upper c then of_char c + 32 else (of_char c :: nat))"
proof (cases c)
  case (Char b0 b1 b2 b3 b4 b5 b6 b7)
  then show ?thesis
    by (cases b5) (auto simp: to_ascii_lower_def is_ascii_upper_def of_char_def split: if_splits)
qed

text \<open>
  Decoding of UTF-8, one byte at a time: how many continuation bytes are still due, and the
  value so far. A Rust string is always valid UTF-8, so only well-formed input matters.
\<close>

fun utf8_go :: "nat \<Rightarrow> nat \<Rightarrow> string \<Rightarrow> nat list" where
  "utf8_go due acc [] = []"
| "utf8_go due acc (c # s) =
     (let n = (of_char c :: nat)
      in if n < 128 then n # utf8_go 0 0 s
         else if n < 192 then
           (if due = 0 then utf8_go 0 0 s
            else if due = 1 then (acc * 64 + n mod 64) # utf8_go 0 0 s
            else utf8_go (due - 1) (acc * 64 + n mod 64) s)
         else if n < 224 then utf8_go 1 (n mod 32) s
         else if n < 240 then utf8_go 2 (n mod 16) s
         else utf8_go 3 (n mod 8) s)"

definition utf8_chars :: "string \<Rightarrow> nat list" where
  "utf8_chars s = utf8_go 0 0 s"

lemma utf8_chars_Nil [simp]: "utf8_chars [] = []"
  by (simp add: utf8_chars_def)

lemma utf8_chars_ascii: "list_all is_ascii_char s \<Longrightarrow> utf8_chars s = map of_char s"
  unfolding utf8_chars_def by (induction s) (auto simp: is_ascii_char_def Let_def)

lemma utf8_go_ascii_sep:
  "is_ascii_char c \<Longrightarrow> utf8_go k acc (a @ c # b) = utf8_go k acc a @ of_char c # utf8_go 0 0 b"
  by (induction k acc a rule: utf8_go.induct) (auto simp: is_ascii_char_def Let_def)

lemma utf8_chars_sep:
  "is_ascii_char c \<Longrightarrow> utf8_chars (a @ c # b) = utf8_chars a @ of_char c # utf8_chars b"
  by (simp add: utf8_chars_def utf8_go_ascii_sep)

text \<open>
  UTF-8 as \<open>str::from_utf8\<close> accepts it: the ranges of the bytes that may follow a lead byte
  (so neither overlong forms nor surrogates).
\<close>

definition utf8_follow :: "nat \<Rightarrow> (nat \<times> nat) list option" where
  "utf8_follow n =
     (let cont = (0x80, 0xBF)
      in if n < 0x80 then Some []
         else if 0xC2 \<le> n \<and> n \<le> 0xDF then Some [cont]
         else if n = 0xE0 then Some [(0xA0, 0xBF), cont]
         else if n = 0xED then Some [(0x80, 0x9F), cont]
         else if 0xE1 \<le> n \<and> n \<le> 0xEF then Some [cont, cont]
         else if n = 0xF0 then Some [(0x90, 0xBF), cont, cont]
         else if 0xF1 \<le> n \<and> n \<le> 0xF3 then Some [cont, cont, cont]
         else if n = 0xF4 then Some [(0x80, 0x8F), cont, cont]
         else None)"

fun utf8_check :: "(nat \<times> nat) list \<Rightarrow> string \<Rightarrow> bool" where
  "utf8_check rs [] = (rs = [])"
| "utf8_check ((lo, hi) # rs) (c # s) =
     (lo \<le> of_char c \<and> of_char c \<le> hi \<and> utf8_check rs s)"
| "utf8_check [] (c # s) = (case utf8_follow (of_char c) of
     None \<Rightarrow> False | Some rs \<Rightarrow> utf8_check rs s)"

definition utf8_valid :: "string \<Rightarrow> bool" where
  "utf8_valid s = utf8_check [] s"

text \<open>\<open>str::split\<close> on one character: always at least one piece.\<close>

fun split_on :: "'a \<Rightarrow> 'a list \<Rightarrow> 'a list list" where
  "split_on c [] = [[]]"
| "split_on c (x # xs) =
     (if x = c then [] # split_on c xs
      else (case split_on c xs of [] \<Rightarrow> [[x]] | p # ps \<Rightarrow> (x # p) # ps))"

text \<open>\<open>[T]::join\<close> with a one-character separator.\<close>

fun join_with :: "'a \<Rightarrow> 'a list list \<Rightarrow> 'a list" where
  "join_with c [] = []"
| "join_with c [p] = p"
| "join_with c (p # q # ps) = p @ c # join_with c (q # ps)"

fun split_once :: "'a \<Rightarrow> 'a list \<Rightarrow> ('a list \<times> 'a list) option" where
  "split_once c [] = None"
| "split_once c (x # xs) =
     (if x = c then Some ([], xs)
      else map_option (\<lambda>(l, r). (x # l, r)) (split_once c xs))"

fun starts_with :: "'a list \<Rightarrow> 'a list \<Rightarrow> bool" where
  "starts_with s [] = True"
| "starts_with [] (p # ps) = False"
| "starts_with (x # xs) (p # ps) = (x = p \<and> starts_with xs ps)"

definition strip_prefix :: "'a list \<Rightarrow> 'a list \<Rightarrow> 'a list option" where
  "strip_prefix p s = (if starts_with s p then Some (drop (length p) s) else None)"

definition strip_suffix :: "'a list \<Rightarrow> 'a list \<Rightarrow> 'a list option" where
  "strip_suffix p s = map_option rev (strip_prefix (rev p) (rev s))"

fun contains_sub :: "'a list \<Rightarrow> 'a list \<Rightarrow> bool" where
  "contains_sub [] p = (p = [])"
| "contains_sub (x # xs) p = (starts_with (x # xs) p \<or> contains_sub xs p)"

definition trim_end_char :: "'a \<Rightarrow> 'a list \<Rightarrow> 'a list" where
  "trim_end_char c s = rev (dropWhile (\<lambda>x. x = c) (rev s))"

definition trim_chars :: "('a \<Rightarrow> bool) \<Rightarrow> 'a list \<Rightarrow> 'a list" where
  "trim_chars p s = rev (dropWhile p (rev (dropWhile p s)))"

text \<open>
  \<open>str::trim\<close>: the UTF-8 encodings of the characters Unicode calls white space, taken
  off both ends.
\<close>

definition whitespace_seqs :: "string list" where
  "whitespace_seqs = [
     [CHR 0x09],
     [CHR 0x0A],
     [CHR 0x0B],
     [CHR 0x0C],
     [CHR 0x0D],
     [CHR 0x20],
     [CHR 0xC2, CHR 0x85],
     [CHR 0xC2, CHR 0xA0],
     [CHR 0xE1, CHR 0x9A, CHR 0x80],
     [CHR 0xE2, CHR 0x80, CHR 0x80],
     [CHR 0xE2, CHR 0x80, CHR 0x81],
     [CHR 0xE2, CHR 0x80, CHR 0x82],
     [CHR 0xE2, CHR 0x80, CHR 0x83],
     [CHR 0xE2, CHR 0x80, CHR 0x84],
     [CHR 0xE2, CHR 0x80, CHR 0x85],
     [CHR 0xE2, CHR 0x80, CHR 0x86],
     [CHR 0xE2, CHR 0x80, CHR 0x87],
     [CHR 0xE2, CHR 0x80, CHR 0x88],
     [CHR 0xE2, CHR 0x80, CHR 0x89],
     [CHR 0xE2, CHR 0x80, CHR 0x8A],
     [CHR 0xE2, CHR 0x80, CHR 0xA8],
     [CHR 0xE2, CHR 0x80, CHR 0xA9],
     [CHR 0xE2, CHR 0x80, CHR 0xAF],
     [CHR 0xE2, CHR 0x81, CHR 0x9F],
     [CHR 0xE3, CHR 0x80, CHR 0x80]]"

lemma whitespace_seqs_nonempty: "[] \<notin> set whitespace_seqs"
  by (auto simp: whitespace_seqs_def)

text \<open>\<open>Iterator::collect\<close> into an \<open>Option\<close> or a \<open>Result\<close>: all of them, or none.\<close>

fun all_some :: "'a option list \<Rightarrow> 'a list option" where
  "all_some [] = Some []"
| "all_some (None # xs) = None"
| "all_some (Some x # xs) = map_option ((#) x) (all_some xs)"

lemma all_some_map: "list_all (\<lambda>x. f x = Some (g x)) xs \<Longrightarrow> all_some (map f xs) = Some (map g xs)"
  by (induction xs) simp_all

lemma find_SomeD: "find P xs = Some x \<Longrightarrow> x \<in> set xs \<and> P x"
  by (induction xs) (auto split: if_splits)

lemma find_None_iff': "find P xs = None \<longleftrightarrow> (\<forall>x \<in> set xs. \<not> P x)"
  by (induction xs) auto

lemma starts_with_longer: "w \<noteq> [] \<and> starts_with s w \<Longrightarrow> s \<noteq> [] \<and> w \<noteq> []"
  by (cases s; cases w) auto

function trim_start :: "string list \<Rightarrow> string \<Rightarrow> string" where
  "trim_start ws s =
     (case find (\<lambda>w. w \<noteq> [] \<and> starts_with s w) ws of
        None \<Rightarrow> s
      | Some w \<Rightarrow> trim_start ws (drop (length w) s))"
  by pat_completeness auto
termination
  by (relation "measure (\<lambda>(ws, s). length s)")
    (auto dest!: find_SomeD starts_with_longer)

declare trim_start.simps [simp del]

lemma trim_start_id: "\<forall>w \<in> set ws. w = [] \<or> \<not> starts_with s w \<Longrightarrow> trim_start ws s = s"
  by (subst trim_start.simps) (auto split: option.splits dest: find_SomeD)

definition trim_ws :: "string \<Rightarrow> string" where
  "trim_ws s = rev (trim_start (map rev whitespace_seqs) (rev (trim_start whitespace_seqs s)))"

lemma starts_with_append [simp]: "starts_with (p @ s) p"
  by (induction p) auto

lemma starts_with_iff: "starts_with s p \<longleftrightarrow> (\<exists>t. s = p @ t)"
  by (induction s p rule: starts_with.induct) auto

lemma starts_with_refl [simp]: "starts_with s s"
  using starts_with_append [of s "[]"] by simp

lemma starts_with_trans: "starts_with a b \<Longrightarrow> starts_with b c \<Longrightarrow> starts_with a c"
  by (auto simp: starts_with_iff)

lemma starts_with_antisym: "starts_with a b \<Longrightarrow> starts_with b a \<Longrightarrow> a = b"
  by (auto simp: starts_with_iff)

lemma strip_prefix_Some: "strip_prefix p s = Some t \<longleftrightarrow> s = p @ t"
  by (auto simp: strip_prefix_def starts_with_iff)

lemma split_on_nonempty [simp]: "split_on c s \<noteq> []"
  by (induction s) (auto split: list.splits)

lemma join_split_on [simp]: "join_with c (split_on c s) = s"
proof (induction s)
  case (Cons x xs)
  then show ?case
    by (cases "split_on c xs") (auto, (cases "tl (split_on c xs)"; auto)+)
qed simp

lemma split_on_no_sep: "c \<notin> set p \<Longrightarrow> split_on c p = [p]"
  by (induction p) auto

lemma split_on_append:
  "c \<notin> set p \<Longrightarrow> split_on c (p @ c # s) = p # split_on c s"
  by (induction p) auto

lemma split_on_pieces: "p \<in> set (split_on c s) \<Longrightarrow> c \<notin> set p"
  by (induction s arbitrary: p) (auto split: if_splits list.splits)

lemma split_on_subset: "p \<in> set (split_on c s) \<Longrightarrow> set p \<subseteq> set s"
  by (induction s arbitrary: p) (fastforce split: if_splits list.splits)+

lemma split_join_with:
  "ps \<noteq> [] \<Longrightarrow> \<forall>p \<in> set ps. c \<notin> set p \<Longrightarrow> split_on c (join_with c ps) = ps"
  by (induction ps rule: induct_list012) (auto simp: split_on_no_sep split_on_append)

lemma set_join_with: "set (join_with c ps) \<subseteq> insert c (\<Union> (set ` set ps))"
  by (induction ps rule: induct_list012) auto

lemma utf8_chars_join:
  "is_ascii_char c \<Longrightarrow>
   set (utf8_chars (join_with c ps)) \<subseteq> insert (of_char c) (\<Union> ((set \<circ> utf8_chars) ` set ps))"
  by (induction c ps rule: join_with.induct) (auto simp: utf8_chars_sep)

lemma utf8_chars_split_on:
  assumes "is_ascii_char c" and "p \<in> set (split_on c s)"
  shows "set (utf8_chars p) \<subseteq> set (utf8_chars s)"
proof -
  have "\<Union> ((set \<circ> utf8_chars) ` set ps) \<subseteq> set (utf8_chars (join_with c ps))" for ps
    using assms(1) by (induction c ps rule: join_with.induct) (auto simp: utf8_chars_sep)
  from this [of "split_on c s"] assms(2) show ?thesis by fastforce
qed

lemma length_join_filter:
  "length (join_with c (filter P ps)) \<le> length (join_with c ps)"
proof -
  have len: "length (join_with c qs) = sum_list (map (Suc \<circ> length) qs) - 1" for qs
    by (induction c qs rule: join_with.induct) (auto simp: comp_def)
  have "sum_list (map (Suc \<circ> length) (filter P ps)) \<le> sum_list (map (Suc \<circ> length) ps)"
    by (induction ps) auto
  then show ?thesis by (simp add: len diff_le_mono)
qed

lemma split_once_append:
  "c \<notin> set l \<Longrightarrow> split_once c (l @ c # r) = Some (l, r)"
  by (induction l) auto

lemma split_once_Some:
  "split_once c s = Some (l, r) \<Longrightarrow> s = l @ c # r \<and> c \<notin> set l"
  by (induction s arbitrary: l) (auto split: if_splits)

text \<open>Decimal printing of unsigned integers, as \<open>format!("{n}")\<close> does.\<close>

fun show_nat :: "nat \<Rightarrow> string" where
  "show_nat n = (if n < 10 then [char_of (48 + n)]
     else show_nat (n div 10) @ [char_of (48 + n mod 10)])"

declare show_nat.simps [simp del]

lemma show_nat_nonempty: "show_nat n \<noteq> []"
  by (subst show_nat.simps) simp

lemma show_nat_digits: "list_all is_ascii_digit (show_nat n)"
proof (induction n rule: show_nat.induct)
  case (1 n)
  then show ?case
    by (subst show_nat.simps)
      (auto simp: is_ascii_digit_def [abs_def] of_char_of take_bit_eq_mod)
qed

fun read_nat :: "string \<Rightarrow> nat \<Rightarrow> nat" where
  "read_nat [] acc = acc"
| "read_nat (c # cs) acc = read_nat cs (acc * 10 + (of_char c - 48))"

lemma read_nat_append: "read_nat (a @ b) acc = read_nat b (read_nat a acc)"
  by (induction a arbitrary: acc) auto

lemma read_show_nat: "read_nat (show_nat n) 0 = n"
proof (induction n rule: show_nat.induct)
  case (1 n)
  show ?case
  proof (cases "n < 10")
    case True
    then show ?thesis by (simp add: show_nat.simps [of n] of_char_of take_bit_eq_mod)
  next
    case False
    with 1 show ?thesis
      by (simp add: show_nat.simps [of n] read_nat_append of_char_of take_bit_eq_mod)
  qed
qed

lemma show_nat_inj: "show_nat a = show_nat b \<Longrightarrow> a = b"
  by (metis read_show_nat)

section \<open>Association lists standing for hash maps\<close>

text \<open>
  A \<open>HashMap\<close> is an association list with distinct keys; its iteration order is the
  order of the list, one of the orders the map may have.
\<close>

abbreviation wf_map :: "('k \<times> 'v) list \<Rightarrow> bool" where
  "wf_map m \<equiv> distinct (map fst m)"

lemma wf_map_filter [simp]: "wf_map m \<Longrightarrow> wf_map (filter P m)"
  by (induction m) auto

lemma map_of_filter_val:
  "wf_map m \<Longrightarrow> map_of (filter (\<lambda>(_, v). P v) m) k =
     (case map_of m k of None \<Rightarrow> None | Some v \<Rightarrow> if P v then Some v else None)"
  by (induction m) (auto simp: map_of_eq_None_iff split: option.splits)

lemma map_of_filter_key:
  "map_of (filter (\<lambda>(k', v). k' \<noteq> k) m) = (map_of m)(k := None)"
  by (induction m) (auto simp: fun_eq_iff)

lemma in_set_delete_iff: "(k, v) \<in> set (AList.delete k' m) \<longleftrightarrow> k \<noteq> k' \<and> (k, v) \<in> set m"
  by (auto simp: AList.delete_eq)

lemma AList_update_new: "k \<notin> fst ` set m \<Longrightarrow> AList.update k v m = m @ [(k, v)]"
  by (induction m) auto

lemma length_delete_present:
  "wf_map m \<Longrightarrow> k \<in> fst ` set m \<Longrightarrow> Suc (length (AList.delete k m)) = length m"
proof (induction m)
  case (Cons a m)
  then show ?case
  proof (cases "fst a = k")
    case True
    then have "k \<notin> fst ` set m" using Cons.prems by auto
    then have "AList.delete k m = m"
      by (metis AList.delete_id dom_map_of_conv_image_fst)
    with True show ?thesis by simp
  next
    case False
    with Cons show ?thesis by auto
  qed
qed simp

lemma AList_delete_le: "length (AList.delete k m) \<le> length m"
  by (simp add: AList.length_delete_le)

section \<open>State machines with an invariant\<close>

locale invariant_system =
  fixes step :: "'s \<Rightarrow> 'i \<Rightarrow> 's"
    and inv :: "'s \<Rightarrow> bool"
  assumes step_keeps: "inv s \<Longrightarrow> inv (step s i)"
begin

lemma run_keeps: "inv s \<Longrightarrow> inv (foldl step s is)"
  by (induction "is" arbitrary: s) (auto intro: step_keeps)

lemma run_prefix_keeps: "inv s \<Longrightarrow> inv (foldl step s (take n is))"
  by (rule run_keeps)

lemma run_append: "foldl step s (is @ js) = foldl step (foldl step s is) js"
  by simp

end

end
