(* ===== verification/Errors.thy ===== *)
theory Errors
  imports Prelude
begin

text \<open>
  \<open>src/error.rs\<close>: the error codes of the wire protocol, the names they are sent under,
  and which of them the audit log records as denials.
\<close>

datatype error_code =
    InvalidArgument | InvalidPath | UnknownRoot | OutsideRoot | Denied | NotFound
  | NotAFile | NotADirectory | TooLarge | Unsupported | RateLimited | Paused
  | NotWritable | Exists | NotChangeable | TrashUnavailable | Conflict | NotLent
  | NeedsApproval | Internal

fun as_str :: "error_code \<Rightarrow> string" where
  "as_str InvalidArgument = ''invalid_argument''"
| "as_str InvalidPath = ''invalid_path''"
| "as_str UnknownRoot = ''unknown_root''"
| "as_str OutsideRoot = ''outside_root''"
| "as_str Denied = ''denied''"
| "as_str NotFound = ''not_found''"
| "as_str NotAFile = ''not_a_file''"
| "as_str NotADirectory = ''not_a_directory''"
| "as_str TooLarge = ''too_large''"
| "as_str Unsupported = ''unsupported''"
| "as_str RateLimited = ''rate_limited''"
| "as_str Paused = ''paused''"
| "as_str NotWritable = ''not_writable''"
| "as_str Exists = ''exists''"
| "as_str NotChangeable = ''not_changeable''"
| "as_str TrashUnavailable = ''trash_unavailable''"
| "as_str Conflict = ''conflict''"
| "as_str NotLent = ''not_lent''"
| "as_str NeedsApproval = ''needs_approval''"
| "as_str Internal = ''internal''"

fun is_denial :: "error_code \<Rightarrow> bool" where
  "is_denial InvalidPath = True"
| "is_denial UnknownRoot = True"
| "is_denial OutsideRoot = True"
| "is_denial Denied = True"
| "is_denial RateLimited = True"
| "is_denial Paused = True"
| "is_denial NotWritable = True"
| "is_denial NotChangeable = True"
| "is_denial NotLent = True"
| "is_denial NeedsApproval = True"
| "is_denial _ = False"

record tool_error =
  code :: error_code
  message :: string

definition tool_error :: "error_code \<Rightarrow> string \<Rightarrow> tool_error" where
  "tool_error c m = \<lparr>code = c, message = m\<rparr>"

lemma code_tool_error [simp]: "code (tool_error c m) = c"
  by (simp add: tool_error_def)

lemma message_tool_error [simp]: "message (tool_error c m) = m"
  by (simp add: tool_error_def)

definition invalid_argument :: "string \<Rightarrow> tool_error" where
  "invalid_argument = tool_error InvalidArgument"

definition invalid_path :: "string \<Rightarrow> tool_error" where
  "invalid_path = tool_error InvalidPath"

definition denied :: "string \<Rightarrow> tool_error" where
  "denied = tool_error Denied"

definition internal :: "string \<Rightarrow> tool_error" where
  "internal = tool_error Internal"

lemma code_error_helpers [simp]:
  "code (invalid_argument m) = InvalidArgument"
  "code (invalid_path m) = InvalidPath"
  "code (denied m) = Denied"
  "code (internal m) = Internal"
  by (simp_all add: invalid_argument_def invalid_path_def denied_def internal_def)

lemma as_str_inj: "as_str a = as_str b \<Longrightarrow> a = b"
  by (cases a; cases b) simp_all

end
