(* ===== verification/Config.thy ===== *)
theory Config
  imports Errors
begin

text \<open>
  \<open>src/config.rs\<close>: the shared folders, the loans of a folder to a bot, the deny
  configuration, and the limits with their defaults. A \<open>PathBuf\<close> that is absolute is the
  list of its normal components; \<open>[]\<close> is the filesystem root. \<open>starts_with\<close> on such lists
  is \<open>Path::starts_with\<close>, which compares whole components. Only the fields the modelled
  components read are here.
\<close>

type_synonym path = "string list"

record bot_loan =
  loan_bot :: string
  loan_name :: string
  unattended :: bool

record root =
  root_id :: string
  root_label :: string
  root_path :: path
  follow_symlinks :: bool
  writable :: bool
  commands :: bool
  network :: bool
  bots :: "bot_loan list"

definition runs_commands :: "root \<Rightarrow> bool" where
  "runs_commands r \<longleftrightarrow> writable r \<and> commands r"

definition loan :: "root \<Rightarrow> string \<Rightarrow> bot_loan option" where
  "loan r i = find (\<lambda>l. loan_bot l = i) (bots r)"

record deny_config =
  deny_extra :: "string list"
  deny_remove :: "string list"
  allow_hardlinks :: bool

record limits =
  calls_per_minute :: nat
  read_chars_per_call :: nat
  read_chars_per_chat_hour :: nat
  read_chars_per_hour :: nat
  search_hits :: nat
  snippet_chars :: nat
  list_page :: nat
  max_file_bytes :: nat
  max_index_file_bytes :: nat
  max_message_bytes :: nat
  grep_timeout_ms :: nat
  changes_per_minute :: nat
  changes_per_day :: nat
  change_bytes_per_hour :: nat
  max_change_file_bytes :: nat
  max_change_entries :: nat
  command_cpu_seconds :: nat
  command_memory_mb :: nat
  command_timeout_seconds :: nat
  command_processes :: nat
  commands_running :: nat
  command_output_chars :: nat

definition default_limits :: limits where
  "default_limits = \<lparr>
     calls_per_minute = 120,
     read_chars_per_call = 32000,
     read_chars_per_chat_hour = 1000000,
     read_chars_per_hour = 2000000,
     search_hits = 20,
     snippet_chars = 300,
     list_page = 200,
     max_file_bytes = 64 * 1024 * 1024,
     max_index_file_bytes = 32 * 1024 * 1024,
     max_message_bytes = 256 * 1024,
     grep_timeout_ms = 5000,
     changes_per_minute = 30,
     changes_per_day = 500,
     change_bytes_per_hour = 50 * 1024 * 1024,
     max_change_file_bytes = 10 * 1024 * 1024,
     max_change_entries = 1000,
     command_cpu_seconds = 600,
     command_memory_mb = 4096,
     command_timeout_seconds = 1800,
     command_processes = 256,
     commands_running = 4,
     command_output_chars = 20000\<rparr>"

record config =
  cfg_paused :: bool
  roots :: "root list"
  deny :: deny_config
  cfg_limits :: limits

definition config_root :: "config \<Rightarrow> string \<Rightarrow> root option" where
  "config_root c i = find (\<lambda>r. root_id r = i) (roots c)"

lemma loan_SomeD: "loan r i = Some l \<Longrightarrow> l \<in> set (bots r) \<and> loan_bot l = i"
  by (auto simp: loan_def dest: find_SomeD)

lemma config_root_SomeD: "config_root c i = Some r \<Longrightarrow> r \<in> set (roots c) \<and> root_id r = i"
  by (auto simp: config_root_def dest: find_SomeD)

end
