(* ===== verification/Limits.thy ===== *)
theory Limits
  imports Config
begin

text \<open>
  \<open>src/limits.rs\<close>: the sliding windows behind the call, read and change budgets.
  \<open>windows\<close> is the struct \<open>Windows\<close>; each operation takes the limits and the instant the
  code reads from the clock and returns its result with the new windows. Sums of \<open>usize\<close>
  and \<open>u64\<close> values wrap as release builds do (\<open>sum_u64\<close>). The locale \<open>sliding_window\<close> is
  the queue the three budgets share; \<open>budgeted\<close> is what they promise: in every window of
  the given length, over all instants, no more than the limit was accepted.
\<close>

definition MINUTE :: duration where "MINUTE = secs 60"
definition HOUR :: duration where "HOUR = secs 3600"
definition DAY :: duration where "DAY = secs (24 * 3600)"
definition MAX_TRACKED_CHATS :: nat where "MAX_TRACKED_CHATS = 1024"

lemmas window_defs = MINUTE_def HOUR_def DAY_def

record windows =
  calls :: "instant list"
  reads :: "(instant \<times> nat) list"
  chat_reads :: "(string \<times> (instant \<times> nat) list) list"
  changes :: "(instant \<times> nat) list"

definition no_windows :: windows where
  "no_windows = \<lparr>calls = [], reads = [], chat_reads = [], changes = []\<rparr>"

definition prune :: "('a \<Rightarrow> instant) \<Rightarrow> instant \<Rightarrow> duration \<Rightarrow> 'a list \<Rightarrow> 'a list" where
  "prune at now window q = dropWhile (\<lambda>x. window \<le> now - at x) q"

definition sum_u64 :: "nat list \<Rightarrow> nat" where
  "sum_u64 xs = sum_list xs mod 18446744073709551616"

definition check_call_at ::
  "limits \<Rightarrow> windows \<Rightarrow> instant \<Rightarrow> (tool_error + unit) \<times> windows" where
  "check_call_at l w now =
     (let q = prune (\<lambda>t. t) now MINUTE (calls w);
          w1 = w\<lparr>calls := q\<rparr>
      in if calls_per_minute l \<le> length q
         then (Inl (tool_error RateLimited
                 (''more than '' @ show_nat (calls_per_minute l)
                   @ '' tool calls in the last minute; try again shortly'')), w1)
         else (Inr (), w1\<lparr>calls := q @ [now]\<rparr>))"

definition read_allowance_at ::
  "limits \<Rightarrow> windows \<Rightarrow> string \<Rightarrow> instant \<Rightarrow> (tool_error + nat) \<times> windows" where
  "read_allowance_at l w chat now =
     (let q = prune fst now HOUR (reads w);
          total = sum_u64 (map snd q);
          (chat_used, cr) =
            (case map_of (chat_reads w) chat of
               Some cq \<Rightarrow> (let cq' = prune fst now HOUR cq
                          in (sum_u64 (map snd cq'), AList.update chat cq' (chat_reads w)))
             | None \<Rightarrow> (0, chat_reads w));
          allowance = min (min (read_chars_per_call l) (read_chars_per_hour l - total))
                        (read_chars_per_chat_hour l - chat_used);
          w1 = w\<lparr>reads := q, chat_reads := cr\<rparr>
      in if allowance = 0
         then (Inl (tool_error RateLimited
                 ''the hourly read budget is used up; try again later''), w1)
         else (Inr allowance, w1))"

definition record_read_at ::
  "windows \<Rightarrow> string \<Rightarrow> nat \<Rightarrow> instant \<Rightarrow> windows" where
  "record_read_at w chat chars now =
     (if chars = 0 then w
      else let cr = (if map_of (chat_reads w) chat = None
                        \<and> MAX_TRACKED_CHATS \<le> length (chat_reads w)
                     then filter (\<lambda>(_, q). q \<noteq> [] \<and> now - fst (last q) < HOUR) (chat_reads w)
                     else chat_reads w);
               old = (case map_of cr chat of Some q \<Rightarrow> q | None \<Rightarrow> [])
           in w\<lparr>reads := reads w @ [(now, chars)],
                chat_reads := AList.update chat (old @ [(now, chars)]) cr\<rparr>)"

definition check_change_at ::
  "limits \<Rightarrow> windows \<Rightarrow> nat \<Rightarrow> instant \<Rightarrow> (tool_error + unit) \<times> windows" where
  "check_change_at l w bytes now =
     (let q = prune fst now DAY (changes w);
          w1 = w\<lparr>changes := q\<rparr>;
          within = (\<lambda>window. filter (\<lambda>(t, _). now - t < window) q);
          last_minute = length (within MINUTE);
          last_day = length q;
          last_hour_bytes = sum_u64 (map snd (within HOUR))
      in if changes_per_minute l \<le> last_minute
         then (Inl (tool_error RateLimited
                 (''This computer allows '' @ show_nat (changes_per_minute l)
                   @ '' changes a minute. Try again shortly.'')), w1)
         else if changes_per_day l \<le> last_day
         then (Inl (tool_error RateLimited
                 (''This computer allows '' @ show_nat (changes_per_day l)
                   @ '' changes a day, and they are used up. Try again later.'')), w1)
         else if change_bytes_per_hour l < saturating_add_u64 last_hour_bytes bytes
         then (Inl (tool_error RateLimited
                 (''This computer allows changes to write ''
                   @ show_nat (change_bytes_per_hour l div (1024 * 1024))
                   @ '' MB an hour, and this one would go over. Try again later.'')), w1)
         else (Inr (), w1\<lparr>changes := q @ [(now, bytes)]\<rparr>))"

section \<open>The sliding window\<close>

definition recent :: "('a \<Rightarrow> instant) \<Rightarrow> duration \<Rightarrow> instant \<Rightarrow> 'a list \<Rightarrow> 'a list" where
  "recent at window now q = filter (\<lambda>x. at x \<le> now \<and> now - at x < window) q"

definition budgeted ::
  "('a \<Rightarrow> instant) \<Rightarrow> ('a \<Rightarrow> nat) \<Rightarrow> duration \<Rightarrow> nat \<Rightarrow> 'a list \<Rightarrow> bool" where
  "budgeted at weight window limit q \<longleftrightarrow>
     (\<forall>now. sum_list (map weight (recent at window now q)) \<le> limit)"

lemma recent_Nil [simp]: "recent at window now [] = []"
  by (simp add: recent_def)

lemma recent_append: "recent at window now (p @ q) = recent at window now p @ recent at window now q"
  by (simp add: recent_def)

lemma budgeted_Nil [simp]: "budgeted at weight window limit []"
  by (simp add: budgeted_def)

lemma sum_list_filter_mono:
  assumes "\<And>x. x \<in> set q \<Longrightarrow> P x \<Longrightarrow> Q x"
  shows "sum_list (map weight (filter P q)) \<le> sum_list (map (weight :: 'a \<Rightarrow> nat) (filter Q q))"
  using assms by (induction q) (auto intro: le_SucI add_mono trans_le_add2)

lemma budgeted_snoc:
  assumes b: "budgeted at weight window limit q"
    and past: "\<And>y. y \<in> set q \<Longrightarrow> at y \<le> at x"
    and room: "sum_list (map weight (recent at window (at x) q)) + weight x \<le> limit"
  shows "budgeted at weight window limit (q @ [x])"
  unfolding budgeted_def
proof
  fix now
  show "sum_list (map weight (recent at window now (q @ [x]))) \<le> limit"
  proof (cases "at x \<le> now")
    case False
    with b show ?thesis by (simp add: budgeted_def recent_append) (simp add: recent_def)
  next
    case True
    have "sum_list (map weight (recent at window now q))
        \<le> sum_list (map weight (recent at window (at x) q))"
      unfolding recent_def by (rule sum_list_filter_mono) (use past True in auto)
    with room show ?thesis by (auto simp: recent_append) (auto simp: recent_def)
  qed
qed

locale sliding_window =
  fixes at :: "'a \<Rightarrow> instant" and window :: duration
  assumes window_pos: "0 < window"
begin

lemma prune_subset: "set (prune at now window q) \<subseteq> set q"
  by (auto simp: prune_def dest: set_dropWhileD)

lemma prune_recent:
  "sorted (map at q) \<Longrightarrow> \<forall>x \<in> set q. at x \<le> now \<Longrightarrow> prune at now window q = recent at window now q"
  unfolding prune_def recent_def
proof (induction q)
  case (Cons x q)
  show ?case
  proof (cases "window \<le> now - at x")
    case True
    with Cons show ?thesis by auto
  next
    case False
    then have "\<forall>y \<in> set (x # q). now - at y < window" using Cons.prems by auto
    then have "filter (\<lambda>y. at y \<le> now \<and> now - at y < window) (x # q) = x # q"
      using Cons.prems by (auto simp: filter_id_conv)
    with False show ?thesis by simp
  qed
qed simp

lemma recent_shrink:
  "now \<le> later \<Longrightarrow> \<forall>x \<in> set q. at x \<le> now \<Longrightarrow>
   recent at window later (recent at window now q) = recent at window later q"
  by (induction q) (auto simp: recent_def)

lemma prune_keeps_times: "sorted (map at q) \<Longrightarrow> sorted (map at (prune at now window q))"
  by (induction q) (auto simp: prune_def)

lemma recent_snoc_now: "at x = now \<Longrightarrow> recent at window now (q @ [x]) = recent at window now q @ [x]"
  using window_pos by (simp add: recent_append) (simp add: recent_def)

end

interpretation call_window: sliding_window "\<lambda>t. t" MINUTE
  by unfold_locales (simp add: MINUTE_def)

interpretation read_window: sliding_window fst HOUR
  by unfold_locales (simp add: HOUR_def)

interpretation change_window: sliding_window fst DAY
  by unfold_locales (simp add: DAY_def)

section \<open>The change budget\<close>

text \<open>
  A history is the list of accepted changes, oldest first, never pruned. \<open>spec_change\<close> is
  the promise over it; \<open>change_rel\<close> relates the pruned queue to the history.
\<close>

definition spec_change :: "limits \<Rightarrow> (instant \<times> nat) list \<Rightarrow> instant \<times> nat \<Rightarrow> bool" where
  "spec_change l h c \<longleftrightarrow>
     length (recent fst MINUTE (fst c) h) < changes_per_minute l
     \<and> length (recent fst DAY (fst c) h) < changes_per_day l
     \<and> sum_list (map snd (recent fst HOUR (fst c) h)) + snd c \<le> change_bytes_per_hour l"

fun spec_changes ::
  "limits \<Rightarrow> (instant \<times> nat) list \<Rightarrow> (instant \<times> nat) list \<Rightarrow> (instant \<times> nat) list" where
  "spec_changes l h [] = h"
| "spec_changes l h (c # cs) = spec_changes l (if spec_change l h c then h @ [c] else h) cs"

fun run_changes ::
  "limits \<Rightarrow> windows \<Rightarrow> (instant \<times> nat) list \<Rightarrow> (instant \<times> nat) list" where
  "run_changes l w [] = []"
| "run_changes l w ((t, b) # cs) =
     (case check_change_at l w b t of
        (Inl _, w') \<Rightarrow> run_changes l w' cs
      | (Inr _, w') \<Rightarrow> (t, b) # run_changes l w' cs)"

definition budgets_ok :: "limits \<Rightarrow> (instant \<times> nat) list \<Rightarrow> bool" where
  "budgets_ok l h \<longleftrightarrow>
     budgeted fst (\<lambda>_. 1) MINUTE (changes_per_minute l) h
     \<and> budgeted fst (\<lambda>_. 1) DAY (changes_per_day l) h
     \<and> budgeted fst snd HOUR (change_bytes_per_hour l) h"

definition change_rel :: "limits \<Rightarrow> windows \<Rightarrow> (instant \<times> nat) list \<Rightarrow> instant \<Rightarrow> bool" where
  "change_rel l w h now \<longleftrightarrow>
     changes w = recent fst DAY now h \<and> sorted (map fst h) \<and> (\<forall>c \<in> set h. fst c \<le> now)
     \<and> budgets_ok l h"

lemma length_as_sum: "length xs = sum_list (map (\<lambda>_. 1) xs)"
  by (induction xs) auto

lemma recent_within:
  assumes "window \<le> day" and "\<forall>c \<in> set h. at c \<le> now"
  shows "filter (\<lambda>c. now - at c < window) (recent at day now h) = recent at window now h"
  using assms by (induction h) (auto simp: recent_def)

lemma recent_sorted: "sorted (map at h) \<Longrightarrow> sorted (map at (recent at window now h))"
  by (simp add: recent_def sorted_filter)

lemma recent_past: "x \<in> set (recent at window now h) \<Longrightarrow> x \<in> set h"
  by (simp add: recent_def)

lemma change_queue:
  assumes "change_rel l w h now0" and "now0 \<le> now"
  shows "prune fst now DAY (changes w) = recent fst DAY now h"
proof -
  have "prune fst now DAY (changes w) = recent fst DAY now (changes w)"
    using assms
    by (intro change_window.prune_recent)
      (auto simp: change_rel_def recent_sorted dest!: recent_past intro: order_trans)
  then show ?thesis
    using assms by (simp add: change_rel_def change_window.recent_shrink)
qed

lemma budgets_ok_snoc:
  assumes ok: "budgets_ok l h" and past: "\<forall>c \<in> set h. fst c \<le> fst x" and fits: "spec_change l h x"
  shows "budgets_ok l (h @ [x])"
  unfolding budgets_ok_def
proof (intro conjI)
  show "budgeted fst (\<lambda>_. 1) MINUTE (changes_per_minute l) (h @ [x])"
    using ok past fits
    by (intro budgeted_snoc) (auto simp: budgets_ok_def spec_change_def length_as_sum)
  show "budgeted fst (\<lambda>_. 1) DAY (changes_per_day l) (h @ [x])"
    using ok past fits
    by (intro budgeted_snoc) (auto simp: budgets_ok_def spec_change_def length_as_sum)
  show "budgeted fst snd HOUR (change_bytes_per_hour l) (h @ [x])"
    using ok past fits
    by (intro budgeted_snoc) (auto simp: budgets_ok_def spec_change_def)
qed

lemma hour_sum_exact:
  assumes "budgets_ok l h" and "change_bytes_per_hour l < u64_max"
  shows "sum_u64 (map snd (recent fst HOUR now h)) = sum_list (map snd (recent fst HOUR now h))"
proof -
  have "sum_list (map snd (recent fst HOUR now h)) \<le> change_bytes_per_hour l"
    using assms(1) by (simp add: budgets_ok_def budgeted_def)
  with assms(2) show ?thesis by (simp add: sum_u64_def)
qed

lemma check_change_decides:
  assumes rel: "change_rel l w h now0" and mono: "now0 \<le> now"
    and big: "change_bytes_per_hour l < u64_max"
  shows "isl (fst (check_change_at l w b now)) \<longleftrightarrow> \<not> spec_change l h (now, b)"
    and "changes (snd (check_change_at l w b now)) =
      recent fst DAY now h @ (if spec_change l h (now, b) then [(now, b)] else [])"
proof -
  have past: "\<forall>c \<in> set h. fst c \<le> now" using rel mono by (auto simp: change_rel_def)
  have q: "prune fst now DAY (changes w) = recent fst DAY now h"
    using rel mono by (rule change_queue)
  have m: "filter (\<lambda>(t, _). now - t < MINUTE) (recent fst DAY now h) = recent fst MINUTE now h"
    using recent_within [of MINUTE DAY h fst now] past by (simp add: window_defs case_prod_unfold)
  have hr: "filter (\<lambda>(t, _). now - t < HOUR) (recent fst DAY now h) = recent fst HOUR now h"
    using recent_within [of HOUR DAY h fst now] past by (simp add: window_defs case_prod_unfold)
  have s: "sum_u64 (map snd (recent fst HOUR now h)) = sum_list (map snd (recent fst HOUR now h))"
    using rel big by (auto simp: change_rel_def intro: hour_sum_exact)
  have sat: "change_bytes_per_hour l < saturating_add_u64 n b \<longleftrightarrow> change_bytes_per_hour l < n + b" for n
    using big by (auto simp: saturating_add_u64_def min_def)
  show "isl (fst (check_change_at l w b now)) \<longleftrightarrow> \<not> spec_change l h (now, b)"
    by (auto simp: check_change_at_def Let_def q m hr s sat spec_change_def)
  show "changes (snd (check_change_at l w b now)) =
      recent fst DAY now h @ (if spec_change l h (now, b) then [(now, b)] else [])"
    by (auto simp: check_change_at_def Let_def q m hr s sat spec_change_def)
qed

lemma check_change_rel:
  assumes rel: "change_rel l w h now0" and mono: "now0 \<le> now"
    and big: "change_bytes_per_hour l < u64_max"
  shows "change_rel l (snd (check_change_at l w b now))
           (if spec_change l h (now, b) then h @ [(now, b)] else h) now"
proof -
  have past: "\<forall>c \<in> set h. fst c \<le> now" and so: "sorted (map fst h)" and ok: "budgets_ok l h"
    using rel mono by (auto simp: change_rel_def)
  have "budgets_ok l (h @ [(now, b)])" if "spec_change l h (now, b)"
    using budgets_ok_snoc [OF ok _ that] past by simp
  then show ?thesis
    using past so ok check_change_decides(2) [OF rel mono big, of b]
    by (auto simp: change_rel_def change_window.recent_snoc_now sorted_append)
qed

lemma run_changes_spec:
  assumes "change_rel l w h now0" and "sorted (map fst cs)" and "\<forall>c \<in> set cs. now0 \<le> fst c"
    and "change_bytes_per_hour l < u64_max"
  shows "h @ run_changes l w cs = spec_changes l h cs \<and> budgets_ok l (spec_changes l h cs)"
  using assms
proof (induction cs arbitrary: w h now0)
  case Nil
  then show ?case by (simp add: change_rel_def)
next
  case (Cons c cs)
  obtain t b where c: "c = (t, b)" by (cases c)
  have t0: "now0 \<le> t" using Cons.prems(3) c by simp
  have rel: "change_rel l (snd (check_change_at l w b t))
      (if spec_change l h c then h @ [c] else h) t"
    using check_change_rel [OF Cons.prems(1) t0 Cons.prems(4), of b] by (simp only: c)
  have dec: "isl (fst (check_change_at l w b t)) \<longleftrightarrow> \<not> spec_change l h c"
    using check_change_decides(1) [OF Cons.prems(1) t0 Cons.prems(4)] c by simp
  have "sorted (map fst cs)" and "\<forall>d \<in> set cs. t \<le> fst d" using Cons.prems(2) c by auto
  from Cons.IH [OF rel this Cons.prems(4)] dec c show ?case
    by (cases "check_change_at l w b t") (auto split: sum.splits if_splits)
qed

lemma change_rel_empty: "change_rel l no_windows [] 0"
  by (simp add: change_rel_def no_windows_def budgets_ok_def)

section \<open>The call budget\<close>

fun run_calls :: "limits \<Rightarrow> windows \<Rightarrow> instant list \<Rightarrow> instant list" where
  "run_calls l w [] = []"
| "run_calls l w (t # ts) =
     (case check_call_at l w t of
        (Inl _, w') \<Rightarrow> run_calls l w' ts
      | (Inr _, w') \<Rightarrow> t # run_calls l w' ts)"

definition call_rel :: "limits \<Rightarrow> windows \<Rightarrow> instant list \<Rightarrow> instant \<Rightarrow> bool" where
  "call_rel l w h now \<longleftrightarrow>
     calls w = recent (\<lambda>t. t) MINUTE now h \<and> sorted h \<and> (\<forall>t \<in> set h. t \<le> now)
     \<and> budgeted (\<lambda>t. t) (\<lambda>_. 1) MINUTE (calls_per_minute l) h"

lemma check_call_rel:
  assumes rel: "call_rel l w h now0" and mono: "now0 \<le> now"
  shows "call_rel l (snd (check_call_at l w now))
           (if isl (fst (check_call_at l w now)) then h else h @ [now]) now"
proof -
  have past: "\<forall>t \<in> set h. t \<le> now" and so: "sorted h"
    and b: "budgeted (\<lambda>t. t) (\<lambda>_. 1) MINUTE (calls_per_minute l) h"
    using rel mono by (auto simp: call_rel_def)
  have "prune (\<lambda>t. t) now MINUTE (calls w) = recent (\<lambda>t. t) MINUTE now (calls w)"
    using rel mono
    by (intro call_window.prune_recent)
      (auto simp: call_rel_def recent_sorted [of "\<lambda>t. t", simplified] dest!: recent_past
        intro: order_trans)
  then have q: "prune (\<lambda>t. t) now MINUTE (calls w) = recent (\<lambda>t. t) MINUTE now h"
    using rel mono by (simp add: call_rel_def call_window.recent_shrink)
  have "budgeted (\<lambda>t. t) (\<lambda>_. 1) MINUTE (calls_per_minute l) (h @ [now])"
    if "length (recent (\<lambda>t. t) MINUTE now h) < calls_per_minute l"
    using b past that by (intro budgeted_snoc) (auto simp: length_as_sum)
  then show ?thesis
    using past so b
    by (auto simp: check_call_at_def Let_def q call_rel_def call_window.recent_snoc_now
        sorted_append not_le)
qed

lemma run_calls_budgeted:
  assumes "call_rel l w h now0" and "sorted ts" and "\<forall>t \<in> set ts. now0 \<le> t"
  shows "budgeted (\<lambda>t. t) (\<lambda>_. 1) MINUTE (calls_per_minute l) (h @ run_calls l w ts)"
  using assms
proof (induction ts arbitrary: w h now0)
  case Nil
  then show ?case by (simp add: call_rel_def)
next
  case (Cons t ts)
  have t0: "now0 \<le> t" and "sorted ts" and "\<forall>u \<in> set ts. t \<le> u" using Cons.prems by auto
  from Cons.IH [OF check_call_rel [OF Cons.prems(1) t0] this(2,3)] show ?case
    by (cases "check_call_at l w t") (auto split: sum.splits)
qed

section \<open>The read budgets\<close>

text \<open>
  \<open>src/tools.rs\<close> asks for an allowance, reads at most that many characters, and records
  what it returned. \<open>read_call\<close> is that sequence for one read: the text the reader found
  has \<open>want\<close> characters, asked for at \<open>t1\<close> and recorded at \<open>t2\<close>. A history keeps the
  instant, the chat and the characters of every read.
\<close>

type_synonym read_event = "instant \<times> string \<times> nat"

definition read_call ::
  "limits \<Rightarrow> windows \<Rightarrow> string \<times> nat \<times> instant \<times> instant \<Rightarrow> (tool_error + nat) \<times> windows" where
  "read_call l w c = (case c of (chat, want, t1, t2) \<Rightarrow>
     (case read_allowance_at l w chat t1 of
        (Inl e, w') \<Rightarrow> (Inl e, w')
      | (Inr a, w') \<Rightarrow> (Inr (min want a), record_read_at w' chat (min want a) t2)))"

fun run_reads ::
  "limits \<Rightarrow> windows \<Rightarrow> (string \<times> nat \<times> instant \<times> instant) list \<Rightarrow> read_event list" where
  "run_reads l w [] = []"
| "run_reads l w ((chat, want, t1, t2) # cs) =
     (case read_call l w (chat, want, t1, t2) of
        (Inl _, w') \<Rightarrow> run_reads l w' cs
      | (Inr n, w') \<Rightarrow> (if n = 0 then [] else [(t2, chat, n)]) @ run_reads l w' cs)"

fun clocked :: "instant \<Rightarrow> (string \<times> nat \<times> instant \<times> instant) list \<Rightarrow> bool" where
  "clocked now [] = True"
| "clocked now ((_, _, t1, t2) # cs) = (now \<le> t1 \<and> t1 \<le> t2 \<and> clocked t2 cs)"

definition of_chat :: "string \<Rightarrow> read_event list \<Rightarrow> read_event list" where
  "of_chat chat h = filter (\<lambda>e. fst (snd e) = chat) h"

definition timed :: "read_event list \<Rightarrow> (instant \<times> nat) list" where
  "timed h = map (\<lambda>(t, _, n). (t, n)) h"

definition chat_queue :: "windows \<Rightarrow> string \<Rightarrow> (instant \<times> nat) list" where
  "chat_queue w chat = (case map_of (chat_reads w) chat of Some q \<Rightarrow> q | None \<Rightarrow> [])"

definition queue_rel :: "(instant \<times> nat) list \<Rightarrow> read_event list \<Rightarrow> nat \<Rightarrow> instant \<Rightarrow> bool" where
  "queue_rel q h limit now \<longleftrightarrow>
     sorted (map fst q) \<and> (\<forall>e \<in> set q. fst e \<le> now) \<and> (\<forall>e \<in> set h. fst e \<le> now)
     \<and> recent fst HOUR now q = recent fst HOUR now (timed h)
     \<and> budgeted fst snd HOUR limit (timed h)"

definition read_rel :: "limits \<Rightarrow> windows \<Rightarrow> read_event list \<Rightarrow> instant \<Rightarrow> bool" where
  "read_rel l w h now \<longleftrightarrow>
     wf_map (chat_reads w) \<and> queue_rel (reads w) h (read_chars_per_hour l) now
     \<and> (\<forall>chat. queue_rel (chat_queue w chat) (of_chat chat h) (read_chars_per_chat_hour l) now)"

lemma timed_append [simp]: "timed (a @ b) = timed a @ timed b"
  by (simp add: timed_def)

lemma timed_times: "(\<forall>e \<in> set (timed h). fst e \<le> now) \<longleftrightarrow> (\<forall>e \<in> set h. fst e \<le> now)"
  by (force simp: timed_def)

lemma queue_rel_later:
  assumes "queue_rel q h limit now" and "now \<le> later"
  shows "queue_rel q h limit later"
proof -
  have "recent fst HOUR later q = recent fst HOUR later (recent fst HOUR now q)"
    using assms by (intro read_window.recent_shrink [symmetric]) (auto simp: queue_rel_def)
  also have "\<dots> = recent fst HOUR later (recent fst HOUR now (timed h))"
    using assms by (simp add: queue_rel_def)
  also have "\<dots> = recent fst HOUR later (timed h)"
    using assms by (intro read_window.recent_shrink) (auto simp: queue_rel_def timed_times)
  finally show ?thesis using assms by (force simp: queue_rel_def)
qed

lemma queue_rel_prune:
  assumes "queue_rel q h limit now"
  shows "prune fst now HOUR q = recent fst HOUR now (timed h)"
    and "queue_rel (prune fst now HOUR q) h limit now"
proof -
  have p: "prune fst now HOUR q = recent fst HOUR now q"
    using assms by (simp add: queue_rel_def read_window.prune_recent)
  with assms show "prune fst now HOUR q = recent fst HOUR now (timed h)"
    by (simp add: queue_rel_def)
  have "recent fst HOUR now (recent fst HOUR now q) = recent fst HOUR now q"
    using assms by (intro read_window.recent_shrink) (auto simp: queue_rel_def)
  moreover have "sorted (map fst (recent fst HOUR now q))"
    using assms by (intro recent_sorted) (simp add: queue_rel_def)
  moreover have "\<forall>e \<in> set (recent fst HOUR now q). fst e \<le> now"
    by (simp add: recent_def)
  ultimately show "queue_rel (prune fst now HOUR q) h limit now"
    using assms unfolding p queue_rel_def by simp
qed

lemma queue_rel_sum:
  assumes "queue_rel q h limit now" and "limit \<le> u64_max"
  shows "sum_u64 (map snd (prune fst now HOUR q)) = sum_list (map snd (recent fst HOUR now (timed h)))"
proof -
  have "sum_list (map snd (recent fst HOUR now (timed h))) \<le> limit"
    using assms(1) by (simp add: queue_rel_def budgeted_def)
  with assms show ?thesis by (simp add: queue_rel_prune(1) sum_u64_def)
qed

lemma queue_rel_push:
  assumes rel: "queue_rel q h limit now" and le: "now \<le> t"
    and room: "sum_list (map snd (recent fst HOUR now (timed h))) + n \<le> limit"
  shows "queue_rel (q @ [(t, n)]) (h @ [(t, chat, n)]) limit t"
proof -
  have rel': "queue_rel q h limit t" using rel le by (rule queue_rel_later)
  have "sum_list (map snd (recent fst HOUR t (timed h)))
      \<le> sum_list (map snd (recent fst HOUR now (timed h)))"
    unfolding recent_def
    by (rule sum_list_filter_mono) (use rel le in \<open>auto simp: queue_rel_def timed_def\<close>)
  with room have "sum_list (map snd (recent fst HOUR t (timed h))) + n \<le> limit" by simp
  then have "budgeted fst snd HOUR limit (timed h @ [(t, n)])"
    using rel' by (intro budgeted_snoc) (auto simp: queue_rel_def timed_def)
  moreover have "timed [(t, chat, n)] = [(t, n)]" by (simp add: timed_def)
  ultimately show ?thesis
    using rel' by (auto simp: queue_rel_def sorted_append recent_append)
qed

definition room_for :: "limits \<Rightarrow> read_event list \<Rightarrow> instant \<Rightarrow> string \<Rightarrow> nat \<Rightarrow> bool" where
  "room_for l h now chat n \<longleftrightarrow>
     sum_list (map snd (recent fst HOUR now (timed h))) + n \<le> read_chars_per_hour l
     \<and> sum_list (map snd (recent fst HOUR now (timed (of_chat chat h)))) + n
         \<le> read_chars_per_chat_hour l"

lemma chat_queue_update:
  "map_of (chat_reads w') = (map_of (chat_reads w))(chat \<mapsto> q) \<Longrightarrow>
   chat_queue w' c = (if c = chat then q else chat_queue w c)"
  by (simp add: chat_queue_def)

lemma read_allowance_rel:
  assumes rel: "read_rel l w h now0" and mono: "now0 \<le> now"
    and big: "read_chars_per_hour l \<le> u64_max" "read_chars_per_chat_hour l \<le> u64_max"
  shows "read_rel l (snd (read_allowance_at l w chat now)) h now"
    and "fst (read_allowance_at l w chat now) = Inr a \<Longrightarrow>
         a \<le> read_chars_per_call l \<and> room_for l h now chat a"
proof -
  have wf: "wf_map (chat_reads w)"
    and tot: "queue_rel (reads w) h (read_chars_per_hour l) now"
    and per: "queue_rel (chat_queue w c) (of_chat c h) (read_chars_per_chat_hour l) now" for c
    using rel mono by (auto simp: read_rel_def intro: queue_rel_later)
  note sums = queue_rel_sum [OF tot big(1)] queue_rel_sum [OF per big(2)]
  show "read_rel l (snd (read_allowance_at l w chat now)) h now"
  proof (cases "map_of (chat_reads w) chat")
    case None
    then show ?thesis
      using wf queue_rel_prune(2) [OF tot] per
      by (auto simp: read_allowance_at_def Let_def read_rel_def chat_queue_def)
  next
    case (Some q)
    then have "queue_rel (prune fst now HOUR q) (of_chat chat h) (read_chars_per_chat_hour l) now"
      using queue_rel_prune(2) [OF per [of chat]] by (simp add: chat_queue_def)
    with Some show ?thesis
      using wf queue_rel_prune(2) [OF tot] per
      by (auto simp: read_allowance_at_def Let_def read_rel_def chat_queue_def update_conv'
          distinct_update)
  qed
  show "a \<le> read_chars_per_call l \<and> room_for l h now chat a"
    if "fst (read_allowance_at l w chat now) = Inr a"
  proof -
    have used: "sum_u64 (map snd (prune fst now HOUR (chat_queue w chat)))
        = sum_list (map snd (recent fst HOUR now (timed (of_chat chat h))))"
      by (rule sums(2))
    show ?thesis
    proof (cases "map_of (chat_reads w) chat")
      case None
      with used have "sum_list (map snd (recent fst HOUR now (timed (of_chat chat h)))) = 0"
        by (simp add: chat_queue_def prune_def sum_u64_def)
      with None that sums(1) show ?thesis
        by (auto simp: read_allowance_at_def Let_def room_for_def simp del: sum_list_eq_0_iff
            split: if_splits)
    next
      case (Some q)
      with used that sums(1) show ?thesis
        by (auto simp: read_allowance_at_def Let_def room_for_def chat_queue_def split: if_splits)
    qed
  qed
qed

lemma idle_queue_recent:
  assumes "queue_rel q h limit t" and "q = [] \<or> HOUR \<le> t - fst (last q)"
  shows "queue_rel [] h limit t"
proof -
  have "recent fst HOUR t q = []"
  proof (cases "q = []")
    case False
    then obtain p x where q: "q = p @ [x]" by (meson rev_exhaust)
    with assms have "\<forall>e \<in> set q. HOUR \<le> t - fst e"
      by (fastforce simp: queue_rel_def sorted_append)
    then show ?thesis by (auto simp: recent_def filter_empty_conv)
  qed simp
  with assms show ?thesis by (simp add: queue_rel_def)
qed

lemma record_read_rel:
  assumes rel: "read_rel l w h now" and le: "now \<le> t" and room: "room_for l h now chat n"
    and pos: "n \<noteq> 0"
  shows "read_rel l (record_read_at w chat n t) (h @ [(t, chat, n)]) t"
proof -
  let ?cr = "if map_of (chat_reads w) chat = None \<and> MAX_TRACKED_CHATS \<le> length (chat_reads w)
             then filter (\<lambda>(_, q). q \<noteq> [] \<and> t - fst (last q) < HOUR) (chat_reads w)
             else chat_reads w"
  let ?old = "case map_of ?cr chat of Some q \<Rightarrow> q | None \<Rightarrow> []"
  let ?w = "record_read_at w chat n t"
  have wf: "wf_map (chat_reads w)" using rel by (simp add: read_rel_def)
  then have wf': "wf_map ?cr" by simp
  have old: "?old = chat_queue w chat"
    using wf by (simp add: chat_queue_def map_of_filter_val split: option.splits)
  have others: "queue_rel (case map_of ?cr c of Some q \<Rightarrow> q | None \<Rightarrow> []) (of_chat c h)
      (read_chars_per_chat_hour l) t" for c
  proof -
    have c: "queue_rel (chat_queue w c) (of_chat c h) (read_chars_per_chat_hour l) t"
      using rel le by (auto simp: read_rel_def intro: queue_rel_later)
    show ?thesis
      using wf c idle_queue_recent [OF c]
      by (auto simp: chat_queue_def map_of_filter_val simp del: map_of_eq_Some_iff
          split: option.splits)
  qed
  have reads': "reads ?w = reads w @ [(t, n)]"
    and chats': "chat_reads ?w = AList.update chat (?old @ [(t, n)]) ?cr"
    using pos by (simp_all add: record_read_at_def Let_def)
  have queue': "chat_queue ?w c = (if c = chat then chat_queue w chat @ [(t, n)]
      else (case map_of ?cr c of Some q \<Rightarrow> q | None \<Rightarrow> []))" for c
    unfolding chat_queue_def [of ?w] chats' old by (auto simp: update_conv')
  have "queue_rel (reads ?w) (h @ [(t, chat, n)]) (read_chars_per_hour l) t"
    unfolding reads' using rel room le
    by (intro queue_rel_push [where now = now]) (auto simp: read_rel_def room_for_def)
  moreover have "queue_rel (chat_queue ?w c) (of_chat c (h @ [(t, chat, n)]))
      (read_chars_per_chat_hour l) t" for c
  proof (cases "c = chat")
    case True
    have "queue_rel (chat_queue w chat @ [(t, n)]) (of_chat chat h @ [(t, chat, n)])
        (read_chars_per_chat_hour l) t"
      using rel room le
      by (intro queue_rel_push [where now = now]) (auto simp: read_rel_def room_for_def)
    with True show ?thesis by (simp add: queue' of_chat_def)
  next
    case False
    with others [of c] show ?thesis by (simp add: queue' of_chat_def)
  qed
  ultimately show ?thesis
    using wf' by (simp add: read_rel_def chats' distinct_update)
qed

lemma read_rel_later: "read_rel l w h now \<Longrightarrow> now \<le> later \<Longrightarrow> read_rel l w h later"
  by (auto simp: read_rel_def intro: queue_rel_later)

lemma room_for_less: "room_for l h now chat n \<Longrightarrow> m \<le> n \<Longrightarrow> room_for l h now chat m"
  by (auto simp: room_for_def)

lemma record_read_zero: "record_read_at w chat 0 t = w"
  by (simp add: record_read_at_def)

lemma read_call_rel:
  assumes rel: "read_rel l w h now0" and le: "now0 \<le> t1" "t1 \<le> t2"
    and big: "read_chars_per_hour l \<le> u64_max" "read_chars_per_chat_hour l \<le> u64_max"
  shows "case read_call l w (chat, want, t1, t2) of
           (Inl _, w') \<Rightarrow> read_rel l w' h t2
         | (Inr n, w') \<Rightarrow> n \<le> read_chars_per_call l
             \<and> read_rel l w' (h @ (if n = 0 then [] else [(t2, chat, n)])) t2"
proof -
  obtain r w1 where a: "read_allowance_at l w chat t1 = (r, w1)" by (cases "read_allowance_at l w chat t1")
  have rel1: "read_rel l w1 h t1"
    using read_allowance_rel(1) [OF rel le(1) big, of chat] a by simp
  show ?thesis
  proof (cases r)
    case (Inl e)
    with a rel1 le show ?thesis by (auto simp: read_call_def intro: read_rel_later)
  next
    case (Inr n)
    have n: "n \<le> read_chars_per_call l" "room_for l h t1 chat (min want n)"
      using read_allowance_rel(2) [OF rel le(1) big, of chat n] a Inr
      by (auto intro: room_for_less)
    show ?thesis
    proof (cases "min want n = 0")
      case True
      with a Inr n(1) rel1 le(2) show ?thesis
        by (simp add: read_call_def record_read_zero read_rel_later)
    next
      case False
      then have "0 < want" and "0 < n" by auto
      with a Inr n(1) record_read_rel [OF rel1 le(2) n(2) False] show ?thesis
        by (auto simp: read_call_def min_le_iff_disj)
    qed
  qed
qed

lemma run_reads_budgeted:
  assumes "read_rel l w h now" and "clocked now cs"
    and "read_chars_per_hour l \<le> u64_max" and "read_chars_per_chat_hour l \<le> u64_max"
  shows "\<exists>w' now'. read_rel l w' (h @ run_reads l w cs) now'"
  using assms
proof (induction cs arbitrary: w h now)
  case Nil
  then show ?case by auto
next
  case (Cons c cs)
  obtain chat want t1 t2 where c: "c = (chat, want, t1, t2)" by (cases c)
  have le: "now \<le> t1" "t1 \<le> t2" and rest: "clocked t2 cs" using Cons.prems(2) c by auto
  show ?case
    using read_call_rel [OF Cons.prems(1) le Cons.prems(3,4), of chat want]
      Cons.IH [OF _ rest Cons.prems(3,4)] c
    by (cases "read_call l w (chat, want, t1, t2)") (fastforce split: sum.splits)
qed

lemma read_rel_empty: "read_rel l no_windows [] 0"
  by (simp add: read_rel_def no_windows_def queue_rel_def chat_queue_def timed_def of_chat_def)

section \<open>What the budgets do not promise\<close>

text \<open>
  Asking for an allowance and recording what was read are two critical sections, so two
  reads under way at once each get the whole allowance: \<open>overlapping_reads\<close> runs both
  allowances before either record.
\<close>

definition overlapping_reads ::
  "limits \<Rightarrow> windows \<Rightarrow> string \<Rightarrow> instant \<Rightarrow> (nat \<times> nat \<times> windows) option" where
  "overlapping_reads l w chat now =
     (case read_allowance_at l w chat now of
        (Inl _, _) \<Rightarrow> None
      | (Inr a, w1) \<Rightarrow>
          (case read_allowance_at l w1 chat now of
             (Inl _, _) \<Rightarrow> None
           | (Inr b, w2) \<Rightarrow>
               Some (a, b, record_read_at (record_read_at w2 chat a now) chat b now)))"

definition full_chats :: "nat \<Rightarrow> instant \<Rightarrow> windows" where
  "full_chats n now = no_windows\<lparr>chat_reads := map (\<lambda>i. (show_nat i, [(now, 1)])) [0..<n]\<rparr>"

lemma full_chats_fresh: "map_of (chat_reads (full_chats n now)) [] = None"
  using show_nat_nonempty by (auto simp: full_chats_def map_of_eq_None_iff) metis

lemma full_chats_length: "length (chat_reads (full_chats n now)) = n"
  by (simp add: full_chats_def)

lemma record_read_new_chat:
  assumes new: "map_of (chat_reads w) chat = None" and pos: "chars \<noteq> 0"
    and active: "\<forall>(c, q) \<in> set (chat_reads w). q \<noteq> [] \<and> now - fst (last q) < HOUR"
  shows "length (chat_reads (record_read_at w chat chars now)) = Suc (length (chat_reads w))"
proof -
  have "filter (\<lambda>(_, q). q \<noteq> [] \<and> now - fst (last q) < HOUR) (chat_reads w) = chat_reads w"
    using active by (auto simp: filter_id_conv)
  with new pos show ?thesis
    by (simp add: record_read_at_def Let_def AList_update_new map_of_eq_None_iff)
qed

section \<open>Properties\<close>

text \<open>
  C16: the change budgets hold. For every sequence of changes asked for at non-decreasing
  instants, in every window of a minute, a day or an hour, the changes accepted number at
  most \<open>changes_per_minute\<close> and \<open>changes_per_day\<close> and write at most
  \<open>change_bytes_per_hour\<close> bytes (below \<open>u64::MAX\<close>, where saturation sets in).
\<close>

theorem change_budgets_hold:
  assumes "sorted (map fst cs)" and "change_bytes_per_hour l < u64_max"
  shows "budgeted fst (\<lambda>_. 1) MINUTE (changes_per_minute l) (run_changes l no_windows cs)
    \<and> budgeted fst (\<lambda>_. 1) DAY (changes_per_day l) (run_changes l no_windows cs)
    \<and> budgeted fst snd HOUR (change_bytes_per_hour l) (run_changes l no_windows cs)"
  using run_changes_spec [OF change_rel_empty assms(1) _ assms(2)]
  by (simp add: budgets_ok_def)

theorem change_budgets_hold_witness:
  "budgeted fst (\<lambda>_. 1) MINUTE (changes_per_minute default_limits)
     (run_changes default_limits no_windows [(0, 10), (secs 30, 20), (secs 90, 5)])"
proof -
  have "sorted (map fst [(0 :: nat, 10 :: nat), (secs 30, 20), (secs 90, 5)])" by simp
  moreover have "change_bytes_per_hour default_limits < u64_max"
    by (simp add: default_limits_def)
  ultimately show ?thesis
    using change_budgets_hold [of "[(0, 10), (secs 30, 20), (secs 90, 5)]" default_limits] by blast
qed

text \<open>
  C17: the pruned queue refines the full history. The limiter, which only keeps the last
  day, accepts exactly the changes that a limiter remembering every accepted change would.
\<close>

theorem change_limiter_refines_history:
  assumes "sorted (map fst cs)" and "change_bytes_per_hour l < u64_max"
  shows "run_changes l no_windows cs = spec_changes l [] cs"
  using run_changes_spec [OF change_rel_empty assms(1) _ assms(2)] by simp

theorem change_limiter_refines_history_witness:
  "run_changes (default_limits\<lparr>changes_per_minute := 1\<rparr>) no_windows [(0, 10), (secs 30, 20)]
     = spec_changes (default_limits\<lparr>changes_per_minute := 1\<rparr>) [] [(0, 10), (secs 30, 20)]"
proof -
  have "sorted (map fst [(0 :: nat, 10 :: nat), (secs 30, 20)])" by simp
  moreover have "change_bytes_per_hour (default_limits\<lparr>changes_per_minute := 1\<rparr>) < u64_max"
    by (simp add: default_limits_def)
  ultimately show ?thesis by (rule change_limiter_refines_history)
qed

text \<open>
  C18: the read budgets hold for reads that follow one another. In every hour, the
  characters returned stay within \<open>read_chars_per_hour\<close>, and those of each chat within
  \<open>read_chars_per_chat_hour\<close>, whatever each read asks for and however many chats read.
\<close>

theorem read_budgets_hold:
  assumes "clocked 0 cs"
    and "read_chars_per_hour l \<le> u64_max" and "read_chars_per_chat_hour l \<le> u64_max"
  shows "budgeted fst snd HOUR (read_chars_per_hour l) (timed (run_reads l no_windows cs))
    \<and> budgeted fst snd HOUR (read_chars_per_chat_hour l)
        (timed (of_chat chat (run_reads l no_windows cs)))"
  using run_reads_budgeted [OF read_rel_empty assms]
  by (auto simp: read_rel_def queue_rel_def)

theorem read_budgets_hold_witness:
  "budgeted fst snd HOUR (read_chars_per_hour default_limits)
     (timed (run_reads default_limits no_windows
        [(''1'', 50000, 0, 1), (''2'', 7, secs 5, secs 6)]))"
proof -
  have "clocked 0 [(''1'', 50000, 0, 1), (''2'', 7, secs 5, secs 6)]" by simp
  moreover have "read_chars_per_hour default_limits \<le> u64_max"
    and "read_chars_per_chat_hour default_limits \<le> u64_max"
    by (simp_all add: default_limits_def)
  ultimately show ?thesis
    using read_budgets_hold [of "[(''1'', 50000, 0, 1), (''2'', 7, secs 5, secs 6)]"] by blast
qed

text \<open>
  No more than \<open>calls_per_minute\<close> tool calls are accepted in any minute.
\<close>

theorem call_budget_holds:
  assumes "sorted ts"
  shows "budgeted (\<lambda>t. t) (\<lambda>_. 1) MINUTE (calls_per_minute l) (run_calls l no_windows ts)"
proof -
  have "call_rel l no_windows [] 0" by (simp add: call_rel_def no_windows_def)
  from run_calls_budgeted [OF this assms] show ?thesis by simp
qed

theorem call_budget_holds_witness:
  "budgeted (\<lambda>t. t) (\<lambda>_. 1) MINUTE (calls_per_minute default_limits)
     (run_calls default_limits no_windows [0, 5, secs 61])"
  by (rule call_budget_holds) simp

text \<open>
  The read budget is not kept by reads that overlap. With an hourly budget of 100
  characters, two reads whose allowances are both granted before either is recorded
  return 200 characters in the same instant.
\<close>

theorem overlapping_reads_overrun:
  "map_option (\<lambda>(a, b, w). (a + b, sum_list (map snd (recent fst HOUR 0 (reads w)))))
     (overlapping_reads (default_limits\<lparr>read_chars_per_hour := 100\<rparr>) no_windows ''1'' 0)
   = Some (200, 200)"
  by (simp add: overlapping_reads_def read_allowance_at_def record_read_at_def no_windows_def
      default_limits_def prune_def sum_u64_def recent_def HOUR_def Let_def MAX_TRACKED_CHATS_def)

text \<open>
  \<open>MAX_TRACKED_CHATS\<close> does not bound the chats tracked. When 1024 chats have all read
  within the hour, one more chat that reads is tracked as the 1025th, and none is forgotten.
\<close>

theorem tracked_chats_exceed_the_maximum:
  "length (chat_reads (record_read_at (full_chats MAX_TRACKED_CHATS now) [] 1 now))
     = Suc MAX_TRACKED_CHATS"
proof -
  have "\<forall>(c, q) \<in> set (chat_reads (full_chats MAX_TRACKED_CHATS now)).
      q \<noteq> [] \<and> now - fst (last q) < HOUR"
    by (auto simp: full_chats_def HOUR_def)
  from record_read_new_chat [OF full_chats_fresh _ this, of 1] show ?thesis
    by (simp add: full_chats_length)
qed

end
