(* ===== verification/Policy.thy ===== *)
theory Policy
  imports Config
begin

text \<open>
  \<open>src/policy.rs\<close>: the deny list. A pattern is compiled into components and matched
  against runs of consecutive components of an absolute path, both sides folded. The
  crates the code calls are parameters, gathered in \<open>policy_libs\<close>: NFD decomposition and the
  Unicode case mappings (used only for names that are not ASCII), and globset's build, match
  and escape. \<open>fold_name\<close> is \<open>fold\<close>, its result read as code points.
\<close>

record policy_libs =
  u_nfd :: "nat list \<Rightarrow> nat list"
  u_upper :: "nat \<Rightarrow> nat list"
  u_lower :: "nat \<Rightarrow> nat list"
  g_builds :: "nat list \<Rightarrow> bool"
  g_match :: "nat list \<Rightarrow> nat list \<Rightarrow> bool"
  g_escape :: "string \<Rightarrow> string"

definition DEFAULT_DENY :: "string list" where
  "DEFAULT_DENY = [
    ''.ssh'', ''.gnupg'', ''.aws'', ''.azure'', ''.config/gcloud'', ''.kube'',
    ''.docker/config.json'', ''.netrc'', ''.npmrc'', ''.pypirc'', ''.git-credentials'',
    ''.config/gh/hosts.yml'', ''.env*'', ''*.pem'', ''*.key'', ''*.p12'', ''*.pfx'', ''id_*'',
    ''*.kdbx'', ''*.1pux'', ''.password-store'', ''.local/share/keyrings'',
    ''Library/Keychains'', ''*.keychain'', ''*.keychain-db'',
    ''AppData/Roaming/Microsoft/Credentials'', ''AppData/Local/Microsoft/Credentials'',
    ''AppData/Roaming/Microsoft/Protect'', ''AppData/Roaming/Microsoft/Crypto'',
    ''AppData/Roaming/Microsoft/SystemCertificates'', ''AppData/Local/Microsoft/Vault'',
    ''NTUSER.DAT*'', ''Library/Mail'', ''Library/Messages'', ''.mozilla'',
    ''.config/google-chrome'', ''.config/chromium'', ''.config/BraveSoftware'',
    ''.config/microsoft-edge'', ''Library/Application Support/Google/Chrome'',
    ''Library/Application Support/Chromium'', ''Library/Application Support/Firefox'',
    ''Library/Application Support/BraveSoftware'',
    ''Library/Application Support/Microsoft Edge'', ''Library/Safari'',
    ''AppData/Local/Google/Chrome/User Data'', ''AppData/Local/Chromium/User Data'',
    ''AppData/Local/BraveSoftware'', ''AppData/Local/Microsoft/Edge/User Data'',
    ''AppData/Roaming/Mozilla/Firefox'', ''AppData/Roaming/Opera Software'',
    ''Library/Cookies'', ''/etc/shadow'', ''/etc/gshadow'', ''/etc/sudoers'',
    ''/etc/ssl/private'', ''.local/share/Trash'', ''.Trash'', ''.Trash-*'', ''.Trashes'',
    ''$Recycle.Bin'']"

definition DEFAULT_WRITE_DENY :: "string list" where
  "DEFAULT_WRITE_DENY = [
    ''.git'', ''.hg'', ''.svn'', ''.bzr'', ''.jj'', ''.bashrc'', ''.bash_profile'',
    ''.bash_login'', ''.bash_logout'', ''.profile'', ''.zshrc'', ''.zshenv'', ''.zprofile'',
    ''.zlogin'', ''.zlogout'', ''.config/fish'', ''.config/nushell'', ''.config/powershell'',
    ''Microsoft.PowerShell_profile.ps1'', ''.gitconfig'', ''.config/git'', ''.tmux.conf'',
    ''.config/tmux'', ''.xinitrc'', ''.xprofile'', ''.xsession'', ''.xsessionrc'',
    ''.config/hypr'', ''.config/i3'', ''.config/sway'', ''.config/autostart'',
    ''.config/systemd'', ''.config/environment.d'', ''.local/share/applications'',
    ''.local/share/systemd'', ''Library/LaunchAgents'', ''Library/LaunchDaemons'',
    ''Library/StartupItems'', ''AppData/Roaming/Microsoft/Windows/Start Menu'',
    ''.config/uwsm'', ''.vscode'', ''*.code-workspace'', ''.idea'', ''.envrc'', ''.direnv'',
    ''.cargo'', ''.vim'', ''.vimrc'', ''.gvimrc'', ''.exrc'', ''.nvimrc'', ''.nvim.lua'',
    ''.config/nvim'', ''.emacs'', ''.emacs.d'', ''.config/emacs'', ''.dir-locals.el'',
    ''.dir-locals-2.el'', ''.husky'', ''.pre-commit-config.yaml'', ''lefthook.yml'',
    ''lefthook.yaml'', ''.lefthook.yml'', ''.lefthook.yaml'', ''lefthook-local.yml'',
    ''.mise.toml'', ''mise.toml'', ''.mise.local.toml'', ''mise.local.toml'', ''.mise'',
    ''.yarnrc'', ''.yarnrc.yml'', ''*.pth'', ''sitecustomize.py'', ''usercustomize.py'',
    ''site-packages'', ''dist-packages'', ''.pdbrc'', ''.pdbrc.py'', ''.gdbinit'',
    ''.lldbinit'', ''.irbrc'', ''.pryrc'', ''.Rprofile'', ''desktop.ini'', ''autorun.inf'']"

definition HOME_DOT_ENTRIES :: string where
  "HOME_DOT_ENTRIES = ''~/.*''"

definition eq_ignore_ascii_case :: "string \<Rightarrow> string \<Rightarrow> bool" where
  "eq_ignore_ascii_case a b \<longleftrightarrow> map to_ascii_lower a = map to_ascii_lower b"

definition is_removed :: "string list \<Rightarrow> string \<Rightarrow> bool" where
  "is_removed removed pattern \<longleftrightarrow>
     list_ex (\<lambda>r. eq_ignore_ascii_case r (trim_end_char (CHR ''/'') pattern)) removed"

definition never_changed :: "string list \<Rightarrow> string list" where
  "never_changed removed =
     filter (\<lambda>p. \<not> is_removed removed p) (DEFAULT_WRITE_DENY @ [HOME_DOT_ENTRIES])"

section \<open>Folding names\<close>

definition is_ignorable :: "nat \<Rightarrow> bool" where
  "is_ignorable c \<longleftrightarrow>
     c = 0x00AD \<or> c = 0x034F \<or> c = 0x061C \<or> (0x115F \<le> c \<and> c \<le> 0x1160)
     \<or> (0x17B4 \<le> c \<and> c \<le> 0x17B5) \<or> (0x180B \<le> c \<and> c \<le> 0x180F)
     \<or> (0x200B \<le> c \<and> c \<le> 0x200F) \<or> (0x202A \<le> c \<and> c \<le> 0x202E)
     \<or> (0x2060 \<le> c \<and> c \<le> 0x206F) \<or> c = 0x3164 \<or> (0xFE00 \<le> c \<and> c \<le> 0xFE0F)
     \<or> c = 0xFEFF \<or> c = 0xFFA0 \<or> (0xFFF0 \<le> c \<and> c \<le> 0xFFF8)
     \<or> (0x1BCA0 \<le> c \<and> c \<le> 0x1BCA3) \<or> (0x1D173 \<le> c \<and> c \<le> 0x1D17A)
     \<or> (0xE0000 \<le> c \<and> c \<le> 0xE0FFF)"

definition fold_round :: "policy_libs \<Rightarrow> nat list \<Rightarrow> nat list" where
  "fold_round u cs =
     concat (map (u_lower u)
       (concat (map (u_upper u) (filter (\<lambda>c. \<not> is_ignorable c) (u_nfd u cs)))))"

definition fold_name :: "policy_libs \<Rightarrow> string \<Rightarrow> nat list" where
  "fold_name u name =
     (if list_all is_ascii_char name then map (\<lambda>c. of_char (to_ascii_lower c)) name
      else u_nfd u (fold_round u (fold_round u (utf8_chars name))))"

section \<open>Patterns\<close>

record pattern =
  source :: string
  anchored :: bool
  globs :: "nat list list"

definition compile :: "policy_libs \<Rightarrow> string \<Rightarrow> string + pattern" where
  "compile u src =
     (let trimmed = trim_end_char (CHR ''/'') (trim_ws src);
          comps = map (fold_name u) (filter (\<lambda>c. c \<noteq> []) (split_on (CHR ''/'') trimmed))
      in if list_all (g_builds u) comps
         then Inr \<lparr>source = src, anchored = starts_with trimmed ''/'', globs = comps\<rparr>
         else Inl (''invalid deny pattern '' @ src))"

definition window_matches :: "policy_libs \<Rightarrow> nat list list \<Rightarrow> nat list list \<Rightarrow> nat \<Rightarrow> bool" where
  "window_matches u gs comps start \<longleftrightarrow>
     list_all (\<lambda>(g, c). g_match u g c) (zip gs (take (length gs) (drop start comps)))"

definition pattern_matches :: "policy_libs \<Rightarrow> pattern \<Rightarrow> nat list list \<Rightarrow> bool" where
  "pattern_matches u p comps \<longleftrightarrow>
     (let n = length (globs p)
      in if n = 0 \<or> length comps < n then False
         else if anchored p then window_matches u (globs p) comps 0
         else list_ex (window_matches u (globs p) comps) [0..<length comps - n + 1])"

type_synonym deny_list = "pattern list"

fun compile_all :: "policy_libs \<Rightarrow> string list \<Rightarrow> string + deny_list" where
  "compile_all u [] = Inr []"
| "compile_all u (p # ps) =
     (case compile u p of
        Inl e \<Rightarrow> Inl e
      | Inr c \<Rightarrow> (case compile_all u ps of Inl e \<Rightarrow> Inl e | Inr cs \<Rightarrow> Inr (c # cs)))"

definition deny_new :: "policy_libs \<Rightarrow> string list \<Rightarrow> string + deny_list" where
  "deny_new u ps = compile_all u (filter (\<lambda>p. trim_ws p \<noteq> []) ps)"

definition own_dir_pattern :: "policy_libs \<Rightarrow> path \<Rightarrow> string" where
  "own_dir_pattern u d = CHR ''/'' # join_with (CHR ''/'') (map (g_escape u) d)"

text \<open>\<open>own\<close> are cww's directories and the home trash, \<open>Paths::all_dirs\<close> and \<open>home_trash\<close>.\<close>

definition from_config :: "policy_libs \<Rightarrow> deny_config \<Rightarrow> path list \<Rightarrow> string + deny_list" where
  "from_config u c own =
     deny_new u (filter (\<lambda>p. \<not> is_removed (deny_remove c) p) DEFAULT_DENY
                 @ deny_extra c @ map (own_dir_pattern u) own)"

definition write_from_config ::
  "policy_libs \<Rightarrow> deny_config \<Rightarrow> path option \<Rightarrow> string + deny_list" where
  "write_from_config u c home =
     (case deny_new u (filter (\<lambda>p. \<not> is_removed (deny_remove c) p) DEFAULT_WRITE_DENY) of
        Inl e \<Rightarrow> Inl e
      | Inr dl \<Rightarrow>
          (case home of
             None \<Rightarrow> Inr dl
           | Some h \<Rightarrow>
               if is_removed (deny_remove c) HOME_DOT_ENTRIES \<or> h = [] then Inr dl
               else (case compile u (own_dir_pattern u h @ ''/.*'') of
                       Inl e \<Rightarrow> Inl e
                     | Inr p \<Rightarrow> Inr (dl @ [p\<lparr>source := HOME_DOT_ENTRIES\<rparr>]))))"

definition denied_by :: "policy_libs \<Rightarrow> deny_list \<Rightarrow> path \<Rightarrow> string option" where
  "denied_by u dl p =
     map_option source (find (\<lambda>pat. pattern_matches u pat (map (fold_name u) p)) dl)"

definition is_denied :: "policy_libs \<Rightarrow> deny_list \<Rightarrow> path \<Rightarrow> bool" where
  "is_denied u dl p \<longleftrightarrow> denied_by u dl p \<noteq> None"

lemma compile_all_total: "\<forall>g. g_builds u g \<Longrightarrow> \<exists>cs. compile_all u ps = Inr cs"
  by (induction ps) (fastforce simp: compile_def Let_def list_all_iff)+

section \<open>What a pattern matches\<close>

definition matches_run :: "policy_libs \<Rightarrow> pattern \<Rightarrow> nat list list \<Rightarrow> bool" where
  "matches_run u p comps \<longleftrightarrow> globs p \<noteq> []
     \<and> (\<exists>pre mid post. comps = pre @ mid @ post \<and> list_all2 (g_match u) (globs p) mid
          \<and> (anchored p \<longrightarrow> pre = []))"

lemma window_matches_iff:
  assumes "start + length gs \<le> length comps"
  shows "window_matches u gs comps start \<longleftrightarrow>
    list_all2 (g_match u) gs (take (length gs) (drop start comps))"
  using assms by (simp add: window_matches_def list_all2_iff list_all_iff)

lemma window_split:
  "start + n \<le> length xs \<Longrightarrow> xs = take start xs @ take n (drop start xs) @ drop (start + n) xs"
  by (metis append_take_drop_id drop_drop add.commute)

lemma window_matches_run:
  "(\<exists>start. start + length gs \<le> length comps \<and> window_matches u gs comps start) \<longleftrightarrow>
   (\<exists>pre mid post. comps = pre @ mid @ post \<and> list_all2 (g_match u) gs mid)"
proof
  assume "\<exists>start. start + length gs \<le> length comps \<and> window_matches u gs comps start"
  then obtain start where "start + length gs \<le> length comps" "window_matches u gs comps start"
    by blast
  then show "\<exists>pre mid post. comps = pre @ mid @ post \<and> list_all2 (g_match u) gs mid"
    using window_split [of start "length gs" comps] by (auto simp: window_matches_iff)
next
  assume "\<exists>pre mid post. comps = pre @ mid @ post \<and> list_all2 (g_match u) gs mid"
  then obtain pre mid post where c: "comps = pre @ mid @ post" "list_all2 (g_match u) gs mid"
    by blast
  then have "length mid = length gs" by (auto dest: list_all2_lengthD)
  with c show "\<exists>start. start + length gs \<le> length comps \<and> window_matches u gs comps start"
    by (intro exI [of _ "length pre"]) (auto simp: window_matches_iff)
qed

lemma pattern_matches_iff_run: "pattern_matches u p comps \<longleftrightarrow> matches_run u p comps"
proof (cases "globs p = [] \<or> length comps < length (globs p)")
  case True
  then show ?thesis
    by (auto simp: pattern_matches_def matches_run_def dest: list_all2_lengthD)
next
  case False
  show ?thesis
  proof (cases "anchored p")
    case True
    have "window_matches u (globs p) comps 0 \<longleftrightarrow>
        (\<exists>mid post. comps = mid @ post \<and> list_all2 (g_match u) (globs p) mid)"
    proof
      assume "window_matches u (globs p) comps 0"
      with False have "list_all2 (g_match u) (globs p) (take (length (globs p)) comps)"
        by (simp add: window_matches_iff)
      then show "\<exists>mid post. comps = mid @ post \<and> list_all2 (g_match u) (globs p) mid"
        by (metis append_take_drop_id)
    next
      assume "\<exists>mid post. comps = mid @ post \<and> list_all2 (g_match u) (globs p) mid"
      then obtain mid post where "comps = mid @ post" "list_all2 (g_match u) (globs p) mid" by blast
      moreover from this have "length mid = length (globs p)" by (simp add: list_all2_lengthD)
      ultimately show "window_matches u (globs p) comps 0" by (simp add: window_matches_iff)
    qed
    with True False show ?thesis by (auto simp: pattern_matches_def matches_run_def)
  next
    case unanchored: False
    have "list_ex (window_matches u (globs p) comps) [0..<length comps - length (globs p) + 1] \<longleftrightarrow>
        (\<exists>start. start + length (globs p) \<le> length comps \<and> window_matches u (globs p) comps start)"
    proof -
      have "i < length comps - length (globs p) + 1 \<longleftrightarrow> i + length (globs p) \<le> length comps" for i
        using False by linarith
      then show ?thesis by (auto simp only: list_ex_iff atLeastLessThan_iff set_upt)
    qed
    then show ?thesis
      using unanchored False
      by (auto simp: pattern_matches_def matches_run_def window_matches_run)
  qed
qed

lemma matches_run_below:
  assumes "matches_run u p comps"
  shows "matches_run u p (comps @ rest)"
proof -
  obtain pre mid post where "comps = pre @ mid @ post" "list_all2 (g_match u) (globs p) mid"
    "anchored p \<longrightarrow> pre = []" "globs p \<noteq> []"
    using assms by (auto simp: matches_run_def)
  then show ?thesis
    unfolding matches_run_def
    by (intro conjI exI [of _ pre] exI [of _ mid] exI [of _ "post @ rest"]) simp_all
qed

lemma is_denied_iff:
  "is_denied u dl p \<longleftrightarrow> (\<exists>pat \<in> set dl. matches_run u pat (map (fold_name u) p))"
  by (auto simp: is_denied_def denied_by_def find_None_iff' pattern_matches_iff_run)

lemma is_denied_append: "is_denied u dl p \<Longrightarrow> is_denied u dl (p @ q)"
  by (auto simp: is_denied_iff intro: matches_run_below)

lemma is_denied_more: "is_denied u dl p \<Longrightarrow> set dl \<subseteq> set dl' \<Longrightarrow> is_denied u dl' p"
  by (auto simp: is_denied_iff)

text \<open>
  The contract the rest of the daemon relies on: denying a folder denies everything below
  it. What follows from it is proved once here, for reads and changes alike.
\<close>

locale deny_contract =
  fixes denies :: "path \<Rightarrow> bool"
  assumes below: "denies p \<Longrightarrow> denies (p @ q)"
begin

lemma allowed_parents: "\<not> denies (p @ q) \<Longrightarrow> \<not> denies p"
  by (blast intro: below)

lemma allowed_take: "\<not> denies p \<Longrightarrow> \<not> denies (take n p)"
  using allowed_parents [of "take n p" "drop n p"] by simp

lemma denied_root_hides_all: "denies r \<Longrightarrow> starts_with p r \<Longrightarrow> denies p"
  by (auto simp: starts_with_iff intro: below)

end

interpretation dl: deny_contract "is_denied u d" for u d
  by unfold_locales (rule is_denied_append)

section \<open>Compiled lists\<close>

lemma compile_all_source:
  "compile_all u ps = Inr cs \<Longrightarrow> list_all2 (\<lambda>p c. compile u p = Inr c) ps cs"
  by (induction ps arbitrary: cs) (auto split: sum.splits)

lemma list_all2_in_set: "list_all2 R xs ys \<Longrightarrow> x \<in> set xs \<Longrightarrow> \<exists>y \<in> set ys. R x y"
  by (induction rule: list_all2_induct) auto

lemma deny_new_has:
  assumes "deny_new u ps = Inr dl" and "p \<in> set ps" and "trim_ws p \<noteq> []"
  shows "\<exists>c \<in> set dl. compile u p = Inr c"
proof -
  have "list_all2 (\<lambda>p c. compile u p = Inr c) (filter (\<lambda>p. trim_ws p \<noteq> []) ps) dl"
    using assms(1) by (auto simp: deny_new_def dest: compile_all_source)
  moreover have "p \<in> set (filter (\<lambda>p. trim_ws p \<noteq> []) ps)" using assms(2,3) by simp
  ultimately show ?thesis by (meson list_all2_in_set)
qed

lemma from_config_own:
  assumes "from_config u c own = Inr dl" and "d \<in> set own" and "trim_ws (own_dir_pattern u d) \<noteq> []"
  shows "\<exists>pat \<in> set dl. compile u (own_dir_pattern u d) = Inr pat"
  using assms by (auto simp: from_config_def intro!: deny_new_has)

lemma trim_end_char_id: "s = [] \<or> last s \<noteq> c \<Longrightarrow> trim_end_char c s = s"
  by (cases s rule: rev_cases) (auto simp: trim_end_char_def)

text \<open>
  What globset documents of \<open>escape\<close>, for the components of one path: the escaped name is
  not empty, brings in no separator, and its glob matches the name it came from.
\<close>

definition escapes :: "policy_libs \<Rightarrow> string \<Rightarrow> bool" where
  "escapes u n \<longleftrightarrow> g_escape u n \<noteq> [] \<and> CHR ''/'' \<notin> set (g_escape u n)
     \<and> g_match u (fold_name u (g_escape u n)) (fold_name u n)"

lemma join_last:
  "ps \<noteq> [] \<Longrightarrow> last ps \<noteq> [] \<Longrightarrow> join_with c ps \<noteq> [] \<and> last (join_with c ps) = last (last ps)"
  by (induction ps rule: induct_list012) auto

lemma compile_own_dir:
  assumes esc: "\<forall>n \<in> set d. escapes u n" and d: "d \<noteq> []"
    and trim: "trim_ws (own_dir_pattern u d) = own_dir_pattern u d"
    and c: "compile u (own_dir_pattern u d) = Inr pat"
  shows "anchored pat" and "globs pat = map (\<lambda>n. fold_name u (g_escape u n)) d"
proof -
  let ?ps = "map (g_escape u) d"
  have ne: "\<forall>p \<in> set ?ps. p \<noteq> [] \<and> CHR ''/'' \<notin> set p" using esc by (auto simp: escapes_def)
  then have ps: "?ps \<noteq> []" "last ?ps \<noteq> []" "CHR ''/'' \<notin> set (last ?ps)"
    using d by (auto simp: last_map)
  then have "last (own_dir_pattern u d) \<noteq> CHR ''/''"
    using join_last [OF ps(1,2), of "CHR ''/''"]
    by (auto simp: own_dir_pattern_def) (metis last_in_set)
  then have t: "trim_end_char (CHR ''/'') (own_dir_pattern u d) = own_dir_pattern u d"
    by (intro trim_end_char_id) simp
  have "split_on (CHR ''/'') (own_dir_pattern u d) = [] # ?ps"
    using split_join_with [OF ps(1)] ne by (simp add: own_dir_pattern_def)
  moreover have "filter (\<lambda>p. p \<noteq> []) ?ps = ?ps" using ne by (simp add: filter_id_conv)
  ultimately have "filter (\<lambda>p. p \<noteq> []) (split_on (CHR ''/'') (own_dir_pattern u d)) = ?ps"
    by simp
  with c show "anchored pat" and "globs pat = map (\<lambda>n. fold_name u (g_escape u n)) d"
    by (auto simp: compile_def Let_def trim t split: if_splits) (simp add: own_dir_pattern_def)
qed

section \<open>Properties\<close>

text \<open>
  C20: a compiled pattern matches exactly the paths it should: those with a run of
  consecutive components, at the start if the pattern is anchored and anywhere if not,
  whose folded names match the pattern's globs one by one.
\<close>

theorem pattern_matches_spec:
  "pattern_matches u p comps \<longleftrightarrow>
     globs p \<noteq> [] \<and> (\<exists>pre mid post. comps = pre @ mid @ post
        \<and> list_all2 (g_match u) (globs p) mid \<and> pre \<in> (if anchored p then {[]} else UNIV))"
  by (auto simp: pattern_matches_iff_run matches_run_def)

text \<open>
  Denying a folder denies everything inside it, at any depth, and no folder above a
  path that is allowed is denied.
\<close>

theorem denied_folder_hides_contents:
  assumes "is_denied u d r" and "starts_with p r"
  shows "is_denied u d p"
  using assms by (rule dl.denied_root_hides_all)

definition ascii_libs :: policy_libs where
  "ascii_libs = \<lparr>u_nfd = (\<lambda>s. s), u_upper = (\<lambda>c. [c]), u_lower = (\<lambda>c. [c]),
     g_builds = (\<lambda>_. True), g_match = (\<lambda>g c. g = c), g_escape = (\<lambda>s. s)\<rparr>"

theorem denied_folder_hides_contents_witness:
  "is_denied ascii_libs [\<lparr>source = ''.ssh'', anchored = False, globs = [map of_char ''.ssh'']\<rparr>]
     [''home'', ''u'', ''.SSH'', ''id'']"
proof -
  have "is_denied ascii_libs [\<lparr>source = ''.ssh'', anchored = False, globs = [map of_char ''.ssh'']\<rparr>]
     [''home'', ''u'', ''.SSH'']"
    by (simp add: is_denied_def denied_by_def pattern_matches_def window_matches_def upt_rec
        fold_name_def to_ascii_lower_def is_ascii_upper_def is_ascii_char_def ascii_libs_def)
  then show ?thesis by (rule denied_folder_hides_contents) simp
qed

text \<open>
  Cww's own folders are always denied, with everything in them: no \<open>[deny] remove\<close> entry
  and no \<open>extra\<close> pattern can bring the configuration, the index, the logs or the secrets
  into reach, as long as globset's escaping does what it documents for the names in the
  path and the last of them does not end in white space, which \<open>compile\<close> trims.
\<close>

theorem own_folders_always_denied:
  assumes cfg: "from_config u c own = Inr d" and own: "own_dir \<in> set own" and ne: "own_dir \<noteq> []"
    and esc: "\<forall>n \<in> set own_dir. escapes u n"
    and trim: "trim_ws (own_dir_pattern u own_dir) = own_dir_pattern u own_dir"
  shows "is_denied u d (own_dir @ below)"
proof -
  obtain pat where pat: "pat \<in> set d" "compile u (own_dir_pattern u own_dir) = Inr pat"
    using from_config_own [OF cfg own] trim by (auto simp: own_dir_pattern_def)
  have "matches_run u pat (map (fold_name u) own_dir)"
  proof -
    have "list_all2 (g_match u) (globs pat) (map (fold_name u) own_dir)"
      using compile_own_dir(2) [OF esc ne trim pat(2)] esc
      by (simp add: list_all2_conv_all_nth escapes_def)
    then show ?thesis
      using compile_own_dir(2) [OF esc ne trim pat(2)] ne
      unfolding matches_run_def
      by (intro conjI exI [of _ "[]"] exI [of _ "map (fold_name u) own_dir"]) auto
  qed
  then have "is_denied u d own_dir" using pat(1) by (auto simp: is_denied_iff)
  then show ?thesis by (rule is_denied_append)
qed

theorem own_folders_always_denied_witness:
  "is_denied ascii_libs
     (projr (from_config ascii_libs \<lparr>deny_extra = [], deny_remove = [''/h/cww''], allow_hardlinks = False\<rparr>
        [[''h'', ''cww'']])) ([''h'', ''cww''] @ [''config.toml''])"
proof (rule own_folders_always_denied)
  let ?c = "\<lparr>deny_extra = [], deny_remove = [''/h/cww''], allow_hardlinks = False\<rparr>"
  show "from_config ascii_libs ?c [[''h'', ''cww'']] =
      Inr (projr (from_config ascii_libs ?c [[''h'', ''cww'']]))"
    using compile_all_total [of ascii_libs] by (simp add: from_config_def deny_new_def ascii_libs_def) (metis projr_def sum.sel(2))
  show "\<forall>n \<in> set [''h'', ''cww'']. escapes ascii_libs n"
    by (simp add: escapes_def ascii_libs_def)
  show "trim_ws (own_dir_pattern ascii_libs [''h'', ''cww'']) = own_dir_pattern ascii_libs [''h'', ''cww'']"
    by (simp add: own_dir_pattern_def ascii_libs_def trim_ws_def trim_start_id whitespace_seqs_def)
qed simp_all

text \<open>
  Letter case never decides. Two absolute paths of ASCII names that differ only in
  case are both denied, by the same pattern, or both allowed.
\<close>

theorem ascii_case_is_ignored:
  assumes "list_all2 (\<lambda>a b. list_all is_ascii_char a \<and> list_all is_ascii_char b
             \<and> eq_ignore_ascii_case a b) p q"
  shows "denied_by u d p = denied_by u d q"
proof -
  have "map (fold_name u) p = map (fold_name u) q"
    using assms
  proof (induction rule: list_all2_induct)
    case (Cons a as b bs)
    then have "map to_ascii_lower a = map to_ascii_lower b" by (simp add: eq_ignore_ascii_case_def)
    then have "map of_char (map to_ascii_lower a) = (map of_char (map to_ascii_lower b) :: nat list)"
      by simp
    with Cons show ?case by (simp add: fold_name_def comp_def)
  qed simp
  then show ?thesis by (simp add: denied_by_def)
qed

theorem ascii_case_is_ignored_witness:
  "denied_by ascii_libs [\<lparr>source = ''.aws'', anchored = False, globs = [map of_char ''.aws'']\<rparr>]
     [''u'', ''.AWS'']
   = denied_by ascii_libs [\<lparr>source = ''.aws'', anchored = False, globs = [map of_char ''.aws'']\<rparr>]
     [''U'', ''.aws'']"
  by (rule ascii_case_is_ignored)
    (simp add: is_ascii_char_def eq_ignore_ascii_case_def to_ascii_lower_def is_ascii_upper_def)

end
