(* ===== verification/ToolPath.thy ===== *)
theory ToolPath
  imports Policy
begin

text \<open>
  \<open>src/reader/safe_fs/mod.rs\<close>: parsing of tool paths \<open>root_id:relative/path\<close>, before any
  access to the file system. \<open>windows\<close> stands for \<open>cfg!(windows)\<close>; \<open>dbg\<close> for the debug
  formatting \<open>{:?}\<close> of a string, which only appears in one message. A \<open>RelPath\<close> is the list
  of its components.
\<close>

definition MAX_PATH_LEN :: nat where "MAX_PATH_LEN = 4096"
definition MAX_COMPONENT_LEN :: nat where "MAX_COMPONENT_LEN = 255"

definition is_unsafe_in_path :: "nat \<Rightarrow> bool" where
  "is_unsafe_in_path c \<longleftrightarrow>
     is_control c \<or> c = 0x061C \<or> (0x200B \<le> c \<and> c \<le> 0x200F) \<or> (0x2028 \<le> c \<and> c \<le> 0x202E)
     \<or> (0x2060 \<le> c \<and> c \<le> 0x2069) \<or> c = 0xFEFF"

type_synonym rel_path = "string list"

fun parse_parts :: "bool \<Rightarrow> string list \<Rightarrow> tool_error + rel_path" where
  "parse_parts windows [] = Inr []"
| "parse_parts windows (part # rest) =
     (if part = [] \<or> part = ''.'' then parse_parts windows rest
      else if part = ''..'' then Inl (invalid_path (CHR 0x27 # ''..' is not allowed in paths''))
      else if MAX_COMPONENT_LEN < length part
        then Inl (invalid_path ''path component is too long'')
      else if windows \<and> CHR '':'' \<in> set part
        then Inl (invalid_path (CHR 0x27 # '':' is not allowed in file names on Windows''))
      else map_sum id ((#) part) (parse_parts windows rest))"

definition rel_parse :: "bool \<Rightarrow> string \<Rightarrow> tool_error + rel_path" where
  "rel_parse windows rel =
     (if starts_with rel ''/''
      then Inl (invalid_path ''absolute paths are not allowed; use root_id:relative/path'')
      else parse_parts windows (split_on (CHR ''/'') rel))"

text \<open>\<open>std::path::Component\<close>; a name that is not UTF-8 has no string.\<close>

datatype path_component = Normal "string option" | CurDir | ParentDir | RootDir | Prefix

fun from_relative_path :: "path_component list \<Rightarrow> rel_path option" where
  "from_relative_path [] = Some []"
| "from_relative_path (Normal None # cs) = None"
| "from_relative_path (Normal (Some n) # cs) =
     (if MAX_COMPONENT_LEN < length n \<or> CHR ''/'' \<in> set n \<or> CHR 0x5C \<in> set n
         \<or> CHR 0x00 \<in> set n \<or> n = ''..''
      then None else map_option ((#) n) (from_relative_path cs))"
| "from_relative_path (CurDir # cs) = from_relative_path cs"
| "from_relative_path (ParentDir # cs) = None"
| "from_relative_path (RootDir # cs) = None"
| "from_relative_path (Prefix # cs) = None"

definition is_root :: "rel_path \<Rightarrow> bool" where
  "is_root rel \<longleftrightarrow> rel = []"

definition file_name :: "rel_path \<Rightarrow> string option" where
  "file_name rel = (if rel = [] then None else Some (last rel))"

definition rel_join :: "rel_path \<Rightarrow> string \<Rightarrow> rel_path" where
  "rel_join rel name = rel @ [name]"

definition as_string :: "rel_path \<Rightarrow> string" where
  "as_string rel = join_with (CHR ''/'') rel"

definition is_valid_root_id :: "string \<Rightarrow> bool" where
  "is_valid_root_id i \<longleftrightarrow>
     2 \<le> length i \<and> length i \<le> 32 \<and> (is_ascii_lower (hd i) \<or> is_ascii_digit (hd i))
     \<and> list_all (\<lambda>b. is_ascii_lower b \<or> is_ascii_digit b \<or> b = CHR ''_'' \<or> b = CHR ''-'') i"

record tool_path =
  tp_root :: string
  tp_rel :: rel_path

definition tool_path_parse :: "bool \<Rightarrow> (string \<Rightarrow> string) \<Rightarrow> string \<Rightarrow> tool_error + tool_path" where
  "tool_path_parse windows dbg input =
     (if MAX_PATH_LEN < length input then Inl (invalid_path ''path is too long'')
      else if CHR 0x00 \<in> set input
        then Inl (invalid_path ''NUL bytes are not allowed in paths'')
      else if list_ex is_unsafe_in_path (utf8_chars input)
        then Inl (invalid_path ''control characters, direction marks and invisible characters are not allowed in paths'')
      else if CHR 0x5C \<in> set input
        then Inl (invalid_path (''backslashes are not allowed in paths; use '' @ [CHR 0x27, CHR ''/'', CHR 0x27]))
      else if starts_with input ''/'' \<or> starts_with input ''~''
        then Inl (invalid_path ''absolute paths are not allowed; use root_id:relative/path'')
      else (case split_once (CHR '':'') input of
              None \<Rightarrow> Inl (invalid_path
                ''paths look like root_id:relative/path; call roots for the IDs'')
            | Some (rid, rel) \<Rightarrow>
                if \<not> is_valid_root_id rid
                then Inl (invalid_path (dbg rid @ '' is not a root ID; call roots for the IDs''))
                else map_sum id (\<lambda>r. \<lparr>tp_root = rid, tp_rel = r\<rparr>) (rel_parse windows rel)))"

definition tool_path_display :: "tool_path \<Rightarrow> string" where
  "tool_path_display tp = tp_root tp @ CHR '':'' # as_string (tp_rel tp)"

definition abs_path :: "path \<Rightarrow> rel_path \<Rightarrow> path" where
  "abs_path root rel = root @ rel"

definition is_within :: "path \<Rightarrow> path \<Rightarrow> bool" where
  "is_within root candidate \<longleftrightarrow> starts_with candidate root"

section \<open>What parsing accepts\<close>

definition safe_component :: "bool \<Rightarrow> string \<Rightarrow> bool" where
  "safe_component windows c \<longleftrightarrow> c \<noteq> [] \<and> c \<noteq> ''.'' \<and> c \<noteq> ''..'' \<and> CHR ''/'' \<notin> set c
     \<and> length c \<le> MAX_COMPONENT_LEN \<and> (windows \<longrightarrow> CHR '':'' \<notin> set c)"

lemma parse_parts_Inr:
  "parse_parts w ps = Inr rel \<longleftrightarrow>
     rel = filter (\<lambda>p. p \<noteq> [] \<and> p \<noteq> ''.'') ps
     \<and> (\<forall>p \<in> set ps. p \<noteq> ''..'' \<and> length p \<le> MAX_COMPONENT_LEN \<and> (w \<longrightarrow> CHR '':'' \<notin> set p))"
proof (induction w ps arbitrary: rel rule: parse_parts.induct)
  case (2 w part rest)
  then show ?case
    by (cases "parse_parts w rest") (auto simp: MAX_COMPONENT_LEN_def)
qed auto

lemma rel_parse_safe:
  assumes "rel_parse w s = Inr rel"
  shows "\<forall>c \<in> set rel. safe_component w c"
    and "length (as_string rel) \<le> length s"
    and "set (as_string rel) \<subseteq> insert (CHR ''/'') (set s)"
    and "set (utf8_chars (as_string rel)) \<subseteq> insert 47 (set (utf8_chars s))"
proof -
  let ?ps = "split_on (CHR ''/'') s"
  have rel: "rel = filter (\<lambda>p. p \<noteq> [] \<and> p \<noteq> ''.'') ?ps"
    and ok: "\<forall>p \<in> set ?ps. p \<noteq> ''..'' \<and> length p \<le> MAX_COMPONENT_LEN \<and> (w \<longrightarrow> CHR '':'' \<notin> set p)"
    using assms by (auto simp: rel_parse_def parse_parts_Inr split: if_splits)
  show "\<forall>c \<in> set rel. safe_component w c"
    using ok by (auto simp: rel safe_component_def dest: split_on_pieces)
  show "length (as_string rel) \<le> length s"
    using length_join_filter [of "CHR ''/''" _ ?ps] by (simp add: rel as_string_def)
  have sub: "set p \<subseteq> set s" if "p \<in> set ?ps" for p
    using split_on_subset [OF that] .
  then show "set (as_string rel) \<subseteq> insert (CHR ''/'') (set s)"
    using set_join_with [of "CHR ''/''" rel] by (fastforce simp: rel as_string_def)
  have "set (utf8_chars p) \<subseteq> set (utf8_chars s)" if "p \<in> set ?ps" for p
    using utf8_chars_split_on [OF _ that] by (simp add: is_ascii_char_def)
  then show "set (utf8_chars (as_string rel)) \<subseteq> insert 47 (set (utf8_chars s))"
    using utf8_chars_join [of "CHR ''/''" rel]
    by (fastforce simp: rel as_string_def is_ascii_char_def)
qed

lemma rel_parse_as_string:
  assumes "\<forall>c \<in> set rel. safe_component w c"
  shows "rel_parse w (as_string rel) = Inr rel"
proof (cases rel)
  case Nil
  then show ?thesis by (simp add: rel_parse_def as_string_def)
next
  case (Cons a rest)
  have "split_on (CHR ''/'') (as_string rel) = rel"
    using assms Cons by (simp add: as_string_def split_join_with safe_component_def)
  moreover have "\<not> starts_with (as_string rel) ''/''"
  proof
    assume "starts_with (as_string rel) ''/''"
    then obtain t where "as_string rel = ''/'' @ t" by (auto simp: starts_with_iff)
    then have "split_on (CHR ''/'') (as_string rel) = [] # split_on (CHR ''/'') t" by simp
    with calculation Cons assms show False by (auto simp: safe_component_def)
  qed
  ultimately show ?thesis
    using assms by (auto simp: rel_parse_def parse_parts_Inr filter_id_conv safe_component_def)
qed

lemma tool_path_parse_Inr:
  assumes "tool_path_parse w dbg input = Inr tp"
  obtains rel where "input = tp_root tp @ CHR '':'' # rel" and "is_valid_root_id (tp_root tp)"
    and "rel_parse w rel = Inr (tp_rel tp)" and "length input \<le> MAX_PATH_LEN"
    and "CHR 0x00 \<notin> set input" and "CHR 0x5C \<notin> set input"
    and "\<forall>c \<in> set (utf8_chars input). \<not> is_unsafe_in_path c"
proof -
  obtain rid rel where sp: "split_once (CHR '':'') input = Some (rid, rel)"
    using assms by (cases "split_once (CHR '':'') input") (auto simp: tool_path_parse_def split: if_splits)
  obtain r where "rel_parse w rel = Inr r"
    using assms sp by (cases "rel_parse w rel") (auto simp: tool_path_parse_def split: if_splits)
  with assms sp that show thesis
    by (auto simp: tool_path_parse_def list_ex_iff dest!: split_once_Some split: if_splits)
qed

text \<open>
  The file system below a shared folder is addressed through \<open>abs_path\<close>; whatever the
  client of the parser builds from an accepted path stays inside the folder. The contract
  names what a reader relies on: every accepted relative path has safe components only.
\<close>

locale path_parser =
  fixes parse :: "string \<Rightarrow> 'e + rel_path" and windows :: bool
  assumes parsed_safe: "parse s = Inr rel \<Longrightarrow> c \<in> set rel \<Longrightarrow> safe_component windows c"
begin

lemma no_parent_steps: "parse s = Inr rel \<Longrightarrow> ''..'' \<notin> set rel"
  using parsed_safe by (auto simp: safe_component_def)

lemma stays_inside: "parse s = Inr rel \<Longrightarrow> is_within root (abs_path root rel)"
  by (simp add: is_within_def abs_path_def)

lemma prefixes_safe: "parse s = Inr rel \<Longrightarrow> c \<in> set (take n rel) \<Longrightarrow> safe_component windows c"
  by (meson in_set_takeD parsed_safe)

end

interpretation rp: path_parser "rel_parse w" w for w
  using rel_parse_safe(1) by unfold_locales blast

lemma valid_root_id_chars:
  assumes "is_valid_root_id i"
  shows "CHR '':'' \<notin> set i" and "CHR 0x5C \<notin> set i" and "CHR 0x00 \<notin> set i"
    and "\<not> starts_with (i @ s) ''/''" and "\<not> starts_with (i @ s) ''~''"
    and "\<forall>c \<in> set (utf8_chars i). \<not> is_unsafe_in_path c" and "list_all is_ascii_char i"
proof -
  have range: "45 \<le> (of_char b :: nat) \<and> (of_char b :: nat) \<le> 122 \<and> b \<noteq> CHR '':'' \<and> b \<noteq> CHR 0x5C
      \<and> b \<noteq> CHR ''/''"
    if "b \<in> set i" for b
    using assms that
    by (auto simp: is_valid_root_id_def list_all_iff is_ascii_lower_def is_ascii_digit_def)
  then show "CHR '':'' \<notin> set i" and "CHR 0x5C \<notin> set i" by auto
  show "CHR 0x00 \<notin> set i" using range [of "CHR 0x00"] by auto
  obtain b t where i: "i = b # t" using assms by (cases i) (auto simp: is_valid_root_id_def)
  show "\<not> starts_with (i @ s) ''/''" using range [of b] i by auto
  show "\<not> starts_with (i @ s) ''~''" using range [of b] i by auto
  show a: "list_all is_ascii_char i" using range by (fastforce simp: list_all_iff is_ascii_char_def)
  then show "\<forall>c \<in> set (utf8_chars i). \<not> is_unsafe_in_path c"
    using range by (fastforce simp: utf8_chars_ascii is_unsafe_in_path_def is_control_def)
qed

lemma parse_display:
  assumes rid: "is_valid_root_id (tp_root tp)" and safe: "\<forall>c \<in> set (tp_rel tp). safe_component w c"
    and len: "length (tool_path_display tp) \<le> MAX_PATH_LEN"
    and chars: "CHR 0x00 \<notin> set (as_string (tp_rel tp))" "CHR 0x5C \<notin> set (as_string (tp_rel tp))"
      "\<forall>c \<in> set (utf8_chars (as_string (tp_rel tp))). \<not> is_unsafe_in_path c"
  shows "tool_path_parse w dbg (tool_path_display tp) = Inr tp"
proof -
  let ?s = "tool_path_display tp"
  note v = valid_root_id_chars [OF rid]
  have "utf8_chars ?s = utf8_chars (tp_root tp) @ 58 # utf8_chars (as_string (tp_rel tp))"
    by (simp add: tool_path_display_def utf8_chars_sep is_ascii_char_def)
  then have "\<not> list_ex is_unsafe_in_path (utf8_chars ?s)"
    using v(6) chars(3) by (auto simp: list_ex_iff is_unsafe_in_path_def is_control_def)
  moreover have "CHR 0x00 \<notin> set ?s" "CHR 0x5C \<notin> set ?s"
    using v(2,3) chars(1,2) by (auto simp: tool_path_display_def)
  moreover have "split_once (CHR '':'') ?s = Some (tp_root tp, as_string (tp_rel tp))"
    using v(1) by (simp add: tool_path_display_def split_once_append)
  moreover have "rel_parse w (as_string (tp_rel tp)) = Inr (tp_rel tp)"
    using safe by (rule rel_parse_as_string)
  ultimately show ?thesis
    using len rid v(4,5) by (simp add: tool_path_parse_def tool_path_display_def)
qed

lemma parse_parts_Inl: "parse_parts w ps = Inl e \<Longrightarrow> code e = InvalidPath"
  by (induction w ps rule: parse_parts.induct)
    (auto simp: map_sum_def split: if_splits sum.splits)

lemma tool_path_parse_Inl:
  assumes "tool_path_parse w dbg input = Inl e"
  shows "code e = InvalidPath"
proof (cases "split_once (CHR '':'') input")
  case None
  with assms show ?thesis by (auto simp: tool_path_parse_def split: if_splits)
next
  case (Some x)
  then obtain rid rel where x: "split_once (CHR '':'') input = Some (rid, rel)" by (cases x) auto
  have "code e' = InvalidPath" if "rel_parse w rel = Inl e'" for e'
    using that by (auto simp: rel_parse_def dest: parse_parts_Inl split: if_splits)
  with assms x show ?thesis
    by (cases "rel_parse w rel") (auto simp: tool_path_parse_def split: if_splits)
qed

section \<open>Properties\<close>

text \<open>
  C22: what the parser accepts is safe to resolve. The root ID is a valid one, and every
  component is a plain name of at most 255 bytes without a separator, never empty, dot or
  dot-dot, so the absolute path it stands for lies inside the folder.
\<close>

theorem accepted_paths_are_safe:
  assumes "tool_path_parse w dbg input = Inr tp"
  shows "is_valid_root_id (tp_root tp) \<and> list_all (safe_component w) (tp_rel tp)
    \<and> is_within root (abs_path root (tp_rel tp))"
  using tool_path_parse_Inr [OF assms] rp.parsed_safe rp.stays_inside
  by (metis list_all_iff)

theorem accepted_paths_are_safe_witness:
  "list_all (safe_component False) [''a'', ''b.txt'']"
proof -
  have "tool_path_parse False id ''docs:a/./b.txt'' = Inr \<lparr>tp_root = ''docs'', tp_rel = [''a'', ''b.txt'']\<rparr>"
    by (simp add: tool_path_parse_def utf8_chars_def is_unsafe_in_path_def is_control_def
        is_valid_root_id_def is_ascii_lower_def is_ascii_digit_def rel_parse_def
        MAX_PATH_LEN_def MAX_COMPONENT_LEN_def)
  from accepted_paths_are_safe [OF this] show ?thesis by simp
qed

text \<open>
  C23: parsing and printing agree. An accepted path prints in a canonical form that parses
  to the same path, whatever dots and doubled slashes it was written with.
\<close>

theorem parse_display_roundtrip:
  assumes "tool_path_parse w dbg input = Inr tp"
  shows "tool_path_parse w dbg (tool_path_display tp) = Inr tp"
proof (rule tool_path_parse_Inr [OF assms])
  fix rel
  assume input: "input = tp_root tp @ CHR '':'' # rel" and rid: "is_valid_root_id (tp_root tp)"
    and rel: "rel_parse w rel = Inr (tp_rel tp)" and len: "length input \<le> MAX_PATH_LEN"
    and nul: "CHR 0x00 \<notin> set input" and bs: "CHR 0x5C \<notin> set input"
    and unsafe: "\<forall>c \<in> set (utf8_chars input). \<not> is_unsafe_in_path c"
  note r = rel_parse_safe [OF rel]
  have "\<forall>c \<in> set (utf8_chars rel). \<not> is_unsafe_in_path c"
    using unsafe by (simp add: input utf8_chars_sep is_ascii_char_def)
  moreover have "\<not> is_unsafe_in_path 47" by (simp add: is_unsafe_in_path_def is_control_def)
  ultimately have "\<forall>c \<in> set (utf8_chars (as_string (tp_rel tp))). \<not> is_unsafe_in_path c"
    using r(4) by blast
  then show ?thesis
    using r(1-3) len nul bs
    by (intro parse_display rid) (auto simp: tool_path_display_def input)
qed

theorem parse_display_roundtrip_witness:
  "tool_path_parse False id (tool_path_display \<lparr>tp_root = ''docs'', tp_rel = [''a'', ''b.txt'']\<rparr>)
     = Inr \<lparr>tp_root = ''docs'', tp_rel = [''a'', ''b.txt'']\<rparr>"
proof (rule parse_display_roundtrip)
  show "tool_path_parse False id ''docs:a/./b.txt'' = Inr \<lparr>tp_root = ''docs'', tp_rel = [''a'', ''b.txt'']\<rparr>"
    by (simp add: tool_path_parse_def utf8_chars_def is_unsafe_in_path_def is_control_def
        is_valid_root_id_def is_ascii_lower_def is_ascii_digit_def rel_parse_def
        MAX_PATH_LEN_def MAX_COMPONENT_LEN_def)
qed

text \<open>
  A path with a parent step or a backslash is refused, wherever it stands, and so is
  a single letter before the colon, so \<open>C:\<close> can never name a root; and whatever is refused
  is refused with \<open>invalid_path\<close>.
\<close>

theorem escaping_paths_are_refused:
  assumes "CHR '':'' \<notin> set rid"
    and "''..'' \<in> set (split_on (CHR ''/'') rel) \<or> length rid \<le> 1 \<or> CHR 0x5C \<in> set rel"
  shows "\<exists>e. tool_path_parse w dbg (rid @ CHR '':'' # rel) = Inl e \<and> code e = InvalidPath"
proof (cases "tool_path_parse w dbg (rid @ CHR '':'' # rel)")
  case (Inl e)
  then show ?thesis by (auto dest: tool_path_parse_Inl)
next
  case (Inr tp)
  then obtain rel' where eq: "rid @ CHR '':'' # rel = tp_root tp @ CHR '':'' # rel'"
    and v: "is_valid_root_id (tp_root tp)" and p: "rel_parse w rel' = Inr (tp_rel tp)"
    and bs: "CHR 0x5C \<notin> set (rid @ CHR '':'' # rel)"
    by (rule tool_path_parse_Inr)
  have "rid = tp_root tp \<and> rel = rel'"
    using eq assms(1) valid_root_id_chars(1) [OF v]
    by (metis split_once_append option.inject prod.inject)
  with assms(2) bs p v have False
    by (auto simp: rel_parse_def parse_parts_Inr is_valid_root_id_def split: if_splits)
  then show ?thesis ..
qed

theorem escaping_paths_are_refused_witness:
  "\<exists>e. tool_path_parse False id (''docs'' @ CHR '':'' # ''a/../../etc'') = Inl e \<and> code e = InvalidPath"
  by (rule escaping_paths_are_refused) simp_all

end
