(* ===== verification/Roots.thy ===== *)
theory Roots
  imports ToolPath
begin

text \<open>
  \<open>src/roots.rs\<close>: sharing folders, allowing changes and commands in them, lending them to
  bots, and removing them. The operations are the code's, in its order of checks; an error
  leaves the configuration as it was. The machine is \<open>machine\<close>: what canonicalising a path
  gives, which paths are folders, the home and temporary folders as the code resolves them,
  \<open>cfg!(windows)\<close> (only \<open>set_commands\<close> asks), and the debug formatting used in messages.
  \<open>too_broad\<close> is the Unix version.
\<close>

record machine =
  m_canonical :: "string \<Rightarrow> path option"
  m_is_dir :: "path \<Rightarrow> bool"
  m_home :: "path option"
  m_temp :: "path option"
  m_windows :: bool
  m_libs :: policy_libs
  m_own :: "path list"
  m_config_file :: path
  m_dbg :: "string \<Rightarrow> string"

definition SYSTEM_DIRS :: "path list" where
  "SYSTEM_DIRS = [[''bin''], [''boot''], [''dev''], [''etc''], [''lib''], [''lib32''], [''lib64''],
     [''libx32''], [''opt''], [''proc''], [''root''], [''run''], [''sbin''], [''srv''], [''sys''],
     [''usr''], [''var''], [''nix''], [''snap''], [''Applications''], [''Library''], [''System''],
     [''cores''], [''private''], [''Users''], [''home'']]"

definition SCRATCH_DIRS :: "path list" where
  "SCRATCH_DIRS = [[''tmp''], [''var'', ''tmp''], [''private'', ''tmp''],
     [''private'', ''var'', ''tmp''], [''private'', ''var'', ''folders''], [''mnt''], [''media''],
     [''Volumes'']]"

definition show_path :: "path \<Rightarrow> string" where
  "show_path p = CHR ''/'' # join_with (CHR ''/'') p"

fun scratch_verdict :: "path list \<Rightarrow> path \<Rightarrow> string option option" where
  "scratch_verdict [] p = None"
| "scratch_verdict (d # ds) p =
     (if p = d then Some (Some (''it is a shared system directory ('' @ show_path d
                                  @ ''); share a folder inside it''))
      else if starts_with p d then Some None
      else scratch_verdict ds p)"

fun system_verdict :: "path list \<Rightarrow> path \<Rightarrow> path \<Rightarrow> string option" where
  "system_verdict [] home p = None"
| "system_verdict (d # ds) home p =
     (if p = d \<or> (starts_with p d \<and> \<not> starts_with p home)
      then Some (''it is a system directory ('' @ show_path d @ '')'')
      else system_verdict ds home p)"

definition too_broad :: "machine \<Rightarrow> path \<Rightarrow> string + string option" where
  "too_broad m p =
     (if p = [] then Inr (Some ''it is the whole filesystem'')
      else case m_home m of
        None \<Rightarrow> Inl ''HOME is not set to an absolute path''
      | Some home \<Rightarrow>
          if p = home then Inr (Some ''it is your whole home folder'')
          else if starts_with home p then Inr (Some ''it contains your home folder'')
          else
            let scratch =
              (case m_temp m of
                 Some temp \<Rightarrow>
                   if 2 < Suc (length temp) \<and> \<not> starts_with home temp then
                     if p = temp
                     then Some (Some ''it is the temporary folder; share a folder inside it'')
                     else if starts_with p temp then Some None
                     else None
                   else None
               | None \<Rightarrow> None)
            in case scratch of
                 Some v \<Rightarrow> Inr v
               | None \<Rightarrow> (case scratch_verdict SCRATCH_DIRS p of
                            Some v \<Rightarrow> Inr v
                          | None \<Rightarrow> Inr (system_verdict SYSTEM_DIRS home p)))"

section \<open>IDs\<close>

text \<open>
  \<open>to_lowercase\<close> followed by the ASCII filter: of the characters outside ASCII only the
  Kelvin sign and the dotted capital I have ASCII letters in their lower case.
\<close>

definition slug_char :: "nat \<Rightarrow> string" where
  "slug_char c =
     (if 65 \<le> c \<and> c \<le> 90 then [char_of (c + 32)]
      else if (97 \<le> c \<and> c \<le> 122) \<or> (48 \<le> c \<and> c \<le> 57) then [char_of c]
      else if c = 0x212A then ''k''
      else if c = 0x0130 then ''i-''
      else ''-'')"

definition id_base :: "string \<Rightarrow> string" where
  "id_base label =
     (let slug = concat (map slug_char (utf8_chars label));
          words = filter (\<lambda>w. w \<noteq> []) (split_on (CHR ''-'') slug);
          base = trim_chars (\<lambda>c. c = CHR ''-'') (take 24 (join_with (CHR ''-'') words))
      in if is_valid_root_id base then base else ''root'')"

definition numbered :: "string \<Rightarrow> nat \<Rightarrow> string" where
  "numbered base n = base @ CHR ''-'' # show_nat n"

definition taken_from :: "string \<Rightarrow> string list \<Rightarrow> nat \<Rightarrow> string set" where
  "taken_from base ids n = set ids \<inter> numbered base ` {n..}"

lemma numbered_inj: "numbered base a = numbered base b \<Longrightarrow> a = b"
  by (simp add: numbered_def show_nat_inj)

lemma taken_from_next:
  assumes "numbered base n \<in> set ids"
  shows "card (taken_from base ids (Suc n)) < card (taken_from base ids n)"
proof (rule psubset_card_mono)
  show "finite (taken_from base ids n)" by (simp add: taken_from_def)
  have "numbered base n \<in> taken_from base ids n" using assms by (auto simp: taken_from_def)
  moreover have "numbered base n \<notin> taken_from base ids (Suc n)"
    by (auto simp: taken_from_def dest!: numbered_inj)
  moreover have "taken_from base ids (Suc n) \<subseteq> taken_from base ids n"
    by (auto simp: taken_from_def)
  ultimately show "taken_from base ids (Suc n) \<subset> taken_from base ids n" by blast
qed

function next_free :: "string \<Rightarrow> string list \<Rightarrow> nat \<Rightarrow> string" where
  "next_free base ids n =
     (if numbered base n \<in> set ids then next_free base ids (Suc n) else numbered base n)"
  by pat_completeness auto
termination
  by (relation "measure (\<lambda>(base, ids, n). card (taken_from base ids n))")
    (auto intro: taken_from_next)

declare next_free.simps [simp del]

definition new_id :: "config \<Rightarrow> string \<Rightarrow> string" where
  "new_id c label =
     (let base = id_base label; ids = map root_id (roots c)
      in if base \<notin> set ids then base else next_free base ids 2)"

section \<open>Operations\<close>

record new_root =
  n_path :: string
  n_label :: "string option"
  n_i_know :: bool
  n_follow_symlinks :: bool
  n_writable :: bool

definition default_label :: "path \<Rightarrow> string" where
  "default_label p = (if p = [] then show_path p else last p)"

definition add_root :: "machine \<Rightarrow> config \<Rightarrow> new_root \<Rightarrow> string + (root \<times> config)" where
  "add_root m c new =
     (case m_canonical m (n_path new) of
        None \<Rightarrow> Inl (n_path new @ '' does not exist'')
      | Some p \<Rightarrow>
          if \<not> m_is_dir m p then Inl (show_path p @ '' is not a directory'')
          else (case too_broad m p of
            Inl e \<Rightarrow> Inl e
          | Inr reason \<Rightarrow>
              if reason \<noteq> None \<and> \<not> n_i_know new
              then Inl (''refusing to share '' @ show_path p @ '': '' @ the reason
                     @ ''. Share a narrower folder, or pass --i-know if you really mean it'')
              else (case from_config (m_libs m) (deny c) (m_own m) of
                Inl e \<Rightarrow> Inl e
              | Inr dl \<Rightarrow>
                  if denied_by (m_libs m) dl p \<noteq> None
                  then Inl (show_path p @ '' matches the deny list''
                         @ '' ('' @ the (denied_by (m_libs m) dl p) @ ''); edit [deny] in ''
                         @ show_path (m_config_file m) @ '' to change that'')
                  else (case find (\<lambda>r. root_path r = p) (roots c) of
                    Some existing \<Rightarrow>
                      Inl (show_path p @ '' is already shared as '' @ root_id existing)
                  | None \<Rightarrow>
                      let label = (case n_label new of
                            Some l \<Rightarrow> if trim_ws l \<noteq> [] then l else default_label p
                          | None \<Rightarrow> default_label p)
                      in if 80 < length (utf8_chars label)
                         then Inl ''the label is longer than 80 characters''
                         else let r = \<lparr>root_id = new_id c label, root_label = label, root_path = p,
                                 follow_symlinks = n_follow_symlinks new, writable = n_writable new,
                                 commands = False, network = False, bots = []\<rparr>
                              in Inr (r, c\<lparr>roots := roots c @ [r]\<rparr>)))))"

definition position :: "('a \<Rightarrow> bool) \<Rightarrow> 'a list \<Rightarrow> nat option" where
  "position P xs = find (\<lambda>i. P (xs ! i)) [0..<length xs]"

definition find_root :: "machine \<Rightarrow> config \<Rightarrow> string \<Rightarrow> string + nat" where
  "find_root m c which =
     (let as_path = m_canonical m which
      in case position (\<lambda>r. root_id r = which \<or> as_path = Some (root_path r)) (roots c) of
           Some i \<Rightarrow> Inr i
         | None \<Rightarrow>
             (let matches = filter (\<lambda>i. root_label (roots c ! i) = which) [0..<length (roots c)]
              in if length matches = 1 then Inr (matches ! 0)
                 else Inl (''no shared folder matches '' @ m_dbg m which @ ''; see `cww roots list`'')))"

definition attended :: "root \<Rightarrow> root" where
  "attended r = r\<lparr>bots := map (\<lambda>l. l\<lparr>unattended := False\<rparr>) (bots r)\<rparr>"

definition put_root :: "config \<Rightarrow> nat \<Rightarrow> root \<Rightarrow> config" where
  "put_root c i r = c\<lparr>roots := (roots c)[i := r]\<rparr>"

definition set_writable ::
  "machine \<Rightarrow> config \<Rightarrow> string \<Rightarrow> bool \<Rightarrow> bool \<Rightarrow> string + (root \<times> config)" where
  "set_writable m c which w i_know =
     (case find_root m c which of
        Inl e \<Rightarrow> Inl e
      | Inr i \<Rightarrow>
          let r = roots c ! i;
              done = (let r' = r\<lparr>writable := w\<rparr>;
                          r'' = (if w then r' else attended (r'\<lparr>commands := False, network := False\<rparr>))
                      in Inr (r'', put_root c i r''))
          in if w \<and> \<not> i_know
             then (case too_broad m (root_path r) of
                     Inl e \<Rightarrow> Inl e
                   | Inr (Some reason) \<Rightarrow>
                       Inl (''refusing to allow changes in '' @ show_path (root_path r) @ '': '' @ reason
                         @ '', where changes could reach every program's settings. Allow changes in a narrower folder, or pass --i-know if you really mean it'')
                   | Inr None \<Rightarrow> done)
             else done)"

definition set_commands ::
  "machine \<Rightarrow> config \<Rightarrow> string \<Rightarrow> bool \<Rightarrow> bool \<Rightarrow> string + (root \<times> config)" where
  "set_commands m c which cmds net =
     (case find_root m c which of
        Inl e \<Rightarrow> Inl e
      | Inr i \<Rightarrow>
          let r = roots c ! i
          in if cmds \<and> \<not> writable r
             then Inl (root_label r @ '' doesn't allow changes. Allow changes there first (`cww roots allow-changes ''
                    @ root_id r @ ''`): a command can change anything in its folder'')
             else if cmds \<and> m_windows m
             then Inl ''commands can't run on Windows yet: it has no sandbox for them''
             else let r' = r\<lparr>commands := cmds, network := cmds \<and> net\<rparr>;
                      r'' = (if cmds then r' else attended r')
                  in Inr (r'', put_root c i r''))"

fun take_chars :: "nat \<Rightarrow> string \<Rightarrow> string" where
  "take_chars n [] = []"
| "take_chars n (c # s) =
     (if 128 \<le> (of_char c :: nat) \<and> (of_char c :: nat) < 192 then c # take_chars n s
      else if n = 0 then [] else c # take_chars (n - 1) s)"

definition set_bot ::
  "machine \<Rightarrow> config \<Rightarrow> string \<Rightarrow> string \<Rightarrow> string option \<Rightarrow> bool \<Rightarrow> bool \<Rightarrow> string + (root \<times> config)"
where
  "set_bot m c which b name lent unatt =
     (if b = [] \<or> 20 < length b \<or> \<not> list_all is_ascii_digit b
      then Inl (m_dbg m b @ '' isn't a bot's ID: it's the number in the bot's address in Chat with Work, like 42'')
      else case find_root m c which of
        Inl e \<Rightarrow> Inl e
      | Inr i \<Rightarrow>
          let r = roots c ! i
          in if lent \<and> unatt \<and> \<not> runs_commands r
             then Inl (root_label r @ '' doesn't allow commands. Allow them there first (`cww roots allow-commands ''
                    @ root_id r @ ''`)'')
             else
               let given = (case map_option trim_ws name of
                              Some n \<Rightarrow> if n \<noteq> [] then Some (take_chars 80 n) else None
                            | None \<Rightarrow> None);
                   nm = (case given of
                           Some n \<Rightarrow> n
                         | None \<Rightarrow> (case loan r b of Some l \<Rightarrow> loan_name l | None \<Rightarrow> []));
                   kept = filter (\<lambda>l. loan_bot l \<noteq> b) (bots r);
                   r' = r\<lparr>bots := (if lent
                          then kept @ [\<lparr>loan_bot = b, loan_name = nm, unattended = unatt\<rparr>] else kept)\<rparr>
               in Inr (r', put_root c i r'))"

definition remove_root :: "machine \<Rightarrow> config \<Rightarrow> string \<Rightarrow> string + (root \<times> config)" where
  "remove_root m c which =
     (case find_root m c which of
        Inl e \<Rightarrow> Inl e
      | Inr i \<Rightarrow> Inr (roots c ! i, c\<lparr>roots := take i (roots c) @ drop (Suc i) (roots c)\<rparr>))"

datatype root_op =
    AddRoot new_root
  | SetWritable string bool bool
  | SetCommands string bool bool
  | SetBot string string "string option" bool bool
  | RemoveRoot string

fun root_op_result :: "machine \<Rightarrow> config \<Rightarrow> root_op \<Rightarrow> string + (root \<times> config)" where
  "root_op_result m c (AddRoot new) = add_root m c new"
| "root_op_result m c (SetWritable which w k) = set_writable m c which w k"
| "root_op_result m c (SetCommands which b n) = set_commands m c which b n"
| "root_op_result m c (SetBot which b name lent u) = set_bot m c which b name lent u"
| "root_op_result m c (RemoveRoot which) = remove_root m c which"

definition apply_root_op :: "machine \<Rightarrow> config \<Rightarrow> root_op \<Rightarrow> config" where
  "apply_root_op m c x = (case root_op_result m c x of Inl _ \<Rightarrow> c | Inr (_, c') \<Rightarrow> c')"

section \<open>Finding and naming roots\<close>

lemma position_Some: "position P xs = Some i \<Longrightarrow> i < length xs \<and> P (xs ! i)"
  by (auto simp: position_def dest: find_SomeD)

lemma find_root_bound: "find_root m c which = Inr i \<Longrightarrow> i < length (roots c)"
proof -
  assume f: "find_root m c which = Inr i"
  let ?ms = "filter (\<lambda>i. root_label (roots c ! i) = which) [0..<length (roots c)]"
  show ?thesis
  proof (cases "position (\<lambda>r. root_id r = which \<or> m_canonical m which = Some (root_path r)) (roots c)")
    case None
    with f have "?ms \<noteq> []" and "i = ?ms ! 0"
      by (auto simp: find_root_def Let_def split: if_splits)
    then have "i \<in> set ?ms" by (metis nth_mem length_greater_0_conv)
    then show ?thesis by simp
  next
    case (Some j)
    with f show ?thesis by (auto simp: find_root_def Let_def dest: position_Some)
  qed
qed

lemma next_free_fresh: "next_free base ids n \<notin> set ids"
  by (induction base ids n rule: next_free.induct) (simp add: next_free.simps)

lemma next_free_bound:
  "\<exists>k. next_free base ids n = numbered base k \<and> n \<le> k \<and> k \<le> n + card (taken_from base ids n)"
proof (induction base ids n rule: next_free.induct)
  case (1 base ids n)
  show ?case
  proof (cases "numbered base n \<in> set ids")
    case True
    then obtain k where "next_free base ids (Suc n) = numbered base k" "Suc n \<le> k"
      "k \<le> Suc n + card (taken_from base ids (Suc n))"
      using 1 by blast
    with taken_from_next [OF True] True show ?thesis
      by (intro exI [of _ k]) (simp add: next_free.simps [of base ids n])
  next
    case False
    then show ?thesis by (auto simp: next_free.simps [of base ids n])
  qed
qed

lemma new_id_fresh: "new_id c label \<notin> root_id ` set (roots c)"
  using next_free_fresh by (auto simp: new_id_def Let_def) (metis set_map imageI)

lemma show_nat_length: "n < 10 ^ k \<Longrightarrow> 0 < k \<Longrightarrow> length (show_nat n) \<le> k"
proof (induction n arbitrary: k rule: show_nat.induct)
  case (1 n)
  show ?case
  proof (cases "n < 10")
    case False
    obtain j where k: "k = Suc j" using 1(3) by (cases k) auto
    have j: "0 < j" using False 1(2) k by (cases j) auto
    have "n div 10 < 10 ^ j" using 1(2) k by (simp add: div_less_iff_less_mult mult.commute)
    with 1(1) [OF False this j] False k show ?thesis by (simp add: show_nat.simps [of n])
  next
    case True
    with 1(3) show ?thesis by (simp add: show_nat.simps [of n])
  qed
qed

lemma length_trim_chars: "length (trim_chars P s) \<le> length s"
  unfolding trim_chars_def
  by (metis length_rev length_dropWhile_le order_trans)

lemma id_base_valid: "is_valid_root_id (id_base label) \<and> length (id_base label) \<le> 24"
proof -
  have "length (trim_chars P (take 24 s)) \<le> 24" for P and s :: string
    using length_trim_chars [of P "take 24 s"] by simp
  moreover have "is_valid_root_id ''root''"
    by (simp add: is_valid_root_id_def is_ascii_lower_def)
  ultimately show ?thesis by (simp add: id_base_def Let_def)
qed

lemma numbered_valid:
  assumes "is_valid_root_id b" and "length b \<le> 24" and "n < 10 ^ 7"
  shows "is_valid_root_id (numbered b n)"
proof -
  have "length (show_nat n) \<le> 7" using assms(3) by (rule show_nat_length) simp
  moreover have "b \<noteq> []" using assms(1) by (auto simp: is_valid_root_id_def)
  ultimately show ?thesis
    using assms(1,2) show_nat_digits [of n]
    by (auto simp: is_valid_root_id_def numbered_def list_all_iff)
qed

lemma new_id_valid:
  assumes "length (roots c) < 9999998"
  shows "is_valid_root_id (new_id c label)"
proof -
  obtain k where k: "next_free (id_base label) (map root_id (roots c)) 2 = numbered (id_base label) k"
    "k \<le> 2 + card (taken_from (id_base label) (map root_id (roots c)) 2)"
    using next_free_bound [of "id_base label" "map root_id (roots c)" 2] by blast
  have "card (taken_from (id_base label) (map root_id (roots c)) 2) \<le> card (set (map root_id (roots c)))"
    by (intro card_mono) (auto simp: taken_from_def)
  also have "\<dots> \<le> length (roots c)" using card_length [of "map root_id (roots c)"] by simp
  finally have "k < 10 ^ 7" using k(2) assms by simp
  then show ?thesis
    using id_base_valid [of label] numbered_valid k(1) by (auto simp: new_id_def Let_def)
qed

section \<open>What every operation keeps\<close>

definition root_ok :: "root \<Rightarrow> bool" where
  "root_ok r \<longleftrightarrow> (commands r \<longrightarrow> writable r) \<and> (network r \<longrightarrow> commands r)
     \<and> (\<forall>l \<in> set (bots r). unattended l \<longrightarrow> runs_commands r) \<and> distinct (map loan_bot (bots r))
     \<and> length (utf8_chars (root_label r)) \<le> 80"

definition roots_ok :: "config \<Rightarrow> bool" where
  "roots_ok c \<longleftrightarrow> distinct (map root_id (roots c)) \<and> distinct (map root_path (roots c))
     \<and> list_all root_ok (roots c)"

lemma roots_ok_nth: "roots_ok c \<Longrightarrow> i < length (roots c) \<Longrightarrow> root_ok (roots c ! i)"
  by (simp add: roots_ok_def list_all_length)

lemma put_root_ok:
  assumes ok: "roots_ok c" and i: "i < length (roots c)" and r: "root_ok r"
    and same: "root_id r = root_id (roots c ! i)" "root_path r = root_path (roots c ! i)"
  shows "roots_ok (put_root c i r)"
proof -
  have "map root_id ((roots c)[i := r]) = map root_id (roots c)"
    using i same by (simp add: map_update) (metis list_update_id nth_map)
  moreover have "map root_path ((roots c)[i := r]) = map root_path (roots c)"
    using i same by (simp add: map_update) (metis list_update_id nth_map)
  moreover have "list_all root_ok ((roots c)[i := r])"
    using ok r by (auto simp: roots_ok_def list_all_iff dest!: set_update_subset_insert [THEN subsetD])
  ultimately show ?thesis using ok by (simp add: roots_ok_def put_root_def)
qed

lemma attended_sel [simp]:
  "root_id (attended r) = root_id r" "root_path (attended r) = root_path r"
  "root_label (attended r) = root_label r" "writable (attended r) = writable r"
  "commands (attended r) = commands r" "network (attended r) = network r"
  by (simp_all add: attended_def)

lemma attended_loans: "l \<in> set (bots (attended r)) \<Longrightarrow> \<not> unattended l"
  by (auto simp: attended_def)

lemma attended_bots [simp]: "map loan_bot (bots (attended r)) = map loan_bot (bots r)"
  by (simp add: attended_def)

lemma loan_bot_unattended [simp]: "loan_bot \<circ> unattended_update f = loan_bot"
  by (simp add: fun_eq_iff)

lemma root_ok_attended:
  "root_ok r \<Longrightarrow> root_ok (attended (r\<lparr>writable := w, commands := False, network := False\<rparr>))"
  by (auto simp: root_ok_def attended_def)

lemma add_root_Inr:
  assumes "add_root m c new = Inr (r, c')"
  shows "c' = c\<lparr>roots := roots c @ [r]\<rparr> \<and> root_id r = new_id c (root_label r)
    \<and> root_path r \<notin> root_path ` set (roots c) \<and> length (utf8_chars (root_label r)) \<le> 80
    \<and> \<not> commands r \<and> \<not> network r \<and> bots r = []
    \<and> (\<exists>v. too_broad m (root_path r) = Inr v \<and> (v \<noteq> None \<longrightarrow> n_i_know new))
    \<and> (\<exists>dl. from_config (m_libs m) (deny c) (m_own m) = Inr dl
         \<and> \<not> is_denied (m_libs m) dl (root_path r))"
  using assms
  by (auto simp: add_root_def Let_def is_denied_def find_None_iff'
      split: option.splits if_splits sum.splits)

lemma set_writable_Inr:
  assumes "set_writable m c which w k = Inr (r, c')"
  shows "\<exists>i < length (roots c). c' = put_root c i r
    \<and> r = (if w then (roots c ! i)\<lparr>writable := True\<rparr>
           else attended ((roots c ! i)\<lparr>writable := False, commands := False, network := False\<rparr>))
    \<and> (w \<and> \<not> k \<longrightarrow> too_broad m (root_path (roots c ! i)) = Inr None)"
  using assms
  by (auto simp: set_writable_def Let_def split: option.splits if_splits sum.splits
      dest!: find_root_bound)

lemma set_commands_Inr:
  assumes "set_commands m c which b n = Inr (r, c')"
  shows "\<exists>i < length (roots c). c' = put_root c i r \<and> (b \<longrightarrow> writable (roots c ! i))
    \<and> r = (if b then (roots c ! i)\<lparr>commands := True, network := n\<rparr>
           else attended ((roots c ! i)\<lparr>commands := False, network := False\<rparr>))"
  using assms
  by (auto simp: set_commands_def Let_def split: option.splits if_splits sum.splits
      dest!: find_root_bound)

lemma set_bot_Inr:
  assumes "set_bot m c which b name lent u = Inr (r, c')"
  shows "\<exists>i nm. i < length (roots c) \<and> c' = put_root c i r
    \<and> (lent \<and> u \<longrightarrow> runs_commands (roots c ! i))
    \<and> r = (roots c ! i)\<lparr>bots := filter (\<lambda>l. loan_bot l \<noteq> b) (bots (roots c ! i))
             @ (if lent then [\<lparr>loan_bot = b, loan_name = nm, unattended = u\<rparr>] else [])\<rparr>"
proof -
  obtain i where i: "find_root m c which = Inr i"
    using assms by (auto simp: set_bot_def split: if_splits sum.splits)
  show ?thesis
    using assms i find_root_bound [OF i]
    by (auto simp: set_bot_def Let_def split: if_splits intro!: exI [of _ i])
qed

lemma remove_root_Inr:
  assumes "remove_root m c which = Inr (r, c')"
  shows "\<exists>i < length (roots c). r = roots c ! i \<and> c' = c\<lparr>roots := take i (roots c) @ drop (Suc i) (roots c)\<rparr>"
  using assms by (auto simp: remove_root_def split: sum.splits dest!: find_root_bound)

lemma distinct_remove_nth: "distinct xs \<Longrightarrow> distinct (take i xs @ drop (Suc i) xs)"
  by (auto simp: set_take_disj_set_drop_if_distinct)

lemma root_op_keeps_roots_ok:
  assumes ok: "roots_ok c" and step: "root_op_result m c x = Inr (r, c')"
  shows "roots_ok c'"
proof (cases x)
  case (AddRoot new)
  with step have a: "add_root m c new = Inr (r, c')" by simp
  note facts = add_root_Inr [OF a]
  have "root_ok r" using facts by (simp add: root_ok_def)
  with facts new_id_fresh [of c "root_label r"] ok show ?thesis
    by (auto simp: roots_ok_def)
next
  case (SetWritable which w k)
  with step obtain i where i: "i < length (roots c)" "c' = put_root c i r"
    and r: "r = (if w then (roots c ! i)\<lparr>writable := True\<rparr>
       else attended ((roots c ! i)\<lparr>writable := False, commands := False, network := False\<rparr>))"
    using set_writable_Inr [of m c which w k r c'] by auto
  have "root_ok r"
    using roots_ok_nth [OF ok i(1)] root_ok_attended [OF roots_ok_nth [OF ok i(1)], of False]
    by (auto simp: r root_ok_def runs_commands_def)
  with i r show ?thesis by (auto intro!: put_root_ok [OF ok])
next
  case (SetCommands which b n)
  with step obtain i where i: "i < length (roots c)" "c' = put_root c i r"
    and w: "b \<longrightarrow> writable (roots c ! i)"
    and r: "r = (if b then (roots c ! i)\<lparr>commands := True, network := n\<rparr>
       else attended ((roots c ! i)\<lparr>commands := False, network := False\<rparr>))"
    using set_commands_Inr [of m c which b n r c'] by auto
  have "root_ok r"
    using roots_ok_nth [OF ok i(1)] w
    by (auto simp: r root_ok_def runs_commands_def dest: attended_loans)
  with i r show ?thesis by (auto intro!: put_root_ok [OF ok])
next
  case (SetBot which b name lent u)
  with step obtain i nm where i: "i < length (roots c)" "c' = put_root c i r"
    and u: "lent \<and> u \<longrightarrow> runs_commands (roots c ! i)"
    and r: "r = (roots c ! i)\<lparr>bots := filter (\<lambda>l. loan_bot l \<noteq> b) (bots (roots c ! i))
             @ (if lent then [\<lparr>loan_bot = b, loan_name = nm, unattended = u\<rparr>] else [])\<rparr>"
    using set_bot_Inr [of m c which b name lent u r c'] by auto
  have "root_ok r"
    using roots_ok_nth [OF ok i(1)] u
    by (auto simp: r root_ok_def runs_commands_def distinct_map_filter)
  with i r show ?thesis by (auto intro!: put_root_ok [OF ok])
next
  case (RemoveRoot which)
  with step obtain i where c': "c' = c\<lparr>roots := take i (roots c) @ drop (Suc i) (roots c)\<rparr>"
    using remove_root_Inr [of m c which r c'] by auto
  have "set (take i (roots c) @ drop (Suc i) (roots c)) \<subseteq> set (roots c)"
    using set_take_subset set_drop_subset by fastforce
  with ok distinct_remove_nth [of "map root_id (roots c)" i]
    distinct_remove_nth [of "map root_path (roots c)" i] show ?thesis
    by (auto simp: c' roots_ok_def take_map drop_map list_all_iff simp del: map_append distinct_append
        simp flip: map_append)
qed

interpretation rc: invariant_system "apply_root_op m" roots_ok for m
  by unfold_locales
    (auto simp: apply_root_op_def split: sum.splits intro: root_op_keeps_roots_ok)

section \<open>Narrow folders\<close>

fun careful :: "root_op \<Rightarrow> bool" where
  "careful (AddRoot new) = (\<not> n_i_know new)"
| "careful (SetWritable which w k) = (\<not> k)"
| "careful _ = True"

definition all_narrow :: "machine \<Rightarrow> config \<Rightarrow> bool" where
  "all_narrow m c \<longleftrightarrow> (\<forall>r \<in> set (roots c). too_broad m (root_path r) = Inr None)"

lemma put_root_paths:
  "i < length (roots c) \<Longrightarrow> root_path r = root_path (roots c ! i) \<Longrightarrow>
   root_path ` set (roots (put_root c i r)) \<subseteq> root_path ` set (roots c)"
  by (auto simp: put_root_def dest!: set_update_subset_insert [THEN subsetD])

lemma root_op_paths:
  assumes "root_op_result m c x = Inr (r, c')"
  shows "root_path ` set (roots c') \<subseteq> root_path ` set (roots c)
    \<or> (\<exists>new. x = AddRoot new \<and> roots c' = roots c @ [r])"
proof -
  have put: ?thesis if "\<exists>i < length (roots c). c' = put_root c i r \<and> root_path r = root_path (roots c ! i)"
    using that put_root_paths by blast
  show ?thesis
  proof (cases x)
    case (AddRoot new)
    with assms add_root_Inr [of m c new r c'] show ?thesis by auto
  next
    case (SetWritable which w k)
    with assms have "set_writable m c which w k = Inr (r, c')" by simp
    from set_writable_Inr [OF this] show ?thesis by (intro put) (auto split: if_splits)
  next
    case (SetCommands which b n)
    with assms have "set_commands m c which b n = Inr (r, c')" by simp
    from set_commands_Inr [OF this] show ?thesis by (intro put) (auto split: if_splits)
  next
    case (SetBot which b name lent u)
    with assms have "set_bot m c which b name lent u = Inr (r, c')" by simp
    from set_bot_Inr [OF this] show ?thesis by (intro put) auto
  next
    case (RemoveRoot which)
    with assms have "remove_root m c which = Inr (r, c')" by simp
    from remove_root_Inr [OF this] obtain i where
      "roots c' = take i (roots c) @ drop (Suc i) (roots c)" by auto
    then have "set (roots c') \<subseteq> set (roots c)"
      using set_take_subset set_drop_subset by fastforce
    then show ?thesis by blast
  qed
qed

lemma careful_keeps_narrow:
  assumes "all_narrow m c" and "careful x" and "root_op_result m c x = Inr (r, c')"
  shows "all_narrow m c'"
  using root_op_paths [OF assms(3)]
proof
  assume "root_path ` set (roots c') \<subseteq> root_path ` set (roots c)"
  with assms(1) show ?thesis by (force simp: all_narrow_def image_subset_iff)
next
  assume "\<exists>new. x = AddRoot new \<and> roots c' = roots c @ [r]"
  then obtain new where x: "x = AddRoot new" "roots c' = roots c @ [r]" by blast
  with assms add_root_Inr [of m c new r c'] show ?thesis by (auto simp: all_narrow_def)
qed

lemma careful_run_narrow:
  assumes "all_narrow m c" and "list_all careful xs"
  shows "all_narrow m (foldl (apply_root_op m) c xs)"
  using assms
proof (induction xs arbitrary: c)
  case (Cons x xs)
  have "all_narrow m (apply_root_op m c x)"
    using Cons.prems careful_keeps_narrow
    by (auto simp: apply_root_op_def split: sum.splits)
  with Cons show ?case by simp
qed simp

lemma narrow_excludes:
  assumes "too_broad m p = Inr None"
  shows "p \<noteq> []" and "m_home m = Some home \<Longrightarrow> \<not> starts_with home p"
proof -
  show p: "p \<noteq> []" using assms by (auto simp: too_broad_def)
  show "\<not> starts_with home p" if h: "m_home m = Some home"
  proof
    assume "starts_with home p"
    with p h assms show False by (cases "p = home") (simp_all add: too_broad_def)
  qed
qed

lemma find_snoc: "\<forall>x \<in> set xs. \<not> P x \<Longrightarrow> P y \<Longrightarrow> find P (xs @ [y]) = Some y"
  by (induction xs) auto

section \<open>Properties\<close>

text \<open>
  C24: permissions stay consistent. Whatever the user does, in any order and with any
  errors on the way, IDs and paths of shared folders stay distinct, commands are only
  allowed where changes are, the network only where commands are, and a bot runs commands
  unattended only where commands run.
\<close>

theorem root_permissions_consistent:
  assumes "roots_ok c"
  shows "let c' = foldl (apply_root_op m) c xs
    in roots_ok c' \<and> list_all (\<lambda>r.
         (commands r \<longrightarrow> writable r) \<and> (network r \<longrightarrow> commands r)
         \<and> list_all (\<lambda>l. unattended l \<longrightarrow> writable r \<and> commands r) (bots r)) (roots c')"
proof -
  have ok: "roots_ok (foldl (apply_root_op m) c xs)"
    using assms by (rule rc.run_keeps)
  then show ?thesis
    by (auto simp: Let_def roots_ok_def list_all_iff root_ok_def runs_commands_def)
qed

definition no_roots :: config where
  "no_roots = \<lparr>cfg_paused = False, roots = [],
     deny = \<lparr>deny_extra = [], deny_remove = [], allow_hardlinks = False\<rparr>, cfg_limits = default_limits\<rparr>"

definition test_machine :: machine where
  "test_machine = \<lparr>m_canonical = (\<lambda>s. if s = ''/home/u/work'' then Some [''home'', ''u'', ''work''] else None),
     m_is_dir = (\<lambda>_. True), m_home = Some [''home'', ''u''], m_temp = None, m_windows = False,
     m_libs = ascii_libs\<lparr>g_match := (\<lambda>_ _. False)\<rparr>, m_own = [], m_config_file = [], m_dbg = id\<rparr>"

theorem root_permissions_consistent_witness:
  "roots_ok (foldl (apply_root_op test_machine) no_roots
     [SetWritable ''work'' True False, SetBot ''work'' ''42'' None True True])"
proof -
  have "roots_ok no_roots" by (simp add: roots_ok_def no_roots_def)
  from root_permissions_consistent[OF this] show ?thesis by (metis (no_types, lifting))
qed

text \<open>
  Without \<open>--i-know\<close> no run of operations ever shares the whole file system, the home
  folder or a folder that holds it.
\<close>

theorem careful_sharing_stays_narrow:
  assumes "roots c = []" and "list_all careful xs"
    and "r \<in> set (roots (foldl (apply_root_op m) c xs))"
  shows "too_broad m (root_path r) = Inr None \<and> root_path r \<noteq> []
    \<and> (\<forall>home. m_home m = Some home \<longrightarrow> \<not> starts_with home (root_path r))"
proof -
  have "all_narrow m (foldl (apply_root_op m) c xs)"
    using assms(1,2) by (intro careful_run_narrow) (simp_all add: all_narrow_def)
  with assms(3) show ?thesis by (auto simp: all_narrow_def dest: narrow_excludes)
qed

definition work_root :: new_root where
  "work_root = \<lparr>n_path = ''/home/u/work'', n_label = Some ''Work Docs!'', n_i_know = False,
     n_follow_symlinks = False, n_writable = True\<rparr>"

lemma work_root_added:
  "\<exists>r c'. add_root test_machine no_roots work_root = Inr (r, c')
     \<and> roots c' = [r] \<and> root_path r = [''home'', ''u'', ''work'']"
proof -
  let ?p = "[''home'', ''u'', ''work'']"
  have broad: "too_broad test_machine ?p = Inr None"
    by (simp add: too_broad_def test_machine_def SCRATCH_DIRS_def SYSTEM_DIRS_def)
  obtain dl where dl: "from_config (m_libs test_machine) (deny no_roots) (m_own test_machine) = Inr dl"
    using compile_all_total [of "m_libs test_machine"]
    by (auto simp: from_config_def deny_new_def test_machine_def ascii_libs_def)
  have "\<not> list_all2 (g_match (m_libs test_machine)) gs mid" if "gs \<noteq> []" for gs mid
    using that by (cases gs; cases mid) (simp_all add: test_machine_def)
  then have "\<not> is_denied (m_libs test_machine) dl ?p"
    by (auto simp: is_denied_iff matches_run_def)
  then have not_denied: "denied_by (m_libs test_machine) dl ?p = None" by (simp add: is_denied_def)
  have "trim_ws ''Work Docs!'' = ''Work Docs!''"
    by (simp add: trim_ws_def trim_start_id whitespace_seqs_def)
  then have "\<exists>r c'. add_root test_machine no_roots work_root = Inr (r, c')
     \<and> roots c' = [r] \<and> root_path r = ?p"
    using broad dl not_denied
    by (simp add: add_root_def work_root_def no_roots_def utf8_chars_def)
      (simp add: test_machine_def Let_def utf8_chars_def)
  then show ?thesis .
qed

theorem careful_sharing_stays_narrow_witness:
  "\<exists>r \<in> set (roots (foldl (apply_root_op test_machine) no_roots [AddRoot work_root])).
     root_path r \<noteq> []"
proof -
  obtain r c' where a: "add_root test_machine no_roots work_root = Inr (r, c')" "roots c' = [r]"
    using work_root_added by blast
  then have r: "r \<in> set (roots (foldl (apply_root_op test_machine) no_roots [AddRoot work_root]))"
    by (simp add: apply_root_op_def)
  have "roots no_roots = []" and "list_all careful [AddRoot work_root]"
    by (simp_all add: no_roots_def work_root_def)
  from careful_sharing_stays_narrow [OF this r] r show ?thesis by blast
qed

text \<open>
  Stopping changes always works and stops everything. It is never refused for a folder
  that is found, whatever its breadth, and afterwards the folder allows neither changes nor
  commands nor network, and no bot runs anything there unattended.
\<close>

theorem stopping_changes_stops_everything:
  assumes "find_root m c which = Inr i"
  shows "\<exists>r c'. set_writable m c which False k = Inr (r, c') \<and> roots c' ! i = r
    \<and> \<not> writable r \<and> \<not> commands r \<and> \<not> network r \<and> (\<forall>l \<in> set (bots r). \<not> unattended l)
    \<and> (\<forall>j. j \<noteq> i \<longrightarrow> roots c' ! j = roots c ! j)"
  using assms find_root_bound [OF assms]
  by (auto simp: set_writable_def Let_def put_root_def dest: attended_loans)

theorem stopping_changes_stops_everything_witness:
  "\<exists>r c'. set_writable test_machine
      (no_roots\<lparr>roots := [\<lparr>root_id = ''ab'', root_label = ''A'', root_path = [''home''],
         follow_symlinks = False, writable = True, commands = True, network = True, bots = []\<rparr>]\<rparr>)
      ''ab'' False False = Inr (r, c') \<and> \<not> writable r \<and> \<not> commands r"
proof -
  let ?c = "no_roots\<lparr>roots := [\<lparr>root_id = ''ab'', root_label = ''A'', root_path = [''home''],
         follow_symlinks = False, writable = True, commands = True, network = True, bots = []\<rparr>]\<rparr>"
  have "find_root test_machine ?c ''ab'' = Inr 0"
    by (simp add: find_root_def position_def test_machine_def)
  from stopping_changes_stops_everything [OF this, of False] show ?thesis by blast
qed

text \<open>
  Every folder shared gets an ID no other folder has, and one the path parser accepts,
  whatever its label (up to ten million folders); so each of its paths can be named.
\<close>

theorem shared_folders_can_be_named:
  assumes "add_root m c new = Inr (r, c')" and "length (roots c) < 9999998"
  shows "root_id r \<notin> root_id ` set (roots c) \<and> is_valid_root_id (root_id r)
    \<and> config_root c' (root_id r) = Some r"
proof -
  have r: "root_id r = new_id c (root_label r)" and c': "c' = c\<lparr>roots := roots c @ [r]\<rparr>"
    using add_root_Inr [OF assms(1)] by auto
  have fresh: "root_id r \<notin> root_id ` set (roots c)" using new_id_fresh by (simp add: r)
  then have "find (\<lambda>x. root_id x = root_id r) (roots c @ [r]) = Some r"
    by (intro find_snoc) (auto simp: image_iff)
  with fresh new_id_valid [OF assms(2)] show ?thesis by (simp add: config_root_def c' r)
qed

theorem shared_folders_can_be_named_witness:
  "\<exists>r c'. add_root test_machine no_roots work_root = Inr (r, c') \<and> is_valid_root_id (root_id r)"
proof -
  obtain r c' where a: "add_root test_machine no_roots work_root = Inr (r, c')"
    using work_root_added by blast
  have "length (roots no_roots) < 9999998" by (simp add: no_roots_def)
  from shared_folders_can_be_named [OF a this] a show ?thesis by blast
qed

end
