(* ===== verification/Protocol.thy ===== *)
theory Protocol
  imports Prelude
begin

text \<open>
  \<open>src/src/notifications/protocol.rs\<close>: the commands the daemon gives the notification helper
  and the events the helper reports, with the bounds \<open>validate\<close> puts on what is shown. The
  JSON form of both is derived by \<open>serde\<close> and not modelled. Also the bounded channels
  (\<open>tokio::sync::mpsc\<close>) the notification components talk through: a channel is the messages
  sent so far and the room that is left; a closed channel has no room.
\<close>

section \<open>Bounded channels\<close>

record 'a chan =
  sent :: "'a list"
  room :: nat

definition try_send :: "'a \<Rightarrow> 'a chan \<Rightarrow> bool \<times> 'a chan" where
  "try_send x c = (if room c = 0 then (False, c)
     else (True, c\<lparr>sent := sent c @ [x], room := room c - 1\<rparr>))"

definition channel :: "nat \<Rightarrow> 'a chan" where
  "channel capacity = \<lparr>sent = [], room = capacity\<rparr>"

lemma sent_try_send:
  "sent (snd (try_send x c)) = (if fst (try_send x c) then sent c @ [x] else sent c)"
  by (simp add: try_send_def)

section \<open>Commands and events\<close>

definition MAX_ACTIVE :: nat where "MAX_ACTIVE = 32"
definition MAX_FRAME_BYTES :: nat where "MAX_FRAME_BYTES = 32 * 1024"
definition MAX_ID_BYTES :: nat where "MAX_ID_BYTES = 256"
definition MAX_TITLE_BYTES :: nat where "MAX_TITLE_BYTES = 512"
definition MAX_BODY_BYTES :: nat where "MAX_BODY_BYTES = 4096"

datatype command =
    Show string "nat option" string "string option"
  | Withdraw string
  | PermissionQuery
  | RequestPermission
  | Exit

datatype permission_state = StateGranted | StateNotDetermined | StateDenied | StateUnknown

datatype event =
    Ready nat
  | PermissionEvent permission_state
  | Shown string "nat option"
  | Failed "string option" "nat option" string
  | Activated string "nat option" "string option"
  | Dismissed string "nat option"
  | Closed string "nat option"

definition validate_id :: "string \<Rightarrow> string + unit" where
  "validate_id i = (if i = [] \<or> MAX_ID_BYTES < length i \<or> list_ex is_control (utf8_chars i)
     then Inl ''Invalid notification ID'' else Inr ())"

fun validate :: "command \<Rightarrow> string + unit" where
  "validate (Show i _ title body) = (case validate_id i of
     Inl e \<Rightarrow> Inl e
   | Inr _ \<Rightarrow>
       if trim_ws title = [] \<or> MAX_TITLE_BYTES < length title \<or> CHR 0x00 \<in> set title
       then Inl ''Invalid notification title''
       else if (case body of None \<Rightarrow> False
                | Some t \<Rightarrow> MAX_BODY_BYTES < length t \<or> CHR 0x00 \<in> set t)
       then Inl ''Invalid notification body''
       else Inr ())"
| "validate (Withdraw i) = validate_id i"
| "validate PermissionQuery = Inr ()"
| "validate RequestPermission = Inr ()"
| "validate Exit = Inr ()"

fun command_id :: "command \<Rightarrow> string option" where
  "command_id (Show i _ _ _) = (case validate_id i of Inr _ \<Rightarrow> Some i | Inl _ \<Rightarrow> None)"
| "command_id (Withdraw i) = (case validate_id i of Inr _ \<Rightarrow> Some i | Inl _ \<Rightarrow> None)"
| "command_id _ = None"

lemma validate_id_ok: "validate_id i = Inr u \<longleftrightarrow>
    i \<noteq> [] \<and> length i \<le> MAX_ID_BYTES \<and> \<not> list_ex is_control (utf8_chars i)"
  by (auto simp: validate_id_def not_less)

lemma validate_show_bounds:
  assumes "validate (Show i a title body) = Inr ()"
  shows "length i \<le> 256" "length title \<le> 512" "title \<noteq> []"
    "case body of None \<Rightarrow> True | Some t \<Rightarrow> length t \<le> 4096"
proof -
  obtain u where i: "validate_id i = Inr u"
    using assms by (auto split: sum.splits)
  then show "length i \<le> 256" by (simp add: validate_id_ok MAX_ID_BYTES_def)
  show "length title \<le> 512"
    using assms i by (auto simp: MAX_TITLE_BYTES_def split: if_splits)
  show "case body of None \<Rightarrow> True | Some t \<Rightarrow> length t \<le> 4096"
    using assms i by (auto simp: MAX_BODY_BYTES_def split: if_splits option.splits)
  have "trim_ws [] = []"
    by (simp add: trim_ws_def trim_start_id whitespace_seqs_def)
  then show "title \<noteq> []" using assms i by (auto split: if_splits)
qed

lemma command_id_valid:
  "validate c = Inr () \<Longrightarrow> command_id c = (case c of
     Show i _ _ _ \<Rightarrow> Some i | Withdraw i \<Rightarrow> Some i | _ \<Rightarrow> None)"
  by (cases c) (auto split: sum.splits)

end
