(* ===== verification/Json.thy ===== *)
theory Json
  imports Prelude "HOL-Library.Finite_Map"
begin

text \<open>
  The JSON values of \<open>serde_json\<close> (\<open>Value\<close>) as the program uses them. An object is a finite
  map, as \<open>serde_json\<close>'s default \<open>Map\<close> is a \<open>BTreeMap\<close>: equality does not see the order of
  the keys. Parsing and printing belong to the library, so they are a parameter
  (\<open>json_lib\<close>) of every definition that parses or prints; theorems state pointwise what they
  need of it. The accessors below are \<open>Value::get\<close>, \<open>Value[..]\<close>, \<open>as_str\<close>, \<open>as_bool\<close>,
  \<open>as_u64\<close>, \<open>as_object\<close> and \<open>as_array\<close>.
\<close>

named_theorems json_simps \<open>evaluation of JSON accessors\<close>

datatype json_number = NInt int | NFloat string

datatype json =
    JNull
  | JBool bool
  | JNum json_number
  | JStr string
  | JArr "json list"
  | JObj "(string, json) fmap"

record json_lib =
  from_str :: "string \<Rightarrow> json option"
  to_text :: "json \<Rightarrow> string"

text \<open>The \<open>json!\<close> object literal; a repeated key would keep its last value.\<close>

definition jobject :: "(string \<times> json) list \<Rightarrow> json" where
  "jobject kvs = JObj (fmap_of_list (rev kvs))"

definition jnat :: "nat \<Rightarrow> json" where
  "jnat n = JNum (NInt (int n))"

fun get :: "json \<Rightarrow> string \<Rightarrow> json option" where
  "get (JObj m) k = fmlookup m k"
| "get _ k = None"

text \<open>Indexing by a key yields \<open>Null\<close> where there is nothing.\<close>

definition index :: "json \<Rightarrow> string \<Rightarrow> json" where
  "index v k = (case get v k of Some x \<Rightarrow> x | None \<Rightarrow> JNull)"

fun as_str :: "json \<Rightarrow> string option" where
  "as_str (JStr s) = Some s"
| "as_str _ = None"

fun as_bool :: "json \<Rightarrow> bool option" where
  "as_bool (JBool b) = Some b"
| "as_bool _ = None"

fun as_u64 :: "json \<Rightarrow> nat option" where
  "as_u64 (JNum (NInt n)) = (if 0 \<le> n \<and> nat n \<le> u64_max then Some (nat n) else None)"
| "as_u64 _ = None"

fun as_object :: "json \<Rightarrow> (string, json) fmap option" where
  "as_object (JObj m) = Some m"
| "as_object _ = None"

fun as_array :: "json \<Rightarrow> json list option" where
  "as_array (JArr xs) = Some xs"
| "as_array _ = None"

definition is_object :: "json \<Rightarrow> bool" where
  "is_object v \<longleftrightarrow> as_object v \<noteq> None"

definition object_len :: "(string, json) fmap \<Rightarrow> nat" where
  "object_len m = fcard (fmdom m)"

text \<open>\<open>value[k] = v\<close> on an object.\<close>

fun json_put :: "string \<Rightarrow> json \<Rightarrow> json \<Rightarrow> json" where
  "json_put k v (JObj m) = JObj (fmupd k v m)"
| "json_put k v x = x"

lemma get_jobject [json_simps]: "get (jobject kvs) k = map_of (rev kvs) k"
  by (simp add: jobject_def fmlookup_of_list)

lemma index_jobject [json_simps]:
  "index (jobject kvs) k = (case map_of (rev kvs) k of Some x \<Rightarrow> x | None \<Rightarrow> JNull)"
  by (simp add: index_def get_jobject)

lemma as_object_jobject [json_simps]: "as_object (jobject kvs) = Some (fmap_of_list (rev kvs))"
  by (simp add: jobject_def)

lemma as_str_SomeD: "as_str v = Some s \<Longrightarrow> v = JStr s"
  by (cases v rule: as_str.cases) auto

lemma get_SomeD: "get v k = Some x \<Longrightarrow> \<exists>m. v = JObj m \<and> fmlookup m k = Some x"
  by (cases v) auto

lemma is_object_iff: "is_object v \<longleftrightarrow> (\<exists>m. v = JObj m)"
  by (cases v) (auto simp: is_object_def)

lemma fmap_of_list_single_eq_iff:
  "fmap_of_list [(k, v)] = fmap_of_list [(k', v')] \<longleftrightarrow> k = k' \<and> v = v'"
proof
  assume "fmap_of_list [(k, v)] = fmap_of_list [(k', v')]"
  then have "\<And>x. map_of [(k, v)] x = map_of [(k', v')] x"
    by (metis fmlookup_of_list)
  from this[of k] this[of k'] show "k = k' \<and> v = v'" by (auto split: if_splits)
qed simp

lemma jobject_single_eq_iff:
  "jobject [(k, v)] = jobject [(k', v')] \<longleftrightarrow> k = k' \<and> v = v'"
  unfolding jobject_def json.inject rev.simps append.simps by (rule fmap_of_list_single_eq_iff)

lemma jobject_eqD: "jobject a = jobject b \<Longrightarrow> map_of (rev a) k = map_of (rev b) k"
  by (metis get_jobject)

end
