(* ===== verification/Delivery.thy ===== *)
theory Delivery
  imports Protocol Json
begin

text \<open>
  \<open>src/src/notification_delivery.rs\<close>: the bridge between the server's notification channel
  and the native helper. \<open>bridge\<close> is the state of \<open>struct Bridge\<close>; an operation that
  returns \<open>Result\<close> is a function from the bridge to whether it succeeded and the bridge it
  leaves behind, since an error keeps the changes made before it. The output and native
  channels are bounded: \<open>try_send\<close> fails when there is no room. The instant is an argument,
  one per step. The wall clock, \<open>ServerUrl::parse\<close>, RFC 3339 parsing and \<open>serde\<close>'s reading
  of a server event are parameters (\<open>delivery_libs\<close>).
\<close>

section \<open>Data\<close>

definition VIEW_TTL :: duration where "VIEW_TTL = secs 75"
definition HEARTBEAT :: duration where "HEARTBEAT = secs 30"
definition MAX_VIEWS :: nat where "MAX_VIEWS = 32"
definition CAPACITY :: nat where "CAPACITY = 128"

datatype permission = Granted | NotDetermined | Denied | Unknown | Unavailable

fun permission_from :: "permission_state \<Rightarrow> permission" where
  "permission_from StateGranted = Granted"
| "permission_from StateNotDetermined = NotDetermined"
| "permission_from StateDenied = Denied"
| "permission_from StateUnknown = Unknown"

record status =
  st_available :: bool
  st_permission :: permission
  st_connected :: bool
  st_account :: "string option"

definition default_status :: status where
  "default_status = \<lparr>st_available = False, st_permission = Unavailable, st_connected = False,
                     st_account = None\<rparr>"

record activation =
  act_server :: string
  act_account :: string
  act_chat :: nat

datatype input =
    Attach nat string string
  | Detach nat
  | Server nat json
  | PermissionInput bool
  | ViewInput string string nat bool
  | Reset

datatype bridge_out =
    Action nat json
  | Disconnected nat
  | StatusOut status
  | ResetOut

record offer =
  notification_id :: string
  delivery_token :: string
  offer_account :: string
  offer_chat :: nat
  offer_kind :: string
  offer_title :: string
  offer_body :: string
  thread :: string
  expires_at :: string

datatype server_event =
    ReadyEvent string nat nat nat
  | ShowEvent offer
  | WithdrawEvent string string
  | UnavailableEvent

record connection =
  con_generation :: nat
  con_server :: string
  con_device :: nat
  con_account :: "string option"

record pending =
  p_offer :: offer
  p_attempt :: nat
  p_deadline :: instant
  p_shown :: bool

record view =
  v_chat :: nat
  v_until :: instant

record delivery_libs =
  parse_server :: "string \<Rightarrow> string option"
  parse_rfc3339 :: "string \<Rightarrow> int option"
  read_event :: "json \<Rightarrow> server_event option"
  utc_now :: int

record bridge =
  b_native :: "command chan option"
  b_output :: "bridge_out chan"
  b_activated :: "activation list"
  b_connection :: "connection option"
  b_active :: "(string \<times> pending) list"
  b_seen :: "(string \<times> instant) list"
  b_views :: "(string \<times> view) list"
  b_attempt :: nat
  b_permission :: permission
  b_permission_pending :: bool
  b_heartbeat_at :: instant
  b_permission_at :: instant
  b_restart_native :: bool
  b_reset_acknowledge :: bool

section \<open>Validation\<close>

definition valid_account :: "string \<Rightarrow> bool" where
  "valid_account account \<longleftrightarrow>
     7 \<le> length account \<and> length account \<le> 20 \<and> list_all is_ascii_digit account"

definition is_id_byte :: "char \<Rightarrow> bool" where
  "is_id_byte b \<longleftrightarrow> is_ascii_alnum b \<or> b = CHR ''_'' \<or> b = CHR ''-''"

definition valid_session :: "string \<Rightarrow> bool" where
  "valid_session s \<longleftrightarrow> s \<noteq> [] \<and> length s \<le> 64 \<and> list_all is_id_byte s"

definition valid_offer_id :: "string \<Rightarrow> string \<Rightarrow> bool" where
  "valid_offer_id uuid token \<longleftrightarrow>
     length uuid = 36
     \<and> list_all (\<lambda>(i, byte). if i \<in> {8, 13, 18, 23} then byte = CHR ''-'' else is_ascii_hex byte)
         (enumerate 0 uuid)
     \<and> length token = 48 \<and> list_all is_ascii_hex token"

definition offer_key :: "offer \<Rightarrow> string" where
  "offer_key x = offer_account x @ '':'' @ thread x"

definition valid_offer :: "offer \<Rightarrow> bool" where
  "valid_offer x \<longleftrightarrow>
     valid_offer_id (notification_id x) (delivery_token x)
     \<and> length (expires_at x) \<le> 64
     \<and> 0 < offer_chat x
     \<and> offer_kind x \<in> {''answered'', ''approval_waiting'', ''input_requested'', ''failed''}
     \<and> thread x \<noteq> [] \<and> length (thread x) \<le> 200 \<and> list_all is_id_byte (thread x)
     \<and> validate (Show (offer_key x) (Some 1) (offer_title x) (Some (offer_body x))) = Inr ()"

fun valid_event :: "server_event \<Rightarrow> bool" where
  "valid_event (ReadyEvent account device _ _) = (valid_account account \<and> 0 < device)"
| "valid_event (ShowEvent x) = (valid_account (offer_account x) \<and> valid_offer x)"
| "valid_event (WithdrawEvent i token) = valid_offer_id i token"
| "valid_event UnavailableEvent = True"

section \<open>Steps that can fail\<close>

type_synonym op = "bridge \<Rightarrow> bool \<times> bridge"

definition ok :: op where
  "ok b = (True, b)"

text \<open>\<open>f()?; g()\<close>\<close>

definition and_then :: "op \<Rightarrow> op \<Rightarrow> op" where
  "and_then f g b = (case f b of (True, b') \<Rightarrow> g b' | (False, b') \<Rightarrow> (False, b'))"

definition modify :: "(bridge \<Rightarrow> bridge) \<Rightarrow> op" where
  "modify f b = (True, f b)"

fun for_each :: "'a list \<Rightarrow> ('a \<Rightarrow> op) \<Rightarrow> op" where
  "for_each [] f = ok"
| "for_each (x # xs) f = and_then (f x) (for_each xs f)"

definition bridge_new :: "command chan option \<Rightarrow> bridge_out chan \<Rightarrow> instant \<Rightarrow> bridge" where
  "bridge_new native out now = \<lparr>b_native = native, b_output = out, b_activated = [],
     b_connection = None, b_active = [], b_seen = [], b_views = [], b_attempt = 0,
     b_permission = Unavailable, b_permission_pending = False, b_heartbeat_at = now,
     b_permission_at = now, b_restart_native = False, b_reset_acknowledge = False\<rparr>"

definition account_of :: "bridge \<Rightarrow> string option" where
  "account_of b = Option.bind (b_connection b) con_account"

definition status_of :: "bridge \<Rightarrow> status" where
  "status_of b = \<lparr>
     st_available = (b_native b \<noteq> None \<and> b_permission b \<in> {Granted, Unknown}),
     st_permission = b_permission b,
     st_connected = (account_of b \<noteq> None),
     st_account = account_of b\<rparr>"

definition emit :: "bridge_out \<Rightarrow> op" where
  "emit x b = (let (sent_it, out) = try_send x (b_output b) in (sent_it, b\<lparr>b_output := out\<rparr>))"

definition action :: "json \<Rightarrow> op" where
  "action data b = (case b_connection b of
     Some con \<Rightarrow> if con_account con \<noteq> None then emit (Action (con_generation con) data) b else (True, b)
   | None \<Rightarrow> (True, b))"

definition heartbeat_json :: "bool \<Rightarrow> json" where
  "heartbeat_json available =
     jobject [(''action'', JStr ''heartbeat''), (''available'', JBool available)]"

definition view_json :: "nat \<Rightarrow> bool \<Rightarrow> json" where
  "view_json chat visible =
     jobject [(''action'', JStr ''view''), (''chat'', jnat chat), (''visible'', JBool visible)]"

definition receipt_json :: "offer \<Rightarrow> string \<Rightarrow> json" where
  "receipt_json x how = jobject [(''action'', JStr ''receipt''),
     (''notification_id'', JStr (notification_id x)),
     (''delivery_token'', JStr (delivery_token x)), (''status'', JStr how)]"

definition status_changed :: "instant \<Rightarrow> op" where
  "status_changed now =
     and_then (\<lambda>b. emit (StatusOut (status_of b)) b)
       (\<lambda>b. let b = b\<lparr>b_heartbeat_at := now + HEARTBEAT\<rparr>
            in action (heartbeat_json (st_available (status_of b))) b)"

text \<open>\<open>Bridge::native\<close>: whether the helper's channel took the command.\<close>

definition native :: "command \<Rightarrow> bridge \<Rightarrow> bool \<times> bridge" where
  "native c b = (case b_native b of
     None \<Rightarrow> (False, b)
   | Some ch \<Rightarrow> (let (sent_it, ch) = try_send c ch in (sent_it, b\<lparr>b_native := Some ch\<rparr>)))"

definition clear :: "bridge \<Rightarrow> bridge" where
  "clear b =
     (let b = foldl (\<lambda>b (i, _). snd (native (Withdraw i) b)) b (b_active b)
      in b\<lparr>b_active := [], b_seen := [], b_views := [], b_connection := None,
           b_restart_native := True\<rparr>)"

definition ask_permission :: "bool \<Rightarrow> instant \<Rightarrow> bridge \<Rightarrow> bridge" where
  "ask_permission request now b =
     (if b_permission_pending b then b
      else (let (sent_it, b) = native (if request then RequestPermission else PermissionQuery) b
            in b\<lparr>b_permission_pending := sent_it, b_permission_at := now + HEARTBEAT\<rparr>))"

definition receipt :: "offer \<Rightarrow> string \<Rightarrow> op" where
  "receipt x how = action (receipt_json x how)"

definition failed :: "instant \<Rightarrow> op" where
  "failed now b0 =
     and_then
       (for_each (b_active b0)
          (\<lambda>(_, p). if p_shown p then ok else receipt (p_offer p) ''failed''))
       (\<lambda>b. let b = foldl (\<lambda>b (i, _). snd (native (Withdraw i) b)) b (b_active b)
            in status_changed now (b\<lparr>b_active := [], b_permission := Unavailable,
                 b_permission_pending := False, b_permission_at := now + secs 2,
                 b_restart_native := True\<rparr>)) b0"

section \<open>Showing an offer\<close>

definition remaining_time :: "delivery_libs \<Rightarrow> offer \<Rightarrow> duration option" where
  "remaining_time L x = (case parse_rfc3339 L (expires_at x) of
     None \<Rightarrow> None
   | Some expiry \<Rightarrow>
       if expiry < utc_now L then None
       else (let remaining = nat (expiry - utc_now L)
             in if remaining \<noteq> 0 \<and> remaining \<le> secs 15 then Some remaining else None))"

text \<open>\<open>min_by_key\<close> on the attempts: the first of the smallest.\<close>

fun oldest_active :: "(string \<times> pending) list \<Rightarrow> (string \<times> pending) option" where
  "oldest_active [] = None"
| "oldest_active ((i, p) # m) = (case oldest_active m of
     None \<Rightarrow> Some (i, p)
   | Some (j, q) \<Rightarrow> if p_attempt p \<le> p_attempt q then Some (i, p) else Some (j, q))"

definition drop_active :: "string \<Rightarrow> bridge \<Rightarrow> bridge" where
  "drop_active i b = b\<lparr>b_active := AList.delete i (b_active b)\<rparr>"

text \<open>Takes a notification off, with a receipt when it was not shown yet; \<open>next\<close> goes on.\<close>

definition retire :: "instant \<Rightarrow> offer \<Rightarrow> string \<Rightarrow> pending \<Rightarrow> op \<Rightarrow> op" where
  "retire now x i p go_on =
     and_then (modify (drop_active i))
       (and_then (if p_shown p then ok else receipt (p_offer p) ''failed'')
         (\<lambda>b. case native (Withdraw i) b of
            (True, b) \<Rightarrow> go_on b
          | (False, b) \<Rightarrow> and_then (receipt x ''failed'') (failed now) b))"

definition show_now :: "instant \<Rightarrow> offer \<Rightarrow> duration \<Rightarrow> op" where
  "show_now now x remaining b =
     (if u64_max \<le> b_attempt b then receipt x ''failed'' b
      else
        (let attempt = b_attempt b + 1;
             b = b\<lparr>b_attempt := attempt\<rparr>
         in case native (Show (offer_key x) (Some attempt) (offer_title x) (Some (offer_body x))) b of
              (False, b) \<Rightarrow> and_then (receipt x ''failed'') (failed now) b
            | (True, b) \<Rightarrow> (True, b\<lparr>b_active := AList.update (offer_key x)
                \<lparr>p_offer = x, p_attempt = attempt, p_deadline = now + remaining, p_shown = False\<rparr>
                (b_active b)\<rparr>)))"

definition show_room :: "instant \<Rightarrow> offer \<Rightarrow> duration option \<Rightarrow> op" where
  "show_room now x deadline b = (case deadline of
     None \<Rightarrow> receipt x ''failed'' b
   | Some remaining \<Rightarrow>
       if \<not> st_available (status_of b) then receipt x ''failed'' b
       else if MAX_ACTIVE \<le> length (b_active b) then
         (case oldest_active (b_active b) of
            None \<Rightarrow> show_now now x remaining b
          | Some (i, p) \<Rightarrow> retire now x i p (show_now now x remaining) b)
       else show_now now x remaining b)"

definition show_offer :: "delivery_libs \<Rightarrow> instant \<Rightarrow> offer \<Rightarrow> op" where
  "show_offer L now x b = (case account_of b of
     None \<Rightarrow> (True, b)
   | Some account \<Rightarrow>
       if offer_account x \<noteq> account \<or> \<not> valid_offer x then (True, b)
       else if map_of (b_seen b) (notification_id x) \<noteq> None then (True, b)
       else if 256 \<le> length (b_seen b) then receipt x ''failed'' b
       else
         (let b = b\<lparr>b_seen := AList.update (notification_id x) (now + secs 60) (b_seen b)\<rparr>;
              deadline = remaining_time L x
          in case map_of (b_active b) (offer_key x) of
               Some p \<Rightarrow> retire now x (offer_key x) p (show_room now x deadline) b
             | None \<Rightarrow> show_room now x deadline b))"

section \<open>Events and commands\<close>

definition server_step :: "delivery_libs \<Rightarrow> instant \<Rightarrow> server_event \<Rightarrow> op" where
  "server_step L now ev b = (case ev of
     ReadyEvent account device heartbeat_after visibility_ttl \<Rightarrow>
       (case b_connection b of
          None \<Rightarrow> (True, b)
        | Some con \<Rightarrow>
            status_changed now
              (if \<not> valid_account account \<or> device \<noteq> con_device con \<or> heartbeat_after \<noteq> 30
                  \<or> visibility_ttl \<noteq> 75 \<or> con_account con \<noteq> None
               then clear b
               else b\<lparr>b_connection := Some (con\<lparr>con_account := Some account\<rparr>)\<rparr>))
   | ShowEvent x \<Rightarrow> show_offer L now x b
   | WithdrawEvent i token \<Rightarrow>
       (case find (\<lambda>(_, p). notification_id (p_offer p) = i \<and> delivery_token (p_offer p) = token)
               (b_active b) of
          None \<Rightarrow> (True, b)
        | Some (key, _) \<Rightarrow>
            (case native (Withdraw key) (drop_active key b) of
               (True, b) \<Rightarrow> (True, b)
             | (False, b) \<Rightarrow> failed now b))
   | UnavailableEvent \<Rightarrow> status_changed now (clear b))"

text \<open>
  \<open>Bridge::view\<close>: \<open>visible_now\<close> is the chat's own entry, \<open>hide_gone\<close> tells the server that
  the last view of the chat shown before is gone.
\<close>

definition hide_gone :: "nat \<Rightarrow> op" where
  "hide_gone chat b = (if list_ex (\<lambda>(_, v). v_chat v = chat) (b_views b) then (True, b)
     else action (view_json chat False) b)"

definition view_step :: "instant \<Rightarrow> string \<Rightarrow> string \<Rightarrow> nat \<Rightarrow> bool \<Rightarrow> op" where
  "view_step now session account chat visible b =
     (if \<not> valid_session session \<or> chat = 0 \<or> account_of b \<noteq> Some account then (True, b)
      else if \<not> visible \<and> (case map_of (b_views b) session of
                None \<Rightarrow> False | Some v \<Rightarrow> v_chat v \<noteq> chat) then (True, b)
      else
        (let previous = map_of (b_views b) session;
             b = b\<lparr>b_views := AList.delete session (b_views b)\<rparr>
         in and_then
              (if visible \<and> length (b_views b) < MAX_VIEWS
               then and_then (modify (\<lambda>b. b\<lparr>b_views := AList.update session
                      \<lparr>v_chat = chat, v_until = now + VIEW_TTL\<rparr> (b_views b)\<rparr>))
                    (action (view_json chat True))
               else ok)
              (case previous of None \<Rightarrow> ok | Some v \<Rightarrow> hide_gone (v_chat v)) b))"

definition parse_u64 :: "string \<Rightarrow> nat option" where
  "parse_u64 s =
     (let digits = (case s of CHR ''+'' # t \<Rightarrow> t | _ \<Rightarrow> s)
      in if digits \<noteq> [] \<and> list_all is_ascii_digit digits \<and> read_nat digits 0 \<le> u64_max
         then Some (read_nat digits 0) else None)"

definition command_step :: "delivery_libs \<Rightarrow> instant \<Rightarrow> input \<Rightarrow> op" where
  "command_step L now c b = (case c of
     Reset \<Rightarrow> (True, (clear b)\<lparr>b_reset_acknowledge := True\<rparr>)
   | Attach generation server device_id \<Rightarrow>
       (let b = clear b;
            b = (case (parse_server L server, parse_u64 device_id) of
                   (Some url, Some device) \<Rightarrow>
                     if 0 < generation \<and> 0 < device
                     then b\<lparr>b_connection := Some \<lparr>con_generation = generation, con_server = url,
                              con_device = device, con_account = None\<rparr>\<rparr>
                     else b
                 | _ \<Rightarrow> b)
        in (True, b\<lparr>b_permission_at := now\<rparr>))
   | Detach generation \<Rightarrow>
       (True, if map_option con_generation (b_connection b) = Some generation then clear b else b)
   | Server generation ev \<Rightarrow>
       if map_option con_generation (b_connection b) = Some generation
       then (case read_event L ev of
               Some e \<Rightarrow> server_step L now e b
             | None \<Rightarrow> (True, clear b))
       else (True, b)
   | PermissionInput request \<Rightarrow> (True, ask_permission request now b)
   | ViewInput session account chat visible \<Rightarrow> view_step now session account chat visible b)"

definition settle :: "string \<Rightarrow> nat option \<Rightarrow> (pending \<Rightarrow> op) \<Rightarrow> op" where
  "settle i attempt go_on b = (case map_of (b_active b) i of
     Some p \<Rightarrow> if Some (p_attempt p) = attempt then go_on p b else (True, b)
   | None \<Rightarrow> (True, b))"

definition remove_unshown :: "string \<Rightarrow> pending \<Rightarrow> op" where
  "remove_unshown i p =
     and_then (modify (drop_active i))
       (if p_shown p then ok else receipt (p_offer p) ''failed'')"

definition observation :: "instant \<Rightarrow> event \<Rightarrow> op" where
  "observation now ev b = (case ev of
     Ready _ \<Rightarrow> (True, b)
   | PermissionEvent state \<Rightarrow>
       status_changed now (b\<lparr>b_permission_pending := False, b_permission := permission_from state\<rparr>)
   | Failed None _ _ \<Rightarrow> failed now b
   | Shown i attempt \<Rightarrow>
       settle i attempt (\<lambda>p b.
         if \<not> p_shown p \<and> now < p_deadline p
         then action (receipt_json (p_offer p) ''shown'')
                (b\<lparr>b_active := AList.update i (p\<lparr>p_shown := True\<rparr>) (b_active b)\<rparr>)
         else (True, b)) b
   | Activated i attempt act \<Rightarrow>
       settle i attempt (\<lambda>p b.
         if p_shown p \<and> (act = None \<or> act = Some ''default'')
         then (True, drop_active i (case b_connection b of
                None \<Rightarrow> b
              | Some con \<Rightarrow> b\<lparr>b_activated := b_activated b @
                    [\<lparr>act_server = con_server con, act_account = offer_account (p_offer p),
                      act_chat = offer_chat (p_offer p)\<rparr>]\<rparr>))
         else (True, b)) b
   | Failed (Some i) attempt _ \<Rightarrow>
       settle i attempt (\<lambda>p. and_then (remove_unshown i p)
         (\<lambda>b. status_changed now (b\<lparr>b_permission := Unavailable, b_permission_pending := False,
                b_permission_at := now + secs 2\<rparr>))) b
   | Dismissed i attempt \<Rightarrow> settle i attempt (remove_unshown i) b
   | Closed i attempt \<Rightarrow> settle i attempt (remove_unshown i) b)"

section \<open>The clock\<close>

text \<open>The loop over the expired attempts, which a failing helper breaks off.\<close>

fun expire :: "instant \<Rightarrow> (string \<times> pending) list \<Rightarrow> op" where
  "expire now [] b = (True, b)"
| "expire now ((i, p) # rest) b =
     and_then (modify (drop_active i))
       (and_then (receipt (p_offer p) ''failed'')
         (\<lambda>b. case native (Withdraw i) b of
            (True, b) \<Rightarrow> expire now rest b
          | (False, b) \<Rightarrow> failed now b)) b"

definition tick :: "instant \<Rightarrow> op" where
  "tick now b0 =
     (let b = b0\<lparr>b_seen := filter (\<lambda>(_, until). now < until) (b_seen b0)\<rparr>;
          expired = filter (\<lambda>(_, p). \<not> p_shown p \<and> p_deadline p \<le> now) (b_active b)
      in and_then (expire now expired)
        (\<lambda>b. let hidden = map (\<lambda>(_, v). v_chat v) (filter (\<lambda>(_, v). v_until v \<le> now) (b_views b));
                 b = b\<lparr>b_views := filter (\<lambda>(_, v). now < v_until v) (b_views b)\<rparr>
             in and_then (for_each hidden hide_gone)
               (and_then (\<lambda>b. if b_heartbeat_at b \<le> now then status_changed now b else (True, b))
                 (\<lambda>b. (True, if b_connection b \<noteq> None \<and> b_permission_at b \<le> now
                             then ask_permission False now b else b))) b) b)"

end
