(* ===== verification/DeliveryFacts.thy ===== *)
theory DeliveryFacts
  imports Delivery
begin

text \<open>
  Reasoning about the notification bridge. \<open>post Q E r\<close> says what holds of the bridge a step
  leaves behind, on success and on error. Every operation is shown to keep one invariant,
  which carries both the well-formedness of the bridge (\<open>bridge_ok\<close>) and a bound on
  receipts: the receipts sent for a notification plus its attempts still unanswered never
  exceed the offers received for it.
\<close>

section \<open>Outcomes\<close>

definition post :: "(bridge \<Rightarrow> bool) \<Rightarrow> (bridge \<Rightarrow> bool) \<Rightarrow> bool \<times> bridge \<Rightarrow> bool" where
  "post Q E r = (case r of (True, b) \<Rightarrow> Q b | (False, b) \<Rightarrow> E b)"

lemma post_pair [simp]: "post Q E (True, b) = Q b" "post Q E (False, b) = E b"
  by (simp_all add: post_def)

lemma post_and_then:
  assumes "post P E (f b)" and "\<And>b'. P b' \<Longrightarrow> post Q E (g b')"
  shows "post Q E (and_then f g b)"
proof (cases "f b")
  case (Pair r b')
  with assms show ?thesis by (cases r) (simp_all add: post_def and_then_def)
qed

lemma post_ok [simp]: "post Q E (ok b) = Q b"
  by (simp add: ok_def)

lemma post_modify [simp]: "post Q E (modify f b) = Q (f b)"
  by (simp add: modify_def)

lemma post_mono: "post P E r \<Longrightarrow> (\<And>b. P b \<Longrightarrow> Q b) \<Longrightarrow> (\<And>b. E b \<Longrightarrow> F b) \<Longrightarrow> post Q F r"
  by (auto simp: post_def split: prod.splits bool.splits)

lemma post_for_each:
  assumes "P b" and "\<And>x b. x \<in> set xs \<Longrightarrow> P b \<Longrightarrow> post P E (f x b)"
  shows "post P E (for_each xs f b)"
  using assms by (induction xs arbitrary: b) (auto intro!: post_and_then)

section \<open>What the channels leave alone\<close>

lemma emit_keeps [simp]:
  "b_connection (snd (emit x b)) = b_connection b" "b_active (snd (emit x b)) = b_active b"
  "b_seen (snd (emit x b)) = b_seen b" "b_views (snd (emit x b)) = b_views b"
  "b_attempt (snd (emit x b)) = b_attempt b" "b_native (snd (emit x b)) = b_native b"
  "b_permission (snd (emit x b)) = b_permission b"
  "b_activated (snd (emit x b)) = b_activated b"
  by (simp_all add: emit_def split_def Let_def)

lemma action_keeps [simp]:
  "b_connection (snd (action d b)) = b_connection b" "b_active (snd (action d b)) = b_active b"
  "b_seen (snd (action d b)) = b_seen b" "b_views (snd (action d b)) = b_views b"
  "b_attempt (snd (action d b)) = b_attempt b" "b_native (snd (action d b)) = b_native b"
  "b_permission (snd (action d b)) = b_permission b"
  "b_activated (snd (action d b)) = b_activated b"
  by (auto simp: action_def split: option.splits)

lemma receipt_keeps [simp]:
  "b_connection (snd (receipt x h b)) = b_connection b"
  "b_active (snd (receipt x h b)) = b_active b"
  "b_seen (snd (receipt x h b)) = b_seen b" "b_views (snd (receipt x h b)) = b_views b"
  "b_attempt (snd (receipt x h b)) = b_attempt b" "b_native (snd (receipt x h b)) = b_native b"
  "b_permission (snd (receipt x h b)) = b_permission b"
  by (simp_all add: receipt_def)

lemma native_keeps [simp]:
  "b_connection (snd (native c b)) = b_connection b" "b_active (snd (native c b)) = b_active b"
  "b_seen (snd (native c b)) = b_seen b" "b_views (snd (native c b)) = b_views b"
  "b_attempt (snd (native c b)) = b_attempt b" "b_output (snd (native c b)) = b_output b"
  "b_permission (snd (native c b)) = b_permission b"
  "b_activated (snd (native c b)) = b_activated b"
  by (auto simp: native_def split_def Let_def split: option.splits)

lemma native_eqD:
  assumes "native c b = (s, b')"
  shows "b_connection b' = b_connection b" "b_active b' = b_active b" "b_seen b' = b_seen b"
    "b_views b' = b_views b" "b_attempt b' = b_attempt b" "b_output b' = b_output b"
    "b_permission b' = b_permission b" "b_activated b' = b_activated b"
  using native_keeps[of c b] assms by auto

lemma withdraw_all_keeps [simp]:
  "b_connection (foldl (\<lambda>b (i, _). snd (native (Withdraw i) b)) b m) = b_connection b"
  "b_active (foldl (\<lambda>b (i, _). snd (native (Withdraw i) b)) b m) = b_active b"
  "b_seen (foldl (\<lambda>b (i, _). snd (native (Withdraw i) b)) b m) = b_seen b"
  "b_views (foldl (\<lambda>b (i, _). snd (native (Withdraw i) b)) b m) = b_views b"
  "b_attempt (foldl (\<lambda>b (i, _). snd (native (Withdraw i) b)) b m) = b_attempt b"
  "b_output (foldl (\<lambda>b (i, _). snd (native (Withdraw i) b)) b m) = b_output b"
  by (induction m arbitrary: b) (auto simp: split_def)

lemma clear_fields [simp]:
  "b_connection (clear b) = None" "b_active (clear b) = []" "b_seen (clear b) = []"
  "b_views (clear b) = []" "b_attempt (clear b) = b_attempt b" "b_output (clear b) = b_output b"
  by (simp_all add: clear_def Let_def)

lemma ask_permission_keeps [simp]:
  "b_connection (ask_permission r now b) = b_connection b"
  "b_active (ask_permission r now b) = b_active b" "b_seen (ask_permission r now b) = b_seen b"
  "b_views (ask_permission r now b) = b_views b"
  "b_attempt (ask_permission r now b) = b_attempt b"
  "b_output (ask_permission r now b) = b_output b"
  by (simp_all add: ask_permission_def split_def Let_def)

lemma account_of_cong: "b_connection b = b_connection b' \<Longrightarrow> account_of b = account_of b'"
  by (simp add: account_of_def)

section \<open>The invariant\<close>

definition routed :: "bridge \<Rightarrow> string \<times> pending \<Rightarrow> bool" where
  "routed b ip \<longleftrightarrow> (case ip of (i, p) \<Rightarrow>
     account_of b = Some (offer_account (p_offer p)) \<and> i = offer_key (p_offer p)
     \<and> valid_offer (p_offer p) \<and> 0 < p_attempt p \<and> p_attempt p \<le> b_attempt b)"

definition bridge_ok :: "bridge \<Rightarrow> bool" where
  "bridge_ok b \<longleftrightarrow>
     wf_map (b_active b) \<and> wf_map (b_seen b) \<and> wf_map (b_views b)
     \<and> length (b_active b) \<le> MAX_ACTIVE \<and> length (b_seen b) \<le> 256
     \<and> length (b_views b) \<le> MAX_VIEWS
     \<and> list_all (routed b) (b_active b)
     \<and> distinct (map (p_attempt \<circ> snd) (b_active b))
     \<and> b_attempt b \<le> u64_max
     \<and> (account_of b = None \<longrightarrow> b_seen b = [] \<and> b_views b = [])"

fun is_receipt :: "string \<Rightarrow> bridge_out \<Rightarrow> bool" where
  "is_receipt n (Action _ d) = (as_str (index d ''action'') = Some ''receipt''
     \<and> as_str (index d ''notification_id'') = Some n)"
| "is_receipt n _ = False"

definition receipts :: "string \<Rightarrow> bridge \<Rightarrow> nat" where
  "receipts n b = length (filter (is_receipt n) (sent (b_output b)))"

definition unanswered :: "string \<Rightarrow> (string \<times> pending) list \<Rightarrow> nat" where
  "unanswered n m =
     length (filter (\<lambda>(_, p). \<not> p_shown p \<and> notification_id (p_offer p) = n) m)"

definition within :: "string \<Rightarrow> nat \<Rightarrow> bridge \<Rightarrow> bool" where
  "within n k b \<longleftrightarrow> bridge_ok b \<and> receipts n b + unanswered n (b_active b) \<le> k"

definition ended :: "string \<Rightarrow> nat \<Rightarrow> bridge \<Rightarrow> bool" where
  "ended n k b \<longleftrightarrow> bridge_ok b \<and> receipts n b \<le> k"

definition one_if :: "bool \<Rightarrow> nat" where
  "one_if P = (if P then 1 else 0)"

lemma within_ended: "within n k b \<Longrightarrow> ended n k b"
  by (simp add: within_def ended_def)

lemma within_mono: "within n k b \<Longrightarrow> k \<le> k' \<Longrightarrow> within n k' b"
  by (simp add: within_def)

lemma bridge_ok_cong:
  assumes "b_connection b = b_connection b'" "b_active b = b_active b'" "b_seen b = b_seen b'"
    "b_views b = b_views b'" "b_attempt b = b_attempt b'"
  shows "bridge_ok b = bridge_ok b'"
proof -
  have a: "account_of b = account_of b'" using assms(1) by (rule account_of_cong)
  have "routed b = routed b'" by (auto simp: routed_def a assms(5) fun_eq_iff)
  with a assms show ?thesis by (simp add: bridge_ok_def)
qed

lemma within_cong:
  assumes "b_connection b = b_connection b'" "b_active b = b_active b'" "b_seen b = b_seen b'"
    "b_views b = b_views b'" "b_attempt b = b_attempt b'" "b_output b = b_output b'"
  shows "within n k b = within n k b'"
  using bridge_ok_cong[OF assms(1-5)] assms by (simp add: within_def receipts_def)

lemma within_native: "native c b = (s, b') \<Longrightarrow> within n k b' = within n k b"
  using native_eqD[of c b s b'] by (intro within_cong) auto

lemma within_ask [simp]: "within n k (ask_permission r now b) = within n k b"
  by (intro within_cong) auto

lemma bridge_ok_clear: "bridge_ok b \<Longrightarrow> bridge_ok (clear b)"
  by (simp add: bridge_ok_def account_of_def)

lemma within_clear: "ended n k b \<Longrightarrow> within n k (clear b)"
  by (simp add: within_def ended_def bridge_ok_clear receipts_def unanswered_def)

section \<open>Emitting\<close>

lemma receipts_emit: "receipts n (snd (emit x b)) \<le> receipts n b + one_if (is_receipt n x)"
  by (auto simp: emit_def receipts_def try_send_def one_if_def Let_def)

lemma emit_within:
  assumes "within n k b"
  shows "post (within n (k + one_if (is_receipt n x))) (ended n (k + one_if (is_receipt n x)))
    (emit x b)"
proof -
  have "bridge_ok (snd (emit x b)) = bridge_ok b" by (rule bridge_ok_cong) auto
  with assms receipts_emit[of n x b] emit_keeps(2)[of x b] show ?thesis
    by (cases "emit x b"; cases "fst (emit x b)") (simp_all add: post_def within_def ended_def)
qed

lemma action_within:
  assumes "within n k b"
  shows "post (within n (k + one_if (is_receipt n (Action 0 d))))
    (ended n (k + one_if (is_receipt n (Action 0 d)))) (action d b)"
proof -
  let ?k = "k + one_if (is_receipt n (Action 0 d))"
  have e: "post (within n ?k) (ended n ?k) (emit (Action g d) b)" for g
    using emit_within[OF assms, of "Action g d"] by simp
  have w: "within n ?k b" using within_mono[OF assms] by simp
  show ?thesis
    unfolding action_def using e w by (simp del: is_receipt.simps split: option.split)
qed

lemma heartbeat_no_receipt [simp]: "\<not> is_receipt n (Action g (heartbeat_json a))"
  by (simp add: heartbeat_json_def json_simps)

lemma view_no_receipt [simp]: "\<not> is_receipt n (Action g (view_json c v))"
  by (simp add: view_json_def json_simps)

lemma receipt_is_receipt [simp]:
  "is_receipt n (Action g (receipt_json x h)) \<longleftrightarrow> notification_id x = n"
  by (simp add: receipt_json_def json_simps)

lemma receipt_within:
  "within n k b \<Longrightarrow> post (within n (k + one_if (notification_id x = n)))
    (ended n (k + one_if (notification_id x = n))) (receipt x h b)"
  using action_within[of n k b "receipt_json x h"]
  by (simp add: receipt_def del: is_receipt.simps)

lemma action_quiet:
  "within n k b \<Longrightarrow> \<not> is_receipt n (Action 0 d) \<Longrightarrow> post (within n k) (ended n k) (action d b)"
  using action_within[of n k b d] by (simp add: one_if_def del: is_receipt.simps)

lemma status_changed_within:
  assumes "within n k b"
  shows "post (within n k) (ended n k) (status_changed now b)"
  unfolding status_changed_def
proof (rule post_and_then)
  show "post (within n k) (ended n k) (emit (StatusOut (status_of b)) b)"
    using emit_within[OF assms, of "StatusOut (status_of b)"] by (simp add: one_if_def)
next
  fix b' assume "within n k b'"
  then have "within n k (b'\<lparr>b_heartbeat_at := now + HEARTBEAT\<rparr>)"
    by (subst within_cong[of _ b']) auto
  then show "post (within n k) (ended n k) (let b = b'\<lparr>b_heartbeat_at := now + HEARTBEAT\<rparr>
      in action (heartbeat_json (st_available (status_of b))) b)"
    unfolding Let_def by (rule action_quiet) (simp del: is_receipt.simps)
qed

section \<open>Failing and taking off\<close>

definition same_core :: "bridge \<Rightarrow> bridge \<Rightarrow> bool" where
  "same_core b b' \<longleftrightarrow> b_connection b' = b_connection b \<and> b_active b' = b_active b
     \<and> b_seen b' = b_seen b \<and> b_views b' = b_views b \<and> b_attempt b' = b_attempt b"

lemma same_core_ok: "same_core b b' \<Longrightarrow> bridge_ok b' = bridge_ok b"
  unfolding same_core_def by (rule bridge_ok_cong) auto

lemma receipt_outcome:
  "post (\<lambda>b'. same_core b b' \<and> receipts n b' \<le> receipts n b + one_if (notification_id x = n))
        (\<lambda>b'. same_core b b' \<and> receipts n b' \<le> receipts n b + one_if (notification_id x = n))
        (receipt x h b)"
proof -
  have e: "receipts n (snd (emit (Action g (receipt_json x h)) b))
      \<le> receipts n b + one_if (notification_id x = n)" for g
    using receipts_emit[of n "Action g (receipt_json x h)" b] by (simp del: is_receipt.simps)
  have "receipts n (snd (receipt x h b)) \<le> receipts n b + one_if (notification_id x = n)"
    using e by (auto simp: receipt_def action_def split: option.splits)
  then show ?thesis
    by (cases "receipt x h b"; cases "fst (receipt x h b)")
      (use receipt_keeps[of x h b] in \<open>simp_all add: post_def same_core_def\<close>)
qed

lemma unanswered_Cons: "unanswered n ((i, p) # m)
    = one_if (\<not> p_shown p \<and> notification_id (p_offer p) = n) + unanswered n m"
  by (simp add: unanswered_def one_if_def)

lemma receipts_for_all:
  "post (\<lambda>b'. same_core b b' \<and> receipts n b' \<le> receipts n b + unanswered n m)
        (\<lambda>b'. same_core b b' \<and> receipts n b' \<le> receipts n b + unanswered n m)
     (for_each m (\<lambda>(_, p). if p_shown p then ok else receipt (p_offer p) ''failed'') b)"
proof (induction m arbitrary: b)
  case Nil
  then show ?case by (simp add: same_core_def unanswered_def)
next
  case (Cons ip m)
  obtain i p where ip: "ip = (i, p)" by force
  let ?d = "one_if (\<not> p_shown p \<and> notification_id (p_offer p) = n)"
  have first: "post (\<lambda>b'. same_core b b' \<and> receipts n b' \<le> receipts n b + ?d)
      (\<lambda>b'. same_core b b' \<and> receipts n b' \<le> receipts n b + ?d)
      ((if p_shown p then ok else receipt (p_offer p) ''failed'') b)"
    using receipt_outcome[of b n "p_offer p" "''failed''"]
    by (cases "p_shown p") (auto simp: same_core_def one_if_def)
  have "post (\<lambda>b'. same_core b b' \<and> receipts n b' \<le> receipts n b + (?d + unanswered n m))
      (\<lambda>b'. same_core b b' \<and> receipts n b' \<le> receipts n b + (?d + unanswered n m))
      (and_then (if p_shown p then ok else receipt (p_offer p) ''failed'')
        (for_each m (\<lambda>(_, p). if p_shown p then ok else receipt (p_offer p) ''failed'')) b)"
  proof (rule post_and_then)
    show "post (\<lambda>b'. same_core b b' \<and> receipts n b' \<le> receipts n b + ?d)
      (\<lambda>b'. same_core b b' \<and> receipts n b' \<le> receipts n b + (?d + unanswered n m))
      ((if p_shown p then ok else receipt (p_offer p) ''failed'') b)"
      by (rule post_mono[OF first]) auto
    fix b' assume b': "same_core b b' \<and> receipts n b' \<le> receipts n b + ?d"
    show "post (\<lambda>b'. same_core b b' \<and> receipts n b' \<le> receipts n b + (?d + unanswered n m))
      (\<lambda>b'. same_core b b' \<and> receipts n b' \<le> receipts n b + (?d + unanswered n m))
      (for_each m (\<lambda>(_, p). if p_shown p then ok else receipt (p_offer p) ''failed'') b')"
      by (rule post_mono[OF Cons.IH[of b']]) (use b' in \<open>auto simp: same_core_def\<close>)
  qed
  then show ?case by (simp add: ip unanswered_Cons)
qed

lemma bridge_ok_no_active: "bridge_ok b \<Longrightarrow> bridge_ok (b\<lparr>b_active := []\<rparr>)"
  by (simp add: bridge_ok_def account_of_def)

lemma failed_within:
  assumes "within n k b"
  shows "post (within n k) (ended n k) (failed now b)"
  unfolding failed_def
proof (rule post_and_then)
  show "post (ended n k) (ended n k)
      (for_each (b_active b) (\<lambda>(_, p). if p_shown p then ok else receipt (p_offer p) ''failed'') b)"
    by (rule post_mono[OF receipts_for_all[of b n]])
      (use assms same_core_ok in \<open>auto simp: within_def ended_def\<close>)
next
  fix b' assume e: "ended n k b'"
  let ?w = "foldl (\<lambda>b (i, _). snd (native (Withdraw i) b)) b' (b_active b')"
  let ?b = "?w\<lparr>b_active := [], b_permission := Unavailable, b_permission_pending := False,
      b_permission_at := now + secs 2, b_restart_native := True\<rparr>"
  have "bridge_ok ?b = bridge_ok (b'\<lparr>b_active := []\<rparr>)" by (rule bridge_ok_cong) auto
  with e have "within n k ?b"
    by (simp add: within_def ended_def bridge_ok_no_active receipts_def unanswered_def)
  then show "post (within n k) (ended n k) (let b = ?w in status_changed now
      (b\<lparr>b_active := [], b_permission := Unavailable, b_permission_pending := False,
         b_permission_at := now + secs 2, b_restart_native := True\<rparr>))"
    unfolding Let_def by (rule status_changed_within)
qed

lemma drop_active_fields [simp]:
  "b_connection (drop_active i b) = b_connection b" "b_seen (drop_active i b) = b_seen b"
  "b_active (drop_active i b) = AList.delete i (b_active b)"
  "b_views (drop_active i b) = b_views b" "b_attempt (drop_active i b) = b_attempt b"
  "b_output (drop_active i b) = b_output b" "b_native (drop_active i b) = b_native b"
  "b_permission (drop_active i b) = b_permission b"
  by (simp_all add: drop_active_def)

lemma bridge_ok_drop: "bridge_ok b \<Longrightarrow> bridge_ok (drop_active i b)"
  by (auto simp: bridge_ok_def account_of_def routed_def list_all_iff in_set_delete_iff
      distinct_delete AList.delete_eq distinct_map_filter intro: le_trans[OF length_filter_le])

lemma unanswered_delete:
  "wf_map m \<Longrightarrow> map_of m i = Some p \<Longrightarrow>
   unanswered n (AList.delete i m) + one_if (\<not> p_shown p \<and> notification_id (p_offer p) = n)
     = unanswered n m"
proof (induction m)
  case (Cons jq m)
  obtain j q where jq: "jq = (j, q)" by force
  show ?case
  proof (cases "j = i")
    case True
    with Cons.prems jq have "q = p" "AList.delete i m = m"
      by (auto simp: AList.delete_id dom_map_of_conv_image_fst)
    with True jq show ?thesis by (simp add: unanswered_Cons)
  next
    case False
    with Cons jq show ?thesis by (simp add: unanswered_Cons)
  qed
qed simp

lemma drop_within:
  assumes "within n k b" and "map_of (b_active b) i = Some p"
  shows "within n (k - one_if (\<not> p_shown p \<and> notification_id (p_offer p) = n)) (drop_active i b)"
    and "one_if (\<not> p_shown p \<and> notification_id (p_offer p) = n) \<le> k"
proof -
  have wf: "wf_map (b_active b)" using assms(1) by (simp add: within_def bridge_ok_def)
  show "within n (k - one_if (\<not> p_shown p \<and> notification_id (p_offer p) = n)) (drop_active i b)"
    "one_if (\<not> p_shown p \<and> notification_id (p_offer p) = n) \<le> k"
    using assms unanswered_delete[OF wf assms(2), of n]
    by (auto simp: within_def bridge_ok_drop receipts_def)
qed

lemma remove_unshown_within:
  assumes "within n k b" and "map_of (b_active b) i = Some p"
  shows "post (within n k) (ended n k) (remove_unshown i p b)"
  unfolding remove_unshown_def
proof (rule post_and_then)
  let ?d = "one_if (\<not> p_shown p \<and> notification_id (p_offer p) = n)"
  show "post (within n (k - ?d)) (ended n k) (modify (drop_active i) b)"
    using drop_within[OF assms] by simp
  fix b' assume w: "within n (k - ?d) b'"
  show "post (within n k) (ended n k)
      ((if p_shown p then ok else receipt (p_offer p) ''failed'') b')"
  proof (cases "p_shown p")
    case True
    with w show ?thesis by (simp add: one_if_def)
  next
    case False
    then have "k - ?d + one_if (notification_id (p_offer p) = n) = k"
      using drop_within(2)[OF assms] by simp
    with False receipt_within[OF w, of "p_offer p" "''failed''"] show ?thesis by simp
  qed
qed

text \<open>What follows a command to the helper: one way when it was taken, failure otherwise.\<close>

lemma native_then:
  assumes "within n k b"
    and "\<And>b'. within n k b' \<Longrightarrow> same_core b b' \<Longrightarrow> post Q E (g b')"
    and "\<And>b'. within n k b' \<Longrightarrow> post Q E (h b')"
  shows "post Q E (case native c b of (True, b) \<Rightarrow> g b | (False, b) \<Rightarrow> h b)"
proof (cases "native c b")
  case (Pair r b')
  from within_native[OF Pair] assms(1) have "within n k b'" by simp
  moreover have "same_core b b'" using native_eqD[OF Pair] by (simp add: same_core_def)
  ultimately show ?thesis using Pair assms(2,3) by (cases r) auto
qed

lemma receipt_then_failed:
  assumes "within n k b" and "k + one_if (notification_id x = n) \<le> k'"
  shows "post (within n k') (ended n k') (and_then (receipt x h) (failed now) b)"
proof (rule post_and_then)
  show "post (within n k') (ended n k') (receipt x h b)"
    by (rule post_mono[OF receipt_within[OF assms(1)]])
      (use assms(2) in \<open>auto simp: within_def ended_def\<close>)
qed (rule failed_within)

section \<open>Showing\<close>

lemma retire_within:
  assumes w: "within n k b" and p: "map_of (b_active b) i = Some p"
    and k: "k + one_if (notification_id x = n) \<le> k'"
    and go: "\<And>b'. within n k b' \<Longrightarrow> same_core (drop_active i b) b'
      \<Longrightarrow> post (within n k') (ended n k') (go_on b')"
  shows "post (within n k') (ended n k') (retire now x i p go_on b)"
  unfolding retire_def
proof (rule post_and_then)
  let ?d = "one_if (\<not> p_shown p \<and> notification_id (p_offer p) = n)"
  show "post (\<lambda>b'. b' = drop_active i b) (ended n k') (modify (drop_active i) b)" by simp
  fix b1 assume b1: "b1 = drop_active i b"
  have w1: "within n (k - ?d) b1" using drop_within(1)[OF w p] b1 by simp
  show "post (within n k') (ended n k')
     (and_then (if p_shown p then ok else receipt (p_offer p) ''failed'')
       (\<lambda>b. case native (Withdraw i) b of (True, b) \<Rightarrow> go_on b
          | (False, b) \<Rightarrow> and_then (receipt x ''failed'') (failed now) b) b1)"
  proof (rule post_and_then)
    show "post (\<lambda>b'. within n k b' \<and> same_core b1 b') (ended n k')
        ((if p_shown p then ok else receipt (p_offer p) ''failed'') b1)"
    proof (cases "p_shown p")
      case True
      with w1 show ?thesis by (simp add: one_if_def same_core_def)
    next
      case False
      then have "k - ?d + one_if (notification_id (p_offer p) = n) = k"
        using drop_within(2)[OF w p] by simp
      with receipt_within[OF w1, of "p_offer p" "''failed''"]
      have r: "post (within n k) (ended n k) (receipt (p_offer p) ''failed'' b1)" by simp
      have "post (\<lambda>b'. within n k b' \<and> same_core b1 b') (ended n k)
          (receipt (p_offer p) ''failed'' b1)"
        using r receipt_outcome[of b1 n "p_offer p" "''failed''"]
        by (cases "receipt (p_offer p) ''failed'' b1"; cases "fst (receipt (p_offer p) ''failed'' b1)")
          (auto simp: post_def)
      then have "post (\<lambda>b'. within n k b' \<and> same_core b1 b') (ended n k')
          (receipt (p_offer p) ''failed'' b1)"
        by (rule post_mono) (use k in \<open>auto simp: ended_def\<close>)
      with False show ?thesis by simp
    qed
  next
    fix b2 assume b2: "within n k b2 \<and> same_core b1 b2"
    show "post (within n k') (ended n k') (case native (Withdraw i) b2 of (True, b) \<Rightarrow> go_on b
          | (False, b) \<Rightarrow> and_then (receipt x ''failed'') (failed now) b)"
    proof (rule native_then)
      show "within n k b2" using b2 by simp
      show "post (within n k') (ended n k') (go_on b')"
        if "within n k b'" "same_core b2 b'" for b'
        using that b2 b1 by (intro go) (auto simp: same_core_def)
      show "post (within n k') (ended n k') (and_then (receipt x ''failed'') (failed now) b')"
        if "within n k b'" for b'
        using that k by (rule receipt_then_failed)
    qed
  qed
qed

lemma map_of_None_fst: "map_of m i = None \<Longrightarrow> i \<notin> fst ` set m"
  by (simp add: map_of_eq_None_iff)

definition showable :: "offer \<Rightarrow> bridge \<Rightarrow> bool" where
  "showable x b \<longleftrightarrow> account_of b = Some (offer_account x) \<and> valid_offer x
     \<and> map_of (b_active b) (offer_key x) = None"

lemma showable_cong: "same_core b b' \<Longrightarrow> showable x b' = showable x b"
  by (auto simp: showable_def same_core_def account_of_def)

lemma insert_within:
  assumes w: "within n k b" and s: "showable x b" and l: "length (b_active b) < MAX_ACTIVE"
    and a: "b_attempt b < u64_max" and k: "k + one_if (notification_id x = n) \<le> k'"
    and c: "same_core (b\<lparr>b_attempt := b_attempt b + 1\<rparr>) b'" and o: "b_output b' = b_output b"
  shows "within n k' (b'\<lparr>b_active := AList.update (offer_key x)
     \<lparr>p_offer = x, p_attempt = b_attempt b + 1, p_deadline = d, p_shown = False\<rparr> (b_active b')\<rparr>)"
proof -
  let ?p = "\<lparr>p_offer = x, p_attempt = b_attempt b + 1, p_deadline = d, p_shown = False\<rparr>"
  have act: "b_active b' = b_active b" using c by (simp add: same_core_def)
  have new: "offer_key x \<notin> fst ` set (b_active b)"
    using s by (auto simp: showable_def map_of_eq_None_iff)
  have up: "AList.update (offer_key x) ?p (b_active b') = b_active b @ [(offer_key x, ?p)]"
    unfolding act by (rule AList_update_new[OF new])
  have acc: "account_of b' = account_of b"
    using c by (auto simp: same_core_def account_of_def)
  have ok: "bridge_ok b" using w by (simp add: within_def)
  have fresh: "b_attempt b + 1 \<notin> set (map (p_attempt \<circ> snd) (b_active b))"
    using ok by (fastforce simp: bridge_ok_def list_all_iff routed_def)
  have "list_all (routed (b'\<lparr>b_active := b_active b @ [(offer_key x, ?p)]\<rparr>)) (b_active b)"
    using ok c acc by (auto simp: bridge_ok_def list_all_iff routed_def same_core_def account_of_def)
  then have "bridge_ok (b'\<lparr>b_active := b_active b @ [(offer_key x, ?p)]\<rparr>)"
    using ok c s l a new fresh acc
    by (auto simp: bridge_ok_def same_core_def showable_def routed_def account_of_def)
  moreover have "unanswered n (b_active b @ [(offer_key x, ?p)])
      = unanswered n (b_active b) + one_if (notification_id x = n)"
    by (simp add: unanswered_def one_if_def)
  ultimately show ?thesis
    using w k unfolding up by (simp add: within_def receipts_def o)
qed

lemma show_now_within:
  assumes w: "within n k b" and s: "showable x b" and l: "length (b_active b) < MAX_ACTIVE"
    and k: "k + one_if (notification_id x = n) \<le> k'"
  shows "post (within n k') (ended n k') (show_now now x remaining b)"
proof (cases "u64_max \<le> b_attempt b")
  case True
  then show ?thesis
    unfolding show_now_def using post_mono[OF receipt_within[OF w]] k
    by (auto simp: within_def ended_def)
next
  case False
  let ?b = "b\<lparr>b_attempt := b_attempt b + 1\<rparr>"
  let ?c = "Show (offer_key x) (Some (b_attempt b + 1)) (offer_title x) (Some (offer_body x))"
  have "bridge_ok ?b"
    using w False by (fastforce simp: within_def bridge_ok_def list_all_iff routed_def account_of_def)
  then have w1: "within n k ?b" using w by (simp add: within_def receipts_def)
  obtain r b' where n: "native ?c ?b = (r, b')" by force
  show ?thesis
  proof (cases r)
    case True
    have "same_core ?b b'" "b_output b' = b_output b"
      using native_eqD[OF n] by (auto simp: same_core_def)
    from insert_within[OF w s l _ k this] False True n show ?thesis
      by (simp add: show_now_def Let_def)
  next
    case r: False
    have "within n k b'" using within_native[OF n] w1 by simp
    from receipt_then_failed[OF this k] r n False show ?thesis
      by (simp add: show_now_def Let_def)
  qed
qed

lemma oldest_active_in: "oldest_active m = Some (i, p) \<Longrightarrow> (i, p) \<in> set m"
  by (induction m arbitrary: i p rule: oldest_active.induct)
    (auto split: option.splits prod.splits if_splits)

lemma oldest_active_min:
  "oldest_active m = Some (i, p) \<Longrightarrow> (j, q) \<in> set m \<Longrightarrow> p_attempt p \<le> p_attempt q"
proof (induction m arbitrary: i p rule: oldest_active.induct)
  case (2 i' p' m)
  show ?case
  proof (cases "oldest_active m")
    case None
    then have "m = []" by (cases m) (auto split: option.splits prod.splits if_splits)
    with 2 show ?thesis by auto
  next
    case (Some jq)
    obtain j' q' where jq: "jq = (j', q')" by force
    with 2 Some show ?thesis by (fastforce split: if_splits)
  qed
qed simp

lemma oldest_active_None: "oldest_active m = None \<longleftrightarrow> m = []"
  by (cases m) (auto split: option.splits prod.splits if_splits)

lemma show_room_within:
  assumes w: "within n k b" and s: "showable x b"
    and k: "k + one_if (notification_id x = n) \<le> k'"
  shows "post (within n k') (ended n k') (show_room now x deadline b)"
proof -
  have fail: "post (within n k') (ended n k') (receipt x ''failed'' b)"
    by (rule post_mono[OF receipt_within[OF w]]) (use k in \<open>auto simp: within_def ended_def\<close>)
  have ok: "bridge_ok b" using w by (simp add: within_def)
  show ?thesis
  proof (cases "deadline \<noteq> None \<and> st_available (status_of b)")
    case False
    with fail show ?thesis by (auto simp: show_room_def split: option.splits)
  next
    case True
    then obtain remaining where d: "deadline = Some remaining" by auto
    show ?thesis
    proof (cases "MAX_ACTIVE \<le> length (b_active b)")
      case False
      then show ?thesis
        using True d show_now_within[OF w s _ k] by (simp add: show_room_def)
    next
      case full: True
      then obtain i p where old: "oldest_active (b_active b) = Some (i, p)"
        by (cases "oldest_active (b_active b)")
          (auto simp: oldest_active_None MAX_ACTIVE_def)
      then have p: "map_of (b_active b) i = Some p"
        using ok oldest_active_in by (simp add: bridge_ok_def)
      have "length (AList.delete i (b_active b)) < MAX_ACTIVE"
        using ok length_delete_present[of "b_active b" i] oldest_active_in[OF old]
        by (force simp: bridge_ok_def)
      moreover have "showable x (drop_active i b)"
        using s by (auto simp: showable_def account_of_def delete_conv')
      ultimately have "post (within n k') (ended n k') (retire now x i p (show_now now x remaining) b)"
        by (intro retire_within[OF w p k] show_now_within[OF _ _ _ k])
          (auto simp: showable_cong, simp add: same_core_def)
      with True d full old show ?thesis by (simp add: show_room_def)
    qed
  qed
qed

lemma show_offer_within:
  assumes w: "within n k b" and k: "k + one_if (notification_id x = n) \<le> k'"
  shows "post (within n k') (ended n k') (show_offer L now x b)"
proof -
  have skip: "post (within n k') (ended n k') (True, b)" using w k by (simp add: within_def)
  have fail: "post (within n k') (ended n k') (receipt x ''failed'' b)"
    by (rule post_mono[OF receipt_within[OF w]]) (use k in \<open>auto simp: within_def ended_def\<close>)
  have ok: "bridge_ok b" using w by (simp add: within_def)
  let ?b = "b\<lparr>b_seen := AList.update (notification_id x) (now + secs 60) (b_seen b)\<rparr>"
  show ?thesis
  proof (cases "account_of b = Some (offer_account x) \<and> valid_offer x
      \<and> map_of (b_seen b) (notification_id x) = None")
    case False
    with skip show ?thesis by (auto simp: show_offer_def split: option.splits)
  next
    case True
    then have acc: "account_of b = Some (offer_account x)" and v: "valid_offer x"
      and new: "map_of (b_seen b) (notification_id x) = None" by simp_all
    show ?thesis
    proof (cases "256 \<le> length (b_seen b)")
      case full: True
      with acc v new fail show ?thesis by (simp add: show_offer_def)
    next
      case False
      have up: "AList.update (notification_id x) (now + secs 60) (b_seen b)
          = b_seen b @ [(notification_id x, now + secs 60)]"
        using new by (intro AList_update_new) (auto simp: map_of_eq_None_iff)
      have "bridge_ok ?b"
        unfolding up using ok acc False new
        by (auto simp: bridge_ok_def account_of_def routed_def list_all_iff map_of_eq_None_iff)
      then have w1: "within n k ?b" using w by (simp add: within_def receipts_def)
      show ?thesis
      proof (cases "map_of (b_active b) (offer_key x)")
        case None
        then have "showable x ?b" using acc v by (simp add: showable_def account_of_def)
        from show_room_within[OF w1 this k] acc v new False None show ?thesis
          by (simp add: show_offer_def)
      next
        case (Some p)
        have "showable x (drop_active (offer_key x) ?b)"
          using acc v by (simp add: showable_def account_of_def delete_conv')
        then have "post (within n k') (ended n k')
            (retire now x (offer_key x) p (show_room now x (remaining_time L x)) ?b)"
          using Some by (intro retire_within[OF w1 _ k] show_room_within[OF _ _ k])
            (auto simp: showable_cong)
        with acc v new False Some show ?thesis by (simp add: show_offer_def)
      qed
    qed
  qed
qed

section \<open>Every operation\<close>

definition offers :: "string \<Rightarrow> server_event \<Rightarrow> nat" where
  "offers n ev = (case ev of ShowEvent x \<Rightarrow> one_if (notification_id x = n) | _ \<Rightarrow> 0)"

lemma connect_within:
  assumes "within n k b" and "b_connection b = Some con" and "con_account con = None"
  shows "within n k (b\<lparr>b_connection := Some (con\<lparr>con_account := Some a\<rparr>)\<rparr>)"
proof -
  have "b_active b = []"
  proof (rule ccontr)
    assume "b_active b \<noteq> []"
    then obtain i p where "(i, p) \<in> set (b_active b)" by (cases "b_active b") auto
    with assms show False
      by (auto simp: within_def bridge_ok_def list_all_iff routed_def account_of_def)
  qed
  with assms show ?thesis
    by (auto simp: within_def bridge_ok_def account_of_def receipts_def)
qed

lemma server_step_within:
  assumes w: "within n k b"
  shows "post (within n (k + offers n ev)) (ended n (k + offers n ev)) (server_step L now ev b)"
proof (cases ev)
  case (ReadyEvent account device heartbeat_after ttl)
  show ?thesis
  proof (cases "b_connection b")
    case None
    with ReadyEvent w show ?thesis by (simp add: server_step_def offers_def)
  next
    case (Some con)
    have "within n k (if \<not> valid_account account \<or> device \<noteq> con_device con
        \<or> heartbeat_after \<noteq> 30 \<or> ttl \<noteq> 75 \<or> con_account con \<noteq> None
      then clear b else b\<lparr>b_connection := Some (con\<lparr>con_account := Some account\<rparr>)\<rparr>)"
      using connect_within[OF w Some] within_clear[OF within_ended[OF w]] by auto
    from status_changed_within[OF this] show ?thesis
      unfolding ReadyEvent server_step_def offers_def by (simp add: Some)
  qed
next
  case (ShowEvent x)
  with show_offer_within[OF w, of x "k + offers n ev"] show ?thesis
    by (simp add: server_step_def offers_def)
next
  case (WithdrawEvent i token)
  show ?thesis
  proof (cases "find (\<lambda>(_, p). notification_id (p_offer p) = i
      \<and> delivery_token (p_offer p) = token) (b_active b)")
    case None
    with WithdrawEvent w show ?thesis by (simp add: server_step_def offers_def)
  next
    case (Some kp)
    obtain key p where kp: "kp = (key, p)" by force
    with Some w have "map_of (b_active b) key = Some p"
      by (auto dest!: find_SomeD simp: within_def bridge_ok_def)
    from drop_within(1)[OF w this] have "within n k (drop_active key b)"
      by (rule within_mono) simp
    then have "post (within n k) (ended n k) (case native (Withdraw key) (drop_active key b) of
        (True, b) \<Rightarrow> (True, b) | (False, b) \<Rightarrow> failed now b)"
      by (rule native_then) (auto intro: failed_within)
    with WithdrawEvent Some kp show ?thesis by (simp add: server_step_def offers_def)
  qed
next
  case UnavailableEvent
  then show ?thesis
    using status_changed_within[OF within_clear[OF within_ended[OF w]]]
    by (simp add: server_step_def offers_def)
qed

lemma within_views:
  assumes "within n k b" and "wf_map m" and "length m \<le> MAX_VIEWS"
    and "account_of b = None \<Longrightarrow> m = []"
  shows "within n k (b\<lparr>b_views := m\<rparr>)"
proof -
  have "routed (b\<lparr>b_views := m\<rparr>) = routed b"
    by (auto simp: routed_def account_of_def fun_eq_iff)
  with assms show ?thesis by (auto simp: within_def bridge_ok_def account_of_def receipts_def)
qed

lemma hide_gone_within: "within n k b \<Longrightarrow> post (within n k) (ended n k) (hide_gone c b)"
  unfolding hide_gone_def using action_quiet[of n k b "view_json c False"]
  by (simp del: is_receipt.simps)

lemma view_step_within:
  assumes w: "within n k b"
  shows "post (within n k) (ended n k) (view_step now session account chat visible b)"
proof -
  have ok: "bridge_ok b" using w by (simp add: within_def)
  let ?m = "AList.delete session (b_views b)"
  let ?b = "b\<lparr>b_views := ?m\<rparr>"
  have m: "wf_map ?m" "length ?m \<le> MAX_VIEWS"
    using ok AList_delete_le[of session "b_views b"]
    by (auto simp: bridge_ok_def distinct_delete)
  have none: "account_of b = None \<Longrightarrow> ?m = []" using ok by (simp add: bridge_ok_def)
  have w1: "within n k ?b" using within_views[OF w m none] .
  have go: "post (within n k) (ended n k) (and_then
      (if visible \<and> length (b_views ?b) < MAX_VIEWS
       then and_then (modify (\<lambda>b. b\<lparr>b_views := AList.update session
              \<lparr>v_chat = chat, v_until = now + VIEW_TTL\<rparr> (b_views b)\<rparr>))
            (action (view_json chat True))
       else ok)
      (case map_of (b_views b) session of None \<Rightarrow> ok | Some v \<Rightarrow> hide_gone (v_chat v)) ?b)"
    if acc: "account_of b = Some account"
  proof (rule post_and_then)
    fix b' assume "within n k b'"
    then show "post (within n k) (ended n k)
        ((case map_of (b_views b) session of None \<Rightarrow> ok | Some v \<Rightarrow> hide_gone (v_chat v)) b')"
      by (cases "map_of (b_views b) session") (auto intro: hide_gone_within)
  next
    show "post (within n k) (ended n k)
     ((if visible \<and> length (b_views ?b) < MAX_VIEWS
       then and_then (modify (\<lambda>b. b\<lparr>b_views := AList.update session
              \<lparr>v_chat = chat, v_until = now + VIEW_TTL\<rparr> (b_views b)\<rparr>))
            (action (view_json chat True))
       else ok) ?b)"
    proof (cases "visible \<and> length ?m < MAX_VIEWS")
      case True
      let ?m' = "AList.update session \<lparr>v_chat = chat, v_until = now + VIEW_TTL\<rparr> ?m"
      have new: "session \<notin> fst ` set ?m" by (auto simp: in_set_delete_iff)
      then have "?m' = ?m @ [(session, \<lparr>v_chat = chat, v_until = now + VIEW_TTL\<rparr>)]"
        by (rule AList_update_new)
      then have "wf_map ?m'" "length ?m' \<le> MAX_VIEWS"
        using True m new by (simp_all add: distinct_update)
      then have "within n k (?b\<lparr>b_views := ?m'\<rparr>)"
        using acc by (intro within_views[OF w1]) (simp_all add: account_of_def)
      then have "post (within n k) (ended n k) (action (view_json chat True) (?b\<lparr>b_views := ?m'\<rparr>))"
        by (rule action_quiet) (simp del: is_receipt.simps)
      with True show ?thesis
        by (simp add: and_then_def modify_def)
    next
      case False
      with w1 show ?thesis by auto
    qed
  qed
  show ?thesis
    unfolding view_step_def Let_def using w go by simp
qed

lemma command_step_within:
  assumes w: "within n k b"
  shows "post (within n (k + (case c of Server _ ev \<Rightarrow>
              (case read_event L ev of Some e \<Rightarrow> offers n e | None \<Rightarrow> 0) | _ \<Rightarrow> 0)))
    (ended n (k + (case c of Server _ ev \<Rightarrow>
              (case read_event L ev of Some e \<Rightarrow> offers n e | None \<Rightarrow> 0) | _ \<Rightarrow> 0)))
    (command_step L now c b)"
proof -
  have wc: "within n k (clear b)" using within_clear[OF within_ended[OF w]] .
  show ?thesis
  proof (cases c)
    case (Attach g server device)
    have field: "within n k (b'\<lparr>b_permission_at := now\<rparr>) = within n k b'" for b'
      by (rule within_cong) auto
    have con: "within n k ((clear b)\<lparr>b_connection := Some con\<rparr>)" for con
      using wc by (simp add: within_def bridge_ok_def account_of_def receipts_def)
    from Attach wc con show ?thesis
      by (auto simp: command_step_def Let_def field split: option.splits)
  next
    case (Server g ev)
    with w wc server_step_within[OF w] within_mono[OF w] show ?thesis
      by (auto simp: command_step_def split: option.splits)
  next
    case (ViewInput session account chat visible)
    with view_step_within[OF w] show ?thesis by (simp add: command_step_def)
  next
    case Reset
    have "within n k ((clear b)\<lparr>b_reset_acknowledge := True\<rparr>)"
      using wc by (subst within_cong[of _ "clear b"]) auto
    with Reset show ?thesis by (simp add: command_step_def)
  qed (use w wc in \<open>simp_all add: command_step_def\<close>)
qed

lemma update_present:
  assumes "wf_map m" and "map_of m i = Some p"
  obtains m1 m2 where "m = m1 @ (i, p) # m2" and "AList.update i q m = m1 @ (i, q) # m2"
proof -
  from assms obtain m1 m2 where m: "m = m1 @ (i, p) # m2"
    using split_list[of "(i, p)" m] by (auto dest: map_of_SomeD)
  with assms(1) have "i \<notin> fst ` set m1" by auto
  then have "AList.update i q (m1 @ (i, p) # m2) = m1 @ (i, q) # m2"
    by (induction m1) auto
  with m that show thesis by blast
qed

lemma mark_shown_within:
  assumes w: "within n k b" and p: "map_of (b_active b) i = Some p" and u: "\<not> p_shown p"
  shows "within n (k - one_if (notification_id (p_offer p) = n))
      (b\<lparr>b_active := AList.update i (p\<lparr>p_shown := True\<rparr>) (b_active b)\<rparr>)"
    and "one_if (notification_id (p_offer p) = n) \<le> k"
proof -
  have ok: "bridge_ok b" using w by (simp add: within_def)
  then have wf: "wf_map (b_active b)" by (simp add: bridge_ok_def)
  obtain m1 m2 where m: "b_active b = m1 @ (i, p) # m2"
    and m': "AList.update i (p\<lparr>p_shown := True\<rparr>) (b_active b) = m1 @ (i, p\<lparr>p_shown := True\<rparr>) # m2"
    using update_present[OF wf p] .
  have r: "routed (b\<lparr>b_active := x\<rparr>) = routed b" for x
    by (auto simp: routed_def account_of_def fun_eq_iff)
  have "bridge_ok (b\<lparr>b_active := m1 @ (i, p\<lparr>p_shown := True\<rparr>) # m2\<rparr>)"
    using ok m by (auto simp: bridge_ok_def r account_of_def) (auto simp: routed_def account_of_def)
  moreover have "unanswered n (m1 @ (i, p\<lparr>p_shown := True\<rparr>) # m2)
      + one_if (notification_id (p_offer p) = n) = unanswered n (b_active b)"
    unfolding m using u by (simp add: unanswered_def one_if_def)
  ultimately show "within n (k - one_if (notification_id (p_offer p) = n))
      (b\<lparr>b_active := AList.update i (p\<lparr>p_shown := True\<rparr>) (b_active b)\<rparr>)"
    "one_if (notification_id (p_offer p) = n) \<le> k"
    using w unfolding m' by (auto simp: within_def receipts_def)
qed

lemma settle_within:
  assumes "within n k b"
    and "\<And>p. map_of (b_active b) i = Some p \<Longrightarrow> Some (p_attempt p) = attempt
      \<Longrightarrow> post (within n k) (ended n k) (go p b)"
  shows "post (within n k) (ended n k) (settle i attempt go b)"
  using assms by (auto simp: settle_def split: option.splits)

lemma within_fields [simp]:
  "within n k (b\<lparr>b_permission := q\<rparr>) = within n k b"
  "within n k (b\<lparr>b_permission_pending := r\<rparr>) = within n k b"
  "within n k (b\<lparr>b_permission_at := t\<rparr>) = within n k b"
  "within n k (b\<lparr>b_heartbeat_at := t\<rparr>) = within n k b"
  "within n k (b\<lparr>b_activated := xs\<rparr>) = within n k b"
  "within n k (b\<lparr>b_restart_native := r\<rparr>) = within n k b"
  "within n k (b\<lparr>b_reset_acknowledge := r\<rparr>) = within n k b"
  "within n k (b\<lparr>b_native := c\<rparr>) = within n k b"
  by (rule within_cong; simp)+

lemma observation_within:
  assumes w: "within n k b"
  shows "post (within n k) (ended n k) (observation now ev b)"
proof (cases ev)
  case (PermissionEvent s)
  with w show ?thesis by (auto simp: observation_def intro!: status_changed_within)
next
  case (Shown i attempt)
  have "post (within n k) (ended n k) (if \<not> p_shown p \<and> now < p_deadline p
       then action (receipt_json (p_offer p) ''shown'')
              (b\<lparr>b_active := AList.update i (p\<lparr>p_shown := True\<rparr>) (b_active b)\<rparr>)
       else (True, b))" if p: "map_of (b_active b) i = Some p" for p
  proof (cases "\<not> p_shown p \<and> now < p_deadline p")
    case True
    note m = mark_shown_within[OF w p]
    from receipt_within[OF m(1), of "p_offer p" "''shown''"] m(2) True show ?thesis
      by (simp add: receipt_def)
  qed (use w in auto)
  with Shown w show ?thesis by (auto simp: observation_def intro!: settle_within)
next
  case (Activated i attempt act)
  have "within n k (drop_active i (case b_connection b of None \<Rightarrow> b
      | Some con \<Rightarrow> b\<lparr>b_activated := xs con\<rparr>))" if "map_of (b_active b) i = Some p" for p xs
  proof (cases "b_connection b")
    case None
    with drop_within(1)[OF w that] show ?thesis by (simp add: within_mono)
  next
    case (Some con)
    have "within n k (b\<lparr>b_activated := xs con\<rparr>)" using w by simp
    from drop_within(1)[OF this, of i p] that Some show ?thesis by (simp add: within_mono)
  qed
  with Activated w show ?thesis
    by (auto simp: observation_def intro!: settle_within)
next
  case (Failed i attempt msg)
  show ?thesis
  proof (cases i)
    case None
    with Failed failed_within[OF w] show ?thesis by (simp add: observation_def)
  next
    case (Some j)
    show ?thesis
      unfolding Failed Some observation_def event.simps option.case
      by (rule settle_within[OF w], rule post_and_then, rule remove_unshown_within[OF w])
        (auto intro!: status_changed_within)
  qed
qed (use w remove_unshown_within in \<open>auto simp: observation_def intro!: settle_within\<close>)

lemma expire_within:
  assumes "within n k b"
    and "\<And>i p. (i, p) \<in> set m \<Longrightarrow> map_of (b_active b) i = Some p \<and> \<not> p_shown p" and "wf_map m"
  shows "post (within n k) (ended n k) (expire now m b)"
  using assms
proof (induction m arbitrary: b)
  case (Cons ip m)
  obtain i p where ip: "ip = (i, p)" by force
  have p: "map_of (b_active b) i = Some p" "\<not> p_shown p" using Cons.prems(2) ip by auto
  let ?b = "drop_active i b"
  have w1: "within n (k - one_if (notification_id (p_offer p) = n)) ?b"
    and d: "one_if (notification_id (p_offer p) = n) \<le> k"
    using drop_within[OF Cons.prems(1) p(1)] p(2) by simp_all
  have r: "post (\<lambda>b'. within n k b' \<and> same_core ?b b') (ended n k) (receipt (p_offer p) ''failed'' ?b)"
    using receipt_within[OF w1, of "p_offer p" "''failed''"] d
      receipt_outcome[of ?b n "p_offer p" "''failed''"]
    by (cases "receipt (p_offer p) ''failed'' ?b"; cases "fst (receipt (p_offer p) ''failed'' ?b)")
      (auto simp: post_def)
  have "post (within n k) (ended n k) (and_then (receipt (p_offer p) ''failed'')
      (\<lambda>b. case native (Withdraw i) b of
         (True, b) \<Rightarrow> expire now m b | (False, b) \<Rightarrow> failed now b) ?b)"
  proof (rule post_and_then, rule r)
    fix b' assume b': "within n k b' \<and> same_core ?b b'"
    show "post (within n k) (ended n k) (case native (Withdraw i) b' of
        (True, b) \<Rightarrow> expire now m b | (False, b) \<Rightarrow> failed now b)"
    proof (rule native_then)
      fix b2 assume b2: "within n k b2" "same_core b' b2"
      have "map_of (b_active b2) j = Some q \<and> \<not> p_shown q" if "(j, q) \<in> set m" for j q
      proof -
        have "j \<noteq> i" using Cons.prems(3) that ip by force
        with that b' b2(2) Cons.prems(2)[of j q] show ?thesis
          by (simp add: same_core_def delete_conv' del: map_of_eq_Some_iff)
      qed
      with b2(1) Cons.prems(3) show "post (within n k) (ended n k) (expire now m b2)"
        by (intro Cons.IH) auto
    qed (use b' in \<open>auto intro: failed_within\<close>)
  qed
  then show ?case by (simp add: ip and_then_def modify_def)
qed simp

lemma tick_within:
  assumes w: "within n k b"
  shows "post (within n k) (ended n k) (tick now b)"
proof -
  have ok: "bridge_ok b" using w by (simp add: within_def)
  let ?b = "b\<lparr>b_seen := filter (\<lambda>(_, until). now < until) (b_seen b)\<rparr>"
  have r: "routed ?b = routed b" by (auto simp: routed_def account_of_def fun_eq_iff)
  have "bridge_ok ?b"
    using ok by (auto simp: bridge_ok_def r account_of_def intro: le_trans[OF length_filter_le])
  then have w1: "within n k ?b" using w by (simp add: within_def receipts_def)
  let ?exp = "filter (\<lambda>(_, p). \<not> p_shown p \<and> p_deadline p \<le> now) (b_active ?b)"
  have e: "post (within n k) (ended n k) (expire now ?exp ?b)"
    using ok by (intro expire_within[OF w1]) (auto simp: bridge_ok_def)
  show ?thesis
    unfolding tick_def Let_def
  proof (rule post_and_then, rule e)
    fix b' assume w': "within n k b'"
    let ?v = "b'\<lparr>b_views := filter (\<lambda>(_, v). now < v_until v) (b_views b')\<rparr>"
    have ok': "bridge_ok b'" using w' by (simp add: within_def)
    have "within n k ?v"
      using ok' by (intro within_views[OF w'])
        (auto simp: bridge_ok_def intro: le_trans[OF length_filter_le])
    then have h: "post (within n k) (ended n k) (for_each
       (map (\<lambda>(_, v). v_chat v) (filter (\<lambda>(_, v). v_until v \<le> now) (b_views b'))) hide_gone ?v)"
      by (intro post_for_each hide_gone_within)
    show "post (within n k) (ended n k) (and_then (for_each
       (map (\<lambda>(_, v). v_chat v) (filter (\<lambda>(_, v). v_until v \<le> now) (b_views b'))) hide_gone)
       (and_then (\<lambda>b. if b_heartbeat_at b \<le> now then status_changed now b else (True, b))
         (\<lambda>b. (True, if b_connection b \<noteq> None \<and> b_permission_at b \<le> now
                     then ask_permission False now b else b))) ?v)"
      by (rule post_and_then, rule h, rule post_and_then[where P = "within n k"])
        (auto intro: status_changed_within)
  qed
qed

end
