(* ===== verification/DeliveryActor.thy ===== *)
theory DeliveryActor
  imports DeliveryFacts
begin

text \<open>
  The task that owns the notification bridge (\<open>spawn_with_activation\<close> and \<open>Bridge::run\<close> in
  \<open>src/src/notification_delivery.rs\<close>), as a state machine: it reports its status, then handles
  one stimulus at a time, and restarts the native helper when asked to or after an error.
  What a step finds outside (the instant, the fresh helper's channel, whether the consumer
  took an awaited message within its five seconds) is in \<open>moment\<close>. The lemmas lift the
  operations' contracts to whole runs.
\<close>

datatype stimulus =
    Cmd input
  | InputsClosed
  | Obs event
  | HelperGone
  | Ticked
  | Drained nat nat
  | Proceed

datatype phase = Starting | Running | Ended

record moment =
  at :: instant
  fresh_helper :: "command chan option"
  consumed :: bool

record actor =
  a_bridge :: bridge
  a_phase :: phase

text \<open>The consumers of the two channels make room again.\<close>

definition drained :: "nat \<Rightarrow> nat \<Rightarrow> bridge \<Rightarrow> bridge" where
  "drained k j b = b\<lparr>b_output := (b_output b)\<lparr>room := room (b_output b) + k\<rparr>,
     b_native := map_option (\<lambda>c. c\<lparr>room := room c + j\<rparr>) (b_native b)\<rparr>"

definition handle :: "delivery_libs \<Rightarrow> instant \<Rightarrow> stimulus \<Rightarrow> op" where
  "handle L now s = (case s of
     Cmd c \<Rightarrow> command_step L now c
   | Obs ev \<Rightarrow> observation now ev
   | HelperGone \<Rightarrow> and_then (failed now) (modify (\<lambda>b. b\<lparr>b_native := None\<rparr>))
   | Ticked \<Rightarrow> tick now
   | Drained k j \<Rightarrow> modify (drained k j)
   | _ \<Rightarrow> ok)"

text \<open>A message the task waits to hand over, for at most five seconds.\<close>

definition send_wait :: "bool \<Rightarrow> bridge_out \<Rightarrow> op" where
  "send_wait taken x b =
     (if taken then (True, b\<lparr>b_output := (b_output b)\<lparr>sent := sent (b_output b) @ [x],
                                 room := room (b_output b) - 1\<rparr>\<rparr>)
      else (False, b))"

definition restart_helper :: "moment \<Rightarrow> op" where
  "restart_helper m b0 =
     (let b = b0\<lparr>b_native := fresh_helper m, b_restart_native := False,
                 b_permission := Unavailable, b_permission_pending := False\<rparr>
      in and_then
        (if b_reset_acknowledge b
         then and_then (modify (\<lambda>b. b\<lparr>b_reset_acknowledge := False\<rparr>)) (send_wait (consumed m) ResetOut)
         else ok)
        (modify (\<lambda>b. if b_connection b \<noteq> None \<and> b_permission_at b \<le> at m
                     then ask_permission False (at m) b else b)) b)"

definition end_actor :: "bridge \<Rightarrow> actor" where
  "end_actor b = \<lparr>a_bridge = clear b, a_phase = Ended\<rparr>"

definition after_restart :: "bool \<times> bridge \<Rightarrow> actor" where
  "after_restart r = (case r of
     (True, b) \<Rightarrow> \<lparr>a_bridge = b, a_phase = Starting\<rparr>
   | (False, b) \<Rightarrow> end_actor b)"

text \<open>An error: the routing is cleared, and the consumer is told before the helper restarts.\<close>

definition recover :: "moment \<Rightarrow> bridge \<Rightarrow> actor" where
  "recover m b =
     (let notice = (case b_connection b of
                      None \<Rightarrow> StatusOut default_status
                    | Some con \<Rightarrow> Disconnected (con_generation con))
      in after_restart (and_then (send_wait (consumed m) notice) (restart_helper m) (clear b)))"

definition finish_step :: "moment \<Rightarrow> bool \<times> bridge \<Rightarrow> actor" where
  "finish_step m r = (case r of
     (True, b) \<Rightarrow> if b_restart_native b then after_restart (restart_helper m b)
                  else \<lparr>a_bridge = b, a_phase = Running\<rparr>
   | (False, b) \<Rightarrow> recover m b)"

definition actor_step :: "delivery_libs \<Rightarrow> actor \<Rightarrow> moment \<times> stimulus \<Rightarrow> actor" where
  "actor_step L a ms = (case ms of (m, s) \<Rightarrow>
     (case a_phase a of
        Ended \<Rightarrow> a
      | Starting \<Rightarrow> finish_step m (emit (StatusOut (status_of (a_bridge a))) (a_bridge a))
      | Running \<Rightarrow>
          if s = InputsClosed then end_actor (a_bridge a)
          else finish_step m (handle L (at m) s (a_bridge a))))"

definition actor_new :: "command chan option \<Rightarrow> bridge_out chan \<Rightarrow> instant \<Rightarrow> actor" where
  "actor_new helper out now = \<lparr>a_bridge = bridge_new helper out now, a_phase = Starting\<rparr>"

section \<open>The invariant over runs\<close>

definition offered :: "delivery_libs \<Rightarrow> string \<Rightarrow> moment \<times> stimulus \<Rightarrow> nat" where
  "offered L n ms = (case snd ms of
     Cmd (Server _ ev) \<Rightarrow> (case read_event L ev of Some e \<Rightarrow> offers n e | None \<Rightarrow> 0)
   | _ \<Rightarrow> 0)"

lemma handle_within:
  assumes w: "within n k b"
  shows "post (within n (k + offered L n (m, s))) (ended n (k + offered L n (m, s)))
    (handle L now s b)"
proof (cases s)
  case (Cmd c)
  then show ?thesis
    using command_step_within[OF w, where c = c and L = L and now = now]
    by (cases c) (simp_all add: handle_def offered_def)
next
  case HelperGone
  have "post (within n k) (ended n k) (and_then (failed now) (modify (\<lambda>b. b\<lparr>b_native := None\<rparr>)) b)"
    by (rule post_and_then, rule failed_within[OF w]) simp
  with HelperGone show ?thesis by (simp add: handle_def offered_def)
next
  case (Drained i j)
  have "bridge_ok (drained i j b) = bridge_ok b"
    by (rule bridge_ok_cong) (simp_all add: drained_def)
  then have "within n k (drained i j b)"
    using w by (simp add: within_def receipts_def drained_def)
  with Drained show ?thesis by (simp add: handle_def offered_def)
qed (use w observation_within tick_within in \<open>simp_all add: handle_def offered_def\<close>)

lemma send_wait_within:
  assumes "within n k b" and "\<not> is_receipt n x"
  shows "post (within n k) (ended n k) (send_wait taken x b)"
proof -
  let ?b = "b\<lparr>b_output := (b_output b)\<lparr>sent := sent (b_output b) @ [x],
    room := room (b_output b) - 1\<rparr>\<rparr>"
  have "bridge_ok ?b = bridge_ok b" by (rule bridge_ok_cong) simp_all
  with assms have "within n k ?b" by (simp add: within_def receipts_def)
  with assms show ?thesis by (auto simp: send_wait_def intro: within_ended)
qed

lemma restart_within: "within n k b \<Longrightarrow> post (within n k) (ended n k) (restart_helper m b)"
  unfolding restart_helper_def Let_def
  by (rule post_and_then[where P = "within n k"])
    (auto intro!: post_and_then[where P = "within n k"] send_wait_within)

lemma after_restart_within:
  "post (within n k) (ended n k) r \<Longrightarrow> within n k (a_bridge (after_restart r))"
  by (auto simp: after_restart_def end_actor_def post_def within_clear
      split: prod.splits bool.splits)

lemma recover_within: "ended n k b \<Longrightarrow> within n k (a_bridge (recover m b))"
  unfolding recover_def Let_def
  by (intro after_restart_within post_and_then[where P = "within n k"] send_wait_within
      restart_within within_clear)
    (auto split: option.splits)

lemma finish_within:
  "post (within n k) (ended n k) r \<Longrightarrow> within n k (a_bridge (finish_step m r))"
  by (auto simp: finish_step_def recover_within after_restart_within[OF restart_within] post_def
      split: prod.splits bool.splits)

lemma actor_step_within:
  assumes w: "within n k (a_bridge a)"
  shows "within n (k + offered L n ms) (a_bridge (actor_step L a ms))"
proof -
  obtain m s where ms: "ms = (m, s)" by force
  have up: "within n (k + offered L n ms) (a_bridge a)" using w by (rule within_mono) simp
  show ?thesis
  proof (cases "a_phase a")
    case Starting
    have "post (within n (k + offered L n ms)) (ended n (k + offered L n ms))
        (emit (StatusOut (status_of (a_bridge a))) (a_bridge a))"
      using emit_within[OF up, of "StatusOut (status_of (a_bridge a))"] by (simp add: one_if_def)
    from finish_within[OF this] Starting show ?thesis by (simp add: actor_step_def ms)
  next
    case Running
    from finish_within[OF handle_within[OF w, where L = L and m = m and s = s]]
      within_clear[OF within_ended[OF up]] Running
    show ?thesis by (auto simp: actor_step_def ms end_actor_def)
  next
    case Ended
    with up show ?thesis by (simp add: actor_step_def ms)
  qed
qed

lemma actor_run_within:
  "within n k (a_bridge a) \<Longrightarrow>
   within n (k + sum_list (map (offered L n) xs)) (a_bridge (foldl (actor_step L) a xs))"
proof (induction xs arbitrary: a k)
  case (Cons x xs)
  from Cons.IH[OF actor_step_within[OF Cons.prems, of L x]] show ?case
    by (simp add: add.assoc)
qed simp

lemma bridge_ok_new: "bridge_ok (bridge_new helper out now)"
  by (simp add: bridge_ok_def bridge_new_def)

interpretation delivery: invariant_system "actor_step L" "\<lambda>a::actor. bridge_ok (a_bridge a)" for L
proof
  fix a :: actor and ms assume "bridge_ok (a_bridge a)"
  then have "within [] (receipts [] (a_bridge a) + unanswered [] (b_active (a_bridge a))) (a_bridge a)"
    by (simp add: within_def)
  from actor_step_within[OF this, of L ms] show "bridge_ok (a_bridge (actor_step L a ms))"
    by (simp add: within_def)
qed

end
