(* ===== verification/DeliveryReceipts.thy ===== *)
theory DeliveryReceipts
  imports DeliveryActor
begin

text \<open>
  What the notification bridge may say, step by step: it speaks only for the connection that
  is attached, and says that a notification was shown only when the helper has just reported
  the very attempt that is current, unanswered and in time. Then the properties of the
  notification delivery.
\<close>

fun says_shown :: "bridge_out \<Rightarrow> bool" where
  "says_shown (Action _ d) = (as_str (index d ''status'') = Some ''shown'')"
| "says_shown _ = False"

fun speaks_for :: "nat option \<Rightarrow> bridge_out \<Rightarrow> bool" where
  "speaks_for g (Action h _) = (Some h = g)"
| "speaks_for g _ = True"

definition generation_of :: "bridge \<Rightarrow> nat option" where
  "generation_of b = map_option con_generation (b_connection b)"

definition quiet :: "bridge_out list \<Rightarrow> nat option \<Rightarrow> bridge \<Rightarrow> bool" where
  "quiet xs g b \<longleftrightarrow>
     (\<exists>ys. sent (b_output b) = xs @ ys
        \<and> list_all (\<lambda>x. speaks_for g x \<and> \<not> says_shown x) ys)
     \<and> generation_of b \<in> {None, g}"

lemma quiet_start: "quiet (sent (b_output b)) (generation_of b) b"
  by (simp add: quiet_def)

lemma quiet_cong:
  assumes "b_connection b = b_connection b'" and "b_output b = b_output b'"
  shows "quiet xs g b = quiet xs g b'"
  using assms by (simp add: quiet_def generation_of_def)

lemma quiet_fields [simp]:
  "quiet xs g (b\<lparr>b_permission := q\<rparr>) = quiet xs g b"
  "quiet xs g (b\<lparr>b_permission_pending := r\<rparr>) = quiet xs g b"
  "quiet xs g (b\<lparr>b_permission_at := t\<rparr>) = quiet xs g b"
  "quiet xs g (b\<lparr>b_heartbeat_at := t\<rparr>) = quiet xs g b"
  "quiet xs g (b\<lparr>b_activated := as\<rparr>) = quiet xs g b"
  "quiet xs g (b\<lparr>b_restart_native := r\<rparr>) = quiet xs g b"
  "quiet xs g (b\<lparr>b_reset_acknowledge := r\<rparr>) = quiet xs g b"
  "quiet xs g (b\<lparr>b_native := c\<rparr>) = quiet xs g b"
  "quiet xs g (b\<lparr>b_active := m\<rparr>) = quiet xs g b"
  "quiet xs g (b\<lparr>b_seen := m'\<rparr>) = quiet xs g b"
  "quiet xs g (b\<lparr>b_views := m''\<rparr>) = quiet xs g b"
  "quiet xs g (b\<lparr>b_attempt := k\<rparr>) = quiet xs g b"
  "quiet xs g (drop_active i b) = quiet xs g b"
  "quiet xs g (ask_permission request now b) = quiet xs g b"
  "quiet xs g (snd (native c' b)) = quiet xs g b"
  "quiet xs g (foldl (\<lambda>b (i, _). snd (native (Withdraw i) b)) b ms) = quiet xs g b"
  by (rule quiet_cong; simp)+

lemma quiet_clear: "quiet xs g b \<Longrightarrow> quiet xs g (clear b)"
  by (simp add: quiet_def generation_of_def)

lemma quiet_native_then:
  assumes "quiet xs g b"
    and "\<And>b'. quiet xs g b' \<Longrightarrow> post Q E (go b')" and "\<And>b'. quiet xs g b' \<Longrightarrow> post Q E (h b')"
  shows "post Q E (case native c b of (True, b) \<Rightarrow> go b | (False, b) \<Rightarrow> h b)"
proof (cases "native c b")
  case (Pair r b')
  have "quiet xs g b'" using quiet_fields(15)[of xs g c b] assms(1) Pair by simp
  with Pair assms(2,3) show ?thesis by (cases r) auto
qed

lemma quiet_emit:
  assumes "quiet xs g b" and "speaks_for g x" and "\<not> says_shown x"
  shows "post (quiet xs g) (quiet xs g) (emit x b)"
proof -
  obtain ys where ys: "sent (b_output b) = xs @ ys"
    "list_all (\<lambda>x. speaks_for g x \<and> \<not> says_shown x) ys"
    using assms(1) by (auto simp: quiet_def)
  have "quiet xs g (snd (emit x b))"
    using assms ys by (auto simp: quiet_def generation_of_def emit_def try_send_def Let_def)
  then show ?thesis by (cases "emit x b"; cases "fst (emit x b)") (simp_all add: post_def)
qed

lemma quiet_action:
  assumes "quiet xs g b" and "as_str (index d ''status'') \<noteq> Some ''shown''"
  shows "post (quiet xs g) (quiet xs g) (action d b)"
proof (cases "b_connection b")
  case None
  with assms show ?thesis by (simp add: action_def)
next
  case (Some con)
  then have "Some (con_generation con) = g"
    using assms(1) by (auto simp: quiet_def generation_of_def)
  with Some assms show ?thesis by (auto simp: action_def intro!: quiet_emit)
qed

lemma quiet_receipt: "quiet xs g b \<Longrightarrow> post (quiet xs g) (quiet xs g) (receipt x ''failed'' b)"
  unfolding receipt_def by (rule quiet_action) (simp_all add: receipt_json_def json_simps)

lemma quiet_heartbeat: "as_str (index (heartbeat_json a) ''status'') \<noteq> Some ''shown''"
  "as_str (index (view_json c v) ''status'') \<noteq> Some ''shown''"
  by (simp_all add: heartbeat_json_def view_json_def json_simps)

lemma quiet_status_changed:
  "quiet xs g b \<Longrightarrow> post (quiet xs g) (quiet xs g) (status_changed now b)"
  unfolding status_changed_def Let_def
  by (rule post_and_then[where P = "quiet xs g"])
    (auto intro!: quiet_emit quiet_action quiet_heartbeat)

lemma quiet_failed: "quiet xs g b \<Longrightarrow> post (quiet xs g) (quiet xs g) (failed now b)"
  unfolding failed_def Let_def
  by (rule post_and_then[where P = "quiet xs g"])
    (auto intro!: post_for_each quiet_receipt quiet_status_changed)

lemma quiet_receipt_failed:
  "quiet xs g b \<Longrightarrow> post (quiet xs g) (quiet xs g) (and_then (receipt x ''failed'') (failed now) b)"
  by (rule post_and_then[where P = "quiet xs g"]) (auto intro: quiet_receipt quiet_failed)

lemma quiet_retire:
  assumes "quiet xs g b" and "\<And>b'. quiet xs g b' \<Longrightarrow> post (quiet xs g) (quiet xs g) (go b')"
  shows "post (quiet xs g) (quiet xs g) (retire now x i p go b)"
  unfolding retire_def
  by (rule post_and_then[where P = "quiet xs g"], use assms(1) in simp,
      rule post_and_then[where P = "quiet xs g"])
    (auto intro: quiet_receipt quiet_native_then quiet_receipt_failed assms(2))

lemma quiet_show_now:
  "quiet xs g b \<Longrightarrow> post (quiet xs g) (quiet xs g) (show_now now x remaining b)"
  unfolding show_now_def Let_def
proof (cases "native (Show (offer_key x) (Some (b_attempt b + 1)) (offer_title x)
    (Some (offer_body x))) (b\<lparr>b_attempt := b_attempt b + 1\<rparr>)")
  case (Pair r b')
  assume q: "quiet xs g b"
  then have "quiet xs g (snd (native (Show (offer_key x) (Some (b_attempt b + 1)) (offer_title x)
    (Some (offer_body x))) (b\<lparr>b_attempt := b_attempt b + 1\<rparr>)))" by simp
  then have "quiet xs g b'" unfolding Pair by simp
  with q Pair show "post (quiet xs g) (quiet xs g) (if u64_max \<le> b_attempt b
     then receipt x ''failed'' b
     else case native (Show (offer_key x) (Some (b_attempt b + 1)) (offer_title x)
              (Some (offer_body x))) (b\<lparr>b_attempt := b_attempt b + 1\<rparr>) of
       (True, ba) \<Rightarrow> (True, ba\<lparr>b_active := AList.update (offer_key x)
           \<lparr>p_offer = x, p_attempt = b_attempt b + 1, p_deadline = now + remaining,
              p_shown = False\<rparr> (b_active ba)\<rparr>)
     | (False, b) \<Rightarrow> and_then (receipt x ''failed'') (failed now) b)"
    by (cases r) (auto intro: quiet_receipt quiet_receipt_failed)
qed

lemma quiet_show_offer:
  "quiet xs g b \<Longrightarrow> post (quiet xs g) (quiet xs g) (show_offer L now x b)"
proof -
  have room: "post (quiet xs g) (quiet xs g) (show_room now x d b')" if "quiet xs g b'" for b' d
    using that unfolding show_room_def
    by (auto intro: quiet_receipt quiet_show_now quiet_retire split: option.splits)
  assume "quiet xs g b"
  then show ?thesis
    unfolding show_offer_def Let_def
    by (auto intro!: quiet_receipt room quiet_retire split: option.splits)
qed

lemma quiet_server:
  assumes "quiet xs g b"
  shows "post (quiet xs g) (quiet xs g) (server_step L now ev b)"
proof (cases ev)
  case (ReadyEvent a d h t)
  show ?thesis
  proof (cases "b_connection b")
    case (Some con)
    have "quiet xs g (b\<lparr>b_connection := Some (con\<lparr>con_account := Some a\<rparr>)\<rparr>)"
      using assms Some by (simp add: quiet_def generation_of_def)
    with ReadyEvent Some assms show ?thesis
      by (simp add: server_step_def quiet_status_changed quiet_clear)
  qed (use ReadyEvent assms in \<open>simp add: server_step_def\<close>)
next
  case (WithdrawEvent i token)
  then show ?thesis
    using assms by (auto simp: server_step_def intro!: quiet_native_then quiet_failed
        split: option.splits)
qed (use assms in \<open>auto simp: server_step_def intro!: quiet_show_offer quiet_status_changed
      quiet_clear\<close>)

lemma quiet_hide: "quiet xs g b \<Longrightarrow> post (quiet xs g) (quiet xs g) (hide_gone c b)"
  by (auto simp: hide_gone_def intro!: quiet_action quiet_heartbeat)

lemma quiet_view: "quiet xs g b \<Longrightarrow> post (quiet xs g) (quiet xs g) (view_step now s a c v b)"
  unfolding view_step_def Let_def
  by (auto intro!: post_and_then[where P = "quiet xs g"] quiet_action quiet_heartbeat quiet_hide
      split: option.splits)

lemma quiet_expire: "quiet xs g b \<Longrightarrow> post (quiet xs g) (quiet xs g) (expire now m b)"
proof (induction m arbitrary: b)
  case (Cons ip m)
  obtain i p where "ip = (i, p)" by force
  with Cons show ?case
    by (auto intro!: post_and_then[where P = "quiet xs g"] quiet_receipt quiet_native_then
        quiet_failed)
qed simp

lemma quiet_tick: "quiet xs g b \<Longrightarrow> post (quiet xs g) (quiet xs g) (tick now b)"
  unfolding tick_def Let_def
  by (auto intro!: post_and_then[where P = "quiet xs g"] post_for_each quiet_expire quiet_hide
      quiet_status_changed)

section \<open>One step of the task\<close>

definition spoke :: "bridge_out list \<Rightarrow> nat option \<Rightarrow> bridge \<Rightarrow> bool" where
  "spoke xs g b \<longleftrightarrow> (\<exists>ys. sent (b_output b) = xs @ ys
     \<and> list_all (\<lambda>x. speaks_for g x \<and> \<not> says_shown x) ys)"

lemma quiet_spoke: "quiet xs g b \<Longrightarrow> spoke xs g b"
  by (auto simp: quiet_def spoke_def)

lemma spoke_cong: "b_output b = b_output b' \<Longrightarrow> spoke xs g b = spoke xs g b'"
  by (simp add: spoke_def)

lemma post_spoke: "post (quiet xs g) (quiet xs g) r \<Longrightarrow> post (spoke xs g) (spoke xs g) r"
  by (erule post_mono) (auto intro: quiet_spoke)

lemma spoke_command:
  assumes "quiet xs g b"
  shows "post (spoke xs g) (spoke xs g) (command_step L now c b)"
proof (cases c)
  case (Attach h server device)
  have "b_output (snd (command_step L now c b)) = b_output b"
    by (auto simp: Attach command_step_def Let_def split: option.splits)
  moreover have "fst (command_step L now c b)"
    by (simp add: Attach command_step_def Let_def)
  ultimately show ?thesis
    using quiet_spoke[OF assms]
    by (cases "command_step L now c b") (simp add: post_def spoke_def)
next
  case (Server h ev)
  with assms quiet_spoke[OF assms] quiet_spoke[OF quiet_clear[OF assms]]
    post_spoke[OF quiet_server[OF assms]] show ?thesis
    by (simp add: command_step_def split: option.split)
next
  case (ViewInput session account chat visible)
  with post_spoke[OF quiet_view[OF assms]] show ?thesis by (simp add: command_step_def)
next
  case Reset
  with quiet_spoke[OF quiet_clear[OF assms]] show ?thesis
    by (simp add: command_step_def spoke_def)
qed (use quiet_spoke[OF assms] quiet_spoke[OF quiet_clear[OF assms]] in
    \<open>simp_all add: command_step_def spoke_def\<close>)

lemma quiet_settle:
  assumes "quiet xs g b" and "\<And>p. quiet xs g b \<Longrightarrow> post (quiet xs g) (quiet xs g) (go p b)"
  shows "post (quiet xs g) (quiet xs g) (settle i attempt go b)"
  using assms by (auto simp: settle_def split: option.splits)

lemma quiet_remove: "quiet xs g b \<Longrightarrow> post (quiet xs g) (quiet xs g) (remove_unshown i p b)"
  unfolding remove_unshown_def
  by (auto intro!: post_and_then[where P = "quiet xs g"] quiet_receipt)

lemma quiet_observation:
  assumes "quiet xs g b" and "\<nexists>i attempt. ev = Shown i attempt"
  shows "post (quiet xs g) (quiet xs g) (observation now ev b)"
proof (cases ev)
  case (Failed i attempt msg)
  show ?thesis
  proof (cases i)
    case None
    with Failed assms(1) show ?thesis by (simp add: observation_def quiet_failed)
  next
    case (Some j)
    show ?thesis
      unfolding Failed Some observation_def event.simps option.case
      by (rule quiet_settle[OF assms(1)], rule post_and_then[where P = "quiet xs g"])
        (auto intro: quiet_remove quiet_status_changed)
  qed
qed (use assms in \<open>auto simp: observation_def intro!: quiet_settle quiet_remove
      quiet_status_changed split: option.splits\<close>)

lemma spoke_handle:
  assumes "quiet xs g b" and "\<nexists>i attempt. s = Obs (Shown i attempt)"
  shows "post (spoke xs g) (spoke xs g) (handle L now s b)"
proof (cases s)
  case (Cmd c)
  with spoke_command[OF assms(1)] show ?thesis by (simp add: handle_def)
next
  case (Obs ev)
  with assms quiet_observation[OF assms(1), of ev now] show ?thesis
    by (simp add: handle_def post_spoke)
next
  case HelperGone
  have "post (quiet xs g) (quiet xs g)
      (and_then (failed now) (modify (\<lambda>b. b\<lparr>b_native := None\<rparr>)) b)"
    by (rule post_and_then, rule quiet_failed[OF assms(1)]) simp
  with HelperGone show ?thesis by (simp add: handle_def post_spoke)
next
  case (Drained i j)
  with quiet_spoke[OF assms(1)] show ?thesis by (simp add: handle_def drained_def spoke_def)
qed (use assms(1) in \<open>auto simp: handle_def intro: post_spoke quiet_tick quiet_spoke\<close>)

fun is_action :: "bridge_out \<Rightarrow> bool" where
  "is_action (Action _ _) = True"
| "is_action _ = False"

text \<open>What is said outside the operations, around a restart, is never an action.\<close>

definition adds_notices :: "bridge_out list \<Rightarrow> bridge \<Rightarrow> bool" where
  "adds_notices xs b \<longleftrightarrow> (\<exists>ys. sent (b_output b) = xs @ ys \<and> list_all (\<lambda>x. \<not> is_action x) ys)"

lemma adds_send_wait: "adds_notices xs b \<Longrightarrow> \<not> is_action x \<Longrightarrow>
    post (adds_notices xs) (adds_notices xs) (send_wait t x b)"
  by (auto simp: adds_notices_def send_wait_def)

lemma adds_restart:
  "adds_notices xs b \<Longrightarrow> post (adds_notices xs) (adds_notices xs) (restart_helper m b)"
  unfolding restart_helper_def Let_def
  by (rule post_and_then[where P = "adds_notices xs"])
    (auto intro!: post_and_then[where P = "adds_notices xs"] adds_send_wait
      simp: adds_notices_def)

lemma adds_after: "post (adds_notices xs) (adds_notices xs) r
    \<Longrightarrow> adds_notices xs (a_bridge (after_restart r))"
  by (auto simp: after_restart_def end_actor_def post_def adds_notices_def
      split: prod.splits bool.splits)

lemma adds_finish: "adds_notices (sent (b_output (snd r))) (a_bridge (finish_step m r))"
proof -
  obtain t b where r: "r = (t, b)" by force
  have self: "adds_notices (sent (b_output b)) b" by (simp add: adds_notices_def)
  then have self': "adds_notices (sent (b_output b)) (clear b)" by (simp add: adds_notices_def)
  have "adds_notices (sent (b_output b)) (a_bridge (recover m b))"
    unfolding recover_def Let_def
    by (intro adds_after post_and_then[where P = "adds_notices (sent (b_output b))"]
        adds_send_wait adds_restart self') (auto split: option.splits)
  moreover have "adds_notices (sent (b_output b)) (a_bridge (after_restart (restart_helper m b)))"
    by (intro adds_after adds_restart self)
  ultimately show ?thesis using self r by (cases t) (simp_all add: finish_step_def)
qed

lemma finish_actions:
  assumes "Action h d \<in> set (drop (length xs) (sent (b_output (a_bridge (finish_step m r)))))"
    and "length xs \<le> length (sent (b_output (snd r)))"
  shows "Action h d \<in> set (drop (length xs) (sent (b_output (snd r))))"
proof -
  obtain ys where ys: "sent (b_output (a_bridge (finish_step m r))) = sent (b_output (snd r)) @ ys"
    "list_all (\<lambda>x. \<not> is_action x) ys"
    using adds_finish[of r m] by (auto simp: adds_notices_def)
  then have "Action h d \<notin> set ys" by (auto simp: list_all_iff dest: bspec)
  with ys(1) assms show ?thesis by auto
qed

lemma shown_observation:
  assumes "Action h d \<in> set (drop (length (sent (b_output b)))
      (sent (b_output (snd (observation now (Shown i attempt) b)))))"
  shows "generation_of b = Some h \<and> (\<exists>p. attempt = Some (p_attempt p)
     \<and> map_of (b_active b) i = Some p \<and> \<not> p_shown p \<and> now < p_deadline p
     \<and> d = receipt_json (p_offer p) ''shown'')"
  using assms
  by (auto simp: observation_def settle_def action_def emit_def try_send_def generation_of_def Let_def
      simp del: map_of_eq_Some_iff split: option.splits if_splits)

lemma sent_grows_handle:
  "length (sent (b_output b)) \<le> length (sent (b_output (snd (handle L now s b))))"
proof (cases "\<exists>i attempt. s = Obs (Shown i attempt)")
  case True
  then show ?thesis
    by (auto simp: handle_def observation_def settle_def action_def emit_def try_send_def Let_def
        split: option.splits)
next
  case False
  from spoke_handle[OF quiet_start False, where L = L and now = now and b = b]
  show ?thesis by (cases "handle L now s b"; cases "fst (handle L now s b)")
    (auto simp: post_def spoke_def)
qed

section \<open>Properties of notification delivery\<close>

text \<open>
  C28: over any run of the notification task, whatever arrives in whatever order, and however
  often the helper fails or is restarted, at most one receipt is sent for each offer received.
\<close>

theorem one_receipt_per_offer:
  "receipts n (a_bridge (foldl (actor_step L) (actor_new helper (channel k) now) xs))
     \<le> sum_list (map (offered L n) xs)"
proof -
  have "within n 0 (a_bridge (actor_new helper (channel k) now))"
    using bridge_ok_new[of helper "channel k" now]
    by (simp add: within_def actor_new_def receipts_def unanswered_def bridge_new_def channel_def)
  from actor_run_within[OF this, of L xs] show ?thesis by (simp add: within_def)
qed

text \<open>
  C29: over any run the bridge stays within its bounds, and every notification it keeps
  belongs to the account of the connection attached now.
\<close>

theorem delivery_stays_bounded:
  "let b = a_bridge (foldl (actor_step L) (actor_new helper (channel k) now) xs)
   in length (b_active b) \<le> 32 \<and> length (b_seen b) \<le> 256 \<and> length (b_views b) \<le> 32
      \<and> b_attempt b \<le> u64_max
      \<and> distinct (map (p_attempt \<circ> snd) (b_active b))
      \<and> list_all (\<lambda>(i, p). i = offer_key (p_offer p) \<and> valid_offer (p_offer p)
           \<and> Option.bind (b_connection b) con_account = Some (offer_account (p_offer p))) (b_active b)"
proof -
  have "bridge_ok (a_bridge (foldl (actor_step L) (actor_new helper (channel k) now) xs))"
    by (rule delivery.run_keeps) (simp add: actor_new_def bridge_ok_new)
  then show ?thesis
    by (auto simp: Let_def bridge_ok_def MAX_ACTIVE_def MAX_VIEWS_def routed_def account_of_def
        list_all_iff)
qed

text \<open>
  In every step, an action is only sent for the connection that was attached when the
  step began; and a receipt that says \<open>shown\<close> is only sent when the helper has just reported
  that very attempt, and it was the current one, not yet answered, and in time.
\<close>

theorem shown_means_accepted:
  assumes "sent (b_output (a_bridge (actor_step L a (m, s)))) = sent (b_output (a_bridge a)) @ ys"
    and "Action h d \<in> set ys"
  shows "map_option con_generation (b_connection (a_bridge a)) = Some h
    \<and> (if as_str (index d ''status'') = Some ''shown''
       then \<exists>i p. s = Obs (Shown i (Some (p_attempt p)))
              \<and> map_of (b_active (a_bridge a)) i = Some p
              \<and> \<not> p_shown p \<and> at m < p_deadline p \<and> d = receipt_json (p_offer p) ''shown''
       else True)"
proof -
  let ?b = "a_bridge a" and ?xs = "sent (b_output (a_bridge a))"
  have d: "Action h d \<in> set (drop (length ?xs) (sent (b_output (a_bridge (actor_step L a (m, s))))))"
    using assms by simp
  show ?thesis
  proof (cases "a_phase a")
    case Ended
    with d show ?thesis by (simp add: actor_step_def)
  next
    case Starting
    have "Action h d \<in> set (drop (length ?xs) (sent (b_output (snd (emit (StatusOut (status_of ?b)) ?b)))))"
      using d Starting by (intro finish_actions[where m = m])
        (auto simp: actor_step_def emit_def try_send_def Let_def)
    then show ?thesis by (auto simp: emit_def try_send_def Let_def split: if_splits)
  next
    case Running
    show ?thesis
    proof (cases "s = InputsClosed")
      case True
      with d Running show ?thesis by (simp add: actor_step_def end_actor_def)
    next
      case False
      have h: "Action h d \<in> set (drop (length ?xs) (sent (b_output (snd (handle L (at m) s ?b)))))"
        using d Running False sent_grows_handle
        by (intro finish_actions[where m = m]) (auto simp: actor_step_def)
      show ?thesis
      proof (cases "\<exists>i attempt. s = Obs (Shown i attempt)")
        case True
        then obtain i attempt where s: "s = Obs (Shown i attempt)" by blast
        from shown_observation[of h d ?b "at m" i attempt] h s show ?thesis
          by (auto simp: handle_def generation_of_def)
      next
        case no: False
        obtain zs where zs: "sent (b_output (snd (handle L (at m) s ?b))) = ?xs @ zs"
          "list_all (\<lambda>x. speaks_for (generation_of ?b) x \<and> \<not> says_shown x) zs"
          using spoke_handle[OF quiet_start no, where L = L and now = "at m" and b = ?b]
          by (cases "handle L (at m) s ?b"; cases "fst (handle L (at m) s ?b)")
            (auto simp: post_def spoke_def)
        with h have "speaks_for (generation_of ?b) (Action h d) \<and> \<not> says_shown (Action h d)"
          by (auto simp: list_all_iff simp del: speaks_for.simps says_shown.simps)
        then show ?thesis by (auto simp: generation_of_def)
      qed
    qed
  qed
qed

definition demo_offer :: offer where
  "demo_offer = \<lparr>notification_id = ''n'', delivery_token = ''t'', offer_account = ''1234567'',
     offer_chat = 4, offer_kind = ''answered'', offer_title = ''Ready'', offer_body = [],
     thread = ''chat-4'', expires_at = ''soon''\<rparr>"

definition demo_actor :: actor where
  "demo_actor = \<lparr>a_bridge = (bridge_new (Some (channel 4)) (channel 4) 0)
     \<lparr>b_connection := Some \<lparr>con_generation = 3, con_server = ''s'', con_device = 9,
        con_account = Some ''1234567''\<rparr>,
      b_active := [(''key'', \<lparr>p_offer = demo_offer, p_attempt = 1, p_deadline = 10,
        p_shown = False\<rparr>)]\<rparr>, a_phase = Running\<rparr>"

theorem shown_means_accepted_witness:
  "\<exists>i p. Obs (Shown ''key'' (Some 1)) = Obs (Shown i (Some (p_attempt p)))
     \<and> map_of (b_active (a_bridge demo_actor)) i = Some p \<and> \<not> p_shown p \<and> 5 < p_deadline p"
proof -
  let ?m = "\<lparr>at = 5, fresh_helper = None, consumed = True\<rparr>"
  let ?L = "\<lparr>parse_server = \<lambda>_. None, parse_rfc3339 = \<lambda>_. None, read_event = \<lambda>_. None,
     utc_now = 0\<rparr>"
  let ?d = "receipt_json demo_offer ''shown''"
  have out: "sent (b_output (a_bridge (actor_step ?L demo_actor (?m, Obs (Shown ''key'' (Some 1))))))
      = sent (b_output (a_bridge demo_actor)) @ [Action 3 ?d]"
    by (simp add: demo_actor_def actor_step_def handle_def observation_def settle_def action_def
        emit_def try_send_def channel_def bridge_new_def finish_step_def Let_def)
  have "as_str (index ?d ''status'') = Some ''shown''"
    by (simp add: receipt_json_def json_simps)
  with shown_means_accepted[OF out, of 3 ?d] show ?thesis by (auto simp del: map_of_eq_Some_iff)
qed

section \<open>The clock leaves nothing behind\<close>

definition fresh_core :: "instant \<Rightarrow> bridge \<Rightarrow> bool" where
  "fresh_core now b \<longleftrightarrow>
     list_all (\<lambda>(_, p). p_shown p \<or> now < p_deadline p) (b_active b)
     \<and> list_all (\<lambda>(_, until). now < until) (b_seen b)"

definition fresh_views :: "instant \<Rightarrow> bridge \<Rightarrow> bool" where
  "fresh_views now b \<longleftrightarrow> list_all (\<lambda>(_, v). now < v_until v) (b_views b)"

definition failing :: "instant \<Rightarrow> bridge \<Rightarrow> bool" where
  "failing now b \<longleftrightarrow> b_active b = [] \<and> list_all (\<lambda>(_, until). now < until) (b_seen b)"

lemma receipt_same: "post (same_core b) (\<lambda>_. True) (receipt x h b)"
  using receipt_outcome[of b "[]" x h] by (rule post_mono) auto

lemma status_changed_same: "post (\<lambda>b'. same_core b b') (\<lambda>_. True) (status_changed now b)"
  unfolding status_changed_def Let_def
proof (rule post_and_then[where P = "same_core b"])
  show "post (same_core b) (\<lambda>_. True) (emit (StatusOut (status_of b)) b)"
    using emit_keeps[of "StatusOut (status_of b)" b]
    by (cases "emit (StatusOut (status_of b)) b"; cases "fst (emit (StatusOut (status_of b)) b)")
      (simp_all add: post_def same_core_def)
next
  fix b' assume b': "same_core b b'"
  let ?b = "b'\<lparr>b_heartbeat_at := now + HEARTBEAT\<rparr>"
  show "post (same_core b) (\<lambda>_. True) (action (heartbeat_json (st_available (status_of ?b))) ?b)"
    using b' action_keeps[of "heartbeat_json (st_available (status_of ?b))" ?b]
    by (cases "action (heartbeat_json (st_available (status_of ?b))) ?b";
        cases "fst (action (heartbeat_json (st_available (status_of ?b))) ?b)")
      (simp_all add: post_def same_core_def)
qed

lemma failed_empties:
  "post (\<lambda>b'. b_active b' = [] \<and> b_seen b' = b_seen b \<and> b_views b' = b_views b) (\<lambda>_. True)
     (failed now b)"
  unfolding failed_def Let_def
proof (rule post_and_then)
  show "post (same_core b) (\<lambda>_. True) (for_each (b_active b)
      (\<lambda>(_, p). if p_shown p then ok else receipt (p_offer p) ''failed'') b)"
    by (rule post_mono[OF receipts_for_all[of b "[]"]]) auto
next
  fix b' assume "same_core b b'"
  then show "post (\<lambda>b'. b_active b' = [] \<and> b_seen b' = b_seen b \<and> b_views b' = b_views b)
      (\<lambda>_. True) (status_changed now
       (foldl (\<lambda>b (i, _). snd (native (Withdraw i) b)) b' (b_active b')
        \<lparr>b_active := [], b_permission := Unavailable, b_permission_pending := False,
           b_permission_at := now + secs 2, b_restart_native := True\<rparr>))"
    by (intro post_mono[OF status_changed_same]) (auto simp: same_core_def)
qed

lemma expire_removes:
  "post (\<lambda>b'. set (b_active b') \<subseteq> {(i, p). (i, p) \<in> set (b_active b) \<and> i \<notin> fst ` set m}
       \<and> b_seen b' = b_seen b) (\<lambda>_. True) (expire now m b)"
proof (induction m arbitrary: b)
  case (Cons ip m)
  obtain i p where ip: "ip = (i, p)" by force
  let ?Q = "\<lambda>b'. set (b_active b') \<subseteq> {(j, q). (j, q) \<in> set (b_active b) \<and> j \<notin> fst ` set (ip # m)}
       \<and> b_seen b' = b_seen b"
  have "post ?Q (\<lambda>_. True) (and_then (receipt (p_offer p) ''failed'')
      (\<lambda>b. case native (Withdraw i) b of
         (True, b) \<Rightarrow> expire now m b | (False, b) \<Rightarrow> failed now b) (drop_active i b))"
  proof (rule post_and_then, rule receipt_same)
    fix b1 assume b1: "same_core (drop_active i b) b1"
    obtain r b2 where n: "native (Withdraw i) b1 = (r, b2)" by force
    then have b2: "b_active b2 = AList.delete i (b_active b)" "b_seen b2 = b_seen b"
      using native_eqD[OF n] b1 by (simp_all add: same_core_def)
    show "post ?Q (\<lambda>_. True) (case native (Withdraw i) b1 of
        (True, b) \<Rightarrow> expire now m b | (False, b) \<Rightarrow> failed now b)"
    proof (cases r)
      case True
      have "post ?Q (\<lambda>_. True) (expire now m b2)"
        by (rule post_mono[OF Cons.IH[of b2]]) (auto simp: b2 ip in_set_delete_iff)
      with True n show ?thesis by simp
    next
      case False
      have "post ?Q (\<lambda>_. True) (failed now b2)"
        by (rule post_mono[OF failed_empties[of b2]]) (auto simp: b2)
      with False n show ?thesis by simp
    qed
  qed
  then show ?case by (simp add: ip and_then_def modify_def)
qed simp

text \<open>
  After a tick that succeeds nothing that has run out is left: every attempt still
  unanswered has time left, no view has outlived its 75 seconds without being renewed, and
  no notification is remembered past its minute.
\<close>

theorem tick_drops_what_expired:
  assumes "tick now b = (True, b')"
  shows "list_all (\<lambda>(_, p). p_shown p \<or> now < p_deadline p) (b_active b')
    \<and> list_all (\<lambda>(_, v). now < v_until v) (b_views b')
    \<and> list_all (\<lambda>(_, until). now < until) (b_seen b')"
proof -
  let ?done = "\<lambda>b. fresh_core now b \<and> fresh_views now b"
  have same: "?done b1 \<Longrightarrow> same_core b1 b2 \<Longrightarrow> ?done b2" for b1 b2
    by (simp add: fresh_core_def fresh_views_def same_core_def)
  have hide: "post ?done (\<lambda>_. True) (hide_gone c b1)" if "?done b1" for c b1
  proof -
    have "same_core b1 (snd (hide_gone c b1))" by (simp add: hide_gone_def same_core_def)
    from same[OF that this] show ?thesis
      by (cases "hide_gone c b1"; cases "fst (hide_gone c b1)") (simp_all add: post_def)
  qed
  have "post ?done (\<lambda>_. True) (tick now b)"
    unfolding tick_def Let_def
  proof (rule post_and_then, rule expire_removes, goal_cases)
    case (1 b1)
    then have core: "fresh_core now b1"
      by (fastforce simp: fresh_core_def list_all_iff image_iff)
    let ?v = "b1\<lparr>b_views := filter (\<lambda>(_, v). now < v_until v) (b_views b1)\<rparr>"
    have v: "?done ?v" using core by (auto simp: fresh_core_def fresh_views_def list_all_iff)
    show ?case
    proof (rule post_and_then[where P = ?done])
      show "post ?done (\<lambda>_. True) (for_each (map (\<lambda>(_, v). v_chat v)
          (filter (\<lambda>(_, v). v_until v \<le> now) (b_views b1))) hide_gone ?v)"
        by (rule post_for_each[where P = ?done], rule v, rule hide)
    next
      fix b2 assume b2: "?done b2"
      show "post ?done (\<lambda>_. True) (and_then
          (\<lambda>b. if b_heartbeat_at b \<le> now then status_changed now b else (True, b))
          (\<lambda>b. (True, if b_connection b \<noteq> None \<and> b_permission_at b \<le> now
                       then ask_permission False now b else b)) b2)"
      proof (rule post_and_then[where P = ?done])
        show "post ?done (\<lambda>_. True) (if b_heartbeat_at b2 \<le> now then status_changed now b2 else (True, b2))"
          using b2 post_mono[OF status_changed_same[of b2 now] same[OF b2]] by simp
      qed (simp add: fresh_core_def fresh_views_def)
    qed
  qed
  with assms show ?thesis by (simp add: post_def fresh_core_def fresh_views_def)
qed

theorem tick_drops_what_expired_witness:
  "b_active (snd (tick 20 (a_bridge demo_actor))) = []
   \<and> list_all (\<lambda>(_, p). p_shown p \<or> 20 < p_deadline p) (b_active (snd (tick 20 (a_bridge demo_actor))))"
proof -
  let ?r = "tick 20 (a_bridge demo_actor)"
  have e: "fst ?r \<and> b_active (snd ?r) = []"
    by (simp add: demo_actor_def tick_def and_then_def modify_def receipt_def action_def emit_def
        try_send_def channel_def bridge_new_def native_def drop_active_def status_changed_def ok_def
        ask_permission_def Let_def)
  then have "?r = (True, snd ?r)" by (simp add: prod_eq_iff)
  from tick_drops_what_expired[OF this] e show ?thesis by simp
qed

end
