(* ===== verification/Framing.thy ===== *)
theory Framing
  imports Json
begin

text \<open>
  \<open>src/src/tunnel/framing.rs\<close>: what a WebSocket text frame means, in the two framings the
  daemon speaks, and the frames it sends. \<open>decode\<close> sorts an inbound frame into a message for
  the MCP server, an update of a followed chat, of the chat list or of the notifications, or a
  control message. The lemmas characterise exactly which frames become MCP messages and which
  end a session, and show that what the server answers to a subscription is read back as being
  about that subscription.
\<close>

definition SUBPROTOCOL_ACTIONCABLE :: string where
  "SUBPROTOCOL_ACTIONCABLE = ''actioncable-v1-json''"

definition SUBPROTOCOL_MCP :: string where
  "SUBPROTOCOL_MCP = ''mcp''"

definition CHANNEL_IDENTIFIER :: string where
  "CHANNEL_IDENTIFIER = ''{\"channel\":\"Desktop::Channel\"}''"

definition CHAT_CHANNEL :: string where
  "CHAT_CHANNEL = ''Desktop::ChatChannel''"

definition CHATS_CHANNEL :: string where
  "CHATS_CHANNEL = ''Desktop::ChatsChannel''"

definition CHATS_IDENTIFIER :: string where
  "CHATS_IDENTIFIER = ''{\"channel\":\"Desktop::ChatsChannel\"}''"

definition NOTIFICATIONS_IDENTIFIER :: string where
  "NOTIFICATIONS_IDENTIFIER = ''{\"channel\":\"Desktop::NotificationsChannel\"}''"

datatype framing = ActionCable | McpFraming

datatype inbound =
    Mcp json
  | Welcome
  | Ping
  | Confirmed
  | Rejected
  | Chat string json
  | ChatConfirmed string
  | ChatRejected string
  | ChatList json
  | ChatListConfirmed
  | ChatListRejected
  | Notification json
  | NotificationsConfirmed
  | NotificationsRejected
  | Disconnect string bool
  | Ignored

definition for_protocol :: "string option \<Rightarrow> framing option" where
  "for_protocol selected = (case selected of
     None \<Rightarrow> Some ActionCable
   | Some p \<Rightarrow> if p = SUBPROTOCOL_ACTIONCABLE then Some ActionCable
               else if p = SUBPROTOCOL_MCP then Some McpFraming else None)"

text \<open>The objects the commands print, kept apart from their printing.\<close>

definition command_object :: "string \<Rightarrow> string \<Rightarrow> json" where
  "command_object command identifier =
     jobject [(''command'', JStr command), (''identifier'', JStr identifier)]"

definition chat_object :: "string \<Rightarrow> json" where
  "chat_object chat = jobject [(''channel'', JStr CHAT_CHANNEL), (''chat'', JStr chat)]"

definition chat_identifier :: "json_lib \<Rightarrow> string \<Rightarrow> string" where
  "chat_identifier J chat = to_text J (chat_object chat)"

definition opening_frames :: "json_lib \<Rightarrow> framing \<Rightarrow> string list" where
  "opening_frames J f = (case f of
     ActionCable \<Rightarrow> [to_text J (command_object ''subscribe'' CHANNEL_IDENTIFIER)]
   | McpFraming \<Rightarrow> [])"

definition chats_command :: "json_lib \<Rightarrow> framing \<Rightarrow> string \<Rightarrow> string option" where
  "chats_command J f command = (case f of
     ActionCable \<Rightarrow> Some (to_text J (command_object command CHATS_IDENTIFIER))
   | McpFraming \<Rightarrow> None)"

definition chat_command :: "json_lib \<Rightarrow> framing \<Rightarrow> string \<Rightarrow> string \<Rightarrow> string option" where
  "chat_command J f command chat = (case f of
     ActionCable \<Rightarrow> Some (to_text J (command_object command (chat_identifier J chat)))
   | McpFraming \<Rightarrow> None)"

definition follow_chat :: "json_lib \<Rightarrow> framing \<Rightarrow> string \<Rightarrow> string option" where
  "follow_chat J f chat = chat_command J f ''subscribe'' chat"

definition unfollow_chat :: "json_lib \<Rightarrow> framing \<Rightarrow> string \<Rightarrow> string option" where
  "unfollow_chat J f chat = chat_command J f ''unsubscribe'' chat"

definition follow_chats :: "json_lib \<Rightarrow> framing \<Rightarrow> string option" where
  "follow_chats J f = chats_command J f ''subscribe''"

definition unfollow_chats :: "json_lib \<Rightarrow> framing \<Rightarrow> string option" where
  "unfollow_chats J f = chats_command J f ''unsubscribe''"

definition follow_notifications :: "json_lib \<Rightarrow> framing \<Rightarrow> string option" where
  "follow_notifications J f = (if f = ActionCable
     then Some (to_text J (command_object ''subscribe'' NOTIFICATIONS_IDENTIFIER)) else None)"

definition message_object :: "string \<Rightarrow> string \<Rightarrow> json" where
  "message_object identifier data =
     jobject [(''command'', JStr ''message''), (''identifier'', JStr identifier),
              (''data'', JStr data)]"

definition notification_action :: "json_lib \<Rightarrow> framing \<Rightarrow> json \<Rightarrow> string option" where
  "notification_action J f action = (if f = ActionCable
     then Some (to_text J (message_object NOTIFICATIONS_IDENTIFIER (to_text J action))) else None)"

definition encode :: "json_lib \<Rightarrow> framing \<Rightarrow> string \<Rightarrow> string" where
  "encode J f jsonrpc = (case f of
     ActionCable \<Rightarrow> to_text J (message_object CHANNEL_IDENTIFIER jsonrpc)
   | McpFraming \<Rightarrow> jsonrpc)"

section \<open>Reading a frame\<close>

definition parse_opt :: "json_lib \<Rightarrow> string option \<Rightarrow> json option" where
  "parse_opt J i = Option.bind i (from_str J)"

definition chat_of :: "json_lib \<Rightarrow> string option \<Rightarrow> string option" where
  "chat_of J identifier = (case parse_opt J identifier of
     None \<Rightarrow> None
   | Some value \<Rightarrow>
       if as_str (index value ''channel'') \<noteq> Some CHAT_CHANNEL then None
       else as_str (index value ''chat''))"

definition is_chat_list :: "json_lib \<Rightarrow> string option \<Rightarrow> bool" where
  "is_chat_list J identifier = (case parse_opt J identifier of
     None \<Rightarrow> False
   | Some v \<Rightarrow> as_str (index v ''channel'') = Some CHATS_CHANNEL
       \<and> (case as_object v of Some ob \<Rightarrow> object_len ob = 1 | None \<Rightarrow> False))"

definition is_notifications :: "json_lib \<Rightarrow> string option \<Rightarrow> bool" where
  "is_notifications J identifier = (case parse_opt J identifier of
     None \<Rightarrow> False
   | Some v \<Rightarrow> v = jobject [(''channel'', JStr ''Desktop::NotificationsChannel'')])"

text \<open>The message of an update, when it is an object.\<close>

definition object_update :: "json \<Rightarrow> (json \<Rightarrow> inbound) \<Rightarrow> inbound" where
  "object_update value k = (case get value ''message'' of
     Some (JObj m) \<Rightarrow> k (JObj m)
   | _ \<Rightarrow> Ignored)"

definition decode_message :: "json_lib \<Rightarrow> json \<Rightarrow> inbound" where
  "decode_message J value = (case get value ''message'' of
     Some (JStr s) \<Rightarrow> (case from_str J s of None \<Rightarrow> Ignored | Some v \<Rightarrow> Mcp v)
   | Some (JObj m) \<Rightarrow> Mcp (JObj m)
   | _ \<Rightarrow> Ignored)"

definition identifier_of :: "json \<Rightarrow> string option" where
  "identifier_of value = Option.bind (get value ''identifier'') as_str"

definition type_of :: "json \<Rightarrow> string option" where
  "type_of value = Option.bind (get value ''type'') as_str"

definition decode_control ::
  "json \<Rightarrow> string option \<Rightarrow> string option \<Rightarrow> bool \<Rightarrow> bool \<Rightarrow> string \<Rightarrow> inbound" where
  "decode_control value identifier chat list notifications ty =
     (if ty = ''welcome'' then Welcome
      else if ty = ''ping'' then Ping
      else if ty = ''confirm_subscription'' \<and> notifications then NotificationsConfirmed
      else if ty = ''reject_subscription'' \<and> notifications then NotificationsRejected
      else if ty = ''confirm_subscription'' \<and> list then ChatListConfirmed
      else if ty = ''confirm_subscription'' then
        (case chat of None \<Rightarrow> Confirmed | Some c \<Rightarrow> ChatConfirmed c)
      else if ty = ''reject_subscription'' \<and> list then ChatListRejected
      else if ty = ''reject_subscription'' then
        (case chat of
           Some c \<Rightarrow> ChatRejected c
         | None \<Rightarrow> if (case identifier of None \<Rightarrow> True | Some i \<Rightarrow> i = CHANNEL_IDENTIFIER)
                   then Rejected else Ignored)
      else if ty = ''disconnect'' then
        Disconnect (case as_str (index value ''reason'') of Some r \<Rightarrow> r | None \<Rightarrow> [])
                   (case as_bool (index value ''reconnect'') of Some b \<Rightarrow> b | None \<Rightarrow> True)
      else Ignored)"

definition decode_action_cable :: "json_lib \<Rightarrow> json \<Rightarrow> inbound" where
  "decode_action_cable J value =
     (let identifier = identifier_of value;
          chat = chat_of J identifier;
          list = is_chat_list J identifier;
          notifications = is_notifications J identifier
      in case type_of value of
           Some ty \<Rightarrow> decode_control value identifier chat list notifications ty
         | None \<Rightarrow>
             if notifications then object_update value Notification
             else case chat of
               Some c \<Rightarrow> object_update value (Chat c)
             | None \<Rightarrow>
                 if list then object_update value ChatList
                 else if identifier \<noteq> Some CHANNEL_IDENTIFIER then Ignored
                 else decode_message J value)"

definition decode :: "json_lib \<Rightarrow> framing \<Rightarrow> string \<Rightarrow> inbound" where
  "decode J f text = (case from_str J text of
     None \<Rightarrow> Ignored
   | Some value \<Rightarrow> (case f of McpFraming \<Rightarrow> Mcp value | ActionCable \<Rightarrow> decode_action_cable J value))"

section \<open>The channels are kept apart\<close>

lemma channel_of_chat: "chat_of J i = Some c \<Longrightarrow>
    \<exists>v. parse_opt J i = Some v \<and> as_str (index v ''channel'') = Some CHAT_CHANNEL"
  by (auto simp: chat_of_def split: option.splits if_splits)

lemma channel_of_list: "is_chat_list J i \<Longrightarrow>
    \<exists>v. parse_opt J i = Some v \<and> as_str (index v ''channel'') = Some CHATS_CHANNEL"
  by (auto simp: is_chat_list_def split: option.splits if_splits)

lemma channel_of_notifications: "is_notifications J i \<Longrightarrow>
    \<exists>v. parse_opt J i = Some v
      \<and> as_str (index v ''channel'') = Some ''Desktop::NotificationsChannel''"
  by (auto simp: is_notifications_def json_simps split: option.splits if_splits)

lemma chat_not_list: "chat_of J i = Some c \<Longrightarrow> \<not> is_chat_list J i"
  by (drule channel_of_chat) (auto dest: channel_of_list simp: CHAT_CHANNEL_def CHATS_CHANNEL_def)

lemma chat_not_notifications: "chat_of J i = Some c \<Longrightarrow> \<not> is_notifications J i"
  by (drule channel_of_chat) (auto dest: channel_of_notifications simp: CHAT_CHANNEL_def)

lemma list_not_chat: "is_chat_list J i \<Longrightarrow> chat_of J i = None"
  using chat_not_list by (cases "chat_of J i") auto

lemma list_not_notifications: "is_chat_list J i \<Longrightarrow> \<not> is_notifications J i"
  by (drule channel_of_list) (auto dest: channel_of_notifications simp: CHATS_CHANNEL_def)

lemma notifications_not_chat: "is_notifications J i \<Longrightarrow> chat_of J i = None"
  using chat_not_notifications by (cases "chat_of J i") auto

lemma notifications_not_list: "is_notifications J i \<Longrightarrow> \<not> is_chat_list J i"
  using list_not_notifications by blast

lemma object_update_cases:
  "object_update v k = Ignored \<or> (\<exists>m. get v ''message'' = Some (JObj m) \<and> object_update v k = k (JObj m))"
  by (auto simp: object_update_def split: option.splits json.splits)

lemma decode_control_not_mcp: "decode_control v i c l n ty \<noteq> Mcp x"
  by (auto simp: decode_control_def split: option.splits)

lemma decode_control_rejected:
  "decode_control v i c l n ty = Rejected \<longleftrightarrow>
     ty = ''reject_subscription'' \<and> \<not> n \<and> \<not> l \<and> c = None
     \<and> (i = None \<or> i = Some CHANNEL_IDENTIFIER)"
  by (auto simp: decode_control_def split: option.splits)

text \<open>
  What the session may rely on for each of the three extra channels: which identifiers name
  the channel, and how the server's answer and its updates on it are read.
\<close>

locale subscription =
  fixes names :: "json_lib \<Rightarrow> string option \<Rightarrow> bool"
    and confirmed :: inbound and rejected :: inbound and update :: "json \<Rightarrow> inbound"
  assumes confirm: "names J (identifier_of v) \<Longrightarrow> type_of v = Some ''confirm_subscription''
      \<Longrightarrow> decode_action_cable J v = confirmed"
    and reject: "names J (identifier_of v) \<Longrightarrow> type_of v = Some ''reject_subscription''
      \<Longrightarrow> decode_action_cable J v = rejected"
    and updates: "names J (identifier_of v) \<Longrightarrow> type_of v = None
      \<Longrightarrow> decode_action_cable J v = object_update v update"
    and apart: "confirmed \<noteq> Rejected" "rejected \<noteq> Rejected" "update x \<noteq> Rejected"
      "update x \<noteq> Mcp y"
begin

lemma never_mcp:
  assumes "names J (identifier_of v)"
  shows "decode_action_cable J v \<noteq> Mcp y"
proof (cases "type_of v")
  case None
  then show ?thesis
    using assms updates apart(4) object_update_cases[of v update] by (auto simp: updates)
next
  case (Some ty)
  then show ?thesis by (simp add: decode_action_cable_def Let_def decode_control_not_mcp)
qed

lemma never_rejected:
  assumes "names J (identifier_of v)"
  shows "decode_action_cable J v \<noteq> Rejected"
proof (cases "type_of v")
  case None
  then show ?thesis
    using assms updates apart(3) object_update_cases[of v update] by (auto simp: updates)
next
  case (Some ty)
  show ?thesis
  proof
    assume r: "decode_action_cable J v = Rejected"
    with Some have "ty = ''reject_subscription''"
      by (simp add: decode_action_cable_def Let_def decode_control_rejected)
    with Some assms r show False using reject apart(2) by auto
  qed
qed

lemma answers:
  assumes "names J (identifier_of v)"
    and "type_of v \<in> {None, Some ''confirm_subscription'', Some ''reject_subscription''}"
  shows "decode_action_cable J v = (case type_of v of
     None \<Rightarrow> object_update v update
   | Some ty \<Rightarrow> if ty = ''confirm_subscription'' then confirmed else rejected)"
  using assms confirm reject updates by auto

end

interpretation chat_channel: subscription "\<lambda>J i. chat_of J i = Some c"
  "ChatConfirmed c" "ChatRejected c" "Chat c" for c
  by unfold_locales
    (auto simp: decode_action_cable_def decode_control_def Let_def chat_not_list
      chat_not_notifications)

interpretation list_channel: subscription is_chat_list ChatListConfirmed ChatListRejected ChatList
  by unfold_locales
    (auto simp: decode_action_cable_def decode_control_def Let_def list_not_chat
      list_not_notifications)

interpretation notifications_channel: subscription is_notifications
  NotificationsConfirmed NotificationsRejected Notification
  by unfold_locales (auto simp: decode_action_cable_def decode_control_def Let_def)

section \<open>Which frames reach the MCP server, and which end a session\<close>

definition device_object :: json where
  "device_object = jobject [(''channel'', JStr ''Desktop::Channel'')]"

lemma device_identifier_plain:
  assumes "from_str J CHANNEL_IDENTIFIER = Some device_object"
  shows "chat_of J (Some CHANNEL_IDENTIFIER) = None"
    and "\<not> is_chat_list J (Some CHANNEL_IDENTIFIER)"
    and "\<not> is_notifications J (Some CHANNEL_IDENTIFIER)"
  using assms
  by (auto simp: chat_of_def is_chat_list_def is_notifications_def parse_opt_def device_object_def
      json_simps CHAT_CHANNEL_def CHATS_CHANNEL_def jobject_single_eq_iff)

lemma no_identifier_plain:
  "chat_of J None = None" "\<not> is_chat_list J None" "\<not> is_notifications J None"
  by (simp_all add: chat_of_def is_chat_list_def is_notifications_def parse_opt_def)

text \<open>The frames that carry an MCP message, as the protocol document describes them.\<close>

definition carries :: "json_lib \<Rightarrow> json \<Rightarrow> json \<Rightarrow> bool" where
  "carries J value v \<longleftrightarrow>
     identifier_of value = Some CHANNEL_IDENTIFIER \<and> type_of value = None
     \<and> (case get value ''message'' of
          Some (JStr s) \<Rightarrow> from_str J s = Some v
        | Some (JObj m) \<Rightarrow> v = JObj m
        | _ \<Rightarrow> False)"

lemma decode_message_mcp: "decode_message J value = Mcp v \<longleftrightarrow> (case get value ''message'' of
    Some (JStr s) \<Rightarrow> from_str J s = Some v
  | Some (JObj m) \<Rightarrow> v = JObj m
  | _ \<Rightarrow> False)"
  by (auto simp: decode_message_def split: option.splits json.splits)

lemma decode_action_cable_mcp:
  assumes dev: "from_str J CHANNEL_IDENTIFIER = Some device_object"
  shows "decode_action_cable J value = Mcp v \<longleftrightarrow> carries J value v"
proof
  assume m: "decode_action_cable J value = Mcp v"
  have n: "\<not> is_notifications J (identifier_of value)" "\<not> is_chat_list J (identifier_of value)"
    "chat_of J (identifier_of value) = None"
    using m notifications_channel.never_mcp list_channel.never_mcp chat_channel.never_mcp
    by (blast, blast, metis not_None_eq)
  have t: "type_of value = None"
    using m by (cases "type_of value")
      (auto simp: decode_action_cable_def Let_def decode_control_not_mcp)
  show "carries J value v"
    using m n t by (auto simp: decode_action_cable_def Let_def carries_def decode_message_mcp
        split: if_splits)
next
  assume "carries J value v"
  then show "decode_action_cable J value = Mcp v"
    by (simp add: carries_def decode_action_cable_def Let_def device_identifier_plain[OF dev]
        decode_message_mcp)
qed

lemma decode_action_cable_rejected:
  assumes dev: "from_str J CHANNEL_IDENTIFIER = Some device_object"
  shows "decode_action_cable J value = Rejected \<longleftrightarrow>
     type_of value = Some ''reject_subscription''
     \<and> identifier_of value \<in> {None, Some CHANNEL_IDENTIFIER}"
proof
  assume r: "decode_action_cable J value = Rejected"
  show "type_of value = Some ''reject_subscription''
     \<and> identifier_of value \<in> {None, Some CHANNEL_IDENTIFIER}"
  proof (cases "type_of value")
    case None
    with r show ?thesis
      by (auto simp: decode_action_cable_def Let_def object_update_def decode_message_def
          split: if_splits option.splits json.splits)
  next
    case (Some ty)
    with r show ?thesis by (auto simp: decode_action_cable_def Let_def decode_control_rejected)
  qed
next
  assume "type_of value = Some ''reject_subscription''
     \<and> identifier_of value \<in> {None, Some CHANNEL_IDENTIFIER}"
  then show "decode_action_cable J value = Rejected"
    by (auto simp: decode_action_cable_def Let_def decode_control_rejected
        device_identifier_plain[OF dev] no_identifier_plain)
qed

lemma chat_of_chat_object:
  "from_str J i = Some (chat_object c) \<Longrightarrow> chat_of J (Some i) = Some c"
  by (simp add: chat_of_def parse_opt_def chat_object_def json_simps)

lemma decode_cable: "decode J ActionCable text = (case from_str J text of
    None \<Rightarrow> Ignored | Some value \<Rightarrow> decode_action_cable J value)"
  by (simp add: decode_def split: option.splits)

section \<open>Properties\<close>

text \<open>
  C26: with Action Cable framing, a frame becomes a message for the MCP server exactly when
  it is an untyped broadcast on the device's own channel whose message is an object, or a
  string that holds JSON. So no update of a chat, of the chat list or of the notifications,
  and nothing on any other channel, ever reaches the tools.
\<close>

theorem mcp_messages_come_from_the_device_channel:
  assumes "from_str J CHANNEL_IDENTIFIER = Some device_object"
  shows "decode J ActionCable text = Mcp v
    \<longleftrightarrow> (\<exists>value. from_str J text = Some value \<and> carries J value v)"
  by (simp add: decode_cable decode_action_cable_mcp[OF assms] split: option.splits)

definition demo_lib :: json_lib where
  "demo_lib = \<lparr>
     from_str = (\<lambda>s. map_of
       [(CHANNEL_IDENTIFIER, device_object),
        (''chat'', chat_object ''42''),
        (''follow'', command_object ''subscribe'' ''chat''),
        (''call'', jobject [(''identifier'', JStr CHANNEL_IDENTIFIER), (''message'', jobject [])]),
        (''sneaky'', jobject [(''identifier'', JStr ''chat''), (''message'', jobject [])]),
        (''confirm'', jobject [(''identifier'', JStr ''chat''),
                               (''type'', JStr ''confirm_subscription'')]),
        (''refuse'', jobject [(''identifier'', JStr CHANNEL_IDENTIFIER),
                              (''type'', JStr ''reject_subscription'')])] s),
     to_text = (\<lambda>v. if get v ''command'' = None then ''chat'' else ''follow'')\<rparr>"

lemma demo_lib_simps:
  "from_str demo_lib CHANNEL_IDENTIFIER = Some device_object"
  "from_str demo_lib ''chat'' = Some (chat_object ''42'')"
  "from_str demo_lib ''follow'' = Some (command_object ''subscribe'' ''chat'')"
  "from_str demo_lib ''call'' =
     Some (jobject [(''identifier'', JStr CHANNEL_IDENTIFIER), (''message'', jobject [])])"
  "from_str demo_lib ''sneaky'' =
     Some (jobject [(''identifier'', JStr ''chat''), (''message'', jobject [])])"
  "from_str demo_lib ''confirm'' =
     Some (jobject [(''identifier'', JStr ''chat''), (''type'', JStr ''confirm_subscription'')])"
  "from_str demo_lib ''refuse'' =
     Some (jobject [(''identifier'', JStr CHANNEL_IDENTIFIER),
                    (''type'', JStr ''reject_subscription'')])"
  "to_text demo_lib v = (if get v ''command'' = None then ''chat'' else ''follow'')"
  by (simp_all add: demo_lib_def CHANNEL_IDENTIFIER_def)

theorem mcp_messages_come_from_the_device_channel_witness:
  "decode demo_lib ActionCable ''call'' = Mcp (jobject [])
   \<and> decode demo_lib ActionCable ''sneaky'' \<noteq> Mcp (jobject [])"
  unfolding mcp_messages_come_from_the_device_channel[OF demo_lib_simps(1)]
  by (simp add: demo_lib_simps(4,5) carries_def identifier_of_def type_of_def json_simps)
    (simp add: jobject_def CHANNEL_IDENTIFIER_def)

text \<open>
  With Action Cable framing, a frame ends the session as a rejection exactly when it
  rejects a subscription and names the device's own channel or none: being refused a chat,
  the chat list or the notifications never does.
\<close>

theorem only_the_device_rejection_ends_the_session:
  assumes "from_str J CHANNEL_IDENTIFIER = Some device_object"
  shows "decode J ActionCable text = Rejected
    \<longleftrightarrow> (\<exists>value. from_str J text = Some value
          \<and> type_of value = Some ''reject_subscription''
          \<and> identifier_of value \<in> {None, Some CHANNEL_IDENTIFIER})"
  by (simp add: decode_cable decode_action_cable_rejected[OF assms] split: option.splits)

theorem only_the_device_rejection_ends_the_session_witness:
  "decode demo_lib ActionCable ''refuse'' = Rejected
   \<and> decode demo_lib ActionCable ''confirm'' \<noteq> Rejected"
  unfolding only_the_device_rejection_ends_the_session[OF demo_lib_simps(1)]
  by (simp add: demo_lib_simps(6,7) identifier_of_def type_of_def json_simps)

text \<open>
  Whatever the server answers to the command that follows a chat, on the identifier that
  command carries, is read as being about that very chat: its confirmation, its refusal, or an
  update of it.
\<close>

theorem chat_answers_are_read_back:
  assumes "follow_chat J ActionCable chat = Some frame"
    and "from_str J frame = Some (command_object ''subscribe'' (chat_identifier J chat))"
    and "from_str J (chat_identifier J chat) = Some (chat_object chat)"
    and "from_str J text = Some value"
    and "identifier_of value = Option.bind (from_str J frame) identifier_of"
    and "type_of value \<in> {None, Some ''confirm_subscription'', Some ''reject_subscription''}"
  shows "decode J ActionCable text = (case type_of value of
     None \<Rightarrow> object_update value (Chat chat)
   | Some ty \<Rightarrow> if ty = ''confirm_subscription'' then ChatConfirmed chat else ChatRejected chat)"
proof -
  have "identifier_of value = Some (chat_identifier J chat)"
    using assms(2,5) by (simp add: identifier_of_def command_object_def json_simps)
  then have "chat_of J (identifier_of value) = Some chat"
    using assms(3) by (simp add: chat_of_chat_object)
  then show ?thesis
    using assms(4,6) by (simp add: decode_cable chat_channel.answers)
qed

theorem chat_answers_are_read_back_witness:
  "decode demo_lib ActionCable ''confirm'' = ChatConfirmed ''42''
   \<and> decode demo_lib ActionCable ''sneaky'' = Chat ''42'' (jobject [])"
proof
  have f: "follow_chat demo_lib ActionCable ''42'' = Some ''follow''"
    "chat_identifier demo_lib ''42'' = ''chat''"
    by (simp_all add: follow_chat_def chat_command_def chat_identifier_def demo_lib_simps
        chat_object_def command_object_def json_simps)
  note read = chat_answers_are_read_back[of demo_lib "''42''" "''follow''", unfolded f]
  show "decode demo_lib ActionCable ''confirm'' = ChatConfirmed ''42''"
    using read[of "''confirm''"]
    by (simp add: demo_lib_simps identifier_of_def type_of_def command_object_def json_simps)
  show "decode demo_lib ActionCable ''sneaky'' = Chat ''42'' (jobject [])"
    using read[of "''sneaky''"]
    by (simp add: demo_lib_simps identifier_of_def type_of_def command_object_def json_simps
        object_update_def jobject_def)
qed

end
