(* ===== verification/Chats.thy ===== *)
theory Chats
  imports Json
begin

text \<open>
  \<open>src/src/chats.rs\<close>: the checks on what a client asks for (chat numbers, image and download
  paths), the body of a question, and \<open>ChatHub\<close>, which counts who follows which chat and
  tells the tunnel session what to subscribe to. The hub's state holds the follower counts,
  the number of clients watching the chat list, and, for the session that is attached, every
  command sent into its channel so far; \<open>hub_events\<close> is what the control clients were sent.
  The main lemma is that replaying the commands of the attached session gives exactly the
  chats that are followed now. Percent decoding is a parameter (\<open>percent_encoding\<close> is a
  library), and so is the \<open>Debug\<close> printing of a string in the refusals' messages.
\<close>

section \<open>Checks on requests\<close>

record refusal =
  refusal_code :: string
  refusal_message :: string
  refusal_details :: json

definition refusal_new :: "string \<Rightarrow> string \<Rightarrow> refusal" where
  "refusal_new code message =
     \<lparr>refusal_code = code, refusal_message = message, refusal_details = jobject []\<rparr>"

definition chat_number :: "(string \<Rightarrow> string) \<Rightarrow> string \<Rightarrow> refusal + string" where
  "chat_number dbg chat =
     (if chat \<noteq> [] \<and> length chat \<le> 18 \<and> list_all is_ascii_digit chat then Inr chat
      else Inl (refusal_new ''bad_request''
                  (''bad request: '' @ dbg chat @ '' is not a chat number'')))"

definition workspace_path :: "string \<Rightarrow> nat option \<Rightarrow> string" where
  "workspace_path page project = (case project of
     Some n \<Rightarrow> ''desktop/'' @ page @ ''?project_id='' @ show_nat n
   | None \<Rightarrow> ''desktop/'' @ page)"

definition is_asset_byte :: "char \<Rightarrow> bool" where
  "is_asset_byte b \<longleftrightarrow> is_ascii_alnum b \<or> b \<in> {CHR ''-'', CHR ''_'', CHR ''.'', CHR ''/''}"

definition asset_ok :: "string \<Rightarrow> bool" where
  "asset_ok path \<longleftrightarrow>
     length path \<le> 512
     \<and> (case strip_prefix ''/assets/'' path of
          None \<Rightarrow> False
        | Some rest \<Rightarrow> rest \<noteq> [] \<and> last rest \<noteq> CHR ''/'')
     \<and> list_all is_asset_byte path
     \<and> \<not> contains_sub path ''..''
     \<and> \<not> contains_sub path ''//''"

definition asset_path :: "(string \<Rightarrow> string) \<Rightarrow> string \<Rightarrow> refusal + string" where
  "asset_path dbg path =
     (if asset_ok path then Inr path
      else Inl (refusal_new ''invalid'' (dbg path @ '' isn'' @ [CHR 0x27] @ ''t an image of Chat with Work'' @ [CHR 0x27] @ ''s'')))"

definition is_signed_byte :: "char \<Rightarrow> bool" where
  "is_signed_byte b \<longleftrightarrow> is_ascii_alnum b \<or> b \<in> {CHR ''-'', CHR ''_'', CHR ''=''}"

definition safe_name :: "string \<Rightarrow> bool" where
  "safe_name name \<longleftrightarrow>
     name \<noteq> [] \<and> name \<noteq> ''.'' \<and> name \<noteq> ''..''
     \<and> CHR ''/'' \<notin> set name \<and> CHR 0x5C \<notin> set name
     \<and> \<not> list_ex is_control (utf8_chars name)"

text \<open>\<open>decode\<close> is \<open>percent_decode_str(..).decode_utf8()\<close>: \<open>None\<close> for bytes that are not UTF-8.\<close>

definition download_ok :: "(string \<Rightarrow> string option) \<Rightarrow> string \<Rightarrow> bool" where
  "download_ok decode path \<longleftrightarrow>
     (if length path > 4096 \<or> \<not> list_all is_ascii_char path \<or> list_ex is_ascii_control path
      then False
      else case strip_prefix ''/rails/active_storage/blobs/proxy/'' path of
        None \<Rightarrow> False
      | Some rest \<Rightarrow> (case strip_suffix ''?disposition=attachment'' rest of
          None \<Rightarrow> False
        | Some rest \<Rightarrow> (case split_once CHR ''/'' rest of
            None \<Rightarrow> False
          | Some (signed, filename) \<Rightarrow>
              signed \<noteq> [] \<and> list_all is_signed_byte signed
              \<and> \<not> list_ex (\<lambda>c. c \<in> {CHR ''?'', CHR ''#'', CHR 0x5C}) filename
              \<and> (case decode filename of None \<Rightarrow> False | Some name \<Rightarrow> safe_name name))))"

definition download_path :: "(string \<Rightarrow> string option) \<Rightarrow> string \<Rightarrow> refusal + string" where
  "download_path decode path =
     (if download_ok decode path then Inr path
      else Inl (refusal_new ''invalid'' (''That isn'' @ [CHR 0x27] @ ''t a chat file download'')))"

section \<open>Questions\<close>

record question =
  q_chat :: "string option"
  q_text :: string
  q_project :: "nat option"
  q_model :: "string option"
  q_web_search :: "bool option"
  q_attachments :: "string list"
  q_steer :: "bool option"

definition question_body :: "question \<Rightarrow> json" where
  "question_body q =
     (let body = jobject [(''content'', JStr (q_text q))];
          body = (case q_model q of
                    Some model \<Rightarrow> json_put ''model_id'' (JStr model) body | None \<Rightarrow> body);
          body = (case q_web_search q of
                    Some b \<Rightarrow> json_put ''web_search'' (JBool b) body | None \<Rightarrow> body);
          body = (if q_attachments q \<noteq> []
                  then json_put ''attachments'' (JArr (map JStr (q_attachments q))) body else body)
      in if q_chat q \<noteq> None then
           (case q_steer q of Some steer \<Rightarrow> json_put ''steer'' (JBool steer) body | None \<Rightarrow> body)
         else (case q_project q of
                 Some project \<Rightarrow> json_put ''project_id'' (jnat project) body | None \<Rightarrow> body))"

section \<open>The hub\<close>

datatype follow = Watch string | Unwatch string | WatchList | UnwatchList

datatype control_event = ChatEvent string json | ChatsEvent json

record hub =
  followers :: "(string \<times> nat) list"
  list_watchers :: nat
  list_live :: bool
  hub_session :: "follow list option"
  hub_events :: "control_event list"

definition hub_new :: hub where
  "hub_new = \<lparr>followers = [], list_watchers = 0, list_live = False, hub_session = None,
              hub_events = []\<rparr>"

abbreviation usize_max :: nat where
  "usize_max \<equiv> u64_max"

definition send_follow :: "follow \<Rightarrow> hub \<Rightarrow> hub" where
  "send_follow f h = h\<lparr>hub_session := map_option (\<lambda>sent. sent @ [f]) (hub_session h)\<rparr>"

definition publish_list :: "json \<Rightarrow> hub \<Rightarrow> hub" where
  "publish_list update h = h\<lparr>hub_events := hub_events h @ [ChatsEvent update]\<rparr>"

definition note_list :: "string \<Rightarrow> hub \<Rightarrow> hub" where
  "note_list what h = publish_list (jobject [(''event'', JStr what)]) h"

definition publish :: "string \<Rightarrow> json \<Rightarrow> hub \<Rightarrow> hub" where
  "publish chat update h = h\<lparr>hub_events := hub_events h @ [ChatEvent chat update]\<rparr>"

definition note_chat :: "string \<Rightarrow> string \<Rightarrow> hub \<Rightarrow> hub" where
  "note_chat chat what h = publish chat (jobject [(''type'', JStr what)]) h"

definition watch :: "string \<Rightarrow> hub \<Rightarrow> hub" where
  "watch chat h =
     (let count = (case map_of (followers h) chat of Some n \<Rightarrow> n | None \<Rightarrow> 0) + 1;
          h = h\<lparr>followers := AList.update chat count (followers h)\<rparr>
      in if count = 1 then
           (case hub_session h of
              Some _ \<Rightarrow> send_follow (Watch chat) h
            | None \<Rightarrow> note_chat chat ''offline'' h)
         else note_chat chat (if hub_session h \<noteq> None then ''watching'' else ''offline'') h)"

text \<open>\<open>*count -= 1\<close> on a \<open>usize\<close> wraps in a release build; the counts are never zero.\<close>

definition unwatch :: "string \<Rightarrow> hub \<Rightarrow> hub" where
  "unwatch chat h = (case map_of (followers h) chat of
     None \<Rightarrow> h
   | Some n \<Rightarrow>
       (let count = (if n = 0 then usize_max else n - 1);
            h = h\<lparr>followers := AList.update chat count (followers h)\<rparr>
        in if count = 0 then
             (let h = h\<lparr>followers := AList.delete chat (followers h)\<rparr>
              in if hub_session h \<noteq> None then send_follow (Unwatch chat) h else h)
           else h))"

definition watch_list :: "hub \<Rightarrow> hub" where
  "watch_list h =
     (let h = h\<lparr>list_watchers := list_watchers h + 1\<rparr>
      in case hub_session h of
           Some _ \<Rightarrow> if list_live h then note_list ''watching'' h else send_follow WatchList h
         | None \<Rightarrow> note_list ''offline'' h)"

definition unwatch_list :: "hub \<Rightarrow> hub" where
  "unwatch_list h =
     (let h = h\<lparr>list_watchers := list_watchers h - 1\<rparr>
      in if list_watchers h = 0 then
           (let h = h\<lparr>list_live := False\<rparr>
            in if hub_session h \<noteq> None then send_follow UnwatchList h else h)
         else h)"

definition list_confirmed :: "bool \<Rightarrow> hub \<Rightarrow> hub" where
  "list_confirmed live h =
     note_list (if live then ''watching'' else ''refused'') (h\<lparr>list_live := live\<rparr>)"

definition attach :: "hub \<Rightarrow> hub" where
  "attach h = h\<lparr>
     hub_session := Some (map (\<lambda>(chat, _). Watch chat) (followers h)
                          @ (if list_watchers h > 0 then [WatchList] else [])),
     list_live := False\<rparr>"

definition detach :: "hub \<Rightarrow> hub" where
  "detach h =
     (let h = h\<lparr>hub_session := None, list_live := False\<rparr>;
          h = foldl (\<lambda>h (chat, _). note_chat chat ''offline'' h) h (followers h)
      in if list_watchers h > 0 then note_list ''offline'' h else h)"

text \<open>\<open>followed\<close>: the followed chats, sorted as Rust compares strings, byte by byte.\<close>

fun bytes_le :: "string \<Rightarrow> string \<Rightarrow> bool" where
  "bytes_le [] ys = True"
| "bytes_le (x # xs) [] = False"
| "bytes_le (x # xs) (y # ys) =
     ((of_char x :: nat) < of_char y \<or> (x = y \<and> bytes_le xs ys))"

fun insert_sorted :: "string \<Rightarrow> string list \<Rightarrow> string list" where
  "insert_sorted s [] = [s]"
| "insert_sorted s (t # ts) = (if bytes_le s t then s # t # ts else t # insert_sorted s ts)"

definition followed :: "hub \<Rightarrow> string list" where
  "followed h = foldr insert_sorted (map fst (followers h)) []"

text \<open>Everything the daemon asks of the hub.\<close>

datatype hub_op =
    OWatch string | OUnwatch string | OWatchList | OUnwatchList | OListConfirmed bool
  | OAttach | ODetach | OPublish string json | OPublishList json
  | ONote string string | ONoteList string

fun hub_step :: "hub \<Rightarrow> hub_op \<Rightarrow> hub" where
  "hub_step h (OWatch c) = watch c h"
| "hub_step h (OUnwatch c) = unwatch c h"
| "hub_step h OWatchList = watch_list h"
| "hub_step h OUnwatchList = unwatch_list h"
| "hub_step h (OListConfirmed live) = list_confirmed live h"
| "hub_step h OAttach = attach h"
| "hub_step h ODetach = detach h"
| "hub_step h (OPublish c u) = publish c u h"
| "hub_step h (OPublishList u) = publish_list u h"
| "hub_step h (ONote c w) = note_chat c w h"
| "hub_step h (ONoteList w) = note_list w h"

section \<open>Counting followers\<close>

text \<open>A reference counter: what the hub's users rely on when they watch and unwatch.\<close>

locale refcount =
  fixes ok :: "'s \<Rightarrow> bool" and refs :: "'s \<Rightarrow> 'k \<Rightarrow> nat"
    and inc :: "'k \<Rightarrow> 's \<Rightarrow> 's" and dec :: "'k \<Rightarrow> 's \<Rightarrow> 's"
  assumes ok_inc: "ok s \<Longrightarrow> ok (inc k s)"
    and ok_dec: "ok s \<Longrightarrow> ok (dec k s)"
    and refs_inc: "ok s \<Longrightarrow> refs (inc k s) k' = refs s k' + (if k = k' then 1 else 0)"
    and refs_dec: "ok s \<Longrightarrow> refs (dec k s) k' = refs s k' - (if k = k' then 1 else 0)"
begin

lemma inc_dec: "ok s \<Longrightarrow> refs (dec k (inc k s)) k' = refs s k'"
  by (simp add: refs_dec refs_inc ok_inc)

lemma dec_absent: "ok s \<Longrightarrow> refs s k = 0 \<Longrightarrow> refs (dec k s) k' = refs s k'"
  by (auto simp: refs_dec)

lemma held_while_others: "ok s \<Longrightarrow> 1 < refs s k \<Longrightarrow> 0 < refs (dec k s) k"
  by (simp add: refs_dec)

end

definition follower_count :: "hub \<Rightarrow> string \<Rightarrow> nat" where
  "follower_count h c = (case map_of (followers h) c of Some n \<Rightarrow> n | None \<Rightarrow> 0)"

definition counts_ok :: "hub \<Rightarrow> bool" where
  "counts_ok h \<longleftrightarrow>
     wf_map (followers h) \<and> (\<forall>c n. map_of (followers h) c = Some n \<longrightarrow> 0 < n)"

lemma hub_notes_keep [simp]:
  "followers (note_chat c w h) = followers h" "followers (note_list w h) = followers h"
  "followers (publish c u h) = followers h" "followers (publish_list u h) = followers h"
  "followers (send_follow f h) = followers h"
  "hub_session (note_chat c w h) = hub_session h" "hub_session (note_list w h) = hub_session h"
  "hub_session (publish c u h) = hub_session h" "hub_session (publish_list u h) = hub_session h"
  "hub_session (send_follow f h) = map_option (\<lambda>sent. sent @ [f]) (hub_session h)"
  "list_watchers (note_chat c w h) = list_watchers h"
  "list_watchers (note_list w h) = list_watchers h"
  "list_watchers (publish c u h) = list_watchers h"
  "list_watchers (publish_list u h) = list_watchers h"
  "list_watchers (send_follow f h) = list_watchers h"
  "list_live (note_chat c w h) = list_live h" "list_live (note_list w h) = list_live h"
  "list_live (publish c u h) = list_live h" "list_live (publish_list u h) = list_live h"
  "list_live (send_follow f h) = list_live h"
  by (simp_all add: note_chat_def note_list_def publish_def publish_list_def send_follow_def)

lemma foldl_note_keep [simp]:
  "followers (foldl (\<lambda>h (c, _). note_chat c w h) h m) = followers h"
  "hub_session (foldl (\<lambda>h (c, _). note_chat c w h) h m) = hub_session h"
  "list_watchers (foldl (\<lambda>h (c, _). note_chat c w h) h m) = list_watchers h"
  "list_live (foldl (\<lambda>h (c, _). note_chat c w h) h m) = list_live h"
  by (induction m arbitrary: h) (auto simp: split_def)

lemma followers_watch:
  "followers (watch c h) = AList.update c (follower_count h c + 1) (followers h)"
  by (simp add: watch_def Let_def follower_count_def split: option.splits)

lemma counts_pos:
  "counts_ok h \<Longrightarrow> map_of (followers h) c = Some n \<Longrightarrow> 0 < n"
  by (simp add: counts_ok_def)

lemma delete_update: "AList.delete c (AList.update c n m) = AList.delete c m"
  by (induction m) auto

lemma followers_unwatch:
  assumes "counts_ok h"
  shows "followers (unwatch c h) = (case map_of (followers h) c of
     None \<Rightarrow> followers h
   | Some n \<Rightarrow> if n = 1 then AList.delete c (followers h)
               else AList.update c (n - 1) (followers h))"
  using counts_pos[OF assms, of c]
  by (auto simp: unwatch_def Let_def delete_update split: option.splits)

lemma counts_ok_watch: "counts_ok h \<Longrightarrow> counts_ok (watch c h)"
  by (simp add: counts_ok_def followers_watch distinct_update update_conv')

lemma counts_ok_unwatch: "counts_ok h \<Longrightarrow> counts_ok (unwatch c h)"
  unfolding counts_ok_def[of "unwatch c h"]
  by (auto simp: followers_unwatch distinct_update distinct_delete update_conv' delete_conv'
      counts_ok_def simp del: map_of_eq_Some_iff split: option.splits if_splits)
    (metis Suc_lessI)

lemma follower_count_watch:
  "follower_count (watch c h) c' = follower_count h c' + (if c = c' then 1 else 0)"
  by (simp add: follower_count_def[of "watch c h"] followers_watch update_conv')
    (simp add: follower_count_def)

lemma follower_count_unwatch:
  assumes "counts_ok h"
  shows "follower_count (unwatch c h) c' = follower_count h c' - (if c = c' then 1 else 0)"
  using counts_pos[OF assms, of c]
  by (auto simp: follower_count_def followers_unwatch[OF assms] update_conv' delete_conv'
      split: option.splits)

interpretation chat_refs: refcount counts_ok follower_count watch unwatch
  by unfold_locales
    (auto simp: counts_ok_watch counts_ok_unwatch follower_count_watch follower_count_unwatch)

section \<open>What the server was told\<close>

text \<open>The subscriptions a session's commands leave on the server, replayed in order.\<close>

definition replay_chats :: "follow list \<Rightarrow> string set" where
  "replay_chats sent = foldl (\<lambda>S f. case f of
     Watch c \<Rightarrow> insert c S | Unwatch c \<Rightarrow> S - {c} | _ \<Rightarrow> S) {} sent"

definition replay_list :: "follow list \<Rightarrow> bool" where
  "replay_list sent = foldl (\<lambda>b f. case f of
     WatchList \<Rightarrow> True | UnwatchList \<Rightarrow> False | _ \<Rightarrow> b) False sent"

lemma replay_snoc [simp]:
  "replay_chats (sent @ [f]) = (case f of
     Watch c \<Rightarrow> insert c (replay_chats sent) | Unwatch c \<Rightarrow> replay_chats sent - {c}
   | _ \<Rightarrow> replay_chats sent)"
  "replay_list (sent @ [f]) = (case f of
     WatchList \<Rightarrow> True | UnwatchList \<Rightarrow> False | _ \<Rightarrow> replay_list sent)"
  by (cases f; simp add: replay_chats_def replay_list_def)+

lemma replay_watches:
  "replay_chats (map (\<lambda>(c, _). Watch c) m) = fst ` set m"
  "replay_list (map (\<lambda>(c, _). Watch c) m) = False"
  by (induction m rule: rev_induct)
    (auto simp: replay_chats_def replay_list_def split_def)

definition mirrors :: "hub \<Rightarrow> bool" where
  "mirrors h \<longleftrightarrow> counts_ok h \<and> (case hub_session h of
     None \<Rightarrow> True | Some sent \<Rightarrow> replay_chats sent = dom (map_of (followers h)))"

lemma dom_map_of_iff: "k \<in> dom (map_of m) \<longleftrightarrow> k \<in> fst ` set m"
  by (simp add: dom_map_of_conv_image_fst)

lemma mirrors_watch: "mirrors h \<Longrightarrow> mirrors (watch c h)"
proof -
  assume m: "mirrors h"
  then have ok: "counts_ok (watch c h)" by (simp add: mirrors_def counts_ok_watch)
  have s: "hub_session (watch c h) = (if follower_count h c = 0
      then map_option (\<lambda>sent. sent @ [Watch c]) (hub_session h) else hub_session h)"
    by (auto simp: watch_def Let_def follower_count_def split: option.splits)
  have "follower_count h c \<noteq> 0 \<Longrightarrow> c \<in> dom (map_of (followers h))"
    by (auto simp: follower_count_def split: option.splits)
  with m show ?thesis
    by (auto simp: mirrors_def ok s followers_watch update_conv' split: option.splits)
qed

lemma mirrors_unwatch: "mirrors h \<Longrightarrow> mirrors (unwatch c h)"
proof -
  assume m: "mirrors h"
  then have ok: "counts_ok h" by (simp add: mirrors_def)
  have s: "hub_session (unwatch c h) = (if map_of (followers h) c = Some 1
      then map_option (\<lambda>sent. sent @ [Unwatch c]) (hub_session h) else hub_session h)"
    using counts_pos[OF ok, of c]
    by (auto simp: unwatch_def Let_def split: option.splits)
  show ?thesis
    using m counts_ok_unwatch[OF ok, of c]
    by (auto simp: mirrors_def s followers_unwatch[OF ok] update_conv' delete_conv'
        split: option.splits if_splits)
qed

lemma mirrors_step: "mirrors h \<Longrightarrow> mirrors (hub_step h op)"
proof (cases op)
  case OAttach
  assume "mirrors h"
  with OAttach show ?thesis
    by (auto simp: mirrors_def attach_def counts_ok_def replay_watches dom_map_of_conv_image_fst)
next
  case ODetach
  assume "mirrors h"
  with ODetach show ?thesis by (simp add: mirrors_def detach_def Let_def counts_ok_def)
qed (auto simp: mirrors_watch mirrors_unwatch, auto simp: mirrors_def counts_ok_def watch_list_def
    unwatch_list_def list_confirmed_def Let_def split: option.splits)

interpretation hub_mirror: invariant_system hub_step mirrors
  by unfold_locales (rule mirrors_step)

lemma mirrors_new: "mirrors hub_new"
  by (simp add: mirrors_def hub_new_def counts_ok_def)

text \<open>How many clients follow a chat, counted from the requests alone.\<close>

fun watchers :: "string \<Rightarrow> hub_op list \<Rightarrow> nat \<Rightarrow> nat" where
  "watchers c [] n = n"
| "watchers c (OWatch c' # ops) n = watchers c ops (n + (if c' = c then 1 else 0))"
| "watchers c (OUnwatch c' # ops) n = watchers c ops (n - (if c' = c then 1 else 0))"
| "watchers c (_ # ops) n = watchers c ops n"

lemma follower_count_others [simp]:
  "follower_count (watch_list h) c = follower_count h c"
  "follower_count (unwatch_list h) c = follower_count h c"
  "follower_count (list_confirmed live h) c = follower_count h c"
  "follower_count (attach h) c = follower_count h c"
  "follower_count (detach h) c = follower_count h c"
  "follower_count (publish c' u h) c = follower_count h c"
  "follower_count (publish_list u h) c = follower_count h c"
  "follower_count (note_chat c' w h) c = follower_count h c"
  "follower_count (note_list w h) c = follower_count h c"
  by (simp_all add: follower_count_def watch_list_def unwatch_list_def list_confirmed_def
      attach_def detach_def Let_def split: option.splits)

lemma follower_count_run:
  "mirrors h \<Longrightarrow> follower_count (foldl hub_step h ops) c = watchers c ops (follower_count h c)"
proof (induction ops arbitrary: h)
  case (Cons op ops)
  have "counts_ok h" using Cons.prems by (simp add: mirrors_def)
  then have "watchers c (op # ops) (follower_count h c)
      = watchers c ops (follower_count (hub_step h op) c)"
    by (cases op) (simp_all add: follower_count_watch follower_count_unwatch)
  with Cons show ?case by (simp add: mirrors_step)
qed simp

lemma followed_iff: "counts_ok h \<Longrightarrow> c \<in> dom (map_of (followers h)) \<longleftrightarrow> 0 < follower_count h c"
  using counts_pos[of h c] by (auto simp: follower_count_def split: option.splits)

section \<open>Properties of the hub\<close>

text \<open>
  Whatever happens, and in whatever order, replaying the commands the attached session
  was given leaves the server subscribed to exactly the chats that have more watches than
  unwatches so far: nothing followed is lost over a reconnect, nothing unfollowed stays.
\<close>

theorem session_follows_the_watched_chats:
  "case hub_session (foldl hub_step hub_new ops) of
     None \<Rightarrow> True
   | Some sent \<Rightarrow> replay_chats sent = {c. 0 < watchers c ops 0}"
proof (cases "hub_session (foldl hub_step hub_new ops)")
  case (Some sent)
  let ?h = "foldl hub_step hub_new ops"
  have m: "mirrors ?h" by (rule hub_mirror.run_keeps[OF mirrors_new])
  have "follower_count ?h c = watchers c ops 0" for c
    using follower_count_run[OF mirrors_new, of ops c] by (simp add: hub_new_def follower_count_def)
  moreover have "replay_chats sent = {c. 0 < follower_count ?h c}"
    using m followed_iff[of ?h] Some unfolding mirrors_def by auto
  ultimately show ?thesis using Some by simp
qed simp

text \<open>The list is confirmed only while someone watches it.\<close>

fun timely :: "hub \<Rightarrow> hub_op list \<Rightarrow> bool" where
  "timely h [] = True"
| "timely h (op # ops) =
     ((case op of OListConfirmed True \<Rightarrow> 0 < list_watchers h | _ \<Rightarrow> True)
      \<and> timely (hub_step h op) ops)"

fun list_count :: "hub_op list \<Rightarrow> nat \<Rightarrow> nat" where
  "list_count [] n = n"
| "list_count (OWatchList # ops) n = list_count ops (n + 1)"
| "list_count (OUnwatchList # ops) n = list_count ops (n - 1)"
| "list_count (_ # ops) n = list_count ops n"

text \<open>A session's log is about the list the way the watchers are, whether or not confirmed.\<close>

definition list_asked :: "hub \<Rightarrow> bool" where
  "list_asked h \<longleftrightarrow> (list_live h \<longrightarrow> 0 < list_watchers h)
     \<and> (case hub_session h of None \<Rightarrow> True
        | Some sent \<Rightarrow> replay_list sent = (0 < list_watchers h))"

lemma watch_keeps_list [simp]:
  "list_watchers (watch c h) = list_watchers h" "list_live (watch c h) = list_live h"
  "list_watchers (unwatch c h) = list_watchers h" "list_live (unwatch c h) = list_live h"
  by (auto simp: watch_def unwatch_def Let_def split: option.splits)

lemma replay_list_watch:
  "map_option replay_list (hub_session (watch c h)) = map_option replay_list (hub_session h)"
  "map_option replay_list (hub_session (unwatch c h)) = map_option replay_list (hub_session h)"
  by (auto simp: watch_def unwatch_def Let_def option.map_comp comp_def split: option.splits)

lemma list_asked_alt: "list_asked h \<longleftrightarrow> (list_live h \<longrightarrow> 0 < list_watchers h)
    \<and> map_option replay_list (hub_session h) \<in> {None, Some (0 < list_watchers h)}"
  by (auto simp: list_asked_def split: option.splits)

lemma list_asked_step:
  assumes "list_asked h" and "timely h [op]"
  shows "list_asked (hub_step h op)"
proof (cases op)
  case OAttach
  then show ?thesis
    using assms by (auto simp: list_asked_def attach_def replay_watches)
next
  case OWatchList
  then show ?thesis
    using assms by (cases "list_live h")
      (auto simp: list_asked_def watch_list_def Let_def split: option.splits)
next
  case OUnwatchList
  then show ?thesis
    using assms by (cases "list_watchers h \<le> 1")
      (auto simp: list_asked_def unwatch_list_def Let_def split: option.splits)
next
  case (OListConfirmed b)
  then show ?thesis
    using assms by (cases b) (auto simp: list_asked_def list_confirmed_def split: option.splits)
next
  case ODetach
  then show ?thesis
    using assms by (auto simp: list_asked_def detach_def Let_def split: option.splits)
qed (use assms in \<open>simp_all add: list_asked_alt replay_list_watch\<close>)

lemma list_count_step: "list_watchers (hub_step h op) = list_count [op] (list_watchers h)"
  by (cases op) (auto simp: watch_list_def unwatch_list_def list_confirmed_def attach_def
      detach_def Let_def split: option.splits)

lemma list_asked_run:
  "list_asked h \<Longrightarrow> timely h ops \<Longrightarrow> list_asked (foldl hub_step h ops)"
proof (induction ops arbitrary: h)
  case (Cons op ops)
  then have "list_asked (hub_step h op)" by (intro list_asked_step) auto
  with Cons show ?case by simp
qed simp

lemma list_count_run:
  "list_watchers (foldl hub_step h ops) = list_count ops (list_watchers h)"
proof (induction ops arbitrary: h)
  case (Cons op ops)
  have "list_count (op # ops) n = list_count ops (list_count [op] n)" for n
    by (cases op) simp_all
  with Cons show ?case by (simp add: list_count_step)
qed simp

text \<open>
  As long as the server's confirmations arrive while the chat list is watched, the
  attached session's commands leave the server subscribed to the list exactly while some
  client watches it.
\<close>

theorem session_follows_the_watched_list:
  assumes "timely hub_new ops"
  shows "case hub_session (foldl hub_step hub_new ops) of
     None \<Rightarrow> True
   | Some sent \<Rightarrow> replay_list sent = (0 < list_count ops 0)"
  using list_asked_run[OF _ assms] list_count_run[of hub_new ops]
  by (auto simp: list_asked_def hub_new_def split: option.splits)

theorem session_follows_the_watched_list_witness:
  "case hub_session (foldl hub_step hub_new
      [OWatchList, OAttach, OListConfirmed True, OWatchList, OUnwatchList]) of
     None \<Rightarrow> True | Some sent \<Rightarrow> replay_list sent = (0 < (1::nat))"
  using session_follows_the_watched_list[of
      "[OWatchList, OAttach, OListConfirmed True, OWatchList, OUnwatchList]"]
  by (simp add: hub_new_def watch_list_def attach_def note_list_def publish_list_def
      list_confirmed_def unwatch_list_def Let_def)

text \<open>
  A confirmation that arrives after the last watcher left is believed: the next client
  to watch the list is told it is live, although the session's last word to the server was
  to unsubscribe, and nothing asks the server again.
\<close>

theorem late_confirmation_silences_the_list:
  "let h = foldl hub_step hub_new
       [OAttach, OWatchList, OUnwatchList, OListConfirmed True, OWatchList]
   in list_watchers h = 1
      \<and> hub_session h = Some [WatchList, UnwatchList]
      \<and> last (hub_events h) = ChatsEvent (jobject [(''event'', JStr ''watching'')])"
  by (simp add: hub_new_def attach_def watch_list_def unwatch_list_def list_confirmed_def
      send_follow_def note_list_def publish_list_def Let_def)

section \<open>Properties of the checks\<close>

lemma contains_sub_iff: "contains_sub s p \<longleftrightarrow> (\<exists>a b. s = a @ p @ b)"
proof (induction s)
  case (Cons x xs)
  show ?case
  proof
    assume "contains_sub (x # xs) p"
    then consider "starts_with (x # xs) p" | "contains_sub xs p" by auto
    then show "\<exists>a b. x # xs = a @ p @ b"
    proof cases
      case 1
      then show ?thesis by (metis append_Nil starts_with_iff)
    next
      case 2
      then show ?thesis using Cons.IH by (metis append_Cons)
    qed
  next
    assume "\<exists>a b. x # xs = a @ p @ b"
    then obtain a b where e: "x # xs = a @ p @ b" by blast
    show "contains_sub (x # xs) p"
    proof (cases a)
      case Nil
      with e have "starts_with (x # xs) p" by (simp add: starts_with_iff)
      then show ?thesis by (simp only: contains_sub.simps simp_thms)
    next
      case (Cons y ys)
      with e have "xs = ys @ p @ b" by simp
      with Cons.IH show ?thesis by auto
    qed
  qed
qed simp

lemma contains_subI: "s = a @ p @ b \<Longrightarrow> contains_sub s p"
  using contains_sub_iff[of s p] by blast

lemma contains_subE: "contains_sub s p \<Longrightarrow> (\<And>a b. s = a @ p @ b \<Longrightarrow> thesis) \<Longrightarrow> thesis"
  using contains_sub_iff[of s p] by blast

lemma in_split_on_context:
  "q \<in> set (split_on c s) \<Longrightarrow> \<exists>a b. s = a @ q @ b"
proof (induction s arbitrary: q)
  case (Cons x xs)
  show ?case
  proof (cases "x = c")
    case True
    with Cons show ?thesis by (auto, metis append_Nil, metis append_Cons)
  next
    case False
    obtain p ps where s: "split_on c xs = p # ps"
      by (cases "split_on c xs") auto
    obtain t where t: "xs = p @ t"
    proof -
      have "xs = join_with c (p # ps)" by (metis s join_split_on)
      then show thesis using that by (cases ps) auto
    qed
    from Cons.prems False s consider "q = x # p" | "q \<in> set ps" by auto
    then show ?thesis
    proof cases
      case 1
      with t show ?thesis by (metis append_Cons append_Nil)
    next
      case 2
      with s Cons.IH[of q] show ?thesis by (metis append_Cons list.set_intros(2))
    qed
  qed
qed simp

lemma hd_split_on: "hd (split_on c s) = [] \<Longrightarrow> s = [] \<or> hd s = c"
  by (cases s) (auto split: list.splits if_splits)

lemma empty_piece:
  "[] \<in> set (tl (split_on c s)) \<Longrightarrow> s \<noteq> [] \<and> (last s = c \<or> contains_sub s [c, c])"
proof (induction s)
  case (Cons x xs)
  show ?case
  proof (cases "x = c")
    case True
    show ?thesis
    proof (cases "hd (split_on c xs) = []")
      case True
      with \<open>x = c\<close> show ?thesis
        using hd_split_on[of c xs] by (cases xs) auto
    next
      case False
      with True Cons.prems have "[] \<in> set (tl (split_on c xs))"
        by (cases "split_on c xs") auto
      with Cons.IH show ?thesis by auto
    qed
  next
    case False
    with Cons.prems have "[] \<in> set (tl (split_on c xs))"
      by (cases "split_on c xs") auto
    with Cons.IH show ?thesis by auto
  qed
qed simp

text \<open>
  An image path that is accepted is passed on as it is, lies below \<open>/assets\<close>, and all
  its components are plain: not empty, not a step up, and of harmless bytes only.
\<close>

theorem asset_paths_stay_in_assets:
  assumes "asset_path dbg p = Inr q"
  shows "q = p \<and> (\<exists>parts. parts \<noteq> [] \<and> split_on CHR ''/'' p = [] # ''assets'' # parts
     \<and> list_all (\<lambda>x. x \<noteq> [] \<and> x \<noteq> ''..'' \<and> list_all is_asset_byte x) parts)"
proof -
  from assms have q: "q = p" and ok: "asset_ok p"
    by (auto simp: asset_path_def split: if_splits)
  obtain rest where p: "p = ''/assets/'' @ rest" and r: "rest \<noteq> []" "last rest \<noteq> CHR ''/''"
  proof (cases "strip_prefix ''/assets/'' p")
    case None
    with ok show thesis by (simp add: asset_ok_def)
  next
    case (Some rest)
    with ok have "rest \<noteq> [] \<and> last rest \<noteq> CHR ''/''" by (simp add: asset_ok_def)
    with that Some show thesis unfolding strip_prefix_Some by blast
  qed
  let ?parts = "split_on CHR ''/'' rest"
  have s: "split_on CHR ''/'' p = [] # ''assets'' # ?parts"
    by (simp add: p)
  have cs: "\<not> contains_sub p ''..''" "\<not> contains_sub p ''//''" "list_all is_asset_byte p"
    using ok by (auto simp: asset_ok_def)
  have "x \<noteq> []" if "x \<in> set ?parts" for x
  proof
    assume "x = []"
    with that have e: "[] \<in> set (tl (split_on CHR ''/'' (''/'' @ rest)))" by simp
    have "contains_sub (''/'' @ rest) ''//''"
        using empty_piece[OF e] r by auto
    then obtain a b where "''/'' @ rest = a @ ''//'' @ b" by (rule contains_subE)
    then have "p = (''/assets'' @ a) @ ''//'' @ b" unfolding p by (metis append_assoc append_Cons append_Nil)
    from contains_subI[OF this] cs(2) show False by contradiction
  qed
  moreover have "x \<noteq> ''..''" if "x \<in> set ?parts" for x
  proof
    assume "x = ''..''"
    with that have "''..'' \<in> set ?parts" by (simp only:)
    then obtain a b where "rest = a @ ''..'' @ b" by (rule exE[OF in_split_on_context]) (erule exE)
    then have "p = (''/assets/'' @ a) @ ''..'' @ b" unfolding p by simp
    from contains_subI[OF this] cs(1) show False by contradiction
  qed
  moreover have "list_all is_asset_byte x" if "x \<in> set ?parts" for x
    using split_on_subset[OF that] cs(3) by (auto simp: p list_all_iff)
  ultimately show ?thesis
    by (intro conjI q exI[of _ ?parts] s) (auto simp: list_all_iff)
qed

theorem asset_paths_stay_in_assets_witness:
  "\<exists>parts. split_on CHR ''/'' ''/assets/a-1.png'' = [] # ''assets'' # parts \<and> parts \<noteq> []"
proof -
  have "asset_path (\<lambda>s. s) ''/assets/a-1.png'' = Inr ''/assets/a-1.png''"
    by (simp add: asset_path_def asset_ok_def strip_prefix_def is_asset_byte_def
        is_ascii_alnum_def is_ascii_digit_def is_ascii_lower_def of_char_def)
  from asset_paths_stay_in_assets[OF this] show ?thesis by blast
qed

text \<open>What a download path that is accepted is made of.\<close>

lemma download_path_parts:
  assumes "download_path decode p = Inr q"
  obtains signed filename name where
    "p = ''/rails/active_storage/blobs/proxy/'' @ signed @ ''/'' @ filename
         @ ''?disposition=attachment''"
    and "signed \<noteq> []" and "list_all is_signed_byte signed"
    and "decode filename = Some name" and "safe_name name" and "CHR ''?'' \<notin> set filename"
proof -
  from assms have "download_ok decode p" by (auto simp: download_path_def split: if_splits)
  then obtain r1 r2 signed filename name where
    r: "strip_prefix ''/rails/active_storage/blobs/proxy/'' p = Some r1"
      "strip_suffix ''?disposition=attachment'' r1 = Some r2"
      "split_once CHR ''/'' r2 = Some (signed, filename)"
    and s: "signed \<noteq> []" "list_all is_signed_byte signed" "decode filename = Some name"
      "safe_name name" "\<not> list_ex (\<lambda>c. c \<in> {CHR ''?'', CHR ''#'', CHR 0x5C}) filename"
    unfolding download_ok_def by (auto split: if_splits option.splits prod.splits)
  have suf: "strip_suffix x y = Some z \<Longrightarrow> y = z @ x" for x y z :: string
    by (auto simp: strip_suffix_def strip_prefix_Some) (metis rev_append rev_rev_ident)
  have "p = ''/rails/active_storage/blobs/proxy/'' @ signed @ ''/'' @ filename
         @ ''?disposition=attachment''"
    using r(1) suf[OF r(2)] split_once_Some[OF r(3)]
    unfolding strip_prefix_Some by simp
  with s that show thesis by (auto simp: list_ex_iff)
qed

end
