(* ===== verification/DeliveryClient.thy ===== *)
theory DeliveryClient
  imports DeliveryFacts
begin

text \<open>
  The daemon's side of notification delivery: \<open>Client\<close> and \<open>Session\<close> of
  \<open>src/src/notification_delivery.rs\<close>. A session owns the route while its generation is the
  route's; the client keeps eight places of its command channel free for the messages that
  open and close connections. The size of a serialised command, and the JSON form of a
  server event, are parameters.
\<close>

record route =
  r_generation :: nat
  r_actions :: "json chan"

record client =
  c_commands :: "input chan"
  c_status :: status
  c_route :: "route option"
  c_sequence :: nat
  c_ended :: bool

record client_libs =
  frame_len :: "input \<Rightarrow> nat option"
  event_of :: "json \<Rightarrow> server_event option"
  event_json :: "server_event \<Rightarrow> json option"

definition client_new :: "input chan \<Rightarrow> client" where
  "client_new commands = \<lparr>c_commands = commands, c_status = default_status, c_route = None,
     c_sequence = 1, c_ended = False\<rparr>"

definition route_is :: "nat \<Rightarrow> client \<Rightarrow> bool" where
  "route_is g c \<longleftrightarrow> map_option r_generation (c_route c) = Some g"

definition raw_send :: "input \<Rightarrow> client \<Rightarrow> bool \<times> client" where
  "raw_send x c = (let (taken, ch) = try_send x (c_commands c) in (taken, c\<lparr>c_commands := ch\<rparr>))"

text \<open>The consumer task's reaction to one event from the bridge.\<close>

definition consume :: "bridge_out \<Rightarrow> client \<Rightarrow> client" where
  "consume ev c = (case ev of
     StatusOut status \<Rightarrow> c\<lparr>c_status := status\<rparr>
   | Action generation data \<Rightarrow>
       (case c_route c of
          Some current \<Rightarrow>
            if r_generation current = generation
            then (let (taken, ch) = try_send data (r_actions current)
                  in if taken then c\<lparr>c_route := Some (current\<lparr>r_actions := ch\<rparr>)\<rparr>
                     else snd (raw_send (Detach generation) (c\<lparr>c_route := None\<rparr>)))
            else c
        | None \<Rightarrow> c)
   | Disconnected generation \<Rightarrow> if route_is generation c then c\<lparr>c_route := None\<rparr> else c
   | ResetOut \<Rightarrow> c)"

definition consumer_ended :: "client \<Rightarrow> client" where
  "consumer_ended c = c\<lparr>c_status := default_status, c_route := None, c_ended := True\<rparr>"

definition fits_frame :: "client_libs \<Rightarrow> input \<Rightarrow> bool" where
  "fits_frame L x = (case frame_len L x of Some n \<Rightarrow> n < MAX_FRAME_BYTES | None \<Rightarrow> False)"

fun is_boundary :: "input \<Rightarrow> bool" where
  "is_boundary (Attach _ _ _) = True"
| "is_boundary (Detach _) = True"
| "is_boundary _ = False"

definition client_send :: "client_libs \<Rightarrow> input \<Rightarrow> client \<Rightarrow> (string + unit) \<times> client" where
  "client_send L x c =
     (if \<not> fits_frame L x then (Inl ''Notification frame too large'', c)
      else if \<not> is_boundary x \<and> room (c_commands c) \<le> 8
      then (Inl ''Notifications are temporarily unavailable'', c)
      else (case raw_send x c of
              (True, c) \<Rightarrow> (Inr (), c)
            | (False, c) \<Rightarrow> (Inl ''Notifications are temporarily unavailable'', c)))"

definition client_permission :: "client_libs \<Rightarrow> bool \<Rightarrow> client \<Rightarrow> (string + unit) \<times> client" where
  "client_permission L request c = client_send L (PermissionInput request) c"

definition client_view ::
  "client_libs \<Rightarrow> string \<Rightarrow> string \<Rightarrow> nat \<Rightarrow> bool \<Rightarrow> client \<Rightarrow> (string + unit) \<times> client" where
  "client_view L session account chat visible c =
     (if \<not> valid_session session \<or> \<not> valid_account account \<or> chat = 0
      then (Inl (''That notification view isn'' @ [CHR 0x27] @ ''t valid''), c)
      else client_send L (ViewInput session account chat visible) c)"

text \<open>
  \<open>fetch_add\<close> wraps at \<open>2 ^ 64\<close>. When the command is refused the route stays behind, but
  the receiving end of its channel is gone, so nothing fits in it.
\<close>

definition client_attach ::
  "client_libs \<Rightarrow> string \<Rightarrow> string \<Rightarrow> client \<Rightarrow> (string + nat) \<times> client" where
  "client_attach L origin device_id c =
     (let g = c_sequence c;
          c = c\<lparr>c_sequence := (g + 1) mod (u64_max + 1),
                c_route := Some \<lparr>r_generation = g, r_actions = channel 64\<rparr>\<rparr>
      in case client_send L (Attach g origin device_id) c of
           (Inr _, c) \<Rightarrow> (Inr g, c)
         | (Inl e, c) \<Rightarrow> (Inl e, c\<lparr>c_route := Some \<lparr>r_generation = g, r_actions = channel 0\<rparr>\<rparr>))"

definition session_receive :: "client_libs \<Rightarrow> nat \<Rightarrow> json \<Rightarrow> client \<Rightarrow> (string + unit) \<times> client" where
  "session_receive L g ev c = (case event_of L ev of
     None \<Rightarrow> (Inr (), c)
   | Some e \<Rightarrow>
       if \<not> valid_event e then (Inr (), c)
       else (case event_json L e of
               None \<Rightarrow> (Inl ''serialization'', c)
             | Some j \<Rightarrow>
                 if \<not> fits_frame L (Server g j) then (Inr (), c)
                 else client_send L (Server g j) c))"

definition session_drop :: "client_libs \<Rightarrow> nat \<Rightarrow> client \<Rightarrow> client" where
  "session_drop L g c =
     snd (client_send L (Detach g) (if route_is g c then c\<lparr>c_route := None\<rparr> else c))"

section \<open>Room for the boundaries\<close>

lemma client_send_room:
  "room (c_commands (snd (client_send L x c))) =
     (case fst (client_send L x c) of Inr _ \<Rightarrow> room (c_commands c) - 1 | Inl _ \<Rightarrow> room (c_commands c))"
  by (auto simp: client_send_def raw_send_def try_send_def Let_def)

lemma client_send_keeps_room:
  "\<not> is_boundary x \<Longrightarrow> k \<le> 8 \<Longrightarrow> k \<le> room (c_commands c)
   \<Longrightarrow> k \<le> room (c_commands (snd (client_send L x c)))"
  by (auto simp: client_send_def raw_send_def try_send_def Let_def)

lemma client_send_boundary:
  "is_boundary x \<Longrightarrow> fits_frame L x \<Longrightarrow> 0 < room (c_commands c)
   \<Longrightarrow> fst (client_send L x c) = Inr ()"
  by (auto simp: client_send_def raw_send_def try_send_def Let_def)

fun send_all :: "client_libs \<Rightarrow> client \<Rightarrow> input list \<Rightarrow> (input \<times> (string + unit)) list" where
  "send_all L c [] = []"
| "send_all L c (x # xs) =
     (x, fst (client_send L x c)) # send_all L (snd (client_send L x c)) xs"

lemma boundaries_fit:
  "k \<le> 8 \<Longrightarrow> k \<le> room (c_commands c) \<Longrightarrow> length (filter is_boundary xs) \<le> k
   \<Longrightarrow> (x, r) \<in> set (send_all L c xs) \<Longrightarrow> is_boundary x \<Longrightarrow> fits_frame L x \<Longrightarrow> r = Inr ()"
proof (induction xs arbitrary: c k)
  case (Cons y ys)
  let ?c = "snd (client_send L y c)"
  show ?case
  proof (cases "is_boundary y")
    case True
    then have k: "0 < k" using Cons.prems(3) by simp
    have "k - 1 \<le> room (c_commands ?c)"
      using Cons.prems(2) by (auto simp: client_send_room split: sum.split)
    moreover have "length (filter is_boundary ys) \<le> k - 1" using Cons.prems(3) True by simp
    ultimately show ?thesis
      using Cons.IH[of "k - 1" ?c] Cons.prems True k client_send_boundary[of y L c]
      by auto
  next
    case False
    then have "k \<le> room (c_commands ?c)"
      using client_send_keeps_room Cons.prems(1,2) by blast
    with False Cons.IH[of k ?c] Cons.prems show ?thesis by auto
  qed
qed simp

text \<open>
  However many views, permission requests and server events the daemon queues while the
  worker reads nothing, the channel keeps room for opening and closing connections: with 128
  places at the start, the next eight attachments and detachments are all accepted.
\<close>

theorem connection_boundaries_always_fit:
  assumes "length (filter is_boundary xs) \<le> 8"
    and "(x, r) \<in> set (send_all L (client_new (channel CAPACITY)) xs)"
    and "is_boundary x" and "fits_frame L x"
  shows "r = Inr ()"
  by (rule boundaries_fit[OF _ _ assms(1), of _ x r L])
    (use assms in \<open>simp_all add: client_new_def channel_def CAPACITY_def\<close>)

theorem connection_boundaries_always_fit_witness:
  "fst (client_send \<lparr>frame_len = \<lambda>_. Some 10, event_of = \<lambda>_. None, event_json = \<lambda>_. None\<rparr>
     (Detach 1) (client_new (channel CAPACITY))) = Inr ()"
proof -
  let ?L = "\<lparr>frame_len = \<lambda>_. Some 10, event_of = \<lambda>_. None, event_json = \<lambda>_. None\<rparr>"
  let ?c = "client_new (channel CAPACITY)"
  have "(Detach 1, fst (client_send ?L (Detach 1) ?c)) \<in> set (send_all ?L ?c [Detach 1])" by simp
  from connection_boundaries_always_fit[OF _ this] show ?thesis
    by (simp add: fits_frame_def MAX_FRAME_BYTES_def)
qed

section \<open>Sessions do not disturb each other\<close>

lemma raw_send_route [simp]: "c_route (snd (raw_send x c)) = c_route c"
  "c_sequence (snd (raw_send x c)) = c_sequence c"
  by (simp_all add: raw_send_def split_def Let_def)

lemma client_send_route [simp]: "c_route (snd (client_send L x c)) = c_route c"
  "c_sequence (snd (client_send L x c)) = c_sequence c"
  by (simp_all add: client_send_def raw_send_def try_send_def Let_def)

lemma stale_drop_keeps_route: "\<not> route_is g c \<Longrightarrow> c_route (session_drop L g c) = c_route c"
  by (simp add: session_drop_def)

lemma stale_action_keeps_route: "\<not> route_is g c \<Longrightarrow> consume (Action g d) c = c"
  by (auto simp: consume_def route_is_def split: option.splits)

lemma attach_owns_route:
  "fst (client_attach L origin device c) = Inr g \<Longrightarrow>
     g = c_sequence c \<and> route_is g (snd (client_attach L origin device c))"
  by (auto simp: client_attach_def client_send_def raw_send_def try_send_def Let_def route_is_def
      split: if_splits)

end
