(* ===== verification/Session.thy ===== *)
theory Session
  imports Framing Chats DeliveryClient
begin

text \<open>
  \<open>src/src/tunnel/session.rs\<close>: one WebSocket session, as the event loop \<open>run_session\<close>
  written out: the state is what the loop's variables and channels hold, \<open>wire\<close> is what was
  sent on the socket, and each turn of \<open>select!\<close> is a \<open>session_step\<close> on the branch that was
  ready. The MCP server (\<open>rmcp\<close>) is outside: its inbox is \<open>mcp_in\<close>, what it and \<open>accept\<close>
  queue to be sent is \<open>mcp_out\<close>. Its message types are parameters (\<open>rmcp_libs\<close>).
\<close>

definition PING_EVERY :: duration where "PING_EVERY = secs 20"
definition IDLE_TIMEOUT :: duration where "IDLE_TIMEOUT = secs 60"
definition CLOSE_REAUTHENTICATE :: nat where "CLOSE_REAUTHENTICATE = 4001"
definition CLOSE_REVOKED :: nat where "CLOSE_REVOKED = 4003"

datatype session_end =
    EndClosed "nat option" string
  | EndUnauthorized string
  | EndIdle
  | EndShutdown
  | EndError string

datatype rpc_error = MessageTooLarge | MethodNotFound | ResponseTooLarge

datatype server_message = Reply json | ErrorReply "json option" rpc_error

record rmcp_libs =
  request_id :: "json \<Rightarrow> json option"
  client_message :: "json \<Rightarrow> bool"
  message_text :: "server_message \<Rightarrow> string option"

datatype wire_frame = WText string | WPing | WClose

record session =
  files_allowed :: bool
  framing_of :: framing
  max_message_bytes :: nat
  chats :: "hub option"
  follows :: "nat option"
  notifications :: "nat option"
  notify_client :: client
  last_seen :: instant
  mcp_in :: "json list"
  mcp_out :: "server_message list"
  wire :: "wire_frame list"

section \<open>JSON-RPC messages\<close>

definition error_reply :: "json option \<Rightarrow> rpc_error \<Rightarrow> server_message" where
  "error_reply i e = ErrorReply i e"

text \<open>What \<open>accept\<close> replies at once, and the message it hands to the MCP server.\<close>

definition accept :: "json_lib \<Rightarrow> rmcp_libs \<Rightarrow> json \<Rightarrow> nat \<Rightarrow> server_message option \<times> json option" where
  "accept J R v max_bytes =
     (let i = Option.bind (get v ''id'') (request_id R);
          is_request = (get v ''method'' \<noteq> None \<and> i \<noteq> None)
      in if get v ''method'' = None then (None, None)
         else if max_bytes < length (to_text J v)
         then (if is_request then Some (error_reply i MessageTooLarge) else None, None)
         else if client_message R v then (None, Some v)
         else (if is_request then Some (error_reply i MethodNotFound) else None, None))"

definition serialize_capped :: "json_lib \<Rightarrow> rmcp_libs \<Rightarrow> server_message \<Rightarrow> nat \<Rightarrow> string option" where
  "serialize_capped J R msg max_bytes = (case message_text R msg of
     None \<Rightarrow> None
   | Some text \<Rightarrow>
       if length text \<le> max_bytes then Some text
       else (case Option.bind (Option.bind (from_str J text) (\<lambda>v. get v ''id'')) (request_id R) of
               None \<Rightarrow> None
             | Some i \<Rightarrow> message_text R (error_reply (Some i) ResponseTooLarge)))"

section \<open>The loop\<close>

datatype ws_item =
    StreamEnd
  | StreamError string
  | CloseFrame "(nat \<times> string) option"
  | TextFrame string
  | OtherFrame

text \<open>The branch of \<open>select!\<close> that is ready. \<open>McpSays\<close> and \<open>HubDoes\<close> happen beside the loop.\<close>

datatype session_event =
    Shutdown
  | Incoming ws_item
  | Outgoing
  | McpStopped
  | NextAction "json option"
  | NextFollow
  | PingTick
  | McpSays server_message
  | HubDoes hub_op

text \<open>What the loop decides after a branch: go on, or end the session.\<close>

type_synonym turn = "session \<times> session_end option"

definition send_wire :: "string option \<Rightarrow> wire_frame \<Rightarrow> session \<Rightarrow> turn" where
  "send_wire fault f s = (case fault of
     None \<Rightarrow> (s\<lparr>wire := wire s @ [f]\<rparr>, None)
   | Some e \<Rightarrow> (s, Some (EndError e)))"

definition on_hub :: "(hub \<Rightarrow> hub) \<Rightarrow> session \<Rightarrow> session" where
  "on_hub f s = s\<lparr>chats := map_option f (chats s)\<rparr>"

definition on_inbound :: "json_lib \<Rightarrow> rmcp_libs \<Rightarrow> client_libs \<Rightarrow> inbound \<Rightarrow> session \<Rightarrow> turn" where
  "on_inbound J R C m s = (case m of
     Mcp v \<Rightarrow>
       if files_allowed s
       then (let (reply, msg) = accept J R v (max_message_bytes s)
             in (s\<lparr>mcp_out := mcp_out s @ (case reply of Some r \<Rightarrow> [r] | None \<Rightarrow> []),
                   mcp_in := mcp_in s @ (case msg of Some x \<Rightarrow> [x] | None \<Rightarrow> [])\<rparr>, None))
       else (s, None)
   | Rejected \<Rightarrow> (s, Some (EndUnauthorized ''subscription rejected''))
   | Chat c u \<Rightarrow> (on_hub (publish c u) s, None)
   | ChatConfirmed c \<Rightarrow> (on_hub (note_chat c ''watching'') s, None)
   | ChatRejected c \<Rightarrow> (on_hub (note_chat c ''refused'') s, None)
   | ChatList u \<Rightarrow> (on_hub (publish_list u) s, None)
   | ChatListConfirmed \<Rightarrow> (on_hub (list_confirmed True) s, None)
   | ChatListRejected \<Rightarrow> (on_hub (list_confirmed False) s, None)
   | Notification ev \<Rightarrow>
       (case notifications s of
          None \<Rightarrow> (s, None)
        | Some g \<Rightarrow>
            (case session_receive C g ev (notify_client s) of
               (Inr _, c) \<Rightarrow> (s\<lparr>notify_client := c\<rparr>, None)
             | (Inl _, c) \<Rightarrow> (s\<lparr>notify_client := c\<rparr>,
                              Some (EndError ''notification delivery stopped''))))
   | NotificationsRejected \<Rightarrow>
       (case notifications s of
          None \<Rightarrow> (s, None)
        | Some g \<Rightarrow> (s\<lparr>notifications := None, notify_client := session_drop C g (notify_client s)\<rparr>, None))
   | NotificationsConfirmed \<Rightarrow> (s, None)
   | Disconnect reason reconnect \<Rightarrow>
       (s, Some (if \<not> reconnect \<or> reason = ''unauthorized'' then EndUnauthorized reason
                 else EndClosed None reason))
   | Welcome \<Rightarrow> (s, None)
   | Ping \<Rightarrow> (s, None)
   | Confirmed \<Rightarrow> (s, None)
   | Ignored \<Rightarrow> (s, None))"

definition on_item :: "json_lib \<Rightarrow> rmcp_libs \<Rightarrow> client_libs \<Rightarrow> ws_item \<Rightarrow> session \<Rightarrow> turn" where
  "on_item J R C x s = (case x of
     StreamEnd \<Rightarrow> (s, Some (EndClosed None ''connection lost''))
   | StreamError e \<Rightarrow> (s, Some (EndError e))
   | CloseFrame fr \<Rightarrow>
       (let code = map_option fst fr; reason = (case fr of Some (_, r) \<Rightarrow> r | None \<Rightarrow> [])
        in (s, Some (if code = Some CLOSE_REVOKED \<or> code = Some CLOSE_REAUTHENTICATE
                     then EndUnauthorized reason else EndClosed code reason)))
   | TextFrame text \<Rightarrow> on_inbound J R C (decode J (framing_of s) text) s
   | OtherFrame \<Rightarrow> (s, None))"

definition follow_frame :: "json_lib \<Rightarrow> framing \<Rightarrow> follow \<Rightarrow> string option" where
  "follow_frame J f w = (case w of
     Watch c \<Rightarrow> follow_chat J f c
   | Unwatch c \<Rightarrow> unfollow_chat J f c
   | WatchList \<Rightarrow> follow_chats J f
   | UnwatchList \<Rightarrow> unfollow_chats J f)"

definition on_follow :: "json_lib \<Rightarrow> string option \<Rightarrow> follow \<Rightarrow> session \<Rightarrow> turn" where
  "on_follow J fault w s = (case follow_frame J (framing_of s) w of
     Some frame \<Rightarrow> send_wire fault (WText frame) s
   | None \<Rightarrow> (case w of
       Watch c \<Rightarrow> (on_hub (note_chat c ''unsupported'') s, None)
     | WatchList \<Rightarrow> (on_hub (note_list ''unsupported'') s, None)
     | _ \<Rightarrow> (s, None)))"

text \<open>
  The hub's commands are read in order; \<open>follows\<close> is how many this session has read. With
  none left the branch is not ready; a hub that has another session has dropped the sender.
\<close>

definition next_follow :: "json_lib \<Rightarrow> string option \<Rightarrow> session \<Rightarrow> turn" where
  "next_follow J fault s = (case follows s of
     None \<Rightarrow> (s, None)
   | Some k \<Rightarrow>
       (case Option.bind (chats s) hub_session of
          None \<Rightarrow> (s\<lparr>follows := None\<rparr>, None)
        | Some sent_to \<Rightarrow>
            if k < length sent_to
            then on_follow J fault (sent_to ! k) (s\<lparr>follows := Some (k + 1)\<rparr>)
            else (s, None)))"

definition session_step ::
  "json_lib \<Rightarrow> rmcp_libs \<Rightarrow> client_libs \<Rightarrow> instant \<Rightarrow> string option \<Rightarrow> session_event \<Rightarrow> session \<Rightarrow> turn" where
  "session_step J R C now fault e s = (case e of
     Shutdown \<Rightarrow> (fst (send_wire fault WClose s), Some EndShutdown)
   | Incoming x \<Rightarrow> on_item J R C x (s\<lparr>last_seen := now\<rparr>)
   | Outgoing \<Rightarrow>
       (case mcp_out s of
          [] \<Rightarrow> (s, None)
        | msg # rest \<Rightarrow>
            (let s = s\<lparr>mcp_out := rest\<rparr>
             in case serialize_capped J R msg (max_message_bytes s) of
                  None \<Rightarrow> (s, None)
                | Some text \<Rightarrow> send_wire fault (WText (encode J (framing_of s) text)) s))
   | McpStopped \<Rightarrow> (s, Some (EndError ''MCP server stopped''))
   | NextAction next \<Rightarrow>
       (case notifications s of
          None \<Rightarrow> (s, None)
        | Some _ \<Rightarrow>
            (case next of
               None \<Rightarrow> (s, Some (EndError ''notification delivery needs to reconnect''))
             | Some data \<Rightarrow>
                 (case notification_action J (framing_of s) data of
                    Some frame \<Rightarrow> send_wire fault (WText frame) s
                  | None \<Rightarrow> (s, None))))
   | NextFollow \<Rightarrow> next_follow J fault s
   | PingTick \<Rightarrow>
       if IDLE_TIMEOUT < now - last_seen s then (s, Some EndIdle)
       else send_wire fault WPing s
   | McpSays msg \<Rightarrow> (if files_allowed s then s\<lparr>mcp_out := mcp_out s @ [msg]\<rparr> else s, None)
   | HubDoes op \<Rightarrow> (on_hub (\<lambda>h. hub_step h op) s, None))"

text \<open>Before the loop: what is sent first, and the refusal of chat-only sessions without Action Cable.\<close>

definition opening_text :: "json_lib \<Rightarrow> bool \<Rightarrow> framing \<Rightarrow> nat option \<Rightarrow> string list" where
  "opening_text J files f notify =
     (if files then opening_frames J f else [])
     @ (if notify \<noteq> None then (case follow_notifications J f of Some x \<Rightarrow> [x] | None \<Rightarrow> []) else [])"

definition session_start ::
  "json_lib \<Rightarrow> bool \<Rightarrow> framing \<Rightarrow> nat \<Rightarrow> hub option \<Rightarrow> nat option \<Rightarrow> client \<Rightarrow> instant
     \<Rightarrow> session_end + session" where
  "session_start J files f max_bytes hub notify c now =
     (if \<not> files \<and> f \<noteq> ActionCable
      then Inl (EndError ''chat-only connections require Action Cable framing'')
      else Inr \<lparr>files_allowed = files, framing_of = f, max_message_bytes = max_bytes,
                chats = map_option attach hub,
                follows = (if hub = None then None else Some 0),
                notifications = notify, notify_client = c, last_seen = now, mcp_in = [], mcp_out = [],
                wire = map WText (opening_text J files f notify)\<rparr>)"

text \<open>After the loop the hub's followers are told to wait, and the notification session ends.\<close>

definition session_finish :: "client_libs \<Rightarrow> session \<Rightarrow> session" where
  "session_finish C s =
     (let s = on_hub detach s
      in case notifications s of
           None \<Rightarrow> s
         | Some g \<Rightarrow> s\<lparr>notifications := None, notify_client := session_drop C g (notify_client s)\<rparr>)"

text \<open>A run of the loop: the events in the order \<open>select!\<close> takes them, until one ends it.\<close>

fun run_session ::
  "json_lib \<Rightarrow> rmcp_libs \<Rightarrow> client_libs \<Rightarrow> (instant \<times> string option \<times> session_event) list
     \<Rightarrow> session \<Rightarrow> turn" where
  "run_session J R C [] s = (s, None)"
| "run_session J R C ((now, fault, e) # es) s =
     (case session_step J R C now fault e s of
        (s', None) \<Rightarrow> run_session J R C es s'
      | (s', Some en) \<Rightarrow> (session_finish C s', Some en))"

end
