(* ===== verification/SessionFacts.thy ===== *)
theory SessionFacts
  imports Session "HOL-Library.Sublist"
begin

text \<open>
  What holds of a WebSocket session over its whole run, as invariants of the loop: a chat-only
  session never touches the tools; what reaches the MCP server was broadcast on the device's
  channel, is well formed and within the size limit; the hub's commands reach the server in
  order; a session that has heard nothing for a minute ends at the next ping.
\<close>

locale session_invariant =
  fixes J :: json_lib and R :: rmcp_libs and C :: client_libs
    and allowed :: "session_event \<Rightarrow> bool" and inv :: "session \<Rightarrow> bool"
  assumes step: "inv s \<Longrightarrow> allowed e \<Longrightarrow> inv (fst (session_step J R C now fault e s))"
    and finish: "inv s \<Longrightarrow> inv (session_finish C s)"
begin

lemma run_keeps:
  "inv s \<Longrightarrow> list_all (\<lambda>(_, _, e). allowed e) es \<Longrightarrow> inv (fst (run_session J R C es s))"
proof (induction es arbitrary: s)
  case (Cons x es)
  obtain now fault e where x: "x = (now, fault, e)" by (metis prod_cases3)
  obtain s' r where s': "session_step J R C now fault e s = (s', r)" by force
  have "inv s'" using step[OF Cons.prems(1), of e now fault] Cons.prems(2) x s' by simp
  with Cons x s' finish show ?case by (cases r) auto
qed simp

end

section \<open>What the branches leave alone\<close>

lemma send_wire_keeps [simp]:
  "files_allowed (fst (send_wire fault f s)) = files_allowed s"
  "framing_of (fst (send_wire fault f s)) = framing_of s"
  "max_message_bytes (fst (send_wire fault f s)) = max_message_bytes s"
  "mcp_in (fst (send_wire fault f s)) = mcp_in s"
  "mcp_out (fst (send_wire fault f s)) = mcp_out s"
  "chats (fst (send_wire fault f s)) = chats s"
  "follows (fst (send_wire fault f s)) = follows s"
  "last_seen (fst (send_wire fault f s)) = last_seen s"
  by (auto simp: send_wire_def split: option.splits)

lemma on_hub_keeps [simp]:
  "files_allowed (on_hub f s) = files_allowed s" "framing_of (on_hub f s) = framing_of s"
  "max_message_bytes (on_hub f s) = max_message_bytes s" "mcp_in (on_hub f s) = mcp_in s"
  "mcp_out (on_hub f s) = mcp_out s" "wire (on_hub f s) = wire s"
  "follows (on_hub f s) = follows s" "last_seen (on_hub f s) = last_seen s"
  "chats (on_hub f s) = map_option f (chats s)"
  by (simp_all add: on_hub_def)

lemma on_follow_keeps [simp]:
  "files_allowed (fst (on_follow J fault w s)) = files_allowed s"
  "framing_of (fst (on_follow J fault w s)) = framing_of s"
  "max_message_bytes (fst (on_follow J fault w s)) = max_message_bytes s"
  "mcp_in (fst (on_follow J fault w s)) = mcp_in s"
  "mcp_out (fst (on_follow J fault w s)) = mcp_out s"
  "follows (fst (on_follow J fault w s)) = follows s"
  "last_seen (fst (on_follow J fault w s)) = last_seen s"
  by (auto simp: on_follow_def split: option.splits follow.splits)

lemma next_follow_keeps [simp]:
  "files_allowed (fst (next_follow J fault s)) = files_allowed s"
  "framing_of (fst (next_follow J fault s)) = framing_of s"
  "max_message_bytes (fst (next_follow J fault s)) = max_message_bytes s"
  "mcp_in (fst (next_follow J fault s)) = mcp_in s"
  "mcp_out (fst (next_follow J fault s)) = mcp_out s"
  "last_seen (fst (next_follow J fault s)) = last_seen s"
  by (auto simp: next_follow_def split: option.splits)

lemma on_inbound_keeps [simp]:
  "files_allowed (fst (on_inbound J R C m s)) = files_allowed s"
  "framing_of (fst (on_inbound J R C m s)) = framing_of s"
  "max_message_bytes (fst (on_inbound J R C m s)) = max_message_bytes s"
  "wire (fst (on_inbound J R C m s)) = wire s"
  "follows (fst (on_inbound J R C m s)) = follows s"
  "last_seen (fst (on_inbound J R C m s)) = last_seen s"
  by (auto simp: on_inbound_def split: inbound.splits option.splits prod.splits sum.splits)

lemma on_inbound_mcp:
  "mcp_in (fst (on_inbound J R C m s)) = mcp_in s @ (case m of
     Mcp v \<Rightarrow> if files_allowed s
       then (case snd (accept J R v (max_message_bytes s)) of Some x \<Rightarrow> [x] | None \<Rightarrow> []) else []
   | _ \<Rightarrow> [])"
  "\<not> files_allowed s \<Longrightarrow> mcp_out (fst (on_inbound J R C m s)) = mcp_out s"
  by (auto simp: on_inbound_def split: inbound.splits option.splits prod.splits sum.splits)

lemma on_item_keeps [simp]:
  "files_allowed (fst (on_item J R C x s)) = files_allowed s"
  "framing_of (fst (on_item J R C x s)) = framing_of s"
  "max_message_bytes (fst (on_item J R C x s)) = max_message_bytes s"
  "wire (fst (on_item J R C x s)) = wire s"
  "follows (fst (on_item J R C x s)) = follows s"
  "last_seen (fst (on_item J R C x s)) = last_seen s"
  "\<not> files_allowed s \<Longrightarrow> mcp_out (fst (on_item J R C x s)) = mcp_out s"
  by (auto simp: on_item_def on_inbound_mcp Let_def split: ws_item.splits)

definition taken ::
  "json_lib \<Rightarrow> rmcp_libs \<Rightarrow> bool \<Rightarrow> framing \<Rightarrow> nat \<Rightarrow> ws_item \<Rightarrow> json list" where
  "taken J R files f n x = (case x of
     TextFrame text \<Rightarrow> (case decode J f text of
       Mcp v \<Rightarrow> if files
         then (case snd (accept J R v n) of Some x \<Rightarrow> [x] | None \<Rightarrow> []) else []
     | _ \<Rightarrow> [])
   | _ \<Rightarrow> [])"

lemma on_item_mcp:
  "mcp_in (fst (on_item J R C x s))
     = mcp_in s @ taken J R (files_allowed s) (framing_of s) (max_message_bytes s) x"
  by (auto simp: on_item_def on_inbound_mcp taken_def Let_def split: ws_item.splits)

lemma session_step_keeps [simp]:
  "files_allowed (fst (session_step J R C now fault e s)) = files_allowed s"
  "framing_of (fst (session_step J R C now fault e s)) = framing_of s"
  "max_message_bytes (fst (session_step J R C now fault e s)) = max_message_bytes s"
  by (auto simp: session_step_def Let_def split: session_event.splits list.splits option.splits)

lemma session_finish_keeps [simp]:
  "files_allowed (session_finish C s) = files_allowed s"
  "framing_of (session_finish C s) = framing_of s"
  "max_message_bytes (session_finish C s) = max_message_bytes s"
  "mcp_in (session_finish C s) = mcp_in s" "mcp_out (session_finish C s) = mcp_out s"
  "wire (session_finish C s) = wire s"
  by (auto simp: session_finish_def Let_def split: option.splits)

lemma session_step_mcp:
  "mcp_in (fst (session_step J R C now fault e s)) = mcp_in s @ (case e of
     Incoming x \<Rightarrow> taken J R (files_allowed s) (framing_of s) (max_message_bytes s) x | _ \<Rightarrow> [])"
  by (auto simp: session_step_def on_item_mcp Let_def
      split: session_event.splits list.splits option.splits)

section \<open>Chat-only sessions\<close>

text \<open>The frames a session without files may put on the wire.\<close>

definition chat_frame :: "json_lib \<Rightarrow> wire_frame \<Rightarrow> bool" where
  "chat_frame J x \<longleftrightarrow> (case x of
     WText t \<Rightarrow> (\<exists>w. follow_frame J ActionCable w = Some t)
       \<or> follow_notifications J ActionCable = Some t
       \<or> (\<exists>d. notification_action J ActionCable d = Some t)
   | _ \<Rightarrow> True)"

definition chat_only :: "json_lib \<Rightarrow> session \<Rightarrow> bool" where
  "chat_only J s \<longleftrightarrow> \<not> files_allowed s \<and> framing_of s = ActionCable
     \<and> mcp_in s = [] \<and> mcp_out s = [] \<and> list_all (chat_frame J) (wire s)"

lemma chat_only_send:
  "chat_only J s \<Longrightarrow> chat_frame J f \<Longrightarrow> chat_only J (fst (send_wire fault f s))"
  by (auto simp: chat_only_def send_wire_def split: option.splits)

lemma chat_only_same:
  "chat_only J s \<Longrightarrow> files_allowed s' = files_allowed s \<Longrightarrow> framing_of s' = framing_of s
   \<Longrightarrow> mcp_in s' = mcp_in s \<Longrightarrow> mcp_out s' = mcp_out s \<Longrightarrow> wire s' = wire s \<Longrightarrow> chat_only J s'"
  by (simp add: chat_only_def)

lemma chat_only_on_follow:
  assumes "chat_only J s"
  shows "chat_only J (fst (on_follow J fault w s))"
proof (cases "follow_frame J (framing_of s) w")
  case None
  with assms show ?thesis
    by (auto simp: on_follow_def intro: chat_only_same split: follow.splits)
next
  case (Some t)
  then have "follow_frame J ActionCable w = Some t"
    using assms by (simp add: chat_only_def)
  then have "chat_frame J (WText t)" by (auto simp: chat_frame_def)
  from chat_only_send[OF assms this] Some show ?thesis by (simp add: on_follow_def)
qed

lemma chat_only_step:
  assumes c: "chat_only J s"
  shows "chat_only J (fst (session_step J R C now fault e s))"
proof (cases e)
  case Shutdown
  with chat_only_send[OF c] show ?thesis by (simp add: session_step_def chat_frame_def)
next
  case (Incoming x)
  have "chat_only J (s\<lparr>last_seen := now\<rparr>)" by (rule chat_only_same[OF c]) simp_all
  moreover have "mcp_in (fst (on_item J R C x (s\<lparr>last_seen := now\<rparr>))) = mcp_in s"
    unfolding on_item_mcp
    using c by (simp add: chat_only_def taken_def split: ws_item.split inbound.split)
  ultimately show ?thesis
    using c Incoming by (auto simp: session_step_def chat_only_def)
next
  case Outgoing
  with c show ?thesis by (simp add: session_step_def chat_only_def)
next
  case (NextAction d)
  have "chat_frame J (WText t)" if "notification_action J ActionCable x = Some t" for x t
    using that by (auto simp: chat_frame_def)
  with NextAction c chat_only_send[OF c] show ?thesis
    by (auto simp: session_step_def chat_only_def split: option.splits)
next
  case NextFollow
  have "chat_only J (s\<lparr>follows := k\<rparr>)" for k by (rule chat_only_same[OF c]) simp_all
  with NextFollow c show ?thesis
    by (auto simp: session_step_def next_follow_def intro: chat_only_on_follow split: option.splits)
next
  case PingTick
  with c chat_only_send[OF c] show ?thesis by (simp add: session_step_def chat_frame_def)
next
  case (McpSays msg)
  with c show ?thesis by (simp add: session_step_def chat_only_def)
next
  case (HubDoes hop)
  with c show ?thesis by (auto simp: session_step_def intro: chat_only_same)
qed (use c in \<open>simp add: session_step_def\<close>)

interpretation chat_only_session: session_invariant J R C "\<lambda>_. True" "chat_only J" for J R C
  by unfold_locales (auto intro: chat_only_step chat_only_same)

section \<open>What reaches the MCP server\<close>

definition accepted_message :: "json_lib \<Rightarrow> rmcp_libs \<Rightarrow> nat \<Rightarrow> json \<Rightarrow> bool" where
  "accepted_message J R n v \<longleftrightarrow>
     get v ''method'' \<noteq> None \<and> length (to_text J v) \<le> n \<and> client_message R v"

lemma accept_message:
  "snd (accept J R v n) = (if accepted_message J R n v then Some v else None)"
  by (auto simp: accept_def accepted_message_def Let_def)

lemma accept_reply:
  "fst (accept J R v n) = (if get v ''method'' = None \<or> accepted_message J R n v
       \<or> Option.bind (get v ''id'') (request_id R) = None then None
     else Some (ErrorReply (Option.bind (get v ''id'') (request_id R))
            (if n < length (to_text J v) then MessageTooLarge else MethodNotFound)))"
  by (auto simp: accept_def accepted_message_def error_reply_def Let_def)

definition handed_over :: "json_lib \<Rightarrow> rmcp_libs \<Rightarrow> framing \<Rightarrow> nat \<Rightarrow> session_event \<Rightarrow> json list" where
  "handed_over J R f n e = (case e of
     Incoming (TextFrame text) \<Rightarrow> (case decode J f text of
       Mcp v \<Rightarrow> if accepted_message J R n v then [v] else [] | _ \<Rightarrow> [])
   | _ \<Rightarrow> [])"

lemma session_step_handed:
  "files_allowed s \<Longrightarrow> mcp_in (fst (session_step J R C now fault e s))
     = mcp_in s @ handed_over J R (framing_of s) (max_message_bytes s) e"
  unfolding session_step_mcp handed_over_def
  by (auto simp: accept_message taken_def split: session_event.splits ws_item.splits inbound.splits)

lemma run_handed:
  assumes "files_allowed s"
    and "v \<in> set (mcp_in (fst (run_session J R C es s)))"
  shows "v \<in> set (mcp_in s) \<or> (\<exists>(now, fault, e) \<in> set es.
     v \<in> set (handed_over J R (framing_of s) (max_message_bytes s) e))"
  using assms
proof (induction es arbitrary: s)
  case (Cons x es)
  obtain now fault e where x: "x = (now, fault, e)" by (metis prod_cases3)
  obtain s' r where s': "session_step J R C now fault e s = (s', r)" by force
  have k: "files_allowed s'" "framing_of s' = framing_of s"
    "max_message_bytes s' = max_message_bytes s"
    "mcp_in s' = mcp_in s @ handed_over J R (framing_of s) (max_message_bytes s) e"
    using session_step_keeps[of J R C now fault e s]
      session_step_handed[OF Cons.prems(1), of J R C now fault e] Cons.prems(1) s' by simp_all
  show ?case
  proof (cases r)
    case None
    with Cons.prems x s' have "v \<in> set (mcp_in (fst (run_session J R C es s')))" by simp
    from Cons.IH[OF k(1) this] k x show ?thesis by auto
  next
    case (Some en)
    with Cons.prems x s' k show ?thesis by auto
  qed
qed simp

lemma handed_device:
  assumes "from_str J CHANNEL_IDENTIFIER = Some device_object"
    and "v \<in> set (handed_over J R ActionCable n e)"
  shows "\<exists>text value. e = Incoming (TextFrame text) \<and> from_str J text = Some value
    \<and> carries J value v \<and> accepted_message J R n v"
  using assms(2)
  by (auto simp: handed_over_def decode_cable decode_action_cable_mcp[OF assms(1)]
      eq_commute[of "Mcp v" "decode_action_cable J x" for x]
      split: session_event.splits ws_item.splits inbound.splits option.splits if_splits)

section \<open>Properties of a session\<close>

text \<open>
  C32: a chat-only session, with notifications or without, never hands anything to the tools, never
  answers a tool call, and sends nothing but pings, its closing frame, chat subscriptions, the
  subscription to notifications and notification actions, whatever the server sends.
\<close>

theorem chat_only_sessions_stay_off_the_tools:
  assumes "session_start J False f n hub notify c now = Inr s"
  shows "let s' = fst (run_session J R C es s)
    in mcp_in s' = [] \<and> mcp_out s' = [] \<and> list_all (chat_frame J) (wire s')"
proof -
  have "chat_only J s"
    using assms by (auto simp: session_start_def chat_only_def opening_text_def chat_frame_def split: if_splits option.splits)
  then have "chat_only J (fst (run_session J R C es s))"
    by (rule chat_only_session.run_keeps) (simp add: list_all_iff)
  then show ?thesis by (simp add: chat_only_def Let_def)
qed

definition demo_rmcp :: rmcp_libs where
  "demo_rmcp = \<lparr>request_id = Some, client_message = (\<lambda>_. True), message_text = (\<lambda>_. None)\<rparr>"

definition demo_client_libs :: client_libs where
  "demo_client_libs =
     \<lparr>frame_len = (\<lambda>_. Some 1), event_of = (\<lambda>_. None), event_json = (\<lambda>_. None)\<rparr>"

theorem chat_only_sessions_stay_off_the_tools_witness:
  "\<exists>s. session_start demo_lib False ActionCable 10 (Some hub_new) (Some 0) (client_new (channel 8)) 0 = Inr s
     \<and> mcp_in (fst (run_session demo_lib demo_rmcp demo_client_libs
          [(1, None, Incoming (TextFrame ''call''))] s)) = []"
proof -
  obtain s where s:
    "session_start demo_lib False ActionCable 10 (Some hub_new) (Some 0) (client_new (channel 8)) 0 = Inr s"
    by (simp add: session_start_def)
  from chat_only_sessions_stay_off_the_tools[OF s, of demo_rmcp demo_client_libs
      "[(1, None, Incoming (TextFrame ''call''))]"] s
  show ?thesis by (auto simp: Let_def)
qed

text \<open>
  Over a whole session, every message the MCP server is given has a method, is one the
  server can read, fits the size limit, and was broadcast on the device's own channel in a
  frame of this session.
\<close>

theorem tools_only_see_device_messages:
  assumes "from_str J CHANNEL_IDENTIFIER = Some device_object"
    and "session_start J True ActionCable n hub notify c now = Inr s"
    and "v \<in> set (mcp_in (fst (run_session J R C es s)))"
  shows "get v ''method'' \<noteq> None \<and> client_message R v \<and> length (to_text J v) \<le> n
    \<and> (\<exists>now fault text value. (now, fault, Incoming (TextFrame text)) \<in> set es
         \<and> from_str J text = Some value \<and> carries J value v)"
proof -
  have s: "files_allowed s" "framing_of s = ActionCable" "max_message_bytes s = n" "mcp_in s = []"
    using assms(2) by (auto simp: session_start_def)
  from run_handed[OF s(1) assms(3)] s obtain now' fault e where
    e: "(now', fault, e) \<in> set es" and v: "v \<in> set (handed_over J R ActionCable n e)"
    by auto
  from handed_device[OF assms(1) v] e show ?thesis
    by (auto simp: accepted_message_def)
qed

definition call_lib :: json_lib where
  "call_lib = demo_lib\<lparr>from_str := (\<lambda>s. if s = ''call''
     then Some (jobject [(''identifier'', JStr CHANNEL_IDENTIFIER),
                         (''message'', jobject [(''method'', JStr ''ping'')])])
     else from_str demo_lib s)\<rparr>"

theorem tools_only_see_device_messages_witness:
  "\<exists>now fault text value.
     (now, fault, Incoming (TextFrame text))
       \<in> {(1::nat, None :: string option, Incoming (TextFrame ''call''))}
     \<and> from_str call_lib text = Some value \<and> carries call_lib value (jobject [(''method'', JStr ''ping'')])"
proof -
  let ?v = "jobject [(''method'', JStr ''ping'')]"
  let ?es = "[(1::nat, None :: string option, Incoming (TextFrame ''call''))]"
  have dev: "from_str call_lib CHANNEL_IDENTIFIER = Some device_object"
    by (simp add: call_lib_def demo_lib_simps) (simp add: CHANNEL_IDENTIFIER_def)
  obtain s where s:
    "session_start call_lib True ActionCable 10 None None (client_new (channel 8)) 0 = Inr s"
    by (simp add: session_start_def)
  have "carries call_lib (jobject [(''identifier'', JStr CHANNEL_IDENTIFIER), (''message'', ?v)]) ?v"
    by (simp add: carries_def identifier_of_def type_of_def json_simps) (simp add: jobject_def)
  moreover have "from_str call_lib ''call''
      = Some (jobject [(''identifier'', JStr CHANNEL_IDENTIFIER), (''message'', ?v)])"
    by (simp add: call_lib_def)
  ultimately have d: "decode call_lib ActionCable ''call'' = Mcp ?v"
    by (simp add: decode_cable decode_action_cable_mcp[OF dev])
  have fit: "accepted_message call_lib demo_rmcp 10 ?v"
    by (simp add: accepted_message_def demo_rmcp_def call_lib_def demo_lib_simps json_simps)
  have "?v \<in> set (handed_over call_lib demo_rmcp ActionCable 10 (Incoming (TextFrame ''call'')))"
    by (simp add: handed_over_def d fit)
  moreover have "files_allowed s" "framing_of s = ActionCable" "max_message_bytes s = 10"
    "mcp_in s = []"
    using s by (auto simp: session_start_def)
  moreover obtain s' r where
    "session_step call_lib demo_rmcp demo_client_libs 1 None (Incoming (TextFrame ''call'')) s = (s', r)"
    by force
  ultimately have "?v \<in> set (mcp_in (fst (run_session call_lib demo_rmcp demo_client_libs ?es s)))"
    using session_step_handed[of s call_lib demo_rmcp demo_client_libs 1 None
        "Incoming (TextFrame ''call'')"]
    by (cases r) auto
  from tools_only_see_device_messages[OF dev s this] show ?thesis by auto
qed

section \<open>The hub's commands on the wire\<close>

text \<open>The commands this session has read are on the wire, in order.\<close>

definition relayed :: "json_lib \<Rightarrow> session \<Rightarrow> bool" where
  "relayed J s \<longleftrightarrow> framing_of s = ActionCable \<and> (case (follows s, chats s) of
     (Some k, Some h) \<Rightarrow> (case hub_session h of
         None \<Rightarrow> False
       | Some log \<Rightarrow> k \<le> length log
           \<and> subseq (map (\<lambda>w. WText (the (follow_frame J ActionCable w))) (take k log)) (wire s))
   | _ \<Rightarrow> False)"

fun keeps_session :: "session_event \<Rightarrow> bool" where
  "keeps_session (HubDoes OAttach) = False"
| "keeps_session (HubDoes ODetach) = False"
| "keeps_session _ = True"

lemma follow_frame_cable: "follow_frame J ActionCable w \<noteq> None"
  by (cases w) (simp_all add: follow_frame_def follow_chat_def unfollow_chat_def follow_chats_def
      unfollow_chats_def chat_command_def chats_command_def)

lemma hub_log_grows:
  assumes "hop \<noteq> OAttach" and "hop \<noteq> ODetach" and "hub_session h = Some log"
  shows "\<exists>more_log. hub_session (hub_step h hop) = Some (log @ more_log)"
  using assms by (cases hop)
    (auto simp: watch_def unwatch_def watch_list_def unwatch_list_def list_confirmed_def Let_def
      split: option.splits)

lemma relayed_hub:
  assumes r: "relayed J s"
    and f: "\<And>h log. hub_session h = Some log \<Longrightarrow> \<exists>m. hub_session (f h) = Some (log @ m)"
  shows "relayed J (on_hub f s)"
proof -
  obtain k h log where k: "follows s = Some k" "chats s = Some h" "hub_session h = Some log"
    "k \<le> length log" "framing_of s = ActionCable"
    "subseq (map (\<lambda>w. WText (the (follow_frame J ActionCable w))) (take k log)) (wire s)"
    using r by (auto simp: relayed_def split: option.splits)
  from f[OF k(3)] obtain m where "hub_session (f h) = Some (log @ m)" by blast
  with k show ?thesis by (simp add: relayed_def)
qed

lemma relayed_same:
  "relayed J s \<Longrightarrow> framing_of s' = framing_of s \<Longrightarrow> follows s' = follows s \<Longrightarrow> chats s' = chats s
   \<Longrightarrow> subseq (wire s) (wire s') \<Longrightarrow> relayed J s'"
  by (auto simp: relayed_def split: option.splits dest: subseq_order.trans)

lemma relayed_send: "relayed J s \<Longrightarrow> relayed J (fst (send_wire fault f s))"
  by (rule relayed_same[of J s]) (auto simp: send_wire_def split: option.splits)

lemma relayed_inbound: "relayed J s \<Longrightarrow> relayed J (fst (on_inbound J R C m s))"
proof (cases m)
  case (Mcp v)
  assume "relayed J s"
  with Mcp show ?thesis
    by (auto simp: on_inbound_def split_def Let_def intro: relayed_same)
qed (auto simp: on_inbound_def list_confirmed_def intro!: relayed_hub
    intro: relayed_same split: option.splits prod.splits sum.splits)

lemma relayed_next_follow:
  assumes r: "relayed J s" and n: "snd (next_follow J fault s) = None"
  shows "relayed J (fst (next_follow J fault s))"
proof -
  obtain k h log where k: "follows s = Some k" "chats s = Some h" "hub_session h = Some log"
    "k \<le> length log" "framing_of s = ActionCable"
    "subseq (map (\<lambda>w. WText (the (follow_frame J ActionCable w))) (take k log)) (wire s)"
    using r by (auto simp: relayed_def split: option.splits)
  show ?thesis
  proof (cases "k < length log")
    case False
    with r k show ?thesis by (simp add: next_follow_def)
  next
    case True
    obtain t where t: "follow_frame J ActionCable (log ! k) = Some t"
      using follow_frame_cable by blast
    with n k True have "fault = None"
      by (auto simp: next_follow_def on_follow_def send_wire_def split: option.splits)
    moreover have "subseq (map (\<lambda>w. WText (the (follow_frame J ActionCable w))) (take k log) @ [WText t])
        (wire s @ [WText t])"
      using k(6) by (rule list_emb_append_mono) simp
    ultimately show ?thesis
      using k True t by (simp add: next_follow_def on_follow_def send_wire_def relayed_def
          take_Suc_conv_app_nth)
  qed
qed

lemma relayed_step:
  assumes "relayed J s" and "keeps_session e" and "snd (session_step J R C now fault e s) = None"
  shows "relayed J (fst (session_step J R C now fault e s))"
proof (cases e)
  case (Incoming x)
  have r: "relayed J (s\<lparr>last_seen := now\<rparr>)" by (rule relayed_same[OF assms(1)]) simp_all
  with Incoming assms(3) show ?thesis
    by (cases x) (auto simp: session_step_def on_item_def relayed_inbound Let_def)
next
  case Outgoing
  have "relayed J (s\<lparr>mcp_out := xs\<rparr>)" for xs by (rule relayed_same[OF assms(1)]) simp_all
  with Outgoing assms(1) show ?thesis
    by (auto simp: session_step_def Let_def relayed_send split: list.splits option.splits)
next
  case (NextAction d)
  with assms(1) show ?thesis
    by (auto simp: session_step_def relayed_send split: option.splits)
next
  case NextFollow
  with assms relayed_next_follow show ?thesis by (simp add: session_step_def)
next
  case PingTick
  with assms(1) show ?thesis by (auto simp: session_step_def relayed_send)
next
  case (McpSays msg)
  with assms(1) show ?thesis by (auto simp: session_step_def intro: relayed_same)
next
  case (HubDoes hop)
  then have "hop \<noteq> OAttach" "hop \<noteq> ODetach" using assms(2) by auto
  with HubDoes assms(1) show ?thesis
    by (auto simp: session_step_def intro!: relayed_hub hub_log_grows)
qed (use assms in \<open>simp_all add: session_step_def\<close>)

lemma relayed_run:
  "relayed J s \<Longrightarrow> list_all (\<lambda>(_, _, e). keeps_session e) es
   \<Longrightarrow> run_session J R C es s = (s', None) \<Longrightarrow> relayed J s'"
proof (induction es arbitrary: s)
  case (Cons x es)
  obtain now fault e where x: "x = (now, fault, e)" by (metis prod_cases3)
  obtain s1 r where s1: "session_step J R C now fault e s = (s1, r)" by force
  with Cons.prems(3) x have r: "r = None" "run_session J R C es s1 = (s', None)"
    by (cases r; simp)+
  have "relayed J s1"
    using relayed_step[OF Cons.prems(1), of e R C now fault] Cons.prems(2) x s1 r by simp
  from Cons.IH[OF this _ r(2)] Cons.prems(2) show ?case by simp
qed simp

text \<open>
  While a session lasts, every command the hub has given it that it has taken is on the
  wire as a frame, in the order the hub gave them. With the hub's mirror property this
  makes the subscriptions asked of the server those of the followed chats.
\<close>

theorem follow_commands_reach_the_server_in_order:
  assumes "session_start J files ActionCable n (Some h) notify c now = Inr s"
    and "list_all (\<lambda>(_, _, e). keeps_session e) es"
    and "run_session J R C es s = (s', None)"
  shows "\<exists>k h' log. follows s' = Some k \<and> chats s' = Some h' \<and> hub_session h' = Some log
    \<and> k \<le> length log
    \<and> subseq (map (\<lambda>w. WText (the (follow_frame J ActionCable w))) (take k log)) (wire s')"
proof -
  have "relayed J s"
    using assms(1) by (auto simp: session_start_def relayed_def attach_def)
  from relayed_run[OF this assms(2,3)] show ?thesis
    by (auto simp: relayed_def split: option.splits)
qed

theorem follow_commands_reach_the_server_in_order_witness:
  "\<exists>s s' k h' log. session_start demo_lib True ActionCable 10 (Some (watch ''42'' hub_new)) None
        (client_new (channel 8)) 0 = Inr s
     \<and> run_session demo_lib demo_rmcp demo_client_libs [(1, None, NextFollow)] s = (s', None)
     \<and> follows s' = Some k \<and> chats s' = Some h' \<and> hub_session h' = Some log \<and> k \<le> length log"
proof -
  let ?h = "watch ''42'' hub_new"
  obtain s where s: "session_start demo_lib True ActionCable 10 (Some ?h) None
      (client_new (channel 8)) 0 = Inr s"
    by (simp add: session_start_def)
  obtain t where "follow_frame demo_lib ActionCable (Watch ''42'') = Some t"
    using follow_frame_cable by blast
  then have "snd (session_step demo_lib demo_rmcp demo_client_libs 1 None NextFollow s) = None"
    using s by (auto simp: session_start_def session_step_def next_follow_def attach_def
        on_follow_def send_wire_def watch_def hub_new_def note_chat_def publish_def Let_def)
  then obtain s' where "session_step demo_lib demo_rmcp demo_client_libs 1 None NextFollow s
      = (s', None)" by (metis prod.collapse)
  then have r: "run_session demo_lib demo_rmcp demo_client_libs [(1, None, NextFollow)] s = (s', None)"
    by simp
  from follow_commands_reach_the_server_in_order[OF s _ r] s r show ?thesis by auto
qed

fun is_incoming :: "session_event \<Rightarrow> bool" where
  "is_incoming (Incoming _) = True"
| "is_incoming _ = False"

lemma last_seen_step:
  "\<not> is_incoming e \<Longrightarrow> last_seen (fst (session_step J R C now fault e s)) = last_seen s"
  by (cases e) (auto simp: session_step_def Let_def split: list.splits option.splits)

lemma silent_run:
  "list_all (\<lambda>(_, _, e). \<not> is_incoming e) es \<Longrightarrow> run_session J R C es s = (s', None)
   \<Longrightarrow> (t, fault, PingTick) \<in> set es \<Longrightarrow> t \<le> last_seen s + IDLE_TIMEOUT"
proof (induction es arbitrary: s)
  case (Cons x es)
  obtain now f e where x: "x = (now, f, e)" by (metis prod_cases3)
  obtain s1 r where s1: "session_step J R C now f e s = (s1, r)" by force
  with Cons.prems(2) x have r: "r = None" "run_session J R C es s1 = (s', None)"
    by (cases r; simp)+
  show ?case
  proof (cases "(t, fault, PingTick) = x")
    case True
    then have "\<not> IDLE_TIMEOUT < t - last_seen s"
      using s1 r(1) x by (auto simp: session_step_def)
    then show ?thesis by simp
  next
    case False
    have "last_seen s1 = last_seen s"
      using last_seen_step[of e J R C now f s] s1 Cons.prems(1) x by simp
    with Cons.IH[OF _ r(2)] Cons.prems False show ?thesis by simp
  qed
qed simp

text \<open>
  A session that hears nothing from the server does not outlive its minute: as long as it
  goes on without a frame coming in, every ping so far fell within a minute of the last frame.
\<close>

theorem silent_connections_end:
  assumes "list_all (\<lambda>(_, _, e). \<not> is_incoming e) es"
    and "run_session J R C es s = (s', None)" and "(t, fault, PingTick) \<in> set es"
  shows "t \<le> last_seen s + secs 60"
  using silent_run[OF assms] by (simp add: IDLE_TIMEOUT_def)

theorem silent_connections_end_witness:
  "\<exists>s s'. run_session demo_lib demo_rmcp demo_client_libs [(secs 20, None, PingTick)] s = (s', None)
     \<and> secs 20 \<le> last_seen s + secs 60"
proof -
  obtain s where s: "session_start demo_lib True ActionCable 10 None None (client_new (channel 8)) 0
      = Inr s" by (simp add: session_start_def)
  then have "run_session demo_lib demo_rmcp demo_client_libs [(secs 20, None, PingTick)] s
      = (s\<lparr>wire := wire s @ [WPing]\<rparr>, None)"
    by (auto simp: session_start_def session_step_def send_wire_def IDLE_TIMEOUT_def)
  from silent_connections_end[OF _ this, of "secs 20" None] this show ?thesis by auto
qed

lemma last_seen_incoming:
  "last_seen (fst (session_step J R C now fault (Incoming x) s)) = now"
  by (simp add: session_step_def)

section \<open>Messages\<close>

lemma every_request_is_answered_or_handed_over:
  assumes "get v ''method'' \<noteq> None" and "Option.bind (get v ''id'') (request_id R) = Some i"
  shows "accept J R v n = (None, Some v)
    \<or> (\<exists>e. accept J R v n = (Some (ErrorReply (Some i) e), None))"
  using assms by (auto simp: accept_def error_reply_def Let_def)

lemma notifications_are_never_answered:
  "Option.bind (get v ''id'') (request_id R) = None \<Longrightarrow> fst (accept J R v n) = None"
  by (simp add: accept_reply)

lemma sent_within_cap:
  assumes "serialize_capped J R msg n = Some text" and "n < length text"
  shows "\<exists>i t. message_text R msg = Some t \<and> n < length t
    \<and> message_text R (ErrorReply (Some i) ResponseTooLarge) = Some text"
  using assms by (auto simp: serialize_capped_def error_reply_def split: option.splits if_splits)

end
