(* ===== verification/Tunnel.thy ===== *)
theory Tunnel
  imports Session
begin

text \<open>
  \<open>src/src/tunnel/mod.rs\<close>: the loop that keeps one WebSocket open, with what an attempt to
  connect decides from the server's answer, and the jittered exponential backoff. What the
  outside answers in one turn (the token, the upgrade response, how the session ended and how
  long it lasted) is an \<open>attempt\<close>; opening sockets and refreshing tokens is not modelled. The
  random fraction is applied in floating point: \<open>scale\<close> stands for \<open>mul_f64\<close>.
\<close>

definition STABLE_AFTER :: duration where "STABLE_AFTER = secs 60"
definition BACKOFF_BASE :: duration where "BACKOFF_BASE = secs 1"
definition BACKOFF_MAX :: duration where "BACKOFF_MAX = secs 60"

datatype tunnel_exit = ExitShutdown | ExitRevoked

datatype connection_status = Connecting | Connected | Offline | Revoked

text \<open>\<open>Duration\<close> saturates at \<open>u64::MAX\<close> seconds and a bit less than a second more.\<close>

definition duration_max :: duration where
  "duration_max = secs u64_max + 999999999"

definition u32_max :: nat where "u32_max = 4294967295"

definition backoff_ceiling :: "nat \<Rightarrow> duration" where
  "backoff_ceiling n = min (min (BACKOFF_BASE * 2 ^ min n 16) duration_max) BACKOFF_MAX"

definition next_delay :: "(duration \<Rightarrow> duration) \<Rightarrow> nat \<Rightarrow> duration \<times> nat" where
  "next_delay scale n = (max (scale (backoff_ceiling n)) (millis 250), min (n + 1) u32_max)"

definition frame_cap :: "nat \<Rightarrow> nat" where
  "frame_cap max_bytes = max_bytes * 2 + 16 * 1024"

definition show_code :: "nat option \<Rightarrow> string" where
  "show_code c = (case c of None \<Rightarrow> ''None'' | Some n \<Rightarrow> ''Some('' @ show_nat n @ '')'')"

fun describe_end :: "session_end \<Rightarrow> string" where
  "describe_end (EndClosed code reason) =
     ''closed by the server ('' @ show_code code @ '' '' @ reason @ '')''"
| "describe_end (EndUnauthorized reason) = ''unauthorized ('' @ reason @ '')''"
| "describe_end EndIdle = ''no traffic from the server''"
| "describe_end EndShutdown = ''shut down''"
| "describe_end (EndError e) = e"

section \<open>Connecting\<close>

datatype upgrade =
    TimedOut
  | Upgraded "string option"
  | HttpRefused nat "string option"
  | WsFailed string
  | NetFailed string

datatype connect_error = ConnUnauthorized "string option" | ConnOther string

definition offered_protocols :: "bool \<Rightarrow> string" where
  "offered_protocols files =
     (if files then ''actioncable-v1-json, mcp'' else ''actioncable-v1-json'')"

text \<open>\<open>dbg\<close> prints an optional string the way \<open>{:?}\<close> does.\<close>

definition connect_result ::
  "(string option \<Rightarrow> string) \<Rightarrow> string \<Rightarrow> bool \<Rightarrow> upgrade \<Rightarrow> connect_error + framing" where
  "connect_result dbg url files u = (case u of
     TimedOut \<Rightarrow> Inl (ConnOther (''timed out connecting to '' @ url))
   | HttpRefused code nonce \<Rightarrow>
       if code \<in> {401, 403} then Inl (ConnUnauthorized nonce)
       else Inl (ConnOther (''the server refused the WebSocket upgrade ('' @ show_nat code @ '')''))
   | WsFailed e \<Rightarrow> Inl (ConnOther (''connecting to '' @ url @ '': '' @ e))
   | NetFailed e \<Rightarrow> Inl (ConnOther (''connecting to '' @ url @ '': '' @ e))
   | Upgraded selected \<Rightarrow>
       (case for_protocol selected of
          None \<Rightarrow> Inl (ConnOther (''the server chose an unknown subprotocol '' @ dbg selected))
        | Some f \<Rightarrow>
            if \<not> files \<and> f \<noteq> ActionCable
            then Inl (ConnOther ''chat-only connections require Action Cable framing'')
            else Inr f))"

section \<open>The loop\<close>

datatype token_result = TokenOk | TokenRevoked string | TokenFailed string

record attempt =
  at_token :: token_result
  at_upgrade :: upgrade
  at_end :: session_end
  at_lasted :: duration
  at_stop_before :: bool
  at_stop_waiting :: bool

record tunnel =
  t_attempt :: nat
  t_immediate :: bool
  t_status :: "connection_status \<times> string option"
  t_nonce :: "string option"
  t_invalidations :: nat
  t_audit :: "(string \<times> string) list"
  t_waits :: "duration option list"

definition tunnel_new :: tunnel where
  "tunnel_new = \<lparr>t_attempt = 0, t_immediate = False, t_status = (Offline, None), t_nonce = None,
     t_invalidations = 0, t_audit = [], t_waits = []\<rparr>"

definition set_status :: "connection_status \<Rightarrow> string option \<Rightarrow> tunnel \<Rightarrow> tunnel" where
  "set_status c d t = t\<lparr>t_status := (c, d)\<rparr>"

definition audit_event :: "string \<Rightarrow> string \<Rightarrow> tunnel \<Rightarrow> tunnel" where
  "audit_event kind detail t = t\<lparr>t_audit := t_audit t @ [(kind, detail)]\<rparr>"

definition invalidate :: "tunnel \<Rightarrow> tunnel" where
  "invalidate t = t\<lparr>t_invalidations := t_invalidations t + 1\<rparr>"

text \<open>The end of a turn: the delay, during which the daemon may be stopped.\<close>

definition wait_turn :: "(duration \<Rightarrow> duration) \<Rightarrow> attempt \<Rightarrow> tunnel \<Rightarrow> tunnel \<times> tunnel_exit option" where
  "wait_turn scale a t0 =
     (let t = t0\<lparr>t_immediate := False\<rparr>;
          (d, n) = next_delay scale (t_attempt t);
          t = t\<lparr>t_attempt := n, t_waits := t_waits t @ [Some d]\<rparr>
      in (t, if at_stop_waiting a then Some ExitShutdown else None))"

text \<open>\<open>shown_end\<close> is \<open>{end:?}\<close>, kept in the audit log only.\<close>

definition tunnel_turn ::
  "(string option \<Rightarrow> string) \<Rightarrow> (session_end \<Rightarrow> string) \<Rightarrow> string \<Rightarrow> string \<Rightarrow> bool
     \<Rightarrow> (duration \<Rightarrow> duration) \<Rightarrow> attempt \<Rightarrow> tunnel \<Rightarrow> tunnel \<times> tunnel_exit option" where
  "tunnel_turn dbg shown_end url device files scale a t0 =
     (if at_stop_before a then (t0, Some ExitShutdown)
      else
        (let t = set_status Connecting None t0
         in case at_token a of
              TokenRevoked reason \<Rightarrow>
                (audit_event ''revoked''
                   (''the server rejected the refresh credential ('' @ reason @ '')'')
                   (set_status Revoked (Some reason) t), Some ExitRevoked)
            | TokenFailed e \<Rightarrow> wait_turn scale a (set_status Offline (Some e) t)
            | TokenOk \<Rightarrow>
                (case connect_result dbg url files (at_upgrade a) of
                   Inr f \<Rightarrow>
                     (let t = audit_event ''connected'' (url @ '' as device '' @ device)
                                (set_status Connected None t);
                          t = audit_event ''disconnected'' (shown_end (at_end a)) t;
                          t = (if STABLE_AFTER \<le> at_lasted a then t\<lparr>t_attempt := 0\<rparr> else t)
                      in case at_end a of
                           EndShutdown \<Rightarrow> (t, Some ExitShutdown)
                         | EndUnauthorized r \<Rightarrow> wait_turn scale a
                             (set_status Offline (Some (describe_end (at_end a))) (invalidate t))
                         | _ \<Rightarrow> wait_turn scale a
                             (set_status Offline (Some (describe_end (at_end a))) t))
                 | Inl (ConnUnauthorized nonce) \<Rightarrow>
                     (let t = set_status Offline (Some ''the server rejected the connection'') t;
                          t = t\<lparr>t_nonce := nonce\<rparr>;
                          t = (if nonce = None then invalidate t else t)
                      in if \<not> t_immediate t
                         then (t\<lparr>t_immediate := True, t_waits := t_waits t @ [None]\<rparr>, None)
                         else wait_turn scale a t)
                 | Inl (ConnOther e) \<Rightarrow> wait_turn scale a (set_status Offline (Some e) t))))"

fun run_tunnel ::
  "(string option \<Rightarrow> string) \<Rightarrow> (session_end \<Rightarrow> string) \<Rightarrow> string \<Rightarrow> string \<Rightarrow> bool
     \<Rightarrow> (duration \<Rightarrow> duration) \<Rightarrow> attempt list \<Rightarrow> tunnel \<Rightarrow> tunnel \<times> tunnel_exit option" where
  "run_tunnel dbg shown_end url device files scale [] t = (t, None)"
| "run_tunnel dbg shown_end url device files scale (a # as) t =
     (case tunnel_turn dbg shown_end url device files scale a t of
        (t', None) \<Rightarrow> run_tunnel dbg shown_end url device files scale as t'
      | (t', Some x) \<Rightarrow> (t', Some x))"

section \<open>Pacing\<close>

definition paced_wait :: "duration option \<Rightarrow> bool" where
  "paced_wait w = (case w of None \<Rightarrow> True | Some d \<Rightarrow> millis 250 \<le> d \<and> d \<le> secs 60)"

fun no_double :: "duration option list \<Rightarrow> bool" where
  "no_double (None # None # ws) = False"
| "no_double (w # ws) = no_double ws"
| "no_double [] = True"

lemma no_double_snoc:
  "no_double (ws @ [w]) \<longleftrightarrow> no_double ws \<and> (w \<noteq> None \<or> ws = [] \<or> last ws \<noteq> None)"
  by (induction ws rule: no_double.induct) (auto, (cases w; simp)+)

definition paced :: "tunnel \<Rightarrow> bool" where
  "paced t \<longleftrightarrow> list_all paced_wait (t_waits t) \<and> no_double (t_waits t)
     \<and> (t_waits t \<noteq> [] \<and> last (t_waits t) = None \<longrightarrow> t_immediate t)"

lemma next_delay_bounds:
  assumes "\<And>c. scale c \<le> c"
  shows "millis 250 \<le> fst (next_delay scale n) \<and> fst (next_delay scale n) \<le> secs 60"
proof -
  have "scale (backoff_ceiling n) \<le> secs 60"
    using assms[of "backoff_ceiling n"] by (auto simp: backoff_ceiling_def BACKOFF_MAX_def)
  then show ?thesis by (simp add: next_delay_def)
qed

lemma next_delay_after_reset:
  assumes "\<And>c. scale c \<le> c"
  shows "fst (next_delay scale 0) \<le> secs 1"
  using assms[of "backoff_ceiling 0"]
  by (auto simp: next_delay_def backoff_ceiling_def BACKOFF_BASE_def BACKOFF_MAX_def duration_max_def)

lemma paced_wait_turn:
  assumes "\<And>c. scale c \<le> c" and "list_all paced_wait (t_waits t)" and "no_double (t_waits t)"
  shows "paced (fst (wait_turn scale a t))"
  using next_delay_bounds[OF assms(1), of "t_attempt t"] assms(2,3)
  by (auto simp: wait_turn_def paced_def paced_wait_def no_double_snoc split_def Let_def)

lemma t_waits_simps [simp]:
  "t_waits (set_status c d t) = t_waits t" "t_waits (audit_event k e t) = t_waits t"
  "t_waits (invalidate t) = t_waits t" "t_immediate (set_status c d t) = t_immediate t"
  "t_immediate (audit_event k e t) = t_immediate t" "t_immediate (invalidate t) = t_immediate t"
  by (simp_all add: set_status_def audit_event_def invalidate_def)

lemma paced_turn:
  assumes s: "\<And>c. scale c \<le> c" and p: "paced t"
  shows "paced (fst (tunnel_turn dbg shown url device files scale a t))"
proof -
  have w: "list_all paced_wait (t_waits t)" "no_double (t_waits t)"
    using p by (simp_all add: paced_def)
  have wt: "paced (fst (wait_turn scale a t'))" if "t_waits t' = t_waits t" for t'
    using paced_wait_turn[OF s, of t'] w that by simp
  have fr: "paced t'" if "t_waits t' = t_waits t" "t_immediate t' = t_immediate t" for t'
    using p that by (simp add: paced_def)
  have im: "paced t'"
    if "t_waits t' = t_waits t @ [None]" "t_immediate t'" "\<not> t_immediate t" for t'
    using p that by (auto simp: paced_def paced_wait_def no_double_snoc)
  show ?thesis
  proof (cases "at_stop_before a")
    case True
    with p show ?thesis by (simp add: tunnel_turn_def)
  next
    case go: False
    show ?thesis
    proof (cases "at_token a")
      case TokenOk
      show ?thesis
      proof (cases "connect_result dbg url files (at_upgrade a)")
        case (Inl e)
        show ?thesis
        proof (cases e)
          case (ConnUnauthorized nonce)
          with go TokenOk Inl show ?thesis
            by (auto simp: tunnel_turn_def Let_def intro!: wt im)
        next
          case (ConnOther x)
          with go TokenOk Inl show ?thesis by (simp add: tunnel_turn_def Let_def wt)
        qed
      next
        case (Inr f)
        with go TokenOk show ?thesis
          by (auto simp: tunnel_turn_def Let_def intro!: wt fr split: session_end.splits)
      qed
    qed (use go in \<open>auto simp: tunnel_turn_def Let_def intro!: wt fr\<close>)
  qed
qed

lemma paced_run:
  "(\<And>c. scale c \<le> c) \<Longrightarrow> paced t \<Longrightarrow> paced (fst (run_tunnel dbg shown url device files scale as t))"
proof (induction "as" arbitrary: t)
  case (Cons a "as")
  obtain t' r where t: "tunnel_turn dbg shown url device files scale a t = (t', r)" by force
  have "paced t'" using paced_turn[OF Cons.prems, of dbg shown url device files a] t by simp
  with Cons t show ?case by (cases r) auto
qed simp

text \<open>
  However the server answers, the tunnel's attempts are paced: each wait is between a
  quarter of a second and a minute, and it never retries at once twice in a row.
\<close>

theorem reconnects_are_paced:
  assumes "\<And>c. scale c \<le> c"
  shows "let t = fst (run_tunnel dbg shown url device files scale as tunnel_new)
    in list_all paced_wait (t_waits t) \<and> no_double (t_waits t)"
  using paced_run[OF assms, of tunnel_new dbg shown url device files "as"]
  by (simp add: paced_def tunnel_new_def Let_def)

definition refused_attempt :: attempt where
  "refused_attempt = \<lparr>at_token = TokenOk, at_upgrade = HttpRefused 401 None, at_end = EndIdle,
     at_lasted = 0, at_stop_before = False, at_stop_waiting = False\<rparr>"

theorem reconnects_are_paced_witness:
  "let t = fst (run_tunnel (\<lambda>_. []) (\<lambda>_. []) [] [] True (\<lambda>c. c div 2)
       [refused_attempt, refused_attempt, refused_attempt] tunnel_new)
   in list_all paced_wait (t_waits t) \<and> no_double (t_waits t)"
  by (rule reconnects_are_paced) simp

section \<open>Credentials\<close>

text \<open>A refused connection without a fresh nonce, and an unauthorised session, drop the token.\<close>

lemma refused_without_nonce_invalidates:
  assumes "at_stop_before a = False" and "at_token a = TokenOk"
    and "connect_result dbg url files (at_upgrade a) = Inl (ConnUnauthorized None)"
  shows "t_invalidations (fst (tunnel_turn dbg shown url device files scale a t))
    = t_invalidations t + 1"
  using assms by (simp add: tunnel_turn_def invalidate_def set_status_def wait_turn_def split_def Let_def)

lemma unauthorized_session_invalidates:
  assumes "at_stop_before a = False" and "at_token a = TokenOk"
    and "connect_result dbg url files (at_upgrade a) = Inr f" and "at_end a = EndUnauthorized r"
  shows "t_invalidations (fst (tunnel_turn dbg shown url device files scale a t))
    = t_invalidations t + 1"
  using assms by (simp add: tunnel_turn_def invalidate_def set_status_def audit_event_def
      wait_turn_def split_def Let_def)

lemma files_need_action_cable:
  "connect_result dbg url False u = Inr f \<Longrightarrow> f = ActionCable"
  by (auto simp: connect_result_def split: upgrade.splits option.splits if_splits)

end
