(* ===== verification/Presence.thy ===== *)
theory Presence
  imports Delivery
begin

text \<open>
  \<open>src/src/notification_presence.rs\<close>: one window's foreground presence. A worker thread keeps
  the daemon's idea of the displayed chat in step with the desired view: it renews an
  unchanged view, retries a failed request, and clears the previous view before it reports
  another. \<open>presence_next\<close> and \<open>presence_sent\<close> are \<open>Delivery::next\<close> and \<open>Delivery::sent\<close>; a
  \<open>Turn\<close> is one turn of the worker's loop, with the instants it reads and whether the daemon
  accepted its request. \<open>w_log\<close> is every request with its outcome.
\<close>

definition RENEW :: duration where "RENEW = secs 30"
definition RETRY :: duration where "RETRY = secs 1"

record shown_view =
  pv_account :: string
  pv_chat :: nat

definition view_valid :: "shown_view \<Rightarrow> bool" where
  "view_valid v \<longleftrightarrow> 7 \<le> length (pv_account v) \<and> length (pv_account v) \<le> 20
     \<and> list_all is_ascii_digit (pv_account v) \<and> 0 < pv_chat v"

datatype presence_step = Send shown_view bool | Wait "duration option"

record delivery_state =
  observed :: "shown_view option"
  renew_at :: "instant option"
  retry_at :: "instant option"

definition delivery_default :: delivery_state where
  "delivery_default = \<lparr>observed = None, renew_at = None, retry_at = None\<rparr>"

definition presence_next :: "delivery_state \<Rightarrow> shown_view option \<Rightarrow> instant \<Rightarrow> presence_step" where
  "presence_next d desired now =
     (let backing_off = Option.bind (retry_at d)
            (\<lambda>retry. if now < retry then Some (retry - now) else None)
      in case backing_off of
        Some w \<Rightarrow> Wait (Some w)
      | None \<Rightarrow>
         (let stale = Option.bind (observed d)
                (\<lambda>previous. if Some previous \<noteq> desired then Some previous else None)
          in case stale of
            Some previous \<Rightarrow> Send previous False
          | None \<Rightarrow>
             (case desired of
                None \<Rightarrow> Wait None
              | Some v \<Rightarrow>
                 (let fresh = (if observed d = Some v then Option.bind (renew_at d)
                        (\<lambda>renew. if now < renew then Some (renew - now) else None) else None)
                  in case fresh of Some w \<Rightarrow> Wait (Some w) | None \<Rightarrow> Send v True))))"

definition presence_sent ::
  "shown_view \<Rightarrow> bool \<Rightarrow> bool \<Rightarrow> instant \<Rightarrow> delivery_state \<Rightarrow> delivery_state" where
  "presence_sent v visible success now d =
     (let d = (if visible
               then d\<lparr>observed := Some v, renew_at := (if success then Some (now + RENEW) else None)\<rparr>
               else if success then d\<lparr>observed := None, renew_at := None\<rparr> else d)
      in d\<lparr>retry_at := (if success then None else Some (now + RETRY))\<rparr>)"

record worker =
  w_desired :: "shown_view option"
  w_closing :: bool
  w_delivery :: delivery_state
  w_finished :: bool
  w_log :: "(shown_view \<times> bool \<times> bool) list"

definition worker_new :: worker where
  "worker_new = \<lparr>w_desired = None, w_closing = False, w_delivery = delivery_default,
     w_finished = False, w_log = []\<rparr>"

datatype presence_event =
    SetView "shown_view option"
  | DropHandle
  | Turn instant bool instant

definition set_view :: "shown_view option \<Rightarrow> worker \<Rightarrow> worker" where
  "set_view v w = (let v = (case v of Some x \<Rightarrow> if view_valid x then Some x else None | None \<Rightarrow> None)
     in if w_desired w \<noteq> v then w\<lparr>w_desired := v\<rparr> else w)"

definition drop_handle :: "worker \<Rightarrow> worker" where
  "drop_handle w = w\<lparr>w_closing := True, w_desired := None\<rparr>"

definition worker_turn :: "instant \<Rightarrow> bool \<Rightarrow> instant \<Rightarrow> worker \<Rightarrow> worker" where
  "worker_turn now success then_now w =
     (if w_finished w then w
      else
        (let step = (if w_closing w
                then map_option (\<lambda>v. Send v False) (observed (w_delivery w))
                else Some (presence_next (w_delivery w) (w_desired w) now))
         in case step of
              None \<Rightarrow> w\<lparr>w_finished := True\<rparr>
            | Some (Send v visible) \<Rightarrow>
                w\<lparr>w_log := w_log w @ [(v, visible, success)],
                  w_delivery := presence_sent v visible success then_now (w_delivery w),
                  w_finished := w_closing w\<rparr>
            | Some (Wait _) \<Rightarrow> w))"

fun presence_event_step :: "worker \<Rightarrow> presence_event \<Rightarrow> worker" where
  "presence_event_step w (SetView v) = set_view v w"
| "presence_event_step w DropHandle = drop_handle w"
| "presence_event_step w (Turn now success then_now) = worker_turn now success then_now w"

section \<open>What the daemon may still show\<close>

text \<open>
  The views the daemon may hold for this window: a request to show a view may have arrived
  even when its answer was lost, and only an acknowledged clear takes it away.
\<close>

definition standing :: "(shown_view \<times> bool \<times> bool) list \<Rightarrow> shown_view set" where
  "standing log = foldl (\<lambda>S (v, visible, success).
     if visible then insert v S else if success then S - {v} else S) {} log"

lemma standing_snoc [simp]: "standing (log @ [(v, visible, success)]) =
    (if visible then insert v (standing log) else if success then standing log - {v} else standing log)"
  by (simp add: standing_def)

definition tracks :: "worker \<Rightarrow> bool" where
  "tracks w \<longleftrightarrow> standing (w_log w) = set_option (observed (w_delivery w))"

lemma next_visible:
  "presence_next d desired now = Send v True \<Longrightarrow> observed d \<in> {None, Some v} \<and> desired = Some v"
  by (auto simp: presence_next_def Let_def split: option.splits bind_splits if_splits)

lemma next_clear:
  "presence_next d desired now = Send v False \<Longrightarrow> observed d = Some v"
  by (auto simp: presence_next_def Let_def split: option.splits bind_splits if_splits)

lemma tracks_turn: "tracks w \<Longrightarrow> tracks (worker_turn now success t w)"
proof -
  assume t: "tracks w"
  let ?d = "w_delivery w"
  have send: "standing (w_log w @ [(v, visible, success)])
      = set_option (observed (presence_sent v visible success t ?d))"
    if "visible \<Longrightarrow> observed ?d \<in> {None, Some v}" "\<not> visible \<Longrightarrow> observed ?d = Some v" for v visible
    using t that by (cases visible) (auto simp: tracks_def presence_sent_def Let_def)
  show ?thesis
  proof (cases "w_closing w")
    case True
    with t send[of False] show ?thesis
      by (auto simp: worker_turn_def tracks_def split: option.splits)
  next
    case False
    show ?thesis
    proof (cases "presence_next ?d (w_desired w) now")
      case (Send v visible)
      have "standing (w_log w @ [(v, visible, success)])
          = set_option (observed (presence_sent v visible success t ?d))"
        using next_visible[of ?d "w_desired w" now v] next_clear[of ?d "w_desired w" now v] Send
        by (intro send) (cases visible; simp)+
      with False Send t show ?thesis by (simp add: worker_turn_def tracks_def)
    qed (use False t in \<open>simp add: worker_turn_def tracks_def\<close>)
  qed
qed

interpretation presence: invariant_system presence_event_step tracks
proof
  fix w e assume "tracks w"
  then show "tracks (presence_event_step w e)"
    by (cases e) (auto simp: tracks_turn, auto simp: tracks_def set_view_def drop_handle_def Let_def)
qed

text \<open>
  At every moment of a window's life the daemon can hold at most one view for it, the
  one the worker remembers: another chat is only reported after the previous one's clear
  was acknowledged, even when answers are lost.
\<close>

theorem at_most_one_view_stands:
  "standing (w_log (foldl presence_event_step worker_new es))
     = set_option (observed (w_delivery (foldl presence_event_step worker_new es)))"
proof -
  have "tracks worker_new"
    by (simp add: tracks_def worker_new_def delivery_default_def standing_def)
  then have "tracks (foldl presence_event_step worker_new es)" by (rule presence.run_keeps)
  then show ?thesis by (simp add: tracks_def)
qed

section \<open>Renewal\<close>

text \<open>An unchanged view that was accepted waits exactly until its renewal is due.\<close>

lemma unchanged_view_waits_for_renewal:
  assumes "observed d = Some v" and "renew_at d = Some r" and "retry_at d = None"
  shows "presence_next d (Some v) now = (if now < r then Wait (Some (r - now)) else Send v True)"
  using assms by (simp add: presence_next_def)

lemma renewed_before_expiry:
  assumes "presence_next (presence_sent v True True t d) (Some v) now = Wait (Some w)"
  shows "now + w \<le> t + secs 30 \<and> t + secs 30 < t + VIEW_TTL"
  using assms by (auto simp: presence_next_def presence_sent_def RENEW_def VIEW_TTL_def Let_def
      split: if_splits)

lemma only_valid_views_are_desired:
  "w_desired w \<in> Some ` {v. view_valid v} \<union> {None}
   \<Longrightarrow> w_desired (presence_event_step w e) \<in> Some ` {v. view_valid v} \<union> {None}"
  by (cases e) (auto simp: set_view_def drop_handle_def worker_turn_def Let_def
      split: option.splits presence_step.splits)

end
