(* ===== verification/AuditLog.thy ===== *)
theory AuditLog
  imports ToolPath
begin

text \<open>
  \<open>src/src/audit.rs\<close>: the local audit log. \<open>audit_log\<close> is the open file and the rotated ones,
  each as the lines it holds, so that an entry is never split by construction of the file
  but by what the code does to it. I/O that fails is not modelled; the JSON text of an entry
  and its parsing are parameters. \<open>tail\<close> works on the bytes of the file, as the code does,
  and \<open>format_line\<close> on the code points it prints.
\<close>

definition MAX_BYTES :: nat where "MAX_BYTES = 10 * 1024 * 1024"
definition KEEP_ROTATED :: nat where "KEEP_ROTATED = 3"
definition WINDOW :: nat where "WINDOW = 2 * 1024 * 1024"

section \<open>Appending and rotating\<close>

record audit_log =
  log_file :: "string list"
  log_rotated :: "nat \<Rightarrow> string list option"

definition file_len :: "string list \<Rightarrow> nat" where
  "file_len ls = sum_list (map length ls)"

text \<open>\<open>rename\<close> of one rotated file over the next, when it is there.\<close>

definition shift_rotated :: "nat \<Rightarrow> audit_log \<Rightarrow> audit_log" where
  "shift_rotated n l = (case log_rotated l n of
     None \<Rightarrow> l
   | Some ls \<Rightarrow> l\<lparr>log_rotated := (log_rotated l)(n + 1 := Some ls, n := None)\<rparr>)"

definition rotate_log :: "audit_log \<Rightarrow> audit_log" where
  "rotate_log l =
     (let l = foldl (\<lambda>l n. shift_rotated n l) l (rev [1..<KEEP_ROTATED])
      in l\<lparr>log_rotated := (log_rotated l)(1 := Some (log_file l)), log_file := []\<rparr>)"

text \<open>\<open>entry\<close> is the serialised entry.\<close>

definition try_append :: "string \<Rightarrow> audit_log \<Rightarrow> audit_log" where
  "try_append entry l =
     (let line = entry @ [CHR 0x0A];
          l = (if MAX_BYTES < file_len (log_file l) + length line then rotate_log l else l)
      in l\<lparr>log_file := log_file l @ [line]\<rparr>)"

definition audit_open :: audit_log where
  "audit_open = \<lparr>log_file = [], log_rotated = (\<lambda>_. None)\<rparr>"

text \<open>Everything that is kept, the oldest first.\<close>

definition kept_file :: "nat \<Rightarrow> audit_log \<Rightarrow> string list" where
  "kept_file n l = (case log_rotated l n of Some ls \<Rightarrow> ls | None \<Rightarrow> [])"

definition kept :: "audit_log \<Rightarrow> string list" where
  "kept l = kept_file 3 l @ kept_file 2 l @ kept_file 1 l @ log_file l"

text \<open>Rotation leaves no gap: a file only exists with all the newer ones.\<close>

definition no_gap :: "audit_log \<Rightarrow> bool" where
  "no_gap l \<longleftrightarrow> (log_rotated l 3 \<noteq> None \<longrightarrow> log_rotated l 2 \<noteq> None)
     \<and> (log_rotated l 2 \<noteq> None \<longrightarrow> log_rotated l 1 \<noteq> None)
     \<and> (\<forall>n. n \<notin> {1, 2, 3} \<longrightarrow> log_rotated l n = None)"

definition sizes_ok :: "audit_log \<Rightarrow> bool" where
  "sizes_ok l \<longleftrightarrow> file_len (log_file l) \<le> MAX_BYTES
     \<and> (\<forall>n ls. log_rotated l n = Some ls \<longrightarrow> file_len ls \<le> MAX_BYTES)"

lemma rev_upt_keep: "rev [Suc 0..<KEEP_ROTATED] = [2, 1]"
  by (simp add: KEEP_ROTATED_def upt_rec)

lemma rotate_log_rotated:
  "no_gap l \<Longrightarrow> log_rotated (rotate_log l) = (\<lambda>n.
     if n = 1 then Some (log_file l)
     else if n = 2 then log_rotated l 1
     else if n = 3 then log_rotated l 2
     else None)"
  by (auto simp: rotate_log_def rev_upt_keep shift_rotated_def no_gap_def fun_eq_iff Let_def
      split: option.splits)

lemma rotate_log_empties: "log_file (rotate_log l) = []"
  by (simp add: rotate_log_def Let_def)

lemma no_gap_rotate: "no_gap l \<Longrightarrow> no_gap (rotate_log l)"
  using rotate_log_rotated[of l] by (auto simp: no_gap_def)

lemma no_gap_append: "no_gap l \<Longrightarrow> no_gap (try_append e l)"
  using no_gap_rotate[of l] by (auto simp: try_append_def Let_def no_gap_def)

lemma kept_rotate:
  assumes "no_gap l"
  shows "\<exists>dropped. kept l = dropped @ kept (rotate_log l)"
proof (cases "log_rotated l 2")
  case None
  then have "log_rotated l 3 = None" using assms by (auto simp: no_gap_def)
  with None rotate_log_rotated[OF assms] rotate_log_empties[of l] show ?thesis
    by (auto simp: kept_def kept_file_def)
next
  case (Some ls)
  with rotate_log_rotated[OF assms] rotate_log_empties[of l] show ?thesis
    by (auto simp: kept_def kept_file_def)
qed

lemma kept_append:
  assumes "no_gap l"
  shows "\<exists>dropped. kept l @ [e @ [CHR 0x0A]] = dropped @ kept (try_append e l)"
proof (cases "MAX_BYTES < file_len (log_file l) + length (e @ [CHR 0x0A])")
  case True
  obtain d where "kept l = d @ kept (rotate_log l)" using kept_rotate[OF assms] by blast
  with True show ?thesis
    by (intro exI[of _ d]) (simp add: try_append_def kept_def kept_file_def Let_def)
next
  case False
  then show ?thesis
    by (intro exI[of _ "[]"]) (simp add: try_append_def kept_def kept_file_def Let_def)
qed

lemma sizes_append:
  assumes "no_gap l" and "sizes_ok l" and "length e < MAX_BYTES"
  shows "sizes_ok (try_append e l)"
proof (cases "MAX_BYTES < file_len (log_file l) + length (e @ [CHR 0x0A])")
  case True
  have "\<forall>n ls. log_rotated (rotate_log l) n = Some ls \<longrightarrow> file_len ls \<le> MAX_BYTES"
    using assms(2) unfolding rotate_log_rotated[OF assms(1)] sizes_ok_def by (auto split: if_splits)
  with True assms(3) show ?thesis
    by (simp add: try_append_def sizes_ok_def rotate_log_empties file_len_def Let_def)
next
  case False
  with assms(2) show ?thesis
    by (auto simp: try_append_def sizes_ok_def file_len_def Let_def)
qed

definition log_inv :: "audit_log \<Rightarrow> bool" where
  "log_inv l \<longleftrightarrow> no_gap l \<and> sizes_ok l"

interpretation audit: invariant_system "\<lambda>l e. try_append e l" no_gap
  by unfold_locales (rule no_gap_append)

text \<open>Entries below the cap, cut to a line each.\<close>

interpretation audit_sizes: invariant_system
  "\<lambda>l e. if length e < MAX_BYTES then try_append e l else l" log_inv
  by unfold_locales (auto simp: log_inv_def no_gap_append sizes_append)

lemma log_inv_open: "log_inv audit_open"
  by (simp add: log_inv_def no_gap_def sizes_ok_def audit_open_def file_len_def)

lemma append_run_kept:
  "no_gap l \<Longrightarrow> \<exists>dropped. kept l @ map (\<lambda>e. e @ [CHR 0x0A]) es
     = dropped @ kept (foldl (\<lambda>l e. try_append e l) l es)"
proof (induction es arbitrary: l)
  case (Cons e es)
  obtain d where d: "kept l @ [e @ [CHR 0x0A]] = d @ kept (try_append e l)"
    using kept_append[OF Cons.prems] by blast
  obtain d' where d': "kept (try_append e l) @ map (\<lambda>e. e @ [CHR 0x0A]) es
      = d' @ kept (foldl (\<lambda>l e. try_append e l) (try_append e l) es)"
    using Cons.IH[OF no_gap_append[OF Cons.prems]] by blast
  have "kept l @ map (\<lambda>e. e @ [CHR 0x0A]) (e # es)
      = (kept l @ [e @ [CHR 0x0A]]) @ map (\<lambda>e. e @ [CHR 0x0A]) es" by simp
  also have "\<dots> = d @ d' @ kept (foldl (\<lambda>l e. try_append e l) l (e # es))"
    unfolding d using d' by simp
  finally show ?case by (metis append_assoc)
qed simp

text \<open>
  The log and its rotated files together always hold the most recent entries, each
  whole, in order and once: only the oldest are ever dropped. The newest is always there.
\<close>

theorem log_keeps_the_latest_entries:
  "\<exists>dropped. map (\<lambda>e. e @ [CHR 0x0A]) es
     = dropped @ kept (foldl (\<lambda>l e. try_append e l) audit_open es)"
proof -
  have "kept audit_open = []" by (simp add: kept_def kept_file_def audit_open_def)
  moreover have "no_gap audit_open" using log_inv_open by (simp add: log_inv_def)
  ultimately show ?thesis using append_run_kept[of audit_open es] by simp
qed

lemma newest_is_kept: "last (kept (try_append e l)) = e @ [CHR 0x0A]"
  by (simp add: try_append_def kept_def Let_def)

section \<open>Reading the end of the log\<close>

text \<open>\<open>str::lines\<close>\<close>

definition strip_cr :: "string \<Rightarrow> string" where
  "strip_cr s = (if s \<noteq> [] \<and> last s = CHR 0x0D then butlast s else s)"

definition str_lines :: "string \<Rightarrow> string list" where
  "str_lines s = (let ps = split_on (CHR 0x0A) s
     in map strip_cr (butlast ps) @ (if last ps = [] then [] else [last ps]))"

text \<open>\<open>content\<close> is what the file holds, if there is one; \<open>parse\<close> reads an entry.\<close>

definition tail_log :: "(string \<Rightarrow> 'e option) \<Rightarrow> string option \<Rightarrow> nat \<Rightarrow> string + 'e list" where
  "tail_log parse content n = (case content of
     None \<Rightarrow> Inr []
   | Some bytes \<Rightarrow>
       (let start = length bytes - WINDOW;
            text = drop start bytes
        in if \<not> utf8_valid text then Inl ''stream did not contain valid UTF-8''
           else (let ls = str_lines text;
                     ls = (if 0 < start \<and> ls \<noteq> [] then tl ls else ls)
                 in Inr (List.map_filter parse (drop (length ls - n) ls)))))"

lemma str_lines_concat:
  "list_all (\<lambda>l. CHR 0x0A \<notin> set l \<and> strip_cr l = l) ls
   \<Longrightarrow> str_lines (concat (map (\<lambda>l. l @ [CHR 0x0A]) ls)) = ls"
proof -
  assume a: "list_all (\<lambda>l. CHR 0x0A \<notin> set l \<and> strip_cr l = l) ls"
  then have "split_on (CHR 0x0A) (concat (map (\<lambda>l. l @ [CHR 0x0A]) ls)) = ls @ [[]]"
    by (induction ls) (auto simp: split_on_append)
  with a show ?thesis by (auto simp: str_lines_def list_all_iff map_idI)
qed

text \<open>A log that fits in the window is read as it was written.\<close>

lemma tail_of_short_log:
  assumes "list_all (\<lambda>l. CHR 0x0A \<notin> set l \<and> strip_cr l = l) ls"
    and "utf8_valid (concat (map (\<lambda>l. l @ [CHR 0x0A]) ls))"
    and "length (concat (map (\<lambda>l. l @ [CHR 0x0A]) ls)) \<le> WINDOW"
  shows "tail_log parse (Some (concat (map (\<lambda>l. l @ [CHR 0x0A]) ls))) n
    = Inr (List.map_filter parse (drop (length ls - n) ls))"
  using assms str_lines_concat[OF assms(1)] by (simp add: tail_log_def Let_def)

text \<open>
  When the two-megabyte window starts in the middle of a character, the end of the log
  cannot be read at all: the cut character makes the whole text invalid, and reading it
  fails before the half line would be dropped.
\<close>

theorem tail_fails_on_a_cut_character:
  assumes "length post = WINDOW - 1"
  shows "tail_log parse (Some (pre @ [CHR 0xC3, CHR 0xA9] @ post)) n
    = Inl ''stream did not contain valid UTF-8''"
proof -
  have w: "0 < WINDOW" by (simp add: WINDOW_def)
  have "length (pre @ [CHR 0xC3, CHR 0xA9] @ post) - WINDOW = length pre + 1"
    using assms w by simp
  then have "drop (length (pre @ [CHR 0xC3, CHR 0xA9] @ post) - WINDOW)
      (pre @ [CHR 0xC3, CHR 0xA9] @ post) = CHR 0xA9 # post"
    by simp
  moreover have "\<not> utf8_valid (CHR 0xA9 # post)"
    by (simp add: utf8_valid_def utf8_follow_def of_char_def Let_def)
  ultimately show ?thesis by (simp add: tail_log_def Let_def del: append.simps append_Cons)
qed

theorem tail_fails_on_a_cut_character_witness:
  "tail_log Some (Some ([] @ [CHR 0xC3, CHR 0xA9] @ replicate (WINDOW - 1) (CHR ''a''))) 5
     = Inl ''stream did not contain valid UTF-8''"
  by (rule tail_fails_on_a_cut_character) simp

section \<open>Printing an entry\<close>

definition hex_digit :: "nat \<Rightarrow> nat" where
  "hex_digit n = (if n < 10 then 48 + n else 87 + n)"

fun hex_digits :: "nat \<Rightarrow> nat list" where
  "hex_digits n = (if n < 16 then [hex_digit n] else hex_digits (n div 16) @ [hex_digit (n mod 16)])"

declare hex_digits.simps [simp del]

text \<open>Text is a list of code points here, as \<open>str::chars\<close> gives them.\<close>

definition escape_char :: "nat \<Rightarrow> nat list" where
  "escape_char c = (if is_unsafe_in_path c then [0x5C, 0x75, 0x7B] @ hex_digits c @ [0x7D] else [c])"

definition escape_for_terminal :: "nat list \<Rightarrow> nat list" where
  "escape_for_terminal text =
     (if \<not> list_ex is_unsafe_in_path text then text else concat (map escape_char text))"

datatype decision = Allowed | DeniedDecision | ErrorDecision

record audit_entry =
  ae_ts :: string
  ae_event :: string
  ae_chat_id :: "string option"
  ae_request_id :: "string option"
  ae_tool :: "string option"
  ae_path :: "string option"
  ae_to :: "string option"
  ae_query :: "string option"
  ae_effect :: "string option"
  ae_dry_run :: "bool option"
  ae_written :: "nat option"
  ae_trash :: "string option"
  ae_decision :: "decision option"
  ae_code :: "string option"
  ae_reason :: "string option"
  ae_bytes :: "nat option"
  ae_results :: "nat option"
  ae_detail :: "string option"
  ae_duration :: "string option"

text \<open>\<open>{:<6}\<close> counts characters.\<close>

definition pad6 :: "string \<Rightarrow> string" where
  "pad6 s = s @ replicate (6 - length (utf8_chars s)) CHR '' ''"

definition part :: "string \<Rightarrow> string option \<Rightarrow> string \<Rightarrow> string" where
  "part before x after = (case x of None \<Rightarrow> [] | Some s \<Rightarrow> before @ s @ after)"

text \<open>\<open>dbg\<close> is the \<open>Debug\<close> form of a string; the duration is already printed.\<close>

definition format_entry :: "(string \<Rightarrow> string) \<Rightarrow> (string \<Rightarrow> audit_entry option) \<Rightarrow> string \<Rightarrow> string" where
  "format_entry dbg parse line = (case parse line of
     None \<Rightarrow> line
   | Some e \<Rightarrow>
       ae_ts e @ '' '' @
       (if ae_event e = ''tool'' then
          pad6 (case ae_decision e of
                  Some Allowed \<Rightarrow> ''ok'' | Some DeniedDecision \<Rightarrow> ''DENIED''
                | Some ErrorDecision \<Rightarrow> ''error'' | None \<Rightarrow> ''?'')
          @ '' '' @ pad6 (case ae_tool e of Some t \<Rightarrow> t | None \<Rightarrow> ''?'')
          @ part '' '' (ae_path e) []
          @ part '' -> '' (ae_to e) []
          @ part '' '' (ae_effect e) []
          @ (if ae_dry_run e = Some True then '' (dry run)'' else [])
          @ part '' written='' (map_option show_nat (ae_written e)) []
          @ part '' trash='' (ae_trash e) []
          @ part '' query='' (map_option dbg (ae_query e)) []
          @ part '' results='' (map_option show_nat (ae_results e)) []
          @ part '' bytes='' (map_option show_nat (ae_bytes e)) []
          @ part '' '' (ae_duration e) ''ms''
          @ part '' code='' (ae_code e) []
          @ part '' ('' (ae_reason e) '')''
          @ part '' chat='' (ae_chat_id e) []
        else ae_event e @ part '' '' (ae_detail e) []))"

definition format_line :: "(string \<Rightarrow> string) \<Rightarrow> (string \<Rightarrow> audit_entry option) \<Rightarrow> string \<Rightarrow> nat list" where
  "format_line dbg parse line = escape_for_terminal (utf8_chars (format_entry dbg parse line))"

lemma hex_digit_safe: "n < 16 \<Longrightarrow> \<not> is_unsafe_in_path (hex_digit n)"
  by (auto simp: hex_digit_def is_unsafe_in_path_def is_control_def)

lemma hex_digits_safe: "\<not> list_ex is_unsafe_in_path (hex_digits n)"
proof (induction n rule: hex_digits.induct)
  case (1 n)
  then show ?case
    by (subst hex_digits.simps) (auto simp: hex_digit_safe)
qed

lemma escape_char_safe: "\<not> list_ex is_unsafe_in_path (escape_char c)"
  using hex_digits_safe[of c]
  by (auto simp: escape_char_def) (auto simp: is_unsafe_in_path_def is_control_def)

text \<open>
  Whatever an entry holds (a path the model named, a query, a line that is no entry), the
  line printed for it has no control character, direction mark or invisible character, and
  text that has none is printed as it is.
\<close>

theorem printed_lines_are_inert:
  "\<not> list_ex is_unsafe_in_path (format_line dbg parse line)
   \<and> (if list_ex is_unsafe_in_path (utf8_chars (format_entry dbg parse line)) then True
      else format_line dbg parse line = utf8_chars (format_entry dbg parse line))"
proof -
  have "\<not> list_ex is_unsafe_in_path (escape_for_terminal cs)" for cs
    using escape_char_safe by (auto simp: escape_for_terminal_def list_ex_iff)
  then show ?thesis by (simp add: format_line_def escape_for_terminal_def)
qed

end
