(* ===== verification/Kinds.thy ===== *)
theory Kinds
  imports ToolPath
begin

text \<open>
  \<open>src/writer/kinds.rs\<close>: which names and which text a change may produce. \<open>lower\<close> is
  \<open>str::to_lowercase\<close>, of which the theorems only use what it does to ASCII; \<open>windows\<close> is
  \<open>cfg!(windows)\<close>. Names are UTF-8 bytes, like every string.
\<close>

section \<open>The lists\<close>

definition EXECUTABLE :: "string list" where
  "EXECUTABLE = [
    ''exe'', ''com'', ''bat'', ''cmd'', ''msi'', ''msix'', ''msixbundle'', ''appx'',
    ''appxbundle'', ''msp'', ''mst'', ''scr'', ''pif'', ''cpl'', ''ps1'', ''psm1'', ''psd1'',
    ''ps1xml'', ''psc1'', ''psc2'', ''vbs'', ''vbe'', ''jse'', ''wsf'', ''wsh'', ''wsc'',
    ''hta'', ''lnk'', ''url'', ''website'', ''reg'', ''inf'', ''scf'', ''application'',
    ''appref-ms'', ''gadget'', ''dll'', ''sys'', ''ocx'', ''drv'', ''msc'', ''xbap'', ''chm'',
    ''hlp'', ''library-ms'', ''search-ms'', ''searchconnector-ms'', ''settingcontent-ms'',
    ''diagcab'', ''appinstaller'', ''vsix'', ''xll'', ''msu'', ''ppkg'', ''wcx'', ''job'',
    ''mcf'', ''ins'', ''isp'', ''vb'', ''ws'', ''xnk'', ''shb'', ''shs'', ''ade'', ''adp'',
    ''sct'', ''msh'', ''msh1'', ''msh2'', ''mshxml'', ''msh1xml'', ''msh2xml'', ''pyz'',
    ''pyzw'', ''rtf'', ''mht'', ''mhtml'', ''slk'', ''iqy'', ''oqy'', ''rqy'', ''dqy'', ''rdp'',
    ''theme'', ''themepack'', ''deskthemepack'', ''docm'', ''dotm'', ''xlsm'', ''xltm'',
    ''xlam'', ''xla'', ''pptm'', ''potm'', ''ppsm'', ''ppam'', ''ppa'', ''sldm'', ''accde'',
    ''mde'', ''app'', ''command'', ''tool'', ''pkg'', ''mpkg'', ''dmg'', ''workflow'',
    ''terminal'', ''action'', ''webloc'', ''inetloc'', ''fileloc'', ''scpt'', ''scptd'',
    ''applescript'', ''kext'', ''prefpane'', ''plugin'', ''dylib'', ''desktop'', ''kdelnk'',
    ''so'', ''appimage'', ''run'', ''deb'', ''rpm'', ''flatpakref'', ''snap'', ''jar'',
    ''jnlp'', ''apk'']"

definition WINDOWS_SCRIPTS :: "string list" where
  "WINDOWS_SCRIPTS = [''js'']"

definition BINARY :: "string list" where
  "BINARY = [
    ''pdf'', ''doc'', ''docx'', ''dot'', ''dotx'', ''xls'', ''xlsx'', ''xlsb'', ''xlt'',
    ''xltx'', ''ppt'', ''pptx'', ''pps'', ''ppsx'', ''pot'', ''potx'', ''odt'', ''ods'',
    ''odp'', ''odg'', ''ott'', ''pages'', ''numbers'', ''key'', ''epub'', ''mobi'', ''zip'',
    ''gz'', ''tgz'', ''bz2'', ''xz'', ''zst'', ''7z'', ''rar'', ''tar'', ''war'', ''png'',
    ''jpg'', ''jpeg'', ''gif'', ''bmp'', ''tif'', ''tiff'', ''webp'', ''heic'', ''heif'',
    ''avif'', ''ico'', ''icns'', ''psd'', ''ai'', ''sketch'', ''fig'', ''mp3'', ''mp4'',
    ''m4a'', ''m4v'', ''mov'', ''avi'', ''mkv'', ''wav'', ''flac'', ''ogg'', ''opus'', ''webm'',
    ''aac'', ''wma'', ''wmv'', ''ttf'', ''otf'', ''woff'', ''woff2'', ''eot'', ''sqlite'',
    ''sqlite3'', ''db'', ''mdb'', ''accdb'', ''wasm'', ''class'', ''o'', ''a'', ''lib'',
    ''obj'', ''pyc'', ''iso'', ''img'', ''vhd'', ''vhdx'', ''vmdk'', ''qcow2'', ''bin'']"

definition DEVICE_NAMES :: "string list" where
  "DEVICE_NAMES = [
    ''con'', ''prn'', ''aux'', ''nul'', ''conin$'', ''conout$'', ''com0'', ''com1'', ''com2'',
    ''com3'', ''com4'', ''com5'', ''com6'', ''com7'', ''com8'', ''com9'', ''lpt0'', ''lpt1'',
    ''lpt2'', ''lpt3'', ''lpt4'', ''lpt5'', ''lpt6'', ''lpt7'', ''lpt8'', ''lpt9'',
    ''com'' @ [CHR 0xC2, CHR 0xB9], ''com'' @ [CHR 0xC2, CHR 0xB2],
    ''com'' @ [CHR 0xC2, CHR 0xB3], ''lpt'' @ [CHR 0xC2, CHR 0xB9],
    ''lpt'' @ [CHR 0xC2, CHR 0xB2], ''lpt'' @ [CHR 0xC2, CHR 0xB3]]"

section \<open>Names\<close>

text \<open>\<open>str::rsplit_once\<close> on one character.\<close>

definition rsplit_once :: "'a \<Rightarrow> 'a list \<Rightarrow> ('a list \<times> 'a list) option" where
  "rsplit_once c s = map_option (\<lambda>(l, r). (rev r, rev l)) (split_once c (rev s))"

definition ends_with :: "'a list \<Rightarrow> 'a list \<Rightarrow> bool" where
  "ends_with s p \<longleftrightarrow> starts_with (rev s) (rev p)"

definition trim_end_ws :: "string \<Rightarrow> string" where
  "trim_end_ws s = rev (trim_start (map rev whitespace_seqs) (rev s))"

definition extension :: "(string \<Rightarrow> string) \<Rightarrow> string \<Rightarrow> string option" where
  "extension lower name = (case rsplit_once (CHR ''.'') name of
     None \<Rightarrow> None
   | Some (stem, ext) \<Rightarrow> if stem \<noteq> [] \<and> ext \<noteq> [] then Some (lower ext) else None)"

definition not_changeable :: "string \<Rightarrow> tool_error" where
  "not_changeable = tool_error NotChangeable"

definition is_executable_name :: "bool \<Rightarrow> (string \<Rightarrow> string) \<Rightarrow> string \<Rightarrow> bool" where
  "is_executable_name windows lower name = (case extension lower name of
     Some ext \<Rightarrow> ext \<in> set EXECUTABLE \<or> (windows \<and> ext \<in> set WINDOWS_SCRIPTS)
   | None \<Rightarrow> False)"

text \<open>The characters a name may not have, as code points.\<close>

definition bad_in_name :: "nat \<Rightarrow> bool" where
  "bad_in_name c \<longleftrightarrow> is_control c
     \<or> c \<in> {0x2F, 0x5C, 0x3A, 0x2A, 0x3F, 0x22, 0x3C, 0x3E, 0x7C}
     \<or> c = 0x200E \<or> c = 0x200F \<or> (0x202A \<le> c \<and> c \<le> 0x202E) \<or> (0x2066 \<le> c \<and> c \<le> 0x2069)
     \<or> c = 0xFEFF"

definition check_new_name :: "bool \<Rightarrow> (string \<Rightarrow> string) \<Rightarrow> string \<Rightarrow> tool_error + unit" where
  "check_new_name windows lower name =
     (if name = [] \<or> name = ''.'' \<or> name = ''..'' then Inl (invalid_path ''This name is empty.'')
      else if list_ex bad_in_name (utf8_chars name)
        then Inl (invalid_path (''Names can'' @ CHR 0x27 # ''t contain control characters, direction marks, or any of ''
          @ [CHR 0x5C] @ '' / : * ? '' @ [CHR 0x22] @ '' < > |.''))
      else if ends_with name ''.'' \<or> ends_with name '' '' \<or> starts_with name '' ''
        then Inl (invalid_path (''Names can'' @ CHR 0x27 # ''t start with a space or end with a dot or a space.''))
      else if trim_end_ws (lower (hd (split_on (CHR ''.'') name))) \<in> set DEVICE_NAMES
        then Inl (invalid_path (name @ '' is a name Windows keeps for a device.''))
      else if is_executable_name windows lower name
        then Inl (not_changeable (''cww never creates programs, scripts that run when opened, installers, shortcuts or documents that run or fetch things when opened, so it can''
          @ CHR 0x27 # ''t make '' @ name @ ''.''))
      else Inr ())"

definition check_text_name :: "bool \<Rightarrow> (string \<Rightarrow> string) \<Rightarrow> string \<Rightarrow> tool_error + unit" where
  "check_text_name windows lower name =
     (if is_executable_name windows lower name
      then Inl (not_changeable (''cww never changes programs, scripts that run when opened, installers, shortcuts or documents that run or fetch things when opened, so it can''
          @ CHR 0x27 # ''t change '' @ name @ ''.''))
      else (case extension lower name of
        Some ext \<Rightarrow>
          if ext = ''docx'' \<or> ext = ''xlsx''
          then Inl (not_changeable (name @ '' is an Office document, which text would corrupt. Use create_document to make it.''))
          else if ext \<in> set BINARY
          then Inl (not_changeable (name @ '' isn'' @ CHR 0x27 # ''t a text file, and writing text to it would corrupt it.''))
          else Inr ()
      | None \<Rightarrow> Inr ()))"

section \<open>Text\<close>

definition eq_ignore_ascii_case :: "string \<Rightarrow> string \<Rightarrow> bool" where
  "eq_ignore_ascii_case a b \<longleftrightarrow> map to_ascii_lower a = map to_ascii_lower b"

text \<open>\<open>slice::windows\<close>\<close>

fun windows_of :: "nat \<Rightarrow> 'a list \<Rightarrow> 'a list list" where
  "windows_of n [] = []"
| "windows_of n (x # xs) =
     (if length (x # xs) < n then [] else take n (x # xs) # windows_of n xs)"

definition check_text :: "string \<Rightarrow> nat \<Rightarrow> tool_error + unit" where
  "check_text s mx =
     (if CHR 0x00 \<in> set s
      then Inl (not_changeable ''The text contains NUL characters; only text files can be written.'')
      else if list_ex (\<lambda>w. eq_ignore_ascii_case w ''<?mso-'') (windows_of 6 s)
      then Inl (not_changeable (''The text has an Office processing instruction (<?mso-...?>), which makes Windows open it in Word or Excel as a document. cww doesn''
        @ CHR 0x27 # ''t write those; use create_document for Word and Excel files.''))
      else if mx < length s
      then Inl (tool_error TooLarge (''The new content is '' @ show_nat (length s)
        @ '' bytes; files up to '' @ show_nat mx @ '' bytes can be changed.''))
      else Inr ())"

definition as_text :: "string \<Rightarrow> string \<Rightarrow> tool_error + string" where
  "as_text bytes name =
     (if \<not> utf8_valid bytes
      then Inl (not_changeable (name @ '' isn'' @ CHR 0x27 # ''t UTF-8 text, so it can'' @ CHR 0x27 # ''t be changed as text.''))
      else if CHR 0x00 \<in> set bytes
      then Inl (not_changeable (name @ '' isn'' @ CHR 0x27 # ''t a text file, so it can'' @ CHR 0x27 # ''t be changed as text.''))
      else Inr bytes)"

section \<open>What the checks promise\<close>

text \<open>
  How the system that opens a name reads it: Windows drops trailing dots and spaces and
  compares without case; what it does with the name depends on the last extension, and on
  the part before the first dot where that is a device.
\<close>

definition windows_name :: "string \<Rightarrow> string" where
  "windows_name s = rev (dropWhile (\<lambda>c. c = CHR ''.'' \<or> c = CHR '' '') (rev s))"

definition runs_when_opened :: "bool \<Rightarrow> string \<Rightarrow> bool" where
  "runs_when_opened windows name \<longleftrightarrow> (\<exists>stem ext. windows_name name = stem @ CHR ''.'' # ext
     \<and> map to_ascii_lower ext \<in> set (EXECUTABLE @ (if windows then WINDOWS_SCRIPTS else [])))"

definition opens_a_device :: "string \<Rightarrow> bool" where
  "opens_a_device name \<longleftrightarrow> (\<exists>dev n. hd (split_on (CHR ''.'') name) = dev @ replicate n (CHR '' '')
     \<and> list_all is_ascii_char dev \<and> map to_ascii_lower dev \<in> set DEVICE_NAMES)"

definition ascii_lowercase :: "(string \<Rightarrow> string) \<Rightarrow> bool" where
  "ascii_lowercase lower \<longleftrightarrow> (\<forall>s. list_all is_ascii_char s \<longrightarrow> lower s = map to_ascii_lower s)"

lemma ascii_lowercaseD:
  "ascii_lowercase lower \<Longrightarrow> list_all is_ascii_char s \<Longrightarrow> lower s = map to_ascii_lower s"
  by (simp add: ascii_lowercase_def)

lemma ascii_of_lower: "is_ascii_char (to_ascii_lower c) \<longleftrightarrow> is_ascii_char c"
  by (auto simp: is_ascii_char_def of_char_to_ascii_lower is_ascii_upper_def)

lemma executable_plain:
  "e \<in> set (EXECUTABLE @ WINDOWS_SCRIPTS) \<Longrightarrow> list_all is_ascii_char e \<and> e \<noteq> [] \<and> CHR ''.'' \<notin> set e"
proof -
  have "list_all (\<lambda>e. list_all is_ascii_char e \<and> e \<noteq> [] \<and> CHR ''.'' \<notin> set e) (EXECUTABLE @ WINDOWS_SCRIPTS)"
    by (simp add: EXECUTABLE_def WINDOWS_SCRIPTS_def is_ascii_char_def)
  then show "e \<in> set (EXECUTABLE @ WINDOWS_SCRIPTS) \<Longrightarrow> ?thesis" by (simp add: list_all_iff)
qed

lemma device_untrimmed:
  "d \<in> set DEVICE_NAMES \<Longrightarrow> trim_start (map rev whitespace_seqs) (rev d) = rev d"
proof -
  have "list_all (\<lambda>d. list_all (\<lambda>w. \<not> starts_with (rev d) (rev w)) whitespace_seqs) DEVICE_NAMES"
    by (simp add: DEVICE_NAMES_def whitespace_seqs_def)
  then show "d \<in> set DEVICE_NAMES \<Longrightarrow> ?thesis" by (intro trim_start_id) (auto simp: list_all_iff)
qed

lemma trim_start_space:
  "trim_start (map rev whitespace_seqs) (CHR '' '' # s) = trim_start (map rev whitespace_seqs) s"
  by (subst trim_start.simps) (simp add: whitespace_seqs_def)

lemma trim_end_device:
  "d \<in> set DEVICE_NAMES \<Longrightarrow> trim_end_ws (d @ replicate n (CHR '' '')) = d"
proof -
  have "trim_start (map rev whitespace_seqs) (replicate n (CHR '' '') @ s)
      = trim_start (map rev whitespace_seqs) s" for s
    by (induction n) (simp_all add: trim_start_space)
  then show "d \<in> set DEVICE_NAMES \<Longrightarrow> ?thesis"
    by (simp add: trim_end_ws_def device_untrimmed)
qed

lemma rsplit_once_append:
  "c \<notin> set r \<Longrightarrow> rsplit_once c (l @ c # r) = Some (l, r)"
  by (simp add: rsplit_once_def split_once_append)

lemma to_ascii_lower_dot: "to_ascii_lower c = CHR ''.'' \<longleftrightarrow> c = CHR ''.''"
proof
  assume "to_ascii_lower c = CHR ''.''"
  then have "(of_char (to_ascii_lower c) :: nat) = of_char (CHR ''.'')" by simp
  then have "(of_char c :: nat) = of_char (CHR ''.'')"
    unfolding of_char_to_ascii_lower by (auto simp: is_ascii_upper_def split: if_splits)
  then show "c = CHR ''.''" by (simp only: of_char_eq_iff)
qed (simp add: to_ascii_lower_def is_ascii_upper_def)

lemma windows_name_id:
  assumes "\<not> ends_with name ''.''" and "\<not> ends_with name '' ''"
  shows "windows_name name = name"
proof (cases "rev name")
  case (Cons c cs)
  with assms have "c \<noteq> CHR ''.''" and "c \<noteq> CHR '' ''" by (auto simp: ends_with_def)
  then have "dropWhile (\<lambda>c. c = CHR ''.'' \<or> c = CHR '' '') (rev name) = rev name" using Cons by simp
  then show ?thesis by (simp add: windows_name_def)
qed (simp add: windows_name_def)

lemma check_new_name_Inr:
  assumes "check_new_name windows lower name = Inr ()"
  shows "\<not> list_ex bad_in_name (utf8_chars name)" and "windows_name name = name"
    and "trim_end_ws (lower (hd (split_on (CHR ''.'') name))) \<notin> set DEVICE_NAMES"
    and "\<not> is_executable_name windows lower name" and "name \<notin> {[], ''.'', ''..''}"
  using assms windows_name_id[of name] by (auto simp: check_new_name_def split: if_splits)

lemma executable_by_extension:
  assumes "ascii_lowercase lower" and "name = stem @ CHR ''.'' # ext" and "stem \<noteq> []"
    and "map to_ascii_lower ext \<in> set (EXECUTABLE @ (if windows then WINDOWS_SCRIPTS else []))"
  shows "is_executable_name windows lower name"
proof -
  have e: "list_all is_ascii_char ext" "ext \<noteq> []" "CHR ''.'' \<notin> set ext"
    using executable_plain[of "map to_ascii_lower ext"] assms(4)
    by (auto simp: list_all_iff ascii_of_lower split: if_splits)
      (metis imageI to_ascii_lower_dot)+
  then have "rsplit_once (CHR ''.'') name = Some (stem, ext)"
    using assms(2) by (simp add: rsplit_once_append)
  with assms e show ?thesis
    by (auto simp: is_executable_name_def extension_def ascii_lowercaseD split: if_splits)
qed



text \<open>
  The extension only counts with something before it: \<open>.bat\<close> on its own is accepted, and is
  a batch file to Windows.
\<close>

lemma bare_extensions_are_accepted:
  assumes "ascii_lowercase lower"
  shows "check_new_name windows lower ''.bat'' = Inr () \<and> runs_when_opened windows ''.bat''"
proof -
  have "lower [] = []" using ascii_lowercaseD[OF assms, of "[]"] by simp
  then have "check_new_name windows lower ''.bat'' = Inr ()"
    by (simp add: check_new_name_def utf8_chars_def bad_in_name_def is_control_def ends_with_def
        trim_end_ws_def trim_start.simps whitespace_seqs_def DEVICE_NAMES_def is_executable_name_def
        extension_def rsplit_once_def)
  moreover have "windows_name ''.bat'' = [] @ CHR ''.'' # ''bat''" "map to_ascii_lower ''bat'' \<in> set EXECUTABLE"
    by (simp_all add: windows_name_def EXECUTABLE_def to_ascii_lower_def is_ascii_upper_def)
  then have "runs_when_opened windows ''.bat''" unfolding runs_when_opened_def by (metis UnI1 set_append)
  ultimately show ?thesis by simp
qed

lemma windows_of_mem:
  "length w = n \<Longrightarrow> 0 < n \<Longrightarrow> w \<in> set (windows_of n (pre @ w @ post))"
proof (induction pre)
  case Nil
  then show ?case by (cases w) auto
qed auto

text \<open>Text that is written never holds an Office processing instruction, in any case.\<close>

lemma accepted_text_is_plain:
  assumes "check_text s mx = Inr ()"
  shows "CHR 0x00 \<notin> set s" and "length s \<le> mx"
    and "s = pre @ w @ post \<Longrightarrow> map to_ascii_lower w \<noteq> ''<?mso-''"
proof -
  show "CHR 0x00 \<notin> set s" "length s \<le> mx"
    using assms by (auto simp: check_text_def split: if_splits)
  assume s: "s = pre @ w @ post"
  show "map to_ascii_lower w \<noteq> ''<?mso-''"
  proof
    assume w: "map to_ascii_lower w = ''<?mso-''"
    from arg_cong[OF w, of length] have "length w = 6" by simp
    then have "w \<in> set (windows_of 6 s)" using s windows_of_mem[of w 6] by simp
    moreover have "eq_ignore_ascii_case w ''<?mso-''"
      using w by (simp add: eq_ignore_ascii_case_def to_ascii_lower_def is_ascii_upper_def)
    ultimately have "list_ex (\<lambda>w. eq_ignore_ascii_case w ''<?mso-'') (windows_of 6 s)"
      by (auto simp: list_ex_iff)
    with assms show False by (simp add: check_text_def split: if_splits)
  qed
qed

end
