(* ===== verification/Reader.thy ===== *)
theory Reader
  imports ToolPath
begin

text \<open>
  \<open>src/reader/mod.rs\<close>: the reader behind \<open>roots\<close>, \<open>search\<close>, \<open>list\<close> and \<open>read\<close>, and the loop of
  \<open>src/reader/grep.rs\<close>. \<open>reader_state\<close> is \<open>State\<close>; the cache of extracted texts is passed
  along. \<open>reader_env\<close> gathers what lies below or beside this code: the file system as the
  root handles reach it, text extraction, the full-text index (tantivy), the matcher of grep,
  globset and the \<open>time\<close> crate. Extracted text is a list of code points, so that \<open>length\<close>
  counts characters. Arithmetic on \<open>usize\<close> that can wrap is written with \<open>wrap\<close>.
\<close>

definition MAX_EXTRACTED_CHARS :: nat where "MAX_EXTRACTED_CHARS = 20000000"
definition CACHE_ENTRIES :: nat where "CACHE_ENTRIES = 8"

definition wrap :: "nat \<Rightarrow> nat" where
  "wrap n = n mod 18446744073709551616"

section \<open>Requests and responses\<close>

record root_info =
  ri_id :: string
  ri_label :: string
  ri_available :: bool
  ri_writable :: bool
  ri_allows_commands :: bool
  ri_network :: bool
  ri_index :: string
  ri_indexed_files :: "nat option"
  ri_unattended :: "bool option"

record search_request =
  sq_query :: string
  sq_root :: "string option"
  sq_path_glob :: "string option"
  sq_modified_after :: "string option"
  sq_limit :: "nat option"
  sq_only :: "string list option"

record search_hit =
  sh_path :: string
  sh_title :: string
  sh_modified :: string
  sh_size :: nat
  sh_snippet :: string

record search_response =
  sr_hits :: "search_hit list"
  sr_engine :: string

record list_request =
  lq_path :: string
  lq_cursor :: "string option"

datatype entry_kind = FileEntry | DirEntry | SymlinkEntry | OtherEntry

record list_entry =
  le_name :: string
  le_path :: string
  le_kind :: entry_kind
  le_size :: "nat option"
  le_modified :: "string option"

record list_response =
  lr_path :: string
  lr_entries :: "list_entry list"
  lr_next_cursor :: "string option"

record read_request =
  rq_path :: string
  rq_offset :: "nat option"
  rq_max_chars :: "nat option"

record read_response =
  rr_path :: string
  rr_text :: "nat list"
  rr_offset :: nat
  rr_next_offset :: "nat option"
  rr_total_chars :: nat
  rr_modified :: string
  rr_size :: nat

section \<open>What the reader stands on\<close>

record root_handle =
  h_id :: string
  h_label :: string
  h_path :: path
  h_follow_symlinks :: bool
  h_writable :: bool
  h_identity :: "nat \<times> nat"

record dir_entry =
  de_name :: string
  de_kind :: entry_kind
  de_size :: "nat option"
  de_modified :: "int option"

text \<open>An open file with its content, or the I/O error that reading it gives.\<close>

record opened_file =
  o_content :: "string + string"
  o_size :: nat
  o_modified :: int
  o_identity :: "nat \<times> nat"

text \<open>A hit of the index or of grep, its time not printed yet.\<close>

record raw_hit =
  rh_path :: string
  rh_title :: string
  rh_modified :: int
  rh_size :: nat
  rh_snippet :: string

record index_query =
  iq_text :: string
  iq_roots :: "string list"
  iq_modified_after :: "int option"
  iq_limit :: nat
  iq_snippet_chars :: nat

record grep_query =
  gq_text :: string
  gq_glob :: "(string \<Rightarrow> bool) option"
  gq_modified_after :: "int option"
  gq_limit :: nat
  gq_snippet_chars :: nat
  gq_max_file_bytes :: nat

datatype index_state = IndexPending | Indexing | IndexReady | IndexError

record root_index_status =
  is_state :: index_state
  is_files :: nat

record walked_file =
  wf_rel :: rel_path
  wf_size :: nat
  wf_modified :: int

record reader_state =
  st_roots :: "root_handle list"
  st_configured :: "root list"
  st_deny :: deny_list
  st_write_deny :: deny_list
  st_allow_hardlinks :: bool
  st_limits :: limits
  st_index_enabled :: bool

type_synonym open_policy = "deny_list \<times> bool"

text \<open>
  \<open>env_index\<close> and \<open>env_status\<close> are absent together, when the index is off; \<open>env_walk\<close> is the
  files the walker finds in a folder, \<open>env_late\<close> whether the time of grep is over at a file or
  after a folder.
\<close>

record reader_env =
  env_windows :: bool
  env_dbg :: "string \<Rightarrow> string"
  env_libs :: policy_libs
  env_list_dir :: "open_policy \<Rightarrow> root_handle \<Rightarrow> rel_path \<Rightarrow> tool_error + dir_entry list"
  env_open_file :: "open_policy \<Rightarrow> root_handle \<Rightarrow> rel_path \<Rightarrow> tool_error + opened_file"
  env_extract :: "string \<Rightarrow> string \<Rightarrow> nat \<Rightarrow> tool_error + nat list"
  env_is_text :: "string \<Rightarrow> bool"
  env_walk :: "root_handle \<Rightarrow> walked_file list"
  env_late :: "root_handle \<Rightarrow> rel_path option \<Rightarrow> bool"
  env_first_match :: "string \<Rightarrow> opened_file \<Rightarrow> string option"
  env_snippet :: "string \<Rightarrow> string \<Rightarrow> nat \<Rightarrow> string"
  env_index :: "(index_query \<Rightarrow> string + raw_hit list) option"
  env_status :: "(string \<Rightarrow> root_index_status option) option"
  env_glob :: "string \<Rightarrow> string + (string \<Rightarrow> bool)"
  env_rfc3339 :: "string \<Rightarrow> int option"
  env_date :: "string \<Rightarrow> int option"
  env_format_time :: "int \<Rightarrow> string"

definition env_parse :: "reader_env \<Rightarrow> string \<Rightarrow> tool_error + tool_path" where
  "env_parse env = tool_path_parse (env_windows env) (env_dbg env)"

definition handle_path :: "root_handle \<Rightarrow> rel_path \<Rightarrow> path" where
  "handle_path h rel = abs_path (h_path h) rel"

definition display :: "string \<Rightarrow> rel_path \<Rightarrow> string" where
  "display rid rel = tool_path_display \<lparr>tp_root = rid, tp_rel = rel\<rparr>"

section \<open>Folders\<close>

definition reader_loan :: "reader_state \<Rightarrow> string \<Rightarrow> string \<Rightarrow> bot_loan option" where
  "reader_loan st rid i =
     (case find (\<lambda>r. root_id r = rid) (st_configured st) of None \<Rightarrow> None | Some r \<Rightarrow> loan r i)"

definition lent_to :: "reader_state \<Rightarrow> string \<Rightarrow> string list" where
  "lent_to st i = map root_id (filter (\<lambda>r. loan r i \<noteq> None) (st_configured st))"

definition index_word :: "bool \<Rightarrow> index_state option \<Rightarrow> string" where
  "index_word enabled s =
     (if \<not> enabled then ''disabled''
      else (case s of
        Some IndexReady \<Rightarrow> ''ready''
      | Some Indexing \<Rightarrow> ''indexing''
      | Some IndexError \<Rightarrow> ''error''
      | _ \<Rightarrow> ''pending''))"

definition env_status_of :: "reader_env \<Rightarrow> string \<Rightarrow> root_index_status option" where
  "env_status_of env rid = (case env_status env of None \<Rightarrow> None | Some f \<Rightarrow> f rid)"

definition root_info_of :: "reader_env \<Rightarrow> reader_state \<Rightarrow> root \<Rightarrow> root_info" where
  "root_info_of env st r =
     (let s = env_status_of env (root_id r)
      in \<lparr>ri_id = root_id r,
          ri_label = root_label r,
          ri_available = list_ex (\<lambda>h. h_id h = root_id r) (st_roots st),
          ri_writable = writable r,
          ri_allows_commands = (\<not> env_windows env \<and> runs_commands r),
          ri_network = (\<not> env_windows env \<and> runs_commands r \<and> network r),
          ri_index = index_word (st_index_enabled st) (map_option is_state s),
          ri_indexed_files = map_option is_files s,
          ri_unattended = None\<rparr>)"

definition reader_roots :: "reader_env \<Rightarrow> reader_state \<Rightarrow> root_info list" where
  "reader_roots env st = map (root_info_of env st) (st_configured st)"

definition root_by_id :: "reader_env \<Rightarrow> reader_state \<Rightarrow> string \<Rightarrow> tool_error + root_handle" where
  "root_by_id env st rid =
     (case find (\<lambda>h. h_id h = rid) (st_roots st) of
        Some h \<Rightarrow> Inr h
      | None \<Rightarrow>
          if list_ex (\<lambda>r. root_id r = rid) (st_configured st)
          then Inl (tool_error NotFound ''this folder is not available on the computer right now'')
          else Inl (tool_error UnknownRoot (''no shared folder has the ID '' @ env_dbg env rid
                 @ ''; call roots for the IDs'')))"

definition any_writable :: "reader_state \<Rightarrow> bool" where
  "any_writable st \<longleftrightarrow> list_ex writable (st_configured st)"

definition stop_changes :: "string list \<Rightarrow> reader_state \<Rightarrow> reader_state" where
  "stop_changes still st = st\<lparr>st_configured :=
     map (\<lambda>r. if root_id r \<in> set still then r else r\<lparr>writable := False\<rparr>) (st_configured st)\<rparr>"

definition open_policy_of :: "reader_state \<Rightarrow> open_policy" where
  "open_policy_of st = (st_deny st, st_allow_hardlinks st)"

section \<open>Searching\<close>

text \<open>\<open>usize::clamp\<close> panics when the bounds are crossed; the task running the search then ends
  and the caller gets this error.\<close>

definition crashed :: tool_error where
  "crashed = internal ''the reader crashed on this request''"

definition parse_time :: "reader_env \<Rightarrow> string \<Rightarrow> tool_error + int" where
  "parse_time env s =
     (case env_rfc3339 env s of
        Some t \<Rightarrow> Inr t
      | None \<Rightarrow> (case env_date env s of
          Some t \<Rightarrow> Inr t
        | None \<Rightarrow> Inl (invalid_argument ''modified_after must be an RFC 3339 time or YYYY-MM-DD'')))"

text \<open>A compiled glob and whether it is about the whole path.\<close>

definition compile_glob :: "reader_env \<Rightarrow> string \<Rightarrow> tool_error + (string \<Rightarrow> bool) \<times> bool" where
  "compile_glob env g =
     (if 256 < length g then Inl (invalid_argument ''path_glob is too long'')
      else (case env_glob env g of
        Inl e \<Rightarrow> Inl (invalid_argument (''invalid path_glob: '' @ e))
      | Inr m \<Rightarrow> Inr (m, CHR ''/'' \<in> set g)))"

fun transpose_opt :: "('a \<Rightarrow> 'e + 'b) \<Rightarrow> 'a option \<Rightarrow> 'e + 'b option" where
  "transpose_opt f None = Inr None"
| "transpose_opt f (Some x) = (case f x of Inl e \<Rightarrow> Inl e | Inr y \<Rightarrow> Inr (Some y))"

definition base_name :: "string \<Rightarrow> string" where
  "base_name rel = last (split_on (CHR ''/'') rel)"

definition glob_matches :: "((string \<Rightarrow> bool) \<times> bool) option \<Rightarrow> string \<Rightarrow> bool" where
  "glob_matches g rel = (case g of
     None \<Rightarrow> True
   | Some (m, whole) \<Rightarrow> if whole then m rel else m (base_name rel))"

definition search_hit_of :: "reader_env \<Rightarrow> raw_hit \<Rightarrow> search_hit" where
  "search_hit_of env h = \<lparr>sh_path = rh_path h, sh_title = rh_title h,
     sh_modified = env_format_time env (rh_modified h), sh_size = rh_size h,
     sh_snippet = rh_snippet h\<rparr>"

text \<open>Whether a hit of the index still counts: in one of the folders, not denied, matching.\<close>

definition index_hit_ok ::
  "reader_env \<Rightarrow> reader_state \<Rightarrow> root_handle list \<Rightarrow> ((string \<Rightarrow> bool) \<times> bool) option \<Rightarrow> raw_hit \<Rightarrow> bool" where
  "index_hit_ok env st hs g h = (case env_parse env (rh_path h) of
     Inl _ \<Rightarrow> False
   | Inr p \<Rightarrow> (case find (\<lambda>r. h_id r = tp_root p) hs of
       None \<Rightarrow> False
     | Some r \<Rightarrow> \<not> is_denied (env_libs env) (st_deny st) (handle_path r (tp_rel p))
         \<and> glob_matches g (as_string (tp_rel p))))"

fun take_hits :: "nat \<Rightarrow> (search_hit list \<Rightarrow> raw_hit \<Rightarrow> bool) \<Rightarrow> (raw_hit \<Rightarrow> search_hit)
  \<Rightarrow> search_hit list \<Rightarrow> raw_hit list \<Rightarrow> search_hit list" where
  "take_hits limit ok conv hits [] = hits"
| "take_hits limit ok conv hits (h # hs) =
     (if limit \<le> length hits then hits
      else take_hits limit ok conv (if ok hits h then hits @ [conv h] else hits) hs)"

text \<open>\<open>read_capped\<close> in \<open>src/reader/extract.rs\<close>\<close>

definition read_capped :: "opened_file \<Rightarrow> nat \<Rightarrow> tool_error + string" where
  "read_capped f mx = (case o_content f of
     Inl e \<Rightarrow> Inl (internal (''reading file: '' @ e))
   | Inr bytes \<Rightarrow>
       (let buf = take (wrap (mx + 1)) bytes
        in if mx < length buf
           then Inl (tool_error TooLarge (''file is larger than '' @ show_nat mx @ '' bytes''))
           else Inr buf))"

section \<open>Grep\<close>

definition grep_wants :: "reader_env \<Rightarrow> grep_query \<Rightarrow> walked_file \<Rightarrow> bool" where
  "grep_wants env q f \<longleftrightarrow>
     (let rel = as_string (wf_rel f)
      in \<not> (gq_max_file_bytes q < wf_size f
         \<or> (case gq_modified_after q of None \<Rightarrow> False | Some after \<Rightarrow> wf_modified f \<le> after)
         \<or> (case gq_glob q of None \<Rightarrow> False | Some g \<Rightarrow> \<not> g rel)
         \<or> \<not> env_is_text env rel))"

definition grep_file ::
  "reader_env \<Rightarrow> open_policy \<Rightarrow> root_handle \<Rightarrow> grep_query \<Rightarrow> string \<Rightarrow> walked_file \<Rightarrow> raw_hit option" where
  "grep_file env pol r q t f =
     (if \<not> grep_wants env q f then None
      else (case env_open_file env pol r (wf_rel f) of
        Inl _ \<Rightarrow> None
      | Inr opened \<Rightarrow> (case env_first_match env t opened of
          None \<Rightarrow> None
        | Some line \<Rightarrow> Some \<lparr>rh_path = display (h_id r) (wf_rel f),
            rh_title = (case file_name (wf_rel f) of Some n \<Rightarrow> n | None \<Rightarrow> []),
            rh_modified = wf_modified f, rh_size = wf_size f,
            rh_snippet = env_snippet env line t (gq_snippet_chars q)\<rparr>)))"

fun grep_folder ::
  "reader_env \<Rightarrow> open_policy \<Rightarrow> root_handle \<Rightarrow> grep_query \<Rightarrow> string \<Rightarrow> raw_hit list \<Rightarrow> walked_file list
    \<Rightarrow> raw_hit list" where
  "grep_folder env pol r q t hits [] = hits"
| "grep_folder env pol r q t hits (f # fs) =
     (if env_late env r (Some (wf_rel f)) \<or> gq_limit q \<le> length hits then hits
      else grep_folder env pol r q t
             (case grep_file env pol r q t f of None \<Rightarrow> hits | Some h \<Rightarrow> hits @ [h]) fs)"

fun grep_folders ::
  "reader_env \<Rightarrow> open_policy \<Rightarrow> grep_query \<Rightarrow> string \<Rightarrow> raw_hit list \<Rightarrow> root_handle list \<Rightarrow> raw_hit list" where
  "grep_folders env pol q t hits [] = hits"
| "grep_folders env pol q t hits (r # rs) =
     (let hits = grep_folder env pol r q t hits (env_walk env r)
      in if env_late env r None \<or> gq_limit q \<le> length hits then hits
         else grep_folders env pol q t hits rs)"

definition grep :: "reader_env \<Rightarrow> open_policy \<Rightarrow> root_handle list \<Rightarrow> grep_query \<Rightarrow> raw_hit list" where
  "grep env pol rs q =
     (let t = trim_ws (gq_text q)
      in if t = [] \<or> gq_limit q = 0 then [] else grep_folders env pol q t [] rs)"

section \<open>The search operation\<close>

definition search_roots ::
  "reader_env \<Rightarrow> reader_state \<Rightarrow> search_request \<Rightarrow> tool_error + root_handle list" where
  "search_roots env st req = (case sq_root req of
     Some i \<Rightarrow> map_sum id (\<lambda>h. [h]) (root_by_id env st i)
   | None \<Rightarrow> Inr (filter (\<lambda>h. case sq_only req of None \<Rightarrow> True | Some only \<Rightarrow> h_id h \<in> set only)
       (st_roots st)))"

definition search_index ::
  "reader_env \<Rightarrow> reader_state \<Rightarrow> root_handle list \<Rightarrow> string \<Rightarrow> nat \<Rightarrow> int option
    \<Rightarrow> ((string \<Rightarrow> bool) \<times> bool) option \<Rightarrow> tool_error + search_hit list" where
  "search_index env st hs query limit after g = (case env_index env of
     None \<Rightarrow> Inr []
   | Some index \<Rightarrow>
       (case index \<lparr>iq_text = query, iq_roots = map h_id hs, iq_modified_after = after,
                iq_limit = (if g \<noteq> None then min (wrap (limit * 10)) 500 else wrap (limit * 2)),
                iq_snippet_chars = snippet_chars (st_limits st)\<rparr> of
          Inl e \<Rightarrow> Inl (internal (''search failed: '' @ e))
        | Inr found \<Rightarrow>
            Inr (take_hits limit (\<lambda>_. index_hit_ok env st hs g) (search_hit_of env) [] found)))"

definition grep_query_of ::
  "reader_state \<Rightarrow> string \<Rightarrow> nat \<Rightarrow> int option \<Rightarrow> ((string \<Rightarrow> bool) \<times> bool) option \<Rightarrow> grep_query" where
  "grep_query_of st query limit after g =
     \<lparr>gq_text = query,
      gq_glob = (case g of Some (m, True) \<Rightarrow> Some m | _ \<Rightarrow> None),
      gq_modified_after = after,
      gq_limit = wrap (limit * 2),
      gq_snippet_chars = snippet_chars (st_limits st),
      gq_max_file_bytes = max_index_file_bytes (st_limits st)\<rparr>"

definition grep_hit_ok :: "((string \<Rightarrow> bool) \<times> bool) option \<Rightarrow> search_hit list \<Rightarrow> raw_hit \<Rightarrow> bool" where
  "grep_hit_ok g hits h \<longleftrightarrow>
     (case g of Some (m, False) \<Rightarrow> m (rh_title h) | _ \<Rightarrow> True)
     \<and> \<not> list_ex (\<lambda>x. sh_path x = rh_path h) hits"

definition search_ready :: "reader_env \<Rightarrow> root_handle list \<Rightarrow> bool" where
  "search_ready env hs \<longleftrightarrow> env_status env \<noteq> None
     \<and> list_all (\<lambda>h. case env_status_of env (h_id h) of
          Some s \<Rightarrow> is_state s = IndexReady | None \<Rightarrow> False) hs"

definition search_in ::
  "reader_env \<Rightarrow> reader_state \<Rightarrow> root_handle list \<Rightarrow> string \<Rightarrow> nat \<Rightarrow> int option
    \<Rightarrow> ((string \<Rightarrow> bool) \<times> bool) option \<Rightarrow> tool_error + search_response" where
  "search_in env st hs query limit after g = (case search_index env st hs query limit after g of
     Inl e \<Rightarrow> Inl e
   | Inr hits \<Rightarrow>
       (let engines = (if env_index env \<noteq> None then [''index''] else [])
        in if length hits < limit \<and> (hits = [] \<or> \<not> search_ready env hs)
           then Inr \<lparr>sr_hits = take_hits limit (grep_hit_ok g) (search_hit_of env) hits
                       (grep env (open_policy_of st) hs (grep_query_of st query limit after g)),
                     sr_engine = join_with (CHR ''+'') (engines @ [''grep''])\<rparr>
           else Inr \<lparr>sr_hits = hits, sr_engine = join_with (CHR ''+'') engines\<rparr>))"

definition search :: "reader_env \<Rightarrow> reader_state \<Rightarrow> search_request \<Rightarrow> tool_error + search_response" where
  "search env st req =
     (let query = trim_ws (sq_query req);
          most = search_hits (st_limits st)
      in if query = [] then Inl (invalid_argument ''query must not be empty'')
         else if 1000 < length (utf8_chars query) then Inl (invalid_argument ''query is too long'')
         else if most < 1 then Inl crashed
         else (let limit = max 1 (min most (case sq_limit req of Some n \<Rightarrow> n | None \<Rightarrow> most))
           in case search_roots env st req of
                Inl e \<Rightarrow> Inl e
              | Inr hs \<Rightarrow> (case transpose_opt (parse_time env) (sq_modified_after req) of
                  Inl e \<Rightarrow> Inl e
                | Inr after \<Rightarrow> (case transpose_opt (compile_glob env) (sq_path_glob req) of
                    Inl e \<Rightarrow> Inl e
                  | Inr g \<Rightarrow> search_in env st hs query limit after g))))"

section \<open>Listing\<close>

text \<open>\<open>str::parse::<usize>\<close>: an optional plus, then digits, in range.\<close>

definition parse_usize :: "string \<Rightarrow> nat option" where
  "parse_usize s =
     (let d = (case s of c # t \<Rightarrow> if c = CHR ''+'' then t else s | [] \<Rightarrow> s)
      in if d \<noteq> [] \<and> list_all is_ascii_digit d \<and> read_nat d 0 \<le> u64_max
         then Some (read_nat d 0) else None)"

definition list_entry_of :: "reader_env \<Rightarrow> string \<Rightarrow> rel_path \<Rightarrow> dir_entry \<Rightarrow> list_entry" where
  "list_entry_of env rid rel e = \<lparr>le_name = de_name e,
     le_path = display rid (rel_join rel (de_name e)), le_kind = de_kind e, le_size = de_size e,
     le_modified = map_option (env_format_time env) (de_modified e)\<rparr>"

text \<open>One page: \<open>entries.get(start..end)\<close> is nothing when the range is not in the list.\<close>

definition list_page_of ::
  "reader_env \<Rightarrow> string \<Rightarrow> rel_path \<Rightarrow> nat \<Rightarrow> dir_entry list \<Rightarrow> nat \<Rightarrow> list_response" where
  "list_page_of env rid rel page entries start =
     (let end' = min (wrap (start + page)) (length entries)
      in \<lparr>lr_path = display rid rel,
          lr_entries = map (list_entry_of env rid rel)
            (if start \<le> end' then take (end' - start) (drop start entries) else []),
          lr_next_cursor = (if end' < length entries then Some (show_nat end') else None)\<rparr>)"

definition reader_list :: "reader_env \<Rightarrow> reader_state \<Rightarrow> list_request \<Rightarrow> tool_error + list_response" where
  "reader_list env st req = (case env_parse env (lq_path req) of
     Inl e \<Rightarrow> Inl e
   | Inr p \<Rightarrow> (case root_by_id env st (tp_root p) of
       Inl e \<Rightarrow> Inl e
     | Inr h \<Rightarrow> (case env_list_dir env (open_policy_of st) h (tp_rel p) of
         Inl e \<Rightarrow> Inl e
       | Inr entries \<Rightarrow>
           (case (case lq_cursor req of None \<Rightarrow> Some 0 | Some c \<Rightarrow> parse_usize c) of
              None \<Rightarrow> Inl (invalid_argument ''invalid cursor'')
            | Some start \<Rightarrow>
                Inr (list_page_of env (h_id h) (tp_rel p) (list_page (st_limits st)) entries start)))))"

section \<open>Reading\<close>

text \<open>The cache of extracted texts, the most recent first.\<close>

type_synonym cache_key = "string \<times> (nat \<times> nat) \<times> int \<times> nat"
type_synonym text_cache = "(cache_key \<times> nat list) list"

definition cached :: "text_cache \<Rightarrow> cache_key \<Rightarrow> nat list option" where
  "cached c k = map_option snd (find (\<lambda>(k', _). k' = k) c)"

definition store :: "cache_key \<Rightarrow> nat list \<Rightarrow> text_cache \<Rightarrow> text_cache" where
  "store k t c = take CACHE_ENTRIES ((k, t) # filter (\<lambda>(k', _). fst k' \<noteq> fst k) c)"

definition extracted ::
  "reader_env \<Rightarrow> limits \<Rightarrow> tool_path \<Rightarrow> opened_file \<Rightarrow> text_cache \<Rightarrow> (tool_error + nat list) \<times> text_cache" where
  "extracted env l p f c =
     (let k = (tool_path_display p, o_identity f, o_modified f, o_size f)
      in case cached c k of
           Some t \<Rightarrow> (Inr t, c)
         | None \<Rightarrow> (case read_capped f (max_file_bytes l) of
             Inl e \<Rightarrow> (Inl e, c)
           | Inr bytes \<Rightarrow>
               (case env_extract env (case file_name (tp_rel p) of Some n \<Rightarrow> n | None \<Rightarrow> []) bytes
                       MAX_EXTRACTED_CHARS of
                  Inl e \<Rightarrow> (Inl e, c)
                | Inr t \<Rightarrow> (Inr t, store k t c))))"

definition read_chunk ::
  "reader_env \<Rightarrow> tool_path \<Rightarrow> opened_file \<Rightarrow> nat list \<Rightarrow> nat \<Rightarrow> nat \<Rightarrow> tool_error + read_response" where
  "read_chunk env p f t start mx =
     (if length t < start
      then Inl (invalid_argument (''offset '' @ show_nat start @ '' is past the end ('' @
             show_nat (length t) @ '' characters)''))
      else (let chunk = take mx (drop start t); end' = start + length chunk
        in Inr \<lparr>rr_path = tool_path_display p, rr_text = chunk, rr_offset = start,
             rr_next_offset = (if end' < length t then Some end' else None),
             rr_total_chars = length t, rr_modified = env_format_time env (o_modified f),
             rr_size = o_size f\<rparr>))"

definition reader_read ::
  "reader_env \<Rightarrow> reader_state \<Rightarrow> text_cache \<Rightarrow> read_request \<Rightarrow> (tool_error + read_response) \<times> text_cache" where
  "reader_read env st c req = (case env_parse env (rq_path req) of
     Inl e \<Rightarrow> (Inl e, c)
   | Inr p \<Rightarrow>
       if is_root (tp_rel p) then (Inl (tool_error NotAFile ''this path is a directory''), c)
       else (case root_by_id env st (tp_root p) of
         Inl e \<Rightarrow> (Inl e, c)
       | Inr h \<Rightarrow>
           (let most = read_chars_per_call (st_limits st)
            in if most < 1 then (Inl crashed, c)
               else (let mx = max 1 (min most (case rq_max_chars req of Some n \<Rightarrow> n | None \<Rightarrow> most));
                   start = (case rq_offset req of Some n \<Rightarrow> n | None \<Rightarrow> 0)
                 in case env_open_file env (open_policy_of st) h (tp_rel p) of
                      Inl e \<Rightarrow> (Inl e, c)
                    | Inr f \<Rightarrow>
                        if max_file_bytes (st_limits st) < o_size f
                        then (Inl (tool_error TooLarge (''the file is '' @ show_nat (o_size f)
                               @ '' bytes; the limit is '' @ show_nat (max_file_bytes (st_limits st)))), c)
                        else (case extracted env (st_limits st) p f c of
                          (Inl e, c) \<Rightarrow> (Inl e, c)
                        | (Inr t, c) \<Rightarrow> (read_chunk env p f t start mx, c))))))"

definition reload :: "reader_env \<Rightarrow> reader_state \<Rightarrow> reader_state \<times> text_cache" where
  "reload env new = (new\<lparr>st_index_enabled := env_index env \<noteq> None\<rparr>, [])"

text \<open>\<open>handle\<close> opens a folder; \<open>own\<close> and \<open>home\<close> are the directories the deny lists are about.\<close>

definition build_state ::
  "policy_libs \<Rightarrow> (root \<Rightarrow> root_handle option) \<Rightarrow> path list \<Rightarrow> path option \<Rightarrow> config \<Rightarrow> bool
    \<Rightarrow> string + reader_state" where
  "build_state u handle own home cfg index_on =
     (case from_config u (deny cfg) own of
        Inl e \<Rightarrow> Inl e
      | Inr dl \<Rightarrow> (case write_from_config u (deny cfg) home of
          Inl e \<Rightarrow> Inl e
        | Inr wdl \<Rightarrow>
            Inr \<lparr>st_roots = List.map_filter handle (roots cfg), st_configured = roots cfg,
              st_deny = dl, st_write_deny = wdl,
              st_allow_hardlinks = allow_hardlinks (deny cfg), st_limits = cfg_limits cfg,
              st_index_enabled = index_on\<rparr>))"

section \<open>The cache\<close>

definition cache_ok :: "text_cache \<Rightarrow> bool" where
  "cache_ok c \<longleftrightarrow> length c \<le> CACHE_ENTRIES \<and> distinct (map (fst \<circ> fst) c)"

lemma cache_ok_store: "cache_ok c \<Longrightarrow> cache_ok (store k t c)"
proof -
  assume "cache_ok c"
  then have "distinct (map (fst \<circ> fst) ((k, t) # filter (\<lambda>(k', _). fst k' \<noteq> fst k) c))"
    by (induction c) (auto simp: cache_ok_def)
  then show ?thesis
    by (auto simp: cache_ok_def store_def take_map [symmetric] simp del: take_Suc_Cons
        intro: distinct_take)
qed

lemma cache_ok_extracted: "cache_ok c \<Longrightarrow> cache_ok (snd (extracted env l p f c))"
  by (auto simp: extracted_def Let_def cache_ok_store split: option.splits sum.splits)

lemma cache_ok_read: "cache_ok c \<Longrightarrow> cache_ok (snd (reader_read env st c req))"
  using cache_ok_extracted
  by (auto simp: reader_read_def Let_def split: sum.splits prod.splits) (metis snd_conv)+

interpretation text_cache: invariant_system
  "\<lambda>c (env, st, req). snd (reader_read env st c req)" cache_ok
  by unfold_locales (auto simp: cache_ok_read)

section \<open>Where the hits of a search lie\<close>

definition hit_in :: "root_handle list \<Rightarrow> search_hit \<Rightarrow> bool" where
  "hit_in hs h \<longleftrightarrow> (\<exists>r \<in> set hs. starts_with (sh_path h) (h_id r @ '':''))"

lemma display_starts: "starts_with (display rid rel) (rid @ '':'')"
  by (auto simp: display_def tool_path_display_def starts_with_iff)

lemma hit_inI: "r \<in> set hs \<Longrightarrow> sh_path h = h_id r @ CHR '':'' # rel \<Longrightarrow> hit_in hs h"
  by (auto simp: hit_in_def starts_with_iff)

lemma take_hits_all:
  assumes "\<And>hits h. h \<in> set found \<Longrightarrow> ok hits h \<Longrightarrow> P (conv h)" and "\<forall>x \<in> set hits. P x"
  shows "\<forall>x \<in> set (take_hits limit ok conv hits found). P x"
  using assms
proof (induction found arbitrary: hits)
  case (Cons h found)
  have "\<forall>x \<in> set (if ok hits h then hits @ [conv h] else hits). P x" using Cons.prems by auto
  from Cons.IH[OF _ this] Cons.prems show ?case by simp
qed simp

lemma take_hits_limit:
  "length hits \<le> limit \<Longrightarrow> length (take_hits limit ok conv hits found) \<le> limit"
  by (induction found arbitrary: hits) auto

lemma index_hit_in:
  assumes "index_hit_ok env st hs g h"
  shows "hit_in hs (search_hit_of env h)"
proof -
  obtain p r where p: "env_parse env (rh_path h) = Inr p" and r: "find (\<lambda>r. h_id r = tp_root p) hs = Some r"
    using assms by (auto simp: index_hit_ok_def split: sum.splits option.splits)
  from p obtain rel where "rh_path h = tp_root p @ CHR '':'' # rel"
    unfolding env_parse_def by (rule tool_path_parse_Inr)
  then have "sh_path (search_hit_of env h) = h_id r @ CHR '':'' # rel"
    using find_SomeD[OF r] by (simp add: search_hit_of_def)
  then show ?thesis using find_SomeD[OF r] hit_inI by blast
qed

lemma grep_file_in: "grep_file env pol r q t f = Some h \<Longrightarrow> starts_with (rh_path h) (h_id r @ '':'')"
  by (auto simp: grep_file_def display_starts simp del: starts_with.simps
      split: if_splits sum.splits option.splits)

lemma grep_folder_in:
  assumes "\<forall>h \<in> set hits. P h" and "\<And>h. starts_with (rh_path h) (h_id r @ '':'') \<Longrightarrow> P h"
  shows "\<forall>h \<in> set (grep_folder env pol r q t hits fs). P h"
  using assms(1)
proof (induction fs arbitrary: hits)
  case (Cons f fs)
  let ?hits = "case grep_file env pol r q t f of None \<Rightarrow> hits | Some h \<Rightarrow> hits @ [h]"
  have "\<forall>h \<in> set ?hits. P h"
    using Cons.prems assms(2) grep_file_in[of env pol r q t f] by (auto split: option.splits)
  from Cons.IH[OF this] Cons.prems show ?case by simp
qed simp

lemma grep_folders_in:
  assumes "\<forall>h \<in> set hits. \<exists>r \<in> R. starts_with (rh_path h) (h_id r @ '':'')" and "set rs \<subseteq> R"
  shows "\<forall>h \<in> set (grep_folders env pol q t hits rs). \<exists>r \<in> R. starts_with (rh_path h) (h_id r @ '':'')"
  using assms
proof (induction rs arbitrary: hits)
  case (Cons r rs)
  have "\<forall>h \<in> set (grep_folder env pol r q t hits (env_walk env r)).
      \<exists>r \<in> R. starts_with (rh_path h) (h_id r @ '':'')"
    using Cons.prems by (intro grep_folder_in) auto
  with Cons show ?case by (simp add: Let_def)
qed simp

lemma search_hits_in:
  assumes "search_in env st hs query limit after g = Inr resp"
  shows "list_all (hit_in hs) (sr_hits resp) \<and> length (sr_hits resp) \<le> limit"
proof -
  obtain hits where hits: "search_index env st hs query limit after g = Inr hits"
    using assms by (auto simp: search_in_def split: sum.splits)
  have "\<forall>h \<in> set (take_hits limit (\<lambda>_. index_hit_ok env st hs g) (search_hit_of env) [] found). hit_in hs h"
    for found by (rule take_hits_all) (auto intro: index_hit_in)
  then have h: "(\<forall>h \<in> set hits. hit_in hs h) \<and> length hits \<le> limit"
    using hits by (auto simp: search_index_def take_hits_limit split: option.splits sum.splits)
  have "\<forall>h \<in> set (grep env pol hs q). \<exists>r \<in> set hs. starts_with (rh_path h) (h_id r @ '':'')" for pol q
    using grep_folders_in[of "[]" "set hs" hs] by (auto simp: grep_def Let_def)
  then have gh: "\<forall>h \<in> set (take_hits limit (grep_hit_ok g) (search_hit_of env) hits
      (grep env pol hs q)). hit_in hs h" for pol q
    using h by (intro take_hits_all) (auto simp: hit_in_def search_hit_of_def)
  show ?thesis
  proof (cases "length hits < limit \<and> (hits = [] \<or> \<not> search_ready env hs)")
    case True
    with assms hits gh[of "open_policy_of st" "grep_query_of st query limit after g"] h show ?thesis
      by (auto simp: search_in_def Let_def list_all_iff take_hits_limit)
  next
    case False
    with assms hits h show ?thesis by (auto simp: search_in_def Let_def list_all_iff)
  qed
qed

section \<open>What an answer depends on\<close>

text \<open>
  Two environments agree on a set of folders when everything they say about those folders is
  the same: their files, what the walker and the index find in them, and their index status.
  About other folders they may say anything.
\<close>

definition agree :: "string set \<Rightarrow> reader_env \<Rightarrow> reader_env \<Rightarrow> bool" where
  "agree F e1 e2 \<longleftrightarrow>
     (\<forall>pol h rel. h_id h \<in> F \<longrightarrow> env_list_dir e1 pol h rel = env_list_dir e2 pol h rel
        \<and> env_open_file e1 pol h rel = env_open_file e2 pol h rel)
     \<and> (\<forall>h. h_id h \<in> F \<longrightarrow> env_walk e1 h = env_walk e2 h \<and> env_late e1 h = env_late e2 h)
     \<and> (\<forall>i \<in> F. env_status_of e1 i = env_status_of e2 i)
     \<and> (env_status e1 = None) = (env_status e2 = None)
     \<and> (case (env_index e1, env_index e2) of
          (None, None) \<Rightarrow> True
        | (Some f, Some g) \<Rightarrow> \<forall>q. set (iq_roots q) \<subseteq> F \<longrightarrow> f q = g q
        | _ \<Rightarrow> False)
     \<and> env_windows e1 = env_windows e2 \<and> env_dbg e1 = env_dbg e2 \<and> env_libs e1 = env_libs e2
     \<and> env_extract e1 = env_extract e2 \<and> env_is_text e1 = env_is_text e2
     \<and> env_first_match e1 = env_first_match e2 \<and> env_snippet e1 = env_snippet e2
     \<and> env_glob e1 = env_glob e2 \<and> env_rfc3339 e1 = env_rfc3339 e2 \<and> env_date e1 = env_date e2
     \<and> env_format_time e1 = env_format_time e2"

lemma agree_folder:
  assumes "agree F e1 e2" and "h_id h \<in> F"
  shows "env_list_dir e1 pol h rel = env_list_dir e2 pol h rel"
    and "env_open_file e1 pol h rel = env_open_file e2 pol h rel"
    and "env_walk e1 h = env_walk e2 h" and "env_late e1 h = env_late e2 h"
    and "env_status_of e1 (h_id h) = env_status_of e2 (h_id h)"
  using assms unfolding agree_def by blast+

lemma agree_fixed:
  assumes "agree F e1 e2"
  shows "env_windows e1 = env_windows e2" "env_dbg e1 = env_dbg e2" "env_libs e1 = env_libs e2"
    "env_extract e1 = env_extract e2" "env_is_text e1 = env_is_text e2"
    "env_first_match e1 = env_first_match e2" "env_snippet e1 = env_snippet e2"
    "env_glob e1 = env_glob e2" "env_rfc3339 e1 = env_rfc3339 e2" "env_date e1 = env_date e2"
    "env_format_time e1 = env_format_time e2" "(env_status e1 = None) = (env_status e2 = None)"
    "(env_index e1 = None) = (env_index e2 = None)"
  using assms by (auto simp: agree_def split: option.splits)

lemma agree_index:
  assumes "agree F e1 e2" and "set (iq_roots q) \<subseteq> F" and "env_index e1 = Some f"
  obtains g where "env_index e2 = Some g" and "f q = g q"
  using assms by (auto simp: agree_def split: option.splits)

lemma agree_helpers:
  assumes "agree F e1 e2"
  shows "env_parse e1 = env_parse e2" "root_by_id e1 = root_by_id e2"
    "index_hit_ok e1 = index_hit_ok e2" "search_hit_of e1 = search_hit_of e2"
    "parse_time e1 = parse_time e2" "compile_glob e1 = compile_glob e2"
    "list_entry_of e1 = list_entry_of e2" "read_chunk e1 = read_chunk e2"
    "extracted e1 = extracted e2" "grep_wants e1 = grep_wants e2"
    "list_page_of e1 = list_page_of e2" "search_roots e1 = search_roots e2"
  by (unfold env_parse_def root_by_id_def search_roots_def list_page_of_def
      index_hit_ok_def search_hit_of_def parse_time_def compile_glob_def list_entry_of_def
      read_chunk_def extracted_def grep_wants_def agree_fixed [OF assms], (rule refl)+)

lemma agree_grep_folder:
  assumes "agree F e1 e2" and "h_id r \<in> F"
  shows "grep_folder e1 pol r q t hits fs = grep_folder e2 pol r q t hits fs"
proof -
  have "grep_file e1 pol r q t = grep_file e2 pol r q t"
    by (simp add: fun_eq_iff grep_file_def agree_fixed [OF assms(1)] agree_helpers [OF assms(1)]
        agree_folder [OF assms] cong: sum.case_cong option.case_cong)
  then show ?thesis
    by (induction fs arbitrary: hits) (simp_all add: agree_folder [OF assms])
qed

lemma agree_grep:
  assumes "agree F e1 e2" and "h_id ` set hs \<subseteq> F"
  shows "grep e1 pol hs q = grep e2 pol hs q"
proof -
  have "grep_folders e1 pol q t hits hs = grep_folders e2 pol q t hits hs" for t hits
    using assms(2)
    by (induction hs arbitrary: hits)
      (simp_all add: agree_grep_folder [OF assms(1)] agree_folder [OF assms(1)] Let_def)
  then show ?thesis by (simp add: grep_def Let_def)
qed

lemma agree_search_in:
  assumes "agree F e1 e2" and "h_id ` set hs \<subseteq> F"
  shows "search_in e1 st hs query limit after g = search_in e2 st hs query limit after g"
proof -
  have idx: "search_index e1 st hs query limit after g = search_index e2 st hs query limit after g"
  proof (cases "env_index e1")
    case None
    then have "env_index e2 = None" using agree_fixed(13)[OF assms(1)] by simp
    with None show ?thesis by (simp add: search_index_def)
  next
    case (Some f)
    let ?q = "\<lparr>iq_text = query, iq_roots = map h_id hs, iq_modified_after = after,
      iq_limit = (if g \<noteq> None then min (wrap (limit * 10)) 500 else wrap (limit * 2)),
      iq_snippet_chars = snippet_chars (st_limits st)\<rparr>"
    have "set (iq_roots ?q) \<subseteq> F" using assms(2) by simp
    then obtain f' where "env_index e2 = Some f'" "f ?q = f' ?q"
      using agree_index[OF assms(1) _ Some] by blast
    with Some show ?thesis by (simp only: search_index_def option.case agree_helpers [OF assms(1)])
  qed
  have "list_all (\<lambda>h. case env_status_of e1 (h_id h) of Some s \<Rightarrow> is_state s = IndexReady | None \<Rightarrow> False) hs
      = list_all (\<lambda>h. case env_status_of e2 (h_id h) of Some s \<Rightarrow> is_state s = IndexReady | None \<Rightarrow> False) hs"
    using assms(2) by (intro list.pred_cong refl) (simp add: agree_folder [OF assms(1)] image_subset_iff)
  then have rd: "search_ready e1 hs = search_ready e2 hs"
    by (simp add: search_ready_def agree_fixed(12) [OF assms(1)])
  show ?thesis
    unfolding search_in_def idx rd agree_grep [OF assms] agree_helpers [OF assms(1)]
      agree_fixed(13) [OF assms(1)] by (rule refl)
qed

lemma agree_search:
  assumes "agree F e1 e2" and "\<And>hs. search_roots e1 st req = Inr hs \<Longrightarrow> h_id ` set hs \<subseteq> F"
  shows "search e1 st req = search e2 st req"
proof -
  have "search_in e1 st hs query limit after g = search_in e2 st hs query limit after g"
    if "search_roots e2 st req = Inr hs" for hs query limit after g
    using agree_search_in[OF assms(1) assms(2)] that by (simp add: agree_helpers [OF assms(1)])
  then show ?thesis
    unfolding search_def Let_def agree_helpers [OF assms(1)]
    by (cases "search_roots e2 st req") (simp_all cong: sum.case_cong)
qed

lemma root_by_id_Inr: "root_by_id env st i = Inr h \<Longrightarrow> h_id h = i \<and> h \<in> set (st_roots st)"
  by (auto simp: root_by_id_def dest: find_SomeD split: option.splits if_splits)

lemma agree_list:
  assumes "agree F e1 e2" and "\<And>p. env_parse e1 (lq_path req) = Inr p \<Longrightarrow> tp_root p \<in> F"
  shows "reader_list e1 st req = reader_list e2 st req"
proof -
  have "env_list_dir e1 pol h rel = env_list_dir e2 pol h rel"
    if "env_parse e1 (lq_path req) = Inr p" "root_by_id e1 st (tp_root p) = Inr h" for p h pol rel
    using that assms root_by_id_Inr[OF that(2)] by (intro agree_folder) auto
  then show ?thesis
    unfolding reader_list_def agree_helpers [OF assms(1), symmetric] by (simp split: sum.splits)
qed

lemma agree_read:
  assumes "agree F e1 e2" and "\<And>p. env_parse e1 (rq_path req) = Inr p \<Longrightarrow> tp_root p \<in> F"
  shows "reader_read e1 st c req = reader_read e2 st c req"
proof -
  have "env_open_file e1 pol h rel = env_open_file e2 pol h rel"
    if "env_parse e1 (rq_path req) = Inr p" "root_by_id e1 st (tp_root p) = Inr h" for p h pol rel
    using that assms root_by_id_Inr[OF that(2)] by (intro agree_folder) auto
  then show ?thesis
    unfolding reader_read_def Let_def agree_helpers [OF assms(1), symmetric]
    by (simp split: sum.splits)
qed

end
