(* ===== verification/ToolData.thy ===== *)
theory ToolData
  imports Reader Json AuditLog
begin

text \<open>
  What the tools of \<open>src/tools.rs\<close> take and give: who calls, the arguments as serde reads them
  (every request denies unknown fields), the results as serde writes them, and the results of
  changes of \<open>src/writer/mod.rs\<close>. Text that is counted in characters is a list of code points
  and is encoded where it becomes JSON.
\<close>

section \<open>UTF-8\<close>

definition utf8_encode_char :: "nat \<Rightarrow> string" where
  "utf8_encode_char c =
     (if c < 0x80 then [char_of c]
      else if c < 0x800 then [char_of (0xC0 + c div 64), char_of (0x80 + c mod 64)]
      else if c < 0x10000 then
        [char_of (0xE0 + c div 4096), char_of (0x80 + c div 64 mod 64), char_of (0x80 + c mod 64)]
      else [char_of (0xF0 + c div 262144), char_of (0x80 + c div 4096 mod 64),
            char_of (0x80 + c div 64 mod 64), char_of (0x80 + c mod 64)])"

definition utf8_encode :: "nat list \<Rightarrow> string" where
  "utf8_encode cs = concat (map utf8_encode_char cs)"

text \<open>\<open>s.chars().take(n).collect()\<close>\<close>

definition take_chars :: "nat \<Rightarrow> string \<Rightarrow> string" where
  "take_chars n s = utf8_encode (take n (utf8_chars s))"

lemma lead_mod:
  "(192 + x) mod 32 = x mod (32 :: nat)" "(224 + x) mod 16 = x mod (16 :: nat)"
  "(240 + x) mod 8 = x mod (8 :: nat)" "(128 + x) mod 64 = x mod (64 :: nat)"
  using mod_mult_self3 [of 6 32 x] mod_mult_self3 [of 14 16 x] mod_mult_self3 [of 30 8 x]
    mod_mult_self3 [of 2 64 x] by simp_all

lemma sextets:
  "c div 4096 = c div 64 div (64 :: nat)" "c div 262144 = c div 64 div 64 div (64 :: nat)"
  by (simp_all add: div_mult2_eq [symmetric])

lemma utf8_go_encode_char:
  assumes "c < 0x110000"
  shows "utf8_go 0 acc (utf8_encode_char c @ s) = c # utf8_go 0 0 s"
proof -
  note enc = utf8_encode_char_def Let_def of_char_of take_bit_eq_mod lead_mod
  consider "c < 0x80" | "0x80 \<le> c" "c < 0x800" | "0x800 \<le> c" "c < 0x10000" | "0x10000 \<le> c"
    by linarith
  then show ?thesis
  proof cases
    case 1
    then show ?thesis by (simp add: enc)
  next
    case 2
    then have "c div 64 < 32" by linarith
    with 2 show ?thesis by (simp add: enc)
  next
    case 3
    then have "c div 4096 < 16" by linarith
    moreover have "(c div 4096 * 64 + c div 64 mod 64) * 64 + c mod 64 = c"
      by (simp only: sextets div_mult_mod_eq)
    ultimately show ?thesis using 3 by (simp add: enc)
  next
    case 4
    then have "c div 262144 < 8" using assms by linarith
    moreover have "((c div 262144 * 64 + c div 4096 mod 64) * 64 + c div 64 mod 64) * 64 + c mod 64 = c"
      by (simp only: sextets div_mult_mod_eq)
    ultimately show ?thesis using 4 by (simp add: enc)
  qed
qed

lemma utf8_chars_encode:
  "list_all (\<lambda>c. c < 0x110000) cs \<Longrightarrow> utf8_chars (utf8_encode cs) = cs"
  unfolding utf8_chars_def utf8_encode_def
  by (induction cs) (simp_all add: utf8_go_encode_char del: utf8_go.simps(2))

section \<open>Callers and tool names\<close>

datatype caller = Person | Bot string bool

definition CHAT_ID_META :: string where "CHAT_ID_META = ''com.chatwithwork/chatId''"
definition BOT_META :: string where "BOT_META = ''com.chatwithwork/botId''"
definition UNATTENDED_META :: string where "UNATTENDED_META = ''com.chatwithwork/unattended''"

definition READ_TOOLS :: "string list" where
  "READ_TOOLS = [''roots'', ''search'', ''list'', ''read'']"

definition CHANGE_TOOLS :: "string list" where
  "CHANGE_TOOLS = [''create'', ''write'', ''edit'', ''mkdir'', ''move'', ''delete'', ''create_document'']"

definition COMMAND_TOOLS :: "string list" where
  "COMMAND_TOOLS = [''run'', ''run_status'', ''run_output'', ''run_stop'']"

definition ENVELOPE_HEADROOM :: nat where "ENVELOPE_HEADROOM = 2048"

section \<open>Arguments\<close>

text \<open>
  \<open>serde_json::from_value\<close> on the derived request types: \<open>None\<close> where it fails. A missing
  optional field and \<open>null\<close> are the same; a field that is not named is refused.
\<close>

definition only_fields :: "string list \<Rightarrow> json \<Rightarrow> bool" where
  "only_fields ks v = (case v of JObj m \<Rightarrow> fset (fmdom m) \<subseteq> set ks | _ \<Rightarrow> False)"

definition field_string :: "json \<Rightarrow> string \<Rightarrow> string option" where
  "field_string v k = (case get v k of Some (JStr s) \<Rightarrow> Some s | _ \<Rightarrow> None)"

definition field_opt :: "(json \<Rightarrow> 'a option) \<Rightarrow> json \<Rightarrow> string \<Rightarrow> 'a option option" where
  "field_opt f v k = (case get v k of
     None \<Rightarrow> Some None
   | Some x \<Rightarrow> if x = JNull then Some None else map_option Some (f x))"

definition serde_search :: "json \<Rightarrow> search_request option" where
  "serde_search v =
     (if \<not> only_fields [''query'', ''root'', ''path_glob'', ''modified_after'', ''limit''] v then None
      else (case (field_string v ''query'', field_opt as_str v ''root'', field_opt as_str v ''path_glob'',
                  field_opt as_str v ''modified_after'', field_opt as_u64 v ''limit'') of
        (Some q, Some r, Some g, Some m, Some l) \<Rightarrow>
          Some \<lparr>sq_query = q, sq_root = r, sq_path_glob = g, sq_modified_after = m, sq_limit = l,
                sq_only = None\<rparr>
      | _ \<Rightarrow> None))"

definition serde_list :: "json \<Rightarrow> list_request option" where
  "serde_list v =
     (if \<not> only_fields [''path'', ''cursor''] v then None
      else (case (field_string v ''path'', field_opt as_str v ''cursor'') of
        (Some p, Some c) \<Rightarrow> Some \<lparr>lq_path = p, lq_cursor = c\<rparr>
      | _ \<Rightarrow> None))"

definition serde_read :: "json \<Rightarrow> read_request option" where
  "serde_read v =
     (if \<not> only_fields [''path'', ''offset'', ''max_chars''] v then None
      else (case (field_string v ''path'', field_opt as_u64 v ''offset'', field_opt as_u64 v ''max_chars'') of
        (Some p, Some a, Some m) \<Rightarrow> Some \<lparr>rq_path = p, rq_offset = a, rq_max_chars = m\<rparr>
      | _ \<Rightarrow> None))"

text \<open>\<open>parse_args\<close>; \<open>msg\<close> is what serde says of arguments it refuses.\<close>

definition parse_args :: "(json \<Rightarrow> string) \<Rightarrow> (json \<Rightarrow> 'a option) \<Rightarrow> json \<Rightarrow> tool_error + 'a" where
  "parse_args msg f v = (case f v of
     Some x \<Rightarrow> Inr x
   | None \<Rightarrow> Inl (invalid_argument (''invalid arguments: '' @ msg v)))"

section \<open>Results of changes\<close>

datatype effect = Created | Replaced | Appended | Edited | CreatedFolder | Moved | Trashed | Unchanged

fun effect_str :: "effect \<Rightarrow> string" where
  "effect_str Created = ''created''"
| "effect_str Replaced = ''replaced''"
| "effect_str Appended = ''appended''"
| "effect_str Edited = ''edited''"
| "effect_str CreatedFolder = ''created_folder''"
| "effect_str Moved = ''moved''"
| "effect_str Trashed = ''trashed''"
| "effect_str Unchanged = ''unchanged''"

record previous =
  pv_size :: nat
  pv_modified :: string
  pv_sha256 :: "string option"
  pv_in_trash :: bool

record change_result =
  cr_path :: string
  cr_effect :: effect
  cr_dry_run :: bool
  cr_from :: "string option"
  cr_kind :: entry_kind
  cr_size :: "nat option"
  cr_sha256 :: "string option"
  cr_previous :: "previous option"
  cr_diff :: "nat list option"
  cr_entries :: "nat option"
  cr_written :: nat
  cr_trashed_to :: "string option"

definition change_result_new :: "string \<Rightarrow> effect \<Rightarrow> entry_kind \<Rightarrow> bool \<Rightarrow> change_result" where
  "change_result_new p e k d = \<lparr>cr_path = p, cr_effect = e, cr_dry_run = d, cr_from = None,
     cr_kind = k, cr_size = None, cr_sha256 = None, cr_previous = None, cr_diff = None,
     cr_entries = None, cr_written = 0, cr_trashed_to = None\<rparr>"

section \<open>Results as JSON\<close>

definition some_field :: "string \<Rightarrow> ('a \<Rightarrow> json) \<Rightarrow> 'a option \<Rightarrow> (string \<times> json) list" where
  "some_field k f x = (case x of None \<Rightarrow> [] | Some y \<Rightarrow> [(k, f y)])"

definition null_or :: "('a \<Rightarrow> json) \<Rightarrow> 'a option \<Rightarrow> json" where
  "null_or f x = (case x of None \<Rightarrow> JNull | Some y \<Rightarrow> f y)"

fun kind_str :: "entry_kind \<Rightarrow> string" where
  "kind_str FileEntry = ''file''"
| "kind_str DirEntry = ''dir''"
| "kind_str SymlinkEntry = ''symlink''"
| "kind_str OtherEntry = ''other''"

definition ser_root :: "root_info \<Rightarrow> json" where
  "ser_root r = jobject (
     [(''id'', JStr (ri_id r)), (''label'', JStr (ri_label r)), (''available'', JBool (ri_available r)),
      (''writable'', JBool (ri_writable r))]
     @ (if ri_allows_commands r then [(''allows_commands'', JBool True)] else [])
     @ (if ri_network r then [(''network'', JBool True)] else [])
     @ [(''index'', JStr (ri_index r))]
     @ some_field ''indexed_files'' jnat (ri_indexed_files r)
     @ some_field ''unattended'' JBool (ri_unattended r))"

definition ser_hit :: "search_hit \<Rightarrow> json" where
  "ser_hit h = jobject [(''path'', JStr (sh_path h)), (''title'', JStr (sh_title h)),
     (''modified'', JStr (sh_modified h)), (''size'', jnat (sh_size h)), (''snippet'', JStr (sh_snippet h))]"

definition ser_search :: "search_response \<Rightarrow> json" where
  "ser_search r = jobject [(''hits'', JArr (map ser_hit (sr_hits r))), (''engine'', JStr (sr_engine r))]"

definition ser_entry :: "list_entry \<Rightarrow> json" where
  "ser_entry e = jobject (
     [(''name'', JStr (le_name e)), (''path'', JStr (le_path e)), (''kind'', JStr (kind_str (le_kind e)))]
     @ some_field ''size'' jnat (le_size e) @ some_field ''modified'' JStr (le_modified e))"

definition ser_list :: "list_response \<Rightarrow> json" where
  "ser_list r = jobject [(''path'', JStr (lr_path r)), (''entries'', JArr (map ser_entry (lr_entries r))),
     (''next_cursor'', null_or JStr (lr_next_cursor r))]"

definition ser_read :: "read_response \<Rightarrow> json" where
  "ser_read r = jobject [(''path'', JStr (rr_path r)), (''text'', JStr (utf8_encode (rr_text r))),
     (''offset'', jnat (rr_offset r)), (''next_offset'', null_or jnat (rr_next_offset r)),
     (''total_chars'', jnat (rr_total_chars r)), (''modified'', JStr (rr_modified r)),
     (''size'', jnat (rr_size r))]"

definition ser_previous :: "previous \<Rightarrow> json" where
  "ser_previous p = jobject ([(''size'', jnat (pv_size p)), (''modified'', JStr (pv_modified p))]
     @ some_field ''sha256'' JStr (pv_sha256 p) @ [(''in_trash'', JBool (pv_in_trash p))])"

definition ser_change :: "change_result \<Rightarrow> json" where
  "ser_change r = jobject (
     [(''path'', JStr (cr_path r)), (''effect'', JStr (effect_str (cr_effect r))),
      (''dry_run'', JBool (cr_dry_run r))]
     @ some_field ''from'' JStr (cr_from r) @ [(''kind'', JStr (kind_str (cr_kind r)))]
     @ some_field ''size'' jnat (cr_size r) @ some_field ''sha256'' JStr (cr_sha256 r)
     @ some_field ''previous'' ser_previous (cr_previous r)
     @ some_field ''diff'' (\<lambda>d. JStr (utf8_encode d)) (cr_diff r)
     @ some_field ''entries'' jnat (cr_entries r))"

text \<open>What the server is told of a change never holds where the old version went.\<close>

lemma trash_stays_local: "get (ser_change r) ''trashed_to'' = None \<and> get (ser_change r) ''written'' = None"
  by (simp add: ser_change_def get_jobject some_field_def map_add_def split: option.splits)

end
