(* ===== verification/Tools.thy ===== *)
theory Tools
  imports ToolData Limits
begin

text \<open>
  \<open>src/tools.rs\<close>: one tool call, from the name to the result and the entry of the audit log.
  \<open>tool_ctx\<close> is what a call finds: the reader with what it stands on, the limits, whether the
  person paused access, and the writer and the command tools as functions of what the call
  hands to them; \<open>tool_state\<close> is what calls change, the windows of the limiter and the cache.
  The times at which the limiter is asked are inputs. \<open>result_len\<close> is the length of a
  serialised result (rmcp's type), \<open>bad_args\<close> serde's message.
\<close>

record call_result =
  cl_error :: bool
  cl_content :: string
  cl_structured :: json

datatype tool_output =
    RootsOut json
  | SearchOut search_response
  | ListOut list_response nat
  | ReadOut read_response
  | ChangeOut change_result
  | CommandOut json "string option"

record call_times =
  t_call :: instant
  t_allow :: instant
  t_record :: instant

record tool_ctx =
  cx_env :: reader_env
  cx_reader :: reader_state
  cx_limits :: limits
  cx_paused :: bool
  cx_max_message :: nat
  cx_json :: json_lib
  cx_result_len :: "call_result \<Rightarrow> nat"
  cx_bad_args :: "json \<Rightarrow> string"
  cx_change :: "string \<Rightarrow> json \<Rightarrow> windows \<Rightarrow> (tool_error + change_result) \<times> windows"
  cx_commands :: bool
  cx_runs :: "(string \<times> string) list option"
  cx_command :: "string \<Rightarrow> json \<Rightarrow> tool_error + json \<times> string option"
  cx_times :: call_times

record tool_state =
  ts_windows :: windows
  ts_cache :: text_cache

section \<open>Results that fit\<close>

definition success :: "tool_ctx \<Rightarrow> json \<Rightarrow> call_result \<times> nat" where
  "success cx v = (let r = \<lparr>cl_error = False, cl_content = to_text (cx_json cx) v, cl_structured = v\<rparr>
     in (r, cx_result_len cx r))"

definition result_size :: "tool_ctx \<Rightarrow> json \<Rightarrow> nat" where
  "result_size cx v = snd (success cx v)"

definition error_result :: "tool_error \<Rightarrow> call_result" where
  "error_result e = \<lparr>cl_error = True,
     cl_content = Errors.as_str (code e) @ '': '' @ message e,
     cl_structured = jobject [(''error'', jobject [(''code'', JStr (Errors.as_str (code e))),
       (''message'', JStr (message e))])]\<rparr>"

definition budget :: "tool_ctx \<Rightarrow> nat" where
  "budget cx = cx_max_message cx - ENVELOPE_HEADROOM"

text \<open>The loops that cut a response until \<open>weigh\<close> of it is within \<open>most\<close>.\<close>

function shrink_search :: "(search_response \<Rightarrow> nat) \<Rightarrow> nat \<Rightarrow> search_response \<Rightarrow> search_response" where
  "shrink_search weigh most r =
     (if weigh r \<le> most \<or> sr_hits r = [] then r
      else shrink_search weigh most (r\<lparr>sr_hits := butlast (sr_hits r)\<rparr>))"
  by pat_completeness auto
termination by (relation "measure (\<lambda>(_, _, r). length (sr_hits r))") (auto simp: not_le length_greater_0_conv)

function shrink_list :: "(list_response \<Rightarrow> nat) \<Rightarrow> nat \<Rightarrow> nat \<Rightarrow> list_response \<Rightarrow> list_response" where
  "shrink_list weigh most start r =
     (if weigh r \<le> most \<or> length (lr_entries r) \<le> 1 then r
      else (let keep = length (lr_entries r) div 2
        in shrink_list weigh most start
             (r\<lparr>lr_entries := take keep (lr_entries r),
                lr_next_cursor := Some (show_nat (wrap (start + keep)))\<rparr>)))"
  by pat_completeness auto
termination by (relation "measure (\<lambda>(_, _, _, r). length (lr_entries r))") auto

function shrink_read :: "(read_response \<Rightarrow> nat) \<Rightarrow> nat \<Rightarrow> read_response \<Rightarrow> read_response" where
  "shrink_read weigh most r =
     (if weigh r \<le> most \<or> length (rr_text r) \<le> 1 then r
      else (let keep = length (rr_text r) div 2
        in shrink_read weigh most
             (r\<lparr>rr_text := take keep (rr_text r), rr_next_offset := Some (rr_offset r + keep)\<rparr>)))"
  by pat_completeness auto
termination by (relation "measure (\<lambda>(_, _, r). length (rr_text r))") auto

declare shrink_search.simps [simp del] shrink_list.simps [simp del] shrink_read.simps [simp del]

definition shrink_read_to_fit :: "tool_ctx \<Rightarrow> read_response \<Rightarrow> read_response" where
  "shrink_read_to_fit cx = shrink_read (\<lambda>r. result_size cx (ser_read r)) (budget cx)"

definition MORE :: "nat list" where
  "MORE = [10, 0x2026] @ map of_char '' (the read budget ends here)'' @ [10]"

definition cut_to_chars :: "nat list \<Rightarrow> nat \<Rightarrow> nat list" where
  "cut_to_chars cs mx =
     (if length cs \<le> mx then cs
      else take (mx - length MORE) cs @ (if length MORE \<le> mx then MORE else []))"

fun into_result :: "tool_ctx \<Rightarrow> tool_output \<Rightarrow> call_result \<times> nat \<times> nat option" where
  "into_result cx (RootsOut v) =
     (let (r, b) = success cx v in (r, b, map_option length (as_array (index v ''roots''))))"
| "into_result cx (SearchOut r) =
     (let r = shrink_search (\<lambda>r. result_size cx (ser_search r)) (budget cx) r;
          (c, b) = success cx (ser_search r)
      in (c, b, Some (length (sr_hits r))))"
| "into_result cx (ListOut r start) =
     (let r = shrink_list (\<lambda>r. result_size cx (ser_list r)) (budget cx) start r;
          (c, b) = success cx (ser_list r)
      in (c, b, Some (length (lr_entries r))))"
| "into_result cx (ReadOut r) = (let (c, b) = success cx (ser_read r) in (c, b, None))"
| "into_result cx (ChangeOut r) = (let (c, b) = success cx (ser_change r) in (c, b, None))"
| "into_result cx (CommandOut v d) = (let (c, b) = success cx v in (c, b, None))"

section \<open>What a bot is let through to\<close>

definition not_lent :: "string \<Rightarrow> tool_error" where
  "not_lent rid = tool_error NotLent
     (''the folder '' @ rid @ '' isn'' @ CHR 0x27 # ''t lent to this bot on this computer'')"

definition needs_approval :: "string \<Rightarrow> tool_error" where
  "needs_approval rid = tool_error NeedsApproval
     (''this bot'' @ CHR 0x27 # ''s commands in '' @ rid @ '' need a person to approve each one'')"

definition is_dry_run :: "json \<Rightarrow> bool" where
  "is_dry_run args \<longleftrightarrow> get args ''dry_run'' = Some (JBool True)"

text \<open>The folder an argument names: \<open>value.split(':').next()\<close>.\<close>

definition named_root :: "json \<Rightarrow> string \<Rightarrow> string option" where
  "named_root args k = (case get args k of
     Some (JStr s) \<Rightarrow> Some (hd (split_on (CHR '':'') s)) | _ \<Rightarrow> None)"

fun admit_keys ::
  "reader_state \<Rightarrow> string \<Rightarrow> string \<Rightarrow> bool \<Rightarrow> json \<Rightarrow> string list \<Rightarrow> tool_error + unit" where
  "admit_keys st name i una args [] = Inr ()"
| "admit_keys st name i una args (k # ks) = (case named_root args k of
     None \<Rightarrow> admit_keys st name i una args ks
   | Some rid \<Rightarrow> (case reader_loan st rid i of
       None \<Rightarrow> Inl (not_lent rid)
     | Some l \<Rightarrow>
         if name = ''run'' \<and> una \<and> \<not> is_dry_run args \<and> \<not> unattended l
         then Inl (needs_approval rid)
         else admit_keys st name i una args ks))"

definition run_root :: "tool_ctx \<Rightarrow> json \<Rightarrow> string option" where
  "run_root cx args =
     (let run = (case get args ''run'' of Some (JStr s) \<Rightarrow> s | _ \<Rightarrow> [])
      in if \<not> cx_commands cx then None
         else (case cx_runs cx of
           None \<Rightarrow> None
         | Some rs \<Rightarrow> map_option snd (find (\<lambda>(i, _). i = run) rs)))"

definition admit :: "tool_ctx \<Rightarrow> string \<Rightarrow> json \<Rightarrow> caller \<Rightarrow> tool_error + string list option" where
  "admit cx name args who = (case who of
     Person \<Rightarrow> Inr None
   | Bot i una \<Rightarrow> (case admit_keys (cx_reader cx) name i una args [''path'', ''from'', ''to'', ''root''] of
       Inl e \<Rightarrow> Inl e
     | Inr _ \<Rightarrow>
         if name \<in> {''run_status'', ''run_output'', ''run_stop''}
           \<and> (case run_root cx args of None \<Rightarrow> True | Some rid \<Rightarrow> reader_loan (cx_reader cx) rid i = None)
         then Inl (tool_error NotLent (''no command ''
                @ (case get args ''run'' of Some (JStr s) \<Rightarrow> s | _ \<Rightarrow> [])
                @ '' in a folder lent to this bot''))
         else if name = ''search'' \<and> (case get args ''root'' of None \<Rightarrow> True | Some v \<Rightarrow> v = JNull)
         then (if lent_to (cx_reader cx) i = []
               then Inl (tool_error NotLent ''no folder on this computer is lent to this bot'')
               else Inr (Some (lent_to (cx_reader cx) i)))
         else Inr None))"

definition for_caller :: "tool_ctx \<Rightarrow> caller \<Rightarrow> tool_output \<Rightarrow> tool_output" where
  "for_caller cx who out = (case (out, who) of
     (RootsOut _, Bot i _) \<Rightarrow>
       RootsOut (jobject [(''roots'', JArr (map ser_root (List.map_filter
         (\<lambda>r. map_option (\<lambda>l. r\<lparr>ri_unattended := Some (unattended l \<and> ri_allows_commands r)\<rparr>)
                (reader_loan (cx_reader cx) (ri_id r) i))
         (reader_roots (cx_env cx) (cx_reader cx)))))])
   | _ \<Rightarrow> out)"

section \<open>Running a tool\<close>

definition with_cache :: "tool_state \<Rightarrow> text_cache \<Rightarrow> tool_state" where
  "with_cache s c = s\<lparr>ts_cache := c\<rparr>"

definition run_roots :: "tool_ctx \<Rightarrow> json \<Rightarrow> tool_error + tool_output" where
  "run_roots cx args =
     (if only_fields [] args
      then Inr (RootsOut (jobject [(''roots'', JArr (map ser_root (reader_roots (cx_env cx) (cx_reader cx))))]))
      else Inl (invalid_argument (''invalid arguments: '' @ cx_bad_args cx args)))"

definition run_search :: "tool_ctx \<Rightarrow> json \<Rightarrow> string list option \<Rightarrow> tool_error + tool_output" where
  "run_search cx args only = (case parse_args (cx_bad_args cx) serde_search args of
     Inl e \<Rightarrow> Inl e
   | Inr req \<Rightarrow> map_sum id SearchOut (search (cx_env cx) (cx_reader cx) (req\<lparr>sq_only := only\<rparr>)))"

definition run_list :: "tool_ctx \<Rightarrow> json \<Rightarrow> tool_error + tool_output" where
  "run_list cx args = (case parse_args (cx_bad_args cx) serde_list args of
     Inl e \<Rightarrow> Inl e
   | Inr req \<Rightarrow>
       (let start = (case lq_cursor req of
              None \<Rightarrow> 0 | Some c \<Rightarrow> (case parse_usize c of None \<Rightarrow> 0 | Some n \<Rightarrow> n))
        in map_sum id (\<lambda>r. ListOut r start) (reader_list (cx_env cx) (cx_reader cx) req)))"

definition run_read ::
  "tool_ctx \<Rightarrow> tool_state \<Rightarrow> json \<Rightarrow> string \<Rightarrow> (tool_error + tool_output) \<times> tool_state" where
  "run_read cx s args chat = (case parse_args (cx_bad_args cx) serde_read args of
     Inl e \<Rightarrow> (Inl e, s)
   | Inr req \<Rightarrow>
       (case read_allowance_at (cx_limits cx) (ts_windows s) chat (t_allow (cx_times cx)) of
          (Inl e, w) \<Rightarrow> (Inl e, s\<lparr>ts_windows := w\<rparr>)
        | (Inr allowance, w) \<Rightarrow>
            (let mx = min (case rq_max_chars req of Some n \<Rightarrow> n | None \<Rightarrow> allowance) allowance
             in case reader_read (cx_env cx) (cx_reader cx) (ts_cache s) (req\<lparr>rq_max_chars := Some mx\<rparr>) of
                  (Inl e, c) \<Rightarrow> (Inl e, s\<lparr>ts_windows := w, ts_cache := c\<rparr>)
                | (Inr resp, c) \<Rightarrow>
                    (let resp = shrink_read_to_fit cx resp;
                         w = record_read_at w chat (length (rr_text resp)) (t_record (cx_times cx))
                     in (Inr (ReadOut resp), s\<lparr>ts_windows := w, ts_cache := c\<rparr>)))))"

definition run_change_tool ::
  "tool_ctx \<Rightarrow> tool_state \<Rightarrow> string \<Rightarrow> json \<Rightarrow> string \<Rightarrow> (tool_error + tool_output) \<times> tool_state" where
  "run_change_tool cx s name args chat =
     (let reading = (name \<in> {''write'', ''edit''} \<and> is_dry_run args);
          (allowed, w) = (if reading
            then (case read_allowance_at (cx_limits cx) (ts_windows s) chat (t_allow (cx_times cx)) of
                    (a, w) \<Rightarrow> (map_sum id Some a, w))
            else (Inr None, ts_windows s))
      in case allowed of
           Inl e \<Rightarrow> (Inl e, s\<lparr>ts_windows := w\<rparr>)
         | Inr allowance \<Rightarrow>
             (case cx_change cx name args w of
                (Inl e, w) \<Rightarrow> (Inl e, s\<lparr>ts_windows := w\<rparr>)
              | (Inr r, w) \<Rightarrow>
                  (case (allowance, cr_diff r) of
                     (Some a, Some d) \<Rightarrow>
                       (let d = cut_to_chars d a;
                            w = record_read_at w chat (length d) (t_record (cx_times cx))
                        in (Inr (ChangeOut (r\<lparr>cr_diff := Some d\<rparr>)), s\<lparr>ts_windows := w\<rparr>))
                   | _ \<Rightarrow> (Inr (ChangeOut r), s\<lparr>ts_windows := w\<rparr>))))"

definition run_tool ::
  "tool_ctx \<Rightarrow> tool_state \<Rightarrow> string \<Rightarrow> json \<Rightarrow> string \<Rightarrow> string list option
    \<Rightarrow> (tool_error + tool_output) \<times> tool_state" where
  "run_tool cx s name args chat only =
     (if cx_paused cx
      then (Inl (tool_error Paused ''the user paused access to this computer''), s)
      else (case check_call_at (cx_limits cx) (ts_windows s) (t_call (cx_times cx)) of
        (Inl e, w) \<Rightarrow> (Inl e, s\<lparr>ts_windows := w\<rparr>)
      | (Inr _, w) \<Rightarrow>
          (let s = s\<lparr>ts_windows := w\<rparr>
           in if name = ''roots'' then (run_roots cx args, s)
              else if name = ''search'' then (run_search cx args only, s)
              else if name = ''list'' then (run_list cx args, s)
              else if name = ''read'' then run_read cx s args chat
              else if name \<in> set CHANGE_TOOLS then run_change_tool cx s name args chat
              else (map_sum id (\<lambda>(v, d). CommandOut v d) (cx_command cx name args), s))))"

section \<open>A call\<close>

definition audit_event :: "string \<Rightarrow> string \<Rightarrow> audit_entry" where
  "audit_event ts ev = \<lparr>ae_ts = ts, ae_event = ev, ae_chat_id = None, ae_request_id = None,
     ae_tool = None, ae_path = None, ae_to = None, ae_query = None, ae_effect = None,
     ae_dry_run = None, ae_written = None, ae_trash = None, ae_decision = None, ae_code = None,
     ae_reason = None, ae_bytes = None, ae_results = None, ae_detail = None, ae_duration = None\<rparr>"

definition known_tool :: "tool_ctx \<Rightarrow> string \<Rightarrow> bool" where
  "known_tool cx name \<longleftrightarrow> name \<in> set READ_TOOLS
     \<or> (name \<in> set CHANGE_TOOLS \<and> any_writable (cx_reader cx))
     \<or> (name \<in> set COMMAND_TOOLS \<and> cx_commands cx)"

definition shown_name :: "string \<Rightarrow> string" where
  "shown_name name = utf8_encode (map (\<lambda>c. if is_unsafe_in_path c then 0x3F else c)
     (take 64 (utf8_chars name)))"

definition or_else :: "'a option \<Rightarrow> 'a option \<Rightarrow> 'a option" where
  "or_else x y = (case x of None \<Rightarrow> y | Some _ \<Rightarrow> x)"

definition arg_text :: "nat \<Rightarrow> json \<Rightarrow> string \<Rightarrow> string option" where
  "arg_text n args k = (case get args k of Some (JStr s) \<Rightarrow> Some (take_chars n s) | _ \<Rightarrow> None)"

definition for_bot :: "caller \<Rightarrow> string option" where
  "for_bot who = (case who of Bot i _ \<Rightarrow> Some (''for bot '' @ i) | Person \<Rightarrow> None)"

definition entry_of_call ::
  "string \<Rightarrow> string \<Rightarrow> json \<Rightarrow> string option \<Rightarrow> string \<Rightarrow> caller \<Rightarrow> audit_entry" where
  "entry_of_call ts name args chat rid who = (audit_event ts ''tool'')\<lparr>
     ae_tool := Some name, ae_chat_id := chat, ae_request_id := Some rid,
     ae_path := or_else (arg_text 512 args ''path'') (arg_text 512 args ''from''),
     ae_to := arg_text 512 args ''to'',
     ae_dry_run := (if is_dry_run args then Some True else None),
     ae_query := arg_text 256 args ''query'',
     ae_detail := for_bot who\<rparr>"

definition note_output :: "string \<Rightarrow> caller \<Rightarrow> tool_output \<Rightarrow> audit_entry \<Rightarrow> audit_entry" where
  "note_output name who out e = (case out of
     ChangeOut c \<Rightarrow>
       (let e = e\<lparr>ae_effect := Some (effect_str (cr_effect c)),
              ae_written := (if 0 < cr_written c then Some (cr_written c) else None),
              ae_trash := cr_trashed_to c\<rparr>
        in if cr_from c \<noteq> None then e\<lparr>ae_path := cr_from c, ae_to := Some (cr_path c)\<rparr> else e)
   | CommandOut _ detail \<Rightarrow>
       e\<lparr>ae_effect := (if name = ''run'' \<and> ae_dry_run e \<noteq> Some True then Some ''ran''
            else if name = ''run_stop'' then Some ''stopped'' else None),
         ae_detail := (case (detail, for_bot who) of
            (Some d, Some b) \<Rightarrow> Some (d @ '', '' @ b) | (d, b) \<Rightarrow> or_else d b)\<rparr>
   | _ \<Rightarrow> e)"

definition call_as ::
  "tool_ctx \<Rightarrow> string \<Rightarrow> string \<Rightarrow> tool_state \<Rightarrow> string \<Rightarrow> (string, json) fmap option \<Rightarrow> string option
    \<Rightarrow> string \<Rightarrow> caller \<Rightarrow> call_result option \<times> audit_entry \<times> tool_state" where
  "call_as cx ts dur s name args chat rid who =
     (if \<not> known_tool cx name
      then (None, (audit_event ts ''tool'')\<lparr>ae_tool := Some (shown_name name), ae_chat_id := chat,
              ae_request_id := Some rid, ae_decision := Some DeniedDecision,
              ae_code := Some ''unknown_tool''\<rparr>, s)
      else
        (let args = JObj (case args of None \<Rightarrow> fmempty | Some m \<Rightarrow> m);
             e = entry_of_call ts name args chat rid who;
             (outcome, s) = (case admit cx name args who of
                Inl err \<Rightarrow> (Inl err, s)
              | Inr only \<Rightarrow>
                  (case run_tool cx s name args (case chat of None \<Rightarrow> [] | Some c \<Rightarrow> c) only of
                     (r, s) \<Rightarrow> (map_sum id (for_caller cx who) r, s)))
         in case outcome of
              Inr out \<Rightarrow>
                (let e = note_output name who out e;
                     (r, bytes, results) = into_result cx out
                 in (Some r, e\<lparr>ae_decision := Some Allowed, ae_bytes := Some bytes,
                       ae_results := results, ae_duration := Some dur\<rparr>, s))
            | Inl err \<Rightarrow>
                (Some (error_result err),
                 e\<lparr>ae_decision := Some (if is_denial (code err) then DeniedDecision else ErrorDecision),
                   ae_code := Some (Errors.as_str (code err)), ae_reason := Some (message err),
                   ae_duration := Some dur\<rparr>, s)))"

text \<open>
  \<open>call_tool\<close>: chat and caller as the request's metadata name them, the request's own first and
  the context's where that says nothing; \<open>num\<close> prints a JSON number.
\<close>

definition meta_of :: "json \<Rightarrow> json \<Rightarrow> string \<Rightarrow> json option" where
  "meta_of request context k = or_else (get request k) (get context k)"

definition chat_id_of :: "(json_number \<Rightarrow> string) \<Rightarrow> json \<Rightarrow> json \<Rightarrow> string option" where
  "chat_id_of num request context = (case meta_of request context CHAT_ID_META of
     Some (JStr s) \<Rightarrow> Some (take_chars 128 s)
   | Some (JNum n) \<Rightarrow> Some (num n)
   | _ \<Rightarrow> None)"

definition caller_of :: "(json_number \<Rightarrow> string) \<Rightarrow> json \<Rightarrow> json \<Rightarrow> caller" where
  "caller_of num request context =
     (let una = (meta_of request context UNATTENDED_META = Some (JBool True))
      in case meta_of request context BOT_META of
           Some (JStr i) \<Rightarrow> Bot (take_chars 20 i) una
         | Some (JNum n) \<Rightarrow> Bot (num n) una
         | _ \<Rightarrow> Person)"

definition call_tool ::
  "(json_number \<Rightarrow> string) \<Rightarrow> tool_ctx \<Rightarrow> string \<Rightarrow> string \<Rightarrow> tool_state \<Rightarrow> string
    \<Rightarrow> (string, json) fmap option \<Rightarrow> json \<Rightarrow> json \<Rightarrow> string
    \<Rightarrow> (string + call_result) \<times> audit_entry \<times> tool_state" where
  "call_tool num cx ts dur s name args request context rid =
     (case call_as cx ts dur s name args (chat_id_of num request context) rid
            (caller_of num request context) of
        (Some r, e, s) \<Rightarrow> (Inr r, e, s)
      | (None, e, s) \<Rightarrow> (Inl (''unknown tool: '' @ take_chars 64 name), e, s))"

definition offered_tools :: "tool_ctx \<Rightarrow> string list" where
  "offered_tools cx = READ_TOOLS
     @ (if any_writable (cx_reader cx) then CHANGE_TOOLS else [])
     @ (if cx_commands cx then COMMAND_TOOLS else [])"

text \<open>The tools that are listed are exactly the ones a call is let through to.\<close>

lemma offered_iff_known: "name \<in> set (offered_tools cx) \<longleftrightarrow> known_tool cx name"
  by (auto simp: offered_tools_def known_tool_def)

end
