(* ===== verification/ToolFacts.thy ===== *)
theory ToolFacts
  imports Tools
begin

text \<open>
  What the tools promise: results are cut to the message without losing or repeating text,
  every call leaves its mark in the audit log, and a bot's call depends on nothing but the
  folders lent to it. The demonstration environment at the start is what the witnesses run on.
\<close>

section \<open>A computer to call\<close>

text \<open>
  Two shared folders, of which \<open>docs\<close> is lent to bot 7, each with one file \<open>a.txt\<close>: in \<open>docs\<close>
  it holds \<open>hello\<close>, in \<open>home\<close> whatever \<open>other\<close> says.
\<close>

definition demo_env :: "string \<Rightarrow> reader_env" where
  "demo_env other = \<lparr>env_windows = False, env_dbg = id,
     env_libs = \<lparr>u_nfd = id, u_upper = (\<lambda>c. [c]), u_lower = (\<lambda>c. [c]), g_builds = (\<lambda>_. True),
                 g_match = (=), g_escape = id\<rparr>,
     env_list_dir = (\<lambda>_ h _. Inr [\<lparr>de_name = ''a.txt'', de_kind = FileEntry,
       de_size = Some (if h_id h = ''docs'' then 5 else length other), de_modified = None\<rparr>]),
     env_open_file = (\<lambda>_ h _. Inr (let s = (if h_id h = ''docs'' then ''hello'' else other)
       in \<lparr>o_content = Inr s, o_size = length s, o_modified = 0, o_identity = (0, 0)\<rparr>)),
     env_extract = (\<lambda>_ s _. Inr (utf8_chars s)),
     env_is_text = (\<lambda>_. True),
     env_walk = (\<lambda>h. [\<lparr>wf_rel = [''a.txt''],
       wf_size = (if h_id h = ''docs'' then 5 else length other), wf_modified = 0\<rparr>]),
     env_late = (\<lambda>_ _. False),
     env_first_match = (\<lambda>q f. case o_content f of Inl _ \<Rightarrow> None
       | Inr s \<Rightarrow> if contains_sub s q then Some s else None),
     env_snippet = (\<lambda>l _ _. l),
     env_index = None, env_status = None,
     env_glob = (\<lambda>g. Inr (\<lambda>s. s = g)),
     env_rfc3339 = (\<lambda>_. None), env_date = (\<lambda>_. None), env_format_time = (\<lambda>_. ''now'')\<rparr>"

definition demo_root :: "string \<Rightarrow> bot_loan list \<Rightarrow> root" where
  "demo_root i ls = \<lparr>root_id = i, root_label = i, root_path = [''srv'', i], follow_symlinks = False,
     writable = False, commands = False, network = False, bots = ls\<rparr>"

definition demo_handle :: "string \<Rightarrow> root_handle" where
  "demo_handle i = \<lparr>h_id = i, h_label = i, h_path = [''srv'', i], h_follow_symlinks = False,
     h_writable = False, h_identity = (0, if i = ''docs'' then 4 else 7)\<rparr>"

definition demo_reader :: reader_state where
  "demo_reader = \<lparr>st_roots = [demo_handle ''docs'', demo_handle ''home''],
     st_configured = [demo_root ''docs'' [\<lparr>loan_bot = ''7'', loan_name = ''Ada'', unattended = False\<rparr>],
       demo_root ''home'' []],
     st_deny = [], st_write_deny = [], st_allow_hardlinks = False, st_limits = default_limits,
     st_index_enabled = False\<rparr>"

definition demo_ctx :: "string \<Rightarrow> tool_ctx" where
  "demo_ctx other = \<lparr>cx_env = demo_env other, cx_reader = demo_reader, cx_limits = default_limits,
     cx_paused = False, cx_max_message = 256 * 1024,
     cx_json = \<lparr>from_str = (\<lambda>_. None), to_text = (\<lambda>_. [])\<rparr>, cx_result_len = (\<lambda>_. 0),
     cx_bad_args = (\<lambda>_. []),
     cx_change = (\<lambda>_ _ w. (Inl (internal []), w)), cx_commands = False, cx_runs = None,
     cx_command = (\<lambda>_ _. Inl (internal [])),
     cx_times = \<lparr>t_call = 0, t_allow = 0, t_record = 0\<rparr>\<rparr>"

section \<open>Reading a file to its end\<close>

lemma shrink_read_prefix:
  "shrink_read weigh most r = r \<or>
     (\<exists>k. 0 < k \<and> k < length (rr_text r) \<and>
        rr_text (shrink_read weigh most r) = take k (rr_text r) \<and>
        rr_next_offset (shrink_read weigh most r) = Some (rr_offset r + k))"
proof (induction weigh most r rule: shrink_read.induct)
  case (1 weigh most r)
  show ?case
  proof (cases "weigh r \<le> most \<or> length (rr_text r) \<le> 1")
    case True
    then show ?thesis by (subst (1) shrink_read.simps) simp
  next
    case False
    let ?k = "length (rr_text r) div 2"
    let ?r = "r\<lparr>rr_text := take ?k (rr_text r), rr_next_offset := Some (rr_offset r + ?k)\<rparr>"
    have k: "0 < ?k" "?k < length (rr_text r)" using False by auto
    have eq: "shrink_read weigh most r = shrink_read weigh most ?r"
      using False by (subst shrink_read.simps) (simp add: Let_def)
    from "1.IH"[OF False refl] k show ?thesis
      unfolding eq by (elim disjE exE conjE) (auto simp: min_absorb1 intro: exI [of _ ?k])
  qed
qed

fun read_all :: "(nat \<Rightarrow> tool_error + read_response) \<Rightarrow> nat \<Rightarrow> nat \<Rightarrow> nat list option" where
  "read_all page 0 start = None"
| "read_all page (Suc n) start = (case page start of
     Inl _ \<Rightarrow> None
   | Inr r \<Rightarrow> (case rr_next_offset r of
       None \<Rightarrow> Some (rr_text r)
     | Some nxt \<Rightarrow> map_option ((@) (rr_text r)) (read_all page n nxt)))"

lemma read_all_chunks:
  assumes "\<And>a. a \<le> length t \<Longrightarrow> \<exists>r mx. page a = Inr (shrink_read weigh most r) \<and> 1 \<le> mx
      \<and> read_chunk env p f t a mx = Inr r"
  shows "start \<le> length t \<Longrightarrow> length t - start < n \<Longrightarrow> read_all page n start = Some (drop start t)"
proof (induction n arbitrary: start)
  case (Suc n)
  obtain r mx where r: "page start = Inr (shrink_read weigh most r)" "1 \<le> mx"
    "read_chunk env p f t start mx = Inr r"
    using assms[OF Suc.prems(1)] by blast
  have c: "rr_text r = take mx (drop start t)" "rr_offset r = start"
    "rr_next_offset r = (if start + length (rr_text r) < length t
       then Some (start + length (rr_text r)) else None)"
    using r(3) Suc.prems(1) by (auto simp: read_chunk_def Let_def split: if_splits)
  show ?case
  proof (cases "rr_next_offset (shrink_read weigh most r)")
    case None
    then have "shrink_read weigh most r = r" using shrink_read_prefix[of weigh most r] by auto
    with None r(1) c show ?thesis by (auto split: if_splits)
  next
    case (Some nxt)
    then obtain k where k: "0 < k" "start + k \<le> length t" "nxt = start + k"
      "rr_text (shrink_read weigh most r) = take k (drop start t)"
    proof -
      consider "shrink_read weigh most r = r"
        | k where "0 < k" "k < length (rr_text r)"
          "rr_text (shrink_read weigh most r) = take k (rr_text r)"
          "rr_next_offset (shrink_read weigh most r) = Some (rr_offset r + k)"
        using shrink_read_prefix[of weigh most r] by blast
      then show ?thesis
      proof cases
        case 1
        have "start + length (rr_text r) < length t" and n: "nxt = start + length (rr_text r)"
          using Some c(3) unfolding 1 by (simp_all split: if_splits)
        moreover have "rr_text r = take (length (rr_text r)) (drop start t)"
          using c(1) by (metis take_all_iff take_take min.cobounded2 length_take order_refl min_def)
        moreover have "0 < length (rr_text r)"
          using c(1) r(2) calculation(1) by simp
        ultimately show ?thesis using that[of "length (rr_text r)"] 1 by simp
      next
        case (2 k)
        have "length (rr_text r) \<le> length t - start" using c(1) by simp
        then have "start + k \<le> length t" using 2(2) by linarith
        moreover have "nxt = start + k" using Some 2(4) c(2) by simp
        moreover have "take k (rr_text r) = take k (drop start t)"
          using 2(2) unfolding c(1) by (simp add: min_absorb1)
        ultimately show ?thesis using that[of k] 2(1,3) by simp
      qed
    qed
    have "read_all page n nxt = Some (drop nxt t)" using Suc k by auto
    moreover have "take k (drop start t) @ drop (start + k) t = drop start t"
      by (metis add.commute append_take_drop_id drop_drop)
    ultimately show ?thesis using r(1) Some k(3,4) by simp
  qed
qed simp

text \<open>
  C19: a client that reads a file page by page, each time from the offset the last page gave,
  gets the whole text, every character once and in order, and reaches the end: whatever
  allowances the limiter grants on the way, and however much each page has to be cut to fit
  the message.
\<close>

theorem pages_make_up_the_text:
  assumes "env_parse env path = Inr p" and "\<not> is_root (tp_rel p)"
    and "root_by_id env st (tp_root p) = Inr h" and "1 \<le> read_chars_per_call (st_limits st)"
    and "env_open_file env (open_policy_of st) h (tp_rel p) = Inr f"
    and "o_size f \<le> max_file_bytes (st_limits st)"
    and "fst (extracted env (st_limits st) p f c) = Inr t"
  shows "read_all (\<lambda>start. map_sum id (shrink_read_to_fit cx) (fst (reader_read env st c
      \<lparr>rq_path = path, rq_offset = Some start, rq_max_chars = Some (allowance start)\<rparr>)))
    (Suc (length t)) 0 = Some t"
proof -
  obtain c' where e: "extracted env (st_limits st) p f c = (Inr t, c')"
    using assms(7) by (cases "extracted env (st_limits st) p f c") auto
  let ?mx = "\<lambda>a. max 1 (min (read_chars_per_call (st_limits st)) (allowance a))"
  have "fst (reader_read env st c \<lparr>rq_path = path, rq_offset = Some a, rq_max_chars = Some (allowance a)\<rparr>)
      = read_chunk env p f t a (?mx a)" for a
    using assms e by (simp add: reader_read_def Let_def)
  moreover have "\<exists>r. read_chunk env p f t a (?mx a) = Inr r" if "a \<le> length t" for a
    using that by (simp add: read_chunk_def Let_def)
  ultimately have "\<exists>r mx. map_sum id (shrink_read_to_fit cx) (fst (reader_read env st c
      \<lparr>rq_path = path, rq_offset = Some a, rq_max_chars = Some (allowance a)\<rparr>))
      = Inr (shrink_read (\<lambda>r. result_size cx (ser_read r)) (budget cx) r) \<and> 1 \<le> mx
      \<and> read_chunk env p f t a mx = Inr r" if "a \<le> length t" for a
    using that by (metis map_sum.simps(2) max.cobounded1 shrink_read_to_fit_def)
  from read_all_chunks[OF this, of 0] show ?thesis by (simp del: read_all.simps)
qed

lemmas demo_defs = demo_ctx_def demo_env_def demo_reader_def demo_handle_def demo_root_def
  default_limits_def

lemmas parse_defs = tool_path_parse_def utf8_chars_def is_unsafe_in_path_def is_control_def
  is_valid_root_id_def is_ascii_lower_def is_ascii_digit_def rel_parse_def MAX_PATH_LEN_def
  MAX_COMPONENT_LEN_def env_parse_def

lemma demo_parse:
  "env_parse (demo_env other) ''docs:a.txt'' = Inr \<lparr>tp_root = ''docs'', tp_rel = [''a.txt'']\<rparr>"
  by (simp add: demo_env_def parse_defs)

theorem pages_make_up_the_text_witness:
  "read_all (\<lambda>start. map_sum id (shrink_read_to_fit (demo_ctx [])) (fst (reader_read (demo_env [])
      demo_reader [] \<lparr>rq_path = ''docs:a.txt'', rq_offset = Some start, rq_max_chars = Some 2\<rparr>)))
    (Suc (length (utf8_chars ''hello''))) 0 = Some (utf8_chars ''hello'')"
  by (rule pages_make_up_the_text [where allowance = "\<lambda>_. 2" and h = "demo_handle ''docs''"
      and f = "\<lparr>o_content = Inr ''hello'', o_size = 5, o_modified = 0, o_identity = (0, 0)\<rparr>",
      OF demo_parse])
    (simp_all add: is_root_def root_by_id_def demo_defs extracted_def cached_def read_capped_def
      wrap_def Let_def)

section \<open>What a bot's call depends on\<close>

definition names_only :: "string set \<Rightarrow> json \<Rightarrow> string list \<Rightarrow> bool" where
  "names_only F args ks \<longleftrightarrow>
     list_all (\<lambda>k. case named_root args k of None \<Rightarrow> True | Some r \<Rightarrow> r \<in> F) ks"

text \<open>
  Another computer with the same settings: its files and index, its writer, its commands and what
  it runs are its own.
\<close>

abbreviation elsewhere where
  "elsewhere cx env ch b rs co \<equiv>
     cx\<lparr>cx_env := env, cx_change := ch, cx_commands := b, cx_runs := rs, cx_command := co\<rparr>"

text \<open>
  What a bot's calls may see of the shared folders: those lent to it. Two computers look the same to
  it when these do: the folders lent, their files, and what the index knows of them.
\<close>

definition lent_view :: "string \<Rightarrow> reader_state \<Rightarrow> reader_state" where
  "lent_view i st = st\<lparr>st_roots := filter (\<lambda>h. h_id h \<in> set (lent_to st i)) (st_roots st),
     st_configured := filter (\<lambda>r. loan r i \<noteq> None) (st_configured st)\<rparr>"

definition agree_ctx :: "string \<Rightarrow> tool_ctx \<Rightarrow> tool_ctx \<Rightarrow> bool" where
  "agree_ctx i cx cx' \<longleftrightarrow>
     cx' = (elsewhere cx (cx_env cx') (cx_change cx') (cx_commands cx') (cx_runs cx') (cx_command cx'))
              \<lparr>cx_reader := cx_reader cx'\<rparr>
     \<and> lent_view i (cx_reader cx') = lent_view i (cx_reader cx)
     \<and> agree (set (lent_to (cx_reader cx) i)) (cx_env cx) (cx_env cx')"

text \<open>As a configuration that loads has them: valid IDs, no two the same, and no other folders open.\<close>

definition ids_ok :: "reader_state \<Rightarrow> bool" where
  "ids_ok st \<longleftrightarrow> distinct (map root_id (st_configured st))
     \<and> list_all (\<lambda>r. is_valid_root_id (root_id r)) (st_configured st)
     \<and> list_all (\<lambda>h. is_valid_root_id (h_id h)) (st_roots st)"

lemma loan_lent: "reader_loan st rid i = Some l \<Longrightarrow> rid \<in> set (lent_to st i)"
  by (auto simp: reader_loan_def lent_to_def dest!: find_SomeD split: option.splits)

lemma admit_keys_names:
  "admit_keys st name i una args ks = Inr () \<Longrightarrow> names_only (set (lent_to st i)) args ks"
  by (induction ks) (auto simp: names_only_def dest: loan_lent split: option.splits if_splits)

lemma admit_bot:
  assumes "admit cx name args (Bot i una) = Inr only"
  shows "names_only (set (lent_to (cx_reader cx) i)) args [''path'', ''from'', ''to'', ''root'']"
    and "name \<in> {''run_status'', ''run_output'', ''run_stop''} \<Longrightarrow>
      (case run_root cx args of None \<Rightarrow> False | Some r \<Rightarrow> r \<in> set (lent_to (cx_reader cx) i))"
    and "name = ''search'' \<Longrightarrow> get args ''root'' \<in> {None, Some JNull} \<Longrightarrow>
      only = Some (lent_to (cx_reader cx) i)"
proof -
  obtain u where k: "admit_keys (cx_reader cx) name i una args [''path'', ''from'', ''to'', ''root''] = Inr u"
    using assms by (auto simp: admit_def simp del: admit_keys.simps split: sum.splits)
  then show "names_only (set (lent_to (cx_reader cx) i)) args [''path'', ''from'', ''to'', ''root'']"
    by (cases u) (auto intro: admit_keys_names)
  show "name \<in> {''run_status'', ''run_output'', ''run_stop''} \<Longrightarrow>
      (case run_root cx args of None \<Rightarrow> False | Some r \<Rightarrow> r \<in> set (lent_to (cx_reader cx) i))"
    using assms k
    by (auto simp: admit_def simp del: admit_keys.simps dest: loan_lent split: option.splits if_splits)
  show "name = ''search'' \<Longrightarrow> get args ''root'' \<in> {None, Some JNull} \<Longrightarrow>
      only = Some (lent_to (cx_reader cx) i)"
    using assms k by (auto simp: admit_def simp del: admit_keys.simps split: if_splits)
qed

lemma parse_named: "env_parse env s = Inr p \<Longrightarrow> hd (split_on (CHR '':'') s) = tp_root p"
proof -
  assume "env_parse env s = Inr p"
  then obtain rel where s: "s = tp_root p @ CHR '':'' # rel" and v: "is_valid_root_id (tp_root p)"
    unfolding env_parse_def by (rule tool_path_parse_Inr)
  show ?thesis using valid_root_id_chars(1)[OF v] by (simp add: s split_on_append)
qed

lemma parsed_is_lent:
  assumes "names_only F args ks" and "k \<in> set ks" and "field_string args k = Some s"
    and "env_parse env s = Inr p"
  shows "tp_root p \<in> F"
  using assms parse_named[OF assms(4)]
  by (auto simp: names_only_def list_all_iff named_root_def field_string_def
      split: option.splits json.splits)

lemma agree_run_list:
  assumes "agree F (cx_env cx) env'" and "names_only F args [''path'', ''from'', ''to'', ''root'']"
  shows "run_list (elsewhere cx env' ch b rs co) args = run_list cx args"
proof -
  have "reader_list (cx_env cx) st req = reader_list env' st req"
    if "serde_list args = Some req" for req st
  proof (rule agree_list[OF assms(1)])
    fix p assume "env_parse (cx_env cx) (lq_path req) = Inr p"
    moreover have "field_string args ''path'' = Some (lq_path req)"
      using that by (auto simp: serde_list_def split: if_splits option.splits)
    ultimately show "tp_root p \<in> F" using parsed_is_lent[OF assms(2), of "''path''"] by simp
  qed
  then show ?thesis by (auto simp: run_list_def parse_args_def Let_def split: sum.splits option.splits)
qed

lemma agree_run_read:
  assumes "agree F (cx_env cx) env'" and "names_only F args [''path'', ''from'', ''to'', ''root'']"
  shows "run_read (elsewhere cx env' ch b rs co) s args chat
    = run_read cx s args chat"
proof -
  have "reader_read (cx_env cx) st c (req\<lparr>rq_max_chars := m\<rparr>) = reader_read env' st c (req\<lparr>rq_max_chars := m\<rparr>)"
    if "serde_read args = Some req" for req st c m
  proof (rule agree_read[OF assms(1)])
    fix p assume "env_parse (cx_env cx) (rq_path (req\<lparr>rq_max_chars := m\<rparr>)) = Inr p"
    moreover have "field_string args ''path'' = Some (rq_path req)"
      using that by (auto simp: serde_read_def split: if_splits option.splits)
    ultimately show "tp_root p \<in> F" using parsed_is_lent[OF assms(2), of "''path''"] by simp
  qed
  moreover have "shrink_read_to_fit (elsewhere cx env' ch b rs co)
      = shrink_read_to_fit cx"
    by (simp add: shrink_read_to_fit_def result_size_def success_def budget_def fun_eq_iff)
  ultimately show ?thesis
    by (cases "serde_read args")
      (simp_all add: run_read_def parse_args_def Let_def cong: sum.case_cong prod.case_cong)
qed

lemma agree_run_search:
  assumes "agree F (cx_env cx) env'" and "names_only F args [''path'', ''from'', ''to'', ''root'']"
    and "list_all (\<lambda>h. is_valid_root_id (h_id h)) (st_roots (cx_reader cx))"
    and "get args ''root'' \<in> {None, Some JNull} \<Longrightarrow> \<exists>lent. only = Some lent \<and> set lent \<subseteq> F"
  shows "run_search (elsewhere cx env' ch b rs co) args only
    = run_search cx args only"
proof -
  have "search (cx_env cx) (cx_reader cx) (req\<lparr>sq_only := only\<rparr>) = search env' (cx_reader cx) (req\<lparr>sq_only := only\<rparr>)"
    if req: "serde_search args = Some req" for req
  proof (rule agree_search[OF assms(1)])
    fix hs assume hs: "search_roots (cx_env cx) (cx_reader cx) (req\<lparr>sq_only := only\<rparr>) = Inr hs"
    have fo: "field_opt as_str args ''root'' = Some (sq_root req)"
      using req by (auto simp: serde_search_def split: if_splits option.splits)
    show "h_id ` set hs \<subseteq> F"
    proof (cases "sq_root req")
      case None
      then have "get args ''root'' \<in> {None, Some JNull}"
        using fo by (auto simp: field_opt_def split: option.splits if_splits)
      with assms(4) hs None show ?thesis by (auto simp: search_roots_def)
    next
      case (Some r)
      then have "get args ''root'' = Some (JStr r)"
        using fo by (auto simp: field_opt_def dest: as_str_SomeD split: option.splits if_splits)
      then have "hd (split_on (CHR '':'') r) \<in> F"
        using assms(2) by (simp add: names_only_def named_root_def)
      moreover obtain h where h: "root_by_id (cx_env cx) (cx_reader cx) r = Inr h" "hs = [h]"
        using hs Some by (cases "root_by_id (cx_env cx) (cx_reader cx) r") (auto simp: search_roots_def)
      moreover have "CHR '':'' \<notin> set r"
        using root_by_id_Inr[OF h(1)] assms(3) valid_root_id_chars(1) by (auto simp: list_all_iff)
      ultimately show ?thesis using root_by_id_Inr[OF h(1)] by (simp add: split_on_no_sep)
    qed
  qed
  then show ?thesis
    by (cases "serde_search args") (simp_all add: run_search_def parse_args_def)
qed

lemma for_caller_roots_agree:
  assumes "agree (set (lent_to (cx_reader cx) i)) (cx_env cx) env'"
  shows "for_caller (elsewhere cx env' ch b rs co) (Bot i una) (RootsOut v')
    = for_caller cx (Bot i una) (RootsOut v)"
proof -
  let ?own = "\<lambda>r. map_option (\<lambda>l. r\<lparr>ri_unattended := Some (unattended l \<and> ri_allows_commands r)\<rparr>)
      (reader_loan (cx_reader cx) (ri_id r) i)"
  have own: "?own (root_info_of env' (cx_reader cx) x) = ?own (root_info_of (cx_env cx) (cx_reader cx) x)" for x
  proof (cases "reader_loan (cx_reader cx) (root_id x) i")
    case None
    then show ?thesis by (simp add: root_info_of_def Let_def)
  next
    case (Some l)
    then have "root_id x \<in> set (lent_to (cx_reader cx) i)" by (rule loan_lent)
    then have "env_status_of env' (root_id x) = env_status_of (cx_env cx) (root_id x)"
      and "env_windows env' = env_windows (cx_env cx)"
      using assms by (simp_all add: agree_def)
    then show ?thesis by (simp add: root_info_of_def)
  qed
  have "?own \<circ> root_info_of env' (cx_reader cx) = ?own \<circ> root_info_of (cx_env cx) (cx_reader cx)"
    by (rule ext) (unfold comp_apply, rule own)
  moreover have "List.map_filter f (map g xs) = List.map_filter (f \<circ> g) xs"
    for f :: "root_info \<Rightarrow> root_info option" and g :: "root \<Rightarrow> root_info" and xs
    by (induction xs) (simp_all add: List.map_filter_simps split: option.splits)
  ultimately have "List.map_filter ?own (reader_roots env' (cx_reader cx))
      = List.map_filter ?own (reader_roots (cx_env cx) (cx_reader cx))"
    by (simp only: reader_roots_def)
  then show ?thesis by (simp add: for_caller_def)
qed

lemma for_caller_agree:
  "\<nexists>v. out = RootsOut v \<Longrightarrow>
   for_caller (elsewhere cx env' ch b rs co) who out = for_caller cx who out"
  by (cases out; cases who) (auto simp: for_caller_def)

lemma into_result_env:
  "into_result (elsewhere cx env' ch b rs co) out = into_result cx out"
  by (cases out) (simp_all add: result_size_def success_def budget_def)

text \<open>What a bot reads is the same on two computers that look the same to it.\<close>

lemma agree_run_tool:
  assumes ag: "agree (set (lent_to (cx_reader cx) i)) (cx_env cx) env'" and name: "name \<in> set READ_TOOLS"
    and ids: "list_all (\<lambda>h. is_valid_root_id (h_id h)) (st_roots (cx_reader cx))"
    and ok: "admit cx name args (Bot i una) = Inr only"
  shows "(case run_tool (elsewhere cx env' ch b rs co) s name args chat only of
      (r, s) \<Rightarrow> (map_sum id (for_caller (elsewhere cx env' ch b rs co) (Bot i una)) r, s))
    = (case run_tool cx s name args chat only of (r, s) \<Rightarrow> (map_sum id (for_caller cx (Bot i una)) r, s))"
proof -
  let ?cx = "elsewhere cx env' ch b rs co"
  note adm = admit_bot[OF ok]
  have search: "name = ''search'' \<Longrightarrow> run_search ?cx args only = run_search cx args only"
    by (rule agree_run_search[OF ag adm(1) ids]) (use adm(3) in auto)
  note rest = agree_run_list[OF ag adm(1)] agree_run_read[OF ag adm(1)]
  have fc: "for_caller ?cx (Bot i una) out = for_caller cx (Bot i una) out" for out
    by (cases out) (simp_all add: for_caller_roots_agree[OF ag] for_caller_agree)
  have fr: "for_caller cx (Bot i una) (RootsOut v) = for_caller cx (Bot i una) (RootsOut v')" for v v'
    by (simp add: for_caller_def)
  have roots: "map_sum id (for_caller ?cx (Bot i una)) (run_roots ?cx args)
      = map_sum id (for_caller cx (Bot i una)) (run_roots cx args)"
    by (simp add: run_roots_def fc) (intro impI fr)
  have fc': "for_caller ?cx (Bot i una) = for_caller cx (Bot i una)" by (rule ext) (rule fc)
  show ?thesis
    using roots search name
    by (auto simp: run_tool_def rest fc' Let_def READ_TOOLS_def split: sum.splits prod.splits)
qed

lemma admit_reading:
  assumes "name \<in> set READ_TOOLS" and "cx_reader cx' = cx_reader cx"
  shows "admit cx' name args who = admit cx name args who"
proof -
  have "(name \<in> {''run_status'', ''run_output'', ''run_stop''}) = False"
    using assms(1) by (auto simp: READ_TOOLS_def)
  then show ?thesis unfolding admit_def assms(2) by (simp only: simp_thms if_False)
qed

lemma agree_call:
  assumes "agree (set (lent_to (cx_reader cx) i)) (cx_env cx) env'" and name: "name \<in> set READ_TOOLS"
    and "list_all (\<lambda>h. is_valid_root_id (h_id h)) (st_roots (cx_reader cx))"
  shows "call_as (elsewhere cx env' ch b rs co) ts dur s name args chat rid (Bot i una)
    = call_as cx ts dur s name args chat rid (Bot i una)"
proof -
  let ?cx = "elsewhere cx env' ch b rs co"
  let ?args = "JObj (case args of None \<Rightarrow> fmempty | Some m \<Rightarrow> m)"
  have adm: "admit ?cx name a who = admit cx name a who" for a who
    by (rule admit_reading [OF name]) simp
  have kn: "known_tool ?cx name" "known_tool cx name" using name by (simp_all add: known_tool_def)
  have eq: "(case admit cx name ?args (Bot i una) of
        Inl err \<Rightarrow> (Inl err, s)
      | Inr only \<Rightarrow> (case run_tool ?cx s name ?args (case chat of None \<Rightarrow> [] | Some c \<Rightarrow> c) only of
          (r, s) \<Rightarrow> (map_sum id (for_caller ?cx (Bot i una)) r, s)))
    = (case admit cx name ?args (Bot i una) of
        Inl err \<Rightarrow> (Inl err, s)
      | Inr only \<Rightarrow> (case run_tool cx s name ?args (case chat of None \<Rightarrow> [] | Some c \<Rightarrow> c) only of
          (r, s) \<Rightarrow> (map_sum id (for_caller cx (Bot i una)) r, s)))"
    using agree_run_tool[OF assms] by (auto split: sum.splits)
  have res: "into_result ?cx out = into_result cx out" for out by (rule into_result_env)
  show ?thesis unfolding call_as_def Let_def adm eq res by (simp add: kn)
qed

section \<open>A bot sees its folders only\<close>

lemma lent_view_simps [simp]:
  "lent_to (lent_view i st) i = lent_to st i" "st_limits (lent_view i st) = st_limits st"
  "st_deny (lent_view i st) = st_deny st" "st_index_enabled (lent_view i st) = st_index_enabled st"
  "open_policy_of (lent_view i st) = open_policy_of st"
  "st_roots (lent_view i st) = filter (\<lambda>h. h_id h \<in> set (lent_to st i)) (st_roots st)"
  "st_configured (lent_view i st) = filter (\<lambda>r. loan r i \<noteq> None) (st_configured st)"
  by (simp_all add: lent_view_def lent_to_def open_policy_of_def)

lemma find_filter: "(\<And>x. P x \<Longrightarrow> Q x) \<Longrightarrow> find P (filter Q xs) = find P xs"
  by (induction xs) auto

lemma lent_view_loan:
  assumes "distinct (map root_id (st_configured st))"
  shows "reader_loan (lent_view i st) rid i = reader_loan st rid i"
proof -
  have "(case find (\<lambda>r. root_id r = rid) (filter (\<lambda>r. loan r i \<noteq> None) rs) of None \<Rightarrow> None | Some r \<Rightarrow> loan r i)
      = (case find (\<lambda>r. root_id r = rid) rs of None \<Rightarrow> None | Some r \<Rightarrow> loan r i)"
    if "distinct (map root_id rs)" for rs
    using that
  proof (induction rs)
    case (Cons r rs)
    have "find (\<lambda>r. root_id r = rid) (filter (\<lambda>r. loan r i \<noteq> None) rs) = None" if "root_id r = rid"
      using that Cons.prems by (auto simp: find_None_iff) (metis imageI)
    with Cons show ?case by auto
  qed simp
  with assms show ?thesis by (simp add: reader_loan_def)
qed

lemma lent_view_root:
  assumes "rid \<in> set (lent_to st i)"
  shows "root_by_id env (lent_view i st) rid = root_by_id env st rid"
proof -
  have "list_ex (\<lambda>r. root_id r = rid) (filter (\<lambda>r. loan r i \<noteq> None) (st_configured st))"
    "list_ex (\<lambda>r. root_id r = rid) (st_configured st)"
    using assms by (auto simp: lent_to_def list_ex_iff)
  moreover have "find (\<lambda>h. h_id h = rid) (filter (\<lambda>h. h_id h \<in> set (lent_to st i)) (st_roots st))
      = find (\<lambda>h. h_id h = rid) (st_roots st)"
    using assms by (intro find_filter) simp
  ultimately show ?thesis by (simp add: root_by_id_def)
qed

abbreviation viewed :: "string \<Rightarrow> tool_ctx \<Rightarrow> tool_ctx" where
  "viewed i cx \<equiv> cx\<lparr>cx_reader := lent_view i (cx_reader cx)\<rparr>"

lemma lent_view_admit:
  assumes "ids_ok (cx_reader cx)" and "name \<in> set READ_TOOLS"
  shows "admit (viewed i cx) name args (Bot i una) = admit cx name args (Bot i una)"
proof -
  have "admit_keys (lent_view i (cx_reader cx)) name i una args ks = admit_keys (cx_reader cx) name i una args ks" for ks
    using assms(1) by (induction ks) (simp_all add: lent_view_loan ids_ok_def split: option.splits)
  moreover have "(name \<in> {''run_status'', ''run_output'', ''run_stop''}) = False"
    using assms(2) by (auto simp: READ_TOOLS_def)
  moreover have "cx_reader (viewed i cx) = lent_view i (cx_reader cx)" by simp
  ultimately show ?thesis
    unfolding admit_def caller.case by (simp only: simp_thms if_False lent_view_simps(1))
qed

lemma lent_view_list:
  assumes "names_only (set (lent_to (cx_reader cx) i)) args [''path'', ''from'', ''to'', ''root'']"
  shows "run_list (viewed i cx) args = run_list cx args"
proof -
  have "reader_list (cx_env cx) (lent_view i (cx_reader cx)) req = reader_list (cx_env cx) (cx_reader cx) req"
    if "serde_list args = Some req" for req
  proof -
    have "field_string args ''path'' = Some (lq_path req)"
      using that by (auto simp: serde_list_def split: if_splits option.splits)
    then have "root_by_id (cx_env cx) (lent_view i (cx_reader cx)) (tp_root p) = root_by_id (cx_env cx) (cx_reader cx) (tp_root p)"
      if "env_parse (cx_env cx) (lq_path req) = Inr p" for p
      using parsed_is_lent[OF assms, of "''path''"] that by (simp add: lent_view_root)
    then show ?thesis unfolding reader_list_def lent_view_simps by (cases "env_parse (cx_env cx) (lq_path req)") simp_all
  qed
  then show ?thesis by (auto simp: run_list_def parse_args_def Let_def split: sum.splits option.splits)
qed

lemma lent_view_read:
  assumes "names_only (set (lent_to (cx_reader cx) i)) args [''path'', ''from'', ''to'', ''root'']"
  shows "run_read (viewed i cx) s args chat = run_read cx s args chat"
proof -
  have "reader_read (cx_env cx) (lent_view i (cx_reader cx)) c (req\<lparr>rq_max_chars := m\<rparr>)
      = reader_read (cx_env cx) (cx_reader cx) c (req\<lparr>rq_max_chars := m\<rparr>)"
    if "serde_read args = Some req" for req c m
  proof -
    have "field_string args ''path'' = Some (rq_path req)"
      using that by (auto simp: serde_read_def split: if_splits option.splits)
    then have "root_by_id (cx_env cx) (lent_view i (cx_reader cx)) (tp_root p) = root_by_id (cx_env cx) (cx_reader cx) (tp_root p)"
      if "env_parse (cx_env cx) (rq_path req) = Inr p" for p
      using parsed_is_lent[OF assms, of "''path''"] that by (simp add: lent_view_root)
    then show ?thesis unfolding reader_read_def lent_view_simps by (cases "env_parse (cx_env cx) (rq_path req)") simp_all
  qed
  moreover have "shrink_read_to_fit (viewed i cx) = shrink_read_to_fit cx"
    by (simp add: shrink_read_to_fit_def result_size_def success_def budget_def fun_eq_iff)
  ultimately show ?thesis
    by (cases "serde_read args")
      (simp_all add: run_read_def parse_args_def Let_def cong: sum.case_cong prod.case_cong)
qed

text \<open>A folder named in a call has an ID without a colon, or there is none of that name.\<close>

lemma lent_view_named_root:
  assumes "ids_ok st" and "hd (split_on (CHR '':'') r) \<in> set (lent_to st i)"
  shows "root_by_id env (lent_view i st) r = root_by_id env st r"
proof (cases "CHR '':'' \<in> set r")
  case True
  then have "\<forall>h \<in> set (st_roots st). h_id h \<noteq> r" "\<forall>x \<in> set (st_configured st). root_id x \<noteq> r"
    using assms(1) valid_root_id_chars(1) by (auto simp: ids_ok_def list_all_iff)
  then have "find (\<lambda>h. h_id h = r) (st_roots st) = None" "find (\<lambda>h. h_id h = r) (st_roots (lent_view i st)) = None"
    "\<not> list_ex (\<lambda>x. root_id x = r) (st_configured st)" "\<not> list_ex (\<lambda>x. root_id x = r) (st_configured (lent_view i st))"
    by (auto simp: find_None_iff list_ex_iff)
  then show ?thesis by (simp add: root_by_id_def del: lent_view_simps)
next
  case False
  with assms(2) show ?thesis by (intro lent_view_root) (simp add: split_on_no_sep)
qed

lemma lent_view_search:
  assumes ids: "ids_ok (cx_reader cx)"
    and "names_only (set (lent_to (cx_reader cx) i)) args [''path'', ''from'', ''to'', ''root'']"
    and only: "get args ''root'' \<in> {None, Some JNull} \<Longrightarrow> only = Some (lent_to (cx_reader cx) i)"
  shows "run_search (viewed i cx) args only = run_search cx args only"
proof -
  have "search_roots (cx_env cx) (lent_view i (cx_reader cx)) (req\<lparr>sq_only := only\<rparr>)
      = search_roots (cx_env cx) (cx_reader cx) (req\<lparr>sq_only := only\<rparr>)"
    if req: "serde_search args = Some req" for req
  proof (cases "sq_root req")
    case None
    moreover have fo: "field_opt as_str args ''root'' = Some (sq_root req)"
      using req by (auto simp: serde_search_def split: if_splits option.splits)
    ultimately have "get args ''root'' \<in> {None, Some JNull}"
      by (auto simp: field_opt_def split: option.splits if_splits)
    with only None show ?thesis by (simp add: search_roots_def conj_commute)
  next
    case (Some r)
    moreover have fo: "field_opt as_str args ''root'' = Some (sq_root req)"
      using req by (auto simp: serde_search_def split: if_splits option.splits)
    ultimately have "get args ''root'' = Some (JStr r)"
      by (auto simp: field_opt_def dest: as_str_SomeD split: option.splits if_splits)
    then have "hd (split_on (CHR '':'') r) \<in> set (lent_to (cx_reader cx) i)"
      using assms(2) by (simp add: names_only_def named_root_def)
    from lent_view_named_root [OF ids this] Some show ?thesis by (simp add: search_roots_def)
  qed
  moreover have "search_in (cx_env cx) (lent_view i st) hs query limit after g = search_in (cx_env cx) st hs query limit after g"
    for st hs query limit after g
    unfolding search_in_def search_index_def index_hit_ok_def grep_query_of_def lent_view_simps by (rule refl)
  ultimately show ?thesis
    by (cases "serde_search args") (simp_all add: run_search_def parse_args_def search_def Let_def
        cong: sum.case_cong if_cong)
qed

lemma lent_view_for_caller:
  assumes "ids_ok (cx_reader cx)"
  shows "for_caller (viewed i cx) (Bot i una) out = for_caller cx (Bot i una) out"
proof (cases out)
  case (RootsOut v)
  let ?st = "cx_reader cx"
  define own where "own = (\<lambda>r :: root_info. map_option (\<lambda>l. r\<lparr>ri_unattended := Some (unattended l \<and> ri_allows_commands r)\<rparr>)
      (reader_loan ?st (ri_id r) i))"
  have lent: "own (root_info_of (cx_env cx) (lent_view i ?st) x) = own (root_info_of (cx_env cx) ?st x)"
    if "root_id x \<in> set (lent_to ?st i)" for x
  proof -
    have "list_ex (\<lambda>h. h_id h = root_id x) (st_roots (lent_view i ?st)) = list_ex (\<lambda>h. h_id h = root_id x) (st_roots ?st)"
      using that by (auto simp: list_ex_iff)
    then show ?thesis by (simp add: own_def root_info_of_def Let_def del: lent_view_simps(6))
  qed
  have other: "own (root_info_of (cx_env cx) st x) = None"
    if "x \<in> set (st_configured ?st)" "loan x i = None" for st x
  proof -
    have "reader_loan ?st (root_id x) i = None"
      using that assms by (auto simp: reader_loan_def ids_ok_def distinct_map inj_on_def dest!: find_SomeD split: option.splits)
    then show ?thesis by (simp add: own_def root_info_of_def Let_def)
  qed
  have "List.map_filter own (map (root_info_of (cx_env cx) (lent_view i ?st)) (filter (\<lambda>r. loan r i \<noteq> None) xs))
      = List.map_filter own (map (root_info_of (cx_env cx) ?st) xs)" if "set xs \<subseteq> set (st_configured ?st)" for xs
    using that
  proof (induction xs)
    case (Cons x xs)
    show ?case
    proof (cases "loan x i")
      case None
      with Cons other [of x] show ?thesis by (simp add: List.map_filter_simps)
    next
      case (Some l)
      with Cons.prems have "root_id x \<in> set (lent_to ?st i)" by (auto simp: lent_to_def)
      with Cons Some lent show ?thesis
        by (simp add: List.map_filter_simps del: lent_view_simps split: option.split)
    qed
  qed simp
  then show ?thesis using assms
    by (simp add: RootsOut for_caller_def reader_roots_def lent_view_loan ids_ok_def own_def)
qed (simp_all add: for_caller_def)

lemma lent_view_call:
  assumes ids: "ids_ok (cx_reader cx)" and name: "name \<in> set READ_TOOLS"
  shows "call_as (viewed i cx) ts dur s name args chat rid (Bot i una)
    = call_as cx ts dur s name args chat rid (Bot i una)"
proof -
  let ?cx = "viewed i cx"
  let ?args = "JObj (case args of None \<Rightarrow> fmempty | Some m \<Rightarrow> m)"
  have fc: "for_caller ?cx (Bot i una) = for_caller cx (Bot i una)"
    by (rule ext) (rule lent_view_for_caller [OF ids])
  have roots: "map_sum id (for_caller cx (Bot i una)) (run_roots ?cx ?args)
      = map_sum id (for_caller cx (Bot i una)) (run_roots cx ?args)"
    by (simp add: run_roots_def for_caller_def)
  have run: "(case run_tool ?cx s name ?args c only of (r, s) \<Rightarrow> (map_sum id (for_caller ?cx (Bot i una)) r, s))
      = (case run_tool cx s name ?args c only of (r, s) \<Rightarrow> (map_sum id (for_caller cx (Bot i una)) r, s))"
    if ok: "admit cx name ?args (Bot i una) = Inr only" for c only
  proof -
    note adm = admit_bot [OF ok]
    have search: "name = ''search'' \<Longrightarrow> run_search ?cx ?args only = run_search cx ?args only"
      by (rule lent_view_search [OF ids adm(1)]) (use adm(3) in auto)
    show ?thesis
      using roots search name
      by (auto simp: run_tool_def lent_view_list [OF adm(1)] lent_view_read [OF adm(1)] fc Let_def
          READ_TOOLS_def split: sum.splits prod.splits)
  qed
  have eq: "(case admit cx name ?args (Bot i una) of
        Inl err \<Rightarrow> (Inl err, s)
      | Inr only \<Rightarrow> (case run_tool ?cx s name ?args (case chat of None \<Rightarrow> [] | Some c \<Rightarrow> c) only of
          (r, s) \<Rightarrow> (map_sum id (for_caller ?cx (Bot i una)) r, s)))
    = (case admit cx name ?args (Bot i una) of
        Inl err \<Rightarrow> (Inl err, s)
      | Inr only \<Rightarrow> (case run_tool cx s name ?args (case chat of None \<Rightarrow> [] | Some c \<Rightarrow> c) only of
          (r, s) \<Rightarrow> (map_sum id (for_caller cx (Bot i una)) r, s)))"
    using run by (auto split: sum.splits)
  have kn: "known_tool ?cx name" "known_tool cx name" using name by (simp_all add: known_tool_def)
  have res: "into_result ?cx out = into_result cx out" for out
    by (cases out) (simp_all add: result_size_def success_def budget_def)
  show ?thesis unfolding call_as_def Let_def lent_view_admit [OF ids name] eq res by (simp add: kn)
qed


text \<open>The same computer with another folder shared, not lent to anyone, and commands allowed.\<close>

definition demo_other :: tool_ctx where
  "demo_other = (demo_ctx ''secret'')\<lparr>cx_commands := True, cx_runs := Some [(''1'', ''home'')],
     cx_reader := demo_reader\<lparr>st_roots := demo_handle ''more'' # st_roots demo_reader,
       st_configured := demo_root ''more'' [] # st_configured demo_reader\<rparr>\<rparr>"


section \<open>Every call is answered and logged\<close>

lemma into_result_success: "\<not> cl_error (fst (into_result cx out))"
  by (cases out) (simp_all add: success_def Let_def)

lemma error_result_cl: "cl_error (error_result err)"
  by (simp add: error_result_def)

text \<open>
  C31: every call leaves one entry in the log that says what became of it: a refusal for a tool
  that is not offered; allowed exactly when the caller got a result that is no error; and
  otherwise the code of the error, as a refusal or a failure, and the message it was told. While
  access is paused, nothing is allowed and nothing changes.
\<close>

theorem every_call_is_logged:
  "case call_as cx ts dur s name args chat rid who of (r, e, s') \<Rightarrow>
     ae_event e = ''tool'' \<and> ae_request_id e = Some rid \<and> ae_chat_id e = chat
     \<and> (case r of
          None \<Rightarrow> ae_decision e = Some DeniedDecision \<and> s' = s
        | Some c \<Rightarrow>
            if cl_error c
            then (\<exists>err. c = error_result err \<and> ae_code e = Some (Errors.as_str (code err))
                   \<and> ae_reason e = Some (message err)
                   \<and> ae_decision e = Some (if is_denial (code err) then DeniedDecision else ErrorDecision))
            else ae_decision e = Some Allowed \<and> \<not> cx_paused cx)
     \<and> (if cx_paused cx then s' = s else True)"
proof (cases "known_tool cx name")
  case False
  then show ?thesis by (simp add: call_as_def audit_event_def)
next
  case True
  let ?args = "JObj (case args of None \<Rightarrow> fmempty | Some m \<Rightarrow> m)"
  let ?out = "case admit cx name ?args who of
      Inl err \<Rightarrow> (Inl err, s)
    | Inr only \<Rightarrow> (case run_tool cx s name ?args (case chat of None \<Rightarrow> [] | Some c \<Rightarrow> c) only of
        (r, s) \<Rightarrow> (map_sum id (for_caller cx who) r, s))"
  obtain outcome s' where o: "?out = (outcome, s')" by (cases ?out)
  have paused: "cx_paused cx \<Longrightarrow> s' = s \<and> (\<exists>err. outcome = Inl err)"
    using o by (auto simp: run_tool_def split: sum.splits)
  have keep: "ae_event (note_output name who out e) = ae_event e
      \<and> ae_request_id (note_output name who out e) = ae_request_id e
      \<and> ae_chat_id (note_output name who out e) = ae_chat_id e" for out e
    by (cases out) (simp_all add: note_output_def Let_def)
  let ?e = "entry_of_call ts name ?args chat rid who"
  have entry: "ae_event ?e = ''tool'' \<and> ae_request_id ?e = Some rid \<and> ae_chat_id ?e = chat"
    by (simp add: entry_of_call_def audit_event_def)
  show ?thesis
  proof (cases outcome)
    case (Inl err)
    have "call_as cx ts dur s name args chat rid who = (Some (error_result err),
        ?e\<lparr>ae_decision := Some (if is_denial (code err) then DeniedDecision else ErrorDecision),
          ae_code := Some (Errors.as_str (code err)), ae_reason := Some (message err),
          ae_duration := Some dur\<rparr>, s')"
      unfolding call_as_def Let_def o by (simp add: True Inl)
    with entry paused show ?thesis
      by (auto simp: error_result_cl)
  next
    case (Inr out)
    obtain c b n where res: "into_result cx out = (c, b, n)" by (cases "into_result cx out") auto
    have "call_as cx ts dur s name args chat rid who = (Some c,
        (note_output name who out ?e)\<lparr>ae_decision := Some Allowed, ae_bytes := Some b,
          ae_results := n, ae_duration := Some dur\<rparr>, s')"
      unfolding call_as_def Let_def o by (simp add: True Inr res)
    with entry keep paused Inr res into_result_success[of cx out] show ?thesis by auto
  qed
qed

section \<open>Results fit the message\<close>

lemma shrink_search_fits:
  "sr_hits (shrink_search weigh most r) = [] \<or> weigh (shrink_search weigh most r) \<le> most"
proof (induction weigh most r rule: shrink_search.induct)
  case (1 weigh most r)
  then show ?case by (subst (1 2) shrink_search.simps) auto
qed

lemma shrink_search_prefix: "\<exists>k. sr_hits (shrink_search weigh most r) = take k (sr_hits r)"
proof (induction weigh most r rule: shrink_search.induct)
  case (1 weigh most r)
  show ?case
  proof (cases "weigh r \<le> most \<or> sr_hits r = []")
    case True
    then show ?thesis by (subst shrink_search.simps) (auto intro: exI [of _ "length (sr_hits r)"])
  next
    case False
    then show ?thesis
      using "1.IH"[OF False] by (subst shrink_search.simps) (auto simp: butlast_conv_take)
  qed
qed

lemma shrink_read_fits:
  "length (rr_text (shrink_read weigh most r)) \<le> 1 \<or> weigh (shrink_read weigh most r) \<le> most"
proof (induction weigh most r rule: shrink_read.induct)
  case (1 weigh most r)
  then show ?case by (subst (1 2) shrink_read.simps) (auto simp: Let_def)
qed

lemma shrink_list_fits:
  "length (lr_entries (shrink_list weigh most start r)) \<le> 1
   \<or> weigh (shrink_list weigh most start r) \<le> most"
proof (induction weigh most start r rule: shrink_list.induct)
  case (1 weigh most start r)
  then show ?case by (subst (1 2) shrink_list.simps) (auto simp: Let_def)
qed

lemma cut_to_chars_fits: "length (cut_to_chars cs mx) \<le> mx"
  by (auto simp: cut_to_chars_def)

lemma cut_to_chars_short: "length cs \<le> mx \<Longrightarrow> cut_to_chars cs mx = cs"
  by (simp add: cut_to_chars_def)

end
