(* ===== verification/Disk.thy ===== *)
theory Disk
  imports Reader Limits
begin

text \<open>
  The disk a change acts on, as \<open>ChangeDir\<close> of \<open>src/reader/safe_fs/unix.rs\<close> and the trash present
  it: nodes at absolute paths, what went to the trash, and the operations the writer uses, each of
  which the operating system may refuse. \<open>dk_faults\<close> says what the operating system does with the
  operations to come (\<open>Works\<close> when it says nothing), \<open>dk_names\<close> supplies the random names of
  temporary files, \<open>dk_places\<close> where the trash puts things, \<open>dk_next\<close> fresh inodes; the windows of
  the limiter and the instant of the change travel along. Other programs do not act between the
  operations of one change.
\<close>

record entry_stat =
  es_kind :: entry_kind
  es_size :: nat
  es_modified :: int
  es_links :: nat
  es_mode :: nat
  es_foreign :: bool
  es_readonly :: bool
  es_identity :: "nat \<times> nat"

record node =
  nd_stat :: entry_stat
  nd_bytes :: string

datatype fault = Works | Unsupported | Fails tool_error

record disk =
  dk_nodes :: "(path \<times> node) list"
  dk_trash :: "(string \<times> (path \<times> node) list) list"
  dk_faults :: "fault list"
  dk_names :: "string list"
  dk_places :: "string list"
  dk_next :: nat
  dk_limiter :: windows
  dk_now :: instant

text \<open>An open folder: the path it was opened by, where it is on the disk, and its identity.\<close>

record change_dir =
  cd_path :: path
  cd_at :: path
  cd_identity :: "nat \<times> nat"

definition executable :: "entry_stat \<Rightarrow> bool" where
  "executable s \<longleftrightarrow> (and (es_mode s) 73) \<noteq> 0"

definition device :: "change_dir \<Rightarrow> nat" where
  "device d = fst (cd_identity d)"

section \<open>Steps that may fail\<close>

type_synonym 'a act = "disk \<Rightarrow> (tool_error + 'a) \<times> disk"

definition done_with :: "'a \<Rightarrow> 'a act" where
  "done_with x d = (Inr x, d)"

definition failed :: "tool_error \<Rightarrow> 'a act" where
  "failed e d = (Inl e, d)"

definition lift :: "(tool_error + 'a) \<Rightarrow> 'a act" where
  "lift r d = (r, d)"

definition chain :: "'a act \<Rightarrow> ('a \<Rightarrow> 'b act) \<Rightarrow> 'b act" where
  "chain m f d = (case m d of (Inl e, d') \<Rightarrow> (Inl e, d') | (Inr x, d') \<Rightarrow> f x d')"

text \<open>A step whose failure the code looks at.\<close>

definition attempt :: "'a act \<Rightarrow> (tool_error + 'a) act" where
  "attempt m d = (case m d of (r, d') \<Rightarrow> (Inr r, d'))"

definition refuse_if :: "bool \<Rightarrow> tool_error \<Rightarrow> unit act" where
  "refuse_if b e = (if b then failed e else done_with ())"

definition map_failure :: "(tool_error \<Rightarrow> tool_error) \<Rightarrow> 'a act \<Rightarrow> 'a act" where
  "map_failure f m d = (case m d of (Inl e, d') \<Rightarrow> (Inl (f e), d') | (Inr x, d') \<Rightarrow> (Inr x, d'))"

definition next_fault :: "fault act" where
  "next_fault d = (case dk_faults d of [] \<Rightarrow> (Inr Works, d)
     | f # fs \<Rightarrow> (Inr f, d\<lparr>dk_faults := fs\<rparr>))"

text \<open>A system call that the operating system may refuse.\<close>

definition syscall :: "'a act \<Rightarrow> 'a act" where
  "syscall m = chain next_fault (\<lambda>f. case f of Fails e \<Rightarrow> failed e | _ \<Rightarrow> m)"

definition not_found :: tool_error where
  "not_found = tool_error NotFound ''Nothing exists at this path.''"

definition exists_error :: tool_error where
  "exists_error = tool_error Exists ''Something already exists at this path.''"

definition too_large :: "nat \<Rightarrow> nat \<Rightarrow> tool_error" where
  "too_large n cap = tool_error TooLarge (''The file is '' @ show_nat n @ '' bytes; files up to ''
     @ show_nat cap @ '' bytes can be changed.'')"

section \<open>Looking\<close>

definition node_at :: "disk \<Rightarrow> path \<Rightarrow> node option" where
  "node_at d p = map_of (dk_nodes d) p"

text \<open>Something is there, or below there.\<close>

definition occupied :: "disk \<Rightarrow> path \<Rightarrow> bool" where
  "occupied d p \<longleftrightarrow> list_ex (\<lambda>(q, _). starts_with q p) (dk_nodes d)"

definition entry :: "change_dir \<Rightarrow> string \<Rightarrow> entry_stat option act" where
  "entry c name = syscall (\<lambda>d. (Inr (map_option nd_stat (node_at d (cd_at c @ [name]))), d))"

definition children :: "disk \<Rightarrow> path \<Rightarrow> (string \<times> entry_stat) list" where
  "children d p = List.map_filter (\<lambda>(q, n).
     if q \<noteq> [] \<and> butlast q = p then Some (last q, nd_stat n) else None) (dk_nodes d)"

definition entries :: "change_dir \<Rightarrow> (string \<times> entry_stat) list act" where
  "entries c = syscall (\<lambda>d. (Inr (children d (cd_at c)), d))"

definition subdir :: "change_dir \<Rightarrow> string \<Rightarrow> change_dir act" where
  "subdir c name = syscall (\<lambda>d. case node_at d (cd_at c @ [name]) of
     None \<Rightarrow> (Inl not_found, d)
   | Some n \<Rightarrow> (case es_kind (nd_stat n) of
       DirEntry \<Rightarrow> (Inr \<lparr>cd_path = cd_path c @ [name], cd_at = cd_at c @ [name],
          cd_identity = es_identity (nd_stat n)\<rparr>, d)
     | SymlinkEntry \<Rightarrow> (Inl (denied ''Symlinks are never followed.''), d)
     | _ \<Rightarrow> (Inl (tool_error NotADirectory ''A part of the path is not a folder.''), d)))"

text \<open>The shared folder itself, opened for a change: \<open>change_dir\<close> with the empty path.\<close>

definition open_root :: "policy_libs \<Rightarrow> deny_list \<Rightarrow> root_handle \<Rightarrow> change_dir act" where
  "open_root u dl h = (case denied_by u dl (h_path h) of
     Some pat \<Rightarrow> failed (denied (''this path is on the deny list ('' @ pat @ '')''))
   | None \<Rightarrow> syscall (\<lambda>d. case node_at d (h_path h) of
       None \<Rightarrow> (Inl not_found, d)
     | Some n \<Rightarrow> (case es_kind (nd_stat n) of
         DirEntry \<Rightarrow> (Inr \<lparr>cd_path = h_path h, cd_at = h_path h, cd_identity = es_identity (nd_stat n)\<rparr>, d)
       | FileEntry \<Rightarrow> (Inl (tool_error NotADirectory ''this path is a file''), d)
       | _ \<Rightarrow> (Inl (denied ''only regular files and directories can be accessed''), d))))"

definition read_file :: "change_dir \<Rightarrow> string \<Rightarrow> nat \<Rightarrow> (string \<times> entry_stat) act" where
  "read_file c name cap = chain (entry c name) (\<lambda>before. case before of
     None \<Rightarrow> failed not_found
   | Some s \<Rightarrow>
       if es_kind s \<noteq> FileEntry then failed (tool_error NotAFile ''This path is not a regular file.'')
       else if cap < es_size s then failed (too_large (es_size s) cap)
       else syscall (\<lambda>d. case node_at d (cd_at c @ [name]) of
           None \<Rightarrow> (Inl not_found, d)
         | Some n \<Rightarrow>
             if es_identity (nd_stat n) \<noteq> es_identity s \<or> es_kind (nd_stat n) \<noteq> FileEntry
             then (Inl (tool_error Conflict ''The file changed while it was being read. Try again.''), d)
             else (let buf = take (wrap (cap + 1)) (nd_bytes n)
               in if cap < length buf then (Inl (too_large (length buf) cap), d)
                  else (Inr (buf, nd_stat n), d))))"

section \<open>Changing\<close>

definition put_node :: "path \<Rightarrow> node \<Rightarrow> disk \<Rightarrow> disk" where
  "put_node p n d = d\<lparr>dk_nodes := AList.update p n (dk_nodes d)\<rparr>"

definition drop_node :: "path \<Rightarrow> disk \<Rightarrow> disk" where
  "drop_node p d = d\<lparr>dk_nodes := AList.delete p (dk_nodes d)\<rparr>"

text \<open>A file or folder just made. Its time is not modelled: nothing reads it.\<close>

definition new_node :: "entry_kind \<Rightarrow> nat \<Rightarrow> string \<Rightarrow> change_dir \<Rightarrow> disk \<Rightarrow> node" where
  "new_node k mode bytes c d = \<lparr>nd_stat = \<lparr>es_kind = k, es_size = length bytes, es_modified = 0,
     es_links = 1, es_mode = mode, es_foreign = False, es_readonly = False,
     es_identity = (device c, dk_next d)\<rparr>, nd_bytes = bytes\<rparr>"

text \<open>A random name; that the supply never runs dry is the only thing assumed of it.\<close>

definition temp_name :: "string act" where
  "temp_name d = (case dk_names d of
     [] \<Rightarrow> (Inl (internal ''no random names''), d)
   | t # ts \<Rightarrow> (Inr t, d\<lparr>dk_names := ts\<rparr>))"

text \<open>A temporary name that is free, of at most so many.\<close>

fun free_name :: "nat \<Rightarrow> change_dir \<Rightarrow> string act" where
  "free_name 0 c d = (Inl (internal ''no free name for a temporary file''), d)"
| "free_name (Suc n) c d = (case dk_names d of
     [] \<Rightarrow> (Inl (internal ''no free name for a temporary file''), d)
   | t # ts \<Rightarrow>
       (let d = d\<lparr>dk_names := ts\<rparr>
        in if occupied d (cd_at c @ [t]) then free_name n c d else (Inr t, d)))"

text \<open>
  A staged file is its name in the folder. Writing it may fail half way; then it is removed, and
  nothing has changed.
\<close>

definition stage :: "change_dir \<Rightarrow> string \<Rightarrow> nat \<Rightarrow> string act" where
  "stage c bytes mode = chain (free_name 16 c) (\<lambda>t. syscall (\<lambda>d.
     (Inr t, put_node (cd_at c @ [t]) (new_node FileEntry (and mode 438) bytes c d)
        (d\<lparr>dk_next := dk_next d + 1\<rparr>))))"

definition discard :: "change_dir \<Rightarrow> string \<Rightarrow> unit act" where
  "discard c staged d = (Inr (), drop_node (cd_at c @ [staged]) d)"

definition move_node :: "path \<Rightarrow> path \<Rightarrow> disk \<Rightarrow> disk" where
  "move_node p q d = d\<lparr>dk_nodes := map (\<lambda>(k, n).
     (if starts_with k p then q @ drop (length p) k else k, n)) (dk_nodes d)\<rparr>"

datatype rename_error = CrossDevice | AlreadyExists | OtherError tool_error

text \<open>\<open>rename_noreplace\<close>\<close>

definition rename_to :: "change_dir \<Rightarrow> string \<Rightarrow> change_dir \<Rightarrow> string \<Rightarrow> (rename_error + unit) act" where
  "rename_to c name c' name' = chain next_fault (\<lambda>f d.
     (let p = cd_at c @ [name]; q = cd_at c' @ [name']
      in case f of
           Fails e \<Rightarrow> (Inr (Inl (OtherError e)), d)
         | _ \<Rightarrow>
             if device c \<noteq> device c' then (Inr (Inl CrossDevice), d)
             else if node_at d p = None then (Inr (Inl (OtherError not_found)), d)
             else if occupied d q \<and> p \<noteq> q then (Inr (Inl AlreadyExists), d)
             else if starts_with q p \<and> p \<noteq> q
             then (Inr (Inl (OtherError (invalid_argument
                    (''A folder can'' @ CHR 0x27 # ''t be moved into itself.'')))), d)
             else (Inr (Inr ()), move_node p q d)))"

definition commit :: "change_dir \<Rightarrow> string \<Rightarrow> string \<Rightarrow> unit act" where
  "commit c staged name = chain (rename_to c staged c name) (\<lambda>r. case r of
     Inr _ \<Rightarrow> done_with ()
   | Inl e \<Rightarrow> chain (discard c staged) (\<lambda>_. failed (case e of
       AlreadyExists \<Rightarrow> exists_error
     | OtherError e \<Rightarrow> e
     | CrossDevice \<Rightarrow> internal ''putting the file in place'')))"

text \<open>\<open>False\<close>: the file system cannot swap.\<close>

definition exchange :: "change_dir \<Rightarrow> string \<Rightarrow> string \<Rightarrow> bool act" where
  "exchange c staged name = chain next_fault (\<lambda>f d.
     (let p = cd_at c @ [staged]; q = cd_at c @ [name]
      in case f of
           Fails e \<Rightarrow> (Inl e, d)
         | Unsupported \<Rightarrow> (Inr False, d)
         | Works \<Rightarrow> (case (node_at d p, node_at d q) of
             (Some n, Some m) \<Rightarrow> (Inr True, put_node p m (put_node q n d))
           | _ \<Rightarrow> (Inl not_found, d))))"

text \<open>\<open>Trash::put\<close>: what is at the path, with everything below it, goes to the trash whole.\<close>

definition trash_at :: "path \<Rightarrow> string act" where
  "trash_at p = syscall (\<lambda>d. case (node_at d p, dk_places d) of
     (None, _) \<Rightarrow> (Inl not_found, d)
   | (_, []) \<Rightarrow> (Inl (tool_error TrashUnavailable ''no trash here''), d)
   | (Some n, w # ws) \<Rightarrow>
       (Inr w, d\<lparr>dk_nodes := filter (\<lambda>(k, _). \<not> starts_with k p) (dk_nodes d),
          dk_trash := (w, filter (\<lambda>(k, _). starts_with k p) (dk_nodes d)) # dk_trash d,
          dk_places := ws\<rparr>))"

definition trash_entry :: "change_dir \<Rightarrow> string \<Rightarrow> string act" where
  "trash_entry c name = trash_at (cd_at c @ [name])"

definition trash_staged :: "change_dir \<Rightarrow> string \<Rightarrow> string act" where
  "trash_staged c staged = trash_at (cd_at c @ [staged])"

definition make_dir :: "change_dir \<Rightarrow> string \<Rightarrow> nat \<Rightarrow> unit act" where
  "make_dir c name mode = syscall (\<lambda>d.
     if occupied d (cd_at c @ [name]) then (Inl exists_error, d)
     else (Inr (), put_node (cd_at c @ [name]) (new_node DirEntry (and mode 511) [] c d)
        (d\<lparr>dk_next := dk_next d + 1\<rparr>)))"

text \<open>\<open>remove_own\<close>: best effort, and only what lies at or below the name.\<close>

definition remove_own :: "change_dir \<Rightarrow> string \<Rightarrow> unit act" where
  "remove_own c name d = (Inr (), d\<lparr>dk_nodes :=
     filter (\<lambda>(k, _). \<not> starts_with k (cd_at c @ [name])) (dk_nodes d)\<rparr>)"

end
