(* ===== verification/Writer.thy ===== *)
theory Writer
  imports Disk Kinds ToolData
begin

text \<open>
  \<open>src/writer/mod.rs\<close>: the changes. \<open>writer_ctx\<close> is what a change finds: the reader's state as it
  is now (\<open>ChangeView\<close>), the limits, and what lies outside: the kernel's name for a folder, SHA-256,
  the diff of the \<open>similar\<close> crate, the documents of \<open>office\<close>, the modes of new files and folders.
  The checks and operations are those of Unix, where a program is told by its execute bit and its
  name. Each operation is a step on the disk.
\<close>

text \<open>A sheet of a workbook, as \<open>office\<close> takes it.\<close>

record sheet =
  st_name :: string
  st_rows :: "json list list"
  st_header :: bool

record writer_ctx =
  wx_env :: reader_env
  wx_view :: reader_state
  wx_limits :: limits
  wx_lower :: "string \<Rightarrow> string"
  wx_real :: "path \<Rightarrow> path option"
  wx_sha :: "string \<Rightarrow> string"
  wx_diff :: "string \<Rightarrow> string \<Rightarrow> string \<Rightarrow> nat list"
  wx_docx :: "string \<Rightarrow> tool_error + string"
  wx_xlsx :: "sheet list \<Rightarrow> tool_error + string"
  wx_file_mode :: nat
  wx_dir_mode :: nat

definition EDIT_MAX_BYTES :: nat where "EDIT_MAX_BYTES = 8 * 1024"
definition EDIT_ALWAYS_BYTES :: nat where "EDIT_ALWAYS_BYTES = 64"
definition MAX_DIFF_BYTES :: nat where "MAX_DIFF_BYTES = 32 * 1024"
definition MAX_DEPTH :: nat where "MAX_DEPTH = 64"

definition GIT_MARKERS :: "(string \<times> entry_kind) list" where
  "GIT_MARKERS = [(''HEAD'', FileEntry), (''objects'', DirEntry), (''refs'', DirEntry)]"

abbreviation quote :: char where "quote \<equiv> CHR 0x27"

text \<open>The curly quotes of two messages, in UTF-8.\<close>

abbreviation open_quote :: string where "open_quote \<equiv> [CHR 0xE2, CHR 0x80, CHR 0x9C]"
abbreviation close_quote :: string where "close_quote \<equiv> [CHR 0xE2, CHR 0x80, CHR 0x9D]"

section \<open>The view of the shared folders\<close>

definition root_with_identity :: "reader_state \<Rightarrow> nat \<times> nat \<Rightarrow> string \<Rightarrow> root_handle option" where
  "root_with_identity st i but =
     find (\<lambda>h. h_identity h = i) (filter (\<lambda>h. h_id h \<noteq> but) (st_roots st))"

definition view_writable :: "reader_state \<Rightarrow> string \<Rightarrow> bool" where
  "view_writable st i \<longleftrightarrow> list_ex (\<lambda>r. root_id r = i \<and> writable r) (st_configured st)"

definition view_root :: "reader_env \<Rightarrow> reader_state \<Rightarrow> string \<Rightarrow> tool_error + root_handle" where
  "view_root env st i = (case find (\<lambda>h. h_id h = i) (st_roots st) of
     Some h \<Rightarrow> Inr h
   | None \<Rightarrow>
       if list_ex (\<lambda>r. root_id r = i) (st_configured st)
       then Inl (tool_error NotFound ''this folder is not available on the computer right now'')
       else Inl (tool_error UnknownRoot (''no shared folder has the ID '' @ env_dbg env i
              @ ''; call roots for the IDs'')))"

section \<open>Refusals\<close>

definition read_only_inside :: "string \<Rightarrow> tool_error" where
  "read_only_inside label = tool_error NotWritable (''This path is inside '' @ open_quote @ label
     @ close_quote @ '', which is shared read-only. The person can allow changes for it in Chat with Work Desktop on their computer.'')"

definition not_writable :: "string \<Rightarrow> tool_error" where
  "not_writable label = tool_error NotWritable (''Changes aren'' @ [quote] @ ''t allowed in the shared folder ''
     @ open_quote @ label @ close_quote
     @ ''. The person can turn on Allow changes for it in Chat with Work Desktop on their computer.'')"

definition git_internals :: tool_error where
  "git_internals = denied (''This is Git'' @ [quote] @ ''s internals (a folder with HEAD, objects and refs), which cww never changes: Git runs what their settings say.'')"

definition holds_shared_folder :: tool_error where
  "holds_shared_folder = denied (''This folder is or holds a shared folder, so it can'' @ [quote]
     @ ''t be moved or deleted. The person can stop sharing that one first.'')"

definition too_deep :: tool_error where
  "too_deep = tool_error TooLarge (''The folder goes more than '' @ show_nat MAX_DEPTH
     @ '' levels deep, more than one change may move or delete.'')"

section \<open>Where a change may happen\<close>

definition check_denied :: "writer_ctx \<Rightarrow> path \<Rightarrow> tool_error + unit" where
  "check_denied wx p =
     (case denied_by (env_libs (wx_env wx)) (st_deny (wx_view wx)) p of
        Some pat \<Rightarrow> Inl (denied (''This path is on the deny list ('' @ pat @ ''), so it can'' @ [quote]
          @ ''t be read or changed.''))
      | None \<Rightarrow> (case denied_by (env_libs (wx_env wx)) (st_write_deny (wx_view wx)) p of
          Some pat \<Rightarrow> Inl (denied (''cww never changes this path ('' @ pat
            @ ''): a change there could make programs run on the computer.''))
        | None \<Rightarrow> Inr ()))"

definition check_nested :: "writer_ctx \<Rightarrow> root_handle \<Rightarrow> path \<Rightarrow> tool_error + unit" where
  "check_nested wx h p =
     (case find (\<lambda>r. starts_with (root_path r) (h_path h) \<and> starts_with p (root_path r))
             (filter (\<lambda>r. root_id r \<noteq> h_id h \<and> \<not> writable r) (st_configured (wx_view wx))) of
        Some r \<Rightarrow> Inl (read_only_inside (root_label r))
      | None \<Rightarrow> Inr ())"

text \<open>How many of the markers the folder holds, leaving out the one that folds to \<open>but\<close>.\<close>

fun count_markers ::
  "policy_libs \<Rightarrow> change_dir \<Rightarrow> nat list option \<Rightarrow> (string \<times> entry_kind) list \<Rightarrow> nat \<Rightarrow> nat act" where
  "count_markers u c but [] n = done_with n"
| "count_markers u c but ((name, k) # ms) n =
     (if but = Some (fold_name u name) then count_markers u c but ms n
      else chain (entry c name) (\<lambda>e. count_markers u c but ms
        (if map_option es_kind e = Some k then n + 1 else n)))"

definition git_markers :: "writer_ctx \<Rightarrow> change_dir \<Rightarrow> nat list option \<Rightarrow> nat act" where
  "git_markers wx c but = count_markers (env_libs (wx_env wx)) c but GIT_MARKERS 0"

definition real_place :: "writer_ctx \<Rightarrow> change_dir \<Rightarrow> path act" where
  "real_place wx c = (case wx_real wx (cd_at c) of
     Some p \<Rightarrow> done_with p
   | None \<Rightarrow> failed (internal (''can'' @ [quote] @ ''t tell where this folder really is, so nothing was changed'')))"

definition check_folder :: "writer_ctx \<Rightarrow> root_handle \<Rightarrow> change_dir \<Rightarrow> path act" where
  "check_folder wx h c =
     chain (real_place wx c) (\<lambda>real.
     chain (lift (check_denied wx real)) (\<lambda>_.
     (case root_with_identity (wx_view wx) (cd_identity c) (h_id h) of
        Some other \<Rightarrow> if \<not> view_writable (wx_view wx) (h_id other)
          then failed (read_only_inside (h_label other)) else
          chain (git_markers wx c None) (\<lambda>n.
            if n = length GIT_MARKERS then failed git_internals else done_with real)
      | None \<Rightarrow>
          chain (git_markers wx c None) (\<lambda>n.
            if n = length GIT_MARKERS then failed git_internals else done_with real))))"

fun walk_down ::
  "writer_ctx \<Rightarrow> root_handle \<Rightarrow> change_dir \<Rightarrow> path \<Rightarrow> rel_path \<Rightarrow> (change_dir \<times> path) act" where
  "walk_down wx h c real [] = done_with (c, real)"
| "walk_down wx h c real (piece # pieces) =
     chain (subdir c piece) (\<lambda>c'. chain (check_folder wx h c') (\<lambda>real'. walk_down wx h c' real' pieces))"

definition open_parent :: "writer_ctx \<Rightarrow> root_handle \<Rightarrow> rel_path \<Rightarrow> (change_dir \<times> path) act" where
  "open_parent wx h parent =
     chain (open_root (env_libs (wx_env wx)) (st_deny (wx_view wx)) h) (\<lambda>c. chain (check_folder wx h c) (\<lambda>real. walk_down wx h c real parent))"

record target =
  tg_tool_path :: string
  tg_name :: string
  tg_abs :: path
  tg_real :: path
  tg_dir :: change_dir

definition find_target :: "writer_ctx \<Rightarrow> string \<Rightarrow> target act" where
  "find_target wx s =
     chain (lift (env_parse (wx_env wx) s)) (\<lambda>p.
     chain (lift (view_root (wx_env wx) (wx_view wx) (tp_root p))) (\<lambda>h.
     chain (refuse_if (\<not> view_writable (wx_view wx) (h_id h)) (not_writable (h_label h))) (\<lambda>_.
     (case file_name (tp_rel p) of
        None \<Rightarrow> failed (invalid_path (''The shared folder itself can'' @ [quote]
          @ ''t be changed; name something inside it.''))
      | Some name \<Rightarrow>
          chain (lift (check_denied wx (handle_path h (tp_rel p)))) (\<lambda>_.
          chain (lift (check_nested wx h (handle_path h (tp_rel p)))) (\<lambda>_.
          chain (lift (rel_parse (env_windows (wx_env wx)) (as_string (butlast (tp_rel p))))) (\<lambda>parent.
          chain (map_failure (\<lambda>e. if code e = NotFound
                   then tool_error NotFound (''The folder '' @ display (h_id h) parent
                     @ '' doesn'' @ [quote] @ ''t exist. Make it with mkdir first.'')
                   else e)
                 (open_parent wx h parent)) (\<lambda>(c, real).
          chain (lift (check_denied wx (real @ [name]))) (\<lambda>_.
          (let folded = fold_name (env_libs (wx_env wx)) name;
               t = \<lparr>tg_tool_path = display (h_id h) (tp_rel p), tg_name = name,
                    tg_abs = handle_path h (tp_rel p), tg_real = real @ [name], tg_dir = c\<rparr>
           in if list_ex (\<lambda>(m, _). fold_name (env_libs (wx_env wx)) m = folded) GIT_MARKERS
              then chain (git_markers wx c (Some folded)) (\<lambda>n.
                     if n = length GIT_MARKERS - 1 then failed git_internals else done_with t)
              else done_with t)))))))))) "

section \<open>What may be changed\<close>

definition is_program :: "writer_ctx \<Rightarrow> string \<Rightarrow> entry_stat \<Rightarrow> bool" where
  "is_program wx name st \<longleftrightarrow> executable st
     \<or> (utf8_valid name \<and> is_executable_name (env_windows (wx_env wx)) (wx_lower wx) name)"

definition check_file :: "writer_ctx \<Rightarrow> target \<Rightarrow> entry_stat \<Rightarrow> bool \<Rightarrow> tool_error + unit" where
  "check_file wx t st trashing = (case es_kind st of
     DirEntry \<Rightarrow> Inl (tool_error NotAFile (tg_tool_path t @ '' is a folder.''))
   | SymlinkEntry \<Rightarrow> Inl (denied ''This path is a symlink, and cww never changes or follows links.'')
   | OtherEntry \<Rightarrow> Inl (denied ''Only regular files and folders can be changed.'')
   | FileEntry \<Rightarrow>
       if 1 < es_links st then Inl (denied (''This file has more than one hard link, so it is never changed: the other names could be outside the shared folder.''))
       else if \<not> trashing \<and> is_program wx (tg_name t) st
       then Inl (tool_error NotChangeable ''This file is executable, and cww never changes programs.'')
       else if es_foreign st
       then Inl (denied (''This file belongs to another user on this computer, so it isn'' @ [quote] @ ''t changed.''))
       else if es_readonly st \<and> \<not> trashing
       then Inl (denied (''This file is marked read-only on the computer, so it isn'' @ [quote] @ ''t changed.''))
       else Inr ())"

definition check_existing_file :: "writer_ctx \<Rightarrow> target \<Rightarrow> entry_stat \<Rightarrow> tool_error + unit" where
  "check_existing_file wx t st = check_file wx t st False"

definition check_sha :: "string option \<Rightarrow> string \<Rightarrow> tool_error + unit" where
  "check_sha expected actual = (case expected of
     Some e \<Rightarrow> if \<not> eq_ignore_ascii_case e actual
       then Inl (tool_error Conflict ''The file changed since it was checked (its SHA-256 is different), so nothing was changed. Look at it again.'')
       else Inr ()
   | None \<Rightarrow> Inr ())"

definition check_change :: "writer_ctx \<Rightarrow> nat \<Rightarrow> unit act" where
  "check_change wx bytes d = (case check_change_at (wx_limits wx) (dk_limiter d) bytes (dk_now d) of
     (r, w) \<Rightarrow> (r, d\<lparr>dk_limiter := w\<rparr>))"

definition max_bytes :: "writer_ctx \<Rightarrow> nat" where
  "max_bytes wx = max_change_file_bytes (st_limits (wx_view wx))"

section \<open>New and replaced files\<close>

definition create_file :: "writer_ctx \<Rightarrow> target \<Rightarrow> string \<Rightarrow> bool \<Rightarrow> change_result act" where
  "create_file wx t bytes dry =
     (let r = (change_result_new (tg_tool_path t) Created FileEntry dry)
            \<lparr>cr_size := Some (length bytes), cr_sha256 := Some (wx_sha wx bytes)\<rparr>
      in if dry then done_with r
         else chain (check_change wx (length bytes)) (\<lambda>_.
              chain (stage (tg_dir t) bytes (wx_file_mode wx)) (\<lambda>staged.
              chain (map_failure (\<lambda>e. if code e = Exists
                       then tool_error Exists (tg_tool_path t @ '' appeared while it was being created.'')
                       else e)
                     (commit (tg_dir t) staged (tg_name t))) (\<lambda>_.
              done_with (r\<lparr>cr_written := length bytes\<rparr>)))))"

definition in_trash :: "nat \<Rightarrow> string \<Rightarrow> change_result \<Rightarrow> change_result" where
  "in_trash written place r = r\<lparr>cr_trashed_to := Some place, cr_written := written,
     cr_previous := map_option (\<lambda>p. p\<lparr>pv_in_trash := True\<rparr>) (cr_previous r)\<rparr>"

definition replace_file ::
  "writer_ctx \<Rightarrow> target \<Rightarrow> entry_stat \<Rightarrow> string \<Rightarrow> change_result \<Rightarrow> change_result act" where
  "replace_file wx t old bytes r =
     chain (check_change wx (length bytes)) (\<lambda>_.
     (let c = tg_dir t; name = tg_name t;
          mode = (if es_mode old = 0 then wx_file_mode wx else and (es_mode old) 438)
      in chain (stage c bytes mode) (\<lambda>staged.
         chain (attempt (exchange c staged name)) (\<lambda>swapped. case swapped of
           Inr True \<Rightarrow>
             chain (attempt (trash_staged c staged)) (\<lambda>trashed. case trashed of
               Inr place \<Rightarrow> done_with (in_trash (length bytes) place r)
             | Inl e \<Rightarrow>
                 chain (attempt (exchange c staged name)) (\<lambda>back.
                   if back = Inr True then chain (discard c staged) (\<lambda>_. failed e) else failed e))
         | Inr False \<Rightarrow>
             chain (attempt (trash_entry c name)) (\<lambda>trashed. case trashed of
               Inl e \<Rightarrow> chain (discard c staged) (\<lambda>_. failed e)
             | Inr place \<Rightarrow>
                 chain (map_failure (\<lambda>e. tool_error (code e) (message e
                          @ '' The previous version is in the trash on the computer.''))
                        (commit c staged name)) (\<lambda>_.
                 done_with (in_trash (length bytes) place r)))
         | Inl e \<Rightarrow> chain (discard c staged) (\<lambda>_. failed e)))))"

text \<open>\<open>unified_diff\<close>, with the cut at a character boundary: \<open>wx_diff\<close> is the whole diff.\<close>

fun cut_at_bytes :: "nat \<Rightarrow> nat list \<Rightarrow> nat list" where
  "cut_at_bytes n [] = []"
| "cut_at_bytes n (c # cs) =
     (let k = length (utf8_encode_char c) in if n < k then [] else c # cut_at_bytes (n - k) cs)"

definition unified_diff :: "writer_ctx \<Rightarrow> string \<Rightarrow> string \<Rightarrow> string \<Rightarrow> nat list" where
  "unified_diff wx path old new =
     (let d = wx_diff wx path old new
      in if MAX_DIFF_BYTES < length (utf8_encode d)
         then cut_at_bytes MAX_DIFF_BYTES d @ [10, 0x2026] @ map of_char '' (the diff goes on)'' @ [10]
         else d)"

definition previous_of :: "writer_ctx \<Rightarrow> nat \<Rightarrow> entry_stat \<Rightarrow> string option \<Rightarrow> previous" where
  "previous_of wx n st sha = \<lparr>pv_size = n, pv_modified = env_format_time (wx_env wx) (es_modified st),
     pv_sha256 = sha, pv_in_trash = False\<rparr>"

definition finish_text_change ::
  "writer_ctx \<Rightarrow> target \<Rightarrow> entry_stat \<Rightarrow> string \<Rightarrow> string \<Rightarrow> string \<Rightarrow> effect \<Rightarrow> bool \<Rightarrow> change_result act" where
  "finish_text_change wx t st old_sha old new eff dry =
     (let r = (change_result_new (tg_tool_path t) eff FileEntry dry)
            \<lparr>cr_size := Some (length new), cr_sha256 := Some (wx_sha wx new),
             cr_previous := Some (previous_of wx (es_size st) st (Some old_sha))\<rparr>
      in if dry then done_with (r\<lparr>cr_diff := Some (unified_diff wx (tg_tool_path t) old new)\<rparr>)
         else replace_file wx t st new r)"

section \<open>The text tools\<close>

record create_request =
  cq_path :: string
  cq_content :: string
  cq_dry_run :: bool

datatype write_mode = Replace | Append

record write_request =
  wq_path :: string
  wq_content :: string
  wq_mode :: write_mode
  wq_expected_sha256 :: "string option"
  wq_dry_run :: bool

record edit_request =
  eq_path :: string
  eq_old_text :: string
  eq_new_text :: string
  eq_expected_sha256 :: "string option"
  eq_dry_run :: bool

abbreviation new_name_ok :: "writer_ctx \<Rightarrow> string \<Rightarrow> unit act" where
  "new_name_ok wx name \<equiv> lift (check_new_name (env_windows (wx_env wx)) (wx_lower wx) name)"

abbreviation text_name_ok :: "writer_ctx \<Rightarrow> string \<Rightarrow> unit act" where
  "text_name_ok wx name \<equiv> lift (check_text_name (env_windows (wx_env wx)) (wx_lower wx) name)"

abbreviation text_ok :: "writer_ctx \<Rightarrow> string \<Rightarrow> unit act" where
  "text_ok wx s \<equiv> lift (check_text s (max_bytes wx))"

definition create :: "writer_ctx \<Rightarrow> create_request \<Rightarrow> change_result act" where
  "create wx q =
     chain (find_target wx (cq_path q)) (\<lambda>t.
     chain (new_name_ok wx (tg_name t)) (\<lambda>_.
     chain (text_name_ok wx (tg_name t)) (\<lambda>_.
     chain (text_ok wx (cq_content q)) (\<lambda>_.
     chain (entry (tg_dir t) (tg_name t)) (\<lambda>e.
     chain (refuse_if (e \<noteq> None) (tool_error Exists (tg_tool_path t
              @ '' already exists. Use write to replace a file, or pick another name.''))) (\<lambda>_.
     create_file wx t (cq_content q) (cq_dry_run q)))))))"

text \<open>What \<open>write\<close> and \<open>edit\<close> do once something is there: its text, checked twice.\<close>

definition existing_text ::
  "writer_ctx \<Rightarrow> target \<Rightarrow> entry_stat \<Rightarrow> string option \<Rightarrow> (string \<times> entry_stat \<times> string) act" where
  "existing_text wx t st expected =
     chain (lift (check_existing_file wx t st)) (\<lambda>_.
     chain (read_file (tg_dir t) (tg_name t) (max_bytes wx)) (\<lambda>(bytes, st).
     chain (lift (check_existing_file wx t st)) (\<lambda>_.
     (let sha = wx_sha wx bytes
      in chain (lift (check_sha expected sha)) (\<lambda>_.
         chain (lift (as_text bytes (tg_name t))) (\<lambda>old. done_with (sha, st, old)))))))"

definition write_text :: "writer_ctx \<Rightarrow> write_request \<Rightarrow> change_result act" where
  "write_text wx q =
     chain (find_target wx (wq_path q)) (\<lambda>t.
     chain (text_name_ok wx (tg_name t)) (\<lambda>_.
     chain (text_ok wx (wq_content q)) (\<lambda>_.
     chain (entry (tg_dir t) (tg_name t)) (\<lambda>e. case e of
       None \<Rightarrow>
         chain (new_name_ok wx (tg_name t)) (\<lambda>_.
         chain (refuse_if (wq_expected_sha256 q \<noteq> None) (tool_error Conflict (tg_tool_path t
                  @ '' doesn'' @ [quote] @ ''t exist any more.''))) (\<lambda>_.
         create_file wx t (wq_content q) (wq_dry_run q)))
     | Some st \<Rightarrow>
         chain (existing_text wx t st (wq_expected_sha256 q)) (\<lambda>(sha, st, old).
         (let (new, eff) = (case wq_mode q of
                Replace \<Rightarrow> (wq_content q, Replaced)
              | Append \<Rightarrow> (old @ wq_content q, Appended))
          in chain (text_ok wx new) (\<lambda>_.
             finish_text_change wx t st sha old new eff (wq_dry_run q))))))))"

section \<open>Editing one span\<close>

text \<open>\<open>str::matches\<close> counted, and \<open>str::replacen\<close> once; the pattern is never empty here.\<close>

function count_matches :: "'a list \<Rightarrow> 'a list \<Rightarrow> nat" where
  "count_matches pat s =
     (if s = [] \<or> pat = [] then 0
      else if starts_with s pat then 1 + count_matches pat (drop (length pat) s)
      else count_matches pat (tl s))"
  by pat_completeness auto
termination by (relation "measure (\<lambda>(pat, s). length s)") auto

declare count_matches.simps [simp del]

fun replace_first :: "'a list \<Rightarrow> 'a list \<Rightarrow> 'a list \<Rightarrow> 'a list" where
  "replace_first pat to [] = (if pat = [] then to else [])"
| "replace_first pat to (x # xs) =
     (if starts_with (x # xs) pat then to @ drop (length pat) (x # xs)
      else x # replace_first pat to xs)"

definition crlf :: "string \<Rightarrow> string" where
  "crlf s = concat (map (\<lambda>c. if c = CHR 0x0A then [CHR 0x0D, CHR 0x0A] else [c]) s)"

definition edit_span :: "string \<Rightarrow> string \<Rightarrow> string \<Rightarrow> string \<times> string" where
  "edit_span old from to =
     (if count_matches from old = 0 \<and> contains_sub old [CHR 0x0D, CHR 0x0A] \<and> CHR 0x0D \<notin> set from
      then (crlf from, crlf to) else (from, to))"

definition edit_text :: "string \<Rightarrow> string \<Rightarrow> string \<Rightarrow> tool_error + string" where
  "edit_text old old_text new_text =
     (case edit_span old old_text new_text of (from, to) \<Rightarrow>
        if EDIT_ALWAYS_BYTES < length from
          \<and> (EDIT_MAX_BYTES < length from \<or> length old < wrap (length from * 2))
        then Inl (invalid_argument (''old_text is '' @ show_nat (length from) @ '' bytes, ''
               @ (if EDIT_MAX_BYTES < length from then ''more than '' @ show_nat EDIT_MAX_BYTES @ '' bytes''
                  else ''more than half the file'')
               @ '': edit changes a smaller part of a file. Use write to replace the file'' @ [quote] @ ''s content.''))
        else if count_matches from old = 0
        then Inl (invalid_argument ''old_text was not found in the file. Read the file again and quote the text exactly, whitespace included.'')
        else if count_matches from old \<noteq> 1
        then Inl (invalid_argument (''old_text appears '' @ show_nat (count_matches from old)
               @ '' times in the file. Include more of the surrounding text so it matches once.''))
        else Inr (replace_first from to old))"

definition edit :: "writer_ctx \<Rightarrow> edit_request \<Rightarrow> change_result act" where
  "edit wx q =
     chain (refuse_if (eq_old_text q = [])
              (invalid_argument ''old_text is empty. Quote the exact text to replace.'')) (\<lambda>_.
     chain (refuse_if (eq_old_text q = eq_new_text q)
              (invalid_argument ''old_text and new_text are the same, so there is nothing to change.'')) (\<lambda>_.
     chain (find_target wx (eq_path q)) (\<lambda>t.
     chain (text_name_ok wx (tg_name t)) (\<lambda>_.
     chain (text_ok wx (eq_new_text q)) (\<lambda>_.
     chain (entry (tg_dir t) (tg_name t)) (\<lambda>e. case e of
       None \<Rightarrow> failed (tool_error NotFound (tg_tool_path t @ '' doesn'' @ [quote] @ ''t exist.''))
     | Some st \<Rightarrow>
         chain (existing_text wx t st (eq_expected_sha256 q)) (\<lambda>(sha, st, old).
         chain (lift (edit_text old (eq_old_text q) (eq_new_text q))) (\<lambda>new.
         chain (text_ok wx new) (\<lambda>_.
         finish_text_change wx t st sha old new Edited (eq_dry_run q))))))))))"

section \<open>Documents\<close>

record document_request =
  dq_path :: string
  dq_content :: "string option"
  dq_sheets :: "sheet list option"
  dq_replace :: bool
  dq_dry_run :: bool

datatype document_kind = Docx | Xlsx

definition document_kind :: "(string \<Rightarrow> string) \<Rightarrow> string \<Rightarrow> document_kind option" where
  "document_kind lower name = (case extension lower name of
     Some e \<Rightarrow> if e = ''docx'' then Some Docx else if e = ''xlsx'' then Some Xlsx else None
   | None \<Rightarrow> None)"

definition document_bytes :: "writer_ctx \<Rightarrow> string \<Rightarrow> document_request \<Rightarrow> tool_error + string" where
  "document_bytes wx name q = (case document_kind (wx_lower wx) name of
     Some Docx \<Rightarrow>
       if dq_sheets q \<noteq> None
       then Inl (invalid_argument ''A .docx takes content (Markdown), not sheets.'')
       else (case dq_content q of
         None \<Rightarrow> Inl (invalid_argument ''A .docx needs content: the document in Markdown.'')
       | Some s \<Rightarrow> (case check_text s (max_bytes wx) of Inl e \<Rightarrow> Inl e | Inr _ \<Rightarrow> wx_docx wx s))
   | Some Xlsx \<Rightarrow>
       if dq_content q \<noteq> None then Inl (invalid_argument ''An .xlsx takes sheets, not content.'')
       else (case dq_sheets q of
         None \<Rightarrow> Inl (invalid_argument ''An .xlsx needs sheets: each a name and rows of cells.'')
       | Some s \<Rightarrow> wx_xlsx wx s)
   | None \<Rightarrow> Inl (invalid_argument ''create_document makes Word (.docx) and Excel (.xlsx) files; end the path with one of those.''))"

definition create_document :: "writer_ctx \<Rightarrow> document_request \<Rightarrow> change_result act" where
  "create_document wx q =
     chain (find_target wx (dq_path q)) (\<lambda>t.
     chain (lift (document_bytes wx (tg_name t) q)) (\<lambda>bytes.
     chain (new_name_ok wx (tg_name t)) (\<lambda>_.
     chain (refuse_if (max_bytes wx < length bytes) (tool_error TooLarge
              (''The document would be '' @ show_nat (length bytes) @ '' bytes; files up to ''
               @ show_nat (max_bytes wx) @ '' bytes can be changed.''))) (\<lambda>_.
     chain (entry (tg_dir t) (tg_name t)) (\<lambda>e. case e of
       None \<Rightarrow> create_file wx t bytes (dq_dry_run q)
     | Some st \<Rightarrow>
         chain (refuse_if (\<not> dq_replace q) (tool_error Exists (tg_tool_path t
                  @ '' already exists. Pass replace: true to move it to the trash and write a new document in its place.''))) (\<lambda>_.
         chain (lift (check_existing_file wx t st)) (\<lambda>_.
         (let r = (change_result_new (tg_tool_path t) Replaced FileEntry (dq_dry_run q))
                \<lparr>cr_size := Some (length bytes), cr_sha256 := Some (wx_sha wx bytes),
                 cr_previous := Some (previous_of wx (es_size st) st None)\<rparr>
          in if dq_dry_run q then done_with r else replace_file wx t st bytes r))))))))"

section \<open>Folders\<close>

record mkdir_request =
  mq_path :: string
  mq_parents :: bool
  mq_dry_run :: bool

definition make_one :: "writer_ctx \<Rightarrow> string \<Rightarrow> bool \<Rightarrow> change_result act" where
  "make_one wx path dry =
     chain (find_target wx path) (\<lambda>t.
     chain (new_name_ok wx (tg_name t)) (\<lambda>_.
     (let r = change_result_new (tg_tool_path t) CreatedFolder DirEntry dry
      in chain (entry (tg_dir t) (tg_name t)) (\<lambda>e. case e of
           Some st \<Rightarrow>
             if es_kind st = DirEntry then done_with (r\<lparr>cr_effect := Unchanged\<rparr>)
             else failed (tool_error Exists (tg_tool_path t @ '' already exists and isn'' @ [quote] @ ''t a folder.''))
         | None \<Rightarrow>
             if dry then done_with r
             else chain (check_change wx 0) (\<lambda>_.
                  chain (make_dir (tg_dir t) (tg_name t) (wx_dir_mode wx)) (\<lambda>_. done_with r))))))"

text \<open>The checks of everything below the first missing folder.\<close>

fun check_ahead :: "writer_ctx \<Rightarrow> root_handle \<Rightarrow> rel_path \<Rightarrow> path \<Rightarrow> rel_path \<Rightarrow> tool_error + unit" where
  "check_ahead wx h rel ahead [] = Inr ()"
| "check_ahead wx h rel ahead (p # ps) =
     (case check_denied wx (handle_path h (rel @ [p])) of
        Inl e \<Rightarrow> Inl e
      | Inr _ \<Rightarrow> (case check_denied wx (ahead @ [p]) of
          Inl e \<Rightarrow> Inl e
        | Inr _ \<Rightarrow> check_ahead wx h (rel @ [p]) (ahead @ [p]) ps))"

fun new_names_ok :: "writer_ctx \<Rightarrow> rel_path \<Rightarrow> tool_error + unit" where
  "new_names_ok wx [] = Inr ()"
| "new_names_ok wx (p # ps) =
     (case check_new_name (env_windows (wx_env wx)) (wx_lower wx) p of
        Inl e \<Rightarrow> Inl e | Inr _ \<Rightarrow> new_names_ok wx ps)"

text \<open>Down the path to the first folder that is missing: the folder before it and what is missing.\<close>

fun find_missing ::
  "writer_ctx \<Rightarrow> root_handle \<Rightarrow> change_dir \<Rightarrow> path \<Rightarrow> rel_path \<Rightarrow> rel_path \<Rightarrow> (change_dir \<times> rel_path) act" where
  "find_missing wx h c real rel [] = done_with (c, [])"
| "find_missing wx h c real rel (p # ps) =
     chain (lift (check_denied wx (handle_path h (rel @ [p])))) (\<lambda>_.
     chain (lift (check_nested wx h (handle_path h (rel @ [p])))) (\<lambda>_.
     chain (lift (check_denied wx (real @ [p]))) (\<lambda>_.
     chain (entry c p) (\<lambda>e. case e of
       Some st \<Rightarrow>
         if es_kind st = DirEntry
         then chain (subdir c p) (\<lambda>c'. chain (check_folder wx h c') (\<lambda>real'.
                find_missing wx h c' real' (rel @ [p]) ps))
         else failed (tool_error Exists (display (h_id h) (rel @ [p])
                @ '' already exists and isn'' @ [quote] @ ''t a folder.''))
     | None \<Rightarrow>
         chain (lift (new_names_ok wx (p # ps))) (\<lambda>_.
         chain (lift (check_ahead wx h (rel @ [p]) (real @ [p]) ps)) (\<lambda>_.
         done_with (c, p # ps)))))))"

fun make_dirs :: "writer_ctx \<Rightarrow> change_dir \<Rightarrow> rel_path \<Rightarrow> unit act" where
  "make_dirs wx c [] = done_with ()"
| "make_dirs wx c (p # ps) =
     chain (make_dir c p (wx_dir_mode wx)) (\<lambda>_. chain (subdir c p) (\<lambda>c'. make_dirs wx c' ps))"

definition make_parents :: "writer_ctx \<Rightarrow> string \<Rightarrow> bool \<Rightarrow> change_result act" where
  "make_parents wx path dry =
     chain (lift (env_parse (wx_env wx) path)) (\<lambda>p.
     chain (lift (view_root (wx_env wx) (wx_view wx) (tp_root p))) (\<lambda>h.
     chain (refuse_if (\<not> view_writable (wx_view wx) (h_id h)) (not_writable (h_label h))) (\<lambda>_.
     chain (refuse_if (is_root (tp_rel p)) (invalid_path (''The shared folder itself can'' @ [quote]
              @ ''t be changed; name something inside it.''))) (\<lambda>_.
     chain (open_root (env_libs (wx_env wx)) (st_deny (wx_view wx)) h) (\<lambda>c.
     chain (check_folder wx h c) (\<lambda>real.
     chain (find_missing wx h c real [] (tp_rel p)) (\<lambda>(c, missing).
     (let r = (change_result_new (display (h_id h) (tp_rel p))
                (if missing = [] then Unchanged else CreatedFolder) DirEntry dry)
            \<lparr>cr_entries := (if missing = [] then None else Some (length missing))\<rparr>
      in if dry \<or> missing = [] then done_with r
         else chain (check_change wx 0) (\<lambda>_. chain (make_dirs wx c missing) (\<lambda>_. done_with r)))))))))) "

definition mkdir :: "writer_ctx \<Rightarrow> mkdir_request \<Rightarrow> change_result act" where
  "mkdir wx q = (if mq_parents q then make_parents wx (mq_path q) (mq_dry_run q)
     else make_one wx (mq_path q) (mq_dry_run q))"

section \<open>Folders moved or deleted\<close>

record tree =
  tr_entries :: nat
  tr_bytes :: nat
  tr_uncopyable :: bool

definition no_tree :: tree where
  "no_tree = \<lparr>tr_entries = 0, tr_bytes = 0, tr_uncopyable = False\<rparr>"

text \<open>One step after another over a list.\<close>

fun each :: "('x \<Rightarrow> 's \<Rightarrow> 's act) \<Rightarrow> 'x list \<Rightarrow> 's \<Rightarrow> 's act" where
  "each f [] s = done_with s"
| "each f (x # xs) s = chain (f x s) (each f xs)"

definition check_contents :: "writer_ctx \<Rightarrow> path \<Rightarrow> tool_error + unit" where
  "check_contents wx p =
     (case denied_by (env_libs (wx_env wx)) (st_deny (wx_view wx)) p of
        Some pat \<Rightarrow> Inl (denied (''The folder holds something on the deny list ('' @ pat
          @ ''), so it can'' @ [quote] @ ''t be moved or deleted.''))
      | None \<Rightarrow> (case denied_by (env_libs (wx_env wx)) (st_write_deny (wx_view wx)) p of
          Some pat \<Rightarrow> Inl (denied (''The folder holds something cww never changes ('' @ pat
            @ ''), or would put something there, so it can'' @ [quote] @ ''t be moved or deleted.''))
        | None \<Rightarrow> Inr ()))"

text \<open>
  The first argument is how many levels may still be opened, \<open>MAX_DEPTH - depth\<close>: at none the code
  refuses.
\<close>

primrec inspect_tree ::
  "nat \<Rightarrow> writer_ctx \<Rightarrow> change_dir \<Rightarrow> (path \<times> path) option \<Rightarrow> tree \<Rightarrow> tree act" where
  "inspect_tree 0 wx c dest tree = failed too_deep"
| "inspect_tree (Suc n) wx c dest tree =
     chain (git_markers wx c None) (\<lambda>k.
     chain (refuse_if (k = length GIT_MARKERS) git_internals) (\<lambda>_.
     chain (real_place wx c) (\<lambda>real.
     chain (entries c) (\<lambda>es.
     each (\<lambda>(name, st) tree.
       (let tree = tree\<lparr>tr_entries := tr_entries tree + 1\<rparr>;
            dest = map_option (\<lambda>(a, r). (a @ [name], r @ [name])) dest
        in chain (refuse_if (max_change_entries (st_limits (wx_view wx)) < tr_entries tree)
                    (tool_error TooLarge (''The folder holds more than ''
                       @ show_nat (max_change_entries (st_limits (wx_view wx)))
                       @ '' files and folders, more than one change may move or delete.''))) (\<lambda>_.
           chain (each (\<lambda>p _. lift (check_contents wx p))
                    ([cd_path c @ [name], real @ [name]]
                     @ (case dest of None \<Rightarrow> [] | Some (a, r) \<Rightarrow> [a, r])) ()) (\<lambda>_.
           (case es_kind st of
              DirEntry \<Rightarrow>
                chain (refuse_if (root_with_identity (wx_view wx) (es_identity st) [] \<noteq> None)
                         holds_shared_folder) (\<lambda>_.
                chain (subdir c name) (\<lambda>sub. inspect_tree n wx sub dest tree))
            | FileEntry \<Rightarrow> done_with (tree\<lparr>tr_bytes := wrap (tr_bytes tree + es_size st),
                tr_uncopyable := tr_uncopyable tree \<or> 1 < es_links st \<or> \<not> utf8_valid name
                  \<or> is_program wx name st\<rparr>)
            | _ \<Rightarrow> done_with (tree\<lparr>tr_uncopyable := True\<rparr>))))))
       es tree))))"

definition check_source ::
  "writer_ctx \<Rightarrow> target \<Rightarrow> bool \<Rightarrow> target option \<Rightarrow> (entry_stat \<times> tree option) act" where
  "check_source wx t deleting dest =
     chain (entry (tg_dir t) (tg_name t)) (\<lambda>e. case e of
       None \<Rightarrow> failed (tool_error NotFound (tg_tool_path t @ '' doesn'' @ [quote] @ ''t exist.''))
     | Some st \<Rightarrow> (case es_kind st of
         FileEntry \<Rightarrow> chain (lift (check_file wx t st deleting)) (\<lambda>_. done_with (st, None))
       | DirEntry \<Rightarrow>
           chain (refuse_if (es_foreign st) (denied (''This folder belongs to another user on this computer, so it isn''
                    @ [quote] @ ''t changed.''))) (\<lambda>_.
           chain (refuse_if (list_ex (\<lambda>r. starts_with (root_path r) (tg_abs t)) (st_configured (wx_view wx))
                      \<or> root_with_identity (wx_view wx) (es_identity st) [] \<noteq> None)
                    holds_shared_folder) (\<lambda>_.
           chain (subdir (tg_dir t) (tg_name t)) (\<lambda>sub.
           chain (inspect_tree (MAX_DEPTH - 1) wx sub
                    (map_option (\<lambda>d. (tg_abs d, tg_real d)) dest) no_tree) (\<lambda>tree.
           done_with (st, Some tree)))))
       | SymlinkEntry \<Rightarrow> failed (denied ''This path is a symlink, and cww never changes or follows links.'')
       | OtherEntry \<Rightarrow> failed (denied ''Only regular files and folders can be changed.'')))"

section \<open>Deleting\<close>

definition delete :: "writer_ctx \<Rightarrow> string \<Rightarrow> bool \<Rightarrow> change_result act" where
  "delete wx path dry =
     chain (find_target wx path) (\<lambda>t.
     chain (check_source wx t True None) (\<lambda>(st, tree).
     (let size = (case tree of None \<Rightarrow> es_size st | Some tr \<Rightarrow> tr_bytes tr);
          r = (change_result_new (tg_tool_path t) Trashed (es_kind st) dry)
            \<lparr>cr_entries := map_option tr_entries tree,
             cr_previous := Some (previous_of wx size st None)\<rparr>
      in if dry then done_with r
         else chain (check_change wx 0) (\<lambda>_.
              chain (trash_entry (tg_dir t) (tg_name t)) (\<lambda>place.
              done_with (in_trash 0 place r))))))"

section \<open>Moving\<close>

record move_request =
  vq_from :: string
  vq_to :: string
  vq_replace :: bool
  vq_dry_run :: bool

primrec copy_tree :: "nat \<Rightarrow> writer_ctx \<Rightarrow> change_dir \<Rightarrow> change_dir \<Rightarrow> unit act" where
  "copy_tree 0 wx from to = failed too_deep"
| "copy_tree (Suc n) wx from to =
     chain (entries from) (\<lambda>es.
     each (\<lambda>(name, st) _. case es_kind st of
       FileEntry \<Rightarrow>
         if 1 < es_links st \<or> is_program wx name st
         then failed (tool_error NotChangeable (''The folder holds programs or files with more than one hard link, so it can''
                @ [quote] @ ''t be moved to another drive.''))
         else chain (read_file from name (max_bytes wx)) (\<lambda>(bytes, rd).
              chain (stage to bytes (and (es_mode rd) 438)) (\<lambda>staged. commit to staged name))
     | DirEntry \<Rightarrow>
         chain (make_dir to name (if es_mode st = 0 then wx_dir_mode wx else and (es_mode st) 511)) (\<lambda>_.
         chain (subdir from name) (\<lambda>f. chain (subdir to name) (\<lambda>t. copy_tree n wx f t)))
     | _ \<Rightarrow> failed (tool_error NotChangeable (''The folder holds links or special files, so it can''
              @ [quote] @ ''t be moved to another drive.'')))
       es ())"

definition appeared :: "target \<Rightarrow> tool_error" where
  "appeared dst = tool_error Exists (tg_tool_path dst @ '' appeared while moving.'')"

definition copy_across :: "writer_ctx \<Rightarrow> target \<Rightarrow> target \<Rightarrow> entry_stat \<Rightarrow> unit act" where
  "copy_across wx src dst st =
     (let sd = tg_dir src; dd = tg_dir dst
      in chain (case es_kind st of
           FileEntry \<Rightarrow>
             chain (read_file sd (tg_name src) (max_bytes wx)) (\<lambda>(bytes, rd).
             chain (refuse_if (es_identity rd \<noteq> es_identity st)
                      (tool_error Conflict ''The file changed while it was being moved. Try again.'')) (\<lambda>_.
             chain (stage dd bytes (and (es_mode st) 438)) (\<lambda>staged.
             commit dd staged (tg_name dst))))
         | _ \<Rightarrow>
             chain temp_name (\<lambda>temp.
             chain (make_dir dd temp (wx_dir_mode wx)) (\<lambda>_.
             chain (attempt (chain (subdir sd (tg_name src)) (\<lambda>from.
                             chain (subdir dd temp) (\<lambda>to.
                             chain (copy_tree (MAX_DEPTH - 1) wx from to) (\<lambda>_.
                             chain (rename_to dd temp dd (tg_name dst)) (\<lambda>r. case r of
                               Inr _ \<Rightarrow> done_with ()
                             | Inl AlreadyExists \<Rightarrow> failed (appeared dst)
                             | Inl CrossDevice \<Rightarrow> failed (internal ''the copy landed on another drive'')
                             | Inl (OtherError e) \<Rightarrow> failed e))))))
               (\<lambda>copied. case copied of
                  Inr _ \<Rightarrow> done_with ()
                | Inl e \<Rightarrow> chain (remove_own dd temp) (\<lambda>_. failed e)))))
         (\<lambda>_. chain (attempt (trash_entry sd (tg_name src))) (\<lambda>trashed. case trashed of
            Inr _ \<Rightarrow> done_with ()
          | Inl e \<Rightarrow> chain (remove_own dd (tg_name dst)) (\<lambda>_. failed e))))"

definition move_into_place ::
  "writer_ctx \<Rightarrow> target \<Rightarrow> target \<Rightarrow> entry_stat \<Rightarrow> nat \<Rightarrow> change_result \<Rightarrow> change_result act" where
  "move_into_place wx src dst st bytes r =
     chain (rename_to (tg_dir src) (tg_name src) (tg_dir dst) (tg_name dst)) (\<lambda>moved. case moved of
       Inr _ \<Rightarrow> done_with r
     | Inl CrossDevice \<Rightarrow> chain (copy_across wx src dst st) (\<lambda>_. done_with (r\<lparr>cr_written := bytes\<rparr>))
     | Inl AlreadyExists \<Rightarrow> failed (appeared dst)
     | Inl (OtherError e) \<Rightarrow> failed e)"

definition check_replaced ::
  "writer_ctx \<Rightarrow> target \<Rightarrow> entry_stat \<Rightarrow> entry_stat option \<Rightarrow> bool \<Rightarrow> tool_error + unit" where
  "check_replaced wx dst st existing replace = (case existing of
     None \<Rightarrow> Inr ()
   | Some e \<Rightarrow>
       if \<not> replace then Inl (tool_error Exists (tg_tool_path dst
              @ '' already exists. Pass replace: true to move it to the trash and put this in its place.''))
       else if es_kind e \<noteq> FileEntry \<or> es_kind st \<noteq> FileEntry
       then Inl (tool_error Exists (tg_tool_path dst @ '' already exists. Only a file can replace a file.''))
       else check_existing_file wx dst e)"

definition move_result ::
  "writer_ctx \<Rightarrow> target \<Rightarrow> target \<Rightarrow> entry_stat \<Rightarrow> tree option \<Rightarrow> entry_stat option \<Rightarrow> bool \<Rightarrow> change_result" where
  "move_result wx src dst st tree existing dry =
     (change_result_new (tg_tool_path dst) Moved (es_kind st) dry)
       \<lparr>cr_from := Some (tg_tool_path src),
        cr_entries := map_option tr_entries tree,
        cr_size := (if es_kind st = FileEntry then Some (es_size st) else None),
        cr_previous := map_option (\<lambda>e. previous_of wx (es_size e) e None) existing\<rparr>"

definition move_entry :: "writer_ctx \<Rightarrow> move_request \<Rightarrow> change_result act" where
  "move_entry wx q =
     chain (find_target wx (vq_from q)) (\<lambda>src.
     chain (find_target wx (vq_to q)) (\<lambda>dst.
     chain (refuse_if (tg_abs src = tg_abs dst) (invalid_argument ''from and to are the same path.'')) (\<lambda>_.
     chain (check_source wx src False (Some dst)) (\<lambda>(st, tree).
     chain (refuse_if (es_kind st = DirEntry \<and> starts_with (tg_abs dst) (tg_abs src))
              (invalid_argument (''A folder can'' @ [quote] @ ''t be moved into itself.''))) (\<lambda>_.
     chain (new_name_ok wx (tg_name dst)) (\<lambda>_.
     chain (entry (tg_dir dst) (tg_name dst)) (\<lambda>there.
     (let existing = (case there of Some e \<Rightarrow> if es_identity e = es_identity st then None else Some e
                      | None \<Rightarrow> None);
          r = move_result wx src dst st tree existing (vq_dry_run q);
          bytes = (case tree of None \<Rightarrow> es_size st | Some tr \<Rightarrow> tr_bytes tr);
          across = (device (tg_dir src) \<noteq> device (tg_dir dst))
      in chain (lift (check_replaced wx dst st existing (vq_replace q))) (\<lambda>_.
         chain (refuse_if (across \<and> (case tree of Some tr \<Rightarrow> tr_uncopyable tr | None \<Rightarrow> False))
                  (tool_error NotChangeable (''This folder holds links, special files or programs, so it can''
                     @ [quote] @ ''t be moved to another drive. It can be moved within its drive.''))) (\<lambda>_.
         chain (refuse_if (across \<and> max_bytes wx < bytes \<and> tree = None)
                  (tool_error TooLarge (''The file is '' @ show_nat bytes @ '' bytes; moving it to another drive copies it, and files up to ''
                     @ show_nat (max_bytes wx) @ '' bytes can be copied.''))) (\<lambda>_.
         if vq_dry_run q then done_with r
         else chain (check_change wx (if across then bytes else 0)) (\<lambda>_.
              case existing of
                None \<Rightarrow> move_into_place wx src dst st bytes r
              | Some _ \<Rightarrow> chain (trash_entry (tg_dir dst) (tg_name dst)) (\<lambda>place.
                  move_into_place wx src dst st bytes (in_trash 0 place r))))))))))))))"

end
