(* ===== verification/DiskFacts.thy ===== *)
theory DiskFacts
  imports Disk
begin

text \<open>
  Reasoning about changes. \<open>triple\<close> is a Hoare triple for steps that may fail, with what holds after
  a failure as its last argument. \<open>quiet\<close> steps only look. \<open>safe d0 W R\<close> says that everything the
  disk \<open>d0\<close> held is still there, outside the region \<open>R\<close> or in the trash, so that what lies in \<open>R\<close>
  may be thrown away, and that nothing outside \<open>W\<close> has changed. Every operation on the disk has its
  rule for \<open>safe\<close>.
\<close>

named_theorems quiet_intros \<open>steps that only look\<close>

section \<open>Triples\<close>

definition triple ::
  "(disk \<Rightarrow> bool) \<Rightarrow> 'a act \<Rightarrow> ('a \<Rightarrow> disk \<Rightarrow> bool) \<Rightarrow> (disk \<Rightarrow> bool) \<Rightarrow> bool" where
  "triple P m Q E \<longleftrightarrow> (\<forall>d. P d \<longrightarrow> (case m d of (Inl e, d') \<Rightarrow> E d' | (Inr x, d') \<Rightarrow> Q x d'))"

lemma tripleI:
  assumes "\<And>d e d'. P d \<Longrightarrow> m d = (Inl e, d') \<Longrightarrow> E d'" and "\<And>d x d'. P d \<Longrightarrow> m d = (Inr x, d') \<Longrightarrow> Q x d'"
  shows "triple P m Q E"
  unfolding triple_def
proof (intro allI impI)
  fix d assume "P d"
  obtain r d' where m: "m d = (r, d')" by (cases "m d") auto
  then show "case m d of (Inl e, d') \<Rightarrow> E d' | (Inr x, d') \<Rightarrow> Q x d'"
    using assms [OF \<open>P d\<close>] by (cases r) auto
qed

lemma tripleE: "triple P m Q E \<Longrightarrow> P d \<Longrightarrow> m d = (Inl e, d') \<Longrightarrow> E d'"
  by (auto simp: triple_def dest!: spec [of _ d])

lemma tripleQ: "triple P m Q E \<Longrightarrow> P d \<Longrightarrow> m d = (Inr x, d') \<Longrightarrow> Q x d'"
  by (auto simp: triple_def dest!: spec [of _ d])

lemma triple_end: "triple P m (\<lambda>_. E) E \<Longrightarrow> P d \<Longrightarrow> E (snd (m d))"
  by (cases "m d"; cases "fst (m d)") (auto dest: tripleE tripleQ)

lemma triple_chain:
  assumes m: "triple P m Q E" and f: "\<And>x. triple (Q x) (f x) S E"
  shows "triple P (chain m f) S E"
proof (rule tripleI)
  fix d e d' assume d: "P d" "chain m f d = (Inl e, d')"
  obtain r d1 where r: "m d = (r, d1)" by (cases "m d") auto
  show "E d'" using d r tripleE [OF m d(1)] tripleQ [OF m d(1)] tripleE [OF f]
    by (cases r) (auto simp: chain_def)
next
  fix d x d' assume d: "P d" "chain m f d = (Inr x, d')"
  obtain r d1 where r: "m d = (r, d1)" by (cases "m d") auto
  show "S x d'" using d r tripleQ [OF m d(1)] tripleQ [OF f]
    by (cases r) (auto simp: chain_def)
qed

lemma triple_weaken:
  assumes "triple P' m Q' E'" "\<And>d. P d \<Longrightarrow> P' d" "\<And>x d. Q' x d \<Longrightarrow> Q x d" "\<And>d. E' d \<Longrightarrow> E d"
  shows "triple P m Q E"
  by (rule tripleI) (use assms(2-4) tripleE [OF assms(1)] tripleQ [OF assms(1)] in blast)+

lemma triple_pre: "triple P' m Q E \<Longrightarrow> (\<And>d. P d \<Longrightarrow> P' d) \<Longrightarrow> triple P m Q E"
  by (rule triple_weaken)

lemma triple_done: "(\<And>d. P d \<Longrightarrow> Q x d) \<Longrightarrow> triple P (done_with x) Q E"
  by (rule tripleI) (auto simp: done_with_def)

lemma triple_failed: "(\<And>d. P d \<Longrightarrow> E d) \<Longrightarrow> triple P (failed e) Q E"
  by (rule tripleI) (auto simp: failed_def)

lemma triple_lift: "(\<And>d. P d \<Longrightarrow> E d) \<Longrightarrow> (\<And>x d. r = Inr x \<Longrightarrow> P d \<Longrightarrow> Q x d) \<Longrightarrow> triple P (lift r) Q E"
  by (rule tripleI) (auto simp: lift_def)

lemma triple_refuse: "(\<And>d. P d \<Longrightarrow> E d) \<Longrightarrow> (\<And>d. \<not> b \<Longrightarrow> P d \<Longrightarrow> Q () d) \<Longrightarrow> triple P (refuse_if b e) Q E"
  by (rule tripleI) (auto simp: refuse_if_def failed_def done_with_def split: if_splits)

lemma triple_attempt:
  assumes "triple P m Q E"
  shows "triple P (attempt m) (\<lambda>r. case r of Inr x \<Rightarrow> Q x | Inl _ \<Rightarrow> E) F"
proof (rule tripleI)
  show "F d'" if "P d" "attempt m d = (Inl e, d')" for d e d'
    using that by (cases "m d") (auto simp: attempt_def)
  show "(case r of Inr x \<Rightarrow> Q x | Inl _ \<Rightarrow> E) d'" if "P d" "attempt m d = (Inr r, d')" for d r d'
    using that tripleE [OF assms that(1)] tripleQ [OF assms that(1)]
    by (cases "m d"; cases r) (auto simp: attempt_def)
qed

lemma triple_map_failure:
  assumes "triple P m Q E" shows "triple P (map_failure f m) Q E"
proof (rule tripleI)
  fix d e d' assume d: "P d" "map_failure f m d = (Inl e, d')"
  then show "E d'" using tripleE [OF assms d(1)]
    by (cases "m d"; cases "fst (m d)") (auto simp: map_failure_def)
next
  fix d x d' assume d: "P d" "map_failure f m d = (Inr x, d')"
  then show "Q x d'" using tripleQ [OF assms d(1)]
    by (cases "m d"; cases "fst (m d)") (auto simp: map_failure_def)
qed

lemma triple_pure: "(b \<Longrightarrow> triple P m Q E) \<Longrightarrow> triple (\<lambda>d. b \<and> P d) m Q E"
  by (auto simp: triple_def)

section \<open>Steps that only look\<close>

definition same :: "disk \<Rightarrow> disk \<Rightarrow> bool" where
  "same d d' \<longleftrightarrow> dk_nodes d' = dk_nodes d \<and> dk_trash d' = dk_trash d \<and> dk_limiter d' = dk_limiter d"

definition quiet :: "'a act \<Rightarrow> bool" where
  "quiet m \<longleftrightarrow> (\<forall>d. same d (snd (m d)))"

lemma quietI: "(\<And>d r d'. m d = (r, d') \<Longrightarrow> same d d') \<Longrightarrow> quiet m"
  unfolding quiet_def by (metis prod.collapse)

lemma quietD: "quiet m \<Longrightarrow> m d = (r, d') \<Longrightarrow> same d d'"
  unfolding quiet_def by (metis snd_conv)

lemma same_refl [simp]: "same d d"
  by (simp add: same_def)

lemma same_trans: "same d d1 \<Longrightarrow> same d1 d2 \<Longrightarrow> same d d2"
  by (simp add: same_def)

lemma quiet_chain [quiet_intros]:
  assumes "quiet m" "\<And>x. quiet (f x)" shows "quiet (chain m f)"
proof (rule quietI)
  fix d r d' assume c: "chain m f d = (r, d')"
  obtain s d1 where m: "m d = (s, d1)" by (cases "m d") auto
  show "same d d'" using c m quietD [OF assms(1) m] quietD [OF assms(2)]
    by (cases s) (auto simp: chain_def intro: same_trans)
qed

lemma quiet_basic [quiet_intros]:
  "quiet (done_with x)" "quiet (failed e)" "quiet (lift r)" "quiet (refuse_if b e)" "quiet next_fault"
  "quiet temp_name"
  by (auto simp: quiet_def same_def done_with_def failed_def lift_def refuse_if_def next_fault_def
      temp_name_def split: list.splits)

lemma quiet_map_failure [quiet_intros]:
  assumes "quiet m" shows "quiet (map_failure f m)"
proof (rule quietI)
  fix d r d' assume "map_failure f m d = (r, d')"
  then show "same d d'" using quietD [OF assms]
    by (cases "m d"; cases "fst (m d)") (auto simp: map_failure_def)
qed

lemma quiet_attempt [quiet_intros]:
  assumes "quiet m" shows "quiet (attempt m)"
proof (rule quietI)
  fix d r d' assume "attempt m d = (r, d')"
  then show "same d d'" using quietD [OF assms] by (cases "m d") (auto simp: attempt_def)
qed

lemma quiet_syscall [quiet_intros]: "quiet m \<Longrightarrow> quiet (syscall m)"
  unfolding syscall_def by (intro quiet_chain quiet_basic) (simp add: quiet_basic split: fault.splits)

lemma quiet_looking [quiet_intros]:
  "quiet (entry c name)" "quiet (entries c)" "quiet (subdir c name)" "quiet (open_root u dl h)"
proof -
  show "quiet (entry c name)"
    unfolding entry_def by (rule quiet_syscall) (simp add: quiet_def)
  show "quiet (entries c)"
    unfolding entries_def by (rule quiet_syscall) (simp add: quiet_def)
  have "quiet (syscall (\<lambda>d. case node_at d (h_path h) of
       None \<Rightarrow> (Inl not_found, d)
     | Some n \<Rightarrow> (case es_kind (nd_stat n) of
         DirEntry \<Rightarrow> (Inr \<lparr>cd_path = h_path h, cd_at = h_path h, cd_identity = es_identity (nd_stat n)\<rparr>, d)
       | FileEntry \<Rightarrow> (Inl (tool_error NotADirectory ''this path is a file''), d)
       | _ \<Rightarrow> (Inl (denied ''only regular files and directories can be accessed''), d))))"
    by (rule quiet_syscall) (auto simp: quiet_def split: option.splits entry_kind.splits)
  then show "quiet (open_root u dl h)"
    unfolding open_root_def by (auto intro: quiet_basic split: option.splits)
  show "quiet (subdir c name)"
    unfolding subdir_def
    by (rule quiet_syscall) (auto simp: quiet_def split: option.splits entry_kind.splits)
qed

lemma quiet_read_file [quiet_intros]: "quiet (read_file c name cap)"
proof -
  have "quiet (syscall (\<lambda>d. case node_at d (cd_at c @ [name]) of
         None \<Rightarrow> (Inl not_found, d)
       | Some n \<Rightarrow>
           if es_identity (nd_stat n) \<noteq> es_identity s \<or> es_kind (nd_stat n) \<noteq> FileEntry
           then (Inl (tool_error Conflict ''The file changed while it was being read. Try again.''), d)
           else (let buf = take (wrap (cap + 1)) (nd_bytes n)
             in if cap < length buf then (Inl (too_large (length buf) cap), d)
                else (Inr (buf, nd_stat n), d))))" for s
    by (rule quiet_syscall) (auto simp: quiet_def Let_def split: option.splits)
  then show ?thesis
    unfolding read_file_def by (auto intro!: quiet_chain quiet_looking quiet_basic split: option.splits)
qed

lemma quiet_free_name [quiet_intros]: "quiet (free_name n c)"
proof -
  have "same d (snd (free_name n c d))" for d
  proof (induction n arbitrary: d)
    case (Suc n)
    have "same d (d\<lparr>dk_names := ts\<rparr>)" for ts by (simp add: same_def)
    then show ?case using Suc by (auto simp: Let_def intro: same_trans split: list.splits)
  qed simp
  then show ?thesis by (simp add: quiet_def)
qed

section \<open>What a change keeps\<close>

definition wf_disk :: "disk \<Rightarrow> bool" where
  "wf_disk d \<longleftrightarrow> distinct (map fst (dk_nodes d))"

definition trashed :: "disk \<Rightarrow> node set" where
  "trashed d = (\<Union>(w, ns) \<in> set (dk_trash d). snd ` set ns)"

text \<open>Everything that is on the disk or in the trash.\<close>

definition kept :: "disk \<Rightarrow> node set" where
  "kept d = ran (node_at d) \<union> trashed d"

definition below :: "path \<Rightarrow> path set" where
  "below p = {k. starts_with k p}"

definition safe :: "disk \<Rightarrow> path set \<Rightarrow> path set \<Rightarrow> disk \<Rightarrow> bool" where
  "safe d0 W R d \<longleftrightarrow> wf_disk d
     \<and> (\<forall>n \<in> kept d0. n \<in> trashed d \<or> (\<exists>k. k \<notin> R \<and> node_at d k = Some n))
     \<and> (\<forall>k. k \<notin> W \<longrightarrow> node_at d k = node_at d0 k)"

lemma below_self [simp]: "p \<in> below p"
  by (simp add: below_def)

lemma below_app [simp]: "p @ q \<in> below p"
  by (simp add: below_def)

lemma safe_start: "wf_disk d \<Longrightarrow> safe d W {} d"
  by (auto simp: safe_def kept_def ran_def)

lemma safe_kept: "safe d0 W R d \<Longrightarrow> wf_disk d \<and> kept d0 \<subseteq> kept d"
  by (auto simp: safe_def kept_def ran_def)

lemma safe_outside: "safe d0 W R d \<Longrightarrow> k \<notin> W \<Longrightarrow> node_at d k = node_at d0 k"
  by (auto simp: safe_def)

lemma safe_less: "safe d0 W R d \<Longrightarrow> S \<subseteq> R \<Longrightarrow> safe d0 W S d"
  unfolding safe_def by blast

lemma safe_none: "safe d0 W R d \<Longrightarrow> safe d0 W {} d"
  by (rule safe_less) simp_all

lemma same_looks: "same d d' \<Longrightarrow> node_at d' = node_at d \<and> trashed d' = trashed d \<and> wf_disk d' = wf_disk d"
  by (simp add: same_def wf_disk_def trashed_def node_at_def fun_eq_iff)

lemma safe_same: "safe d0 W R d \<Longrightarrow> same d d' \<Longrightarrow> safe d0 W R d'"
  by (drule same_looks) (simp add: safe_def)

lemma quiet_safe: "quiet m \<Longrightarrow> triple (safe d0 W R) m (\<lambda>_. safe d0 W R) (safe d0 W R)"
  by (rule tripleI) (auto dest: quietD intro: safe_same)

text \<open>The general shape of a rule: what was seen outside \<open>R\<close> is still somewhere outside \<open>S\<close>.\<close>

lemma safe_step:
  assumes "safe d0 W R d" "wf_disk d'" "trashed d \<subseteq> trashed d'"
    and "\<And>k n. k \<notin> R \<Longrightarrow> node_at d k = Some n \<Longrightarrow> n \<in> trashed d' \<or> (\<exists>j. j \<notin> S \<and> node_at d' j = Some n)"
    and "\<And>k. k \<notin> W \<Longrightarrow> node_at d' k = node_at d k"
  shows "safe d0 W S d'"
proof -
  have "n \<in> trashed d' \<or> (\<exists>k. k \<notin> S \<and> node_at d' k = Some n)" if "n \<in> kept d0" for n
    using assms(1,3,4) that unfolding safe_def by blast
  then show ?thesis using assms(1,2,5) unfolding safe_def by simp
qed

lemma safe_stay:
  assumes "safe d0 W R d" "wf_disk d'" "trashed d \<subseteq> trashed d'"
    and "\<And>k. k \<notin> R \<Longrightarrow> node_at d' k = node_at d k" and "\<And>k. k \<notin> W \<Longrightarrow> node_at d' k = node_at d k"
  shows "safe d0 W R d'"
  by (rule safe_step [OF assms(1-3) _ assms(5)]) (use assms(4) in auto)

lemma triple_syscall:
  assumes "triple (safe d0 W R) m Q (safe d0 W R)"
  shows "triple (safe d0 W R) (syscall m) Q (safe d0 W R)"
  unfolding syscall_def
proof (rule triple_chain [OF quiet_safe])
  show "quiet next_fault" by (rule quiet_basic)
  show "triple (safe d0 W R) (case f of Fails e \<Rightarrow> failed e | _ \<Rightarrow> m) Q (safe d0 W R)" for f
    using assms by (cases f) (auto intro: triple_failed)
qed

section \<open>The operations\<close>

lemma unoccupied: "\<not> occupied d p \<Longrightarrow> k \<in> below p \<Longrightarrow> node_at d k = None"
  by (auto simp: occupied_def list_ex_iff below_def node_at_def map_of_eq_None_iff)

lemma node_put [simp]: "node_at (put_node p n d) k = (if k = p then Some n else node_at d k)"
  by (simp add: node_at_def put_node_def update_conv)

lemma wf_put [simp]: "wf_disk d \<Longrightarrow> wf_disk (put_node p n d)"
  by (simp add: wf_disk_def put_node_def distinct_update)

lemma trashed_put [simp]: "trashed (put_node p n d) = trashed d" "trashed (drop_node p d) = trashed d"
  "trashed (d\<lparr>dk_nodes := ns\<rparr>) = trashed d" "trashed (d\<lparr>dk_next := i\<rparr>) = trashed d"
  by (simp_all add: trashed_def put_node_def drop_node_def)

lemma node_next [simp]: "node_at (d\<lparr>dk_next := i\<rparr>) = node_at d" "wf_disk (d\<lparr>dk_next := i\<rparr>) = wf_disk d"
  by (simp_all add: node_at_def wf_disk_def fun_eq_iff)

lemma node_drop [simp]: "node_at (drop_node p d) k = (if k = p then None else node_at d k)"
  by (simp add: node_at_def drop_node_def delete_conv)

lemma wf_drop [simp]: "wf_disk d \<Longrightarrow> wf_disk (drop_node p d)"
  by (simp add: wf_disk_def drop_node_def distinct_delete)

lemma map_of_filter_by: "map_of (filter (\<lambda>(k, _). Q k) xs) k = (if Q k then map_of xs k else None)"
  by (induction xs) auto

lemma node_filter:
  "node_at (d\<lparr>dk_nodes := filter (\<lambda>(k, _). Q k) (dk_nodes d)\<rparr>) k = (if Q k then node_at d k else None)"
  by (simp add: node_at_def map_of_filter_by)

lemma wf_filter: "wf_disk d \<Longrightarrow> wf_disk (d\<lparr>dk_nodes := filter Q (dk_nodes d)\<rparr>)"
  by (simp add: wf_disk_def distinct_map_filter)

lemma safe_fresh:
  assumes "safe d0 W R d" "\<not> occupied d p" "p \<in> W"
  shows "safe d0 W (R \<union> below p) (put_node p n (d\<lparr>dk_next := i\<rparr>))"
proof (rule safe_step [OF assms(1)])
  show "wf_disk (put_node p n (d\<lparr>dk_next := i\<rparr>))" using assms(1) by (simp add: safe_def)
  show "m \<in> trashed (put_node p n (d\<lparr>dk_next := i\<rparr>))
      \<or> (\<exists>j. j \<notin> R \<union> below p \<and> node_at (put_node p n (d\<lparr>dk_next := i\<rparr>)) j = Some m)"
    if "k \<notin> R" "node_at d k = Some m" for k m
    using that unoccupied [OF assms(2)] by (intro disjI2 exI [of _ k]) auto
qed (use assms(3) in auto)

lemma safe_make_dir:
  assumes "cd_at c @ [name] \<in> W"
  shows "triple (safe d0 W R) (make_dir c name mode)
    (\<lambda>_. safe d0 W (R \<union> below (cd_at c @ [name]))) (safe d0 W R)"
  unfolding make_dir_def
  by (rule triple_syscall) (auto intro!: tripleI safe_fresh assms split: if_splits)

lemma free_name_free:
  "free_name n c d = (Inr t, d') \<Longrightarrow> \<not> occupied d' (cd_at c @ [t])"
  by (induction n arbitrary: d) (auto simp: Let_def occupied_def split: list.splits if_splits)

lemma safe_stage:
  assumes "\<And>t. cd_at c @ [t] \<in> W"
  shows "triple (safe d0 W R) (stage c bytes mode)
    (\<lambda>t. safe d0 W (R \<union> below (cd_at c @ [t]))) (safe d0 W R)"
proof -
  let ?Q = "\<lambda>t d. safe d0 W R d \<and> \<not> occupied d (cd_at c @ [t])"
  have "triple (safe d0 W R) (free_name 16 c) ?Q (safe d0 W R)"
    using quiet_free_name [of 16 c] free_name_free
    by (intro tripleI) (auto dest: quietD intro: safe_same)
  moreover have "triple (?Q t) (syscall (\<lambda>d. (Inr t, put_node (cd_at c @ [t])
      (new_node FileEntry (and mode 438) bytes c d) (d\<lparr>dk_next := dk_next d + 1\<rparr>))))
      (\<lambda>t. safe d0 W (R \<union> below (cd_at c @ [t]))) (safe d0 W R)" for t
  proof (rule tripleI)
    fix d e d'
    assume "?Q t d" "syscall (\<lambda>d. (Inr t, put_node (cd_at c @ [t])
      (new_node FileEntry (and mode 438) bytes c d) (d\<lparr>dk_next := dk_next d + 1\<rparr>))) d = (Inl e, d')"
    then show "safe d0 W R d'"
      using quietD [OF quiet_basic(5)]
      by (auto simp: syscall_def chain_def failed_def split: prod.splits sum.splits fault.splits
          intro: safe_same)
  next
    fix d x d'
    assume Q: "?Q t d" and s: "syscall (\<lambda>d. (Inr t, put_node (cd_at c @ [t])
      (new_node FileEntry (and mode 438) bytes c d) (d\<lparr>dk_next := dk_next d + 1\<rparr>))) d = (Inr x, d')"
    obtain r d1 where n: "next_fault d = (r, d1)" by (cases "next_fault d") auto
    have s1: "same d d1" by (rule quietD [OF quiet_basic(5) n])
    have "\<not> occupied d1 (cd_at c @ [t])" "safe d0 W R d1"
      using Q s1 by (auto simp: occupied_def same_def intro: safe_same)
    moreover have "x = t" "d' = put_node (cd_at c @ [t]) (new_node FileEntry (and mode 438) bytes c d1)
        (d1\<lparr>dk_next := dk_next d1 + 1\<rparr>)"
      using s n by (auto simp: syscall_def chain_def failed_def split: sum.splits fault.splits)
    ultimately show "safe d0 W (R \<union> below (cd_at c @ [x])) d'"
      using assms by (auto intro: safe_fresh)
  qed
  ultimately show ?thesis unfolding stage_def by (rule triple_chain)
qed

lemma safe_discard:
  assumes "cd_at c @ [t] \<in> W" "below (cd_at c @ [t]) \<subseteq> R"
  shows "triple (safe d0 W R) (discard c t) (\<lambda>_. safe d0 W R) E"
proof (rule tripleI)
  fix d x d' assume s: "safe d0 W R d" and "discard c t d = (Inr x, d')"
  then have d': "d' = drop_node (cd_at c @ [t]) d" by (simp add: discard_def)
  have "cd_at c @ [t] \<in> R" using assms(2) below_self by blast
  then show "safe d0 W R d'"
    unfolding d' by (intro safe_stay [OF s]) (use s assms in \<open>auto simp: safe_def\<close>)
qed (simp add: discard_def)

lemma safe_remove_own:
  assumes "below (cd_at c @ [t]) \<subseteq> W" "below (cd_at c @ [t]) \<subseteq> R"
  shows "triple (safe d0 W R) (remove_own c t) (\<lambda>_. safe d0 W R) E"
proof (rule tripleI)
  fix d x d' assume s: "safe d0 W R d" and "remove_own c t d = (Inr x, d')"
  then have d': "d' = d\<lparr>dk_nodes := filter (\<lambda>(k, _). \<not> starts_with k (cd_at c @ [t])) (dk_nodes d)\<rparr>"
    by (simp add: remove_own_def)
  show "safe d0 W R d'"
    unfolding d' by (intro safe_stay [OF s])
      (use s assms in \<open>auto simp: safe_def wf_filter node_filter below_def\<close>)
qed (simp add: remove_own_def)

lemma safe_trash:
  assumes "below p \<subseteq> W"
  shows "triple (safe d0 W R) (trash_at p) (\<lambda>_. safe d0 W R) (safe d0 W R)"
  unfolding trash_at_def
proof (rule triple_syscall, rule tripleI)
  fix d e d'
  assume "safe d0 W R d" and "(case (node_at d p, dk_places d) of
     (None, _) \<Rightarrow> (Inl not_found, d)
   | (_, []) \<Rightarrow> (Inl (tool_error TrashUnavailable ''no trash here''), d)
   | (Some n, w # ws) \<Rightarrow>
       (Inr w, d\<lparr>dk_nodes := filter (\<lambda>(k, _). \<not> starts_with k p) (dk_nodes d),
          dk_trash := (w, filter (\<lambda>(k, _). starts_with k p) (dk_nodes d)) # dk_trash d,
          dk_places := ws\<rparr>)) = (Inl e, d')"
  then show "safe d0 W R d'" by (auto split: option.splits list.splits)
next
  fix d x d'
  assume s: "safe d0 W R d" and "(case (node_at d p, dk_places d) of
     (None, _) \<Rightarrow> (Inl not_found, d)
   | (_, []) \<Rightarrow> (Inl (tool_error TrashUnavailable ''no trash here''), d)
   | (Some n, w # ws) \<Rightarrow>
       (Inr w, d\<lparr>dk_nodes := filter (\<lambda>(k, _). \<not> starts_with k p) (dk_nodes d),
          dk_trash := (w, filter (\<lambda>(k, _). starts_with k p) (dk_nodes d)) # dk_trash d,
          dk_places := ws\<rparr>)) = (Inr x, d')"
  then obtain w ws where d': "d' = d\<lparr>dk_nodes := filter (\<lambda>(k, _). \<not> starts_with k p) (dk_nodes d),
          dk_trash := (w, filter (\<lambda>(k, _). starts_with k p) (dk_nodes d)) # dk_trash d,
          dk_places := ws\<rparr>"
    by (auto split: option.splits list.splits)
  have n': "node_at d' k = (if starts_with k p then None else node_at d k)" for k
    by (simp add: d' node_at_def map_of_filter_by)
  show "safe d0 W R d'"
  proof (rule safe_step [OF s])
    show "wf_disk d'" using s by (simp add: d' safe_def wf_disk_def distinct_map_filter)
    show "trashed d \<subseteq> trashed d'" by (auto simp: d' trashed_def)
    show "n \<in> trashed d' \<or> (\<exists>j. j \<notin> R \<and> node_at d' j = Some n)"
      if k: "k \<notin> R" "node_at d k = Some n" for k n
    proof (cases "starts_with k p")
      case True
      moreover have "(k, n) \<in> set (dk_nodes d)" using k(2) by (auto simp: node_at_def dest: map_of_SomeD)
      ultimately have "n \<in> trashed d'" by (force simp: d' trashed_def)
      then show ?thesis ..
    next
      case False
      then show ?thesis using k n' by auto
    qed
    show "node_at d' k = node_at d k" if "k \<notin> W" for k
      using that assms n' by (auto simp: below_def)
  qed
qed

text \<open>Moving \<open>p\<close> to \<open>q\<close>, where nothing is.\<close>

definition moved :: "path \<Rightarrow> path \<Rightarrow> path \<Rightarrow> path" where
  "moved p q k = (if starts_with k p then q @ drop (length p) k else k)"

lemma move_node_eq: "dk_nodes (move_node p q d) = map (\<lambda>(k, n). (moved p q k, n)) (dk_nodes d)"
  by (simp add: move_node_def moved_def)

lemma moved_below: "moved p q k = moved p q j \<Longrightarrow> k = j \<or> k \<in> below q \<or> j \<in> below q"
  by (auto simp: moved_def below_def starts_with_iff split: if_splits)

lemma unoccupied_key: "\<not> occupied d q \<Longrightarrow> k \<in> below q \<Longrightarrow> k \<notin> fst ` set (dk_nodes d)"
  by (auto simp: occupied_def list_ex_iff below_def)

lemma moved_inj: "\<not> occupied d q \<Longrightarrow> inj_on (moved p q) (fst ` set (dk_nodes d))"
  by (rule inj_onI) (metis moved_below unoccupied_key)

lemma moved_same [simp]: "moved p p k = k"
  by (auto simp: moved_def starts_with_iff)

lemma map_of_map_key:
  "distinct (map fst xs) \<Longrightarrow> inj_on f (fst ` set xs) \<Longrightarrow> k \<in> fst ` set xs
   \<Longrightarrow> map_of (map (\<lambda>(k, n). (f k, n)) xs) (f k) = map_of xs k"
  by (induction xs) (auto simp: inj_on_def split: if_splits)

lemma map_of_map_none:
  "\<forall>j \<in> fst ` set xs. f j \<noteq> k \<Longrightarrow> map_of (map (\<lambda>(k, n). (f k, n)) xs) k = None"
  by (induction xs) auto

lemma wf_move:
  assumes "wf_disk d" "\<not> occupied d q" shows "wf_disk (move_node p q d)"
proof -
  have "map fst (dk_nodes (move_node p q d)) = map (moved p q) (map fst (dk_nodes d))"
    by (simp add: move_node_eq comp_def case_prod_beta)
  moreover have "distinct (map (moved p q) (map fst (dk_nodes d)))"
    using assms(1) moved_inj [OF assms(2), of p]
    by (subst distinct_map) (simp only: wf_disk_def set_map simp_thms)
  ultimately show ?thesis by (simp only: wf_disk_def)
qed

lemma move_arrives:
  assumes "wf_disk d" "\<not> occupied d q" "node_at d k = Some n"
  shows "node_at (move_node p q d) (moved p q k) = Some n"
proof -
  have "k \<in> fst ` set (dk_nodes d)" using assms(3) by (force simp: node_at_def dest: map_of_SomeD)
  then show ?thesis
    using map_of_map_key [OF _ moved_inj [OF assms(2)], of k] assms(1,3)
    by (simp add: node_at_def move_node_eq wf_disk_def)
qed

lemma move_keeps:
  assumes "wf_disk d" "\<not> occupied d q" "k \<notin> below p" "k \<notin> below q"
  shows "node_at (move_node p q d) k = node_at d k"
proof (cases "node_at d k")
  case None
  have "moved p q j \<noteq> k" if "j \<in> fst ` set (dk_nodes d)" for j
    using that None assms(4) by (auto simp: node_at_def map_of_eq_None_iff moved_def below_def split: if_splits)
  then show ?thesis
    using None by (simp add: node_at_def move_node_eq map_of_map_none)
next
  case (Some n)
  have "moved p q k = k" using assms(3) by (simp add: moved_def below_def)
  then show ?thesis using move_arrives [OF assms(1,2) Some] Some by metis
qed

lemma move_same: "same d (move_node p p d)"
  by (simp add: same_def move_node_eq) (simp add: move_node_def)

lemma safe_move:
  assumes s: "safe d0 W R d" and free: "\<not> occupied d q \<or> p = q"
    and W: "below p \<subseteq> W" "below q \<subseteq> W" and R: "below p \<subseteq> R"
  shows "safe d0 W (R \<union> below q) (move_node p q d)"
proof (cases "p = q")
  case True
  then have "R \<union> below q = R" using R by auto
  then show ?thesis using safe_same [OF s move_same] True by simp
next
  case False
  then have o: "\<not> occupied d q" using free by simp
  have wf: "wf_disk d" using s by (simp add: safe_def)
  show ?thesis
  proof (rule safe_step [OF s wf_move [OF wf o]])
    show "trashed d \<subseteq> trashed (move_node p q d)" by (simp add: move_node_def)
    show "n \<in> trashed (move_node p q d) \<or> (\<exists>j. j \<notin> R \<union> below q \<and> node_at (move_node p q d) j = Some n)"
      if k: "k \<notin> R" "node_at d k = Some n" for k n
    proof -
      have "k \<notin> below q" using unoccupied [OF o] k(2) by fastforce
      then show ?thesis using k R move_keeps [OF wf o, of k p] by auto
    qed
    show "node_at (move_node p q d) k = node_at d k" if "k \<notin> W" for k
      using that move_keeps [OF wf o] W by blast
  qed
qed

text \<open>A move with no region given up: what lay below \<open>p\<close> lies below \<open>q\<close>.\<close>

lemma safe_move_all:
  assumes s: "safe d0 W {} d" and free: "\<not> occupied d q \<or> p = q" and W: "below p \<subseteq> W" "below q \<subseteq> W"
  shows "safe d0 W {} (move_node p q d)"
proof (cases "p = q")
  case True
  then show ?thesis using safe_same [OF s move_same] by simp
next
  case False
  then have o: "\<not> occupied d q" using free by simp
  have wf: "wf_disk d" using s by (simp add: safe_def)
  show ?thesis
  proof (rule safe_step [OF s wf_move [OF wf o]])
    show "trashed d \<subseteq> trashed (move_node p q d)" by (simp add: move_node_def)
    show "n \<in> trashed (move_node p q d) \<or> (\<exists>j. j \<notin> {} \<and> node_at (move_node p q d) j = Some n)"
      if "node_at d k = Some n" for k n
      using move_arrives [OF wf o that] by auto
    show "node_at (move_node p q d) k = node_at d k" if "k \<notin> W" for k
      using that move_keeps [OF wf o] W by blast
  qed
qed

lemma rename_result:
  assumes "rename_to c name c' name' d = (r, d')"
  shows "\<exists>d1. same d d1 \<and> ((\<exists>e. r = Inr (Inl e)) \<and> d' = d1
    \<or> r = Inr (Inr ()) \<and> d' = move_node (cd_at c @ [name]) (cd_at c' @ [name']) d1
       \<and> (\<not> occupied d1 (cd_at c' @ [name']) \<or> cd_at c @ [name] = cd_at c' @ [name']))"
proof -
  obtain s d1 where n: "next_fault d = (s, d1)" by (cases "next_fault d") auto
  have f: "\<exists>f. s = Inr f" using n by (auto simp: next_fault_def split: list.splits)
  have "same d d1" by (rule quietD [OF quiet_basic(5) n])
  then show ?thesis
    using assms n f
    by (intro exI [of _ d1]) (auto simp: rename_to_def chain_def Let_def split: fault.splits if_splits)
qed

lemma safe_rename:
  assumes W: "below (cd_at c @ [name]) \<subseteq> W" "below (cd_at c' @ [name']) \<subseteq> W"
    and R: "below (cd_at c @ [name]) \<subseteq> R"
  shows "triple (safe d0 W R) (rename_to c name c' name')
    (\<lambda>r. case r of Inr _ \<Rightarrow> safe d0 W (R \<union> below (cd_at c' @ [name'])) | Inl _ \<Rightarrow> safe d0 W R) E"
proof (rule tripleI)
  show "E d'" if "rename_to c name c' name' d = (Inl e, d')" for d e d'
    using rename_result [OF that] by auto
  show "(case r of Inr _ \<Rightarrow> safe d0 W (R \<union> below (cd_at c' @ [name'])) | Inl _ \<Rightarrow> safe d0 W R) d'"
    if s: "safe d0 W R d" and r: "rename_to c name c' name' d = (Inr r, d')" for d r d'
  proof -
    obtain d1 where d1: "same d d1" and cases: "(\<exists>e. r = Inl e) \<and> d' = d1
      \<or> r = Inr () \<and> d' = move_node (cd_at c @ [name]) (cd_at c' @ [name']) d1
         \<and> (\<not> occupied d1 (cd_at c' @ [name']) \<or> cd_at c @ [name] = cd_at c' @ [name'])"
      using rename_result [OF r] by blast
    have s1: "safe d0 W R d1" by (rule safe_same [OF s d1])
    show ?thesis using cases
    proof
      assume "(\<exists>e. r = Inl e) \<and> d' = d1"
      then show ?thesis using s1 by auto
    next
      assume "r = Inr () \<and> d' = move_node (cd_at c @ [name]) (cd_at c' @ [name']) d1
         \<and> (\<not> occupied d1 (cd_at c' @ [name']) \<or> cd_at c @ [name] = cd_at c' @ [name'])"
      then show ?thesis using safe_move [OF s1 _ W R] by simp
    qed
  qed
qed

lemma safe_rename_all:
  assumes W: "below (cd_at c @ [name]) \<subseteq> W" "below (cd_at c' @ [name']) \<subseteq> W"
  shows "triple (safe d0 W {}) (rename_to c name c' name') (\<lambda>_. safe d0 W {}) E"
proof (rule tripleI)
  show "E d'" if "rename_to c name c' name' d = (Inl e, d')" for d e d'
    using rename_result [OF that] by auto
  show "safe d0 W {} d'" if "safe d0 W {} d" "rename_to c name c' name' d = (Inr r, d')" for d r d'
    using rename_result [OF that(2)] safe_same [OF that(1)] safe_move_all [OF _ _ W]
    by (elim exE conjE disjE) simp_all
qed

lemma safe_commit:
  assumes W: "below (cd_at c @ [t]) \<subseteq> W" "below (cd_at c @ [name]) \<subseteq> W"
    and R: "below (cd_at c @ [t]) \<subseteq> R"
  shows "triple (safe d0 W R) (commit c t name) (\<lambda>_. safe d0 W (R \<union> below (cd_at c @ [name]))) (safe d0 W R)"
  unfolding commit_def
proof (rule triple_chain [OF safe_rename [OF W R]])
  have d: "triple (safe d0 W R) (discard c t) (\<lambda>_. safe d0 W R) (safe d0 W R)"
    using W R below_self by (intro safe_discard) auto
  show "triple ((case r of Inr _ \<Rightarrow> safe d0 W (R \<union> below (cd_at c @ [name])) | Inl _ \<Rightarrow> safe d0 W R))
      (case r of Inr _ \<Rightarrow> done_with ()
       | Inl e \<Rightarrow> chain (discard c t) (\<lambda>_. failed (case e of
           AlreadyExists \<Rightarrow> exists_error | OtherError e \<Rightarrow> e
         | CrossDevice \<Rightarrow> internal ''putting the file in place'')))
      (\<lambda>_. safe d0 W (R \<union> below (cd_at c @ [name]))) (safe d0 W R)" for r
    by (cases r) (auto intro!: triple_done triple_chain [OF d] triple_failed)
qed

text \<open>Swapping a staged file with the one it replaces: the old one now lies in its place.\<close>

definition swapped :: "change_dir \<Rightarrow> string \<Rightarrow> string \<Rightarrow> path set" where
  "swapped c t name = insert (cd_at c @ [name]) (below (cd_at c @ [t]) - {cd_at c @ [t]})"

lemma exchange_result:
  assumes "exchange c t name d = (r, d')"
  shows "\<exists>d1. same d d1 \<and> (r \<noteq> Inr True \<and> d' = d1
    \<or> r = Inr True \<and> (\<exists>n m. node_at d1 (cd_at c @ [t]) = Some n \<and> node_at d1 (cd_at c @ [name]) = Some m
         \<and> d' = put_node (cd_at c @ [t]) m (put_node (cd_at c @ [name]) n d1)))"
proof -
  obtain s d1 where n: "next_fault d = (s, d1)" by (cases "next_fault d") auto
  have f: "\<exists>f. s = Inr f" using n by (auto simp: next_fault_def split: list.splits)
  have "same d d1" by (rule quietD [OF quiet_basic(5) n])
  then show ?thesis
    using assms n f
    by (intro exI [of _ d1])
      (auto simp: exchange_def chain_def Let_def split: fault.splits option.splits)
qed

lemma below_sibling: "c @ [name] \<in> below (c @ [t]) \<longleftrightarrow> name = t"
  by (auto simp: below_def starts_with_iff)

lemma safe_exchange:
  assumes W: "cd_at c @ [t] \<in> W" "cd_at c @ [name] \<in> W"
  shows "triple (safe d0 W (below (cd_at c @ [t]))) (exchange c t name)
    (\<lambda>b. safe d0 W (if b then swapped c t name else below (cd_at c @ [t])))
    (safe d0 W (below (cd_at c @ [t])))"
proof (rule tripleI)
  fix d e d' assume s: "safe d0 W (below (cd_at c @ [t])) d" and "exchange c t name d = (Inl e, d')"
  then show "safe d0 W (below (cd_at c @ [t])) d'"
    using exchange_result [of c t name d "Inl e" d'] by (auto intro: safe_same)
next
  fix d b d' assume s: "safe d0 W (below (cd_at c @ [t])) d" and x: "exchange c t name d = (Inr b, d')"
  obtain d1 where d1: "same d d1" and r: "b = False \<and> d' = d1
    \<or> b = True \<and> (\<exists>n m. node_at d1 (cd_at c @ [t]) = Some n \<and> node_at d1 (cd_at c @ [name]) = Some m
         \<and> d' = put_node (cd_at c @ [t]) m (put_node (cd_at c @ [name]) n d1))"
    using exchange_result [OF x] by auto
  have s1: "safe d0 W (below (cd_at c @ [t])) d1" by (rule safe_same [OF s d1])
  show "safe d0 W (if b then swapped c t name else below (cd_at c @ [t])) d'"
  proof (cases b)
    case True
    then obtain n m where nm: "node_at d1 (cd_at c @ [t]) = Some n" "node_at d1 (cd_at c @ [name]) = Some m"
      and d': "d' = put_node (cd_at c @ [t]) m (put_node (cd_at c @ [name]) n d1)" using r by auto
    have "safe d0 W (swapped c t name) d'"
    proof (rule safe_step [OF s1])
      show "wf_disk d'" using s1 by (simp add: d' safe_def)
      show "x \<in> trashed d' \<or> (\<exists>j. j \<notin> swapped c t name \<and> node_at d' j = Some x)"
        if k: "k \<notin> below (cd_at c @ [t])" "node_at d1 k = Some x" for k x
      proof (cases "k = cd_at c @ [name]")
        case True
        then have "name \<noteq> t" using k(1) by auto
        then show ?thesis using True k nm
          by (intro disjI2 exI [of _ "cd_at c @ [t]"]) (simp add: d' swapped_def)
      next
        case False
        then show ?thesis using k by (intro disjI2 exI [of _ k]) (auto simp: d' swapped_def)
      qed
      show "node_at d' k = node_at d1 k" if "k \<notin> W" for k using that W by (auto simp: d')
    qed (simp add: d')
    then show ?thesis using True by simp
  qed (use r s1 in simp)
qed

lemma safe_exchange_back:
  assumes W: "cd_at c @ [t] \<in> W" "cd_at c @ [name] \<in> W"
  shows "triple (safe d0 W (swapped c t name)) (exchange c t name)
    (\<lambda>b. safe d0 W (if b then below (cd_at c @ [t]) else {})) (safe d0 W {})"
proof (rule tripleI)
  fix d e d' assume s: "safe d0 W (swapped c t name) d" and "exchange c t name d = (Inl e, d')"
  then show "safe d0 W {} d'"
    using exchange_result [of c t name d "Inl e" d'] by (auto intro: safe_same safe_none)
next
  fix d b d' assume s: "safe d0 W (swapped c t name) d" and x: "exchange c t name d = (Inr b, d')"
  obtain d1 where d1: "same d d1" and r: "b = False \<and> d' = d1
    \<or> b = True \<and> (\<exists>n m. node_at d1 (cd_at c @ [t]) = Some n \<and> node_at d1 (cd_at c @ [name]) = Some m
         \<and> d' = put_node (cd_at c @ [t]) m (put_node (cd_at c @ [name]) n d1))"
    using exchange_result [OF x] by auto
  have s1: "safe d0 W (swapped c t name) d1" by (rule safe_same [OF s d1])
  show "safe d0 W (if b then below (cd_at c @ [t]) else {}) d'"
  proof (cases b)
    case True
    then obtain n m where nm: "node_at d1 (cd_at c @ [t]) = Some n" "node_at d1 (cd_at c @ [name]) = Some m"
      and d': "d' = put_node (cd_at c @ [t]) m (put_node (cd_at c @ [name]) n d1)" using r by auto
    have "safe d0 W (below (cd_at c @ [t])) d'"
    proof (rule safe_step [OF s1])
      show "wf_disk d'" using s1 by (simp add: d' safe_def)
      show "x \<in> trashed d' \<or> (\<exists>j. j \<notin> below (cd_at c @ [t]) \<and> node_at d' j = Some x)"
        if k: "k \<notin> swapped c t name" "node_at d1 k = Some x" for k x
      proof (cases "k = cd_at c @ [t]")
        case True
        then have "name \<noteq> t" using k(1) by (auto simp: swapped_def)
        then show ?thesis using True k nm
          by (intro disjI2 exI [of _ "cd_at c @ [name]"]) (simp add: d' below_sibling)
      next
        case False
        then show ?thesis using k by (intro disjI2 exI [of _ k]) (auto simp: d' swapped_def)
      qed
      show "node_at d' k = node_at d1 k" if "k \<notin> W" for k using that W by (auto simp: d')
    qed (simp add: d')
    then show ?thesis using True by simp
  qed (use r s1 safe_none in auto)
qed

end
