(* ===== verification/WriterFacts.thy ===== *)
theory WriterFacts
  imports Writer DiskFacts
begin

text \<open>
  What changes keep. \<open>keeps d0 W\<close> steps lose nothing of the disk \<open>d0\<close> and change nothing outside
  \<open>W\<close>, whether they succeed or fail; \<open>yields\<close> is about the value a step returns. Each operation of
  the writer keeps the disk when the folder it was given lies in \<open>W\<close>.
\<close>

named_theorems keeps_intros \<open>steps that lose nothing\<close>

abbreviation keeps :: "disk \<Rightarrow> path set \<Rightarrow> 'a act \<Rightarrow> bool" where
  "keeps d0 W m \<equiv> triple (safe d0 W {}) m (\<lambda>_. safe d0 W {}) (safe d0 W {})"

definition yields :: "'a act \<Rightarrow> ('a \<Rightarrow> bool) \<Rightarrow> bool" where
  "yields m P \<longleftrightarrow> (\<forall>d x d'. m d = (Inr x, d') \<longrightarrow> P x)"

lemma yieldsI: "(\<And>d x d'. m d = (Inr x, d') \<Longrightarrow> P x) \<Longrightarrow> yields m P"
  by (simp add: yields_def)

lemma yields_True: "yields m (\<lambda>_. True)"
  by (simp add: yields_def)

lemma yields_done: "P x \<Longrightarrow> yields (done_with x) P"
  by (simp add: yields_def done_with_def)

lemma yields_failed: "yields (failed e) P"
  by (simp add: yields_def failed_def)

lemma yields_lift: "(\<And>x. r = Inr x \<Longrightarrow> P x) \<Longrightarrow> yields (lift r) P"
  by (simp add: yields_def lift_def)

lemma yields_lift_eq: "yields (lift r) (\<lambda>x. r = Inr x)"
  by (rule yields_lift)

lemma yields_refuse: "yields (refuse_if b e) (\<lambda>_. \<not> b)"
  by (simp add: yields_def refuse_if_def failed_def)

lemma yields_map_failure: "yields m P \<Longrightarrow> yields (map_failure f m) P"
  unfolding yields_def map_failure_def by (auto split: prod.splits sum.splits)

lemma yields_chain:
  assumes "yields m Q" "\<And>x. Q x \<Longrightarrow> yields (f x) P" shows "yields (chain m f) P"
proof (rule yieldsI)
  fix d x d' assume c: "chain m f d = (Inr x, d')"
  obtain r d1 where m: "m d = (r, d1)" by (cases "m d") auto
  obtain y where y: "r = Inr y" using c m by (cases r) (auto simp: chain_def)
  then have "f y d1 = (Inr x, d')" using c m by (simp add: chain_def)
  then show "P x" using assms(1) assms(2) [of y] m y unfolding yields_def by blast
qed

lemma yields_syscall: "yields m P \<Longrightarrow> yields (syscall m) P"
  unfolding syscall_def
  by (rule yields_chain [OF yields_True]) (simp add: yields_failed split: fault.splits)

lemma yields_subdir: "yields (subdir c name) (\<lambda>c'. cd_at c' = cd_at c @ [name])"
  unfolding subdir_def
  by (rule yields_syscall) (auto simp: yields_def split: option.splits entry_kind.splits)

lemma yields_open_root: "yields (open_root u dl h) (\<lambda>c. cd_at c = h_path h)"
  unfolding open_root_def
  by (split option.split, intro conjI allI impI yields_syscall yields_failed)
    (auto simp: yields_def split: option.splits entry_kind.splits)

section \<open>Steps that keep the disk\<close>

lemma keeps_quiet: "quiet m \<Longrightarrow> keeps d0 W m"
  by (rule quiet_safe)

lemma keeps_chain [keeps_intros]: "keeps d0 W m \<Longrightarrow> (\<And>x. keeps d0 W (f x)) \<Longrightarrow> keeps d0 W (chain m f)"
  by (rule triple_chain)

lemma triple_pair: "(\<And>a b. x = (a, b) \<Longrightarrow> triple P (f a b) Q E) \<Longrightarrow> triple P (case x of (a, b) \<Rightarrow> f a b) Q E"
  by (cases x) simp

lemma triple_value:
  assumes "triple P m (\<lambda>_. P) P" "yields m V" "\<And>x. V x \<Longrightarrow> triple P (f x) Q P"
  shows "triple P (chain m f) Q P"
proof (rule triple_chain [of _ _ "\<lambda>x d. V x \<and> P d"])
  show "triple P m (\<lambda>x d. V x \<and> P d) P"
    using assms(1,2) by (intro tripleI) (auto simp: yields_def dest: tripleE tripleQ)
  show "triple (\<lambda>d. V x \<and> P d) (f x) Q P" for x
    by (rule triple_pure) (rule assms(3))
qed

lemma keeps_basic [keeps_intros]:
  "keeps d0 W (done_with x)" "keeps d0 W (failed e)" "keeps d0 W (lift r)" "keeps d0 W (refuse_if b e)"
  "keeps d0 W (entry c name)" "keeps d0 W (entries c)" "keeps d0 W (subdir c name)"
  "keeps d0 W (open_root u dl h)" "keeps d0 W (read_file c name cap)"
  by (rule keeps_quiet, rule quiet_intros)+

lemma check_change_safe:
  "triple (safe d0 W R) (check_change wx n) (\<lambda>_. safe d0 W R) (safe d0 W R)"
proof -
  have "safe d0 W R (d\<lparr>dk_limiter := w\<rparr>) = safe d0 W R d" for d w
    by (simp add: safe_def wf_disk_def trashed_def node_at_def)
  then show ?thesis
    by (intro tripleI) (auto simp: check_change_def split: prod.splits)
qed

lemmas keeps_check_change [keeps_intros] = check_change_safe [where R = "{}"]

definition inside :: "path set \<Rightarrow> change_dir \<Rightarrow> bool" where
  "inside W c \<longleftrightarrow> below (cd_at c) - {cd_at c} \<subseteq> W"

lemma inside_below: "inside W c \<Longrightarrow> below (cd_at c @ [name]) \<subseteq> W"
  by (auto simp: inside_def below_def starts_with_iff)

lemma inside_at: "inside W c \<Longrightarrow> cd_at c @ [name] \<in> W"
  using inside_below below_self by blast

lemma inside_down: "inside W c \<Longrightarrow> starts_with (cd_at c') (cd_at c) \<Longrightarrow> inside W c'"
  by (auto simp: inside_def below_def starts_with_iff)

lemma keeps_trash [keeps_intros]:
  "inside W c \<Longrightarrow> keeps d0 W (trash_entry c name)" "inside W c \<Longrightarrow> keeps d0 W (trash_staged c name)"
  unfolding trash_entry_def trash_staged_def by (rule safe_trash, erule inside_below)+

lemma keeps_make_dir [keeps_intros]: "inside W c \<Longrightarrow> keeps d0 W (make_dir c name mode)"
  by (rule triple_weaken [OF safe_make_dir]) (auto intro: inside_at safe_none)

lemma stage_then:
  assumes "inside W c" "\<And>t. triple (safe d0 W (below (cd_at c @ [t]))) (f t) (\<lambda>_. safe d0 W {}) (safe d0 W {})"
  shows "keeps d0 W (chain (stage c bytes mode) f)"
  by (rule triple_chain [OF safe_stage]) (use assms inside_at in auto)

lemma commit_done:
  "inside W c \<Longrightarrow> triple (safe d0 W (below (cd_at c @ [t]))) (commit c t name) (\<lambda>_. safe d0 W {}) (safe d0 W {})"
  by (rule triple_weaken [OF safe_commit [where R = "below (cd_at c @ [t])"]])
    (auto dest: inside_below intro: safe_none)

lemma discard_failed:
  "inside W c \<Longrightarrow> triple (safe d0 W (below (cd_at c @ [t]))) (chain (discard c t) (\<lambda>_. failed e)) Q (safe d0 W {})"
  by (rule triple_chain [OF safe_discard [where R = "below (cd_at c @ [t])"]])
    (auto intro: inside_at triple_failed safe_none)

section \<open>Files\<close>

lemma keeps_create_file [keeps_intros]:
  "inside W (tg_dir t) \<Longrightarrow> keeps d0 W (create_file wx t bytes dry)"
  unfolding create_file_def Let_def
  by (auto intro!: keeps_intros stage_then triple_chain [OF triple_map_failure [OF commit_done]])

lemma swapped_trash:
  assumes "inside W c"
  shows "triple (safe d0 W (swapped c s name)) (chain (attempt (trash_staged c s)) (\<lambda>trashed. case trashed of
       Inr place \<Rightarrow> done_with (f place)
     | Inl e \<Rightarrow>
         chain (attempt (exchange c s name)) (\<lambda>back.
           if back = Inr True then chain (discard c s) (\<lambda>_. failed e) else failed e)))
     (\<lambda>_. safe d0 W {}) (safe d0 W {})"
proof (rule triple_chain)
  let ?S = "safe d0 W (swapped c s name)"
  show "triple ?S (attempt (trash_staged c s))
      (\<lambda>r. case r of Inr _ \<Rightarrow> ?S | Inl _ \<Rightarrow> ?S) (safe d0 W {})"
    unfolding trash_staged_def by (rule triple_attempt [OF safe_trash]) (rule inside_below [OF assms])
  have undo: "triple ?S (chain (attempt (exchange c s name)) (\<lambda>back.
      if back = Inr True then chain (discard c s) (\<lambda>_. failed e) else failed e))
      Q (safe d0 W {})" for e :: tool_error and Q :: "'a \<Rightarrow> disk \<Rightarrow> bool"
  proof (rule triple_chain [OF triple_attempt [OF safe_exchange_back]])
    show "triple (case r of Inr x \<Rightarrow> safe d0 W (if x then below (cd_at c @ [s]) else {}) | Inl _ \<Rightarrow> safe d0 W {})
        (if r = Inr True then chain (discard c s) (\<lambda>_. failed e) else failed e) Q (safe d0 W {})" for r
      using discard_failed [OF assms] by (cases r) (auto intro: triple_failed)
  qed (use assms inside_at in auto)
  show "triple (case r of Inr _ \<Rightarrow> ?S | Inl _ \<Rightarrow> ?S) (case r of
       Inr place \<Rightarrow> done_with (f place)
     | Inl e \<Rightarrow>
         chain (attempt (exchange c s name)) (\<lambda>back.
           if back = Inr True then chain (discard c s) (\<lambda>_. failed e) else failed e))
     (\<lambda>_. safe d0 W {}) (safe d0 W {})" for r
    by (cases r) (auto intro: triple_done undo safe_none)
qed

lemma unswapped_trash:
  assumes "inside W c"
  shows "triple (safe d0 W (below (cd_at c @ [s]))) (chain (attempt (trash_entry c name)) (\<lambda>trashed. case trashed of
       Inl e \<Rightarrow> chain (discard c s) (\<lambda>_. failed e)
     | Inr place \<Rightarrow> chain (map_failure g (commit c s name)) (\<lambda>_. done_with (f place))))
     (\<lambda>_. safe d0 W {}) (safe d0 W {})"
proof (rule triple_chain)
  let ?S = "safe d0 W (below (cd_at c @ [s]))"
  show "triple ?S (attempt (trash_entry c name))
      (\<lambda>r. case r of Inr _ \<Rightarrow> ?S | Inl _ \<Rightarrow> ?S) (safe d0 W {})"
    unfolding trash_entry_def by (rule triple_attempt [OF safe_trash]) (rule inside_below [OF assms])
  show "triple (case r of Inr _ \<Rightarrow> ?S | Inl _ \<Rightarrow> ?S) (case r of
       Inl e \<Rightarrow> chain (discard c s) (\<lambda>_. failed e)
     | Inr place \<Rightarrow> chain (map_failure g (commit c s name)) (\<lambda>_. done_with (f place)))
     (\<lambda>_. safe d0 W {}) (safe d0 W {})" for r
    by (cases r) (auto intro!: discard_failed [OF assms]
        triple_chain [OF triple_map_failure [OF commit_done [OF assms]]] triple_done)
qed

lemma keeps_replace_file [keeps_intros]:
  assumes c: "inside W (tg_dir t)" shows "keeps d0 W (replace_file wx t old bytes r)"
  unfolding replace_file_def Let_def
proof (rule keeps_chain [OF keeps_check_change], rule stage_then [OF c])
  fix s
  let ?c = "tg_dir t" and ?S = "safe d0 W (below (cd_at (tg_dir t) @ [s]))"
  show "triple ?S (chain (attempt (exchange ?c s (tg_name t))) (\<lambda>swapped. case swapped of
           Inr True \<Rightarrow>
             chain (attempt (trash_staged ?c s)) (\<lambda>trashed. case trashed of
               Inr place \<Rightarrow> done_with (in_trash (length bytes) place r)
             | Inl e \<Rightarrow>
                 chain (attempt (exchange ?c s (tg_name t))) (\<lambda>back.
                   if back = Inr True then chain (discard ?c s) (\<lambda>_. failed e) else failed e))
         | Inr False \<Rightarrow>
             chain (attempt (trash_entry ?c (tg_name t))) (\<lambda>trashed. case trashed of
               Inl e \<Rightarrow> chain (discard ?c s) (\<lambda>_. failed e)
             | Inr place \<Rightarrow>
                 chain (map_failure (\<lambda>e. tool_error (code e) (message e
                          @ '' The previous version is in the trash on the computer.''))
                        (commit ?c s (tg_name t))) (\<lambda>_.
                 done_with (in_trash (length bytes) place r)))
         | Inl e \<Rightarrow> chain (discard ?c s) (\<lambda>_. failed e)))
      (\<lambda>_. safe d0 W {}) (safe d0 W {})"
  proof (rule triple_chain [OF triple_attempt [OF safe_exchange]])
    show "triple (case b of Inr x \<Rightarrow> safe d0 W (if x then swapped ?c s (tg_name t) else below (cd_at ?c @ [s])) | Inl _ \<Rightarrow> ?S)
      (case b of
           Inr True \<Rightarrow>
             chain (attempt (trash_staged ?c s)) (\<lambda>trashed. case trashed of
               Inr place \<Rightarrow> done_with (in_trash (length bytes) place r)
             | Inl e \<Rightarrow>
                 chain (attempt (exchange ?c s (tg_name t))) (\<lambda>back.
                   if back = Inr True then chain (discard ?c s) (\<lambda>_. failed e) else failed e))
         | Inr False \<Rightarrow>
             chain (attempt (trash_entry ?c (tg_name t))) (\<lambda>trashed. case trashed of
               Inl e \<Rightarrow> chain (discard ?c s) (\<lambda>_. failed e)
             | Inr place \<Rightarrow>
                 chain (map_failure (\<lambda>e. tool_error (code e) (message e
                          @ '' The previous version is in the trash on the computer.''))
                        (commit ?c s (tg_name t))) (\<lambda>_.
                 done_with (in_trash (length bytes) place r)))
         | Inl e \<Rightarrow> chain (discard ?c s) (\<lambda>_. failed e))
      (\<lambda>_. safe d0 W {}) (safe d0 W {})" for b
      using swapped_trash [OF c] unswapped_trash [OF c] discard_failed [OF c]
      by (cases b) (auto split: bool.splits)
  qed (use c inside_at in auto)
qed

lemma keeps_finish_text_change [keeps_intros]:
  "inside W (tg_dir t) \<Longrightarrow> keeps d0 W (finish_text_change wx t st sha old new eff dry)"
  unfolding finish_text_change_def Let_def by (auto intro: keeps_intros)

section \<open>Looking around\<close>

lemma quiet_each: "(\<And>x s. quiet (f x s)) \<Longrightarrow> quiet (each f xs s)"
  by (induction xs arbitrary: s) (auto intro: quiet_intros)

lemma quiet_markers [quiet_intros]: "quiet (git_markers wx c but)"
proof -
  have "quiet (count_markers u c but ms n)" for u ms n
    by (induction u c but ms n rule: count_markers.induct) (auto intro: quiet_intros)
  then show ?thesis by (simp add: git_markers_def)
qed

lemma quiet_real_place [quiet_intros]: "quiet (real_place wx c)"
  by (auto simp: real_place_def intro: quiet_intros split: option.splits)

lemma quiet_check_folder [quiet_intros]: "quiet (check_folder wx h c)"
  unfolding check_folder_def by (auto intro!: quiet_intros split: option.splits)

lemma quiet_walk_down [quiet_intros]: "quiet (walk_down wx h c real ps)"
  by (induction wx h c real ps rule: walk_down.induct) (auto intro!: quiet_intros)

lemma quiet_open_parent [quiet_intros]: "quiet (open_parent wx h ps)"
  unfolding open_parent_def by (intro quiet_intros)

lemma quiet_find_target [quiet_intros]: "quiet (find_target wx s)"
  unfolding find_target_def Let_def by (auto intro!: quiet_intros split: option.splits)

lemma quiet_existing_text [quiet_intros]: "quiet (existing_text wx t st expected)"
  unfolding existing_text_def Let_def by (auto intro!: quiet_intros)

lemma quiet_inspect_tree [quiet_intros]: "quiet (inspect_tree n wx c dest tree)"
  by (induction n arbitrary: c dest tree)
    (auto simp: Let_def intro!: quiet_intros quiet_each split: entry_kind.splits)

lemma quiet_check_source [quiet_intros]: "quiet (check_source wx t deleting dest)"
  unfolding check_source_def by (auto intro!: quiet_intros split: option.splits entry_kind.splits)

lemma quiet_find_missing [quiet_intros]: "quiet (find_missing wx h c real rel ps)"
  by (induction wx h c real rel ps rule: find_missing.induct)
    (auto intro!: quiet_intros split: option.splits)

section \<open>Folders and moves\<close>

lemma each_triple: "(\<And>x s. triple P (f x s) (\<lambda>_. P) P) \<Longrightarrow> triple P (each f xs s) (\<lambda>_. P) P"
  by (induction xs arbitrary: s) (auto intro: triple_done triple_chain)

lemma keeps_make_dirs [keeps_intros]: "inside W c \<Longrightarrow> keeps d0 W (make_dirs wx c ps)"
proof (induction ps arbitrary: c)
  case (Cons p ps)
  have "keeps d0 W (chain (subdir c p) (\<lambda>c'. make_dirs wx c' ps))"
    by (rule triple_value [OF keeps_basic(7) yields_subdir])
      (auto intro!: Cons.IH inside_down [OF Cons.prems])
  then show ?case using Cons.prems by (auto intro!: keeps_chain keeps_make_dir)
qed (simp add: keeps_basic)

lemma copy_tree_keeps:
  assumes "inside W to" "below (cd_at to) \<subseteq> R"
  shows "triple (safe d0 W R) (copy_tree n wx from to) (\<lambda>_. safe d0 W R) (safe d0 W R)"
  using assms
proof (induction n arbitrary: "from" to)
  case 0
  show ?case by (simp add: triple_failed)
next
  case (Suc n)
  have R: "R \<union> below (cd_at to @ [x]) = R" "below (cd_at to @ [x]) \<subseteq> R" for x
    using Suc.prems(2) by (auto simp: below_def starts_with_iff)
  have W: "cd_at to @ [x] \<in> W" "below (cd_at to @ [x]) \<subseteq> W" for x
    using Suc.prems(1) inside_at inside_below by auto
  have one: "triple (safe d0 W R) (chain (stage to bytes m) (\<lambda>staged. commit to staged name))
      (\<lambda>_. safe d0 W R) (safe d0 W R)" for bytes m name
    by (rule triple_chain [OF safe_stage [OF W(1)]])
      (use safe_commit [OF W(2) W(2) R(2)] in \<open>simp add: R(1)\<close>)
  have mk: "triple (safe d0 W R) (make_dir to name m) (\<lambda>_. safe d0 W R) (safe d0 W R)" for name m
    by (rule triple_weaken [OF safe_make_dir [OF W(1)]]) (simp_all add: R(1))
  have folder: "triple (safe d0 W R) (chain (subdir from name) (\<lambda>f. chain (subdir to name)
      (\<lambda>t. copy_tree n wx f t))) (\<lambda>_. safe d0 W R) (safe d0 W R)" for name
  proof (rule triple_chain [OF quiet_safe])
    fix f
    show "triple (safe d0 W R) (chain (subdir to name) (\<lambda>t. copy_tree n wx f t))
        (\<lambda>_. safe d0 W R) (safe d0 W R)"
      by (rule triple_value [OF quiet_safe yields_subdir])
        (auto intro!: quiet_intros Suc.IH inside_down [OF Suc.prems(1)] dest: R(2) [THEN subsetD])
  qed (rule quiet_intros)
  show ?case
    unfolding copy_tree.simps
    by (rule triple_chain [OF quiet_safe], rule quiet_intros)
      (auto intro!: each_triple triple_failed triple_chain [OF mk] folder
        triple_chain [OF quiet_safe [OF quiet_read_file]] one split: entry_kind.splits)
qed

lemma safe_temp:
  "triple (safe d0 W {}) temp_name (\<lambda>_. safe d0 W {}) (safe d0 W {})"
  by (rule keeps_quiet) (rule quiet_basic)

lemma remove_failed:
  "inside W c \<Longrightarrow> triple (safe d0 W (below (cd_at c @ [t]))) (chain (remove_own c t) (\<lambda>_. failed e)) Q (safe d0 W {})"
  by (rule triple_chain [OF safe_remove_own [where R = "below (cd_at c @ [t])"]])
    (auto dest: inside_below intro: triple_failed safe_none)

lemma copy_file_safe:
  assumes "inside W dd"
  shows "triple (safe d0 W {}) (chain (stage dd bytes m) (\<lambda>s. commit dd s name))
    (\<lambda>_. safe d0 W (below (cd_at dd @ [name]))) (safe d0 W {})"
proof (rule triple_chain [OF safe_stage])
  show "triple (safe d0 W ({} \<union> below (cd_at dd @ [s]))) (commit dd s name)
      (\<lambda>_. safe d0 W (below (cd_at dd @ [name]))) (safe d0 W {})" for s
    by (rule triple_weaken [OF safe_commit [where R = "below (cd_at dd @ [s])"]])
      (auto intro: safe_less dest: inside_below [OF assms, THEN subsetD])
qed (rule inside_at [OF assms])

lemma rename_copy_safe:
  assumes "inside W dd"
  shows "triple (safe d0 W (below (cd_at dd @ [temp])))
    (chain (rename_to dd temp dd name) (\<lambda>r. case r of
         Inr _ \<Rightarrow> done_with ()
       | Inl AlreadyExists \<Rightarrow> failed e1
       | Inl CrossDevice \<Rightarrow> failed e2
       | Inl (OtherError e) \<Rightarrow> failed e))
    (\<lambda>_. safe d0 W (below (cd_at dd @ [name]))) (safe d0 W (below (cd_at dd @ [temp])))"
proof (rule triple_chain [OF safe_rename [where R = "below (cd_at dd @ [temp])"]])
  let ?T = "safe d0 W (below (cd_at dd @ [temp]))"
  show "triple (case r of Inr _ \<Rightarrow> safe d0 W (below (cd_at dd @ [temp]) \<union> below (cd_at dd @ [name])) | Inl _ \<Rightarrow> ?T)
     (case r of
         Inr _ \<Rightarrow> done_with ()
       | Inl AlreadyExists \<Rightarrow> failed e1
       | Inl CrossDevice \<Rightarrow> failed e2
       | Inl (OtherError e) \<Rightarrow> failed e)
     (\<lambda>_. safe d0 W (below (cd_at dd @ [name]))) ?T" for r
    by (cases r) (auto intro: triple_done triple_failed safe_less split: rename_error.splits)
qed (use inside_below [OF assms] in auto)

lemma copy_folder_safe:
  assumes "inside W dd"
  shows "triple (safe d0 W {})
    (chain temp_name (\<lambda>temp.
     chain (make_dir dd temp m) (\<lambda>_.
     chain (attempt (chain (subdir sd src) (\<lambda>from.
                     chain (subdir dd temp) (\<lambda>to.
                     chain (copy_tree n wx from to) (\<lambda>_.
                     chain (rename_to dd temp dd name) (\<lambda>r. case r of
                       Inr _ \<Rightarrow> done_with ()
                     | Inl AlreadyExists \<Rightarrow> failed e1
                     | Inl CrossDevice \<Rightarrow> failed e2
                     | Inl (OtherError e) \<Rightarrow> failed e))))))
       (\<lambda>copied. case copied of
          Inr _ \<Rightarrow> done_with ()
        | Inl e \<Rightarrow> chain (remove_own dd temp) (\<lambda>_. failed e)))))
    (\<lambda>_. safe d0 W (below (cd_at dd @ [name]))) (safe d0 W {})"
proof (rule triple_chain [OF safe_temp], rule triple_chain [OF safe_make_dir], rule inside_at [OF assms],
    rule triple_chain [OF triple_attempt])
  fix temp :: string
  let ?T = "safe d0 W (below (cd_at dd @ [temp]))"
  have c: "triple ?T (copy_tree n wx from to) (\<lambda>_. ?T) ?T" if "cd_at to = cd_at dd @ [temp]" for "from" to
    by (rule copy_tree_keeps) (use that inside_down [OF assms, of to] in auto)
  show "triple (safe d0 W ({} \<union> below (cd_at dd @ [temp])))
     (chain (subdir sd src) (\<lambda>from.
      chain (subdir dd temp) (\<lambda>to.
      chain (copy_tree n wx from to) (\<lambda>_.
      chain (rename_to dd temp dd name) (\<lambda>r. case r of
        Inr _ \<Rightarrow> done_with ()
      | Inl AlreadyExists \<Rightarrow> failed e1
      | Inl CrossDevice \<Rightarrow> failed e2
      | Inl (OtherError e) \<Rightarrow> failed e)))))
     (\<lambda>_. safe d0 W (below (cd_at dd @ [name]))) ?T"
    unfolding Un_empty_left
    by (rule triple_chain [OF quiet_safe], rule quiet_intros,
        rule triple_value [OF quiet_safe yields_subdir], rule quiet_intros,
        rule triple_chain [OF c], assumption, rule rename_copy_safe [OF assms])
  show "triple (case r of Inr _ \<Rightarrow> safe d0 W (below (cd_at dd @ [name])) | Inl _ \<Rightarrow> ?T)
     (case r of Inr _ \<Rightarrow> done_with () | Inl e \<Rightarrow> chain (remove_own dd temp) (\<lambda>_. failed e))
     (\<lambda>_. safe d0 W (below (cd_at dd @ [name]))) (safe d0 W {})" for r :: "tool_error + unit"
    by (cases r) (auto intro: triple_done remove_failed [OF assms])
qed

lemma keeps_copy_across:
  assumes "inside W (tg_dir src)" "inside W (tg_dir dst)"
  shows "keeps d0 W (copy_across wx src dst st)"
  unfolding copy_across_def Let_def
proof (rule triple_chain)
  let ?D = "safe d0 W (below (cd_at (tg_dir dst) @ [tg_name dst]))"
  show "triple ?D (chain (attempt (trash_entry (tg_dir src) (tg_name src))) (\<lambda>trashed. case trashed of
            Inr _ \<Rightarrow> done_with ()
          | Inl e \<Rightarrow> chain (remove_own (tg_dir dst) (tg_name dst)) (\<lambda>_. failed e)))
      (\<lambda>_. safe d0 W {}) (safe d0 W {})"
  proof (rule triple_chain)
    show "triple ?D (attempt (trash_entry (tg_dir src) (tg_name src)))
        (\<lambda>r. case r of Inr _ \<Rightarrow> ?D | Inl _ \<Rightarrow> ?D) (safe d0 W {})"
      unfolding trash_entry_def by (rule triple_attempt [OF safe_trash]) (rule inside_below [OF assms(1)])
    show "triple (case r of Inr _ \<Rightarrow> ?D | Inl _ \<Rightarrow> ?D)
        (case r of Inr _ \<Rightarrow> done_with ()
          | Inl e \<Rightarrow> chain (remove_own (tg_dir dst) (tg_name dst)) (\<lambda>_. failed e))
        (\<lambda>_. safe d0 W {}) (safe d0 W {})" for r :: "tool_error + string"
      by (cases r) (auto intro: triple_done safe_none remove_failed [OF assms(2)])
  qed
qed (cases "es_kind st"; simp only: entry_kind.case;
    (rule copy_folder_safe [OF assms(2)])?;
    intro triple_pair triple_chain [OF keeps_basic(9)] triple_chain [OF keeps_basic(4)] copy_file_safe [OF assms(2)])

lemma keeps_move_into_place [keeps_intros]:
  assumes "inside W (tg_dir src)" "inside W (tg_dir dst)"
  shows "keeps d0 W (move_into_place wx src dst st bytes r)"
  unfolding move_into_place_def
proof (rule keeps_chain [OF safe_rename_all])
  show "keeps d0 W (case m of
       Inr _ \<Rightarrow> done_with r
     | Inl CrossDevice \<Rightarrow> chain (copy_across wx src dst st) (\<lambda>_. done_with (r\<lparr>cr_written := bytes\<rparr>))
     | Inl AlreadyExists \<Rightarrow> failed (appeared dst)
     | Inl (OtherError e) \<Rightarrow> failed e)" for m
    using keeps_copy_across [OF assms]
    by (auto intro!: keeps_intros split: sum.splits rename_error.splits)
qed (use inside_below assms in auto)

end
