(* ===== verification/Changes.thy ===== *)
theory Changes
  imports Writer Tools
begin

text \<open>
  \<open>run_change\<close> of \<open>src/tools.rs\<close>: the seven change tools by name, with the arguments as serde
  reads the requests of \<open>src/writer/mod.rs\<close>, and the whole writer as the function the model of the
  tools takes for it.
\<close>

section \<open>Requests\<close>

text \<open>A field with \<open>serde(default)\<close> that is not optional: \<open>null\<close> is refused.\<close>

definition field_default :: "(json \<Rightarrow> 'a option) \<Rightarrow> 'a \<Rightarrow> json \<Rightarrow> string \<Rightarrow> 'a option" where
  "field_default f x v k = (case get v k of None \<Rightarrow> Some x | Some y \<Rightarrow> f y)"

definition serde_create :: "json \<Rightarrow> create_request option" where
  "serde_create v =
     (if \<not> only_fields [''path'', ''content'', ''dry_run''] v then None
      else (case (field_string v ''path'', field_string v ''content'', field_default as_bool False v ''dry_run'') of
        (Some p, Some c, Some d) \<Rightarrow> Some \<lparr>cq_path = p, cq_content = c, cq_dry_run = d\<rparr>
      | _ \<Rightarrow> None))"

text \<open>A unit variant is its name, or an object with the name as the only key and \<open>null\<close>.\<close>

definition mode_name :: "string \<Rightarrow> write_mode option" where
  "mode_name s = (if s = ''replace'' then Some Replace else if s = ''append'' then Some Append else None)"

fun serde_mode :: "json \<Rightarrow> write_mode option" where
  "serde_mode (JStr s) = mode_name s"
| "serde_mode (JObj m) =
     (if m = fmap_of_list [(''replace'', JNull)] then Some Replace
      else if m = fmap_of_list [(''append'', JNull)] then Some Append else None)"
| "serde_mode _ = None"

definition serde_write :: "json \<Rightarrow> write_request option" where
  "serde_write v =
     (if \<not> only_fields [''path'', ''content'', ''mode'', ''expected_sha256'', ''dry_run''] v then None
      else (case (field_string v ''path'', field_string v ''content'', field_default serde_mode Replace v ''mode'',
                  field_opt as_str v ''expected_sha256'', field_default as_bool False v ''dry_run'') of
        (Some p, Some c, Some m, Some x, Some d) \<Rightarrow>
          Some \<lparr>wq_path = p, wq_content = c, wq_mode = m, wq_expected_sha256 = x, wq_dry_run = d\<rparr>
      | _ \<Rightarrow> None))"

definition serde_edit :: "json \<Rightarrow> edit_request option" where
  "serde_edit v =
     (if \<not> only_fields [''path'', ''old_text'', ''new_text'', ''expected_sha256'', ''dry_run''] v then None
      else (case (field_string v ''path'', field_string v ''old_text'', field_string v ''new_text'',
                  field_opt as_str v ''expected_sha256'', field_default as_bool False v ''dry_run'') of
        (Some p, Some a, Some b, Some x, Some d) \<Rightarrow>
          Some \<lparr>eq_path = p, eq_old_text = a, eq_new_text = b, eq_expected_sha256 = x, eq_dry_run = d\<rparr>
      | _ \<Rightarrow> None))"

definition serde_mkdir :: "json \<Rightarrow> mkdir_request option" where
  "serde_mkdir v =
     (if \<not> only_fields [''path'', ''parents'', ''dry_run''] v then None
      else (case (field_string v ''path'', field_default as_bool False v ''parents'',
                  field_default as_bool False v ''dry_run'') of
        (Some p, Some a, Some d) \<Rightarrow> Some \<lparr>mq_path = p, mq_parents = a, mq_dry_run = d\<rparr>
      | _ \<Rightarrow> None))"

definition serde_move :: "json \<Rightarrow> move_request option" where
  "serde_move v =
     (if \<not> only_fields [''from'', ''to'', ''replace'', ''dry_run''] v then None
      else (case (field_string v ''from'', field_string v ''to'', field_default as_bool False v ''replace'',
                  field_default as_bool False v ''dry_run'') of
        (Some a, Some b, Some r, Some d) \<Rightarrow>
          Some \<lparr>vq_from = a, vq_to = b, vq_replace = r, vq_dry_run = d\<rparr>
      | _ \<Rightarrow> None))"

record delete_request =
  xq_path :: string
  xq_dry_run :: bool

definition serde_delete :: "json \<Rightarrow> delete_request option" where
  "serde_delete v =
     (if \<not> only_fields [''path'', ''dry_run''] v then None
      else (case (field_string v ''path'', field_default as_bool False v ''dry_run'') of
        (Some p, Some d) \<Rightarrow> Some \<lparr>xq_path = p, xq_dry_run = d\<rparr>
      | _ \<Rightarrow> None))"

definition serde_list_of :: "(json \<Rightarrow> 'a option) \<Rightarrow> json \<Rightarrow> 'a list option" where
  "serde_list_of f v = (case as_array v of None \<Rightarrow> None | Some xs \<Rightarrow> all_some (map f xs))"

text \<open>A struct that is not the arguments themselves may also be the array of its fields.\<close>

fun serde_sheet :: "json \<Rightarrow> sheet option" where
  "serde_sheet (JArr xs) = (case xs of
     [JStr n, r] \<Rightarrow> map_option (\<lambda>r. \<lparr>st_name = n, st_rows = r, st_header = False\<rparr>) (serde_list_of as_array r)
   | [JStr n, r, JBool h] \<Rightarrow> map_option (\<lambda>r. \<lparr>st_name = n, st_rows = r, st_header = h\<rparr>) (serde_list_of as_array r)
   | _ \<Rightarrow> None)"
| "serde_sheet v =
     (if \<not> only_fields [''name'', ''rows'', ''header''] v then None
      else (case (field_string v ''name'', Option.bind (get v ''rows'') (serde_list_of as_array),
                  field_default as_bool False v ''header'') of
        (Some n, Some r, Some h) \<Rightarrow> Some \<lparr>st_name = n, st_rows = r, st_header = h\<rparr>
      | _ \<Rightarrow> None))"

definition serde_document :: "json \<Rightarrow> document_request option" where
  "serde_document v =
     (if \<not> only_fields [''path'', ''content'', ''sheets'', ''replace'', ''dry_run''] v then None
      else (case (field_string v ''path'', field_opt as_str v ''content'',
                  field_opt (serde_list_of serde_sheet) v ''sheets'',
                  field_default as_bool False v ''replace'', field_default as_bool False v ''dry_run'') of
        (Some p, Some c, Some s, Some r, Some d) \<Rightarrow>
          Some \<lparr>dq_path = p, dq_content = c, dq_sheets = s, dq_replace = r, dq_dry_run = d\<rparr>
      | _ \<Rightarrow> None))"

section \<open>The change tools\<close>

definition run_change :: "writer_ctx \<Rightarrow> (json \<Rightarrow> string) \<Rightarrow> string \<Rightarrow> json \<Rightarrow> change_result act" where
  "run_change wx bad name args =
     (if name = ''create'' then chain (lift (parse_args bad serde_create args)) (create wx)
      else if name = ''write'' then chain (lift (parse_args bad serde_write args)) (write_text wx)
      else if name = ''edit'' then chain (lift (parse_args bad serde_edit args)) (edit wx)
      else if name = ''mkdir'' then chain (lift (parse_args bad serde_mkdir args)) (mkdir wx)
      else if name = ''move'' then chain (lift (parse_args bad serde_move args)) (move_entry wx)
      else if name = ''delete'' then chain (lift (parse_args bad serde_delete args))
        (\<lambda>q. delete wx (xq_path q) (xq_dry_run q))
      else if name = ''create_document'' then chain (lift (parse_args bad serde_document args)) (create_document wx)
      else failed (invalid_argument (env_dbg (wx_env wx) name @ '' is not a change tool'')))"

text \<open>The writer on a disk, in the form \<open>cx_change\<close> of the tools takes it.\<close>

definition changes_of ::
  "writer_ctx \<Rightarrow> (json \<Rightarrow> string) \<Rightarrow> disk \<Rightarrow> string \<Rightarrow> json \<Rightarrow> windows \<Rightarrow> (tool_error + change_result) \<times> windows" where
  "changes_of wx bad d name args w =
     (case run_change wx bad name args (d\<lparr>dk_limiter := w\<rparr>) of (r, d') \<Rightarrow> (r, dk_limiter d'))"

end
