(* ===== verification/ChangeFacts.thy ===== *)
theory ChangeFacts
  imports WriterFacts Changes ToolFacts
begin

text \<open>
  What the change tools promise, whatever the operating system refuses on the way: nothing a disk
  held is lost, nothing changes outside the folders that allow it, a dry run changes nothing, and
  what a change works on passed every check.
\<close>

section \<open>Where a target lies\<close>

definition changeable :: "writer_ctx \<Rightarrow> path set" where
  "changeable wx = {k. \<exists>h \<in> set (st_roots (wx_view wx)).
     view_writable (wx_view wx) (h_id h) \<and> k \<in> below (h_path h) \<and> k \<noteq> h_path h}"

lemma inside_changeable:
  "h \<in> set (st_roots (wx_view wx)) \<Longrightarrow> view_writable (wx_view wx) (h_id h)
   \<Longrightarrow> starts_with (cd_at c) (h_path h) \<Longrightarrow> inside (changeable wx) c"
  by (fastforce simp: inside_def changeable_def below_def starts_with_iff)

lemma view_root_Inr: "view_root env st i = Inr h \<Longrightarrow> h \<in> set (st_roots st) \<and> h_id h = i"
  by (auto simp: view_root_def dest: find_SomeD split: option.splits if_splits)

lemma yields_walk_down:
  "yields (walk_down wx h c real ps) (\<lambda>(c', _). cd_at c' = cd_at c @ ps)"
proof (induction wx h c real ps rule: walk_down.induct)
  case (2 wx h c real p ps)
  show ?case
    unfolding walk_down.simps
    by (rule yields_chain [OF yields_subdir], rule yields_chain [OF yields_True])
      (use 2 in \<open>auto simp: yields_def\<close>)
qed (simp add: yields_done)

lemma yields_open_parent:
  "yields (open_parent wx h ps) (\<lambda>(c, _). cd_at c = h_path h @ ps)"
  unfolding open_parent_def
  by (rule yields_chain [OF yields_open_root], rule yields_chain [OF yields_True])
    (use yields_walk_down in \<open>auto simp: yields_def\<close>)

text \<open>What a target that was found has passed.\<close>

definition granted :: "writer_ctx \<Rightarrow> target \<Rightarrow> bool" where
  "granted wx t \<longleftrightarrow> (\<exists>h \<in> set (st_roots (wx_view wx)). view_writable (wx_view wx) (h_id h)
     \<and> starts_with (cd_at (tg_dir t)) (h_path h)
     \<and> cd_at (tg_dir t) @ [tg_name t] = tg_abs t
     \<and> check_nested wx h (tg_abs t) = Inr ())
     \<and> check_denied wx (tg_abs t) = Inr () \<and> check_denied wx (tg_real t) = Inr ()"

lemma parent_parses:
  assumes "env_parse env s = Inr p" "file_name (tp_rel p) = Some name"
    and "rel_parse (env_windows env) (as_string (butlast (tp_rel p))) = Inr parent"
  shows "parent @ [name] = tp_rel p"
proof -
  obtain rel where "rel_parse (env_windows env) rel = Inr (tp_rel p)"
    using assms(1) tool_path_parse_Inr unfolding env_parse_def by blast
  then have "\<forall>c \<in> set (tp_rel p). safe_component (env_windows env) c" by (rule rel_parse_safe(1))
  then have "\<forall>c \<in> set (butlast (tp_rel p)). safe_component (env_windows env) c"
    by (auto dest: in_set_butlastD)
  then have "parent = butlast (tp_rel p)" using rel_parse_as_string assms(3) by fastforce
  then show ?thesis using assms(2) by (auto simp: file_name_def split: if_splits)
qed

lemma yields_pair: "(\<And>a b. x = (a, b) \<Longrightarrow> yields (f a b) P) \<Longrightarrow> yields (case x of (a, b) \<Rightarrow> f a b) P"
  by (cases x) simp

lemma yields_find_target: "yields (find_target wx s) (granted wx)"
proof -
  let ?env = "wx_env wx" and ?st = "wx_view wx"
  have last: "yields (let folded = fold_name (env_libs ?env) name;
               t = \<lparr>tg_tool_path = display (h_id h) (tp_rel p), tg_name = name,
                    tg_abs = handle_path h (tp_rel p), tg_real = real @ [name], tg_dir = c\<rparr>
           in if list_ex (\<lambda>(m, _). fold_name (env_libs ?env) m = folded) GIT_MARKERS
              then chain (git_markers wx c (Some folded)) (\<lambda>n.
                     if n = length GIT_MARKERS - 1 then failed git_internals else done_with t)
              else done_with t) (granted wx)"
    if "h \<in> set (st_roots ?st)" "view_writable ?st (h_id h)" "parent @ [name] = tp_rel p"
      "cd_at c = h_path h @ parent" "check_nested wx h (handle_path h (tp_rel p)) = Inr ()"
      "check_denied wx (handle_path h (tp_rel p)) = Inr ()" "check_denied wx (real @ [name]) = Inr ()"
    for h p name parent c real
  proof -
    have "granted wx \<lparr>tg_tool_path = display (h_id h) (tp_rel p), tg_name = name,
        tg_abs = handle_path h (tp_rel p), tg_real = real @ [name], tg_dir = c\<rparr>"
      using that unfolding granted_def handle_path_def abs_path_def that(3) [symmetric]
      by (auto intro!: bexI [of _ h])
    then show ?thesis
      by (auto simp: Let_def intro!: yields_done yields_failed yields_chain [OF yields_True])
  qed
  show ?thesis
    unfolding find_target_def
    apply (rule yields_chain [OF yields_lift_eq])
    apply (rule yields_chain [OF yields_lift_eq])
    apply (rule yields_chain [OF yields_refuse])
    apply (split option.split, intro conjI allI impI, rule yields_failed)
    apply (rule yields_chain [OF yields_lift_eq])
    apply (rule yields_chain [OF yields_lift_eq])
    apply (rule yields_chain [OF yields_lift_eq])
    apply (rule yields_chain [OF yields_map_failure [OF yields_open_parent]], rule yields_pair)
    apply (rule yields_chain [OF yields_lift_eq])
    apply (rule last)
    apply (auto dest: view_root_Inr intro: parent_parses)
    done
qed

section \<open>Nothing is lost, and nothing changes elsewhere\<close>

lemma granted_inside: "granted wx t \<Longrightarrow> inside (changeable wx) (tg_dir t)"
  unfolding granted_def by (blast intro: inside_changeable)

lemma target_then:
  assumes "\<And>t. granted wx t \<Longrightarrow> inside (changeable wx) (tg_dir t) \<Longrightarrow> keeps d0 (changeable wx) (f t)"
  shows "keeps d0 (changeable wx) (chain (find_target wx s) f)"
  by (rule triple_value [OF keeps_quiet [OF quiet_find_target] yields_find_target])
    (use assms granted_inside in blast)

lemma keeps_existing_text [keeps_intros]: "keeps d0 W (existing_text wx t st expected)"
  by (rule keeps_quiet) (rule quiet_intros)

lemma keeps_check_source [keeps_intros]: "keeps d0 W (check_source wx t deleting dest)"
  by (rule keeps_quiet) (rule quiet_intros)

lemma keeps_create: "keeps d0 (changeable wx) (create wx q)"
  unfolding create_def by (rule target_then) (intro keeps_intros; assumption)

lemma keeps_write_text: "keeps d0 (changeable wx) (write_text wx q)"
  unfolding write_text_def Let_def
  by (rule target_then) (auto intro!: keeps_intros split: option.splits write_mode.splits)

lemma keeps_edit: "keeps d0 (changeable wx) (edit wx q)"
  unfolding edit_def Let_def
  by (intro keeps_chain [OF keeps_basic(4)] target_then) (auto intro!: keeps_intros split: option.splits)

lemma keeps_create_document: "keeps d0 (changeable wx) (create_document wx q)"
  unfolding create_document_def Let_def
  by (rule target_then) (auto intro!: keeps_intros split: option.splits)

lemma keeps_make_one: "keeps d0 (changeable wx) (make_one wx path dry)"
  unfolding make_one_def Let_def
  by (rule target_then) (auto intro!: keeps_intros split: option.splits)

lemma keeps_delete: "keeps d0 (changeable wx) (delete wx path dry)"
  unfolding delete_def Let_def
  by (rule target_then) (auto intro!: keeps_intros split: option.splits)

lemma keeps_move_entry: "keeps d0 (changeable wx) (move_entry wx q)"
  unfolding move_entry_def Let_def
  by (rule target_then, rule target_then) (auto intro!: keeps_intros split: option.splits)

lemma yields_find_missing:
  "yields (find_missing wx h c real rel ps) (\<lambda>(c', _). starts_with (cd_at c') (cd_at c))"
proof (induction wx h c real rel ps rule: find_missing.induct)
  case (2 wx h c real rel p ps)
  have down: "yields (chain (subdir c p) (\<lambda>c'. chain (check_folder wx h c') (\<lambda>real'.
      find_missing wx h c' real' (rel @ [p]) ps))) (\<lambda>(c', _). starts_with (cd_at c') (cd_at c))"
    if "es_kind st = DirEntry" for st :: entry_stat
    by (rule yields_chain [OF yields_subdir], rule yields_chain [OF yields_True])
      (use 2(1) [OF that] in \<open>fastforce simp: yields_def starts_with_iff\<close>)
  show ?case
    unfolding find_missing.simps
    apply (rule yields_chain [OF yields_True])+
    apply (split option.split, intro conjI allI impI)
     apply ((rule yields_chain [OF yields_True])+, simp add: yields_done)
    apply (simp add: down yields_failed)
    done
qed (simp add: yields_done)

lemma keeps_make_parents: "keeps d0 (changeable wx) (make_parents wx path dry)"
  unfolding make_parents_def
  apply (rule keeps_chain [OF keeps_basic(3)])
  apply (rule triple_value [OF keeps_basic(3) yields_lift_eq])
  apply (rule triple_value [OF keeps_basic(4) yields_refuse])
  apply (rule keeps_chain [OF keeps_basic(4)])
  apply (rule triple_value [OF keeps_basic(8) yields_open_root])
  apply (rule keeps_chain [OF keeps_quiet [OF quiet_check_folder]])
  apply (rule triple_value [OF keeps_quiet [OF quiet_find_missing] yields_find_missing])
  apply (rule triple_pair)
  apply (auto simp: Let_def dest: view_root_Inr intro!: keeps_intros inside_changeable)
  done

lemma keeps_mkdir: "keeps d0 (changeable wx) (mkdir wx q)"
  by (simp add: mkdir_def keeps_make_one keeps_make_parents)

lemma keeps_run_change: "keeps d0 (changeable wx) (run_change wx bad name args)"
  unfolding run_change_def
  by (simp only: split: if_split)
    (intro conjI impI keeps_chain keeps_basic keeps_create keeps_write_text keeps_edit
      keeps_create_document keeps_mkdir keeps_delete keeps_move_entry)

lemma safe_run_change:
  "wf_disk d \<Longrightarrow> safe d (changeable wx) {} (snd (run_change wx bad name args d))"
  by (rule triple_end [OF keeps_run_change safe_start])

section \<open>Dry runs\<close>

lemma quiet_option: "quiet m \<Longrightarrow> (\<And>x. quiet (f x)) \<Longrightarrow> quiet (case z of None \<Rightarrow> m | Some x \<Rightarrow> f x)"
  by (cases z) auto

lemma quiet_pair: "(\<And>a b. quiet (f a b)) \<Longrightarrow> quiet (case z of (a, b) \<Rightarrow> f a b)"
  by (cases z) simp

lemmas quiet_run = quiet_chain quiet_basic quiet_looking quiet_find_target quiet_existing_text
  quiet_check_source quiet_find_missing quiet_check_folder quiet_option quiet_pair

lemma quiet_create_file: "quiet (create_file wx t bytes True)"
  by (simp add: create_file_def quiet_basic)

lemma quiet_finish: "quiet (finish_text_change wx t st sha old new eff True)"
  by (simp add: finish_text_change_def quiet_basic)

lemma quiet_create: "cq_dry_run q \<Longrightarrow> quiet (create wx q)"
  unfolding create_def by (intro quiet_run) (simp add: quiet_create_file)

lemma quiet_write_text: "wq_dry_run q \<Longrightarrow> quiet (write_text wx q)"
  unfolding write_text_def Let_def
  by (intro quiet_run) (auto simp: quiet_create_file quiet_finish intro!: quiet_run split: write_mode.splits)

lemma quiet_edit: "eq_dry_run q \<Longrightarrow> quiet (edit wx q)"
  unfolding edit_def Let_def by (intro quiet_run) (simp add: quiet_finish)

lemma quiet_create_document: "dq_dry_run q \<Longrightarrow> quiet (create_document wx q)"
  unfolding create_document_def Let_def
  by (intro quiet_run) (simp_all add: quiet_create_file quiet_basic)

lemma quiet_mkdir: "mq_dry_run q \<Longrightarrow> quiet (mkdir wx q)"
  unfolding mkdir_def make_one_def make_parents_def Let_def
  by (simp split: if_split) (intro conjI impI quiet_run; simp add: quiet_basic)

lemma quiet_delete: "quiet (delete wx path True)"
  unfolding delete_def Let_def by (intro quiet_run) (simp add: quiet_basic)

lemma quiet_move_entry: "vq_dry_run q \<Longrightarrow> quiet (move_entry wx q)"
  unfolding move_entry_def Let_def by (intro quiet_run) (simp_all add: quiet_basic)

lemma quiet_lift_then: "(\<And>x. r = Inr x \<Longrightarrow> quiet (f x)) \<Longrightarrow> quiet (chain (lift r) f)"
  by (cases r) (auto simp: quiet_def chain_def lift_def same_def)

lemma parse_args_Inr: "parse_args bad f args = Inr q \<Longrightarrow> f args = Some q"
  by (auto simp: parse_args_def split: option.splits)

lemma dry_requests:
  assumes "is_dry_run args"
  shows "serde_create args = Some a \<Longrightarrow> cq_dry_run a" "serde_write args = Some b \<Longrightarrow> wq_dry_run b"
    "serde_edit args = Some c \<Longrightarrow> eq_dry_run c" "serde_mkdir args = Some e \<Longrightarrow> mq_dry_run e"
    "serde_move args = Some f \<Longrightarrow> vq_dry_run f" "serde_delete args = Some g \<Longrightarrow> xq_dry_run g"
    "serde_document args = Some h \<Longrightarrow> dq_dry_run h"
proof -
  have "field_default as_bool False args ''dry_run'' = Some True"
    using assms by (simp add: is_dry_run_def field_default_def)
  then show "serde_create args = Some a \<Longrightarrow> cq_dry_run a" "serde_write args = Some b \<Longrightarrow> wq_dry_run b"
    "serde_edit args = Some c \<Longrightarrow> eq_dry_run c" "serde_mkdir args = Some e \<Longrightarrow> mq_dry_run e"
    "serde_move args = Some f \<Longrightarrow> vq_dry_run f" "serde_delete args = Some g \<Longrightarrow> xq_dry_run g"
    "serde_document args = Some h \<Longrightarrow> dq_dry_run h"
    unfolding serde_create_def serde_write_def serde_edit_def serde_mkdir_def serde_move_def
      serde_delete_def serde_document_def
    by (auto split: if_splits option.splits)
qed

lemma quiet_run_change:
  assumes "is_dry_run args" shows "quiet (run_change wx bad name args)"
proof -
  have x: "quiet (delete wx p b)" if "b" for p b using that quiet_delete by simp
  show ?thesis
    unfolding run_change_def
    by (simp only: split: if_split)
      (intro conjI impI quiet_lift_then quiet_basic quiet_create quiet_write_text quiet_edit quiet_mkdir
        quiet_move_entry x quiet_create_document; drule parse_args_Inr; rule dry_requests [OF assms]; assumption)
qed

section \<open>What a change has checked\<close>

text \<open>A path that neither deny list names.\<close>

definition allowed_path :: "writer_ctx \<Rightarrow> path \<Rightarrow> bool" where
  "allowed_path wx p \<longleftrightarrow> \<not> is_denied (env_libs (wx_env wx)) (st_deny (wx_view wx)) p
     \<and> \<not> is_denied (env_libs (wx_env wx)) (st_write_deny (wx_view wx)) p"

lemma check_denied_Inr: "check_denied wx p = Inr u \<longleftrightarrow> allowed_path wx p"
  by (auto simp: check_denied_def allowed_path_def is_denied_def split: option.splits)

text \<open>A path in no folder inside this one that is shared read-only.\<close>

definition outside_read_only :: "writer_ctx \<Rightarrow> root_handle \<Rightarrow> path \<Rightarrow> bool" where
  "outside_read_only wx h p \<longleftrightarrow> \<not> list_ex (\<lambda>r. root_id r \<noteq> h_id h \<and> \<not> writable r
     \<and> starts_with (root_path r) (h_path h) \<and> starts_with p (root_path r)) (st_configured (wx_view wx))"

lemma check_nested_Inr: "check_nested wx h p = Inr u \<longleftrightarrow> outside_read_only wx h p"
  by (auto simp: check_nested_def outside_read_only_def list_ex_iff find_None_iff dest!: find_SomeD
      split: option.splits)

text \<open>
  What holds of a path a change names: where it is, and how far the folders on its way are there,
  \<open>n\<close> of them below the shared folder; the real path is where the last of these really is and the
  rest of the path.
\<close>

definition checked_to :: "writer_ctx \<Rightarrow> root_handle \<Rightarrow> rel_path \<Rightarrow> nat \<Rightarrow> bool" where
  "checked_to wx h rel n \<longleftrightarrow> n < length rel \<and> allowed_path wx (h_path h @ rel)
     \<and> outside_read_only wx h (h_path h @ take (Suc n) rel)
     \<and> (\<exists>real. wx_real wx (h_path h @ take n rel) = Some real \<and> allowed_path wx (real @ drop n rel))"

definition checked_path :: "bool \<Rightarrow> writer_ctx \<Rightarrow> string \<Rightarrow> bool" where
  "checked_path parents wx s \<longleftrightarrow> (\<exists>p h n. env_parse (wx_env wx) s = Inr p
     \<and> view_root (wx_env wx) (wx_view wx) (tp_root p) = Inr h \<and> view_writable (wx_view wx) (h_id h)
     \<and> checked_to wx h (tp_rel p) n \<and> (parents \<or> Suc n = length (tp_rel p)))"

lemma yields_check_folder: "yields (check_folder wx h c) (\<lambda>real. wx_real wx (cd_at c) = Some real)"
proof -
  have "yields (real_place wx c) (\<lambda>real. wx_real wx (cd_at c) = Some real)"
    by (auto simp: real_place_def intro: yields_done yields_failed split: option.splits)
  then show ?thesis unfolding check_folder_def
    by (rule yields_chain)
      (auto intro!: yields_chain [OF yields_True] yields_done yields_failed split: option.splits)
qed

text \<open>Where the walk is, and where that really is.\<close>

abbreviation placed :: "writer_ctx \<Rightarrow> path \<Rightarrow> change_dir \<times> path \<Rightarrow> bool" where
  "placed wx p \<equiv> \<lambda>(c, real). cd_at c = p \<and> wx_real wx p = Some real"

lemma yields_walk_real:
  "wx_real wx (cd_at c) = Some real \<Longrightarrow> yields (walk_down wx h c real ps) (placed wx (cd_at c @ ps))"
proof (induction wx h c real ps rule: walk_down.induct)
  case (1 wx h c real)
  then show ?case by (auto intro: yields_done)
next
  case (2 wx h c real p ps)
  have "yields (walk_down wx h c' real' ps) (placed wx (cd_at c @ p # ps))"
    if "cd_at c' = cd_at c @ [p]" "wx_real wx (cd_at c') = Some real'" for c' real'
    using 2(1) [OF that(2)] that(1) by simp
  then show ?case
    unfolding walk_down.simps by (blast intro: yields_chain yields_subdir yields_check_folder)
qed

lemma yields_parent_real: "yields (open_parent wx h ps) (placed wx (h_path h @ ps))"
proof -
  have "yields (walk_down wx h c real ps) (placed wx (h_path h @ ps))"
    if "cd_at c = h_path h" "wx_real wx (cd_at c) = Some real" for c real
    using yields_walk_real [OF that(2)] that(1) by simp
  then show ?thesis
    unfolding open_parent_def by (blast intro: yields_chain yields_open_root yields_check_folder)
qed

lemma yields_checked: "yields (find_target wx s) (\<lambda>_. checked_path False wx s)"
proof -
  have "checked_path False wx s"
    if "env_parse (wx_env wx) s = Inr p" "view_root (wx_env wx) (wx_view wx) (tp_root p) = Inr h"
      "view_writable (wx_view wx) (h_id h)" "file_name (tp_rel p) = Some name"
      "check_denied wx (handle_path h (tp_rel p)) = Inr u" "check_nested wx h (handle_path h (tp_rel p)) = Inr v"
      "rel_parse (env_windows (wx_env wx)) (as_string (butlast (tp_rel p))) = Inr parent"
      "placed wx (h_path h @ parent) (c, real)" "check_denied wx (real @ [name]) = Inr w"
    for p h name parent c real u v w
  proof -
    have rel: "tp_rel p = parent @ [name]" using parent_parses [OF that(1,4,7)] by simp
    have "checked_to wx h (tp_rel p) (length parent)"
      using that(5,6,8,9) unfolding checked_to_def rel
      by (auto simp: check_denied_Inr check_nested_Inr handle_path_def abs_path_def)
    with that(1-3) show ?thesis unfolding checked_path_def
      by (intro exI [of _ p] exI [of _ h] exI [of _ "length parent"]) (simp add: rel)
  qed
  note all = this
  show ?thesis
    unfolding find_target_def
    apply (rule yields_chain [OF yields_lift_eq])
    apply (rule yields_chain [OF yields_lift_eq])
    apply (rule yields_chain [OF yields_refuse])
    apply (split option.split, intro conjI allI impI, rule yields_failed)
    apply (rule yields_chain [OF yields_lift_eq])
    apply (rule yields_chain [OF yields_lift_eq])
    apply (rule yields_chain [OF yields_lift_eq])
    apply (rule yields_chain [OF yields_map_failure [OF yields_parent_real]], rule yields_pair)
    apply (rule yields_chain [OF yields_lift_eq])
    apply (rule yieldsI, rule all)
    apply simp_all
    done
qed

lemma check_ahead_Inr:
  "check_ahead wx h rel ahead ps = Inr u \<Longrightarrow> ps \<noteq> [] \<Longrightarrow> allowed_path wx (h_path h @ rel @ ps) \<and> allowed_path wx (ahead @ ps)"
proof (induction wx h rel ahead ps rule: check_ahead.induct)
  case (2 wx h rel ahead p ps)
  then show ?case
    by (cases ps) (auto simp: check_denied_Inr handle_path_def abs_path_def split: sum.splits)
qed simp

lemma yields_missing_checked:
  "wx_real wx (cd_at c) = Some real \<Longrightarrow> cd_at c = h_path h @ rel \<Longrightarrow> ps \<noteq> []
   \<Longrightarrow> yields (find_missing wx h c real rel ps) (\<lambda>_. \<exists>n. checked_to wx h (rel @ ps) n)"
proof (induction wx h c real rel ps rule: find_missing.induct)
  case (2 wx h c real rel p ps)
  have here: "checked_to wx h (rel @ p # ps) (length rel)"
    if "outside_read_only wx h (h_path h @ rel @ [p])" "allowed_path wx (h_path h @ rel @ p # ps)"
      "allowed_path wx (real @ p # ps)"
    using that 2(2,3) by (auto simp: checked_to_def)
  have down: "yields (find_missing wx h c' real' (rel @ [p]) ps) (\<lambda>_. \<exists>n. checked_to wx h (rel @ p # ps) n)"
    if "es_kind st = DirEntry" "cd_at c' = cd_at c @ [p]" "wx_real wx (cd_at c') = Some real'"
      "outside_read_only wx h (h_path h @ rel @ [p])" "allowed_path wx (h_path h @ rel @ [p])"
      "allowed_path wx (real @ [p])" for c' real' and st :: entry_stat
  proof (cases "ps = []")
    case True
    with here that(4-6) show ?thesis by (auto simp: yields_def)
  next
    case False
    from 2(1) [OF that(1,3) _ this] that(2) 2(3) show ?thesis by simp
  qed
  have ahead: "\<exists>n. checked_to wx h (rel @ p # ps) n"
    if "outside_read_only wx h (h_path h @ rel @ [p])" "allowed_path wx (h_path h @ rel @ [p])"
      "allowed_path wx (real @ [p])" "check_ahead wx h (rel @ [p]) (real @ [p]) ps = Inr u" for u
    using here check_ahead_Inr [OF that(4)] that(1-3) by (cases "ps = []") auto
  show ?case
    unfolding find_missing.simps
    apply (rule yields_chain [OF yields_lift_eq])
    apply (rule yields_chain [OF yields_lift_eq])
    apply (rule yields_chain [OF yields_lift_eq])
    apply (rule yields_chain [OF yields_True])
    apply (split option.split, intro conjI allI impI)
     apply (rule yields_chain [OF yields_True], rule yields_chain [OF yields_lift_eq])
     apply (rule yields_done, erule ahead [rotated 3])
       apply (simp_all only: check_denied_Inr check_nested_Inr handle_path_def abs_path_def)
    apply (split if_split, intro conjI impI)
     apply (rule yields_chain [OF yields_subdir], rule yields_chain [OF yields_check_folder])
     apply (rule down, assumption+)
    apply (rule yields_failed)
    done
qed simp

text \<open>A step that neither succeeds nor does anything unless \<open>P\<close>.\<close>

definition guarded :: "bool \<Rightarrow> 'a act \<Rightarrow> bool" where
  "guarded P m \<longleftrightarrow> (\<forall>d r d'. m d = (r, d') \<longrightarrow> (\<exists>x. r = Inr x) \<or> \<not> same d d' \<longrightarrow> P)"

lemma guarded_by: "P \<Longrightarrow> guarded P m"
  by (simp add: guarded_def)

lemma guarded_failed: "guarded P (failed e)"
  by (simp add: guarded_def failed_def)

lemma guarded_if: "(b \<Longrightarrow> guarded P m) \<Longrightarrow> (\<not> b \<Longrightarrow> guarded P n) \<Longrightarrow> guarded P (if b then m else n)"
  by simp

lemma guarded_chain:
  assumes "quiet m" "yields m V" "\<And>x. V x \<Longrightarrow> guarded P (f x)" shows "guarded P (chain m f)"
  unfolding guarded_def
proof (intro allI impI)
  fix d r d' assume c: "chain m f d = (r, d')" and r: "(\<exists>x. r = Inr x) \<or> \<not> same d d'"
  obtain s d1 where m: "m d = (s, d1)" by (cases "m d") auto
  with assms(1) have s: "same d d1" by (rule quietD)
  show P
  proof (cases s)
    case (Inl e)
    with c m s r show ?thesis by (auto simp: chain_def)
  next
    case (Inr y)
    with c m have f: "f y d1 = (r, d')" by (simp add: chain_def)
    have "V y" using assms(2) m Inr unfolding yields_def by blast
    from assms(3) [OF this] f r s show ?thesis unfolding guarded_def by (metis same_trans)
  qed
qed

lemma guarded_target_only: "guarded (checked_path False wx s) (chain (find_target wx s) f)"
  by (rule guarded_chain [OF quiet_find_target yields_checked]) (rule guarded_by)

lemma guarded_make_parents: "guarded (checked_path True wx s) (make_parents wx s dry)"
  unfolding make_parents_def
  apply (rule guarded_chain [OF quiet_basic(3) yields_lift_eq])
  apply (rule guarded_chain [OF quiet_basic(3) yields_lift_eq])
  apply (rule guarded_chain [OF quiet_basic(4) yields_refuse])
  apply (rule guarded_chain [OF quiet_basic(4) yields_refuse])
  apply (rule guarded_chain [OF quiet_looking(4) yields_open_root])
  apply (rule guarded_chain [OF quiet_check_folder yields_check_folder])
  apply (rule guarded_chain [OF quiet_find_missing yields_missing_checked])
  apply (auto simp: is_root_def checked_path_def intro!: guarded_by)
  done

lemma guarded_mono: "guarded P m \<Longrightarrow> (P \<Longrightarrow> Q) \<Longrightarrow> guarded Q m"
  unfolding guarded_def by blast

lemma guarded_parsed:
  assumes "\<And>q. f args = Some q \<Longrightarrow> guarded P (op q)"
  shows "guarded P (chain (lift (parse_args bad f args)) op)"
  by (rule guarded_chain [OF quiet_basic(3) yields_lift_eq]) (rule assms, erule parse_args_Inr)

lemma guarded_move: "guarded (checked_path False wx (vq_from q) \<and> checked_path False wx (vq_to q)) (move_entry wx q)"
  unfolding move_entry_def
  by (rule guarded_chain [OF quiet_find_target yields_checked], rule guarded_chain [OF quiet_find_target yields_checked])
    (rule guarded_by, simp)

lemma guarded_ops:
  "guarded (checked_path False wx (cq_path q1)) (create wx q1)"
  "guarded (checked_path False wx (wq_path q2)) (write_text wx q2)"
  "guarded (checked_path False wx (eq_path q3)) (edit wx q3)"
  "guarded (checked_path False wx path) (delete wx path dry)"
  "guarded (checked_path False wx (dq_path q4)) (create_document wx q4)"
  unfolding create_def write_text_def edit_def delete_def create_document_def
  by (intro guarded_target_only guarded_chain [OF quiet_basic(4) yields_True])+

text \<open>The arguments that are paths, and whether a call may make several folders.\<close>

definition path_arguments :: "string \<Rightarrow> string list" where
  "path_arguments name = (if name = ''move'' then [''from'', ''to''] else [''path''])"

definition makes_parents :: "string \<Rightarrow> json \<Rightarrow> bool" where
  "makes_parents name args \<longleftrightarrow> name = ''mkdir'' \<and> get args ''parents'' = Some (JBool True)"

lemma guarded_run_change:
  "guarded (\<forall>k \<in> set (path_arguments name). \<exists>s. field_string args k = Some s
     \<and> checked_path (makes_parents name args) wx s) (run_change wx bad name args)"
  (is "guarded ?P _")
proof -
  have one: ?P if "path_arguments name = [''path'']" "field_string args ''path'' = Some s"
      "checked_path (makes_parents name args) wx s" for s
    using that by simp
  have flag: "get args k = Some (JBool True)" if "field_default as_bool False args k = Some True" for k
    using that by (auto simp: field_default_def split: option.splits elim: as_bool.elims)
  have only: "guarded ?P m" if "name \<noteq> ''move''" "name \<noteq> ''mkdir''" "field_string args ''path'' = Some s"
      "guarded (checked_path False wx s) m" for s and m :: "change_result act"
    by (rule guarded_mono [OF that(4)], rule one [OF _ that(3)])
      (use that(1,2) in \<open>simp_all add: path_arguments_def makes_parents_def\<close>)
  have mk: "guarded ?P (mkdir wx q)" if "name = ''mkdir''" "serde_mkdir args = Some q" for q
  proof (cases "mq_parents q")
    case True
    have "field_string args ''path'' = Some (mq_path q)" "field_default as_bool False args ''parents'' = Some True"
      using that(2) True by (auto simp: serde_mkdir_def split: if_splits option.splits)
    moreover from this flag that(1) have "makes_parents name args" by (simp add: makes_parents_def)
    ultimately show ?thesis using that(1) True
      by (auto simp: mkdir_def path_arguments_def intro!: guarded_mono [OF guarded_make_parents])
  next
    case False
    have p: "field_string args ''path'' = Some (mq_path q)"
      using that(2) by (auto simp: serde_mkdir_def split: if_splits option.splits)
    have "guarded (checked_path False wx (mq_path q)) (make_one wx (mq_path q) (mq_dry_run q))"
      unfolding make_one_def by (rule guarded_target_only)
    then show ?thesis using that(1) False p
      by (auto simp: mkdir_def path_arguments_def checked_path_def elim!: guarded_mono)
  qed
  show ?thesis
    unfolding run_change_def
  proof (intro guarded_if guarded_failed guarded_parsed)
    fix q assume q: "serde_create args = Some q" "name = ''create''"
    then have "field_string args ''path'' = Some (cq_path q)"
      by (auto simp: serde_create_def split: if_splits option.splits)
    from only [OF _ _ this guarded_ops(1)] q(2) show "guarded ?P (create wx q)" by simp
  next
    fix q assume q: "serde_write args = Some q" "name = ''write''"
    then have "field_string args ''path'' = Some (wq_path q)"
      by (auto simp: serde_write_def split: if_splits option.splits)
    from only [OF _ _ this guarded_ops(2)] q(2) show "guarded ?P (write_text wx q)" by simp
  next
    fix q assume q: "serde_edit args = Some q" "name = ''edit''"
    then have "field_string args ''path'' = Some (eq_path q)"
      by (auto simp: serde_edit_def split: if_splits option.splits)
    from only [OF _ _ this guarded_ops(3)] q(2) show "guarded ?P (edit wx q)" by simp
  next
    fix q assume "serde_mkdir args = Some q" "name = ''mkdir''"
    then show "guarded ?P (mkdir wx q)" by (intro mk)
  next
    fix q assume "serde_move args = Some q" "name = ''move''"
    then show "guarded ?P (move_entry wx q)"
      by (intro guarded_mono [OF guarded_move])
        (auto simp: serde_move_def path_arguments_def makes_parents_def split: if_splits option.splits)
  next
    fix q assume q: "serde_delete args = Some q" "name = ''delete''"
    then have "field_string args ''path'' = Some (xq_path q)"
      by (auto simp: serde_delete_def split: if_splits option.splits)
    from only [OF _ _ this guarded_ops(4)] q(2) show "guarded ?P (delete wx (xq_path q) (xq_dry_run q))" by simp
  next
    fix q assume q: "serde_document args = Some q" "name = ''create_document''"
    then have "field_string args ''path'' = Some (dq_path q)"
      by (auto simp: serde_document_def split: if_splits option.splits)
    from only [OF _ _ this guarded_ops(5)] q(2) show "guarded ?P (create_document wx q)" by simp
  qed
qed

end
