(* ===== verification/ChangeResults.thy ===== *)
theory ChangeResults
  imports ChangeFacts
begin

text \<open>
  What a change that succeeds has done: new files hold what was asked for, a replaced file is in the
  trash as it was, an edit replaces one span. The claims about changes close the theory.
\<close>

section \<open>Replacing a file\<close>

abbreviation gives :: "(disk \<Rightarrow> bool) \<Rightarrow> 'a act \<Rightarrow> ('a \<Rightarrow> disk \<Rightarrow> bool) \<Rightarrow> bool" where
  "gives P m Q \<equiv> triple P m Q (\<lambda>_. True)"

lemma gives_chain: "gives P m Q \<Longrightarrow> (\<And>x. gives (Q x) (f x) S) \<Longrightarrow> gives P (chain m f) S"
  by (rule triple_chain)

text \<open>Steps that only look keep what is said of nodes and trash alone.\<close>

definition looks :: "(disk \<Rightarrow> bool) \<Rightarrow> bool" where
  "looks P \<longleftrightarrow> (\<forall>d d'. same d d' \<longrightarrow> P d \<longrightarrow> P d')"

lemma looks_holds: "looks (\<lambda>d. wf_disk d \<and> node_at d p = Some n)"
  by (auto simp: looks_def dest: same_looks)

lemma quiet_gives: "quiet m \<Longrightarrow> looks P \<Longrightarrow> gives P m (\<lambda>_. P)"
  unfolding looks_def by (rule tripleI) (auto dest: quietD)

lemma gives_check_change: "gives (\<lambda>d. wf_disk d \<and> node_at d p = Some n) (check_change wx k)
    (\<lambda>_ d. wf_disk d \<and> node_at d p = Some n)"
  by (rule tripleI) (auto simp: check_change_def wf_disk_def node_at_def split: prod.splits)

text \<open>An interrupted system call aside, a step that succeeded ran on a disk that looks the same.\<close>

lemma syscall_Inr:
  assumes "syscall m d = (Inr x, d')"
  obtains d1 where "same d d1" "m d1 = (Inr x, d')"
proof -
  obtain r d1 where n: "next_fault d = (r, d1)" by (cases "next_fault d") auto
  have "same d d1" by (rule quietD [OF quiet_basic(5) n])
  moreover have "m d1 = (Inr x, d')"
    using assms n by (auto simp: syscall_def chain_def failed_def split: sum.splits fault.splits)
  ultimately show thesis using that by blast
qed

definition holds_at :: "path \<Rightarrow> string \<Rightarrow> disk \<Rightarrow> bool" where
  "holds_at p bytes d \<longleftrightarrow> (\<exists>m. node_at d p = Some m \<and> nd_bytes m = bytes \<and> es_kind (nd_stat m) = FileEntry)"

definition staged_beside :: "path \<Rightarrow> node \<Rightarrow> path \<Rightarrow> string \<Rightarrow> disk \<Rightarrow> bool" where
  "staged_beside p n s bytes d \<longleftrightarrow> wf_disk d \<and> node_at d p = Some n \<and> holds_at s bytes d"

lemma stage_Inr:
  assumes "stage c bytes mode d = (Inr t, d')" "wf_disk d"
  shows "wf_disk d'" "holds_at (cd_at c @ [t]) bytes d'"
    and "node_at d p = Some n \<Longrightarrow> p \<noteq> cd_at c @ [t] \<and> node_at d' p = Some n"
proof -
  obtain r d1 where f: "free_name 16 c d = (r, d1)" by (cases "free_name 16 c d") auto
  then obtain u where r: "r = Inr u" using assms(1) by (cases r) (auto simp: stage_def chain_def)
  have s1: "same d d1" by (rule quietD [OF quiet_free_name f])
  have o: "\<not> occupied d1 (cd_at c @ [u])" using free_name_free f r by simp
  obtain d2 where s2: "same d1 d2" and put: "t = u"
      "d' = put_node (cd_at c @ [u]) (new_node FileEntry (and mode 438) bytes c d2) (d2\<lparr>dk_next := dk_next d2 + 1\<rparr>)"
    using assms(1) f r by (auto simp: stage_def chain_def elim: syscall_Inr)
  have look: "node_at d2 = node_at d" "wf_disk d2 = wf_disk d"
    using same_looks [OF same_trans [OF s1 s2]] by auto
  show "wf_disk d'" using assms(2) look put by simp
  show "holds_at (cd_at c @ [t]) bytes d'" using put by (simp add: holds_at_def new_node_def)
  have "node_at d (cd_at c @ [u]) = None"
    using unoccupied [OF o below_self] same_looks [OF s1] by simp
  then show "p \<noteq> cd_at c @ [t] \<and> node_at d' p = Some n" if "node_at d p = Some n"
    using that put look by auto
qed

lemma trash_at_Inr:
  assumes "trash_at p d = (Inr w, d')" "wf_disk d"
  shows "wf_disk d'" "node_at d p = Some n \<Longrightarrow> n \<in> trashed d'" "trashed d \<subseteq> trashed d'"
    "k \<notin> below p \<Longrightarrow> node_at d' k = node_at d k"
    "k \<in> below p \<Longrightarrow> node_at d' k = None"
proof -
  obtain d1 where s: "same d d1" and t: "(case (node_at d1 p, dk_places d1) of
     (None, _) \<Rightarrow> (Inl not_found, d1)
   | (_, []) \<Rightarrow> (Inl (tool_error TrashUnavailable ''no trash here''), d1)
   | (Some n, w # ws) \<Rightarrow>
       (Inr w, d1\<lparr>dk_nodes := filter (\<lambda>(k, _). \<not> starts_with k p) (dk_nodes d1),
          dk_trash := (w, filter (\<lambda>(k, _). starts_with k p) (dk_nodes d1)) # dk_trash d1,
          dk_places := ws\<rparr>)) = (Inr w, d')"
    using assms(1) unfolding trash_at_def by (elim syscall_Inr) blast
  obtain ws where d': "d' = d1\<lparr>dk_nodes := filter (\<lambda>(k, _). \<not> starts_with k p) (dk_nodes d1),
          dk_trash := (w, filter (\<lambda>(k, _). starts_with k p) (dk_nodes d1)) # dk_trash d1,
          dk_places := ws\<rparr>"
    using t by (auto split: option.splits list.splits)
  have look: "node_at d1 = node_at d" "trashed d1 = trashed d" "wf_disk d1 = wf_disk d"
    using same_looks [OF s] by auto
  have n': "node_at d' k = (if starts_with k p then None else node_at d1 k)" for k
    by (simp add: d' node_at_def map_of_filter_by)
  show "wf_disk d'" using assms(2) look by (simp add: d' wf_disk_def distinct_map_filter)
  show "n \<in> trashed d'" if "node_at d p = Some n"
  proof -
    have "(p, n) \<in> set (dk_nodes d1)" using that unfolding look(1) [symmetric] node_at_def by (rule map_of_SomeD)
    then show ?thesis by (force simp: d' trashed_def)
  qed
  show "trashed d \<subseteq> trashed d'" unfolding look(2) [symmetric] by (auto simp: d' trashed_def)
  show "k \<notin> below p \<Longrightarrow> node_at d' k = node_at d k" "k \<in> below p \<Longrightarrow> node_at d' k = None"
    using n' look by (auto simp: below_def)
qed

lemma commit_Inr:
  assumes "commit c t name d = (Inr x, d')" "wf_disk d" "holds_at (cd_at c @ [t]) bytes d"
  shows "holds_at (cd_at c @ [name]) bytes d' \<and> trashed d' = trashed d"
proof -
  obtain r d1 where f: "rename_to c t c name d = (r, d1)" by (cases "rename_to c t c name d") auto
  have r: "r = Inr (Inr ())" "d' = d1"
    using assms(1) f rename_result [OF f]
    by (auto simp: commit_def chain_def done_with_def failed_def discard_def split: sum.splits)
  obtain d2 where s: "same d d2" and d1: "d1 = move_node (cd_at c @ [t]) (cd_at c @ [name]) d2"
    and o: "\<not> occupied d2 (cd_at c @ [name]) \<or> cd_at c @ [t] = cd_at c @ [name]"
    using rename_result [OF f] r by auto
  have look: "node_at d2 = node_at d" "trashed d2 = trashed d" "wf_disk d2 = wf_disk d"
    using same_looks [OF s] by auto
  obtain m where m: "node_at d2 (cd_at c @ [t]) = Some m" "nd_bytes m = bytes" "es_kind (nd_stat m) = FileEntry"
    using assms(3) look by (auto simp: holds_at_def)
  have "node_at d1 (cd_at c @ [name]) = Some m"
  proof (cases "t = name")
    case True
    then show ?thesis using same_looks [OF move_same [where d = d2 and p = "cd_at c @ [name]"]] m d1 by simp
  next
    case False
    have "moved (cd_at c @ [t]) (cd_at c @ [name]) (cd_at c @ [t]) = cd_at c @ [name]"
      by (simp add: moved_def)
    moreover have "\<not> occupied d2 (cd_at c @ [name])" using o False by simp
    ultimately show ?thesis using move_arrives [OF _ _ m(1)] look assms(2) d1 by metis
  qed
  then show ?thesis using m r d1 look by (auto simp: holds_at_def move_node_def)
qed

text \<open>What a file is like once it has been replaced.\<close>

definition replaced :: "path \<Rightarrow> node \<Rightarrow> string \<Rightarrow> disk \<Rightarrow> bool" where
  "replaced p n bytes d \<longleftrightarrow> holds_at p bytes d \<and> n \<in> trashed d"

lemma sibling_not_below: "name \<noteq> t \<Longrightarrow> c @ [name] \<notin> below (c @ [t])"
  by (simp add: below_sibling)

lemma replace_swapped:
  assumes "staged_beside (cd_at c @ [name]) n (cd_at c @ [t]) bytes d" "t \<noteq> name"
    and "exchange c t name d = (Inr True, d1)" "trash_staged c t d1 = (Inr w, d')"
  shows "replaced (cd_at c @ [name]) n bytes d'"
proof -
  obtain d2 a b where s: "same d d2" and ab: "node_at d2 (cd_at c @ [t]) = Some a"
      "node_at d2 (cd_at c @ [name]) = Some b"
    and d1: "d1 = put_node (cd_at c @ [t]) b (put_node (cd_at c @ [name]) a d2)"
    using exchange_result [OF assms(3)] by auto
  have look: "node_at d2 = node_at d" "wf_disk d2 = wf_disk d" using same_looks [OF s] by auto
  have wf: "wf_disk d1" and b: "b = n" and a: "nd_bytes a = bytes" "es_kind (nd_stat a) = FileEntry"
    using assms(1) ab look by (auto simp: staged_beside_def holds_at_def d1)
  note t = trash_at_Inr [OF assms(4) [unfolded trash_staged_def] wf]
  have "n \<in> trashed d'" using b by (intro t(2)) (simp add: d1)
  moreover have "node_at d' (cd_at c @ [name]) = node_at d1 (cd_at c @ [name])"
    by (rule t(4), rule sibling_not_below) (use assms(2) in simp)
  ultimately show ?thesis using a assms(2) by (auto simp: replaced_def holds_at_def d1)
qed

lemma replace_unswapped:
  assumes "staged_beside (cd_at c @ [name]) n (cd_at c @ [t]) bytes d" "t \<noteq> name"
    and "exchange c t name d = (Inr False, d1)" "trash_entry c name d1 = (Inr w, d2)"
    and "commit c t name d2 = (Inr x, d')"
  shows "replaced (cd_at c @ [name]) n bytes d'"
proof -
  have "same d d1" using exchange_result [OF assms(3)] by auto
  note sl = same_looks [OF this]
  have look: "node_at d1 = node_at d" using sl by simp
  have wf: "wf_disk d1" using sl assms(1) by (simp add: staged_beside_def)
  have n: "node_at d1 (cd_at c @ [name]) = Some n" using look assms(1) by (simp add: staged_beside_def)
  note t = trash_at_Inr [OF assms(4) [unfolded trash_entry_def] wf]
  have "holds_at (cd_at c @ [t]) bytes d2"
    using assms(1) t(4) [OF sibling_not_below [OF assms(2)]] look by (simp add: staged_beside_def holds_at_def)
  from commit_Inr [OF assms(5) t(1) this] t(2) [OF n] show ?thesis by (auto simp: replaced_def)
qed

lemma chain_Inr:
  assumes "chain m f d = (Inr x, d')" obtains y d1 where "m d = (Inr y, d1)" "f y d1 = (Inr x, d')"
proof -
  obtain r d1 where m: "m d = (r, d1)" by (cases "m d") auto
  then show thesis using assms that by (cases r) (auto simp: chain_def)
qed

lemma attempt_eq: "attempt m d = (r, d') \<longleftrightarrow> (\<exists>s. r = Inr s \<and> m d = (s, d'))"
  by (cases "m d") (auto simp: attempt_def)

lemma attempt_Inr: "attempt m d = (Inr r, d') \<longleftrightarrow> m d = (r, d')"
  by (cases "m d") (auto simp: attempt_def)

lemma map_failure_Inr: "map_failure f m d = (Inr x, d') \<longleftrightarrow> m d = (Inr x, d')"
  by (cases "m d"; cases "fst (m d)") (auto simp: map_failure_def)

lemma failed_Inr: "\<not> failed e d = (Inr x, d')" "\<not> chain (discard c t) (\<lambda>_. failed e) d = (Inr x, d')"
  by (auto simp: failed_def chain_def discard_def)

lemma replace_file_Inr:
  assumes "replace_file wx t old bytes r d = (Inr x, d')" "wf_disk d"
    and "node_at d (cd_at (tg_dir t) @ [tg_name t]) = Some n"
  shows "replaced (cd_at (tg_dir t) @ [tg_name t]) n bytes d'"
proof -
  let ?c = "tg_dir t" and ?p = "cd_at (tg_dir t) @ [tg_name t]"
  obtain u d1 mode s d2 b d3 where check: "check_change wx (length bytes) d = (Inr u, d1)"
    and stage: "stage ?c bytes mode d1 = (Inr s, d2)"
    and ex: "exchange ?c s (tg_name t) d2 = (b, d3)"
    and rest: "(case b of
           Inr True \<Rightarrow>
             chain (attempt (trash_staged ?c s)) (\<lambda>trashed. case trashed of
               Inr place \<Rightarrow> done_with (in_trash (length bytes) place r)
             | Inl e \<Rightarrow>
                 chain (attempt (exchange ?c s (tg_name t))) (\<lambda>back.
                   if back = Inr True then chain (discard ?c s) (\<lambda>_. failed e) else failed e))
         | Inr False \<Rightarrow>
             chain (attempt (trash_entry ?c (tg_name t))) (\<lambda>trashed. case trashed of
               Inl e \<Rightarrow> chain (discard ?c s) (\<lambda>_. failed e)
             | Inr place \<Rightarrow>
                 chain (map_failure (\<lambda>e. tool_error (code e) (message e
                          @ '' The previous version is in the trash on the computer.''))
                        (commit ?c s (tg_name t))) (\<lambda>_.
                 done_with (in_trash (length bytes) place r)))
         | Inl e \<Rightarrow> chain (discard ?c s) (\<lambda>_. failed e)) d3 = (Inr x, d')"
    using assms(1) unfolding replace_file_def Let_def
    by - (elim chain_Inr, unfold attempt_Inr, rule that, assumption+)
  have d1: "wf_disk d1" "node_at d1 ?p = Some n"
    using check assms(2,3) tripleQ [OF gives_check_change] by metis+
  note st = stage_Inr [OF stage d1(1)]
  have beside: "staged_beside ?p n (cd_at ?c @ [s]) bytes d2" and ne: "s \<noteq> tg_name t"
    using st(1,2) st(3) [OF d1(2)] by (auto simp: staged_beside_def)
  consider "b = Inr True" | "b = Inr False" | e where "b = Inl e" by (cases b) auto
  then show ?thesis
  proof cases
    case 1
    from rest ex obtain w d4 where "trash_staged ?c s d3 = (Inr w, d4)" "d' = d4"
      by (auto simp: 1 attempt_eq failed_Inr done_with_def elim!: chain_Inr split: sum.splits if_splits)
    then show ?thesis using replace_swapped [OF beside ne] ex 1 by blast
  next
    case 2
    from rest ex obtain w d4 y where "trash_entry ?c (tg_name t) d3 = (Inr w, d4)"
        "commit ?c s (tg_name t) d4 = (Inr y, d')"
      by (auto simp: 2 attempt_eq failed_Inr done_with_def map_failure_Inr elim!: chain_Inr split: sum.splits)
    then show ?thesis using replace_unswapped [OF beside ne] ex 2 by blast
  next
    case 3
    then have False using rest ex by (auto simp: attempt_eq failed_Inr elim!: chain_Inr)
    then show ?thesis ..
  qed
qed


section \<open>Text changes\<close>

lemma quiet_Inr: "quiet m \<Longrightarrow> m d = (Inr x, d') \<Longrightarrow> node_at d' = node_at d \<and> trashed d' = trashed d \<and> wf_disk d' = wf_disk d"
  by (rule same_looks) (rule quietD)

lemma lift_Inr: "lift r d = (Inr x, d') \<longleftrightarrow> r = Inr x \<and> d' = d"
  by (auto simp: lift_def)

lemma refuse_Inr: "refuse_if b e d = (Inr x, d') \<longleftrightarrow> \<not> b \<and> d' = d"
  by (auto simp: refuse_if_def failed_def done_with_def)

lemma done_Inr: "done_with y d = (Inr x, d') \<longleftrightarrow> x = y \<and> d' = d"
  by (auto simp: done_with_def)

lemma create_file_Inr:
  assumes "create_file wx t bytes False d = (Inr x, d')" "wf_disk d"
  shows "holds_at (cd_at (tg_dir t) @ [tg_name t]) bytes d'"
proof -
  obtain u d1 s d2 v d3 where "check_change wx (length bytes) d = (Inr u, d1)"
      "stage (tg_dir t) bytes (wx_file_mode wx) d1 = (Inr s, d2)"
      "commit (tg_dir t) s (tg_name t) d2 = (Inr v, d3)" "d' = d3"
    using assms(1) unfolding create_file_def Let_def
    by (auto simp: map_failure_Inr done_Inr elim!: chain_Inr)
  moreover have "wf_disk d1" using calculation(1) assms(2)
    by (auto simp: check_change_def wf_disk_def split: prod.splits)
  ultimately show ?thesis using stage_Inr(1,2) commit_Inr by metis
qed

lemma entry_Inr:
  assumes "entry c name d = (Inr e, d')"
  shows "e = map_option nd_stat (node_at d (cd_at c @ [name]))"
proof -
  obtain d1 where "same d d1" "e = map_option nd_stat (node_at d1 (cd_at c @ [name]))"
    using assms unfolding entry_def by (elim syscall_Inr) auto
  then show ?thesis using same_looks by auto
qed

lemma read_file_Inr:
  assumes "read_file c name cap d = (Inr (bytes, st), d')"
  shows "\<exists>n. node_at d (cd_at c @ [name]) = Some n \<and> st = nd_stat n
    \<and> bytes = take (wrap (cap + 1)) (nd_bytes n) \<and> length bytes \<le> cap"
proof -
  obtain s d1 d2 n where e: "entry c name d = (Inr (Some s), d1)" and s2: "same d1 d2"
    and n: "node_at d2 (cd_at c @ [name]) = Some n" "st = nd_stat n"
      "bytes = take (wrap (cap + 1)) (nd_bytes n)" "length bytes \<le> cap"
    using assms unfolding read_file_def
    by (elim chain_Inr) (auto simp: failed_def Let_def elim!: syscall_Inr split: option.splits if_splits)
  have "node_at d2 = node_at d"
    using same_looks [OF same_trans [OF quietD [OF quiet_looking(1) e] s2]] by simp
  then show ?thesis using n by auto
qed


lemma existing_text_Inr:
  assumes "existing_text wx t st expected d = (Inr (sha, st', old), d')" "max_bytes wx < u64_max"
  shows "\<exists>n. node_at d (cd_at (tg_dir t) @ [tg_name t]) = Some n \<and> old = nd_bytes n \<and> st' = nd_stat n
    \<and> node_at d' = node_at d \<and> wf_disk d' = wf_disk d"
proof -
  obtain bytes where r: "\<exists>d1. read_file (tg_dir t) (tg_name t) (max_bytes wx) d = (Inr (bytes, st'), d1)"
    and "as_text bytes (tg_name t) = Inr old"
    using assms(1) unfolding existing_text_def Let_def
    by (auto simp: lift_Inr done_Inr elim!: chain_Inr)
  then have old: "old = bytes" by (auto simp: as_text_def split: if_splits)
  from r read_file_Inr obtain n where n: "node_at d (cd_at (tg_dir t) @ [tg_name t]) = Some n" "st' = nd_stat n"
      "bytes = take (wrap (max_bytes wx + 1)) (nd_bytes n)" "length bytes \<le> max_bytes wx" by blast
  have "wrap (max_bytes wx + 1) = max_bytes wx + 1" using assms(2) by (simp add: wrap_def)
  then have "bytes = nd_bytes n" using n(3,4) by (simp add: min_def split: if_splits)
  then show ?thesis using n(1,2) old quiet_Inr [OF quiet_existing_text assms(1)] by blast
qed

lemma find_target_Inr:
  assumes "find_target wx s d = (Inr t, d')"
  shows "granted wx t" "node_at d' = node_at d" "wf_disk d' = wf_disk d"
    "cd_at (tg_dir t) @ [tg_name t] = tg_abs t"
proof -
  show g: "granted wx t" using assms yields_find_target unfolding yields_def by blast
  then show "cd_at (tg_dir t) @ [tg_name t] = tg_abs t" by (auto simp: granted_def)
  show "node_at d' = node_at d" "wf_disk d' = wf_disk d"
    using quiet_Inr [OF quiet_find_target assms] by auto
qed

lemma write_text_Inr:
  assumes w: "write_text wx q d = (Inr r, d')" and wet: "\<not> wq_dry_run q" and wf: "wf_disk d"
    and cap: "max_bytes wx < u64_max"
  shows "\<exists>t. fst (find_target wx (wq_path q) d) = Inr t \<and> (case node_at d (tg_abs t) of
      None \<Rightarrow> holds_at (tg_abs t) (wq_content q) d'
    | Some n \<Rightarrow> replaced (tg_abs t) n (case wq_mode q of
        Replace \<Rightarrow> wq_content q | Append \<Rightarrow> nd_bytes n @ wq_content q) d')"
proof -
  obtain t d1 e d2 where ft: "find_target wx (wq_path q) d = (Inr t, d1)"
    and e: "entry (tg_dir t) (tg_name t) d1 = (Inr e, d2)"
    and rest: "(case e of
       None \<Rightarrow>
         chain (new_name_ok wx (tg_name t)) (\<lambda>_.
         chain (refuse_if (wq_expected_sha256 q \<noteq> None) (tool_error Conflict (tg_tool_path t
                  @ '' doesn'' @ [quote] @ ''t exist any more.''))) (\<lambda>_.
         create_file wx t (wq_content q) (wq_dry_run q)))
     | Some st \<Rightarrow>
         chain (existing_text wx t st (wq_expected_sha256 q)) (\<lambda>(sha, st, old).
         (let (new, eff) = (case wq_mode q of
                Replace \<Rightarrow> (wq_content q, Replaced)
              | Append \<Rightarrow> (old @ wq_content q, Appended))
          in chain (text_ok wx new) (\<lambda>_.
             finish_text_change wx t st sha old new eff (wq_dry_run q))))) d2 = (Inr r, d')"
    using w unfolding write_text_def
    by - (elim chain_Inr, unfold lift_Inr, elim conjE, hypsubst, rule that, assumption+)
  note t = find_target_Inr [OF ft]
  have d2: "node_at d2 = node_at d" "wf_disk d2"
    using quiet_Inr [OF quiet_looking(1) e] t wf by auto
  have en: "e = map_option nd_stat (node_at d (tg_abs t))"
    using entry_Inr [OF e] t by simp
  show ?thesis
  proof (cases "node_at d (tg_abs t)")
    case None
    then have "create_file wx t (wq_content q) False d2 = (Inr r, d')"
      using rest en wet by (auto simp: lift_Inr refuse_Inr elim!: chain_Inr)
    from create_file_Inr [OF this d2(2)] show ?thesis using None t ft by auto
  next
    case (Some n)
    let ?new = "case wq_mode q of Replace \<Rightarrow> wq_content q | Append \<Rightarrow> nd_bytes n @ wq_content q"
    obtain sha st' old d3 new eff where x: "existing_text wx t (nd_stat n) (wq_expected_sha256 q) d2 = (Inr (sha, st', old), d3)"
      and new: "new = (case wq_mode q of Replace \<Rightarrow> wq_content q | Append \<Rightarrow> old @ wq_content q)"
      and fin: "finish_text_change wx t st' sha old new eff False d3 = (Inr r, d')"
      using rest en wet Some
      by (cases "wq_mode q") (auto simp: lift_Inr elim!: chain_Inr)
    from existing_text_Inr [OF x cap] d2 t Some
    have o: "old = nd_bytes n" and d3: "node_at d3 = node_at d" "wf_disk d3" by auto
    have "replace_file wx t st' new ((change_result_new (tg_tool_path t) eff FileEntry False)
        \<lparr>cr_size := Some (length new), cr_sha256 := Some (wx_sha wx new),
         cr_previous := Some (previous_of wx (es_size st') st' (Some sha))\<rparr>) d3 = (Inr r, d')"
      using fin by (simp add: finish_text_change_def Let_def)
    from replace_file_Inr [OF this d3(2)] have "replaced (tg_abs t) n new d'"
      using d3(1) t(4) Some by simp
    then show ?thesis using Some new o ft by auto
  qed
qed

lemma edit_Inr:
  assumes w: "edit wx q d = (Inr r, d')" and wet: "\<not> eq_dry_run q" and wf: "wf_disk d"
    and cap: "max_bytes wx < u64_max"
  shows "\<exists>t n new. fst (find_target wx (eq_path q) d) = Inr t \<and> node_at d (tg_abs t) = Some n \<and> eq_old_text q \<noteq> []
    \<and> edit_text (nd_bytes n) (eq_old_text q) (eq_new_text q) = Inr new \<and> replaced (tg_abs t) n new d'"
proof -
  obtain t d1 e d2 where ne: "eq_old_text q \<noteq> []" and ft: "find_target wx (eq_path q) d = (Inr t, d1)"
    and e: "entry (tg_dir t) (tg_name t) d1 = (Inr e, d2)"
    and rest: "(case e of
       None \<Rightarrow> failed (tool_error NotFound (tg_tool_path t @ '' doesn'' @ [quote] @ ''t exist.''))
     | Some st \<Rightarrow>
         chain (existing_text wx t st (eq_expected_sha256 q)) (\<lambda>(sha, st, old).
         chain (lift (edit_text old (eq_old_text q) (eq_new_text q))) (\<lambda>new.
         chain (text_ok wx new) (\<lambda>_.
         finish_text_change wx t st sha old new Edited (eq_dry_run q))))) d2 = (Inr r, d')"
    using w unfolding edit_def
    by - (elim chain_Inr, unfold lift_Inr refuse_Inr, elim conjE, hypsubst, rule that, assumption+)
  note t = find_target_Inr [OF ft]
  have d2: "node_at d2 = node_at d" "wf_disk d2"
    using quiet_Inr [OF quiet_looking(1) e] t wf by auto
  have en: "e = map_option nd_stat (node_at d (tg_abs t))"
    using entry_Inr [OF e] t by simp
  obtain n where n: "node_at d (tg_abs t) = Some n"
    using rest en by (cases "node_at d (tg_abs t)") (auto simp: failed_Inr)
  obtain sha st' old d3 new where x: "existing_text wx t (nd_stat n) (eq_expected_sha256 q) d2 = (Inr (sha, st', old), d3)"
    and new: "edit_text old (eq_old_text q) (eq_new_text q) = Inr new"
    and fin: "finish_text_change wx t st' sha old new Edited False d3 = (Inr r, d')"
    using rest en wet n by (auto simp: lift_Inr elim!: chain_Inr)
  from existing_text_Inr [OF x cap] d2 t n
  have o: "old = nd_bytes n" and d3: "node_at d3 = node_at d" "wf_disk d3" by auto
  have "replace_file wx t st' new ((change_result_new (tg_tool_path t) Edited FileEntry False)
      \<lparr>cr_size := Some (length new), cr_sha256 := Some (wx_sha wx new),
       cr_previous := Some (previous_of wx (es_size st') st' (Some sha))\<rparr>) d3 = (Inr r, d')"
    using fin by (simp add: finish_text_change_def Let_def)
  from replace_file_Inr [OF this d3(2)] have "replaced (tg_abs t) n new d'"
    using d3(1) t(4) n by simp
  then show ?thesis using n new o ne ft by auto
qed

section \<open>One span\<close>

lemma count_matches_Nil [simp]: "count_matches pat [] = 0"
  by (simp add: count_matches.simps)

lemma count_matches_Cons:
  "pat \<noteq> [] \<Longrightarrow> count_matches pat (x # xs) =
    (if starts_with (x # xs) pat then 1 + count_matches pat (drop (length pat) (x # xs)) else count_matches pat xs)"
  by (subst count_matches.simps) simp

lemma replace_first_span:
  assumes "pat \<noteq> []" "count_matches pat s \<noteq> 0"
  shows "\<exists>pre post. s = pre @ pat @ post \<and> replace_first pat to s = pre @ to @ post
    \<and> count_matches pat s = 1 + count_matches pat post
    \<and> (\<forall>i < length pre. \<not> starts_with (drop i s) pat)"
  using assms(2)
proof (induction s)
  case (Cons x xs)
  show ?case
  proof (cases "starts_with (x # xs) pat")
    case True
    then obtain post where post: "x # xs = pat @ post" by (auto simp: starts_with_iff)
    then have "drop (length pat) (x # xs) = post" by simp
    then have "replace_first pat to (x # xs) = to @ post" "count_matches pat (x # xs) = 1 + count_matches pat post"
      using True count_matches_Cons [OF assms(1), of x xs] by (simp_all only: replace_first.simps if_True)
    then show ?thesis
      by (intro exI [of _ "[]"] exI [of _ post] conjI) (simp_all only: post append_Nil list.size, simp)
  next
    case False
    then obtain pre post where "xs = pre @ pat @ post" "replace_first pat to xs = pre @ to @ post"
        "count_matches pat xs = 1 + count_matches pat post" "\<forall>i < length pre. \<not> starts_with (drop i xs) pat"
      using Cons count_matches_Cons [OF assms(1), of x xs] by auto
    then show ?thesis
      using False count_matches_Cons [OF assms(1), of x xs]
      by (intro exI [of _ "x # pre"] exI [of _ post])
        (auto simp del: starts_with.simps simp: less_Suc_eq_0_disj)
  qed
qed simp

lemma edit_span_nonempty: "edit_span old from to = (a, b) \<Longrightarrow> from \<noteq> [] \<Longrightarrow> a \<noteq> []"
  by (cases "from") (auto simp: edit_span_def crlf_def split: if_splits)

lemma edit_text_span:
  assumes "edit_text old old_text new_text = Inr new" "old_text \<noteq> []" "edit_span old old_text new_text = (a, b)"
  shows "\<exists>pre post. old = pre @ a @ post \<and> new = pre @ b @ post \<and> count_matches a post = 0
    \<and> (\<forall>i < length pre. \<not> starts_with (drop i old) a)"
proof -
  have "count_matches a old = 1" "new = replace_first a b old"
    using assms(1,3) by (auto simp: edit_text_def split: if_splits)
  then show ?thesis
    using replace_first_span [OF edit_span_nonempty [OF assms(3,2)], of old b] by auto
qed

end
