(* ===== verification/ChangeDemo.thy ===== *)
theory ChangeDemo
  imports ChangeResults
begin

text \<open>
  A small computer on which the witnesses of the claims about changes run: its disk, its writer, and
  what a deletion and an edit do there, step by step.
\<close>

text \<open>A computer with a folder \<open>docs\<close> that allows changes, and a file \<open>a.txt\<close> in it.\<close>

definition demo_stat :: "entry_kind \<Rightarrow> nat \<Rightarrow> nat \<Rightarrow> entry_stat" where
  "demo_stat k n i = \<lparr>es_kind = k, es_size = n, es_modified = 0, es_links = 1, es_mode = 420,
     es_foreign = False, es_readonly = False, es_identity = (0, i)\<rparr>"

definition demo_disk :: disk where
  "demo_disk = \<lparr>dk_nodes = [([''srv'', ''docs''], \<lparr>nd_stat = demo_stat DirEntry 0 4, nd_bytes = []\<rparr>),
       ([''srv'', ''docs'', ''a.txt''], \<lparr>nd_stat = demo_stat FileEntry 5 5, nd_bytes = ''hello''\<rparr>)],
     dk_trash = [], dk_faults = [], dk_names = [''.cww-1'', ''.cww-2''], dk_places = [''trash:1''],
     dk_next = 6, dk_limiter = no_windows, dk_now = 0\<rparr>"

definition demo_writer :: writer_ctx where
  "demo_writer = \<lparr>wx_env = demo_env [],
     wx_view = demo_reader\<lparr>st_configured := [(demo_root ''docs'' [])\<lparr>writable := True\<rparr>, demo_root ''home'' []]\<rparr>,
     wx_limits = default_limits, wx_lower = id, wx_real = Some, wx_sha = (\<lambda>s. s),
     wx_diff = (\<lambda>_ _ _. []), wx_docx = Inr, wx_xlsx = (\<lambda>_. Inl (internal [])),
     wx_file_mode = 420, wx_dir_mode = 493\<rparr>"

lemma demo_wf: "wf_disk demo_disk"
  by (simp add: wf_disk_def demo_disk_def)

lemma demo_disk_simps [simp]:
  "next_fault demo_disk = (Inr Works, demo_disk)"
  "node_at demo_disk [''srv'', ''docs''] = Some \<lparr>nd_stat = demo_stat DirEntry 0 4, nd_bytes = []\<rparr>"
  "node_at demo_disk [''srv'', ''docs'', ''a.txt''] = Some \<lparr>nd_stat = demo_stat FileEntry 5 5, nd_bytes = ''hello''\<rparr>"
  "node_at demo_disk [''srv'', ''docs'', ''HEAD''] = None"
  "node_at demo_disk [''srv'', ''docs'', ''objects''] = None"
  "node_at demo_disk [''srv'', ''docs'', ''refs''] = None"
  by (simp_all add: demo_disk_def next_fault_def node_at_def)

lemma demo_writer_simps [simp]:
  "wx_env demo_writer = demo_env []"
  "view_root (demo_env []) (wx_view demo_writer) ''docs'' = Inr (demo_handle ''docs'')"
  "h_id (demo_handle ''docs'') = ''docs''" "h_path (demo_handle ''docs'') = [''srv'', ''docs'']"
  "view_writable (wx_view demo_writer) ''docs''"
  "check_denied demo_writer p = Inr ()"
  "check_nested demo_writer (demo_handle ''docs'') [''srv'', ''docs'', ''a.txt''] = Inr ()"
  "root_with_identity (wx_view demo_writer) (0, 4) ''docs'' = None"
  "wx_real demo_writer p' = Some p'" "wx_lower demo_writer = id" "wx_sha demo_writer b = b"
  "env_windows (demo_env []) = False" "denied_by u (st_deny (wx_view demo_writer)) p'' = None"
  by (simp_all add: demo_writer_def view_root_def demo_reader_def demo_handle_def view_writable_def demo_root_def
      check_denied_def denied_by_def check_nested_def root_with_identity_def demo_env_def)

abbreviation demo_target :: target where
  "demo_target \<equiv> \<lparr>tg_tool_path = ''docs:a.txt'', tg_name = ''a.txt'',
     tg_abs = [''srv'', ''docs'', ''a.txt''], tg_real = [''srv'', ''docs'', ''a.txt''],
     tg_dir = \<lparr>cd_path = [''srv'', ''docs''], cd_at = [''srv'', ''docs''], cd_identity = (0, 4)\<rparr>\<rparr>"

lemma demo_found: "find_target demo_writer ''docs:a.txt'' demo_disk = (Inr demo_target, demo_disk)"
  by (simp add: find_target_def chain_def lift_def refuse_if_def done_with_def failed_def map_failure_def
    attempt_def syscall_def demo_parse file_name_def handle_path_def abs_path_def
    as_string_def rel_parse_def open_parent_def open_root_def check_folder_def real_place_def demo_stat_def display_def tool_path_display_def
    git_markers_def GIT_MARKERS_def entry_def Let_def)

definition demo_edit :: edit_request where
  "demo_edit = \<lparr>eq_path = ''docs:a.txt'', eq_old_text = ''ell'', eq_new_text = ''ipp'',
     eq_expected_sha256 = None, eq_dry_run = False\<rparr>"

lemma demo_names: "check_text_name False id ''a.txt'' = Inr ()" "is_executable_name False id ''a.txt'' = False"
  "check_text ''ipp'' 100 = Inr ()" "check_text ''hippo'' 100 = Inr ()" "as_text ''hello'' ''a.txt'' = Inr ''hello''"
  by code_simp+

lemma check_text_more: "check_text s 100 = Inr () \<Longrightarrow> 100 \<le> n \<Longrightarrow> check_text s n = Inr ()"
  by (auto simp: check_text_def split: if_splits)

lemma demo_text: "check_text ''ipp'' (max_bytes demo_writer) = Inr ()" "check_text ''hippo'' (max_bytes demo_writer) = Inr ()"
   "5 \<le> max_bytes demo_writer" "max_bytes demo_writer < u64_max"  "wrap (max_bytes demo_writer + 1) = max_bytes demo_writer + 1"
  by (rule check_text_more [OF demo_names(3)] check_text_more [OF demo_names(4)];
     simp add: max_bytes_def demo_writer_def demo_reader_def default_limits_def)+
   (simp_all add: max_bytes_def demo_writer_def demo_reader_def default_limits_def wrap_def)

lemma demo_change: "n \<le> 100 \<Longrightarrow> check_change demo_writer n demo_disk = (Inr (), demo_disk\<lparr>dk_limiter := no_windows\<lparr>changes := [(0, n)]\<rparr>\<rparr>)"
  by (simp add: check_change_def check_change_at_def Let_def demo_writer_def demo_disk_def no_windows_def prune_def default_limits_def
     saturating_add_u64_def sum_u64_def)

lemma no_fault: "dk_faults d = [] \<Longrightarrow> next_fault d = (Inr Works, d)"
  by (simp add: next_fault_def)

lemma runs:
  "chain (refuse_if b e) f d = (if b then (Inl e, d) else f () d)"
  "chain (lift r) j d = (case r of Inl e \<Rightarrow> (Inl e, d) | Inr x \<Rightarrow> j x d)"
  "chain (done_with y) k d = k y d" "done_with z d = (Inr z, d)"
  "chain (failed e) h d = (Inl e, d)" "failed e d = (Inl e, d)"
  "dk_faults d = [] \<Longrightarrow> chain (entry c n) g d = g (map_option nd_stat (node_at d (cd_at c @ [n]))) d"
  "dk_faults d = [] \<Longrightarrow> syscall m d = m d"
  by (auto simp: refuse_if_def failed_def chain_def lift_def done_with_def entry_def no_fault syscall_def split: sum.splits)

lemma ran: "m d = (Inr x, d') \<Longrightarrow> chain m f d = f x d'"
  by (simp add: chain_def)

lemma demo_quiet [simp]: "dk_faults demo_disk = []"
  by (simp add: demo_disk_def)

definition after_delete :: disk where
  "after_delete = demo_disk\<lparr>dk_nodes := [([''srv'', ''docs''], \<lparr>nd_stat = demo_stat DirEntry 0 4, nd_bytes = []\<rparr>)],
     dk_trash := [(''trash:1'', [([''srv'', ''docs'', ''a.txt''], \<lparr>nd_stat = demo_stat FileEntry 5 5, nd_bytes = ''hello''\<rparr>)])],
     dk_places := [], dk_limiter := no_windows\<lparr>changes := [(0, 0)]\<rparr>\<rparr>"

lemma demo_source: "check_source demo_writer demo_target True None demo_disk = (Inr (demo_stat FileEntry 5 5, None), demo_disk)"
  by (simp add: check_source_def check_file_def runs demo_stat_def)

lemma ran_trans: "m d = (Inr y, d1) \<Longrightarrow> f y d1 = r \<Longrightarrow> chain m f d = r"
  by (simp add: chain_def)

lemma lift_trans: "v = Inr y \<Longrightarrow> f y d = r \<Longrightarrow> chain (lift v) f d = r"
  by (simp add: chain_def lift_def)

lemma refuse_trans: "\<not> b \<Longrightarrow> f () d = r \<Longrightarrow> chain (refuse_if b e) f d = r"
  by (simp add: runs)

lemma done_eq: "done_with x d = (Inr x, d)" by (rule runs)

lemma demo_trash: "trash_entry (tg_dir demo_target) (tg_name demo_target) (demo_disk\<lparr>dk_limiter := no_windows\<lparr>changes := [(0, 0)]\<rparr>\<rparr>)
    = (Inr ''trash:1'', after_delete)"
  by (simp add: trash_entry_def trash_at_def runs) (simp add: demo_disk_def after_delete_def node_at_def)

lemma demo_delete: "\<exists>r. delete demo_writer ''docs:a.txt'' False demo_disk = (Inr r, after_delete)"
  unfolding delete_def Let_def
  apply (rule exI, rule ran_trans, rule demo_found, rule ran_trans, rule demo_source)
  apply (simp only: prod.case if_False, rule ran_trans, rule demo_change, simp)
  apply (rule ran_trans, rule demo_trash, rule done_eq)
  done

lemma demo_read: "read_file (tg_dir demo_target) (tg_name demo_target) (max_bytes demo_writer) demo_disk
    = (Inr (''hello'', demo_stat FileEntry 5 5), demo_disk)"
  using demo_text(3,5) by (simp add: read_file_def runs demo_stat_def)

lemma demo_file: "check_existing_file demo_writer demo_target (demo_stat FileEntry 5 5) = Inr ()"
  by (simp add: check_existing_file_def check_file_def is_program_def executable_def demo_stat_def demo_names)

lemma demo_existing:
  "existing_text demo_writer demo_target (demo_stat FileEntry 5 5) None demo_disk
   = (Inr (''hello'', demo_stat FileEntry 5 5, ''hello''), demo_disk)"
  unfolding existing_text_def
  apply (rule lift_trans, rule demo_file, rule ran_trans, rule demo_read)
  apply (simp only: prod.case Let_def demo_writer_simps, rule lift_trans, rule demo_file)
  apply (simp add: runs check_sha_def demo_names)
  done

lemma demo_edit_text: "edit_text ''hello'' ''ell'' ''ipp'' = Inr ''hippo''"
  by code_simp

lemma demo_entry: "entry (tg_dir demo_target) (tg_name demo_target) demo_disk = (Inr (Some (demo_stat FileEntry 5 5)), demo_disk)"
  by (simp add: entry_def runs)

text \<open>What the operations do when the operating system refuses nothing.\<close>

lemma attempt_trans: "m d = (v, d1) \<Longrightarrow> f v d1 = r \<Longrightarrow> chain (attempt m) f d = r"
  by (simp add: chain_def attempt_def)

lemma stage_runs:
  assumes "dk_faults d = []" "dk_names d = t # ts" "\<not> occupied d (cd_at c @ [t])"
  shows "stage c bytes mode d = (Inr t, put_node (cd_at c @ [t]) (new_node FileEntry (and mode 438) bytes c d)
    (d\<lparr>dk_names := ts, dk_next := dk_next d + 1\<rparr>))"
proof -
  have "free_name n c d = (Inr t, d\<lparr>dk_names := ts\<rparr>)" if "n \<noteq> 0" for n
    using that assms(2,3) by (cases n) (auto simp: occupied_def)
  from this [of 16] show ?thesis
    using assms(1) by (simp add: stage_def chain_def runs new_node_def)
qed

lemma exchange_runs:
  "dk_faults d = [] \<Longrightarrow> node_at d (cd_at c @ [s]) = Some n \<Longrightarrow> node_at d (cd_at c @ [name]) = Some m
   \<Longrightarrow> exchange c s name d = (Inr True, put_node (cd_at c @ [s]) m (put_node (cd_at c @ [name]) n d))"
  by (simp add: exchange_def chain_def no_fault Let_def)

lemma trash_runs:
  "dk_faults d = [] \<Longrightarrow> node_at d p = Some n \<Longrightarrow> dk_places d = w # ws \<Longrightarrow> \<exists>d'. trash_at p d = (Inr w, d')"
  by (simp add: trash_at_def runs)

lemma put_keeps: "dk_faults (put_node p n d) = dk_faults d" "dk_places (put_node p n d) = dk_places d"
  by (simp_all add: put_node_def)

lemma demo_replace: "\<exists>x d'. replace_file demo_writer demo_target (demo_stat FileEntry 5 5) ''hippo'' r demo_disk = (Inr x, d')"
proof -
  let ?c = "tg_dir demo_target"
  define d1 where "d1 = demo_disk\<lparr>dk_limiter := no_windows\<lparr>changes := [(0, length ''hippo'')]\<rparr>\<rparr>"
  define mode where "mode = (if es_mode (demo_stat FileEntry 5 5) = 0 then wx_file_mode demo_writer
     else and (es_mode (demo_stat FileEntry 5 5)) 438)"
  define d2 where "d2 = put_node (cd_at ?c @ [''.cww-1'']) (new_node FileEntry (and mode 438) ''hippo'' ?c d1)
    (d1\<lparr>dk_names := [''.cww-2''], dk_next := dk_next d1 + 1\<rparr>)"
  have st: "stage ?c ''hippo'' mode d1 = (Inr ''.cww-1'', d2)"
    unfolding d2_def by (rule stage_runs) (simp_all add: d1_def demo_disk_def occupied_def)
  have n2: "node_at d2 (cd_at ?c @ [''.cww-1'']) = Some (new_node FileEntry (and mode 438) ''hippo'' ?c d1)"
    "node_at d2 (cd_at ?c @ [tg_name demo_target]) = Some \<lparr>nd_stat = demo_stat FileEntry 5 5, nd_bytes = ''hello''\<rparr>"
    "dk_faults d2 = []" "dk_places d2 = [''trash:1'']"
    by (simp_all add: d2_def) (simp_all add: d1_def demo_disk_def node_at_def put_node_def)
  note ex = exchange_runs [OF n2(3,1,2)]
  let ?d3 = "put_node (cd_at ?c @ [''.cww-1'']) \<lparr>nd_stat = demo_stat FileEntry 5 5, nd_bytes = ''hello''\<rparr>
      (put_node (cd_at ?c @ [tg_name demo_target]) (new_node FileEntry (and mode 438) ''hippo'' ?c d1) d2)"
  have trash_pre: "dk_faults ?d3 = []" "node_at ?d3 (cd_at ?c @ [''.cww-1'']) = Some \<lparr>nd_stat = demo_stat FileEntry 5 5, nd_bytes = ''hello''\<rparr>"
    "dk_places ?d3 = [''trash:1'']" by (simp_all add: put_keeps n2)
  obtain d4 where tr: "trash_staged ?c ''.cww-1'' (put_node (cd_at ?c @ [''.cww-1'']) \<lparr>nd_stat = demo_stat FileEntry 5 5, nd_bytes = ''hello''\<rparr>
      (put_node (cd_at ?c @ [tg_name demo_target]) (new_node FileEntry (and mode 438) ''hippo'' ?c d1) d2)) = (Inr ''trash:1'', d4)"
    unfolding trash_staged_def using trash_runs [OF trash_pre(1,2,3)] by blast
  show ?thesis
    unfolding replace_file_def Let_def mode_def [symmetric]
    apply (rule exI, rule exI, rule ran_trans, rule demo_change, simp, unfold d1_def [symmetric])
    apply (rule ran_trans, rule st, rule attempt_trans, rule ex, simp only: sum.case bool.case)
    apply (rule attempt_trans, rule tr, simp only: sum.case, rule done_eq)
    done
qed

lemma demo_edited: "\<exists>x d'. edit demo_writer demo_edit demo_disk = (Inr x, d')"
proof -
  have p: "eq_path demo_edit = ''docs:a.txt''" "eq_old_text demo_edit = ''ell''" "eq_new_text demo_edit = ''ipp''"
    "eq_expected_sha256 demo_edit = None" "eq_dry_run demo_edit = False" by (simp_all add: demo_edit_def)
  obtain x d' where rep: "replace_file demo_writer demo_target (demo_stat FileEntry 5 5) ''hippo''
     ((change_result_new (tg_tool_path demo_target) Edited FileEntry False)
        \<lparr>cr_size := Some (length ''hippo''), cr_sha256 := Some (wx_sha demo_writer ''hippo''),
         cr_previous := Some (previous_of demo_writer (es_size (demo_stat FileEntry 5 5)) (demo_stat FileEntry 5 5) (Some ''hello''))\<rparr>) demo_disk = (Inr x, d')"
    using demo_replace by blast
  show ?thesis
  unfolding edit_def Let_def p
  apply (rule exI, rule exI, rule refuse_trans, simp, rule refuse_trans, simp)
  apply (rule ran_trans, rule demo_found, rule lift_trans, simp add: demo_names)
  apply (rule lift_trans, rule demo_text, rule ran_trans, rule demo_entry)
  apply (simp only: option.case, rule ran_trans, rule demo_existing)
  apply (simp only: prod.case, rule lift_trans, rule demo_edit_text, rule lift_trans, rule demo_text)
  apply (unfold finish_text_change_def Let_def if_False, rule rep)
  done
qed

definition demo_write :: write_request where
  "demo_write = \<lparr>wq_path = ''docs:a.txt'', wq_content = ''hippo'', wq_mode = Replace,
     wq_expected_sha256 = None, wq_dry_run = False\<rparr>"

lemma demo_written: "\<exists>x d'. write_text demo_writer demo_write demo_disk = (Inr x, d')"
proof -
  have p: "wq_path demo_write = ''docs:a.txt''" "wq_content demo_write = ''hippo''" "wq_mode demo_write = Replace"
    "wq_expected_sha256 demo_write = None" "wq_dry_run demo_write = False" by (simp_all add: demo_write_def)
  obtain x d' where rep: "replace_file demo_writer demo_target (demo_stat FileEntry 5 5) ''hippo''
     ((change_result_new (tg_tool_path demo_target) Replaced FileEntry False)
        \<lparr>cr_size := Some (length ''hippo''), cr_sha256 := Some (wx_sha demo_writer ''hippo''),
         cr_previous := Some (previous_of demo_writer (es_size (demo_stat FileEntry 5 5)) (demo_stat FileEntry 5 5) (Some ''hello''))\<rparr>) demo_disk = (Inr x, d')"
    using demo_replace by blast
  show ?thesis
    unfolding write_text_def p
    apply (rule exI, rule exI, rule ran_trans, rule demo_found, rule lift_trans, simp add: demo_names)
    apply (rule lift_trans, rule demo_text, rule ran_trans, rule demo_entry)
    apply (simp only: option.case, rule ran_trans, rule demo_existing)
    apply (simp only: prod.case write_mode.case Let_def, rule lift_trans, rule demo_text)
    apply (unfold finish_text_change_def Let_def if_False, rule rep)
    done
qed

end
