(* ===== verification/ChangeClaims.thy ===== *)
theory ChangeClaims
  imports ChangeDemo
begin

text \<open>The claims about changes, each with a run on the small computer of \<open>ChangeDemo\<close>.\<close>

abbreviation demo_args :: json where
  "demo_args \<equiv> jobject [(''path'', JStr ''docs:a.txt'')]"

lemma demo_parsed: "parse_args bad serde_delete demo_args = Inr \<lparr>xq_path = ''docs:a.txt'', xq_dry_run = False\<rparr>"
  by (simp add: parse_args_def serde_delete_def only_fields_def field_string_def field_default_def
      get_jobject jobject_def)

lemma demo_run: "\<exists>r. run_change demo_writer bad ''delete'' demo_args demo_disk = (Inr r, after_delete)"
  using demo_delete by (simp add: run_change_def runs demo_parsed)

text \<open>
  C1: Whatever a change does, and wherever the operating system stops it, nothing is lost: every file
  and folder that was on the disk or in the trash before still is afterwards, unchanged.
\<close>

theorem changes_lose_nothing:
  assumes "wf_disk d"
  shows "wf_disk (snd (run_change wx bad name args d)) \<and> kept d \<subseteq> kept (snd (run_change wx bad name args d))"
  by (rule safe_kept) (rule safe_run_change [OF assms])

theorem changes_lose_nothing_witness:
  "wf_disk (snd (run_change demo_writer (\<lambda>_. []) ''delete'' demo_args demo_disk))
   \<and> kept demo_disk \<subseteq> kept (snd (run_change demo_writer (\<lambda>_. []) ''delete'' demo_args demo_disk))"
  by (rule changes_lose_nothing [OF demo_wf])

text \<open>
  C2: A change only ever touches what lies inside a shared folder that allows changes, and never that
  folder itself, even when it fails half way.
\<close>

theorem changes_stay_in_writable_folders:
  assumes "wf_disk d" "node_at (snd (run_change wx bad name args d)) k \<noteq> node_at d k"
  shows "\<exists>h \<in> set (st_roots (wx_view wx)).
    view_writable (wx_view wx) (h_id h) \<and> starts_with k (h_path h) \<and> k \<noteq> h_path h"
  using safe_outside [OF safe_run_change [OF assms(1)], of k wx bad name args] assms(2)
  by (auto simp: changeable_def below_def)

theorem changes_stay_in_writable_folders_witness:
  "\<exists>h \<in> set (st_roots (wx_view demo_writer)). view_writable (wx_view demo_writer) (h_id h)
     \<and> starts_with [''srv'', ''docs'', ''a.txt''] (h_path h) \<and> [''srv'', ''docs'', ''a.txt''] \<noteq> h_path h"
proof (rule changes_stay_in_writable_folders [OF demo_wf])
  obtain r where "run_change demo_writer (\<lambda>_. []) ''delete'' demo_args demo_disk = (Inr r, after_delete)"
    using demo_run by blast
  then show "node_at (snd (run_change demo_writer (\<lambda>_. []) ''delete'' demo_args demo_disk))
      [''srv'', ''docs'', ''a.txt''] \<noteq> node_at demo_disk [''srv'', ''docs'', ''a.txt'']"
    using demo_disk_simps(3) by (simp add: after_delete_def node_at_def)
qed



text \<open>
  A folder that is shared read-only inside another and is not there is not looked for below the first
  missing folder: \<open>mkdir\<close> with \<open>parents\<close> makes it.
\<close>

definition nested_writer :: writer_ctx where
  "nested_writer = demo_writer\<lparr>wx_view := (wx_view demo_writer)\<lparr>st_configured :=
     (demo_root ''inner'' [])\<lparr>root_path := [''srv'', ''docs'', ''a'', ''b''], writable := False\<rparr>
       # st_configured (wx_view demo_writer)\<rparr>\<rparr>"

abbreviation demo_parents :: json where
  "demo_parents \<equiv> jobject [(''path'', JStr ''docs:a/b''), (''parents'', JBool True)]"

lemma nested_simps:
  "wx_env nested_writer = demo_env []" "wx_real nested_writer p = Some p" "wx_dir_mode nested_writer = 493"
  "wx_lower nested_writer = id" "wx_limits nested_writer = default_limits"
  "view_root (demo_env []) (wx_view nested_writer) ''docs'' = Inr (demo_handle ''docs'')"
  "view_writable (wx_view nested_writer) ''docs''" "check_denied nested_writer q = Inr ()"
  "root_with_identity (wx_view nested_writer) i ''docs'' = root_with_identity (wx_view demo_writer) i ''docs''"
  "check_nested nested_writer (demo_handle ''docs'') [''srv'', ''docs'', ''a''] = Inr ()"
  "denied_by u (st_deny (wx_view nested_writer)) v = None"
  by (simp_all add: nested_writer_def demo_writer_def view_root_def demo_reader_def demo_handle_def view_writable_def
      demo_root_def check_denied_def denied_by_def check_nested_def root_with_identity_def demo_env_def)

lemma nested_names:
  "env_parse (demo_env other) ''docs:a/b'' = Inr \<lparr>tp_root = ''docs'', tp_rel = [''a'', ''b'']\<rparr>"
  "new_names_ok nested_writer [''a'', ''b''] = Inr ()"
proof -
  show "env_parse (demo_env other) ''docs:a/b'' = Inr \<lparr>tp_root = ''docs'', tp_rel = [''a'', ''b'']\<rparr>"
    by (simp add: demo_env_def parse_defs)
  have "is_executable_name False id ''a'' = False" "is_executable_name False id ''b'' = False"
    "(trim_end_ws ''a'' \<in> set DEVICE_NAMES) = False" "(trim_end_ws ''b'' \<in> set DEVICE_NAMES) = False"
    "ends_with ''a'' ''.'' = False" "ends_with ''b'' ''.'' = False"
    "ends_with ''a'' '' '' = False" "ends_with ''b'' '' '' = False"
    by code_simp+
  moreover have "list_ex bad_in_name (utf8_chars ''a'') = False" "list_ex bad_in_name (utf8_chars ''b'') = False"
    by (simp_all add: utf8_chars_def bad_in_name_def is_unsafe_in_path_def is_control_def)
  ultimately show "new_names_ok nested_writer [''a'', ''b''] = Inr ()"
    by (simp add: check_new_name_def nested_simps)
qed

lemma nested_missing:
  assumes "c = \<lparr>cd_path = [''srv'', ''docs''], cd_at = [''srv'', ''docs''], cd_identity = (0, 4)\<rparr>"
  shows "open_root u (st_deny (wx_view nested_writer)) (demo_handle ''docs'') demo_disk = (Inr c, demo_disk)"
    "check_folder nested_writer (demo_handle ''docs'') c demo_disk = (Inr [''srv'', ''docs''], demo_disk)"
    "find_missing nested_writer (demo_handle ''docs'') c [''srv'', ''docs''] [] [''a'', ''b''] demo_disk
       = (Inr (c, [''a'', ''b'']), demo_disk)"
proof -
  have gone: "node_at demo_disk [''srv'', ''docs'', ''a''] = None" by (simp add: node_at_def demo_disk_def)
  show "open_root u (st_deny (wx_view nested_writer)) (demo_handle ''docs'') demo_disk = (Inr c, demo_disk)"
    by (simp add: open_root_def nested_simps runs assms demo_stat_def demo_handle_def)
      (simp add: demo_handle_def [symmetric] demo_stat_def)?
  show "check_folder nested_writer (demo_handle ''docs'') c demo_disk = (Inr [''srv'', ''docs''], demo_disk)"
    by (simp add: check_folder_def real_place_def nested_simps chain_def lift_def done_with_def failed_def
        attempt_def syscall_def entry_def assms git_markers_def GIT_MARKERS_def)
  show "find_missing nested_writer (demo_handle ''docs'') c [''srv'', ''docs''] [] [''a'', ''b''] demo_disk
       = (Inr (c, [''a'', ''b'']), demo_disk)"
    using nested_names(2)
    by (simp add: runs nested_simps assms handle_path_def abs_path_def gone)
qed

theorem parents_are_made_in_read_only_folders:
  "\<exists>r d'. run_change nested_writer bad ''mkdir'' demo_parents demo_disk = (Inr r, d')
     \<and> node_at d' [''srv'', ''docs'', ''a'', ''b''] \<noteq> None
     \<and> \<not> outside_read_only nested_writer (demo_handle ''docs'') [''srv'', ''docs'', ''a'', ''b'']"
proof -
  define c where "c = \<lparr>cd_path = [''srv'', ''docs''], cd_at = [''srv'', ''docs''], cd_identity = (0, 4 :: nat)\<rparr>"
  define d1 where "d1 = demo_disk\<lparr>dk_limiter := no_windows\<lparr>changes := [(0, 0)]\<rparr>\<rparr>"
  have parsed: "parse_args bad serde_mkdir demo_parents
      = Inr \<lparr>mq_path = ''docs:a/b'', mq_parents = True, mq_dry_run = False\<rparr>"
    by (simp add: parse_args_def serde_mkdir_def only_fields_def field_string_def field_default_def
        get_jobject jobject_def)
  have change: "check_change nested_writer 0 demo_disk = (Inr (), d1)"
    using demo_change [of 0] by (simp add: check_change_def nested_writer_def d1_def)
  have "\<exists>d'. make_dirs nested_writer c [''a'', ''b''] d1 = (Inr (), d') \<and> node_at d' [''srv'', ''docs'', ''a'', ''b''] \<noteq> None"
    by (simp add: make_dir_def subdir_def chain_def syscall_def next_fault_def c_def d1_def demo_disk_def occupied_def
        node_at_def put_node_def new_node_def done_with_def nested_simps)
  then obtain d' where made: "make_dirs nested_writer c [''a'', ''b''] d1 = (Inr (), d')"
    "node_at d' [''srv'', ''docs'', ''a'', ''b''] \<noteq> None" by blast
  have "\<exists>r. make_parents nested_writer ''docs:a/b'' False demo_disk = (Inr r, d')"
    unfolding make_parents_def nested_simps
    apply (rule exI, rule lift_trans, rule nested_names(1))
    apply (simp only: tool_path.simps, rule lift_trans, rule nested_simps(6))
    apply (rule refuse_trans, simp only: demo_writer_simps(3) nested_simps not_True_eq_False not_False_eq_True)
    apply (rule refuse_trans, simp add: is_root_def)
    apply (rule ran_trans, rule nested_missing(1) [OF c_def])
    apply (rule ran_trans, rule nested_missing(2) [OF c_def])
    apply (rule ran_trans, rule nested_missing(3) [OF c_def])
    apply (simp only: prod.case Let_def list.distinct simp_thms if_False)
    apply (rule ran_trans, rule change, rule ran_trans, rule made(1), rule done_eq)
    done
  moreover have "\<not> outside_read_only nested_writer (demo_handle ''docs'') [''srv'', ''docs'', ''a'', ''b'']"
    by (simp add: outside_read_only_def nested_writer_def demo_handle_def demo_root_def)
  ultimately show ?thesis using made(2) by (auto simp: run_change_def runs parsed mkdir_def)
qed

text \<open>
  A dry run of any change leaves the disk, the trash and the budgets as they are.
\<close>

theorem dry_runs_change_nothing:
  assumes "is_dry_run args"
  shows "dk_nodes (snd (run_change wx bad name args d)) = dk_nodes d
    \<and> dk_trash (snd (run_change wx bad name args d)) = dk_trash d
    \<and> dk_limiter (snd (run_change wx bad name args d)) = dk_limiter d"
  using quiet_run_change [OF assms, of wx bad name] by (simp add: quiet_def same_def)

theorem dry_runs_change_nothing_witness:
  "dk_nodes (snd (run_change demo_writer (\<lambda>_. []) ''delete''
      (jobject [(''path'', JStr ''docs:a.txt''), (''dry_run'', JBool True)]) demo_disk)) = dk_nodes demo_disk
    \<and> dk_trash (snd (run_change demo_writer (\<lambda>_. []) ''delete''
      (jobject [(''path'', JStr ''docs:a.txt''), (''dry_run'', JBool True)]) demo_disk)) = dk_trash demo_disk
    \<and> dk_limiter (snd (run_change demo_writer (\<lambda>_. []) ''delete''
      (jobject [(''path'', JStr ''docs:a.txt''), (''dry_run'', JBool True)]) demo_disk)) = dk_limiter demo_disk"
  by (rule dry_runs_change_nothing) (simp add: is_dry_run_def get_jobject)

text \<open>
  C11: An edit that succeeds has replaced the first match of the quoted text, and after it no further
  match follows; everything around it is as it was, and the old file is in the trash.
\<close>

theorem edits_replace_one_span:
  assumes "edit wx q d = (Inr r, d')" "\<not> eq_dry_run q" "wf_disk d" "max_bytes wx < u64_max"
  shows "\<exists>t n pre post. fst (find_target wx (eq_path q) d) = Inr t \<and> node_at d (tg_abs t) = Some n \<and> n \<in> trashed d'
    \<and> (case edit_span (nd_bytes n) (eq_old_text q) (eq_new_text q) of (old, new) \<Rightarrow>
        nd_bytes n = pre @ old @ post \<and> holds_at (tg_abs t) (pre @ new @ post) d'
        \<and> count_matches old post = 0 \<and> list_all (\<lambda>i. \<not> starts_with (drop i (nd_bytes n)) old) [0..<length pre])"
proof -
  obtain t n new where ft: "fst (find_target wx (eq_path q) d) = Inr t"
    and e: "node_at d (tg_abs t) = Some n" "eq_old_text q \<noteq> []"
      "edit_text (nd_bytes n) (eq_old_text q) (eq_new_text q) = Inr new" "replaced (tg_abs t) n new d'"
    using edit_Inr [OF assms] by blast
  obtain a b where s: "edit_span (nd_bytes n) (eq_old_text q) (eq_new_text q) = (a, b)" by fastforce
  obtain pre post where "nd_bytes n = pre @ a @ post" "new = pre @ b @ post" "count_matches a post = 0"
      "\<forall>i < length pre. \<not> starts_with (drop i (nd_bytes n)) a"
    using edit_text_span [OF e(3,2) s] by blast
  then show ?thesis
    using ft e(1,4) s by (intro exI [of _ t] exI [of _ n] exI [of _ pre] exI [of _ post])
      (auto simp: replaced_def list_all_iff)
qed

theorem edits_replace_one_span_witness:
  "\<exists>t n pre post. fst (find_target demo_writer (eq_path demo_edit) demo_disk) = Inr t \<and> node_at demo_disk (tg_abs t) = Some n \<and> n \<in> trashed (snd (edit demo_writer demo_edit demo_disk))
    \<and> (case edit_span (nd_bytes n) (eq_old_text demo_edit) (eq_new_text demo_edit) of (old, new) \<Rightarrow>
        nd_bytes n = pre @ old @ post
        \<and> holds_at (tg_abs t) (pre @ new @ post) (snd (edit demo_writer demo_edit demo_disk))
        \<and> count_matches old post = 0 \<and> list_all (\<lambda>i. \<not> starts_with (drop i (nd_bytes n)) old) [0..<length pre])"
proof -
  obtain r d' where e: "edit demo_writer demo_edit demo_disk = (Inr r, d')" using demo_edited by blast
  have "\<not> eq_dry_run demo_edit" by (simp add: demo_edit_def)
  from edits_replace_one_span [OF e this demo_wf demo_text(4)] show ?thesis unfolding e snd_conv .
qed

text \<open>Matches are counted without overlaps: text that overlaps itself is found once.\<close>

lemma overlapping_matches_count_once: "edit_text ''xaaax'' ''aa'' ''b'' = Inr ''xbax''"
  by code_simp

text \<open>
  C12: After a write that succeeded the file holds the new text, or the old with the new appended, and
  a file that was there before is in the trash as it was.
\<close>

theorem written_text_is_there:
  assumes "write_text wx q d = (Inr r, d')" "\<not> wq_dry_run q" "wf_disk d" "max_bytes wx < u64_max"
  shows "\<exists>t. fst (find_target wx (wq_path q) d) = Inr t \<and> (case node_at d (tg_abs t) of
      None \<Rightarrow> holds_at (tg_abs t) (wq_content q) d'
    | Some n \<Rightarrow> n \<in> trashed d' \<and> holds_at (tg_abs t)
        (case wq_mode q of Replace \<Rightarrow> wq_content q | Append \<Rightarrow> nd_bytes n @ wq_content q) d')"
  using write_text_Inr [OF assms] by (auto simp: replaced_def split: option.splits)

theorem written_text_is_there_witness:
  "\<exists>t. fst (find_target demo_writer (wq_path demo_write) demo_disk) = Inr t
    \<and> (case node_at demo_disk (tg_abs t) of
      None \<Rightarrow> holds_at (tg_abs t) (wq_content demo_write) (snd (write_text demo_writer demo_write demo_disk))
    | Some n \<Rightarrow> n \<in> trashed (snd (write_text demo_writer demo_write demo_disk)) \<and> holds_at (tg_abs t)
        (case wq_mode demo_write of Replace \<Rightarrow> wq_content demo_write | Append \<Rightarrow> nd_bytes n @ wq_content demo_write)
        (snd (write_text demo_writer demo_write demo_disk)))"
proof -
  obtain r d' where e: "write_text demo_writer demo_write demo_disk = (Inr r, d')" using demo_written by blast
  have "\<not> wq_dry_run demo_write" by (simp add: demo_write_def)
  from written_text_is_there [OF e this demo_wf demo_text(4)] show ?thesis unfolding e snd_conv .
qed

end
