(* ===== verification/StdText.thy ===== *)
theory StdText
  imports ToolData Kinds
begin

text \<open>
  What the components below use of Rust's text functions, beside those of the prelude:
  \<open>str::from_utf8\<close> with its \<open>Utf8Error\<close>, \<open>String::from_utf8_lossy\<close>, splitting at white space,
  and parsing of unsigned integers of a given width.
\<close>

section \<open>Bytes that may be UTF-8\<close>

definition REPLACEMENT :: string where
  "REPLACEMENT = [CHR 0xEF, CHR 0xBF, CHR 0xBD]"

text \<open>How many of the bytes that should follow a lead byte do follow it.\<close>

fun utf8_match :: "(nat \<times> nat) list \<Rightarrow> string \<Rightarrow> nat" where
  "utf8_match ((lo, hi) # rs) (c # s) =
     (if lo \<le> of_char c \<and> of_char c \<le> hi then Suc (utf8_match rs s) else 0)"
| "utf8_match _ _ = 0"

text \<open>
  \<open>str::from_utf8\<close>: \<open>None\<close> for valid text, otherwise \<open>Utf8Error::valid_up_to\<close> and
  \<open>Utf8Error::error_len\<close>, which is \<open>None\<close> when the text ends inside a character.
\<close>

fun utf8_error :: "string \<Rightarrow> (nat \<times> nat option) option" where
  "utf8_error [] = None"
| "utf8_error (c # s) =
     (case utf8_follow (of_char c) of
        None \<Rightarrow> Some (0, Some 1)
      | Some rs \<Rightarrow>
          (if utf8_match rs s = length rs
           then map_option (\<lambda>(v, e). (Suc (length rs) + v, e)) (utf8_error (drop (length rs) s))
           else Some (0, if utf8_match rs s = length s then None
                         else Some (Suc (utf8_match rs s)))))"

text \<open>\<open>String::from_utf8_lossy\<close>: one U+FFFD for each maximal piece of a broken character.\<close>

fun from_utf8_lossy :: "string \<Rightarrow> string" where
  "from_utf8_lossy [] = []"
| "from_utf8_lossy (c # s) =
     (case utf8_follow (of_char c) of
        None \<Rightarrow> REPLACEMENT @ from_utf8_lossy s
      | Some rs \<Rightarrow>
          (if utf8_match rs s = length rs
           then c # take (length rs) s @ from_utf8_lossy (drop (length rs) s)
           else REPLACEMENT @ from_utf8_lossy (drop (utf8_match rs s) s)))"

lemma utf8_match_le: "utf8_match rs s \<le> length rs" "utf8_match rs s \<le> length s"
  by (induction rs s rule: utf8_match.induct) auto

lemma utf8_match_check:
  "utf8_check rs s \<longleftrightarrow> utf8_match rs s = length rs \<and> utf8_check [] (drop (length rs) s)"
  by (induction rs s rule: utf8_match.induct) auto

lemma utf8_match_append:
  "utf8_match rs s = length rs \<Longrightarrow> utf8_match rs (s @ t) = length rs"
  by (induction rs s rule: utf8_match.induct) (auto split: if_splits)

lemma utf8_valid_Nil [simp]: "utf8_valid []"
  by (simp add: utf8_valid_def)

lemma utf8_valid_Cons:
  "utf8_valid (c # s) \<longleftrightarrow> (case utf8_follow (of_char c) of None \<Rightarrow> False
     | Some rs \<Rightarrow> utf8_match rs s = length rs \<and> utf8_valid (drop (length rs) s))"
proof (cases "utf8_follow (of_char c)")
  case (Some rs)
  then show ?thesis using utf8_match_check [of rs s] by (simp add: utf8_valid_def)
qed (simp add: utf8_valid_def)

lemma utf8_error_None: "utf8_error s = None \<longleftrightarrow> utf8_valid s"
proof (induction s rule: utf8_error.induct)
  case (2 c s)
  then show ?case
    by (cases "utf8_follow (of_char c)") (simp_all add: utf8_valid_Cons)
qed simp

lemma from_utf8_lossy_valid [simp]: "utf8_valid s \<Longrightarrow> from_utf8_lossy s = s"
proof (induction s rule: from_utf8_lossy.induct)
  case (2 c s)
  then show ?case
    by (cases "utf8_follow (of_char c)") (simp_all add: utf8_valid_Cons)
qed simp

lemma utf8_valid_append: "utf8_valid a \<Longrightarrow> utf8_valid (a @ b) \<longleftrightarrow> utf8_valid b"
proof (induction a rule: utf8_error.induct)
  case (2 c s)
  then obtain rs where rs: "utf8_follow (of_char c) = Some rs" "utf8_match rs s = length rs"
      "utf8_valid (drop (length rs) s)"
    by (auto simp: utf8_valid_Cons split: option.splits)
  from 2(1) [OF rs] rs utf8_match_le(2) [of rs s] show ?case
    by (simp add: utf8_valid_Cons utf8_match_append)
qed simp

lemma from_utf8_lossy_append:
  "utf8_valid a \<Longrightarrow> from_utf8_lossy (a @ b) = a @ from_utf8_lossy b"
proof (induction a rule: utf8_error.induct)
  case (2 c s)
  then obtain rs where rs: "utf8_follow (of_char c) = Some rs" "utf8_match rs s = length rs"
      "utf8_valid (drop (length rs) s)"
    by (auto simp: utf8_valid_Cons split: option.splits)
  from 2(1) [OF rs] rs utf8_match_le(2) [of rs s] show ?case
    by (simp add: utf8_match_append)
qed simp

lemma utf8_valid_REPLACEMENT: "utf8_valid (REPLACEMENT @ s) \<longleftrightarrow> utf8_valid s"
  by (rule utf8_valid_append) (simp add: utf8_valid_Cons REPLACEMENT_def utf8_follow_def Let_def)

lemma utf8_valid_char_append:
  assumes "utf8_follow (of_char c) = Some rs" and "utf8_match rs s = length rs"
  shows "utf8_valid (c # take (length rs) s @ t) \<longleftrightarrow> utf8_valid t"
proof -
  have "length (take (length rs) s) = length rs"
    using assms(2) utf8_match_le(2) [of rs s] by simp
  moreover have "utf8_match rs (take (length rs) s) = length rs"
    using assms(2) by (induction rs s rule: utf8_match.induct) (auto split: if_splits)
  ultimately have "utf8_valid (c # take (length rs) s)"
    using assms(1) by (simp add: utf8_valid_Cons)
  from utf8_valid_append [OF this, of t] show ?thesis by simp
qed

lemma from_utf8_lossy_is_valid: "utf8_valid (from_utf8_lossy s)"
proof (induction s rule: from_utf8_lossy.induct)
  case (2 c s)
  then show ?case
    by (cases "utf8_follow (of_char c)")
      (simp_all add: utf8_valid_REPLACEMENT utf8_valid_char_append)
qed simp

lemma utf8_error_valid_up_to:
  "utf8_error s = Some (v, e) \<Longrightarrow> v \<le> length s \<and> utf8_valid (take v s)"
proof (induction s arbitrary: v rule: utf8_error.induct)
  case (2 c s)
  show ?case
  proof (cases "utf8_follow (of_char c)")
    case None
    with 2(2) show ?thesis by simp
  next
    case (Some rs)
    show ?thesis
    proof (cases "utf8_match rs s = length rs")
      case True
      with 2(2) Some obtain w where w: "utf8_error (drop (length rs) s) = Some (w, e)"
          "v = Suc (length rs) + w"
        by auto
      from 2(1) [OF Some True w(1)] have ih: "w \<le> length (drop (length rs) s)"
          "utf8_valid (take w (drop (length rs) s))" by auto
      have "length rs \<le> length s" using True utf8_match_le(2) [of rs s] by simp
      moreover have "take v (c # s) = c # take (length rs) s @ take w (drop (length rs) s)"
        using w(2) by (simp add: take_add)
      ultimately show ?thesis
        using ih w(2) utf8_valid_char_append [OF Some True] by simp
    next
      case False
      with 2(2) Some show ?thesis by simp
    qed
  qed
qed simp

text \<open>The error of a prefix of valid text, if there is one, is that it ends inside a character.\<close>

lemma utf8_match_prefix:
  assumes "utf8_match rs s = length rs"
  shows "utf8_match rs (take n s) = min n (length rs)"
  using assms by (induction rs s arbitrary: n rule: utf8_match.induct)
    (auto split: if_splits, (case_tac n; simp)+)

lemma utf8_error_prefix:
  assumes "utf8_valid s"
  shows "utf8_error (take n s) = None
    \<or> (\<exists>v. utf8_error (take n s) = Some (v, None) \<and> n < v + 4 \<and> v \<le> n)"
  using assms
proof (induction s arbitrary: n rule: utf8_error.induct)
  case (2 c s)
  from 2(2) obtain rs where rs: "utf8_follow (of_char c) = Some rs" "utf8_match rs s = length rs"
      "utf8_valid (drop (length rs) s)"
    by (auto simp: utf8_valid_Cons split: option.splits)
  have long: "length rs \<le> length s" using rs(2) utf8_match_le(2) [of rs s] by simp
  have short: "length rs \<le> 3"
    using rs(1) by (auto simp: utf8_follow_def Let_def split: if_splits)
  show ?case
  proof (cases n)
    case (Suc m)
    have m: "utf8_match rs (take m s) = min m (length rs)"
      by (rule utf8_match_prefix [OF rs(2)])
    show ?thesis
    proof (cases "m < length rs")
      case True
      then show ?thesis using rs(1) m long short Suc by simp
    next
      case False
      then have "m = length rs + (m - length rs)" by simp
      then have "drop (length rs) (take m s) = take (m - length rs) (drop (length rs) s)"
        by (simp add: drop_take)
      with 2(1) [OF rs, of "m - length rs"] rs(1) m False Suc show ?thesis
        by auto
    qed
  qed simp
qed simp

section \<open>Splitting at white space\<close>

text \<open>\<open>str::split\<close> at every occurrence of one of the sequences \<open>ws\<close>.\<close>

function split_seqs :: "string list \<Rightarrow> string \<Rightarrow> string \<Rightarrow> string list" where
  "split_seqs ws acc [] = [rev acc]"
| "split_seqs ws acc (c # s) =
     (case find (\<lambda>w. w \<noteq> [] \<and> starts_with (c # s) w) ws of
        Some w \<Rightarrow> rev acc # split_seqs ws [] (drop (length w) (c # s))
      | None \<Rightarrow> split_seqs ws (c # acc) s)"
  by pat_completeness auto
termination
  by (relation "measure (\<lambda>(ws, acc, s). length s)")
    (auto dest!: find_SomeD starts_with_longer)

text \<open>\<open>str::split_whitespace\<close>: the pieces between white space that are not empty.\<close>

definition split_whitespace :: "string \<Rightarrow> string list" where
  "split_whitespace s = filter (\<lambda>p. p \<noteq> []) (split_seqs whitespace_seqs [] s)"

section \<open>Numbers\<close>

text \<open>\<open>str::parse\<close> for an unsigned integer type whose largest value is \<open>m\<close>.\<close>

definition parse_uint :: "nat \<Rightarrow> string \<Rightarrow> nat option" where
  "parse_uint m s =
     (let d = (case s of c # t \<Rightarrow> if c = CHR ''+'' then t else s | [] \<Rightarrow> s)
      in if d \<noteq> [] \<and> list_all is_ascii_digit d \<and> read_nat d 0 \<le> m
         then Some (read_nat d 0) else None)"

abbreviation u8_max :: nat where "u8_max \<equiv> 255"
abbreviation u16_max :: nat where "u16_max \<equiv> 65535"

lemma parse_uint_le: "parse_uint m s = Some n \<Longrightarrow> n \<le> m"
  by (auto simp: parse_uint_def Let_def split: if_splits)

lemma parse_uint_show: "n \<le> m \<Longrightarrow> parse_uint m (show_nat n) = Some n"
proof -
  assume n: "n \<le> m"
  obtain c t where s: "show_nat n = c # t" by (cases "show_nat n") (use show_nat_nonempty in auto)
  from show_nat_digits [of n] s have "is_ascii_digit c" by simp
  then have "c \<noteq> CHR ''+''" by (auto simp: is_ascii_digit_def)
  with s n show_nat_digits [of n] read_show_nat [of n] show ?thesis
    by (simp add: parse_uint_def)
qed

text \<open>\<open>{:x}\<close> of one hexadecimal digit.\<close>

definition hex_char :: "nat \<Rightarrow> char" where
  "hex_char n = char_of (if n < 10 then 48 + n else 87 + n)"

definition to_lower :: "string \<Rightarrow> string" where
  "to_lower s = map to_ascii_lower s"

definition trim_start_char :: "char \<Rightarrow> string \<Rightarrow> string" where
  "trim_start_char c s = dropWhile (\<lambda>x. x = c) s"

text \<open>\<open>is_char_boundary\<close>: an end of the text, or a byte that continues no character.\<close>

definition is_char_boundary :: "string \<Rightarrow> nat \<Rightarrow> bool" where
  "is_char_boundary s n \<longleftrightarrow> n = 0 \<or> n = length s
     \<or> (n < length s \<and> \<not> (0x80 \<le> (of_char (s ! n) :: nat) \<and> (of_char (s ! n) :: nat) < 0xC0))"

end
