(* ===== verification/NetAddr.thy ===== *)
theory NetAddr
  imports StdText "HOL-Library.Word"
begin

unbundle bit_operations_syntax

text \<open>
  The standard library's IP addresses, as far as \<open>src/proxy.rs\<close> and \<open>src/auth/client.rs\<close> use
  them: \<open>IpAddr::from_str\<close> (the recursive-descent parser of \<open>core::net\<close>, with its embedded
  IPv4 part and its one omission), its \<open>Display\<close>, \<open>to_ipv4_mapped\<close> and \<open>is_loopback\<close>. An IPv4
  address is a 32-bit word and an IPv6 address a 128-bit word, as \<open>u32::from\<close> and
  \<open>u128::from\<close> read them.
\<close>

datatype ip_addr = V4 "32 word" | V6 "128 word"

section \<open>Reading an address\<close>

definition hex_value :: "char \<Rightarrow> nat" where
  "hex_value c = (let n = (of_char c :: nat) in
     if n \<le> 57 then n - 48 else if n \<le> 70 then n - 55 else n - 87)"

fun read_radix :: "nat \<Rightarrow> string \<Rightarrow> nat \<Rightarrow> nat" where
  "read_radix r [] acc = acc"
| "read_radix r (c # cs) acc = read_radix r cs (acc * r + hex_value c)"

text \<open>\<open>read_number\<close>: at most \<open>most\<close> digits, at least one, with or without leading zeros.\<close>

definition read_number :: "nat \<Rightarrow> nat \<Rightarrow> bool \<Rightarrow> nat \<Rightarrow> string \<Rightarrow> (nat \<times> string) option" where
  "read_number radix most zeros largest s =
     (let ds = takeWhile (if radix = 16 then is_ascii_hex else is_ascii_digit) s;
          n = read_radix radix ds 0
      in if ds = [] \<or> most < length ds \<or> (\<not> zeros \<and> hd ds = CHR ''0'' \<and> 1 < length ds)
            \<or> largest < n
         then None else Some (n, drop (length ds) s))"

definition read_given_char :: "char \<Rightarrow> string \<Rightarrow> string option" where
  "read_given_char c s = (case s of [] \<Rightarrow> None | x # t \<Rightarrow> if x = c then Some t else None)"

definition read_octet :: "string \<Rightarrow> (nat \<times> string) option" where
  "read_octet s = read_number 10 3 False 255 s"

text \<open>\<open>read_separator\<close>: the separator first, for every element but the first one.\<close>

definition read_separator ::
  "char \<Rightarrow> bool \<Rightarrow> (string \<Rightarrow> ('a \<times> string) option) \<Rightarrow> string \<Rightarrow> ('a \<times> string) option" where
  "read_separator sep first p s =
     (if first then p s else Option.bind (read_given_char sep s) p)"

fun read_octets :: "nat \<Rightarrow> bool \<Rightarrow> nat \<Rightarrow> string \<Rightarrow> (nat \<times> string) option" where
  "read_octets 0 first acc s = Some (acc, s)"
| "read_octets (Suc n) first acc s =
     (case read_separator (CHR ''.'') first read_octet s of
        None \<Rightarrow> None
      | Some (b, t) \<Rightarrow> read_octets n False (acc * 256 + b) t)"

definition read_ipv4_addr :: "string \<Rightarrow> (nat \<times> string) option" where
  "read_ipv4_addr s = read_octets 4 True 0 s"

text \<open>
  \<open>read_groups\<close>: up to \<open>n\<close> groups, an embedded IPv4 address counting as two; the flag says
  that one ended the groups.
\<close>

fun read_groups :: "nat \<Rightarrow> bool \<Rightarrow> string \<Rightarrow> nat list \<times> bool \<times> string" where
  "read_groups 0 first s = ([], False, s)"
| "read_groups (Suc n) first s =
     (case (if 0 < n then read_separator (CHR '':'') first read_ipv4_addr s else None) of
        Some (v4, t) \<Rightarrow> ([v4 div 65536, v4 mod 65536], True, t)
      | None \<Rightarrow>
          (case read_separator (CHR '':'') first (read_number 16 4 True 65535) s of
             None \<Rightarrow> ([], False, s)
           | Some (g, t) \<Rightarrow> (case read_groups n False t of (gs, v4, u) \<Rightarrow> (g # gs, v4, u))))"

definition read_ipv6_addr :: "string \<Rightarrow> (nat list \<times> string) option" where
  "read_ipv6_addr s =
     (case read_groups 8 True s of (head, v4, t) \<Rightarrow>
        if length head = 8 then Some (head, t)
        else if v4 then None
        else (case Option.bind (read_given_char (CHR '':'') t) (read_given_char (CHR '':'')) of
            None \<Rightarrow> None
          | Some u \<Rightarrow>
              (case read_groups (7 - length head) True u of (tail, _, w) \<Rightarrow>
                 Some (head @ replicate (8 - length head - length tail) 0 @ tail, w))))"

definition of_groups :: "nat list \<Rightarrow> 128 word" where
  "of_groups gs = foldl (\<lambda>w g. w * 65536 + of_nat g) 0 gs"

definition parse_ip :: "string \<Rightarrow> ip_addr option" where
  "parse_ip s =
     (case read_ipv4_addr s of
        Some (n, t) \<Rightarrow> if t = [] then Some (V4 (of_nat n)) else None
      | None \<Rightarrow> (case read_ipv6_addr s of
          Some (gs, t) \<Rightarrow> if t = [] then Some (V6 (of_groups gs)) else None
        | None \<Rightarrow> None))"

definition is_ipv4 :: "ip_addr \<Rightarrow> bool" where
  "is_ipv4 ip = (case ip of V4 _ \<Rightarrow> True | V6 _ \<Rightarrow> False)"

section \<open>Printing an address\<close>

fun show_hex :: "nat \<Rightarrow> string" where
  "show_hex n = (if n < 16 then [hex_char n] else show_hex (n div 16) @ [hex_char (n mod 16)])"

declare show_hex.simps [simp del]

definition octets :: "32 word \<Rightarrow> nat list" where
  "octets w = map (\<lambda>i. unat (drop_bit (8 * i) w) mod 256) [3, 2, 1, 0]"

definition segments :: "128 word \<Rightarrow> nat list" where
  "segments w = map (\<lambda>i. unat (drop_bit (16 * i) w) mod 65536) [7, 6, 5, 4, 3, 2, 1, 0]"

definition show_ipv4 :: "32 word \<Rightarrow> string" where
  "show_ipv4 w = join_with (CHR ''.'') (map show_nat (octets w))"

definition to_ipv4_mapped :: "128 word \<Rightarrow> 32 word option" where
  "to_ipv4_mapped w = (if drop_bit 32 w = 0xFFFF then Some (ucast w) else None)"

text \<open>The first of the longest runs of zero segments: its start and its length.\<close>

fun zero_span :: "nat \<Rightarrow> nat \<times> nat \<Rightarrow> nat \<times> nat \<Rightarrow> nat list \<Rightarrow> nat \<times> nat" where
  "zero_span i current longest [] = longest"
| "zero_span i current longest (g # gs) =
     (if g = 0 then
        (let c = (if snd current = 0 then (i, 1) else (fst current, Suc (snd current)))
         in zero_span (Suc i) c (if snd longest < snd c then c else longest) gs)
      else zero_span (Suc i) (0, 0) longest gs)"

definition show_groups :: "nat list \<Rightarrow> string" where
  "show_groups gs = join_with (CHR '':'') (map show_hex gs)"

definition show_ipv6 :: "128 word \<Rightarrow> string" where
  "show_ipv6 w =
     (case to_ipv4_mapped w of
        Some v4 \<Rightarrow> ''::ffff:'' @ show_ipv4 v4
      | None \<Rightarrow>
          (let gs = segments w; (start, len) = zero_span 0 (0, 0) (0, 0) gs
           in if 1 < len
              then show_groups (take start gs) @ ''::'' @ show_groups (drop (start + len) gs)
              else show_groups gs))"

fun show_ip :: "ip_addr \<Rightarrow> string" where
  "show_ip (V4 w) = show_ipv4 w"
| "show_ip (V6 w) = show_ipv6 w"

fun is_loopback_ip :: "ip_addr \<Rightarrow> bool" where
  "is_loopback_ip (V4 w) = (hd (octets w) = 127)"
| "is_loopback_ip (V6 w) = (w = 1)"

section \<open>Reading what is printed, for IPv4\<close>

lemma is_ascii_digit_dot: "\<not> is_ascii_digit (CHR ''.'')"
  by (simp add: is_ascii_digit_def)

lemma read_radix_10: "list_all is_ascii_digit s \<Longrightarrow> read_radix 10 s acc = read_nat s acc"
  by (induction s arbitrary: acc) (auto simp: hex_value_def Let_def is_ascii_digit_def)

lemma show_nat_lead: "hd (show_nat n) = CHR ''0'' \<Longrightarrow> length (show_nat n) = 1"
proof (induction n rule: show_nat.induct)
  case (1 n)
  show ?case
  proof (cases "n < 10")
    case False
    then have split: "show_nat n = show_nat (n div 10) @ [char_of (48 + n mod 10)]"
      by (subst show_nat.simps) simp
    then have "hd (show_nat (n div 10)) = CHR ''0''"
      using 1(2) show_nat_nonempty by simp
    with 1(1) [OF False] have "length (show_nat (n div 10)) = 1" .
    then obtain c where "show_nat (n div 10) = [c]" by (auto simp: length_Suc_conv)
    with \<open>hd (show_nat (n div 10)) = CHR ''0''\<close> have "show_nat (n div 10) = ''0''" by simp
    then have "n div 10 = 0" using read_show_nat [of "n div 10"] by simp
    with False show ?thesis by simp
  qed (subst show_nat.simps, simp)
qed

lemma length_show_nat_le: "n < 10 ^ k \<Longrightarrow> 0 < k \<Longrightarrow> length (show_nat n) \<le> k"
proof (induction n arbitrary: k rule: show_nat.induct)
  case (1 n)
  show ?case
  proof (cases "n < 10")
    case False
    with 1(2,3) obtain j where k: "k = Suc j" and j: "0 < j"
      by (cases k) (auto, metis False gr0I power_one_right less_numeral_extra(3) power_0 mult.right_neutral)
    then have "n div 10 < 10 ^ j" using 1(2) by (simp add: less_mult_imp_div_less mult.commute)
    from 1(1) [OF False this j] k False show ?thesis by (subst show_nat.simps) simp
  qed (use 1(3) in \<open>subst show_nat.simps, simp\<close>)
qed

lemma read_octet_show:
  assumes "n < 256" and "t = [] \<or> \<not> is_ascii_digit (hd t)"
  shows "read_octet (show_nat n @ t) = Some (n, t)"
proof -
  have tw: "takeWhile is_ascii_digit (show_nat n @ t) = show_nat n"
    using show_nat_digits [of n] assms(2)
    by (cases t) (auto simp: takeWhile_append2 list_all_iff)
  have "length (show_nat n) \<le> 3" by (rule length_show_nat_le) (use assms(1) in auto)
  moreover have "read_radix 10 (show_nat n) 0 = n"
    using read_radix_10 [OF show_nat_digits] read_show_nat by simp
  ultimately show ?thesis
    using tw show_nat_nonempty [of n] show_nat_lead [of n] assms(1)
    by (auto simp: read_octet_def read_number_def Let_def)
qed

lemma digits_of_base:
  "((w div b div b div b * b + w div b div b mod b) * b + w div b mod b) * b + w mod b = (w :: nat)"
  by (simp only: div_mult_mod_eq)

lemma octets_value: "foldl (\<lambda>n b. n * 256 + b) 0 (octets w) = unat w"
proof -
  have "unat w < 2 ^ 32" using unsigned_less [of w] by simp
  then have "unat w div 16777216 mod 256 = unat w div 16777216"
    by (simp add: less_mult_imp_div_less)
  moreover have "unat (drop_bit n w) = unat w div 2 ^ n" for n
    unfolding unat_drop_bit_eq by (rule drop_bit_eq_div)
  ultimately show ?thesis
    using digits_of_base [of "unat w" 256] by (simp add: octets_def div_mult2_eq [symmetric])
qed

lemma octets_less: "list_all (\<lambda>b. b < 256) (octets w)"
  by (simp add: octets_def)

lemma read_octets_show:
  assumes "list_all (\<lambda>b. b < 256) bs" and "t = [] \<or> (\<not> is_ascii_digit (hd t) \<and> hd t \<noteq> CHR ''.'')"
    and "bs \<noteq> []"
  shows "read_octets (length bs) True acc (join_with (CHR ''.'') (map show_nat bs) @ t)
           = Some (foldl (\<lambda>n b. n * 256 + b) acc bs, t)"
    and "read_octets (length bs) False acc (CHR ''.'' # join_with (CHR ''.'') (map show_nat bs) @ t)
           = Some (foldl (\<lambda>n b. n * 256 + b) acc bs, t)"
  using assms
proof (induction bs arbitrary: acc)
  case (Cons b bs)
  {
    case 1
    then show ?case using Cons.IH(2)
      by (cases bs) (auto simp: read_separator_def read_octet_show read_octet_show [of _ "[]", simplified]
          is_ascii_digit_dot)
  next
    case 2
    then show ?case using Cons.IH(2)
      by (cases bs)
        (auto simp: read_separator_def read_given_char_def read_octet_show
          read_octet_show [of _ "[]", simplified] is_ascii_digit_dot)
  }
qed simp_all

lemma parse_ip_show_ipv4: "parse_ip (show_ipv4 w) = Some (V4 w)"
proof -
  have "length (octets w) = 4" "octets w \<noteq> []" by (simp_all add: octets_def)
  then have "read_ipv4_addr (show_ipv4 w) = Some (unat w, [])"
    using read_octets_show(1) [OF octets_less, of "[]" w 0] octets_value [of w]
    by (simp only: read_ipv4_addr_def show_ipv4_def append_Nil2) simp
  then show ?thesis by (simp add: parse_ip_def)
qed

end
