(* ===== verification/Server.thy ===== *)
theory Server
  imports NetAddr
begin

text \<open>
  \<open>ServerUrl\<close> of \<open>src/auth/client.rs\<close>: the one origin the program talks to. The \<open>url\<close> crate is
  a parameter: \<open>url_parse\<close> is \<open>Url::parse\<close> (its error already printed), \<open>url_text\<close> is
  \<open>Url::as_str\<close>; a parsed \<open>Url\<close> is the record of what its accessors return. \<open>dbg\<close> is the debug
  printing of a string.
\<close>

datatype url_host = Domain string | HostV4 "32 word" | HostV6 "128 word"

record parsed_url =
  url_scheme :: string
  url_username :: string
  url_password :: "string option"
  url_host :: "url_host option"
  url_port_or_default :: "nat option"
  url_path :: string
  url_query :: "string option"
  url_fragment :: "string option"

record url_crate =
  url_parse :: "string \<Rightarrow> string + parsed_url"
  url_text :: "parsed_url \<Rightarrow> string"

definition is_loopback :: "parsed_url \<Rightarrow> bool" where
  "is_loopback u = (case url_host u of
     Some (Domain d) \<Rightarrow> d = ''localhost''
   | Some (HostV4 ip) \<Rightarrow> is_loopback_ip (V4 ip)
   | Some (HostV6 ip) \<Rightarrow> is_loopback_ip (V6 ip)
   | None \<Rightarrow> False)"

record server_url =
  origin_url :: parsed_url

definition server_url_parse :: "url_crate \<Rightarrow> (string \<Rightarrow> string) \<Rightarrow> string \<Rightarrow> string + server_url" where
  "server_url_parse lib dbg raw =
     (let input = trim_end_char (CHR ''/'') (trim_ws raw);
          with_scheme = (if contains_sub input ''://'' then input else ''https://'' @ input)
      in case url_parse lib with_scheme of
        Inl e \<Rightarrow> Inl (dbg input @ '' is not a valid URL: '' @ e)
      | Inr url \<Rightarrow>
          if url_username url \<noteq> [] \<or> url_password url \<noteq> None
          then Inl ''the server URL must not contain credentials''
          else if url_query url \<noteq> None \<or> url_fragment url \<noteq> None
                  \<or> url_path url \<notin> {'''', ''/''}
          then Inl ''the server URL must be an origin like https://chatwithwork.com''
          else if url_scheme url = ''https''
          then Inr \<lparr>origin_url = url\<lparr>url_path := ''/''\<rparr>\<rparr>
          else if url_scheme url = ''http'' \<and> is_loopback url
          then Inr \<lparr>origin_url = url\<lparr>url_path := ''/''\<rparr>\<rparr>
          else if url_scheme url = ''http''
          then Inl ''plain http is only allowed for localhost; use https''
          else Inl (''unsupported scheme '' @ dbg (url_scheme url) @ ''; use https''))"

definition server_origin :: "url_crate \<Rightarrow> server_url \<Rightarrow> string" where
  "server_origin lib s = trim_end_char (CHR ''/'') (url_text lib (origin_url s))"

definition server_is_secure :: "server_url \<Rightarrow> bool" where
  "server_is_secure s \<longleftrightarrow> url_scheme (origin_url s) = ''https''"

definition server_host :: "server_url \<Rightarrow> string" where
  "server_host s = (case url_host (origin_url s) of
     Some (HostV6 ip) \<Rightarrow> show_ip (V6 ip)
   | Some (HostV4 ip) \<Rightarrow> show_ip (V4 ip)
   | Some (Domain d) \<Rightarrow> d
   | None \<Rightarrow> [])"

definition server_port :: "server_url \<Rightarrow> nat" where
  "server_port s = (case url_port_or_default (origin_url s) of Some p \<Rightarrow> p | None \<Rightarrow> 443)"

definition server_endpoint :: "url_crate \<Rightarrow> server_url \<Rightarrow> string \<Rightarrow> string" where
  "server_endpoint lib s p = server_origin lib s @ ''/'' @ trim_start_char (CHR ''/'') p"

text \<open>\<open>split_once("://")\<close>\<close>

fun split_once_seq :: "string \<Rightarrow> string \<Rightarrow> (string \<times> string) option" where
  "split_once_seq sep [] = (if sep = [] then Some ([], []) else None)"
| "split_once_seq sep (c # s) =
     (if starts_with (c # s) sep then Some ([], drop (length sep) (c # s))
      else map_option (\<lambda>(l, r). (c # l, r)) (split_once_seq sep s))"

definition websocket_url :: "url_crate \<Rightarrow> server_url \<Rightarrow> string" where
  "websocket_url lib s =
     (let scheme = (if server_is_secure s then ''wss'' else ''ws'');
          rest = (case split_once_seq ''://'' (server_origin lib s) of
                    Some (_, r) \<Rightarrow> r | None \<Rightarrow> [])
      in scheme @ ''://'' @ rest @ ''/desktop'')"

definition websocket_htu :: "url_crate \<Rightarrow> server_url \<Rightarrow> string" where
  "websocket_htu lib s = server_endpoint lib s ''desktop''"

section \<open>What an accepted server is\<close>

lemma server_url_parse_Inr:
  "server_url_parse lib dbg raw = Inr s \<Longrightarrow>
     \<exists>url. url_parse lib (let i = trim_end_char (CHR ''/'') (trim_ws raw)
                           in if contains_sub i ''://'' then i else ''https://'' @ i) = Inr url
       \<and> origin_url s = url\<lparr>url_path := ''/''\<rparr>
       \<and> (url_scheme url = ''https'' \<or> (url_scheme url = ''http'' \<and> is_loopback url))
       \<and> url_username url = [] \<and> url_password url = None
       \<and> url_query url = None \<and> url_fragment url = None"
  by (auto simp: server_url_parse_def Let_def split: sum.splits if_splits)

lemma is_loopback_path [simp]: "is_loopback (u\<lparr>url_path := p\<rparr>) = is_loopback u"
  by (simp add: is_loopback_def)

lemma server_insecure_is_loopback:
  "server_url_parse lib dbg raw = Inr s \<Longrightarrow> \<not> server_is_secure s \<Longrightarrow>
     url_scheme (origin_url s) = ''http'' \<and> is_loopback (origin_url s)"
  by (drule server_url_parse_Inr) (auto simp: server_is_secure_def)

end
