(* ===== verification/ProxyFacts.thy ===== *)
theory ProxyFacts
  imports Proxy
begin

text \<open>
  What the proxy component guarantees: the password stays out of everything that is printed,
  the tunnel starts right after the head of the proxy's answer, the setting wins over the
  environment, and which hosts the \<open>NO_PROXY\<close> list sends out directly.
\<close>

section \<open>The password\<close>

text \<open>Two proxies that are the same but for what their passwords say.\<close>

definition same_but_password :: "proxy \<Rightarrow> proxy \<Rightarrow> bool" where
  "same_but_password p q \<longleftrightarrow> q = p\<lparr>proxy_password := proxy_password q\<rparr>
     \<and> (proxy_password p = None) = (proxy_password q = None)"

lemma same_but_passwordE:
  assumes "same_but_password p q"
  obtains "proxy_secure q = proxy_secure p" "proxy_host q = proxy_host p"
    "proxy_port q = proxy_port p" "proxy_username q = proxy_username p"
    "proxy_source q = proxy_source p" "(proxy_password q = None) = (proxy_password p = None)"
  using assms unfolding same_but_password_def by (cases p; cases q) simp

lemma redacted_same: "same_but_password p q \<Longrightarrow> redacted lib q = redacted lib p"
  by (erule same_but_passwordE)
    (auto simp: redacted_def proxy_authority_def Let_def split: option.splits)

lemma connect_same:
  "same_but_password p q \<Longrightarrow>
     snd (proxy_connect lib v w q host port) = snd (proxy_connect lib v w p host port)"
  by (erule same_but_passwordE)
    (auto simp: proxy_connect_def Let_def connect_verdict_def has_credentials_def
      proxy_authority_def split: option.splits sum.splits)

section \<open>Blank settings\<close>

lemma trim_start_Nil [simp]: "trim_start ws [] = []"
  by (rule trim_start_id) (metis starts_with.simps(2) list.exhaust)

lemma not_blank_Nil [simp]: "\<not> not_blank []"
  by (simp add: not_blank_def trim_ws_def)

section \<open>The head of the answer\<close>

lemma ends_with_iff: "ends_with s p \<longleftrightarrow> (\<exists>t. s = t @ p)"
  unfolding ends_with_def starts_with_iff by (metis rev_append rev_rev_ident)

definition head_of :: "string \<Rightarrow> bool" where
  "head_of h \<longleftrightarrow> ends_with h (CRLF @ CRLF) \<and> length h \<le> MAX_RESPONSE_HEAD
     \<and> (\<forall>n < length h. \<not> ends_with (take n h) (CRLF @ CRLF))"

lemma read_head_iff:
  assumes "\<forall>n < length head. \<not> ends_with (take n head) (CRLF @ CRLF)"
    and "length head \<le> MAX_RESPONSE_HEAD"
  shows "read_head broken head input = Inr (h, rest) \<longleftrightarrow>
    head_of h \<and> head @ input = h @ rest \<and> length head \<le> length h"
  using assms
proof (induction input arbitrary: head)
  case Nil
  show ?case
  proof (cases "ends_with head (CRLF @ CRLF)")
    case True
    with Nil show ?thesis
      by (auto simp: read_head.simps [of broken head] head_of_def)
  next
    case False
    then show ?thesis
      by (auto simp: read_head.simps [of broken head] head_of_def append_eq_append_conv2
          split: option.splits)
  qed
next
  case (Cons c input)
  show ?case
  proof (cases "ends_with head (CRLF @ CRLF)")
    case True
    have "h = head" if "head_of h" "head @ c # input = h @ rest" "length head \<le> length h"
    proof (rule ccontr)
      assume "h \<noteq> head"
      from that(2,3) have "take (length head) h = head"
        by (metis append_eq_conv_conj take_append diff_is_0_eq take_eq_Nil append_Nil2)
      with that(3) \<open>h \<noteq> head\<close> have "length head < length h"
        by (metis order_le_imp_less_or_eq take_all order_refl)
      with that(1) \<open>take (length head) h = head\<close> True show False
        unfolding head_of_def by metis
    qed
    with True Cons.prems show ?thesis
      by (auto simp: read_head.simps [of broken head] head_of_def)
  next
    case no: False
    show ?thesis
    proof (cases "MAX_RESPONSE_HEAD \<le> length head")
      case True
      have "h = head" if "head_of h" "head @ c # input = h @ rest" "length head \<le> length h"
        using that True by (auto simp: head_of_def append_eq_append_conv)
      with no True show ?thesis
        by (auto simp: read_head.simps [of broken head] head_of_def)
    next
      case False
      have "\<forall>n < length (head @ [c]). \<not> ends_with (take n (head @ [c])) (CRLF @ CRLF)"
        using Cons.prems(1) no by (auto simp: less_Suc_eq)
      from Cons.IH [OF this] False have
        "read_head broken (head @ [c]) input = Inr (h, rest) \<longleftrightarrow>
           head_of h \<and> head @ c # input = h @ rest \<and> Suc (length head) \<le> length h"
        by simp
      moreover have "length head \<noteq> length h"
        if "head_of h" "head @ c # input = h @ rest"
        using that no by (auto simp: head_of_def)
      ultimately show ?thesis using no False
        by (subst read_head.simps) (auto simp: le_less Suc_le_eq)
    qed
  qed
qed

lemma read_head_result:
  "read_head broken [] input = Inr (h, rest) \<longleftrightarrow> head_of h \<and> input = h @ rest"
  using read_head_iff [of "[]" broken input h rest] by simp

lemma proxy_connect_Inr:
  "snd (proxy_connect lib v w p host port) = Inr rest \<longleftrightarrow>
     tcp_failure w = None \<and> (proxy_secure p \<longrightarrow> tls_name_valid w \<and> tls_failure w = None)
     \<and> send_failure w = None
     \<and> (\<exists>h. read_head (reply_broken w) [] (replied w) = Inr (h, rest)
          \<and> connect_verdict p (authority host port) h = None)"
  by (auto simp: proxy_connect_def Let_def split: option.splits sum.splits if_splits)

lemma connect_verdict_None:
  "connect_verdict p target h = None \<longleftrightarrow>
     (\<exists>status. parse_status (case str_lines (from_utf8_lossy h) of l # _ \<Rightarrow> l | [] \<Rightarrow> []) = Some status
        \<and> 200 \<le> status \<and> status \<le> 299)"
  by (auto simp: connect_verdict_def Let_def split: option.splits if_splits)

section \<open>CIDR blocks\<close>

lemma unat_of_nat_32: "n < 4294967296 \<Longrightarrow> unat (of_nat n :: 32 word) = n"
  by (simp add: unat_of_nat take_bit_nat_eq_self)

lemma cidr_mask_v4:
  assumes "bits \<le> 32"
  shows "(cidr_mask 32 bits :: 32 word) = NOT (mask (32 - bits))"
proof -
  have "(32 - of_nat bits :: 32 word) = of_nat (32 - bits)" using assms by (simp add: of_nat_diff)
  moreover have "unat (of_nat (32 - bits) :: 32 word) = 32 - bits"
    by (rule unat_of_nat_32) simp
  moreover have "NOT (mask 32) = (0 :: 32 word)"
    by (intro bit_word_eqI) (simp add: bit_simps)
  ultimately show ?thesis
    using assms by (cases "bits = 0")
      (auto simp: cidr_mask_def checked_shl_def push_bit_minus_one_eq_not_mask)
qed

lemma cidr_mask_v6:
  assumes "bits \<le> 128"
  shows "(cidr_mask 128 bits :: 128 word) = NOT (mask (128 - bits))"
proof -
  have "(128 - of_nat bits :: 32 word) = of_nat (128 - bits)" using assms by (simp add: of_nat_diff)
  moreover have "unat (of_nat (128 - bits) :: 32 word) = 128 - bits"
    by (rule unat_of_nat_32) simp
  moreover have "NOT (mask 128) = (0 :: 128 word)"
    by (intro bit_word_eqI) (simp add: bit_simps)
  ultimately show ?thesis
    using assms by (cases "bits = 0")
      (auto simp: cidr_mask_def checked_shl_def push_bit_minus_one_eq_not_mask)
qed

lemma and_not_mask_eq:
  "(a AND NOT (mask n) = b AND NOT (mask n)) \<longleftrightarrow> drop_bit n a = drop_bit n (b :: 'a::len word)"
proof
  assume eq: "a AND NOT (mask n) = b AND NOT (mask n)"
  have "bit a (n + k) = bit b (n + k)" for k
    using arg_cong [OF eq, of "\<lambda>w. bit w (n + k)"] bit_imp_le_length [of a "n + k"]
      bit_imp_le_length [of b "n + k"] by (auto simp: bit_simps)
  then show "drop_bit n a = drop_bit n b"
    by (intro bit_word_eqI) (simp add: bit_simps)
next
  assume eq: "drop_bit n a = drop_bit n b"
  have "bit a k = bit b k" if "n \<le> k" for k
    using arg_cong [OF eq, of "\<lambda>w. bit w (k - n)"] that by (simp add: bit_simps)
  then show "a AND NOT (mask n) = b AND NOT (mask n)"
    by (intro bit_word_eqI) (auto simp: bit_simps)
qed

lemma canonical_v6: "to_ipv4_mapped w = None \<Longrightarrow> canonical (V6 w) = V6 w"
  by simp

text \<open>A block written for the family of the address matches exactly the shared leading bits.\<close>

lemma in_cidr_v4:
  assumes "canonical ip = V4 a" and "canonical net = V4 n" and "bits \<le> 32"
  shows "in_cidr ip net bits \<longleftrightarrow> drop_bit (32 - bits) a = drop_bit (32 - bits) n"
  using assms by (simp add: in_cidr_def cidr_mask_v4 and_not_mask_eq)

lemma in_cidr_v6:
  assumes "canonical ip = V6 a" and "canonical net = V6 n" and "bits \<le> 128"
  shows "in_cidr ip net bits \<longleftrightarrow> drop_bit (128 - bits) a = drop_bit (128 - bits) n"
  using assms by (simp add: in_cidr_def cidr_mask_v6 and_not_mask_eq)

lemma in_cidr_mixed:
  "is_ipv4 (canonical ip) \<noteq> is_ipv4 (canonical net) \<Longrightarrow> \<not> in_cidr ip net bits"
  by (auto simp: in_cidr_def is_ipv4_def split: ip_addr.splits)

text \<open>
  A block written as an IPv4-mapped IPv6 network keeps its prefix length, which counts from
  the 128-bit address, while the network becomes a 32-bit one: the width of the mask wraps.
\<close>

lemma cidr_mask_past_end:
  assumes "32 < bits" and "bits \<le> 128"
  shows "(cidr_mask 32 bits :: 32 word) = 0"
proof -
  have "(32 - of_nat bits :: 32 word) = of_nat (4294967296 + 32 - bits)"
    using assms by (subst of_nat_diff) simp_all
  moreover have "unat (of_nat (4294967296 + 32 - bits) :: 32 word) = 4294967296 + 32 - bits"
    using assms by (intro unat_of_nat_32) simp
  ultimately have "unat (32 - of_nat bits :: 32 word) = 4294967296 + 32 - bits" by (simp only:)
  with assms show ?thesis by (simp add: cidr_mask_def checked_shl_def)
qed

lemma in_cidr_past_end:
  "canonical ip = V4 a \<Longrightarrow> canonical net = V4 n \<Longrightarrow> 32 < bits \<Longrightarrow> bits \<le> 128
     \<Longrightarrow> in_cidr ip net bits"
  by (simp add: in_cidr_def cidr_mask_past_end)

section \<open>Names under a domain\<close>

lemma strip_suffix_Some: "strip_suffix p s = Some t \<longleftrightarrow> s = t @ p"
  unfolding strip_suffix_def by (auto simp: strip_prefix_Some) (metis rev_append rev_rev_ident)

lemma domain_matches_iff:
  "domain_matches name host \<longleftrightarrow> host = name \<or> (\<exists>sub. host = sub @ ''.'' @ name)"
proof -
  have under: "strip_suffix name (sub @ CHR ''.'' # name) = Some (sub @ ''.'')" for sub
    by (simp add: strip_suffix_Some)
  show ?thesis
    by (auto simp: under domain_matches_def ends_with_iff strip_suffix_Some split: option.splits)
qed

lemma split_on_append_sep:
  "split_on c (a @ c # b) = split_on c a @ split_on c b"
  by (induction a) (auto split: list.splits)

lemma split_on_eq_iff: "split_on c a = split_on c b \<longleftrightarrow> a = b"
  by (metis join_split_on)

lemma join_with_append:
  "ps \<noteq> [] \<Longrightarrow> qs \<noteq> [] \<Longrightarrow> join_with c (ps @ qs) = join_with c ps @ c # join_with c qs"
  by (induction c ps rule: join_with.induct) (cases qs; auto)+

lemma domain_matches_labels:
  "domain_matches name host \<longleftrightarrow>
     (\<exists>ls. split_on (CHR ''.'') host = ls @ split_on (CHR ''.'') name)"
proof
  assume "domain_matches name host"
  then show "\<exists>ls. split_on (CHR ''.'') host = ls @ split_on (CHR ''.'') name"
    by (auto simp: domain_matches_iff split_on_append_sep)
next
  assume "\<exists>ls. split_on (CHR ''.'') host = ls @ split_on (CHR ''.'') name"
  then obtain ls where "split_on (CHR ''.'') host = ls @ split_on (CHR ''.'') name" by blast
  then have "host = join_with (CHR ''.'') (ls @ split_on (CHR ''.'') name)"
    by (metis join_split_on)
  then show "domain_matches name host"
    by (cases "ls = []") (auto simp: domain_matches_iff join_with_append)
qed

end
