(* ===== verification/ProxyClaims.thy ===== *)
theory ProxyClaims
  imports ProxyFacts
begin

text \<open>
  The properties of the server's address and of the proxy, with the witnesses of those that
  have hypotheses. The crates in the witnesses are small concrete functions: a \<open>Url\<close> parser
  that knows one address, and identities for the encodings.
\<close>

definition demo_url :: parsed_url where
  "demo_url = \<lparr>url_scheme = ''http'', url_username = [], url_password = None,
     url_host = Some (Domain ''localhost''), url_port_or_default = Some 3000, url_path = ''/'',
     url_query = None, url_fragment = None\<rparr>"

definition demo_url_crate :: url_crate where
  "demo_url_crate = \<lparr>url_parse = (\<lambda>s. if s = ''http://localhost:3000'' then Inr demo_url
       else Inl ''relative URL without a base''),
     url_text = (\<lambda>u. ''http://localhost:3000/'')\<rparr>"

definition demo_crates :: proxy_crates where
  "demo_crates = \<lparr>url_lib = demo_url_crate, percent_decode = id, percent_encode = id,
     base64_encode = id\<rparr>"

definition demo_proxy :: proxy where
  "demo_proxy = \<lparr>proxy_secure = False, proxy_host = ''proxy'', proxy_port = 3128,
     proxy_username = ''alice'', proxy_password = Some ''hunter2'', proxy_source = ''config''\<rparr>"

definition demo_head :: string where
  "demo_head = ''HTTP/1.1 200 OK'' @ CRLF @ CRLF"

definition demo_wire :: wire where
  "demo_wire = \<lparr>tcp_failure = None, tls_name_valid = True, tls_failure = None,
     send_failure = None, replied = demo_head @ ''tls'', reply_broken = None\<rparr>"

text \<open>
  The proxy's password is in nothing that is printed: two proxies that differ only in
  their password have the same redacted URL, the same \<open>cww status\<close> entry, the same \<open>Debug\<close>
  form, and opening a connection through them gives the same stream or the same error.
\<close>

theorem password_never_shown:
  "(let p = c\<lparr>proxy_password := Some a\<rparr>; q = c\<lparr>proxy_password := Some b\<rparr>
    in redacted lib p = redacted lib q \<and> proxy_info_of lib p = proxy_info_of lib q
       \<and> debug_proxy lib p = debug_proxy lib q
       \<and> snd (open_stream lib v w (Some p) host port)
           = snd (open_stream lib v w (Some q) host port))"
proof -
  let ?p = "c\<lparr>proxy_password := Some a\<rparr>" and ?q = "c\<lparr>proxy_password := Some b\<rparr>"
  have same: "same_but_password ?q ?p" by (simp add: same_but_password_def)
  then have "redacted lib ?p = redacted lib ?q" by (rule redacted_same)
  moreover have "snd (open_stream lib v w (Some ?p) host port)
      = snd (open_stream lib v w (Some ?q) host port)"
    using connect_same [OF same, of lib v w host port] redacted_same [OF same, of lib]
    by (auto simp: open_stream_def split: prod.splits sum.splits)
  ultimately show ?thesis by (simp add: Let_def proxy_info_of_def debug_proxy_def)
qed

text \<open>
  A tunnel opens only after a whole head with a 2xx status, and nothing past the head is
  taken: the stream handed on is exactly what the proxy sent after the first blank line, which
  came within the limit.
\<close>

theorem tunnel_starts_after_the_head:
  assumes "snd (proxy_connect lib v w p host port) = Inr rest"
  shows "\<exists>h. replied w = h @ rest \<and> head_of h
    \<and> (case parse_status (hd (str_lines (from_utf8_lossy h))) of
         Some status \<Rightarrow> 200 \<le> status \<and> status \<le> 299 | None \<Rightarrow> False)"
proof -
  from assms obtain h where h: "read_head (reply_broken w) [] (replied w) = Inr (h, rest)"
      "connect_verdict p (authority host port) h = None"
    unfolding proxy_connect_Inr by blast
  from h(2) have "str_lines (from_utf8_lossy h) \<noteq> []"
    by (auto simp: connect_verdict_None parse_status_def split_whitespace_def)
  with h show ?thesis
    by (intro exI [of _ h])
      (auto simp: read_head_result connect_verdict_None neq_Nil_conv)
qed

lemma demo_head_of: "head_of demo_head"
  unfolding head_of_def
proof (intro conjI)
  show "length demo_head \<le> MAX_RESPONSE_HEAD"
    by (simp add: demo_head_def CRLF_def MAX_RESPONSE_HEAD_def)
  show "\<forall>n < length demo_head. \<not> ends_with (take n demo_head) (CRLF @ CRLF)" by code_simp
qed (simp add: demo_head_def ends_with_iff)

lemma demo_connect:
  "snd (proxy_connect demo_crates ''1'' demo_wire demo_proxy ''h'' 443) = Inr ''tls''"
proof -
  have "read_head None [] (demo_head @ ''tls'') = Inr (demo_head, ''tls'')"
    using demo_head_of by (simp add: read_head_result)
  moreover have "(case str_lines (from_utf8_lossy demo_head) of l # _ \<Rightarrow> l | [] \<Rightarrow> [])
      = ''HTTP/1.1 200 OK''" by code_simp
  moreover have "split_whitespace ''HTTP/1.1 200 OK'' = [''HTTP/1.1'', ''200'', ''OK'']"
    by code_simp
  moreover have "parse_uint u16_max ''200'' = Some 200"
    by (simp add: parse_uint_def is_ascii_digit_def)
  ultimately show ?thesis
    by (auto simp: proxy_connect_Inr demo_wire_def demo_proxy_def connect_verdict_None parse_status_def)
qed

theorem tunnel_starts_after_the_head_witness:
  "\<exists>h. replied demo_wire = h @ ''tls'' \<and> head_of h
    \<and> (case parse_status (hd (str_lines (from_utf8_lossy h))) of
         Some status \<Rightarrow> 200 \<le> status \<and> status \<le> 299 | None \<Rightarrow> False)"
  by (rule tunnel_starts_after_the_head [OF demo_connect])

text \<open>
  A proxy is used only when the program was told to, in the order it documents: it comes
  from the configuration file, or, only when that says nothing, from the first variable of the
  server's scheme that is not blank, and then only for a server \<open>NO_PROXY\<close> does not match.
  \<open>http_proxy\<close> never serves an \<open>https\<close> server.
\<close>

lemma map_sum_eq_Inr: "map_sum id Some x = Inr (Some p) \<longleftrightarrow> x = Inr p"
  by (cases x) auto

lemma proxy_parse_source: "proxy_parse lib dbg i s = Inr p \<Longrightarrow> proxy_source p = s"
  by (auto simp: proxy_parse_def Let_def split: sum.splits option.splits if_splits)

lemma find_env_Some:
  "find_env env ns = Some (n, v) \<Longrightarrow>
     (\<exists>a b. ns = a @ n # b \<and> list_all (\<lambda>m. \<not> not_blank (case env m of Some u \<Rightarrow> u | None \<Rightarrow> [])) a)
     \<and> env n = Some v \<and> not_blank v"
proof (induction ns)
  case (Cons m ns)
  show ?case
  proof (cases "not_blank (case env m of Some u \<Rightarrow> u | None \<Rightarrow> [])")
    case True
    then have "env m \<noteq> None" by (cases "env m") simp_all
    with True Cons.prems show ?thesis by (auto intro: exI [of _ "[]"])
  next
    case False
    then have "find_env env ns = Some (n, v)" using Cons.prems by (auto split: option.splits)
    from Cons.IH [OF this] obtain a b where "ns = a @ n # b"
      "list_all (\<lambda>m. \<not> not_blank (case env m of Some u \<Rightarrow> u | None \<Rightarrow> [])) a"
      "env n = Some v" "not_blank v" by blast
    with False show ?thesis by (intro conjI exI [of _ "m # a"] exI [of _ b]) simp_all
  qed
qed simp

theorem proxy_comes_from_its_source:
  "case resolve lib dbg setting server env of
     Inr (Some p) \<Rightarrow>
       (if proxy_source p = ''config''
        then (case setting of Some s \<Rightarrow> trim_ws s \<noteq> [] \<and> \<not> eq_ignore_ascii_case (trim_ws s) NONE
              | None \<Rightarrow> False)
        else (case setting of Some s \<Rightarrow> trim_ws s = [] | None \<Rightarrow> True)
          \<and> (\<exists>v before after. proxy_names (server_is_secure server) = before @ proxy_source p # after
               \<and> list_all (\<lambda>m. \<not> not_blank (case env m of Some u \<Rightarrow> u | None \<Rightarrow> [])) before
               \<and> env (proxy_source p) = Some v \<and> not_blank v
               \<and> proxy_parse lib dbg v (proxy_source p) = Inr p)
          \<and> \<not> no_proxy_matches (no_proxy_parse (no_proxy_value env)) (server_host server)
               (server_port server))
   | _ \<Rightarrow> True"
proof -
  have names: "n \<in> set (proxy_names b) \<Longrightarrow> n \<noteq> ''config''" for n b
    by (auto simp: proxy_names_def split: if_splits)
  have env: "proxy_source p \<noteq> ''config'' \<and> (\<exists>v before after.
        proxy_names (server_is_secure server) = before @ proxy_source p # after
        \<and> list_all (\<lambda>m. \<not> not_blank (case env m of Some u \<Rightarrow> u | None \<Rightarrow> [])) before
        \<and> env (proxy_source p) = Some v \<and> not_blank v
        \<and> proxy_parse lib dbg v (proxy_source p) = Inr p)
      \<and> \<not> no_proxy_matches (no_proxy_parse (no_proxy_value env)) (server_host server)
           (server_port server)"
    if r: "proxy_from_env lib dbg server env = Inr (Some p)" for p
  proof -
    from r obtain n v where f: "find_env env (proxy_names (server_is_secure server)) = Some (n, v)"
      "\<not> no_proxy_matches (no_proxy_parse (no_proxy_value env)) (server_host server)
           (server_port server)" "proxy_parse lib dbg v n = Inr p"
      by (auto simp: proxy_from_env_def split: option.splits if_splits)
        (metis (no_types, lifting) map_sum_eq_Inr)
    from find_env_Some [OF f(1)] names [of n] proxy_parse_source [OF f(3)] f(2,3) show ?thesis
      by (metis in_set_conv_decomp)
  qed
  have config: "proxy_source p = ''config''"
    if "map_sum id Some (proxy_parse lib dbg s ''config'') = Inr (Some p)" for s p
    using that proxy_parse_source by (cases "proxy_parse lib dbg s ''config''") auto
  show ?thesis
  proof (cases "resolve lib dbg setting server env")
    case (Inr r)
    show ?thesis
    proof (cases r)
      case (Some p)
      show ?thesis
      proof (cases "case setting of Some s \<Rightarrow> trim_ws s = [] | None \<Rightarrow> True")
        case True
        then have "proxy_from_env lib dbg server env = Inr (Some p)"
          using Inr Some by (auto simp: resolve_def split: option.splits)
        from env [OF this] True show ?thesis by (simp add: Inr Some)
      next
        case False
        then obtain s where s: "setting = Some s" "trim_ws s \<noteq> []"
          by (auto split: option.splits)
        then have "map_sum id Some (proxy_parse lib dbg (trim_ws s) ''config'') = Inr (Some p)"
          "\<not> eq_ignore_ascii_case (trim_ws s) NONE"
          using Inr Some by (auto simp: resolve_def split: if_splits)
        with s(2) have "case setting of Some s \<Rightarrow> trim_ws s \<noteq> []
            \<and> \<not> eq_ignore_ascii_case (trim_ws s) NONE | None \<Rightarrow> False" "proxy_source p = ''config''"
          using s(1) config by auto
        then show ?thesis by (simp add: Inr Some)
      qed
    qed (simp add: Inr)
  qed simp
qed

text \<open>
  A block of the \<open>NO_PROXY\<close> list written for IPv4 sends out directly exactly the hosts
  whose address, IPv4 or IPv4-mapped, shares its leading bits.
\<close>

theorem block_matches_its_prefix:
  assumes "bits \<le> 32"
  shows "no_proxy_matches [EntryCidr (V4 net) bits] host port \<longleftrightarrow>
    (case map_option canonical (parse_ip (no_proxy_host host)) of
       Some (V4 a) \<Rightarrow> drop_bit (32 - bits) a = drop_bit (32 - bits) net
     | _ \<Rightarrow> False)"
proof (cases "parse_ip (no_proxy_host host)")
  case (Some ip)
  show ?thesis
  proof (cases "canonical ip")
    case (V4 a)
    with in_cidr_v4 [OF V4, of "V4 net" net bits] assms Some show ?thesis
      by (simp add: no_proxy_matches_def Let_def)
  next
    case (V6 a)
    with in_cidr_mixed [of ip "V4 net" bits] Some show ?thesis
      by (simp add: no_proxy_matches_def Let_def is_ipv4_def)
  qed
qed (simp add: no_proxy_matches_def Let_def)

theorem block_matches_its_prefix_witness:
  "no_proxy_matches [EntryCidr (V4 0x0A000000) 8] ''10.1.2.3'' 443"
proof -
  have "no_proxy_host ''10.1.2.3'' = ''10.1.2.3''" by code_simp
  moreover have "show_ipv4 0x0A010203 = ''10.1.2.3''"
    by (simp add: show_ipv4_def octets_def show_nat.simps, code_simp)
  ultimately have "parse_ip (no_proxy_host ''10.1.2.3'') = Some (V4 0x0A010203)"
    by (metis parse_ip_show_ipv4)
  then show ?thesis
    using block_matches_its_prefix [of 8 "0x0A000000" "''10.1.2.3''" 443] by simp
qed

text \<open>
  A block written in its IPv4-mapped form keeps the prefix length of the IPv6 form while
  its network becomes an IPv4 one, so that with \<open>NO_PROXY=::ffff:10.0.0.0/104\<close>, which names
  the hosts of \<open>10.0.0.0/8\<close>, every server with an IPv4 address is reached directly.
\<close>

lemmas read_numeral = numeral_eq_Suc [THEN arg_cong [of _ _ read_groups],
    THEN fun_cong, THEN fun_cong, unfolded read_groups.simps]
  numeral_eq_Suc [THEN arg_cong [of _ _ read_octets],
    THEN fun_cong, THEN fun_cong, THEN fun_cong, unfolded read_octets.simps]

lemma five_zeros: "replicate 5 (0 :: nat) = [0, 0, 0, 0, 0]"
  by code_simp

lemma mapped_net:
  "parse_ip ''::ffff:10.0.0.0'' = Some (V6 0xFFFF0A000000)"
  by (simp add: parse_ip_def read_ipv4_addr_def read_ipv6_addr_def read_octet_def read_number_def
      read_separator_def read_given_char_def of_groups_def Let_def is_ascii_digit_def
      is_ascii_hex_def hex_value_def read_numeral five_zeros)

lemma no_proxy_parse_mapped:
  "no_proxy_parse ''::ffff:10.0.0.0/104'' = [EntryCidr (V6 0xFFFF0A000000) 104]"
proof -
  have "filter (\<lambda>p. p \<noteq> []) (split_seqs ('','' # whitespace_seqs) [] ''::ffff:10.0.0.0/104'')
      = [''::ffff:10.0.0.0/104'']" by code_simp
  moreover have "to_lower (trim_ws ''::ffff:10.0.0.0/104'') = ''::ffff:10.0.0.0/104''" by code_simp
  moreover have "split_once (CHR ''/'') ''::ffff:10.0.0.0/104'' = Some (''::ffff:10.0.0.0'', ''104'')"
    by code_simp
  moreover have "unbracket ''::ffff:10.0.0.0'' = ''::ffff:10.0.0.0''" by code_simp
  moreover have "parse_uint u8_max ''104'' = Some 104"
    by (simp add: parse_uint_def is_ascii_digit_def)
  ultimately show ?thesis
    by (simp add: no_proxy_parse_def no_proxy_entry_parse_def mapped_net is_ipv4_def
        map_filter_simps)
qed

theorem mapped_block_matches_every_ipv4:
  assumes "map_option canonical (parse_ip (no_proxy_host host)) = Some (V4 a)"
  shows "no_proxy_matches (no_proxy_parse ''::ffff:10.0.0.0/104'') host port"
proof -
  obtain ip where ip: "parse_ip (no_proxy_host host) = Some ip" "canonical ip = V4 a"
    using assms by auto
  have "canonical (V6 0xFFFF0A000000) = V4 0x0A000000" by (simp add: to_ipv4_mapped_def)
  from in_cidr_past_end [OF ip(2) this, of 104] ip(1) show ?thesis
    by (simp add: no_proxy_parse_mapped no_proxy_matches_def Let_def)
qed

theorem mapped_block_matches_every_ipv4_witness:
  "no_proxy_matches (no_proxy_parse ''::ffff:10.0.0.0/104'') ''8.8.8.8'' 443"
proof -
  have "no_proxy_host ''8.8.8.8'' = ''8.8.8.8''" by code_simp
  moreover have "show_ipv4 0x08080808 = ''8.8.8.8''"
    by (simp add: show_ipv4_def octets_def show_nat.simps, code_simp)
  ultimately have "parse_ip (no_proxy_host ''8.8.8.8'') = Some (V4 0x08080808)"
    by (metis parse_ip_show_ipv4)
  then show ?thesis by (intro mapped_block_matches_every_ipv4) simp
qed

text \<open>
  A name of the \<open>NO_PROXY\<close> list covers exactly the hosts that end in its labels: whole
  labels, so \<open>example.com\<close> covers \<open>a.example.com\<close> and not \<open>notexample.com\<close>.
\<close>

theorem name_covers_whole_labels:
  "no_proxy_matches [EntryDomain name None] host port \<longleftrightarrow>
     parse_ip (no_proxy_host host) = None
     \<and> (\<exists>labels. split_on (CHR ''.'') (no_proxy_host host) = labels @ split_on (CHR ''.'') name)"
  by (simp add: no_proxy_matches_def Let_def port_allows_def domain_matches_labels)

text \<open>
  Whatever address the person gives, the program only talks \<open>https\<close>, or plain \<open>http\<close> to
  this very computer; and the address carries no credentials.
\<close>

theorem plain_http_stays_on_this_computer:
  assumes "server_url_parse lib dbg raw = Inr s"
  shows "(server_is_secure s \<or> is_loopback (origin_url s))
    \<and> starts_with (websocket_url lib s) (if server_is_secure s then ''wss://'' else ''ws://'')
    \<and> url_username (origin_url s) = [] \<and> url_password (origin_url s) = None"
proof -
  from server_url_parse_Inr [OF assms] have "url_username (origin_url s) = []"
      "url_password (origin_url s) = None" by auto
  with server_insecure_is_loopback [OF assms] show ?thesis
    by (auto simp: websocket_url_def Let_def)
qed

theorem plain_http_stays_on_this_computer_witness:
  "is_loopback (demo_url\<lparr>url_path := ''/''\<rparr>)"
proof -
  have "trim_end_char (CHR ''/'') (trim_ws ''http://localhost:3000/'') = ''http://localhost:3000''"
    by code_simp
  moreover have "is_loopback demo_url" by (simp add: is_loopback_def demo_url_def)
  ultimately have "server_url_parse demo_url_crate id ''http://localhost:3000/''
      = Inr \<lparr>origin_url = demo_url\<lparr>url_path := ''/''\<rparr>\<rparr>"
    by (simp add: server_url_parse_def Let_def demo_url_crate_def demo_url_def)
  from plain_http_stays_on_this_computer [OF this] show ?thesis
    by (simp add: server_is_secure_def demo_url_def)
qed

end
