(* ===== verification/RunCell.thy ===== *)
theory RunCell
  imports StdText Config
begin

text \<open>
  One run's output and state: \<open>Cell\<close> of \<open>src/commands/mod.rs\<close>, with the limits a run gets and
  the status, output and result made of it. Output is kept as bytes: a window of the latest
  \<open>WINDOW\<close> bytes of both streams, and the end of each stream.
\<close>

definition MAX_COMMAND_CHARS :: nat where "MAX_COMMAND_CHARS = 8000"
definition MAX_OUTPUT_CHUNK :: nat where "MAX_OUTPUT_CHUNK = 64 * 1024"
definition RUN_WINDOW :: nat where "RUN_WINDOW = 1024 * 1024"
definition FINISHED_KEPT :: nat where "FINISHED_KEPT = 32"

record run_error =
  re_code :: string
  re_message :: string

definition run_error :: "string \<Rightarrow> string \<Rightarrow> run_error" where
  "run_error c m = \<lparr>re_code = c, re_message = m\<rparr>"

record run_limits =
  rl_cpu_seconds :: nat
  rl_memory_mb :: nat
  rl_timeout_seconds :: nat
  rl_processes :: nat
  rl_output_chars :: nat

definition limits_from_config :: "limits \<Rightarrow> run_limits" where
  "limits_from_config l = \<lparr>rl_cpu_seconds = command_cpu_seconds l,
     rl_memory_mb = command_memory_mb l, rl_timeout_seconds = command_timeout_seconds l,
     rl_processes = command_processes l, rl_output_chars = command_output_chars l\<rparr>"

datatype run_stream = OutStream | ErrStream

datatype run_state = Running | Exited int | TimedOut | Stopped | RunFailed string

record run_status =
  rs_id :: string
  rs_state :: string
  rs_exit_code :: "int option"
  rs_duration_ms :: nat
  rs_output_bytes :: nat
  rs_error :: "string option"
  rs_limit :: "string option"

definition status_running :: "run_status \<Rightarrow> bool" where
  "status_running s \<longleftrightarrow> rs_state s = ''running''"

record run_output =
  ro_id :: string
  ro_offset :: nat
  ro_next_offset :: nat
  ro_skipped :: nat
  ro_text :: string
  ro_done :: bool

record run_finished =
  rf_status :: run_status
  rf_stdout :: string
  rf_stderr :: string
  rf_stdout_cut :: nat
  rf_stderr_cut :: nat

record run_summary =
  sm_status :: run_status
  sm_root :: string
  sm_dir :: string
  sm_command :: string
  sm_network :: bool
  sm_started_at :: nat

record cell =
  c_id :: string
  c_root :: string
  c_dir :: string
  c_command :: string
  c_network :: bool
  c_started :: instant
  c_started_at :: nat
  c_limit :: "string option"
  c_ended :: "instant option"
  c_state :: run_state
  c_stop :: bool
  c_window :: string
  c_window_start :: nat
  c_total :: nat
  c_out :: string
  c_err :: string
  c_out_total :: nat
  c_err_total :: nat
  c_tail_bytes :: nat

section \<open>Output as it arrives\<close>

text \<open>
  A \<open>VecDeque\<close> cut to its last \<open>n\<close> bytes: \<open>drain(..len - n)\<close>, when it holds more. The
  \<open>while\<close> loop around it in \<open>append\<close> drains once: the queue then holds exactly \<open>n\<close>.
\<close>

definition keep_last :: "nat \<Rightarrow> string \<Rightarrow> string" where
  "keep_last n s = drop (length s - n) s"

definition cell_append :: "run_stream \<Rightarrow> string \<Rightarrow> cell \<Rightarrow> cell" where
  "cell_append stream bytes c =
     (let w = c_window c @ bytes;
          c1 = c\<lparr>c_window := keep_last RUN_WINDOW w,
                 c_window_start := c_window_start c + (length w - RUN_WINDOW),
                 c_total := c_total c + length bytes\<rparr>
      in case stream of
           OutStream \<Rightarrow> c1\<lparr>c_out := keep_last (c_tail_bytes c) (c_out c @ bytes),
             c_out_total := c_out_total c + length bytes\<rparr>
         | ErrStream \<Rightarrow> c1\<lparr>c_err := keep_last (c_tail_bytes c) (c_err c @ bytes),
             c_err_total := c_err_total c + length bytes\<rparr>)"

definition cell_finish :: "instant \<Rightarrow> run_state \<Rightarrow> cell \<Rightarrow> cell" where
  "cell_finish now st c =
     (if c_state c = Running then c\<lparr>c_state := st, c_ended := Some now\<rparr> else c)"

section \<open>What callers see\<close>

definition cell_status :: "instant \<Rightarrow> cell \<Rightarrow> run_status" where
  "cell_status now c =
     (let (st, exit_code, err) = (case c_state c of
            Running \<Rightarrow> (''running'', None, None)
          | Exited n \<Rightarrow> (''exited'', Some n, None)
          | TimedOut \<Rightarrow> (''timed_out'', None, None)
          | Stopped \<Rightarrow> (''stopped'', None, None)
          | RunFailed e \<Rightarrow> (''failed'', None, Some e));
          duration = (case c_ended c of Some e \<Rightarrow> e | None \<Rightarrow> now) - c_started c
      in \<lparr>rs_id = c_id c, rs_state = st, rs_exit_code = exit_code,
          rs_duration_ms = min (duration div 1000000) u64_max, rs_output_bytes = c_total c,
          rs_error = err, rs_limit = c_limit c\<rparr>)"

definition cell_summary :: "instant \<Rightarrow> cell \<Rightarrow> run_summary" where
  "cell_summary now c = \<lparr>sm_status = cell_status now c, sm_root = c_root c, sm_dir = c_dir c,
     sm_command = c_command c, sm_network = c_network c, sm_started_at = c_started_at c\<rparr>"

text \<open>The longest prefix that does not end inside a character.\<close>

definition utf8_prefix :: "string \<Rightarrow> nat" where
  "utf8_prefix bytes = (case utf8_error bytes of
     Some (valid_up_to, None) \<Rightarrow> valid_up_to
   | _ \<Rightarrow> length bytes)"

definition clamp :: "nat \<Rightarrow> nat \<Rightarrow> nat \<Rightarrow> nat" where
  "clamp lo hi n = (if n < lo then lo else if hi < n then hi else n)"

definition cell_output :: "nat \<Rightarrow> nat \<Rightarrow> cell \<Rightarrow> run_output" where
  "cell_output offset most c =
     (let start = clamp (c_window_start c) (c_total c) offset;
          skipped = start - min offset start;
          taken = take (min most MAX_OUTPUT_CHUNK) (drop (start - c_window_start c) (c_window c));
          whole = utf8_prefix taken;
          bytes = (if 0 < whole then take whole taken else taken);
          nxt = start + length bytes
      in \<lparr>ro_id = c_id c, ro_offset = start, ro_next_offset = nxt, ro_skipped = skipped,
          ro_text = from_utf8_lossy bytes,
          ro_done = (c_state c \<noteq> Running \<and> c_total c \<le> nxt)\<rparr>)"

text \<open>The last \<open>chars\<close> characters of a stream, and how many were cut.\<close>

definition tail_text :: "string \<Rightarrow> nat \<Rightarrow> nat \<Rightarrow> string \<times> nat" where
  "tail_text tail len chars =
     (let lossy = from_utf8_lossy tail;
          shown = (if length tail < len then trim_start [REPLACEMENT] lossy else lossy);
          count = length (utf8_chars shown);
          dropped = len - length tail
      in if count \<le> chars then (shown, dropped)
         else (utf8_encode (drop (count - chars) (utf8_chars shown)), count - chars + dropped))"

definition cell_finished :: "instant \<Rightarrow> nat \<Rightarrow> cell \<Rightarrow> run_finished" where
  "cell_finished now chars c =
     (let (stdout, stdout_cut) = tail_text (c_out c) (c_out_total c) chars;
          (stderr, stderr_cut) = tail_text (c_err c) (c_err_total c) chars
      in \<lparr>rf_status = cell_status now c, rf_stdout = stdout, rf_stderr = stderr,
          rf_stdout_cut = stdout_cut, rf_stderr_cut = stderr_cut\<rparr>)"

section \<open>The window and the ends are slices of the history\<close>

text \<open>
  What a run printed: every piece in the order it arrived, with its stream. The cell is a
  function of it, up to the fields nothing below changes.
\<close>

type_synonym run_history = "(run_stream \<times> string) list"

definition both :: "run_history \<Rightarrow> string" where
  "both h = concat (map snd h)"

definition of_stream :: "run_stream \<Rightarrow> run_history \<Rightarrow> string" where
  "of_stream s h = concat (map snd (filter (\<lambda>p. fst p = s) h))"

lemma both_append [simp]: "both (h @ [(s, b)]) = both h @ b" "both [] = []"
  by (simp_all add: both_def)

lemma of_stream_append [simp]:
  "of_stream s (h @ [(t, b)]) = of_stream s h @ (if s = t then b else [])"
  "of_stream s [] = []"
  by (simp_all add: of_stream_def)

definition shows_history :: "run_history \<Rightarrow> cell \<Rightarrow> bool" where
  "shows_history h c \<longleftrightarrow>
     c_total c = length (both h) \<and> c_window_start c = length (both h) - RUN_WINDOW
     \<and> c_window c = keep_last RUN_WINDOW (both h)
     \<and> c_out_total c = length (of_stream OutStream h)
     \<and> c_out c = keep_last (c_tail_bytes c) (of_stream OutStream h)
     \<and> c_err_total c = length (of_stream ErrStream h)
     \<and> c_err c = keep_last (c_tail_bytes c) (of_stream ErrStream h)"

lemma keep_last_append: "keep_last n (keep_last n s @ t) = keep_last n (s @ t)"
proof (cases "length s \<le> n")
  case False
  then have "length s + length t - (length s - n + n) + (length s - n) = length s + length t - n"
    by linarith
  then show ?thesis by (simp add: keep_last_def)
qed (simp add: keep_last_def)

lemma length_keep_last [simp]: "length (keep_last n s) = min n (length s)"
  by (simp add: keep_last_def)

lemma shows_history_append:
  assumes "shows_history h c"
  shows "shows_history (h @ [(stream, bytes)]) (cell_append stream bytes c)"
proof -
  have "length (both h) - RUN_WINDOW + (min RUN_WINDOW (length (both h)) + length bytes - RUN_WINDOW)
      = length (both h) + length bytes - RUN_WINDOW" by linarith
  then show ?thesis using assms
    by (cases stream) (simp_all add: shows_history_def cell_append_def Let_def keep_last_append)
qed

lemma shows_history_finish: "shows_history h c \<Longrightarrow> shows_history h (cell_finish now st c)"
  by (simp add: shows_history_def cell_finish_def)

lemma shows_history_status:
  "shows_history h (c\<lparr>c_stop := b\<rparr>) = shows_history h c"
  "shows_history h (c\<lparr>c_limit := l\<rparr>) = shows_history h c"
  by (simp_all add: shows_history_def)

text \<open>The bytes a read at \<open>offset\<close> returns, as a slice of what the run printed.\<close>

definition slice_at :: "string \<Rightarrow> nat \<Rightarrow> nat \<Rightarrow> nat \<times> string" where
  "slice_at hist offset most =
     (let start = clamp (length hist - RUN_WINDOW) (length hist) offset;
          taken = take (min most MAX_OUTPUT_CHUNK) (drop start hist)
      in (start, if 0 < utf8_prefix taken then take (utf8_prefix taken) taken else taken))"

lemma clamp_bounds: "lo \<le> hi \<Longrightarrow> lo \<le> clamp lo hi n \<and> clamp lo hi n \<le> hi"
  by (auto simp: clamp_def)

lemma cell_output_slice:
  assumes "shows_history h c"
  shows "cell_output offset most c =
    (case slice_at (both h) offset most of (start, bytes) \<Rightarrow>
       \<lparr>ro_id = c_id c, ro_offset = start, ro_next_offset = start + length bytes,
        ro_skipped = start - min offset start, ro_text = from_utf8_lossy bytes,
        ro_done = (c_state c \<noteq> Running \<and> length (both h) \<le> start + length bytes)\<rparr>)"
proof -
  define lo where "lo = length (both h) - RUN_WINDOW"
  define start where "start = clamp lo (length (both h)) offset"
  have "lo \<le> start" using clamp_bounds [of lo "length (both h)" offset]
    by (simp add: start_def lo_def)
  then have "drop (start - lo) (drop lo (both h)) = drop start (both h)" by simp
  then show ?thesis using assms
    by (simp add: cell_output_def slice_at_def shows_history_def Let_def keep_last_def
        start_def lo_def)
qed

lemma utf8_prefix_le: "utf8_prefix s \<le> length s"
  using utf8_error_valid_up_to [of s]
  by (auto simp: utf8_prefix_def split: option.splits prod.splits)

lemma slice_at_drop:
  assumes "slice_at hist offset most = (start, bytes)"
  shows "bytes = take (length bytes) (drop start hist)" and "start \<le> length hist"
    and "start + length bytes \<le> length hist"
proof -
  define taken where "taken = take (min most MAX_OUTPUT_CHUNK) (drop start hist)"
  have b: "bytes = (if 0 < utf8_prefix taken then take (utf8_prefix taken) taken else taken)"
    and st: "start = clamp (length hist - RUN_WINDOW) (length hist) offset"
    using assms by (auto simp: slice_at_def taken_def Let_def)
  show "bytes = take (length bytes) (drop start hist)"
    unfolding b taken_def using utf8_prefix_le [of taken] by (auto simp: taken_def min_def)
  then show "start \<le> length hist"
    using clamp_bounds [of "length hist - RUN_WINDOW" "length hist" offset] st by simp
  then show "start + length bytes \<le> length hist"
    using \<open>bytes = take (length bytes) (drop start hist)\<close>
    by (metis add.commute le_diff_conv2 length_drop length_take min.cobounded1 min.commute)
qed

text \<open>A read that asks for at least one character, where there is something left, returns some.\<close>

lemma slice_at_progress:
  assumes "slice_at hist offset most = (start, bytes)" and "0 < most" and "start < length hist"
  shows "bytes \<noteq> []"
proof -
  have "take (min most MAX_OUTPUT_CHUNK) (drop start hist) \<noteq> []"
    using assms(2,3) by (simp add: MAX_OUTPUT_CHUNK_def)
  then show ?thesis using assms(1) by (auto simp: slice_at_def Let_def split: if_splits)
qed

end
