(* ===== verification/RunPlan.thy ===== *)
theory RunPlan
  imports RunCell Json Roots
begin

text \<open>
  \<open>src/commands/plan.rs\<close>: what one run may do, worked out from the configuration, and the
  request to the MXC sandbox that holds it to that (Unix). The file system is three functions;
  \<open>runs_dir\<close> is \<open>Paths::runs_dir\<close>. A path is the list of its normal components; printed by
  \<open>display\<close>, it is the bytes of its name made valid UTF-8.
\<close>

record run_fs =
  fs_canonicalize :: "path \<Rightarrow> path option"
  fs_is_dir :: "path \<Rightarrow> bool"
  fs_exists :: "path \<Rightarrow> bool"

record run_request =
  rq_root :: string
  rq_dir :: string
  rq_command :: string

datatype sandbox = Bubblewrap | Landlock | Seatbelt

record run_plan =
  pl_id :: string
  pl_command :: string
  pl_folder :: path
  pl_cwd :: path
  pl_network :: bool
  pl_limits :: run_limits
  pl_home :: path

section \<open>The sandbox of this computer\<close>

text \<open>The system, with what the probes of Bubblewrap and of Landlock said: \<open>None\<close> for success.\<close>

datatype host_system = LinuxHost "string option" "string option" | MacHost | OtherHost

fun sandbox_for_host :: "host_system \<Rightarrow> run_error + sandbox" where
  "sandbox_for_host (LinuxHost None landlock) = Inr Bubblewrap"
| "sandbox_for_host (LinuxHost (Some bubblewrap) None) = Inr Landlock"
| "sandbox_for_host (LinuxHost (Some bubblewrap) (Some landlock)) = Inl (run_error ''unavailable''
     (''commands can't run on this computer. Bubblewrap can't: '' @ bubblewrap
      @ '' Landlock can't either: '' @ landlock))"
| "sandbox_for_host MacHost = Inr Seatbelt"
| "sandbox_for_host OtherHost =
     Inl (run_error ''unavailable'' ''commands can't run on this system yet'')"

definition sandbox_refuses :: "sandbox \<Rightarrow> run_plan \<Rightarrow> run_error option" where
  "sandbox_refuses sb p =
     (if sb = Landlock \<and> pl_network p
      then Some (run_error ''network_unavailable''
        (''this folder allows commands the network, which this computer can't give them safely: Bubblewrap can't create a sandbox here, and Landlock, used instead, ''
         @ ''could only give the whole network, its local servers included. Turn the network off for this folder, or allow unprivileged user namespaces for Bubblewrap''))
      else None)"

fun own_processes :: "sandbox \<Rightarrow> nat" where
  "own_processes Bubblewrap = 3"
| "own_processes Landlock = 0"
| "own_processes Seatbelt = 0"

section \<open>Checking a request\<close>

text \<open>\<open>Path::components\<close> on a Unix path that is UTF-8.\<close>

definition path_components :: "string \<Rightarrow> path_component list" where
  "path_components s =
     (if starts_with s ''/'' then [RootDir]
      else if s = ''.'' \<or> starts_with s ''./'' then [CurDir] else [])
     @ map (\<lambda>p. if p = ''..'' then ParentDir else Normal (Some p))
         (filter (\<lambda>p. p \<noteq> [] \<and> p \<noteq> ''.'') (split_on (CHR ''/'') s))"

fun is_plain :: "path_component \<Rightarrow> bool" where
  "is_plain (Normal n) = True"
| "is_plain CurDir = True"
| "is_plain _ = False"

text \<open>\<open>folder.join(relative)\<close> for a relative path of plain components.\<close>

definition join_relative :: "path \<Rightarrow> path_component list \<Rightarrow> path" where
  "join_relative folder cs =
     folder @ List.map_filter (\<lambda>c. case c of Normal n \<Rightarrow> n | _ \<Rightarrow> None) cs"

definition check_command :: "string \<Rightarrow> run_error + string" where
  "check_command text =
     (let command = trim_ws text
      in if command = [] then Inl (run_error ''invalid'' ''the command is empty'')
         else if MAX_COMMAND_CHARS < length (utf8_chars command) \<or> CHR 0x00 \<in> set command
         then Inl (run_error ''invalid'' (''a command is at most '' @ show_nat MAX_COMMAND_CHARS
           @ '' characters, without NUL''))
         else Inr command)"

definition check_cwd :: "run_fs \<Rightarrow> path \<Rightarrow> string \<Rightarrow> run_error + path" where
  "check_cwd fs folder dir =
     (if \<not> list_all is_plain (path_components dir) \<or> CHR 0x00 \<in> set dir \<or> CHR 0x5C \<in> set dir
      then Inl (run_error ''invalid_path''
        ''the working folder must be a relative path inside the shared folder'')
      else (case fs_canonicalize fs (join_relative folder (path_components dir)) of
        None \<Rightarrow> Inl (run_error ''not_found'' (''no folder '' @ dir))
      | Some cwd \<Rightarrow>
          if \<not> starts_with cwd folder \<or> \<not> fs_is_dir fs cwd
          then Inl (run_error ''invalid_path''
            ''the working folder must be a folder inside the shared folder'')
          else Inr cwd))"

definition run_plan_of ::
  "run_fs \<Rightarrow> config \<Rightarrow> path \<Rightarrow> run_request \<Rightarrow> string \<Rightarrow> run_error + run_plan" where
  "run_plan_of fs cfg runs_dir req i =
     (case config_root cfg (rq_root req) of
        None \<Rightarrow> Inl (run_error ''not_found'' (''no shared folder '' @ rq_root req))
      | Some r \<Rightarrow>
          if \<not> runs_commands r
          then Inl (run_error ''not_allowed''
            (root_label r @ '' doesn't allow commands. Allow them on this computer to run one there''))
          else (case check_command (rq_command req) of
            Inl e \<Rightarrow> Inl e
          | Inr command \<Rightarrow> (case fs_canonicalize fs (root_path r) of
              None \<Rightarrow> Inl (run_error ''not_found'' (root_label r @ '' isn't there''))
            | Some folder \<Rightarrow> (case check_cwd fs folder (rq_dir req) of
                Inl e \<Rightarrow> Inl e
              | Inr cwd \<Rightarrow> Inr \<lparr>pl_id = i, pl_command = command, pl_folder = folder, pl_cwd = cwd,
                  pl_network = network r, pl_limits = limits_from_config (cfg_limits cfg),
                  pl_home = runs_dir @ [i]\<rparr>))))"

section \<open>What a run may read\<close>

record toolchain =
  tc_read :: string
  tc_bins :: "string list"
  tc_env :: "string option"

definition TOOLCHAINS :: "toolchain list" where
  "TOOLCHAINS = map (\<lambda>(r, b, e). \<lparr>tc_read = r, tc_bins = b, tc_env = e\<rparr>)
    [(''~/.local/share/mise'', [''shims''], Some ''MISE_DATA_DIR''),
     (''~/.config/mise'', [], Some ''MISE_CONFIG_DIR''),
     (''~/.rbenv'', [''shims'', ''bin''], Some ''RBENV_ROOT''),
     (''~/.pyenv'', [''shims'', ''bin''], Some ''PYENV_ROOT''),
     (''~/.rustup'', [], Some ''RUSTUP_HOME''),
     (''~/.cargo/bin'', [''''], None),
     (''~/.volta'', [''bin''], Some ''VOLTA_HOME''),
     (''~/.bun/bin'', [''''], None),
     (''~/.deno/bin'', [''''], None),
     (''~/.local/bin'', [''''], None),
     (''~/.nix-profile'', [''bin''], None),
     (''/nix'', [''var/nix/profiles/default/bin''], None),
     (''/run/current-system/sw'', [''bin''], None),
     (''/opt/homebrew'', [''bin'', ''sbin''], None),
     (''/home/linuxbrew/.linuxbrew'', [''bin'', ''sbin''], None),
     (''/usr/local'', [''bin'', ''sbin''], None),
     (''/opt'', [], None)]"

definition RESOLVER_SOCKETS :: "string list" where
  "RESOLVER_SOCKETS = [''/run/systemd/resolve'']"

record found =
  fd_read :: "string list"
  fd_path :: "string list"
  fd_env :: "(string \<times> string) list"

text \<open>\<open>Path::new\<close> on a path made of normal components, and \<open>display\<close>.\<close>

definition path_of :: "string \<Rightarrow> path" where
  "path_of s = filter (\<lambda>p. p \<noteq> []) (split_on (CHR ''/'') s)"

definition display_path :: "path \<Rightarrow> string" where
  "display_path p = from_utf8_lossy (show_path p)"

definition toolchain_dir :: "path option \<Rightarrow> toolchain \<Rightarrow> path option" where
  "toolchain_dir home tc = (case strip_prefix ''~/'' (tc_read tc) of
     Some rest \<Rightarrow> map_option (\<lambda>h. h @ path_of rest) home
   | None \<Rightarrow> Some (path_of (tc_read tc)))"

definition add_toolchain :: "run_fs \<Rightarrow> path option \<Rightarrow> found \<Rightarrow> toolchain \<Rightarrow> found" where
  "add_toolchain fs home f tc = (case toolchain_dir home tc of
     None \<Rightarrow> f
   | Some dir \<Rightarrow> (case fs_canonicalize fs dir of
       None \<Rightarrow> f
     | Some real \<Rightarrow>
         if \<not> fs_is_dir fs real then f
         else \<lparr>fd_read = fd_read f @ [display_path real],
               fd_path = fd_path f @ map display_path
                 (filter (fs_is_dir fs) (map (\<lambda>b. dir @ path_of b) (tc_bins tc))),
               fd_env = fd_env f @ (case tc_env tc of Some v \<Rightarrow> [(v, display_path dir)] | None \<Rightarrow> [])\<rparr>))"

definition toolchains :: "run_fs \<Rightarrow> path option \<Rightarrow> found" where
  "toolchains fs home = foldl (add_toolchain fs home) \<lparr>fd_read = [], fd_path = [], fd_env = []\<rparr> TOOLCHAINS"

definition environment :: "run_fs \<Rightarrow> path option \<Rightarrow> run_plan \<Rightarrow> (string \<times> string) list" where
  "environment fs home p =
     (let f = toolchains fs home;
          own = display_path (pl_home p);
          path = remdups_adj (fd_path f @ [''/usr/local/bin'', ''/usr/bin'', ''/bin''])
      in [(''PATH'', join_with (CHR '':'') path),
          (''HOME'', own),
          (''TMPDIR'', own @ ''/tmp''),
          (''XDG_CACHE_HOME'', own @ ''/.cache''),
          (''LANG'', ''C.UTF-8''),
          (''TERM'', ''dumb''),
          (''MISE_TRUSTED_CONFIG_PATHS'', display_path (pl_folder p)),
          (''MISE_CACHE_DIR'', own @ ''/.cache/mise''),
          (''MISE_STATE_DIR'', own @ ''/.local/state/mise'')] @ fd_env f)"

section \<open>The request to the sandbox\<close>

definition readonly_paths :: "run_fs \<Rightarrow> path option \<Rightarrow> sandbox \<Rightarrow> run_plan \<Rightarrow> string list" where
  "readonly_paths fs home sb p =
     (let r = fd_read (toolchains fs home)
      in if sb = Landlock
         then filter (\<lambda>s. \<not> starts_with (path_of s) (pl_folder p)
                        \<and> \<not> starts_with (path_of s) (pl_home p)) r
         else r)"

definition denied_paths :: "run_fs \<Rightarrow> run_plan \<Rightarrow> string list" where
  "denied_paths fs p =
     (if pl_network p then []
      else filter (\<lambda>s. fs_exists fs (path_of s)) RESOLVER_SOCKETS)"

definition run_document :: "run_fs \<Rightarrow> path option \<Rightarrow> sandbox \<Rightarrow> run_plan \<Rightarrow> json" where
  "run_document fs home sb p =
     (let strs = (\<lambda>xs. JArr (map JStr xs));
          env = map (\<lambda>(k, v). k @ ''='' @ v) (environment fs home p);
          doc = jobject [
            (''version'', JStr ''1.1.0-alpha''),
            (''containerId'', JStr (''cww-run-'' @ pl_id p)),
            (''lifecycle'', jobject [(''destroyOnExit'', JBool True), (''preservePolicy'', JBool False)]),
            (''process'', jobject [(''commandLine'', JStr (pl_command p)), (''timeout'', jnat 0),
               (''cwd'', JStr (display_path (pl_cwd p))), (''env'', strs env)]),
            (''filesystem'', jobject [
               (''readwritePaths'', strs [display_path (pl_folder p), display_path (pl_home p)]),
               (''readonlyPaths'', strs (readonly_paths fs home sb p)),
               (''deniedPaths'', strs (denied_paths fs p))]),
            (''network'', jobject [(''egress'', jobject [
               (''default'', JStr (if pl_network p then ''allow'' else ''deny''))])]),
            (''resources'', jobject [
               (''cpuTimeMs'', jnat (min (rl_cpu_seconds (pl_limits p) * 1000) u64_max)),
               (''memoryMb'', jnat (rl_memory_mb (pl_limits p))),
               (''priority'', JStr ''low'')])]
      in if sb = Seatbelt
         then json_put ''seatbelt'' (jobject [(''guiAccess'', JBool False), (''nestedPty'', JBool False),
                  (''keychainAccess'', JBool False), (''extraMachLookups'', JArr [])])
                (json_put ''containment'' (JStr ''seatbelt'') doc)
         else json_put ''containment'' (JStr ''process'') doc)"

definition request_json :: "json_lib \<Rightarrow> run_fs \<Rightarrow> path option \<Rightarrow> sandbox \<Rightarrow> run_plan \<Rightarrow> string" where
  "request_json lib fs home sb p = to_text lib (run_document fs home sb p)"

section \<open>What a checked plan is\<close>

lemma check_cwd_Inr:
  "check_cwd fs folder dir = Inr cwd \<longleftrightarrow>
     list_all is_plain (path_components dir) \<and> CHR 0x00 \<notin> set dir \<and> CHR 0x5C \<notin> set dir
     \<and> fs_canonicalize fs (join_relative folder (path_components dir)) = Some cwd
     \<and> starts_with cwd folder \<and> fs_is_dir fs cwd"
  by (auto simp: check_cwd_def split: option.splits if_splits)

lemma check_command_Inr:
  "check_command text = Inr command \<longleftrightarrow>
     command = trim_ws text \<and> command \<noteq> [] \<and> length (utf8_chars command) \<le> MAX_COMMAND_CHARS
     \<and> CHR 0x00 \<notin> set command"
  by (auto simp: check_command_def Let_def split: if_splits)

lemma run_plan_of_Inr:
  assumes "run_plan_of fs cfg runs_dir req i = Inr p"
  obtains r where "config_root cfg (rq_root req) = Some r" "runs_commands r"
    "check_command (rq_command req) = Inr (pl_command p)"
    "fs_canonicalize fs (root_path r) = Some (pl_folder p)"
    "check_cwd fs (pl_folder p) (rq_dir req) = Inr (pl_cwd p)"
    "pl_network p = network r" "pl_limits p = limits_from_config (cfg_limits cfg)"
    "pl_home p = runs_dir @ [i]" "pl_id p = i"
  using assms by (auto simp: run_plan_of_def split: option.splits if_splits sum.splits)

lemma get_json_put: "get (json_put k v (jobject kvs)) x = (if x = k then Some v else get (jobject kvs) x)"
  by (simp add: jobject_def)

lemma json_put_object: "\<exists>kvs'. json_put k v (jobject kvs) = jobject kvs'"
  by (rule exI [of _ "kvs @ [(k, v)]"]) (simp add: jobject_def)

lemma run_document_get:
  assumes "k \<noteq> ''containment''" and "k \<noteq> ''seatbelt''"
  shows "get (run_document fs home sb p) k = get (run_document fs home Bubblewrap p) k
    \<or> k = ''filesystem''"
  using assms unfolding run_document_def Let_def jobject_def
  by (auto simp: readonly_paths_def)

end
