(* ===== verification/Runs.thy ===== *)
theory Runs
  imports RunPlan
begin

text \<open>
  \<open>Runs\<close> of \<open>src/commands/mod.rs\<close>: the runs one process started, running and recently
  finished, and \<open>answer\<close> of \<open>src/commands/channel_call.rs\<close>, which serves the calls a daemon
  makes to it. A \<open>HashMap\<close> is an association list with distinct keys. What a call needs of the
  computer is the record \<open>call_env\<close>: the file system, the configuration on disk if it can be
  read, six random bytes, whether a thread can be started, and the clocks.
\<close>

record runs =
  rn_cells :: "(string \<times> cell) list"
  rn_finished :: "string list"
  rn_limits :: run_limits

record call_env =
  ce_fs :: run_fs
  ce_config :: "config option"
  ce_runs_dir :: path
  ce_random :: "nat list"
  ce_thread_failure :: "string option"
  ce_now :: instant
  ce_epoch :: nat
  ce_timed_out :: bool

definition runs_new :: runs where
  "runs_new = \<lparr>rn_cells = [], rn_finished = [], rn_limits = limits_from_config default_limits\<rparr>"

definition cell_new :: "run_plan \<Rightarrow> string \<Rightarrow> string \<Rightarrow> instant \<Rightarrow> nat \<Rightarrow> cell" where
  "cell_new p r dir now epoch = \<lparr>c_id = pl_id p, c_root = r, c_dir = dir, c_command = pl_command p,
     c_network = pl_network p, c_started = now, c_started_at = epoch, c_limit = None,
     c_ended = None, c_state = Running, c_stop = False, c_window = [], c_window_start = 0,
     c_total = 0, c_out = [], c_err = [], c_out_total = 0, c_err_total = 0,
     c_tail_bytes = max (min (rl_output_chars (pl_limits p) * 4) u64_max) 1024\<rparr>"

section \<open>Handles\<close>

definition new_id :: "nat list \<Rightarrow> string" where
  "new_id bytes = concat (map (\<lambda>b. [hex_char (b div 16), hex_char (b mod 16)]) bytes)"

definition valid_id :: "string \<Rightarrow> bool" where
  "valid_id i \<longleftrightarrow> length i = 12 \<and> list_all (\<lambda>b. is_ascii_hex b \<and> \<not> is_ascii_upper b) i"

section \<open>The operations\<close>

definition put_cell :: "string \<Rightarrow> cell \<Rightarrow> runs \<Rightarrow> runs" where
  "put_cell i c rs = rs\<lparr>rn_cells := AList.update i c (rn_cells rs)\<rparr>"

definition each_cell :: "(cell \<Rightarrow> cell) \<Rightarrow> runs \<Rightarrow> runs" where
  "each_cell f rs = rs\<lparr>rn_cells := map (\<lambda>(i, c). (i, f c)) (rn_cells rs)\<rparr>"

definition running :: "runs \<Rightarrow> nat" where
  "running rs = length (filter (\<lambda>(i, c). c_state c = Running) (rn_cells rs))"

fun drop_oldest :: "string list \<Rightarrow> (string \<times> cell) list \<Rightarrow> string list \<times> (string \<times> cell) list" where
  "drop_oldest [] cells = ([], cells)"
| "drop_oldest (old # rest) cells =
     (if FINISHED_KEPT < length (old # rest) then drop_oldest rest (AList.delete old cells)
      else (old # rest, cells))"

definition retire :: "string \<Rightarrow> runs \<Rightarrow> runs" where
  "retire i rs = (case drop_oldest (rn_finished rs @ [i]) (rn_cells rs) of
     (recent, cells) \<Rightarrow> rs\<lparr>rn_finished := recent, rn_cells := cells\<rparr>)"

text \<open>
  \<open>start\<close> in its two parts: the checks, which read the runs, and what follows once the plan
  is made. Other calls may come in between: the lock is not held over both.
\<close>

definition start_check :: "call_env \<Rightarrow> config \<Rightarrow> run_request \<Rightarrow> runs \<Rightarrow> run_error + run_plan" where
  "start_check env cfg req rs =
     (if cfg_paused cfg
      then Inl (run_error ''paused'' ''this computer is paused; resume it to run commands'')
      else if commands_running (cfg_limits cfg) \<le> running rs
      then Inl (run_error ''busy'' (show_nat (running rs)
        @ '' commands are already running here; wait for one to end, or stop one''))
      else run_plan_of (ce_fs env) cfg (ce_runs_dir env) req (new_id (ce_random env)))"

definition start_insert :: "call_env \<Rightarrow> run_request \<Rightarrow> run_plan \<Rightarrow> runs \<Rightarrow> run_status \<times> runs" where
  "start_insert env req p rs =
     (let c = cell_new p (rq_root req) (rq_dir req) (ce_now env) (ce_epoch env);
          launched = (case ce_thread_failure env of
              None \<Rightarrow> c
            | Some e \<Rightarrow> cell_finish (ce_now env) (RunFailed (''couldn't start a thread for it: '' @ e)) c)
      in (cell_status (ce_now env) launched,
          (put_cell (pl_id p) launched rs)\<lparr>rn_limits := pl_limits p\<rparr>))"

definition runs_start ::
  "call_env \<Rightarrow> config \<Rightarrow> run_request \<Rightarrow> runs \<Rightarrow> (run_error + run_status) \<times> runs" where
  "runs_start env cfg req rs = (case start_check env cfg req rs of
     Inl e \<Rightarrow> (Inl e, rs)
   | Inr p \<Rightarrow> (case start_insert env req p rs of (st, rs') \<Rightarrow> (Inr st, rs')))"

definition runs_cell :: "string \<Rightarrow> runs \<Rightarrow> run_error + cell" where
  "runs_cell i rs = (case map_of (rn_cells rs) i of
     Some c \<Rightarrow> Inr c
   | None \<Rightarrow> Inl (run_error ''not_found'' (''no command '' @ i @ '' here'')))"

definition runs_status :: "instant \<Rightarrow> string \<Rightarrow> runs \<Rightarrow> run_error + run_status" where
  "runs_status now i rs = map_sum id (cell_status now) (runs_cell i rs)"

definition runs_output :: "string \<Rightarrow> nat \<Rightarrow> nat \<Rightarrow> runs \<Rightarrow> run_error + run_output" where
  "runs_output i offset most rs = map_sum id (cell_output offset most) (runs_cell i rs)"

definition runs_finished :: "instant \<Rightarrow> string \<Rightarrow> runs \<Rightarrow> run_error + run_finished" where
  "runs_finished now i rs =
     map_sum id (cell_finished now (rl_output_chars (rn_limits rs))) (runs_cell i rs)"

definition runs_stop :: "instant \<Rightarrow> string \<Rightarrow> runs \<Rightarrow> (run_error + run_status) \<times> runs" where
  "runs_stop now i rs = (case runs_cell i rs of
     Inl e \<Rightarrow> (Inl e, rs)
   | Inr c \<Rightarrow> (Inr (cell_status now c), put_cell i (c\<lparr>c_stop := True\<rparr>) rs))"

definition stop_all :: "runs \<Rightarrow> runs" where
  "stop_all rs = each_cell (\<lambda>c. c\<lparr>c_stop := True\<rparr>) rs"

definition may_run :: "config \<Rightarrow> string \<Rightarrow> bool" where
  "may_run cfg rid \<longleftrightarrow> \<not> cfg_paused cfg \<and> list_ex (\<lambda>r. root_id r = rid \<and> runs_commands r) (roots cfg)"

definition stop_outside :: "config \<Rightarrow> runs \<Rightarrow> runs" where
  "stop_outside cfg rs = each_cell (\<lambda>c.
     if c_state c = Running \<and> \<not> may_run cfg (c_root c) then c\<lparr>c_stop := True\<rparr> else c) rs"

text \<open>
  \<open>list\<close>: running ones first, then the latest to start. Sorting by start and then moving the
  running ones to the front, both keeping the order of equals, is the sort by both keys.
\<close>

definition runs_list :: "instant \<Rightarrow> runs \<Rightarrow> run_summary list" where
  "runs_list now rs =
     (let latest = sort_key (\<lambda>c. - int (c_started c)) (map snd (rn_cells rs));
          live = (\<lambda>c. status_running (cell_status now c))
      in map (cell_summary now) (filter live latest @ filter (\<lambda>c. \<not> live c) latest))"

section \<open>Calls\<close>

datatype run_call =
    CallStart run_request
  | CallStatus string
  | CallOutput string nat nat
  | CallFinished string
  | CallStop string
  | CallPrune
  | CallList
  | CallStopAll

definition jint :: "int \<Rightarrow> json" where
  "jint n = JNum (NInt n)"

definition status_fields :: "run_status \<Rightarrow> (string \<times> json) list" where
  "status_fields s =
     [(''id'', JStr (rs_id s)), (''state'', JStr (rs_state s)),
      (''exit_code'', null_or jint (rs_exit_code s)), (''duration_ms'', jnat (rs_duration_ms s)),
      (''output_bytes'', jnat (rs_output_bytes s)), (''error'', null_or JStr (rs_error s))]
     @ some_field ''limit'' JStr (rs_limit s)"

definition ser_status :: "run_status \<Rightarrow> json" where
  "ser_status s = jobject (status_fields s)"

definition ser_output :: "run_output \<Rightarrow> json" where
  "ser_output r = jobject [(''id'', JStr (ro_id r)), (''offset'', jnat (ro_offset r)),
     (''next_offset'', jnat (ro_next_offset r)), (''skipped'', jnat (ro_skipped r)),
     (''text'', JStr (ro_text r)), (''done'', JBool (ro_done r))]"

definition ser_finished :: "run_finished \<Rightarrow> json" where
  "ser_finished r = jobject [(''status'', ser_status (rf_status r)), (''stdout'', JStr (rf_stdout r)),
     (''stderr'', JStr (rf_stderr r)), (''stdout_cut'', jnat (rf_stdout_cut r)),
     (''stderr_cut'', jnat (rf_stderr_cut r))]"

definition ser_summary :: "run_summary \<Rightarrow> json" where
  "ser_summary s = jobject (status_fields (sm_status s)
     @ [(''root'', JStr (sm_root s)), (''dir'', JStr (sm_dir s)), (''command'', JStr (sm_command s)),
        (''network'', JBool (sm_network s)), (''started_at'', jnat (sm_started_at s))])"

definition check_id :: "string \<Rightarrow> run_error + unit" where
  "check_id i = (if valid_id i then Inr () else Inl (run_error ''not_found'' ''no such command''))"

definition load_config :: "call_env \<Rightarrow> run_error + config" where
  "load_config env = (case ce_config env of
     Some c \<Rightarrow> Inr c | None \<Rightarrow> Inl (run_error ''unavailable'' ''couldn't read the settings''))"

fun answer :: "call_env \<Rightarrow> run_call \<Rightarrow> runs \<Rightarrow> (run_error + json) \<times> runs" where
  "answer env (CallStart req) rs = (case load_config env of
     Inl e \<Rightarrow> (Inl e, rs)
   | Inr cfg \<Rightarrow> (case runs_start env cfg req rs of (r, rs') \<Rightarrow> (map_sum id ser_status r, rs')))"
| "answer env (CallStatus i) rs = (case check_id i of
     Inl e \<Rightarrow> (Inl e, rs)
   | Inr _ \<Rightarrow> (map_sum id ser_status (runs_status (ce_now env) i rs), rs))"
| "answer env (CallOutput i offset most) rs = (case check_id i of
     Inl e \<Rightarrow> (Inl e, rs)
   | Inr _ \<Rightarrow> (map_sum id ser_output (runs_output i offset most rs), rs))"
| "answer env (CallFinished i) rs = (case check_id i of
     Inl e \<Rightarrow> (Inl e, rs)
   | Inr _ \<Rightarrow> (map_sum id ser_finished (runs_finished (ce_now env) i rs), rs))"
| "answer env (CallStop i) rs = (case check_id i of
     Inl e \<Rightarrow> (Inl e, rs)
   | Inr _ \<Rightarrow> (case runs_stop (ce_now env) i rs of (r, rs') \<Rightarrow> (map_sum id ser_status r, rs')))"
| "answer env CallPrune rs = (case load_config env of
     Inl e \<Rightarrow> (Inl e, rs)
   | Inr cfg \<Rightarrow> (Inr JNull, stop_outside cfg rs))"
| "answer env CallList rs = (Inr (JArr (map ser_summary (runs_list (ce_now env) rs))), rs)"
| "answer env CallStopAll rs = (Inr JNull, stop_all rs)"

end
