(* ===== verification/RunsFacts.thy ===== *)
theory RunsFacts
  imports Runs
begin

text \<open>
  The runs as a state machine: every call a daemon makes and everything a run's own thread
  does is a step, in any order. Beside the runs the steps carry what each run printed, in full,
  against which the windows are measured.
\<close>

type_synonym histories = "string \<Rightarrow> run_history"

inductive run_step :: "histories \<times> runs \<Rightarrow> histories \<times> runs \<Rightarrow> bool" where
  called: "case call of CallStart _ \<Rightarrow> False | _ \<Rightarrow> True \<Longrightarrow>
     run_step (h, rs) (h, snd (answer env call rs))"
| inserted: "start_check env cfg req rs0 = Inr p \<Longrightarrow> pl_id p \<notin> fst ` set (rn_cells rs) \<Longrightarrow>
     run_step (h, rs) (h(pl_id p := []), snd (start_insert env req p rs))"
| printed: "map_of (rn_cells rs) i = Some c \<Longrightarrow> c_state c = Running \<Longrightarrow>
     run_step (h, rs) (h(i := h i @ [(stream, bytes)]), put_cell i (cell_append stream bytes c) rs)"
| limited: "map_of (rn_cells rs) i = Some c \<Longrightarrow> c_state c = Running \<Longrightarrow>
     run_step (h, rs) (h, put_cell i (c\<lparr>c_limit := Some l\<rparr>) rs)"
| ended: "map_of (rn_cells rs) i = Some c \<Longrightarrow> c_state c = Running \<Longrightarrow> st \<noteq> Running \<Longrightarrow>
     run_step (h, rs) (h, put_cell i (cell_finish now st c) rs)"
| retired: "map_of (rn_cells rs) i = Some c \<Longrightarrow> c_state c \<noteq> Running \<Longrightarrow>
     i \<notin> set (rn_finished rs) \<Longrightarrow> run_step (h, rs) (h, retire i rs)"

definition run_reach :: "histories \<Rightarrow> runs \<Rightarrow> bool" where
  "run_reach h rs \<longleftrightarrow> run_step\<^sup>*\<^sup>* (\<lambda>_. [], runs_new) (h, rs)"

section \<open>What a call that is not a start does to the runs\<close>

text \<open>It leaves everything as it is but the requests to stop.\<close>

definition same_but_stop :: "cell \<Rightarrow> cell \<Rightarrow> bool" where
  "same_but_stop c d \<longleftrightarrow> (\<exists>b. d = c\<lparr>c_stop := b\<rparr>)"

definition stops_only :: "runs \<Rightarrow> runs \<Rightarrow> bool" where
  "stops_only rs rs' \<longleftrightarrow> rn_finished rs' = rn_finished rs \<and> rn_limits rs' = rn_limits rs
     \<and> map fst (rn_cells rs') = map fst (rn_cells rs)
     \<and> (\<forall>i c. map_of (rn_cells rs) i = Some c \<longrightarrow>
          (\<exists>b. map_of (rn_cells rs') i = Some (c\<lparr>c_stop := b\<rparr>)))"

lemma stop_ex [simp]: "\<exists>b. c = (c :: cell)\<lparr>c_stop := b\<rparr>"
  by (rule exI [of _ "c_stop c"]) simp

lemma stop_ex_same [simp]: "\<exists>b'. c\<lparr>c_stop := b\<rparr> = (c :: cell)\<lparr>c_stop := b'\<rparr>"
  by blast

lemma stops_only_refl: "stops_only rs rs"
  by (simp add: stops_only_def)

lemma map_of_map_snd: "map_of (map (\<lambda>(i, c). (i, f c)) xs) i = map_option f (map_of xs i)"
  by (induction xs) auto

lemma stops_only_each:
  assumes "\<And>c. \<exists>b. f c = c\<lparr>c_stop := b\<rparr>"
  shows "stops_only rs (each_cell f rs)"
proof -
  have "\<exists>b. map_option f (map_of (rn_cells rs) i) = Some (c\<lparr>c_stop := b\<rparr>)"
    if "map_of (rn_cells rs) i = Some c" for i c
    using assms [of c] that by simp
  then show ?thesis
    by (simp add: stops_only_def each_cell_def map_of_map_snd comp_def case_prod_unfold
        map_of_map_snd [unfolded case_prod_unfold])
qed

lemma stops_only_put:
  assumes "map_of (rn_cells rs) i = Some c"
  shows "stops_only rs (put_cell i (c\<lparr>c_stop := b\<rparr>) rs)"
proof -
  have "i \<in> fst ` set (rn_cells rs)" using assms by (metis image_eqI fst_conv map_of_SomeD)
  then have "map fst (AList.update i (c\<lparr>c_stop := b\<rparr>) (rn_cells rs)) = map fst (rn_cells rs)"
    by (simp add: update_keys)
  moreover have "\<exists>b'. map_of (AList.update i (c\<lparr>c_stop := b\<rparr>) (rn_cells rs)) j = Some (d\<lparr>c_stop := b'\<rparr>)"
    if "map_of (rn_cells rs) j = Some d" for j d
    using that assms by (cases "j = i") (simp_all add: update_conv')
  ultimately show ?thesis by (simp add: stops_only_def put_cell_def)
qed

lemma runs_cell_Inr: "runs_cell i rs = Inr c \<longleftrightarrow> map_of (rn_cells rs) i = Some c"
  by (auto simp: runs_cell_def split: option.splits)

lemma answer_stops_only:
  assumes "case call of CallStart _ \<Rightarrow> False | _ \<Rightarrow> True"
  shows "stops_only rs (snd (answer env call rs))"
proof (cases call)
  case (CallStop i)
  show ?thesis
  proof (cases "runs_cell i rs")
    case (Inr c)
    then have "map_of (rn_cells rs) i = Some c" by (simp add: runs_cell_Inr)
    from stops_only_put [OF this] show ?thesis
      using CallStop Inr stops_only_refl by (auto simp: runs_stop_def split: sum.splits)
  qed (use CallStop stops_only_refl in \<open>auto simp: runs_stop_def split: sum.splits\<close>)
next
  case CallPrune
  have "\<exists>b. (if c_state c = Running \<and> \<not> may_run cfg (c_root c) then c\<lparr>c_stop := True\<rparr> else c)
      = c\<lparr>c_stop := b\<rparr>" for c :: cell and cfg
    by simp
  from stops_only_each [OF this] show ?thesis
    using CallPrune stops_only_refl by (auto simp: stop_outside_def split: sum.splits)
next
  case CallStopAll
  then show ?thesis by (auto simp: stop_all_def intro: stops_only_each)
qed (use assms stops_only_refl in \<open>auto split: sum.splits\<close>)

section \<open>The invariant\<close>

definition cell_ok :: "run_history \<Rightarrow> string \<Rightarrow> cell \<Rightarrow> bool" where
  "cell_ok h i c \<longleftrightarrow> shows_history h c \<and> c_id c = i \<and> (c_ended c = None) = (c_state c = Running)"

definition runs_inv :: "histories \<times> runs \<Rightarrow> bool" where
  "runs_inv s \<longleftrightarrow> (case s of (h, rs) \<Rightarrow>
     wf_map (rn_cells rs)
     \<and> (\<forall>i c. map_of (rn_cells rs) i = Some c \<longrightarrow> cell_ok (h i) i c)
     \<and> distinct (rn_finished rs) \<and> length (rn_finished rs) \<le> FINISHED_KEPT
     \<and> (\<forall>i \<in> set (rn_finished rs). \<exists>c. map_of (rn_cells rs) i = Some c \<and> c_state c \<noteq> Running))"

lemma cell_ok_stop [simp]: "cell_ok h i (c\<lparr>c_stop := b\<rparr>) = cell_ok h i c"
  by (simp add: cell_ok_def shows_history_status)

lemma cell_ok_limit [simp]: "cell_ok h i (c\<lparr>c_limit := l\<rparr>) = cell_ok h i c"
  by (simp add: cell_ok_def shows_history_status)

lemma cell_append_fields [simp]:
  "c_id (cell_append s b c) = c_id c" "c_state (cell_append s b c) = c_state c"
  "c_ended (cell_append s b c) = c_ended c" "c_stop (cell_append s b c) = c_stop c"
  by (cases s; simp add: cell_append_def Let_def)+

lemma cell_ok_append: "cell_ok h i c \<Longrightarrow> cell_ok (h @ [(s, b)]) i (cell_append s b c)"
  by (simp add: cell_ok_def shows_history_append)

lemma cell_ok_finish: "cell_ok h i c \<Longrightarrow> st \<noteq> Running \<Longrightarrow> cell_ok h i (cell_finish now st c)"
  using shows_history_finish [of h c now st]
  by (auto simp: cell_ok_def cell_finish_def)

lemma cell_ok_new: "cell_ok [] (pl_id p) (cell_new p r d now epoch)"
  by (simp add: cell_ok_def cell_new_def shows_history_def keep_last_def both_def)

lemma runs_inv_new: "runs_inv (\<lambda>_. [], runs_new)"
  by (simp add: runs_inv_def runs_new_def)

lemma runs_inv_stops:
  assumes "runs_inv (h, rs)" and "stops_only rs rs'"
  shows "runs_inv (h, rs')"
proof -
  have same: "\<exists>c b. map_of (rn_cells rs) i = Some c \<and> d = c\<lparr>c_stop := b\<rparr>"
    if "map_of (rn_cells rs') i = Some d" for i d
  proof -
    have "fst ` set (rn_cells rs') = fst ` set (rn_cells rs)"
      using assms(2) by (metis stops_only_def list.set_map)
    with that have "i \<in> fst ` set (rn_cells rs)" by (metis image_eqI fst_conv map_of_SomeD)
    then obtain c where "map_of (rn_cells rs) i = Some c"
      by (metis map_of_eq_None_iff not_None_eq)
    with assms(2) that show ?thesis by (fastforce simp: stops_only_def)
  qed
  have st: "\<exists>d. map_of (rn_cells rs') i = Some d \<and> c_state d \<noteq> Running"
    if "map_of (rn_cells rs) i = Some c" "c_state c \<noteq> Running" for i c
    using assms(2) that by (fastforce simp: stops_only_def)
  from assms(1) have inv: "wf_map (rn_cells rs)"
      "\<And>i c. map_of (rn_cells rs) i = Some c \<Longrightarrow> cell_ok (h i) i c" "distinct (rn_finished rs)"
      "length (rn_finished rs) \<le> FINISHED_KEPT"
      "\<And>i. i \<in> set (rn_finished rs) \<Longrightarrow> \<exists>c. map_of (rn_cells rs) i = Some c \<and> c_state c \<noteq> Running"
    unfolding runs_inv_def by blast+
  have "cell_ok (h i) i d" if "map_of (rn_cells rs') i = Some d" for i d
    using same [OF that] inv(2) by auto
  moreover have "\<exists>d. map_of (rn_cells rs') i = Some d \<and> c_state d \<noteq> Running"
    if "i \<in> set (rn_finished rs)" for i
    using inv(5) [OF that] st by blast
  moreover have "wf_map (rn_cells rs')" "rn_finished rs' = rn_finished rs"
    using assms(2) inv(1) by (simp_all only: stops_only_def)
  ultimately show ?thesis using inv(3,4) by (auto simp: runs_inv_def simp del: map_of_eq_Some_iff)
qed

lemma runs_inv_put:
  assumes inv: "runs_inv (h, rs)" and c: "map_of (rn_cells rs) i = Some c"
    and ok: "cell_ok (h' i) i d" and same: "\<And>j. j \<noteq> i \<Longrightarrow> h' j = h j"
    and st: "c_state c \<noteq> Running \<Longrightarrow> c_state d \<noteq> Running"
  shows "runs_inv (h', put_cell i d rs)"
proof -
  have upd: "map_of (AList.update i d (rn_cells rs)) = (map_of (rn_cells rs))(i \<mapsto> d)"
    by (simp add: update_conv')
  have "wf_map (AList.update i d (rn_cells rs))"
    using inv by (simp add: runs_inv_def distinct_update)
  moreover have "cell_ok (h' j) j e" if "((map_of (rn_cells rs))(i \<mapsto> d)) j = Some e" for j e
    using that inv ok same by (cases "j = i") (auto simp: runs_inv_def)
  moreover have "\<exists>e. ((map_of (rn_cells rs))(i \<mapsto> d)) j = Some e \<and> c_state e \<noteq> Running"
    if "j \<in> set (rn_finished rs)" for j
    using that inv c st by (cases "j = i") (auto simp: runs_inv_def)
  ultimately show ?thesis using inv by (auto simp: runs_inv_def put_cell_def upd)
qed

lemma runs_inv_start_insert:
  assumes inv: "runs_inv (h, rs)" and new: "pl_id p \<notin> fst ` set (rn_cells rs)"
  shows "runs_inv (h(pl_id p := []), snd (start_insert env req p rs))"
proof -
  define c where "c = (let c = cell_new p (rq_root req) (rq_dir req) (ce_now env) (ce_epoch env)
    in case ce_thread_failure env of None \<Rightarrow> c
       | Some e \<Rightarrow> cell_finish (ce_now env) (RunFailed (''couldn't start a thread for it: '' @ e)) c)"
  have ok: "cell_ok [] (pl_id p) c"
    by (auto simp: c_def Let_def cell_ok_new intro: cell_ok_finish split: option.splits)
  have rs': "snd (start_insert env req p rs) = (put_cell (pl_id p) c rs)\<lparr>rn_limits := pl_limits p\<rparr>"
    by (simp add: start_insert_def c_def Let_def)
  from new have none: "map_of (rn_cells rs) (pl_id p) = None"
    by (simp add: map_of_eq_None_iff)
  have upd: "map_of (AList.update (pl_id p) c (rn_cells rs)) = (map_of (rn_cells rs))(pl_id p \<mapsto> c)"
    by (simp add: update_conv')
  have "wf_map (AList.update (pl_id p) c (rn_cells rs))"
    using inv by (simp add: runs_inv_def distinct_update)
  moreover have "cell_ok ((h(pl_id p := [])) j) j e"
    if "((map_of (rn_cells rs))(pl_id p \<mapsto> c)) j = Some e" for j e
    using that inv ok by (cases "j = pl_id p") (auto simp: runs_inv_def)
  moreover have "\<exists>e. ((map_of (rn_cells rs))(pl_id p \<mapsto> c)) j = Some e \<and> c_state e \<noteq> Running"
    if "j \<in> set (rn_finished rs)" for j
    using that inv none by (cases "j = pl_id p") (force simp: runs_inv_def)+
  ultimately show ?thesis using inv by (simp add: runs_inv_def put_cell_def upd rs')
qed

text \<open>Retiring forgets the oldest finished runs beyond the limit, and nothing else.\<close>

lemma drop_oldest_cells:
  "drop_oldest fin cells = (recent, cells') \<Longrightarrow>
     \<exists>old. fin = old @ recent \<and> length recent \<le> FINISHED_KEPT
       \<and> cells' = filter (\<lambda>(i, c). i \<notin> set old) cells"
proof (induction fin arbitrary: cells)
  case (Cons i fin)
  show ?case
  proof (cases "FINISHED_KEPT < length (i # fin)")
    case True
    then have "drop_oldest fin (AList.delete i cells) = (recent, cells')" using Cons.prems by simp
    from Cons.IH [OF this] obtain old where old: "fin = old @ recent"
      "length recent \<le> FINISHED_KEPT" "cells' = filter (\<lambda>(i, c). i \<notin> set old) (AList.delete i cells)"
      by blast
    moreover have "filter (\<lambda>(j, c). j \<notin> set old) (AList.delete i cells)
        = filter (\<lambda>(j, c). j \<notin> set (i # old)) cells"
      by (auto simp: AList.delete_eq intro: filter_cong)
    ultimately show ?thesis by (intro exI [of _ "i # old"]) simp
  next
    case False
    with Cons.prems show ?thesis by (auto intro!: exI [of _ "[]"] simp: case_prod_unfold)
  qed
qed auto

lemma map_of_filter_keys:
  "map_of (filter (\<lambda>(i, c). i \<notin> S) m) j = (if j \<in> S then None else map_of m j)"
  by (induction m) auto

lemma retire_forgets:
  assumes "i \<notin> set (rn_finished rs)" and "distinct (rn_finished rs)"
  obtains old where "rn_finished rs @ [i] = old @ rn_finished (retire i rs)"
    and "length (rn_finished (retire i rs)) \<le> FINISHED_KEPT"
    and "rn_cells (retire i rs) = filter (\<lambda>(j, c). j \<notin> set old) (rn_cells rs)"
    and "set old \<inter> set (rn_finished (retire i rs)) = {}"
proof -
  obtain recent cells' where d: "drop_oldest (rn_finished rs @ [i]) (rn_cells rs) = (recent, cells')"
    by (cases "drop_oldest (rn_finished rs @ [i]) (rn_cells rs)")
  from drop_oldest_cells [OF d] obtain old where old: "rn_finished rs @ [i] = old @ recent"
    "length recent \<le> FINISHED_KEPT" "cells' = filter (\<lambda>(i, c). i \<notin> set old) (rn_cells rs)"
    by blast
  have "distinct (old @ recent)" using assms old(1) [symmetric] by simp
  with old d that show ?thesis by (auto simp: retire_def)
qed

lemma runs_inv_retire:
  assumes inv: "runs_inv (h, rs)" and c: "map_of (rn_cells rs) i = Some c" "c_state c \<noteq> Running"
    and new: "i \<notin> set (rn_finished rs)"
  shows "runs_inv (h, retire i rs)"
proof -
  from inv have dist: "distinct (rn_finished rs)" by (simp add: runs_inv_def)
  obtain old where old: "rn_finished rs @ [i] = old @ rn_finished (retire i rs)"
    "length (rn_finished (retire i rs)) \<le> FINISHED_KEPT"
    "rn_cells (retire i rs) = filter (\<lambda>(j, c). j \<notin> set old) (rn_cells rs)"
    "set old \<inter> set (rn_finished (retire i rs)) = {}"
    by (rule retire_forgets [OF new dist])
  have ends: "\<exists>c. map_of (rn_cells rs) j = Some c \<and> c_state c \<noteq> Running"
    if "j \<in> set (rn_finished (retire i rs))" for j
  proof -
    have "j \<in> set (rn_finished rs @ [i])" using that old(1) by simp
    with inv c show ?thesis unfolding runs_inv_def by auto
  qed
  have "\<exists>c. map_of (rn_cells (retire i rs)) j = Some c \<and> c_state c \<noteq> Running"
    if "j \<in> set (rn_finished (retire i rs))" for j
    using ends [OF that] that old(3,4) by (auto simp: map_of_filter_keys)
  moreover have "distinct (rn_finished (retire i rs))"
    using old(1) dist new by (metis distinct_append distinct.simps(2) distinct_singleton
        Int_insert_right_if0 inf_bot_right list.set(1) list.simps(15))
  moreover have "cell_ok (h j) j d" if "map_of (rn_cells (retire i rs)) j = Some d" for j d
    using inv that old(3) by (auto simp: runs_inv_def map_of_filter_keys split: if_splits)
  moreover have "wf_map (rn_cells (retire i rs))"
    using inv old(3) by (simp add: runs_inv_def)
  ultimately show ?thesis using old(2)
    by (auto simp: runs_inv_def simp del: map_of_eq_Some_iff)
qed

section \<open>Reachable runs\<close>

lemma run_step_inv: "run_step s s' \<Longrightarrow> runs_inv s \<Longrightarrow> runs_inv s'"
proof (induction rule: run_step.induct)
  case (called call h rs env)
  then show ?case using runs_inv_stops answer_stops_only by blast
next
  case (inserted env cfg req rs0 p rs h)
  then show ?case by (simp add: runs_inv_start_insert)
next
  case (printed rs i c h stream bytes)
  then have "cell_ok (h i) i c" unfolding runs_inv_def by simp
  from cell_ok_append [OF this] printed show ?case
    by (intro runs_inv_put [where c = c and h = h]) auto
next
  case (limited rs i c h l)
  then have "cell_ok (h i) i c" unfolding runs_inv_def by simp
  with limited show ?case by (intro runs_inv_put [where c = c and h = h]) auto
next
  case (ended rs i c st h now)
  then have "cell_ok (h i) i c" unfolding runs_inv_def by simp
  from cell_ok_finish [OF this] ended show ?case
    by (intro runs_inv_put [where c = c and h = h]) auto
next
  case (retired rs i c h)
  then show ?case by (intro runs_inv_retire)
qed

lemma run_reach_inv: "run_reach h rs \<Longrightarrow> runs_inv (h, rs)"
proof -
  have "run_step\<^sup>*\<^sup>* s t \<Longrightarrow> runs_inv s \<Longrightarrow> runs_inv t" for s t
    by (induction rule: rtranclp_induct) (auto intro: run_step_inv)
  then show "run_reach h rs \<Longrightarrow> runs_inv (h, rs)"
    unfolding run_reach_def using runs_inv_new by blast
qed

section \<open>What a step leaves of a run\<close>

text \<open>
  A run is there with the state it had ended in and what it had printed by then, and with a
  stop asked of it still asked; or it had ended and was the oldest of too many.
\<close>

definition carries_on :: "cell \<Rightarrow> cell \<Rightarrow> bool" where
  "carries_on c d \<longleftrightarrow> (c_stop c \<longrightarrow> c_stop d)
     \<and> (c_state c \<noteq> Running \<longrightarrow> d = c\<lparr>c_stop := c_stop d\<rparr>)"

lemma carries_on_refl [simp]: "carries_on c c"
  by (simp add: carries_on_def)

lemma carries_on_stop [simp]: "carries_on c (c\<lparr>c_stop := True\<rparr>)"
  by (simp add: carries_on_def)

lemma put_cell_carries:
  assumes "map_of (rn_cells rs) i = Some c" and "carries_on c d"
    and "map_of (rn_cells rs) j = Some e"
  shows "\<exists>f. map_of (rn_cells (put_cell i d rs)) j = Some f \<and> carries_on e f"
  using assms by (cases "j = i") (auto simp: put_cell_def update_conv')

lemma each_cell_carries:
  assumes "\<And>c. carries_on c (f c)" and "map_of (rn_cells rs) j = Some e"
  shows "\<exists>g. map_of (rn_cells (each_cell f rs)) j = Some g \<and> carries_on e g"
  using assms by (simp add: each_cell_def map_of_map_snd)

lemma answer_carries:
  assumes "case call of CallStart _ \<Rightarrow> False | _ \<Rightarrow> True" and e: "map_of (rn_cells rs) j = Some e"
  shows "\<exists>f. map_of (rn_cells (snd (answer env call rs))) j = Some f \<and> carries_on e f"
proof (cases call)
  case (CallStop i)
  show ?thesis
  proof (cases "runs_cell i rs")
    case (Inr c)
    then have "map_of (rn_cells rs) i = Some c" by (simp add: runs_cell_Inr)
    from put_cell_carries [OF this carries_on_stop e] show ?thesis
      using CallStop Inr e by (auto simp: runs_stop_def split: sum.splits)
  qed (use CallStop e in \<open>auto simp: runs_stop_def split: sum.splits\<close>)
next
  case CallPrune
  have "carries_on c (if c_state c = Running \<and> \<not> may_run cfg (c_root c) then c\<lparr>c_stop := True\<rparr> else c)"
    for c :: cell and cfg
    by simp
  from each_cell_carries [OF this e] show ?thesis
    using CallPrune e by (auto simp: stop_outside_def split: sum.splits)
next
  case CallStopAll
  then show ?thesis using each_cell_carries [OF carries_on_stop e] by (simp add: stop_all_def)
qed (use assms in \<open>auto split: sum.splits\<close>)

lemma carries_on_running:
  "c_state c = Running \<Longrightarrow> c_stop d = c_stop c \<Longrightarrow> carries_on c d"
  by (simp add: carries_on_def)

lemma run_step_carries:
  assumes "run_step s s'" and "runs_inv s" and "map_of (rn_cells (snd s)) j = Some e"
  shows "(\<exists>f. map_of (rn_cells (snd s')) j = Some f \<and> carries_on e f)
    \<or> (map_of (rn_cells (snd s')) j = None \<and> c_state e \<noteq> Running
        \<and> FINISHED_KEPT \<le> length (rn_finished (snd s)))"
  using assms
proof (induction rule: run_step.induct)
  case (called call h rs env)
  then show ?case using answer_carries [of call rs j e env] by simp
next
  case (inserted env cfg req rs0 p rs h)
  then have "j \<noteq> pl_id p" by (metis image_eqI fst_conv map_of_SomeD snd_conv)
  with inserted show ?case by (simp add: start_insert_def Let_def put_cell_def update_conv')
next
  case (printed rs i c h stream bytes)
  then have "carries_on c (cell_append stream bytes c)" by (intro carries_on_running) simp_all
  from put_cell_carries [OF printed(1) this] printed(4) show ?case by simp
next
  case (limited rs i c h l)
  then have "carries_on c (c\<lparr>c_limit := Some l\<rparr>)" by (intro carries_on_running) simp_all
  from put_cell_carries [OF limited(1) this] limited(4) show ?case by simp
next
  case (ended rs i c st h now)
  then have "carries_on c (cell_finish now st c)"
    by (intro carries_on_running) (simp_all add: cell_finish_def)
  from put_cell_carries [OF ended(1) this] ended(5) show ?case by simp
next
  case (retired rs i c h)
  then have dist: "distinct (rn_finished rs)" by (simp add: runs_inv_def)
  obtain old where old: "rn_finished rs @ [i] = old @ rn_finished (retire i rs)"
    "length (rn_finished (retire i rs)) \<le> FINISHED_KEPT"
    "rn_cells (retire i rs) = filter (\<lambda>(j, c). j \<notin> set old) (rn_cells rs)"
    by (rule retire_forgets [OF retired(3) dist])
  show ?case
  proof (cases "j \<in> set old")
    case True
    then have "j \<in> set (rn_finished rs @ [i])" using old(1) by simp
    then consider "j = i" | "j \<in> set (rn_finished rs)" by auto
    then have "\<exists>d. map_of (rn_cells rs) j = Some d \<and> c_state d \<noteq> Running"
    proof cases
      case 1
      with retired(1,2) show ?thesis by blast
    next
      case 2
      with retired(4) show ?thesis unfolding runs_inv_def by blast
    qed
    with retired(5) have st: "c_state e \<noteq> Running"
      by (simp del: map_of_eq_Some_iff)
    have "FINISHED_KEPT \<le> length (rn_finished rs)"
    proof (rule ccontr)
      assume "\<not> ?thesis"
      then have "drop_oldest (rn_finished rs @ [i]) (rn_cells rs) = (rn_finished rs @ [i], rn_cells rs)"
        by (cases "rn_finished rs") auto
      then have "rn_finished (retire i rs) = rn_finished rs @ [i]" by (simp add: retire_def)
      with old(1) have "old = []" by simp
      with True show False by simp
    qed
    with st True old(3) show ?thesis by (simp add: map_of_filter_keys)
  next
    case False
    with retired(5) old(3) show ?thesis by (simp add: map_of_filter_keys)
  qed
qed

section \<open>The finished runs form a queue\<close>

text \<open>
  A step puts at most one run at the end of the queue; only when that makes more than are kept
  does it take one off the front, and that run, and no other, is forgotten.
\<close>

definition queue_step :: "string list \<Rightarrow> string list \<Rightarrow> string list \<Rightarrow> bool" where
  "queue_step fin fin' old \<longleftrightarrow> (\<exists>new. fin @ new = old @ fin' \<and> length new \<le> 1)
     \<and> (old = [] \<or> length old = 1 \<and> length fin' = FINISHED_KEPT)"

lemma queue_step_same: "queue_step fin fin []"
  by (simp add: queue_step_def exI [of _ "[]"])

lemma retire_queue:
  assumes "runs_inv (h, rs)" and "i \<notin> set (rn_finished rs)"
  obtains old where "queue_step (rn_finished rs) (rn_finished (retire i rs)) old"
    and "rn_cells (retire i rs) = filter (\<lambda>(j, c). j \<notin> set old) (rn_cells rs)"
proof -
  from assms(1) have dist: "distinct (rn_finished rs)" and len: "length (rn_finished rs) \<le> FINISHED_KEPT"
    by (simp_all add: runs_inv_def)
  obtain old where old: "rn_finished rs @ [i] = old @ rn_finished (retire i rs)"
    "length (rn_finished (retire i rs)) \<le> FINISHED_KEPT"
    "rn_cells (retire i rs) = filter (\<lambda>(j, c). j \<notin> set old) (rn_cells rs)"
    by (rule retire_forgets [OF assms(2) dist])
  have "old = [] \<or> length old = 1 \<and> length (rn_finished (retire i rs)) = FINISHED_KEPT"
  proof (cases "length (rn_finished rs) < FINISHED_KEPT")
    case True
    then have "drop_oldest (rn_finished rs @ [i]) (rn_cells rs) = (rn_finished rs @ [i], rn_cells rs)"
      by (cases "rn_finished rs") auto
    then have "rn_finished (retire i rs) = rn_finished rs @ [i]" by (simp add: retire_def)
    with old(1) show ?thesis by simp
  next
    case False
    then have n: "length (rn_finished rs) = FINISHED_KEPT" using len by simp
    then obtain x xs where x: "rn_finished rs = x # xs"
      by (cases "rn_finished rs") (simp_all add: FINISHED_KEPT_def)
    with n have "length (xs @ [i]) = FINISHED_KEPT" by simp
    then have "drop_oldest (xs @ [i]) cells = (xs @ [i], cells)" for cells
      by (cases "xs @ [i]") simp_all
    then have "rn_finished (retire i rs) = xs @ [i]" using n x by (simp add: retire_def)
    with old(1) x n show ?thesis by auto
  qed
  with old(1) have "queue_step (rn_finished rs) (rn_finished (retire i rs)) old"
    unfolding queue_step_def by (metis One_nat_def length_Cons list.size(3) order_refl)
  with old(3) that show thesis by blast
qed

lemma answer_finished [simp]:
  "case call of CallStart _ \<Rightarrow> False | _ \<Rightarrow> True \<Longrightarrow> rn_finished (snd (answer env call rs)) = rn_finished rs"
  using answer_stops_only [of call rs env] by (simp add: stops_only_def)

lemma run_step_queue:
  assumes "run_step s s'" and "runs_inv s"
  shows "\<exists>old. queue_step (rn_finished (snd s)) (rn_finished (snd s')) old
    \<and> (\<forall>j. map_of (rn_cells (snd s)) j \<noteq> None \<longrightarrow> (map_of (rn_cells (snd s')) j = None) = (j \<in> set old))"
  using assms
proof (induction rule: run_step.induct)
  case (called call h rs env)
  with answer_carries [of call rs _ _ env] show ?case
    by (intro exI [of _ "[]"]) (auto simp: queue_step_same)
next
  case (inserted env cfg req rs0 p rs h)
  show ?case
    by (intro exI [of _ "[]"]) (simp add: queue_step_same start_insert_def Let_def put_cell_def update_conv')
next
  case (retired rs i c h)
  from retire_queue [OF retired(4,3)] obtain old where
    "queue_step (rn_finished rs) (rn_finished (retire i rs)) old"
    "rn_cells (retire i rs) = filter (\<lambda>(j, c). j \<notin> set old) (rn_cells rs)" by blast
  then show ?case by (intro exI [of _ old]) (simp add: map_of_filter_keys)
qed (intro exI [of _ "[]"]; simp add: queue_step_same put_cell_def update_conv')+

section \<open>How many run at once\<close>

lemma running_update_new:
  "i \<notin> fst ` set (rn_cells rs) \<Longrightarrow>
     running (put_cell i c rs) = running rs + (if c_state c = Running then 1 else 0)"
  by (simp add: running_def put_cell_def AList_update_new)

lemma runs_start_running:
  assumes "runs_start env cfg req rs = (Inr st, rs')"
    and "new_id (ce_random env) \<notin> fst ` set (rn_cells rs)"
  shows "running rs' \<le> commands_running (cfg_limits cfg)"
proof -
  from assms(1) obtain p where p: "start_check env cfg req rs = Inr p"
      "start_insert env req p rs = (st, rs')"
    by (auto simp: runs_start_def split: sum.splits prod.splits)
  from p(1) have lt: "running rs < commands_running (cfg_limits cfg)" and i: "pl_id p = new_id (ce_random env)"
    by (auto simp: start_check_def split: if_splits elim: run_plan_of_Inr)
  from p(2) obtain c where rs': "rs' = (put_cell (pl_id p) c rs)\<lparr>rn_limits := pl_limits p\<rparr>"
    by (auto simp: start_insert_def Let_def)
  have "running rs' = running (put_cell (pl_id p) c rs)" by (simp add: rs' running_def)
  also have "\<dots> \<le> running rs + 1" using running_update_new assms(2) i by simp
  finally show ?thesis using lt by simp
qed

end
