(* ===== verification/Channel.thy ===== *)
theory Channel
  imports RunsFacts
begin

text \<open>
  How the confined worker reaches the runs: the calls and answers as serde writes and reads
  them, \<open>serve\<close> and \<open>Client::call\<close> of \<open>src/commands/channel.rs\<close> (one JSON line each way), and
  \<open>Runner\<close> of \<open>src/commands/mod.rs\<close>. The socket pair is the bytes one side wrote and the other
  has not read yet.
\<close>

definition MAX_LINE :: nat where "MAX_LINE = 1024 * 1024"

definition newline :: string where "newline = [CHR 0x0A]"

section \<open>Calls and answers as JSON\<close>

definition ser_request :: "run_request \<Rightarrow> json" where
  "ser_request r = jobject [(''root'', JStr (rq_root r)), (''dir'', JStr (rq_dir r)),
     (''command'', JStr (rq_command r))]"

fun ser_call :: "run_call \<Rightarrow> json" where
  "ser_call (CallStart r) = jobject [(''call'', JStr ''start''), (''request'', ser_request r)]"
| "ser_call (CallStatus i) = jobject [(''call'', JStr ''status''), (''run'', JStr i)]"
| "ser_call (CallOutput i offset most) = jobject [(''call'', JStr ''output''), (''run'', JStr i),
     (''offset'', jnat offset), (''max'', jnat most)]"
| "ser_call (CallFinished i) = jobject [(''call'', JStr ''finished''), (''run'', JStr i)]"
| "ser_call (CallStop i) = jobject [(''call'', JStr ''stop''), (''run'', JStr i)]"
| "ser_call CallPrune = jobject [(''call'', JStr ''prune'')]"
| "ser_call CallList = jobject [(''call'', JStr ''list'')]"
| "ser_call CallStopAll = jobject [(''call'', JStr ''stop_all'')]"

text \<open>A missing field of a type with a default, here the empty string; \<open>null\<close> is no string.\<close>

definition field_default :: "json \<Rightarrow> string \<Rightarrow> string option" where
  "field_default v k = (case get v k of None \<Rightarrow> Some [] | Some x \<Rightarrow> as_str x)"

definition serde_request :: "json \<Rightarrow> run_request option" where
  "serde_request v =
     (case (field_string v ''root'', field_default v ''dir'', field_string v ''command'') of
        (Some r, Some d, Some c) \<Rightarrow> Some \<lparr>rq_root = r, rq_dir = d, rq_command = c\<rparr>
      | _ \<Rightarrow> None)"

definition field_u64 :: "json \<Rightarrow> string \<Rightarrow> nat option" where
  "field_u64 v k = Option.bind (get v k) as_u64"

text \<open>
  The derived \<open>Deserialize\<close> of an enum tagged by \<open>call\<close>: fields that a variant does not name
  are refused, except in variants without fields, where serde skips them.
\<close>

definition serde_call :: "json \<Rightarrow> run_call option" where
  "serde_call v =
     (let named = (\<lambda>make. if only_fields [''call'', ''run''] v
                          then map_option make (field_string v ''run'') else None)
      in case field_string v ''call'' of
        None \<Rightarrow> None
      | Some k \<Rightarrow>
          if k = ''start'' then (if only_fields [''call'', ''request''] v
            then map_option CallStart (Option.bind (get v ''request'') serde_request) else None)
          else if k = ''status'' then named CallStatus
          else if k = ''output'' then
            (if only_fields [''call'', ''run'', ''offset'', ''max''] v
             then (case (field_string v ''run'', field_u64 v ''offset'', field_u64 v ''max'') of
                (Some i, Some a, Some m) \<Rightarrow> Some (CallOutput i a m)
              | _ \<Rightarrow> None) else None)
          else if k = ''finished'' then named CallFinished
          else if k = ''stop'' then named CallStop
          else if k = ''prune'' then Some CallPrune
          else if k = ''list'' then Some CallList
          else if k = ''stop_all'' then Some CallStopAll
          else None)"

text \<open>\<open>Result<Value, RunError>\<close>\<close>

definition ser_reply :: "run_error + json \<Rightarrow> json" where
  "ser_reply r = (case r of
     Inr v \<Rightarrow> jobject [(''Ok'', v)]
   | Inl e \<Rightarrow> jobject [(''Err'', jobject [(''code'', JStr (re_code e)), (''message'', JStr (re_message e))])])"

definition serde_reply :: "json \<Rightarrow> (run_error + json) option" where
  "serde_reply v = (case v of
     JObj m \<Rightarrow>
       if fmdom m = {|''Ok''|} then map_option Inr (fmlookup m ''Ok'')
       else if fmdom m = {|''Err''|}
       then (case fmlookup m ''Err'' of
           None \<Rightarrow> None
         | Some e \<Rightarrow> (case (field_string e ''code'', field_string e ''message'') of
             (Some c, Some t) \<Rightarrow> Some (Inl (run_error c t)) | _ \<Rightarrow> None))
       else None
   | _ \<Rightarrow> None)"

text \<open>\<open>i32\<close>, and what callers read of the answers.\<close>

fun as_i32 :: "json \<Rightarrow> int option" where
  "as_i32 (JNum (NInt n)) = (if -2147483648 \<le> n \<and> n \<le> 2147483647 then Some n else None)"
| "as_i32 _ = None"

definition serde_status :: "json \<Rightarrow> run_status option" where
  "serde_status v =
     (case (field_string v ''id'', field_string v ''state'', field_opt as_i32 v ''exit_code'',
            field_u64 v ''duration_ms'', field_u64 v ''output_bytes'', field_opt as_str v ''error'',
            field_opt as_str v ''limit'') of
        (Some i, Some st, Some x, Some d, Some b, Some e, Some l) \<Rightarrow>
          Some \<lparr>rs_id = i, rs_state = st, rs_exit_code = x, rs_duration_ms = d,
                rs_output_bytes = b, rs_error = e, rs_limit = l\<rparr>
      | _ \<Rightarrow> None)"

definition serde_output :: "json \<Rightarrow> run_output option" where
  "serde_output v =
     (case (field_string v ''id'', field_u64 v ''offset'', field_u64 v ''next_offset'',
            field_u64 v ''skipped'', field_string v ''text'', Option.bind (get v ''done'') as_bool) of
        (Some i, Some a, Some n, Some s, Some t, Some d) \<Rightarrow>
          Some \<lparr>ro_id = i, ro_offset = a, ro_next_offset = n, ro_skipped = s, ro_text = t, ro_done = d\<rparr>
      | _ \<Rightarrow> None)"

definition serde_finished :: "json \<Rightarrow> run_finished option" where
  "serde_finished v =
     (case (Option.bind (get v ''status'') serde_status, field_string v ''stdout'',
            field_string v ''stderr'', field_u64 v ''stdout_cut'', field_u64 v ''stderr_cut'') of
        (Some s, Some a, Some b, Some m, Some n) \<Rightarrow>
          Some \<lparr>rf_status = s, rf_stdout = a, rf_stderr = b, rf_stdout_cut = m, rf_stderr_cut = n\<rparr>
      | _ \<Rightarrow> None)"

text \<open>\<open>Summary\<close>: the fields of the status, flattened, and its own, of which two have defaults.\<close>

definition serde_summary :: "json \<Rightarrow> run_summary option" where
  "serde_summary v =
     (case (serde_status v, field_string v ''root'', field_default v ''dir'', field_string v ''command'',
            (case get v ''network'' of None \<Rightarrow> Some False | Some x \<Rightarrow> as_bool x), field_u64 v ''started_at'') of
        (Some s, Some r, Some d, Some c, Some n, Some t) \<Rightarrow>
          Some \<lparr>sm_status = s, sm_root = r, sm_dir = d, sm_command = c, sm_network = n, sm_started_at = t\<rparr>
      | _ \<Rightarrow> None)"

definition serde_summaries :: "json \<Rightarrow> run_summary list option" where
  "serde_summaries v = Option.bind (as_array v) (\<lambda>xs. all_some (map serde_summary xs))"

text \<open>\<open>parse\<close> of \<open>src/commands/mod.rs\<close>\<close>

definition parse_answer :: "(json \<Rightarrow> 'a option) \<Rightarrow> json \<Rightarrow> run_error + 'a" where
  "parse_answer f v = (case f v of
     Some x \<Rightarrow> Inr x
   | None \<Rightarrow> Inl (run_error ''unavailable'' ''an answer this version doesn't understand''))"

section \<open>The two ends\<close>

text \<open>
  \<open>take(MAX_LINE).read_line\<close>: a line with its end, if it comes within the limit and is UTF-8.
\<close>

definition take_line :: "string \<Rightarrow> (string \<times> string) option" where
  "take_line input = (case split_once (CHR 0x0A) input of
     None \<Rightarrow> None
   | Some (l, rest) \<Rightarrow>
       if length l < MAX_LINE \<and> utf8_valid l then Some (l @ newline, rest) else None)"

definition serve_line ::
  "json_lib \<Rightarrow> call_env \<Rightarrow> string \<Rightarrow> runs \<Rightarrow> (run_error + json) \<times> runs" where
  "serve_line lib env line rs = (case Option.bind (from_str lib line) serde_call of
     Some c \<Rightarrow> answer env c rs
   | None \<Rightarrow> (Inl (run_error ''invalid'' ''not a call''), rs))"

text \<open>
  \<open>serve\<close>: line after line until the stream ends, breaks the rules or cannot be written to;
  then every run is stopped. \<open>world n\<close> is what the \<open>n\<close>-th call meets, and whether its answer can
  be written.
\<close>

lemma take_line_shorter: "take_line s = Some (l, rest) \<Longrightarrow> length rest < length s"
  by (auto simp: take_line_def dest!: split_once_Some split: option.splits if_splits)

function serve ::
  "json_lib \<Rightarrow> (nat \<Rightarrow> call_env \<times> bool) \<Rightarrow> nat \<Rightarrow> string \<Rightarrow> runs \<Rightarrow> string \<times> runs" where
  "serve lib world n input rs = (case take_line input of
     None \<Rightarrow> ([], stop_all rs)
   | Some (line, rest) \<Rightarrow>
       (case serve_line lib (fst (world n)) line rs of (reply, rs') \<Rightarrow>
          if snd (world n)
          then (case serve lib world (Suc n) rest rs' of (sent, final) \<Rightarrow>
             (to_text lib (ser_reply reply) @ newline @ sent, final))
          else ([], stop_all rs')))"
  by pat_completeness auto
termination
  by (relation "measure (\<lambda>(lib, world, n, input, rs). length input)") (auto dest: take_line_shorter)

declare serve.simps [simp del]

definition lost :: run_error where
  "lost = run_error ''unavailable'' ''lost touch with the process that runs commands''"

text \<open>
  \<open>Client::call\<close>: \<open>pending\<close> is what the supervisor sent and the worker has not read. When the
  call runs out of time its line is written, and its answer comes later.
\<close>

definition served :: "json_lib \<Rightarrow> call_env \<Rightarrow> string \<Rightarrow> runs \<Rightarrow> string \<times> runs" where
  "served lib env input rs = (case take_line input of
     None \<Rightarrow> ([], stop_all rs)
   | Some (line, rest) \<Rightarrow> (case serve_line lib env line rs of (reply, rs') \<Rightarrow>
       (to_text lib (ser_reply reply) @ newline, rs')))"

definition client_call ::
  "json_lib \<Rightarrow> call_env \<Rightarrow> bool \<Rightarrow> run_call \<Rightarrow> string \<times> runs
     \<Rightarrow> (run_error + json) \<times> (string \<times> runs)" where
  "client_call lib env timed_out c st = (case st of (pending, rs) \<Rightarrow>
     (case served lib env (to_text lib (ser_call c) @ newline) rs of (sent, rs') \<Rightarrow>
       (let arrived = pending @ sent
        in if timed_out then (Inl lost, (arrived, rs'))
           else (case take_line arrived of
             None \<Rightarrow> (Inl lost, (drop MAX_LINE arrived, rs'))
           | Some (line, rest) \<Rightarrow>
               (case Option.bind (from_str lib line) serde_reply of
                  Some r \<Rightarrow> (r, (rest, rs'))
                | None \<Rightarrow> (Inl lost, (rest, rs')))))))"

text \<open>\<open>Runner\<close>: here, through the supervisor, or nowhere.\<close>

datatype runner = RunnerLocal | RunnerSupervisor | RunnerOff string

definition runner_call ::
  "json_lib \<Rightarrow> runner \<Rightarrow> call_env \<Rightarrow> run_call \<Rightarrow> string \<times> runs
     \<Rightarrow> (run_error + json) \<times> (string \<times> runs)" where
  "runner_call lib r env c st = (case r of
     RunnerLocal \<Rightarrow> (case answer env c (snd st) of (v, rs') \<Rightarrow> (v, (fst st, rs')))
   | RunnerSupervisor \<Rightarrow> client_call lib env (ce_timed_out env) c st
   | RunnerOff reason \<Rightarrow> (Inl (run_error ''unavailable'' reason), st))"

section \<open>Round trips\<close>

lemmas serde_simps = get_jobject field_string_def field_u64_def field_opt_def field_default_def
  only_fields_def jobject_def

lemma serde_request_ser: "serde_request (ser_request r) = Some r"
  by (simp add: serde_request_def ser_request_def serde_simps)

definition call_in_range :: "run_call \<Rightarrow> bool" where
  "call_in_range c = (case c of CallOutput i a m \<Rightarrow> a \<le> u64_max \<and> m \<le> u64_max | _ \<Rightarrow> True)"

lemma as_u64_jnat: "n \<le> u64_max \<Longrightarrow> as_u64 (jnat n) = Some n"
  by (simp add: jnat_def)

lemma serde_call_ser: "call_in_range c \<Longrightarrow> serde_call (ser_call c) = Some c"
  by (cases c) (auto simp: serde_call_def serde_simps serde_request_ser
      call_in_range_def as_u64_jnat)

lemma serde_reply_ser: "serde_reply (ser_reply r) = Some r"
  by (cases r) (auto simp: serde_reply_def ser_reply_def serde_simps run_error_def)

definition status_in_range :: "run_status \<Rightarrow> bool" where
  "status_in_range s \<longleftrightarrow> rs_duration_ms s \<le> u64_max \<and> rs_output_bytes s \<le> u64_max
     \<and> (case rs_exit_code s of None \<Rightarrow> True | Some x \<Rightarrow> -2147483648 \<le> x \<and> x \<le> 2147483647)"

lemma serde_status_ser: "status_in_range s \<Longrightarrow> serde_status (ser_status s) = Some s"
  by (cases "rs_exit_code s"; cases "rs_error s"; cases "rs_limit s")
    (simp_all add: serde_status_def ser_status_def status_fields_def serde_simps status_in_range_def
      as_u64_jnat null_or_def some_field_def jint_def)

lemma serde_output_ser:
  "ro_next_offset r \<le> u64_max \<Longrightarrow> ro_offset r \<le> u64_max \<Longrightarrow> ro_skipped r \<le> u64_max
     \<Longrightarrow> serde_output (ser_output r) = Some r"
  by (simp add: serde_output_def ser_output_def serde_simps as_u64_jnat)

lemma serde_finished_ser:
  "status_in_range (rf_status r) \<Longrightarrow> rf_stdout_cut r \<le> u64_max \<Longrightarrow> rf_stderr_cut r \<le> u64_max
     \<Longrightarrow> serde_finished (ser_finished r) = Some r"
  using serde_status_ser [of "rf_status r"]
  by (simp add: serde_finished_def ser_finished_def serde_simps as_u64_jnat)

lemma serde_summary_ser:
  "status_in_range (sm_status s) \<Longrightarrow> sm_started_at s \<le> u64_max \<Longrightarrow> serde_summary (ser_summary s) = Some s"
  by (cases "rs_exit_code (sm_status s)"; cases "rs_error (sm_status s)"; cases "rs_limit (sm_status s)")
    (simp_all add: serde_summary_def serde_status_def ser_summary_def status_fields_def serde_simps
      status_in_range_def as_u64_jnat null_or_def some_field_def jint_def)

section \<open>An exchange over the socket\<close>

text \<open>
  What the exchange needs of the JSON library for one value: it comes back, from one line; and
  that line fits the channel.
\<close>

definition comes_back :: "json_lib \<Rightarrow> json \<Rightarrow> bool" where
  "comes_back lib v \<longleftrightarrow> from_str lib (to_text lib v @ newline) = Some v
     \<and> CHR 0x0A \<notin> set (to_text lib v) \<and> utf8_valid (to_text lib v)"

definition fits_line :: "json_lib \<Rightarrow> json \<Rightarrow> bool" where
  "fits_line lib v \<longleftrightarrow> length (to_text lib v) < MAX_LINE"

definition travels :: "json_lib \<Rightarrow> json \<Rightarrow> bool" where
  "travels lib v \<longleftrightarrow> comes_back lib v \<and> fits_line lib v"

lemma travels_def': "travels lib v \<longleftrightarrow> from_str lib (to_text lib v @ newline) = Some v
     \<and> CHR 0x0A \<notin> set (to_text lib v) \<and> utf8_valid (to_text lib v)
     \<and> length (to_text lib v) < MAX_LINE"
  by (auto simp: travels_def comes_back_def fits_line_def)

lemma take_line_travels:
  "travels lib v \<Longrightarrow> take_line (to_text lib v @ newline @ rest) = Some (to_text lib v @ newline, rest)"
  by (simp add: take_line_def travels_def' newline_def split_once_append)

lemma served_call:
  assumes "travels lib (ser_call c)" and "call_in_range c"
  shows "served lib env (to_text lib (ser_call c) @ newline) rs
    = (to_text lib (ser_reply (fst (answer env c rs))) @ newline, snd (answer env c rs))"
proof -
  have "serve_line lib env (to_text lib (ser_call c) @ newline) rs = answer env c rs"
    using assms by (simp add: serve_line_def travels_def' serde_call_ser)
  then show ?thesis
    using take_line_travels [OF assms(1), of "[]"] by (simp add: served_def split: prod.splits)
qed

lemma client_call_answer:
  assumes "travels lib (ser_call c)" and "call_in_range c"
    and "travels lib (ser_reply (fst (answer env c rs)))"
  shows "client_call lib env False c ([], rs) = (fst (answer env c rs), ([], snd (answer env c rs)))"
  using take_line_travels [OF assms(3), of "[]"] assms(3)
  by (simp add: client_call_def served_call [OF assms(1,2)] travels_def' serde_reply_ser Let_def)

text \<open>
  Whatever becomes of the answer, the call has had its effect; and what is not read of the answer
  stays on the channel.
\<close>

lemma client_call_effect:
  assumes "travels lib (ser_call c)" and "call_in_range c"
    and "comes_back lib (ser_reply (fst (answer env c rs)))"
  shows "client_call lib env late c ([], rs) =
    (if late \<or> \<not> fits_line lib (ser_reply (fst (answer env c rs))) then Inl lost else fst (answer env c rs),
     (if late then to_text lib (ser_reply (fst (answer env c rs))) @ newline
      else if fits_line lib (ser_reply (fst (answer env c rs))) then []
      else drop MAX_LINE (to_text lib (ser_reply (fst (answer env c rs))) @ newline),
      snd (answer env c rs)))"
proof -
  let ?t = "to_text lib (ser_reply (fst (answer env c rs)))"
  have "take_line (?t @ newline) = (if length ?t < MAX_LINE then Some (?t @ newline, []) else None)"
    using assms(3) by (simp add: take_line_def newline_def split_once_append comes_back_def)
  with assms(3) show ?thesis
    by (simp add: client_call_def served_call [OF assms(1,2)] comes_back_def fits_line_def serde_reply_ser Let_def)
qed

text \<open>
  After a call that ran out of time, the next one reads its answer: a call reads one line, and
  the line of the earlier call comes first.
\<close>

lemma client_call_after_timeout:
  assumes "travels lib (ser_call c)" and "call_in_range c"
    and "travels lib (ser_reply (fst (answer env c rs)))"
    and "travels lib (ser_call d)" and "call_in_range d"
  shows "fst (client_call lib env' False d (snd (client_call lib env True c ([], rs))))
    = fst (answer env c rs)"
  using take_line_travels [OF assms(3)] assms(3)
  by (simp add: client_call_def served_call [OF assms(1,2)] served_call [OF assms(4,5)]
      travels_def' serde_reply_ser Let_def)

end
