(* ===== verification/Polling.thy ===== *)
theory Polling
  imports Prelude
begin

text \<open>
  Loops that look, and if there is nothing yet sleep and look again, until a deadline. A turn
  gives the result, or the world to go on in; the fuel counts turns. The locale is what every
  such loop has: a turn that goes on came before the deadline and let at least one period pass.
  Inside it, as many turns as fit before the deadline, and one more, always give a result.
\<close>

fun poll_loop :: "nat \<Rightarrow> ('w \<Rightarrow> 'r + 'w) \<Rightarrow> 'w \<Rightarrow> 'r option" where
  "poll_loop 0 turn w = None"
| "poll_loop (Suc fuel) turn w = (case turn w of
     Inl r \<Rightarrow> Some r
   | Inr w' \<Rightarrow> poll_loop fuel turn w')"

lemma poll_loop_mono: "poll_loop fuel turn w = Some r \<Longrightarrow> poll_loop (fuel + n) turn w = Some r"
  by (induction fuel arbitrary: w) (auto split: sum.splits)

locale polling =
  fixes turn :: "'w \<Rightarrow> 'r + 'w"
    and now :: "'w \<Rightarrow> nat"
    and deadline :: nat
    and period :: nat
  assumes period_pos: "0 < period"
    and goes_on: "turn w = Inr w' \<Longrightarrow> now w < deadline \<and> now w + period \<le> now w'"
begin

lemma ends_in:
  assumes "deadline \<le> now w + n * period"
  shows "poll_loop (Suc n) turn w \<noteq> None"
  using assms
proof (induction n arbitrary: w)
  case 0
  then show ?case by (cases "turn w") (auto dest: goes_on)
next
  case (Suc n)
  show ?case
  proof (cases "turn w")
    case (Inr w')
    then have "now w + period \<le> now w'" by (auto dest: goes_on)
    with Suc.prems have "deadline \<le> now w' + n * period" by simp
    from Suc.IH [OF this] Inr show ?thesis by simp
  qed simp
qed

lemma ends: "poll_loop (Suc ((deadline - now w) div period + 1)) turn w \<noteq> None"
proof (rule ends_in)
  have "deadline - now w < ((deadline - now w) div period + 1) * period"
    using period_pos by (simp add: dividend_less_times_div mult.commute)
  then show "deadline \<le> now w + ((deadline - now w) div period + 1) * period" by linarith
qed

end

end
