(* ===== verification/CommandTools.thy ===== *)
theory CommandTools
  imports Channel Polling
begin

text \<open>
  \<open>src/commands/tools.rs\<close>: the tools \<open>run\<close>, \<open>run_status\<close>, \<open>run_output\<close> and \<open>run_stop\<close>, from
  their arguments to their results, with the loop that waits for a command. The world a call
  runs in is the connection to the supervisor, the runs, the clock, and the progress reported;
  what the computer does meanwhile is a parameter of the environment.
\<close>

definition FOREGROUND_WAIT :: duration where "FOREGROUND_WAIT = secs 15"
definition TOOL_POLL :: duration where "TOOL_POLL = millis 250"
definition PROGRESS_CHARS :: nat where "PROGRESS_CHARS = 200"

record command_root =
  cm_id :: string
  cm_label :: string
  cm_network :: bool

record tool_world =
  tw_pending :: string
  tw_runs :: runs
  tw_now :: instant
  tw_reports :: "(nat \<times> string) list"

text \<open>
  \<open>CommandTools\<close>, with the JSON library, the parser of tool paths, what serde says of arguments
  it refuses, the debug printing of a string, what a call at some time meets, what the runs'
  threads do while the tool sleeps, and how much longer than asked it sleeps.
\<close>

record tools_env =
  te_runner :: runner
  te_roots :: "command_root list"
  te_limits :: run_limits
  te_lib :: json_lib
  te_parse_path :: "string \<Rightarrow> tool_error + tool_path"
  te_msg :: "json \<Rightarrow> string"
  te_dbg :: "string \<Rightarrow> string"
  te_env :: "instant \<Rightarrow> call_env"
  te_meanwhile :: "instant \<Rightarrow> runs \<Rightarrow> runs"
  te_late :: "instant \<Rightarrow> duration"

section \<open>Arguments and results\<close>

record run_args =
  ra_command :: string
  ra_path :: "string option"
  ra_background :: bool
  ra_dry_run :: bool

definition field_flag :: "json \<Rightarrow> string \<Rightarrow> bool option" where
  "field_flag v k = (case get v k of None \<Rightarrow> Some False | Some x \<Rightarrow> as_bool x)"

definition serde_run_args :: "json \<Rightarrow> run_args option" where
  "serde_run_args v =
     (if \<not> only_fields [''command'', ''path'', ''background'', ''dry_run''] v then None
      else (case (field_string v ''command'', field_opt as_str v ''path'',
                  field_flag v ''background'', field_flag v ''dry_run'') of
        (Some c, Some p, Some b, Some d) \<Rightarrow>
          Some \<lparr>ra_command = c, ra_path = p, ra_background = b, ra_dry_run = d\<rparr>
      | _ \<Rightarrow> None))"

definition serde_handle_args :: "json \<Rightarrow> string option" where
  "serde_handle_args v = (if only_fields [''run''] v then field_string v ''run'' else None)"

record output_args =
  oa_run :: string
  oa_offset :: nat
  oa_max_chars :: "nat option"

definition serde_output_args :: "json \<Rightarrow> output_args option" where
  "serde_output_args v =
     (if \<not> only_fields [''run'', ''offset'', ''max_chars''] v then None
      else (case (field_string v ''run'',
                  (case get v ''offset'' of None \<Rightarrow> Some 0 | Some x \<Rightarrow> as_u64 x),
                  field_opt as_u64 v ''max_chars'') of
        (Some i, Some a, Some m) \<Rightarrow> Some \<lparr>oa_run = i, oa_offset = a, oa_max_chars = m\<rparr>
      | _ \<Rightarrow> None))"

definition ser_run_limits :: "run_limits \<Rightarrow> json" where
  "ser_run_limits l = jobject [(''cpu_seconds'', jnat (rl_cpu_seconds l)),
     (''memory_mb'', jnat (rl_memory_mb l)), (''timeout_seconds'', jnat (rl_timeout_seconds l)),
     (''processes'', jnat (rl_processes l)), (''output_chars'', jnat (rl_output_chars l))]"

record run_result =
  rr_shown :: string
  rr_folder :: string
  rr_command :: string
  rr_network :: bool
  rr_finished :: run_finished
  rr_note :: "string option"

definition ser_run_result :: "run_result \<Rightarrow> json" where
  "ser_run_result r = jobject (
     [(''path'', JStr (rr_shown r)), (''folder'', JStr (rr_folder r)),
      (''command'', JStr (rr_command r)), (''network'', JBool (rr_network r))]
     @ status_fields (rf_status (rr_finished r))
     @ [(''stdout'', JStr (rf_stdout (rr_finished r))), (''stderr'', JStr (rf_stderr (rr_finished r))),
        (''stdout_cut'', jnat (rf_stdout_cut (rr_finished r))),
        (''stderr_cut'', jnat (rf_stderr_cut (rr_finished r)))]
     @ some_field ''note'' JStr (rr_note r))"

section \<open>Words about a run\<close>

definition show_int :: "int \<Rightarrow> string" where
  "show_int n = (if n < 0 then CHR ''-'' # show_nat (nat (- n)) else show_nat (nat n))"

definition MIDDLE_DOT :: string where "MIDDLE_DOT = [CHR 0xC2, CHR 0xB7]"

definition state_words :: "run_status \<Rightarrow> string" where
  "state_words s =
     (if rs_limit s = Some ''cpu_time'' then ''CPU limit''
      else if rs_limit s = Some ''processes'' then ''process limit''
      else (case rs_exit_code s of
          Some n \<Rightarrow> if rs_state s = ''exited'' then ''exit '' @ show_int n
                    else map (\<lambda>c. if c = CHR ''_'' then CHR '' '' else c) (rs_state s)
        | None \<Rightarrow> map (\<lambda>c. if c = CHR ''_'' then CHR '' '' else c) (rs_state s)))"

definition ended_words :: "run_status \<Rightarrow> string \<Rightarrow> string" where
  "ended_words s command =
     (let st = state_words s; c = ToolData.take_chars 400 command
      in if c = [] then st else st @ '' '' @ MIDDLE_DOT @ '' '' @ c)"

definition last_line :: "string \<Rightarrow> string" where
  "last_line text =
     (let line = (case find (\<lambda>l. trim_ws l \<noteq> []) (rev (str_lines text)) of Some l \<Rightarrow> l | None \<Rightarrow> []);
          count = length (utf8_chars line)
      in if PROGRESS_CHARS < count
         then utf8_encode (drop (count - PROGRESS_CHARS) (utf8_chars line)) else line)"

definition run_tool_error :: "run_error \<Rightarrow> tool_error" where
  "run_tool_error e = tool_error
     (if re_code e = ''not_allowed'' then NotWritable
      else if re_code e = ''invalid_path'' then InvalidPath
      else if re_code e = ''not_found'' then NotFound
      else if re_code e = ''invalid'' then InvalidArgument
      else if re_code e = ''busy'' then RateLimited
      else Internal) (re_message e)"

definition check_handle :: "string \<Rightarrow> tool_error + unit" where
  "check_handle i = (if valid_id i then Inr ()
     else Inl (invalid_argument ''`run` is the handle `run` returned''))"

section \<open>Asking the runner\<close>

definition ask :: "tools_env \<Rightarrow> (json \<Rightarrow> 'a option) \<Rightarrow> run_call \<Rightarrow> tool_world
    \<Rightarrow> (run_error + 'a) \<times> tool_world" where
  "ask te f c w =
     (case runner_call (te_lib te) (te_runner te) (te_env te (tw_now w)) c (tw_pending w, tw_runs w) of
        (v, (pending, rs)) \<Rightarrow>
          (case v of Inl e \<Rightarrow> Inl e | Inr x \<Rightarrow> parse_answer f x,
           w\<lparr>tw_pending := pending, tw_runs := rs\<rparr>))"

definition tool_sleep :: "tools_env \<Rightarrow> duration \<Rightarrow> tool_world \<Rightarrow> tool_world" where
  "tool_sleep te d w = w\<lparr>tw_now := tw_now w + d + te_late te (tw_now w),
     tw_runs := te_meanwhile te (tw_now w) (tw_runs w)\<rparr>"

text \<open>
  One turn of \<open>follow\<close>: the status, then what was printed since the last report, when someone
  listens; on, after a sleep, while it runs and there is time. The loop ends with an error, or
  with nothing and the world it ended in.
\<close>

definition follow_turn ::
  "tools_env \<Rightarrow> string \<Rightarrow> bool \<Rightarrow> instant \<Rightarrow> nat \<times> tool_world
     \<Rightarrow> ((tool_error + unit) \<times> tool_world) + (nat \<times> tool_world)" where
  "follow_turn te i listening deadline s = (case s of (offset, w) \<Rightarrow>
     (case ask te serde_status (CallStatus i) w of
        (Inl e, w1) \<Rightarrow> Inl (Inl (run_tool_error e), w1)
      | (Inr st, w1) \<Rightarrow>
          (case (if listening then ask te serde_output (CallOutput i offset (64 * 1024)) w1
                 else (Inr \<lparr>ro_id = i, ro_offset = offset, ro_next_offset = offset,
                            ro_skipped = 0, ro_text = [], ro_done = False\<rparr>, w1)) of
             (Inl e, w2) \<Rightarrow> Inl (Inl (run_tool_error e), w2)
           | (Inr out, w2) \<Rightarrow>
               (let news = listening \<and> offset < ro_next_offset out;
                    offset' = (if news then ro_next_offset out else offset);
                    w3 = (if news then w2\<lparr>tw_reports := tw_reports w2 @ [(offset', last_line (ro_text out))]\<rparr>
                          else w2)
                in if \<not> status_running st \<or> deadline \<le> tw_now w3 then Inl (Inr (), w3)
                   else Inr (offset', tool_sleep te TOOL_POLL w3)))))"

text \<open>Turns that always suffice: see \<open>follow_ends\<close> in the facts.\<close>

definition follow_fuel :: "duration \<Rightarrow> nat" where
  "follow_fuel wait = Suc (wait div TOOL_POLL + 1)"

definition follow ::
  "tools_env \<Rightarrow> string \<Rightarrow> duration \<Rightarrow> bool \<Rightarrow> tool_world
     \<Rightarrow> ((tool_error + run_finished) \<times> tool_world) option" where
  "follow te i wait listening w =
     map_option (\<lambda>(r, w'). case r of
         Inl e \<Rightarrow> (Inl e, w')
       | Inr _ \<Rightarrow> (case ask te serde_finished (CallFinished i) w' of
           (v, w2) \<Rightarrow> (map_sum run_tool_error id v, w2)))
       (poll_loop (follow_fuel wait) (follow_turn te i listening (tw_now w + wait)) (0, w))"

section \<open>The tools\<close>

definition offered :: "tools_env \<Rightarrow> bool" where
  "offered te \<longleftrightarrow> te_roots te \<noteq> [] \<and> (case te_runner te of RunnerOff _ \<Rightarrow> False | _ \<Rightarrow> True)"

definition tool_root :: "tools_env \<Rightarrow> string \<Rightarrow> tool_error + command_root" where
  "tool_root te i = (case find (\<lambda>r. cm_id r = i) (te_roots te) of
     Some r \<Rightarrow> Inr r
   | None \<Rightarrow> Inl (tool_error NotWritable
       (i @ '' doesn't allow commands (see `allows_commands` in `roots`)'')))"

text \<open>The checks of \<open>run\<close>: where, and what.\<close>

definition check_run :: "tools_env \<Rightarrow> run_args \<Rightarrow> tool_error + (command_root \<times> tool_path \<times> string)" where
  "check_run te a =
     (let p = (case ra_path a of Some s \<Rightarrow> s | None \<Rightarrow> [])
      in if p = [] then Inl (invalid_argument
           ''`path` names the folder to run in: `<root_id>:` or `<root_id>:dir`'')
         else (case te_parse_path te p of
           Inl e \<Rightarrow> Inl e
         | Inr tp \<Rightarrow> (case tool_root te (tp_root tp) of
             Inl e \<Rightarrow> Inl e
           | Inr r \<Rightarrow>
               (let command = trim_ws (ra_command a)
                in if command = [] \<or> MAX_COMMAND_CHARS < length (utf8_chars command)
                   then Inl (invalid_argument (''`command` is one line of shell, at most ''
                     @ show_nat MAX_COMMAND_CHARS @ '' characters''))
                   else Inr (r, tp, command)))))"

definition run_preview :: "tools_env \<Rightarrow> command_root \<Rightarrow> tool_path \<Rightarrow> string \<Rightarrow> bool \<Rightarrow> json" where
  "run_preview te r tp command background = jobject [
     (''dry_run'', JBool True), (''path'', JStr (display (cm_id r) (tp_rel tp))),
     (''folder'', JStr (cm_label r)), (''dir'', JStr (as_string (tp_rel tp))),
     (''command'', JStr command), (''network'', JBool (cm_network r)),
     (''background'', JBool background), (''limits'', ser_run_limits (te_limits te))]"

definition run_note :: "run_status \<Rightarrow> string option" where
  "run_note s = (if status_running s
     then Some (''Still running as '' @ rs_id s @ ''. Check it with `run_status`, read what it prints with `run_output`, and stop it with `run_stop`.'')
     else None)"

type_synonym tool_reply = "tool_error + json \<times> string option"

definition tool_run ::
  "tools_env \<Rightarrow> bool \<Rightarrow> run_args \<Rightarrow> tool_world \<Rightarrow> (tool_reply \<times> tool_world) option" where
  "tool_run te listening a w = (case check_run te a of
     Inl e \<Rightarrow> Some (Inl e, w)
   | Inr (r, tp, command) \<Rightarrow>
       if ra_dry_run a
       then Some (Inr (run_preview te r tp command (ra_background a), Some command), w)
       else (case ask te serde_status (CallStart \<lparr>rq_root = cm_id r, rq_dir = as_string (tp_rel tp),
                                                 rq_command = command\<rparr>) w of
         (Inl e, w1) \<Rightarrow> Some (Inl (run_tool_error e), w1)
       | (Inr st, w1) \<Rightarrow> map_option (\<lambda>(v, w2). (case v of
             Inl e \<Rightarrow> Inl e
           | Inr fin \<Rightarrow> Inr (ser_run_result \<lparr>rr_shown = display (cm_id r) (tp_rel tp),
                 rr_folder = cm_label r, rr_command = command, rr_network = cm_network r,
                 rr_finished = fin, rr_note = run_note (rf_status fin)\<rparr>,
               Some (ended_words (rf_status fin) command)), w2))
           (follow te (rs_id st) (if ra_background a then 0 else FOREGROUND_WAIT) listening w1)))"

definition tool_status :: "tools_env \<Rightarrow> string \<Rightarrow> tool_world \<Rightarrow> tool_reply \<times> tool_world" where
  "tool_status te i w = (case check_handle i of
     Inl e \<Rightarrow> (Inl e, w)
   | Inr _ \<Rightarrow> (case ask te serde_finished (CallFinished i) w of
       (v, w') \<Rightarrow> (map_sum run_tool_error (\<lambda>f. (ser_finished f, None)) v, w')))"

definition tool_output :: "tools_env \<Rightarrow> output_args \<Rightarrow> tool_world \<Rightarrow> tool_reply \<times> tool_world" where
  "tool_output te a w = (case check_handle (oa_run a) of
     Inl e \<Rightarrow> (Inl e, w)
   | Inr _ \<Rightarrow>
       (let most = clamp 1 32000 (case oa_max_chars a of Some m \<Rightarrow> m | None \<Rightarrow> 16000)
        in case ask te serde_output (CallOutput (oa_run a) (oa_offset a) most) w of
          (v, w') \<Rightarrow> (map_sum run_tool_error (\<lambda>r. (ser_output r, None)) v, w')))"

definition tool_stop :: "tools_env \<Rightarrow> string \<Rightarrow> tool_world \<Rightarrow> (tool_reply \<times> tool_world) option" where
  "tool_stop te i w = (case check_handle i of
     Inl e \<Rightarrow> Some (Inl e, w)
   | Inr _ \<Rightarrow> (case ask te serde_status (CallStop i) w of
       (Inl e, w1) \<Rightarrow> Some (Inl (run_tool_error e), w1)
     | (Inr st, w1) \<Rightarrow> map_option (\<lambda>(v, w2).
         (map_sum id (\<lambda>f. (ser_finished f, Some (ended_words (rf_status f) []))) v, w2))
         (follow te i (secs 5) False w1)))"

definition command_call ::
  "tools_env \<Rightarrow> string \<Rightarrow> json \<Rightarrow> bool \<Rightarrow> tool_world \<Rightarrow> (tool_reply \<times> tool_world) option" where
  "command_call te name args listening w =
     (if name = ''run'' then (case parse_args (te_msg te) serde_run_args args of
          Inl e \<Rightarrow> Some (Inl e, w) | Inr a \<Rightarrow> tool_run te listening a w)
      else if name = ''run_status'' then (case parse_args (te_msg te) serde_handle_args args of
          Inl e \<Rightarrow> Some (Inl e, w) | Inr i \<Rightarrow> Some (tool_status te i w))
      else if name = ''run_output'' then (case parse_args (te_msg te) serde_output_args args of
          Inl e \<Rightarrow> Some (Inl e, w) | Inr a \<Rightarrow> Some (tool_output te a w))
      else if name = ''run_stop'' then (case parse_args (te_msg te) serde_handle_args args of
          Inl e \<Rightarrow> Some (Inl e, w) | Inr i \<Rightarrow> tool_stop te i w)
      else Some (Inl (invalid_argument (te_dbg te name @ '' is not a command tool'')), w))"

end
