(* ===== verification/RunThread.thy ===== *)
theory RunThread
  imports RunsFacts
begin

text \<open>
  \<open>src/commands/run.rs\<close>: the thread of one run. What happens around it is its input: how far
  setting up the sandbox comes, and then for every poll what the readers append and others do to
  the shared record, the processes there are, the clock, and what \<open>try_wait\<close> says (Linux; on macOS
  no processes are counted).
\<close>

section \<open>Counting a command's processes\<close>

text \<open>
  \<open>parent_in_stat\<close>: the field after the state, which follows the name in parentheses (which
  can hold anything, parentheses too).
\<close>

definition parent_in_stat :: "string \<Rightarrow> nat option" where
  "parent_in_stat stat = (case rsplit_once (CHR '')'') stat of
     None \<Rightarrow> None
   | Some (_, rest) \<Rightarrow> (case split_whitespace rest of
       _ # parent # _ \<Rightarrow> parse_uint 4294967295 parent
     | _ \<Rightarrow> None))"

definition children_of :: "(nat \<times> nat) list \<Rightarrow> nat \<Rightarrow> nat list" where
  "children_of parents pid = map fst (filter (\<lambda>(_, parent). parent = pid) parents)"

text \<open>The children not seen before, in order, and what is then seen.\<close>

fun fresh_children :: "nat list \<Rightarrow> nat list \<Rightarrow> nat list \<times> nat list" where
  "fresh_children [] seen = ([], seen)"
| "fresh_children (c # cs) seen =
     (if c \<in> set seen then fresh_children cs seen
      else (case fresh_children cs (c # seen) of (new, seen') \<Rightarrow> (c # new, seen')))"

lemma fresh_children_props:
  "fresh_children cs seen = (new, seen') \<Longrightarrow>
     distinct new \<and> set new = set cs - set seen \<and> set seen' = set seen \<union> set cs"
proof (induction cs arbitrary: seen new seen')
  case (Cons c cs)
  show ?case
  proof (cases "c \<in> set seen")
    case True
    with Cons show ?thesis by auto
  next
    case False
    with Cons.prems obtain new' where "fresh_children cs (c # seen) = (new', seen')" "new = c # new'"
      by (auto split: prod.splits)
    with Cons.IH [OF this(1)] False show ?thesis by auto
  qed
qed simp

text \<open>The search: the queue is a stack, whose top is the last element.\<close>

function descend :: "(nat \<times> nat) list \<Rightarrow> nat list \<Rightarrow> nat list \<Rightarrow> nat \<Rightarrow> nat" where
  "descend parents queue seen count =
     (if queue = [] then count
      else (case fresh_children (children_of parents (last queue)) seen of
        (new, seen') \<Rightarrow> descend parents (butlast queue @ new) seen' (count + length new)))"
  by pat_completeness auto
termination
proof (relation "measure (\<lambda>(parents, queue, seen, count).
    2 * card (set (map fst parents) - set seen) + length queue)")
  fix parents :: "(nat \<times> nat) list" and queue seen new seen' :: "nat list" and count :: nat
  assume q: "queue \<noteq> []"
    and p: "(new, seen') = fresh_children (children_of parents (last queue)) seen"
  then have new: "distinct new" "set new = set (children_of parents (last queue)) - set seen"
    "set seen' = set seen \<union> set (children_of parents (last queue))"
    using fresh_children_props by metis+
  have sub: "set (children_of parents (last queue)) \<subseteq> set (map fst parents)"
    by (auto simp: children_of_def)
  have "set (map fst parents) - set seen = (set (map fst parents) - set seen') \<union> set new"
    using new(2,3) sub by auto
  moreover have "(set (map fst parents) - set seen') \<inter> set new = {}" using new(2,3) by auto
  ultimately have "card (set (map fst parents) - set seen)
      = card (set (map fst parents) - set seen') + length new"
    using new(1) by (simp add: card_Un_disjoint distinct_card)
  moreover have "length queue = Suc (length (butlast queue))" using q by simp
  ultimately show "((parents, butlast queue @ new, seen', count + length new),
      (parents, queue, seen, count))
    \<in> measure (\<lambda>(parents, queue, seen, count).
        2 * card (set (map fst parents) - set seen) + length queue)"
    by simp
qed simp

declare descend.simps [simp del]

definition descendants :: "nat \<Rightarrow> (nat \<times> nat) list \<Rightarrow> nat" where
  "descendants root parents = descend parents [root] [root] 0"

definition too_many_processes :: "nat \<Rightarrow> (nat \<times> nat) list \<Rightarrow> nat \<Rightarrow> sandbox \<Rightarrow> bool" where
  "too_many_processes root parents limit sb \<longleftrightarrow>
     0 < limit \<and> limit + own_processes sb < descendants root parents + 1"

section \<open>The shared record\<close>

text \<open>
  The thread shares the record with everyone else and locks its own cell for each thing it does
  to it. Between two of them, and while it waits, its readers append what they read, and others do
  what they do to the record: \<open>Others g\<close> is any of that, at one moment.
\<close>

datatype run_event = Printed run_stream string | Others "runs \<Rightarrow> runs"

definition on_cell :: "string \<Rightarrow> (cell \<Rightarrow> cell) \<Rightarrow> runs \<Rightarrow> runs" where
  "on_cell i f rs = (case map_of (rn_cells rs) i of Some c \<Rightarrow> put_cell i (f c) rs | None \<Rightarrow> rs)"

definition stop_asked :: "string \<Rightarrow> runs \<Rightarrow> bool" where
  "stop_asked i rs \<longleftrightarrow> (case map_of (rn_cells rs) i of Some c \<Rightarrow> c_stop c | None \<Rightarrow> False)"

fun meet :: "string \<Rightarrow> run_event \<Rightarrow> runs \<Rightarrow> runs" where
  "meet i (Printed stream bytes) rs = on_cell i (cell_append stream bytes) rs"
| "meet i (Others g) rs = g rs"

definition meet_all :: "string \<Rightarrow> run_event list \<Rightarrow> runs \<Rightarrow> runs" where
  "meet_all i es rs = fold (meet i) es rs"

section \<open>The polls\<close>

definition COUNT_EVERY :: nat where "COUNT_EVERY = 5"

datatype wait_result = StillRunning | ExitedWith int | WaitFailed string

record poll =
  po_events :: "run_event list"
  po_parents :: "(nat \<times> nat) list"
  po_now :: instant
  po_wait :: wait_result

text \<open>
  One turn of the loop: \<open>None\<close> to sleep and poll again. The counter wraps at 32 bits. The
  processes are counted before the stop and the clock are looked at.
\<close>

definition poll_turn ::
  "run_plan \<Rightarrow> sandbox \<Rightarrow> nat \<Rightarrow> instant \<Rightarrow> nat \<Rightarrow> poll \<Rightarrow> runs \<Rightarrow> run_state option \<times> runs" where
  "poll_turn p sb root deadline polls po rs =
     (if polls mod COUNT_EVERY = 0
         \<and> too_many_processes root (po_parents po) (rl_processes (pl_limits p)) sb
      then (Some Stopped, on_cell (pl_id p) (\<lambda>c. c\<lparr>c_limit := Some ''processes''\<rparr>) rs)
      else if stop_asked (pl_id p) rs then (Some Stopped, rs)
      else if deadline \<le> po_now po then (Some TimedOut, rs)
      else (case po_wait po of
          ExitedWith n \<Rightarrow> (Some (Exited n), rs)
        | StillRunning \<Rightarrow> (None, rs)
        | WaitFailed e \<Rightarrow> (Some (RunFailed (''the sandbox failed: '' @ e)), rs)))"

fun run_loop ::
  "run_plan \<Rightarrow> sandbox \<Rightarrow> nat \<Rightarrow> instant \<Rightarrow> nat \<Rightarrow> poll list \<Rightarrow> runs \<Rightarrow> (run_state \<times> runs) option" where
  "run_loop p sb root deadline polls [] rs = None"
| "run_loop p sb root deadline polls (po # pos) rs =
     (let n = (polls + 1) mod 4294967296
      in case poll_turn p sb root deadline n po (meet_all (pl_id p) (po_events po) rs) of
           (Some st, rs') \<Rightarrow> Some (st, rs')
         | (None, rs') \<Rightarrow> run_loop p sb root deadline n pos rs')"

section \<open>The whole thread\<close>

datatype mxc_code = BackendUnavailable | UnsupportedContainment | PolicyValidation | OtherMxc

fun refusal :: "mxc_code \<Rightarrow> string \<Rightarrow> string" where
  "refusal BackendUnavailable m = ''commands can't run on this computer: '' @ m"
| "refusal UnsupportedContainment m = ''commands can't run on this computer: '' @ m"
| "refusal PolicyValidation m = ''the sandbox can't hold this folder's rules: '' @ m"
| "refusal OtherMxc m = ''the sandbox couldn't start it: '' @ m"

text \<open>
  What the thread meets: \<open>make_home\<close>, the probes of the sandbox, the start of the container
  (a process or MXC's error), the polls, what happens while it waits for what was still in the
  pipes, whether MXC says the CPU limit ended it, and what others do while it removes the home.
\<close>

record run_world =
  rw_home_failure :: "string option"
  rw_host :: host_system
  rw_spawn :: "(mxc_code \<times> string) + nat"
  rw_started :: instant
  rw_polls :: "poll list"
  rw_drained :: "run_event list"
  rw_cpu_limit :: bool
  rw_leaving :: "runs \<Rightarrow> runs"

text \<open>
  \<open>run\<close>: the request handed to MXC, if it came that far, the state the run ends in, and the
  record then. \<open>None\<close> for the state: the polls given do not end it.
\<close>

definition run_deadline :: "run_world \<Rightarrow> run_plan \<Rightarrow> instant" where
  "run_deadline w p = rw_started w + secs (max (rl_timeout_seconds (pl_limits p)) 1)"

definition run_sandboxed ::
  "run_world \<Rightarrow> run_plan \<Rightarrow> sandbox \<Rightarrow> runs \<Rightarrow> (run_state \<times> runs) option" where
  "run_sandboxed w p sb rs = (case rw_spawn w of
     Inl (k, m) \<Rightarrow> Some (RunFailed (refusal k m), rs)
   | Inr root \<Rightarrow>
       map_option (\<lambda>(st, rs1).
         (let rs2 = meet_all (pl_id p) (rw_drained w) rs1
          in (st, case st of
                Exited _ \<Rightarrow> if rw_cpu_limit w
                  then on_cell (pl_id p) (\<lambda>c. c\<lparr>c_limit := Some ''cpu_time''\<rparr>) rs2 else rs2
              | _ \<Rightarrow> rs2)))
       (run_loop p sb root (run_deadline w p) 0 (rw_polls w) rs))"

definition run_body ::
  "json_lib \<Rightarrow> run_fs \<Rightarrow> path option \<Rightarrow> run_world \<Rightarrow> run_plan \<Rightarrow> runs
     \<Rightarrow> string option \<times> (run_state \<times> runs) option" where
  "run_body lib fs home w p rs = (case rw_home_failure w of
     Some e \<Rightarrow> (None, Some (RunFailed (''couldn't make its home folder: '' @ e), rs))
   | None \<Rightarrow> (case sandbox_for_host (rw_host w) of
       Inl e \<Rightarrow> (None, Some (RunFailed (re_message e), rs))
     | Inr sb \<Rightarrow> (case sandbox_refuses sb p of
         Some e \<Rightarrow> (None, Some (RunFailed (re_message e), rs))
       | None \<Rightarrow> (Some (request_json lib fs home sb p), run_sandboxed w p sb rs))))"

text \<open>The closure \<open>spawn\<close> starts: run, finish the cell, remove the home, retire.\<close>

definition run_thread ::
  "json_lib \<Rightarrow> run_fs \<Rightarrow> path option \<Rightarrow> run_world \<Rightarrow> instant \<Rightarrow> run_plan \<Rightarrow> runs \<Rightarrow> runs option" where
  "run_thread lib fs home w now p rs = map_option (\<lambda>(st, rs').
       retire (pl_id p) (rw_leaving w (on_cell (pl_id p) (cell_finish now st) rs')))
     (snd (run_body lib fs home w p rs))"

section \<open>The search counts the processes below the first\<close>

definition child_rel :: "(nat \<times> nat) list \<Rightarrow> (nat \<times> nat) set" where
  "child_rel parents = {(parent, pid). (pid, parent) \<in> set parents}"

lemma children_of_rel: "set (children_of parents p) = {c. (p, c) \<in> child_rel parents}"
  by (force simp: children_of_def child_rel_def)

text \<open>
  What the search keeps: everything seen is below the root, the count is what was seen beside
  it, and a seen process not in the queue has all its children seen.
\<close>

definition search_inv :: "(nat \<times> nat) list \<Rightarrow> nat \<Rightarrow> nat list \<Rightarrow> nat list \<Rightarrow> nat \<Rightarrow> bool" where
  "search_inv parents root queue seen count \<longleftrightarrow>
     root \<in> set seen \<and> set seen \<subseteq> {p. (root, p) \<in> (child_rel parents)\<^sup>*}
     \<and> count + 1 = card (set seen) \<and> set queue \<subseteq> set seen
     \<and> (\<forall>p c. p \<in> set seen \<longrightarrow> p \<notin> set queue \<longrightarrow> (p, c) \<in> child_rel parents \<longrightarrow> c \<in> set seen)"

lemma search_step:
  assumes inv: "search_inv parents root queue seen count" and q: "queue \<noteq> []"
    and f: "fresh_children (children_of parents (last queue)) seen = (new, seen')"
  shows "search_inv parents root (butlast queue @ new) seen' (count + length new)"
proof -
  from fresh_children_props [OF f] have new: "distinct new"
    "set new = {c. (last queue, c) \<in> child_rel parents} - set seen"
    "set seen' = set seen \<union> {c. (last queue, c) \<in> child_rel parents}"
    by (simp_all add: children_of_rel)
  have queue: "set queue = insert (last queue) (set (butlast queue))"
    using q by (metis append_butlast_last_id list.simps(15) rotate1.simps(2) set_rotate1)
  have "(root, last queue) \<in> (child_rel parents)\<^sup>*"
    using inv queue unfolding search_inv_def by auto
  then have below: "(root, c) \<in> (child_rel parents)\<^sup>*" if "(last queue, c) \<in> child_rel parents" for c
    using that by (rule rtrancl_into_rtrancl)
  have "set seen' = set seen \<union> set new" using new(2,3) by auto
  moreover have "set seen \<inter> set new = {}" using new(2) by auto
  ultimately have "card (set seen') = card (set seen) + length new"
    using distinct_card [OF new(1)] by (simp only: card_Un_disjoint finite_set)
  moreover have "c \<in> set seen'"
    if "p \<in> set seen'" "p \<notin> set (butlast queue @ new)" "(p, c) \<in> child_rel parents" for p c
  proof (cases "p = last queue")
    case True
    with that(3) new(3) show ?thesis by simp
  next
    case False
    have "p \<in> set seen" using that(1,2) new(2,3) by auto
    with False that(2,3) inv queue new(3) show ?thesis unfolding search_inv_def by auto
  qed
  ultimately show ?thesis
    using inv below new(2,3) queue unfolding search_inv_def by auto
qed

lemma descend_counts:
  assumes "search_inv parents root queue seen count"
  shows "descend parents queue seen count + 1 = card {p. (root, p) \<in> (child_rel parents)\<^sup>*}"
  using assms
proof (induction parents queue seen count rule: descend.induct)
  case (1 parents queue seen count)
  show ?case
  proof (cases "queue = []")
    case True
    have "p \<in> set seen" if "(root, p) \<in> (child_rel parents)\<^sup>*" for p
      using that
    proof (induction rule: rtrancl_induct)
      case base
      then show ?case using "1.prems" by (simp add: search_inv_def)
    next
      case (step q r)
      then show ?case using "1.prems" True unfolding search_inv_def by auto
    qed
    then have "set seen = {p. (root, p) \<in> (child_rel parents)\<^sup>*}"
      using "1.prems" unfolding search_inv_def by auto
    with True "1.prems" show ?thesis by (simp add: descend.simps search_inv_def)
  next
    case False
    obtain new seen' where f: "fresh_children (children_of parents (last queue)) seen = (new, seen')"
      by (cases "fresh_children (children_of parents (last queue)) seen")
    from "1.IH" [OF False f [symmetric] search_step [OF "1.prems" False f]] f False
    show ?thesis by (subst descend.simps) simp
  qed
qed

lemma descendants_card:
  "descendants root parents + 1 = card {p. (root, p) \<in> (child_rel parents)\<^sup>*}"
  unfolding descendants_def
  by (rule descend_counts) (auto simp: search_inv_def)

end
