(* ===== verification/RunReads.thy ===== *)
theory RunReads
  imports RunsFacts
begin

text \<open>
  Reading a run's output in pieces, as \<open>run_output\<close> is meant to be used: each call passes the
  \<open>next_offset\<close> of the last one back. \<open>read_on\<close> is such a sequence while the run still prints
  (each element is what it had printed by then, and the most to return); \<open>read_all\<close> reads a run
  that has ended until it says it is done.
\<close>

fun read_on :: "nat \<Rightarrow> (string \<times> nat) list \<Rightarrow> (nat \<times> nat \<times> string) list" where
  "read_on offset [] = []"
| "read_on offset ((hist, most) # rest) =
     (case slice_at hist offset most of (start, bytes) \<Rightarrow>
        (start - min offset start, start, bytes) # read_on (start + length bytes) rest)"

fun growing :: "string \<Rightarrow> (string \<times> nat) list \<Rightarrow> bool" where
  "growing h [] = True"
| "growing h ((hist, most) # rest) = (starts_with hist h \<and> growing hist rest)"

fun read_all :: "nat \<Rightarrow> nat \<Rightarrow> nat \<Rightarrow> cell \<Rightarrow> string option" where
  "read_all 0 offset most c = None"
| "read_all (Suc fuel) offset most c =
     (let r = cell_output offset most c
      in if ro_done r then Some (ro_text r)
         else map_option ((@) (ro_text r)) (read_all fuel (ro_next_offset r) most c))"

section \<open>Nothing is lost unsaid and nothing comes twice\<close>

lemma slice_at_start:
  assumes "slice_at hist offset most = (start, bytes)" and "offset \<le> length hist"
  shows "offset \<le> start" and "start = max offset (length hist - RUN_WINDOW)"
  using assms by (auto simp: slice_at_def Let_def clamp_def split: if_splits)

text \<open>The last thing a growing sequence of histories gets to.\<close>

definition last_of :: "string \<Rightarrow> (string \<times> nat) list \<Rightarrow> string" where
  "last_of h rs = (if rs = [] then h else fst (last rs))"

lemma growing_last: "growing h rs \<Longrightarrow> starts_with (last_of h rs) h"
proof (induction h rs rule: growing.induct)
  case (2 h hist most rest)
  then have "starts_with (last_of hist rest) hist" "starts_with hist h" by auto
  then have "starts_with (last_of hist rest) h" using starts_with_trans by blast
  then show ?case by (cases rest) (simp_all add: last_of_def)
qed (simp add: last_of_def)

text \<open>The pieces are slices of what the run printed, one after the other, up to the gaps told.\<close>

fun pieces_of :: "string \<Rightarrow> nat \<Rightarrow> (nat \<times> nat \<times> string) list \<Rightarrow> bool" where
  "pieces_of hist offset [] = True"
| "pieces_of hist offset ((skipped, start, bytes) # rest) =
     (start = offset + skipped \<and> bytes = take (length bytes) (drop start hist)
      \<and> start + length bytes \<le> length hist \<and> pieces_of hist (start + length bytes) rest)"

lemma slice_prefix:
  assumes "bytes = take (length bytes) (drop start hist)" and "start + length bytes \<le> length hist"
    and "starts_with big hist"
  shows "bytes = take (length bytes) (drop start big) \<and> start + length bytes \<le> length big"
proof -
  obtain t where big: "big = hist @ t" using assms(3) by (auto simp: starts_with_iff)
  have "take (length bytes) (drop start big) = take (length bytes) (drop start hist)"
    using assms(2) by (simp add: big)
  with assms(1,2) show ?thesis by (simp add: big)
qed

lemma read_on_pieces:
  assumes "growing h rs" and "offset \<le> length h"
  shows "pieces_of (last_of h rs) offset (read_on offset rs)"
  using assms
proof (induction offset rs arbitrary: h rule: read_on.induct)
  case (2 offset hist most rest)
  obtain start bytes where s: "slice_at hist offset most = (start, bytes)"
    by (cases "slice_at hist offset most")
  have grow: "growing hist rest" "starts_with hist h" using 2(2) by auto
  then have off: "offset \<le> length hist"
    using 2(3) by (auto simp: starts_with_iff)
  note drop = slice_at_drop [OF s]
  have last: "last_of h ((hist, most) # rest) = last_of hist rest"
    by (cases rest) (simp_all add: last_of_def)
  from 2(1) [OF s [symmetric] grow(1)] drop(3)
  have "pieces_of (last_of hist rest) (start + length bytes) (read_on (start + length bytes) rest)"
    by simp
  with slice_prefix [OF drop(1,3) growing_last [OF grow(1)]] slice_at_start(1) [OF s off]
  show ?case by (simp add: s last)
qed simp

section \<open>A run that has ended is read whole\<close>

lemma utf8_prefix_whole:
  assumes "utf8_valid s" and "4 \<le> n" and "s \<noteq> []"
  defines "t \<equiv> take n s"
  shows "0 < utf8_prefix t \<and> utf8_valid (take (utf8_prefix t) t)
    \<and> utf8_prefix t \<le> length t \<and> utf8_valid (drop (utf8_prefix t) s)"
proof -
  have "0 < utf8_prefix t \<and> utf8_valid (take (utf8_prefix t) t)"
  proof (cases "utf8_error t")
    case None
    then have "utf8_prefix t = length t" by (simp add: utf8_prefix_def)
    with None assms(2,3) show ?thesis by (simp add: utf8_error_None) (simp add: t_def)
  next
    case (Some e)
    have "length s \<le> n \<Longrightarrow> utf8_error t = None"
      using assms(1) by (simp add: t_def utf8_error_None)
    with Some utf8_error_prefix [OF assms(1), of n] obtain v where
      v: "utf8_error t = Some (v, None)" "n < v + 4"
      by (auto simp: t_def)
    from utf8_error_valid_up_to [OF v(1)] v assms(2) show ?thesis
      by (simp add: utf8_prefix_def)
  qed
  moreover have le: "utf8_prefix t \<le> length t" by (rule utf8_prefix_le)
  moreover have "take (utf8_prefix t) t = take (utf8_prefix t) s"
    using le by (simp add: t_def min_absorb1)
  ultimately show ?thesis
    using assms(1) utf8_valid_append [of "take (utf8_prefix t) s" "drop (utf8_prefix t) s"] by simp
qed

lemma read_all_rest:
  assumes h: "shows_history h c" and ended: "c_state c \<noteq> Running"
    and short: "length (both h) \<le> RUN_WINDOW" and most: "4 \<le> most"
    and valid: "utf8_valid (drop offset (both h))" and off: "offset \<le> length (both h)"
    and fuel: "length (both h) - offset < fuel"
  shows "read_all fuel offset most c = Some (drop offset (both h))"
  using valid off fuel
proof (induction fuel arbitrary: offset)
  case (Suc fuel)
  define rest where "rest = drop offset (both h)"
  define n where "n = min most MAX_OUTPUT_CHUNK"
  have n: "4 \<le> n" using most by (simp add: n_def MAX_OUTPUT_CHUNK_def)
  define k where "k = utf8_prefix (take n rest)"
  have slice: "slice_at (both h) offset most = (offset, take k rest)"
  proof (cases "rest = []")
    case True
    then show ?thesis using Suc.prems(2) short
      by (simp add: slice_at_def Let_def rest_def clamp_def)
  next
    case False
    from utf8_prefix_whole [OF Suc.prems(1) [folded rest_def] n False]
    have "0 < k" "k \<le> length (take n rest)" by (simp_all add: k_def)
    moreover from this have "take k (take n rest) = take k rest" by (simp add: min_absorb1)
    ultimately show ?thesis using Suc.prems(2) short
      by (simp add: slice_at_def Let_def rest_def k_def n_def clamp_def)
  qed
  have parts: "utf8_valid (take k rest) \<and> utf8_valid (drop k rest) \<and> k \<le> length rest
      \<and> (rest \<noteq> [] \<longrightarrow> 0 < k)"
  proof (cases "rest = []")
    case True
    then show ?thesis by (simp add: k_def utf8_prefix_def)
  next
    case False
    from utf8_prefix_whole [OF Suc.prems(1) [folded rest_def] n False] show ?thesis
      by (auto simp: k_def min_def split: if_splits)
  qed
  have len: "length rest = length (both h) - offset" by (simp add: rest_def)
  show ?case
  proof (cases "length (both h) \<le> offset + k")
    case True
    then have "take k rest = rest" using len by simp
    with True parts slice ended show ?thesis
      by (simp add: cell_output_slice [OF h] Let_def rest_def)
  next
    case False
    then have more: "rest \<noteq> []" using len by auto
    have "drop (offset + k) (both h) = drop k rest" by (simp add: rest_def add.commute)
    moreover from this have "read_all fuel (offset + k) most c = Some (drop (offset + k) (both h))"
      using parts more False Suc.prems(3) len by (intro Suc.IH) auto
    ultimately have "read_all fuel (offset + k) most c = Some (drop k rest)" by simp
    then show ?thesis unfolding rest_def [symmetric] using False slice ended parts len
      by (simp add: cell_output_slice [OF h] Let_def)
  qed
qed simp

end
