(* ===== verification/RunThreadFacts.thy ===== *)
theory RunThreadFacts
  imports RunThread RunReads
begin

text \<open>
  What a run's thread guarantees: it ends by its time limit, it ends in the state the events
  call for, it asks for the network only where the folder and the sandbox allow it, and all it
  does to the shared runs are steps of their state machine.
\<close>

section \<open>How the loop ends\<close>

lemma meet_all_append: "meet_all i (es @ fs) rs = meet_all i fs (meet_all i es rs)"
  by (simp add: meet_all_def)

lemma meet_all_simps [simp]:
  "meet_all i [] rs = rs" "meet_all i (e # es) rs = meet_all i es (meet i e rs)"
  by (simp_all add: meet_all_def)

text \<open>The record when a poll looks at it, and what each poll finds there.\<close>

definition record_at :: "string \<Rightarrow> poll list \<Rightarrow> runs \<Rightarrow> nat \<Rightarrow> runs" where
  "record_at i pos rs k = meet_all i (concat (map po_events (take (Suc k) pos))) rs"

lemma record_at_simps [simp]:
  "record_at i (po # pos) rs 0 = meet_all i (po_events po) rs"
  "record_at i (po # pos) rs (Suc k) = record_at i pos (meet_all i (po_events po) rs) k"
  by (simp_all add: record_at_def meet_all_append)

text \<open>The loop ends at the first poll that finds a reason to.\<close>

lemma poll_turn_None: "poll_turn p sb root deadline n po rs = (None, rs') \<Longrightarrow> rs' = rs"
  by (auto simp: poll_turn_def split: if_splits wait_result.splits)

lemma run_loop_first:
  assumes "run_loop p sb root deadline polls pos rs = Some (st, rs')"
  shows "\<exists>k < length pos.
      poll_turn p sb root deadline ((polls + Suc k) mod 4294967296) (pos ! k) (record_at (pl_id p) pos rs k)
        = (Some st, rs')
    \<and> (\<forall>j < k. fst (poll_turn p sb root deadline ((polls + Suc j) mod 4294967296) (pos ! j)
        (record_at (pl_id p) pos rs j)) = None)"
  using assms
proof (induction pos arbitrary: polls rs)
  case (Cons po pos)
  let ?n = "(polls + 1) mod 4294967296" and ?rs = "meet_all (pl_id p) (po_events po) rs"
  obtain r e where t: "poll_turn p sb root deadline ?n po ?rs = (r, e)"
    by (cases "poll_turn p sb root deadline ?n po ?rs")
  show ?case
  proof (cases r)
    case None
    with t have "e = ?rs" by (simp add: poll_turn_None)
    with None t Cons.prems have "run_loop p sb root deadline ?n pos ?rs = Some (st, rs')"
      by (simp add: Let_def)
    from Cons.IH [OF this] obtain k where k: "k < length pos"
      "poll_turn p sb root deadline ((?n + Suc k) mod 4294967296) (pos ! k) (record_at (pl_id p) pos ?rs k) = (Some st, rs')"
      "\<forall>j < k. fst (poll_turn p sb root deadline ((?n + Suc j) mod 4294967296) (pos ! j) (record_at (pl_id p) pos ?rs j)) = None"
      by blast
    have count: "(?n + Suc j) mod 4294967296 = (polls + Suc (Suc j)) mod 4294967296" for j
      using mod_add_left_eq [of "polls + 1" 4294967296 "Suc j"] by simp
    have "fst (poll_turn p sb root deadline ((polls + Suc j) mod 4294967296) ((po # pos) ! j)
        (record_at (pl_id p) (po # pos) rs j)) = None" if "j < Suc k" for j
      using that k(3) None t count by (cases j) auto
    with k(1,2) count show ?thesis by (intro exI [of _ "Suc k"]) simp
  next
    case (Some s)
    with t Cons.prems show ?thesis by (intro exI [of _ 0]) (simp add: Let_def)
  qed
qed simp

lemma run_loop_ends:
  "list_ex (\<lambda>po. deadline \<le> po_now po) pos \<Longrightarrow> run_loop p sb root deadline polls pos rs \<noteq> None"
proof (induction pos arbitrary: polls rs)
  case (Cons po pos)
  obtain r d where t: "poll_turn p sb root deadline ((polls + 1) mod 4294967296) po
      (meet_all (pl_id p) (po_events po) rs) = (r, d)"
    by (cases "poll_turn p sb root deadline ((polls + 1) mod 4294967296) po (meet_all (pl_id p) (po_events po) rs)")
  show ?case
  proof (cases r)
    case None
    then have "po_now po < deadline" using t
      by (auto simp: poll_turn_def not_le split: if_splits wait_result.splits)
    with Cons None t show ?thesis by (simp add: Let_def)
  qed (use t in \<open>auto simp: Let_def\<close>)
qed simp

section \<open>What the sandbox is asked for\<close>

lemma run_body_request:
  assumes "fst (run_body lib fs home w p c) = Some r"
  obtains sb where "sandbox_for_host (rw_host w) = Inr sb" "r = request_json lib fs home sb p"
    "\<not> (sb = Landlock \<and> pl_network p)"
  using assms by (auto simp: run_body_def sandbox_refuses_def split: option.splits sum.splits if_splits)

lemma run_document_network:
  "get (run_document fs home sb p) ''network'' = Some (jobject [(''egress'', jobject [
      (''default'', JStr (if pl_network p then ''allow'' else ''deny''))])])"
  unfolding run_document_def Let_def by (simp add: jobject_def)

lemma run_document_filesystem:
  "get (run_document fs home sb p) ''filesystem'' = Some (jobject [
     (''readwritePaths'', JArr (map JStr [display_path (pl_folder p), display_path (pl_home p)])),
     (''readonlyPaths'', JArr (map JStr (readonly_paths fs home sb p))),
     (''deniedPaths'', JArr (map JStr (denied_paths fs p)))])"
  unfolding run_document_def Let_def by (simp add: jobject_def)

section \<open>The thread's effects are steps\<close>

lemma update_update: "AList.update k v (AList.update k w xs) = AList.update k v xs"
  by (induction xs) auto

lemma put_cell_put [simp]: "put_cell i d (put_cell i c rs) = put_cell i d rs"
  by (simp add: put_cell_def update_update)

lemma rn_finished_put_cell [simp]: "rn_finished (put_cell i c rs) = rn_finished rs"
  by (simp add: put_cell_def)

lemma map_of_put_cell [simp]: "map_of (rn_cells (put_cell i c rs)) i = Some c"
  by (simp add: put_cell_def update_conv')

lemma put_cell_same: "map_of (rn_cells rs) i = Some c \<Longrightarrow> put_cell i c rs = rs"
proof -
  have "map_of xs i = Some c \<Longrightarrow> AList.update i c xs = xs" for xs
    by (induction xs) (auto split: if_splits)
  then show "map_of (rn_cells rs) i = Some c \<Longrightarrow> put_cell i c rs = rs" by (simp add: put_cell_def)
qed

text \<open>
  What others may do to the record while a run is under way: any steps, but for this run's own
  output and end, which are its thread's. A stop may be asked of it.
\<close>

definition by_others :: "string \<Rightarrow> (runs \<Rightarrow> runs) \<Rightarrow> bool" where
  "by_others i g \<longleftrightarrow> (\<forall>h rs c. run_reach h rs \<and> map_of (rn_cells rs) i = Some c \<and> i \<notin> set (rn_finished rs) \<longrightarrow>
     (\<exists>h' b. run_step\<^sup>*\<^sup>* (h, rs) (h', g rs) \<and> h' i = h i
        \<and> map_of (rn_cells (g rs)) i = Some (c\<lparr>c_stop := b\<rparr>) \<and> i \<notin> set (rn_finished (g rs))))"

definition event_ok :: "string \<Rightarrow> run_event \<Rightarrow> bool" where
  "event_ok i e \<longleftrightarrow> (case e of Printed _ _ \<Rightarrow> True | Others g \<Rightarrow> by_others i g)"

lemma by_othersE:
  assumes "by_others i g" and "run_reach h rs" and "map_of (rn_cells rs) i = Some c"
    and "i \<notin> set (rn_finished rs)"
  obtains h' b where "run_step\<^sup>*\<^sup>* (h, rs) (h', g rs)" "h' i = h i"
    "map_of (rn_cells (g rs)) i = Some (c\<lparr>c_stop := b\<rparr>)" "i \<notin> set (rn_finished (g rs))"
  using assms unfolding by_others_def by blast

fun printed_in :: "run_event list \<Rightarrow> run_history" where
  "printed_in [] = []"
| "printed_in (Printed stream bytes # es) = (stream, bytes) # printed_in es"
| "printed_in (Others g # es) = printed_in es"

lemma printed_in_append: "printed_in (es @ fs) = printed_in es @ printed_in fs"
  by (induction es rule: printed_in.induct) simp_all

text \<open>The run is under way.\<close>

definition live :: "string \<Rightarrow> runs \<Rightarrow> bool" where
  "live i rs \<longleftrightarrow> (\<exists>c. map_of (rn_cells rs) i = Some c \<and> c_state c = Running)"

lemma live_unfinished: "run_reach h rs \<Longrightarrow> live i rs \<Longrightarrow> i \<notin> set (rn_finished rs)"
  using run_reach_inv [of h rs] unfolding runs_inv_def live_def by fastforce

lemma reach_steps: "run_reach h rs \<Longrightarrow> run_step\<^sup>*\<^sup>* (h, rs) (h', rs') \<Longrightarrow> run_reach h' rs'"
  unfolding run_reach_def by (rule rtranclp_trans)

lemma on_cell_live:
  "live i rs \<Longrightarrow> (\<And>c. c_state c = Running \<Longrightarrow> c_state (f c) = Running) \<Longrightarrow> live i (on_cell i f rs)"
  by (auto simp: live_def on_cell_def)

lemma meet_steps:
  assumes "run_reach h rs" and "live i rs" and "event_ok i e"
  shows "\<exists>h'. run_step\<^sup>*\<^sup>* (h, rs) (h', meet i e rs) \<and> h' i = h i @ printed_in [e] \<and> live i (meet i e rs)"
proof -
  obtain c where c: "map_of (rn_cells rs) i = Some c" "c_state c = Running"
    using assms(2) by (auto simp: live_def)
  show ?thesis
  proof (cases e)
    case (Printed stream bytes)
    have on: "on_cell i (cell_append stream bytes) rs = put_cell i (cell_append stream bytes c) rs"
      using c by (simp add: on_cell_def)
    have "live i (put_cell i (cell_append stream bytes c) rs)" using c(2) by (simp add: live_def)
    with printed [OF c, of h stream bytes] Printed show ?thesis
      by (intro exI [of _ "h(i := h i @ [(stream, bytes)])"]) (auto simp: on)
  next
    case (Others g)
    then have "by_others i g" using assms(3) by (simp add: event_ok_def)
    from by_othersE [OF this assms(1) c(1) live_unfinished [OF assms(1,2)]] obtain h' b where
      "run_step\<^sup>*\<^sup>* (h, rs) (h', g rs)" "h' i = h i" "map_of (rn_cells (g rs)) i = Some (c\<lparr>c_stop := b\<rparr>)"
      by blast
    with Others c(2) show ?thesis by (auto simp: live_def)
  qed
qed

lemma meet_all_steps:
  assumes "run_reach h rs" and "live i rs" and "list_all (event_ok i) es"
  shows "\<exists>h'. run_step\<^sup>*\<^sup>* (h, rs) (h', meet_all i es rs) \<and> h' i = h i @ printed_in es
    \<and> live i (meet_all i es rs)"
  using assms
proof (induction es arbitrary: h rs)
  case Nil
  then show ?case by auto
next
  case (Cons e es)
  then obtain h1 where h1: "run_step\<^sup>*\<^sup>* (h, rs) (h1, meet i e rs)" "h1 i = h i @ printed_in [e]"
    "live i (meet i e rs)" using meet_steps [of h rs i e] by auto
  from Cons.IH [OF reach_steps [OF Cons.prems(1) h1(1)] h1(3)] Cons.prems(3) obtain h2 where
    "run_step\<^sup>*\<^sup>* (h1, meet i e rs) (h2, meet_all i es (meet i e rs))" "h2 i = h1 i @ printed_in es"
    "live i (meet_all i es (meet i e rs))" by auto
  with h1 show ?case using printed_in_append [of "[e]" es]
    by (intro exI [of _ h2]) (auto intro: rtranclp_trans)
qed

lemma limit_step:
  assumes "live i rs"
  shows "run_step (h, rs) (h, on_cell i (\<lambda>c. c\<lparr>c_limit := Some l\<rparr>) rs) \<and> live i (on_cell i (\<lambda>c. c\<lparr>c_limit := Some l\<rparr>) rs)"
proof -
  obtain c where c: "map_of (rn_cells rs) i = Some c" "c_state c = Running"
    using assms by (auto simp: live_def)
  from limited [OF c, of h l] c assms show ?thesis by (simp add: on_cell_def live_def)
qed

lemma poll_turn_steps:
  assumes "live (pl_id p) rs" and "poll_turn p sb root deadline n po rs = (r, rs')"
  shows "run_step\<^sup>*\<^sup>* (h, rs) (h, rs') \<and> live (pl_id p) rs' \<and> r \<noteq> Some Running"
proof -
  have "rs' = rs \<or> rs' = on_cell (pl_id p) (\<lambda>c. c\<lparr>c_limit := Some ''processes''\<rparr>) rs"
    and "r \<noteq> Some Running"
    using assms(2) by (auto simp: poll_turn_def split: if_splits wait_result.splits)
  with limit_step [OF assms(1), of h "''processes''"] assms(1) show ?thesis by auto
qed

abbreviation polls_ok :: "string \<Rightarrow> poll list \<Rightarrow> bool" where
  "polls_ok i pos \<equiv> list_all (\<lambda>po. list_all (event_ok i) (po_events po)) pos"

lemma run_loop_steps:
  assumes "run_reach h rs" and "live (pl_id p) rs" and "polls_ok (pl_id p) pos"
    and "run_loop p sb root deadline polls pos rs = Some (st, rs')"
  shows "\<exists>h' n. run_step\<^sup>*\<^sup>* (h, rs) (h', rs') \<and> live (pl_id p) rs' \<and> st \<noteq> Running
    \<and> h' (pl_id p) = h (pl_id p) @ printed_in (concat (map po_events (take n pos)))"
  using assms
proof (induction pos arbitrary: polls rs h)
  case (Cons po pos)
  let ?n = "(polls + 1) mod 4294967296" and ?rs = "meet_all (pl_id p) (po_events po) rs"
  obtain h1 where h1: "run_step\<^sup>*\<^sup>* (h, rs) (h1, ?rs)" "live (pl_id p) ?rs"
    "h1 (pl_id p) = h (pl_id p) @ printed_in (po_events po)"
    using meet_all_steps [OF Cons.prems(1,2), of "po_events po"] Cons.prems(3) by auto
  obtain r e where t: "poll_turn p sb root deadline ?n po ?rs = (r, e)"
    by (cases "poll_turn p sb root deadline ?n po ?rs")
  from poll_turn_steps [OF h1(2) t, of h1] have
    s: "run_step\<^sup>*\<^sup>* (h1, ?rs) (h1, e)" "live (pl_id p) e" "r \<noteq> Some Running" by blast+
  have to_e: "run_step\<^sup>*\<^sup>* (h, rs) (h1, e)" using h1(1) s(1) by (rule rtranclp_trans)
  show ?case
  proof (cases r)
    case None
    then have "run_loop p sb root deadline ?n pos e = Some (st, rs')"
      using Cons.prems(4) t by (simp add: Let_def)
    from Cons.IH [OF reach_steps [OF Cons.prems(1) to_e] s(2) _ this] Cons.prems(3) obtain h' n where
      "run_step\<^sup>*\<^sup>* (h1, e) (h', rs')" "live (pl_id p) rs'" "st \<noteq> Running"
      "h' (pl_id p) = h1 (pl_id p) @ printed_in (concat (map po_events (take n pos)))" by auto
    with to_e h1(3) show ?thesis
      by (intro exI [of _ h'] exI [of _ "Suc n"]) (auto simp: printed_in_append intro: rtranclp_trans)
  next
    case (Some s')
    then have "e = rs'" "s' = st" using Cons.prems(4) t by (simp_all add: Let_def)
    with Some s to_e h1(3) show ?thesis
      by (intro exI [of _ h1] exI [of _ "Suc 0"]) simp
  qed
qed simp

text \<open>What the run prints: nothing, or what its readers read up to some poll and while it drains.\<close>

definition run_prints :: "run_world \<Rightarrow> run_history \<Rightarrow> bool" where
  "run_prints w ps \<longleftrightarrow> ps = []
     \<or> (\<exists>n. ps = printed_in (concat (map po_events (take n (rw_polls w))) @ rw_drained w))"

definition world_ok :: "string \<Rightarrow> run_world \<Rightarrow> bool" where
  "world_ok i w \<longleftrightarrow> polls_ok i (rw_polls w) \<and> list_all (event_ok i) (rw_drained w) \<and> by_others i (rw_leaving w)"

lemma run_sandboxed_steps:
  assumes "run_reach h rs" and "live (pl_id p) rs" and "world_ok (pl_id p) w"
    and "run_sandboxed w p sb rs = Some (st, rs')"
  shows "\<exists>h' ps. run_step\<^sup>*\<^sup>* (h, rs) (h', rs') \<and> live (pl_id p) rs' \<and> st \<noteq> Running
    \<and> h' (pl_id p) = h (pl_id p) @ ps \<and> run_prints w ps"
proof (cases "rw_spawn w")
  case (Inl e)
  with assms show ?thesis by (cases e) (auto simp: run_sandboxed_def run_prints_def)
next
  case (Inr root)
  let ?i = "pl_id p"
  obtain st1 rs1 where loop1: "run_loop p sb root (run_deadline w p) 0 (rw_polls w) rs = Some (st1, rs1)"
    and end1: "(st, rs') = (let rs2 = meet_all ?i (rw_drained w) rs1
          in (st1, case st1 of
                Exited _ \<Rightarrow> if rw_cpu_limit w
                  then on_cell ?i (\<lambda>c. c\<lparr>c_limit := Some ''cpu_time''\<rparr>) rs2 else rs2
              | _ \<Rightarrow> rs2))"
    using assms(4) Inr by (auto simp: run_sandboxed_def)
  then have loop: "run_loop p sb root (run_deadline w p) 0 (rw_polls w) rs = Some (st, rs1)"
    by (simp add: Let_def)
  have rs': "rs' = meet_all ?i (rw_drained w) rs1
      \<or> rs' = on_cell ?i (\<lambda>c. c\<lparr>c_limit := Some ''cpu_time''\<rparr>) (meet_all ?i (rw_drained w) rs1)"
    using end1 by (cases st1) (auto simp: Let_def split: if_splits)
  have polls: "polls_ok ?i (rw_polls w)" and drained: "list_all (event_ok ?i) (rw_drained w)"
    using assms(3) by (simp_all add: world_ok_def)
  from run_loop_steps [OF assms(1,2) polls loop] obtain h1 n where h1:
    "run_step\<^sup>*\<^sup>* (h, rs) (h1, rs1)" "live ?i rs1" "st \<noteq> Running"
    "h1 ?i = h ?i @ printed_in (concat (map po_events (take n (rw_polls w))))" by blast
  from meet_all_steps [OF reach_steps [OF assms(1) h1(1)] h1(2) drained] obtain h2 where h2:
    "run_step\<^sup>*\<^sup>* (h1, rs1) (h2, meet_all ?i (rw_drained w) rs1)" "live ?i (meet_all ?i (rw_drained w) rs1)"
    "h2 ?i = h1 ?i @ printed_in (rw_drained w)" by blast
  have "run_step\<^sup>*\<^sup>* (h1, rs1) (h2, rs') \<and> live ?i rs'"
    using rs' h2 limit_step [OF h2(2), of h2 "''cpu_time''"] by (auto intro: rtranclp.rtrancl_into_rtrancl)
  with h1 h2(3) show ?thesis
    by (intro exI [of _ h2] exI [of _ "printed_in (concat (map po_events (take n (rw_polls w))) @ rw_drained w)"])
      (auto simp: run_prints_def printed_in_append intro: rtranclp_trans)
qed

lemma run_body_steps:
  assumes "run_reach h rs" and "live (pl_id p) rs" and "world_ok (pl_id p) w"
    and "snd (run_body lib fs home w p rs) = Some (st, rs')"
  shows "\<exists>h' ps. run_step\<^sup>*\<^sup>* (h, rs) (h', rs') \<and> live (pl_id p) rs' \<and> st \<noteq> Running
    \<and> h' (pl_id p) = h (pl_id p) @ ps \<and> run_prints w ps"
proof (cases "\<exists>sb. run_sandboxed w p sb rs = Some (st, rs')")
  case True
  with run_sandboxed_steps [OF assms(1-3)] show ?thesis by blast
next
  case False
  then have "rs' = rs \<and> st \<noteq> Running"
    using assms(4) by (auto simp: run_body_def split: option.splits sum.splits)
  with assms(2) show ?thesis by (auto simp: run_prints_def)
qed

lemma retire_last:
  assumes "i \<notin> set (rn_finished rs)" and "runs_inv (h, rs)"
  shows "rn_finished (retire i rs) \<noteq> [] \<and> last (rn_finished (retire i rs)) = i
    \<and> map_of (rn_cells (retire i rs)) i = map_of (rn_cells rs) i"
proof -
  from retire_queue [OF assms(2,1)] obtain old where
    q: "queue_step (rn_finished rs) (rn_finished (retire i rs)) old"
    and cells: "rn_cells (retire i rs) = filter (\<lambda>(j, c). j \<notin> set old) (rn_cells rs)" by blast
  from assms(2) have "distinct (rn_finished rs)" by (simp add: runs_inv_def)
  from retire_forgets [OF assms(1) this] obtain old' where
    fin: "rn_finished rs @ [i] = old' @ rn_finished (retire i rs)" by blast
  have "length old \<le> 1" using q by (auto simp: queue_step_def)
  have ne: "rn_finished (retire i rs) \<noteq> []"
  proof
    assume e: "rn_finished (retire i rs) = []"
    with q have "length (rn_finished rs) \<le> length old" "old = []"
      by (auto simp: queue_step_def FINISHED_KEPT_def dest: arg_cong [where f = length])
    then have "rn_finished rs = []" by simp
    then show False using e by (simp add: retire_def FINISHED_KEPT_def)
  qed
  then have "last (rn_finished (retire i rs)) = i" using fin by (metis last_appendR last_snoc)
  moreover have "i \<notin> set old"
  proof
    assume "i \<in> set old"
    with q \<open>length old \<le> 1\<close> have "old = [i]" by (cases old) auto
    with q obtain new where new: "rn_finished rs @ new = i # rn_finished (retire i rs)" "length new \<le> 1"
      and len: "length (rn_finished (retire i rs)) = FINISHED_KEPT"
      by (auto simp: queue_step_def)
    then have "rn_finished rs \<noteq> []" by (auto simp: FINISHED_KEPT_def dest: arg_cong [where f = length])
    with new(1) have "i \<in> set (rn_finished rs)" by (cases "rn_finished rs") auto
    with assms(1) show False ..
  qed
  ultimately show ?thesis using ne by (simp add: cells map_of_filter_keys)
qed

lemma run_thread_steps:
  assumes "run_reach h rs" and "live (pl_id p) rs" and "world_ok (pl_id p) w"
    and "run_thread lib fs home w now p rs = Some rs'"
  shows "\<exists>h' ps d. run_step\<^sup>*\<^sup>* (h, rs) (h', rs') \<and> h' (pl_id p) = h (pl_id p) @ ps \<and> run_prints w ps
    \<and> map_of (rn_cells rs') (pl_id p) = Some d \<and> c_ended d = Some now
    \<and> snd (run_body lib fs home w p rs) \<noteq> None
    \<and> c_state d = fst (the (snd (run_body lib fs home w p rs))) \<and> c_state d \<noteq> Running
    \<and> rn_finished rs' \<noteq> [] \<and> last (rn_finished rs') = pl_id p"
proof -
  let ?i = "pl_id p"
  from assms(4) obtain st rs1 where body: "snd (run_body lib fs home w p rs) = Some (st, rs1)"
    and rs': "rs' = retire ?i (rw_leaving w (on_cell ?i (cell_finish now st) rs1))"
    by (auto simp: run_thread_def)
  from run_body_steps [OF assms(1-3) body] obtain h1 ps where h1:
    "run_step\<^sup>*\<^sup>* (h, rs) (h1, rs1)" "live ?i rs1" "st \<noteq> Running" "h1 ?i = h ?i @ ps" "run_prints w ps"
    by blast
  then obtain c where c: "map_of (rn_cells rs1) ?i = Some c" "c_state c = Running"
    by (auto simp: live_def)
  define rs2 where "rs2 = put_cell ?i (cell_finish now st c) rs1"
  have on: "on_cell ?i (cell_finish now st) rs1 = rs2" using c by (simp add: on_cell_def rs2_def)
  have step2: "run_step (h1, rs1) (h1, rs2)" unfolding rs2_def by (rule ended [OF c h1(3)])
  have r1: "run_reach h1 rs1" using reach_steps [OF assms(1) h1(1)] .
  have r2: "run_reach h1 rs2" using reach_steps [OF r1] step2 by blast
  have c2: "map_of (rn_cells rs2) ?i = Some (cell_finish now st c)" by (simp add: rs2_def)
  have "?i \<notin> set (rn_finished rs2)" using live_unfinished [OF r1 h1(2)] by (simp add: rs2_def)
  moreover have "by_others ?i (rw_leaving w)" using assms(3) by (simp add: world_ok_def)
  ultimately obtain h3 b where h3: "run_step\<^sup>*\<^sup>* (h1, rs2) (h3, rw_leaving w rs2)" "h3 ?i = h1 ?i"
    "map_of (rn_cells (rw_leaving w rs2)) ?i = Some ((cell_finish now st c)\<lparr>c_stop := b\<rparr>)"
    "?i \<notin> set (rn_finished (rw_leaving w rs2))"
    using by_othersE [OF _ r2 c2] by blast
  define rs3 where "rs3 = rw_leaving w rs2"
  have end_state: "c_state ((cell_finish now st c)\<lparr>c_stop := b\<rparr>) = st"
    "c_ended ((cell_finish now st c)\<lparr>c_stop := b\<rparr>) = Some now"
    using c(2) by (simp_all add: cell_finish_def)
  have "run_step (h3, rs3) (h3, retire ?i rs3)"
    using h3(3,4) end_state(1) h1(3) unfolding rs3_def by (intro retired) auto
  moreover have "run_step\<^sup>*\<^sup>* (h, rs) (h3, rs3)"
    using h1(1) step2 h3(1) unfolding rs3_def by (meson rtranclp.rtrancl_into_rtrancl rtranclp_trans)
  ultimately have steps: "run_step\<^sup>*\<^sup>* (h, rs) (h3, rs')" unfolding rs' on rs3_def by (rule rtranclp.rtrancl_into_rtrancl [rotated])
  have "runs_inv (h3, rs3)" using run_reach_inv reach_steps [OF r2 h3(1)] unfolding rs3_def by blast
  from retire_last [OF h3(4) [folded rs3_def] this] h3(2,3) end_state h1(3-5) body steps show ?thesis
    unfolding rs' on rs3_def by (intro exI [of _ h3] exI [of _ ps] exI) auto
qed

end
