(* ===== verification/CommandFacts.thy ===== *)
theory CommandFacts
  imports CommandTools RunThreadFacts
begin

text \<open>
  Lemmas of the command tools: every tool answers, whatever the runner does; what a start was
  checked against; and that every answer of the runs has the type its caller reads.
\<close>

section \<open>The tools always answer\<close>

lemma ask_now [simp]: "tw_now (snd (ask te f c w)) = tw_now w"
  by (auto simp: ask_def split: prod.splits)

lemma ask_now': "ask te f c w = (v, w') \<Longrightarrow> tw_now w' = tw_now w"
  using ask_now [of te f c w] by simp

lemma follow_turn_on:
  assumes "follow_turn te i listening deadline s = Inr s'"
  shows "tw_now (snd s) < deadline \<and> tw_now (snd s) + TOOL_POLL \<le> tw_now (snd s')"
proof -
  obtain offset w where s: "s = (offset, w)" by (cases s)
  obtain v1 w1 where a1: "ask te serde_status (CallStatus i) w = (v1, w1)"
    by (cases "ask te serde_status (CallStatus i) w")
  obtain v2 w2 where a2: "(if listening then ask te serde_output (CallOutput i offset (64 * 1024)) w1
      else (Inr \<lparr>ro_id = i, ro_offset = offset, ro_next_offset = offset, ro_skipped = 0,
                 ro_text = [], ro_done = False\<rparr>, w1)) = (v2, w2)"
    by (cases "if listening then ask te serde_output (CallOutput i offset (64 * 1024)) w1
      else (Inr \<lparr>ro_id = i, ro_offset = offset, ro_next_offset = offset, ro_skipped = 0,
                 ro_text = [], ro_done = False\<rparr>, w1)")
  have now: "tw_now w1 = tw_now w" "tw_now w2 = tw_now w1"
    using ask_now' [OF a1] a2 by (auto split: if_splits dest: ask_now')
  have *: "tw_now (if b then w2\<lparr>tw_reports := x\<rparr> else w2) = tw_now w" for b x
    using now by simp
  from assms show ?thesis unfolding s follow_turn_def prod.case a1 a2
    by (auto simp: Let_def tool_sleep_def * now split: sum.splits if_splits)
qed

interpretation following: polling "follow_turn te i listening deadline" "\<lambda>s. tw_now (snd s)"
    deadline TOOL_POLL
  for te i listening deadline
  by unfold_locales (auto simp: TOOL_POLL_def dest: follow_turn_on)

lemma follow_answers: "follow te i wait listening w \<noteq> None"
proof -
  have "poll_loop (Suc ((tw_now w + wait - tw_now (snd (0 :: nat, w))) div TOOL_POLL + 1))
      (follow_turn te i listening (tw_now w + wait)) (0, w) \<noteq> None"
    by (rule following.ends)
  then show ?thesis by (simp add: follow_def follow_fuel_def)
qed

lemma follow_ex [simp]:
  "\<exists>b a. follow te i wait listening w = Some (a, b)"
  using follow_answers [of te i wait listening w] by auto

lemma tool_run_answers: "tool_run te listening a w \<noteq> None"
  by (auto simp: tool_run_def split: sum.splits prod.splits)

lemma tool_stop_answers: "tool_stop te i w \<noteq> None"
  by (auto simp: tool_stop_def split: sum.splits prod.splits)

lemma command_call_answers: "command_call te name args listening w \<noteq> None"
  using tool_run_answers tool_stop_answers by (auto simp: command_call_def split: sum.splits)

section \<open>What a start was checked against\<close>

lemma runs_start_Inr:
  assumes "runs_start env cfg req rs = (Inr st, rs')"
  obtains p where "start_check env cfg req rs = Inr p" "start_insert env req p rs = (st, rs')"
    "\<not> cfg_paused cfg" "running rs < commands_running (cfg_limits cfg)"
    "run_plan_of (ce_fs env) cfg (ce_runs_dir env) req (new_id (ce_random env)) = Inr p"
  using assms by (auto simp: runs_start_def start_check_def split: sum.splits prod.splits if_splits)

section \<open>Types of the answers\<close>

definition run_codes :: "string set" where
  "run_codes = {''not_allowed'', ''invalid_path'', ''not_found'', ''invalid'', ''busy'',
     ''unavailable'', ''paused''}"

definition cell_in_range :: "cell \<Rightarrow> bool" where
  "cell_in_range c \<longleftrightarrow> c_total c \<le> u64_max \<and> c_out_total c \<le> u64_max \<and> c_err_total c \<le> u64_max
     \<and> (case c_state c of Exited n \<Rightarrow> -2147483648 \<le> n \<and> n \<le> 2147483647 | _ \<Rightarrow> True)"

lemma cell_status_in_range: "cell_in_range c \<Longrightarrow> status_in_range (cell_status now c)"
  by (cases "c_state c") (auto simp: cell_status_def status_in_range_def cell_in_range_def Let_def)

lemma cell_output_in_range:
  assumes "cell_in_range c" and "shows_history h c" and "offset \<le> u64_max"
  shows "serde_output (ser_output (cell_output offset most c)) = Some (cell_output offset most c)"
proof -
  obtain start bytes where s: "slice_at (both h) offset most = (start, bytes)"
    by (cases "slice_at (both h) offset most")
  have "c_total c = length (both h)" using assms(2) by (simp add: shows_history_def)
  with slice_at_drop(2,3) [OF s] assms(1) have "start + length bytes \<le> u64_max" "start \<le> u64_max"
    by (simp_all add: cell_in_range_def)
  then have "serde_output (ser_output (cell_output offset most c)) = Some (cell_output offset most c)"
    by (intro serde_output_ser) (simp_all add: cell_output_slice [OF assms(2)] s)
  then show ?thesis by simp
qed

section \<open>Characters of text made valid\<close>

lemma utf8_chars_REPLACEMENT: "utf8_chars (REPLACEMENT @ s) = 0xFFFD # utf8_chars s"
  by (simp add: utf8_chars_def REPLACEMENT_def Let_def)

text \<open>A well-formed character is one code point.\<close>

lemma utf8_chars_char:
  assumes "utf8_follow (of_char c) = Some rs" and "utf8_match rs s = length rs"
  shows "\<exists>x < 0x110000. utf8_chars (c # take (length rs) s @ t) = x # utf8_chars t"
proof -
  let ?n = "of_char c :: nat"
  have three: "(a * 64 + b) * 64 + e < 0x110000" if "a < 16" "b < 64" "e < 64" for a b e :: nat
    using that by (simp add: distrib_right)
  have four: "((a * 64 + b) * 64 + e) * 64 + f < 0x110000"
    if "a \<le> 3 \<or> a = 4 \<and> b \<le> 15" "b < 64" "e < 64" "f < 64" for a b e f :: nat
    using that by (auto simp: distrib_right)
  consider "?n < 0x80" "rs = []"
    | lo hi where "0xC2 \<le> ?n" "?n < 0xE0" "rs = [(lo, hi)]" "0x80 \<le> lo" "hi < 0xC0"
    | lo hi where "0xE0 \<le> ?n" "?n < 0xF0" "rs = [(lo, hi), (0x80, 0xBF)]" "0x80 \<le> lo" "hi < 0xC0"
    | lo hi where "0xF0 \<le> ?n" "?n < 0xF5" "rs = [(lo, hi), (0x80, 0xBF), (0x80, 0xBF)]"
        "0x80 \<le> lo" "hi < 0xC0" "?n = 0xF4 \<longrightarrow> hi \<le> 0x8F"
    using assms(1) by (auto simp: utf8_follow_def Let_def split: if_splits)
  then show ?thesis
  proof cases
    case 1
    then show ?thesis by (simp add: utf8_chars_def Let_def)
  next
    case 2
    with assms(2) obtain d u where "s = d # u" "lo \<le> of_char d" "of_char d \<le> hi"
      by (cases s) (auto split: if_splits)
    moreover from this 2 have "?n mod 32 * 64 + of_char d mod 64 < (0x110000 :: nat)" by linarith
    ultimately show ?thesis using 2 by (simp add: utf8_chars_def Let_def)
  next
    case 3
    with assms(2) obtain d e u where "s = d # e # u" "lo \<le> of_char d" "of_char d \<le> hi"
      "0x80 \<le> (of_char e :: nat)" "(of_char e :: nat) \<le> 0xBF"
      by (cases s; cases "tl s") (auto split: if_splits)
    moreover have "(?n mod 16 * 64 + of_char d mod 64) * 64 + of_char e mod 64 < (0x110000 :: nat)"
      by (rule three) simp_all
    ultimately show ?thesis using 3 by (simp add: utf8_chars_def Let_def)
  next
    case 4
    with assms(2) obtain d e f u where "s = d # e # f # u" "lo \<le> of_char d" "of_char d \<le> hi"
      "0x80 \<le> (of_char e :: nat)" "(of_char e :: nat) \<le> 0xBF"
      "0x80 \<le> (of_char f :: nat)" "(of_char f :: nat) \<le> 0xBF"
      by (cases s; cases "tl s"; cases "tl (tl s)") (auto split: if_splits)
    moreover have "?n mod 8 \<le> 3 \<or> ?n mod 8 = 4 \<and> (of_char d :: nat) mod 64 \<le> 15"
    proof (cases "?n = 0xF4")
      case True
      then have "128 \<le> (of_char d :: nat)" "(of_char d :: nat) \<le> 143"
        using 4 \<open>lo \<le> of_char d\<close> \<open>of_char d \<le> hi\<close> by auto
      then have "(of_char d :: nat) mod 64 \<le> 15" by presburger
      with True show ?thesis by simp
    next
      case False
      with 4 have "?n = 240 \<or> ?n = 241 \<or> ?n = 242 \<or> ?n = 243" by linarith
      then show ?thesis by auto
    qed
    then have "((?n mod 8 * 64 + of_char d mod 64) * 64 + of_char e mod 64) * 64 + of_char f mod 64
        < (0x110000 :: nat)"
      by (rule four) simp_all
    ultimately show ?thesis using 4 by (simp add: utf8_chars_def Let_def)
  qed
qed

text \<open>Making bytes valid never gives more characters than there were bytes.\<close>

lemma length_lossy_chars: "length (utf8_chars (from_utf8_lossy s)) \<le> length s"
proof (induction s rule: from_utf8_lossy.induct)
  case (2 c s)
  show ?case
  proof (cases "utf8_follow (of_char c)")
    case None
    with 2(1) show ?thesis by (simp add: utf8_chars_REPLACEMENT)
  next
    case (Some rs)
    show ?thesis
    proof (cases "utf8_match rs s = length rs")
      case True
      obtain x where "utf8_chars (c # take (length rs) s @ from_utf8_lossy (drop (length rs) s))
          = x # utf8_chars (from_utf8_lossy (drop (length rs) s))"
        using utf8_chars_char [OF Some True] by blast
      with Some True 2(2) [OF Some True] show ?thesis by simp
    next
      case False
      with Some 2(3) [OF Some False] show ?thesis by (simp add: utf8_chars_REPLACEMENT)
    qed
  qed
qed simp

lemma length_trim_replacement:
  "length (utf8_chars (trim_start [REPLACEMENT] s)) \<le> length (utf8_chars s)"
proof (induction "[REPLACEMENT]" s rule: trim_start.induct)
  case (1 s)
  show ?case
  proof (cases "starts_with s REPLACEMENT")
    case True
    then obtain t where t: "s = REPLACEMENT @ t" by (auto simp: starts_with_iff)
    have "find (\<lambda>w. w \<noteq> [] \<and> starts_with s w) [REPLACEMENT] = Some REPLACEMENT"
      using True by (simp add: REPLACEMENT_def)
    from 1 [OF this] this show ?thesis
      by (subst trim_start.simps) (simp add: t utf8_chars_REPLACEMENT)
  next
    case False
    then show ?thesis by (subst trim_start.simps) simp
  qed
qed

lemma tail_text_cut:
  assumes "length tail \<le> len"
  shows "snd (tail_text tail len chars) \<le> len"
proof -
  have "length (utf8_chars (if length tail < len then trim_start [REPLACEMENT] (from_utf8_lossy tail)
      else from_utf8_lossy tail)) \<le> length tail"
    using length_lossy_chars [of tail] length_trim_replacement [of "from_utf8_lossy tail"] by simp
  with assms show ?thesis by (auto simp: tail_text_def Let_def)
qed

lemma cell_finished_in_range:
  assumes "cell_in_range c" and "shows_history h c"
  shows "serde_finished (ser_finished (cell_finished now chars c)) = Some (cell_finished now chars c)"
proof -
  have "length (c_out c) \<le> c_out_total c" "length (c_err c) \<le> c_err_total c"
    using assms(2) by (simp_all add: shows_history_def)
  with tail_text_cut [of "c_out c" "c_out_total c" chars] tail_text_cut [of "c_err c" "c_err_total c" chars]
    assms(1) have "rf_stdout_cut (cell_finished now chars c) \<le> u64_max"
      "rf_stderr_cut (cell_finished now chars c) \<le> u64_max"
    by (auto simp: cell_finished_def cell_in_range_def split: prod.splits)
  moreover have "rf_status (cell_finished now chars c) = cell_status now c"
    by (simp add: cell_finished_def split: prod.splits)
  ultimately show ?thesis
    using serde_finished_ser cell_status_in_range [OF assms(1)] by simp
qed

lemma serde_summary_cell:
  assumes "cell_in_range c" and "c_started_at c \<le> u64_max"
  shows "serde_summary (ser_summary (cell_summary now c)) = Some (cell_summary now c)"
  using assms cell_status_in_range by (intro serde_summary_ser) (simp_all add: cell_summary_def)

lemma runs_cell_code: "runs_cell i rs = Inl e \<Longrightarrow> re_code e \<in> run_codes"
  by (auto simp: runs_cell_def run_error_def run_codes_def split: option.splits)

lemma run_plan_of_code: "run_plan_of fs cfg d req i = Inl e \<Longrightarrow> re_code e \<in> run_codes"
  by (auto simp: run_plan_of_def check_command_def check_cwd_def Let_def run_error_def run_codes_def
      split: option.splits if_splits sum.splits)

lemma start_check_code: "start_check env cfg req rs = Inl e \<Longrightarrow> re_code e \<in> run_codes"
  using run_plan_of_code
  by (auto simp: start_check_def run_error_def run_codes_def split: if_splits)

lemma answer_code: "fst (answer env c rs) = Inl e \<Longrightarrow> re_code e \<in> run_codes"
proof (cases c)
  case (CallStart req)
  assume "fst (answer env c rs) = Inl e"
  with CallStart show ?thesis
    by (auto simp: load_config_def runs_start_def split: sum.splits option.splits prod.splits
        dest: start_check_code) (simp_all add: run_codes_def run_error_def)
next
  case (CallStop i)
  assume "fst (answer env c rs) = Inl e"
  with CallStop show ?thesis
    by (auto simp: check_id_def runs_stop_def split: sum.splits if_splits dest: runs_cell_code)
      (simp_all add: run_codes_def run_error_def)
next
  case (CallStatus i)
  assume "fst (answer env c rs) = Inl e"
  with CallStatus show ?thesis
    by (cases "runs_cell i rs") (auto simp: check_id_def runs_status_def run_codes_def run_error_def
        split: if_splits dest: runs_cell_code [unfolded run_codes_def])
next
  case (CallOutput i a m)
  assume "fst (answer env c rs) = Inl e"
  with CallOutput show ?thesis
    by (cases "runs_cell i rs") (auto simp: check_id_def runs_output_def run_codes_def run_error_def
        split: if_splits dest: runs_cell_code [unfolded run_codes_def])
next
  case (CallFinished i)
  assume "fst (answer env c rs) = Inl e"
  with CallFinished show ?thesis
    by (cases "runs_cell i rs") (auto simp: check_id_def runs_finished_def run_codes_def run_error_def
        split: if_splits dest: runs_cell_code [unfolded run_codes_def])
qed (auto simp: load_config_def run_error_def run_codes_def split: sum.splits option.splits)

end
