(* ===== verification/CommandClaims.thy ===== *)
theory CommandClaims
  imports CommandFacts
begin

text \<open>
  The properties of the commands run in shared folders, and one small computer on which those
  with hypotheses are instantiated: a folder \<open>app\<close> that allows commands without the network,
  where every path is a folder and every thread starts.
\<close>

definition demo_fs :: run_fs where
  "demo_fs = \<lparr>fs_canonicalize = Some, fs_is_dir = (\<lambda>_. True), fs_exists = (\<lambda>_. False)\<rparr>"

definition demo_root :: root where
  "demo_root = \<lparr>root_id = ''app'', root_label = ''App'', root_path = [''srv'', ''app''],
     follow_symlinks = False, writable = True, commands = True, network = False, bots = []\<rparr>"

definition demo_config :: config where
  "demo_config = \<lparr>cfg_paused = False, roots = [demo_root],
     deny = \<lparr>deny_extra = [], deny_remove = [], allow_hardlinks = False\<rparr>,
     cfg_limits = default_limits\<lparr>commands_running := 1\<rparr>\<rparr>"

definition demo_env :: "nat \<Rightarrow> call_env" where
  "demo_env b = \<lparr>ce_fs = demo_fs, ce_config = Some demo_config, ce_runs_dir = [''runs''],
     ce_random = [b, 0, 0, 0, 0, 0], ce_thread_failure = None, ce_now = 0, ce_epoch = 0,
     ce_timed_out = False\<rparr>"

definition demo_request :: run_request where
  "demo_request = \<lparr>rq_root = ''app'', rq_dir = [], rq_command = ''make''\<rparr>"

definition demo_plan :: "nat \<Rightarrow> run_plan" where
  "demo_plan b = \<lparr>pl_id = new_id [b, 0, 0, 0, 0, 0], pl_command = ''make'',
     pl_folder = [''srv'', ''app''], pl_cwd = [''srv'', ''app''], pl_network = False,
     pl_limits = limits_from_config (cfg_limits demo_config),
     pl_home = [''runs'', new_id [b, 0, 0, 0, 0, 0]]\<rparr>"

lemma demo_trim: "trim_ws ''make'' = ''make''"
  by code_simp

lemma demo_checked: "check_command ''make'' = Inr ''make''"
proof -
  have "utf8_chars ''make'' = [109, 97, 107, 101]" by code_simp
  then show ?thesis by (simp add: check_command_Inr demo_trim MAX_COMMAND_CHARS_def)
qed

lemma demo_cwd: "check_cwd demo_fs f [] = Inr f"
proof -
  have "path_components [] = []" by code_simp
  then show ?thesis
    by (simp add: check_cwd_Inr demo_fs_def join_relative_def map_filter_simps)
qed

lemma demo_planned:
  "run_plan_of demo_fs demo_config [''runs''] demo_request (new_id [b, 0, 0, 0, 0, 0])
     = Inr (demo_plan b)"
proof -
  have "config_root demo_config ''app'' = Some demo_root"
    by (simp add: config_root_def demo_config_def demo_root_def)
  moreover have "runs_commands demo_root" by (simp add: runs_commands_def demo_root_def)
  moreover have "fs_canonicalize demo_fs (root_path demo_root) = Some [''srv'', ''app'']"
    by (simp add: demo_fs_def demo_root_def)
  ultimately show ?thesis
    by (simp add: run_plan_of_def demo_request_def demo_checked demo_cwd demo_plan_def)
      (simp add: demo_root_def)
qed

lemma demo_start_check: "start_check (demo_env b) demo_config demo_request runs_new = Inr (demo_plan b)"
  by (simp add: start_check_def demo_planned demo_env_def running_def runs_new_def)
    (simp add: demo_config_def)

definition demo_cell :: "nat \<Rightarrow> cell" where
  "demo_cell b = cell_new (demo_plan b) ''app'' [] 0 0"

lemma demo_insert:
  "start_insert (demo_env b) demo_request (demo_plan b) rs =
     (cell_status 0 (demo_cell b),
      (put_cell (pl_id (demo_plan b)) (demo_cell b) rs)\<lparr>rn_limits := pl_limits (demo_plan b)\<rparr>)"
  by (simp add: start_insert_def demo_env_def demo_request_def demo_cell_def Let_def)

lemma demo_start:
  "runs_start (demo_env b) demo_config demo_request runs_new =
     (Inr (cell_status 0 (demo_cell b)),
      (put_cell (pl_id (demo_plan b)) (demo_cell b) runs_new)\<lparr>rn_limits := pl_limits (demo_plan b)\<rparr>)"
  by (simp add: runs_start_def demo_start_check demo_insert)

lemma run_document_process:
  "\<exists>v. get (run_document fs home sb p) ''process'' = Some v \<and> get v ''cwd'' = Some (JStr (display_path (pl_cwd p)))
     \<and> get v ''commandLine'' = Some (JStr (pl_command p))"
  unfolding run_document_def Let_def by (simp add: jobject_def)



text \<open>
  C5: A command reaches the network only where its folder allows it and the sandbox can keep
  the computer's own network out of it; and it may write its folder and its own home, nothing
  else: that is what the sandbox is asked for, whenever it is asked at all.
\<close>

theorem network_only_where_allowed:
  assumes "run_plan_of fs cfg runs_dir req i = Inr p"
    and "fst (run_body lib fs home w p rs) = Some sent"
  shows "\<exists>r sb net files. config_root cfg (rq_root req) = Some r
    \<and> sandbox_for_host (rw_host w) = Inr sb
    \<and> sent = to_text lib (run_document fs home sb p)
    \<and> get (run_document fs home sb p) ''network'' = Some net
    \<and> only_fields [''egress''] net
    \<and> get net ''egress'' = Some (jobject [(''default'', JStr (if network r then ''allow'' else ''deny''))])
    \<and> get (run_document fs home sb p) ''filesystem'' = Some files
    \<and> only_fields [''readwritePaths'', ''readonlyPaths'', ''deniedPaths''] files
    \<and> get files ''readwritePaths'' = Some (JArr [JStr (display_path (pl_folder p)), JStr (display_path (pl_home p))])
    \<and> fs_canonicalize fs (root_path r) = Some (pl_folder p) \<and> pl_home p = runs_dir @ [i]
    \<and> \<not> (network r \<and> sb = Landlock)"
  using assms(1)
proof (rule run_plan_of_Inr)
  fix r
  assume r: "config_root cfg (rq_root req) = Some r" "pl_network p = network r"
    "fs_canonicalize fs (root_path r) = Some (pl_folder p)" "pl_home p = runs_dir @ [i]"
  from assms(2) obtain sb where sb: "sandbox_for_host (rw_host w) = Inr sb"
    "sent = request_json lib fs home sb p" "\<not> (sb = Landlock \<and> pl_network p)"
    by (rule run_body_request)
  obtain net where "get (run_document fs home sb p) ''network'' = Some net" "only_fields [''egress''] net"
    "get net ''egress'' = Some (jobject [(''default'', JStr (if network r then ''allow'' else ''deny''))])"
    using run_document_network [of fs home sb p] by (simp add: r(2) only_fields_def get_jobject jobject_def)
  moreover obtain files where "get (run_document fs home sb p) ''filesystem'' = Some files"
    "only_fields [''readwritePaths'', ''readonlyPaths'', ''deniedPaths''] files"
    "get files ''readwritePaths'' = Some (JArr [JStr (display_path (pl_folder p)), JStr (display_path (pl_home p))])"
    using run_document_filesystem [of fs home sb p] by (simp add: only_fields_def get_jobject jobject_def)
  ultimately show ?thesis using r sb unfolding request_json_def by blast
qed

definition demo_lib :: json_lib where
  "demo_lib = \<lparr>from_str = (\<lambda>_. None), to_text = (\<lambda>_. ''{}'')\<rparr>"

definition demo_world :: run_world where
  "demo_world = \<lparr>rw_home_failure = None, rw_host = LinuxHost (Some ''no namespaces'') None,
     rw_spawn = Inr 7, rw_started = 0,
     rw_polls = [\<lparr>po_events = [Printed OutStream ''ok''], po_parents = [],
                 po_now = secs 1, po_wait = StillRunning\<rparr>,
                \<lparr>po_events = [Others stop_all], po_parents = [],
                 po_now = secs 4000, po_wait = StillRunning\<rparr>],
     rw_drained = [Printed ErrStream ''!''], rw_cpu_limit = False, rw_leaving = stop_all\<rparr>"

theorem network_only_where_allowed_witness:
  "\<exists>r sb. config_root demo_config ''app'' = Some r \<and> sandbox_for_host (rw_host demo_world) = Inr sb
     \<and> \<not> (network r \<and> sb = Landlock)"
proof -
  have "fst (run_body demo_lib demo_fs None demo_world (demo_plan 1) runs_new) = Some ''{}''"
    by (simp add: run_body_def demo_world_def sandbox_refuses_def demo_plan_def request_json_def
        demo_lib_def)
  from network_only_where_allowed [OF demo_planned [of 1] this] show ?thesis
    by (auto simp: demo_request_def)
qed

section \<open>One command on the small computer\<close>

definition demo_id :: string where "demo_id = pl_id (demo_plan 1)"

definition demo_started :: runs where
  "demo_started = (put_cell demo_id (demo_cell 1) runs_new)\<lparr>rn_limits := pl_limits (demo_plan 1)\<rparr>"

definition demo_printed :: runs where
  "demo_printed = put_cell demo_id (cell_append OutStream ''ok'' (demo_cell 1)) demo_started"

definition demo_ended :: runs where
  "demo_ended = put_cell demo_id (cell_finish 5 (Exited 0) (cell_append OutStream ''ok'' (demo_cell 1)))
     demo_printed"

definition demo_history :: histories where
  "demo_history = ((\<lambda>_. [])(demo_id := []))(demo_id := [(OutStream, ''ok'')])"

lemma demo_cells:
  "map_of (rn_cells demo_started) demo_id = Some (demo_cell 1)"
  "map_of (rn_cells demo_printed) demo_id = Some (cell_append OutStream ''ok'' (demo_cell 1))"
  "map_of (rn_cells demo_ended) demo_id
     = Some (cell_finish 5 (Exited 0) (cell_append OutStream ''ok'' (demo_cell 1)))"
  by (simp_all add: demo_started_def demo_printed_def demo_ended_def put_cell_def update_conv')

lemma demo_cell_state [simp]: "c_state (demo_cell b) = Running"
  by (simp add: demo_cell_def cell_new_def)

lemma demo_steps:
  "run_step (\<lambda>_. [], runs_new) ((\<lambda>_. [])(demo_id := []), demo_started)"
  "run_step ((\<lambda>_. [])(demo_id := []), demo_started) (demo_history, demo_printed)"
  "run_step (demo_history, demo_printed) (demo_history, demo_ended)"
proof -
  have "pl_id (demo_plan 1) \<notin> fst ` set (rn_cells runs_new)" by (simp add: runs_new_def)
  from inserted [OF demo_start_check this, where h = "\<lambda>_. []"]
  show "run_step (\<lambda>_. [], runs_new) ((\<lambda>_. [])(demo_id := []), demo_started)"
    by (simp add: demo_insert demo_started_def demo_id_def)
next
  from printed [OF demo_cells(1), where h = "(\<lambda>_. [])(demo_id := [])" and stream = OutStream
      and bytes = "''ok''"]
  show "run_step ((\<lambda>_. [])(demo_id := []), demo_started) (demo_history, demo_printed)"
    unfolding demo_history_def demo_printed_def by simp
next
  from ended [OF demo_cells(2), where h = demo_history and st = "Exited 0" and now = 5]
  show "run_step (demo_history, demo_printed) (demo_history, demo_ended)"
    unfolding demo_ended_def by simp
qed

lemma demo_reach: "run_reach demo_history demo_printed" "run_reach demo_history demo_ended"
proof -
  show *: "run_reach demo_history demo_printed" unfolding run_reach_def
    using demo_steps(1,2) by (meson rtranclp.rtrancl_into_rtrancl rtranclp.rtrancl_refl)
  then show "run_reach demo_history demo_ended" unfolding run_reach_def
    using demo_steps(3) by (meson rtranclp.rtrancl_into_rtrancl)
qed

lemma demo_both: "both (demo_history demo_id) = ''ok''"
  by (simp add: demo_history_def both_def)

text \<open>
  C7: Whatever calls come and whatever the commands print, a read of a command's output is a
  stretch of exactly what it printed, both streams together: the bytes from the offset told on,
  with the number of bytes skipped since the offset asked for, and it is done when the command
  has ended and nothing is left.
\<close>

theorem output_is_what_was_printed:
  assumes "run_reach h rs" and "runs_output i offset most rs = Inr r"
  shows "ro_id r = i \<and> ro_skipped r = ro_offset r - offset
    \<and> ro_offset r \<le> ro_next_offset r \<and> ro_next_offset r \<le> length (both (h i))
    \<and> ro_text r = from_utf8_lossy
        (take (ro_next_offset r - ro_offset r) (drop (ro_offset r) (both (h i))))
    \<and> (\<exists>c. map_of (rn_cells rs) i = Some c
        \<and> ro_done r = (c_state c \<noteq> Running \<and> ro_next_offset r = length (both (h i))))"
proof -
  from assms(2) obtain c where c: "map_of (rn_cells rs) i = Some c" "r = cell_output offset most c"
    by (cases "runs_cell i rs") (auto simp: runs_output_def runs_cell_Inr)
  from run_reach_inv [OF assms(1)] c(1) have ok: "shows_history (h i) c" "c_id c = i"
    unfolding runs_inv_def cell_ok_def by blast+
  obtain start bytes where s: "slice_at (both (h i)) offset most = (start, bytes)"
    by (cases "slice_at (both (h i)) offset most")
  note d = slice_at_drop [OF s]
  have "start - min offset start = start - offset" by (simp add: min_def)
  then show ?thesis using d(2,3) d(1) [symmetric] c(1) ok(2)
    by (auto simp: c(2) cell_output_slice [OF ok(1)] s)
qed

theorem output_is_what_was_printed_witness:
  "\<exists>r. runs_output demo_id 0 100 demo_printed = Inr r \<and> ro_next_offset r \<le> 2
     \<and> ro_text r = from_utf8_lossy (take (ro_next_offset r - ro_offset r) (drop (ro_offset r) ''ok''))"
proof -
  obtain r where r: "runs_output demo_id 0 100 demo_printed = Inr r"
    by (simp add: runs_output_def runs_cell_def demo_cells)
  from output_is_what_was_printed [OF demo_reach(1) r] r show ?thesis by (auto simp: demo_both)
qed

text \<open>
  C33: Once a command has ended, reading from the start and passing every answer's next offset
  back, at least four bytes at a time, gives all it printed, byte for byte and whole characters,
  in finitely many reads, when it printed valid text of at most the megabyte that is kept.
\<close>

theorem ended_output_is_read_whole:
  assumes "run_reach h rs" and "map_of (rn_cells rs) i = Some c" and "c_state c \<noteq> Running"
    and "length (both (h i)) \<le> RUN_WINDOW" and "utf8_valid (both (h i))" and "4 \<le> most"
  shows "read_all (Suc (length (both (h i)))) 0 most c = Some (both (h i))"
proof -
  from run_reach_inv [OF assms(1)] assms(2) have "shows_history (h i) c"
    unfolding runs_inv_def cell_ok_def by blast
  from read_all_rest [OF this assms(3,4,6), where offset = 0] assms(5) show ?thesis
    by (simp del: read_all.simps)
qed

theorem ended_output_is_read_whole_witness:
  "read_all 3 0 4 (cell_finish 5 (Exited 0) (cell_append OutStream ''ok'' (demo_cell 1))) = Some ''ok''"
proof -
  define c where "c = cell_finish 5 (Exited 0) (cell_append OutStream ''ok'' (demo_cell 1))"
  have "c_state c \<noteq> Running" by (simp add: c_def cell_finish_def)
  moreover have "utf8_valid ''ok''" by code_simp
  ultimately have "read_all (Suc (length ''ok'')) 0 4 c = Some ''ok''"
    using ended_output_is_read_whole [OF demo_reach(2) demo_cells(3) [folded c_def], of 4]
    unfolding demo_both by (simp add: RUN_WINDOW_def del: read_all.simps)
  then show ?thesis unfolding c_def by (simp only: list.size numeral_3_eq_3) simp
qed

text \<open>
  C8: Whatever happens next, a command that has ended stays as it ended, with its output, and
  a stop once asked for stays asked for. The ended commands form a queue: a step puts at most one at
  its end, and a command is only forgotten when it has ended, is the first of the queue, and leaves
  thirty-two behind it that were put there after it; nothing else is forgotten. The record stays
  consistent.
\<close>

theorem ended_commands_stay_as_they_ended:
  assumes "run_reach h rs" and "run_step (h, rs) (h', rs')" and "map_of (rn_cells rs) i = Some c"
  shows "\<exists>new old. rn_finished rs @ new = old @ rn_finished rs' \<and> length new \<le> 1
    \<and> (case map_of (rn_cells rs') i of
      Some d \<Rightarrow> i \<notin> set old \<and> (c_stop c \<longrightarrow> c_stop d) \<and> (c_state c \<noteq> Running \<longrightarrow> d = c\<lparr>c_stop := c_stop d\<rparr>)
    | None \<Rightarrow> c_state c \<noteq> Running \<and> old = [i] \<and> length (rn_finished rs') = FINISHED_KEPT)
    \<and> runs_inv (h', rs') \<and> length (rn_finished rs') \<le> FINISHED_KEPT"
proof -
  note inv0 = run_reach_inv [OF assms(1)]
  have inv: "runs_inv (h', rs')"
    by (rule run_reach_inv) (use assms(1,2) in \<open>auto simp: run_reach_def\<close>)
  then have len: "length (rn_finished rs') \<le> FINISHED_KEPT" by (simp add: runs_inv_def)
  from run_step_queue [OF assms(2) inv0] obtain old where q: "queue_step (rn_finished rs) (rn_finished rs') old"
    and gone: "\<And>j. map_of (rn_cells rs) j \<noteq> None \<Longrightarrow> (map_of (rn_cells rs') j = None) = (j \<in> set old)"
    by auto
  from q obtain new where new: "rn_finished rs @ new = old @ rn_finished rs'" "length new \<le> 1"
    by (auto simp: queue_step_def)
  have gone_i: "(map_of (rn_cells rs') i = None) = (i \<in> set old)" using gone [of i] assms(3) by simp
  have one: "old = [i] \<and> length (rn_finished rs') = FINISHED_KEPT" if "i \<in> set old"
    using that q by (cases old) (auto simp: queue_step_def)
  have "case map_of (rn_cells rs') i of
      Some d \<Rightarrow> i \<notin> set old \<and> (c_stop c \<longrightarrow> c_stop d) \<and> (c_state c \<noteq> Running \<longrightarrow> d = c\<lparr>c_stop := c_stop d\<rparr>)
    | None \<Rightarrow> c_state c \<noteq> Running \<and> old = [i] \<and> length (rn_finished rs') = FINISHED_KEPT"
    using run_step_carries [OF assms(2) inv0] assms(3) gone_i one
    by (cases "map_of (rn_cells rs') i") (fastforce simp: carries_on_def)+
  with inv len new show ?thesis by blast
qed

theorem ended_commands_stay_as_they_ended_witness:
  "\<exists>d. map_of (rn_cells (snd (answer (demo_env 1) CallStopAll demo_ended))) demo_id = Some d
     \<and> c_state d = Exited 0"
proof -
  let ?rs = "snd (answer (demo_env 1) CallStopAll demo_ended)"
  have "run_step (demo_history, demo_ended) (demo_history, ?rs)"
    by (rule called) simp
  note claim = ended_commands_stay_as_they_ended [OF demo_reach(2) this demo_cells(3)]
  have "rn_finished demo_ended = []"
    by (simp add: demo_ended_def demo_printed_def demo_started_def put_cell_def runs_new_def)
  then have none: "\<not> (rn_finished demo_ended @ new = old @ rn_finished ?rs \<and> length new \<le> 1
      \<and> old = [demo_id] \<and> length (rn_finished ?rs) = FINISHED_KEPT)" for new old
    by (auto simp: FINISHED_KEPT_def)
  have st: "c_state (cell_finish 5 (Exited 0) (cell_append OutStream ''ok'' (demo_cell 1))) = Exited 0"
    by (simp add: cell_finish_def)
  obtain d where d: "map_of (rn_cells ?rs) demo_id = Some d"
  proof (cases "map_of (rn_cells ?rs) demo_id")
    case None
    with claim none show ?thesis by (auto simp del: answer.simps)
  qed
  then have "d = (cell_finish 5 (Exited 0) (cell_append OutStream ''ok'' (demo_cell 1)))\<lparr>c_stop := c_stop d\<rparr>"
    using claim st by (auto simp del: answer.simps)
  then have "c_state d = c_state ((cell_finish 5 (Exited 0) (cell_append OutStream ''ok'' (demo_cell 1)))\<lparr>c_stop := c_stop d\<rparr>)"
    by (rule arg_cong)
  then have "c_state d = Exited 0" using st by simp
  with d show ?thesis by blast
qed

end
