(* ===== verification/CommandAnswers.thy ===== *)
theory CommandAnswers
  imports CommandClaims
begin

text \<open>
  Further properties of the commands: what a run's thread does to the shared runs and when it
  ends, how many commands and processes there are, and the answers: through the supervisor as
  without it, of the types their callers read, and always one.
\<close>

section \<open>How a run ends\<close>

lemma demo_others: "by_others i stop_all"
  unfolding by_others_def
proof (intro allI impI)
  fix h :: histories and rs c
  assume a: "run_reach h rs \<and> map_of (rn_cells rs) i = Some c \<and> i \<notin> set (rn_finished rs)"
  have "run_step (h, rs) (h, snd (answer (demo_env 1) CallStopAll rs))" by (rule called) simp
  then have "run_step (h, rs) (h, stop_all rs)" by simp
  moreover from a have "map_of (rn_cells (stop_all rs)) i
      = Some (c\<lparr>c_stop := True\<rparr>)"
    by (simp add: stop_all_def each_cell_def map_of_map_snd)
  moreover from a have "i \<notin> set (rn_finished (stop_all rs))" by (simp add: stop_all_def each_cell_def)
  ultimately show "\<exists>h' b. run_step\<^sup>*\<^sup>* (h, rs) (h', stop_all rs) \<and> h' i = h i
      \<and> map_of (rn_cells (stop_all rs)) i = Some (c\<lparr>c_stop := b\<rparr>) \<and> i \<notin> set (rn_finished (stop_all rs))"
    by blast
qed

lemma demo_world_ok: "world_ok i demo_world"
  using demo_others by (simp add: world_ok_def demo_world_def event_ok_def)

lemma demo_limit_reached: "list_ex (\<lambda>po. run_deadline demo_world (demo_plan 1) \<le> po_now po) (rw_polls demo_world)"
  by (simp add: run_deadline_def demo_world_def demo_plan_def limits_from_config_def demo_config_def
      default_limits_def)


lemma demo_thread:
  "\<exists>rs'. run_thread demo_lib demo_fs None demo_world 9 (demo_plan 1) demo_started = Some rs'"
proof -
  from run_loop_ends [OF demo_limit_reached] obtain r where
    "run_loop (demo_plan 1) Landlock 7 (run_deadline demo_world (demo_plan 1)) 0
       (rw_polls demo_world) demo_started = Some r"
    by blast
  then show ?thesis
    by (simp add: run_thread_def run_body_def run_sandboxed_def demo_world_def sandbox_refuses_def
        demo_plan_def Let_def)
qed


text \<open>Whether the command starts at all: in which sandbox, and as which process.\<close>

definition run_starts :: "run_world \<Rightarrow> run_plan \<Rightarrow> (sandbox \<times> nat) option" where
  "run_starts w p = (case (rw_home_failure w, sandbox_for_host (rw_host w), rw_spawn w) of
     (None, Inr sb, Inr root) \<Rightarrow> if sandbox_refuses sb p = None then Some (sb, root) else None
   | _ \<Rightarrow> None)"

lemma run_body_started:
  "snd (run_body lib fs home w p rs) = (case run_starts w p of
     Some (sb, root) \<Rightarrow> run_sandboxed w p sb rs
   | None \<Rightarrow> snd (run_body lib fs home w p rs))"
  "run_starts w p = Some (sb, root) \<Longrightarrow> rw_spawn w = Inr root"
  "run_starts w p = None \<Longrightarrow> \<exists>e. snd (run_body lib fs home w p rs) = Some (RunFailed e, rs)"
  by (auto simp: run_body_def run_starts_def run_sandboxed_def split: option.splits sum.splits if_splits)

text \<open>The reasons a poll can find to end the command, and that it found none.\<close>

definition too_many_at :: "run_plan \<Rightarrow> sandbox \<Rightarrow> nat \<Rightarrow> nat \<Rightarrow> poll \<Rightarrow> bool" where
  "too_many_at p sb root k po \<longleftrightarrow> Suc k mod 4294967296 mod COUNT_EVERY = 0
     \<and> too_many_processes root (po_parents po) (rl_processes (pl_limits p)) sb"

definition ends_as :: "run_plan \<Rightarrow> instant \<Rightarrow> bool \<Rightarrow> bool \<Rightarrow> poll \<Rightarrow> run_state \<Rightarrow> bool" where
  "ends_as p deadline many stop po st \<longleftrightarrow> (case st of
       Running \<Rightarrow> False
     | Stopped \<Rightarrow> many \<or> stop
     | TimedOut \<Rightarrow> \<not> many \<and> \<not> stop \<and> deadline \<le> po_now po
     | Exited n \<Rightarrow> \<not> many \<and> \<not> stop \<and> po_now po < deadline \<and> po_wait po = ExitedWith n
     | RunFailed e \<Rightarrow> \<not> many \<and> \<not> stop \<and> po_now po < deadline
         \<and> (\<exists>m. po_wait po = WaitFailed m \<and> e = ''the sandbox failed: '' @ m))"

lemma poll_turn_ends:
  "poll_turn p sb root deadline (Suc k mod 4294967296) po rs = (Some st, rs')
     \<Longrightarrow> ends_as p deadline (too_many_at p sb root k po) (stop_asked (pl_id p) rs) po st"
  "fst (poll_turn p sb root deadline (Suc k mod 4294967296) po rs) = None
     \<Longrightarrow> \<not> too_many_at p sb root k po \<and> \<not> stop_asked (pl_id p) rs \<and> po_now po < deadline
       \<and> po_wait po = StillRunning"
  by (auto simp: poll_turn_def ends_as_def too_many_at_def split: if_splits wait_result.splits)

lemma run_sandboxed_loop:
  assumes "rw_spawn w = Inr root" and "list_ex (\<lambda>po. run_deadline w p \<le> po_now po) (rw_polls w)"
  obtains st rs1 rs2 where "run_loop p sb root (run_deadline w p) 0 (rw_polls w) rs = Some (st, rs1)"
    "run_sandboxed w p sb rs = Some (st, rs2)"
proof -
  from run_loop_ends [OF assms(2)] obtain st rs1 where
    "run_loop p sb root (run_deadline w p) 0 (rw_polls w) rs = Some (st, rs1)" by fastforce
  with assms(1) show ?thesis by (intro that) (simp_all add: run_sandboxed_def Let_def)
qed



section \<open>How many there are\<close>

text \<open>
  The processes counted are exactly those descended from the command's first process,
  however the list is ordered, whatever processes it repeats and even if it has cycles; the
  command is ended for them when there is a limit and they exceed it by more than the
  sandbox's own.
\<close>

theorem processes_are_counted_exactly:
  "too_many_processes root parents limit sb =
     (0 < limit \<and> limit + own_processes sb < card {p. (root, p) \<in> (child_rel parents)\<^sup>*})"
  unfolding too_many_processes_def descendants_card by (rule refl)

lemma demo_limit: "commands_running (cfg_limits demo_config) = 1"
  by (simp add: demo_config_def)

lemma running_put_le: "running (put_cell i c rs) \<le> running rs + 1"
proof -
  have "length (filter P (AList.update i c xs)) \<le> length (filter P xs) + 1"
    for P and xs :: "(string \<times> cell) list"
    by (induction xs) auto
  then show ?thesis by (simp add: running_def put_cell_def)
qed

text \<open>
  A start with no other start in between respects the limit on commands running at once:
  whatever ran before, no more run after it than the configuration allows.
\<close>

theorem starts_respect_the_limit_alone:
  assumes "runs_start env cfg req rs = (Inr st, rs')"
  shows "running rs' \<le> commands_running (cfg_limits cfg)"
  using assms
proof (rule runs_start_Inr)
  fix p
  assume p: "start_insert env req p rs = (st, rs')" "running rs < commands_running (cfg_limits cfg)"
  from p(1) obtain c where "rs' = (put_cell (pl_id p) c rs)\<lparr>rn_limits := pl_limits p\<rparr>"
    by (auto simp: start_insert_def Let_def)
  then have "running rs' = running (put_cell (pl_id p) c rs)" by (simp add: running_def)
  with running_put_le [of "pl_id p" c rs] p(2) show ?thesis by linarith
qed

theorem starts_respect_the_limit_alone_witness:
  "running (snd (runs_start (demo_env 1) demo_config demo_request runs_new)) \<le> 1"
  using starts_respect_the_limit_alone [OF demo_start [of 1]]
  by (simp only: demo_limit demo_start snd_conv)

text \<open>
  The limit on commands running at once is checked and the command recorded under two
  different locks: two starts whose checks both come first exceed it.
\<close>

theorem racing_starts_exceed_the_limit:
  "commands_running (cfg_limits demo_config) = 1
   \<and> start_check (demo_env 1) demo_config demo_request runs_new = Inr (demo_plan 1)
   \<and> start_check (demo_env 2) demo_config demo_request runs_new = Inr (demo_plan 2)
   \<and> running (snd (start_insert (demo_env 2) demo_request (demo_plan 2)
       (snd (start_insert (demo_env 1) demo_request (demo_plan 1) runs_new)))) = 2"
proof -
  have ids: "pl_id (demo_plan 2) \<noteq> pl_id (demo_plan 1)"
    by (simp add: demo_plan_def) code_simp
  have "running (put_cell (pl_id (demo_plan 2)) (demo_cell 2)
      ((put_cell (pl_id (demo_plan 1)) (demo_cell 1) runs_new)\<lparr>rn_limits := l\<rparr>)\<lparr>rn_limits := l'\<rparr>) = 2" for l l'
    using ids by (simp add: running_def put_cell_def runs_new_def)
  then show ?thesis
    by (simp only: demo_limit demo_start_check demo_insert snd_conv simp_thms)
qed

section \<open>Answers\<close>

text \<open>
  A JSON library that knows three values, enough for one exchange: a list asked for, everything
  stopped, and an empty list answered.
\<close>

definition demo_reply :: json where "demo_reply = ser_reply (Inr (JArr []))"

definition word_lib :: json_lib where
  "word_lib = \<lparr>from_str = (\<lambda>s.
       if s = ''list'' @ newline then Some (ser_call CallList)
       else if s = ''stop_all'' @ newline then Some (ser_call CallStopAll)
       else if s = ''r'' @ newline then Some demo_reply else None),
     to_text = (\<lambda>v. case field_string v ''call'' of Some k \<Rightarrow> k | None \<Rightarrow> ''r'')\<rparr>"

lemma word_lib_texts:
  "to_text word_lib (ser_call CallList) = ''list''"
  "to_text word_lib (ser_call CallStopAll) = ''stop_all''"
  "to_text word_lib demo_reply = ''r''"
  by (simp_all add: word_lib_def demo_reply_def ser_reply_def serde_simps)

lemma word_lib_reads:
  "from_str word_lib (''list'' @ newline) = Some (ser_call CallList)"
  "from_str word_lib (''stop_all'' @ newline) = Some (ser_call CallStopAll)"
  "from_str word_lib (''r'' @ newline) = Some demo_reply"
  by (simp_all add: word_lib_def newline_def)

lemma word_lib_travels:
  "travels word_lib (ser_call CallList)" "travels word_lib (ser_call CallStopAll)"
  "travels word_lib demo_reply"
proof -
  have "utf8_valid ''list''" "utf8_valid ''stop_all''" "utf8_valid ''r''" by code_simp+
  then show "travels word_lib (ser_call CallList)" "travels word_lib (ser_call CallStopAll)"
    "travels word_lib demo_reply"
    by (simp_all add: travels_def' word_lib_texts MAX_LINE_def word_lib_reads
        word_lib_reads [unfolded append.simps] del: ser_call.simps)
qed

lemma demo_list_answer: "ser_reply (fst (answer env CallList runs_new)) = demo_reply"
  by (simp add: runs_list_def runs_new_def demo_reply_def)



text \<open>
  A call that runs out of time leaves its answer on the channel, and the next call takes
  it for its own: it gets the answer to the call before, whatever it asked.
\<close>

theorem late_answers_go_to_the_next_call:
  assumes "travels lib (ser_call c)" and "call_in_range c"
    and "travels lib (ser_reply (fst (answer env c rs)))"
    and "travels lib (ser_call d)" and "call_in_range d"
  shows "fst (client_call lib env' False d (snd (client_call lib env True c ([], rs))))
    = fst (answer env c rs)"
  by (rule client_call_after_timeout [OF assms])

theorem late_answers_go_to_the_next_call_witness:
  "fst (client_call word_lib (demo_env 1) False CallStopAll
     (snd (client_call word_lib (demo_env 1) True CallList ([], runs_new)))) = Inr (JArr [])
   \<and> fst (answer (demo_env 1) CallStopAll runs_new) = Inr JNull"
proof -
  have "travels word_lib (ser_reply (fst (answer (demo_env 1) CallList runs_new)))"
    unfolding demo_list_answer by (rule word_lib_travels(3))
  from late_answers_go_to_the_next_call [OF word_lib_travels(1) _ this word_lib_travels(2)]
  show ?thesis by (simp add: call_in_range_def runs_list_def runs_new_def)
qed

text \<open>
  Every call of a command tool answers, whatever its arguments, whoever runs the commands
  and whatever they answer: the loop that waits for a command comes to its deadline.
\<close>

theorem command_tools_always_answer:
  "command_call te name args listening w \<noteq> None"
  by (rule command_call_answers)

lemma start_answer_read:
  "serde_status (ser_status (fst (start_insert env req p rs))) = Some (fst (start_insert env req p rs))"
proof -
  have r: "cell_in_range (cell_new p r d now epoch)"
    "cell_in_range (cell_finish now' (RunFailed e) (cell_new p r d now epoch))" for r d now epoch now' e
    by (simp_all add: cell_in_range_def cell_new_def cell_finish_def)
  show ?thesis
    using cell_status_in_range [OF r(1)] cell_status_in_range [OF r(2)] serde_status_ser
    by (cases "ce_thread_failure env") (simp_all add: start_insert_def Let_def)
qed

definition record_in_range :: "runs \<Rightarrow> bool" where
  "record_in_range rs \<longleftrightarrow> list_all (\<lambda>(i, c). cell_in_range c \<and> c_started_at c \<le> u64_max) (rn_cells rs)"

lemma list_answer_read:
  assumes "record_in_range rs"
  shows "serde_summaries (JArr (map ser_summary (runs_list now rs))) = Some (runs_list now rs)"
proof -
  have "serde_summary (ser_summary (cell_summary now d)) = Some (cell_summary now d)"
    if "d \<in> set (map snd (rn_cells rs))" for d
    using that assms by (intro serde_summary_cell) (auto simp: list_all_iff record_in_range_def)
  then have "list_all (\<lambda>s. serde_summary (ser_summary s) = Some (id s)) (runs_list now rs)"
    unfolding list_all_iff runs_list_def Let_def by auto
  from all_some_map [of "\<lambda>s. serde_summary (ser_summary s)", OF this] show ?thesis
    by (simp add: serde_summaries_def o_def)
qed

text \<open>What a caller of \<open>Runner\<close> reads from an answer is what the runs said to its call.\<close>

definition read_right :: "call_env \<Rightarrow> run_call \<Rightarrow> runs \<Rightarrow> json \<Rightarrow> bool" where
  "read_right env call rs v = (case call of
     CallStart req \<Rightarrow> (case load_config env of Inl _ \<Rightarrow> False
       | Inr cfg \<Rightarrow> parse_answer serde_status v = fst (runs_start env cfg req rs))
   | CallStatus i \<Rightarrow> parse_answer serde_status v = runs_status (ce_now env) i rs
   | CallOutput i offset most \<Rightarrow> parse_answer serde_output v = runs_output i offset most rs
   | CallFinished i \<Rightarrow> parse_answer serde_finished v = runs_finished (ce_now env) i rs
   | CallStop i \<Rightarrow> parse_answer serde_status v = fst (runs_stop (ce_now env) i rs)
   | CallList \<Rightarrow> parse_answer serde_summaries v = Inr (runs_list (ce_now env) rs)
   | _ \<Rightarrow> v = JNull)"

text \<open>
  C15: What a caller parses from an answer is exactly what the runs said to its call: the status,
  the output, the result or the list of commands with all their fields; errors have one of seven
  codes. It is so for calls whose numbers fit 64 bits, and commands whose byte counts and start do.
\<close>

theorem callers_read_what_the_runs_said:
  assumes "run_reach h rs" and "call_in_range call" and "record_in_range rs"
  shows "case fst (answer env call rs) of Inl e \<Rightarrow> re_code e \<in> run_codes | Inr v \<Rightarrow> read_right env call rs v"
proof (cases "fst (answer env call rs)")
  case (Inl e)
  with answer_code show ?thesis by auto
next
  case (Inr v)
  have cell: "cell_in_range d \<and> shows_history (h i) d" if "map_of (rn_cells rs) i = Some d" for i d
    using that run_reach_inv [OF assms(1)] assms(3)
    by (auto simp: runs_inv_def cell_ok_def list_all_iff record_in_range_def dest!: map_of_SomeD)
  then have found: "cell_in_range d \<and> shows_history (h i) d" if "runs_cell i rs = Inr d" for i d
    using that by (simp add: runs_cell_Inr)
  have "read_right env call rs v"
  proof (cases call)
    case (CallStart req)
    then show ?thesis using Inr start_answer_read
      by (auto simp: read_right_def parse_answer_def runs_start_def split: sum.splits prod.splits)
        (metis fst_conv option.simps(5))+
  next
    case (CallStatus i)
    then show ?thesis using Inr found serde_status_ser [OF cell_status_in_range]
      by (cases "runs_cell i rs")
        (auto simp: read_right_def parse_answer_def runs_status_def check_id_def split: if_splits)
  next
    case (CallOutput i a m)
    then have "a \<le> u64_max" using assms(2) by (simp add: call_in_range_def)
    with CallOutput show ?thesis using Inr found cell_output_in_range [where offset = a]
      by (cases "runs_cell i rs")
        (force simp: read_right_def parse_answer_def runs_output_def check_id_def split: if_splits)+
  next
    case (CallFinished i)
    then show ?thesis using Inr found cell_finished_in_range
      by (cases "runs_cell i rs")
        (force simp: read_right_def parse_answer_def runs_finished_def check_id_def split: if_splits)+
  next
    case (CallStop i)
    then show ?thesis using Inr found serde_status_ser [OF cell_status_in_range]
      by (cases "runs_cell i rs")
        (auto simp: read_right_def parse_answer_def runs_stop_def check_id_def split: if_splits)
  next
    case CallList
    then show ?thesis using Inr list_answer_read [OF assms(3)] by (auto simp: read_right_def parse_answer_def)
  qed (use Inr in \<open>auto simp: read_right_def split: sum.splits\<close>)
  with Inr show ?thesis by simp
qed

theorem callers_read_what_the_runs_said_witness:
  "\<exists>v. answer (demo_env 1) CallList demo_ended = (Inr v, demo_ended)
     \<and> parse_answer serde_summaries v = Inr (runs_list 0 demo_ended)"
proof -
  have "cell_in_range (cell_finish 5 (Exited 0) (cell_append OutStream ''ok'' (demo_cell 1)))"
    "c_started_at (cell_finish 5 (Exited 0) (cell_append OutStream ''ok'' (demo_cell 1))) \<le> u64_max"
    by (simp_all add: cell_in_range_def cell_finish_def cell_append_def demo_cell_def cell_new_def Let_def)
  then have "record_in_range demo_ended"
    by (simp add: record_in_range_def demo_ended_def demo_printed_def demo_started_def put_cell_def runs_new_def)
  from callers_read_what_the_runs_said [OF demo_reach(2) _ this, where call = CallList and env = "demo_env 1"]
  show ?thesis by (simp add: call_in_range_def read_right_def demo_env_def)
qed

text \<open>
  A read of fewer than four bytes, which \<open>run_output\<close> accepts as a \<open>max_chars\<close>, can end
  inside a character, and reading on gives a replacement for each of its parts: two of them for
  the two bytes of an e with an acute accent, read one byte at a time.
\<close>

theorem small_reads_break_characters:
  "let eacute = [CHR 0xC3, CHR 0xA9];
       c = cell_finish 5 (Exited 0) (cell_append OutStream eacute (demo_cell 1))
   in utf8_valid eacute \<and> shows_history [(OutStream, eacute)] c
      \<and> read_all 3 0 1 c = Some (REPLACEMENT @ REPLACEMENT)"
proof -
  define eacute where "eacute = [CHR 0xC3, CHR 0xA9]"
  define c where "c = cell_finish 5 (Exited 0) (cell_append OutStream eacute (demo_cell 1))"
  have "shows_history ([] @ [(OutStream, eacute)]) (cell_append OutStream eacute (demo_cell 1))"
    by (rule shows_history_append)
      (simp add: shows_history_def demo_cell_def cell_new_def keep_last_def both_def)
  then have h: "shows_history [(OutStream, eacute)] c"
    unfolding c_def by (simp add: shows_history_finish)
  have ended: "c_state c \<noteq> Running" by (simp add: c_def cell_finish_def)
  have both: "both [(OutStream, eacute)] = eacute" by (simp add: both_def)
  have len: "length eacute = 2" by (simp add: eacute_def)
  have p: "utf8_prefix [CHR 0xC3] = 0" "utf8_prefix [CHR 0xA9] = 1" by code_simp+
  have s0: "slice_at eacute 0 (Suc 0) = (0, [CHR 0xC3])"
    and s1: "slice_at eacute (Suc 0) (Suc 0) = (Suc 0, [CHR 0xA9])"
    using p unfolding eacute_def by (simp_all add: slice_at_def clamp_def MAX_OUTPUT_CHUNK_def RUN_WINDOW_def)
  have l: "from_utf8_lossy [CHR 0xC3] = REPLACEMENT" "from_utf8_lossy [CHR 0xA9] = REPLACEMENT"
    by code_simp+
  have "utf8_valid eacute" unfolding eacute_def by code_simp
  moreover have "read_all 3 0 1 c = Some (REPLACEMENT @ REPLACEMENT)"
    using ended len by (simp add: numeral_3_eq_3 cell_output_slice [OF h] both s0 s1 l
        del: from_utf8_lossy.simps)
  ultimately show ?thesis using h by (simp add: Let_def c_def eacute_def)
qed

end
