(* ===== verification/Follow.thy ===== *)
theory Follow
  imports CommandTools
begin

text \<open>
  \<open>src/commands/follow.rs\<close>: what the windows show of the commands this computer runs. The
  daemon's answers over the control socket are parameters: the list of commands, and for every
  request of output an \<open>Output\<close> or nothing. The thread's sleep and its wake-up are not modelled;
  a look is one turn of its loop.
\<close>

definition BUSY :: duration where "BUSY = millis 750"
definition IDLE :: duration where "IDLE = secs 3"
definition KEPT :: nat where "KEPT = 64 * 1024"
definition PIECES :: nat where "PIECES = 4"

record listed =
  ls_summary :: run_summary
  ls_folder :: string

definition ls_id :: "listed \<Rightarrow> string" where
  "ls_id l = rs_id (sm_status (ls_summary l))"

definition ls_running :: "listed \<Rightarrow> bool" where
  "ls_running l = status_running (sm_status (ls_summary l))"

definition state_label :: "listed \<Rightarrow> string" where
  "state_label l =
     (let s = sm_status (ls_summary l);
          words = map (\<lambda>c. if c = CHR ''_'' then CHR '' '' else c) (rs_state s)
      in if rs_limit s = Some ''cpu_time'' then ''CPU limit''
         else if rs_limit s = Some ''processes'' then ''process limit''
         else (case (rs_state s = ''exited'', rs_exit_code s) of
             (True, Some n) \<Rightarrow> ''exit '' @ show_int n
           | _ \<Rightarrow> if rs_state s = ''timed_out'' then ''timed out'' else words))"

definition succeeded :: "listed \<Rightarrow> bool" where
  "succeeded l \<longleftrightarrow> rs_state (sm_status (ls_summary l)) = ''exited''
     \<and> rs_exit_code (sm_status (ls_summary l)) = Some 0"

definition ANGLE :: string where "ANGLE = [CHR 0xE2, CHR 0x80, CHR 0xBA]"

definition place :: "listed \<Rightarrow> string" where
  "place l = (if sm_dir (ls_summary l) = [] then ls_folder l
     else ls_folder l @ '' '' @ ANGLE @ '' '' @ sm_dir (ls_summary l))"

section \<open>The output of the chosen command\<close>

record printed_text =
  pt_id :: string
  pt_text :: string
  pt_cut :: nat
  pt_done :: bool

record snapshot =
  sn_commands :: "listed list"
  sn_printed :: "printed_text option"

definition sn_running :: "snapshot \<Rightarrow> nat" where
  "sn_running s = length (filter ls_running (sn_commands s))"

function next_boundary :: "string \<Rightarrow> nat \<Rightarrow> nat" where
  "next_boundary s n = (if is_char_boundary s n \<or> length s \<le> n then n else next_boundary s (n + 1))"
  by pat_completeness auto
termination by (relation "measure (\<lambda>(s, n). length s - n)") auto

declare next_boundary.simps [simp del]

definition find_byte :: "char \<Rightarrow> string \<Rightarrow> nat option" where
  "find_byte c s = (let n = length (takeWhile (\<lambda>x. x \<noteq> c) s) in if n < length s then Some n else None)"

definition trim_shown :: "printed_text \<Rightarrow> printed_text" where
  "trim_shown p =
     (if length (pt_text p) \<le> KEPT then p
      else (let start = next_boundary (pt_text p) (length (pt_text p) - KEPT);
                start = (case find_byte (CHR 0x0A) (drop start (pt_text p)) of
                    Some n \<Rightarrow> if n < 1024 then start + n + 1 else start
                  | None \<Rightarrow> start)
            in p\<lparr>pt_cut := pt_cut p + start, pt_text := drop start (pt_text p)\<rparr>))"

text \<open>
  \<open>read_more\<close>, with the pieces still to read: \<open>reply left id offset\<close> is what the daemon answers,
  \<open>None\<close> for an error, no daemon or an answer that is no \<open>Output\<close>.
\<close>

type_synonym ask_output = "nat \<Rightarrow> string \<Rightarrow> nat \<Rightarrow> run_output option"

fun read_more :: "nat \<Rightarrow> ask_output \<Rightarrow> printed_text \<Rightarrow> nat \<Rightarrow> printed_text \<times> nat" where
  "read_more 0 reply p offset = (p, offset)"
| "read_more (Suc left) reply p offset =
     (case reply left (pt_id p) offset of
        None \<Rightarrow> (p\<lparr>pt_done := True\<rparr>, offset)
      | Some piece \<Rightarrow>
          (let p1 = trim_shown (p\<lparr>pt_cut := pt_cut p + ro_skipped piece, pt_text := pt_text p @ ro_text piece\<rparr>)
           in if ro_done piece then (p1\<lparr>pt_done := True\<rparr>, ro_next_offset piece)
              else if ro_text piece = [] then (p1, ro_next_offset piece)
              else read_more left reply p1 (ro_next_offset piece)))"

text \<open>
  One look: the commands, the chosen one's output, and the snapshot reported if it is new. The
  state of the thread is the last snapshot reported and what it has read.
\<close>

record follow_state =
  fw_last :: snapshot
  fw_printed :: "(printed_text \<times> nat) option"

definition follow_start :: follow_state where
  "follow_start = \<lparr>fw_last = \<lparr>sn_commands = [], sn_printed = None\<rparr>, fw_printed = None\<rparr>"

definition refocus :: "string option \<Rightarrow> (printed_text \<times> nat) option \<Rightarrow> (printed_text \<times> nat) option" where
  "refocus focus printed =
     (if map_option (\<lambda>(p, _). Some (pt_id p)) printed \<noteq> Some focus
      then map_option (\<lambda>i. (\<lparr>pt_id = i, pt_text = [], pt_cut = 0, pt_done = False\<rparr>, 0)) focus
      else printed)"

definition look ::
  "listed list \<Rightarrow> string option \<Rightarrow> ask_output \<Rightarrow> follow_state \<Rightarrow> snapshot option \<times> follow_state" where
  "look listing focus reply s =
     (let printed = (case refocus focus (fw_printed s) of
            None \<Rightarrow> None
          | Some (p, offset) \<Rightarrow> Some (if pt_done p then (p, offset) else read_more PIECES reply p offset));
          snapshot = \<lparr>sn_commands = listing, sn_printed = map_option fst printed\<rparr>
      in if snapshot \<noteq> fw_last s then (Some snapshot, \<lparr>fw_last = snapshot, fw_printed = printed\<rparr>)
         else (None, s\<lparr>fw_printed := printed\<rparr>))"

definition follow_pause :: "follow_state \<Rightarrow> duration" where
  "follow_pause s = (if 0 < sn_running (fw_last s) then BUSY else IDLE)"

section \<open>Words\<close>

definition two_digits :: "nat \<Rightarrow> string" where
  "two_digits n = (if n < 10 then CHR ''0'' # show_nat n else show_nat n)"

definition elapsed_words :: "nat \<Rightarrow> string" where
  "elapsed_words ms =
     (let s = ms div 1000
      in if s < 60 then show_nat s @ ''s''
         else if s < 3600 then show_nat (s div 60) @ '':'' @ two_digits (s mod 60)
         else show_nat (s div 3600) @ '':'' @ two_digits (s div 60 mod 60) @ '':'' @ two_digits (s mod 60))"

definition one_line :: "string \<Rightarrow> string" where
  "one_line text = join_with (CHR '' '') (split_whitespace text)"

section \<open>Output a window may draw\<close>

text \<open>What is left after a CSI sequence, and after an OSC sequence, on code points.\<close>

fun skip_csi :: "nat list \<Rightarrow> nat list" where
  "skip_csi [] = []"
| "skip_csi (c # cs) = (if 0x40 \<le> c \<and> c \<le> 0x7E then cs else skip_csi cs)"

fun skip_osc :: "nat list \<Rightarrow> nat list" where
  "skip_osc [] = []"
| "skip_osc (c # cs) = (if c = 7 then cs else if c = 0x1B then tl cs else skip_osc cs)"

definition skip_escape :: "nat list \<Rightarrow> nat list" where
  "skip_escape cs = (case cs of
     [] \<Rightarrow> []
   | c # r \<Rightarrow> if c = 0x5B then skip_csi r else if c = 0x5D then skip_osc r else r)"

lemma skip_le: "length (skip_csi cs) \<le> length cs" "length (skip_osc cs) \<le> length cs"
  "length (skip_escape cs) \<le> length cs"
proof -
  show csi: "length (skip_csi cs) \<le> length cs" for cs by (induction cs) auto
  show osc: "length (skip_osc cs) \<le> length cs" for cs by (induction cs) auto
  show "length (skip_escape cs) \<le> length cs"
    using csi osc by (auto simp: skip_escape_def le_SucI split: list.splits)
qed

text \<open>The loop: what is left, what was written, and where its last line starts.\<close>

function clean_go :: "nat list \<Rightarrow> nat list \<Rightarrow> nat \<Rightarrow> nat list" where
  "clean_go [] out start = out"
| "clean_go (c # cs) out start =
     (if c = 0x1B then clean_go (skip_escape cs) out start
      else if c = 10 then clean_go cs (out @ [10]) (length out + 1)
      else if c = 13 then
        (if cs \<noteq> [] \<and> hd cs = 10 then clean_go cs out start else clean_go cs (take start out) start)
      else if c = 9 then clean_go cs (out @ [32, 32, 32, 32]) start
      else if is_control c then clean_go cs out start
      else clean_go cs (out @ [c]) start)"
  by pat_completeness auto
termination
  by (relation "measure (\<lambda>(cs, out, start). length cs)") (auto simp: less_Suc_eq_le skip_le)

declare clean_go.simps [simp del]

definition clean_text :: "string \<Rightarrow> string" where
  "clean_text text = utf8_encode (clean_go (utf8_chars text) [] 0)"

end
