(* ===== verification/FollowClaims.thy ===== *)
theory FollowClaims
  imports Follow CommandAnswers
begin

text \<open>
  What the windows show of commands: nothing that could disturb the screen, and of a command's
  output the latest part with everything left out accounted for.
\<close>

section \<open>Cleaned output\<close>

definition drawable :: "nat \<Rightarrow> bool" where
  "drawable c \<longleftrightarrow> c = 10 \<or> \<not> is_control c"

lemma set_skip: "set (skip_csi cs) \<subseteq> set cs" "set (skip_osc cs) \<subseteq> set cs" "set (skip_escape cs) \<subseteq> set cs"
proof -
  show csi: "set (skip_csi cs) \<subseteq> set cs" for cs by (induction cs) auto
  show osc: "set (skip_osc cs) \<subseteq> set cs" for cs
    by (induction cs) (auto dest: list.set_sel(2) split: if_splits, metis list.sel(2) list.set_sel(2))
  show "set (skip_escape cs) \<subseteq> set cs"
    using csi osc by (auto simp: skip_escape_def split: list.splits) blast+
qed

text \<open>What every code point that passes, and the spaces and line ends put in, have, the result has.\<close>

lemma clean_go_all:
  assumes "P 10" and "P 32"
  shows "(\<And>c. c \<in> set cs \<Longrightarrow> \<not> is_control c \<Longrightarrow> P c) \<Longrightarrow> (\<And>c. c \<in> set out \<Longrightarrow> P c)
     \<Longrightarrow> c \<in> set (clean_go cs out start) \<Longrightarrow> P c"
proof (induction cs out start rule: clean_go.induct)
  case (1 out start)
  then show ?case by (simp add: clean_go.simps)
next
  case (2 d cs out start)
  note cs = "2.prems"(1) and out = "2.prems"(2) and c = "2.prems"(3)
  consider "d = 0x1B" | "d = 10" | "d = 13" "cs \<noteq> [] \<and> hd cs = 10"
    | "d = 13" "\<not> (cs \<noteq> [] \<and> hd cs = 10)" | "d = 9" | "is_control d" "d \<noteq> 0x1B" "d \<noteq> 10" "d \<noteq> 13" "d \<noteq> 9"
    | "\<not> is_control d" "d \<noteq> 0x1B" "d \<noteq> 10" "d \<noteq> 13" "d \<noteq> 9" by blast
  then show ?case
  proof cases
    case 1
    have "P e" if "e \<in> set (skip_escape cs)" "\<not> is_control e" for e
      using that cs set_skip(3) [of cs] by auto
    with "2.IH"(1) [OF 1] out c 1 show ?thesis by (simp add: clean_go.simps(2))
  next
    case 4
    have "P e" if "e \<in> set (take start out)" for e using that out in_set_takeD by fast
    with "2.IH"(4) cs c 4 show ?thesis by (simp add: clean_go.simps(2))
  next
    case 2
    with \<open>P 10\<close> out have "\<And>e. e \<in> set (out @ [10]) \<Longrightarrow> P e" by auto
    with "2.IH"(2) cs c 2 show ?thesis by (simp add: clean_go.simps(2))
  next
    case 3
    with "2.IH"(3) cs out c show ?thesis by (simp add: clean_go.simps(2))
  next
    case 5
    with \<open>P 32\<close> out have "\<And>e. e \<in> set (out @ [32, 32, 32, 32]) \<Longrightarrow> P e" by auto
    with "2.IH"(5) cs c 5 show ?thesis by (simp add: clean_go.simps(2))
  next
    case 6
    with "2.IH"(6) cs out c show ?thesis by (simp add: clean_go.simps(2))
  next
    case 7
    then have "\<And>e. e \<in> set (out @ [d]) \<Longrightarrow> P e" using cs out by auto
    with "2.IH"(7) cs c 7 show ?thesis by (simp add: clean_go.simps(2))
  qed
qed

lemma clean_go_drawable: "c \<in> set (clean_go cs [] start) \<Longrightarrow> c = 10 \<or> \<not> is_control c"
  by (erule clean_go_all [rotated -1]) (simp_all add: is_control_def)

lemma clean_go_bound:
  assumes "list_all (\<lambda>c. c < 0x110000) cs"
  shows "list_all (\<lambda>c. c < 0x110000) (clean_go cs [] start)"
  unfolding list_all_iff
proof
  fix c
  assume "c \<in> set (clean_go cs [] start)"
  then show "c < 0x110000"
    by (rule clean_go_all [rotated -1]) (use assms in \<open>auto simp: list_all_iff\<close>)
qed

lemma clean_go_plain: "list_all drawable cs \<Longrightarrow> clean_go cs out start = out @ cs"
proof (induction cs arbitrary: out start)
  case (Cons c cs)
  then show ?case by (subst clean_go.simps) (auto simp: drawable_def is_control_def)
qed (simp add: clean_go.simps)

text \<open>After a carriage return that ends no line, only what follows on the line stays.\<close>

lemma clean_go_redraw:
  assumes "list_all (\<lambda>c. \<not> is_control c) a" and "rest \<noteq> []" and "hd rest \<noteq> 10"
  shows "clean_go (a @ 13 # rest) out (length out) = clean_go rest out (length out)"
proof -
  have "clean_go (a @ 13 # rest) (out @ b) (length out) = clean_go rest out (length out)" for b
    using assms(1)
  proof (induction a arbitrary: b)
    case Nil
    then show ?case using assms(2,3) by (simp add: clean_go.simps(2))
  next
    case (Cons c a)
    then have "clean_go (c # a @ 13 # rest) (out @ b) (length out)
        = clean_go (a @ 13 # rest) (out @ (b @ [c])) (length out)"
      by (subst clean_go.simps) (auto simp: is_control_def)
    with Cons show ?case by simp
  qed
  from this [of "[]"] show ?thesis by simp
qed

section \<open>Code points of valid text\<close>

lemma utf8_chars_bound: "utf8_valid s \<Longrightarrow> list_all (\<lambda>c. c < 0x110000) (utf8_chars s)"
proof (induction s rule: length_induct)
  case (1 s)
  show ?case
  proof (cases s)
    case (Cons c t)
    then obtain rs where rs: "utf8_follow (of_char c) = Some rs" "utf8_match rs t = length rs"
      "utf8_valid (drop (length rs) t)"
      using 1(2) by (auto simp: utf8_valid_Cons split: option.splits)
    define u where "u = drop (length rs) t"
    have u: "list_all (\<lambda>c. c < 0x110000) (utf8_chars u)"
      using 1(1) rs(3) Cons by (simp add: u_def)
    have t: "t = take (length rs) t @ u" by (simp add: u_def)
    from utf8_chars_char [OF rs(1,2), of u] obtain x where
      "utf8_chars (c # take (length rs) t @ u) = x # utf8_chars u" "x < 0x110000" by blast
    with u t Cons show ?thesis by simp
  qed simp
qed

section \<open>Nothing left out goes uncounted\<close>

definition honest :: "run_output option \<Rightarrow> nat \<Rightarrow> bool" where
  "honest r offset \<longleftrightarrow> (case r of None \<Rightarrow> True
     | Some o1 \<Rightarrow> ro_next_offset o1 = offset + ro_skipped o1 + length (ro_text o1)
         \<and> utf8_valid (ro_text o1))"

definition accounts :: "printed_text \<times> nat \<Rightarrow> bool" where
  "accounts s \<longleftrightarrow> (case s of (p, offset) \<Rightarrow>
     pt_cut p + length (pt_text p) = offset \<and> length (pt_text p) \<le> KEPT)"

lemma utf8_valid_ascii: "list_all is_ascii_char s \<Longrightarrow> utf8_valid s"
  by (induction s) (simp_all add: utf8_valid_Cons utf8_follow_def is_ascii_char_def)

text \<open>What a run's record answers to an offset it has reached is such an answer, for ASCII.\<close>

lemma cell_output_honest:
  assumes "shows_history h c" and "list_all is_ascii_char (both h)" and "offset \<le> length (both h)"
  shows "honest (Some (cell_output offset most c)) offset"
proof -
  obtain start bytes where s: "slice_at (both h) offset most = (start, bytes)"
    by (cases "slice_at (both h) offset most")
  have "set bytes \<subseteq> set (both h)"
    using slice_at_drop(1) [OF s] by (metis set_drop_subset set_take_subset subset_trans)
  then have "list_all is_ascii_char bytes" using assms(2) by (auto simp: list_all_iff)
  then have "utf8_valid bytes" by (rule utf8_valid_ascii)
  moreover have "offset \<le> start" by (rule slice_at_start(1) [OF s assms(3)])
  ultimately show ?thesis by (simp add: honest_def cell_output_slice [OF assms(1)] s min_absorb1)
qed

lemma next_boundary_bounds:
  "n \<le> length s \<Longrightarrow> n \<le> next_boundary s n \<and> next_boundary s n \<le> length s"
proof (induction s n rule: next_boundary.induct)
  case (1 s n)
  then show ?case by (subst (1 2) next_boundary.simps) (auto simp: le_Suc_eq not_le)
qed

lemma find_byte_bound: "find_byte c s = Some n \<Longrightarrow> n < length s"
  by (auto simp: find_byte_def Let_def split: if_splits)

lemma trim_shown_keeps:
  "pt_cut (trim_shown p) + length (pt_text (trim_shown p)) = pt_cut p + length (pt_text p)
   \<and> length (pt_text (trim_shown p)) \<le> KEPT \<and> pt_id (trim_shown p) = pt_id p"
proof (cases "length (pt_text p) \<le> KEPT")
  case False
  define b where "b = next_boundary (pt_text p) (length (pt_text p) - KEPT)"
  define e where "e = (case find_byte (CHR 0x0A) (drop b (pt_text p)) of
      Some n \<Rightarrow> if n < 1024 then b + n + 1 else b | None \<Rightarrow> b)"
  have b: "length (pt_text p) - KEPT \<le> b" "b \<le> length (pt_text p)"
    using next_boundary_bounds [of "length (pt_text p) - KEPT" "pt_text p"] by (simp_all add: b_def)
  then have e: "b \<le> e" "e \<le> length (pt_text p)"
    using find_byte_bound [of "CHR 0x0A" "drop b (pt_text p)"]
    by (auto simp: e_def split: option.splits)
  have "trim_shown p = p\<lparr>pt_cut := pt_cut p + e, pt_text := drop e (pt_text p)\<rparr>"
    using False unfolding trim_shown_def Let_def b_def e_def by (simp only: if_False)
  with b e False show ?thesis by auto
qed (simp add: trim_shown_def)

lemma read_more_accounts:
  assumes "\<And>k i n. honest (reply k i n) n" and "accounts (p, offset)"
  shows "accounts (read_more left reply p offset)
    \<and> pt_id (fst (read_more left reply p offset)) = pt_id p"
  using assms(2)
proof (induction left arbitrary: p offset)
  case (Suc left)
  show ?case
  proof (cases "reply left (pt_id p) offset")
    case None
    with Suc.prems show ?thesis by (simp add: accounts_def)
  next
    case (Some r)
    define q where "q = trim_shown (p\<lparr>pt_cut := pt_cut p + ro_skipped r, pt_text := pt_text p @ ro_text r\<rparr>)"
    have "ro_next_offset r = offset + ro_skipped r + length (ro_text r)"
      using assms(1) [of left "pt_id p" offset] Some by (simp add: honest_def)
    then have q: "accounts (q, ro_next_offset r)" "pt_id q = pt_id p"
      using trim_shown_keeps [of "p\<lparr>pt_cut := pt_cut p + ro_skipped r, pt_text := pt_text p @ ro_text r\<rparr>"]
        Suc.prems by (simp_all add: accounts_def q_def)
    then have "accounts (q\<lparr>pt_done := True\<rparr>, ro_next_offset r)" by (simp add: accounts_def)
    with Suc.IH [OF q(1)] q Some show ?thesis by (simp add: q_def [symmetric] Let_def)
  qed
qed simp

lemma look_printed:
  "fw_printed (snd (look listing focus reply s)) = (case refocus focus (fw_printed s) of
     None \<Rightarrow> None
   | Some (p, offset) \<Rightarrow> Some (if pt_done p then (p, offset) else read_more PIECES reply p offset))"
  by (simp add: look_def Let_def)

lemma look_accounts:
  assumes "\<And>k i n. honest (reply k i n) n"
    and "case fw_printed s of None \<Rightarrow> True | Some x \<Rightarrow> accounts x"
  shows "case fw_printed (snd (look listing focus reply s)) of
      None \<Rightarrow> True | Some x \<Rightarrow> accounts x \<and> focus = Some (pt_id (fst x))"
proof -
  have r: "case refocus focus (fw_printed s) of None \<Rightarrow> True
      | Some x \<Rightarrow> accounts x \<and> focus = Some (pt_id (fst x))"
    using assms(2) by (auto simp: refocus_def accounts_def split: option.splits)
  show ?thesis
  proof (cases "refocus focus (fw_printed s)")
    case (Some x)
    obtain p offset where x: "x = (p, offset)" by (cases x)
    with Some r have a: "accounts (p, offset)" "focus = Some (pt_id p)" by auto
    have "accounts (read_more PIECES reply p offset)
        \<and> pt_id (fst (read_more PIECES reply p offset)) = pt_id p"
      by (rule read_more_accounts [OF assms(1) a(1)])
    with a show ?thesis unfolding look_printed Some x option.case prod.case
      by (cases "pt_done p") auto
  qed (simp add: look_printed)
qed

text \<open>A life of the thread: looks, each with a list, the chosen command and the answers it gets.\<close>

definition looks :: "(listed list \<times> string option \<times> ask_output) list \<Rightarrow> follow_state" where
  "looks ls = foldl (\<lambda>s (listing, focus, reply). snd (look listing focus reply s)) follow_start ls"

lemma looks_snoc: "looks (ls @ [(listing, focus, reply)]) = snd (look listing focus reply (looks ls))"
  by (simp add: looks_def)

lemma looks_account:
  assumes "\<forall>(listing, focus, reply) \<in> set ls. \<forall>k i n. honest (reply k i n) n"
  shows "case fw_printed (looks ls) of None \<Rightarrow> True | Some x \<Rightarrow> accounts x"
  using assms
proof (induction ls rule: rev_induct)
  case Nil
  then show ?case by (simp add: looks_def follow_start_def)
next
  case (snoc l ls)
  obtain listing focus reply where l: "l = (listing, focus, reply)" by (cases l)
  from snoc have "case fw_printed (looks ls) of None \<Rightarrow> True | Some x \<Rightarrow> accounts x" by auto
  with look_accounts [where reply = reply and s = "looks ls" and listing = listing and focus = focus] snoc.prems show ?case
    by (auto simp: l looks_snoc split: option.splits)
qed

text \<open>
  However often the windows look, whatever command is chosen and whichever answers come,
  what they show is the chosen command's, at most 64 KiB of it, and together with what they
  count as left out it is everything up to where they have read.
\<close>

theorem shown_output_accounts_for_all_read:
  assumes "\<forall>(listing, focus, reply) \<in> set (ls @ [(listing, focus, reply)]).
    \<forall>k i n. honest (reply k i n) n"
    and "fw_printed (looks (ls @ [(listing, focus, reply)])) = Some (p, offset)"
  shows "focus = Some (pt_id p) \<and> pt_cut p + length (pt_text p) = offset \<and> length (pt_text p) \<le> KEPT"
proof -
  have "case fw_printed (looks ls) of None \<Rightarrow> True | Some x \<Rightarrow> accounts x"
    by (rule looks_account) (use assms(1) in auto)
  from look_accounts [OF _ this, where reply = reply and listing = listing and focus = focus] assms show ?thesis
    by (auto simp: looks_snoc accounts_def)
qed

definition demo_answers :: ask_output where
  "demo_answers k i n = (if n \<le> 2
     then Some (cell_output n MAX_OUTPUT_CHUNK (cell_append OutStream ''ok'' (demo_cell 1))) else None)"

lemma demo_answers_honest: "honest (demo_answers k i n) n"
proof (cases "n \<le> 2")
  case True
  have inv: "runs_inv (demo_history, demo_printed)" by (rule run_reach_inv [OF demo_reach(1)])
  then have "cell_ok (demo_history demo_id) demo_id (cell_append OutStream ''ok'' (demo_cell 1))"
    using demo_cells(2) unfolding runs_inv_def by blast
  then have "shows_history (demo_history demo_id) (cell_append OutStream ''ok'' (demo_cell 1))"
    by (simp add: cell_ok_def)
  from cell_output_honest [OF this, of n MAX_OUTPUT_CHUNK] True show ?thesis
    by (simp add: demo_answers_def demo_both is_ascii_char_def)
qed (simp add: demo_answers_def honest_def)

theorem shown_output_accounts_for_all_read_witness:
  "\<exists>p offset. fw_printed (looks [([], Some demo_id, demo_answers)]) = Some (p, offset)
     \<and> pt_cut p + length (pt_text p) = offset"
proof -
  obtain p offset where p: "fw_printed (looks ([] @ [([], Some demo_id, demo_answers)])) = Some (p, offset)"
    unfolding looks_snoc look_printed by (fastforce simp: looks_def follow_start_def refocus_def)
  from shown_output_accounts_for_all_read [OF _ p] p demo_answers_honest show ?thesis by auto
qed

text \<open>
  Whatever a command printed, what a window draws of it has no control character but line
  ends, so no escape sequence of the program's reaches the screen; and text without control
  characters is drawn as it is.
\<close>

theorem drawn_output_has_no_control_characters:
  assumes "utf8_valid text"
  shows "list_all (\<lambda>c. c = 10 \<or> \<not> is_control c) (utf8_chars (clean_text text))
    \<and> (if list_all (\<lambda>c. c = 10 \<or> \<not> is_control c) (utf8_chars text)
       then utf8_chars (clean_text text) = utf8_chars text else True)"
proof -
  have "utf8_chars (clean_text text) = clean_go (utf8_chars text) [] 0"
    using utf8_chars_encode [OF clean_go_bound [OF utf8_chars_bound [OF assms]]]
    by (simp add: clean_text_def)
  then show ?thesis
    using clean_go_drawable [of _ "utf8_chars text" 0] clean_go_plain [of "utf8_chars text" "[]" 0]
    by (auto simp: list_all_iff drawable_def)
qed

theorem drawn_output_has_no_control_characters_witness:
  "list_all (\<lambda>c. c = 10 \<or> \<not> is_control c) (utf8_chars (clean_text (CHR 0x1B # ''[32mok'')))
   \<and> utf8_chars (clean_text ''ok'') = utf8_chars ''ok''"
proof -
  have "utf8_valid (CHR 0x1B # ''[32mok'')" "utf8_valid ''ok''" by code_simp+
  moreover have "list_all (\<lambda>c. c = 10 \<or> \<not> is_control c) (utf8_chars ''ok'')" by code_simp
  ultimately show ?thesis using drawn_output_has_no_control_characters by auto
qed

section \<open>The labels\<close>

text \<open>The windows and the audit log say the same of how a command stands.\<close>

lemma state_label_words: "state_label l = state_words (sm_status (ls_summary l))"
  by (auto simp: state_label_def state_words_def Let_def split: option.splits bool.splits)

end
