(* ===== verification/CrashReports.thy ===== *)
theory CrashReports
  imports StdText Server Json Limits
begin

text \<open>
  \<open>src/crash_reports.rs\<close>: whether a panic is reported, what of it is sent, and where to. Strings
  are UTF-8 bytes. Parameters: the \<open>url\<close> crate, the JSON library, Unicode's alphanumeric
  characters, the home folder, what the build is, and how the request went. A slice of a string
  that does not start at a character panics in Rust; \<open>None\<close> stands for that.
\<close>

definition SAME_PANIC_PER_HOUR :: nat where "SAME_PANIC_PER_HOUR = 5"
definition REPORTS_PER_HOUR :: nat where "REPORTS_PER_HOUR = 30"
definition REPORTS_PER_SESSION :: nat where "REPORTS_PER_SESSION = 30"
definition REPORT_HOUR :: nat where "REPORT_HOUR = 3600"
definition MESSAGE_CHARS :: nat where "MESSAGE_CHARS = 200"
definition WITHHELD :: string where
  "WITHHELD = ''panic (its message was formed at run time, so it is not sent)''"

datatype component = DaemonPart | TuiPart | CliPart | AppPart

fun component_name :: "component \<Rightarrow> string" where
  "component_name DaemonPart = ''daemon''"
| "component_name TuiPart = ''tui''"
| "component_name CliPart = ''cli''"
| "component_name AppPart = ''app''"

section \<open>Consent\<close>

record consent =
  cs_enabled :: "bool option"
  cs_from_env :: bool

definition switch :: "string \<Rightarrow> bool option" where
  "switch value =
     (let v = to_lower (trim_ws value)
      in if v \<in> {''1'', ''true'', ''on'', ''yes''} then Some True
         else if v \<in> {''0'', ''false'', ''off'', ''no''} then Some False
         else None)"

definition consent_resolve :: "string option \<Rightarrow> bool option \<Rightarrow> consent" where
  "consent_resolve env config = (case Option.bind env switch of
     Some on \<Rightarrow> \<lparr>cs_enabled = Some on, cs_from_env = True\<rparr>
   | None \<Rightarrow> \<lparr>cs_enabled = config, cs_from_env = False\<rparr>)"

definition consent_sends :: "consent \<Rightarrow> bool" where
  "consent_sends c \<longleftrightarrow> cs_enabled c = Some True"

definition consent_undecided :: "bool \<Rightarrow> consent \<Rightarrow> bool" where
  "consent_undecided available c \<longleftrightarrow> cs_enabled c = None \<and> available"

section \<open>The limits\<close>

record sent_report =
  st_key :: string
  st_at :: nat

text \<open>
  \<open>admit\<close>: \<open>file\<close> is what the log in the state folder holds, \<open>None\<close> if it is missing or cannot
  be read; \<open>writes\<close> whether it can be written.
\<close>

definition admit_report ::
  "bool \<Rightarrow> nat \<Rightarrow> string \<Rightarrow> nat \<times> sent_report list option \<Rightarrow> bool \<times> nat \<times> sent_report list option" where
  "admit_report writes now key st = (case st of (session, file) \<Rightarrow>
     if REPORTS_PER_SESSION \<le> session then (False, session, file)
     else (let log = filter (\<lambda>s. now - st_at s < REPORT_HOUR \<and> st_at s \<le> now)
                       (case file of Some l \<Rightarrow> l | None \<Rightarrow> [])
           in if REPORTS_PER_HOUR \<le> length log
                 \<or> SAME_PANIC_PER_HOUR \<le> length (filter (\<lambda>s. st_key s = key) log)
              then (False, session, file)
              else (True, session + 1,
                    if writes then Some (log @ [\<lparr>st_key = key, st_at = now\<rparr>]) else file)))"

section \<open>Scrubbing\<close>

definition eq_nocase :: "string \<Rightarrow> string \<Rightarrow> bool" where
  "eq_nocase a b \<longleftrightarrow> to_lower a = to_lower b"

definition find_nocase :: "string \<Rightarrow> string \<Rightarrow> nat \<Rightarrow> nat option" where
  "find_nocase hay needle at0 =
     (if needle = [] \<or> length hay < length needle then None
      else find (\<lambda>i. eq_nocase (take (length needle) (drop i hay)) needle)
             [at0 ..< length hay - length needle + 1])"

lemma find_nocase_Some:
  assumes "find_nocase hay needle at0 = Some i"
  shows "at0 \<le> i" "i + length needle \<le> length hay" "needle \<noteq> []"
    "eq_nocase (take (length needle) (drop i hay)) needle"
  using assms by (auto simp: find_nocase_def split: if_splits dest!: find_SomeD)

function replace_home_from ::
  "(nat \<Rightarrow> bool) \<Rightarrow> string \<Rightarrow> string \<Rightarrow> nat \<Rightarrow> string" where
  "replace_home_from alnum hay home at0 = (case find_nocase hay home at0 of
     None \<Rightarrow> drop at0 hay
   | Some start \<Rightarrow>
       (let stop = start + length home;
            boundary = (case utf8_chars (drop stop hay) of
                [] \<Rightarrow> True
              | next # _ \<Rightarrow> \<not> (alnum next \<or> next = 0x5F \<or> next = 0x2D \<or> next = 0x2E))
        in take (start - at0) (drop at0 hay)
           @ (if boundary then ''~'' else take (length home) (drop start hay))
           @ replace_home_from alnum hay home stop))"
  by pat_completeness auto
termination
proof (relation "measure (\<lambda>(alnum, hay, home, at0). length hay - at0)")
  fix alnum :: "nat \<Rightarrow> bool" and hay home :: string and at0 start e :: nat
  assume s: "find_nocase hay home at0 = Some start" and e: "e = start + length home"
  from find_nocase_Some [OF s] have "at0 < e" "e \<le> length hay"
    using e by (cases home; auto)+
  then show "((alnum, hay, home, e), (alnum, hay, home, at0))
      \<in> measure (\<lambda>(alnum, hay, home, at0). length hay - at0)"
    by simp
qed simp

declare replace_home_from.simps [simp del]

definition replace_home :: "(nat \<Rightarrow> bool) \<Rightarrow> string \<Rightarrow> string \<Rightarrow> string" where
  "replace_home alnum hay home = replace_home_from alnum hay home 0"

text \<open>Where the user's name ends: a separator, a quote, NUL, a line stop, or white space.\<close>

definition ends_name :: "bool \<Rightarrow> string \<Rightarrow> bool" where
  "ends_name windows s \<longleftrightarrow> (case s of
     [] \<Rightarrow> False
   | c # _ \<Rightarrow> c = CHR ''/'' \<or> c = CHR 0x5C \<or> c = CHR 0x22 \<or> c = CHR 0x27 \<or> c = CHR 0x00 \<or> c = CHR 0x0A
       \<or> (\<not> windows \<and> list_ex (starts_with s) whitespace_seqs))"

definition name_end :: "bool \<Rightarrow> string \<Rightarrow> nat \<Rightarrow> nat" where
  "name_end windows hay start =
     (case find (\<lambda>i. ends_name windows (drop i hay)) [start ..< length hay] of
        Some i \<Rightarrow> i | None \<Rightarrow> length hay)"

lemma name_end_bounds: "start \<le> length hay \<Longrightarrow> start \<le> name_end windows hay start \<and> name_end windows hay start \<le> length hay"
  by (auto simp: name_end_def split: option.splits dest!: find_SomeD)

text \<open>
  One turn of \<open>replace_user_folders\<close>: \<open>at0\<close> is how far was written, \<open>seek\<close> where to look. The
  result is the rest of the text.
\<close>

function user_folders_from ::
  "string \<Rightarrow> string \<Rightarrow> nat \<Rightarrow> nat \<Rightarrow> string option" where
  "user_folders_from prefix hay at0 seek = (case find_nocase hay prefix seek of
     None \<Rightarrow> if is_char_boundary hay at0 then Some (drop at0 hay) else None
   | Some found \<Rightarrow>
       (let name_start = found + length prefix;
            windows = (CHR 0x5C \<in> set prefix \<or> starts_with prefix '':'');
            stop = name_end windows hay name_start;
            start = (if starts_with prefix '':'' then found - 1
                     else if starts_with prefix ''/'' \<and> 4 \<le> found
                             \<and> take 4 (drop (found - 4) hay) = ''/var'' then found - 4
                     else found);
            word = (0 < start \<and> (is_ascii_alnum (hay ! (start - 1))
                      \<or> (prefix = [CHR 0x5C] @ ''Users'' @ [CHR 0x5C] \<and> hay ! (start - 1) = CHR '':'')))
        in if stop = name_start \<or> word \<or> start < at0
           then user_folders_from prefix hay at0 name_start
           else if \<not> is_char_boundary hay at0 \<or> \<not> is_char_boundary hay start then None
           else map_option (\<lambda>rest. take (start - at0) (drop at0 hay) @ ''~'' @ rest)
                  (user_folders_from prefix hay stop stop)))"
  by pat_completeness auto
termination
proof (relation "measure (\<lambda>(prefix, hay, at0, seek). length hay - seek)")
  fix prefix hay :: string and at0 seek found name_start :: nat
  assume s: "find_nocase hay prefix seek = Some found" and n: "name_start = found + length prefix"
  from find_nocase_Some [OF s] have b: "seek < name_start" "name_start \<le> length hay"
    using n by (cases prefix; auto)+
  then show "((prefix, hay, at0, name_start), (prefix, hay, at0, seek))
      \<in> measure (\<lambda>(prefix, hay, at0, seek). length hay - seek)" by simp
  fix windows stop
  assume "stop = name_end windows hay name_start"
  with name_end_bounds [OF b(2)] b show "((prefix, hay, stop, stop), (prefix, hay, at0, seek))
      \<in> measure (\<lambda>(prefix, hay, at0, seek). length hay - seek)" by (simp add: less_le_trans diff_less_mono2)
qed simp

declare user_folders_from.simps [simp del]

definition USER_PREFIXES :: "string list" where
  "USER_PREFIXES = ['':'' @ [CHR 0x5C] @ ''Users'' @ [CHR 0x5C], '':/Users/'', ''/home/'', ''/Users/'',
     [CHR 0x5C] @ ''Users'' @ [CHR 0x5C]]"

definition scrub_prefix :: "string option \<Rightarrow> string \<Rightarrow> string option" where
  "scrub_prefix text prefix = (case text of
     None \<Rightarrow> None
   | Some s \<Rightarrow> if find_nocase s prefix 0 \<noteq> None then user_folders_from prefix s 0 0 else Some s)"

definition scrub_with :: "(nat \<Rightarrow> bool) \<Rightarrow> string option \<Rightarrow> string \<Rightarrow> string option" where
  "scrub_with alnum home s =
     (let s1 = (case home of
            None \<Rightarrow> s
          | Some h \<Rightarrow> (let trimmed = rev (dropWhile (\<lambda>c. c = CHR ''/'' \<or> c = CHR 0x5C) (rev h))
                       in if trimmed \<noteq> [] \<and> find_nocase s trimmed 0 \<noteq> None
                          then replace_home alnum s trimmed else s))
      in foldl scrub_prefix (Some s1) USER_PREFIXES)"

section \<open>The message\<close>

definition STANDARD_MESSAGES :: "string list" where
  "STANDARD_MESSAGES = [''called `'', ''index out of bounds'', ''attempt to '', ''already borrowed'',
     ''already mutably borrowed'', ''byte index '', ''range start index '', ''range end index '',
     ''slice index '', ''removal index '', ''insertion index '', ''assertion `left'',
     ''assertion failed'', ''capacity overflow'', ''RefCell already'']"

text \<open>\<open>str::find\<close> on a string.\<close>

definition find_seq :: "string \<Rightarrow> string \<Rightarrow> nat option" where
  "find_seq needle s = find (\<lambda>i. starts_with (drop i s) needle) [0 ..< length s + 1]"

definition CUTS :: "string list" where
  "CUTS = ['': '', ''; '', [CHR 0x0A]]"

definition message_head :: "string \<Rightarrow> string" where
  "message_head s =
     (let found = List.map_filter (\<lambda>cut. find_seq cut s) CUTS
      in take (if found = [] then length s else Min (set found)) s)"

text \<open>\<open>public_message\<close>: \<open>None\<close> where scrubbing panics.\<close>

definition public_message :: "(string \<Rightarrow> string option) \<Rightarrow> string \<Rightarrow> bool \<Rightarrow> string option" where
  "public_message scrub s formatted =
     (if formatted \<and> \<not> list_ex (starts_with (message_head s)) STANDARD_MESSAGES then Some WITHHELD
      else map_option (\<lambda>scrubbed. if scrubbed = [] then WITHHELD else take_chars MESSAGE_CHARS scrubbed)
             (scrub (trim_ws (if formatted then message_head s else s))))"

record crash =
  cr_message :: string
  cr_file :: string
  cr_line :: nat
  cr_column :: nat

text \<open>A panic's payload: written in the source, formed at run time, or of another type.\<close>

datatype payload = StaticText string | FormedText string | OtherPayload

definition crash_from_panic ::
  "(string \<Rightarrow> string option) \<Rightarrow> payload \<Rightarrow> (string \<times> nat \<times> nat) option \<Rightarrow> crash option" where
  "crash_from_panic scrub payload location =
     (case (case payload of
              StaticText s \<Rightarrow> public_message scrub s False
            | FormedText s \<Rightarrow> public_message scrub s True
            | OtherPayload \<Rightarrow> Some WITHHELD) of
        None \<Rightarrow> None
      | Some msg \<Rightarrow> (case location of
          None \<Rightarrow> Some \<lparr>cr_message = msg, cr_file = [], cr_line = 0, cr_column = 0\<rparr>
        | Some (file, line, column) \<Rightarrow> map_option (\<lambda>f.
            \<lparr>cr_message = msg, cr_file = f, cr_line = line, cr_column = column\<rparr>) (scrub file)))"

definition crash_key :: "crash \<Rightarrow> string" where
  "crash_key c = cr_file c @ '':'' @ show_nat (cr_line c) @ '':'' @ show_nat (cr_column c)"

section \<open>The report\<close>

record build_info =
  bi_version :: string
  bi_environment :: string
  bi_os :: string
  bi_arch :: string
  bi_kernel :: "string option"

definition release :: "build_info \<Rightarrow> string" where
  "release b = ''cww@'' @ bi_version b"

definition os_name :: "build_info \<Rightarrow> string" where
  "os_name b = (if bi_os b = ''linux'' then ''Linux'' else if bi_os b = ''macos'' then ''macOS''
     else if bi_os b = ''windows'' then ''Windows'' else bi_os b)"

definition crash_event :: "build_info \<Rightarrow> component \<Rightarrow> string \<Rightarrow> json \<Rightarrow> crash \<Rightarrow> json" where
  "crash_event b unit_of event_id timestamp c =
     (let in_app = \<not> starts_with (cr_file c) ''/'' \<and> \<not> starts_with (cr_file c) ''~'';
          os = jobject ([(''type'', JStr ''os''), (''name'', JStr (os_name b))]
                 @ (case bi_kernel b of Some v \<Rightarrow> [(''kernel_version'', JStr v)] | None \<Rightarrow> []))
      in jobject [
        (''event_id'', JStr event_id), (''timestamp'', timestamp), (''platform'', JStr ''native''),
        (''level'', JStr ''fatal''), (''release'', JStr (release b)),
        (''environment'', JStr (bi_environment b)),
        (''tags'', jobject [(''component'', JStr (component_name unit_of)), (''os.family'', JStr (bi_os b)),
           (''arch'', JStr (bi_arch b))]),
        (''contexts'', jobject [(''os'', os)]),
        (''exception'', jobject [(''values'', JArr [jobject [
           (''type'', JStr ''panic''), (''value'', JStr (cr_message c)),
           (''mechanism'', jobject [(''type'', JStr ''panic''), (''handled'', JBool False)]),
           (''stacktrace'', jobject [(''frames'', JArr [jobject [
              (''filename'', JStr (cr_file c)), (''lineno'', jnat (cr_line c)),
              (''colno'', jnat (cr_column c)), (''in_app'', JBool in_app)]])])]])]),
        (''fingerprint'', JArr [JStr ''panic'', JStr (crash_key c), JStr (cr_message c)]),
        (''sdk'', jobject [(''name'', JStr ''cww.crash_reports''), (''version'', JStr (bi_version b))])])"

definition envelope ::
  "json_lib \<Rightarrow> build_info \<Rightarrow> component \<Rightarrow> string \<Rightarrow> json \<Rightarrow> crash \<Rightarrow> string" where
  "envelope lib b unit_of event_id timestamp c =
     (let event = to_text lib (crash_event b unit_of event_id timestamp c)
      in to_text lib (jobject [(''event_id'', JStr event_id)]) @ [CHR 0x0A]
         @ to_text lib (jobject [(''type'', JStr ''event''), (''length'', jnat (length event)),
             (''content_type'', JStr ''application/json'')]) @ [CHR 0x0A]
         @ event @ [CHR 0x0A])"

text \<open>How sending went wrong: what the error says, and the \<open>ureq\<close> error at its root, if it is one.\<close>

datatype send_cause = SendTimeout | SendIo | SendConnectionFailed | SendHostNotFound | SendOther

definition error_kind :: "string \<Rightarrow> send_cause option \<Rightarrow> string" where
  "error_kind text cause =
     (if starts_with text ''the server answered'' \<or> text = ''timed out'' then text
      else (case cause of
          Some SendTimeout \<Rightarrow> ''timed out''
        | Some SendIo \<Rightarrow> ''no connection''
        | Some SendConnectionFailed \<Rightarrow> ''no connection''
        | Some SendHostNotFound \<Rightarrow> ''no connection''
        | _ \<Rightarrow> ''the request failed''))"

text \<open>\<open>post\<close>, after the response: its status decides.\<close>

definition post_verdict :: "nat \<Rightarrow> string + unit" where
  "post_verdict status = (if 200 \<le> status \<and> status < 300 then Inr ()
     else Inl (''the server answered '' @ show_nat status))"

text \<open>
  \<open>report\<close>: \<open>config\<close> is the choice in the configuration file, if the file can be read; \<open>post\<close>
  is what sending a body comes to, also when it times out.
\<close>

definition report ::
  "(string \<Rightarrow> string + unit) \<Rightarrow> (string \<Rightarrow> send_cause option) \<Rightarrow> json_lib \<Rightarrow> build_info \<Rightarrow> component
     \<Rightarrow> string option \<Rightarrow> bool option option \<Rightarrow> bool \<Rightarrow> nat \<Rightarrow> string \<Rightarrow> json \<Rightarrow> crash
     \<Rightarrow> nat \<times> sent_report list option
     \<Rightarrow> (string \<times> string) option \<times> nat \<times> sent_report list option" where
  "report post cause lib b unit_of env config writes now event_id timestamp c st =
     (let choice = (case config of Some x \<Rightarrow> x | None \<Rightarrow> None)
      in if \<not> consent_sends (consent_resolve env choice) then (None, st)
         else (case admit_report writes now (crash_key c) st of
             (False, st') \<Rightarrow> (None, st')
           | (True, st') \<Rightarrow>
               (let body = envelope lib b unit_of event_id timestamp c
                in (Some (body, case post body of
                      Inr _ \<Rightarrow> ''Sent a crash report to the Chat with Work team.''
                    | Inl e \<Rightarrow> ''Couldn't send the crash report: '' @ error_kind e (cause e)), st'))))"

section \<open>Where to\<close>

record dsn =
  dsn_key :: string
  dsn_origin :: string
  dsn_project :: string

text \<open>\<open>Url::port\<close> is \<open>None\<close> for the scheme's own port.\<close>

definition explicit_port :: "parsed_url \<Rightarrow> nat option" where
  "explicit_port u = (case url_port_or_default u of
     None \<Rightarrow> None
   | Some p \<Rightarrow> if p = (if url_scheme u = ''https'' then 443 else 80) then None else Some p)"

definition url_host_text :: "parsed_url \<Rightarrow> string option" where
  "url_host_text u = (case url_host u of
     None \<Rightarrow> None
   | Some (Domain d) \<Rightarrow> Some d
   | Some (HostV4 ip) \<Rightarrow> Some (show_ip (V4 ip))
   | Some (HostV6 ip) \<Rightarrow> Some (''['' @ show_ip (V6 ip) @ '']''))"

definition dsn_parse :: "url_crate \<Rightarrow> string \<Rightarrow> dsn option" where
  "dsn_parse lib text = (case url_parse lib (trim_ws text) of
     Inl _ \<Rightarrow> None
   | Inr url \<Rightarrow>
       if url_scheme url \<notin> {''https'', ''http''} \<or> url_username url = [] then None
       else (let project = trim_chars (\<lambda>c. c = CHR ''/'') (url_path url)
             in if project = [] \<or> CHR ''/'' \<in> set project then None
                else map_option (\<lambda>host.
                  \<lparr>dsn_key = url_username url,
                   dsn_origin = url_scheme url @ ''://'' @ host
                     @ (case explicit_port url of Some p \<Rightarrow> '':'' @ show_nat p | None \<Rightarrow> []),
                   dsn_project = project\<rparr>) (url_host_text url)))"

definition envelope_url :: "dsn \<Rightarrow> string" where
  "envelope_url d = dsn_origin d @ ''/api/'' @ dsn_project d @ ''/envelope/''"

end
