(* ===== verification/CrashClaims.thy ===== *)
theory CrashClaims
  imports CrashReports
begin

text \<open>
  What crash reports guarantee: how many are sent, only with consent, and what of a message and
  of the person's folders is in them; and the three places where they do not keep their word.
\<close>

section \<open>The limits over any number of processes\<close>

interpretation sent_window: sliding_window st_at REPORT_HOUR
  by unfold_locales (simp add: REPORT_HOUR_def)

text \<open>
  Panics in any number of processes, each with its session, that share the log: which process,
  when, where in the code. The result is what is let through.
\<close>

fun admit_run ::
  "(nat \<times> nat \<times> string) list \<Rightarrow> (nat \<Rightarrow> nat) \<Rightarrow> sent_report list option \<Rightarrow> (nat \<times> sent_report) list" where
  "admit_run [] sessions lg = []"
| "admit_run ((p, now, key) # rest) sessions lg =
     (case admit_report True now key (sessions p, lg) of
        (ok, session, lg') \<Rightarrow>
          (if ok then [(p, \<lparr>st_key = key, st_at = now\<rparr>)] else [])
          @ admit_run rest (sessions(p := session)) lg')"

definition key_weight :: "string \<Rightarrow> sent_report \<Rightarrow> nat" where
  "key_weight k s = (if st_key s = k then 1 else 0)"

definition within_limits :: "(nat \<times> sent_report) list \<Rightarrow> bool" where
  "within_limits h \<longleftrightarrow> budgeted st_at (\<lambda>_. 1) REPORT_HOUR REPORTS_PER_HOUR (map snd h)
     \<and> (\<forall>k. budgeted st_at (key_weight k) REPORT_HOUR SAME_PANIC_PER_HOUR (map snd h))
     \<and> (\<forall>p. length (filter (\<lambda>x. fst x = p) h) \<le> REPORTS_PER_SESSION)"

definition log_of :: "sent_report list option \<Rightarrow> sent_report list" where
  "log_of lg = (case lg of Some l \<Rightarrow> l | None \<Rightarrow> [])"

lemma sum_list_ones: "sum_list (map (\<lambda>_. 1 :: nat) xs) = length xs"
  by (induction xs) auto

lemma sum_list_key_weight: "sum_list (map (key_weight k) xs) = length (filter (\<lambda>s. st_key s = k) xs)"
  by (induction xs) (auto simp: key_weight_def)

lemma recent_filter:
  "filter (\<lambda>s. now - st_at s < REPORT_HOUR \<and> st_at s \<le> now) l = recent st_at REPORT_HOUR now l"
  unfolding recent_def by (rule filter_cong) auto

lemma admit_report_True:
  "admit_report True now key (session, lg) =
     (if REPORTS_PER_SESSION \<le> session
         \<or> REPORTS_PER_HOUR \<le> length (recent st_at REPORT_HOUR now (log_of lg))
         \<or> SAME_PANIC_PER_HOUR
            \<le> length (filter (\<lambda>s. st_key s = key) (recent st_at REPORT_HOUR now (log_of lg)))
      then (False, session, lg)
      else (True, session + 1,
        Some (recent st_at REPORT_HOUR now (log_of lg) @ [\<lparr>st_key = key, st_at = now\<rparr>])))"
  by (simp add: admit_report_def recent_filter log_of_def Let_def)

text \<open>How the log in the file relates to everything let through so far.\<close>

definition log_rel :: "nat \<Rightarrow> (nat \<times> sent_report) list \<Rightarrow> sent_report list option \<Rightarrow> bool" where
  "log_rel now h lg \<longleftrightarrow> (\<forall>t \<ge> now. recent st_at REPORT_HOUR t (log_of lg)
      = recent st_at REPORT_HOUR t (map snd h))
     \<and> (\<forall>s \<in> set (log_of lg). st_at s \<le> now) \<and> (\<forall>s \<in> set (map snd h). st_at s \<le> now)"

lemma log_rel_later: "log_rel now h lg \<Longrightarrow> now \<le> later \<Longrightarrow> log_rel later h lg"
  by (auto simp: log_rel_def)

lemma log_rel_admit:
  assumes rel: "log_rel now h lg"
  shows "log_rel now (h @ [(p, \<lparr>st_key = key, st_at = now\<rparr>)])
    (Some (recent st_at REPORT_HOUR now (log_of lg) @ [\<lparr>st_key = key, st_at = now\<rparr>]))"
proof -
  have "recent st_at REPORT_HOUR t (recent st_at REPORT_HOUR now (log_of lg))
      = recent st_at REPORT_HOUR t (map snd h)" if "now \<le> t" for t
    using that rel sent_window.recent_shrink [of now t "log_of lg"] by (simp add: log_rel_def)
  moreover have "\<forall>s \<in> set (recent st_at REPORT_HOUR now (log_of lg)). st_at s \<le> now"
    by (auto simp: recent_def)
  ultimately show ?thesis using rel by (auto simp: log_rel_def log_of_def recent_append)
qed

lemma within_limits_admit:
  assumes lim: "within_limits h" and rel: "log_rel now h lg"
    and sess: "length (filter (\<lambda>x. fst x = p) h) < REPORTS_PER_SESSION"
    and total: "length (recent st_at REPORT_HOUR now (log_of lg)) < REPORTS_PER_HOUR"
    and same: "length (filter (\<lambda>s. st_key s = key) (recent st_at REPORT_HOUR now (log_of lg)))
      < SAME_PANIC_PER_HOUR"
  shows "within_limits (h @ [(p, \<lparr>st_key = key, st_at = now\<rparr>)])"
proof -
  let ?x = "\<lparr>st_key = key, st_at = now\<rparr>"
  have eq: "recent st_at REPORT_HOUR now (log_of lg) = recent st_at REPORT_HOUR now (map snd h)"
    and past: "y \<in> set (map snd h) \<Longrightarrow> st_at y \<le> st_at ?x" for y
    using rel by (auto simp: log_rel_def)
  have "budgeted st_at (\<lambda>_. 1) REPORT_HOUR REPORTS_PER_HOUR (map snd h @ [?x])"
    by (rule budgeted_snoc)
      (use lim past total eq in \<open>auto simp: within_limits_def sum_list_ones simp del: One_nat_def\<close>)
  moreover have "budgeted st_at (key_weight k) REPORT_HOUR SAME_PANIC_PER_HOUR (map snd h @ [?x])" for k
  proof (rule budgeted_snoc)
    show "sum_list (map (key_weight k) (recent st_at REPORT_HOUR (st_at ?x) (map snd h)))
        + key_weight k ?x \<le> SAME_PANIC_PER_HOUR"
    proof (cases "k = key")
      case True
      with same eq show ?thesis by (simp add: sum_list_key_weight) (simp add: key_weight_def)
    next
      case False
      have "sum_list (map (key_weight k) (recent st_at REPORT_HOUR now (map snd h))) \<le> SAME_PANIC_PER_HOUR"
        using lim by (simp add: within_limits_def budgeted_def)
      with False show ?thesis by (simp add: key_weight_def [of k ?x])
    qed
  qed (use lim past in \<open>auto simp: within_limits_def\<close>)
  ultimately show ?thesis using lim sess by (auto simp: within_limits_def)
qed

lemma admit_run_within:
  assumes "sorted (map (\<lambda>(p, t, k). t) xs)" and "\<forall>(p, t, k) \<in> set xs. now \<le> t"
    and "log_rel now h lg" and "within_limits h"
    and "\<forall>p. sessions p = length (filter (\<lambda>x. fst x = p) h)"
  shows "within_limits (h @ admit_run xs sessions lg)"
  using assms
proof (induction xs arbitrary: now h sessions lg)
  case (Cons x xs)
  obtain p t key where x: "x = (p, t, key)" by (cases x)
  have rel: "log_rel t h lg" using Cons.prems(2,3) log_rel_later by (auto simp: x)
  have later: "sorted (map (\<lambda>(p, t, k). t) xs)" "\<forall>(p, u, k) \<in> set xs. t \<le> u"
    using Cons.prems(1) by (auto simp: x)
  show ?case
  proof (cases "fst (admit_report True t key (sessions p, lg))")
    case False
    then have "admit_report True t key (sessions p, lg) = (False, sessions p, lg)"
      by (auto simp: admit_report_True split: if_splits)
    with Cons.IH [OF later rel Cons.prems(4,5)] show ?thesis by (simp add: x)
  next
    case True
    let ?lg = "Some (recent st_at REPORT_HOUR t (log_of lg) @ [\<lparr>st_key = key, st_at = t\<rparr>])"
    from True have ok: "admit_report True t key (sessions p, lg) = (True, sessions p + 1, ?lg)"
      "sessions p < REPORTS_PER_SESSION"
      "length (recent st_at REPORT_HOUR t (log_of lg)) < REPORTS_PER_HOUR"
      "length (filter (\<lambda>s. st_key s = key) (recent st_at REPORT_HOUR t (log_of lg))) < SAME_PANIC_PER_HOUR"
      by (auto simp: admit_report_True split: if_splits)
    have lim: "within_limits (h @ [(p, \<lparr>st_key = key, st_at = t\<rparr>)])"
      by (rule within_limits_admit [OF Cons.prems(4) rel _ ok(3,4)]) (use ok(2) Cons.prems(5) in simp)
    have "\<forall>q. (sessions(p := sessions p + 1)) q
        = length (filter (\<lambda>x. fst x = q) (h @ [(p, \<lparr>st_key = key, st_at = t\<rparr>)]))"
      using Cons.prems(5) by simp
    from Cons.IH [OF later log_rel_admit [OF rel] lim this] ok(1) show ?thesis by (simp add: x fun_upd_def)
  qed
qed simp

text \<open>
  The log is read and written in two steps, with a lock inside a process and none between
  processes. So the panics of several processes may be interleaved: a process reads the log and
  decides, others do the same, and then it writes what it read and its own report (\<open>LogWritten\<close>,
  with whether the log could be written). \<open>held\<close> is what a process is about to write; while it is
  about to, its other panics wait for its lock.
\<close>

datatype admit_step = LogRead nat nat string | LogWritten nat bool

fun admit_steps ::
  "admit_step list \<Rightarrow> (nat \<Rightarrow> nat) \<Rightarrow> (nat \<Rightarrow> sent_report list option) \<Rightarrow> sent_report list option
    \<Rightarrow> (nat \<times> sent_report) list" where
  "admit_steps [] sessions held lg = []"
| "admit_steps (LogRead p now key # rest) sessions held lg = (case held p of
     Some _ \<Rightarrow> admit_steps rest sessions held lg
   | None \<Rightarrow> (case admit_report True now key (sessions p, lg) of
        (ok, _, lg') \<Rightarrow> admit_steps rest sessions (held(p := if ok then lg' else None)) lg))"
| "admit_steps (LogWritten p writes # rest) sessions held lg = (case held p of
     None \<Rightarrow> admit_steps rest sessions held lg
   | Some l \<Rightarrow> (p, last l) # admit_steps rest (sessions(p := sessions p + 1)) (held(p := None))
                  (if writes then held p else lg))"

text \<open>A process that reads the log and writes it before another reads it.\<close>

fun one_after_another :: "(nat \<times> nat \<times> string) list \<Rightarrow> admit_step list" where
  "one_after_another [] = []"
| "one_after_another ((p, now, key) # rest) = LogRead p now key # LogWritten p True # one_after_another rest"

lemma admit_steps_one_after_another:
  "admit_steps (one_after_another xs) sessions (\<lambda>_. None) lg = admit_run xs sessions lg"
proof (induction xs arbitrary: sessions lg)
  case (Cons x xs)
  obtain p t key where "x = (p, t, key)" by (cases x)
  moreover have "(\<lambda>_. None)(p := None) = (\<lambda>_. None)" by (rule fun_upd_triv)
  ultimately show ?case using Cons by (simp add: admit_report_True)
qed simp

definition session_room :: "(nat \<Rightarrow> nat) \<Rightarrow> (nat \<Rightarrow> sent_report list option) \<Rightarrow> bool" where
  "session_room sessions held \<longleftrightarrow>
     (\<forall>p. sessions p + (if held p = None then 0 else 1) \<le> REPORTS_PER_SESSION)"

lemma session_room_read:
  assumes "session_room sessions held" and "held q = None"
    and "admit_report True now key (sessions q, lg) = (ok, n, lg')"
  shows "session_room sessions (held(q := if ok then lg' else None))"
  unfolding session_room_def
proof
  fix p
  have "ok \<Longrightarrow> sessions q < REPORTS_PER_SESSION"
    using assms(3) by (auto simp: admit_report_True split: if_splits)
  moreover have "sessions p + (if held p = None then 0 else 1) \<le> REPORTS_PER_SESSION"
    using assms(1) unfolding session_room_def by blast
  ultimately show "sessions p + (if (held(q := if ok then lg' else None)) p = None then 0 else 1)
      \<le> REPORTS_PER_SESSION"
    using assms(2) by (cases "p = q"; cases ok) auto
qed

lemma session_room_write:
  assumes "session_room sessions held" and "held q = Some l"
  shows "session_room (sessions(q := sessions q + 1)) (held(q := None))"
  using assms unfolding session_room_def by (metis (mono_tags) add_0_right fun_upd_apply option.distinct(1))

lemma admit_steps_session:
  assumes "session_room sessions held"
  shows "length (filter (\<lambda>x. fst x = p) (admit_steps xs sessions held lg)) + sessions p \<le> REPORTS_PER_SESSION"
  using assms
proof (induction xs arbitrary: sessions held lg)
  case Nil
  then have "sessions p + (if held p = None then 0 else 1) \<le> REPORTS_PER_SESSION"
    unfolding session_room_def by blast
  then have "sessions p \<le> REPORTS_PER_SESSION" by linarith
  then show ?case by simp
next
  case (Cons x xs)
  show ?case
  proof (cases x)
    case (LogRead q now key)
    obtain ok n lg' where adm: "admit_report True now key (sessions q, lg) = (ok, n, lg')"
      by (cases "admit_report True now key (sessions q, lg)") auto
    show ?thesis
    proof (cases "held q")
      case None
      from Cons.IH [OF session_room_read [OF Cons.prems None adm]] None adm LogRead
      show ?thesis by (cases ok) (simp_all add: fun_upd_def)
    qed (use Cons.IH [OF Cons.prems] LogRead in simp)
  next
    case (LogWritten q writes)
    show ?thesis
    proof (cases "held q")
      case (Some l)
      from Cons.IH [OF session_room_write [OF Cons.prems Some], of "if writes then held q else lg"]
      show ?thesis using Some LogWritten by (cases "p = q") (auto simp: fun_upd_def)
    qed (use Cons.IH [OF Cons.prems] LogWritten in simp)
  qed
qed

text \<open>
  C40: However the panics of any number of processes are interleaved, whatever the clock does
  and whether or not the log can be read or written, at most thirty crash reports are let through
  in any one session. While the clock never goes back, the log can be written, and no process
  reads the log between another's reading and writing of it, at most thirty are let through in any
  hour over all processes, and at most five of them of the same panic.
\<close>

theorem crash_reports_are_limited:
  "length (filter (\<lambda>x. fst x = p) (admit_steps steps (\<lambda>_. 0) (\<lambda>_. None) lg)) \<le> REPORTS_PER_SESSION
   \<and> (sorted (map (\<lambda>(p, t, k). t) panics)
      \<longrightarrow> within_limits (admit_steps (one_after_another panics) (\<lambda>_. 0) (\<lambda>_. None) None))"
proof -
  have "log_rel 0 [] None" by (simp add: log_rel_def log_of_def)
  moreover have "within_limits []" by (simp add: within_limits_def)
  ultimately have "sorted (map (\<lambda>(p, t, k). t) panics)
      \<Longrightarrow> within_limits (admit_steps (one_after_another panics) (\<lambda>_. 0) (\<lambda>_. None) None)"
    using admit_run_within [of panics 0 "[]" None "\<lambda>_. 0"] by (auto simp: admit_steps_one_after_another)
  with admit_steps_session [of "\<lambda>_. 0" "\<lambda>_. None" p steps lg] show ?thesis by (simp add: session_room_def)
qed

definition demo_panics :: "(nat \<times> nat \<times> string) list" where
  "demo_panics = [(1, 10, ''a''), (2, 20, ''a'')]"

theorem crash_reports_are_limited_witness:
  "within_limits (admit_steps (one_after_another demo_panics) (\<lambda>_. 0) (\<lambda>_. None) None)
   \<and> length (admit_steps (one_after_another demo_panics) (\<lambda>_. 0) (\<lambda>_. None) None) = 2"
proof -
  have "length (admit_steps (one_after_another demo_panics) (\<lambda>_. 0) (\<lambda>_. None) None) = 2"
    by (simp add: demo_panics_def admit_steps_one_after_another admit_report_def REPORTS_PER_SESSION_def
        REPORTS_PER_HOUR_def SAME_PANIC_PER_HOUR_def REPORT_HOUR_def)
  moreover have "sorted (map (\<lambda>(p, t, k). t) demo_panics)" by (simp add: demo_panics_def)
  ultimately show ?thesis using crash_reports_are_limited [where panics = demo_panics] by blast
qed

text \<open>
  Between processes nothing locks the log: of two that panic at once, both read it with four
  reports of that panic in it, both send theirs, and six of the same panic are sent in an hour.
\<close>

theorem two_processes_exceed_the_limit:
  "length (admit_steps [LogRead 1 10 k, LogRead 2 10 k, LogWritten 1 True, LogWritten 2 True]
      (\<lambda>_. 0) (\<lambda>_. None) (Some (replicate 4 \<lparr>st_key = k, st_at = 9\<rparr>))) + 4 = SAME_PANIC_PER_HOUR + 1"
  by (simp add: admit_report_def REPORTS_PER_SESSION_def REPORTS_PER_HOUR_def
      SAME_PANIC_PER_HOUR_def REPORT_HOUR_def eval_nat_numeral)

text \<open>
  Nothing is sent unless the person said yes: in the environment, or where it says nothing
  usable in the configuration. What is sent depends on the panic and the build alone.
\<close>

theorem reports_need_consent:
  assumes "report post cause lib b unit_of env config writes now event_id timestamp c st = (Some (body, words), st')"
  shows "(case Option.bind env switch of Some on \<Rightarrow> on | None \<Rightarrow> config = Some (Some True))
    \<and> body = envelope lib b unit_of event_id timestamp c"
  using assms
  by (auto simp: report_def consent_resolve_def consent_sends_def Let_def
      split: if_splits option.splits prod.splits bool.splits)

definition demo_json :: json_lib where
  "demo_json = \<lparr>from_str = (\<lambda>_. None), to_text = (\<lambda>_. ''{}'')\<rparr>"

definition demo_build :: build_info where
  "demo_build = \<lparr>bi_version = ''1.0.0'', bi_environment = ''production'', bi_os = ''linux'',
     bi_arch = ''x86_64'', bi_kernel = None\<rparr>"

definition demo_crash :: crash where
  "demo_crash = \<lparr>cr_message = ''capacity overflow'', cr_file = ''src/main.rs'', cr_line = 3, cr_column = 5\<rparr>"

theorem reports_need_consent_witness:
  "(case Option.bind (Some ''on'') switch of Some on \<Rightarrow> on | None \<Rightarrow> False)
   \<and> fst (report (\<lambda>_. Inr ()) (\<lambda>_. None) demo_json demo_build CliPart (Some ''on'') None True 5
        ''id'' JNull demo_crash (0, None)) \<noteq> None"
proof -
  have sw: "switch ''on'' = Some True" by code_simp
  obtain body words st' where r: "report (\<lambda>_. Inr ()) (\<lambda>_. None) demo_json demo_build CliPart
      (Some ''on'') None True 5 ''id'' JNull demo_crash (0, None) = (Some (body, words), st')"
    by (simp add: report_def consent_resolve_def consent_sends_def sw admit_report_def
        REPORTS_PER_SESSION_def REPORTS_PER_HOUR_def SAME_PANIC_PER_HOUR_def Let_def)
  from reports_need_consent [OF r] r show ?thesis by (auto split: option.splits)
qed

section \<open>What of a message is sent\<close>

lemma find_Some_least: "find P [a..<b] = Some i \<Longrightarrow> a \<le> j \<Longrightarrow> j < i \<Longrightarrow> \<not> P j"
proof -
  assume "find P [a..<b] = Some i" "a \<le> j" "j < i"
  then obtain k where k: "k < b - a" "i = a + k" "\<And>m. m < k \<Longrightarrow> \<not> P (a + m)"
    by (auto simp: find_Some_iff)
  with \<open>a \<le> j\<close> \<open>j < i\<close> show ?thesis using k(3) [of "j - a"] by simp
qed

lemma find_None_range: "find P [a..<b] = None \<longleftrightarrow> (\<forall>i. a \<le> i \<and> i < b \<longrightarrow> \<not> P i)"
  by (auto simp: find_None_iff)

lemma find_range_Some:
  assumes "P i" and "a \<le> i" and "i < b"
  obtains j where "find P [a..<b] = Some j" "j \<le> i"
proof (cases "find P [a..<b]")
  case None
  with assms show ?thesis unfolding find_None_range by blast
next
  case (Some j)
  with find_Some_least [OF Some assms(2)] assms(1) that show ?thesis by (meson not_le)
qed

lemma starts_with_take: "starts_with (take n s) p \<Longrightarrow> starts_with s p"
  by (metis append_assoc append_take_drop_id starts_with_iff)

text \<open>The head of a message holds none of the separators it is cut at.\<close>

lemma message_head_uncut:
  assumes "sep \<in> set CUTS"
  shows "find_seq sep (message_head s) = None"
proof -
  define found where "found = List.map_filter (\<lambda>sep. find_seq sep s) CUTS"
  define n where "n = (if found = [] then length s else Min (set found))"
  have sep: "sep \<noteq> []" using assms by (auto simp: CUTS_def)
  have head: "message_head s = take n s" by (simp add: message_head_def found_def n_def Let_def)
  have least: "n \<le> i" if "find_seq sep s = Some i" for i
  proof -
    have "i \<in> set found" using that assms
      by (auto simp: found_def List.map_filter_def intro!: rev_image_eqI [of sep])
    then show ?thesis by (auto simp: n_def)
  qed
  have "\<not> starts_with (drop i (take n s)) sep" if "i < length (take n s) + 1" for i
  proof
    assume st: "starts_with (drop i (take n s)) sep"
    then obtain t where t: "drop i (take n s) = sep @ t" by (auto simp: starts_with_iff)
    then have i: "i < n" using sep by (cases "i < n") auto
    have "starts_with (drop i s) sep"
      using st unfolding drop_take by (rule starts_with_take)
    moreover have "i < length s + 1" using that by simp
    ultimately obtain j where "find_seq sep s = Some j" "j \<le> i"
      unfolding find_seq_def by (auto elim: find_range_Some [of "\<lambda>i. starts_with (drop i s) sep" i 0])
    with least i show False by fastforce
  qed
  then show ?thesis unfolding head find_seq_def find_None_range by blast
qed

text \<open>
  Of a message formed at run time only the start is ever sent, and only where it is one of
  Rust's own: up to the first colon, semicolon or line end that could introduce a value, with
  the person's folders scrubbed, and at most 200 characters.
\<close>

theorem formed_messages_are_cut_before_values:
  assumes "public_message scrub s True = Some m"
  shows "m = WITHHELD
    \<or> (\<exists>scrubbed. list_ex (starts_with (message_head s)) STANDARD_MESSAGES
        \<and> list_all (\<lambda>sep. find_seq sep (message_head s) = None) CUTS
        \<and> starts_with s (message_head s)
        \<and> scrub (trim_ws (message_head s)) = Some scrubbed \<and> m = take_chars MESSAGE_CHARS scrubbed)"
proof -
  have "starts_with s (message_head s)"
    by (simp add: message_head_def Let_def starts_with_iff) (metis append_take_drop_id)
  moreover have "list_all (\<lambda>sep. find_seq sep (message_head s) = None) CUTS"
    using message_head_uncut by (auto simp: list_all_iff)
  ultimately show ?thesis using assms by (auto simp: public_message_def split: if_splits)
qed

theorem formed_messages_are_cut_before_values_witness:
  "public_message Some ''index out of bounds: the len is 3'' True = Some ''index out of bounds''
   \<and> list_all (\<lambda>sep. find_seq sep ''index out of bounds'' = None) CUTS"
proof -
  have m: "public_message Some ''index out of bounds: the len is 3'' True = Some ''index out of bounds''"
    by code_simp
  have "message_head ''index out of bounds: the len is 3'' = ''index out of bounds''" by code_simp
  moreover have "''index out of bounds'' \<noteq> WITHHELD" by (simp add: WITHHELD_def)
  ultimately show ?thesis using formed_messages_are_cut_before_values [OF m] m by auto
qed

text \<open>
  One of Rust's own messages gives the text before any separator: slicing a string past its
  end says what the string is, and that message is sent whole.
\<close>

theorem out_of_bounds_messages_tell_the_text:
  "public_message (scrub_with alnum None) ''byte index 30 is out of bounds of `my bank password`'' True
     = Some ''byte index 30 is out of bounds of `my bank password`''"
proof -
  have h: "message_head ''byte index 30 is out of bounds of `my bank password`''
      = ''byte index 30 is out of bounds of `my bank password`''" by code_simp
  have t: "trim_ws ''byte index 30 is out of bounds of `my bank password`''
      = ''byte index 30 is out of bounds of `my bank password`''" by code_simp
  have s: "foldl scrub_prefix (Some ''byte index 30 is out of bounds of `my bank password`'') USER_PREFIXES
      = Some ''byte index 30 is out of bounds of `my bank password`''" by code_simp
  have k: "take_chars MESSAGE_CHARS ''byte index 30 is out of bounds of `my bank password`''
      = ''byte index 30 is out of bounds of `my bank password`''" by code_simp
  have e: "list_ex (starts_with ''byte index 30 is out of bounds of `my bank password`'') STANDARD_MESSAGES"
    by code_simp
  show ?thesis by (simp add: public_message_def h t e scrub_with_def s k)
qed

text \<open>
  A user folder with a drive written after a character that is not ASCII makes scrubbing
  itself panic: it takes the byte before the colon for a drive letter and slices there.
\<close>

theorem scrubbing_can_panic:
  "scrub_with alnum None ([CHR 0xC3, CHR 0xA9] @ '':/Users/bob'') = None"
proof -
  have "foldl scrub_prefix (Some ([CHR 0xC3, CHR 0xA9] @ '':/Users/bob'')) USER_PREFIXES = None"
    by code_simp
  then show ?thesis by (simp add: scrub_with_def)
qed

end
