(* ===== verification/Trash.thy ===== *)
theory Trash
  imports StdText Errors Roots Kinds "HOL-Library.Word"
begin

text \<open>
  \<open>src/trash/mod.rs\<close>, \<open>src/trash/unix.rs\<close> (Linux) and \<open>rename_noreplace\<close> of
  \<open>src/reader/safe_fs/unix.rs\<close>: where deleted files go and how they get there. A directory held
  open is a map from names to items; every system call may be refused, so each takes what the
  operating system says as an argument. Percent-encoding of paths and the date are parameters.
\<close>

unbundle bit_operations_syntax

section \<open>Whose Recycle Bin\<close>

definition BIN_ADMINS :: "string list" where
  "BIN_ADMINS = [''S-1-5-18'', ''S-1-5-32-544'']"

definition HARMLESS_RIGHTS :: "32 word" where
  "HARMLESS_RIGHTS = 0x00100000 OR 0x00020000 OR 0x0080 OR 0x0008 OR 0x0020"

definition bin_trusted :: "string \<Rightarrow> string \<Rightarrow> bool" where
  "bin_trusted user sid \<longleftrightarrow> sid = user \<or> sid \<in> set BIN_ADMINS"

definition check_private_bin ::
  "string \<Rightarrow> string \<Rightarrow> (string \<times> 32 word) list option \<Rightarrow> bool \<Rightarrow> string + unit" where
  "check_private_bin user owner grants unusual =
     (if \<not> bin_trusted user owner then Inl (''it belongs to '' @ owner)
      else (case grants of
          None \<Rightarrow> Inl ''anyone may use it (it has no access list)''
        | Some gs \<Rightarrow>
            if unusual then Inl ''its access list has entries cww can't check''
            else (case find (\<lambda>(sid, rights). \<not> bin_trusted user sid \<and> rights AND NOT HARMLESS_RIGHTS \<noteq> 0) gs of
                Some (sid, _) \<Rightarrow> Inl (sid @ '' may use it'')
              | None \<Rightarrow> Inr ())))"

section \<open>Names in the trash\<close>

function prev_boundary_at :: "string \<Rightarrow> nat \<Rightarrow> nat" where
  "prev_boundary_at s n = (if is_char_boundary s n \<or> n = 0 then n else prev_boundary_at s (n - 1))"
  by pat_completeness auto
termination by (relation "measure snd") auto

declare prev_boundary_at.simps [simp del]

definition suffixed :: "string \<Rightarrow> string \<Rightarrow> bool \<Rightarrow> nat \<Rightarrow> string" where
  "suffixed name suffix is_dir most =
     (let (stem, ext) = (case rsplit_once (CHR ''.'') name of
            Some (stem, ext) \<Rightarrow> if \<not> is_dir \<and> stem \<noteq> [] then (stem, CHR ''.'' # ext) else (name, [])
          | None \<Rightarrow> (name, []));
          room = most - (length suffix + length ext);
          stem = (if room < length stem then take (prev_boundary_at stem room) stem else stem);
          ext = (if stem = [] \<and> most - length suffix < length ext then [] else ext)
      in stem @ suffix @ ext)"

definition numbered :: "string \<Rightarrow> nat \<Rightarrow> bool \<Rightarrow> nat \<Rightarrow> string" where
  "numbered name n is_dir most =
     suffixed name (if n = 0 then [] else ''.'' @ show_nat (n + 1)) is_dir most"

definition randomized :: "string \<Rightarrow> bool \<Rightarrow> nat \<Rightarrow> nat list \<Rightarrow> string" where
  "randomized name is_dir most bytes =
     suffixed name (''.'' @ concat (map (\<lambda>b. [hex_char (b div 16), hex_char (b mod 16)]) bytes)) is_dir most"

section \<open>Renaming without replacing\<close>

datatype errno = EEXIST | ENOTEMPTY | ENOENT | EXDEV | ELOOP | EINVAL | ENOSYS | EPERM | EOTHER

record item =
  it_id :: nat
  it_dir :: bool

type_synonym names = "string \<Rightarrow> item option"

text \<open>What the operating system says to each call one rename may make; \<open>None\<close> if it tries.\<close>

record rename_says =
  ry_noreplace :: "errno option"
  ry_link :: "errno option"
  ry_unlink_old :: "errno option"
  ry_unlink_new :: "errno option"
  ry_stat :: "errno option"
  ry_rename :: "errno option"

definition sys_move :: "bool \<Rightarrow> errno option \<Rightarrow> string \<Rightarrow> string \<Rightarrow> names \<times> names \<Rightarrow> (errno + unit) \<times> names \<times> names" where
  "sys_move replace says old new st = (case st of (src, dst) \<Rightarrow>
     (case (says, src old) of
        (Some e, _) \<Rightarrow> (Inl e, st)
      | (None, None) \<Rightarrow> (Inl ENOENT, st)
      | (None, Some x) \<Rightarrow>
          if \<not> replace \<and> dst new \<noteq> None then (Inl EEXIST, st)
          else (Inr (), src(old := None), dst(new := Some x))))"

definition sys_link :: "errno option \<Rightarrow> string \<Rightarrow> string \<Rightarrow> names \<times> names \<Rightarrow> (errno + unit) \<times> names \<times> names" where
  "sys_link says old new st = (case st of (src, dst) \<Rightarrow>
     (case (says, src old) of
        (Some e, _) \<Rightarrow> (Inl e, st)
      | (None, None) \<Rightarrow> (Inl ENOENT, st)
      | (None, Some x) \<Rightarrow>
          if it_dir x then (Inl EPERM, st)
          else if dst new \<noteq> None then (Inl EEXIST, st)
          else (Inr (), src, dst(new := Some x))))"

definition sys_unlink :: "errno option \<Rightarrow> string \<Rightarrow> names \<Rightarrow> (errno + unit) \<times> names" where
  "sys_unlink says name d = (case (says, d name) of
     (Some e, _) \<Rightarrow> (Inl e, d)
   | (None, None) \<Rightarrow> (Inl ENOENT, d)
   | (None, Some _) \<Rightarrow> (Inr (), d(name := None)))"

definition rename_fallback ::
  "rename_says \<Rightarrow> string \<Rightarrow> string \<Rightarrow> names \<times> names \<Rightarrow> (errno + unit) \<times> names \<times> names" where
  "rename_fallback says old new st = (case sys_link (ry_link says) old new st of
     (Inr _, src, dst) \<Rightarrow>
       (case sys_unlink (ry_unlink_old says) old src of
          (Inr _, src') \<Rightarrow> (Inr (), src', dst)
        | (Inl e, src') \<Rightarrow> (Inl e, src', snd (sys_unlink (ry_unlink_new says) new dst)))
   | (Inl e, st') \<Rightarrow>
       if e \<in> {EEXIST, EXDEV, ENOENT, ELOOP} then (Inl e, st')
       else if ry_stat says \<notin> {None, Some ENOENT} then (Inl (the (ry_stat says)), st')
       else if snd st' new \<noteq> None then (Inl EEXIST, st')
       else sys_move True (ry_rename says) old new st')"

definition rename_noreplace ::
  "rename_says \<Rightarrow> string \<Rightarrow> string \<Rightarrow> names \<times> names \<Rightarrow> (errno + unit) \<times> names \<times> names" where
  "rename_noreplace says old new st = (case sys_move False (ry_noreplace says) old new st of
     (Inl e, st') \<Rightarrow> if e = EINVAL \<or> e = ENOSYS then rename_fallback says old new st' else (Inl e, st')
   | r \<Rightarrow> r)"

section \<open>Taking an item\<close>

definition NUMBERED_TRIES :: nat where "NUMBERED_TRIES = 1000"
definition RANDOM_TRIES :: nat where "RANDOM_TRIES = 64"

text \<open>
  The state: the open folder the item is in, the \<open>files\<close> directory of the trash, and the records
  in its \<open>info\<close> directory. What the system says in the \<open>n\<close>-th try is \<open>put_says\<close>.
\<close>

record put_state =
  ps_dir :: names
  ps_files :: names
  ps_info :: "string \<Rightarrow> string option"

record put_says =
  py_open :: "errno option"
  py_written :: bool
  py_unlink_failed_write :: "errno option"
  py_unlink_record :: "errno option"
  py_rename :: rename_says
  py_random :: "nat list"

definition trash_unavailable :: tool_error where
  "trash_unavailable = tool_error TrashUnavailable
     (''The system trash can't take this item, so nothing was changed. cww never deletes ''
      @ ''a file for good.'')"

definition record_name :: "string \<Rightarrow> string" where
  "record_name name = name @ ''.trashinfo''"

definition record_text :: "(string \<Rightarrow> string) \<Rightarrow> string \<Rightarrow> path \<Rightarrow> path option \<Rightarrow> string" where
  "record_text encode date original topdir =
     (let shown = (case topdir of
            Some mount \<Rightarrow> (case strip_prefix mount original of
                Some rest \<Rightarrow> join_with (CHR ''/'') rest | None \<Rightarrow> show_path original)
          | None \<Rightarrow> show_path original)
      in ''[Trash Info]'' @ [CHR 0x0A] @ ''Path='' @ encode shown @ [CHR 0x0A]
         @ ''DeletionDate='' @ date @ [CHR 0x0A])"

definition write_record ::
  "put_says \<Rightarrow> string \<Rightarrow> string \<Rightarrow> (string \<Rightarrow> string option) \<Rightarrow> (errno + unit) \<times> (string \<Rightarrow> string option)" where
  "write_record says name text info =
     (let rec = record_name name
      in case py_open says of
           Some e \<Rightarrow> (Inl e, info)
         | None \<Rightarrow>
             if info rec \<noteq> None then (Inl EEXIST, info)
             else if py_written says then (Inr (), info(rec := Some text))
             else (Inl EOTHER, if py_unlink_failed_write says = None then info else info(rec := Some [])))"

text \<open>One try: the outcome, or on to the next name.\<close>

datatype put_try = Taken string | Refused | NextName

definition put_once ::
  "(string \<Rightarrow> string) \<Rightarrow> string \<Rightarrow> put_says \<Rightarrow> string \<Rightarrow> path \<Rightarrow> path option \<Rightarrow> string \<Rightarrow> put_state
     \<Rightarrow> put_try \<times> put_state" where
  "put_once encode date says name original topdir candidate s =
     (case write_record says candidate (record_text encode date original topdir) (ps_info s) of
        (Inl e, info) \<Rightarrow> (if e = EEXIST then NextName else Refused, s\<lparr>ps_info := info\<rparr>)
      | (Inr _, info) \<Rightarrow>
          (case rename_noreplace (py_rename says) name candidate (ps_dir s, ps_files s) of
             (Inr _, src, dst) \<Rightarrow> (Taken candidate, \<lparr>ps_dir = src, ps_files = dst, ps_info = info\<rparr>)
           | (Inl e, src, dst) \<Rightarrow>
               (if e = EEXIST \<or> e = ENOTEMPTY then NextName else Refused,
                \<lparr>ps_dir = src, ps_files = dst,
                 ps_info = (if py_unlink_record says = None then info(record_name candidate := None) else info)\<rparr>)))"

definition candidate_name :: "string \<Rightarrow> bool \<Rightarrow> (nat \<Rightarrow> put_says) \<Rightarrow> nat \<Rightarrow> string" where
  "candidate_name shown is_dir says n =
     (let most = 255 - length ''.trashinfo''
      in if n < NUMBERED_TRIES then numbered shown n is_dir most
         else randomized shown is_dir most (py_random (says n)))"

fun put_tries ::
  "(string \<Rightarrow> string) \<Rightarrow> string \<Rightarrow> (nat \<Rightarrow> put_says) \<Rightarrow> string \<Rightarrow> path \<Rightarrow> path option \<Rightarrow> string \<Rightarrow> bool
     \<Rightarrow> nat list \<Rightarrow> put_state \<Rightarrow> (tool_error + string) \<times> put_state" where
  "put_tries encode date says name original topdir shown is_dir [] s = (Inl trash_unavailable, s)"
| "put_tries encode date says name original topdir shown is_dir (n # ns) s =
     (case put_once encode date (says n) name original topdir (candidate_name shown is_dir says n) s of
        (Taken c, s') \<Rightarrow> (Inr c, s')
      | (Refused, s') \<Rightarrow> (Inl trash_unavailable, s')
      | (NextName, s') \<Rightarrow> put_tries encode date says name original topdir shown is_dir ns s')"

definition trash_put ::
  "(string \<Rightarrow> string) \<Rightarrow> string \<Rightarrow> (nat \<Rightarrow> put_says) \<Rightarrow> string \<Rightarrow> path \<Rightarrow> path option \<Rightarrow> bool
     \<Rightarrow> put_state \<Rightarrow> (tool_error + string) \<times> put_state" where
  "trash_put encode date says name original topdir is_dir s =
     put_tries encode date says name original topdir
       (if original = [] then name else last original) is_dir
       [0 ..< NUMBERED_TRIES + RANDOM_TRIES] s"

section \<open>Which trash\<close>

datatype node_kind = DirNode | FileNode | LinkNode

record tnode =
  tn_kind :: node_kind
  tn_uid :: nat
  tn_sticky :: bool
  tn_dev :: nat

type_synonym tfs = "path \<Rightarrow> tnode option"

text \<open>
  The nodes at paths none of whose parents is a link. Making and opening: what the system
  refuses beside what the nodes say. A directory made is the user's, on the device of the
  directory it is made in.
\<close>

record dir_says =
  dy_uid :: nat
  dy_make :: "path \<Rightarrow> bool"
  dy_open :: "path \<Rightarrow> bool"

definition own_node :: "dir_says \<Rightarrow> nat \<Rightarrow> tnode" where
  "own_node says dev = \<lparr>tn_kind = DirNode, tn_uid = dy_uid says, tn_sticky = False, tn_dev = dev\<rparr>"

text \<open>\<open>DirBuilder::create\<close>, with the parents when \<open>recursive\<close>: from the top down.\<close>

definition make_dir :: "dir_says \<Rightarrow> path \<Rightarrow> tfs \<Rightarrow> tfs option" where
  "make_dir says p fs = (case (fs p, if p = [] then None else fs (butlast p)) of
     (None, Some parent) \<Rightarrow>
       if tn_kind parent = DirNode \<and> dy_make says p
       then Some (fs(p := Some (own_node says (tn_dev parent)))) else None
   | _ \<Rightarrow> None)"

fun make_dirs :: "dir_says \<Rightarrow> path list \<Rightarrow> tfs \<Rightarrow> bool \<times> tfs" where
  "make_dirs says [] fs = (True, fs)"
| "make_dirs says (p # ps) fs =
     (if fs p \<noteq> None then make_dirs says ps fs
      else (case make_dir says p fs of None \<Rightarrow> (False, fs) | Some fs' \<Rightarrow> make_dirs says ps fs'))"

definition ancestors_down :: "path \<Rightarrow> path list" where
  "ancestors_down p = map (\<lambda>n. take n p) [0 ..< length p + 1]"

text \<open>Opened without following a link, then checked to be a directory of the user's.\<close>

definition open_checked :: "dir_says \<Rightarrow> path \<Rightarrow> tfs \<Rightarrow> string + unit" where
  "open_checked says p fs = (case fs p of
     None \<Rightarrow> Inl (''opening '' @ show_path p)
   | Some node \<Rightarrow>
       if tn_kind node \<noteq> DirNode then Inl (show_path p @ '' is not a directory'')
       else if \<not> dy_open says p then Inl (''opening '' @ show_path p)
       else if tn_uid node \<noteq> dy_uid says then Inl (show_path p @ '' belongs to another user'')
       else Inr ())"

definition open_own_dir :: "dir_says \<Rightarrow> path \<Rightarrow> bool \<Rightarrow> tfs \<Rightarrow> (string + unit) \<times> tfs" where
  "open_own_dir says p recursive fs =
     (if fs p \<noteq> None then (open_checked says p fs, fs)
      else (case make_dirs says (if recursive then ancestors_down p else [p]) fs of
          (False, fs') \<Rightarrow> (Inl (''creating '' @ show_path p), fs')
        | (True, fs') \<Rightarrow> (open_checked says p fs', fs')))"

definition open_own_subdir :: "dir_says \<Rightarrow> path \<Rightarrow> tfs \<Rightarrow> (string + unit) \<times> tfs" where
  "open_own_subdir says p fs =
     (if fs p \<noteq> None then (open_checked says p fs, fs)
      else (case make_dir says p fs of
          None \<Rightarrow> (Inl (''creating '' @ show_path p), fs)
        | Some fs' \<Rightarrow> (open_checked says p fs', fs')))"

record trash_location =
  tl_base :: path
  tl_files :: path
  tl_info :: path
  tl_topdir :: "path option"

definition freedesktop :: "dir_says \<Rightarrow> path \<Rightarrow> path option \<Rightarrow> tfs \<Rightarrow> (string + trash_location) \<times> tfs" where
  "freedesktop says base topdir fs =
     (case open_own_subdir says (base @ [''files'']) fs of
        (Inl e, fs1) \<Rightarrow> (Inl e, fs1)
      | (Inr _, fs1) \<Rightarrow> (case open_own_subdir says (base @ [''info'']) fs1 of
          (Inl e, fs2) \<Rightarrow> (Inl e, fs2)
        | (Inr _, fs2) \<Rightarrow> (Inr \<lparr>tl_base = base, tl_files = base @ [''files''],
                                tl_info = base @ [''info''], tl_topdir = topdir\<rparr>, fs2)))"

definition topdir :: "nat \<Rightarrow> path \<Rightarrow> tfs \<Rightarrow> path option" where
  "topdir dev near fs =
     (let up = takeWhile (\<lambda>p. case fs p of
              Some node \<Rightarrow> tn_dev node = dev \<and> tn_kind node = DirNode | None \<Rightarrow> False)
            (rev (ancestors_down near))
      in if up = [] then None else Some (last up))"

definition shared_trash_ok :: "tnode \<Rightarrow> bool" where
  "shared_trash_ok node \<longleftrightarrow> tn_kind node = DirNode \<and> tn_sticky node \<and> tn_uid node = 0"

definition topdir_trash :: "dir_says \<Rightarrow> path \<Rightarrow> tfs \<Rightarrow> (string + path) \<times> tfs" where
  "topdir_trash says mount fs =
     (case fs mount of
        None \<Rightarrow> (Inl (''opening '' @ show_path mount), fs)
      | Some t \<Rightarrow>
          if tn_kind t \<noteq> DirNode \<or> \<not> dy_open says mount then (Inl (''opening '' @ show_path mount), fs)
          else
            (let shared = mount @ [''.Trash''];
                 mine = shared @ [show_nat (dy_uid says)];
                 own = mount @ [''.Trash-'' @ show_nat (dy_uid says)];
                 usable = (case fs shared of
                     Some node \<Rightarrow> shared_trash_ok node \<and> dy_open says shared | None \<Rightarrow> False);
                 (r, fs1) = (if usable then open_own_subdir says mine fs else (Inl [], fs))
             in case r of
                  Inr _ \<Rightarrow> (Inr mine, fs1)
                | Inl _ \<Rightarrow> (case open_own_subdir says own fs1 of
                    (Inl e, fs2) \<Rightarrow> (Inl e, fs2)
                  | (Inr _, fs2) \<Rightarrow> (Inr own, fs2))))"

definition trash_location :: "dir_says \<Rightarrow> path option \<Rightarrow> nat \<Rightarrow> path \<Rightarrow> tfs \<Rightarrow> (string + trash_location) \<times> tfs" where
  "trash_location says home dev near fs = (case home of
     None \<Rightarrow> (Inl ''no home trash'', fs)
   | Some h \<Rightarrow> (case open_own_dir says h True fs of
       (Inl e, fs1) \<Rightarrow> (Inl e, fs1)
     | (Inr _, fs1) \<Rightarrow>
         if map_option tn_dev (fs1 h) = Some dev then freedesktop says h None fs1
         else (case topdir dev near fs1 of
             None \<Rightarrow> (Inl ''the item's filesystem has no top directory'', fs1)
           | Some mount \<Rightarrow> (case topdir_trash says mount fs1 of
               (Inl e, fs2) \<Rightarrow> (Inl e, fs2)
             | (Inr base, fs2) \<Rightarrow> freedesktop says base (Some mount) fs2))))"

text \<open>\<open>prepare\<close>: the directories of the trashes of the shared folders, each once.\<close>

fun trash_prepare :: "dir_says \<Rightarrow> path option \<Rightarrow> path list \<Rightarrow> path list \<Rightarrow> tfs \<Rightarrow> path list \<times> tfs" where
  "trash_prepare says home [] dirs fs = (dirs, fs)"
| "trash_prepare says home (r # rs) dirs fs = (case fs r of
     None \<Rightarrow> trash_prepare says home rs dirs fs
   | Some node \<Rightarrow> (case trash_location says home (tn_dev node) r fs of
       (Inl _, fs') \<Rightarrow> trash_prepare says home rs dirs fs'
     | (Inr loc, fs') \<Rightarrow> trash_prepare says home rs
         (if tl_base loc \<in> set dirs then dirs else dirs @ [tl_base loc]) fs'))"

section \<open>Putting an item in its trash\<close>

text \<open>
  \<open>put\<close>: the trash is found from the folder the item is in, then takes it. \<open>s\<close> holds the item's
  folder and what the two directories of that trash hold.
\<close>

definition trash_put_in ::
  "(string \<Rightarrow> string) \<Rightarrow> string \<Rightarrow> dir_says \<Rightarrow> path option \<Rightarrow> (nat \<Rightarrow> put_says) \<Rightarrow> string \<Rightarrow> path
     \<Rightarrow> nat \<Rightarrow> bool \<Rightarrow> tfs \<Rightarrow> put_state \<Rightarrow> (tool_error + path) \<times> tfs \<times> put_state" where
  "trash_put_in encode date dirs home says name original dev is_dir fs s =
     (case trash_location dirs home dev (if original = [] then [] else butlast original) fs of
        (Inl _, fs') \<Rightarrow> (Inl trash_unavailable, fs', s)
      | (Inr loc, fs') \<Rightarrow>
          (case trash_put encode date says name original (tl_topdir loc) is_dir s of
             (Inl e, s') \<Rightarrow> (Inl e, fs', s')
           | (Inr c, s') \<Rightarrow> (Inr (tl_files loc @ [c]), fs', s')))"

end
