(* ===== verification/TrashClaims.thy ===== *)
theory TrashClaims
  imports Trash
begin

text \<open>
  What the trash guarantees: an item goes there whole under a name nothing had, or stays where
  it was; nothing there is ever replaced; names fit; and the directories it uses are the user's.
\<close>

section \<open>Renaming\<close>

lemma sys_move_cases:
  assumes "sys_move replace says old new (src, dst) = (r, src', dst')"
  shows "case r of
      Inr _ \<Rightarrow> src old \<noteq> None \<and> (replace \<or> dst new = None)
        \<and> src' = src(old := None) \<and> dst' = dst(new := src old)
    | Inl e \<Rightarrow> src' = src \<and> dst' = dst"
  using assms by (auto simp: sys_move_def split: option.splits if_splits)

definition renamed_well :: "string \<Rightarrow> string \<Rightarrow> names \<times> names \<Rightarrow> (errno + unit) \<times> names \<times> names \<Rightarrow> bool" where
  "renamed_well old new st r \<longleftrightarrow> (case (st, r) of ((src, dst), (res, src', dst')) \<Rightarrow>
     (case res of
        Inr _ \<Rightarrow> src old \<noteq> None \<and> dst new = None \<and> src' = src(old := None) \<and> dst' = dst(new := src old)
      | Inl e \<Rightarrow> src' = src \<and> (dst' = dst \<or> (dst new = None \<and> src old \<noteq> None \<and> dst' = dst(new := src old)))))"

lemma sys_move_well:
  assumes "replace \<Longrightarrow> snd st new = None"
  shows "renamed_well old new st (sys_move replace says old new st)"
proof -
  obtain src dst where st: "st = (src, dst)" by (cases st)
  obtain r src' dst' where m: "sys_move replace says old new (src, dst) = (r, src', dst')"
    by (cases "sys_move replace says old new (src, dst)") auto
  from sys_move_cases [OF m] assms show ?thesis
    by (auto simp: renamed_well_def st m split: sum.splits)
qed

lemma rename_fallback_well: "renamed_well old new st (rename_fallback says old new st)"
proof -
  obtain src dst where st: "st = (src, dst)" by (cases st)
  obtain r rest where Pair: "sys_link (ry_link says) old new st = (r, rest)"
    by (cases "sys_link (ry_link says) old new st")
  show ?thesis
    proof (cases r)
      case (Inl e)
      then have "rest = st" using Pair
        by (auto simp: sys_link_def st split: option.splits if_splits)
      with Inl Pair sys_move_well [of True st new old "ry_rename says"] show ?thesis
        by (auto simp: rename_fallback_def renamed_well_def st)
    next
      case (Inr u)
      obtain x where x: "src old = Some x" "dst new = None" "rest = (src, dst(new := Some x))"
        using Inr Pair by (auto simp: sys_link_def st split: option.splits if_splits)
      show ?thesis
        by (cases "ry_unlink_old says"; cases "ry_unlink_new says")
          (use x in \<open>simp_all add: rename_fallback_def Pair [unfolded st] Inr sys_unlink_def renamed_well_def st
            fun_upd_idem\<close>)
    qed
qed

lemma rename_noreplace_well: "renamed_well old new st (rename_noreplace says old new st)"
proof -
  obtain r st' where Pair: "sys_move False (ry_noreplace says) old new st = (r, st')"
    by (cases "sys_move False (ry_noreplace says) old new st")
  have well: "renamed_well old new st (r, st')"
    using sys_move_well [of False st new old "ry_noreplace says"] Pair by simp
  show ?thesis
  proof (cases r)
    case (Inl e)
    then have "st' = st" using Pair
      by (cases st) (auto simp: sys_move_def split: option.splits if_splits)
    with Inl Pair well rename_fallback_well show ?thesis by (simp add: rename_noreplace_def)
  qed (use well Pair in \<open>simp add: rename_noreplace_def\<close>)
qed

section \<open>Taking an item\<close>

text \<open>What a try, and a whole \<open>put\<close>, leave: \<open>s\<close> before, \<open>s'\<close> after.\<close>

definition keeps_trash :: "put_state \<Rightarrow> put_state \<Rightarrow> bool" where
  "keeps_trash s s' \<longleftrightarrow> ps_files s \<subseteq>\<^sub>m ps_files s' \<and> ps_info s \<subseteq>\<^sub>m ps_info s'"

definition takes :: "string \<Rightarrow> string \<Rightarrow> put_state \<Rightarrow> string \<Rightarrow> put_state \<Rightarrow> bool" where
  "takes name text s c s' \<longleftrightarrow> ps_dir s name \<noteq> None \<and> ps_files s c = None
     \<and> ps_info s (record_name c) = None \<and> ps_dir s' = (ps_dir s)(name := None)
     \<and> ps_files s' c = ps_dir s name \<and> ps_info s' (record_name c) = Some text"

lemma write_record_cases:
  assumes "write_record says c text info = (r, info')"
  shows "case r of
      Inr _ \<Rightarrow> info (record_name c) = None \<and> info' = info(record_name c := Some text)
    | Inl e \<Rightarrow> info \<subseteq>\<^sub>m info'"
  using assms by (auto simp: write_record_def Let_def map_le_def split: option.splits if_splits)

lemma put_once_keeps:
  assumes "put_once encode date says name original mount c s = (r, s')"
  shows "keeps_trash s s' \<and> (case r of
      Taken c' \<Rightarrow> c' = c \<and> takes name (record_text encode date original mount) s c s'
    | _ \<Rightarrow> ps_dir s' = ps_dir s)"
proof -
  let ?text = "record_text encode date original mount"
  obtain wr info where w: "write_record says c ?text (ps_info s) = (wr, info)"
    by (cases "write_record says c ?text (ps_info s)")
  note wc = write_record_cases [OF w]
  show ?thesis
  proof (cases wr)
    case (Inl e)
    then show ?thesis using assms w wc
      by (auto simp: put_once_def keeps_trash_def split: if_splits)
  next
    case (Inr u)
    with wc have info: "ps_info s (record_name c) = None" "info = (ps_info s)(record_name c := Some ?text)"
      by auto
    obtain rr src dst where ren: "rename_noreplace (py_rename says) name c (ps_dir s, ps_files s) = (rr, src, dst)"
      by (cases "rename_noreplace (py_rename says) name c (ps_dir s, ps_files s)") auto
    note well = rename_noreplace_well [of name c "(ps_dir s, ps_files s)" "py_rename says", unfolded ren]
    have le: "ps_info s \<subseteq>\<^sub>m info" "ps_info s \<subseteq>\<^sub>m info(record_name c := None)"
      using info by (auto simp: map_le_def)
    show ?thesis
    proof (cases rr)
      case (Inl e)
      with well have "src = ps_dir s" "ps_files s \<subseteq>\<^sub>m dst"
        by (auto simp: renamed_well_def map_le_def)
      then show ?thesis using assms w Inr ren Inl le
        by (auto simp: put_once_def keeps_trash_def split: if_splits)
    next
      case (Inr v)
      with well have "ps_dir s name \<noteq> None" "ps_files s c = None" "src = (ps_dir s)(name := None)"
        "dst = (ps_files s)(c := ps_dir s name)"
        by (auto simp: renamed_well_def)
      moreover from this(2,4) have "ps_files s \<subseteq>\<^sub>m dst" by (auto simp: map_le_def)
      moreover have "s' = \<lparr>ps_dir = src, ps_files = dst, ps_info = info\<rparr>" "r = Taken c"
        using assms w ren Inr \<open>wr = Inr u\<close> by (auto simp: put_once_def)
      ultimately show ?thesis using le(1) info by (auto simp: keeps_trash_def takes_def)
    qed
  qed
qed

lemma keeps_trash_trans: "keeps_trash a b \<Longrightarrow> keeps_trash b c \<Longrightarrow> keeps_trash a c"
  by (auto simp: keeps_trash_def intro: map_le_trans)

lemma keeps_trash_None:
  "keeps_trash a b \<Longrightarrow> ps_files b c = None \<Longrightarrow> ps_files a c = None"
  "keeps_trash a b \<Longrightarrow> ps_info b c = None \<Longrightarrow> ps_info a c = None"
  unfolding keeps_trash_def map_le_def by (metis domIff)+

lemma put_tries_keeps:
  "put_tries encode date says name original mount shown is_dir ns s = (r, s') \<Longrightarrow>
   keeps_trash s s' \<and> (case r of
      Inr c \<Rightarrow> takes name (record_text encode date original mount) s c s'
        \<and> c \<in> candidate_name shown is_dir says ` set ns
    | Inl e \<Rightarrow> ps_dir s' = ps_dir s \<and> e = trash_unavailable)"
proof (induction ns arbitrary: s)
  case Nil
  then show ?case by (auto simp: keeps_trash_def)
next
  case (Cons n ns)
  let ?c = "candidate_name shown is_dir says n"
  obtain t s1 where o: "put_once encode date (says n) name original mount ?c s = (t, s1)"
    by (cases "put_once encode date (says n) name original mount ?c s")
  note once = put_once_keeps [OF o]
  show ?case
  proof (cases t)
    case (Taken c)
    with Cons.prems o once show ?thesis by auto
  next
    case Refused
    with Cons.prems o once show ?thesis by auto
  next
    case NextName
    with once have k: "keeps_trash s s1" "ps_dir s1 = ps_dir s" by auto
    from Cons.prems o NextName have
      "put_tries encode date says name original mount shown is_dir ns s1 = (r, s')" by simp
    from Cons.IH [OF this] k keeps_trash_None [OF k(1)] keeps_trash_trans [OF k(1)] show ?thesis
      by (cases r) (auto simp: takes_def)
  qed
qed

text \<open>
  C27: Whatever the operating system refuses, the trash takes an item whole or leaves it: taken,
  it is there under a name that nothing had, with the record to put it back, and gone from its
  folder; refused, its folder is as it was. Nothing in the trash and no record is ever replaced.
\<close>

theorem trash_takes_items_whole_or_leaves_them:
  assumes "trash_put encode date says name original mount is_dir s = (r, s')"
  shows "ps_files s \<subseteq>\<^sub>m ps_files s' \<and> ps_info s \<subseteq>\<^sub>m ps_info s' \<and> (case r of
      Inr c \<Rightarrow> ps_dir s name \<noteq> None \<and> ps_files s c = None \<and> ps_info s (record_name c) = None
        \<and> ps_dir s' = (ps_dir s)(name := None) \<and> ps_files s' c = ps_dir s name
        \<and> ps_info s' (record_name c) = Some (record_text encode date original mount)
    | Inl e \<Rightarrow> e = trash_unavailable \<and> ps_dir s' = ps_dir s)"
proof -
  from put_tries_keeps [OF assms [unfolded trash_put_def]] show ?thesis
    by (cases r) (auto simp: keeps_trash_def takes_def)
qed

definition demo_says :: put_says where
  "demo_says = \<lparr>py_open = None, py_written = True, py_unlink_failed_write = None, py_unlink_record = None,
     py_rename = \<lparr>ry_noreplace = Some EINVAL, ry_link = None, ry_unlink_old = None,
       ry_unlink_new = None, ry_stat = None, ry_rename = None\<rparr>, py_random = [1, 2, 3, 4]\<rparr>"

definition demo_put :: put_state where
  "demo_put = \<lparr>ps_dir = (\<lambda>_. None)(''a.md'' := Some \<lparr>it_id = 7, it_dir = False\<rparr>),
     ps_files = (\<lambda>_. None), ps_info = (\<lambda>_. None)\<rparr>"

theorem trash_takes_items_whole_or_leaves_them_witness:
  "\<exists>c s'. trash_put id ''2026-01-01T00:00:00'' (\<lambda>_. demo_says) ''a.md'' [''home'', ''a.md''] None False demo_put
      = (Inr c, s') \<and> ps_files s' c = Some \<lparr>it_id = 7, it_dir = False\<rparr> \<and> ps_dir s' ''a.md'' = None"
proof -
  let ?r = "trash_put id ''2026-01-01T00:00:00'' (\<lambda>_. demo_says) ''a.md'' [''home'', ''a.md''] None False demo_put"
  have upt: "[0 ..< NUMBERED_TRIES + RANDOM_TRIES] = 0 # [Suc 0 ..< NUMBERED_TRIES + RANDOM_TRIES]"
    by (rule upt_conv_Cons) (simp add: NUMBERED_TRIES_def)
  have once: "\<exists>s'. put_once id date demo_says ''a.md'' original None c demo_put = (Taken c, s')" for date original c
    by (simp add: put_once_def demo_says_def demo_put_def write_record_def rename_noreplace_def
        rename_fallback_def sys_move_def sys_link_def sys_unlink_def Let_def)
  have tries: "\<exists>c s'. put_tries id date (\<lambda>_. demo_says) ''a.md'' original None shown is_dir (n # ns) demo_put
      = (Inr c, s')" for date original shown is_dir n ns
    using once [of date original "candidate_name shown is_dir (\<lambda>_. demo_says) n"] by auto
  obtain c s' where r: "?r = (Inr c, s')"
    unfolding trash_put_def upt using tries by blast
  from trash_takes_items_whole_or_leaves_them [OF r]
  have "ps_dir s' = (ps_dir demo_put)(''a.md'' := None)" "ps_files s' c = ps_dir demo_put ''a.md''"
    by simp_all
  then have "ps_files s' c = Some \<lparr>it_id = 7, it_dir = False\<rparr>" "ps_dir s' ''a.md'' = None"
    by (simp_all add: demo_put_def)
  with r show ?thesis by blast
qed

section \<open>Names fit\<close>

lemma prev_boundary_at_le: "prev_boundary_at s n \<le> n"
  by (induction s n rule: prev_boundary_at.induct) (subst prev_boundary_at.simps, force)

lemma suffixed_fits:
  assumes "length suffix \<le> most"
  shows "length (suffixed name suffix is_dir most) \<le> most"
proof -
  obtain stem ext where se: "(case rsplit_once (CHR ''.'') name of
      Some (stem, ext) \<Rightarrow> if \<not> is_dir \<and> stem \<noteq> [] then (stem, CHR ''.'' # ext) else (name, [])
    | None \<Rightarrow> (name, [])) = (stem, ext)"
    by (cases "case rsplit_once (CHR ''.'') name of
      Some (stem, ext) \<Rightarrow> if \<not> is_dir \<and> stem \<noteq> [] then (stem, CHR ''.'' # ext) else (name, [])
    | None \<Rightarrow> (name, [])")
  let ?room = "most - (length suffix + length ext)"
  define kept_stem where "kept_stem = (if ?room < length stem then take (prev_boundary_at stem ?room) stem else stem)"
  have stem: "length kept_stem \<le> ?room"
    using prev_boundary_at_le [of stem ?room] by (simp add: kept_stem_def)
  have eq: "suffixed name suffix is_dir most = kept_stem @ suffix
      @ (if kept_stem = [] \<and> most - length suffix < length ext then [] else ext)"
    unfolding suffixed_def Let_def se kept_stem_def by simp
  show ?thesis
  proof (cases "length suffix + length ext \<le> most")
    case True
    with stem have "length kept_stem + (length suffix + length ext) \<le> most" by linarith
    with assms show ?thesis unfolding eq by simp
  next
    case False
    with stem have "kept_stem = []" by simp
    with False assms show ?thesis unfolding eq by simp
  qed
qed

text \<open>A name in the trash leaves room for the record's own name within 255 bytes.\<close>

lemma record_names_fit:
  assumes "length (py_random (says n)) = 4"
  shows "length (record_name (candidate_name shown is_dir says n)) \<le> 255"
proof -
  have number: "length (if n = 0 then [] else ''.'' @ show_nat (n + 1)) \<le> 245" if "n < NUMBERED_TRIES"
    using show_nat_length [of "n + 1" 4] that by (simp add: NUMBERED_TRIES_def)
  have random: "length (''.'' @ concat (map (\<lambda>b. [hex_char (b div 16), hex_char (b mod 16)]) bytes)) =
      1 + 2 * length bytes" for bytes :: "nat list"
    by (induction bytes) simp_all
  show ?thesis
    using suffixed_fits [of _ 245] number random assms
    by (simp add: record_name_def candidate_name_def numbered_def randomized_def)
qed

end
