(* ===== verification/Lines.thy ===== *)
theory Lines
  imports StdText
begin

text \<open>
  Reading bounded lines off a stream that gives its bytes in pieces: the loop
  \<open>Frames::next\<close> of \<open>src/notifications/supervisor.rs\<close> and \<open>read_frame\<close> of
  \<open>notification-broker/src/lib.rs\<close> share. A piece is what \<open>fill_buf\<close> has: \<open>None\<close> if reading
  fails, no bytes at the end of the stream; when none is left the reader waits.
\<close>

datatype frame_result = FrameLine string | FrameTooLarge | FrameEnd | FrameError | FrameWaiting

fun next_frame :: "nat \<Rightarrow> string \<Rightarrow> string option list \<Rightarrow> frame_result \<times> string \<times> string option list" where
  "next_frame most frame [] = (FrameWaiting, frame, [])"
| "next_frame most frame (None # rest) = (FrameError, frame, rest)"
| "next_frame most frame (Some bytes # rest) =
     (if bytes = [] then (FrameEnd, frame, Some bytes # rest)
      else
        (let before = takeWhile (\<lambda>c. c \<noteq> CHR 0x0A) bytes;
             newline = length before < length bytes;
             count = (if newline then length before + 1 else length bytes)
         in if most < length frame + count then (FrameTooLarge, frame, Some bytes # rest)
            else if newline
            then (FrameLine (frame @ take count bytes), [],
                  if drop count bytes = [] then rest else Some (drop count bytes) # rest)
            else next_frame most (frame @ bytes) rest))"

text \<open>What reading comes to when all the bytes there are come at once.\<close>

definition line_of :: "string \<Rightarrow> string" where
  "line_of s = takeWhile (\<lambda>c. c \<noteq> CHR 0x0A) s @ [CHR 0x0A]"

definition whole_frame :: "nat \<Rightarrow> string \<Rightarrow> frame_result" where
  "whole_frame most s =
     (if CHR 0x0A \<in> set s
      then (if length (line_of s) \<le> most then FrameLine (line_of s) else FrameTooLarge)
      else if length s \<le> most then FrameWaiting else FrameTooLarge)"

lemma takeWhile_newline:
  "length (takeWhile (\<lambda>c. c \<noteq> CHR 0x0A) s) < length s \<longleftrightarrow> CHR 0x0A \<in> set s"
  by (induction s) auto

lemma take_line:
  "CHR 0x0A \<in> set s \<Longrightarrow> take (Suc (length (takeWhile (\<lambda>c. c \<noteq> CHR 0x0A) s))) s = line_of s"
  by (induction s) (auto simp: line_of_def)

lemma line_of_append:
  "CHR 0x0A \<notin> set f \<Longrightarrow> line_of (f @ s) = f @ line_of s"
  by (induction f) (auto simp: line_of_def)

lemma line_of_first: "CHR 0x0A \<in> set s \<Longrightarrow> line_of (s @ t) = line_of s"
  by (simp add: line_of_def takeWhile_append1 [where x = "CHR 0x0A"])

lemma line_of_length: "CHR 0x0A \<in> set s \<Longrightarrow> length (line_of s) \<le> length s"
  by (metis le_add1 length_append append_take_drop_id take_line)

lemma next_frame_whole:
  assumes "list_all (\<lambda>b. b \<noteq> []) bs" "CHR 0x0A \<notin> set frame" "length frame \<le> most"
  shows "fst (next_frame most frame (map Some bs)) = whole_frame most (frame @ concat bs)
    \<and> (case next_frame most frame (map Some bs) of
        (FrameLine l, f, rest) \<Rightarrow> f = [] \<and> l @ concat (map the rest) = frame @ concat bs
          \<and> list_all (\<lambda>b. b \<noteq> None \<and> b \<noteq> Some []) rest
      | (FrameWaiting, f, rest) \<Rightarrow> f = frame @ concat bs \<and> rest = []
      | _ \<Rightarrow> True)"
  using assms
proof (induction bs arbitrary: frame)
  case Nil
  then show ?case by (simp add: whole_frame_def)
next
  case (Cons b bs)
  let ?before = "takeWhile (\<lambda>c. c \<noteq> CHR 0x0A) b"
  from Cons.prems have b: "b \<noteq> []" and bs: "list_all (\<lambda>b. b \<noteq> []) bs" by auto
  have ends: "list_all (\<lambda>b. b \<noteq> None \<and> b \<noteq> Some []) (map Some bs)"
    using bs by (induction bs) auto
  show ?case
  proof (cases "CHR 0x0A \<in> set b")
    case True
    then have nl: "length ?before < length b" by (simp add: takeWhile_newline)
    have line: "line_of (frame @ b @ concat bs) = frame @ line_of b"
      using True Cons.prems(2) by (simp add: line_of_append line_of_first)
    have len: "length (line_of b) = Suc (length ?before)" by (simp add: line_of_def)
    have split: "line_of b @ drop (Suc (length ?before)) b = b"
      using True by (metis append_take_drop_id take_line)
    show ?thesis
    proof (cases "most < length frame + Suc (length ?before)")
      case True
      with nl b line len \<open>CHR 0x0A \<in> set b\<close> show ?thesis
        by (simp add: whole_frame_def)
    next
      case False
      with nl b line len split \<open>CHR 0x0A \<in> set b\<close> ends show ?thesis
        by (auto simp: whole_frame_def take_line comp_def Let_def)
    qed
  next
    case False
    then have nl: "\<not> length ?before < length b" by (simp add: takeWhile_newline)
    show ?thesis
    proof (cases "most < length frame + length b")
      case True
      have "most < length (line_of (frame @ b @ concat bs))"
        using False True Cons.prems(2) by (simp add: line_of_append)
      with True nl b False Cons.prems(2) show ?thesis
        by (auto simp: whole_frame_def)
    next
      case fits: False
      from Cons.IH [of "frame @ b"] bs fits False Cons.prems(2) nl b show ?thesis
      by (simp split: prod.splits frame_result.splits)
    qed
  qed
qed

end
