(* ===== verification/Supervisor.thy ===== *)
theory Supervisor
  imports Protocol Lines "HOL-Library.AList"
begin

text \<open>
  \<open>src/notifications/supervisor.rs\<close>: the daemon's task that owns the notification helper. Its
  state (\<open>State\<close>), the handling of a command, and the loop, a step for each branch of its
  \<open>select!\<close>. What a process does and when is an input; the JSON codec serde derives is a
  parameter. Instants are milliseconds. The order in which a \<open>HashMap\<close> gives up its entries is
  the order of the list here; no property rests on it.
\<close>

definition SUP_COMMAND_CAPACITY :: nat where "SUP_COMMAND_CAPACITY = 32"
definition SUP_EVENT_CAPACITY :: nat where "SUP_EVENT_CAPACITY = 128"
definition IO_TIMEOUT :: nat where "IO_TIMEOUT = 10000"
definition RESTART_DELAY :: nat where "RESTART_DELAY = 1000"
definition PROTOCOL_VERSION :: nat where "PROTOCOL_VERSION = 2"

section \<open>The state\<close>

record active =
  ac_attempt :: nat
  ac_awaiting :: "nat option"

text \<open>\<open>Some None\<close> is a prompt the person may leave open.\<close>

record sup_state =
  su_active :: "(string \<times> active) list"
  su_last :: nat
  su_permission :: "nat option option"

definition sup_init :: sup_state where
  "sup_init = \<lparr>su_active = [], su_last = 0, su_permission = None\<rparr>"

definition sup_validate :: "command \<Rightarrow> sup_state \<Rightarrow> (string + unit) \<times> sup_state" where
  "sup_validate c s = (case validate c of
     Inl e \<Rightarrow> (Inl e, s)
   | Inr _ \<Rightarrow> (case c of
       Show i attempt title body \<Rightarrow> (case attempt of
           None \<Rightarrow> (Inl ''Missing notification attempt'', s)
         | Some a \<Rightarrow>
             if a \<le> su_last s then (Inl ''Notification attempts must increase'', s)
             else (let s = s\<lparr>su_last := a\<rparr>
                   in if map_of (su_active s) i = None \<and> MAX_ACTIVE \<le> length (su_active s)
                      then (Inl ''Too many active notifications'', s) else (Inr (), s)))
     | Withdraw i \<Rightarrow> (Inr (), s)
     | Exit \<Rightarrow> (Inr (), s)
     | _ \<Rightarrow> if su_permission s \<noteq> None
            then (Inl ''Notification permission query already in progress'', s) else (Inr (), s)))"

fun sup_sent :: "nat \<Rightarrow> command \<Rightarrow> sup_state \<Rightarrow> sup_state" where
  "sup_sent now (Show i (Some a) title body) s =
     s\<lparr>su_active := AList.update i \<lparr>ac_attempt = a, ac_awaiting = Some (now + IO_TIMEOUT)\<rparr> (su_active s)\<rparr>"
| "sup_sent now (Withdraw i) s = s\<lparr>su_active := AList.delete i (su_active s)\<rparr>"
| "sup_sent now PermissionQuery s = s\<lparr>su_permission := Some (Some (now + IO_TIMEOUT))\<rparr>"
| "sup_sent now RequestPermission s = s\<lparr>su_permission := Some None\<rparr>"
| "sup_sent now _ s = s"

text \<open>The event is about \<open>attempt\<close> of \<open>i\<close>; \<open>shown\<close> if it says the system accepted it.\<close>

definition accept_for :: "string \<Rightarrow> nat option \<Rightarrow> bool \<Rightarrow> sup_state \<Rightarrow> (string + bool) \<times> sup_state" where
  "accept_for i attempt shown s = (case validate_id i of
     Inl e \<Rightarrow> (Inl e, s)
   | Inr _ \<Rightarrow> (case map_of (su_active s) i of
       None \<Rightarrow> (Inr False, s)
     | Some a \<Rightarrow>
         if attempt \<noteq> Some (ac_attempt a) then (Inr False, s)
         else if shown
         then (Inr (ac_awaiting a \<noteq> None),
               s\<lparr>su_active := AList.update i (a\<lparr>ac_awaiting := None\<rparr>) (su_active s)\<rparr>)
         else (Inr True, s\<lparr>su_active := AList.delete i (su_active s)\<rparr>)))"

fun sup_accept :: "event \<Rightarrow> sup_state \<Rightarrow> (string + bool) \<times> sup_state" where
  "sup_accept (Ready v) s = (Inl ''Unexpected notification handshake'', s)"
| "sup_accept (PermissionEvent p) s = (Inr (su_permission s \<noteq> None), s\<lparr>su_permission := None\<rparr>)"
| "sup_accept (Failed None None msg) s = (Inr True, s\<lparr>su_permission := None\<rparr>)"
| "sup_accept (Failed None (Some a) msg) s = (Inl ''Invalid notification event'', s)"
| "sup_accept (Failed (Some i) attempt msg) s = accept_for i attempt False s"
| "sup_accept (Shown i attempt) s = accept_for i attempt True s"
| "sup_accept (Activated i attempt action) s = accept_for i attempt False s"
| "sup_accept (Dismissed i attempt) s = accept_for i attempt False s"
| "sup_accept (Closed i attempt) s = accept_for i attempt False s"

definition sup_deadlines :: "sup_state \<Rightarrow> nat list" where
  "sup_deadlines s = List.map_filter (\<lambda>(i, a). ac_awaiting a) (su_active s)
     @ (case su_permission s of Some (Some d) \<Rightarrow> [d] | _ \<Rightarrow> [])"

definition sup_deadline :: "sup_state \<Rightarrow> nat option" where
  "sup_deadline s = (if sup_deadlines s = [] then None else Some (Min (set (sup_deadlines s))))"

definition sup_fail :: "string \<Rightarrow> sup_state \<Rightarrow> event list \<times> sup_state" where
  "sup_fail msg s =
     (List.map_filter (\<lambda>(i, a). map_option (\<lambda>_. Failed (Some i) (Some (ac_attempt a)) msg) (ac_awaiting a))
        (su_active s) @ [Failed None None msg],
      s\<lparr>su_active := [], su_permission := None\<rparr>)"

definition command_failure :: "command \<Rightarrow> string \<Rightarrow> event" where
  "command_failure c msg =
     Failed (command_id c) (case c of Show i attempt title body \<Rightarrow> attempt | _ \<Rightarrow> None) msg"

section \<open>The helper's process\<close>

text \<open>\<open>Frames::next\<close>: a frame read, then checked.\<close>

definition check_event :: "event \<Rightarrow> string + event" where
  "check_event e = (case (case e of
       Activated i attempt (Some action) \<Rightarrow> validate_id action | _ \<Rightarrow> Inr ()) of
     Inl err \<Rightarrow> Inl err
   | Inr _ \<Rightarrow> (case e of
       Failed i attempt msg \<Rightarrow>
         if MAX_TITLE_BYTES < length msg \<or> list_ex is_control (utf8_chars msg)
         then Inl ''Invalid notification error'' else Inr e
     | _ \<Rightarrow> Inr e))"

text \<open>\<open>None\<close> while there is no whole frame yet.\<close>

definition frames_next ::
  "(string \<Rightarrow> event option) \<Rightarrow> string \<Rightarrow> string option list
     \<Rightarrow> (string + event) option \<times> string \<times> string option list" where
  "frames_next parse frame pieces = (case next_frame MAX_FRAME_BYTES frame pieces of
     (FrameWaiting, st) \<Rightarrow> (None, st)
   | (FrameError, st) \<Rightarrow> (Some (Inl ''Cannot read notification event''), st)
   | (FrameEnd, st) \<Rightarrow> (Some (Inl ''Notification helper output closed''), st)
   | (FrameTooLarge, st) \<Rightarrow> (Some (Inl ''Notification event too large''), st)
   | (FrameLine l, st) \<Rightarrow> (Some (case parse l of
         None \<Rightarrow> Inl ''Invalid notification event'' | Some e \<Rightarrow> check_event e), st))"

text \<open>What starting a helper meets: \<open>hp_ready\<close> is the first event, \<open>None\<close> if it takes too long.\<close>

record helper_says =
  hp_absolute :: bool
  hp_spawned :: bool
  hp_stdin :: bool
  hp_stdout :: bool
  hp_ready :: "(string + event) option"

definition session_start :: "helper_says \<Rightarrow> string + unit" where
  "session_start h =
     (if \<not> hp_absolute h then Inl ''Notification helper path must be absolute''
      else if \<not> hp_spawned h then Inl ''Cannot start notification helper''
      else if \<not> hp_stdin h then Inl ''Missing notification input''
      else if \<not> hp_stdout h then Inl ''Missing notification output''
      else (case hp_ready h of
          Some (Inr (Ready v)) \<Rightarrow> if v = PROTOCOL_VERSION then Inr ()
            else Inl ''Notification helper handshake failed''
        | _ \<Rightarrow> Inl ''Notification helper handshake failed''))"

datatype write_says = WriteDone | WriteTimedOut | WriteClosed

definition session_send :: "(command \<Rightarrow> string) \<Rightarrow> write_says \<Rightarrow> command \<Rightarrow> string + unit" where
  "session_send to_vec w c =
     (if MAX_FRAME_BYTES < length (to_vec c @ [CHR 0x0A]) then Inl ''Notification command too large''
      else (case w of
          WriteDone \<Rightarrow> Inr ()
        | WriteTimedOut \<Rightarrow> Inl ''Notification helper input timed out''
        | WriteClosed \<Rightarrow> Inl ''Notification helper input closed''))"

section \<open>The manager\<close>

text \<open>
  \<open>mg_events\<close> is the channel to the owner; \<open>mg_wire\<close> is a history, the commands handed to
  \<open>Session::send\<close> so far. A handler says whether the loop goes on.
\<close>

record manager =
  mg_session :: bool
  mg_state :: sup_state
  mg_restart_after :: nat
  mg_events :: "event chan"
  mg_wire :: "command list"
  mg_running :: bool

definition manager_new :: "nat \<Rightarrow> manager" where
  "manager_new now = \<lparr>mg_session = False, mg_state = sup_init, mg_restart_after = now,
     mg_events = channel SUP_EVENT_CAPACITY, mg_wire = [], mg_running = True\<rparr>"

text \<open>\<open>emit\<close>: a channel that stays full for ten seconds, or is closed, ends the task.\<close>

definition mg_emit :: "event \<Rightarrow> manager \<Rightarrow> bool \<times> manager" where
  "mg_emit e m = (case try_send e (mg_events m) of (ok, c) \<Rightarrow> (ok, m\<lparr>mg_events := c\<rparr>))"

fun mg_emit_all :: "event list \<Rightarrow> manager \<Rightarrow> bool \<times> manager" where
  "mg_emit_all [] m = (True, m)"
| "mg_emit_all (e # es) m = (case mg_emit e m of
     (True, m') \<Rightarrow> mg_emit_all es m' | (False, m') \<Rightarrow> (False, m'))"

definition mg_fault :: "nat \<Rightarrow> string \<Rightarrow> manager \<Rightarrow> bool \<times> manager" where
  "mg_fault now msg m = (case sup_fail msg (mg_state m) of (events, s) \<Rightarrow>
     mg_emit_all events (m\<lparr>mg_session := False, mg_restart_after := now + RESTART_DELAY, mg_state := s\<rparr>))"

text \<open>A session there is, or is started now; the flag says whether the command goes on to it.\<close>

definition mg_ensure :: "nat \<Rightarrow> helper_says \<Rightarrow> command \<Rightarrow> manager \<Rightarrow> bool \<times> bool \<times> manager" where
  "mg_ensure now h c m =
     (if mg_session m then (True, True, m)
      else if now < mg_restart_after m
      then (False, mg_emit (command_failure c ''Notification helper restarting'') m)
      else (case session_start h of
          Inr _ \<Rightarrow> (case mg_emit (Ready PROTOCOL_VERSION) (m\<lparr>mg_session := True\<rparr>) of
              (ok, m') \<Rightarrow> (ok, ok, m'))
        | Inl e \<Rightarrow> (False, mg_emit (command_failure c e) (m\<lparr>mg_restart_after := now + RESTART_DELAY\<rparr>))))"

definition mg_command ::
  "(command \<Rightarrow> string) \<Rightarrow> nat \<Rightarrow> command \<Rightarrow> helper_says \<Rightarrow> write_says \<Rightarrow> manager \<Rightarrow> bool \<times> manager" where
  "mg_command to_vec now c h w m = (case sup_validate c (mg_state m) of
     (Inl e, s) \<Rightarrow> mg_emit (command_failure c e) (m\<lparr>mg_state := s\<rparr>)
   | (Inr _, s) \<Rightarrow> (case mg_ensure now h c (m\<lparr>mg_state := s\<rparr>) of
       (False, ok, m') \<Rightarrow> (ok, m')
     | (True, _, m') \<Rightarrow>
         (let m1 = m'\<lparr>mg_state := sup_sent now c (mg_state m')\<rparr>
          in case session_send to_vec w c of
               Inr _ \<Rightarrow> (True, m1\<lparr>mg_wire := mg_wire m1 @ [c]\<rparr>)
             | Inl e \<Rightarrow> mg_fault now e (m1\<lparr>mg_wire := mg_wire m1 @ [c]\<rparr>))))"

definition mg_helper_event :: "nat \<Rightarrow> string + event \<Rightarrow> manager \<Rightarrow> bool \<times> manager" where
  "mg_helper_event now r m = (case r of
     Inl e \<Rightarrow> mg_fault now e m
   | Inr e \<Rightarrow> (case sup_accept e (mg_state m) of
       (Inl err, s) \<Rightarrow> mg_fault now err (m\<lparr>mg_state := s\<rparr>)
     | (Inr True, s) \<Rightarrow> mg_emit e (m\<lparr>mg_state := s\<rparr>)
     | (Inr False, s) \<Rightarrow> (True, m\<lparr>mg_state := s\<rparr>)))"

text \<open>
  What the loop meets: the earliest deadline passes, a command arrives (none when all senders
  are gone), the helper says something, the owner takes events off the channel, or the owner
  stops the task.
\<close>

datatype sup_input =
    DeadlinePasses nat
  | CommandIn nat "command option" helper_says write_says
  | HelperSays nat "string + event"
  | EventsTaken nat
  | OwnerStops

definition mg_stop :: "manager \<Rightarrow> manager" where
  "mg_stop m = m\<lparr>mg_session := False, mg_running := False\<rparr>"

definition mg_next :: "bool \<times> manager \<Rightarrow> manager" where
  "mg_next r = (case r of (ok, m) \<Rightarrow> if ok then m else mg_stop m)"

definition sup_step :: "(command \<Rightarrow> string) \<Rightarrow> sup_input \<Rightarrow> manager \<Rightarrow> manager" where
  "sup_step to_vec x m =
     (if \<not> mg_running m then m
      else (case x of
          DeadlinePasses now \<Rightarrow> (case sup_deadline (mg_state m) of
              Some d \<Rightarrow> if d \<le> now then mg_next (mg_fault now ''Notification helper timed out'' m) else m
            | None \<Rightarrow> m)
        | CommandIn now c h w \<Rightarrow> (case c of
              None \<Rightarrow> mg_stop m
            | Some Exit \<Rightarrow> mg_stop m
            | Some c \<Rightarrow> mg_next (mg_command to_vec now c h w m))
        | HelperSays now r \<Rightarrow> if mg_session m then mg_next (mg_helper_event now r m) else m
        | EventsTaken n \<Rightarrow> m\<lparr>mg_events := (mg_events m)\<lparr>room := min SUP_EVENT_CAPACITY (room (mg_events m) + n)\<rparr>\<rparr>
        | OwnerStops \<Rightarrow> mg_stop m))"

definition sup_run :: "(command \<Rightarrow> string) \<Rightarrow> sup_input list \<Rightarrow> manager \<Rightarrow> manager" where
  "sup_run to_vec xs m = fold (sup_step to_vec) xs m"

lemma length_AList_update:
  "length (AList.update k v xs) = length xs + (if map_of xs k = None then 1 else 0)"
  by (induction xs) auto

end
