(* ===== verification/SupervisorFacts.thy ===== *)
theory SupervisorFacts
  imports Supervisor
begin

text \<open>
  What the supervisor of the notification helper guarantees: its state stays bounded, an attempt
  is acknowledged at most once and only if it was handed to a helper, and no valid notification
  is left without an answer past its deadline.
\<close>

section \<open>The state\<close>

definition is_ack :: "nat \<Rightarrow> event \<Rightarrow> bool" where
  "is_ack a e \<longleftrightarrow> (case e of Shown i (Some b) \<Rightarrow> b = a | _ \<Rightarrow> False)"

definition acks :: "nat \<Rightarrow> event list \<Rightarrow> nat" where
  "acks a ev = length (filter (is_ack a) ev)"

definition ack_known :: "command list \<Rightarrow> event \<Rightarrow> bool" where
  "ack_known wire e \<longleftrightarrow> (case e of
     Shown i attempt \<Rightarrow> \<exists>a t b. attempt = Some a \<and> Show i (Some a) t b \<in> set wire | _ \<Rightarrow> True)"

definition state_ok :: "command list \<Rightarrow> event list \<Rightarrow> sup_state \<Rightarrow> bool" where
  "state_ok wire ev s \<longleftrightarrow> distinct (map fst (su_active s)) \<and> length (su_active s) \<le> MAX_ACTIVE
     \<and> (\<forall>i x. map_of (su_active s) i = Some x \<longrightarrow>
          ac_attempt x \<le> su_last s \<and> (\<exists>t b. Show i (Some (ac_attempt x)) t b \<in> set wire)
          \<and> (acks (ac_attempt x) ev = 0 \<or> ac_awaiting x = None)
          \<and> (\<forall>j y. map_of (su_active s) j = Some y \<and> ac_attempt x = ac_attempt y \<longrightarrow> i = j))
     \<and> (\<forall>a. acks a ev \<le> 1 \<and> (su_last s < a \<longrightarrow> acks a ev = 0)) \<and> list_all (ack_known wire) ev"

lemma state_okI [intro?]:
  assumes "distinct (map fst (su_active s))" "length (su_active s) \<le> MAX_ACTIVE"
    and "\<And>i x. map_of (su_active s) i = Some x \<Longrightarrow> ac_attempt x \<le> su_last s"
    and "\<And>i x. map_of (su_active s) i = Some x \<Longrightarrow> \<exists>t b. Show i (Some (ac_attempt x)) t b \<in> set wire"
    and "\<And>i x. map_of (su_active s) i = Some x \<Longrightarrow> acks (ac_attempt x) ev = 0 \<or> ac_awaiting x = None"
    and "\<And>i x j y. map_of (su_active s) i = Some x \<Longrightarrow> map_of (su_active s) j = Some y \<Longrightarrow>
      ac_attempt x = ac_attempt y \<Longrightarrow> i = j"
    and "\<And>a. acks a ev \<le> 1" "\<And>a. su_last s < a \<Longrightarrow> acks a ev = 0" "list_all (ack_known wire) ev"
  shows "state_ok wire ev s"
  unfolding state_ok_def
  by (intro conjI allI impI assms(1,2,7-9))
    (erule assms(3) assms(4) assms(5) | (elim conjE, erule (2) assms(6)) | assumption)+

lemma state_okD:
  assumes "state_ok wire ev s"
  shows "distinct (map fst (su_active s))" "length (su_active s) \<le> MAX_ACTIVE"
    "\<And>i x. map_of (su_active s) i = Some x \<Longrightarrow> ac_attempt x \<le> su_last s"
    "\<And>i x. map_of (su_active s) i = Some x \<Longrightarrow> \<exists>t b. Show i (Some (ac_attempt x)) t b \<in> set wire"
    "\<And>i x. map_of (su_active s) i = Some x \<Longrightarrow> acks (ac_attempt x) ev = 0 \<or> ac_awaiting x = None"
    "\<And>i x j y. map_of (su_active s) i = Some x \<Longrightarrow> map_of (su_active s) j = Some y \<Longrightarrow>
      ac_attempt x = ac_attempt y \<Longrightarrow> i = j"
    "\<And>a. acks a ev \<le> 1" "\<And>a. su_last s < a \<Longrightarrow> acks a ev = 0" "list_all (ack_known wire) ev"
  using assms unfolding state_ok_def by simp_all

lemma acks_append: "acks a (ev @ [e]) = acks a ev + (if is_ack a e then 1 else 0)"
  by (simp add: acks_def)

lemma acks_harmless: "\<not> (\<exists>b. is_ack b e) \<Longrightarrow> acks a (ev @ [e]) = acks a ev"
  by (auto simp: acks_append)

lemma ack_known_more: "ack_known wire e \<Longrightarrow> ack_known (wire @ later) e"
  by (cases e) (fastforce simp: ack_known_def)+

lemma state_ok_wire: "state_ok wire ev s \<Longrightarrow> state_ok (wire @ later) ev s"
  unfolding state_ok_def list_all_iff by (fastforce intro: ack_known_more)

lemma state_ok_harmless:
  assumes "state_ok wire ev s" "\<And>i a. e \<noteq> Shown i a"
  shows "state_ok wire (ev @ [e]) s"
proof -
  have "\<not> is_ack b e" for b using assms(2) by (cases e) (auto simp: is_ack_def)
  moreover have "ack_known wire e" using assms(2) by (cases e) (auto simp: ack_known_def)
  ultimately show ?thesis using assms(1) by (simp add: state_ok_def acks_append)
qed

lemma map_of_subset:
  "distinct (map fst xs) \<Longrightarrow> map_of (AList.delete k xs) i = (if i = k then None else map_of xs i)"
  by (simp add: delete_conv')

lemma length_delete_le: "length (AList.delete k xs) \<le> length xs"
  by (induction xs) auto

lemma state_ok_shrink:
  assumes "state_ok wire ev s"
  shows "state_ok wire ev (s\<lparr>su_active := AList.delete i (su_active s)\<rparr>)"
    "state_ok wire ev (s\<lparr>su_active := [], su_permission := p\<rparr>)"
    "state_ok wire ev (s\<lparr>su_permission := p\<rparr>)"
proof -
  note ok = state_okD [OF assms]
  show "state_ok wire ev (s\<lparr>su_active := AList.delete i (su_active s)\<rparr>)"
    using ok length_delete_le [of i "su_active s"]
    by (intro state_okI) (auto simp: delete_conv' distinct_delete split: if_splits)
qed (use assms in \<open>auto simp: state_ok_def\<close>)

lemma state_ok_show:
  assumes ok: "state_ok wire ev s" and last: "su_last s < a"
    and room: "map_of (su_active s) i \<noteq> None \<or> length (su_active s) < MAX_ACTIVE"
  shows "state_ok (wire @ [Show i (Some a) t b]) ev
    (s\<lparr>su_last := a, su_active := AList.update i \<lparr>ac_attempt = a, ac_awaiting = d\<rparr> (su_active s)\<rparr>)"
proof -
  note ok' = state_okD [OF ok]
  have fresh: "ac_attempt x \<noteq> a" if "map_of (su_active s) j = Some x" for j x
    using ok'(3) [OF that] last by simp
  show ?thesis
  proof (rule state_okI, goal_cases)
    case 1
    show ?case using ok'(1) by (simp add: distinct_update)
  next
    case 2
    show ?case using ok'(2) room by (auto simp: length_AList_update)
  next
    case (3 j x)
    then show ?case using ok'(3) last by (auto simp: update_conv' split: if_splits dest: less_imp_le intro: le_trans)
  next
    case (4 j x)
    then show ?case using ok'(4) by (fastforce simp: update_conv' split: if_splits)
  next
    case (5 j x)
    then show ?case using ok'(5,8) last by (auto simp: update_conv' split: if_splits)
  next
    case (6 j x k y)
    then show ?case using ok'(6) [of j x k y] fresh
      by (cases "j = i"; cases "k = i") (auto simp: update_conv' dest: fresh)
  next
    case (7 c)
    show ?case by (rule ok'(7))
  next
    case (8 c)
    then show ?case using ok'(8) last by simp
  next
    case 9
    show ?case using ok'(9) by (auto simp: list_all_iff intro: ack_known_more)
  qed
qed

lemma state_ok_acknowledged:
  assumes ok: "state_ok wire ev s" and x: "map_of (su_active s) i = Some x"
    and pending: "ac_awaiting x \<noteq> None"
  shows "state_ok wire (ev @ [Shown i (Some (ac_attempt x))])
    (s\<lparr>su_active := AList.update i (x\<lparr>ac_awaiting := None\<rparr>) (su_active s)\<rparr>)"
proof -
  note ok' = state_okD [OF ok]
  have none: "acks (ac_attempt x) ev = 0" using ok'(5) [OF x] pending by simp
  have ack: "is_ack c (Shown i (Some (ac_attempt x))) \<longleftrightarrow> c = ac_attempt x" for c
    by (auto simp: is_ack_def)
  show ?thesis
  proof (rule state_okI, goal_cases)
    case 1
    show ?case using ok'(1) by (simp add: distinct_update)
  next
    case 2
    show ?case using ok'(2) x by (simp add: length_AList_update)
  next
    case (3 j y)
    then show ?case using ok'(3) x by (auto simp: update_conv' split: if_splits)
  next
    case (4 j y)
    then show ?case using ok'(4) x by (fastforce simp: update_conv' split: if_splits)
  next
    case (5 j y)
    then show ?case using ok'(5) ok'(6) [OF x] by (auto simp: update_conv' acks_append ack split: if_splits)
  next
    case (6 j y k z)
    then show ?case using ok'(6) [OF x] ok'(6) by (auto simp: update_conv' split: if_splits)
  next
    case (7 c)
    show ?case using ok'(7) [of c] none by (auto simp: acks_append ack)
  next
    case (8 c)
    then show ?case using ok'(8) [of c] ok'(3) [OF x] by (auto simp: acks_append ack)
  next
    case 9
    show ?case using ok'(9) ok'(4) [OF x] by (auto simp: ack_known_def)
  qed
qed

section \<open>Emitting\<close>

lemma mg_emit_cases:
  assumes "mg_emit e m = (ok, m')"
  obtains c where "m' = m\<lparr>mg_events := c\<rparr>"
    "sent c = (if ok then sent (mg_events m) @ [e] else sent (mg_events m))"
  using assms sent_try_send [of e "mg_events m"]
  by (auto simp: mg_emit_def split: prod.splits)

lemma mg_emit_all_cases:
  assumes "mg_emit_all es m = (ok, m')"
  obtains c k where "m' = m\<lparr>mg_events := c\<rparr>" "sent c = sent (mg_events m) @ take k es"
    "ok \<Longrightarrow> k = length es"
  using assms
proof (induction es arbitrary: m thesis)
  case Nil
  then show ?case by (metis append_Nil2 manager.surjective manager.update_convs(4) mg_emit_all.simps(1)
      old.prod.inject take_Nil list.size(3))
next
  case (Cons e es)
  obtain ok1 m1 where e: "mg_emit e m = (ok1, m1)" by (cases "mg_emit e m")
  obtain c1 where c1: "m1 = m\<lparr>mg_events := c1\<rparr>"
    "sent c1 = (if ok1 then sent (mg_events m) @ [e] else sent (mg_events m))"
    using mg_emit_cases [OF e] .
  show ?case
  proof (cases ok1)
    case False
    with Cons.prems(2) e c1 have "m' = m\<lparr>mg_events := c1\<rparr>" "sent c1 = sent (mg_events m) @ take 0 (e # es)"
      "\<not> ok" by auto
    with Cons.prems(1) [of c1 0] show ?thesis by simp
  next
    case True
    with Cons.prems(2) e have "mg_emit_all es m1 = (ok, m')" by simp
    from Cons.IH [OF _ this] obtain c k where "m' = m1\<lparr>mg_events := c\<rparr>"
      "sent c = sent (mg_events m1) @ take k es" "ok \<Longrightarrow> k = length es" by blast
    with c1 True have "m' = m\<lparr>mg_events := c\<rparr>" "sent c = sent (mg_events m) @ take (Suc k) (e # es)"
      "ok \<Longrightarrow> Suc k = length (e # es)" by auto
    then show ?thesis by (rule Cons.prems(1))
  qed
qed

lemma set_map_filter: "set (List.map_filter f xs) = {y. \<exists>x \<in> set xs. f x = Some y}"
  by (induction xs) (auto simp: List.map_filter_simps split: option.splits)

lemma sup_fail_events: "e \<in> set (fst (sup_fail msg s)) \<Longrightarrow> \<exists>i a. e = Failed i a msg"
  by (auto simp: sup_fail_def set_map_filter)

lemma mg_fault_cases:
  assumes "mg_fault now msg m = (ok, m')"
  obtains c k where "m' = m\<lparr>mg_session := False, mg_restart_after := now + RESTART_DELAY,
      mg_state := (mg_state m)\<lparr>su_active := [], su_permission := None\<rparr>, mg_events := c\<rparr>"
    "sent c = sent (mg_events m) @ take k (fst (sup_fail msg (mg_state m)))"
    "ok \<Longrightarrow> k = length (fst (sup_fail msg (mg_state m)))"
proof -
  have snd_fail: "snd (sup_fail msg (mg_state m)) = (mg_state m)\<lparr>su_active := [], su_permission := None\<rparr>"
    by (simp add: sup_fail_def)
  from assms have "mg_emit_all (fst (sup_fail msg (mg_state m)))
      (m\<lparr>mg_session := False, mg_restart_after := now + RESTART_DELAY,
         mg_state := (mg_state m)\<lparr>su_active := [], su_permission := None\<rparr>\<rparr>) = (ok, m')"
    by (simp add: mg_fault_def split_beta snd_fail)
  from mg_emit_all_cases [OF this] that show ?thesis by simp metis
qed

section \<open>Answers\<close>

fun event_about :: "event \<Rightarrow> (string \<times> nat) option" where
  "event_about (Shown i (Some a)) = Some (i, a)"
| "event_about (Failed (Some i) (Some a) msg) = Some (i, a)"
| "event_about (Activated i (Some a) action) = Some (i, a)"
| "event_about (Dismissed i (Some a)) = Some (i, a)"
| "event_about (Closed i (Some a)) = Some (i, a)"
| "event_about e = None"

definition answered :: "string \<Rightarrow> nat \<Rightarrow> manager \<Rightarrow> bool" where
  "answered i a m \<longleftrightarrow> list_ex (\<lambda>e. event_about e = Some (i, a)) (sent (mg_events m))"

definition awaits :: "string \<Rightarrow> nat \<Rightarrow> nat \<Rightarrow> manager \<Rightarrow> bool" where
  "awaits i a d m \<longleftrightarrow> map_of (su_active (mg_state m)) i = Some \<lparr>ac_attempt = a, ac_awaiting = Some d\<rparr>"

lemma fault_answers:
  assumes "mg_fault now msg m = (True, m')" "awaits i a d m"
  shows "answered i a m'"
proof -
  from assms(2) have "Failed (Some i) (Some a) msg \<in> set (fst (sup_fail msg (mg_state m)))"
    by (force simp: awaits_def sup_fail_def set_map_filter dest: map_of_SomeD)
  moreover obtain c k where "m' = m\<lparr>mg_session := False, mg_restart_after := now + RESTART_DELAY,
      mg_state := (mg_state m)\<lparr>su_active := [], su_permission := None\<rparr>, mg_events := c\<rparr>"
    "sent c = sent (mg_events m) @ take k (fst (sup_fail msg (mg_state m)))"
    "k = length (fst (sup_fail msg (mg_state m)))"
    using mg_fault_cases [OF assms(1)] by blast
  ultimately have "Failed (Some i) (Some a) msg \<in> set (sent (mg_events m'))" by simp
  then show ?thesis unfolding answered_def list_ex_iff
    by (rule rev_bexI) simp
qed

lemma fault_keeps_answers:
  assumes "mg_fault now msg m = (ok, m')" "answered i a m"
  shows "answered i a m'"
proof -
  obtain c k where "m' = m\<lparr>mg_session := False, mg_restart_after := now + RESTART_DELAY,
      mg_state := (mg_state m)\<lparr>su_active := [], su_permission := None\<rparr>, mg_events := c\<rparr>"
    "sent c = sent (mg_events m) @ take k (fst (sup_fail msg (mg_state m)))"
    using mg_fault_cases [OF assms(1)] by blast
  with assms(2) show ?thesis by (auto simp: answered_def)
qed

lemma mg_emit_keeps:
  assumes "mg_emit e m = (ok, m')"
  shows "awaits i a d m' = awaits i a d m" "answered i a m \<Longrightarrow> answered i a m'"
    "ok \<Longrightarrow> event_about e = Some (i, a) \<Longrightarrow> answered i a m'"
    "mg_state m' = mg_state m" "mg_session m' = mg_session m" "mg_wire m' = mg_wire m"
    "mg_running m' = mg_running m"
proof -
  obtain c where "m' = m\<lparr>mg_events := c\<rparr>"
      "sent c = (if ok then sent (mg_events m) @ [e] else sent (mg_events m))"
    using mg_emit_cases [OF assms] .
  then show "awaits i a d m' = awaits i a d m" "answered i a m \<Longrightarrow> answered i a m'"
    "ok \<Longrightarrow> event_about e = Some (i, a) \<Longrightarrow> answered i a m'"
    "mg_state m' = mg_state m" "mg_session m' = mg_session m" "mg_wire m' = mg_wire m"
    "mg_running m' = mg_running m"
    by (auto simp: awaits_def answered_def)
qed

lemma mg_ensure_cases:
  assumes "mg_ensure now h c m = (go, ok, m')"
  shows "mg_state m' = mg_state m \<and> mg_wire m' = mg_wire m \<and> mg_running m' = mg_running m
    \<and> (go \<longrightarrow> ok \<and> mg_session m')
    \<and> (\<exists>es. sent (mg_events m') = sent (mg_events m) @ es \<and> list_all (\<lambda>e. \<forall>i a. e \<noteq> Shown i a) es
        \<and> (\<not> go \<and> ok \<longrightarrow> (\<exists>msg. es = [command_failure c msg])))"
proof -
  have emit: "mg_state m2 = mg_state m1 \<and> mg_wire m2 = mg_wire m1 \<and> mg_running m2 = mg_running m1
      \<and> mg_session m2 = mg_session m1
      \<and> sent (mg_events m2) = sent (mg_events m1) @ (if ok2 then [e] else [])"
    if em: "mg_emit e m1 = (ok2, m2)" for e m1 ok2 m2
  proof -
    obtain c where "m2 = m1\<lparr>mg_events := c\<rparr>"
        "sent c = (if ok2 then sent (mg_events m1) @ [e] else sent (mg_events m1))"
      using mg_emit_cases [OF em] .
    then show ?thesis by simp
  qed
  show ?thesis
  proof (cases "mg_session m \<or> now < mg_restart_after m")
    case True
    then show ?thesis
    proof (cases "mg_session m")
      case True
      with assms show ?thesis by (auto simp: mg_ensure_def)
    next
      case False
      with True assms have "go = False"
        "mg_emit (command_failure c ''Notification helper restarting'') m = (ok, m')"
        by (auto simp: mg_ensure_def)
      from emit [OF this(2)] this(1) show ?thesis by (auto simp: command_failure_def)
    qed
  next
    case False
    show ?thesis
    proof (cases "session_start h")
      case (Inl e)
      with False assms have "go = False"
        "mg_emit (command_failure c e) (m\<lparr>mg_restart_after := now + RESTART_DELAY\<rparr>) = (ok, m')"
        by (auto simp: mg_ensure_def)
      from emit [OF this(2)] this(1) show ?thesis by (auto simp: command_failure_def)
    next
      case (Inr u)
      with False assms have "go = ok" "mg_emit (Ready PROTOCOL_VERSION) (m\<lparr>mg_session := True\<rparr>) = (ok, m')"
        by (auto simp: mg_ensure_def split: prod.splits)
      from emit [OF this(2)] this(1) show ?thesis by auto
    qed
  qed
qed

text \<open>What is about the notification \<open>i\<close>: to show it again or to withdraw it.\<close>

fun concerns :: "string \<Rightarrow> sup_input \<Rightarrow> bool" where
  "concerns i (CommandIn now (Some (Show j attempt title body)) h w) \<longleftrightarrow> i = j"
| "concerns i (CommandIn now (Some (Withdraw j)) h w) \<longleftrightarrow> i = j"
| "concerns i x \<longleftrightarrow> False"

lemma accept_for_keeps:
  assumes "accept_for j attempt shown s = (r, s')"
    and "map_of (su_active s) i = Some \<lparr>ac_attempt = a, ac_awaiting = Some d\<rparr>"
  shows "map_of (su_active s') i = map_of (su_active s) i \<or> (j = i \<and> attempt = Some a \<and> r = Inr True)"
  using assms
  by (auto simp: accept_for_def update_conv' delete_conv' split: sum.splits option.splits if_splits)

lemma sup_accept_keeps:
  assumes "sup_accept e s = (r, s')"
    and "map_of (su_active s) i = Some \<lparr>ac_attempt = a, ac_awaiting = Some d\<rparr>"
  shows "map_of (su_active s') i = map_of (su_active s) i \<or> (event_about e = Some (i, a) \<and> r = Inr True)"
  using assms accept_for_keeps [OF _ assms(2)]
  by (cases "(e, s)" rule: sup_accept.cases) fastforce+

lemma helper_event_keeps:
  assumes "mg_helper_event now r m = (True, m')" "awaits i a d m"
  shows "awaits i a d m' \<or> answered i a m'"
proof (cases r)
  case (Inl e)
  with assms fault_answers show ?thesis by (auto simp: mg_helper_event_def)
next
  case (Inr e)
  obtain v s where acc: "sup_accept e (mg_state m) = (v, s)" by (cases "sup_accept e (mg_state m)")
  note keep = sup_accept_keeps [OF acc assms(2) [unfolded awaits_def]]
  show ?thesis
  proof (cases v)
    case (Inl err)
    with keep assms(2) have "awaits i a d (m\<lparr>mg_state := s\<rparr>)" by (simp add: awaits_def)
    moreover from assms(1) Inr acc Inl have "mg_fault now err (m\<lparr>mg_state := s\<rparr>) = (True, m')"
      by (simp add: mg_helper_event_def)
    ultimately show ?thesis using fault_answers by blast
  next
    case vr: (Inr b)
    show ?thesis
    proof (cases b)
      case True
      with assms(1) Inr acc vr have em: "mg_emit e (m\<lparr>mg_state := s\<rparr>) = (True, m')"
        by (simp add: mg_helper_event_def)
      from keep show ?thesis
      proof
        assume "map_of (su_active s) i = map_of (su_active (mg_state m)) i"
        with assms(2) have "awaits i a d (m\<lparr>mg_state := s\<rparr>)" by (simp add: awaits_def)
        with mg_emit_keeps(1) [OF em] show ?thesis by simp
      next
        assume "event_about e = Some (i, a) \<and> v = Inr True"
        with mg_emit_keeps(3) [OF em] show ?thesis by simp
      qed
    next
      case False
      with assms(1) Inr acc vr have "m' = m\<lparr>mg_state := s\<rparr>" by (simp add: mg_helper_event_def)
      with keep vr False assms(2) show ?thesis by (simp add: awaits_def)
    qed
  qed
qed

lemma sup_validate_keeps:
  "sup_validate c s = (r, s') \<Longrightarrow> su_active s' = su_active s \<and> su_permission s' = su_permission s"
  by (auto simp: sup_validate_def Let_def split: sum.splits command.splits option.splits if_splits)

lemma sup_sent_other:
  assumes "\<And>att t b. c \<noteq> Show i att t b" "c \<noteq> Withdraw i"
  shows "map_of (su_active (sup_sent now c s)) i = map_of (su_active s) i"
  using assms by (cases "(now, c, s)" rule: sup_sent.cases) (auto simp: update_conv' delete_conv')

lemma mg_command_cases:
  assumes "mg_command to_vec now c h w m = (ok, m')"
  obtains (refused) e s where "sup_validate c (mg_state m) = (Inl e, s)"
      "mg_emit (command_failure c e) (m\<lparr>mg_state := s\<rparr>) = (ok, m')"
  | (not_ready) u s where "sup_validate c (mg_state m) = (Inr u, s)"
      "mg_ensure now h c (m\<lparr>mg_state := s\<rparr>) = (False, ok, m')"
  | (handed) u s m1 where "sup_validate c (mg_state m) = (Inr u, s)"
      "mg_ensure now h c (m\<lparr>mg_state := s\<rparr>) = (True, True, m1)" "ok"
      "m' = m1\<lparr>mg_state := sup_sent now c s, mg_wire := mg_wire m1 @ [c]\<rparr>"
  | (failed) u s m1 e where "sup_validate c (mg_state m) = (Inr u, s)"
      "mg_ensure now h c (m\<lparr>mg_state := s\<rparr>) = (True, True, m1)"
      "mg_fault now e (m1\<lparr>mg_state := sup_sent now c s, mg_wire := mg_wire m1 @ [c]\<rparr>) = (ok, m')"
proof -
  obtain v s where v: "sup_validate c (mg_state m) = (v, s)" by (cases "sup_validate c (mg_state m)")
  show ?thesis
  proof (cases v)
    case (Inl e)
    with assms v refused show ?thesis by (simp add: mg_command_def)
  next
    case (Inr u)
    obtain go ok1 m1 where e: "mg_ensure now h c (m\<lparr>mg_state := s\<rparr>) = (go, ok1, m1)"
      by (cases "mg_ensure now h c (m\<lparr>mg_state := s\<rparr>)") auto
    note ens = mg_ensure_cases [OF e]
    show ?thesis
    proof (cases go)
      case False
      with assms v Inr e not_ready show ?thesis by (simp add: mg_command_def)
    next
      case True
      with ens have st: "ok1" "mg_state m1 = s" by auto
      with assms v Inr e True handed failed show ?thesis
        by (cases "session_send to_vec w c") (auto simp: mg_command_def Let_def)
    qed
  qed
qed

lemma command_keeps:
  assumes "mg_command to_vec now c h w m = (True, m')" "awaits i a d m"
    and other: "\<And>att t b. c \<noteq> Show i att t b" "c \<noteq> Withdraw i"
  shows "awaits i a d m' \<or> answered i a m'"
  using assms(1)
proof (cases rule: mg_command_cases)
  case (refused e s)
  with assms(2) sup_validate_keeps [OF refused(1)] mg_emit_keeps(1) [OF refused(2), of i a d]
  show ?thesis by (simp add: awaits_def)
next
  case (not_ready u s)
  with assms(2) sup_validate_keeps [OF not_ready(1)] mg_ensure_cases [OF not_ready(2)]
  show ?thesis by (simp add: awaits_def)
next
  case (handed u s m1)
  with assms(2) sup_validate_keeps [OF handed(1)] sup_sent_other [OF other]
  show ?thesis by (simp add: awaits_def)
next
  case (failed u s m1 e)
  from assms(2) sup_validate_keeps [OF failed(1)] sup_sent_other [OF other]
  have "awaits i a d (m1\<lparr>mg_state := sup_sent now c s, mg_wire := mg_wire m1 @ [c]\<rparr>)"
    by (simp add: awaits_def)
  from fault_answers [OF failed(3) this] show ?thesis by simp
qed

lemma mg_next_running: "mg_running (mg_next r) \<Longrightarrow> r = (True, mg_next r)"
  by (cases r) (auto simp: mg_next_def mg_stop_def split: if_splits)

lemma answered_next: "answered i a (snd r) \<Longrightarrow> answered i a (mg_next r)"
  by (cases r) (auto simp: mg_next_def mg_stop_def answered_def)

lemma sup_deadline_le:
  assumes "awaits i a d m"
  obtains d' where "sup_deadline (mg_state m) = Some d'" "d' \<le> d"
proof -
  from assms have "d \<in> set (sup_deadlines (mg_state m))"
    by (force simp: awaits_def sup_deadlines_def set_map_filter dest: map_of_SomeD)
  then have "sup_deadlines (mg_state m) \<noteq> []" "Min (set (sup_deadlines (mg_state m))) \<le> d"
    by auto
  with that show ?thesis by (simp add: sup_deadline_def)
qed

lemma step_keeps:
  assumes aw: "awaits i a d m" and run: "mg_running (sup_step to_vec x m)" and other: "\<not> concerns i x"
  shows "answered i a (sup_step to_vec x m)
    \<or> (awaits i a d (sup_step to_vec x m) \<and> (case x of DeadlinePasses t \<Rightarrow> t < d | _ \<Rightarrow> True))"
proof (cases "mg_running m")
  case False
  with run show ?thesis by (simp add: sup_step_def)
next
  case on: True
  show ?thesis
  proof (cases x)
    case (DeadlinePasses t)
    obtain d' where d': "sup_deadline (mg_state m) = Some d'" "d' \<le> d" using sup_deadline_le [OF aw] .
    show ?thesis
    proof (cases "d' \<le> t")
      case True
      with on DeadlinePasses d' have st: "sup_step to_vec x m
          = mg_next (mg_fault t ''Notification helper timed out'' m)" by (simp add: sup_step_def)
      from mg_next_running [OF run [unfolded st]]
      have "mg_fault t ''Notification helper timed out'' m = (True, sup_step to_vec x m)" by (simp add: st)
      from fault_answers [OF this aw] show ?thesis by simp
    next
      case False
      with on DeadlinePasses d' aw show ?thesis by (simp add: sup_step_def)
    qed
  next
    case (CommandIn now c h w)
    show ?thesis
    proof (cases "c = None \<or> c = Some Exit")
      case True
      with on CommandIn run show ?thesis by (auto simp: sup_step_def mg_stop_def)
    next
      case False
      then obtain c' where c': "c = Some c'" "c' \<noteq> Exit" by auto
      with on CommandIn have st: "sup_step to_vec x m = mg_next (mg_command to_vec now c' h w m)"
        by (simp add: sup_step_def split: command.splits)
      from mg_next_running [OF run [unfolded st]]
      have "mg_command to_vec now c' h w m = (True, sup_step to_vec x m)" by (simp add: st)
      from command_keeps [OF this aw] other CommandIn c'
      have "awaits i a d (sup_step to_vec x m) \<or> answered i a (sup_step to_vec x m)" by fastforce
      with CommandIn show ?thesis by auto
    qed
  next
    case (HelperSays now r)
    show ?thesis
    proof (cases "mg_session m")
      case True
      with on HelperSays have st: "sup_step to_vec x m = mg_next (mg_helper_event now r m)"
        by (simp add: sup_step_def)
      from mg_next_running [OF run [unfolded st]]
      have "mg_helper_event now r m = (True, sup_step to_vec x m)" by (simp add: st)
      from helper_event_keeps [OF this aw] HelperSays show ?thesis by auto
    next
      case False
      with on HelperSays aw show ?thesis by (simp add: sup_step_def)
    qed
  next
    case (EventsTaken n)
    with on aw show ?thesis by (simp add: sup_step_def awaits_def)
  next
    case OwnerStops
    with on run show ?thesis by (simp add: sup_step_def mg_stop_def)
  qed
qed

lemma command_keeps_answers:
  assumes "mg_command to_vec now c h w m = (ok, m')" "answered i a m"
  shows "answered i a m'"
  using assms(1)
proof (cases rule: mg_command_cases)
  case (refused e s)
  with assms(2) mg_emit_keeps(2) [OF refused(2), of i a] show ?thesis by (simp add: answered_def)
next
  case (not_ready u s)
  with assms(2) mg_ensure_cases [OF not_ready(2)] show ?thesis by (auto simp: answered_def)
next
  case (handed u s m1)
  with assms(2) mg_ensure_cases [OF handed(2)] show ?thesis by (auto simp: answered_def)
next
  case (failed u s m1 e)
  with assms(2) mg_ensure_cases [OF failed(2)]
  have "answered i a (m1\<lparr>mg_state := sup_sent now c s, mg_wire := mg_wire m1 @ [c]\<rparr>)"
    by (auto simp: answered_def)
  from fault_keeps_answers [OF failed(3) this] show ?thesis .
qed

lemma helper_event_keeps_answers:
  assumes "mg_helper_event now r m = (ok, m')" "answered i a m"
  shows "answered i a m'"
proof -
  have st: "answered i a (m\<lparr>mg_state := s\<rparr>)" for s using assms(2) by (simp add: answered_def)
  show ?thesis
  proof (cases r)
    case (Inl e)
    with assms fault_keeps_answers show ?thesis by (simp add: mg_helper_event_def)
  next
    case (Inr e)
    obtain v s where acc: "sup_accept e (mg_state m) = (v, s)" by (cases "sup_accept e (mg_state m)")
    consider (err) msg where "mg_fault now msg (m\<lparr>mg_state := s\<rparr>) = (ok, m')"
      | (emitted) "mg_emit e (m\<lparr>mg_state := s\<rparr>) = (ok, m')" | (dropped) "m' = m\<lparr>mg_state := s\<rparr>"
      using assms(1) Inr acc by (auto simp: mg_helper_event_def split: sum.splits bool.splits)
    then show ?thesis
    proof cases
      case err
      from fault_keeps_answers [OF err st] show ?thesis .
    next
      case emitted
      from mg_emit_keeps(2) [OF emitted st] show ?thesis .
    next
      case dropped
      with st show ?thesis by simp
    qed
  qed
qed

lemma step_keeps_answers:
  assumes "answered i a m"
  shows "answered i a (sup_step to_vec x m)"
proof -
  have stop: "answered i a (mg_stop m)" using assms by (simp add: answered_def mg_stop_def)
  have fault: "answered i a (snd (mg_fault t msg m))" for t msg
    using fault_keeps_answers [OF _ assms] by (metis prod.collapse)
  have command: "answered i a (snd (mg_command to_vec t c h w m))" for t c h w
    using command_keeps_answers [OF _ assms] by (metis prod.collapse)
  have helper: "answered i a (snd (mg_helper_event t r m))" for t r
    using helper_event_keeps_answers [OF _ assms] by (metis prod.collapse)
  show ?thesis
    using assms stop answered_next [OF fault] answered_next [OF command] answered_next [OF helper]
    by (cases x) (auto simp: sup_step_def answered_def split: option.splits command.splits)
qed

lemma step_running: "mg_running (sup_step to_vec x m) \<Longrightarrow> mg_running m"
  by (auto simp: sup_step_def split: if_splits)

lemma run_running: "mg_running (sup_run to_vec xs m) \<Longrightarrow> mg_running m"
  by (induction xs arbitrary: m) (auto simp: sup_run_def dest: step_running)

lemma run_keeps_answers: "answered i a m \<Longrightarrow> answered i a (sup_run to_vec xs m)"
  by (induction xs arbitrary: m) (auto simp: sup_run_def step_keeps_answers)

lemma run_keeps_all:
  assumes "awaits i a d m" "mg_running (sup_run to_vec xs m)" "list_all (\<lambda>x. \<not> concerns i x) xs"
  shows "answered i a (sup_run to_vec xs m)
    \<or> (awaits i a d (sup_run to_vec xs m)
       \<and> list_all (\<lambda>x. case x of DeadlinePasses t \<Rightarrow> t < d | _ \<Rightarrow> True) xs)"
  using assms
proof (induction xs arbitrary: m)
  case (Cons x xs)
  from Cons.prems(2) have run: "mg_running (sup_run to_vec xs (sup_step to_vec x m))"
    by (simp add: sup_run_def)
  have eq: "sup_run to_vec (x # xs) m = sup_run to_vec xs (sup_step to_vec x m)" by (simp add: sup_run_def)
  from step_keeps [OF Cons.prems(1) run_running [OF run]] Cons.prems(3)
  consider "answered i a (sup_step to_vec x m)"
    | "awaits i a d (sup_step to_vec x m)" "case x of DeadlinePasses t \<Rightarrow> t < d | _ \<Rightarrow> True" by auto
  then show ?case
  proof cases
    case 1
    then show ?thesis unfolding eq using run_keeps_answers by blast
  next
    case 2
    from Cons.IH [OF 2(1) run] Cons.prems(3) 2(2) show ?thesis unfolding eq by simp
  qed
qed (simp add: sup_run_def)

lemma show_answers:
  assumes "mg_command to_vec now (Show i (Some a) title body) h w m = (True, m')"
    and valid: "validate (Show i (Some a) title body) = Inr ()"
  shows "answered i a m' \<or> awaits i a (now + IO_TIMEOUT) m'"
proof -
  have about: "event_about (command_failure (Show i (Some a) title body) msg) = Some (i, a)" for msg
    using command_id_valid [OF valid] by (simp add: command_failure_def del: command_id.simps)
  have "awaits i a (now + IO_TIMEOUT) (m1\<lparr>mg_state := sup_sent now (Show i (Some a) title body) s,
      mg_wire := wire\<rparr>)" for m1 s wire
    by (simp add: awaits_def update_conv')
  note sent = this
  from assms(1) show ?thesis
  proof (cases rule: mg_command_cases)
    case (refused e s)
    with mg_emit_keeps(3) [OF refused(2)] about show ?thesis by simp
  next
    case (not_ready u s)
    with mg_ensure_cases [OF not_ready(2)] about show ?thesis by (auto simp: answered_def)
  next
    case (handed u s m1)
    with sent show ?thesis by simp
  next
    case (failed u s m1 e)
    from fault_answers [OF failed(3) sent] show ?thesis by simp
  qed
qed

section \<open>The invariant of a run\<close>

definition wire_attempts :: "command list \<Rightarrow> nat list" where
  "wire_attempts wire = List.map_filter (\<lambda>c. case c of Show i attempt t b \<Rightarrow> attempt | _ \<Rightarrow> None) wire"

definition manager_ok :: "manager \<Rightarrow> bool" where
  "manager_ok m \<longleftrightarrow> state_ok (mg_wire m) (sent (mg_events m)) (mg_state m)
     \<and> sorted_wrt (<) (wire_attempts (mg_wire m))
     \<and> (\<forall>a \<in> set (wire_attempts (mg_wire m)). a \<le> su_last (mg_state m))
     \<and> (\<not> mg_session m \<and> mg_running m \<longrightarrow> su_active (mg_state m) = [] \<and> su_permission (mg_state m) = None)"

lemma state_ok_emits:
  assumes "state_ok wire ev s" "list_all (\<lambda>e. \<forall>i a. e \<noteq> Shown i a) es"
  shows "state_ok wire (ev @ es) s"
  using assms
proof (induction es arbitrary: ev)
  case (Cons e es)
  have "state_ok wire (ev @ [e]) s" using Cons.prems by (intro state_ok_harmless) auto
  from Cons.IH [OF this] Cons.prems(2) show ?case by simp
qed simp

lemma state_ok_higher: "state_ok wire ev s \<Longrightarrow> su_last s \<le> a \<Longrightarrow> state_ok wire ev (s\<lparr>su_last := a\<rparr>)"
  by (rule state_okI) (auto dest: state_okD(1,2,7,9) state_okD(3-6) intro: le_trans state_okD(8))

lemma sup_fail_harmless: "list_all (\<lambda>e. \<forall>i a. e \<noteq> Shown i a) (take k (fst (sup_fail msg s)))"
  by (auto simp: list_all_iff dest!: in_set_takeD sup_fail_events)

lemma manager_ok_fault:
  assumes "mg_fault now msg m = (ok, m')" "state_ok (mg_wire m) (sent (mg_events m)) (mg_state m)"
    "sorted_wrt (<) (wire_attempts (mg_wire m))"
    "\<forall>a \<in> set (wire_attempts (mg_wire m)). a \<le> su_last (mg_state m)"
  shows "manager_ok m'"
proof -
  obtain c k where m': "m' = m\<lparr>mg_session := False, mg_restart_after := now + RESTART_DELAY,
      mg_state := (mg_state m)\<lparr>su_active := [], su_permission := None\<rparr>, mg_events := c\<rparr>"
    "sent c = sent (mg_events m) @ take k (fst (sup_fail msg (mg_state m)))"
    using mg_fault_cases [OF assms(1)] by blast
  have "state_ok (mg_wire m) (sent c) ((mg_state m)\<lparr>su_active := [], su_permission := None\<rparr>)"
    unfolding m'(2) by (intro state_ok_shrink(2) state_ok_emits assms(2) sup_fail_harmless)
  with m'(1) assms(3,4) show ?thesis by (simp add: manager_ok_def)
qed

lemma state_ok_accept:
  assumes "sup_accept e s = (v, s')" "state_ok wire ev s"
  shows "case v of Inr True \<Rightarrow> state_ok wire (ev @ [e]) s' | _ \<Rightarrow> state_ok wire ev s'"
    "su_last s' = su_last s"
proof -
  have for_id: "(case v of Inr True \<Rightarrow> state_ok wire (ev @ [e]) s' | _ \<Rightarrow> state_ok wire ev s')
      \<and> su_last s' = su_last s"
    if acc: "accept_for i attempt shown s = (v, s')" and e: "\<exists>j a. e = Shown j a \<Longrightarrow> shown"
      "shown \<Longrightarrow> e = Shown i attempt" for i attempt shown
  proof (cases "v = Inr True")
    case False
    show ?thesis
    proof (cases "s' = s")
      case True
      with assms(2) False show ?thesis by (auto split: sum.splits bool.splits)
    next
      case changed: False
      then obtain x where x: "map_of (su_active s) i = Some x" "shown" "ac_awaiting x = None" "v = Inr False"
        "s' = s\<lparr>su_active := AList.update i (x\<lparr>ac_awaiting := None\<rparr>) (su_active s)\<rparr>"
        using acc False by (auto simp: accept_for_def split: sum.splits option.splits if_splits)
      then have "x\<lparr>ac_awaiting := None\<rparr> = x" by (cases x) simp
      with x(5) have s': "s' = s\<lparr>su_active := AList.update i x (su_active s)\<rparr>" by simp
      have "map_of (AList.update i x (su_active s)) = map_of (su_active s)"
        using x(1) by (auto simp: update_conv')
      with assms(2) s' x(1,4) show ?thesis
        by (auto simp: state_ok_def distinct_update length_AList_update)
    qed
  next
    case True
    then obtain x where x: "map_of (su_active s) i = Some x" "attempt = Some (ac_attempt x)"
      using acc by (auto simp: accept_for_def split: sum.splits option.splits if_splits)
    show ?thesis
    proof (cases shown)
      case True
      with acc x \<open>v = Inr True\<close> have "ac_awaiting x \<noteq> None"
        "s' = s\<lparr>su_active := AList.update i (x\<lparr>ac_awaiting := None\<rparr>) (su_active s)\<rparr>"
        by (auto simp: accept_for_def split: sum.splits)
      with state_ok_acknowledged [OF assms(2) x(1)] e(2) [OF True] x(2) \<open>v = Inr True\<close>
      show ?thesis by simp
    next
      case False
      with acc x have s': "s' = s\<lparr>su_active := AList.delete i (su_active s)\<rparr>"
        using \<open>v = Inr True\<close> by (auto simp: accept_for_def split: sum.splits)
      have "state_ok wire (ev @ [e]) s'" unfolding s'
        by (rule state_ok_harmless) (use state_ok_shrink(1) [OF assms(2)] e(1) False in auto)
      with s' \<open>v = Inr True\<close> show ?thesis by simp
    qed
  qed
  have other: "(case v of Inr True \<Rightarrow> state_ok wire (ev @ [e]) s' | _ \<Rightarrow> state_ok wire ev s')
      \<and> su_last s' = su_last s"
    if "s' = s \<and> v \<noteq> Inr True \<or> s' = s\<lparr>su_permission := None\<rparr>" "\<And>j a. e \<noteq> Shown j a"
    using that(1) assms(2) state_ok_shrink(3) [OF assms(2)] state_ok_harmless [OF _ that(2)]
    by (auto split: sum.splits bool.splits)
  have "(case v of Inr True \<Rightarrow> state_ok wire (ev @ [e]) s' | _ \<Rightarrow> state_ok wire ev s')
      \<and> su_last s' = su_last s"
  proof -
    from assms(1) consider
        (plain) "s' = s \<and> v \<noteq> Inr True \<or> s' = s\<lparr>su_permission := None\<rparr>" "\<forall>j a. e \<noteq> Shown j a"
      | (about) i attempt shown where "accept_for i attempt shown s = (v, s')"
          "(\<exists>j a. e = Shown j a) \<longrightarrow> shown" "shown \<longrightarrow> e = Shown i attempt"
      by (cases "(e, s)" rule: sup_accept.cases) fastforce+
    then show ?thesis
    proof cases
      case plain
      then show ?thesis using other by blast
    next
      case about
      then show ?thesis using for_id by blast
    qed
  qed
  then show "case v of Inr True \<Rightarrow> state_ok wire (ev @ [e]) s' | _ \<Rightarrow> state_ok wire ev s'"
    "su_last s' = su_last s" by auto
qed

lemma state_ok_fewer: "state_ok wire (ev @ [e]) s \<Longrightarrow> state_ok wire ev s"
  by (rule state_okI) (auto dest: state_okD(1,2,7,9) state_okD(3-6) state_okD(5,7) [where ev = "ev @ [e]"]
    state_okD(8) [where ev = "ev @ [e]"] simp: acks_append split: if_splits intro: le_trans)

lemma manager_ok_helper_event:
  assumes "mg_helper_event now r m = (ok, m')" "manager_ok m" "mg_session m"
  shows "manager_ok (mg_next (ok, m'))"
proof -
  have next_ok: "manager_ok (mg_next (ok', m2))" if "manager_ok m2" for ok' m2
    using that by (simp add: mg_next_def mg_stop_def manager_ok_def)
  note ok = assms(2) [unfolded manager_ok_def]
  show ?thesis
  proof (cases r)
    case (Inl e)
    with assms(1) have "mg_fault now e m = (ok, m')" by (simp add: mg_helper_event_def)
    from manager_ok_fault [OF this] ok next_ok show ?thesis by blast
  next
    case (Inr e)
    obtain v s where acc: "sup_accept e (mg_state m) = (v, s)" by (cases "sup_accept e (mg_state m)")
    note st = state_ok_accept [OF acc, of "mg_wire m" "sent (mg_events m)"]
    consider (err) msg where "v = Inl msg" "mg_fault now msg (m\<lparr>mg_state := s\<rparr>) = (ok, m')"
      | (emitted) "v = Inr True" "mg_emit e (m\<lparr>mg_state := s\<rparr>) = (ok, m')"
      | (dropped) "v = Inr False" "m' = m\<lparr>mg_state := s\<rparr>"
      using assms(1) Inr acc by (auto simp: mg_helper_event_def split: sum.splits bool.splits)
    then show ?thesis
    proof cases
      case err
      from manager_ok_fault [OF err(2)] st ok err(1) next_ok show ?thesis by simp
    next
      case emitted
      obtain c where c: "m' = m\<lparr>mg_state := s, mg_events := c\<rparr>"
          "sent c = (if ok then sent (mg_events m) @ [e] else sent (mg_events m))"
        by (rule mg_emit_cases [OF emitted(2)]) simp
      show ?thesis
      proof (cases ok)
        case True
        with c st ok emitted(1) assms(3) show ?thesis by (simp add: mg_next_def manager_ok_def)
      next
        case False
        with c st ok emitted(1) state_ok_fewer show ?thesis
          by (auto simp: mg_next_def mg_stop_def manager_ok_def)
      qed
    next
      case dropped
      with st ok assms(3) next_ok show ?thesis by (simp add: manager_ok_def)
    qed
  qed
qed

lemma sup_validate_last:
  assumes "sup_validate c s0 = (v, s)"
  shows "su_last s0 \<le> su_last s" "s = s0\<lparr>su_last := su_last s\<rparr>"
    "\<And>i att t b u. v = Inr u \<Longrightarrow> c = Show i att t b \<Longrightarrow>
      att = Some (su_last s) \<and> su_last s0 < su_last s
      \<and> (map_of (su_active s0) i \<noteq> None \<or> length (su_active s0) < MAX_ACTIVE)"
  using assms
  by (auto simp: sup_validate_def Let_def split: sum.splits command.splits option.splits if_splits)

lemma wire_attempts_append: "wire_attempts (xs @ ys) = wire_attempts xs @ wire_attempts ys"
  by (induction xs) (auto simp: wire_attempts_def List.map_filter_simps split: option.splits)

lemma manager_ok_handed:
  assumes ok: "state_ok wire ev s0" "sorted_wrt (<) (wire_attempts wire)"
      "\<forall>a \<in> set (wire_attempts wire). a \<le> su_last s0"
    and v: "sup_validate c s0 = (Inr u, s)"
  shows "state_ok (wire @ [c]) ev (sup_sent now c s) \<and> sorted_wrt (<) (wire_attempts (wire @ [c]))
    \<and> (\<forall>a \<in> set (wire_attempts (wire @ [c])). a \<le> su_last (sup_sent now c s))"
proof (cases "\<exists>i att t b. c = Show i att t b")
  case True
  then obtain i att t b where Show: "c = Show i att t b" by blast
  from sup_validate_last(3) [OF v refl Show] obtain a where a: "att = Some a" "su_last s0 < a" "su_last s = a"
    "map_of (su_active s0) i \<noteq> None \<or> length (su_active s0) < MAX_ACTIVE" by auto
  from sup_validate_last(2) [OF v] a(3) have s: "s = s0\<lparr>su_last := a\<rparr>" by simp
  have "wire_attempts [c] = [a]" using Show a(1) by (simp add: wire_attempts_def List.map_filter_simps)
  then show ?thesis
    using state_ok_show [OF ok(1) a(2,4)] ok(2,3) a s Show
    by (auto simp: wire_attempts_append sorted_wrt_append)
next
  case False
  then have none: "wire_attempts [c] = []"
    by (cases c) (auto simp: wire_attempts_def List.map_filter_simps)
  have "state_ok wire ev s" using sup_validate_last(1,2) [OF v] state_ok_higher [OF ok(1)] by metis
  then have "state_ok wire ev (sup_sent now c s)"
    using False state_ok_shrink(1,3) by (cases c) auto
  moreover have "su_last (sup_sent now c s) = su_last s" using False by (cases c) auto
  ultimately show ?thesis using none ok(2,3) sup_validate_last(1) [OF v]
    by (auto simp: wire_attempts_append intro: state_ok_wire le_trans)
qed

lemma manager_ok_command:
  assumes cmd: "mg_command to_vec now c h w m = (ok, m')" and m: "manager_ok m" and run: "mg_running m"
  shows "manager_ok (mg_next (ok, m'))"
proof -
  note inv = m [unfolded manager_ok_def]
  have next_ok: "manager_ok (mg_next (ok, m'))" if "manager_ok m'"
    using that by (simp add: mg_next_def mg_stop_def manager_ok_def)
  have validated: "state_ok (mg_wire m) (sent (mg_events m)) s" "su_last (mg_state m) \<le> su_last s"
    "su_active s = su_active (mg_state m)" "su_permission s = su_permission (mg_state m)"
    if v: "sup_validate c (mg_state m) = (v, s)" for v s
  proof -
    have "state_ok (mg_wire m) (sent (mg_events m)) ((mg_state m)\<lparr>su_last := su_last s\<rparr>)"
      using inv sup_validate_last(1) [OF v] by (intro state_ok_higher) auto
    with sup_validate_last(2) [OF v] show "state_ok (mg_wire m) (sent (mg_events m)) s" by simp
  qed (use sup_validate_last(1) [OF v] sup_validate_keeps [OF v] in auto)
  from cmd show ?thesis
  proof (cases rule: mg_command_cases)
    case (refused e s)
    obtain c' where c': "m' = m\<lparr>mg_state := s, mg_events := c'\<rparr>"
        "sent c' = (if ok then sent (mg_events m) @ [command_failure c e] else sent (mg_events m))"
      by (rule mg_emit_cases [OF refused(2)]) simp
    have "state_ok (mg_wire m) (sent c') s"
      using c'(2) validated(1) [OF refused(1)] by (auto simp: command_failure_def intro: state_ok_harmless)
    with c'(1) inv run validated [OF refused(1)] show ?thesis
      by (intro next_ok) (auto simp: manager_ok_def intro: le_trans)
  next
    case (not_ready u s)
    from mg_ensure_cases [OF not_ready(2)] obtain es where es:
      "sent (mg_events m') = sent (mg_events m) @ es" "list_all (\<lambda>e. \<forall>i a. e \<noteq> Shown i a) es" by auto
    have "\<not> mg_session m" using not_ready(2) by (auto simp: mg_ensure_def)
    with mg_ensure_cases [OF not_ready(2)] state_ok_emits [OF validated(1) [OF not_ready(1)] es(2)] es(1)
      inv run validated(2-4) [OF not_ready(1)] have "manager_ok m'"
      unfolding manager_ok_def by (auto intro: le_trans)
    then show ?thesis by (rule next_ok)
  next
    case (handed u s m1)
    from mg_ensure_cases [OF handed(2)] obtain es where es: "mg_session m1" "mg_wire m1 = mg_wire m"
      "sent (mg_events m1) = sent (mg_events m) @ es" "list_all (\<lambda>e. \<forall>i a. e \<noteq> Shown i a) es" by auto
    have "state_ok (mg_wire m) (sent (mg_events m1)) (mg_state m)"
      unfolding es(3) by (rule state_ok_emits) (use inv es(4) in auto)
    from manager_ok_handed [OF this _ _ handed(1), of now] inv es handed(4) show ?thesis
      by (intro next_ok) (simp add: manager_ok_def)
  next
    case (failed u s m1 e)
    from mg_ensure_cases [OF failed(2)] obtain es where es: "mg_session m1" "mg_wire m1 = mg_wire m"
      "sent (mg_events m1) = sent (mg_events m) @ es" "list_all (\<lambda>e. \<forall>i a. e \<noteq> Shown i a) es" by auto
    have "state_ok (mg_wire m) (sent (mg_events m1)) (mg_state m)"
      unfolding es(3) by (rule state_ok_emits) (use inv es(4) in auto)
    from manager_ok_handed [OF this _ _ failed(1), of now] inv es show ?thesis
      by (intro next_ok manager_ok_fault [OF failed(3)]) simp_all
  qed
qed

lemma manager_ok_step: "manager_ok m \<Longrightarrow> manager_ok (sup_step to_vec x m)"
proof (cases "mg_running m")
  case run: True
  assume ok: "manager_ok m"
  note inv = ok [unfolded manager_ok_def]
  have stop: "manager_ok (mg_stop m)" using ok by (simp add: mg_stop_def manager_ok_def)
  have next_ok: "manager_ok (mg_next r)" if "manager_ok (snd r)" for r
    using that by (cases r) (simp add: mg_next_def mg_stop_def manager_ok_def)
  have fault: "manager_ok (mg_next (mg_fault t msg m))" for t msg
    using manager_ok_fault [of t msg m] inv by (intro next_ok) (metis prod.collapse)
  have command: "manager_ok (mg_next (mg_command to_vec t c h w m))" for t c h w
    using manager_ok_command [OF _ ok run] by (metis prod.collapse)
  have helper: "mg_session m \<Longrightarrow> manager_ok (mg_next (mg_helper_event t r m))" for t r
    using manager_ok_helper_event [OF _ ok] by (metis prod.collapse)
  show ?thesis
    using ok run stop fault command helper
    by (cases x) (auto simp: sup_step_def manager_ok_def split: option.splits command.splits)
qed (simp add: sup_step_def)

lemma manager_ok_run: "manager_ok m \<Longrightarrow> manager_ok (sup_run to_vec xs m)"
  by (induction xs arbitrary: m) (auto simp: sup_run_def manager_ok_step)

lemma manager_ok_new: "manager_ok (manager_new t0)"
  by (auto simp: manager_ok_def manager_new_def state_ok_def sup_init_def channel_def acks_def
      wire_attempts_def List.map_filter_simps)

end
