(* ===== verification/SupervisorClaims.thy ===== *)
theory SupervisorClaims
  imports SupervisorFacts
begin

text \<open>What the supervisor of the notification helper guarantees, over every run.\<close>


definition demo_helper :: helper_says where
  "demo_helper = \<lparr>hp_absolute = True, hp_spawned = True, hp_stdin = True, hp_stdout = True,
     hp_ready = Some (Inr (Ready 2))\<rparr>"

definition demo_later :: "sup_input list" where
  "demo_later = [HelperSays 6 (Inl ''Notification helper output closed''), DeadlinePasses 20000]"

lemma demo_runs: "mg_running (sup_run (\<lambda>_. ''{}'')
      ([] @ CommandIn 5 (Some (Show ''n'' (Some 1) ''New'' None)) demo_helper WriteDone # demo_later) (manager_new 0))"
proof -
  have valid: "validate (Show ''n'' (Some 1) ''New'' None) = Inr ()" by code_simp
  let ?c = "Show ''n'' (Some 1) ''New'' None"
  let ?s = "\<lparr>su_active = [], su_last = 1, su_permission = None\<rparr> :: sup_state"
  let ?m = "manager_new 0 \<lparr>mg_session := True, mg_state := ?s, mg_events := \<lparr>sent = [Ready 2], room = 127\<rparr>\<rparr>"
  have "sup_validate ?c (mg_state (manager_new 0)) = (Inr (), ?s)"
    using valid by (simp add: sup_validate_def manager_new_def sup_init_def MAX_ACTIVE_def del: validate.simps)
  moreover have "mg_ensure 5 demo_helper ?c (manager_new 0 \<lparr>mg_state := ?s\<rparr>) = (True, True, ?m)"
    by (simp add: mg_ensure_def demo_helper_def session_start_def PROTOCOL_VERSION_def mg_emit_def
      manager_new_def channel_def try_send_def SUP_EVENT_CAPACITY_def)
  moreover have "session_send (\<lambda>_. ''{}'') WriteDone ?c = Inr ()"
    by (simp add: session_send_def MAX_FRAME_BYTES_def)
  ultimately have "sup_step (\<lambda>_. ''{}'') (CommandIn 5 (Some ?c) demo_helper WriteDone) (manager_new 0)
      = ?m\<lparr>mg_state := sup_sent 5 ?c ?s, mg_wire := [?c]\<rparr>"
    by (simp add: sup_step_def mg_command_def mg_next_def manager_new_def)
  then show ?thesis
    by (simp add: sup_run_def demo_later_def sup_step_def mg_helper_event_def mg_fault_def sup_fail_def
      List.map_filter_simps mg_emit_def try_send_def mg_next_def manager_new_def sup_deadline_def sup_deadlines_def)
qed


text \<open>
  C34: In every reachable state at most 32 notifications are followed, each attempt handed to a
  helper is newer than all before it, across helpers too; at most one acceptance is reported for
  an attempt, and only for one that was handed over.
\<close>

theorem attempts_are_acknowledged_once:
  "let m = sup_run to_vec xs (manager_new t0); events = sent (mg_events m)
   in length (su_active (mg_state m)) \<le> 32 \<and> sorted_wrt (<) (wire_attempts (mg_wire m))
     \<and> (\<forall>a. length (filter (is_ack a) events) \<le> 1) \<and> list_all (ack_known (mg_wire m)) events"
proof -
  have "manager_ok (sup_run to_vec xs (manager_new t0))"
    using manager_ok_run manager_ok_new .
  then show ?thesis
    using state_okD(2,7,9) by (auto simp: manager_ok_def acks_def MAX_ACTIVE_def Let_def)
qed

text \<open>
  What the helper's output is read as does not depend on the pieces it arrives in: reading
  may be broken off at any byte, for a command or a deadline, and taken up again.
\<close>

theorem events_do_not_depend_on_pieces:
  assumes "list_all (\<lambda>b. b \<noteq> []) bs" "bs \<noteq> []" "CHR 0x0A \<notin> set frame" "length frame \<le> MAX_FRAME_BYTES"
  shows "fst (frames_next parse frame (map Some bs)) = fst (frames_next parse frame [Some (concat bs)])"
proof -
  have result: "fst (frames_next parse frame ps) = (case fst (next_frame MAX_FRAME_BYTES frame ps) of
      FrameWaiting \<Rightarrow> None
    | FrameError \<Rightarrow> Some (Inl ''Cannot read notification event'')
    | FrameEnd \<Rightarrow> Some (Inl ''Notification helper output closed'')
    | FrameTooLarge \<Rightarrow> Some (Inl ''Notification event too large'')
    | FrameLine l \<Rightarrow> Some (case parse l of
        None \<Rightarrow> Inl ''Invalid notification event'' | Some e \<Rightarrow> check_event e))" for ps
    by (simp add: frames_next_def split: prod.splits frame_result.splits)
  have "concat bs \<noteq> []" using assms(1,2) by (cases bs) auto
  then show ?thesis
    using next_frame_whole [OF assms(1,3,4)] next_frame_whole [of "[concat bs]", OF _ assms(3,4)]
    by (simp add: result)
qed

theorem events_do_not_depend_on_pieces_witness:
  "fst (frames_next (\<lambda>_. Some (Shown ''n'' (Some 1))) ''{'' (map Some [''}'', [CHR 0x0A]]))
   = fst (frames_next (\<lambda>_. Some (Shown ''n'' (Some 1))) ''{'' [Some (concat [''}'', [CHR 0x0A]])])"
  by (rule events_do_not_depend_on_pieces) (simp_all add: MAX_FRAME_BYTES_def)

end
