(* ===== verification/Broker.thy ===== *)
theory Broker
  imports Supervisor
begin

text \<open>
  \<open>notification-broker/src/lib.rs\<close>: the helper process the supervisor owns. It reads commands
  off its input, keeps the notifications it observes, and reports what the system says about
  them. The native notification service is outside: what it answers to a call is an argument,
  what it reports later an input. Calls to it are logged in \<open>br_calls\<close>.
\<close>

definition BR_COMMAND_CAPACITY :: nat where "BR_COMMAND_CAPACITY = 32"
definition BR_EVENT_CAPACITY :: nat where "BR_EVENT_CAPACITY = 128"

section \<open>Input\<close>

datatype broker_input = InputCommand command | InputInvalid | InputFailed | InputEnd

text \<open>\<open>read_frame\<close>: at the end of the stream what is left counts as a frame.\<close>

definition read_frame :: "string option list \<Rightarrow> (string + string option) option \<times> string option list" where
  "read_frame pieces = (case next_frame MAX_FRAME_BYTES [] pieces of
     (FrameWaiting, f, rest) \<Rightarrow> (None, rest)
   | (FrameError, f, rest) \<Rightarrow> (Some (Inl ''read error''), rest)
   | (FrameTooLarge, f, rest) \<Rightarrow> (Some (Inl ''Notification frame too large''), rest)
   | (FrameEnd, f, rest) \<Rightarrow> (Some (Inr (if f = [] then None else Some f)), rest)
   | (FrameLine l, f, rest) \<Rightarrow> (Some (Inr (Some l)), rest))"

definition broker_input_of :: "(string \<Rightarrow> command option) \<Rightarrow> string + string option \<Rightarrow> broker_input" where
  "broker_input_of parse r = (case r of
     Inr (Some frame) \<Rightarrow> (case parse frame of Some c \<Rightarrow> InputCommand c | None \<Rightarrow> InputInvalid)
   | Inr None \<Rightarrow> InputEnd
   | Inl _ \<Rightarrow> InputFailed)"

definition input_stops :: "broker_input \<Rightarrow> bool" where
  "input_stops x \<longleftrightarrow> x \<in> {InputEnd, InputFailed, InputCommand Exit}"

text \<open>The inputs \<open>read_commands\<close> sends from the pieces there are; \<open>fuel\<close> bounds the frames.\<close>

fun read_commands :: "(string \<Rightarrow> command option) \<Rightarrow> nat \<Rightarrow> string option list \<Rightarrow> broker_input list" where
  "read_commands parse 0 pieces = []"
| "read_commands parse (Suc fuel) pieces = (case read_frame pieces of
     (None, rest) \<Rightarrow> []
   | (Some r, rest) \<Rightarrow> (let x = broker_input_of parse r
       in x # (if input_stops x then [] else read_commands parse fuel rest)))"

text \<open>Every frame but the last takes bytes off the stream, so one turn per byte and one more are enough.\<close>

definition piece_bytes :: "string option list \<Rightarrow> nat" where
  "piece_bytes pieces = sum_list (map (\<lambda>p. case p of None \<Rightarrow> 0 | Some b \<Rightarrow> length b) pieces)"

lemma next_frame_takes:
  "next_frame most frame pieces = (r, f, rest) \<Longrightarrow>
     (case r of FrameLine l \<Rightarrow> piece_bytes rest < piece_bytes pieces
      | FrameEnd \<Rightarrow> piece_bytes rest + length f = piece_bytes pieces + length frame
      | _ \<Rightarrow> True)"
proof (induction most frame pieces arbitrary: r f rest rule: next_frame.induct)
  case (3 most frame bytes pieces)
  let ?before = "takeWhile (\<lambda>c. c \<noteq> CHR 0x0A) bytes"
  have "length ?before \<le> length bytes" by (rule length_takeWhile_le)
  with 3 show ?case
    by (fastforce simp: piece_bytes_def Let_def split: if_splits frame_result.splits)
qed auto

lemma read_commands_fuel:
  "piece_bytes pieces < fuel \<Longrightarrow>
   read_commands parse (fuel + n) pieces = read_commands parse fuel pieces"
proof (induction fuel arbitrary: pieces)
  case (Suc fuel)
  obtain r f rest where nf: "next_frame MAX_FRAME_BYTES [] pieces = (r, f, rest)"
    by (metis prod_cases3)
  note takes = next_frame_takes [OF nf]
  show ?case
  proof (cases "\<exists>l. r = FrameLine l \<or> (r = FrameEnd \<and> f \<noteq> [])")
    case True
    with takes Suc.prems have "piece_bytes rest < fuel"
      by (cases r; cases f) auto
    from Suc.IH [OF this] True show ?thesis
      by (cases r) (auto simp: read_frame_def nf Let_def)
  next
    case False
    then show ?thesis
      by (cases r) (auto simp: read_frame_def nf broker_input_of_def input_stops_def Let_def)
  qed
qed simp

section \<open>The broker\<close>

datatype native_event = NShown | NActivated | NAction string | NDismissed | NClosed | NFailed string

record observed =
  ob_handle :: nat
  ob_generation :: nat
  ob_attempt :: "nat option"

record observation =
  on_id :: string
  on_generation :: nat
  on_event :: native_event

datatype native_call =
    CallShow string string "string option"
  | CallClose nat
  | CallWithdraw string
  | CallPermission bool

record broker =
  br_active :: "(string \<times> observed) list"
  br_next :: nat
  br_queue :: "observation list"
  br_permission :: bool
  br_out :: "event list"
  br_calls :: "native_call list"
  br_result :: "(string + unit) option"
  br_serving :: bool

text \<open>\<open>Completion::finish\<close>: the first result stands.\<close>

definition finish :: "string + unit \<Rightarrow> broker \<Rightarrow> broker" where
  "finish r b = (if br_result b = None then b\<lparr>br_result := Some r\<rparr> else b)"

text \<open>The loop returns; what it returns is the result, unless there is one.\<close>

definition serve_ends :: "string + unit \<Rightarrow> broker \<Rightarrow> broker" where
  "serve_ends r b = (finish r b)\<lparr>br_serving := False\<rparr>"

definition broker_failure :: "string option \<Rightarrow> string \<Rightarrow> event" where
  "broker_failure i msg = Failed i None msg"

fun with_attempt :: "event \<Rightarrow> nat option \<Rightarrow> event" where
  "with_attempt (Failed i _ msg) value_of = Failed i value_of msg"
| "with_attempt e value_of = e"

definition native_call :: "native_call \<Rightarrow> broker \<Rightarrow> broker" where
  "native_call c b = b\<lparr>br_calls := br_calls b @ [c]\<rparr>"

text \<open>\<open>show_says\<close> is the handle of the notification or the error, \<open>gone\<close> what \<open>withdraw\<close> says.\<close>

definition broker_show ::
  "string + nat \<Rightarrow> string \<Rightarrow> nat option \<Rightarrow> string \<Rightarrow> string option \<Rightarrow> broker \<Rightarrow> (event + bool option) \<times> broker" where
  "broker_show show_says i attempt title body b =
     (if map_of (br_active b) i = None \<and> MAX_ACTIVE \<le> length (br_active b)
      then (Inl (with_attempt (broker_failure (Some i) ''Too many active notifications'') attempt), b)
      else if u64_max \<le> br_next b
      then (Inl (with_attempt (broker_failure (Some i) ''Notification broker must restart'') attempt), b)
      else
        (let b = native_call (CallShow i title body) (b\<lparr>br_next := br_next b + 1\<rparr>)
         in case show_says of
              Inl e \<Rightarrow> (Inl (with_attempt (broker_failure (Some i) e) attempt), b)
            | Inr handle \<Rightarrow> (Inr None, b\<lparr>br_active := AList.update i
                \<lparr>ob_handle = handle, ob_generation = br_next b, ob_attempt = attempt\<rparr> (br_active b)\<rparr>)))"

definition broker_withdraw :: "string + unit \<Rightarrow> string \<Rightarrow> broker \<Rightarrow> (event + bool option) \<times> broker" where
  "broker_withdraw gone i b = (case map_of (br_active b) i of
     Some a \<Rightarrow> (Inr None, native_call (CallClose (ob_handle a)) (b\<lparr>br_active := AList.delete i (br_active b)\<rparr>))
   | None \<Rightarrow> (case gone of
       Inr _ \<Rightarrow> (Inr None, native_call (CallWithdraw i) b)
     | Inl e \<Rightarrow> (Inl (broker_failure (Some i) e), native_call (CallWithdraw i) b)))"

text \<open>\<open>Broker::command\<close>: an event to report, or the permission query to wait for.\<close>

definition broker_command ::
  "string + nat \<Rightarrow> string + unit \<Rightarrow> command \<Rightarrow> broker \<Rightarrow> (event + bool option) \<times> broker" where
  "broker_command show_says gone c b =
     (let attempt = (case c of Show i attempt title body \<Rightarrow> attempt | _ \<Rightarrow> None)
      in case validate c of
           Inl msg \<Rightarrow> (Inl (with_attempt (broker_failure (command_id c) msg) attempt), b)
         | Inr _ \<Rightarrow> (case c of
             Show i attempt title body \<Rightarrow> broker_show show_says i attempt title body b
           | Withdraw i \<Rightarrow> broker_withdraw gone i b
           | PermissionQuery \<Rightarrow> (Inr (Some False), native_call (CallPermission False) b)
           | RequestPermission \<Rightarrow> (Inr (Some True), native_call (CallPermission True) b)
           | Exit \<Rightarrow> (Inr None, b)))"

definition observed_event :: "string \<Rightarrow> nat option \<Rightarrow> native_event \<Rightarrow> event" where
  "observed_event i attempt e = (case e of
     NShown \<Rightarrow> Shown i attempt
   | NActivated \<Rightarrow> Activated i attempt None
   | NAction action \<Rightarrow> Activated i attempt (Some action)
   | NDismissed \<Rightarrow> Dismissed i attempt
   | NClosed \<Rightarrow> Closed i attempt
   | NFailed err \<Rightarrow> with_attempt (broker_failure (Some i) err) attempt)"

definition broker_observation :: "observation \<Rightarrow> broker \<Rightarrow> event option \<times> broker" where
  "broker_observation ob b = (case map_of (br_active b) (on_id ob) of
     None \<Rightarrow> (None, b)
   | Some a \<Rightarrow>
       if ob_generation a \<noteq> on_generation ob then (None, b)
       else (Some (observed_event (on_id ob) (ob_attempt a) (on_event ob)),
             if on_event ob = NShown then b else b\<lparr>br_active := AList.delete (on_id ob) (br_active b)\<rparr>))"

text \<open>The callback given to the service: it puts what is reported on the bounded queue.\<close>

definition broker_callback :: "string \<Rightarrow> nat \<Rightarrow> native_event \<Rightarrow> broker \<Rightarrow> broker" where
  "broker_callback i generation e b =
     (let e = (case e of
            NAction action \<Rightarrow> (case validate_id action of Inl _ \<Rightarrow> NFailed ''invalid input'' | Inr _ \<Rightarrow> e)
          | _ \<Rightarrow> e)
      in if length (br_queue b) < BR_EVENT_CAPACITY
         then b\<lparr>br_queue := br_queue b @ [\<lparr>on_id = i, on_generation = generation, on_event = e\<rparr>]\<rparr>
         else finish (Inl ''Notification event queue overflow'') b)"

section \<open>The loop\<close>

definition broker_emit :: "bool \<Rightarrow> event \<Rightarrow> broker \<Rightarrow> broker" where
  "broker_emit writes e b =
     (if writes then b\<lparr>br_out := br_out b @ [e]\<rparr> else serve_ends (Inl ''Cannot write notification event'') b)"

text \<open>
  One turn of \<open>select!\<close>, biased: an observation on the queue, then an answered permission query,
  then input. A result found by a callback does not stop the loop; the process ends soon after.
  \<open>query\<close> is the answer if there is one by now, \<open>input\<close> what has been read.
\<close>

definition broker_turn ::
  "(string + permission_state) option \<Rightarrow> broker_input option \<Rightarrow> string + nat \<Rightarrow> string + unit \<Rightarrow> bool
     \<Rightarrow> broker \<Rightarrow> broker" where
  "broker_turn query input show_says gone writes b =
     (if \<not> br_serving b then b
      else case br_queue b of
        ob # rest \<Rightarrow> (case broker_observation ob (b\<lparr>br_queue := rest\<rparr>) of
            (Some e, b) \<Rightarrow> broker_emit writes e b | (None, b) \<Rightarrow> b)
      | [] \<Rightarrow>
          if br_permission b \<and> query \<noteq> None
          then broker_emit writes (case the query of
                 Inr p \<Rightarrow> PermissionEvent p | Inl e \<Rightarrow> broker_failure None e) (b\<lparr>br_permission := False\<rparr>)
          else (case input of
              None \<Rightarrow> b
            | Some InputEnd \<Rightarrow> serve_ends (Inr ()) b
            | Some InputInvalid \<Rightarrow> broker_emit writes (broker_failure None ''Invalid notification command'') b
            | Some InputFailed \<Rightarrow> serve_ends (Inl ''Notification input failed'')
                (broker_emit writes (broker_failure None ''Cannot read notification command'') b)
            | Some (InputCommand c) \<Rightarrow>
                if c = Exit then serve_ends (Inr ()) b
                else if br_permission b \<and> (c = PermissionQuery \<or> c = RequestPermission)
                then broker_emit writes (broker_failure None ''Notification permission query already in progress'') b
                else (case broker_command show_says gone c b of
                    (Inr (Some _), b) \<Rightarrow> b\<lparr>br_permission := True\<rparr>
                  | (Inr None, b) \<Rightarrow> b
                  | (Inl e, b) \<Rightarrow> broker_emit writes e b)))"

definition broker_new :: "bool \<Rightarrow> broker" where
  "broker_new writes = broker_emit writes (Ready PROTOCOL_VERSION)
     \<lparr>br_active = [], br_next = 0, br_queue = [], br_permission = False, br_out = [], br_calls = [],
      br_result = None, br_serving = True\<rparr>"

datatype broker_step =
    Turn "(string + permission_state) option" "broker_input option" "string + nat" "string + unit" bool
  | Callback string nat native_event

fun broker_next :: "broker_step \<Rightarrow> broker \<Rightarrow> broker" where
  "broker_next (Turn query input show_says gone writes) b = broker_turn query input show_says gone writes b"
| "broker_next (Callback i generation e) b = broker_callback i generation e b"

definition broker_run :: "broker_step list \<Rightarrow> broker \<Rightarrow> broker" where
  "broker_run xs b = fold broker_next xs b"

section \<open>What the broker keeps and reports\<close>

definition shows_of :: "broker_step list \<Rightarrow> (string \<times> nat option) list" where
  "shows_of xs = List.map_filter (\<lambda>x. case x of
     Turn query (Some (InputCommand (Show i attempt title body))) show_says gone writes \<Rightarrow> Some (i, attempt)
   | _ \<Rightarrow> None) xs"

text \<open>The notification a report is about, if it is about one.\<close>

fun report_about :: "event \<Rightarrow> (string \<times> nat option) option" where
  "report_about (Shown i attempt) = Some (i, attempt)"
| "report_about (Activated i attempt action) = Some (i, attempt)"
| "report_about (Dismissed i attempt) = Some (i, attempt)"
| "report_about (Closed i attempt) = Some (i, attempt)"
| "report_about e = None"

definition broker_ok :: "(string \<times> nat option) set \<Rightarrow> broker \<Rightarrow> bool" where
  "broker_ok shown b \<longleftrightarrow> distinct (map fst (br_active b)) \<and> length (br_active b) \<le> MAX_ACTIVE
     \<and> length (br_queue b) \<le> BR_EVENT_CAPACITY
     \<and> (\<forall>i x. map_of (br_active b) i = Some x \<longrightarrow> (i, ob_attempt x) \<in> shown \<and> ob_generation x \<le> br_next b)
     \<and> (\<forall>i x j y. map_of (br_active b) i = Some x \<and> map_of (br_active b) j = Some y
          \<and> ob_generation x = ob_generation y \<longrightarrow> i = j)
     \<and> list_all (\<lambda>e. case report_about e of None \<Rightarrow> True | Some r \<Rightarrow> r \<in> shown) (br_out b)"

lemma report_about_observed: "report_about (observed_event i attempt e) \<in> {None, Some (i, attempt)}"
  by (cases e) (auto simp: observed_event_def broker_failure_def)

lemma broker_ok_emit:
  "broker_ok shown b \<Longrightarrow> report_about e = None \<or> (\<exists>r \<in> shown. report_about e = Some r)
    \<Longrightarrow> broker_ok shown (broker_emit writes e b)"
  by (auto simp: broker_ok_def broker_emit_def serve_ends_def finish_def)

lemma broker_ok_frame:
  assumes "broker_ok shown b" "br_active b' = br_active b" "br_queue b' = br_queue b" "br_next b \<le> br_next b'"
    "br_out b' = br_out b"
  shows "broker_ok shown b'"
  using assms by (fastforce simp: broker_ok_def intro: le_trans)

lemma broker_ok_more: "broker_ok shown b \<Longrightarrow> shown \<subseteq> shown' \<Longrightarrow> broker_ok shown' b"
  unfolding broker_ok_def list_all_iff by (fastforce split: option.splits)

lemma broker_ok_delete:
  assumes "broker_ok shown b"
  shows "broker_ok shown (b\<lparr>br_active := AList.delete i (br_active b)\<rparr>)"
proof -
  have "length (AList.delete i (br_active b)) \<le> length (br_active b)" by (rule length_delete_le)
  with assms show ?thesis
    by (auto simp: broker_ok_def delete_conv' distinct_delete)
qed

lemma broker_ok_show:
  assumes ok: "broker_ok shown b" and member: "(i, attempt) \<in> shown"
    and r: "broker_show show_says i attempt title body b = (r, b')"
  shows "broker_ok shown b' \<and> br_queue b' = br_queue b
    \<and> (case r of Inl e \<Rightarrow> report_about e = None | Inr _ \<Rightarrow> True)"
proof -
  have none: "report_about (with_attempt (broker_failure (Some i) msg) attempt) = None" for msg
    by (simp add: broker_failure_def)
  let ?b1 = "native_call (CallShow i title body) (b\<lparr>br_next := br_next b + 1\<rparr>)"
  have ok1: "broker_ok shown ?b1" by (rule broker_ok_frame [OF ok]) (simp_all add: native_call_def)
  show ?thesis
  proof (cases "(map_of (br_active b) i = None \<and> MAX_ACTIVE \<le> length (br_active b)) \<or> u64_max \<le> br_next b")
    case True
    with r ok none show ?thesis by (auto simp: broker_show_def split: if_splits)
  next
    case False
    show ?thesis
    proof (cases show_says)
      case (Inl e)
      with False r ok1 none show ?thesis by (auto simp: broker_show_def Let_def native_call_def)
    next
      case (Inr handle)
      let ?v = "\<lparr>ob_handle = handle, ob_generation = br_next b + 1, ob_attempt = attempt\<rparr>"
      from False r Inr have b': "b' = ?b1\<lparr>br_active := AList.update i ?v (br_active b)\<rparr>" "r = Inr None"
        by (auto simp: broker_show_def Let_def native_call_def)
      have gen: "ob_generation x \<noteq> Suc (br_next b)" "Suc (br_next b) \<noteq> ob_generation x"
        if "map_of (br_active b) j = Some x" for j x
        using ok that by (fastforce simp: broker_ok_def)+
      have "broker_ok shown b'"
        using ok member False gen unfolding b'(1) broker_ok_def
        by (auto simp: native_call_def update_conv' distinct_update length_AList_update gen split: if_splits intro: le_SucI)
      with b' show ?thesis by (simp add: native_call_def)
    qed
  qed
qed

lemma broker_ok_withdraw:
  assumes "broker_ok shown b" "broker_withdraw gone i b = (r, b')"
  shows "broker_ok shown b' \<and> (case r of Inl e \<Rightarrow> report_about e = None | Inr _ \<Rightarrow> True)"
proof (cases "map_of (br_active b) i")
  case None
  then have "b' = native_call (CallWithdraw i) b"
    "case r of Inl e \<Rightarrow> report_about e = None | Inr _ \<Rightarrow> True"
    using assms(2) by (auto simp: broker_withdraw_def broker_failure_def split: sum.splits)
  with broker_ok_frame [OF assms(1), of "native_call (CallWithdraw i) b"] show ?thesis
    by (simp add: native_call_def)
next
  case (Some a)
  with assms(2) have "r = Inr None"
    "b' = native_call (CallClose (ob_handle a)) (b\<lparr>br_active := AList.delete i (br_active b)\<rparr>)"
    by (auto simp: broker_withdraw_def)
  with broker_ok_frame [OF broker_ok_delete [OF assms(1), of i], of b'] show ?thesis
    by (simp add: native_call_def)
qed

lemma broker_ok_command:
  assumes ok: "broker_ok shown b" and r: "broker_command show_says gone c b = (r, b')"
    and member: "\<And>i attempt title body. c = Show i attempt title body \<Longrightarrow> (i, attempt) \<in> shown"
  shows "broker_ok shown b' \<and> (case r of Inl e \<Rightarrow> report_about e = None | Inr _ \<Rightarrow> True)"
proof (cases "validate c")
  case (Inl msg)
  with r ok show ?thesis by (auto simp: broker_command_def Let_def broker_failure_def)
next
  case (Inr u)
  have native: "broker_ok shown (native_call call b)" for call
    using broker_ok_frame [OF ok, of "native_call call b"] by (simp add: native_call_def)
  show ?thesis
    using Inr r member broker_ok_show [OF ok] broker_ok_withdraw [OF ok] native ok
    by (cases c) (fastforce simp: broker_command_def Let_def)+
qed

lemma broker_ok_observation:
  assumes "broker_ok shown b" "broker_observation ob b = (r, b')"
  shows "broker_ok shown b' \<and> (case r of None \<Rightarrow> True
      | Some e \<Rightarrow> report_about e = None \<or> (\<exists>p \<in> shown. report_about e = Some p))"
proof (cases "map_of (br_active b) (on_id ob)")
  case None
  with assms show ?thesis by (auto simp: broker_observation_def)
next
  case (Some a)
  have "(on_id ob, ob_attempt a) \<in> shown" using assms(1) Some by (simp add: broker_ok_def)
  with report_about_observed [of "on_id ob" "ob_attempt a" "on_event ob"]
  have "report_about (observed_event (on_id ob) (ob_attempt a) (on_event ob)) = None
      \<or> (\<exists>p \<in> shown. report_about (observed_event (on_id ob) (ob_attempt a) (on_event ob)) = Some p)"
    by auto
  with assms Some broker_ok_delete [OF assms(1)] show ?thesis
    by (auto simp: broker_observation_def split: if_splits)
qed

lemma broker_ok_ends: "broker_ok shown (serve_ends r b) = broker_ok shown b"
  by (simp add: broker_ok_def serve_ends_def finish_def)

lemma broker_ok_turn:
  assumes ok: "broker_ok shown b"
    and member: "\<And>i attempt title body. input = Some (InputCommand (Show i attempt title body)) \<Longrightarrow> (i, attempt) \<in> shown"
  shows "broker_ok shown (broker_turn query input show_says gone writes b)"
proof (cases "br_serving b")
  case serving: True
  have quiet: "broker_ok shown (broker_emit writes (broker_failure None msg) b)" for msg
    by (rule broker_ok_emit [OF ok]) (simp add: broker_failure_def)
  show ?thesis
  proof (cases "br_queue b")
    case (Cons ob rest)
    have "broker_ok shown (b\<lparr>br_queue := rest\<rparr>)" using ok Cons by (auto simp: broker_ok_def)
    note obs = broker_ok_observation [OF this]
    obtain r b' where rb: "broker_observation ob (b\<lparr>br_queue := rest\<rparr>) = (r, b')"
      by (cases "broker_observation ob (b\<lparr>br_queue := rest\<rparr>)")
    with obs [OF rb] serving Cons broker_ok_emit show ?thesis
      by (cases r) (simp_all add: broker_turn_def)
  next
    case Nil
    show ?thesis
    proof (cases "br_permission b \<and> query \<noteq> None")
      case True
      have "broker_ok shown (b\<lparr>br_permission := False\<rparr>)" using ok by (simp add: broker_ok_def)
      from broker_ok_emit [OF this] serving Nil True show ?thesis
        by (auto simp: broker_turn_def broker_failure_def split: sum.splits)
    next
      case False
      note base = serving Nil False
      consider (none) "input = None" | (ends) "input = Some InputEnd" | (bad) "input = Some InputInvalid"
        | (failed) "input = Some InputFailed" | (command) c where "input = Some (InputCommand c)"
        by (cases input; cases "the input") auto
      then show ?thesis
      proof cases
        case none
        with base ok show ?thesis by (auto simp: broker_turn_def)
      next
        case ends
        with base ok show ?thesis by (auto simp: broker_turn_def broker_ok_ends)
      next
        case bad
        with base quiet show ?thesis by (auto simp: broker_turn_def)
      next
        case failed
        with base quiet show ?thesis by (auto simp: broker_turn_def broker_ok_ends)
      next
        case (command c)
        obtain r b' where rb: "broker_command show_says gone c b = (r, b')"
          by (cases "broker_command show_says gone c b")
        have cmd: "broker_ok shown b'" "case r of Inl e \<Rightarrow> report_about e = None | Inr _ \<Rightarrow> True"
          using broker_ok_command [OF ok rb] member command by auto
        have "broker_ok shown (b'\<lparr>br_permission := True\<rparr>)" using cmd(1) by (simp add: broker_ok_def)
        with base command rb cmd quiet ok broker_ok_emit [OF cmd(1)] show ?thesis
          by (auto simp: broker_turn_def broker_ok_ends split: sum.splits option.splits)
      qed
    qed
  qed
qed (simp add: broker_turn_def ok)

lemma broker_ok_callback: "broker_ok shown b \<Longrightarrow> broker_ok shown (broker_callback i generation e b)"
  by (auto simp: broker_callback_def Let_def broker_ok_def finish_def)

lemma shows_of_Cons: "set (shows_of (x # xs)) = set (shows_of [x]) \<union> set (shows_of xs)"
  by (auto simp: shows_of_def List.map_filter_simps split: option.splits)

lemma broker_ok_next: "broker_ok shown b \<Longrightarrow> set (shows_of [x]) \<subseteq> shown \<Longrightarrow> broker_ok shown (broker_next x b)"
  by (cases x) (auto intro!: broker_ok_turn broker_ok_callback simp: shows_of_def List.map_filter_simps)

lemma broker_ok_run: "broker_ok shown b \<Longrightarrow> set (shows_of xs) \<subseteq> shown \<Longrightarrow> broker_ok shown (broker_run xs b)"
proof (induction xs arbitrary: b)
  case (Cons x xs)
  then have "broker_ok shown (broker_next x b)" by (intro broker_ok_next) (auto simp: shows_of_Cons [of x xs])
  from Cons.IH [OF this] Cons.prems(2) show ?case by (simp add: broker_run_def shows_of_Cons [of x xs])
qed (simp add: broker_run_def)

text \<open>
  In every reachable state the helper observes at most 32 notifications and queues at most
  128 reports, and whatever it reports the acceptance, activation or end of is a notification it
  was told to show, under the attempt it was told.
\<close>

theorem reports_are_about_shown_notifications:
  "let b = broker_run xs (broker_new writes)
   in length (br_active b) \<le> 32 \<and> length (br_queue b) \<le> 128
     \<and> list_all (\<lambda>e. case report_about e of None \<Rightarrow> True | Some r \<Rightarrow> r \<in> set (shows_of xs)) (br_out b)"
proof -
  have "broker_ok (set (shows_of xs)) (broker_new writes)"
    by (auto simp: broker_ok_def broker_new_def broker_emit_def serve_ends_def finish_def)
  from broker_ok_run [OF this, of xs] show ?thesis
    by (simp add: broker_ok_def MAX_ACTIVE_def BR_EVENT_CAPACITY_def Let_def)
qed

end
