(* ===== verification/Composer.thy ===== *)
theory Composer
  imports StdText
begin

text \<open>
  \<open>src/tui/composer.rs\<close>: the text being typed, with its cursor, and the questions asked before.
  The text is UTF-8 bytes and the cursor a byte offset. A slice or an edit of a Rust string
  panics where an offset is not at a character; \<open>None\<close> stands for that.
\<close>

definition HISTORY_KEEP :: nat where "HISTORY_KEEP = 500"

section \<open>Strings\<close>

definition is_cont :: "char \<Rightarrow> bool" where
  "is_cont c \<longleftrightarrow> 0x80 \<le> (of_char c :: nat) \<and> (of_char c :: nat) < 0xC0"

function chars_of :: "string \<Rightarrow> string list" where
  "chars_of [] = []"
| "chars_of (c # s) = (c # takeWhile is_cont s) # chars_of (dropWhile is_cont s)"
  by pat_completeness auto
termination by (relation "measure length") (auto simp: length_dropWhile_le le_imp_less_Suc)

definition slice :: "string \<Rightarrow> nat \<Rightarrow> nat \<Rightarrow> string option" where
  "slice s a b = (if a \<le> b \<and> is_char_boundary s a \<and> is_char_boundary s b
     then Some (take (b - a) (drop a s)) else None)"

text \<open>\<open>replace_range(a..b, "")\<close> and \<open>insert_str(a, t)\<close>.\<close>

definition remove_range :: "string \<Rightarrow> nat \<Rightarrow> nat \<Rightarrow> string option" where
  "remove_range s a b = map_option (\<lambda>_. take a s @ drop b s) (slice s a b)"

definition insert_at :: "string \<Rightarrow> nat \<Rightarrow> string \<Rightarrow> string option" where
  "insert_at s a t = (if is_char_boundary s a then Some (take a s @ t @ drop a s) else None)"

text \<open>\<open>find\<close> and \<open>rfind\<close> of an ASCII character.\<close>

definition find_char :: "(char \<Rightarrow> bool) \<Rightarrow> string \<Rightarrow> nat option" where
  "find_char P s = (let n = length (takeWhile (\<lambda>c. \<not> P c) s) in if n = length s then None else Some n)"

definition rfind_char :: "(char \<Rightarrow> bool) \<Rightarrow> string \<Rightarrow> nat option" where
  "rfind_char P s = map_option (\<lambda>n. length s - 1 - n) (find_char P (rev s))"

section \<open>The composer\<close>

record composer =
  co_text :: string
  co_cursor :: nat

definition co_new :: composer where "co_new = \<lparr>co_text = [], co_cursor = 0\<rparr>"

definition co_set :: "string \<Rightarrow> composer" where
  "co_set s = \<lparr>co_text = s, co_cursor = length s\<rparr>"

definition co_take :: "composer \<Rightarrow> string \<times> composer" where
  "co_take c = (co_text c, co_new)"

definition co_insert :: "string \<Rightarrow> composer \<Rightarrow> composer option" where
  "co_insert s c = map_option (\<lambda>t. \<lparr>co_text = t, co_cursor = co_cursor c + length s\<rparr>)
     (insert_at (co_text c) (co_cursor c) s)"

definition line_start :: "composer \<Rightarrow> nat option" where
  "line_start c = map_option (\<lambda>s. case rfind_char (\<lambda>x. x = CHR 0x0A) s of Some i \<Rightarrow> i + 1 | None \<Rightarrow> 0)
     (slice (co_text c) 0 (co_cursor c))"

definition line_end :: "composer \<Rightarrow> nat option" where
  "line_end c = map_option (\<lambda>s. case find_char (\<lambda>x. x = CHR 0x0A) s of
       Some i \<Rightarrow> co_cursor c + i | None \<Rightarrow> length (co_text c))
     (slice (co_text c) (co_cursor c) (length (co_text c)))"

text \<open>Where the last character before the cursor starts, and where the next one ends.\<close>

definition prev_boundary :: "composer \<Rightarrow> nat option option" where
  "prev_boundary c = map_option (\<lambda>s. case rev (chars_of s) of
       [] \<Rightarrow> None | x # _ \<Rightarrow> Some (length s - length x)) (slice (co_text c) 0 (co_cursor c))"

definition next_boundary :: "composer \<Rightarrow> nat option option" where
  "next_boundary c = map_option (\<lambda>s. case chars_of s of
       [] \<Rightarrow> None | x # _ \<Rightarrow> Some (co_cursor c + length x))
     (slice (co_text c) (co_cursor c) (length (co_text c)))"

definition co_backspace :: "composer \<Rightarrow> composer option" where
  "co_backspace c = Option.bind (prev_boundary c) (\<lambda>p. case p of
     None \<Rightarrow> Some c
   | Some start \<Rightarrow> map_option (\<lambda>t. \<lparr>co_text = t, co_cursor = start\<rparr>)
       (remove_range (co_text c) start (co_cursor c)))"

definition co_delete :: "composer \<Rightarrow> composer option" where
  "co_delete c = Option.bind (next_boundary c) (\<lambda>p. case p of
     None \<Rightarrow> Some c
   | Some stop \<Rightarrow> map_option (\<lambda>t. c\<lparr>co_text := t\<rparr>) (remove_range (co_text c) (co_cursor c) stop))"

definition co_left :: "composer \<Rightarrow> composer option" where
  "co_left c = map_option (\<lambda>p. case p of None \<Rightarrow> c | Some start \<Rightarrow> c\<lparr>co_cursor := start\<rparr>) (prev_boundary c)"

definition co_right :: "composer \<Rightarrow> composer option" where
  "co_right c = map_option (\<lambda>p. case p of None \<Rightarrow> c | Some stop \<Rightarrow> c\<lparr>co_cursor := stop\<rparr>) (next_boundary c)"

definition co_home :: "composer \<Rightarrow> composer option" where
  "co_home c = map_option (\<lambda>start. c\<lparr>co_cursor := start\<rparr>) (line_start c)"

definition co_end :: "composer \<Rightarrow> composer option" where
  "co_end c = map_option (\<lambda>stop. c\<lparr>co_cursor := stop\<rparr>) (line_end c)"

definition co_kill_before :: "composer \<Rightarrow> composer option" where
  "co_kill_before c = Option.bind (line_start c) (\<lambda>start.
     map_option (\<lambda>t. \<lparr>co_text = t, co_cursor = start\<rparr>) (remove_range (co_text c) start (co_cursor c)))"

definition co_kill_after :: "composer \<Rightarrow> composer option" where
  "co_kill_after c = Option.bind (line_end c) (\<lambda>stop.
     map_option (\<lambda>t. c\<lparr>co_text := t\<rparr>) (remove_range (co_text c) (co_cursor c) stop))"

definition word_break :: "char \<Rightarrow> bool" where
  "word_break c \<longleftrightarrow> c = CHR '' '' \<or> c = CHR ''/'' \<or> c = CHR 0x5C"

definition co_delete_word :: "composer \<Rightarrow> composer option" where
  "co_delete_word c = Option.bind (slice (co_text c) 0 (co_cursor c)) (\<lambda>before.
     (let trimmed = rev (dropWhile word_break (rev before));
          start = (case rfind_char (\<lambda>x. word_break x \<or> x = CHR 0x0A) trimmed of Some i \<Rightarrow> i + 1 | None \<Rightarrow> 0)
      in map_option (\<lambda>t. \<lparr>co_text = t, co_cursor = start\<rparr>) (remove_range (co_text c) start (co_cursor c))))"

definition column_offset :: "string \<Rightarrow> nat \<Rightarrow> nat \<Rightarrow> nat \<Rightarrow> nat option" where
  "column_offset s start stop column = map_option (\<lambda>line.
     if column < length (chars_of line) then start + length (concat (take column (chars_of line))) else stop)
     (slice s start stop)"

text \<open>\<open>up\<close> and \<open>down\<close>: whether there was a line to go to.\<close>

definition co_up :: "composer \<Rightarrow> (bool \<times> composer) option" where
  "co_up c = Option.bind (line_start c) (\<lambda>start.
     if start = 0 then Some (False, c)
     else Option.bind (slice (co_text c) start (co_cursor c)) (\<lambda>line.
       Option.bind (slice (co_text c) 0 (start - 1)) (\<lambda>before.
         (let prev_start = (case rfind_char (\<lambda>x. x = CHR 0x0A) before of Some i \<Rightarrow> i + 1 | None \<Rightarrow> 0)
          in map_option (\<lambda>at0. (True, c\<lparr>co_cursor := at0\<rparr>))
               (column_offset (co_text c) prev_start (start - 1) (length (chars_of line)))))))"

definition co_down :: "composer \<Rightarrow> (bool \<times> composer) option" where
  "co_down c = Option.bind (line_end c) (\<lambda>stop.
     if stop = length (co_text c) then Some (False, c)
     else Option.bind (line_start c) (\<lambda>start.
       Option.bind (slice (co_text c) start (co_cursor c)) (\<lambda>line.
         Option.bind (slice (co_text c) (stop + 1) (length (co_text c))) (\<lambda>after.
           (let next_end = (case find_char (\<lambda>x. x = CHR 0x0A) after of
                  Some i \<Rightarrow> stop + 1 + i | None \<Rightarrow> length (co_text c))
            in map_option (\<lambda>at0. (True, c\<lparr>co_cursor := at0\<rparr>))
                 (column_offset (co_text c) (stop + 1) next_end (length (chars_of line))))))))"

definition on_first_line :: "composer \<Rightarrow> bool option" where
  "on_first_line c = map_option (\<lambda>start. start = 0) (line_start c)"

definition on_last_line :: "composer \<Rightarrow> bool option" where
  "on_last_line c = map_option (\<lambda>stop. stop = length (co_text c)) (line_end c)"

section \<open>The history\<close>

record history =
  hi_entries :: "string list"
  hi_at :: "nat option"
  hi_draft :: string

definition history_new :: "string list \<Rightarrow> history" where
  "history_new entries =
     \<lparr>hi_entries = (if HISTORY_KEEP < length entries then drop (length entries - HISTORY_KEEP) entries else entries),
      hi_at = None, hi_draft = []\<rparr>"

definition history_push :: "string \<Rightarrow> history \<Rightarrow> bool \<times> history" where
  "history_push entry h =
     (let h = h\<lparr>hi_at := None\<rparr>
      in if trim_ws entry = [] \<or> (hi_entries h \<noteq> [] \<and> last (hi_entries h) = entry) then (False, h)
         else (let entries = hi_entries h @ [entry]
               in (True, h\<lparr>hi_entries := if HISTORY_KEEP < length entries then tl entries else entries\<rparr>)))"

definition history_back :: "string \<Rightarrow> history \<Rightarrow> string option \<times> history" where
  "history_back current h = (case hi_at h of
     None \<Rightarrow>
       if hi_entries h = [] then (None, h)
       else (let at0 = length (hi_entries h) - 1
             in (Some (hi_entries h ! at0), h\<lparr>hi_draft := current, hi_at := Some at0\<rparr>))
   | Some 0 \<Rightarrow> (None, h)
   | Some (Suc at0) \<Rightarrow> (Some (hi_entries h ! at0), h\<lparr>hi_at := Some at0\<rparr>))"

definition history_forward :: "history \<Rightarrow> string option \<times> history" where
  "history_forward h = (case hi_at h of
     None \<Rightarrow> (None, h)
   | Some at0 \<Rightarrow>
       if at0 + 1 < length (hi_entries h)
       then (Some (hi_entries h ! (at0 + 1)), h\<lparr>hi_at := Some (at0 + 1)\<rparr>)
       else (Some (hi_draft h), h\<lparr>hi_at := None, hi_draft := []\<rparr>))"

definition history_reset :: "history \<Rightarrow> history" where
  "history_reset h = h\<lparr>hi_at := None\<rparr>"

end
