(* ===== verification/ComposerFacts.thy ===== *)
theory ComposerFacts
  imports Composer
begin

text \<open>
  The composer refines an editor over characters: the characters before the cursor and those
  after it. So no key ever makes it panic, and the cursor is always at a character.
\<close>

section \<open>Characters\<close>

definition is_char :: "string \<Rightarrow> bool" where
  "is_char c \<longleftrightarrow> c \<noteq> [] \<and> \<not> is_cont (hd c) \<and> list_all is_cont (tl c)
     \<and> ((of_char (hd c) :: nat) < 0x80 \<longrightarrow> tl c = [])"

lemma is_charE:
  assumes "is_char c"
  obtains x where "c = [x]" "(of_char x :: nat) < 0x80"
    | x xs where "c = x # xs" "0xC0 \<le> (of_char x :: nat)" "list_all is_cont xs"
  using assms by (cases c) (auto simp: is_char_def is_cont_def not_le not_less)

lemma chars_of_concat: "list_all is_char cs \<Longrightarrow> chars_of (concat cs) = cs"
proof (induction cs)
  case (Cons c cs)
  then obtain x xs where c: "c = x # xs" and xs: "list_all is_cont xs"
    by (cases c) (auto simp: is_char_def)
  have nc: "takeWhile is_cont (concat cs) = []" "dropWhile is_cont (concat cs) = concat cs"
    using Cons.prems by (cases cs; simp; cases "hd cs"; simp add: is_char_def)+
  have all: "\<forall>y \<in> set xs. is_cont y" using xs by (simp add: list_all_iff)
  with c nc Cons show ?case by (simp add: takeWhile_append dropWhile_append)
qed simp

lemma chars_of_all: "list_all is_char (chars_of s) \<Longrightarrow> concat (chars_of s) = s"
  by (induction s rule: chars_of.induct) auto

lemma concat_chars_of: "concat (chars_of s) = s"
  by (induction s rule: chars_of.induct) auto

lemma boundary_between:
  assumes "list_all is_char b"
  shows "is_char_boundary (concat a @ concat b) (length (concat a))"
proof (cases b)
  case (Cons c cs)
  with assms obtain x xs where "c = x # xs" "\<not> is_cont x" by (cases c) (auto simp: is_char_def)
  with Cons show ?thesis by (simp add: is_char_boundary_def nth_append is_cont_def)
qed (simp add: is_char_boundary_def)

lemma slice_between:
  assumes "list_all is_char b" "list_all is_char d"
  shows "slice (concat a @ concat b @ concat d) (length (concat a)) (length (concat a) + length (concat b))
      = Some (concat b)"
proof -
  have "is_char_boundary (concat a @ concat (b @ d)) (length (concat a))"
    by (rule boundary_between) (use assms in simp)
  moreover have "is_char_boundary (concat (a @ b) @ concat d) (length (concat (a @ b)))"
    by (rule boundary_between) (use assms in simp)
  ultimately show ?thesis by (simp add: slice_def)
qed

text \<open>An ASCII character is found in the bytes where it is found among the characters.\<close>

definition ascii_pred :: "(char \<Rightarrow> bool) \<Rightarrow> bool" where
  "ascii_pred P \<longleftrightarrow> (\<forall>c. P c \<longrightarrow> (of_char c :: nat) < 0x80)"

definition lift_char :: "(char \<Rightarrow> bool) \<Rightarrow> string \<Rightarrow> bool" where
  "lift_char P c \<longleftrightarrow> (case c of [x] \<Rightarrow> P x | _ \<Rightarrow> False)"

lemma char_without:
  assumes "is_char c" "ascii_pred P" "\<not> lift_char P c"
  shows "\<forall>x \<in> set c. \<not> P x"
  using assms(1)
proof (cases rule: is_charE)
  case (1 x)
  with assms(3) show ?thesis by (simp add: lift_char_def)
next
  case (2 x xs)
  have "\<not> P y" if "y \<in> set (x # xs)" for y
    using 2 that assms(2) by (fastforce simp: ascii_pred_def is_cont_def list_all_iff)
  with 2 show ?thesis by simp
qed

lemma char_with: "lift_char P c \<Longrightarrow> \<exists>x. c = [x] \<and> P x"
  by (auto simp: lift_char_def split: list.splits)

lemma takeWhile_concat:
  assumes "list_all is_char cs" "ascii_pred P"
  shows "takeWhile (\<lambda>x. \<not> P x) (concat cs) = concat (takeWhile (\<lambda>c. \<not> lift_char P c) cs)"
  using assms(1)
proof (induction cs)
  case (Cons c cs)
  show ?case
  proof (cases "lift_char P c")
    case True
    from char_with [OF this] True show ?thesis by auto
  next
    case False
    with char_without [OF _ assms(2) False] Cons show ?thesis by (simp add: takeWhile_append)
  qed
qed simp

lemma rev_concat_singletons: "rev (concat cs) = concat (map rev (rev cs))"
  by (induction cs) auto

lemma takeWhile_rev_concat:
  assumes "list_all is_char cs" "ascii_pred P"
  shows "takeWhile (\<lambda>x. \<not> P x) (rev (concat cs)) = rev (concat (rev (takeWhile (\<lambda>c. \<not> lift_char P c) (rev cs))))"
  using assms(1)
proof (induction cs rule: rev_induct)
  case (snoc c cs)
  show ?case
  proof (cases "lift_char P c")
    case True
    from char_with [OF this] True show ?thesis by auto
  next
    case False
    with char_without [OF _ assms(2) False] snoc show ?thesis by (simp add: takeWhile_append)
  qed
qed simp

lemma dropWhile_rev_concat:
  assumes "list_all is_char cs" "ascii_pred P"
  shows "rev (dropWhile P (rev (concat cs))) = concat (rev (dropWhile (lift_char P) (rev cs)))"
  using assms(1)
proof (induction cs rule: rev_induct)
  case (snoc c cs)
  show ?case
  proof (cases "lift_char P c")
    case True
    from char_with [OF this] True snoc show ?thesis by auto
  next
    case False
    from snoc.prems have "c \<noteq> []" by (auto simp: is_char_def)
    then have "\<not> P (last c)" using char_without [OF _ assms(2) False] snoc.prems by simp
    with False \<open>c \<noteq> []\<close> show ?thesis by (cases c rule: rev_cases) auto
  qed
qed simp

lemma find_char_concat:
  assumes "list_all is_char cs" "ascii_pred P"
  shows "find_char P (concat cs) = (if takeWhile (\<lambda>c. \<not> lift_char P c) cs = cs then None
     else Some (length (concat (takeWhile (\<lambda>c. \<not> lift_char P c) cs))))"
proof -
  let ?t = "takeWhile (\<lambda>c. \<not> lift_char P c) cs"
  have "length (concat ?t) = length (concat cs) \<longleftrightarrow> ?t = cs"
  proof
    assume "length (concat ?t) = length (concat cs)"
    moreover have "concat cs = concat ?t @ concat (dropWhile (\<lambda>c. \<not> lift_char P c) cs)"
      by (simp flip: concat_append)
    ultimately have "concat (dropWhile (\<lambda>c. \<not> lift_char P c) cs) = []" by simp
    moreover have "list_all is_char (dropWhile (\<lambda>c. \<not> lift_char P c) cs)"
      using assms(1) by (auto simp: list_all_iff dest: set_dropWhileD)
    ultimately have "dropWhile (\<lambda>c. \<not> lift_char P c) cs = []"
      by (cases "dropWhile (\<lambda>c. \<not> lift_char P c) cs") (auto simp: is_char_def)
    then show "?t = cs" by (metis append_Nil2 takeWhile_dropWhile_id)
  next
    assume "?t = cs"
    then show "length (concat ?t) = length (concat cs)" by (rule arg_cong [where f = "\<lambda>x. length (concat x)"])
  qed
  then show ?thesis using takeWhile_concat [OF assms] by (simp add: find_char_def Let_def)
qed

text \<open>After the last one found, in the bytes as among the characters.\<close>

definition line_of_chars :: "(char \<Rightarrow> bool) \<Rightarrow> string list \<Rightarrow> string list" where
  "line_of_chars P cs = rev (takeWhile (\<lambda>c. \<not> lift_char P c) (rev cs))"

definition before_line :: "(char \<Rightarrow> bool) \<Rightarrow> string list \<Rightarrow> string list" where
  "before_line P cs = rev (dropWhile (\<lambda>c. \<not> lift_char P c) (rev cs))"

lemma before_line_append: "before_line P cs @ line_of_chars P cs = cs"
  by (simp add: before_line_def line_of_chars_def flip: rev_append)

lemma rfind_concat:
  assumes "list_all is_char cs" "ascii_pred P"
  shows "(case rfind_char P (concat cs) of Some i \<Rightarrow> i + 1 | None \<Rightarrow> 0) = length (concat (before_line P cs))"
proof -
  let ?l = "concat (line_of_chars P cs)"
  have tw: "takeWhile (\<lambda>x. \<not> P x) (rev (concat cs)) = rev ?l"
    using takeWhile_rev_concat [OF assms] by (simp add: line_of_chars_def)
  have len: "length (concat cs) = length (concat (before_line P cs)) + length ?l"
    by (metis before_line_append concat_append length_append)
  show ?thesis
  proof (cases "length ?l = length (concat cs)")
    case True
    with len show ?thesis by (simp add: rfind_char_def find_char_def tw)
  next
    case False
    with len show ?thesis by (simp add: rfind_char_def find_char_def tw)
  qed
qed

section \<open>The editor over characters\<close>

type_synonym zipper = "string list \<times> string list"

abbreviation is_newline :: "char \<Rightarrow> bool" where "is_newline \<equiv> \<lambda>x. x = CHR 0x0A"

definition zip_rep :: "zipper \<Rightarrow> composer \<Rightarrow> bool" where
  "zip_rep z c \<longleftrightarrow> (case z of (bef, aft) \<Rightarrow> list_all is_char bef \<and> list_all is_char aft
     \<and> co_text c = concat bef @ concat aft \<and> co_cursor c = length (concat bef))"

definition zip_of :: "string list \<Rightarrow> string list \<Rightarrow> composer" where
  "zip_of bef aft = \<lparr>co_text = concat bef @ concat aft, co_cursor = length (concat bef)\<rparr>"

lemma zip_rep_iff:
  "zip_rep (bef, aft) c \<longleftrightarrow> list_all is_char bef \<and> list_all is_char aft \<and> c = zip_of bef aft"
  by (cases c) (auto simp: zip_rep_def zip_of_def)

datatype edit =
    Typed string | Pasted string | SetTo string | Backspace | Del | GoLeft | GoRight | GoHome | GoEnd
  | KillBefore | KillAfter | DeleteWord | GoUp | GoDown

text \<open>What is typed is one character, what is pasted or set some.\<close>

definition edit_ok :: "edit \<Rightarrow> bool" where
  "edit_ok e \<longleftrightarrow> (case e of Typed s \<Rightarrow> is_char s | Pasted s \<Rightarrow> list_all is_char (chars_of s)
     | SetTo s \<Rightarrow> list_all is_char (chars_of s) | _ \<Rightarrow> True)"

fun edit_composer :: "edit \<Rightarrow> composer \<Rightarrow> composer option" where
  "edit_composer (Typed s) c = co_insert s c"
| "edit_composer (Pasted s) c = co_insert s c"
| "edit_composer (SetTo s) c = Some (co_set s)"
| "edit_composer Backspace c = co_backspace c"
| "edit_composer Del c = co_delete c"
| "edit_composer GoLeft c = co_left c"
| "edit_composer GoRight c = co_right c"
| "edit_composer GoHome c = co_home c"
| "edit_composer GoEnd c = co_end c"
| "edit_composer KillBefore c = co_kill_before c"
| "edit_composer KillAfter c = co_kill_after c"
| "edit_composer DeleteWord c = co_delete_word c"
| "edit_composer GoUp c = map_option snd (co_up c)"
| "edit_composer GoDown c = map_option snd (co_down c)"

abbreviation newline_char :: "string \<Rightarrow> bool" where "newline_char \<equiv> lift_char is_newline"

definition word_char :: "string \<Rightarrow> bool" where "word_char = lift_char word_break"

fun edit_zipper :: "edit \<Rightarrow> zipper \<Rightarrow> zipper" where
  "edit_zipper (Typed s) (bef, aft) = (bef @ [s], aft)"
| "edit_zipper (Pasted s) (bef, aft) = (bef @ chars_of s, aft)"
| "edit_zipper (SetTo s) (bef, aft) = (chars_of s, [])"
| "edit_zipper Backspace (bef, aft) = (butlast bef, aft)"
| "edit_zipper Del (bef, aft) = (bef, tl aft)"
| "edit_zipper GoLeft (bef, aft) = (butlast bef, drop (length bef - 1) bef @ aft)"
| "edit_zipper GoRight (bef, aft) = (bef @ take 1 aft, drop 1 aft)"
| "edit_zipper GoHome (bef, aft) = (before_line is_newline bef, line_of_chars is_newline bef @ aft)"
| "edit_zipper GoEnd (bef, aft) = (bef @ takeWhile (\<lambda>c. \<not> newline_char c) aft, dropWhile (\<lambda>c. \<not> newline_char c) aft)"
| "edit_zipper KillBefore (bef, aft) = (before_line is_newline bef, aft)"
| "edit_zipper KillAfter (bef, aft) = (bef, dropWhile (\<lambda>c. \<not> newline_char c) aft)"
| "edit_zipper DeleteWord (bef, aft) =
     (rev (dropWhile (\<lambda>c. \<not> word_char c \<and> \<not> newline_char c) (dropWhile word_char (rev bef))), aft)"
| "edit_zipper GoUp (bef, aft) =
     (let above = before_line is_newline bef; line = line_of_chars is_newline bef
      in if above = [] then (bef, aft)
         else (let prev = line_of_chars is_newline (butlast above)
               in (before_line is_newline (butlast above) @ take (length line) prev,
                   drop (length line) prev @ last above # line @ aft)))"
| "edit_zipper GoDown (bef, aft) =
     (case dropWhile (\<lambda>c. \<not> newline_char c) aft of
        [] \<Rightarrow> (bef, aft)
      | nl # below \<Rightarrow>
          (let column = length (line_of_chars is_newline bef); line = takeWhile (\<lambda>c. \<not> newline_char c) below
           in (bef @ takeWhile (\<lambda>c. \<not> newline_char c) aft @ nl # take column line,
               drop column line @ dropWhile (\<lambda>c. \<not> newline_char c) below)))"

lemma ascii_preds: "ascii_pred is_newline" "ascii_pred word_break" "ascii_pred (\<lambda>x. word_break x \<or> x = CHR 0x0A)"
  by (auto simp: ascii_pred_def word_break_def)

lemma slice_before:
  assumes "list_all is_char aft"
  shows "slice (concat bef @ concat aft) 0 (length (concat bef)) = Some (concat bef)"
  using boundary_between [OF assms, of bef] by (simp add: slice_def is_char_boundary_def)

lemma slice_after:
  assumes "list_all is_char aft"
  shows "slice (concat bef @ concat aft) (length (concat bef)) (length (concat bef) + length (concat aft))
      = Some (concat aft)"
  using slice_between [of aft "[]" bef] assms by simp

lemma line_start_zip:
  assumes "list_all is_char bef" "list_all is_char aft"
  shows "line_start (zip_of bef aft) = Some (length (concat (before_line is_newline bef)))"
  using slice_before [OF assms(2)] rfind_concat [OF assms(1) ascii_preds(1)]
  by (simp add: line_start_def zip_of_def)

lemma line_end_zip:
  assumes "list_all is_char aft"
  shows "line_end (zip_of bef aft)
    = Some (length (concat bef) + length (concat (takeWhile (\<lambda>c. \<not> newline_char c) aft)))"
proof (cases "takeWhile (\<lambda>c. \<not> newline_char c) aft = aft")
  case True
  then show ?thesis
    using slice_after [OF assms, of bef] find_char_concat [OF assms ascii_preds(1)]
    unfolding line_end_def zip_of_def True by simp
next
  case False
  then show ?thesis
    using slice_after [OF assms, of bef] find_char_concat [OF assms ascii_preds(1)]
    by (simp only: line_end_def zip_of_def) simp
qed

lemma list_all_parts:
  "list_all is_char bef \<Longrightarrow> list_all is_char (before_line P bef) \<and> list_all is_char (line_of_chars P bef)"
  by (metis before_line_append list_all_append)

lemma list_all_while:
  "list_all is_char aft \<Longrightarrow> list_all is_char (takeWhile Q aft) \<and> list_all is_char (dropWhile Q aft)"
  by (metis list_all_append takeWhile_dropWhile_id)

lemma remove_between:
  assumes "list_all is_char b" "list_all is_char d"
  shows "remove_range (concat a @ concat b @ concat d) (length (concat a)) (length (concat a) + length (concat b))
      = Some (concat a @ concat d)"
  using slice_between [OF assms] by (simp add: remove_range_def)

lemma in_set_tlD: "x \<in> set (tl xs) \<Longrightarrow> x \<in> set xs"
  by (cases xs) auto

lemma concat_butlast_last: "b \<noteq> [] \<Longrightarrow> concat b = concat (butlast b) @ last b"
  by (metis append_butlast_last_id append.right_neutral concat.simps concat_append)

section \<open>Each key\<close>

lemma typed_refines:
  assumes "list_all is_char bef" "list_all is_char aft" "list_all is_char cs"
  shows "co_insert (concat cs) (zip_of bef aft) = Some (zip_of (bef @ cs) aft)"
  using boundary_between [OF assms(2), of bef] by (simp add: co_insert_def insert_at_def zip_of_def)

lemma prev_boundary_zip:
  assumes "list_all is_char bef" "list_all is_char aft"
  shows "prev_boundary (zip_of bef aft)
    = Some (if bef = [] then None else Some (length (concat (butlast bef))))"
proof (cases bef rule: rev_cases)
  case Nil
  with slice_before [OF assms(2), of "[]"] show ?thesis by (simp add: prev_boundary_def zip_of_def)
next
  case (snoc b x)
  from slice_before [OF assms(2), of bef] chars_of_concat [OF assms(1)]
  have "prev_boundary (zip_of bef aft) = Some (case rev bef of [] \<Rightarrow> None
      | x # _ \<Rightarrow> Some (length (concat bef) - length x))"
    by (simp add: prev_boundary_def zip_of_def)
  with snoc show ?thesis by simp
qed

lemma next_boundary_zip:
  assumes "list_all is_char aft"
  shows "next_boundary (zip_of bef aft)
    = Some (if aft = [] then None else Some (length (concat bef) + length (hd aft)))"
  using slice_after [OF assms, of bef] chars_of_concat [OF assms]
  by (cases aft) (simp_all add: next_boundary_def zip_of_def)

lemma backspace_refines:
  assumes "list_all is_char bef" "list_all is_char aft"
  shows "co_backspace (zip_of bef aft) = Some (zip_of (butlast bef) aft)"
proof (cases bef rule: rev_cases)
  case Nil
  with prev_boundary_zip [OF assms] show ?thesis by (simp add: co_backspace_def)
next
  case (snoc b x)
  with assms have "remove_range (concat bef @ concat aft) (length (concat b)) (length (concat bef))
      = Some (concat b @ concat aft)"
    using remove_between [of "[x]" aft b] by simp
  with prev_boundary_zip [OF assms] snoc show ?thesis by (simp add: co_backspace_def zip_of_def)
qed

lemma delete_refines:
  assumes "list_all is_char bef" "list_all is_char aft"
  shows "co_delete (zip_of bef aft) = Some (zip_of bef (tl aft))"
proof (cases aft)
  case Nil
  with next_boundary_zip [OF assms(2)] show ?thesis by (simp add: co_delete_def)
next
  case (Cons x a)
  with assms have "remove_range (concat bef @ concat aft) (length (concat bef)) (length (concat bef) + length x)
      = Some (concat bef @ concat a)"
    using remove_between [of "[x]" a bef] by simp
  with next_boundary_zip [OF assms(2)] Cons show ?thesis by (simp add: co_delete_def zip_of_def)
qed

lemma left_refines:
  assumes "list_all is_char bef" "list_all is_char aft"
  shows "co_left (zip_of bef aft) = Some (zip_of (butlast bef) (drop (length bef - 1) bef @ aft))"
  using prev_boundary_zip [OF assms]
  by (cases bef rule: rev_cases) (simp_all add: co_left_def zip_of_def)

lemma right_refines:
  assumes "list_all is_char aft"
  shows "co_right (zip_of bef aft) = Some (zip_of (bef @ take 1 aft) (drop 1 aft))"
  using next_boundary_zip [OF assms] by (cases aft) (simp_all add: co_right_def zip_of_def)

lemma concat_line: "concat (before_line P bef) @ concat (line_of_chars P bef) = concat bef"
  by (metis before_line_append concat_append)

lemma concat_while: "concat (takeWhile Q aft) @ concat (dropWhile Q aft) = concat aft"
  by (metis concat_append takeWhile_dropWhile_id)

lemma home_refines:
  assumes "list_all is_char bef" "list_all is_char aft"
  shows "co_home (zip_of bef aft) = Some (zip_of (before_line is_newline bef) (line_of_chars is_newline bef @ aft))"
  using line_start_zip [OF assms] concat_line [of is_newline bef]
  by (simp add: co_home_def zip_of_def flip: append_assoc)

lemma end_refines:
  assumes "list_all is_char aft"
  shows "co_end (zip_of bef aft) = Some (zip_of (bef @ takeWhile (\<lambda>c. \<not> newline_char c) aft)
      (dropWhile (\<lambda>c. \<not> newline_char c) aft))"
  using line_end_zip [OF assms] concat_while [of "\<lambda>c. \<not> newline_char c" aft]
  by (simp add: co_end_def zip_of_def)

lemma kill_before_refines:
  assumes "list_all is_char bef" "list_all is_char aft"
  shows "co_kill_before (zip_of bef aft) = Some (zip_of (before_line is_newline bef) aft)"
proof -
  have "remove_range (concat bef @ concat aft) (length (concat (before_line is_newline bef))) (length (concat bef))
      = Some (concat (before_line is_newline bef) @ concat aft)"
    using remove_between [of "line_of_chars is_newline bef" aft "before_line is_newline bef"]
      list_all_parts [OF assms(1)] assms(2) concat_line [of is_newline bef]
    by (metis append.assoc length_append)
  with line_start_zip [OF assms] show ?thesis by (simp add: co_kill_before_def zip_of_def)
qed

lemma kill_after_refines:
  assumes "list_all is_char aft"
  shows "co_kill_after (zip_of bef aft) = Some (zip_of bef (dropWhile (\<lambda>c. \<not> newline_char c) aft))"
  using remove_between [of "takeWhile (\<lambda>c. \<not> newline_char c) aft" "dropWhile (\<lambda>c. \<not> newline_char c) aft" bef]
    list_all_while [OF assms] line_end_zip [OF assms, of bef] concat_while [of "\<lambda>c. \<not> newline_char c" aft]
  by (simp add: co_kill_after_def zip_of_def)

lemma delete_word_refines:
  assumes "list_all is_char bef" "list_all is_char aft"
  shows "co_delete_word (zip_of bef aft)
    = Some (zip_of (rev (dropWhile (\<lambda>c. \<not> word_char c \<and> \<not> newline_char c) (dropWhile word_char (rev bef)))) aft)"
proof -
  let ?P = "\<lambda>x. word_break x \<or> x = CHR 0x0A"
  let ?t = "rev (dropWhile word_char (rev bef))"
  have lift: "lift_char ?P c \<longleftrightarrow> word_char c \<or> newline_char c" for c
    by (auto simp: lift_char_def word_char_def split: list.splits)
  have t: "bef = ?t @ rev (takeWhile word_char (rev bef))" by (simp flip: rev_append)
  have ok: "list_all is_char ?t" using assms(1) t by (metis list_all_append)
  have trimmed: "rev (dropWhile word_break (rev (concat bef))) = concat ?t"
    using dropWhile_rev_concat [OF assms(1) ascii_preds(2)] by (simp add: word_char_def)
  define rest where "rest = line_of_chars ?P ?t @ rev (takeWhile word_char (rev bef))"
  have b: "bef = before_line ?P ?t @ rest"
    unfolding rest_def using t before_line_append [of ?P ?t] by (metis append.assoc)
  have "list_all is_char rest" using assms(1) b by (metis list_all_append)
  then have "remove_range (concat bef @ concat aft) (length (concat (before_line ?P ?t))) (length (concat bef))
      = Some (concat (before_line ?P ?t) @ concat aft)"
  proof -
    have "concat bef = concat (before_line ?P ?t) @ concat rest"
      using b by (metis concat_append)
    with remove_between [of rest aft "before_line ?P ?t"] assms(2) \<open>list_all is_char rest\<close>
    show ?thesis by simp
  qed
  moreover have "before_line ?P ?t
      = rev (dropWhile (\<lambda>c. \<not> word_char c \<and> \<not> newline_char c) (dropWhile word_char (rev bef)))"
    by (simp add: before_line_def lift)
  ultimately show ?thesis
    using slice_before [OF assms(2), of bef] rfind_concat [OF ok ascii_preds(3)]
    by (simp add: co_delete_word_def zip_of_def Let_def trimmed)
qed

lemma before_line_last:
  assumes "before_line is_newline bef \<noteq> []"
  shows "last (before_line is_newline bef) = [CHR 0x0A]"
proof -
  have "newline_char (hd (dropWhile (\<lambda>c. \<not> newline_char c) (rev bef)))"
    using assms by (metis before_line_def hd_dropWhile rev_is_Nil_conv)
  then show ?thesis using assms char_with by (fastforce simp: before_line_def last_rev)
qed

lemma column_offset_zip:
  assumes "list_all is_char line" "list_all is_char d"
  shows "column_offset (concat a @ concat line @ concat d) (length (concat a)) (length (concat a) + length (concat line)) n
    = Some (length (concat (a @ take n line)))"
  using slice_between [OF assms, of a] chars_of_concat [OF assms(1)]
  by (simp add: column_offset_def)

lemma up_refines:
  assumes "list_all is_char bef" "list_all is_char aft"
  shows "map_option snd (co_up (zip_of bef aft))
    = Some (case edit_zipper GoUp (bef, aft) of (b, a) \<Rightarrow> zip_of b a)"
proof -
  define above where "above = before_line is_newline bef"
  define line where "line = line_of_chars is_newline bef"
  note start = line_start_zip [OF assms, folded above_def]
  have split: "bef = above @ line" by (simp add: above_def line_def before_line_append)
  have ok: "list_all is_char above" "list_all is_char line" using assms(1) split by (metis list_all_append)+
  show ?thesis
  proof (cases "above = []")
    case True
    with start show ?thesis by (simp add: co_up_def above_def [symmetric] Let_def)
  next
    case False
    define up where "up = butlast above"
    have above: "above = up @ [[CHR 0x0A]]"
      using before_line_last False by (metis above_def append_butlast_last_id up_def)
    have okup: "list_all is_char up" using ok(1) above by (metis list_all_append)
    define prev where "prev = line_of_chars is_newline up"
    define pre where "pre = before_line is_newline up"
    have up: "up = pre @ prev" by (simp add: pre_def prev_def before_line_append)
    have okp: "list_all is_char pre" "list_all is_char prev" using okup up by (metis list_all_append)+
    have s1: "slice (co_text (zip_of bef aft)) (length (concat above)) (co_cursor (zip_of bef aft)) = Some (concat line)"
      using slice_between [OF ok(2) assms(2), of above] by (simp add: zip_of_def split)
    have s2: "slice (co_text (zip_of bef aft)) 0 (length (concat above) - 1) = Some (concat up)"
      using slice_before [of "[CHR 0x0A] # line @ aft" up] ok assms(2) above
      by (simp add: zip_of_def split)
    have col: "column_offset (co_text (zip_of bef aft)) (length (concat pre)) (length (concat above) - 1) (length line)
        = Some (length (concat (pre @ take (length line) prev)))"
      using column_offset_zip [OF okp(2), of "[CHR 0x0A] # line @ aft" pre] ok assms(2) above up
      by (simp add: zip_of_def split)
    have "co_up (zip_of bef aft)
        = Some (True, (zip_of bef aft)\<lparr>co_cursor := length (concat (pre @ take (length line) prev))\<rparr>)"
      using start s1 s2 col chars_of_concat [OF ok(2)] rfind_concat [OF okup ascii_preds(1)] above
      by (simp add: co_up_def Let_def pre_def)
    moreover have "edit_zipper GoUp (bef, aft)
        = (pre @ take (length line) prev, drop (length line) prev @ [CHR 0x0A] # line @ aft)"
    proof -
      have "butlast above = up" "last above = [CHR 0x0A]" by (simp_all add: above)
      with False show ?thesis unfolding pre_def prev_def by (simp add: Let_def flip: above_def line_def)
    qed
    moreover have "concat (take (length line) prev) @ concat (drop (length line) prev) = concat prev"
      by (metis append_take_drop_id concat_append)
    then have "concat up = concat pre @ concat (take (length line) prev) @ concat (drop (length line) prev)"
      by (simp add: up)
    ultimately show ?thesis using split above by (simp add: zip_of_def)
  qed
qed

lemma down_refines:
  assumes "list_all is_char bef" "list_all is_char aft"
  shows "map_option snd (co_down (zip_of bef aft))
    = Some (case edit_zipper GoDown (bef, aft) of (b, a) \<Rightarrow> zip_of b a)"
proof -
  define here where "here = takeWhile (\<lambda>c. \<not> newline_char c) aft"
  define line where "line = line_of_chars is_newline bef"
  define above where "above = before_line is_newline bef"
  note stop = line_end_zip [OF assms(2), of bef, folded here_def]
  show ?thesis
  proof (cases "dropWhile (\<lambda>c. \<not> newline_char c) aft")
    case Nil
    then have "here = aft" by (metis append_Nil2 here_def takeWhile_dropWhile_id)
    with stop have "co_down (zip_of bef aft) = Some (False, zip_of bef aft)"
      by (simp add: co_down_def) (simp add: zip_of_def)
    with Nil show ?thesis by (simp only: edit_zipper.simps list.case prod.case option.map snd_conv)
  next
    case (Cons nl below)
    then have aft_eq: "aft = here @ nl # below" by (metis here_def takeWhile_dropWhile_id)
    have "newline_char nl" using Cons by (metis hd_dropWhile list.sel(1) list.distinct(1))
    from char_with [OF this] have nl: "nl = [CHR 0x0A]" by auto
    have ok: "list_all is_char here" "list_all is_char below" using assms(2) aft_eq by (auto simp: list_all_append)
    have okl: "list_all is_char above" "list_all is_char line"
      using list_all_parts [OF assms(1)] by (auto simp: above_def line_def)
    have split: "bef = above @ line" by (simp add: above_def line_def before_line_append)
    note start = line_start_zip [OF assms, folded above_def]
    define next_line where "next_line = takeWhile (\<lambda>c. \<not> newline_char c) below"
    define rest where "rest = dropWhile (\<lambda>c. \<not> newline_char c) below"
    have below: "below = next_line @ rest" by (simp add: next_line_def rest_def)
    have okn: "list_all is_char next_line" "list_all is_char rest" using ok(2) below by (metis list_all_append)+
    have s1: "slice (co_text (zip_of bef aft)) (length (concat above)) (co_cursor (zip_of bef aft)) = Some (concat line)"
      using slice_between [OF okl(2) assms(2), of above] by (simp add: zip_of_def split)
    let ?n = "length (concat bef) + length (concat here)"
    have s2: "slice (co_text (zip_of bef aft)) (?n + 1) (length (co_text (zip_of bef aft))) = Some (concat below)"
      using slice_after [OF ok(2), of "bef @ here @ [nl]"] by (simp add: zip_of_def aft_eq nl add.assoc)
    have found: "(case find_char is_newline (concat below) of Some i \<Rightarrow> ?n + 1 + i
        | None \<Rightarrow> length (co_text (zip_of bef aft))) = ?n + 1 + length (concat next_line)"
    proof (cases "next_line = below")
      case True
      then show ?thesis using find_char_concat [OF ok(2) ascii_preds(1)]
        by (simp add: next_line_def [symmetric] zip_of_def aft_eq nl del: takeWhile_eq_all_conv)
    next
      case False
      then show ?thesis using find_char_concat [OF ok(2) ascii_preds(1)]
        by (simp add: next_line_def [symmetric] del: takeWhile_eq_all_conv)
    qed
    have col: "column_offset (co_text (zip_of bef aft)) (?n + 1) (?n + 1 + length (concat next_line)) (length line)
        = Some (length (concat ((bef @ here @ [nl]) @ take (length line) next_line)))"
      using column_offset_zip [OF okn, of "bef @ here @ [nl]"] by (simp add: zip_of_def aft_eq nl below)
    have "?n \<noteq> length (co_text (zip_of bef aft))" by (simp add: zip_of_def aft_eq nl)
    then have "co_down (zip_of bef aft) = Some (True, (zip_of bef aft)\<lparr>co_cursor :=
        length (concat ((bef @ here @ [nl]) @ take (length line) next_line))\<rparr>)"
      using stop start s1 s2 found col chars_of_concat [OF okl(2)]
      by (simp add: co_down_def Let_def)
    moreover have "edit_zipper GoDown (bef, aft) = (bef @ here @ nl # take (length line) next_line,
        drop (length line) next_line @ rest)"
      using Cons by (simp add: Let_def flip: here_def line_def next_line_def rest_def)
    moreover have "concat (take (length line) next_line) @ concat (drop (length line) next_line) = concat next_line"
      by (metis append_take_drop_id concat_append)
    then have "concat below = concat (take (length line) next_line) @ concat (drop (length line) next_line) @ concat rest"
      by (simp add: below)
    ultimately show ?thesis by (simp add: zip_of_def aft_eq)
  qed
qed

section \<open>Any number of keys\<close>

lemma edit_refines:
  assumes rep: "zip_rep z c" and ok: "edit_ok e"
  shows "\<exists>c'. edit_composer e c = Some c' \<and> zip_rep (edit_zipper e z) c'"
proof -
  obtain bef aft where z: "z = (bef, aft)" by (cases z)
  with rep have b: "list_all is_char bef" and a: "list_all is_char aft" and c: "c = zip_of bef aft"
    by (auto simp: zip_rep_iff)
  have eq: "edit_composer e c = Some (case edit_zipper e z of (b, a) \<Rightarrow> zip_of b a)"
  proof (cases e)
    case (Typed s)
    then show ?thesis using typed_refines [OF b a, of "[s]"] ok by (simp add: z c edit_ok_def)
  next
    case (Pasted s)
    then show ?thesis using typed_refines [OF b a, of "chars_of s"] ok by (simp add: z c edit_ok_def concat_chars_of)
  next
    case (SetTo s)
    then show ?thesis by (simp add: z c co_set_def zip_of_def concat_chars_of)
  qed (simp_all only: z c edit_composer.simps edit_zipper.simps prod.case
      backspace_refines [OF b a] delete_refines [OF b a] left_refines [OF b a] right_refines [OF a]
      home_refines [OF b a] end_refines [OF a] kill_before_refines [OF b a] kill_after_refines [OF a]
      delete_word_refines [OF b a] up_refines [OF b a, unfolded edit_zipper.simps]
      down_refines [OF b a, unfolded edit_zipper.simps])
  have "case edit_zipper e z of (b, a) \<Rightarrow> list_all is_char b \<and> list_all is_char a"
  proof -
    note parts = list_all_parts [OF b] list_all_while [OF a]
    have sub: "list_all is_char (take n xs)" "list_all is_char (drop n xs)" "list_all is_char (butlast xs)"
      "list_all is_char (tl xs)" "list_all is_char (takeWhile Q xs)" "list_all is_char (dropWhile Q xs)"
      "list_all is_char (rev xs)" "list_all is_char (before_line P xs)" "list_all is_char (line_of_chars P xs)"
      if "list_all is_char xs" for n P Q and xs :: "string list"
      using that list_all_parts [OF that] list_all_while [OF that]
      by (auto simp: list_all_iff dest: in_set_takeD in_set_dropD in_set_butlastD in_set_tlD)
    have lasts: "is_char (last xs)" if "list_all is_char xs" "xs \<noteq> []" for xs
      using that by (simp add: list_all_iff)
    have below: "is_char nl \<and> list_all is_char rest"
      if "dropWhile Q aft = nl # rest" for Q nl rest
      using sub(6) [OF a, of Q] that by simp
    show ?thesis
      using b a ok sub lasts
      by (cases e) (auto simp: z edit_ok_def Let_def split: list.split dest: below)
  qed
  with eq show ?thesis by (auto simp: zip_rep_iff split: prod.splits)
qed

fun edit_all :: "edit list \<Rightarrow> composer \<Rightarrow> composer option" where
  "edit_all [] c = Some c"
| "edit_all (e # es) c = Option.bind (edit_composer e c) (edit_all es)"

text \<open>
  C39: However the person types, pastes, moves and deletes, the composer does what an editor over
  characters does: no key makes it panic, the cursor never lies inside a character, and the text
  is the characters before the cursor and those after it.
\<close>

theorem editing_refines_characters:
  assumes "list_all edit_ok es"
  shows "case edit_all es co_new of
      None \<Rightarrow> False
    | Some c \<Rightarrow> (case fold edit_zipper es ([], []) of (bef, aft) \<Rightarrow>
        co_text c = concat bef @ concat aft \<and> co_cursor c = length (concat bef)
        \<and> is_char_boundary (co_text c) (co_cursor c))"
proof -
  have "\<exists>c'. edit_all es c = Some c' \<and> zip_rep (fold edit_zipper es z) c'"
    if "list_all edit_ok es" "zip_rep z c" for es z c
    using that
  proof (induction es arbitrary: z c)
    case (Cons e es)
    from edit_refines [OF Cons.prems(2)] Cons.prems(1) obtain c1 where
      c1: "edit_composer e c = Some c1" "zip_rep (edit_zipper e z) c1" by auto
    with Cons.IH [OF _ c1(2)] Cons.prems(1) show ?case by simp
  qed simp
  from this [OF assms, of "([], [])" co_new] obtain c where
    c: "edit_all es co_new = Some c" "zip_rep (fold edit_zipper es ([], [])) c"
    by (auto simp: zip_rep_def co_new_def)
  with boundary_between show ?thesis
    by (auto simp: zip_rep_def split: prod.splits)
qed

theorem editing_refines_characters_witness:
  "(case edit_all [Typed ''a'', Typed [CHR 0xC3, CHR 0xA9], GoLeft, Backspace] co_new of
     None \<Rightarrow> False
   | Some c \<Rightarrow> (case fold edit_zipper [Typed ''a'', Typed [CHR 0xC3, CHR 0xA9], GoLeft, Backspace] ([], []) of
       (bef, aft) \<Rightarrow> co_text c = concat bef @ concat aft \<and> co_cursor c = length (concat bef)
         \<and> is_char_boundary (co_text c) (co_cursor c)))"
  by (rule editing_refines_characters) (simp add: edit_ok_def is_char_def is_cont_def)

section \<open>The questions asked before\<close>

definition history_ok :: "history \<Rightarrow> bool" where
  "history_ok h \<longleftrightarrow> length (hi_entries h) \<le> HISTORY_KEEP
     \<and> (case hi_at h of None \<Rightarrow> True | Some n \<Rightarrow> n < length (hi_entries h))"

lemma history_stays_ok:
  "history_ok (history_new es)"
  "history_ok h \<Longrightarrow> history_ok (snd (history_push e h))"
  "history_ok h \<Longrightarrow> history_ok (snd (history_back current h))"
  "history_ok h \<Longrightarrow> history_ok (snd (history_forward h))"
  "history_ok h \<Longrightarrow> history_ok (history_reset h)"
  by (auto simp: history_ok_def history_new_def history_push_def history_back_def history_forward_def
      history_reset_def Let_def HISTORY_KEEP_def split: option.splits nat.splits)

lemma history_backs:
  assumes "hi_at h = None" "0 < k" "k \<le> length (hi_entries h)"
  shows "((\<lambda>h. snd (history_back current h)) ^^ k) h
    = h\<lparr>hi_draft := current, hi_at := Some (length (hi_entries h) - k)\<rparr>"
  using assms(2,3)
proof (induction k)
  case (Suc k)
  show ?case
  proof (cases "k = 0")
    case True
    with Suc.prems assms(1) show ?thesis by (auto simp: history_back_def Let_def)
  next
    case False
    obtain j where "length (hi_entries h) - k = Suc j" using Suc.prems by (cases "length (hi_entries h) - k") auto
    with Suc.IH False Suc.prems show ?thesis
      by (simp add: history_back_def)
  qed
qed simp

lemma history_forwards:
  assumes "hi_at h = Some n" "n + k < length (hi_entries h)"
  shows "((\<lambda>h. snd (history_forward h)) ^^ k) h = h\<lparr>hi_at := Some (n + k)\<rparr>"
  using assms(2)
proof (induction k)
  case 0
  then show ?case using assms(1) by (cases h) simp
qed (simp add: history_forward_def)

text \<open>
  From what is being typed, going back through any number of questions and forward again as
  often brings back exactly what was typed, and the history is as it was.
\<close>

theorem history_returns_to_the_draft:
  assumes "hi_at h = None" "0 < k" "k \<le> length (hi_entries h)"
  shows "history_forward (((\<lambda>h. snd (history_forward h)) ^^ (k - 1))
      (((\<lambda>h. snd (history_back current h)) ^^ k) h)) = (Some current, h\<lparr>hi_draft := []\<rparr>)"
proof -
  let ?b = "((\<lambda>h. snd (history_back current h)) ^^ k) h"
  note b = history_backs [OF assms, of current]
  have "((\<lambda>h. snd (history_forward h)) ^^ (k - 1)) ?b
      = ?b\<lparr>hi_at := Some (length (hi_entries h) - k + (k - 1))\<rparr>"
    by (rule history_forwards) (use assms b in auto)
  moreover have "length (hi_entries h) - k + (k - 1) = length (hi_entries h) - 1" using assms by auto
  ultimately show ?thesis using assms b by (cases h) (auto simp: history_forward_def)
qed

theorem history_returns_to_the_draft_witness:
  "history_forward (((\<lambda>h. snd (history_forward h)) ^^ (2 - 1))
      (((\<lambda>h. snd (history_back ''dra'' h)) ^^ 2) (history_new [''one'', ''two''])))
    = (Some ''dra'', history_new [''one'', ''two'']\<lparr>hi_draft := []\<rparr>)"
  by (rule history_returns_to_the_draft) (simp_all add: history_new_def HISTORY_KEEP_def)

end
