(* ===== verification/Streaming.thy ===== *)
theory Streaming
  imports Main
begin

text \<open>
  \<open>src/tui/streaming.rs\<close>: an answer put together from its chunks as they arrive, for the terminal
  and the desktop. A \<open>BTreeMap\<close> is the list of its entries by key.
\<close>

section \<open>Ordered maps\<close>

fun bt_insert :: "nat \<Rightarrow> 'a \<Rightarrow> (nat \<times> 'a) list \<Rightarrow> (nat \<times> 'a) list" where
  "bt_insert k v [] = [(k, v)]"
| "bt_insert k v ((k', v') # m) =
     (if k < k' then (k, v) # (k', v') # m else if k = k' then (k, v) # m
      else (k', v') # bt_insert k v m)"

definition bt_remove :: "nat \<Rightarrow> (nat \<times> 'a) list \<Rightarrow> (nat \<times> 'a) list" where
  "bt_remove k m = filter (\<lambda>(k', v). k' \<noteq> k) m"

lemma map_of_bt_insert: "map_of (bt_insert k v m) = (map_of m)(k \<mapsto> v)"
  by (induction m) auto

lemma bt_insert_keys: "fst ` set (bt_insert k v m) = insert k (fst ` set m)"
proof (induction m)
  case (Cons x m)
  then show ?case by (cases x) (simp add: insert_commute)
qed simp

lemma bt_insert_sorted:
  "sorted_wrt (<) (map fst m) \<Longrightarrow> sorted_wrt (<) (map fst (bt_insert k v m))"
proof (induction m)
  case (Cons x m)
  then show ?case using bt_insert_keys [of k v m] by (cases x) force
qed simp

lemma bt_insert_last:
  "sorted_wrt (<) (map fst m) \<Longrightarrow> \<forall>k' \<in> fst ` set m. k' < k \<Longrightarrow> bt_insert k v m = m @ [(k, v)]"
  by (induction m) auto

lemma bt_insert_set:
  "sorted_wrt (<) (map fst m) \<Longrightarrow> k \<notin> fst ` set m \<Longrightarrow> set (bt_insert k v m) = insert (k, v) (set m)"
  by (induction m) (auto simp: image_iff split: if_splits)

section \<open>Answers\<close>

record answers =
  an_text :: "(nat \<times> string) list"
  an_chunks :: "(nat \<times> (nat \<times> string) list) list"
  an_settled :: "nat list"

definition answers_new :: answers where
  "answers_new = \<lparr>an_text = [], an_chunks = [], an_settled = []\<rparr>"

definition text_of :: "nat \<Rightarrow> answers \<Rightarrow> string" where
  "text_of message a = (case map_of (an_text a) message of Some t \<Rightarrow> t | None \<Rightarrow> [])"

definition chunks_of :: "nat \<Rightarrow> answers \<Rightarrow> (nat \<times> string) list" where
  "chunks_of message a = (case map_of (an_chunks a) message of Some c \<Rightarrow> c | None \<Rightarrow> [])"

definition answers_push :: "nat \<Rightarrow> nat option \<Rightarrow> string \<Rightarrow> answers \<Rightarrow> answers" where
  "answers_push message seq t a =
     (if message \<in> set (an_settled a) then a
      else case seq of
        Some n \<Rightarrow>
          (let chunks = chunks_of message a;
               after = (\<lambda>x. x\<lparr>an_chunks := bt_insert message (bt_insert n t chunks) (an_chunks x)\<rparr>)
           in if map_of chunks n \<noteq> None then a
              else if chunks \<noteq> [] \<and> fst (last chunks) < n
              then after (a\<lparr>an_text := bt_insert message (text_of message a @ t) (an_text a)\<rparr>)
              else after (a\<lparr>an_text := bt_insert message (concat (map snd (bt_insert n t chunks))) (an_text a)\<rparr>))
      | None \<Rightarrow>
          if map_of (an_chunks a) message = None
          then a\<lparr>an_text := bt_insert message (text_of message a @ t) (an_text a)\<rparr> else a)"

definition answers_settle :: "nat \<Rightarrow> answers \<Rightarrow> answers" where
  "answers_settle message a =
     \<lparr>an_text = bt_remove message (an_text a), an_chunks = bt_remove message (an_chunks a),
      an_settled = List.insert message (an_settled a)\<rparr>"

definition answers_finish :: "answers \<Rightarrow> answers" where
  "answers_finish a = \<lparr>an_text = [], an_chunks = [], an_settled = List.union (map fst (an_text a)) (an_settled a)\<rparr>"

definition answers_clear :: "answers \<Rightarrow> answers" where
  "answers_clear a = answers_new"

section \<open>What an answer comes to\<close>

text \<open>What arrives: which message, the chunk's index if the server gives one, its text.\<close>

type_synonym arrival = "nat \<times> nat option \<times> string"

definition arrive :: "arrival \<Rightarrow> answers \<Rightarrow> answers" where
  "arrive x a = (case x of (message, seq, t) \<Rightarrow> answers_push message seq t a)"

text \<open>The answer of the chunks with these indexes.\<close>

definition whole_answer :: "(nat \<Rightarrow> string) \<Rightarrow> nat set \<Rightarrow> string" where
  "whole_answer f idx = concat (map f (sorted_list_of_set idx))"

definition indexes :: "nat \<Rightarrow> arrival list \<Rightarrow> nat set" where
  "indexes message xs = {n. \<exists>t. (message, Some n, t) \<in> set xs}"

definition chunks_ok :: "nat \<Rightarrow> (nat \<Rightarrow> string) \<Rightarrow> nat set \<Rightarrow> answers \<Rightarrow> bool" where
  "chunks_ok message f idx a \<longleftrightarrow> message \<notin> set (an_settled a)
     \<and> sorted_wrt (<) (map fst (chunks_of message a)) \<and> fst ` set (chunks_of message a) = idx
     \<and> (\<forall>(n, t) \<in> set (chunks_of message a). t = f n)
     \<and> (case map_of (an_chunks a) message of None \<Rightarrow> True
        | Some c \<Rightarrow> c \<noteq> [] \<and> map_of (an_text a) message = Some (concat (map snd c)))"

lemma chunks_ok_other:
  assumes "chunks_ok message f idx a" "m \<noteq> message"
  shows "chunks_ok message f idx (answers_push m seq t a)"
  using assms
  by (auto simp: chunks_ok_def answers_push_def chunks_of_def map_of_bt_insert Let_def split: option.splits)

lemma sorted_last: "sorted_wrt (<) (map fst m) \<Longrightarrow> m \<noteq> [] \<Longrightarrow> k \<in> fst ` set m \<Longrightarrow> k \<le> fst (last m)" for m :: "(nat \<times> 'a) list"
  by (cases m rule: rev_cases) (auto simp: sorted_wrt_append intro: less_imp_le)

lemma chunks_ok_chunk:
  assumes ok: "chunks_ok message f idx a"
  shows "chunks_ok message f (insert n idx) (answers_push message (Some n) (f n) a)"
proof -
  let ?c = "chunks_of message a"
  note ok' = ok [unfolded chunks_ok_def]
  show ?thesis
  proof (cases "map_of ?c n")
    case (Some t)
    then have "n \<in> idx" using ok' by (auto dest!: map_of_SomeD intro: rev_image_eqI)
    with Some ok show ?thesis by (simp add: answers_push_def Let_def insert_absorb)
  next
    case None
    then have new: "n \<notin> fst ` set ?c" by (simp add: map_of_eq_None_iff)
    let ?c' = "bt_insert n (f n) ?c"
    have c': "sorted_wrt (<) (map fst ?c')" "fst ` set ?c' = insert n idx"
      "\<forall>(k, t) \<in> set ?c'. t = f k" "?c' \<noteq> []"
    proof -
      show "sorted_wrt (<) (map fst ?c')" by (rule bt_insert_sorted) (use ok' in simp)
      show "fst ` set ?c' = insert n idx" using ok' bt_insert_keys [of n "f n" ?c] by simp
      then show "?c' \<noteq> []" by auto
      show "\<forall>(k, t) \<in> set ?c'. t = f k" using ok' bt_insert_set [of ?c n "f n"] new by auto
    qed
    have whole: "text_of message a @ f n = concat (map snd ?c')" if "?c \<noteq> []" "fst (last ?c) < n"
    proof -
      have "k < n" if "k \<in> fst ` set ?c" for k
        using sorted_last [of ?c k] ok' that \<open>?c \<noteq> []\<close> \<open>fst (last ?c) < n\<close> by linarith
      then have "?c' = ?c @ [(n, f n)]" by (intro bt_insert_last) (use ok' in auto)
      moreover have "text_of message a = concat (map snd ?c)"
        using ok' that(1) by (auto simp: text_of_def chunks_of_def split: option.splits)
      ultimately show ?thesis by simp
    qed
    have "answers_push message (Some n) (f n) a
      = a\<lparr>an_text := bt_insert message (concat (map snd ?c')) (an_text a),
          an_chunks := bt_insert message ?c' (an_chunks a)\<rparr>"
      using ok' None whole by (simp add: answers_push_def Let_def)
    with c' ok' show ?thesis
      by (simp add: chunks_ok_def chunks_of_def map_of_bt_insert)
  qed
qed

lemma chunks_ok_plain:
  "chunks_ok message f idx a \<Longrightarrow> chunks_ok message f idx (answers_push message None t a)"
  by (auto simp: chunks_ok_def answers_push_def chunks_of_def split: option.splits)

lemma chunks_ok_arrivals:
  assumes "chunks_ok message f idx a" "list_all (\<lambda>(m, seq, t). m = message \<longrightarrow> (case seq of Some n \<Rightarrow> t = f n | None \<Rightarrow> True)) xs"
  shows "chunks_ok message f (idx \<union> indexes message xs) (fold arrive xs a)"
  using assms
proof (induction xs arbitrary: idx a)
  case (Cons x xs)
  obtain m seq t where x: "x = (m, seq, t)" by (cases x)
  have step: "chunks_ok message f (idx \<union> indexes message [x]) (arrive x a)"
  proof (cases "m = message")
    case True
    show ?thesis
    proof (cases seq)
      case None
      with chunks_ok_plain [OF Cons.prems(1)] x True show ?thesis by (simp add: arrive_def indexes_def)
    next
      case (Some n)
      with chunks_ok_chunk [OF Cons.prems(1), of n] x True Cons.prems(2) show ?thesis
        by (simp add: arrive_def indexes_def)
    qed
  next
    case False
    with chunks_ok_other [OF Cons.prems(1) False] x show ?thesis by (simp add: arrive_def indexes_def)
  qed
  have "indexes message (x # xs) = indexes message [x] \<union> indexes message xs" by (auto simp: indexes_def)
  with Cons.IH [OF step] Cons.prems(2) show ?case by (simp add: Un_assoc)
qed (simp add: indexes_def)

text \<open>
  C36: Chunks in any order, repeated and mixed with those of other answers, come to the same
  text: the texts of the chunks by their index, each once. (What an old server sent of the answer
  without indexes is dropped with the first chunk that has one.)
\<close>

theorem answers_do_not_depend_on_order:
  assumes same: "list_all (\<lambda>(m, seq, t). m = message \<longrightarrow> (case seq of Some n \<Rightarrow> t = f n | None \<Rightarrow> True)) xs"
    and some: "indexes message xs \<noteq> {}"
  shows "map_of (an_text (fold arrive xs answers_new)) message = Some (whole_answer f (indexes message xs))"
proof -
  have "chunks_ok message f {} answers_new"
    by (simp add: chunks_ok_def answers_new_def chunks_of_def)
  from chunks_ok_arrivals [OF this same] have ok: "chunks_ok message f (indexes message xs) (fold arrive xs answers_new)"
    by simp
  let ?a = "fold arrive xs answers_new"
  let ?c = "chunks_of message ?a"
  have c: "?c \<noteq> []" using ok some by (auto simp: chunks_ok_def)
  then have whole: "map_of (an_text ?a) message = Some (concat (map snd ?c))"
    using ok by (auto simp: chunks_ok_def chunks_of_def split: option.splits)
  have "map fst ?c = sorted_list_of_set (indexes message xs)"
  proof -
    have "set (map fst ?c) = indexes message xs" "sorted_wrt (<) (map fst ?c)"
      using ok by (simp_all add: chunks_ok_def)
    then show ?thesis by (metis sorted_list_of_set.idem_if_sorted_distinct strict_sorted_iff)
  qed
  moreover have "map snd ?c = map f (map fst ?c)" using ok by (auto simp: chunks_ok_def)
  ultimately show ?thesis using whole by (simp add: whole_answer_def)
qed

theorem answers_do_not_depend_on_order_witness:
  "map_of (an_text (fold arrive [(9, Some 8, ''world''), (4, Some 1, ''x''), (9, Some 3, ''Hello ''), (9, Some 8, ''world'')]
     answers_new)) 9 = Some ''Hello world''"
proof -
  let ?f = "\<lambda>n :: nat. if n = 3 then ''Hello '' else ''world''"
  let ?xs = "[(9, Some 8, ''world''), (4, Some 1, ''x''), (9, Some 3, ''Hello ''), (9, Some 8, ''world'')] :: arrival list"
  have i: "indexes 9 ?xs = {3, 8}" by (auto simp: indexes_def)
  have w: "whole_answer ?f {3, 8} = ''Hello world''"
    by (simp add: whole_answer_def)
  show ?thesis using answers_do_not_depend_on_order [of 9 ?f ?xs] i w by simp
qed

text \<open>Once the transcript has an answer, late chunks of it change nothing.\<close>

lemma settled_stays_settled:
  "message \<in> set (an_settled a) \<Longrightarrow> answers_push message seq t a = a"
  by (simp add: answers_push_def)

lemma settle_and_finish_settle:
  "message \<in> set (an_settled (answers_settle message a))"
  "(message, t) \<in> set (an_text a) \<Longrightarrow> message \<in> set (an_settled (answers_finish a))"
  by (auto simp: answers_settle_def answers_finish_def rev_image_eqI)

end
