(* ===== verification/Walk.thy ===== *)
theory Walk
  imports Reader
begin

text \<open>
  \<open>src/reader/walk.rs\<close>: walking the files of a shared folder, or the part of it a \<open>Scope\<close>
  names. The folder is a tree of what its directories hold; names are the bytes the system has.
  The \<open>ignore\<close> crate is a parameter: \<open>skips\<close> says which entries it leaves out on its own, hidden
  ones and those its ignore files name. What it leaves out, and what \<open>filter_entry\<close> refuses, it
  does not descend into; it never filters the folder it starts at.
\<close>

section \<open>Scopes\<close>

datatype target = Recursive rel_path | Shallow rel_path

fun target_rel :: "target \<Rightarrow> rel_path" where
  "target_rel (Recursive t) = t"
| "target_rel (Shallow t) = t"

definition target_admits :: "target \<Rightarrow> string list \<Rightarrow> bool \<Rightarrow> bool" where
  "target_admits t rel is_dir =
     (if is_dir \<and> starts_with (target_rel t) rel then True
      else (case t of
          Recursive d \<Rightarrow> starts_with rel d
        | Shallow d \<Rightarrow> \<not> is_dir \<and> length rel = length d + 1 \<and> starts_with rel d))"

type_synonym scope = "target list"

definition scope_admits :: "scope \<Rightarrow> string list \<Rightarrow> bool \<Rightarrow> bool" where
  "scope_admits s rel is_dir = list_ex (\<lambda>t. target_admits t rel is_dir) s"

definition covers_file :: "scope \<Rightarrow> string \<Rightarrow> bool" where
  "covers_file s rel = scope_admits s (split_on (CHR ''/'') rel) False"

section \<open>The walk\<close>

text \<open>A file has its size and, after 1970, its time; \<open>None\<close> if its metadata cannot be read.\<close>

datatype node =
    FileNode "(nat \<times> nat option) option"
  | DirNode "(string \<times> node) list"
  | OtherNode

fun is_dir :: "node \<Rightarrow> bool" where
  "is_dir (DirNode es) = True"
| "is_dir _ = False"

definition relative :: "string list \<Rightarrow> string list option" where
  "relative rel = (if list_all utf8_valid rel then Some rel else None)"

text \<open>\<open>filter_entry\<close>, for an entry at \<open>rel\<close> below the folder\<close>

definition entry_passes ::
  "policy_libs \<Rightarrow> deny_list \<Rightarrow> path \<Rightarrow> scope option \<Rightarrow> string list \<Rightarrow> bool \<Rightarrow> bool" where
  "entry_passes libs dl root sc rel dir =
     (if is_denied libs dl (root @ rel) then False
      else (case sc of
          None \<Rightarrow> True
        | Some s \<Rightarrow> (case relative rel of
            None \<Rightarrow> False
          | Some r \<Rightarrow> if r = [] then True else scope_admits s r dir)))"

function walk_node ::
  "(string list \<Rightarrow> bool \<Rightarrow> bool) \<Rightarrow> string list \<Rightarrow> node \<Rightarrow> (string list \<times> (nat \<times> nat option) option) list" where
  "walk_node keep rel (FileNode m) = [(rel, m)]"
| "walk_node keep rel (DirNode es) = concat (map (\<lambda>(n, d).
     if keep (rel @ [n]) (is_dir d) then walk_node keep (rel @ [n]) d else []) es)"
| "walk_node keep rel OtherNode = []"
  by pat_completeness auto
termination
proof (relation "measure (\<lambda>(_, _, d). size d)")
  fix keep and rel :: "string list" and es :: "(string \<times> node) list" and x n d
  assume "x \<in> set es" "(n, d) = x"
  then have "size_prod (\<lambda>x. 0) size x \<le> size_list (size_prod (\<lambda>x. 0) size) es"
    by (intro size_list_estimation' [OF _ order_refl]) simp
  then show "((keep, rel @ [n], d), keep, rel, DirNode es) \<in> measure (\<lambda>(_, _, d). size d)"
    using \<open>(n, d) = x\<close> [symmetric] by simp
qed simp

text \<open>A file as the caller is given it, if its name can be said in a tool path.\<close>

definition component_of :: "string \<Rightarrow> path_component" where
  "component_of n = Normal (if utf8_valid n then Some n else None)"

definition walked_file_of :: "string list \<times> (nat \<times> nat option) option \<Rightarrow> walked_file option" where
  "walked_file_of e = (case e of (rel, m) \<Rightarrow> (case from_relative_path (map component_of rel) of
     None \<Rightarrow> None
   | Some r \<Rightarrow> (case m of
       None \<Rightarrow> None
     | Some (bytes, time) \<Rightarrow> Some \<lparr>wf_rel = r, wf_size = bytes,
         wf_modified = (case time of None \<Rightarrow> 0 | Some t \<Rightarrow> int t)\<rparr>)))"

text \<open>The files visited, all of them if the visitor never breaks off.\<close>

definition walk_scoped ::
  "policy_libs \<Rightarrow> (string list \<Rightarrow> bool \<Rightarrow> bool) \<Rightarrow> deny_list \<Rightarrow> path \<Rightarrow> (string \<times> node) list \<Rightarrow> scope option
     \<Rightarrow> walked_file list" where
  "walk_scoped libs skips dl root es sc = List.map_filter walked_file_of
     (walk_node (\<lambda>rel dir. \<not> skips rel dir \<and> entry_passes libs dl root sc rel dir) [] (DirNode es))"

definition walk_files ::
  "policy_libs \<Rightarrow> (string list \<Rightarrow> bool \<Rightarrow> bool) \<Rightarrow> deny_list \<Rightarrow> path \<Rightarrow> (string \<times> node) list \<Rightarrow> walked_file list" where
  "walk_files libs skips dl root es = walk_scoped libs skips dl root es None"

section \<open>What a walk visits\<close>

lemma walk_node_prefix: "(p, m) \<in> set (walk_node keep rel d) \<Longrightarrow> starts_with p rel"
proof (induction keep rel d rule: walk_node.induct)
  case (2 keep rel es)
  then obtain n d where e: "(n, d) \<in> set es" "keep (rel @ [n]) (is_dir d)"
      "(p, m) \<in> set (walk_node keep (rel @ [n]) d)"
    by (auto split: if_splits)
  from 2(1) [OF e(1) refl e(2,3)] show ?case by (auto simp: starts_with_iff)
qed auto

lemma walk_dir_below: "(p, m) \<in> set (walk_node keep rel (DirNode es)) \<Longrightarrow> \<exists>n q. p = rel @ n # q"
  by (fastforce split: if_splits dest: walk_node_prefix simp: starts_with_iff)

text \<open>A narrower predicate that does not cut the way to what it admits is a filter.\<close>

lemma walk_node_filter:
  assumes way: "\<And>p q. admits (p @ q) False \<Longrightarrow> p \<noteq> [] \<Longrightarrow> q \<noteq> [] \<Longrightarrow> admits p True"
    and kept: "\<And>p dir. p \<noteq> [] \<Longrightarrow> keep' p dir \<longleftrightarrow> keep p dir \<and> admits p dir"
    and here: "\<not> is_dir d \<longrightarrow> admits rel False"
  shows "walk_node keep' rel d = filter (\<lambda>e. admits (fst e) False) (walk_node keep rel d)"
  using here
proof (induction d arbitrary: rel)
  case (DirNode es)
  let ?f = "\<lambda>(n, d). if keep' (rel @ [n]) (is_dir d) then walk_node keep' (rel @ [n]) d else []"
  let ?g = "\<lambda>(n, d). filter (\<lambda>e. admits (fst e) False)
    (if keep (rel @ [n]) (is_dir d) then walk_node keep (rel @ [n]) d else [])"
  have "?f (n, d) = ?g (n, d)" if e: "(n, d) \<in> set es" for n d
  proof (cases "admits (rel @ [n]) (is_dir d)")
    case True
    then have "\<not> is_dir d \<longrightarrow> admits (rel @ [n]) False" by (cases "is_dir d") simp_all
    from DirNode.IH [OF e _ this] True kept show ?thesis by simp
  next
    case False
    have "\<not> admits (fst x) False" if "x \<in> set (walk_node keep (rel @ [n]) d)" for x
    proof (cases d)
      case (DirNode es)
      with that walk_dir_below [of "fst x" "snd x" keep "rel @ [n]" es] obtain m q where
        "fst x = (rel @ [n]) @ (m # q)" by auto
      with way [of "rel @ [n]" "m # q"] False DirNode show ?thesis by auto
    qed (use that False in auto)
    with False kept show ?thesis by (auto simp: filter_empty_conv)
  qed
  then have "map ?f es = map ?g es" by (intro map_cong) auto
  then have "concat (map ?f es) = concat (map ?g es)" by (rule arg_cong)
  also have "\<dots> = filter (\<lambda>e. admits (fst e) False) (walk_node keep rel (DirNode es))"
    by (simp add: filter_concat comp_def split_def)
  finally show ?case by simp
qed auto

text \<open>What a scope lets through, without the rest of \<open>filter_entry\<close>.\<close>

definition scope_passes :: "scope \<Rightarrow> string list \<Rightarrow> bool \<Rightarrow> bool" where
  "scope_passes s rel dir = (case relative rel of None \<Rightarrow> False | Some r \<Rightarrow> scope_admits s r dir)"

lemma scope_admits_way: "scope_admits s (p @ q) False \<Longrightarrow> q \<noteq> [] \<Longrightarrow> scope_admits s p True"
proof -
  assume "scope_admits s (p @ q) False" "q \<noteq> []"
  then obtain t where t: "t \<in> set s" "target_admits t (p @ q) False"
    by (auto simp: scope_admits_def list_ex_iff)
  from t(2) have "target_admits t p True" using \<open>q \<noteq> []\<close>
    by (cases t; cases q) (auto simp: target_admits_def starts_with_iff append_eq_append_conv2 split: if_splits)
  with t show ?thesis by (auto simp: scope_admits_def list_ex_iff)
qed

lemma scope_passes_way: "scope_passes s (p @ q) False \<Longrightarrow> q \<noteq> [] \<Longrightarrow> scope_passes s p True"
  by (auto simp: scope_passes_def relative_def dest: scope_admits_way split: if_splits)

lemma entry_passes_scope:
  "rel \<noteq> [] \<Longrightarrow> entry_passes libs dl root (Some s) rel dir
     \<longleftrightarrow> entry_passes libs dl root None rel dir \<and> scope_passes s rel dir"
  by (auto simp: entry_passes_def scope_passes_def relative_def)

lemma from_relative_names:
  "from_relative_path (map component_of rel) = Some r \<Longrightarrow>
     r = rel \<and> list_all utf8_valid rel \<and> list_all (\<lambda>n. CHR ''/'' \<notin> set n) rel"
  by (induction rel arbitrary: r) (auto simp: component_of_def split: if_splits)

lemma split_as_string:
  "rel \<noteq> [] \<Longrightarrow> list_all (\<lambda>n. CHR ''/'' \<notin> set n) rel \<Longrightarrow> split_on (CHR ''/'') (as_string rel) = rel"
proof (induction rel rule: induct_list012)
  case (3 a b rest)
  then show ?case by (simp add: as_string_def split_on_append)
qed (simp_all add: as_string_def split_on_no_sep)

lemma walked_file_covered:
  "walked_file_of (rel, m) = Some f \<Longrightarrow> rel \<noteq> [] \<Longrightarrow>
     wf_rel f = rel \<and> (covers_file s (as_string (wf_rel f)) \<longleftrightarrow> scope_passes s rel False)"
  by (auto simp: walked_file_of_def covers_file_def scope_passes_def relative_def split_as_string
      split: option.splits prod.splits dest!: from_relative_names)

lemma map_filter_filter:
  "(\<And>x y. x \<in> set xs \<Longrightarrow> f x = Some y \<Longrightarrow> P x = Q y) \<Longrightarrow>
     List.map_filter f (filter P xs) = filter Q (List.map_filter f xs)"
  by (induction xs) (auto simp: List.map_filter_simps split: option.splits)

text \<open>
  A walk limited to a scope visits exactly the files the scope covers of those a full walk
  visits, and in the same order: starting at the folder it finds its way down to every target.
\<close>

theorem scoped_walks_visit_what_they_cover:
  "walk_scoped libs skips dl root es (Some s)
     = filter (\<lambda>f. covers_file s (as_string (wf_rel f))) (walk_files libs skips dl root es)"
proof -
  let ?walk = "\<lambda>sc. walk_node (\<lambda>rel dir. \<not> skips rel dir \<and> entry_passes libs dl root sc rel dir) [] (DirNode es)"
  have "?walk (Some s) = filter (\<lambda>e. scope_passes s (fst e) False) (?walk None)"
    by (rule walk_node_filter) (simp_all add: entry_passes_scope scope_passes_way)
  moreover have "List.map_filter walked_file_of (filter (\<lambda>e. scope_passes s (fst e) False) (?walk None))
      = filter (\<lambda>f. covers_file s (as_string (wf_rel f))) (List.map_filter walked_file_of (?walk None))"
  proof (rule map_filter_filter)
    fix x f assume x: "x \<in> set (?walk None)" "walked_file_of x = Some f"
    with walk_dir_below [of "fst x" "snd x"] have "fst x \<noteq> []" by (metis append_is_Nil_conv list.distinct(1) prod.collapse)
    with walked_file_covered [of "fst x" "snd x" f s] x(2)
    show "scope_passes s (fst x) False = covers_file s (as_string (wf_rel f))" by auto
  qed
  ultimately show ?thesis by (simp only: walk_scoped_def walk_files_def)
qed

text \<open>Nothing denied is visited, nor anything below a denied directory.\<close>

lemma walk_node_kept: "(p, m) \<in> set (walk_node keep rel d) \<Longrightarrow> p \<noteq> rel \<Longrightarrow> \<exists>dir. keep p dir"
proof (induction d arbitrary: rel)
  case (DirNode es)
  then obtain n d where e: "(n, d) \<in> set es" "keep (rel @ [n]) (is_dir d)"
      "(p, m) \<in> set (walk_node keep (rel @ [n]) d)"
    by (auto split: if_splits)
  then show ?case using DirNode.IH [OF e(1) _ e(3)] by (cases "p = rel @ [n]") auto
qed auto

lemma walked_not_denied:
  assumes "f \<in> set (walk_scoped libs skips dl root es sc)"
  shows "\<not> is_denied libs dl (abs_path root (wf_rel f))"
proof -
  from assms obtain rel m where w: "walked_file_of (rel, m) = Some f"
      "(rel, m) \<in> set (walk_node (\<lambda>rel dir. \<not> skips rel dir \<and> entry_passes libs dl root sc rel dir) [] (DirNode es))"
    by (auto simp: walk_scoped_def List.map_filter_def simp del: walk_node.simps)
  from walk_dir_below [OF w(2)] have "rel \<noteq> []" by auto
  with walk_node_kept [OF w(2)] walked_file_covered [OF w(1)] show ?thesis
    by (auto simp: entry_passes_def abs_path_def split: if_splits)
qed

end
