(* ===== verification/Extract.thy ===== *)
theory Extract
  imports Reader Kinds StdText
begin

text \<open>
  \<open>src/reader/extract.rs\<close>: turning files into text, which is a list of bytes here. The parsers are
  parameters (\<open>extract_libs\<close>): \<open>lopdf\<close> gives the pages of a PDF, \<open>zip\<close> the parts of a document,
  \<open>quick_xml\<close> the events of a part up to its end or first error, \<open>calamine\<close> the rows of a workbook.
  A panic of theirs, which \<open>extract\<close> catches, is \<open>xt_panics\<close>. \<open>read_capped\<close> is in \<open>Reader\<close>.
\<close>

section \<open>Formats\<close>

datatype text_format = TextFormat | Pdf | Docx | Pptx | Spreadsheet

definition TEXT_EXTENSIONS :: "string list" where
  "TEXT_EXTENSIONS = [
     ''txt'', ''text'', ''md'', ''markdown'', ''mdx'', ''rst'', ''org'', ''adoc'', ''tex'',
     ''csv'', ''tsv'', ''json'', ''jsonl'', ''yaml'', ''yml'', ''toml'', ''xml'', ''html'',
     ''htm'', ''css'', ''scss'', ''js'', ''mjs'', ''cjs'', ''jsx'', ''ts'', ''tsx'', ''rb'',
     ''erb'', ''py'', ''rs'', ''go'', ''java'', ''kt'', ''kts'', ''swift'', ''c'', ''h'',
     ''cc'', ''cpp'', ''hpp'', ''cs'', ''php'', ''pl'', ''lua'', ''sh'', ''bash'', ''zsh'',
     ''fish'', ''sql'', ''log'', ''ini'', ''cfg'', ''conf'', ''properties'', ''gradle'',
     ''vue'', ''svelte'', ''ex'', ''exs'', ''erl'', ''hs'', ''ml'', ''scala'', ''clj'', ''r'',
     ''jl'', ''dart'', ''zig'', ''nim'', ''vim'', ''el'', ''graphql'', ''proto'', ''tf'',
     ''hcl'', ''rtf'', ''srt'', ''vtt'', ''bib'', ''ipynb'']"

definition BINARY_EXTENSIONS :: "string list" where
  "BINARY_EXTENSIONS = [
     ''png'', ''jpg'', ''jpeg'', ''gif'', ''webp'', ''heic'', ''bmp'', ''tiff'', ''ico'',
     ''psd'', ''mp3'', ''m4a'', ''wav'', ''flac'', ''ogg'', ''mp4'', ''mov'', ''mkv'', ''avi'',
     ''webm'', ''zip'', ''gz'', ''tgz'', ''bz2'', ''xz'', ''zst'', ''7z'', ''rar'', ''dmg'',
     ''iso'', ''exe'', ''dll'', ''so'', ''dylib'', ''o'', ''a'', ''class'', ''jar'', ''wasm'',
     ''bin'', ''sqlite'', ''db'', ''ttf'', ''otf'', ''woff'', ''woff2'', ''doc'', ''ppt'',
     ''key'', ''pages'', ''numbers'']"

definition format_for :: "string \<Rightarrow> text_format option" where
  "format_for name = (case rsplit_once (CHR ''.'') name of
     None \<Rightarrow> Some TextFormat
   | Some (stem, e) \<Rightarrow>
       (let e = to_lower e
        in if e = ''pdf'' then Some Pdf
           else if e \<in> {''docx'', ''docm'', ''dotx''} then Some Docx
           else if e \<in> {''pptx'', ''pptm''} then Some Pptx
           else if e \<in> {''xlsx'', ''xlsm'', ''xlsb'', ''xls'', ''ods''} then Some Spreadsheet
           else if e \<in> set TEXT_EXTENSIONS then Some TextFormat
           else if e \<in> set BINARY_EXTENSIONS then None
           else Some TextFormat))"

section \<open>Text\<close>

text \<open>Where characters start, and \<open>char_indices().nth\<close>.\<close>

definition char_starts :: "string \<Rightarrow> nat list" where
  "char_starts s = filter (is_char_boundary s) [0..<length s]"

definition truncate_chars :: "string \<Rightarrow> nat \<Rightarrow> string" where
  "truncate_chars s n = (if n < length (char_starts s) then take (char_starts s ! n) s else s)"

lemma truncate_short: "length s \<le> n \<Longrightarrow> truncate_chars s n = s"
  using length_filter_le [of "is_char_boundary s" "[0..<length s]"]
  by (simp add: truncate_chars_def char_starts_def)

definition unsupported :: "string \<Rightarrow> tool_error" where
  "unsupported = tool_error Unsupported"

definition no_text :: tool_error where
  "no_text = unsupported (''this file type can'' @ CHR 0x27 # ''t be read as text'')"

definition plain_text :: "string \<Rightarrow> nat \<Rightarrow> tool_error + string" where
  "plain_text bytes most =
     (if CHR 0x00 \<in> set (take 8192 bytes) then Inl no_text
      else Inr (truncate_chars (from_utf8_lossy bytes) most))"

section \<open>Parsers\<close>

record pdf_document =
  pd_encrypted :: bool
  pd_pages :: "string option list"

text \<open>A part of a document, \<open>None\<close> if reading it fails.\<close>

record zip_archive =
  za_names :: "string list option"
  za_by_name :: "string \<Rightarrow> string option option"

datatype xml_event =
    XmlStart string
  | XmlEnd string
  | XmlEmpty string
  | XmlText "string option"
  | XmlRef string "string option"
  | XmlOther

text \<open>A sheet, \<open>None\<close> if it cannot be read; an empty cell is \<open>None\<close>.\<close>

type_synonym sheet = "string \<times> string option list list option"

record extract_libs =
  xt_panics :: "string \<Rightarrow> bool"
  xt_pdf :: "string \<Rightarrow> string + pdf_document"
  xt_zip :: "string \<Rightarrow> zip_archive option"
  xt_xml :: "string \<Rightarrow> xml_event list"
  xt_workbook :: "string \<Rightarrow> string + sheet list"

section \<open>PDF\<close>

definition char_count :: "string \<Rightarrow> nat" where
  "char_count s = length (char_starts s)"

fun pdf_pages :: "nat \<Rightarrow> string option list \<Rightarrow> string \<Rightarrow> string" where
  "pdf_pages most [] out = out"
| "pdf_pages most (p # ps) out =
     (let out = (case p of None \<Rightarrow> out | Some t \<Rightarrow> out @ trim_end_ws t @ [CHR 0x0A, CHR 0x0A])
      in if most \<le> char_count out then out else pdf_pages most ps out)"

definition pdf_text :: "extract_libs \<Rightarrow> string \<Rightarrow> nat \<Rightarrow> tool_error + string" where
  "pdf_text L bytes most = (case xt_pdf L bytes of
     Inl e \<Rightarrow> Inl (unsupported (''the PDF could not be parsed: '' @ e))
   | Inr doc \<Rightarrow>
       if pd_encrypted doc then Inl (unsupported ''the PDF is encrypted'')
       else Inr (trim_end_ws (truncate_chars (pdf_pages most (pd_pages doc) []) most)))"

section \<open>Office documents\<close>

datatype office_kind = KindDocx | KindPptx

definition MAX_XML_PART :: nat where "MAX_XML_PART = 64 * 1024 * 1024"

text \<open>The numbered slides, sorted by their number and then their name, as bytes.\<close>

fun bytes_less :: "string \<Rightarrow> string \<Rightarrow> bool" where
  "bytes_less s [] = False"
| "bytes_less [] (d # t) = True"
| "bytes_less (c # s) (d # t) =
     ((of_char c :: nat) < of_char d \<or> (c = d \<and> bytes_less s t))"

definition slide_less :: "nat \<times> string \<Rightarrow> nat \<times> string \<Rightarrow> bool" where
  "slide_less a b \<longleftrightarrow> fst a < fst b \<or> (fst a = fst b \<and> bytes_less (snd a) (snd b))"

fun insert_slide :: "nat \<times> string \<Rightarrow> (nat \<times> string) list \<Rightarrow> (nat \<times> string) list" where
  "insert_slide x [] = [x]"
| "insert_slide x (y # ys) = (if slide_less y x then y # insert_slide x ys else x # y # ys)"

definition slide_number :: "string \<Rightarrow> nat option" where
  "slide_number name = (case strip_prefix ''ppt/slides/slide'' name of
     None \<Rightarrow> None
   | Some s \<Rightarrow> (case strip_suffix ''.xml'' s of None \<Rightarrow> None | Some n \<Rightarrow> parse_uint 4294967295 n))"

definition slides :: "string list \<Rightarrow> string list" where
  "slides names = map snd (foldr insert_slide
     (List.map_filter (\<lambda>n. map_option (\<lambda>k. (k, n)) (slide_number n)) names) [])"

definition text_tag :: "office_kind \<Rightarrow> string" where
  "text_tag k = (case k of KindDocx \<Rightarrow> ''w:t'' | KindPptx \<Rightarrow> ''a:t'')"

definition para_tag :: "office_kind \<Rightarrow> string" where
  "para_tag k = (case k of KindDocx \<Rightarrow> ''w:p'' | KindPptx \<Rightarrow> ''a:p'')"

definition entity :: "string \<Rightarrow> string" where
  "entity r = (if r = ''amp'' then ''&'' else if r = ''lt'' then ''<'' else if r = ''gt'' then ''>''
     else if r = ''quot'' then [CHR 0x22] else if r = ''apos'' then [CHR 0x27] else [])"

fun xml_event_text :: "office_kind \<Rightarrow> xml_event \<Rightarrow> bool \<times> string \<Rightarrow> bool \<times> string" where
  "xml_event_text k (XmlStart n) (inside, out) = (if n = text_tag k then True else inside, out)"
| "xml_event_text k (XmlEnd n) (inside, out) =
     (if n = text_tag k then (False, out)
      else if n = para_tag k then (inside, out @ [CHR 0x0A]) else (inside, out))"
| "xml_event_text k (XmlEmpty n) (inside, out) =
     (inside, out @ (if n = ''w:tab'' then [CHR 0x09]
       else if n \<in> {''w:br'', ''w:cr'', ''a:br''} then [CHR 0x0A] else []))"
| "xml_event_text k (XmlText t) (inside, out) =
     (inside, if inside then out @ (case t of None \<Rightarrow> [] | Some s \<Rightarrow> s) else out)"
| "xml_event_text k (XmlRef r c) (inside, out) =
     (inside, if inside then out @ (case c of Some s \<Rightarrow> s | None \<Rightarrow> entity r) else out)"
| "xml_event_text k XmlOther st = st"

fun xml_text :: "office_kind \<Rightarrow> nat \<Rightarrow> xml_event list \<Rightarrow> bool \<times> string \<Rightarrow> string" where
  "xml_text k most [] (inside, out) = out"
| "xml_text k most (e # es) st = (case xml_event_text k e st of (inside, out) \<Rightarrow>
     if most * 4 < length out then out else xml_text k most es (inside, out))"

text \<open>The parts in order; \<open>None\<close> when the document is damaged.\<close>

fun office_parts ::
  "extract_libs \<Rightarrow> zip_archive \<Rightarrow> office_kind \<Rightarrow> nat \<Rightarrow> nat \<Rightarrow> string list \<Rightarrow> string \<Rightarrow> string option" where
  "office_parts L z k most i [] out = Some out"
| "office_parts L z k most i (p # ps) out = (case za_by_name z p of
     None \<Rightarrow> office_parts L z k most (i + 1) ps out
   | Some None \<Rightarrow> None
   | Some (Some bytes) \<Rightarrow>
       (let out = (if k = KindPptx then out @ ''--- Slide '' @ show_nat (i + 1) @ '' ---'' @ [CHR 0x0A] else out);
            out = xml_text k most (xt_xml L (take MAX_XML_PART bytes)) (False, out) @ [CHR 0x0A]
        in if most * 4 \<le> length out \<and> most \<le> char_count out then Some out
           else office_parts L z k most (i + 1) ps out))"

definition office_xml :: "extract_libs \<Rightarrow> string \<Rightarrow> office_kind \<Rightarrow> nat \<Rightarrow> tool_error + string" where
  "office_xml L bytes k most = (case xt_zip L bytes of
     None \<Rightarrow> Inl (unsupported ''the document could not be opened'')
   | Some z \<Rightarrow>
       (case (case k of KindDocx \<Rightarrow> Some [''word/document.xml''] | KindPptx \<Rightarrow> map_option slides (za_names z)) of
          None \<Rightarrow> Inl (unsupported ''the document is damaged'')
        | Some parts \<Rightarrow> (case office_parts L z k most 0 parts [] of
            None \<Rightarrow> Inl (unsupported ''the document is damaged'')
          | Some out \<Rightarrow> Inr (truncate_chars (trim_end_ws out) most))))"

section \<open>Spreadsheets\<close>

fun sheet_rows :: "nat \<Rightarrow> string option list list \<Rightarrow> string \<Rightarrow> string" where
  "sheet_rows most [] out = out"
| "sheet_rows most (row # rows) out =
     (let cells = map (\<lambda>c. case c of None \<Rightarrow> [] | Some s \<Rightarrow> s) row
      in if list_all (\<lambda>c. c = []) cells then sheet_rows most rows out
         else (let out = out @ join_with (CHR 0x09) cells @ [CHR 0x0A]
               in if most * 4 < length out then out else sheet_rows most rows out))"

fun sheets_text :: "nat \<Rightarrow> sheet list \<Rightarrow> string \<Rightarrow> string" where
  "sheets_text most [] out = out"
| "sheets_text most ((name, None) # rest) out = sheets_text most rest out"
| "sheets_text most ((name, Some rows) # rest) out =
     (let out = sheet_rows most rows (out @ ''## '' @ name @ [CHR 0x0A]) @ [CHR 0x0A]
      in if most * 4 < length out then out else sheets_text most rest out)"

definition spreadsheet :: "extract_libs \<Rightarrow> string \<Rightarrow> nat \<Rightarrow> tool_error + string" where
  "spreadsheet L bytes most = (case xt_workbook L bytes of
     Inl e \<Rightarrow> Inl (unsupported (''the spreadsheet could not be opened: '' @ e))
   | Inr sheets \<Rightarrow> Inr (truncate_chars (trim_end_ws (sheets_text most sheets [])) most))"

section \<open>Extraction\<close>

definition extract_text :: "extract_libs \<Rightarrow> string \<Rightarrow> string \<Rightarrow> nat \<Rightarrow> tool_error + string" where
  "extract_text L name bytes most = (case format_for name of
     None \<Rightarrow> Inl no_text
   | Some f \<Rightarrow>
       if xt_panics L bytes \<and> f \<noteq> TextFormat then Inl (unsupported ''the file could not be parsed'')
       else (case f of
           TextFormat \<Rightarrow> plain_text bytes most
         | Pdf \<Rightarrow> pdf_text L bytes most
         | Docx \<Rightarrow> office_xml L bytes KindDocx most
         | Pptx \<Rightarrow> office_xml L bytes KindPptx most
         | Spreadsheet \<Rightarrow> spreadsheet L bytes most))"

end
