(* ===== verification/Indexer.thy ===== *)
theory Indexer
  imports Walk Extract "HOL-Library.AList"
begin

text \<open>
  \<open>src/reader/indexer.rs\<close>, with the writing half of \<open>src/reader/index.rs\<close>: the worker that keeps the
  full-text index in line with the shared folders. The index is what tantivy documents: a write
  or a deletion is seen by readers after the next commit, a document is replaced by deleting its
  path and adding it. The disk, the clock, the parsers and what can fail at a pass are in
  \<open>index_env\<close>, one for each turn of the worker's loop. Instants are milliseconds.
\<close>

definition QUIET :: duration where "QUIET = 750"
definition MAX_WAIT :: duration where "MAX_WAIT = 10000"
definition MAX_PENDING_PATHS :: nat where "MAX_PENDING_PATHS = 4096"
definition PROGRESS_EVERY :: nat where "PROGRESS_EVERY = 500"
definition COMMIT_INTERVAL :: duration where "COMMIT_INTERVAL = 15000"
definition MAX_BODY_CHARS :: nat where "MAX_BODY_CHARS = 2000000"

section \<open>The index\<close>

record ix_doc =
  id_root :: string
  id_title :: string
  id_body :: string
  id_mtime :: int
  id_bytes :: nat

text \<open>The documents readers see, and those there will be after a commit, by their paths.\<close>

record search_index =
  sx_live :: "(string \<times> ix_doc) list"
  sx_pending :: "(string \<times> ix_doc) list"

definition index_path :: "string \<Rightarrow> string \<Rightarrow> string" where
  "index_path rid rel = rid @ CHR '':'' # rel"

definition indexed_files :: "string \<Rightarrow> search_index \<Rightarrow> (string \<times> int \<times> nat) list" where
  "indexed_files rid i = List.map_filter (\<lambda>(p, d).
     if id_root d = rid
     then map_option (\<lambda>rel. (rel, id_mtime d, id_bytes d)) (strip_prefix (rid @ '':'') p) else None) (sx_live i)"

definition ix_upsert :: "bool \<Rightarrow> string \<Rightarrow> string \<Rightarrow> string \<Rightarrow> int \<Rightarrow> nat \<Rightarrow> search_index \<Rightarrow> search_index" where
  "ix_upsert adds rid rel body mtime bytes i =
     (let p = index_path rid rel; rest = AList.delete p (sx_pending i)
      in i\<lparr>sx_pending := if adds
         then (p, \<lparr>id_root = rid, id_title = base_name rel, id_body = truncate_chars body MAX_BODY_CHARS,
                id_mtime = mtime, id_bytes = bytes\<rparr>) # rest
         else rest\<rparr>)"

definition ix_delete :: "string \<Rightarrow> string \<Rightarrow> search_index \<Rightarrow> search_index" where
  "ix_delete rid rel i = i\<lparr>sx_pending := AList.delete (index_path rid rel) (sx_pending i)\<rparr>"

definition ix_delete_root :: "string \<Rightarrow> search_index \<Rightarrow> search_index" where
  "ix_delete_root rid i = i\<lparr>sx_pending := filter (\<lambda>(p, d). id_root d \<noteq> rid) (sx_pending i)\<rparr>"

definition indexed_roots :: "search_index \<Rightarrow> string list" where
  "indexed_roots i = remdups (map (id_root \<circ> snd) (sx_live i))"

definition ix_commit :: "bool \<Rightarrow> search_index \<Rightarrow> search_index" where
  "ix_commit commits i = (if commits then i\<lparr>sx_live := sx_pending i\<rparr> else i)"

definition root_count :: "string \<Rightarrow> search_index \<Rightarrow> nat" where
  "root_count rid i = length (filter (\<lambda>(p, d). id_root d = rid) (sx_live i))"

section \<open>The worker\<close>

record indexer_settings =
  ix_roots :: "root_handle list"
  ix_deny :: deny_list
  ix_hardlinks :: bool
  ix_max_bytes :: nat
  ix_watch :: bool
  ix_rescan :: duration

record root_status = root_index_status +
  is_error :: "string option"

record pending_changes =
  pc_full :: bool
  pc_paths :: "path list"

text \<open>A burst is when it began and when it last grew.\<close>

record worker =
  wk_index :: search_index
  wk_status :: "(string \<times> root_status) list"
  wk_changes :: nat
  wk_settings :: indexer_settings
  wk_watching :: bool
  wk_pending :: "(string \<times> pending_changes) list"
  wk_burst :: "(instant \<times> instant) option"
  wk_last_full :: instant
  wk_running :: bool

text \<open>
  What a pass meets: \<open>ie_tree\<close>, \<open>ie_skips\<close> are a folder's content and what the ignore rules leave
  out, \<open>ie_open\<close> opens a file under a policy, \<open>ie_stat\<close> says of a path whether it is a directory,
  \<open>None\<close> if it is gone. \<open>ie_known\<close> is the error of reading the indexed files, \<open>ie_commit\<close> that of
  the last commit of a scan; \<open>ie_adds\<close> and \<open>ie_commits\<close> whether adding a file or a commit on the
  way succeeds, \<open>ie_listed\<close> whether the indexed roots can be listed, \<open>ie_cleanup\<close> the commit after
  roots were dropped, \<open>ie_start\<close> and \<open>ie_clock\<close> the time at its start and at a file.
\<close>

record index_env =
  ie_windows :: bool
  ie_libs :: policy_libs
  ie_extract :: extract_libs
  ie_tree :: "string \<Rightarrow> (string \<times> node) list"
  ie_skips :: "string \<Rightarrow> string list \<Rightarrow> bool \<Rightarrow> bool"
  ie_open :: "open_policy \<Rightarrow> root_handle \<Rightarrow> rel_path \<Rightarrow> tool_error + opened_file"
  ie_stat :: "path \<Rightarrow> bool option"
  ie_known :: "string \<Rightarrow> string option"
  ie_adds :: "string \<Rightarrow> string \<Rightarrow> bool"
  ie_commits :: "string \<Rightarrow> string \<Rightarrow> bool"
  ie_commit :: "string \<Rightarrow> string option"
  ie_listed :: bool
  ie_cleanup :: bool
  ie_start :: "string \<Rightarrow> instant"
  ie_clock :: "string \<Rightarrow> string \<Rightarrow> instant"
  ie_watcher :: bool
  ie_watches :: "path \<Rightarrow> bool"

definition bump :: "worker \<Rightarrow> worker" where
  "bump w = w\<lparr>wk_changes := wk_changes w + 1\<rparr>"

definition set_status ::
  "string \<Rightarrow> index_state \<Rightarrow> nat option \<Rightarrow> string option \<Rightarrow> worker \<Rightarrow> worker" where
  "set_status rid state files err w = (case map_of (wk_status w) rid of
     None \<Rightarrow> w
   | Some s \<Rightarrow>
       (let changed = (is_state s \<noteq> state \<or> (case files of None \<Rightarrow> False | Some f \<Rightarrow> f \<noteq> is_files s));
            s' = s\<lparr>is_state := state, is_files := (case files of None \<Rightarrow> is_files s | Some f \<Rightarrow> f), is_error := err\<rparr>;
            w' = w\<lparr>wk_status := AList.update rid s' (wk_status w)\<rparr>
        in if changed then bump w' else w'))"

section \<open>A scan\<close>

text \<open>The text a file is indexed with; \<open>None\<close> if the policy refuses to open it.\<close>

definition scan_body :: "index_env \<Rightarrow> indexer_settings \<Rightarrow> root_handle \<Rightarrow> walked_file \<Rightarrow> string option" where
  "scan_body env s r f =
     (if wf_size f \<le> ix_max_bytes s \<and> format_for (as_string (wf_rel f)) \<noteq> None
      then (case ie_open env (ix_deny s, ix_hardlinks s) r (wf_rel f) of
          Inl e \<Rightarrow> if is_denial (code e) then None else Some []
        | Inr opened \<Rightarrow> Some (case read_capped opened (ix_max_bytes s) of
              Inl e \<Rightarrow> []
            | Inr bytes \<Rightarrow> (case extract_text (ie_extract env) (as_string (wf_rel f)) bytes MAX_BODY_CHARS of
                Inl e \<Rightarrow> [] | Inr t \<Rightarrow> t)))
      else Some [])"

text \<open>A file of the walk: the files known and not seen yet, how many were seen, the last commit.\<close>

record scan_state =
  sc_known :: "(string \<times> int \<times> nat) list"
  sc_seen :: nat
  sc_commit :: instant

definition scan_file ::
  "index_env \<Rightarrow> root_handle \<Rightarrow> bool \<Rightarrow> walked_file \<Rightarrow> scan_state \<times> worker \<Rightarrow> scan_state \<times> worker" where
  "scan_file env r first f st = (case st of (sc, w) \<Rightarrow>
     (let rel = as_string (wf_rel f);
          seen = sc_seen sc + 1;
          w = (if first \<and> seen mod PROGRESS_EVERY = 0 then set_status (h_id r) Indexing (Some seen) None w else w);
          unchanged = (map_of (sc_known sc) rel = Some (wf_modified f, wf_size f));
          sc = sc\<lparr>sc_known := AList.delete rel (sc_known sc), sc_seen := seen\<rparr>
      in if unchanged then (sc, w)
         else (case scan_body env (wk_settings w) r f of
             None \<Rightarrow> (sc, w\<lparr>wk_index := ix_delete (h_id r) rel (wk_index w)\<rparr>)
           | Some body \<Rightarrow>
               (let i = ix_upsert (ie_adds env (h_id r) rel) (h_id r) rel body (wf_modified f) (wf_size f) (wk_index w);
                    now = ie_clock env (h_id r) rel
                in if sc_commit sc + COMMIT_INTERVAL \<le> now
                   then (sc\<lparr>sc_commit := now\<rparr>, w\<lparr>wk_index := ix_commit (ie_commits env (h_id r) rel) i\<rparr>)
                   else (sc, w\<lparr>wk_index := i\<rparr>)))))"

definition scan_walk :: "index_env \<Rightarrow> indexer_settings \<Rightarrow> root_handle \<Rightarrow> scope option \<Rightarrow> walked_file list" where
  "scan_walk env s r sc =
     walk_scoped (ie_libs env) (ie_skips env (h_id r)) (ix_deny s) (h_path r) (ie_tree env (h_id r)) sc"

definition scan_known :: "root_handle \<Rightarrow> scope option \<Rightarrow> search_index \<Rightarrow> (string \<times> int \<times> nat) list" where
  "scan_known r sc i = (case sc of
     None \<Rightarrow> indexed_files (h_id r) i
   | Some s \<Rightarrow> filter (\<lambda>(rel, _). covers_file s rel) (indexed_files (h_id r) i))"

definition ix_drop :: "string \<Rightarrow> string list \<Rightarrow> search_index \<Rightarrow> search_index" where
  "ix_drop rid rels i = fold (ix_delete rid) rels i"

definition scan_first :: "root_handle \<Rightarrow> worker \<Rightarrow> bool" where
  "scan_first r w \<longleftrightarrow> map_option is_state (map_of (wk_status w) (h_id r)) \<noteq> Some IndexReady"

definition scan_end :: "index_env \<Rightarrow> root_handle \<Rightarrow> string list \<Rightarrow> worker \<Rightarrow> worker" where
  "scan_end env r gone w =
     (let w = w\<lparr>wk_index := ix_drop (h_id r) gone (wk_index w)\<rparr>
      in case ie_commit env (h_id r) of
           Some e \<Rightarrow> set_status (h_id r) IndexError None (Some e) w
         | None \<Rightarrow> (let w = w\<lparr>wk_index := ix_commit True (wk_index w)\<rparr>
             in set_status (h_id r) IndexReady (Some (root_count (h_id r) (wk_index w))) None w))"

definition scan :: "index_env \<Rightarrow> root_handle \<Rightarrow> scope option \<Rightarrow> worker \<Rightarrow> worker" where
  "scan env r sc w =
     (let first = scan_first r w;
          w = (if first then set_status (h_id r) Indexing None None w else w)
      in case ie_known env (h_id r) of
           Some e \<Rightarrow> set_status (h_id r) IndexError None (Some e) w
         | None \<Rightarrow> (case fold (scan_file env r first) (scan_walk env (wk_settings w) r sc)
               (\<lparr>sc_known = scan_known r sc (wk_index w), sc_seen = 0, sc_commit = ie_start env (h_id r)\<rparr>, w) of
             (st, w) \<Rightarrow> scan_end env r (map fst (sc_known st)) w))"

section \<open>Changes\<close>

definition note_burst :: "instant \<Rightarrow> worker \<Rightarrow> worker" where
  "note_burst now w = w\<lparr>wk_burst := Some (case wk_burst w of Some (began, _) \<Rightarrow> (began, now) | None \<Rightarrow> (now, now))\<rparr>"

definition pending_for :: "string \<Rightarrow> worker \<Rightarrow> pending_changes" where
  "pending_for rid w = (case map_of (wk_pending w) rid of
     Some p \<Rightarrow> p | None \<Rightarrow> \<lparr>pc_full = False, pc_paths = []\<rparr>)"

definition add_path :: "path \<Rightarrow> pending_changes \<Rightarrow> pending_changes" where
  "add_path p c =
     (if pc_full c then c
      else (let paths = List.insert p (pc_paths c)
            in if MAX_PENDING_PATHS < length paths then \<lparr>pc_full = True, pc_paths = []\<rparr> else c\<lparr>pc_paths := paths\<rparr>))"

definition root_of :: "indexer_settings \<Rightarrow> path \<Rightarrow> root_handle option" where
  "root_of s p = find (\<lambda>r. starts_with p (h_path r)) (ix_roots s)"

definition note_change :: "index_env \<Rightarrow> path \<Rightarrow> bool \<times> worker \<Rightarrow> bool \<times> worker" where
  "note_change env p st = (case st of (any, w) \<Rightarrow>
     if is_denied (ie_libs env) (ix_deny (wk_settings w)) p then (any, w)
     else (case root_of (wk_settings w) p of
         None \<Rightarrow> (any, w)
       | Some r \<Rightarrow> (True, w\<lparr>wk_pending := AList.update (h_id r) (add_path p (pending_for (h_id r) w)) (wk_pending w)\<rparr>)))"

definition note_changes :: "index_env \<Rightarrow> instant \<Rightarrow> path list \<Rightarrow> worker \<Rightarrow> worker" where
  "note_changes env now paths w = (case fold (note_change env) paths (False, w) of
     (any, w) \<Rightarrow> if any then note_burst now w else w)"

definition parent_of :: "bool \<Rightarrow> rel_path \<Rightarrow> rel_path" where
  "parent_of windows rel = (case rel_parse windows (as_string (take (length rel - 1) rel)) of
     Inr p \<Rightarrow> p | Inl _ \<Rightarrow> [])"

definition target_for :: "index_env \<Rightarrow> root_handle \<Rightarrow> path \<Rightarrow> target option" where
  "target_for env r p = (case strip_prefix (h_path r) p of
     None \<Rightarrow> None
   | Some rel \<Rightarrow> (case from_relative_path (map component_of rel) of
       None \<Rightarrow> None
     | Some rel \<Rightarrow> Some (case ie_stat env p of
           Some True \<Rightarrow> Recursive rel
         | Some False \<Rightarrow> Shallow (parent_of (ie_windows env) rel)
         | None \<Rightarrow> Recursive rel)))"

definition scope_for :: "index_env \<Rightarrow> root_handle \<Rightarrow> path list \<Rightarrow> scope option" where
  "scope_for env r paths =
     (if list_ex (\<lambda>p. strip_prefix (h_path r) p = Some []) paths then None
      else Some (remdups (List.map_filter (target_for env r) paths)))"

definition flush_root :: "index_env \<Rightarrow> string \<times> pending_changes \<Rightarrow> worker \<Rightarrow> worker" where
  "flush_root env c w = (case find (\<lambda>r. h_id r = fst c) (ix_roots (wk_settings w)) of
     None \<Rightarrow> w
   | Some r \<Rightarrow> scan env r (if pc_full (snd c) then None else scope_for env r (pc_paths (snd c))) w)"

definition flush_pending :: "index_env \<Rightarrow> worker \<Rightarrow> worker" where
  "flush_pending env w = fold (flush_root env) (wk_pending w) (w\<lparr>wk_pending := []\<rparr>)"

section \<open>The loop\<close>

definition scan_all :: "index_env \<Rightarrow> instant \<Rightarrow> worker \<Rightarrow> worker" where
  "scan_all env now w = fold (\<lambda>r. scan env r None) (ix_roots (wk_settings w))
     (w\<lparr>wk_last_full := now, wk_pending := [], wk_burst := None\<rparr>)"

definition pending_status :: root_status where
  "pending_status = \<lparr>is_state = IndexPending, is_files = 0, is_error = None\<rparr>"

definition status_for :: "root_handle list \<Rightarrow> (string \<times> root_status) list \<Rightarrow> (string \<times> root_status) list" where
  "status_for handles st = fold (\<lambda>r st. if map_of st (h_id r) = None then AList.update (h_id r) pending_status st else st)
     handles (filter (\<lambda>(i, _). list_ex (\<lambda>r. h_id r = i) handles) st)"

definition apply_settings :: "index_env \<Rightarrow> instant \<Rightarrow> worker \<Rightarrow> worker" where
  "apply_settings env now w =
     (let s = wk_settings w;
          w = bump (w\<lparr>wk_status := status_for (ix_roots s) (wk_status w)\<rparr>);
          dropped = filter (\<lambda>i. \<not> list_ex (\<lambda>r. h_id r = i) (ix_roots s)) (indexed_roots (wk_index w));
          w = (if ie_listed env
               then w\<lparr>wk_index := ix_commit (ie_cleanup env) (fold ix_delete_root dropped (wk_index w))\<rparr> else w);
          w = w\<lparr>wk_watching := ix_watch s \<and> ie_watcher env \<and> list_all (\<lambda>r. ie_watches env (h_path r)) (ix_roots s)\<rparr>
      in scan_all env now w)"

definition wait_for :: "instant \<Rightarrow> worker \<Rightarrow> duration option" where
  "wait_for now w = (case wk_burst w of
     Some (began, grew) \<Rightarrow> Some (min (QUIET - (now - grew)) (MAX_WAIT - (now - began)))
   | None \<Rightarrow>
       if wk_watching w \<or> ix_roots (wk_settings w) = [] then None
       else Some (ix_rescan (wk_settings w) - (now - wk_last_full w)))"

datatype indexer_command =
    Configure indexer_settings
  | Changed "path list"
  | RescanAll
  | Shutdown
  | TimedOut

text \<open>What an event of the watcher is to the worker; access to a file is nothing.\<close>

datatype watch_event = WatchLost | WatchAccess | WatchPaths "path list" | WatchFailed

fun watch_command :: "watch_event \<Rightarrow> indexer_command option" where
  "watch_command WatchLost = Some RescanAll"
| "watch_command WatchAccess = None"
| "watch_command (WatchPaths ps) = Some (Changed ps)"
| "watch_command WatchFailed = Some RescanAll"

definition mark_full :: "root_handle \<Rightarrow> worker \<Rightarrow> worker" where
  "mark_full r w =
     w\<lparr>wk_pending := AList.update (h_id r) ((pending_for (h_id r) w)\<lparr>pc_full := True\<rparr>) (wk_pending w)\<rparr>"

definition rescan_all :: "instant \<Rightarrow> worker \<Rightarrow> worker" where
  "rescan_all now w = note_burst now (fold mark_full (ix_roots (wk_settings w)) w)"

fun worker_turn :: "index_env \<times> instant \<times> indexer_command \<Rightarrow> worker \<Rightarrow> worker" where
  "worker_turn (env, now, c) w =
     (if \<not> wk_running w then w
      else (case c of
          Configure s \<Rightarrow> apply_settings env now (w\<lparr>wk_settings := s\<rparr>)
        | Changed paths \<Rightarrow> note_changes env now paths w
        | RescanAll \<Rightarrow> rescan_all now w
        | Shutdown \<Rightarrow> w\<lparr>wk_index := ix_commit (ie_cleanup env) (wk_index w), wk_running := False\<rparr>
        | TimedOut \<Rightarrow> if wk_burst w \<noteq> None then flush_pending env (w\<lparr>wk_burst := None\<rparr>)
            else scan_all env now w))"

definition worker_start :: "index_env \<Rightarrow> instant \<Rightarrow> search_index \<Rightarrow> indexer_settings \<Rightarrow> worker" where
  "worker_start env now i s = apply_settings env now
     \<lparr>wk_index = i, wk_status = [], wk_changes = 0, wk_settings = s, wk_watching = False, wk_pending = [],
      wk_burst = None, wk_last_full = now, wk_running = True\<rparr>"

definition worker_run :: "(index_env \<times> instant \<times> indexer_command) list \<Rightarrow> worker \<Rightarrow> worker" where
  "worker_run xs w = fold worker_turn xs w"

definition is_ready :: "string \<Rightarrow> worker \<Rightarrow> bool" where
  "is_ready rid w \<longleftrightarrow> map_option is_state (map_of (wk_status w) rid) = Some IndexReady"

end
