(* ===== verification/IndexerFacts.thy ===== *)
theory IndexerFacts
  imports Indexer
begin

text \<open>What a scan does to the index, and what the worker remembers of changes.\<close>

section \<open>Distinct files\<close>

text \<open>The names in a directory are distinct.\<close>

function tree_ok :: "node \<Rightarrow> bool" where
  "tree_ok (FileNode m) = True"
| "tree_ok OtherNode = True"
| "tree_ok (DirNode es) \<longleftrightarrow> distinct (map fst es) \<and> list_all (\<lambda>(n, d). tree_ok d) es"
  by pat_completeness auto
termination
proof (relation "measure size")
  fix es :: "(string \<times> node) list" and x n d
  assume "x \<in> set es" "(n, d) = x"
  then have "size_prod (\<lambda>x. 0) size x \<le> size_list (size_prod (\<lambda>x. 0) size) es"
    by (intro size_list_estimation' [OF _ order_refl]) simp
  then show "(d, DirNode es) \<in> measure size" using \<open>(n, d) = x\<close> [symmetric] by simp
qed simp

lemma walk_distinct: "tree_ok d \<Longrightarrow> distinct (map fst (walk_node keep rel d))"
proof (induction d arbitrary: rel)
  case (DirNode es)
  let ?f = "\<lambda>(n, d). if keep (rel @ [n]) (is_dir d) then walk_node keep (rel @ [n]) d else []"
  have each: "distinct (map fst (?f e))" if "e \<in> set es" for e
  proof (cases e)
    case (Pair n d)
    with DirNode.prems that have "tree_ok d" by (fastforce simp: list_all_iff)
    with DirNode.IH [of "(n, d)" d "rel @ [n]"] that Pair show ?thesis by simp
  qed
  have below: "\<exists>q. p = rel @ fst e # q" if "p \<in> fst ` set (?f e)" for p e
    using that by (cases e) (auto simp: starts_with_iff split: if_splits dest!: walk_node_prefix)
  have "distinct (map fst (concat (map ?f es')))" if "distinct (map fst es')" "set es' \<subseteq> set es" for es'
    using that
  proof (induction es')
    case (Cons e es')
    have "fst ` set (?f e) \<inter> fst ` set (concat (map ?f es')) = {}"
    proof (rule ccontr)
      assume "fst ` set (?f e) \<inter> fst ` set (concat (map ?f es')) \<noteq> {}"
      then obtain p where p: "p \<in> fst ` set (?f e)" "p \<in> fst ` set (concat (map ?f es'))" by blast
      from p(2) obtain e' where e': "e' \<in> set es'" "p \<in> fst ` set (?f e')"
        unfolding set_concat set_map by blast
      with below [OF p(1)] below [OF e'(2)] have "fst e = fst e'" by auto
      with e'(1) Cons.prems(1) show False by auto
    qed
    with Cons each [of e] show ?case by (simp del: split_paired_All)
  qed simp
  from this [of es] DirNode.prems show ?case by simp
qed simp_all

lemma walked_distinct:
  "distinct (map fst xs) \<Longrightarrow> list_all (\<lambda>e. fst e \<noteq> []) xs \<Longrightarrow>
     distinct (map (\<lambda>f. as_string (wf_rel f)) (List.map_filter walked_file_of xs))"
proof (induction xs)
  case (Cons e xs)
  obtain rel m where e: "e = (rel, m)" by (cases e)
  show ?case
  proof (cases "walked_file_of e")
    case None
    with Cons show ?thesis by (simp add: List.map_filter_simps)
  next
    case (Some f)
    have names: "wf_rel f = rel \<and> list_all (\<lambda>n. CHR ''/'' \<notin> set n) rel"
      if "walked_file_of (rel, m) = Some f" for rel m f
      using that by (auto simp: walked_file_of_def split: option.splits prod.splits dest!: from_relative_names)
    have "as_string (wf_rel f) \<noteq> as_string (wf_rel g)"
      if g: "g \<in> set (List.map_filter walked_file_of xs)" for g
    proof
      assume same: "as_string (wf_rel f) = as_string (wf_rel g)"
      from g obtain rel' m' where rel': "(rel', m') \<in> set xs" "walked_file_of (rel', m') = Some g"
        by (auto simp: List.map_filter_def)
      then have "rel' \<noteq> []" using Cons.prems(2) by (auto simp: list_all_iff)
      from names [OF rel'(2)] split_as_string [OF \<open>rel' \<noteq> []\<close>]
      have r': "split_on (CHR ''/'') (as_string (wf_rel g)) = rel'" by simp
      from Cons.prems(2) e have "rel \<noteq> []" by simp
      from names [OF Some [unfolded e]] split_as_string [OF this]
      have "split_on (CHR ''/'') (as_string (wf_rel f)) = rel" by simp
      with r' same have "rel = rel'" by simp
      then show False using Cons.prems(1) rel'(1) e by force
    qed
    then have "as_string (wf_rel f) \<notin> (\<lambda>f. as_string (wf_rel f)) ` set (List.map_filter walked_file_of xs)" by blast
    with Cons Some show ?thesis by (simp add: List.map_filter_simps)
  qed
qed (simp add: List.map_filter_simps)

lemma scan_walk_distinct:
  "tree_ok (DirNode (ie_tree env (h_id r))) \<Longrightarrow> distinct (map (\<lambda>f. as_string (wf_rel f)) (scan_walk env s r sc))"
  unfolding scan_walk_def walk_scoped_def
  by (intro walked_distinct walk_distinct) (auto simp: list_all_iff simp del: walk_node.simps dest: walk_dir_below)

section \<open>The index as a map\<close>

definition doc_at :: "string \<Rightarrow> (string \<times> ix_doc) list \<Rightarrow> string \<Rightarrow> ix_doc option" where
  "doc_at rid docs rel = map_of docs (index_path rid rel)"

definition docs_ok :: "(string \<times> ix_doc) list \<Rightarrow> bool" where
  "docs_ok docs \<longleftrightarrow> (\<forall>(p, d) \<in> set docs. CHR '':'' \<notin> set (id_root d) \<and> (\<exists>rel. p = index_path (id_root d) rel))"

lemma index_path_eq:
  "CHR '':'' \<notin> set a \<Longrightarrow> CHR '':'' \<notin> set b \<Longrightarrow> index_path a x = index_path b y \<longleftrightarrow> a = b \<and> x = y"
  unfolding index_path_def
  by (induction a arbitrary: b) (auto simp: Cons_eq_append_conv split: list.splits, (metis list.set_intros(1))+)

lemma index_path_same [simp]: "index_path a x = index_path a y \<longleftrightarrow> x = y"
  by (simp add: index_path_def)

lemma indexed_files_map:
  assumes "docs_ok (sx_live i)" "CHR '':'' \<notin> set rid"
  shows "map_of (indexed_files rid i) rel = map_option (\<lambda>d. (id_mtime d, id_bytes d)) (doc_at rid (sx_live i) rel)"
proof -
  have "map_of (List.map_filter (\<lambda>(p, d). if id_root d = rid
      then map_option (\<lambda>rel. (rel, id_mtime d, id_bytes d)) (strip_prefix (rid @ '':'') p) else None) docs) rel
    = map_option (\<lambda>d. (id_mtime d, id_bytes d)) (doc_at rid docs rel)" if "docs_ok docs" for docs
    using that
  proof (induction docs)
    case (Cons x docs)
    obtain p d where x: "x = (p, d)" by (cases x)
    with Cons.prems obtain rel' where p: "p = index_path (id_root d) rel'" "CHR '':'' \<notin> set (id_root d)"
      by (auto simp: docs_ok_def)
    have strip: "strip_prefix (rid @ '':'') (index_path rid rel') = Some rel'"
      by (simp add: strip_prefix_def starts_with_iff index_path_def)
    from Cons have "map_of (List.map_filter (\<lambda>(p, d). if id_root d = rid
        then map_option (\<lambda>rel. (rel, id_mtime d, id_bytes d)) (strip_prefix (rid @ '':'') p) else None) docs) rel
      = map_option (\<lambda>d. (id_mtime d, id_bytes d)) (doc_at rid docs rel)" by (simp add: docs_ok_def)
    then show ?case using x p strip assms(2)
      by (auto simp: List.map_filter_simps doc_at_def index_path_eq)
  qed (simp add: List.map_filter_simps doc_at_def)
  with assms(1) show ?thesis by (simp add: indexed_files_def)
qed

lemma map_of_filter_here: "map_of (filter (\<lambda>(k, _). P k) xs) k = (if P k then map_of xs k else None)"
  by (induction xs) auto

lemma scan_known_map:
  assumes "docs_ok (sx_live i)" "CHR '':'' \<notin> set (h_id r)"
  shows "map_of (scan_known r sc i) rel =
    (if (case sc of None \<Rightarrow> True | Some s \<Rightarrow> covers_file s rel)
     then map_option (\<lambda>d. (id_mtime d, id_bytes d)) (doc_at (h_id r) (sx_live i) rel) else None)"
  using indexed_files_map [OF assms] by (auto simp: scan_known_def map_of_filter_here split: option.split)

lemma docs_ok_update:
  "docs_ok docs \<Longrightarrow> CHR '':'' \<notin> set rid \<Longrightarrow> id_root d = rid \<Longrightarrow> docs_ok ((index_path rid rel, d) # AList.delete p docs)"
  by (auto simp: docs_ok_def AList.delete_eq)

lemma docs_ok_delete: "docs_ok docs \<Longrightarrow> docs_ok (AList.delete p docs)"
  by (auto simp: docs_ok_def AList.delete_eq)

lemmas ix_defs = ix_upsert_def ix_delete_def ix_commit_def Let_def

lemma set_status_index [simp]:
  "wk_index (set_status rid st n e w) = wk_index w" "wk_settings (set_status rid st n e w) = wk_settings w"
  by (auto simp: set_status_def bump_def Let_def split: option.split)

section \<open>One file\<close>

text \<open>The document a file is given; \<open>None\<close> if the policy refuses to open it.\<close>

definition file_doc :: "index_env \<Rightarrow> indexer_settings \<Rightarrow> root_handle \<Rightarrow> walked_file \<Rightarrow> ix_doc option" where
  "file_doc env s r f = map_option (\<lambda>body. \<lparr>id_root = h_id r, id_title = base_name (as_string (wf_rel f)),
     id_body = truncate_chars body MAX_BODY_CHARS, id_mtime = wf_modified f, id_bytes = wf_size f\<rparr>) (scan_body env s r f)"

lemma scan_file_effect:
  assumes "scan_file env r first f (sc, w) = (sc', w')" "ie_adds env = (\<lambda>_ _. True)"
  shows "map_of (sc_known sc') = (map_of (sc_known sc))(as_string (wf_rel f) := None)"
    and "wk_settings w' = wk_settings w"
    and "map_of (sx_pending (wk_index w')) p =
      (if p = index_path (h_id r) (as_string (wf_rel f))
          \<and> map_of (sc_known sc) (as_string (wf_rel f)) \<noteq> Some (wf_modified f, wf_size f)
       then file_doc env (wk_settings w) r f else map_of (sx_pending (wk_index w)) p)"
    and "docs_ok (sx_pending (wk_index w)) \<Longrightarrow> CHR '':'' \<notin> set (h_id r) \<Longrightarrow> docs_ok (sx_pending (wk_index w'))"
proof -
  define w1 where "w1 = (if first \<and> (sc_seen sc + 1) mod PROGRESS_EVERY = 0
    then set_status (h_id r) Indexing (Some (sc_seen sc + 1)) None w else w)"
  have w1: "wk_index w1 = wk_index w" "wk_settings w1 = wk_settings w" by (simp_all add: w1_def)
  note scan = assms(1) [unfolded scan_file_def prod.case Let_def, folded w1_def]
  show "map_of (sc_known sc') = (map_of (sc_known sc))(as_string (wf_rel f) := None)"
    using scan by (auto simp: delete_conv split: if_splits option.splits)
  show "wk_settings w' = wk_settings w"
    using scan w1 by (auto split: if_splits option.splits)
  show "map_of (sx_pending (wk_index w')) p =
      (if p = index_path (h_id r) (as_string (wf_rel f))
          \<and> map_of (sc_known sc) (as_string (wf_rel f)) \<noteq> Some (wf_modified f, wf_size f)
       then file_doc env (wk_settings w) r f else map_of (sx_pending (wk_index w)) p)"
    using scan w1 assms(2)
    by (auto simp: ix_defs file_doc_def delete_conv' split: if_splits option.splits)
  show "docs_ok (sx_pending (wk_index w'))" if "docs_ok (sx_pending (wk_index w))" "CHR '':'' \<notin> set (h_id r)"
    using scan w1 that assms(2)
    by (auto simp: ix_defs docs_ok_update docs_ok_delete split: if_splits option.splits)
qed

section \<open>All the files of a walk\<close>

lemma scan_files_effect:
  assumes "fold (scan_file env r first) fs (sc, w) = (sc', w')" "ie_adds env = (\<lambda>_ _. True)"
    and "distinct (map (\<lambda>f. as_string (wf_rel f)) fs)"
  shows "map_of (sc_known sc') rel = (if rel \<in> (\<lambda>f. as_string (wf_rel f)) ` set fs then None else map_of (sc_known sc) rel)"
    and "wk_settings w' = wk_settings w"
    and "doc_at (h_id r) (sx_pending (wk_index w')) rel =
      (case find (\<lambda>f. as_string (wf_rel f) = rel) fs of
         Some f \<Rightarrow> if map_of (sc_known sc) rel = Some (wf_modified f, wf_size f)
           then doc_at (h_id r) (sx_pending (wk_index w)) rel else file_doc env (wk_settings w) r f
       | None \<Rightarrow> doc_at (h_id r) (sx_pending (wk_index w)) rel)"
    and "(\<And>rel. p \<noteq> index_path (h_id r) rel) \<Longrightarrow> map_of (sx_pending (wk_index w')) p = map_of (sx_pending (wk_index w)) p"
    and "docs_ok (sx_pending (wk_index w)) \<Longrightarrow> CHR '':'' \<notin> set (h_id r) \<Longrightarrow> docs_ok (sx_pending (wk_index w'))"
proof -
  have "map_of (sc_known sc') rel = (if rel \<in> (\<lambda>f. as_string (wf_rel f)) ` set fs then None else map_of (sc_known sc) rel)
    \<and> wk_settings w' = wk_settings w
    \<and> doc_at (h_id r) (sx_pending (wk_index w')) rel =
      (case find (\<lambda>f. as_string (wf_rel f) = rel) fs of
         Some f \<Rightarrow> if map_of (sc_known sc) rel = Some (wf_modified f, wf_size f)
           then doc_at (h_id r) (sx_pending (wk_index w)) rel else file_doc env (wk_settings w) r f
       | None \<Rightarrow> doc_at (h_id r) (sx_pending (wk_index w)) rel)
    \<and> ((\<forall>rel. p \<noteq> index_path (h_id r) rel) \<longrightarrow> map_of (sx_pending (wk_index w')) p = map_of (sx_pending (wk_index w)) p)
    \<and> (docs_ok (sx_pending (wk_index w)) \<longrightarrow> CHR '':'' \<notin> set (h_id r) \<longrightarrow> docs_ok (sx_pending (wk_index w')))"
    using assms(1,3)
  proof (induction fs arbitrary: sc w)
    case (Cons f fs)
    obtain sc1 w1 where step: "scan_file env r first f (sc, w) = (sc1, w1)" by (cases "scan_file env r first f (sc, w)")
    note eff = scan_file_effect [OF step assms(2)]
    from Cons.prems step have rest: "fold (scan_file env r first) fs (sc1, w1) = (sc', w')"
      and "distinct (map (\<lambda>f. as_string (wf_rel f)) fs)" by simp_all
    note IH = Cons.IH [OF this]
    have new: "find (\<lambda>g. as_string (wf_rel g) = as_string (wf_rel f)) fs = None"
      using Cons.prems(2) by (auto simp: find_None_iff) (metis imageI)
    show ?case
    proof (cases "rel = as_string (wf_rel f)")
      case True
      with IH new show ?thesis by (auto simp: eff doc_at_def)
    next
      case False
      with IH show ?thesis by (auto simp: eff doc_at_def split: option.split)
    qed
  qed simp
  then show "map_of (sc_known sc') rel = (if rel \<in> (\<lambda>f. as_string (wf_rel f)) ` set fs then None else map_of (sc_known sc) rel)"
    "wk_settings w' = wk_settings w"
    "doc_at (h_id r) (sx_pending (wk_index w')) rel =
      (case find (\<lambda>f. as_string (wf_rel f) = rel) fs of
         Some f \<Rightarrow> if map_of (sc_known sc) rel = Some (wf_modified f, wf_size f)
           then doc_at (h_id r) (sx_pending (wk_index w)) rel else file_doc env (wk_settings w) r f
       | None \<Rightarrow> doc_at (h_id r) (sx_pending (wk_index w)) rel)"
    "(\<And>rel. p \<noteq> index_path (h_id r) rel) \<Longrightarrow> map_of (sx_pending (wk_index w')) p = map_of (sx_pending (wk_index w)) p"
    "docs_ok (sx_pending (wk_index w)) \<Longrightarrow> CHR '':'' \<notin> set (h_id r) \<Longrightarrow> docs_ok (sx_pending (wk_index w'))"
    by blast+
qed

lemma ix_drop_pending:
  "map_of (sx_pending (ix_drop rid gone i)) p =
     (if \<exists>rel \<in> set gone. p = index_path rid rel then None else map_of (sx_pending i) p)"
  unfolding ix_drop_def
  by (induction gone arbitrary: i) (auto simp: ix_delete_def delete_conv')

lemma ix_drop_ok: "docs_ok (sx_pending i) \<Longrightarrow> docs_ok (sx_pending (ix_drop rid gone i))"
  unfolding ix_drop_def by (induction gone arbitrary: i) (simp_all add: ix_delete_def docs_ok_delete)

section \<open>A whole scan\<close>

text \<open>
  What a scan over \<open>files\<close> makes of a folder's documents: a file that changed is indexed anew, one
  that may not be opened or is gone from the part scanned leaves the index.
\<close>

definition scanned_doc ::
  "index_env \<Rightarrow> indexer_settings \<Rightarrow> root_handle \<Rightarrow> scope option \<Rightarrow> (string \<Rightarrow> ix_doc option) \<Rightarrow> string \<Rightarrow> ix_doc option" where
  "scanned_doc env s r sc before rel =
     (case find (\<lambda>f. as_string (wf_rel f) = rel) (scan_walk env s r sc) of
        Some f \<Rightarrow> if map_option (\<lambda>d. (id_mtime d, id_bytes d)) (before rel) = Some (wf_modified f, wf_size f)
          then before rel else file_doc env s r f
      | None \<Rightarrow> if (case sc of None \<Rightarrow> True | Some sc \<Rightarrow> covers_file sc rel) then None else before rel)"

text \<open>The pass meets no failure of the index.\<close>

definition index_works :: "index_env \<Rightarrow> string \<Rightarrow> bool" where
  "index_works env rid \<longleftrightarrow> ie_known env rid = None \<and> ie_commit env rid = None \<and> ie_adds env = (\<lambda>_ _. True)"

text \<open>Everything written is committed, and each document is under its folder's path.\<close>

definition settled :: "worker \<Rightarrow> bool" where
  "settled w \<longleftrightarrow> sx_pending (wk_index w) = sx_live (wk_index w) \<and> docs_ok (sx_live (wk_index w))"

lemma set_status_lookup:
  "map_of (wk_status w) rid \<noteq> None \<Longrightarrow>
     map_option is_state (map_of (wk_status (set_status rid st n e w)) rid) = Some st"
  by (auto simp: set_status_def bump_def Let_def update_conv')

lemma scan_effect:
  assumes works: "index_works env (h_id r)" and tree: "tree_ok (DirNode (ie_tree env (h_id r)))"
    and st: "settled w" and rid: "CHR '':'' \<notin> set (h_id r)"
  shows "settled (scan env r sc w)" (is ?settled)
    and "doc_at (h_id r) (sx_live (wk_index (scan env r sc w))) rel
      = scanned_doc env (wk_settings w) r sc (doc_at (h_id r) (sx_live (wk_index w))) rel" (is ?docs)
    and "(\<And>rel. p \<noteq> index_path (h_id r) rel) \<Longrightarrow>
      map_of (sx_live (wk_index (scan env r sc w))) p = map_of (sx_live (wk_index w)) p"
    and "wk_settings (scan env r sc w) = wk_settings w"
proof -
  define w0 where "w0 = (if scan_first r w then set_status (h_id r) Indexing None None w else w)"
  have w0: "wk_index w0 = wk_index w" "wk_settings w0 = wk_settings w" by (simp_all add: w0_def)
  define sc0 where "sc0 = \<lparr>sc_known = scan_known r sc (wk_index w), sc_seen = 0, sc_commit = ie_start env (h_id r)\<rparr>"
  let ?fs = "scan_walk env (wk_settings w) r sc"
  obtain sc1 w1 where run: "fold (scan_file env r (scan_first r w)) ?fs (sc0, w0) = (sc1, w1)"
    by (cases "fold (scan_file env r (scan_first r w)) ?fs (sc0, w0)")
  have final: "scan env r sc w = scan_end env r (map fst (sc_known sc1)) w1"
    using works run by (simp add: scan_def index_works_def w0 flip: w0_def) (simp add: sc0_def)
  have add: "ie_adds env = (\<lambda>_ _. True)" and commit: "ie_commit env (h_id r) = None"
    using works by (simp_all add: index_works_def)
  note eff = scan_files_effect [OF run add scan_walk_distinct [OF tree]]
  define gone where "gone = map fst (sc_known sc1)"
  have live: "sx_live (wk_index (scan env r sc w)) = sx_pending (ix_drop (h_id r) gone (wk_index w1))"
    and pend: "sx_pending (wk_index (scan env r sc w)) = sx_pending (ix_drop (h_id r) gone (wk_index w1))"
    and set: "wk_settings (scan env r sc w) = wk_settings w1"
    by (simp_all add: final scan_end_def Let_def commit gone_def ix_commit_def)
  have same: "sx_pending (wk_index w) = sx_live (wk_index w)" and ok: "docs_ok (sx_live (wk_index w))"
    using st by (simp_all add: settled_def)
  show ?settled
    using live pend ix_drop_ok eff(5) rid same ok by (simp add: settled_def w0)
  show "wk_settings (scan env r sc w) = wk_settings w" using set eff(2) w0 by simp
  show "map_of (sx_live (wk_index (scan env r sc w))) p = map_of (sx_live (wk_index w)) p"
    if "\<And>rel. p \<noteq> index_path (h_id r) rel"
    using that eff(4) [OF that] by (simp add: live ix_drop_pending w0 same)
  have mem: "rel \<in> set gone \<longleftrightarrow> map_of (sc_known sc1) rel \<noteq> None"
    by (force simp: gone_def map_of_eq_None_iff)
  have known: "map_of (sc_known sc0) rel = (if (case sc of None \<Rightarrow> True | Some s \<Rightarrow> covers_file s rel)
     then map_option (\<lambda>d. (id_mtime d, id_bytes d)) (doc_at (h_id r) (sx_live (wk_index w)) rel) else None)"
    using scan_known_map [OF ok rid] by (simp add: sc0_def)
  have covered: "case sc of None \<Rightarrow> True | Some s \<Rightarrow> covers_file s rel"
    if "find (\<lambda>f. as_string (wf_rel f) = rel) ?fs = Some f" for f
  proof (cases sc)
    case (Some s)
    from that have "f \<in> set ?fs" "as_string (wf_rel f) = rel" by (auto dest: find_SomeD)
    with Some show ?thesis by (auto simp: scan_walk_def scoped_walks_visit_what_they_cover)
  qed simp
  have seen: "rel \<in> (\<lambda>f. as_string (wf_rel f)) ` set ?fs \<longleftrightarrow> find (\<lambda>f. as_string (wf_rel f) = rel) ?fs \<noteq> None"
    by (auto simp: find_None_iff)
  show ?docs
  proof (cases "find (\<lambda>f. as_string (wf_rel f) = rel) ?fs")
    case None
    with eff(1) [of rel] eff(3) [of rel] mem known seen show ?thesis
      by (auto simp: scanned_doc_def doc_at_def live ix_drop_pending w0 same)
  next
    case (Some f)
    with eff(1) [of rel] eff(3) [of rel] mem known seen covered [OF Some] show ?thesis
      by (auto simp: scanned_doc_def doc_at_def live ix_drop_pending w0 same)
  qed
qed

end
