(* ===== verification/IndexerClaims.thy ===== *)
theory IndexerClaims
  imports IndexerFacts
begin

text \<open>What keeps the index in line with the disk.\<close>

section \<open>Scans\<close>

lemma set_status_dom [simp]: "map_of (wk_status (set_status rid st n e w)) i = None \<longleftrightarrow> map_of (wk_status w) i = None"
  by (auto simp: set_status_def bump_def Let_def update_conv' split: option.splits)

lemma scan_file_status:
  "map_of (wk_status (snd (scan_file env r first f st))) i = None \<longleftrightarrow> map_of (wk_status (snd st)) i = None"
  by (cases st) (auto simp: scan_file_def Let_def split: option.splits)

lemma scan_files_status:
  "map_of (wk_status (snd (fold (scan_file env r first) fs st))) i = None \<longleftrightarrow> map_of (wk_status (snd st)) i = None"
  by (induction fs arbitrary: st) (simp_all add: scan_file_status)

lemma scan_ready:
  assumes "index_works env (h_id r)" "map_of (wk_status w) (h_id r) \<noteq> None"
  shows "is_ready (h_id r) (scan env r sc w)"
proof -
  define w0 where "w0 = (if scan_first r w then set_status (h_id r) Indexing None None w else w)"
  obtain sc1 w1 where run: "fold (scan_file env r (scan_first r w)) (scan_walk env (wk_settings w0) r sc)
      (\<lparr>sc_known = scan_known r sc (wk_index w0), sc_seen = 0, sc_commit = ie_start env (h_id r)\<rparr>, w0) = (sc1, w1)"
    by (metis surj_pair)
  have "map_of (wk_status w0) (h_id r) \<noteq> None"
    using assms(2) by (cases "scan_first r w") (simp_all only: w0_def if_True if_False set_status_dom simp_thms)
  with scan_files_status [of env r "scan_first r w" "scan_walk env (wk_settings w0) r sc" "(_, w0)" "h_id r"] run
  have "map_of (wk_status w1) (h_id r) \<noteq> None" by (metis snd_conv)
  moreover have "scan env r sc w = scan_end env r (map fst (sc_known sc1)) w1"
    using assms(1) run by (simp add: scan_def index_works_def flip: w0_def)
  ultimately show ?thesis
    using assms(1) by (simp add: scan_end_def Let_def index_works_def is_ready_def set_status_lookup)
qed

text \<open>
  C35: A scan in which the index works brings it in line with the disk. Of the folder readers then
  see: for a file the walk finds with the time and size it is indexed with, its document as it was; for any
  other, one with its text now, which is empty if the file is too large, has no text format or cannot be
  read, and none if reading it is tried and the policy refuses; none for a path of the part scanned where
  the walk finds nothing; and what there was outside that part. The folder is ready.
\<close>

theorem scans_follow_the_disk:
  assumes "index_works env (h_id r)" "tree_ok (DirNode (ie_tree env (h_id r)))"
    and "settled w" "CHR '':'' \<notin> set (h_id r)" "map_of (wk_status w) (h_id r) \<noteq> None"
  shows "doc_at (h_id r) (sx_live (wk_index (scan env r sc w))) rel
      = scanned_doc env (wk_settings w) r sc (doc_at (h_id r) (sx_live (wk_index w))) rel
    \<and> settled (scan env r sc w) \<and> is_ready (h_id r) (scan env r sc w)"
  using scan_effect(1,2) [OF assms(1-4)] scan_ready [OF assms(1,5)] by blast

text \<open>A computer with one folder.\<close>

definition demo_root :: root_handle where
  "demo_root = \<lparr>h_id = ''docs'', h_label = ''Docs'', h_path = [''d''], h_follow_symlinks = False, h_writable = False,
     h_identity = (1, 1)\<rparr>"

definition demo_ix_settings :: indexer_settings where
  "demo_ix_settings = \<lparr>ix_roots = [demo_root], ix_deny = [], ix_hardlinks = False, ix_max_bytes = 100, ix_watch = True,
     ix_rescan = 60000\<rparr>"

definition demo_env :: index_env where
  "demo_env = \<lparr>ie_windows = False, ie_libs = ascii_libs,
     ie_extract = \<lparr>xt_panics = \<lambda>_. True, xt_pdf = \<lambda>_. Inl [], xt_zip = \<lambda>_. None, xt_xml = \<lambda>_. [], xt_workbook = \<lambda>_. Inl []\<rparr>,
     ie_tree = \<lambda>_. [(''a.md'', FileNode (Some (3, Some 7))), (''b'', DirNode [(''c.md'', FileNode (Some (3, Some 8)))])],
     ie_skips = \<lambda>_ _ _. False,
     ie_open = \<lambda>_ _ _. Inr \<lparr>o_content = Inr ''one'', o_size = 3, o_modified = 7, o_identity = (1, 2)\<rparr>,
     ie_stat = \<lambda>p. if p = [''d'', ''b''] then Some True else if p = [''d'', ''a.md''] then Some False else None,
     ie_known = \<lambda>_. None, ie_adds = \<lambda>_ _. True, ie_commits = \<lambda>_ _. True, ie_commit = \<lambda>_. None, ie_listed = True, ie_cleanup = True,
     ie_start = \<lambda>_. 0, ie_clock = \<lambda>_ _. 0, ie_watcher = True, ie_watches = \<lambda>_. True\<rparr>"

definition demo_worker :: worker where
  "demo_worker = \<lparr>wk_index = \<lparr>sx_live = [], sx_pending = []\<rparr>, wk_status = [(''docs'', pending_status)], wk_changes = 0,
     wk_settings = demo_ix_settings, wk_watching = True, wk_pending = [], wk_burst = None, wk_last_full = 0, wk_running = True\<rparr>"

lemma demo_ok:
  "index_works demo_env (h_id demo_root)" "tree_ok (DirNode (ie_tree demo_env (h_id demo_root)))"
  "settled demo_worker" "CHR '':'' \<notin> set (h_id demo_root)" "map_of (wk_status demo_worker) (h_id demo_root) \<noteq> None"
  by (simp_all add: index_works_def demo_env_def demo_root_def demo_worker_def settled_def docs_ok_def)

definition demo_files :: "walked_file list" where
  "demo_files = [\<lparr>wf_rel = [''a.md''], wf_size = 3, wf_modified = 7\<rparr>, \<lparr>wf_rel = [''b'', ''c.md''], wf_size = 3, wf_modified = 8\<rparr>]"

lemma demo_walk: "scan_walk demo_env demo_ix_settings demo_root None = demo_files"
proof -
  have "utf8_valid ''a.md''" "utf8_valid ''b''" "utf8_valid ''c.md''" by code_simp+
  then show ?thesis
    by (simp add: scan_walk_def walk_scoped_def demo_env_def demo_ix_settings_def demo_root_def demo_files_def
      entry_passes_def is_denied_def denied_by_def walked_file_of_def component_of_def MAX_COMPONENT_LEN_def
      List.map_filter_simps)
qed

lemma demo_body: "scan_body demo_env demo_ix_settings demo_root \<lparr>wf_rel = [''a.md''], wf_size = 3, wf_modified = 7\<rparr> = Some ''one''"
proof -
  have f: "format_for ''a.md'' = Some TextFormat" by code_simp
  have "from_utf8_lossy ''one'' = ''one''" by code_simp
  with f show ?thesis
    by (simp add: scan_body_def demo_env_def demo_ix_settings_def as_string_def read_capped_def wrap_def extract_text_def
      plain_text_def truncate_short MAX_BODY_CHARS_def
      del: from_utf8_lossy.simps)
qed

theorem scans_follow_the_disk_witness:
  "doc_at ''docs'' (sx_live (wk_index (scan demo_env demo_root None demo_worker))) ''a.md''
     = Some \<lparr>id_root = ''docs'', id_title = ''a.md'', id_body = ''one'', id_mtime = 7, id_bytes = 3\<rparr>"
proof -
  have "scanned_doc demo_env (wk_settings demo_worker) demo_root None (\<lambda>_. None) ''a.md''
     = Some \<lparr>id_root = ''docs'', id_title = ''a.md'', id_body = ''one'', id_mtime = 7, id_bytes = 3\<rparr>"
    using demo_walk demo_body
    by (simp add: scanned_doc_def demo_worker_def demo_files_def as_string_def file_doc_def truncate_short MAX_BODY_CHARS_def
      base_name_def demo_root_def)
  moreover have "doc_at (h_id demo_root) (sx_live (wk_index demo_worker)) = (\<lambda>_. None)"
    by (simp add: doc_at_def demo_worker_def fun_eq_iff)
  moreover have "h_id demo_root = ''docs''" by (simp add: demo_root_def)
  ultimately show ?thesis
    using scans_follow_the_disk [OF demo_ok, of None "''a.md''"] by simp
qed

text \<open>In the part it covers, a partial scan does what a full one does.\<close>

lemma scan_walk_part:
  "scan_walk env s r (Some sc) = filter (\<lambda>f. covers_file sc (as_string (wf_rel f))) (scan_walk env s r None)"
  by (simp add: scan_walk_def scoped_walks_visit_what_they_cover flip: walk_files_def)

lemma find_part:
  "find (\<lambda>f. as_string (wf_rel f) = rel) (filter (\<lambda>f. covers_file s (as_string (wf_rel f))) fs)
     = (if covers_file s rel then find (\<lambda>f. as_string (wf_rel f) = rel) fs else None)"
  by (induction fs) auto

lemma scanned_doc_covered:
  "(case sc of None \<Rightarrow> True | Some s \<Rightarrow> covers_file s rel) \<Longrightarrow>
     scanned_doc env s r sc before rel = scanned_doc env s r None before rel"
  by (cases sc) (simp_all add: scanned_doc_def scan_walk_part find_part)

text \<open>
  C30: Rescanning only the part of a folder that changed leaves the index as a full scan would, if
  outside of it every file the walk finds is indexed with its time and size, and every indexed
  file is found.
\<close>

theorem partial_scans_suffice:
  assumes "index_works env (h_id r)" "tree_ok (DirNode (ie_tree env (h_id r)))"
    and "settled w" "CHR '':'' \<notin> set (h_id r)"
    and unchanged: "list_all (\<lambda>f. covers_file s (as_string (wf_rel f))
        \<or> map_of (indexed_files (h_id r) (wk_index w)) (as_string (wf_rel f)) = Some (wf_modified f, wf_size f))
      (scan_walk env (wk_settings w) r None)"
    and found: "list_all (\<lambda>(rel, _). covers_file s rel
        \<or> rel \<in> set (map (\<lambda>f. as_string (wf_rel f)) (scan_walk env (wk_settings w) r None))) (indexed_files (h_id r) (wk_index w))"
  shows "doc_at (h_id r) (sx_live (wk_index (scan env r (Some s) w))) rel
    = doc_at (h_id r) (sx_live (wk_index (scan env r None w))) rel"
proof -
  let ?walk = "scan_walk env (wk_settings w) r None"
  let ?old = "doc_at (h_id r) (sx_live (wk_index w)) rel"
  have known: "map_of (indexed_files (h_id r) (wk_index w)) rel = map_option (\<lambda>d. (id_mtime d, id_bytes d)) ?old"
    using indexed_files_map [OF _ assms(4)] assms(3) by (simp add: settled_def)
  have "scanned_doc env (wk_settings w) r (Some s) (doc_at (h_id r) (sx_live (wk_index w))) rel
      = scanned_doc env (wk_settings w) r None (doc_at (h_id r) (sx_live (wk_index w))) rel"
  proof (cases "covers_file s rel")
    case True
    then show ?thesis by (intro scanned_doc_covered) simp
  next
    case False
    show ?thesis
    proof (cases "find (\<lambda>f. as_string (wf_rel f) = rel) ?walk")
      case None
      have "?old = None"
      proof (rule ccontr)
        assume "?old \<noteq> None"
        with known obtain k where "(rel, k) \<in> set (indexed_files (h_id r) (wk_index w))"
          by (auto dest!: map_of_SomeD)
        with found False have "rel \<in> set (map (\<lambda>f. as_string (wf_rel f)) ?walk)" by (auto simp: list_all_iff)
        with None show False by (auto simp: find_None_iff)
      qed
      with None False show ?thesis by (simp add: scanned_doc_def scan_walk_part find_part)
    next
      case (Some f)
      then have "f \<in> set ?walk" "as_string (wf_rel f) = rel" by (auto dest: find_SomeD)
      with unchanged False have "map_of (indexed_files (h_id r) (wk_index w)) rel = Some (wf_modified f, wf_size f)"
        by (auto simp: list_all_iff)
      with known have "map_option (\<lambda>d. (id_mtime d, id_bytes d)) ?old = Some (wf_modified f, wf_size f)"
        by (simp only:)
      with Some False show ?thesis by (simp add: scanned_doc_def scan_walk_part find_part)
    qed
  qed
  then show ?thesis by (simp add: scan_effect(2) [OF assms(1-4)])
qed

text \<open>A folder already indexed whose one subdirectory has a new file.\<close>

definition demo_indexed :: worker where
  "demo_indexed = demo_worker\<lparr>wk_index := (let d = [(''docs:a.md'', \<lparr>id_root = ''docs'', id_title = ''a.md'', id_body = ''old'',
     id_mtime = 7, id_bytes = 3\<rparr>)] in \<lparr>sx_live = d, sx_pending = d\<rparr>)\<rparr>"

theorem partial_scans_suffice_witness:
  "doc_at (h_id demo_root) (sx_live (wk_index (scan demo_env demo_root (Some [Recursive [''b'']]) demo_indexed))) ''b/c.md''
    = doc_at (h_id demo_root) (sx_live (wk_index (scan demo_env demo_root None demo_indexed))) ''b/c.md''"
proof (rule partial_scans_suffice)
  show "settled demo_indexed"
    by (simp add: settled_def demo_indexed_def docs_ok_def index_path_def Let_def)
  have walk: "scan_walk demo_env (wk_settings demo_indexed) demo_root None = demo_files"
    using demo_walk by (simp add: demo_indexed_def demo_worker_def)
  have known: "indexed_files (h_id demo_root) (wk_index demo_indexed) = [(''a.md'', 7, 3)]"
    by (simp add: indexed_files_def demo_indexed_def demo_root_def List.map_filter_simps strip_prefix_def Let_def)
  have c: "covers_file [Recursive [''b'']] ''b/c.md''" by code_simp
  show "list_all (\<lambda>f. covers_file [Recursive [''b'']] (as_string (wf_rel f))
        \<or> map_of (indexed_files (h_id demo_root) (wk_index demo_indexed)) (as_string (wf_rel f)) = Some (wf_modified f, wf_size f))
      (scan_walk demo_env (wk_settings demo_indexed) demo_root None)"
    using c by (simp add: walk known demo_files_def as_string_def)
  show "list_all (\<lambda>(rel, _). covers_file [Recursive [''b'']] rel
        \<or> rel \<in> set (map (\<lambda>f. as_string (wf_rel f)) (scan_walk demo_env (wk_settings demo_indexed) demo_root None)))
      (indexed_files (h_id demo_root) (wk_index demo_indexed))"
    by (simp add: walk known demo_files_def as_string_def)
qed (rule demo_ok)+

section \<open>Changes\<close>

text \<open>A name a directory can have, and a tool path can say.\<close>

definition name_ok :: "string \<Rightarrow> bool" where
  "name_ok n \<longleftrightarrow> utf8_valid n \<and> n \<noteq> [] \<and> n \<noteq> ''.'' \<and> n \<noteq> ''..'' \<and> length n \<le> MAX_COMPONENT_LEN
     \<and> CHR ''/'' \<notin> set n \<and> CHR 0x5C \<notin> set n \<and> CHR 0x00 \<notin> set n"

lemma from_relative_ok: "list_all name_ok rel \<Longrightarrow> from_relative_path (map component_of rel) = Some rel"
  by (induction rel) (simp_all add: component_of_def name_ok_def)

lemma rel_parse_ok: "list_all name_ok rel \<Longrightarrow> rel_parse False (as_string rel) = Inr rel"
proof -
  assume ok: "list_all name_ok rel"
  have parts: "parse_parts False rel = Inr rel" using ok
    by (induction rel) (auto simp: name_ok_def)
  show ?thesis
  proof (cases rel)
    case Nil
    then show ?thesis by (simp add: rel_parse_def as_string_def)
  next
    case (Cons n rest)
    with ok have n: "n \<noteq> []" "CHR ''/'' \<notin> set n" by (simp_all add: name_ok_def)
    then have "\<not> starts_with (as_string rel) ''/''"
      using Cons by (cases n; cases rest) (auto simp: as_string_def)
    moreover have "split_on (CHR ''/'') (as_string rel) = rel"
      using ok Cons by (intro split_as_string) (auto simp: name_ok_def list_all_iff)
    ultimately show ?thesis using parts by (simp add: rel_parse_def)
  qed
qed

lemma parent_of_ok: "list_all name_ok rel \<Longrightarrow> parent_of False rel = take (length rel - 1) rel"
proof -
  assume "list_all name_ok rel"
  then have "list_all name_ok (take (length rel - 1) rel)" by (auto simp: list_all_iff dest: in_set_takeD)
  then show ?thesis by (simp only: parent_of_def rel_parse_ok sum.case)
qed

lemma target_covers:
  assumes "target_for env r (h_path r @ rel) = Some t" "list_all name_ok rel" "rel \<noteq> []" "\<not> ie_windows env"
  shows "target_admits t rel False"
    and "ie_stat env (h_path r @ rel) \<noteq> Some False \<Longrightarrow> target_admits t (rel @ below) False"
proof -
  have "strip_prefix (h_path r) (h_path r @ rel) = Some rel" by (simp add: strip_prefix_def)
  with assms(1,2,4) have t: "t = (case ie_stat env (h_path r @ rel) of
      Some True \<Rightarrow> Recursive rel | Some False \<Rightarrow> Shallow (take (length rel - 1) rel) | None \<Rightarrow> Recursive rel)"
    by (auto simp: target_for_def from_relative_ok parent_of_ok split: option.splits bool.splits)
  have "rel = take (length rel - 1) rel @ [last rel]"
    using assms(3) by (metis append_butlast_last_id butlast_conv_take)
  then have "starts_with rel (take (length rel - 1) rel)" by (metis starts_with_append)
  with t assms(3) show "target_admits t rel False"
    by (cases rel) (auto simp: target_admits_def split: option.splits bool.splits)
  show "target_admits t (rel @ below) False" if "ie_stat env (h_path r @ rel) \<noteq> Some False"
    using that t by (auto simp: target_admits_def split: option.splits bool.splits)
qed

lemma scope_for_covers:
  assumes "scope_for env r paths = Some s" "h_path r @ rel \<in> set paths" "list_all name_ok rel" "\<not> ie_windows env"
  shows "covers_file s (as_string rel)"
    and "ie_stat env (h_path r @ rel) \<noteq> Some False \<Longrightarrow> list_all name_ok below \<Longrightarrow> covers_file s (as_string (rel @ below))"
proof -
  have strip: "strip_prefix (h_path r) (h_path r @ rel) = Some rel" by (simp add: strip_prefix_def)
  have "rel \<noteq> []" using assms(1,2) strip by (auto simp: scope_for_def list_ex_iff split: if_splits)
  obtain t where t: "target_for env r (h_path r @ rel) = Some t"
    using strip assms(3) by (simp add: target_for_def from_relative_ok)
  then have "t \<in> set s" using assms(1,2) by (force simp: scope_for_def List.map_filter_def split: if_splits)
  have split: "split_on (CHR ''/'') (as_string (rel @ b)) = rel @ b" if "list_all name_ok b" for b
    using that assms(3) \<open>rel \<noteq> []\<close> by (intro split_as_string) (auto simp: name_ok_def list_all_iff)
  note cover = target_covers [OF t assms(3) \<open>rel \<noteq> []\<close> assms(4)]
  show "covers_file s (as_string rel)"
    using cover(1) split [of "[]"] \<open>t \<in> set s\<close> by (auto simp: covers_file_def scope_admits_def list_ex_iff)
  show "covers_file s (as_string (rel @ below))"
    if "ie_stat env (h_path r @ rel) \<noteq> Some False" "list_all name_ok below"
    using cover(2) [OF that(1)] split [OF that(2)] \<open>t \<in> set s\<close>
    by (auto simp: covers_file_def scope_admits_def list_ex_iff)
qed

text \<open>The worker will scan all of the folder, or the paths it remembers.\<close>

definition remembers :: "string \<Rightarrow> path \<Rightarrow> worker \<Rightarrow> bool" where
  "remembers rid p w \<longleftrightarrow> pc_full (pending_for rid w) \<or> p \<in> set (pc_paths (pending_for rid w))"

lemma add_path_keeps: "pc_full c \<Longrightarrow> pc_full (add_path q c)"
  "p \<in> set (pc_paths c) \<Longrightarrow> p \<notin> set (pc_paths (add_path q c)) \<Longrightarrow> pc_full (add_path q c)"
  by (auto simp: add_path_def Let_def split: if_splits)

lemma add_path_adds: "pc_full (add_path p c) \<or> p \<in> set (pc_paths (add_path p c))"
  by (auto simp: add_path_def Let_def)

lemma pending_for_update [simp]:
  "pending_for rid (w\<lparr>wk_pending := AList.update i c (wk_pending w)\<rparr>) = (if i = rid then c else pending_for rid w)"
  by (simp add: pending_for_def update_conv')

lemma note_change_keeps:
  "remembers rid p (snd st) \<Longrightarrow> remembers rid p (snd (note_change env q st))"
  "fst st \<Longrightarrow> fst (note_change env q st)"
  "wk_settings (snd (note_change env q st)) = wk_settings (snd st)"
  "wk_running (snd (note_change env q st)) = wk_running (snd st)"
  "wk_burst (snd (note_change env q st)) = wk_burst (snd st)"
  by (auto simp: note_change_def remembers_def add_path_keeps split: prod.splits option.splits)

lemma note_changes_fold:
  "remembers rid p (snd st) \<Longrightarrow> remembers rid p (snd (fold (note_change env) qs st))"
  "fst st \<Longrightarrow> fst (fold (note_change env) qs st)"
  "wk_settings (snd (fold (note_change env) qs st)) = wk_settings (snd st)"
  "wk_running (snd (fold (note_change env) qs st)) = wk_running (snd st)"
  "wk_burst (snd (fold (note_change env) qs st)) = wk_burst (snd st)"
  by (induction qs arbitrary: st) (simp_all add: note_change_keeps)

lemma note_burst_keeps [simp]:
  "remembers rid p (note_burst now w) = remembers rid p w" "wk_settings (note_burst now w) = wk_settings w"
  "wk_running (note_burst now w) = wk_running w" "wk_burst (note_burst now w) \<noteq> None"
  by (simp_all add: note_burst_def remembers_def pending_for_def)

lemma noted:
  assumes "p \<in> set ps" "\<not> is_denied (ie_libs env) (ix_deny (wk_settings w)) p" "root_of (wk_settings w) p = Some r"
  shows "remembers (h_id r) p (note_changes env now ps w) \<and> wk_burst (note_changes env now ps w) \<noteq> None"
proof -
  obtain before later where ps: "ps = before @ p # later" using assms(1) by (metis split_list)
  obtain any w1 where w1: "fold (note_change env) before (False, w) = (any, w1)" by (metis surj_pair)
  have set: "wk_settings w1 = wk_settings w"
    using note_changes_fold(3) [of env before "(False, w)"] w1 by simp
  have "fst (note_change env p (any, w1)) \<and> remembers (h_id r) p (snd (note_change env p (any, w1)))"
    using assms(2,3) by (simp add: note_change_def set remembers_def add_path_adds)
  then have "fst (fold (note_change env) ps (False, w)) \<and> remembers (h_id r) p (snd (fold (note_change env) ps (False, w)))"
    using note_changes_fold(1,2) w1 by (simp add: ps)
  moreover from this have "note_changes env now ps w = note_burst now (snd (fold (note_change env) ps (False, w)))"
    by (simp add: note_changes_def split_def)
  ultimately show ?thesis by (simp only: note_burst_keeps simp_thms)
qed

text \<open>Only more changes are reported.\<close>

definition only_changes :: "index_env \<times> instant \<times> indexer_command \<Rightarrow> bool" where
  "only_changes x = (case x of (env, now, c) \<Rightarrow> (case c of Changed ps \<Rightarrow> True | RescanAll \<Rightarrow> True | _ \<Rightarrow> False))"

lemma mark_full_keeps:
  "remembers rid p w \<Longrightarrow> remembers rid p (fold mark_full rs w)"
  "wk_settings (fold mark_full rs w) = wk_settings w" "wk_running (fold mark_full rs w) = wk_running w"
  by (induction rs arbitrary: w) (auto simp: remembers_def mark_full_def)

lemma rescan_keeps:
  "remembers rid p w \<Longrightarrow> remembers rid p (rescan_all now w)"
  "wk_settings (rescan_all now w) = wk_settings w" "wk_running (rescan_all now w) = wk_running w"
  by (simp_all add: rescan_all_def mark_full_keeps)

lemma note_changes_keeps:
  "remembers rid p w \<Longrightarrow> remembers rid p (note_changes env now ps w)"
  "wk_settings (note_changes env now ps w) = wk_settings w" "wk_running (note_changes env now ps w) = wk_running w"
  "wk_burst w \<noteq> None \<Longrightarrow> wk_burst (note_changes env now ps w) \<noteq> None"
  using note_changes_fold [where st = "(False, w)" and env = env and qs = ps]
  by (auto simp: note_changes_def note_burst_def remembers_def pending_for_def split_def)

lemma changes_keep:
  assumes "list_all only_changes xs" "wk_running w" "remembers rid p w" "wk_burst w \<noteq> None"
  shows "remembers rid p (worker_run xs w) \<and> wk_burst (worker_run xs w) \<noteq> None
    \<and> wk_settings (worker_run xs w) = wk_settings w"
  using assms
proof (induction xs arbitrary: w)
  case (Cons x xs)
  obtain env now c where x: "x = (env, now, c)" by (cases x)
  have "wk_running (worker_turn x w) \<and> remembers rid p (worker_turn x w) \<and> wk_burst (worker_turn x w) \<noteq> None
      \<and> wk_settings (worker_turn x w) = wk_settings w"
  proof (cases c)
    case (Changed ps)
    with x Cons.prems note_changes_keeps show ?thesis by simp
  next
    case RescanAll
    have "wk_burst (rescan_all now w) \<noteq> None" by (simp add: rescan_all_def note_burst_def)
    with RescanAll x Cons.prems rescan_keeps show ?thesis by simp
  qed (use Cons.prems x in \<open>simp_all add: only_changes_def\<close>)
  with Cons.IH [of "worker_turn x w"] Cons.prems(1) show ?case by (simp add: worker_run_def)
qed (simp add: worker_run_def)

section \<open>The end of a burst\<close>

lemma note_change_rest:
  "wk_index (snd (note_change env q st)) = wk_index (snd st)"
  "distinct (map fst (wk_pending (snd st))) \<Longrightarrow> distinct (map fst (wk_pending (snd (note_change env q st))))"
  by (auto simp: note_change_def distinct_update split: prod.splits option.splits)

lemma note_changes_rest:
  "wk_index (note_changes env now ps w) = wk_index w"
  "distinct (map fst (wk_pending w)) \<Longrightarrow> distinct (map fst (wk_pending (note_changes env now ps w)))"
proof -
  have "wk_index (snd (fold (note_change env) ps st)) = wk_index (snd st)"
    "distinct (map fst (wk_pending (snd st))) \<Longrightarrow> distinct (map fst (wk_pending (snd (fold (note_change env) ps st))))" for st
    by (induction ps arbitrary: st) (simp_all add: note_change_rest)
  from this [of "(False, w)"] show "wk_index (note_changes env now ps w) = wk_index w"
    "distinct (map fst (wk_pending w)) \<Longrightarrow> distinct (map fst (wk_pending (note_changes env now ps w)))"
    by (simp_all add: note_changes_def note_burst_def split_def)
qed

lemma rescan_rest:
  "wk_index (rescan_all now w) = wk_index w"
  "distinct (map fst (wk_pending w)) \<Longrightarrow> distinct (map fst (wk_pending (rescan_all now w)))"
proof -
  have "wk_index (fold mark_full rs w) = wk_index w"
    "distinct (map fst (wk_pending w)) \<Longrightarrow> distinct (map fst (wk_pending (fold mark_full rs w)))" for rs w
    by (induction rs arbitrary: w) (simp_all add: mark_full_def distinct_update)
  then show "wk_index (rescan_all now w) = wk_index w"
    "distinct (map fst (wk_pending w)) \<Longrightarrow> distinct (map fst (wk_pending (rescan_all now w)))"
    by (simp_all add: rescan_all_def note_burst_def)
qed

lemma changes_rest:
  assumes "list_all only_changes xs" "wk_running w"
  shows "wk_index (worker_run xs w) = wk_index w \<and> wk_running (worker_run xs w)
    \<and> (distinct (map fst (wk_pending w)) \<longrightarrow> distinct (map fst (wk_pending (worker_run xs w))))"
  using assms
proof (induction xs arbitrary: w)
  case (Cons x xs)
  obtain env now c where x: "x = (env, now, c)" by (cases x)
  have "wk_index (worker_turn x w) = wk_index w \<and> wk_running (worker_turn x w)
      \<and> (distinct (map fst (wk_pending w)) \<longrightarrow> distinct (map fst (wk_pending (worker_turn x w))))"
    using Cons.prems x note_changes_rest note_changes_keeps(3) rescan_rest rescan_keeps(3)
    by (cases c) (simp_all add: only_changes_def)
  with Cons.IH [of "worker_turn x w"] Cons.prems(1) show ?case by (simp add: worker_run_def)
qed (simp add: worker_run_def)

text \<open>A pass in which nothing of the index fails, over folders with distinct IDs.\<close>

definition pass_works :: "index_env \<Rightarrow> indexer_settings \<Rightarrow> bool" where
  "pass_works env s \<longleftrightarrow> distinct (map h_id (ix_roots s)) \<and> list_all (\<lambda>q. index_works env (h_id q)
     \<and> tree_ok (DirNode (ie_tree env (h_id q))) \<and> CHR '':'' \<notin> set (h_id q)) (ix_roots s)"

text \<open>While changes wait, the worker wakes within 750 milliseconds, and within ten seconds of the first.\<close>

lemma waits_are_short:
  assumes "wk_burst w = Some (began, grew)" "wait_for now w = Some d"
  shows "d \<le> 750" "now \<le> began + 10000 \<Longrightarrow> now + d \<le> max now (began + 10000)"
  using assms by (auto simp: wait_for_def QUIET_def MAX_WAIT_def)

lemma flush_other:
  assumes "pass_works env (wk_settings w)" "settled w" "fst c \<noteq> h_id r" "r \<in> set (ix_roots (wk_settings w))"
  shows "settled (flush_root env c w) \<and> wk_settings (flush_root env c w) = wk_settings w
    \<and> doc_at (h_id r) (sx_live (wk_index (flush_root env c w))) = doc_at (h_id r) (sx_live (wk_index w))"
proof (cases "find (\<lambda>q. h_id q = fst c) (ix_roots (wk_settings w))")
  case (Some q)
  then have q: "q \<in> set (ix_roots (wk_settings w))" "h_id q = fst c" by (auto dest: find_SomeD)
  with assms(1) have ok: "index_works env (h_id q)" "tree_ok (DirNode (ie_tree env (h_id q)))" "CHR '':'' \<notin> set (h_id q)"
    and "CHR '':'' \<notin> set (h_id r)" using assms(4) by (auto simp: pass_works_def list_all_iff)
  then have "index_path (h_id r) rel \<noteq> index_path (h_id q) rel'" for rel rel'
    using assms(3) q(2) by (simp add: index_path_eq)
  note eff = scan_effect [OF ok(1,2) assms(2) ok(3)] this
  then show ?thesis by (simp add: flush_root_def Some doc_at_def fun_eq_iff)
qed (simp add: flush_root_def assms)

lemma flush_others:
  assumes "pass_works env (wk_settings w)" "settled w" "h_id r \<notin> fst ` set cs" "r \<in> set (ix_roots (wk_settings w))"
  shows "settled (fold (flush_root env) cs w) \<and> wk_settings (fold (flush_root env) cs w) = wk_settings w
    \<and> doc_at (h_id r) (sx_live (wk_index (fold (flush_root env) cs w))) = doc_at (h_id r) (sx_live (wk_index w))"
  using assms
proof (induction cs arbitrary: w)
  case (Cons c cs)
  from flush_other [OF Cons.prems(1,2) _ Cons.prems(4), of c] Cons.prems(3)
  have "settled (flush_root env c w)" "wk_settings (flush_root env c w) = wk_settings w"
    "doc_at (h_id r) (sx_live (wk_index (flush_root env c w))) = doc_at (h_id r) (sx_live (wk_index w))" by auto
  with Cons.IH [of "flush_root env c w"] Cons.prems show ?case by simp
qed simp

text \<open>What the end of a burst makes of a folder changes are remembered for.\<close>

lemma flush_scans:
  assumes works: "pass_works env (wk_settings w)" and st: "settled w" and one: "distinct (map fst (wk_pending w))"
    and r: "r \<in> set (ix_roots (wk_settings w))" and pend: "map_of (wk_pending w) (h_id r) = Some c"
  shows "doc_at (h_id r) (sx_live (wk_index (flush_pending env w))) rel
      = scanned_doc env (wk_settings w) r (if pc_full c then None else scope_for env r (pc_paths c))
          (doc_at (h_id r) (sx_live (wk_index w))) rel
    \<and> settled (flush_pending env w)"
proof -
  from pend obtain as bs where split: "wk_pending w = as @ (h_id r, c) # bs"
    by (metis map_of_SomeD split_list)
  with one have others: "h_id r \<notin> fst ` set as" "h_id r \<notin> fst ` set bs" by auto
  define w0 where "w0 = w\<lparr>wk_pending := []\<rparr>"
  define w1 where "w1 = fold (flush_root env) as w0"
  define w2 where "w2 = flush_root env (h_id r, c) w1"
  have w0: "wk_settings w0 = wk_settings w" "wk_index w0 = wk_index w" "settled w0"
    using st by (simp_all add: w0_def settled_def)
  from flush_others [where env = env and w = w0 and r = r and cs = as] works r w0 others(1) have w1: "settled w1" "wk_settings w1 = wk_settings w"
    "doc_at (h_id r) (sx_live (wk_index w1)) = doc_at (h_id r) (sx_live (wk_index w))" by (simp_all add: w1_def)
  have "find (\<lambda>q. h_id q = h_id r) rs = Some r" if "r \<in> set rs" "distinct (map h_id rs)" for rs
    using that by (induction rs) auto
  then have found: "find (\<lambda>q. h_id q = h_id r) (ix_roots (wk_settings w1)) = Some r"
    using works r w1(2) by (simp add: pass_works_def)
  have ok: "index_works env (h_id r)" "tree_ok (DirNode (ie_tree env (h_id r)))" "CHR '':'' \<notin> set (h_id r)"
    using works r by (auto simp: pass_works_def list_all_iff)
  have w2: "w2 = scan env r (if pc_full c then None else scope_for env r (pc_paths c)) w1"
    using found by (simp add: w2_def flush_root_def)
  note eff = scan_effect [OF ok(1,2) w1(1) ok(3)]
  have all: "flush_pending env w = fold (flush_root env) bs w2"
    by (simp add: flush_pending_def split w1_def w2_def w0_def)
  from flush_others [where env = env and w = w2 and r = r and cs = bs] works r eff(1,4) w1(2) others(2) have
    "settled (flush_pending env w)"
    "doc_at (h_id r) (sx_live (wk_index (flush_pending env w))) = doc_at (h_id r) (sx_live (wk_index w2))"
    by (simp_all add: all w2)
  with eff(2) w1(2,3) show ?thesis by (simp add: w2)
qed

text \<open>
  C25: Whatever else is reported meanwhile, a reported change gets scanned: the worker wakes within
  750 milliseconds, and when the burst is over the index is, for the path and if it is a directory or
  gone for all below it, as a scan of the whole folder would make it then. It is so for the first shared
  folder that holds the path, for paths the deny list allows, when the index meets no failure.
\<close>

theorem reported_changes_are_scanned:
  assumes running: "wk_running w" and p: "h_path r @ rel \<in> set ps"
    and root: "root_of (wk_settings w) (h_path r @ rel) = Some r"
    and allowed: "\<not> is_denied (ie_libs env) (ix_deny (wk_settings w)) (h_path r @ rel)"
    and names: "list_all name_ok rel" "list_all name_ok below"
    and more: "list_all only_changes xs" and unix: "\<not> ie_windows later"
    and works: "pass_works later (wk_settings w)" and st: "settled w" "distinct (map fst (wk_pending w))"
    and W: "worker_run xs (worker_turn (env, now, Changed ps) w) = W"
  shows "(\<exists>d. wait_for t W = Some d \<and> d \<le> 750)
    \<and> (\<forall>f \<in> set (as_string rel # (if ie_stat later (h_path r @ rel) = Some False then [] else [as_string (rel @ below)])).
        doc_at (h_id r) (sx_live (wk_index (worker_turn (later, t, TimedOut) W))) f
          = scanned_doc later (wk_settings w) r None (doc_at (h_id r) (sx_live (wk_index w))) f)
    \<and> settled (worker_turn (later, t, TimedOut) W)"
proof -
  let ?p = "h_path r @ rel"
  define w1 where "w1 = note_changes env now ps w"
  have w1: "worker_turn (env, now, Changed ps) w = w1" using running by (simp add: w1_def)
  have run1: "wk_running w1" using running by (simp add: w1_def note_changes_keeps(3))
  from noted [OF p allowed root, of now] have n: "remembers (h_id r) ?p w1" "wk_burst w1 \<noteq> None"
    unfolding w1_def by blast+
  have W': "W = worker_run xs w1" using W w1 by simp
  from changes_keep [OF more run1 n] have k: "remembers (h_id r) ?p W" "wk_burst W \<noteq> None" "wk_settings W = wk_settings w"
    unfolding W' using note_changes_keeps(2) [of env now ps w] by (simp_all add: w1_def)
  from changes_rest [OF more run1] st(2) note_changes_rest [where env = env and now = now and ps = ps and w = w] have
    i: "wk_index W = wk_index w" "wk_running W" "distinct (map fst (wk_pending W))"
    unfolding W' w1_def by simp_all
  obtain c where c: "map_of (wk_pending W) (h_id r) = Some c" "pc_full c \<or> ?p \<in> set (pc_paths c)"
    using k(1) by (cases "map_of (wk_pending W) (h_id r)") (auto simp: remembers_def pending_for_def)
  have r: "r \<in> set (ix_roots (wk_settings w))" using root by (auto simp: root_of_def dest: find_SomeD)
  define V where "V = W\<lparr>wk_burst := None\<rparr>"
  have turn: "worker_turn (later, t, TimedOut) W = flush_pending later V"
    using i(2) k(2) by (simp add: V_def)
  have V: "wk_settings V = wk_settings w" "settled V" "distinct (map fst (wk_pending V))"
    "map_of (wk_pending V) (h_id r) = Some c" "wk_index V = wk_index w"
    using k(3) st(1) i(1,3) c(1) by (simp_all add: V_def settled_def)
  let ?sc = "if pc_full c then None else scope_for later r (pc_paths c)"
  have "case ?sc of None \<Rightarrow> True | Some s \<Rightarrow> covers_file s f"
    if "f \<in> set (as_string rel # (if ie_stat later ?p = Some False then [] else [as_string (rel @ below)]))" for f
    using that c(2) scope_for_covers [OF _ _ names(1) unix] names(2) by (auto split: option.split if_splits)
  then have "doc_at (h_id r) (sx_live (wk_index (flush_pending later V))) f
      = scanned_doc later (wk_settings w) r None (doc_at (h_id r) (sx_live (wk_index w))) f"
    if "f \<in> set (as_string rel # (if ie_stat later ?p = Some False then [] else [as_string (rel @ below)]))" for f
    using flush_scans [OF _ V(2,3) _ V(4), where env = later and rel = f] works r V(1,5) scanned_doc_covered [where sc = ?sc and rel = f] that by simp
  moreover have "settled (flush_pending later V)"
    using flush_scans [OF _ V(2,3) _ V(4), where env = later] works r V(1) by simp
  moreover obtain b g where "wk_burst W = Some (b, g)" using k(2) by auto
  then have "\<exists>d. wait_for t W = Some d \<and> d \<le> 750" using waits_are_short(1) by (auto simp: wait_for_def)
  ultimately show ?thesis unfolding turn by blast
qed

theorem reported_changes_are_scanned_witness:
  "doc_at ''docs'' (sx_live (wk_index (worker_turn (demo_env, 800, TimedOut)
      (worker_run [(demo_env, 6, RescanAll)] (worker_turn (demo_env, 5, Changed [[''d'', ''b'']]) demo_worker))))) ''b/c.md''
    = scanned_doc demo_env demo_ix_settings demo_root None (\<lambda>_. None) ''b/c.md''"
proof -
  have d: "h_id demo_root = ''docs''" "h_path demo_root = [''d'']" by (simp_all add: demo_root_def)
  have "utf8_valid ''b''" "utf8_valid ''c.md''" by code_simp+
  then have names: "list_all name_ok [''b'']" "list_all name_ok [''c.md'']"
    by (simp_all add: name_ok_def MAX_COMPONENT_LEN_def)
  have works: "pass_works demo_env (wk_settings demo_worker)"
    using demo_ok(1,2,4) by (simp add: pass_works_def demo_worker_def demo_ix_settings_def)
  have "doc_at (h_id demo_root) (sx_live (wk_index demo_worker)) = (\<lambda>_. None)" "wk_settings demo_worker = demo_ix_settings"
    "wk_pending demo_worker = []" by (simp_all add: doc_at_def demo_worker_def fun_eq_iff)
  moreover have "as_string ([''b''] @ [''c.md'']) = ''b/c.md''" by (simp add: as_string_def)
  moreover have "ie_stat demo_env (h_path demo_root @ [''b'']) \<noteq> Some False" by (simp add: demo_env_def d)
  ultimately show ?thesis
    using reported_changes_are_scanned [OF _ _ _ _ names _ _ works demo_ok(3) _ refl,
        where r = demo_root and ps = "[[''d'', ''b'']]" and env = demo_env and now = 5 and t = 800
          and xs = "[(demo_env, 6, RescanAll)]"]
    by (simp add: d root_of_def only_changes_def is_denied_def denied_by_def del: worker_turn.simps)
      (simp add: demo_worker_def demo_env_def demo_ix_settings_def d denied_by_def del: worker_turn.simps)
qed

section \<open>Folders inside folders\<close>

text \<open>
  A folder inside another shared one is not rescanned when something in it changes: the change
  counts for the first folder of the list that holds it.
\<close>

definition nested_root :: root_handle where
  "nested_root = demo_root\<lparr>h_id := ''sub'', h_path := [''d'', ''b'']\<rparr>"

lemma nested_folders_miss_changes:
  "wk_pending (note_changes demo_env 5 [[''d'', ''b'', ''c.md'']]
      (demo_worker\<lparr>wk_settings := demo_ix_settings\<lparr>ix_roots := [demo_root, nested_root]\<rparr>\<rparr>))
    = [(''docs'', \<lparr>pc_full = False, pc_paths = [[''d'', ''b'', ''c.md'']]\<rparr>)]"
  by (simp add: note_changes_def note_change_def demo_worker_def demo_ix_settings_def root_of_def demo_root_def
    nested_root_def is_denied_def denied_by_def pending_for_def add_path_def MAX_PENDING_PATHS_def note_burst_def List.insert_def)

end
