(* ===== verification/ExtractFacts.thy ===== *)
theory ExtractFacts
  imports Extract "HOL-Library.Multiset"
begin

text \<open>What extraction gives: bounded text, plain files as they are, slides in their order.\<close>

section \<open>Bounds\<close>

lemma boundary_take: "i < k \<Longrightarrow> k \<le> length s \<Longrightarrow> is_char_boundary (take k s) i = is_char_boundary s i"
  by (auto simp: is_char_boundary_def)

lemma char_starts_take: "k \<le> length s \<Longrightarrow> char_starts (take k s) = filter (is_char_boundary s) [0..<k]"
  by (auto simp: char_starts_def boundary_take intro!: filter_cong)

lemma char_starts_split:
  "k \<le> length s \<Longrightarrow> char_starts s = char_starts (take k s) @ filter (is_char_boundary s) [k..<length s]"
  unfolding char_starts_take by (metis char_starts_def filter_append le_Suc_ex upt_add_eq_append zero_le)

lemma char_count_take: "char_count (take k s) \<le> char_count s"
  using char_starts_split [of k s] by (cases "k \<le> length s") (simp_all add: char_count_def)

lemma char_count_truncate: "char_count (truncate_chars s n) \<le> n"
proof (cases "n < length (char_starts s)")
  case True
  let ?k = "char_starts s ! n"
  have k: "?k < length s" using nth_mem [OF True] by (auto simp: char_starts_def)
  have "length (char_starts (take ?k s)) \<le> n"
  proof (rule ccontr)
    assume "\<not> length (char_starts (take ?k s)) \<le> n"
    then have n: "n < length (char_starts (take ?k s))" by simp
    then have "char_starts s ! n = char_starts (take ?k s) ! n"
      using char_starts_split [of ?k s] k by (metis less_imp_le nth_append)
    moreover have "char_starts (take ?k s) ! n < ?k"
      using nth_mem [OF n] k by (auto simp: char_starts_take)
    ultimately show False by simp
  qed
  with True show ?thesis by (simp add: truncate_chars_def char_count_def)
qed (simp add: truncate_chars_def char_count_def)

lemma trim_start_drop: "\<exists>k. trim_start ws s = drop k s"
proof (induction ws s rule: trim_start.induct)
  case (1 ws s)
  show ?case
  proof (cases "find (\<lambda>w. w \<noteq> [] \<and> starts_with s w) ws")
    case None
    then show ?thesis by (subst trim_start.simps) (auto intro: exI [of _ 0])
  next
    case (Some w)
    with 1 obtain k where "trim_start ws (drop (length w) s) = drop k (drop (length w) s)" by blast
    with Some show ?thesis by (subst trim_start.simps) (auto simp: drop_drop)
  qed
qed

lemma trim_end_take: "\<exists>k. trim_end_ws s = take k s"
proof -
  obtain k where "trim_start (map rev whitespace_seqs) (rev s) = drop k (rev s)"
    using trim_start_drop by blast
  then show ?thesis by (auto simp: trim_end_ws_def rev_drop)
qed

lemma char_count_trim: "char_count (trim_end_ws s) \<le> char_count s"
  using trim_end_take [of s] char_count_take by metis

definition within :: "nat \<Rightarrow> tool_error + string \<Rightarrow> bool" where
  "within most r \<longleftrightarrow> (case r of Inl e \<Rightarrow> code e = Unsupported | Inr t \<Rightarrow> char_count t \<le> most)"

lemma within_Inl [simp]: "within most (Inl (unsupported m))" "within most (Inl no_text)"
  by (simp_all add: within_def unsupported_def no_text_def tool_error_def)

lemma within_Inr [simp]:
  "within most (Inr (truncate_chars s most))" "within most (Inr (trim_end_ws (truncate_chars s most)))"
  using char_count_trim char_count_truncate by (auto simp: within_def intro: order_trans)

lemma within_formats [simp]:
  "within most (plain_text bytes most)" "within most (pdf_text L bytes most)"
  "within most (office_xml L bytes k most)" "within most (spreadsheet L bytes most)"
  by (simp_all add: plain_text_def pdf_text_def office_xml_def spreadsheet_def split: sum.split option.split)

text \<open>
  Whatever the parsers give, the text of a file has at most the characters asked for, and
  there is none for a file with the name of a picture, an archive or another binary.
\<close>

theorem extracted_text_is_bounded:
  "case extract_text L name bytes most of
     Inl e \<Rightarrow> code e = Unsupported
   | Inr t \<Rightarrow> char_count t \<le> most \<and> format_for name \<noteq> None"
proof -
  have "within most (extract_text L name bytes most)"
    by (simp add: extract_text_def split: option.split text_format.split)
  then show ?thesis
    by (cases "format_for name") (auto simp: within_def extract_text_def split: sum.splits)
qed

section \<open>Plain text\<close>

text \<open>
  A text file is read as it is: if it is UTF-8, has no zero byte at its start and fits, its
  text is its bytes.
\<close>

theorem text_files_are_read_as_they_are:
  assumes "format_for name = Some TextFormat" "utf8_valid bytes" "CHR 0x00 \<notin> set (take 8192 bytes)"
    and "char_count bytes \<le> most"
  shows "extract_text L name bytes most = Inr bytes"
  using assms by (simp add: extract_text_def plain_text_def truncate_chars_def char_count_def)

definition no_libs :: extract_libs where
  "no_libs = \<lparr>xt_panics = \<lambda>_. True, xt_pdf = \<lambda>_. Inl [], xt_zip = \<lambda>_. None, xt_xml = \<lambda>_. [], xt_workbook = \<lambda>_. Inl []\<rparr>"

theorem text_files_are_read_as_they_are_witness:
  "extract_text no_libs ''Notes.MD'' ''one'' 3 = Inr ''one''"
  by (rule text_files_are_read_as_they_are) code_simp+

section \<open>Slides\<close>

lemma insert_slide_mset: "mset (insert_slide x ys) = add_mset x (mset ys)"
  by (induction ys) auto

lemma insert_slide_sorted: "sorted (map fst ys) \<Longrightarrow> sorted (map fst (insert_slide x ys))"
proof (induction ys)
  case (Cons y ys)
  have "set (insert_slide x ys) = insert x (set ys)"
    by (metis insert_slide_mset set_mset_add_mset_insert set_mset_mset)
  with Cons show ?case by (auto simp: slide_less_def)
qed simp

lemma map_filter_numbered:
  "List.map_filter (\<lambda>n. map_option (\<lambda>k. (k, n)) (f n)) xs = map (\<lambda>n. (the (f n), n)) (filter (\<lambda>n. f n \<noteq> None) xs)"
  by (induction xs) (auto simp: List.map_filter_simps split: option.splits)

text \<open>The slides of a presentation are read in the order of their numbers, each once.\<close>

theorem slides_are_in_order:
  "sorted (map (\<lambda>n. the (slide_number n)) (slides names))
     \<and> mset (slides names) = mset (filter (\<lambda>n. slide_number n \<noteq> None) names)"
proof -
  let ?in = "map (\<lambda>n. (the (slide_number n), n)) (filter (\<lambda>n. slide_number n \<noteq> None) names)"
  let ?out = "foldr insert_slide ?in []"
  have m: "mset (foldr insert_slide xs []) = mset xs" for xs
    by (induction xs) (auto simp: insert_slide_mset)
  have "sorted (map fst (foldr insert_slide xs []))" for xs
    by (induction xs) (auto intro: insert_slide_sorted)
  moreover have "set ?out = set ?in" using arg_cong [OF m [of ?in], of set_mset] by (simp only: set_mset_mset)
  then have "map (\<lambda>n. the (slide_number n)) (map snd ?out) = map fst ?out" by auto
  moreover have "mset (map snd ?out) = mset (map snd ?in)" by (simp only: mset_map m)
  moreover have "map snd ?in = filter (\<lambda>n. slide_number n \<noteq> None) names" by (simp add: comp_def)
  ultimately show ?thesis unfolding slides_def map_filter_numbered by (simp only: simp_thms)
qed

section \<open>Word documents\<close>

text \<open>The events of paragraphs of one run each.\<close>

definition paragraph_events :: "string list \<Rightarrow> xml_event list" where
  "paragraph_events ps = concat (map (\<lambda>p. [XmlStart ''w:p'', XmlStart ''w:r'', XmlStart ''w:t'', XmlText (Some p),
     XmlEnd ''w:t'', XmlEnd ''w:r'', XmlEnd ''w:p'']) ps)"

definition paragraph_lines :: "string list \<Rightarrow> string" where
  "paragraph_lines ps = concat (map (\<lambda>p. p @ [CHR 0x0A]) ps)"

lemma xml_text_paragraphs:
  "length out + length (paragraph_lines ps) \<le> most * 4 \<Longrightarrow>
     xml_text KindDocx most (paragraph_events ps) (False, out) = out @ paragraph_lines ps"
  by (induction ps arbitrary: out) (auto simp: paragraph_events_def paragraph_lines_def text_tag_def para_tag_def)

text \<open>The text of a Word document is its paragraphs, one to a line, with the end trimmed.\<close>

theorem documents_are_read_by_paragraph:
  assumes "format_for name = Some Docx" "\<not> xt_panics L bytes" "xt_zip L bytes = Some z"
    and "za_by_name z ''word/document.xml'' = Some (Some xml)"
    and "xt_xml L (take MAX_XML_PART xml) = paragraph_events ps"
    and "length (paragraph_lines ps) \<le> most * 4"
  shows "extract_text L name bytes most
    = Inr (truncate_chars (trim_end_ws (paragraph_lines ps @ [CHR 0x0A])) most)"
  using assms by (simp add: extract_text_def office_xml_def xml_text_paragraphs Let_def)

definition docx_libs :: extract_libs where
  "docx_libs = no_libs\<lparr>xt_panics := \<lambda>_. False,
     xt_zip := \<lambda>_. Some \<lparr>za_names = None, za_by_name = \<lambda>_. Some (Some ''<w:p>'')\<rparr>,
     xt_xml := \<lambda>_. paragraph_events [''One'', ''Two'']\<rparr>"

theorem documents_are_read_by_paragraph_witness:
  "extract_text docx_libs ''a.docx'' [] 20
     = Inr (truncate_chars (trim_end_ws (paragraph_lines [''One'', ''Two''] @ [CHR 0x0A])) 20)"
proof (rule documents_are_read_by_paragraph [where xml = "''<w:p>''"
    and z = "\<lparr>za_names = None, za_by_name = \<lambda>_. Some (Some ''<w:p>'')\<rparr>"])
  show "format_for ''a.docx'' = Some Docx" by code_simp
qed (simp_all add: docx_libs_def no_libs_def paragraph_lines_def)

end
