(* ===== verification/Secrets.thy ===== *)
theory Secrets
  imports Server
begin

text \<open>
  \<open>src/auth/secrets.rs\<close>: where the device key and the refresh credential are kept. The keychain is a
  map of the program's entries, a secret file a map of its own. What the system refuses, and a file
  that cannot be parsed, is in \<open>secret_faults\<close>: an error for an operation on a name of a store.
\<close>

definition DEVICE_KEY :: string where "DEVICE_KEY = ''device-key''"
definition REFRESH_TOKEN :: string where "REFRESH_TOKEN = ''refresh-token''"

datatype secret_store = Keyring | OrganizationKeyring string | SecretFile path

record secrets =
  se_keychain :: "string \<rightharpoonup> string"
  se_files :: "path \<Rightarrow> string \<rightharpoonup> string"

record secret_faults =
  sf_get :: "secret_store \<Rightarrow> string \<Rightarrow> string option"
  sf_set :: "secret_store \<Rightarrow> string \<Rightarrow> string option"
  sf_delete :: "secret_store \<Rightarrow> string \<Rightarrow> string option"

definition secrets_file :: "path \<Rightarrow> path" where
  "secrets_file config_dir = config_dir @ [''secrets.json'']"

text \<open>\<open>env\<close> is \<open>CWW_SECRET_STORE\<close>, if it is set, \<open>choice\<close> the store of the configuration.\<close>

definition store_for_config :: "string option \<Rightarrow> string option \<Rightarrow> path \<Rightarrow> secret_store" where
  "store_for_config env choice config_dir =
     (if (case env of Some e \<Rightarrow> Some e | None \<Rightarrow> choice) = Some ''file'' then SecretFile (secrets_file config_dir)
      else Keyring)"

definition organization_entry :: "string \<Rightarrow> string \<Rightarrow> string" where
  "organization_entry i name = ''organization:'' @ i @ '':'' @ name"

fun secret_name :: "secret_store \<Rightarrow> string" where
  "secret_name (SecretFile p) = ''file''"
| "secret_name _ = ''keyring''"

definition organization_dir :: "path \<Rightarrow> string \<Rightarrow> path" where
  "organization_dir base i = base @ [''organizations'', i]"

definition sign_in_id_ok :: "string \<Rightarrow> bool" where
  "sign_in_id_ok i \<longleftrightarrow> length i = 43 \<and> list_all (\<lambda>c. is_ascii_alnum c \<or> c \<in> {CHR ''-'', CHR ''_''}) i"

definition store_for_organization :: "string \<Rightarrow> path \<Rightarrow> string \<Rightarrow> string + secret_store" where
  "store_for_organization kind config_dir i =
     (if \<not> sign_in_id_ok i then Inl ''Invalid organization sign-in identifier.''
      else if kind = ''keyring'' then Inr (OrganizationKeyring i)
      else if kind = ''file'' then Inr (SecretFile (organization_dir config_dir i @ [''secrets.json'']))
      else Inl ''Unknown organization secret store.'')"

definition secret_get :: "secret_faults \<Rightarrow> secret_store \<Rightarrow> string \<Rightarrow> secrets \<Rightarrow> string + string option" where
  "secret_get f st name s = (case sf_get f st name of
     Some e \<Rightarrow> Inl e
   | None \<Rightarrow> Inr (case st of
         Keyring \<Rightarrow> se_keychain s name
       | OrganizationKeyring i \<Rightarrow> se_keychain s (organization_entry i name)
       | SecretFile p \<Rightarrow> se_files s p name))"

definition secret_put :: "secret_store \<Rightarrow> string \<Rightarrow> string option \<Rightarrow> secrets \<Rightarrow> secrets" where
  "secret_put st name v s = (case st of
     Keyring \<Rightarrow> s\<lparr>se_keychain := (se_keychain s)(name := v)\<rparr>
   | OrganizationKeyring i \<Rightarrow> s\<lparr>se_keychain := (se_keychain s)(organization_entry i name := v)\<rparr>
   | SecretFile p \<Rightarrow> s\<lparr>se_files := (se_files s)(p := (se_files s p)(name := v))\<rparr>)"

definition secret_set :: "secret_faults \<Rightarrow> secret_store \<Rightarrow> string \<Rightarrow> string \<Rightarrow> secrets \<Rightarrow> (string + unit) \<times> secrets" where
  "secret_set f st name v s = (case sf_set f st name of
     Some e \<Rightarrow> (Inl e, s) | None \<Rightarrow> (Inr (), secret_put st name (Some v) s))"

definition secret_delete :: "secret_faults \<Rightarrow> secret_store \<Rightarrow> string \<Rightarrow> secrets \<Rightarrow> (string + unit) \<times> secrets" where
  "secret_delete f st name s = (case sf_delete f st name of
     Some e \<Rightarrow> (Inl e, s) | None \<Rightarrow> (Inr (), secret_put st name None s))"

text \<open>The keychain if a round trip works, else the file.\<close>

definition choose_store :: "string option \<Rightarrow> secret_faults \<Rightarrow> path \<Rightarrow> secrets \<Rightarrow> secret_store \<times> secrets" where
  "choose_store env f config_dir s =
     (if env = Some ''file'' then (SecretFile (secrets_file config_dir), s)
      else (case secret_set f Keyring ''probe'' ''ok'' s of
          (put, s1) \<Rightarrow>
            (let works = (put = Inr () \<and> secret_get f Keyring ''probe'' s1 = Inr (Some ''ok''));
                 s2 = snd (secret_delete f Keyring ''probe'' s1)
             in (if works then Keyring else SecretFile (secrets_file config_dir), s2))))"

text \<open>Two deletions, the second only after the first.\<close>

definition delete_both :: "secret_faults \<Rightarrow> secret_store \<Rightarrow> string \<Rightarrow> string \<Rightarrow> secrets \<Rightarrow> (string + unit) \<times> secrets" where
  "delete_both f st a b s = (case secret_delete f st a s of
     (Inl e, s) \<Rightarrow> (Inl e, s) | (Inr _, s) \<Rightarrow> secret_delete f st b s)"

section \<open>What a store holds\<close>

text \<open>The primary pairing's secrets: the entries of its own names, and its file.\<close>

definition primary_secrets :: "path \<Rightarrow> secrets \<Rightarrow> (string option \<times> string option) \<times> (string \<rightharpoonup> string)" where
  "primary_secrets config_dir s =
     ((se_keychain s DEVICE_KEY, se_keychain s REFRESH_TOKEN), se_files s (secrets_file config_dir))"

text \<open>A store of an organization's sign-in.\<close>

definition organization_store :: "path \<Rightarrow> secret_store \<Rightarrow> bool" where
  "organization_store config_dir st \<longleftrightarrow> (\<exists>kind i. store_for_organization kind config_dir i = Inr st)"

lemma organization_entry_other [simp]: "DEVICE_KEY \<noteq> organization_entry i name" "REFRESH_TOKEN \<noteq> organization_entry i name"
  by (simp_all add: organization_entry_def DEVICE_KEY_def REFRESH_TOKEN_def)

lemma primary_put:
  "organization_store config_dir st \<Longrightarrow> primary_secrets config_dir (secret_put st name v s) = primary_secrets config_dir s"
  by (auto simp: organization_store_def store_for_organization_def primary_secrets_def secret_put_def
      secrets_file_def organization_dir_def split: if_splits)

lemma primary_set:
  "organization_store config_dir st \<Longrightarrow> primary_secrets config_dir (snd (secret_set f st name v s)) = primary_secrets config_dir s"
  by (simp add: secret_set_def primary_put split: option.split)

lemma primary_delete:
  "organization_store config_dir st \<Longrightarrow> primary_secrets config_dir (snd (secret_delete f st name s)) = primary_secrets config_dir s"
  by (simp add: secret_delete_def primary_put split: option.split)

lemma primary_delete_both:
  "organization_store config_dir st \<Longrightarrow> primary_secrets config_dir (snd (delete_both f st a b s)) = primary_secrets config_dir s"
  using primary_delete [of config_dir st f a s] primary_delete [of config_dir st f b]
  by (auto simp: delete_both_def split: prod.splits sum.splits)

end
