(* ===== verification/Pairing.thy ===== *)
theory Pairing
  imports Secrets
begin

text \<open>
  \<open>src/auth/mod.rs\<close> and \<open>src/auth/organizations.rs\<close>: what pairing and signing in write. Writes hold a
  lock over all processes, so an operation here is one step; \<open>pairing\<close> is what is on disk and in
  the keychain. Each attempt and each logout takes the next number of \<open>pairing.gen\<close>. What the
  system refuses is in \<open>pair_faults\<close>. The device key (ring, base64) is a parameter, \<open>key_crate\<close>;
  \<open>lower\<close> is \<open>str::to_lowercase\<close>. The rest of the configuration is not here: nothing below reads
  or changes it.
\<close>

section \<open>What is saved\<close>

record organization =
  og_id :: string
  og_name :: string
  og_role :: string

record server_config =
  sv_url :: string
  sv_device :: string

record saved_organization =
  so_id :: string
  so_server :: server_config
  so_account :: organization
  so_store :: string

record token_response =
  tr_access :: string
  tr_type :: string
  tr_expires :: nat
  tr_refresh :: "string option"
  tr_device :: "string option"
  tr_scope :: "string option"
  tr_account :: "organization option"

text \<open>\<open>pr_organizations\<close> is \<open>None\<close> when there is no such file.\<close>

record pairing =
  pr_generation :: "string option"
  pr_server :: "server_config option"
  pr_store :: "string option"
  pr_secrets :: secrets
  pr_organizations :: "saved_organization list option"

record pair_faults =
  pf_lock :: "string option"
  pf_current :: "string option"
  pf_generation :: "string option"
  pf_load :: "string option"
  pf_save :: "string option"
  pf_read :: "string option"
  pf_write :: "string option"
  pf_secrets :: secret_faults

text \<open>\<open>ku_public\<close>, \<open>ku_stored\<close> of a key, and a key read back from what is stored.\<close>

record 'k key_crate =
  ku_public :: "'k \<Rightarrow> string"
  ku_stored :: "'k \<Rightarrow> string"
  ku_from :: "string \<Rightarrow> string + 'k"

record pair_env =
  pe_url :: url_crate
  pe_dbg :: "string \<Rightarrow> string"
  pe_config_dir :: path
  pe_store_env :: "string option"

section \<open>The numbers of attempts\<close>

definition saved_generation :: "pairing \<Rightarrow> nat" where
  "saved_generation p = (case pr_generation p of
     None \<Rightarrow> 0
   | Some s \<Rightarrow> (case parse_uint u64_max (trim_ws s) of None \<Rightarrow> 0 | Some n \<Rightarrow> n))"

text \<open>A file that cannot be read counts as one that is not there.\<close>

definition current_generation :: "pair_faults \<Rightarrow> pairing \<Rightarrow> nat" where
  "current_generation f p = (if pf_current f = None then saved_generation p else 0)"

definition next_generation :: "pair_faults \<Rightarrow> pairing \<Rightarrow> (string + nat) \<times> pairing" where
  "next_generation f p =
     (let n = (current_generation f p + 1) mod (u64_max + 1)
      in case pf_generation f of
           Some e \<Rightarrow> (Inl e, p)
         | None \<Rightarrow> (Inr n, p\<lparr>pr_generation := Some (show_nat n)\<rparr>))"

definition begin_attempt :: "pair_faults \<Rightarrow> pairing \<Rightarrow> (string + nat) \<times> pairing" where
  "begin_attempt f p = (case pf_lock f of Some e \<Rightarrow> (Inl e, p) | None \<Rightarrow> next_generation f p)"

definition commit_attempt ::
  "pair_faults \<Rightarrow> nat \<Rightarrow> bool \<Rightarrow> (pairing \<Rightarrow> (string + 'a) \<times> pairing) \<Rightarrow> pairing \<Rightarrow> (string + 'a) \<times> pairing" where
  "commit_attempt f attempt cancelled save_it p =
     (case pf_lock f of
        Some e \<Rightarrow> (Inl e, p)
      | None \<Rightarrow>
          if cancelled then (Inl ''pairing was cancelled'', p)
          else if current_generation f p \<noteq> attempt
          then (Inl ''a newer pairing or a logout replaced this one; start again'', p)
          else save_it p)"

section \<open>The folder pairing\<close>

definition primary_store :: "pair_env \<Rightarrow> pairing \<Rightarrow> secret_store" where
  "primary_store v p = store_for_config (pe_store_env v) (pr_store p) (pe_config_dir v)"

text \<open>An earlier pairing is forgotten wherever its secrets were, errors or not.\<close>

definition forget_earlier :: "pair_env \<Rightarrow> pair_faults \<Rightarrow> pairing \<Rightarrow> pairing" where
  "forget_earlier v f p =
     (if pr_server p = None then p
      else (let st = primary_store v p;
                s1 = snd (secret_delete (pf_secrets f) st DEVICE_KEY (pr_secrets p));
                s2 = snd (secret_delete (pf_secrets f) st REFRESH_TOKEN s1)
            in p\<lparr>pr_secrets := s2\<rparr>))"

text \<open>\<open>given\<close> is the store asked for, if any, and \<open>chats_only\<close> what the sign-in was started for.\<close>

definition the_store :: "pair_env \<Rightarrow> pair_faults \<Rightarrow> secret_store option \<Rightarrow> secrets \<Rightarrow> secret_store \<times> secrets" where
  "the_store v f given s = (case given of
     Some st \<Rightarrow> (st, s) | None \<Rightarrow> choose_store (pe_store_env v) (pf_secrets f) (pe_config_dir v) s)"

definition save_pairing ::
  "'k key_crate \<Rightarrow> pair_env \<Rightarrow> pair_faults \<Rightarrow> server_url \<Rightarrow> 'k \<Rightarrow> secret_store option \<Rightarrow> string \<Rightarrow> string
     \<Rightarrow> pairing \<Rightarrow> (string + server_config) \<times> pairing" where
  "save_pairing kc v f server key given device refresh p = (case pf_load f of
     Some e \<Rightarrow> (Inl e, p)
   | None \<Rightarrow>
       (let p = forget_earlier v f p
        in case the_store v f given (pr_secrets p) of (st, s0) \<Rightarrow>
          (case secret_set (pf_secrets f) st DEVICE_KEY (ku_stored kc key) s0 of
             (Inl e, s1) \<Rightarrow> (Inl e, p\<lparr>pr_secrets := s1\<rparr>)
           | (Inr _, s1) \<Rightarrow> (case secret_set (pf_secrets f) st REFRESH_TOKEN refresh s1 of
               (Inl e, s2) \<Rightarrow> (Inl e, p\<lparr>pr_secrets := s2\<rparr>)
             | (Inr _, s2) \<Rightarrow>
                 (let c = \<lparr>sv_url = server_origin (pe_url v) server, sv_device = device\<rparr>
                  in case pf_save f of
                       Some e \<Rightarrow> (Inl e, p\<lparr>pr_secrets := s2\<rparr>)
                     | None \<Rightarrow> (Inr c, p\<lparr>pr_secrets := s2, pr_server := Some c, pr_store := Some (secret_name st)\<rparr>))))))"

definition wait_for_pairing ::
  "'k key_crate \<Rightarrow> pair_env \<Rightarrow> pair_faults \<Rightarrow> server_url \<Rightarrow> 'k \<Rightarrow> secret_store option \<Rightarrow> bool \<Rightarrow> nat \<Rightarrow> bool
     \<Rightarrow> string + token_response \<Rightarrow> pairing \<Rightarrow> (string + server_config) \<times> pairing" where
  "wait_for_pairing kc v f server key given chats_only attempt cancelled r p =
    (if chats_only then (Inl ''Use the organization sign-in to save this grant.'', p)
     else case r of
     Inl e \<Rightarrow> (Inl e, p)
   | Inr t \<Rightarrow> commit_attempt f attempt cancelled
       (save_pairing kc v f server key given (the (tr_device t)) (the (tr_refresh t))) p)"

definition logout :: "pair_env \<Rightarrow> pair_faults \<Rightarrow> pairing \<Rightarrow> (string + bool) \<times> pairing" where
  "logout v f p = (case pf_lock f of
     Some e \<Rightarrow> (Inl e, p)
   | None \<Rightarrow> (case next_generation f p of
       (Inl e, p) \<Rightarrow> (Inl e, p)
     | (Inr _, p) \<Rightarrow> (case pf_load f of
         Some e \<Rightarrow> (Inl e, p)
       | None \<Rightarrow> (case delete_both (pf_secrets f) (primary_store v p) DEVICE_KEY REFRESH_TOKEN (pr_secrets p) of
           (Inl e, s) \<Rightarrow> (Inl e, p\<lparr>pr_secrets := s\<rparr>)
         | (Inr _, s) \<Rightarrow> (case pf_save f of
             Some e \<Rightarrow> (Inl e, p\<lparr>pr_secrets := s\<rparr>)
           | None \<Rightarrow> (Inr (pr_server p \<noteq> None), p\<lparr>pr_secrets := s, pr_server := None\<rparr>))))))"

record 'k credentials =
  cr_server :: server_url
  cr_device :: string
  cr_key :: 'k
  cr_store :: secret_store

definition load_credentials :: "'k key_crate \<Rightarrow> pair_env \<Rightarrow> pair_faults \<Rightarrow> pairing \<Rightarrow> string + 'k credentials option" where
  "load_credentials kc v f p = (case pr_server p of
     None \<Rightarrow> Inr None
   | Some c \<Rightarrow> (case secret_get (pf_secrets f) (primary_store v p) DEVICE_KEY (pr_secrets p) of
       Inl e \<Rightarrow> Inl e
     | Inr None \<Rightarrow> Inr None
     | Inr (Some stored) \<Rightarrow> (case server_url_parse (pe_url v) (pe_dbg v) (sv_url c) of
         Inl e \<Rightarrow> Inl e
       | Inr u \<Rightarrow> (case ku_from kc stored of
           Inl e \<Rightarrow> Inl e
         | Inr k \<Rightarrow> Inr (Some \<lparr>cr_server = u, cr_device = sv_device c, cr_key = k, cr_store = primary_store v p\<rparr>)))))"

section \<open>Organizations\<close>

definition organization_validate :: "organization \<Rightarrow> string + unit" where
  "organization_validate g =
     (if \<not> (length (og_id g) = 9 \<and> list_all is_ascii_digit (og_id g))
      then Inl ''The server returned an invalid organization.''
      else if \<not> (trim_ws (og_name g) \<noteq> [] \<and> length (og_name g) \<le> 1024 \<and> \<not> list_ex is_control (utf8_chars (og_name g))
           \<and> og_role g \<in> {''owner'', ''admin'', ''member'', ''guest''})
      then Inl ''The server returned invalid organization details.''
      else Inr ())"

definition saved_store :: "pair_env \<Rightarrow> saved_organization \<Rightarrow> string + secret_store" where
  "saved_store v g = store_for_organization (so_store g) (pe_config_dir v) (so_id g)"

definition saved_validate :: "pair_env \<Rightarrow> saved_organization \<Rightarrow> string + unit" where
  "saved_validate v g = (case organization_validate (so_account g) of
     Inl e \<Rightarrow> Inl e
   | Inr _ \<Rightarrow> (case saved_store v g of
       Inl e \<Rightarrow> Inl e
     | Inr _ \<Rightarrow> (case server_url_parse (pe_url v) (pe_dbg v) (sv_url (so_server g)) of
         Inl e \<Rightarrow> Inl e
       | Inr u \<Rightarrow>
           if server_origin (pe_url v) u \<noteq> sv_url (so_server g) then Inl ''Invalid saved server origin.''
           else if sv_device (so_server g) = [] \<or> 128 < length (sv_device (so_server g))
           then Inl ''Invalid saved device identifier.''
           else Inr ())))"

text \<open>The first error, if any.\<close>

fun first_error :: "(string + unit) list \<Rightarrow> string + unit" where
  "first_error [] = Inr ()"
| "first_error (Inl e # rs) = Inl e"
| "first_error (Inr _ # rs) = first_error rs"

definition list_organizations :: "pair_env \<Rightarrow> pair_faults \<Rightarrow> pairing \<Rightarrow> string + saved_organization list" where
  "list_organizations v f p = (case pr_organizations p of
     None \<Rightarrow> Inr []
   | Some os \<Rightarrow> (case pf_read f of
       Some e \<Rightarrow> Inl e
     | None \<Rightarrow> (case first_error (map (saved_validate v) os) of
         Inl e \<Rightarrow> Inl e
       | Inr _ \<Rightarrow> if distinct (map so_id os) then Inr os else Inl ''Duplicate organization sign-ins.'')))"

definition resolve_organization ::
  "(string \<Rightarrow> string) \<Rightarrow> pair_env \<Rightarrow> pair_faults \<Rightarrow> string \<Rightarrow> pairing \<Rightarrow> string + saved_organization" where
  "resolve_organization lower v f selector p = (case list_organizations v f p of
     Inl e \<Rightarrow> Inl e
   | Inr os \<Rightarrow> (case find (\<lambda>g. so_id g = selector) os of
       Some g \<Rightarrow> Inr g
     | None \<Rightarrow> (case filter (\<lambda>g. og_id (so_account g) = selector \<or> lower (og_name (so_account g)) = lower selector) os of
         [] \<Rightarrow> Inl ''No saved organization matches. Run cww organizations or cww login --organization.''
       | [g] \<Rightarrow> Inr g
       | _ \<Rightarrow> Inl ''Several saved organizations match. Use the sign-in ID from cww organizations.'')))"

definition forget_secrets :: "pair_env \<Rightarrow> pair_faults \<Rightarrow> saved_organization \<Rightarrow> secrets \<Rightarrow> (string + unit) \<times> secrets" where
  "forget_secrets v f g s = (case saved_store v g of
     Inl e \<Rightarrow> (Inl e, s)
   | Inr st \<Rightarrow> delete_both (pf_secrets f) st REFRESH_TOKEN DEVICE_KEY s)"

definition write_organizations :: "pair_faults \<Rightarrow> saved_organization list \<Rightarrow> pairing \<Rightarrow> (string + unit) \<times> pairing" where
  "write_organizations f os p = (case pf_write f of
     Some e \<Rightarrow> (Inl e, p) | None \<Rightarrow> (Inr (), p\<lparr>pr_organizations := Some os\<rparr>))"

definition CHAT_SCOPE :: string where "CHAT_SCOPE = ''desktop:chat''"

definition same_grant :: "saved_organization \<Rightarrow> saved_organization \<Rightarrow> bool" where
  "same_grant a b \<longleftrightarrow> sv_url (so_server a) = sv_url (so_server b) \<and> og_id (so_account a) = og_id (so_account b)"

text \<open>The profile a grant becomes.\<close>

definition grant_profile ::
  "'k key_crate \<Rightarrow> pair_env \<Rightarrow> server_url \<Rightarrow> 'k \<Rightarrow> token_response \<Rightarrow> string \<Rightarrow> string + saved_organization" where
  "grant_profile kc v server key t kind =
     (if map_option split_whitespace (tr_scope t) \<noteq> Some [CHAT_SCOPE]
      then Inl ''This server does not support signing in without folder sharing.''
      else (case tr_account t of
          None \<Rightarrow> Inl ''Update the server to sign in to another organization.''
        | Some account \<Rightarrow> (case tr_device t of
            None \<Rightarrow> Inl ''Missing device identifier''
          | Some device \<Rightarrow>
              (let g = \<lparr>so_id = ku_public kc key, so_server = \<lparr>sv_url = server_origin (pe_url v) server, sv_device = device\<rparr>,
                        so_account = account, so_store = kind\<rparr>
               in case saved_validate v g of Inl e \<Rightarrow> Inl e | Inr _ \<Rightarrow> Inr g))))"

definition forget_replaced :: "pair_env \<Rightarrow> pair_faults \<Rightarrow> string \<Rightarrow> saved_organization list \<Rightarrow> secrets \<Rightarrow> secrets" where
  "forget_replaced v f i replaced s =
     fold (\<lambda>old s. if so_id old \<noteq> i then snd (forget_secrets v f old s) else s) replaced s"

definition save_grant ::
  "'k key_crate \<Rightarrow> pair_env \<Rightarrow> pair_faults \<Rightarrow> server_url \<Rightarrow> 'k \<Rightarrow> token_response \<Rightarrow> string
     \<Rightarrow> pairing \<Rightarrow> (string + saved_organization) \<times> pairing" where
  "save_grant kc v f server key t kind p = (case grant_profile kc v server key t kind of
     Inl e \<Rightarrow> (Inl e, p)
   | Inr g \<Rightarrow>
       if tr_refresh t = None \<or> tr_refresh t = Some [] then (Inl ''Missing refresh credential'', p)
       else (case list_organizations v f p of
           Inl e \<Rightarrow> (Inl e, p)
         | Inr os \<Rightarrow>
             (let replaced = filter (\<lambda>x. same_grant x g) os;
                  kept = filter (\<lambda>x. \<not> same_grant x g) os @ [g]
              in case saved_store v g of
                   Inl e \<Rightarrow> (Inl e, p)
                 | Inr st \<Rightarrow> (case secret_set (pf_secrets f) st DEVICE_KEY (ku_stored kc key) (pr_secrets p) of
                     (Inl e, s) \<Rightarrow> (Inl e, p\<lparr>pr_secrets := s\<rparr>)
                   | (Inr _, s) \<Rightarrow>
                       (case (case secret_set (pf_secrets f) st REFRESH_TOKEN (the (tr_refresh t)) s of
                                (Inl e, s) \<Rightarrow> (Inl e, p\<lparr>pr_secrets := s\<rparr>)
                              | (Inr _, s) \<Rightarrow> write_organizations f kept (p\<lparr>pr_secrets := s\<rparr>)) of
                          (Inl e, p) \<Rightarrow> (Inl e, p\<lparr>pr_secrets := snd (forget_secrets v f g (pr_secrets p))\<rparr>)
                        | (Inr _, p) \<Rightarrow> (Inr g, p\<lparr>pr_secrets := forget_replaced v f (so_id g) replaced (pr_secrets p)\<rparr>))))))"

definition wait_for_organization ::
  "'k key_crate \<Rightarrow> pair_env \<Rightarrow> pair_faults \<Rightarrow> server_url \<Rightarrow> 'k \<Rightarrow> secret_store option \<Rightarrow> bool \<Rightarrow> nat \<Rightarrow> bool
     \<Rightarrow> string + token_response \<Rightarrow> pairing \<Rightarrow> (string + saved_organization) \<times> pairing" where
  "wait_for_organization kc v f server key given chats_only attempt cancelled r p =
    (if \<not> chats_only then (Inl ''This login also requested folder access.'', p)
     else case r of
     Inl e \<Rightarrow> (Inl e, p)
   | Inr t \<Rightarrow> commit_attempt f attempt cancelled
       (\<lambda>p. case the_store v f given (pr_secrets p) of (st, s) \<Rightarrow>
          save_grant kc v f server key t (secret_name st) (p\<lparr>pr_secrets := s\<rparr>)) p)"

definition forget_organization :: "pair_env \<Rightarrow> pair_faults \<Rightarrow> string \<Rightarrow> pairing \<Rightarrow> (string + bool) \<times> pairing" where
  "forget_organization v f i p = (case pf_lock f of
     Some e \<Rightarrow> (Inl e, p)
   | None \<Rightarrow> (case next_generation f p of
       (Inl e, p) \<Rightarrow> (Inl e, p)
     | (Inr _, p) \<Rightarrow> (case list_organizations v f p of
         Inl e \<Rightarrow> (Inl e, p)
       | Inr os \<Rightarrow> (case find (\<lambda>g. so_id g = i) os of
           None \<Rightarrow> (Inr False, p)
         | Some g \<Rightarrow> (case write_organizations f (remove1 g os) p of
             (Inl e, p) \<Rightarrow> (Inl e, p)
           | (Inr _, p) \<Rightarrow> (case forget_secrets v f g (pr_secrets p) of
               (Inl e, s) \<Rightarrow> (Inl e, p\<lparr>pr_secrets := s\<rparr>)
             | (Inr _, s) \<Rightarrow> (Inr True, p\<lparr>pr_secrets := s\<rparr>)))))))"

definition organization_credentials ::
  "'k key_crate \<Rightarrow> pair_env \<Rightarrow> pair_faults \<Rightarrow> saved_organization \<Rightarrow> pairing \<Rightarrow> string + 'k credentials" where
  "organization_credentials kc v f g p = (case saved_validate v g of
     Inl e \<Rightarrow> Inl e
   | Inr _ \<Rightarrow> (case saved_store v g of
       Inl e \<Rightarrow> Inl e
     | Inr st \<Rightarrow> (case secret_get (pf_secrets f) st DEVICE_KEY (pr_secrets p) of
         Inl e \<Rightarrow> Inl e
       | Inr None \<Rightarrow> Inl ''Sign in to this organization again.''
       | Inr (Some stored) \<Rightarrow> (case ku_from kc stored of
           Inl e \<Rightarrow> Inl e
         | Inr k \<Rightarrow>
             if ku_public kc k \<noteq> so_id g
             then Inl (''This organization'' @ CHR 0x27 # ''s saved key does not match.'')
             else (case server_url_parse (pe_url v) (pe_dbg v) (sv_url (so_server g)) of
                 Inl e \<Rightarrow> Inl e
               | Inr u \<Rightarrow> Inr \<lparr>cr_server = u, cr_device = sv_device (so_server g), cr_key = k, cr_store = st\<rparr>)))))"

end
