(* ===== verification/PairingFacts.thy ===== *)
theory PairingFacts
  imports Pairing
begin

text \<open>Numbers of attempts, and what each operation leaves alone.\<close>

section \<open>Numbers\<close>

lemma trim_ws_digits: "list_all is_ascii_digit s \<Longrightarrow> trim_ws s = s"
proof -
  have "trim_start ws s = s" if "list_all is_ascii_digit s" "ws \<in> {whitespace_seqs, map rev whitespace_seqs}" for s ws
  proof (cases s)
    case (Cons c t)
    with that show ?thesis
      by (intro trim_start_id) (auto simp: whitespace_seqs_def is_ascii_digit_def)
  qed (use that in \<open>auto intro!: trim_start_id simp: whitespace_seqs_def\<close>)
  moreover assume "list_all is_ascii_digit s"
  ultimately show ?thesis by (simp add: trim_ws_def)
qed

lemma saved_generation_written:
  "n \<le> u64_max \<Longrightarrow> saved_generation (p\<lparr>pr_generation := Some (show_nat n)\<rparr>) = n"
  by (simp add: saved_generation_def trim_ws_digits show_nat_digits parse_uint_show)

lemma current_generation_le: "current_generation f p \<le> u64_max"
  by (auto simp: current_generation_def saved_generation_def dest: parse_uint_le split: option.split)

text \<open>The number taken, and everything else as it was.\<close>

lemma next_generation_Inr:
  assumes "next_generation f p = (Inr n, p')"
  shows "n = (current_generation f p + 1) mod (u64_max + 1)" "saved_generation p' = n"
    "pr_server p' = pr_server p" "pr_store p' = pr_store p" "pr_secrets p' = pr_secrets p"
    "pr_organizations p' = pr_organizations p"
  using assms saved_generation_written [of n p]
  by (auto simp: next_generation_def Let_def split: option.splits)

lemma next_generation_Inl: "next_generation f p = (Inl e, p') \<Longrightarrow> p' = p"
  by (auto simp: next_generation_def Let_def split: option.splits)

text \<open>Saving does not touch the number.\<close>

lemma save_pairing_generation: "pr_generation (snd (save_pairing kc v f server key given device refresh p)) = pr_generation p"
  by (auto simp: save_pairing_def forget_earlier_def Let_def split: option.splits prod.splits sum.splits)

lemma write_organizations_parts [simp]:
  "pr_generation (snd (write_organizations f os p)) = pr_generation p"
  "pr_server (snd (write_organizations f os p)) = pr_server p"
  "pr_store (snd (write_organizations f os p)) = pr_store p"
  "pr_secrets (snd (write_organizations f os p)) = pr_secrets p"
  by (simp_all add: write_organizations_def split: option.split)

lemma save_grant_parts:
  "pr_generation (snd (save_grant kc v f server key t kind p)) = pr_generation p"
  "pr_server (snd (save_grant kc v f server key t kind p)) = pr_server p"
  "pr_store (snd (save_grant kc v f server key t kind p)) = pr_store p"
  by (auto simp: save_grant_def Let_def write_organizations_def split: option.splits prod.splits sum.splits)

lemma commit_attempt_snd:
  "snd (commit_attempt f attempt c save p) = p \<or> snd (commit_attempt f attempt c save p) = snd (save p)"
  by (auto simp: commit_attempt_def split: option.split)

lemma commit_attempt_keeps:
  "g (snd (save p)) = g p \<Longrightarrow> g (snd (commit_attempt f n c save p)) = g p"
  using commit_attempt_snd [of f n c save p] by auto

section \<open>Secrets of the folder pairing\<close>

lemma organization_storeI: "saved_store v g = Inr st \<Longrightarrow> organization_store (pe_config_dir v) st"
  by (auto simp: organization_store_def saved_store_def)

lemma forget_secrets_primary:
  "primary_secrets (pe_config_dir v) (snd (forget_secrets v f g s)) = primary_secrets (pe_config_dir v) s"
  by (auto simp: forget_secrets_def primary_delete_both organization_storeI split: sum.split)

lemma forget_replaced_primary:
  "primary_secrets (pe_config_dir v) (forget_replaced v f i gs s) = primary_secrets (pe_config_dir v) s"
proof -
  have "primary_secrets (pe_config_dir v) (fold (\<lambda>old s. if so_id old \<noteq> i then snd (forget_secrets v f old s) else s) gs s)
      = primary_secrets (pe_config_dir v) s"
    by (induction gs arbitrary: s) (simp_all add: forget_secrets_primary)
  then show ?thesis by (simp add: forget_replaced_def)
qed

lemma probe_primary [simp]:
  "primary_secrets c (secret_put Keyring ''probe'' x s) = primary_secrets c s"
  by (simp add: primary_secrets_def secret_put_def DEVICE_KEY_def REFRESH_TOKEN_def)

lemma the_store_primary: "primary_secrets c (snd (the_store v f given s)) = primary_secrets c s"
  by (auto simp: the_store_def choose_store_def secret_set_def secret_delete_def Let_def split: option.split prod.split)

lemma save_grant_primary:
  "primary_secrets (pe_config_dir v) (pr_secrets (snd (save_grant kc v f server key t kind p)))
    = primary_secrets (pe_config_dir v) (pr_secrets p)"
proof -
  have "primary_secrets (pe_config_dir v) s' = primary_secrets (pe_config_dir v) s"
    if "saved_store v g = Inr st" "secret_set (pf_secrets f) st name x s = (r, s')" for g st name x s s' r
    using primary_set [OF organization_storeI [OF that(1)], of "pf_secrets f" name x s] that(2) by simp
  then show ?thesis
    by (auto simp: save_grant_def Let_def write_organizations_def forget_secrets_primary forget_replaced_primary
        split: option.splits prod.splits sum.splits)
qed

end
