(* ===== verification/PairingClaims.thy ===== *)
theory PairingClaims
  imports PairingFacts
begin

text \<open>What pairing guarantees, in whatever order attempts, approvals and logouts come.\<close>

section \<open>Runs\<close>

datatype 'k pair_op =
    OpBegin pair_faults
  | OpWait pair_faults server_url 'k "secret_store option" bool nat bool "string + token_response"
  | OpWaitOrganization pair_faults server_url 'k "secret_store option" bool nat bool "string + token_response"
  | OpLogout pair_faults
  | OpForget pair_faults string

fun pair_step :: "'k key_crate \<Rightarrow> pair_env \<Rightarrow> 'k pair_op \<Rightarrow> pairing \<Rightarrow> pairing" where
  "pair_step kc v (OpBegin f) p = snd (begin_attempt f p)"
| "pair_step kc v (OpWait f u k given b n c r) p = snd (wait_for_pairing kc v f u k given b n c r p)"
| "pair_step kc v (OpWaitOrganization f u k given b n c r) p = snd (wait_for_organization kc v f u k given b n c r p)"
| "pair_step kc v (OpLogout f) p = snd (logout v f p)"
| "pair_step kc v (OpForget f i) p = snd (forget_organization v f i p)"

definition pair_run :: "'k key_crate \<Rightarrow> pair_env \<Rightarrow> 'k pair_op list \<Rightarrow> pairing \<Rightarrow> pairing" where
  "pair_run kc v xs p = fold (pair_step kc v) xs p"

text \<open>The operation takes the next number: an attempt, a logout, an organization forgotten.\<close>

definition numbered :: "pair_faults \<Rightarrow> bool" where
  "numbered f \<longleftrightarrow> pf_lock f = None \<and> pf_generation f = None"

fun takes_number :: "'k pair_op \<Rightarrow> bool" where
  "takes_number (OpBegin f) = numbered f"
| "takes_number (OpLogout f) = numbered f"
| "takes_number (OpForget f i) = numbered f"
| "takes_number _ = False"

text \<open>What takes a number could read the last one.\<close>

fun reads_number :: "'k pair_op \<Rightarrow> bool" where
  "reads_number (OpBegin f) \<longleftrightarrow> pf_current f = None"
| "reads_number (OpLogout f) \<longleftrightarrow> pf_current f = None"
| "reads_number (OpForget f i) \<longleftrightarrow> pf_current f = None"
| "reads_number _ = True"

section \<open>Only the latest attempt saves\<close>

lemma generation_same: "pr_generation p' = pr_generation p \<Longrightarrow> saved_generation p' = saved_generation p"
  by (simp add: saved_generation_def)

lemma next_generation_saved:
  "saved_generation (snd (next_generation f p)) =
     (if pf_generation f = None then (current_generation f p + 1) mod (u64_max + 1) else saved_generation p)"
proof -
  have "(current_generation f p + 1) mod (u64_max + 1) < u64_max + 1" by (rule mod_less_divisor) simp
  then have "(current_generation f p + 1) mod (u64_max + 1) \<le> u64_max" by linarith
  from saved_generation_written [OF this, of p] show ?thesis
    by (simp add: next_generation_def Let_def split: option.split)
qed

lemma logout_generation:
  "saved_generation (snd (logout v f p)) =
     (if pf_lock f = None then saved_generation (snd (next_generation f p)) else saved_generation p)"
  by (auto simp: logout_def split: option.splits prod.splits sum.splits intro!: generation_same)

lemma forget_generation:
  "saved_generation (snd (forget_organization v f i p)) =
     (if pf_lock f = None then saved_generation (snd (next_generation f p)) else saved_generation p)"
  by (auto simp: forget_organization_def write_organizations_def split: option.splits prod.splits sum.splits intro!: generation_same)

lemma commit_generation:
  assumes "\<And>p. pr_generation (snd (save p)) = pr_generation p"
  shows "saved_generation (snd (commit_attempt f n c save p)) = saved_generation p"
  using commit_attempt_snd [of f n c save p] assms by (auto intro: generation_same)

lemma pair_step_generation:
  assumes "reads_number x"
  shows "saved_generation (pair_step kc v x p) =
     (if takes_number x then (saved_generation p + 1) mod (u64_max + 1) else saved_generation p)"
proof (cases x)
  case (OpBegin f)
  with assms show ?thesis
    by (auto simp: begin_attempt_def next_generation_saved numbered_def current_generation_def split: option.split)
next
  case (OpWait f u k given b n c r)
  then show ?thesis
    by (auto simp: wait_for_pairing_def save_pairing_generation split: sum.split intro!: commit_generation)
next
  case (OpWaitOrganization f u k given b n c r)
  then show ?thesis
    by (auto simp: wait_for_organization_def save_grant_parts split: sum.split prod.split intro!: commit_generation)
next
  case (OpLogout f)
  with assms show ?thesis
    by (simp add: logout_generation next_generation_saved numbered_def current_generation_def)
next
  case (OpForget f i)
  with assms show ?thesis
    by (simp add: forget_generation next_generation_saved numbered_def current_generation_def)
qed

lemma pair_run_generation:
  "saved_generation p + length xs \<le> u64_max \<Longrightarrow> list_all reads_number xs \<Longrightarrow>
     saved_generation (pair_run kc v xs p) = saved_generation p + length (filter takes_number xs)"
proof (induction xs arbitrary: p)
  case (Cons x xs)
  then have "saved_generation (pair_step kc v x p) = (if takes_number x then saved_generation p + 1 else saved_generation p)"
    by (simp add: pair_step_generation)
  with Cons.IH [of "pair_step kc v x p"] Cons.prems show ?case by (simp add: pair_run_def)
qed (simp add: pair_run_def)

lemma other_number_saves_nothing:
  assumes "saved_generation q \<noteq> attempt" and "0 < attempt"
  shows "\<exists>e. commit_attempt f attempt c save q = (Inl e, q)"
  using assms by (auto simp: commit_attempt_def current_generation_def split: option.split)

text \<open>
  C37: An approval that comes late saves nothing: once another attempt has begun, or the person has
  logged out or forgotten an organization, neither kind of sign-in under the older number changes
  anything on disk or in the keychain. It is so while what takes a number can read the last one; whether
  the late approval can does not matter.
\<close>

theorem late_approvals_save_nothing:
  assumes begun: "begin_attempt f0 p = (Inr attempt, p0)"
    and superseded: "list_ex takes_number xs" and readable: "list_all reads_number xs"
    and room: "saved_generation p + length xs < u64_max"
    and now: "pair_run kc v xs p0 = q"
  shows "snd (wait_for_pairing kc v f u k given chats_only attempt c r q) = q
    \<and> snd (wait_for_organization kc v f' u' k' given' chats_only' attempt c' r' q) = q
    \<and> (case (wait_for_pairing kc v f u k given chats_only attempt c r q,
             wait_for_organization kc v f' u' k' given' chats_only' attempt c' r' q) of
         ((Inl e, _), (Inl e', _)) \<Rightarrow> True | _ \<Rightarrow> False)"
proof -
  from begun have "next_generation f0 p = (Inr attempt, p0)"
    by (auto simp: begin_attempt_def split: option.splits)
  from next_generation_Inr(1,2) [OF this] room have
    n: "attempt = current_generation f0 p + 1" "saved_generation p0 = attempt" "attempt + length xs \<le> u64_max"
    by (auto simp: current_generation_def split: if_splits)
  from superseded have "0 < length (filter takes_number xs)" by (auto simp: list_ex_iff filter_empty_conv)
  with pair_run_generation [of p0 xs kc v] n readable now have other: "saved_generation q \<noteq> attempt" "0 < attempt"
    by simp_all
  have "\<exists>e. wait_for_pairing kc v f u k given chats_only attempt c r q = (Inl e, q)"
    using other_number_saves_nothing [OF other] by (auto simp: wait_for_pairing_def split: sum.split)
  moreover have "\<exists>e. wait_for_organization kc v f' u' k' given' chats_only' attempt c' r' q = (Inl e, q)"
    using other_number_saves_nothing [OF other] by (auto simp: wait_for_organization_def split: sum.split)
  ultimately show ?thesis by auto
qed

definition no_faults :: pair_faults where
  "no_faults = \<lparr>pf_lock = None, pf_current = None, pf_generation = None, pf_load = None, pf_save = None, pf_read = None, pf_write = None,
     pf_secrets = \<lparr>sf_get = \<lambda>_ _. None, sf_set = \<lambda>_ _. None, sf_delete = \<lambda>_ _. None\<rparr>\<rparr>"

definition unpaired :: pairing where
  "unpaired = \<lparr>pr_generation = None, pr_server = None, pr_store = None,
     pr_secrets = \<lparr>se_keychain = (\<lambda>_. None), se_files = (\<lambda>_ _. None)\<rparr>, pr_organizations = None\<rparr>"


definition demo_keys :: "string key_crate" where
  "demo_keys = \<lparr>ku_public = (\<lambda>k. k), ku_stored = (\<lambda>k. CHR ''#'' # k), ku_from = (\<lambda>s. Inr (tl s))\<rparr>"

definition demo_origin :: server_url where
  "demo_origin = \<lparr>origin_url = \<lparr>url_scheme = ''https'', url_username = [], url_password = None, url_host = Some (Domain ''w.x''),
     url_port_or_default = Some 443, url_path = ''/'', url_query = None, url_fragment = None\<rparr>\<rparr>"

definition demo_pair_env :: pair_env where
  "demo_pair_env = \<lparr>pe_url = \<lparr>url_parse = (\<lambda>_. Inr (origin_url demo_origin)), url_text = (\<lambda>_. ''https://w.x/'')\<rparr>, pe_dbg = (\<lambda>s. s),
     pe_config_dir = [''c''], pe_store_env = None\<rparr>"

definition demo_key :: string where "demo_key = replicate 43 (CHR ''k'')"

definition demo_token :: token_response where
  "demo_token = \<lparr>tr_access = ''a'', tr_type = ''DPoP'', tr_expires = 600, tr_refresh = Some ''r'', tr_device = Some ''42'',
     tr_scope = Some ''desktop:chat'', tr_account = Some \<lparr>og_id = ''123456789'', og_name = ''Demo'', og_role = ''member''\<rparr>\<rparr>"

lemma demo_begin: "begin_attempt no_faults unpaired = (Inr 1, unpaired\<lparr>pr_generation := Some (show_nat 1)\<rparr>)"
  by (simp add: begin_attempt_def next_generation_def no_faults_def unpaired_def current_generation_def saved_generation_def)

theorem late_approvals_save_nothing_witness:
  "let q = pair_run demo_keys demo_pair_env [OpLogout no_faults] (unpaired\<lparr>pr_generation := Some (show_nat 1)\<rparr>)
   in snd (wait_for_pairing demo_keys demo_pair_env no_faults demo_origin demo_key None False 1 False (Inr demo_token) q) = q"
proof -
  have "saved_generation unpaired + length [OpLogout no_faults :: string pair_op] < u64_max"
    by (simp add: saved_generation_def unpaired_def)
  from late_approvals_save_nothing [OF demo_begin _ _ this refl, where kc = demo_keys and v = demo_pair_env
      and f = no_faults and u = demo_origin and k = demo_key and given = None and chats_only = False
      and c = False and r = "Inr demo_token"]
  show ?thesis by (simp add: numbered_def no_faults_def Let_def)
qed

text \<open>
  A logout that cannot read the last number starts over at one, so a late approval of the first
  attempt there ever was brings the pairing back.
\<close>

theorem unreadable_numbers_let_late_approvals_save:
  "let q = pair_run demo_keys demo_pair_env [OpLogout (no_faults\<lparr>pf_current := Some ''input/output error''\<rparr>)]
         (unpaired\<lparr>pr_generation := Some (show_nat 1)\<rparr>)
   in pr_server q = None
     \<and> pr_server (snd (wait_for_pairing demo_keys demo_pair_env no_faults demo_origin demo_key (Some Keyring)
         False 1 False (Inr demo_token) q)) \<noteq> None"
proof -
  let ?f = "no_faults\<lparr>pf_current := Some ''input/output error''\<rparr>" and ?p = "unpaired\<lparr>pr_generation := Some (show_nat 1)\<rparr>"
  have f: "pf_lock no_faults = None" "pf_generation no_faults = None" "pf_load no_faults = None" "pf_save no_faults = None"
    "pf_current no_faults = None" "sf_set (pf_secrets no_faults) st k = None" "sf_delete (pf_secrets no_faults) st k = None" for st k
    by (simp_all add: no_faults_def)
  have "next_generation ?f ?p = (Inr 1, ?p)"
    by (simp add: next_generation_def current_generation_def f unpaired_def)
  moreover obtain s where "delete_both (pf_secrets no_faults) (primary_store demo_pair_env ?p) DEVICE_KEY REFRESH_TOKEN (pr_secrets ?p)
      = (Inr (), s)" by (auto simp: delete_both_def secret_delete_def f)
  ultimately have q: "snd (logout demo_pair_env ?f ?p) = ?p\<lparr>pr_secrets := s, pr_server := None\<rparr>"
    by (simp add: logout_def f)
  have "saved_generation (?p\<lparr>pr_secrets := s, pr_server := None\<rparr>) = 1"
    using saved_generation_written [of 1 unpaired] by (simp add: saved_generation_def)
  then have "pr_server (snd (wait_for_pairing demo_keys demo_pair_env no_faults demo_origin demo_key (Some Keyring)
         False 1 False (Inr demo_token) (?p\<lparr>pr_secrets := s, pr_server := None\<rparr>))) \<noteq> None"
    by (simp add: wait_for_pairing_def commit_attempt_def current_generation_def f save_pairing_def forget_earlier_def
        the_store_def secret_set_def Let_def)
  with q show ?thesis by (simp add: pair_run_def Let_def)
qed

section \<open>Organizations stay apart\<close>

text \<open>The folder pairing: the server, the store and its secrets.\<close>

definition folder_pairing :: "pair_env \<Rightarrow> pairing
    \<Rightarrow> server_config option \<times> string option \<times> (string option \<times> string option) \<times> (string \<rightharpoonup> string)" where
  "folder_pairing v p = (pr_server p, pr_store p, primary_secrets (pe_config_dir v) (pr_secrets p))"

definition organization_op :: "'k pair_op \<Rightarrow> bool" where
  "organization_op x \<longleftrightarrow> (case x of OpBegin f \<Rightarrow> True | OpWaitOrganization f u k given b n c r \<Rightarrow> True | OpForget f i \<Rightarrow> True | _ \<Rightarrow> False)"

lemma next_generation_folder [simp]: "folder_pairing v (snd (next_generation f p)) = folder_pairing v p"
  by (auto simp: next_generation_def Let_def folder_pairing_def split: option.split)

lemma wait_for_organization_folder:
  "folder_pairing v (snd (wait_for_organization kc v f u k given b n c r p)) = folder_pairing v p"
proof -
  have "folder_pairing v (snd (case the_store v f given (pr_secrets p) of (st, s) \<Rightarrow>
      save_grant kc v f u k t (secret_name st) (p\<lparr>pr_secrets := s\<rparr>))) = folder_pairing v p" for t
    using the_store_primary [of "pe_config_dir v" v f given "pr_secrets p"]
    by (cases "the_store v f given (pr_secrets p)") (simp add: folder_pairing_def save_grant_parts save_grant_primary)
  then show ?thesis
    by (auto simp: wait_for_organization_def split: sum.split intro: commit_attempt_keeps [where g = "folder_pairing v"])
qed

lemma forget_organization_folder:
  "folder_pairing v (snd (forget_organization v f i p)) = folder_pairing v p"
proof (cases "next_generation f p")
  case (Pair r p1)
  then have p1: "folder_pairing v p1 = folder_pairing v p" using next_generation_folder [of v f p] by simp
  have w: "pr_secrets (snd (write_organizations f gs p1)) = pr_secrets p1" for gs by simp
  have "primary_secrets (pe_config_dir v) s' = primary_secrets (pe_config_dir v) s"
    if "forget_secrets v f g s = (r', s')" for g s s' r'
    using forget_secrets_primary [of v f g s] that by simp
  with Pair p1 show ?thesis
    by (auto simp: forget_organization_def folder_pairing_def write_organizations_def
        split: option.splits prod.splits sum.splits)
qed

text \<open>
  C13: Signing in to organizations and forgetting them never changes the folder pairing: not its
  server, its device, its store nor its key and refresh credential, whatever fails on the way.
\<close>

theorem sign_ins_leave_the_folder_pairing:
  assumes "list_all organization_op xs"
  shows "folder_pairing v (pair_run kc v xs p) = folder_pairing v p"
  using assms
proof (induction xs arbitrary: p)
  case (Cons x xs)
  have "folder_pairing v (pair_step kc v x p) = folder_pairing v p"
    using Cons.prems
    by (cases x) (simp_all add: organization_op_def begin_attempt_def wait_for_organization_folder
        forget_organization_folder split: option.split)
  with Cons show ?case by (simp add: pair_run_def)
qed (simp add: pair_run_def)

theorem sign_ins_leave_the_folder_pairing_witness:
  "folder_pairing demo_pair_env (pair_run demo_keys demo_pair_env
      [OpBegin no_faults, OpWaitOrganization no_faults demo_origin demo_key None True 1 False (Inr demo_token)] unpaired)
    = folder_pairing demo_pair_env unpaired"
  by (rule sign_ins_leave_the_folder_pairing) (simp add: organization_op_def)

end
