(* ===== verification/Spec2Isabelle.thy ===== *)
theory Spec2Isabelle
  imports Limits Roots DeliveryReceipts SessionFacts Tunnel Presence AuditLog Kinds ToolFacts ChangeClaims
    ProxyClaims CommandAnswers FollowClaims CrashClaims TrashClaims
    SupervisorClaims Broker ComposerFacts Streaming
    IndexerClaims ExtractFacts PairingClaims
begin

text \<open>
  A model of the Chat with Work local agent (\<open>cww\<close>), the daemon that lets a server's models use
  folders a person shares from their computer. Paths below are under \<open>src/\<close> of the repository.

  \<^bold>\<open>The program.\<close> A computer is paired with an organization (\<open>auth/\<close>). The daemon opens a WebSocket
  to the server (\<open>tunnel/\<close>), through a proxy where there is one (\<open>proxy.rs\<close>), takes MCP messages off
  it and serves four read tools, seven change tools and four command tools (\<open>tools.rs\<close>). A call
  passes the admission of bots, the pause switch and the limiter (\<open>limits.rs\<close>); then the reader
  (\<open>reader/\<close>), the writer (\<open>writer/\<close>) or the runs (\<open>commands/\<close>) resolve tool paths
  (\<open>reader/safe_fs/\<close>) in the folders of the configuration (\<open>config.rs\<close>, \<open>roots.rs\<close>) under the deny
  list (\<open>policy.rs\<close>), and it ends in the audit log (\<open>audit.rs\<close>). What a change replaces or deletes
  goes to the trash (\<open>trash/\<close>). A worker keeps the search index in line with the disk
  (\<open>reader/indexer.rs\<close>, \<open>walk.rs\<close>, \<open>extract.rs\<close>). Local clients watch chats through the same
  connection (\<open>chats.rs\<close>), and notifications are shown by helpers that report back
  (\<open>notification_delivery.rs\<close>, \<open>notifications/\<close>, \<open>notification_presence.rs\<close>).

  \<^bold>\<open>The theories,\<close> each about the files its opening text names. Theories ending in \<open>Facts\<close> hold the
  lemmas of a component, those ending in \<open>Claims\<close> its main theorems with concrete runs.
  \<^item> Foundations. \<open>Prelude\<close>: strings as UTF-8 bytes, association lists for hash maps, and the locale
    \<open>invariant_system\<close> of the state machines. \<open>StdText\<close>: Rust's text functions. \<open>Errors\<close>, \<open>Config\<close>,
    \<open>Json\<close>: error codes, the configured folders, loans and limits, and \<open>serde_json\<close>'s values.
    \<open>Polling\<close>: loops that look and sleep until a deadline, with the locale \<open>polling\<close>. \<open>Lines\<close>:
    bounded lines off a stream.
  \<^item> What is allowed. \<open>Limits\<close>: the sliding windows of calls, reads and changes, with the locale
    \<open>sliding_window\<close>; the pruned queues are related to the full history. \<open>Policy\<close>: deny patterns,
    with the contract \<open>deny_contract\<close>. \<open>ToolPath\<close>: tool paths, with the contract \<open>path_parser\<close>.
    \<open>Roots\<close>: sharing and lending folders, with invariants over all runs. \<open>Kinds\<close>: which names and
    texts a change may produce.
  \<^item> Reading. \<open>Reader\<close>: the four read operations, the cache and grep, with the agreement lemmas: an
    answer depends on the folders it names only. \<open>Walk\<close>, \<open>Extract\<close>, \<open>Indexer\<close>: the files of a
    folder, their text, and the worker that indexes them; a scan leaves the index as the disk is, a
    partial scan as a whole one would, and no reported change is forgotten.
  \<^item> Changes. \<open>Disk\<close>: directories held open and the system calls, each of which may fail. \<open>Writer\<close>,
    \<open>Changes\<close>: the seven change tools. \<open>DiskFacts\<close> has the Hoare triples they are reasoned about
    with, \<open>ChangeFacts\<close> and \<open>ChangeResults\<close> what changes keep and do. \<open>Trash\<close>: where items go.
  \<^item> Commands. \<open>RunPlan\<close>: what a run may do. \<open>RunCell\<close>, \<open>Runs\<close>: its output and the record of runs.
    \<open>RunThread\<close>: its thread. \<open>Channel\<close>, \<open>CommandTools\<close>: the calls to the supervisor and the tools.
    \<open>RunReads\<close>: reading output in pieces. \<open>Follow\<close>: what the windows show of it. The runs are a
    state machine, and what the thread does are steps of it.
  \<^item> Tools. \<open>ToolData\<close>, \<open>Tools\<close>: arguments and results, and a whole tool call.
  \<^item> Connection. \<open>Server\<close>, \<open>NetAddr\<close>, \<open>Proxy\<close>: where the server is and how it is reached. \<open>Framing\<close>,
    with the locale \<open>subscription\<close>, \<open>Session\<close>, with the locale \<open>session_invariant\<close>, and \<open>Tunnel\<close>:
    frames, the event loop of a connection as a step function over its branches, and the loop that
    reconnects. \<open>Chats\<close>: the hub local clients watch chats through, with the locale \<open>refcount\<close>.
  \<^item> Notifications. \<open>Protocol\<close>, \<open>Delivery\<close>, \<open>DeliveryActor\<close>, \<open>DeliveryReceipts\<close>, \<open>DeliveryClient\<close>:
    the bridge to the server, the task that owns it and the daemon's side. \<open>Supervisor\<close>, \<open>Broker\<close>:
    the task that owns the helper process, and that process. \<open>Presence\<close>: which chat a window shows.
  \<^item> Pairing. \<open>Secrets\<close>: the keychain and the file that stands in for it. \<open>Pairing\<close>: attempts,
    approvals, logging out, the saved organizations.
  \<^item> The rest. \<open>AuditLog\<close>: the log and its rotation. \<open>CrashReports\<close>: consent and what is sent.
    \<open>Composer\<close>, \<open>Streaming\<close>: the line editor and the assembly of answers of the terminal.

  \<^bold>\<open>Conventions.\<close> State is a record that operations take and return. Clocks are inputs: an
  operation takes the instant the code reads, in nanoseconds. Errors are the left of a sum, and
  every early return of the code is a branch; a panic is \<open>None\<close>. Machine integers are \<open>nat\<close>, \<open>int\<close>
  or \<open>word\<close>; where a sum of naturals can pass the width, the wrap-around of release builds is
  written out (\<open>sum_u64\<close>, \<open>wrap\<close>, \<open>saturating_add_u64\<close>).

  \<^bold>\<open>Loops\<close> are structural or have a measure, except these. \<open>inspect_tree\<close> and \<open>copy_tree\<close> descend as
  many levels as \<open>MAX_DEPTH\<close> and \<open>free_name\<close> tries 16 names, which are the code's own limits, with
  its errors when they are reached. \<open>poll_loop\<close> gets \<open>follow_fuel\<close> turns; the locale \<open>polling\<close>
  shows that no more fit before the deadline. \<open>read_all\<close> gets one more than the characters of the
  output, which its theorem shows is enough, and so does \<open>read_commands\<close> with the bytes of its
  input (\<open>read_commands_fuel\<close>).

  \<^bold>\<open>Parameters.\<close> What is not in the repository is an argument: \<open>serde_json\<close>'s parser and printer,
  globset, the Unicode tables, tantivy and grep's matcher, \<open>url\<close>, \<open>ignore\<close>, the document parsers,
  the \<open>time\<close> crate, rmcp, the keychain, sockets, system calls and clocks; so are the parts of the
  repository that are not modelled where a modelled part calls them (the sandbox, opening files).
  Theorems state pointwise what they need of them.

  \<^bold>\<open>Not modelled.\<close> The desktop application, the scanner and the other pages of the terminal
  (presentation and devices); the start of the daemon and its control socket beyond the checks of
  chat requests; the service; the sandbox and the Windows and macOS back ends of the safe file
  system and the trash (system calls); the requests of the authentication client and its tokens and
  keys (HTTP and cryptography); queries to the index (tantivy); and the clients that fetch a list
  from the server and print it.
\<close>

end
